(* ===== verification/Prelude.thy ===== *)
theory Prelude
  imports Main "HOL-Library.AList" "HOL-Library.List_Lexorder" "HOL-Library.Char_ord"
begin

text \<open>
  Shared base of the development. It holds the Go string operations the modelled code calls
  (package \<^verbatim>\<open>strings\<close>, on byte strings), the state-and-error composition that stands for
  Go's \<open>if err != nil { return err }\<close>, the robot's return codes, and the fact collections the
  component theories fill.

  A Go string is a list of bytes and is modelled by \<open>string\<close> (a list of \<open>char\<close>, one byte each).
  White space and case folding are those of ASCII: Go also treats some multi-byte code points
  as space or as case variants, and the model leaves those bytes alone.
\<close>

named_theorems go_string \<open>the Go string operations, unfolded\<close>
named_theorems step_defs \<open>definitions of the operations of a state machine\<close>
named_theorems inv_intro \<open>preservation of component invariants\<close>

subsection \<open>Go's strings package\<close>

definition isSpaceByte :: "char \<Rightarrow> bool" where
  "isSpaceByte c \<longleftrightarrow> c = CHR 0x20 \<or> c = CHR 0x09 \<or> c = CHR 0x0A \<or> c = CHR 0x0B \<or> c = CHR 0x0C \<or> c = CHR 0x0D"

definition trimLeftBy :: "(char \<Rightarrow> bool) \<Rightarrow> string \<Rightarrow> string" where
  "trimLeftBy p s = dropWhile p s"

definition trimRightBy :: "(char \<Rightarrow> bool) \<Rightarrow> string \<Rightarrow> string" where
  "trimRightBy p s = rev (dropWhile p (rev s))"

definition trimSpace :: "string \<Rightarrow> string" where
  "trimSpace s = trimRightBy isSpaceByte (trimLeftBy isSpaceByte s)"

definition hasPrefix :: "string \<Rightarrow> string \<Rightarrow> bool" where
  "hasPrefix s p \<longleftrightarrow> take (length p) s = p"

definition hasSuffix :: "string \<Rightarrow> string \<Rightarrow> bool" where
  "hasSuffix s p \<longleftrightarrow> hasPrefix (rev s) (rev p)"

definition trimPrefix :: "string \<Rightarrow> string \<Rightarrow> string" where
  "trimPrefix s p = (if hasPrefix s p then drop (length p) s else s)"

definition trimSuffix :: "string \<Rightarrow> string \<Rightarrow> string" where
  "trimSuffix s p = (if hasSuffix s p then take (length s - length p) s else s)"

definition containsByte :: "string \<Rightarrow> char \<Rightarrow> bool" where
  "containsByte s c \<longleftrightarrow> c \<in> set s"

fun containsStr :: "string \<Rightarrow> string \<Rightarrow> bool" where
  "containsStr [] sub \<longleftrightarrow> sub = []"
| "containsStr (c # cs) sub \<longleftrightarrow> hasPrefix (c # cs) sub \<or> containsStr cs sub"

fun indexByte :: "string \<Rightarrow> char \<Rightarrow> nat option" where
  "indexByte [] c = None"
| "indexByte (x # xs) c = (if x = c then Some 0 else map_option Suc (indexByte xs c))"

fun splitByte :: "char \<Rightarrow> string \<Rightarrow> string list" where
  "splitByte c [] = [[]]"
| "splitByte c (x # xs) =
     (if x = c then [] # splitByte c xs
      else (case splitByte c xs of [] \<Rightarrow> [[x]] | p # ps \<Rightarrow> (x # p) # ps))"

function splitStr :: "string \<Rightarrow> string \<Rightarrow> string list" where
  "splitStr sep s =
     (if sep \<noteq> [] \<and> hasPrefix s sep then [] # splitStr sep (drop (length sep) s)
      else (case s of
              [] \<Rightarrow> [[]]
            | x # xs \<Rightarrow> (case splitStr sep xs of [] \<Rightarrow> [[x]] | p # ps \<Rightarrow> (x # p) # ps)))"
  by pat_completeness auto
termination
proof (relation "measure (\<lambda>(sep, s). length s)")
  fix sep s :: string
  assume "sep \<noteq> [] \<and> hasPrefix s sep"
  then have "s \<noteq> []" and "sep \<noteq> []" by (auto simp: hasPrefix_def)
  then show "((sep, drop (length sep) s), sep, s) \<in> measure (\<lambda>(sep, s). length s)"
    by (simp add: diff_less)
qed auto

declare splitStr.simps [simp del]

fun joinWith :: "string \<Rightarrow> string list \<Rightarrow> string" where
  "joinWith sep [] = []"
| "joinWith sep [x] = x"
| "joinWith sep (x # y # ys) = x @ sep @ joinWith sep (y # ys)"

function fieldsBy :: "(char \<Rightarrow> bool) \<Rightarrow> string \<Rightarrow> string list" where
  "fieldsBy p [] = []"
| "fieldsBy p (c # cs) =
     (if p c then fieldsBy p cs
      else (c # takeWhile (\<lambda>x. \<not> p x) cs) # fieldsBy p (dropWhile (\<lambda>x. \<not> p x) cs))"
  by pat_completeness auto
termination
  by (relation "measure (\<lambda>(p, s). length s)") (auto simp: le_imp_less_Suc length_dropWhile_le)

definition goFields :: "string \<Rightarrow> string list" where
  "goFields s = fieldsBy isSpaceByte s"

definition lowerByte :: "char \<Rightarrow> char" where
  "lowerByte c = (let n = of_char c :: nat in if 65 \<le> n \<and> n \<le> 90 then char_of (n + 32) else c)"

definition upperByte :: "char \<Rightarrow> char" where
  "upperByte c = (let n = of_char c :: nat in if 97 \<le> n \<and> n \<le> 122 then char_of (n - 32) else c)"

definition toLower :: "string \<Rightarrow> string" where
  "toLower s = map lowerByte s"

text \<open>Trimming and lowering a name gives its canonical form, which stays as it is.\<close>

lemma lower_chars:
  "isSpaceByte (lowerByte c) = isSpaceByte c" "lowerByte (lowerByte c) = lowerByte c"
proof -
  have lt: "(of_char c :: nat) < 256" by simp
  consider "lowerByte c = c" | n where "65 \<le> n" "n \<le> 90" "c = char_of (n :: nat)" "lowerByte c = char_of (n + 32)"
    unfolding lowerByte_def Let_def by (metis char_of_char)
  then show "isSpaceByte (lowerByte c) = isSpaceByte c" "lowerByte (lowerByte c) = lowerByte c"
    by (cases; simp add: isSpaceByte_def char_of_eq_iff take_bit_eq_mod lowerByte_def of_char_of)+
qed

lemma trim_rev: "zs = dropWhile p xs \<Longrightarrow> dropWhile p (rev (dropWhile p (rev zs))) = rev (dropWhile p (rev zs))"
proof (cases zs)
  assume z: "zs = dropWhile p xs"
  case (Cons y ys)
  then have y: "\<not> p y" using z by (metis dropWhile_eq_Cons_conv)
  have "dropWhile p (rev ys @ [y]) = dropWhile p (rev ys) @ [y]"
    using y by (induction ys rule: rev_induct) auto
  then show ?thesis using Cons y by simp
qed simp

lemma trimSpace_twice: "trimSpace (trimSpace s) = trimSpace s"
  by (simp add: trimSpace_def trimLeftBy_def trimRightBy_def trim_rev [OF refl])

lemma toLower_trim: "trimSpace (toLower s) = toLower (trimSpace s)"
proof -
  have "isSpaceByte \<circ> lowerByte = isSpaceByte" by (rule ext) (simp add: lower_chars)
  then show ?thesis by (simp add: trimSpace_def trimLeftBy_def trimRightBy_def toLower_def dropWhile_map rev_map)
qed

lemma lower_trim_twice: "toLower (trimSpace (toLower (trimSpace s))) = toLower (trimSpace s)"
  by (simp add: toLower_trim trimSpace_twice) (simp add: toLower_def lower_chars)

definition equalFold :: "string \<Rightarrow> string \<Rightarrow> bool" where
  "equalFold a b \<longleftrightarrow> toLower a = toLower b"

fun decDigits :: "nat \<Rightarrow> string" where
  "decDigits n = (if n < 10 then [char_of (48 + n)] else decDigits (n div 10) @ [char_of (48 + n mod 10)])"

declare decDigits.simps [simp del]

definition fmtInt :: "int \<Rightarrow> string" where
  "fmtInt i = (if i < 0 then CHR ''-'' # decDigits (nat (- i)) else decDigits (nat i))"

definition hexDigit :: "nat \<Rightarrow> char" where
  "hexDigit n = (if n < 10 then char_of (48 + n) else char_of (87 + n))"

text \<open>The verb \<^verbatim>\<open>%q\<close> of \<^verbatim>\<open>fmt\<close>: a double-quoted Go literal (\<open>strconv.Quote\<close>) on ASCII bytes.\<close>

definition quoteByte :: "char \<Rightarrow> string" where
  "quoteByte c = (let n = of_char c :: nat in
     if n = 34 then [CHR 0x5C, CHR 0x22]
     else if n = 92 then [CHR 0x5C, CHR 0x5C]
     else if n = 7 then [CHR 0x5C, CHR ''a'']
     else if n = 8 then [CHR 0x5C, CHR ''b'']
     else if n = 12 then [CHR 0x5C, CHR ''f'']
     else if n = 10 then [CHR 0x5C, CHR ''n'']
     else if n = 13 then [CHR 0x5C, CHR ''r'']
     else if n = 9 then [CHR 0x5C, CHR ''t'']
     else if n = 11 then [CHR 0x5C, CHR ''v'']
     else if n < 32 \<or> n = 127 then [CHR 0x5C, CHR ''x'', hexDigit (n div 16), hexDigit (n mod 16)]
     else [c])"

definition goQuote :: "string \<Rightarrow> string" where
  "goQuote s = [CHR 0x22] @ concat (map quoteByte s) @ [CHR 0x22]"

subsection \<open>Lemmas on the string operations\<close>

lemma hasPrefix_append [simp]: "hasPrefix (p @ s) p"
  by (simp add: hasPrefix_def)

lemma hasPrefix_iff: "hasPrefix s p \<longleftrightarrow> (\<exists>t. s = p @ t)"
proof
  assume "hasPrefix s p"
  then have "s = p @ drop (length p) s"
    unfolding hasPrefix_def using append_take_drop_id [of "length p" s] by simp
  then show "\<exists>t. s = p @ t" ..
qed auto

lemma hasPrefix_Nil [simp]: "hasPrefix s []"
  by (simp add: hasPrefix_def)

lemma hasPrefix_single [simp]: "hasPrefix (c # cs) [d] \<longleftrightarrow> c = d"
  by (simp add: hasPrefix_def)

lemma hasPrefix_Nil_left [simp]: "hasPrefix [] p \<longleftrightarrow> p = []"
  by (auto simp: hasPrefix_def)

lemma splitByte_ne [simp]: "splitByte c s \<noteq> []"
  by (induction s) (auto split: list.splits)

lemma splitStr_Nil: "splitStr sep [] = [[]]"
  by (simp add: splitStr.simps [of sep "[]"])

lemma splitStr_hit: "sep \<noteq> [] \<Longrightarrow> splitStr sep (sep @ s) = [] # splitStr sep s"
  by (simp add: splitStr.simps [of sep "sep @ s"])

lemma splitStr_miss:
  "\<not> (sep \<noteq> [] \<and> hasPrefix (x # xs) sep) \<Longrightarrow>
   splitStr sep (x # xs) = (case splitStr sep xs of [] \<Rightarrow> [[x]] | p # ps \<Rightarrow> (x # p) # ps)"
  by (subst splitStr.simps) auto

lemma splitStr_ne [simp]: "splitStr sep s \<noteq> []"
proof (cases s)
  case Nil
  then show ?thesis by (simp add: splitStr_Nil)
next
  case (Cons x xs)
  show ?thesis
  proof (cases "sep \<noteq> [] \<and> hasPrefix s sep")
    case True
    then show ?thesis by (auto simp: hasPrefix_iff splitStr_hit)
  next
    case False
    with Cons show ?thesis by (cases "splitStr sep xs") (simp_all add: splitStr_miss)
  qed
qed

definition isField :: "(char \<Rightarrow> bool) \<Rightarrow> string \<Rightarrow> bool" where
  "isField p f \<longleftrightarrow> f \<noteq> [] \<and> list_all (\<lambda>c. \<not> p c) f"

lemma isField_takeWhile: "\<not> p c \<Longrightarrow> isField p (c # takeWhile (\<lambda>x. \<not> p x) cs)"
  by (induction cs) (auto simp: isField_def)

lemma fieldsBy_isField: "list_all (isField p) (fieldsBy p s)"
  by (induction p s rule: fieldsBy.induct) (simp_all add: isField_takeWhile)

lemma fieldsBy_nonempty: "f \<in> set (fieldsBy p s) \<Longrightarrow> f \<noteq> []"
  using fieldsBy_isField [of p s] by (auto simp: list_all_iff isField_def)

lemma goFields_nonempty: "f \<in> set (goFields s) \<Longrightarrow> f \<noteq> []"
  by (simp add: goFields_def fieldsBy_nonempty)

lemma takeWhile_field:
  "list_all (\<lambda>c. \<not> p c) as \<Longrightarrow> (case rest of [] \<Rightarrow> True | c # _ \<Rightarrow> p c) \<Longrightarrow>
   takeWhile (\<lambda>x. \<not> p x) (as @ rest) = as \<and> dropWhile (\<lambda>x. \<not> p x) (as @ rest) = rest"
  by (induction as) (auto split: list.splits)

lemma fieldsBy_block:
  assumes "isField p f" and "case rest of [] \<Rightarrow> True | c # _ \<Rightarrow> p c"
  shows "fieldsBy p (f @ rest) = f # fieldsBy p rest"
proof (cases f)
  case Nil
  with assms(1) show ?thesis by (simp add: isField_def)
next
  case (Cons a as)
  with assms(1) have "\<not> p a" and "list_all (\<lambda>c. \<not> p c) as" by (simp_all add: isField_def)
  with takeWhile_field [OF this(2) assms(2)] Cons show ?thesis by simp
qed

lemma fieldsBy_unwords:
  "list_all (isField p) fs \<Longrightarrow> p sep \<Longrightarrow> fieldsBy p (joinWith [sep] fs) = fs"
proof (induction "[sep]" fs rule: joinWith.induct)
  case (2 x)
  then show ?case using fieldsBy_block [of p x "[]"] by simp
next
  case (3 x y ys)
  then show ?case using fieldsBy_block [of p x "sep # joinWith [sep] (y # ys)"] by simp
qed simp

lemma goFields_unwords: "goFields (joinWith '' '' (goFields s)) = goFields s"
  unfolding goFields_def
  by (rule fieldsBy_unwords) (simp_all add: isSpaceByte_def fieldsBy_isField)

lemma fieldsBy_sep: "p c \<Longrightarrow> fieldsBy p (s @ c # t) = fieldsBy p s @ fieldsBy p t"
proof (induction p s rule: fieldsBy.induct)
  case (2 p d cs)
  have "takeWhile (\<lambda>x. \<not> p x) (cs @ c # t) = takeWhile (\<lambda>x. \<not> p x) cs \<and>
      dropWhile (\<lambda>x. \<not> p x) (cs @ c # t) = dropWhile (\<lambda>x. \<not> p x) cs @ c # t"
    using 2(3) by (induction cs) auto
  then show ?case using 2 by simp
qed simp

lemma fieldsBy_dropWhile: "(\<And>x. q x \<Longrightarrow> p x) \<Longrightarrow> fieldsBy p (dropWhile q s) = fieldsBy p s"
  by (induction s) auto

lemma fieldsBy_spaces_right: "list_all p ws \<Longrightarrow> fieldsBy p (s @ ws) = fieldsBy p s"
proof (induction ws arbitrary: s rule: rev_induct)
  case (snoc w ws)
  have "fieldsBy p (s @ ws @ [w]) = fieldsBy p (s @ ws)"
    using fieldsBy_sep [of p w "s @ ws" "[]"] snoc.prems by simp
  with snoc show ?case by simp
qed simp

lemma trimRightBy_split:
  obtains ws where "s = trimRightBy p s @ ws" and "list_all p ws"
proof -
  have "rev s = takeWhile p (rev s) @ dropWhile p (rev s)" by simp
  then have "s = rev (dropWhile p (rev s)) @ rev (takeWhile p (rev s))" by (metis rev_append rev_rev_ident)
  moreover have "list_all p (rev (takeWhile p (rev s)))" by (auto simp: list_all_iff dest: set_takeWhileD)
  ultimately show thesis using that by (simp add: trimRightBy_def)
qed

lemma goFields_trimSpace [simp]: "goFields (trimSpace s) = goFields s"
proof -
  obtain ws where w: "dropWhile isSpaceByte s = trimSpace s @ ws" "list_all isSpaceByte ws"
    using trimRightBy_split [of "dropWhile isSpaceByte s" isSpaceByte] by (auto simp: trimSpace_def trimLeftBy_def)
  have "goFields s = goFields (dropWhile isSpaceByte s)" by (simp add: goFields_def fieldsBy_dropWhile)
  then show ?thesis using w by (simp add: goFields_def fieldsBy_spaces_right)
qed

lemma hasSuffix_iff: "hasSuffix s p \<longleftrightarrow> (\<exists>t. s = t @ p)"
proof
  assume "hasSuffix s p"
  then obtain t where "rev s = rev p @ t" by (auto simp: hasSuffix_def hasPrefix_iff)
  then have "s = rev t @ p" by (metis rev_append rev_rev_ident)
  then show "\<exists>t. s = t @ p" ..
qed (auto simp: hasSuffix_def)

lemma trimSuffix_append [simp]: "trimSuffix (t @ p) p = t"
proof -
  have "hasSuffix (t @ p) p" by (auto simp: hasSuffix_iff)
  then show ?thesis by (simp add: trimSuffix_def)
qed

lemma trimRightBy_keep: "list_all p ws \<Longrightarrow> \<not> p c \<Longrightarrow> trimRightBy p (t @ c # ws) = t @ [c]"
proof -
  assume "list_all p ws" and c: "\<not> p c"
  then have "list_all p (rev ws)" by simp
  then have "dropWhile p (rev ws @ c # rev t) = c # rev t" using c by (induction "rev ws") (auto simp: dropWhile_append list_all_iff)
  then show ?thesis by (simp add: trimRightBy_def)
qed

lemma equalFold_refl [simp]: "equalFold a a"
  by (simp add: equalFold_def)

lemma equalFold_length: "equalFold a b \<Longrightarrow> length a = length b"
  by (auto simp: equalFold_def toLower_def dest: map_eq_imp_length_eq)

subsection \<open>State and error composition\<close>

text \<open>
  An operation that reads and writes a state and may fail has type
  \<open>'s \<Rightarrow> ('e + 'a) \<times> 's\<close>: the error or the result, and the state either way. The state after an
  error is kept, since Go code that returns early keeps the effects it already had.
\<close>

type_synonym ('s, 'e, 'a) op = "'s \<Rightarrow> ('e + 'a) \<times> 's"

definition ret :: "'a \<Rightarrow> ('s, 'e, 'a) op" where
  "ret x s = (Inr x, s)"

definition fail :: "'e \<Rightarrow> ('s, 'e, 'a) op" where
  "fail e s = (Inl e, s)"

definition bindOp :: "('s, 'e, 'a) op \<Rightarrow> ('a \<Rightarrow> ('s, 'e, 'b) op) \<Rightarrow> ('s, 'e, 'b) op" where
  "bindOp m k s = (case m s of (Inl e, t) \<Rightarrow> (Inl e, t) | (Inr x, t) \<Rightarrow> k x t)"

definition andThen :: "('s, 'e, 'a) op \<Rightarrow> ('s, 'e, 'b) op \<Rightarrow> ('s, 'e, 'b) op" where
  "andThen m n = bindOp m (\<lambda>_. n)"

definition modifyOp :: "('s \<Rightarrow> 's) \<Rightarrow> ('s, 'e, unit) op" where
  "modifyOp f s = (Inr (), f s)"

lemma bindOp_simps [simp]:
  "bindOp (ret x) k s = k x s"
  "bindOp (fail e) k s = (Inl e, s)"
  "bindOp (modifyOp f) k' s = k' () (f s)"
  by (simp_all add: bindOp_def ret_def fail_def modifyOp_def)

lemma bindOp_assoc: "bindOp (bindOp m k) n s = bindOp m (\<lambda>x. bindOp (k x) n) s"
  by (auto simp: bindOp_def split: prod.splits sum.splits)

lemma bindOp_result:
  "bindOp m k s = (Inr y, t) \<longleftrightarrow> (\<exists>x u. m s = (Inr x, u) \<and> k x u = (Inr y, t))"
  by (auto simp: bindOp_def split: prod.splits sum.splits)

text \<open>A predicate is kept by an operation when it holds after it, whatever the outcome.\<close>

definition keeps :: "('s \<Rightarrow> bool) \<Rightarrow> ('s, 'e, 'a) op \<Rightarrow> bool" where
  "keeps P m \<longleftrightarrow> (\<forall>s. P s \<longrightarrow> P (snd (m s)))"

lemma keepsD: "keeps P m \<Longrightarrow> P s \<Longrightarrow> P (snd (m s))"
  by (simp add: keeps_def)

lemma keeps_ret [inv_intro]: "keeps P (ret x)"
  by (simp add: keeps_def ret_def)

lemma keeps_fail [inv_intro]: "keeps P (fail x)"
  by (simp add: keeps_def fail_def)

lemma keeps_bindOp [inv_intro]:
  "keeps P m \<Longrightarrow> (\<And>x. keeps P (k x)) \<Longrightarrow> keeps P (bindOp m k)"
  unfolding keeps_def bindOp_def by (force split: prod.splits sum.splits)

lemma keeps_andThen [inv_intro]: "keeps P m \<Longrightarrow> keeps P n \<Longrightarrow> keeps P (andThen m n)"
  by (simp add: andThen_def keeps_bindOp)

lemma keeps_modifyOp [inv_intro]: "(\<And>s. P s \<Longrightarrow> P (f s)) \<Longrightarrow> keeps P (modifyOp f)"
  by (simp add: keeps_def modifyOp_def)

text \<open>
  A triple: from a state with \<open>P\<close> the operation ends with \<open>Q\<close> of its result and state, or with an
  error and \<open>E\<close> of the state it leaves.
\<close>

definition triple :: "('s \<Rightarrow> bool) \<Rightarrow> ('s, 'e, 'a) op \<Rightarrow> ('a \<Rightarrow> 's \<Rightarrow> bool) \<Rightarrow> ('s \<Rightarrow> bool) \<Rightarrow> bool" where
  "triple P m Q E \<longleftrightarrow> (\<forall>s. P s \<longrightarrow> (case m s of (Inl e, t) \<Rightarrow> E t | (Inr x, t) \<Rightarrow> Q x t))"

lemma tripleD:
  "triple P m Q E \<Longrightarrow> P s \<Longrightarrow> m s = (r, t) \<Longrightarrow> (case r of Inl e \<Rightarrow> E t | Inr x \<Rightarrow> Q x t)"
  by (auto simp: triple_def split: sum.splits prod.splits)

lemma triple_ret: "(\<And>s. P s \<Longrightarrow> Q x s) \<Longrightarrow> triple P (ret x) Q E"
  by (simp add: triple_def ret_def)

lemma triple_fail: "(\<And>s. P s \<Longrightarrow> E s) \<Longrightarrow> triple P (fail x) Q E"
  by (simp add: triple_def fail_def)

lemma triple_modifyOp: "(\<And>s. P s \<Longrightarrow> Q () (f s)) \<Longrightarrow> triple P (modifyOp f) Q E"
  by (simp add: triple_def modifyOp_def)

lemma triple_bind:
  "triple P m R E \<Longrightarrow> (\<And>x. triple (R x) (k x) Q E) \<Longrightarrow> triple P (bindOp m k) Q E"
  unfolding triple_def bindOp_def by (fastforce split: prod.splits sum.splits)

lemma triple_then: "triple P m (\<lambda>_. R) E \<Longrightarrow> triple R n Q E \<Longrightarrow> triple P (andThen m n) Q E"
  unfolding andThen_def by (rule triple_bind)

lemma triple_conseq:
  "triple P' m Q' E' \<Longrightarrow> (\<And>s. P s \<Longrightarrow> P' s) \<Longrightarrow> (\<And>x s. Q' x s \<Longrightarrow> Q x s) \<Longrightarrow> (\<And>s. E' s \<Longrightarrow> E s) \<Longrightarrow>
   triple P m Q E"
  unfolding triple_def by (fastforce split: prod.splits sum.splits)

lemma triple_keeps: "keeps P m \<longleftrightarrow> triple P m (\<lambda>_. P) P"
  unfolding keeps_def triple_def by (fastforce split: prod.splits sum.splits)

text \<open>A loop that collects results and stops at the first error.\<close>

fun mapE :: "('a \<Rightarrow> 'e + 'b) \<Rightarrow> 'a list \<Rightarrow> 'e + 'b list" where
  "mapE f [] = Inr []"
| "mapE f (x # xs) =
     (case f x of Inl e \<Rightarrow> Inl e
      | Inr y \<Rightarrow> (case mapE f xs of Inl e \<Rightarrow> Inl e | Inr ys \<Rightarrow> Inr (y # ys)))"

lemma mapE_cong [fundef_cong]:
  "xs = ys \<Longrightarrow> (\<And>x. x \<in> set ys \<Longrightarrow> f x = g x) \<Longrightarrow> mapE f xs = mapE g ys"
  by (induction ys arbitrary: xs) (auto split: sum.splits)

lemma mapE_Inr: "mapE f xs = Inr ys \<longleftrightarrow> list_all2 (\<lambda>x y. f x = Inr y) xs ys"
proof (induction xs arbitrary: ys)
  case (Cons x xs)
  have "mapE f (x # xs) = Inr ys \<longleftrightarrow> (\<exists>z zs. ys = z # zs \<and> f x = Inr z \<and> mapE f xs = Inr zs)"
    by (auto split: sum.splits)
  then show ?case by (simp add: Cons.IH list_all2_Cons1)
qed auto

lemma mapE_ok_iff: "(\<exists>ys. mapE f xs = Inr ys) \<longleftrightarrow> (\<forall>x \<in> set xs. \<exists>y. f x = Inr y)"
  by (induction xs) (auto split: sum.splits)

lemma mapE_not_Inl: "(\<And>x. f x \<noteq> Inl e) \<Longrightarrow> mapE f xs \<noteq> Inl e"
  by (induction xs) (auto split: sum.splits)

lemma mapE_length: "mapE f xs = Inr ys \<Longrightarrow> length ys = length xs"
  by (auto simp: mapE_Inr dest: list_all2_lengthD)

subsection \<open>Return codes (robot/robot_constants.go)\<close>

text \<open>A task may also end with an exit status that has no name (\<open>TaskRetVal\<close> is an integer in Go).\<close>

datatype TaskRetVal =
  Normal | Fail | MechanismFail | ConfigurationError | PipelineAborted | RobotStopping
| NotFound | Success | OtherStatus int

definition taskRetValOf :: "int \<Rightarrow> TaskRetVal" where
  "taskRetValOf n =
     (if n = 0 then Normal else if n = 1 then Fail else if n = 2 then MechanismFail
      else if n = 3 then ConfigurationError else if n = 4 then PipelineAborted
      else if n = 5 then RobotStopping else if n = 6 then NotFound else if n = 7 then Success
      else OtherStatus n)"

datatype RetVal =
  Ok | UserNotFound | ChannelNotFound | AttributeNotFound | FailedMessageSend | FailedChannelJoin
| DatumNotFound | DatumLockExpired | DataFormatError | BrainFailed | InvalidDatumKey
| InvalidConfigPointer | ConfigUnmarshalError | NoConfigFound
| RetryPrompt | ReplyNotMatched | UseDefaultValue | TimeoutExpired | Interrupted | MatcherNotFound
| NoUserEmail | NoBotEmail | MailError
| TaskNotFound | MissingArguments | InvalidStage | InvalidTaskType | CommandNotMatched
| TaskDisabled | PrivilegeViolation | IdentityProviderNotFound | IdentityNotLinked
| IdentityReauthRequired | IdentityRefreshFailed | IdentityInvalidLinkRequest | IdentityConfigError
| Failed

end
