(* ===== verification/Regex.thy ===== *)
theory Regex
  imports Prelude
begin

text \<open>
  The part of Go's \<^verbatim>\<open>regexp\<close> that the repository's fixed patterns use: syntax trees of the
  patterns, their printed source text, the language they denote and an executable matcher by
  derivatives that is proved to decide the language. A pattern anchored with \<^verbatim>\<open>^...$\<close> matches
  an input exactly when the input is in the language. The boolean argument stands for the
  case-insensitive flag \<^verbatim>\<open>(?i)\<close>, with ASCII folding.
\<close>

subsection \<open>Syntax\<close>

datatype citem = CRange char char | CChar char | CDigit | CWord | CSpace

datatype rx =
  RNone | REmpty
| RChar char                    \<comment> \<open>a literal byte\<close>
| RAny                          \<comment> \<open>the dot\<close>
| RItem citem                   \<comment> \<open>an escape outside brackets\<close>
| RSet bool "citem list"        \<comment> \<open>a bracket expression, \<open>True\<close> when negated\<close>
| RSeq rx rx | RAlt rx rx
| RGroup rx                     \<comment> \<open>a non-capturing group\<close>
| RStar rx | RPlus rx | ROpt rx
| RRep nat nat rx

abbreviation RLit :: "string \<Rightarrow> rx" where
  "RLit s \<equiv> foldr (\<lambda>c r. RSeq (RChar c) r) s REmpty"

fun RSeqs :: "rx list \<Rightarrow> rx" where
  "RSeqs [] = REmpty"
| "RSeqs [r] = r"
| "RSeqs (r # s # rs) = RSeq r (RSeqs (s # rs))"

fun RAlts :: "rx list \<Rightarrow> rx" where
  "RAlts [] = RNone"
| "RAlts [r] = r"
| "RAlts (r # s # rs) = RAlt r (RAlts (s # rs))"

subsection \<open>Printed form\<close>

definition metaBytes :: string where
  "metaBytes = [CHR 0x5C] @ ''.+*?()|[]{}^$''"

definition quoteMetaByte :: "char \<Rightarrow> string" where
  "quoteMetaByte c = (if c \<in> set metaBytes then [CHR 0x5C, c] else [c])"

definition quoteMeta :: "string \<Rightarrow> string" where
  "quoteMeta s = concat (map quoteMetaByte s)"

fun citemText :: "citem \<Rightarrow> string" where
  "citemText (CRange a b) = [a, CHR ''-'', b]"
| "citemText (CChar c) = [c]"
| "citemText CDigit = [CHR 0x5C, CHR ''d'']"
| "citemText CWord = [CHR 0x5C, CHR ''w'']"
| "citemText CSpace = [CHR 0x5C, CHR ''s'']"

fun rxText :: "rx \<Rightarrow> string" where
  "rxText RNone = []"
| "rxText REmpty = []"
| "rxText (RChar c) = quoteMetaByte c"
| "rxText RAny = ''.''"
| "rxText (RItem i) = citemText i"
| "rxText (RSet neg is) = (if neg then ''[^'' else ''['') @ concat (map citemText is) @ '']''"
| "rxText (RSeq r s) = rxText r @ rxText s"
| "rxText (RAlt r s) = rxText r @ ''|'' @ rxText s"
| "rxText (RGroup r) = ''(?:'' @ rxText r @ '')''"
| "rxText (RStar r) = rxText r @ ''*''"
| "rxText (RPlus r) = rxText r @ ''+''"
| "rxText (ROpt r) = rxText r @ ''?''"
| "rxText (RRep m n r) = rxText r @ ''{'' @ decDigits m @ (if m = n then [] else '','' @ decDigits n) @ ''}''"

subsection \<open>Character classes\<close>

text \<open>Go's \<^verbatim>\<open>\s\<close> is \<^verbatim>\<open>[\t\n\f\r ]\<close>: unlike \<open>unicode.IsSpace\<close> it has no vertical tab.\<close>

definition isRegexSpace :: "char \<Rightarrow> bool" where
  "isRegexSpace c \<longleftrightarrow> c = CHR 0x09 \<or> c = CHR 0x0A \<or> c = CHR 0x0C \<or> c = CHR 0x0D \<or> c = CHR 0x20"

definition inRange :: "char \<Rightarrow> char \<Rightarrow> char \<Rightarrow> bool" where
  "inRange a b c \<longleftrightarrow> (of_char a :: nat) \<le> of_char c \<and> (of_char c :: nat) \<le> of_char b"

definition isDigitByte :: "char \<Rightarrow> bool" where
  "isDigitByte c \<longleftrightarrow> inRange CHR ''0'' CHR ''9'' c"

definition isLetterByte :: "char \<Rightarrow> bool" where
  "isLetterByte c \<longleftrightarrow> inRange CHR ''A'' CHR ''Z'' c \<or> inRange CHR ''a'' CHR ''z'' c"

definition isWordByte :: "char \<Rightarrow> bool" where
  "isWordByte c \<longleftrightarrow> isDigitByte c \<or> isLetterByte c \<or> c = CHR ''_''"

fun inItem :: "char \<Rightarrow> citem \<Rightarrow> bool" where
  "inItem c (CRange a b) = inRange a b c"
| "inItem c (CChar d) = (c = d)"
| "inItem c CDigit = isDigitByte c"
| "inItem c CWord = isWordByte c"
| "inItem c CSpace = isRegexSpace c"

definition foldings :: "bool \<Rightarrow> char \<Rightarrow> char list" where
  "foldings ci c = (if ci then [c, lowerByte c, upperByte c] else [c])"

definition inItems :: "bool \<Rightarrow> citem list \<Rightarrow> char \<Rightarrow> bool" where
  "inItems ci is c \<longleftrightarrow> list_ex (\<lambda>d. list_ex (inItem d) is) (foldings ci c)"

subsection \<open>Language\<close>

definition conc :: "string set \<Rightarrow> string set \<Rightarrow> string set" where
  "conc A B = {x @ y | x y. x \<in> A \<and> y \<in> B}"

primrec lpow :: "nat \<Rightarrow> string set \<Rightarrow> string set" where
  "lpow 0 A = {[]}"
| "lpow (Suc n) A = conc A (lpow n A)"

fun lang :: "bool \<Rightarrow> rx \<Rightarrow> string set" where
  "lang f RNone = {}"
| "lang f REmpty = {[]}"
| "lang f (RChar c) = {[d] | d. inItems f [CChar c] d}"
| "lang f RAny = {[d] | d. d \<noteq> CHR 0x0A}"
| "lang f (RItem i) = {[d] | d. inItems f [i] d}"
| "lang f (RSet neg is) = {[d] | d. inItems f is d \<noteq> neg}"
| "lang f (RSeq r s) = conc (lang f r) (lang f s)"
| "lang f (RAlt r s) = lang f r \<union> lang f s"
| "lang f (RGroup r) = lang f r"
| "lang f (RStar r) = (\<Union>n. lpow n (lang f r))"
| "lang f (RPlus r) = conc (lang f r) (\<Union>n. lpow n (lang f r))"
| "lang f (ROpt r) = insert [] (lang f r)"
| "lang f (RRep m n r) = (\<Union>k \<in> {m..n}. lpow k (lang f r))"

subsection \<open>The matcher\<close>

fun nullable :: "rx \<Rightarrow> bool" where
  "nullable RNone = False"
| "nullable REmpty = True"
| "nullable (RChar c) = False"
| "nullable RAny = False"
| "nullable (RItem i) = False"
| "nullable (RSet neg is) = False"
| "nullable (RSeq r s) = (nullable r \<and> nullable s)"
| "nullable (RAlt r s) = (nullable r \<or> nullable s)"
| "nullable (RGroup r) = nullable r"
| "nullable (RStar r) = True"
| "nullable (RPlus r) = nullable r"
| "nullable (ROpt r) = True"
| "nullable (RRep m n r) = (m \<le> n \<and> (m = 0 \<or> nullable r))"

definition one :: "bool \<Rightarrow> rx" where
  "one b = (if b then REmpty else RNone)"

fun deriv :: "bool \<Rightarrow> char \<Rightarrow> rx \<Rightarrow> rx" where
  "deriv f d RNone = RNone"
| "deriv f d REmpty = RNone"
| "deriv f d (RChar c) = one (inItems f [CChar c] d)"
| "deriv f d RAny = one (d \<noteq> CHR 0x0A)"
| "deriv f d (RItem i) = one (inItems f [i] d)"
| "deriv f d (RSet neg is) = one (inItems f is d \<noteq> neg)"
| "deriv f d (RSeq r s) =
     (if nullable r then RAlt (RSeq (deriv f d r) s) (deriv f d s) else RSeq (deriv f d r) s)"
| "deriv f d (RAlt r s) = RAlt (deriv f d r) (deriv f d s)"
| "deriv f d (RGroup r) = deriv f d r"
| "deriv f d (RStar r) = RSeq (deriv f d r) (RStar r)"
| "deriv f d (RPlus r) = RSeq (deriv f d r) (RStar r)"
| "deriv f d (ROpt r) = deriv f d r"
| "deriv f d (RRep m n r) =
     (if m \<le> n \<and> n \<noteq> 0 then RSeq (deriv f d r) (RRep (m - 1) (n - 1) r) else RNone)"

fun rmatch :: "bool \<Rightarrow> rx \<Rightarrow> string \<Rightarrow> bool" where
  "rmatch f r [] = nullable r"
| "rmatch f r (c # cs) = rmatch f (deriv f c r) cs"

subsection \<open>The matcher decides the language\<close>

lemma conc_Nil [simp]: "[] \<in> conc A B \<longleftrightarrow> [] \<in> A \<and> [] \<in> B"
  by (auto simp: conc_def)

lemma lpow_Nil: "[] \<in> lpow n A \<longleftrightarrow> n = 0 \<or> [] \<in> A"
  by (induction n) auto

lemma nullable_lang: "nullable r \<longleftrightarrow> [] \<in> lang f r"
proof (induction r)
  case (RRep m n r)
  show ?case
  proof
    assume "nullable (RRep m n r)"
    then show "[] \<in> lang f (RRep m n r)" using RRep by (auto simp: lpow_Nil intro: bexI [of _ m])
  next
    assume "[] \<in> lang f (RRep m n r)"
    then show "nullable (RRep m n r)" using RRep by (auto simp: lpow_Nil)
  qed
qed (auto simp: lpow_Nil)

lemma one_lang: "lang f (one b) = (if b then {[]} else {})"
  by (simp add: one_def)

lemma conc_Cons: "c # s \<in> conc A B \<longleftrightarrow>
    (\<exists>x y. s = x @ y \<and> c # x \<in> A \<and> y \<in> B) \<or> ([] \<in> A \<and> c # s \<in> B)"
  unfolding conc_def by (auto simp: append_eq_Cons_conv Cons_eq_append_conv)

lemma lpow_mono_Nil: "[] \<in> A \<Longrightarrow> lpow n A \<subseteq> lpow (Suc n) A"
  by (auto simp: conc_def)

lemma lpow_Cons:
  "c # s \<in> lpow n A \<Longrightarrow> \<exists>x y m. n = Suc m \<and> s = x @ y \<and> c # x \<in> A \<and> y \<in> lpow m A"
proof (induction n)
  case (Suc n)
  from Suc.prems consider (now) "\<exists>x y. s = x @ y \<and> c # x \<in> A \<and> y \<in> lpow n A"
    | (later) "[] \<in> A" "c # s \<in> lpow n A"
    by (auto simp: conc_Cons)
  then show ?case
  proof cases
    case now
    then obtain x y where "s = x @ y" "c # x \<in> A" "y \<in> lpow n A" by (elim exE conjE)
    then show ?thesis by (intro exI [of _ x] exI [of _ y] exI [of _ n]) simp
  next
    case later
    from Suc.IH [OF later(2)] obtain x y m
      where m: "n = Suc m" "s = x @ y" "c # x \<in> A" "y \<in> lpow m A" by (elim exE conjE)
    have "y \<in> lpow n A" using lpow_mono_Nil [OF later(1), of m] m by (simp only: subset_iff)
    with m show ?thesis by (intro exI [of _ x] exI [of _ y] exI [of _ n]) (simp only:)
  qed
qed simp

lemma star_Cons: "(\<exists>n. c # s \<in> lpow n A) \<longleftrightarrow> (\<exists>x y. s = x @ y \<and> c # x \<in> A \<and> (\<exists>n. y \<in> lpow n A))"
proof
  assume "\<exists>n. c # s \<in> lpow n A"
  then obtain n where "c # s \<in> lpow n A" ..
  from lpow_Cons [OF this] obtain x y m where "s = x @ y" "c # x \<in> A" "y \<in> lpow m A"
    by (elim exE conjE)
  then show "\<exists>x y. s = x @ y \<and> c # x \<in> A \<and> (\<exists>n. y \<in> lpow n A)"
    by (intro exI [of _ x] exI [of _ y] conjI exI [of _ m])
next
  assume "\<exists>x y. s = x @ y \<and> c # x \<in> A \<and> (\<exists>n. y \<in> lpow n A)"
  then obtain x y n where "s = x @ y" "c # x \<in> A" "y \<in> lpow n A" by (elim exE conjE)
  then have "c # s \<in> lpow (Suc n) A" by (auto simp: conc_Cons)
  then show "\<exists>n. c # s \<in> lpow n A" ..
qed

lemma rep_Cons:
  "(\<exists>k \<in> {m..n}. c # s \<in> lpow k A) \<longleftrightarrow>
   m \<le> n \<and> n \<noteq> 0 \<and> (\<exists>x y. s = x @ y \<and> c # x \<in> A \<and> (\<exists>k \<in> {m - 1..n - 1}. y \<in> lpow k A))"
    (is "?l \<longleftrightarrow> ?r")
proof
  assume ?l
  then obtain k where k: "k \<in> {m..n}" "c # s \<in> lpow k A" by blast
  then obtain x y k' where xy: "k = Suc k'" "s = x @ y" "c # x \<in> A" "y \<in> lpow k' A"
    using lpow_Cons [OF k(2)] by (elim exE conjE)
  with k have "k' \<in> {m - 1..n - 1}" "m \<le> n" "n \<noteq> 0" by auto
  with xy show ?r by blast
next
  assume ?r
  then obtain x y k where r: "m \<le> n" "n \<noteq> 0" "s = x @ y" "c # x \<in> A" "k \<in> {m - 1..n - 1}" "y \<in> lpow k A"
    by blast
  then have "c # s \<in> lpow (Suc k) A" by (auto simp: conc_Cons)
  moreover have "Suc k \<in> {m..n}" using r by auto
  ultimately show ?l by blast
qed

lemma deriv_lang: "s \<in> lang f (deriv f c r) \<longleftrightarrow> c # s \<in> lang f r"
proof (induction r arbitrary: s)
  case (RSeq r1 r2)
  show ?case
    using RSeq nullable_lang [of r1 f] by (auto simp: conc_Cons) (auto simp: conc_def)
next
  case (RStar r)
  have "s \<in> lang f (deriv f c (RStar r)) \<longleftrightarrow> (\<exists>x y. s = x @ y \<and> c # x \<in> lang f r \<and> (\<exists>n. y \<in> lpow n (lang f r)))"
    using RStar by (auto simp: conc_def)
  then show ?case using star_Cons [of c s "lang f r"] by simp
next
  case (RPlus r)
  have "s \<in> lang f (deriv f c (RPlus r)) \<longleftrightarrow> (\<exists>x y. s = x @ y \<and> c # x \<in> lang f r \<and> (\<exists>n. y \<in> lpow n (lang f r)))"
    using RPlus by (auto simp: conc_def)
  moreover have "c # s \<in> lang f (RPlus r) \<longleftrightarrow> (\<exists>x y. s = x @ y \<and> c # x \<in> lang f r \<and> (\<exists>n. y \<in> lpow n (lang f r)))"
    using star_Cons [of c s "lang f r"] by (auto simp: conc_Cons)
  ultimately show ?case by simp
next
  case (RRep m n r)
  have "c # s \<in> lang f (RRep m n r) \<longleftrightarrow>
      m \<le> n \<and> n \<noteq> 0 \<and> (\<exists>x y. s = x @ y \<and> c # x \<in> lang f r \<and> (\<exists>k \<in> {m - 1..n - 1}. y \<in> lpow k (lang f r)))"
    using rep_Cons [of m n c s "lang f r"] by simp
  moreover have "s \<in> lang f (deriv f c (RRep m n r)) \<longleftrightarrow>
      m \<le> n \<and> n \<noteq> 0 \<and> (\<exists>x y. s = x @ y \<and> c # x \<in> lang f r \<and> (\<exists>k \<in> {m - 1..n - 1}. y \<in> lpow k (lang f r)))"
    using RRep by (auto simp: conc_def)
  ultimately show ?case by blast
qed (auto simp: one_lang)

theorem rmatch_lang: "rmatch f r s \<longleftrightarrow> s \<in> lang f r"
  by (induction s arbitrary: r) (simp_all add: nullable_lang [of _ f] deriv_lang)

end
