(* ===== verification/MatcherSyntax.thy ===== *)
theory MatcherSyntax
  imports Regex
begin

text \<open>
  The SimpleMatcher pattern language of bot/simple_matcher.go: the syntax tree, the queries on it
  (\<open>containsSlot\<close>, \<open>hasVariableArgs\<close>, \<open>captureCount\<close>, \<open>separatorBefore\<close>), the table of typed
  captures and the compiler to a regular expression (\<open>compileBare\<close>). Sequences and expressions
  are the slices \<open>terms\<close> and \<open>alternatives\<close> of the Go structs. The error values stand for the
  messages of the corresponding \<open>fmt.Errorf\<close> calls.
\<close>

subsection \<open>Errors\<close>

datatype matcherError =
  UnterminatedGroup char | UnexpectedInGroup char | UnexpectedChar char | UnexpectedInChoice char
| UnterminatedCapture | ExpectedLiteral
| NonCapturingHasCapture | ChoiceHasCapture | SynonymHasCapture
| ChoiceEmpty | ChoiceNoLabel | InvalidChoiceLabel string | ChoiceNoValue
| OptionsNoColon | InvalidOptionsLabel string | OptionsNoOption
| OptionEmpty | OptionNoDash string | OptionWhitespace string | OptionInvalid string
| OptionUnterminated string | OptionCaptureNotAtEnd string
| InvalidCaptureType string | InvalidCaptureName string | InvalidCapture string
| SpecEmpty | TrailingChar char | EmptyPattern
| UnknownCaptureType string | EmptyLiteral
| BothRegexAndSimple | SimpleNotAllowed | MissingRegexOrSimple | MissingRegex | RegexCompileFailed string
| OutOfFuel   \<comment> \<open>not an error of the code: the bound of the parser model, never returned by the top-level calls\<close>

subsection \<open>Syntax tree\<close>

record simpleMatcherSlot =
  slotName :: string
  slotKind :: string

record simpleMatcherOption =
  optDisplay :: string
  optLiteral :: string
  optPrefix :: string
  optSlot :: "simpleMatcherSlot option"

datatype simpleMatcherTerm =
  TLiteral string
| TSlot simpleMatcherSlot
| TGroup "simpleMatcherTerm list list" string bool bool  \<comment> \<open>expr, label, optional, capturing\<close>
| TOptions string "simpleMatcherOption list"

type_synonym simpleMatcherSequence = "simpleMatcherTerm list"
type_synonym simpleMatcherExpr = "simpleMatcherSequence list"

datatype simpleMatcherSeparatorKind = FlexibleSeparator | WhitespaceSeparator

subsection \<open>Queries on terms\<close>

fun isOptional :: "simpleMatcherTerm \<Rightarrow> bool" where
  "isOptional (TLiteral v) = False"
| "isOptional (TSlot s) = False"
| "isOptional (TGroup e label opt cap) = opt"
| "isOptional (TOptions label os) = True"

fun containsSlot :: "simpleMatcherTerm \<Rightarrow> bool" where
  "containsSlot (TLiteral v) = False"
| "containsSlot (TSlot s) = True"
| "containsSlot (TGroup e label opt cap) = list_ex (\<lambda>alt. list_ex containsSlot alt) e"
| "containsSlot (TOptions label os) = list_ex (\<lambda>oo. optSlot oo \<noteq> None) os"

definition exprContainsSlot :: "simpleMatcherExpr \<Rightarrow> bool" where
  "exprContainsSlot e = list_ex (\<lambda>alt. list_ex containsSlot alt) e"

fun hasVariableArgs :: "simpleMatcherTerm \<Rightarrow> bool" where
  "hasVariableArgs (TLiteral v) = False"
| "hasVariableArgs (TSlot s) = False"
| "hasVariableArgs (TGroup e label opt cap) = list_ex (\<lambda>alt. list_ex hasVariableArgs alt) e"
| "hasVariableArgs (TOptions label os) = True"

definition exprHasVariableArgs :: "simpleMatcherExpr \<Rightarrow> bool" where
  "exprHasVariableArgs e = list_ex (\<lambda>alt. list_ex hasVariableArgs alt) e"

fun captureCount :: "simpleMatcherTerm \<Rightarrow> nat" where
  "captureCount (TLiteral v) = 0"
| "captureCount (TSlot s) = 1"
| "captureCount (TGroup e label opt cap) =
     (if cap \<and> \<not> list_ex (\<lambda>alt. list_ex containsSlot alt) e then 1
      else foldl max 0 (map (\<lambda>alt. sum_list (map captureCount alt)) e))"
| "captureCount (TOptions label os) = 0"

definition seqCaptureCount :: "simpleMatcherSequence \<Rightarrow> nat" where
  "seqCaptureCount s = sum_list (map captureCount s)"

definition exprCaptureCount :: "simpleMatcherExpr \<Rightarrow> nat" where
  "exprCaptureCount e = foldl max 0 (map seqCaptureCount e)"

fun separatorBefore :: "simpleMatcherTerm \<Rightarrow> simpleMatcherSeparatorKind" where
  "separatorBefore (TLiteral v) = FlexibleSeparator"
| "separatorBefore (TSlot s) = WhitespaceSeparator"
| "separatorBefore (TGroup e label opt cap) =
     (if list_ex (\<lambda>alt. case alt of [] \<Rightarrow> False | t # _ \<Rightarrow> separatorBefore t = WhitespaceSeparator) e
      then WhitespaceSeparator else FlexibleSeparator)"
| "separatorBefore (TOptions label os) = WhitespaceSeparator"

subsection \<open>Typed captures\<close>

definition rAlnum :: rx where
  "rAlnum = RSet False [CRange CHR ''A'' CHR ''Z'', CRange CHR ''a'' CHR ''z'', CRange CHR ''0'' CHR ''9'']"

definition rLetter :: rx where
  "rLetter = RSet False [CRange CHR ''A'' CHR ''Z'', CRange CHR ''a'' CHR ''z'']"

definition rHex :: "citem list \<Rightarrow> rx" where
  "rHex extra = RSet False ([CRange CHR ''0'' CHR ''9'', CRange CHR ''A'' CHR ''F'', CRange CHR ''a'' CHR ''f''] @ extra)"

definition rNonSpace :: "citem list \<Rightarrow> rx" where
  "rNonSpace extra = RSet True (CSpace # extra)"

definition rSign :: rx where
  "rSign = ROpt (RSet False [CChar CHR ''+'', CChar CHR ''-''])"

definition rIPv4 :: rx where
  "rIPv4 = RSeqs [RRep 3 3 (RGroup (RSeq (RRep 1 3 (RItem CDigit)) (RChar CHR ''.''))), RRep 1 3 (RItem CDigit)]"

definition rIPv6 :: rx where
  "rIPv6 = RSeqs [RPlus (RGroup (RSeq (RPlus (rHex [CChar CHR '':''])) (RPlus (RChar CHR '':'')))), RPlus (rHex [])]"

definition rDNSLabel :: rx where
  "rDNSLabel = RGroup (RSeqs [rAlnum, ROpt (RGroup (RSeqs [RRep 0 61 (RSet False
     [CRange CHR ''A'' CHR ''Z'', CRange CHR ''a'' CHR ''z'', CRange CHR ''0'' CHR ''9'', CChar CHR ''-'']), rAlnum]))])"

definition simpleMatcherTypePatterns :: "(string \<times> rx) list" where
  "simpleMatcherTypePatterns = [
    (''base64'', RPlus (RSet False [CRange CHR ''A'' CHR ''Z'', CRange CHR ''a'' CHR ''z'',
       CRange CHR ''0'' CHR ''9'', CChar CHR ''+'', CChar CHR ''/'', CChar CHR ''=''])),
    (''bool'', RGroup (RAlts (map RLit [''true'', ''false'', ''yes'', ''no'', ''on'', ''off'', ''1'', ''0'']))),
    (''cidr'', RSeqs [RRep 3 3 (RGroup (RSeq (RRep 1 3 (RItem CDigit)) (RChar CHR ''.''))),
       RRep 1 3 (RItem CDigit), RChar CHR ''/'', RRep 1 2 (RItem CDigit)]),
    (''decimal'', RSeqs [rSign, RGroup (RAlt
       (RSeq (RPlus (RItem CDigit)) (ROpt (RGroup (RSeq (RChar CHR ''.'') (RPlus (RItem CDigit))))))
       (RSeq (RChar CHR ''.'') (RPlus (RItem CDigit))))]),
    (''dnsname'', RSeqs [rDNSLabel, RStar (RGroup (RSeq (RChar CHR ''.'') rDNSLabel))]),
    (''duration'', RPlus (RGroup (RSeq (RPlus (RItem CDigit))
       (RGroup (RAlts (map RLit [''ns'', ''us'', ''ms'', ''s'', ''m'', ''h''])))))),
    (''email'', RSeqs [RPlus (rNonSpace [CChar CHR ''@'']), RChar CHR ''@'',
       RPlus (rNonSpace [CChar CHR ''@'']), RChar CHR ''.'', RPlus (rNonSpace [CChar CHR ''@''])]),
    (''ident'', RSeqs [rLetter, RStar (RSet False [CWord, CChar CHR ''-''])]),
    (''ip'', RAlt rIPv4 rIPv6),
    (''ipv4'', rIPv4),
    (''ipv6'', rIPv6),
    (''number'', RSeqs [rSign, RPlus (RItem CDigit)]),
    (''rest'', RPlus RAny),
    (''slug'', RPlus (RSet False [CWord, CChar CHR ''.'', CChar CHR ''*'', CChar CHR ''-''])),
    (''token'', RPlus (rNonSpace [])),
    (''url'', RSeqs [rLetter, RStar (RSet False [CRange CHR ''A'' CHR ''Z'', CRange CHR ''a'' CHR ''z'',
       CRange CHR ''0'' CHR ''9'', CChar CHR ''+'', CChar CHR ''.'', CChar CHR ''-'']),
       RLit ''://'', RPlus (rNonSpace [])])]"

definition simpleMatcherTypeDescriptions :: "(string \<times> string) list" where
  "simpleMatcherTypeDescriptions = [
    (''base64'', ''base64 text.''),
    (''bool'', ''a boolean value: true, false, yes, no, on, off, 1, or 0.''),
    (''cidr'', ''a CIDR block like 10.0.0.0/24.''),
    (''decimal'', ''a decimal number.''),
    (''dnsname'', ''a DNS hostname.''),
    (''duration'', ''a Go-style duration like 5m30s.''),
    (''email'', ''an email address.''),
    (''ident'', ''an identifier starting with a letter, followed by letters, numbers, '' @ [CHR 0x27] @ ''_'' @ [CHR 0x27] @ '' or '' @ [CHR 0x27] @ ''-'' @ [CHR 0x27] @ ''.''),
    (''ip'', ''an IP address.''),
    (''ipv4'', ''an IPv4 address.''),
    (''ipv6'', ''an IPv6 address.''),
    (''number'', ''an integer.''),
    (''slug'', ''a slug-like identifier.''),
    (''token'', ''a non-whitespace token.''),
    (''url'', ''a full URL.'')]"

text \<open>The pattern \<^verbatim>\<open>^[A-Za-z][A-Za-z0-9_-]*$\<close>.\<close>

definition simpleMatcherIdentifierRe :: rx where
  "simpleMatcherIdentifierRe = RSeqs [rLetter, RStar (RSet False [CRange CHR ''A'' CHR ''Z'',
     CRange CHR ''a'' CHR ''z'', CRange CHR ''0'' CHR ''9'', CChar CHR ''_'', CChar CHR ''-''])]"

definition isIdentifier :: "string \<Rightarrow> bool" where
  "isIdentifier s = rmatch False simpleMatcherIdentifierRe s"

definition simpleMatcherTypeMatches :: "string \<Rightarrow> string \<Rightarrow> bool" where
  "simpleMatcherTypeMatches kind value =
     (case map_of simpleMatcherTypePatterns kind of
        None \<Rightarrow> False
      | Some pattern \<Rightarrow> rmatch True pattern value)"

subsection \<open>Compilation to a regular expression\<close>

definition flexibleSeparatorRegex :: string where
  "flexibleSeparatorRegex = ''(?:'' @ [CHR 0x5C] @ ''s+|-+)''"

definition whitespaceSeparatorRegex :: string where
  "whitespaceSeparatorRegex = [CHR 0x5C] @ ''s+''"

definition separatorRegexBefore :: "simpleMatcherTerm \<Rightarrow> string" where
  "separatorRegexBefore t =
     (if separatorBefore t = WhitespaceSeparator then whitespaceSeparatorRegex else flexibleSeparatorRegex)"

definition literalCompileBare :: "string \<Rightarrow> matcherError + string" where
  "literalCompileBare v =
     (if v = [] then Inl EmptyLiteral
      else (let parts = splitByte CHR ''-'' v in
        if 1 < length parts \<and> list_all (\<lambda>p. p \<noteq> []) parts
        then Inr (joinWith flexibleSeparatorRegex (map quoteMeta parts))
        else Inr (quoteMeta v)))"

definition slotCompileBare :: "simpleMatcherSlot \<Rightarrow> matcherError + string" where
  "slotCompileBare s =
     (case map_of simpleMatcherTypePatterns (slotKind s) of
        None \<Rightarrow> Inl (UnknownCaptureType (slotKind s))
      | Some pattern \<Rightarrow> Inr (''('' @ rxText pattern @ '')''))"

definition optionCompileBare :: "simpleMatcherOption \<Rightarrow> matcherError + string" where
  "optionCompileBare oo =
     (case optSlot oo of
        None \<Rightarrow> Inr (quoteMeta (optLiteral oo))
      | Some s \<Rightarrow> (case map_of simpleMatcherTypePatterns (slotKind s) of
            None \<Rightarrow> Inl (UnknownCaptureType (slotKind s))
          | Some pattern \<Rightarrow> Inr (quoteMeta (optPrefix oo) @ ''(?:'' @ rxText pattern @ '')'')))"

definition optionsCompileBare :: "simpleMatcherOption list \<Rightarrow> matcherError + string" where
  "optionsCompileBare os =
     (case mapE optionCompileBare os of
        Inl e \<Rightarrow> Inl e
      | Inr parts \<Rightarrow> (let opt = ''(?:'' @ joinWith ''|'' parts @ '')'' in
          Inr (opt @ ''(?:'' @ whitespaceSeparatorRegex @ opt @ '')*'')))"

text \<open>
  The two loops of \<open>simpleMatcherSequence.compileBare\<close>, over the terms paired with their
  compiled text: the leading optional terms, then the rest. In the second loop the first term is
  the one at \<open>firstRequiredIdx\<close>, which gets no separator.
\<close>

fun trailingText :: "bool \<Rightarrow> (simpleMatcherTerm \<times> string) list \<Rightarrow> string" where
  "trailingText first [] = []"
| "trailingText first ((t, bare) # rest) =
     (if isOptional t then ''(?:'' @ separatorRegexBefore t @ bare @ '')?''
      else (if first then [] else separatorRegexBefore t) @ bare) @ trailingText False rest"

fun sequenceText :: "(simpleMatcherTerm \<times> string) list \<Rightarrow> string" where
  "sequenceText [] = []"
| "sequenceText ((t, bare) # rest) =
     (if isOptional t
      then (case rest of
              [] \<Rightarrow> ''(?:'' @ bare @ '')?''
            | (u, _) # _ \<Rightarrow> ''(?:'' @ bare @ separatorRegexBefore u @ '')?'') @ sequenceText rest
      else trailingText True ((t, bare) # rest))"

definition alternativesText :: "string list \<Rightarrow> string" where
  "alternativesText parts =
     (case parts of [] \<Rightarrow> [] | [p] \<Rightarrow> p | _ \<Rightarrow> ''(?:'' @ joinWith ''|'' parts @ '')'')"

fun compileBare :: "simpleMatcherTerm \<Rightarrow> matcherError + string" where
  "compileBare (TLiteral v) = literalCompileBare v"
| "compileBare (TSlot s) = slotCompileBare s"
| "compileBare (TGroup e label opt cap) =
     (case mapE (\<lambda>alt. case mapE compileBare alt of
                         Inl x \<Rightarrow> Inl x | Inr bares \<Rightarrow> Inr (sequenceText (zip alt bares))) e of
        Inl x \<Rightarrow> Inl x
      | Inr parts \<Rightarrow> Inr (if cap then ''('' @ alternativesText parts @ '')'' else alternativesText parts))"
| "compileBare (TOptions label os) = optionsCompileBare os"

definition seqCompileBare :: "simpleMatcherSequence \<Rightarrow> matcherError + string" where
  "seqCompileBare alt = (case mapE compileBare alt of
     Inl x \<Rightarrow> Inl x | Inr bares \<Rightarrow> Inr (sequenceText (zip alt bares)))"

definition exprCompileBare :: "simpleMatcherExpr \<Rightarrow> matcherError + string" where
  "exprCompileBare e = (case mapE seqCompileBare e of
     Inl x \<Rightarrow> Inl x | Inr parts \<Rightarrow> Inr (alternativesText parts))"

subsection \<open>When compilation succeeds\<close>

fun compilable :: "simpleMatcherTerm \<Rightarrow> bool" where
  "compilable (TLiteral v) = (v \<noteq> [])"
| "compilable (TSlot s) = (map_of simpleMatcherTypePatterns (slotKind s) \<noteq> None)"
| "compilable (TGroup e label opt cap) = list_all (\<lambda>alt. list_all compilable alt) e"
| "compilable (TOptions label os) = list_all (\<lambda>oo. case optSlot oo of
     None \<Rightarrow> True | Some s \<Rightarrow> map_of simpleMatcherTypePatterns (slotKind s) \<noteq> None) os"

definition exprCompilable :: "simpleMatcherExpr \<Rightarrow> bool" where
  "exprCompilable e \<longleftrightarrow> list_all (\<lambda>alt. list_all compilable alt) e"

lemma ok_case: "(\<exists>y. (case r of Inl x \<Rightarrow> Inl x | Inr z \<Rightarrow> Inr (h z)) = Inr y) \<longleftrightarrow> (\<exists>z. r = Inr z)"
  by (cases r) auto

lemma literal_ok: "(\<exists>y. literalCompileBare v = Inr y) \<longleftrightarrow> v \<noteq> []"
  by (auto simp: literalCompileBare_def Let_def)

lemma slot_ok: "(\<exists>y. slotCompileBare s = Inr y) \<longleftrightarrow> map_of simpleMatcherTypePatterns (slotKind s) \<noteq> None"
  by (auto simp: slotCompileBare_def split: option.splits)

lemma option_ok: "(\<exists>y. optionCompileBare oo = Inr y) \<longleftrightarrow>
   (case optSlot oo of None \<Rightarrow> True | Some s \<Rightarrow> map_of simpleMatcherTypePatterns (slotKind s) \<noteq> None)"
  by (auto simp: optionCompileBare_def split: option.splits)

lemma compileBare_ok: "(\<exists>y. compileBare t = Inr y) \<longleftrightarrow> compilable t"
proof (induction t rule: compilable.induct)
  case (3 e label opt cap)
  have "(\<exists>ys. mapE compileBare alt = Inr ys) \<longleftrightarrow> list_all compilable alt" if "alt \<in> set e" for alt
    using 3 that by (simp add: mapE_ok_iff list_all_iff)
  then show ?case by (auto simp: ok_case mapE_ok_iff list_all_iff)
next
  case (4 label os)
  then show ?case
    unfolding compileBare.simps optionsCompileBare_def Let_def
    by (simp add: ok_case mapE_ok_iff option_ok list_all_iff)
qed (simp_all add: literal_ok slot_ok)

lemma exprCompileBare_ok: "(\<exists>y. exprCompileBare e = Inr y) \<longleftrightarrow> exprCompilable e"
  by (simp add: exprCompileBare_def seqCompileBare_def exprCompilable_def ok_case mapE_ok_iff
      compileBare_ok list_all_iff)

lemma exprCompileBare_not:
  assumes "\<And>v. Inl x \<noteq> literalCompileBare v" and "\<And>k. x \<noteq> UnknownCaptureType k"
  shows "exprCompileBare e \<noteq> Inl x"
proof -
  have o: "optionCompileBare oo \<noteq> Inl x" for oo
    using assms(2) by (auto simp: optionCompileBare_def split: option.splits)
  have t: "compileBare t \<noteq> Inl x" for t
  proof (induction t rule: compilable.induct)
    case (1 v)
    show ?case using assms(1) [of v] by auto
  next
    case (2 s)
    show ?case using assms(2) by (auto simp: slotCompileBare_def split: option.splits)
  next
    case (3 e label opt cap)
    have m: "mapE compileBare alt \<noteq> Inl x" if "alt \<in> set e" for alt
      using 3 that
    proof -
      have "\<forall>u \<in> set alt. compileBare u \<noteq> Inl x" using 3 that by auto
      then show ?thesis by (induction alt) (auto split: sum.splits)
    qed
    then have "\<forall>alt \<in> set e. (case mapE compileBare alt of Inl z \<Rightarrow> Inl z
        | Inr bares \<Rightarrow> Inr (sequenceText (zip alt bares))) \<noteq> Inl x"
      by (auto split: sum.splits)
    then have "mapE (\<lambda>alt. case mapE compileBare alt of Inl z \<Rightarrow> Inl z
        | Inr bares \<Rightarrow> Inr (sequenceText (zip alt bares))) e \<noteq> Inl x"
      by (induction e) (auto split: sum.splits)
    then show ?case by (auto split: sum.splits)
  next
    case (4 label os)
    show ?case using mapE_not_Inl [of optionCompileBare x os] o
      by (auto simp: optionsCompileBare_def Let_def split: sum.splits)
  qed
  have "seqCompileBare alt \<noteq> Inl x" for alt
    using mapE_not_Inl [of compileBare x alt] t by (auto simp: seqCompileBare_def split: sum.splits)
  then show ?thesis using mapE_not_Inl [of seqCompileBare x e]
    by (auto simp: exprCompileBare_def split: sum.splits)
qed

end
