(* ===== verification/MatcherParse.thy ===== *)
theory MatcherParse
  imports MatcherSyntax
begin

text \<open>
  The recursive-descent parser of bot/simple_matcher.go. The parser state \<open>(spec, pos)\<close> is the
  unread suffix \<open>spec[pos:]\<close>; a parse function returns the error, or the value and the new suffix.
  The mutually recursive functions take a fuel argument; \<open>parseFuel\<close> units are enough for every
  specification, which \<open>compileSimpleMatcherObject_fuel\<close> states.
\<close>

definition isSimpleMatcherSpace :: "char \<Rightarrow> bool" where
  "isSimpleMatcherSpace c \<longleftrightarrow> c = CHR '' '' \<or> c = CHR 0x09 \<or> c = CHR 0x0A \<or> c = CHR 0x0D"

definition skipSpaces :: "string \<Rightarrow> string" where
  "skipSpaces s = dropWhile isSimpleMatcherSpace s"

definition isSpecialByte :: "char \<Rightarrow> bool" where
  "isSpecialByte c \<longleftrightarrow> c \<in> set ''[]{}()/|<>''"

type_synonym 'a parsed = "matcherError + 'a \<times> string"

definition readDelimitedBody :: "char \<Rightarrow> string \<Rightarrow> string parsed" where
  "readDelimitedBody end s =
     (case dropWhile (\<lambda>c. c \<noteq> end) s of
        [] \<Rightarrow> Inl (UnterminatedGroup end)
      | _ # rest \<Rightarrow> Inr (takeWhile (\<lambda>c. c \<noteq> end) s, rest))"

definition parseSimpleMatcherSlot :: "string \<Rightarrow> matcherError + simpleMatcherSlot" where
  "parseSimpleMatcherSlot raw =
     (case splitByte CHR '':'' raw of
        [p] \<Rightarrow> (let kind = trimSpace p in
          if \<not> isIdentifier kind then Inl (InvalidCaptureType kind)
          else Inr \<lparr>slotName = [], slotKind = kind\<rparr>)
      | [p, q] \<Rightarrow> (let name = trimSpace p; kind = trimSpace q in
          if \<not> isIdentifier name then Inl (InvalidCaptureName name)
          else if \<not> isIdentifier kind then Inl (InvalidCaptureType kind)
          else Inr \<lparr>slotName = name, slotKind = kind\<rparr>)
      | _ \<Rightarrow> Inl (InvalidCapture raw))"

definition parseSimpleMatcherOption :: "string \<Rightarrow> matcherError + simpleMatcherOption" where
  "parseSimpleMatcherOption raw =
     (if raw = [] then Inl OptionEmpty
      else if \<not> hasPrefix raw ''-'' then Inl (OptionNoDash raw)
      else if list_ex isSimpleMatcherSpace raw then Inl (OptionWhitespace raw)
      else (case indexByte raw CHR ''<'' of
        None \<Rightarrow>
          (if containsByte raw CHR ''>'' then Inl (OptionInvalid raw)
           else Inr \<lparr>optDisplay = raw, optLiteral = raw, optPrefix = [], optSlot = None\<rparr>)
      | Some slotStart \<Rightarrow>
          (case indexByte (drop slotStart raw) CHR ''>'' of
             None \<Rightarrow> Inl (OptionUnterminated raw)
           | Some e \<Rightarrow>
               (let slotEnd = e + slotStart; prefix = take slotStart raw in
                if slotEnd \<noteq> length raw - 1 \<or> containsByte (drop (slotEnd + 1) raw) CHR ''<''
                then Inl (OptionCaptureNotAtEnd raw)
                else if prefix = [] \<or> \<not> hasPrefix prefix ''-'' then Inl (OptionNoDash raw)
                else (case parseSimpleMatcherSlot
                            (trimSpace (take (slotEnd - (slotStart + 1)) (drop (slotStart + 1) raw))) of
                        Inl x \<Rightarrow> Inl x
                      | Inr slot \<Rightarrow> Inr \<lparr>optDisplay = raw, optLiteral = [], optPrefix = prefix,
                                         optSlot = Some slot\<rparr>)))))"

text \<open>\<open>Inr None\<close> stands for the result \<open>ok = false\<close>: the body is not an options block.\<close>

definition parseSimpleMatcherOptionsBlock ::
    "string \<Rightarrow> matcherError + (string \<times> simpleMatcherOption list) option" where
  "parseSimpleMatcherOptionsBlock body0 =
     (let body = trimSpace body0 in
      if \<not> hasPrefix body ''-'' then Inr None
      else (case indexByte body CHR '':'' of
        None \<Rightarrow> Inl OptionsNoColon
      | Some colon \<Rightarrow>
          (let label = trimSpace (trimPrefix (take colon body) ''-'');
               rawOptions = trimSpace (drop (colon + 1) body) in
           if \<not> isIdentifier label then Inl (InvalidOptionsLabel label)
           else if rawOptions = [] then Inl OptionsNoOption
           else (case mapE (\<lambda>part. parseSimpleMatcherOption (trimSpace part)) (splitByte CHR ''|'' rawOptions) of
                   Inl x \<Rightarrow> Inl x
                 | Inr options \<Rightarrow> Inr (Some (label, options))))))"

text \<open>
  \<open>parseExpr (Some c)\<close> is \<open>p.parseExpr(c)\<close> and \<open>parseExpr None\<close> is \<open>p.parseExpr(0)\<close>;
  \<open>parseInnerExpr\<close> is \<open>parseSimpleMatcherInnerExpr\<close> and \<open>parseBracketBody\<close> is
  \<open>parseSimpleMatcherBracketBody\<close>.
\<close>

fun parseExpr :: "nat \<Rightarrow> char option \<Rightarrow> string \<Rightarrow> simpleMatcherExpr parsed"
and parseSequence :: "nat \<Rightarrow> char option \<Rightarrow> string \<Rightarrow> simpleMatcherSequence parsed"
and parseTerm :: "nat \<Rightarrow> string \<Rightarrow> simpleMatcherTerm parsed"
and parseInnerExpr :: "nat \<Rightarrow> string \<Rightarrow> matcherError + simpleMatcherExpr"
and parseBracketBody :: "nat \<Rightarrow> string \<Rightarrow> bool \<Rightarrow> matcherError + simpleMatcherExpr \<times> string" where
  "parseExpr 0 end s = Inl OutOfFuel"
| "parseExpr (Suc n) end s =
     (case parseSequence n end s of
        Inl x \<Rightarrow> Inl x
      | Inr (seq, rest) \<Rightarrow>
          (case (end, skipSpaces rest) of
             (Some e, []) \<Rightarrow> Inl (UnterminatedGroup e)
           | (Some e, c # rest') \<Rightarrow>
               (if c = CHR ''|'' then
                  (case parseExpr n end rest' of
                     Inl x \<Rightarrow> Inl x
                   | Inr (alts, rest'') \<Rightarrow> Inr (seq # alts, rest''))
                else if c = e then Inr ([seq], rest')
                else Inl (UnexpectedInGroup c))
           | (None, []) \<Rightarrow> Inr ([seq], [])
           | (None, c # rest') \<Rightarrow> Inl (UnexpectedChar c)))"
| "parseSequence 0 end s = Inl OutOfFuel"
| "parseSequence (Suc n) end s =
     (case skipSpaces s of
        [] \<Rightarrow> Inr ([], [])
      | c # cs \<Rightarrow>
          (if c = CHR ''|'' \<or> end = Some c then Inr ([], c # cs)
           else (case parseTerm n (c # cs) of
                   Inl x \<Rightarrow> Inl x
                 | Inr (t, rest) \<Rightarrow>
                     (case parseSequence n end rest of
                        Inl x \<Rightarrow> Inl x
                      | Inr (ts, rest') \<Rightarrow> Inr (t # ts, rest')))))"
| "parseTerm 0 s = Inl OutOfFuel"
| "parseTerm (Suc n) [] = Inl ExpectedLiteral"
| "parseTerm (Suc n) (c # cs) =
     (if c = CHR ''['' then
        (case readDelimitedBody CHR '']'' cs of
           Inl x \<Rightarrow> Inl x
         | Inr (body, rest) \<Rightarrow>
             (case parseSimpleMatcherOptionsBlock body of
                Inl x \<Rightarrow> Inl x
              | Inr (Some (label, options)) \<Rightarrow> Inr (TOptions label options, rest)
              | Inr None \<Rightarrow>
                  (case parseBracketBody n body True of
                     Inl x \<Rightarrow> Inl x
                   | Inr (expr, label) \<Rightarrow>
                       Inr (TGroup expr label True (\<not> exprContainsSlot expr), rest))))
      else if c = CHR ''{'' then
        (case parseExpr n (Some CHR ''}'') cs of
           Inl x \<Rightarrow> Inl x
         | Inr (expr, rest) \<Rightarrow>
             if exprContainsSlot expr then Inl NonCapturingHasCapture
             else Inr (TGroup expr [] True False, rest))
      else if c = CHR ''('' then
        (case readDelimitedBody CHR '')'' cs of
           Inl x \<Rightarrow> Inl x
         | Inr (body, rest) \<Rightarrow>
             (case parseBracketBody n body False of
                Inl x \<Rightarrow> Inl x
              | Inr (expr, label) \<Rightarrow>
                  if exprContainsSlot expr then Inl ChoiceHasCapture
                  else Inr (TGroup expr label False True, rest)))
      else if c = CHR ''/'' then
        (case parseExpr n (Some CHR ''/'') cs of
           Inl x \<Rightarrow> Inl x
         | Inr (expr, rest) \<Rightarrow>
             if exprContainsSlot expr then Inl SynonymHasCapture
             else Inr (TGroup expr [] False False, rest))
      else if c = CHR ''<'' then
        (case dropWhile (\<lambda>x. x \<noteq> CHR ''>'') cs of
           [] \<Rightarrow> Inl UnterminatedCapture
         | _ # rest \<Rightarrow>
             (case parseSimpleMatcherSlot (trimSpace (takeWhile (\<lambda>x. x \<noteq> CHR ''>'') cs)) of
                Inl x \<Rightarrow> Inl x
              | Inr slot \<Rightarrow> Inr (TSlot slot, rest)))
      else
        (let plain = (\<lambda>x. \<not> (isSpecialByte x \<or> isSimpleMatcherSpace x));
             lit = trimSpace (takeWhile plain (c # cs)) in
         if lit = [] then Inl ExpectedLiteral
         else Inr (TLiteral lit, dropWhile plain (c # cs))))"
| "parseInnerExpr 0 s = Inl OutOfFuel"
| "parseInnerExpr (Suc n) s =
     (case parseSequence n None s of
        Inl x \<Rightarrow> Inl x
      | Inr (seq, rest) \<Rightarrow>
          (case skipSpaces rest of
             [] \<Rightarrow> Inr [seq]
           | c # rest' \<Rightarrow>
               (if c \<noteq> CHR ''|'' then Inl (UnexpectedInChoice c)
                else (case parseInnerExpr n rest' of
                        Inl x \<Rightarrow> Inl x
                      | Inr alts \<Rightarrow> Inr (seq # alts)))))"
| "parseBracketBody 0 body optional = Inl OutOfFuel"
| "parseBracketBody (Suc n) body0 optional =
     (let body = trimSpace body0 in
      if body = [] then Inl ChoiceEmpty
      else if containsByte body CHR ''<'' then
        (case parseInnerExpr n body of
           Inl x \<Rightarrow> Inl x
         | Inr expr \<Rightarrow> if \<not> optional then Inl ChoiceHasCapture else Inr (expr, []))
      else (case indexByte body CHR '':'' of
        None \<Rightarrow> Inl ChoiceNoLabel
      | Some colon \<Rightarrow>
          (let label = trimSpace (take colon body); choices = trimSpace (drop (colon + 1) body) in
           if label \<noteq> [] \<and> \<not> isIdentifier label then Inl (InvalidChoiceLabel label)
           else if choices = [] then Inl ChoiceNoValue
           else (case parseInnerExpr n choices of
                   Inl x \<Rightarrow> Inl x
                 | Inr expr \<Rightarrow> Inr (expr, label)))))"

subsection \<open>Compiling a specification\<close>

record simpleMatcher =
  smSpec :: string
  smExpr :: simpleMatcherExpr
  smRegex :: string
  smHasVariableArgs :: bool

definition parseFuel :: "string \<Rightarrow> nat" where
  "parseFuel s = 4 * length s + 4"

definition compileSimpleMatcherObject :: "string \<Rightarrow> matcherError + simpleMatcher" where
  "compileSimpleMatcherObject spec0 =
     (let spec = trimSpace spec0 in
      if spec = [] then Inl SpecEmpty
      else (case parseExpr (parseFuel spec) None spec of
        Inl x \<Rightarrow> Inl x
      | Inr (expr, rest) \<Rightarrow>
          (case skipSpaces rest of
             c # _ \<Rightarrow> Inl (TrailingChar c)
           | [] \<Rightarrow>
               (case exprCompileBare expr of
                  Inl x \<Rightarrow> Inl x
                | Inr regex \<Rightarrow>
                    if regex = [] then Inl EmptyPattern
                    else Inr \<lparr>smSpec = spec, smExpr = expr, smRegex = ''(?i:'' @ regex @ '')'',
                              smHasVariableArgs = exprHasVariableArgs expr\<rparr>))))"

definition compileSimpleMatcher :: "string \<Rightarrow> matcherError + string" where
  "compileSimpleMatcher spec =
     (case compileSimpleMatcherObject spec of Inl x \<Rightarrow> Inl x | Inr m \<Rightarrow> Inr (smRegex m))"

subsection \<open>Consumption and fuel\<close>

lemma readDelimitedBody_Inr:
  assumes "readDelimitedBody e s = Inr (body, rest)"
  shows "s = body @ e # rest \<and> e \<notin> set body"
proof -
  from assms obtain c where d: "dropWhile (\<lambda>c. c \<noteq> e) s = c # rest" and b: "body = takeWhile (\<lambda>c. c \<noteq> e) s"
    by (auto simp: readDelimitedBody_def split: list.splits)
  from d have "c = e" by (simp add: dropWhile_eq_Cons_conv)
  then have "s = body @ e # rest" using takeWhile_dropWhile_id [of "\<lambda>c. c \<noteq> e" s] d b by simp
  moreover have "e \<notin> set body" using set_takeWhileD [of e "\<lambda>c. c \<noteq> e" s] b by auto
  ultimately show ?thesis ..
qed

lemma readDelimitedBody_length:
  "readDelimitedBody e s = Inr (body, rest) \<Longrightarrow> length body + length rest < length s"
  by (drule readDelimitedBody_Inr) simp

lemma skipSpaces_length: "length (skipSpaces s) \<le> length s"
  by (simp add: skipSpaces_def length_dropWhile_le)

lemma skipSpaces_Cons_length: "skipSpaces s = c # cs \<Longrightarrow> length cs < length s"
  using skipSpaces_length [of s] by simp

lemma dropWhile_Cons_length: "dropWhile p s = c # cs \<Longrightarrow> length cs < length s"
  using length_dropWhile_le [of p s] by simp

lemma trimSpace_Nil [simp]: "trimSpace [] = []"
  by (simp add: trimSpace_def trimLeftBy_def trimRightBy_def)

lemma trimSpace_length: "length (trimSpace s) \<le> length s"
proof -
  have "length (dropWhile isSpaceByte (rev (dropWhile isSpaceByte s))) \<le> length (rev (dropWhile isSpaceByte s))"
    by (rule length_dropWhile_le)
  also have "\<dots> \<le> length s" by (simp add: length_dropWhile_le)
  finally show ?thesis by (simp add: trimSpace_def trimLeftBy_def trimRightBy_def)
qed

lemma plain_consumes:
  "trimSpace (takeWhile p s) \<noteq> [] \<Longrightarrow> length (dropWhile p s) < length s"
  by (cases s) (auto simp: le_imp_less_Suc length_dropWhile_le split: if_splits)

lemma parse_consumes:
  "parseExpr n e s = Inr (x, r) \<Longrightarrow> length r \<le> length s"
  "parseSequence n e s = Inr (y, r) \<Longrightarrow> length r \<le> length s"
  "parseTerm n s = Inr (t, r) \<Longrightarrow> length r < length s"
proof (induction n arbitrary: e s x y t r)
  case (Suc n)
  {
    case 1
    then obtain seq rest where q: "parseSequence n e s = Inr (seq, rest)"
      by (auto split: sum.splits)
    have le: "length rest \<le> length s" using q by (rule Suc.IH)
    from 1 q le show ?case
      by (fastforce split: sum.splits option.splits list.splits if_splits
          dest: Suc.IH(1) skipSpaces_Cons_length)
  next
    case 2
    show ?case
    proof (cases "skipSpaces s")
      case Nil
      with 2 show ?thesis by auto
    next
      case (Cons c cs)
      then have lt: "length cs < length s" by (rule skipSpaces_Cons_length)
      show ?thesis
      proof (cases "c = CHR ''|'' \<or> e = Some c")
        case True
        with 2 lt show ?thesis by (auto simp: Cons)
      next
        case False
        with 2 Cons lt show ?thesis by (auto split: sum.splits dest!: Suc.IH(2) Suc.IH(3))
      qed
    qed
  next
    case 3
    then obtain c cs where s: "s = c # cs" by (cases s) auto
    show ?case
    proof (cases "c \<in> set ''[{(/<''")
      case True
      with 3 s show ?thesis
        by (fastforce split: sum.splits list.splits if_splits option.splits
            dest: Suc.IH(1) readDelimitedBody_length dropWhile_Cons_length)
    next
      case False
      with 3 s show ?thesis
        using plain_consumes [of "\<lambda>x. \<not> (isSpecialByte x \<or> isSimpleMatcherSpace x)" s]
        by (simp add: Let_def split: if_splits)
    qed
  }
qed simp_all


lemma slot_not_fuel: "parseSimpleMatcherSlot raw \<noteq> Inl OutOfFuel"
  by (auto simp: parseSimpleMatcherSlot_def Let_def split: list.splits)

lemma option_not_fuel: "parseSimpleMatcherOption raw \<noteq> Inl OutOfFuel"
  by (auto simp: parseSimpleMatcherOption_def Let_def slot_not_fuel split: option.splits sum.splits
      dest: slot_not_fuel [THEN notE])

lemma options_not_fuel: "parseSimpleMatcherOptionsBlock body \<noteq> Inl OutOfFuel"
  using mapE_not_Inl [of "\<lambda>part. parseSimpleMatcherOption (trimSpace part)" OutOfFuel] option_not_fuel
  by (auto simp: parseSimpleMatcherOptionsBlock_def Let_def split: option.splits sum.splits)

lemma delimited_not_fuel: "readDelimitedBody e s \<noteq> Inl OutOfFuel"
  by (auto simp: readDelimitedBody_def split: list.splits)

lemma choices_length: "length (trimSpace (drop k body)) \<le> length body"
  using trimSpace_length [of "drop k body"] by simp

lemma parse_fuel:
  "4 * length s + 3 \<le> n \<Longrightarrow> parseExpr n e s \<noteq> Inl OutOfFuel"
  "4 * length s + 2 \<le> n \<Longrightarrow> parseSequence n e s \<noteq> Inl OutOfFuel"
  "4 * length s + 1 \<le> n \<Longrightarrow> parseTerm n s \<noteq> Inl OutOfFuel"
  "4 * length s + 3 \<le> n \<Longrightarrow> parseInnerExpr n s \<noteq> Inl OutOfFuel"
  "4 * length s + 4 \<le> n \<Longrightarrow> parseBracketBody n s opt \<noteq> Inl OutOfFuel"
proof (induction n arbitrary: e s opt)
  case (Suc n)
  {
    case 1
    have seq: "parseSequence n e s \<noteq> Inl OutOfFuel" using 1 by (intro Suc.IH(2)) simp
    have rec: "parseExpr n e rest' \<noteq> Inl OutOfFuel"
      if "parseSequence n e s = Inr (q, rest)" "skipSpaces rest = c # rest'" for q rest c rest'
      using 1 parse_consumes(2) [OF that(1)] skipSpaces_Cons_length [OF that(2)]
      by (intro Suc.IH(1)) simp
    from seq rec show ?case
      by (fastforce split: sum.splits option.splits list.splits if_splits)
  next
    case 2
    have t: "parseTerm n (c # cs) \<noteq> Inl OutOfFuel" if "skipSpaces s = c # cs" for c cs
      using 2 skipSpaces_Cons_length [OF that] by (intro Suc.IH(3)) simp
    have rec: "parseSequence n e rest \<noteq> Inl OutOfFuel"
      if "skipSpaces s = c # cs" "parseTerm n (c # cs) = Inr (u, rest)" for c cs u rest
      using 2 skipSpaces_Cons_length [OF that(1)] parse_consumes(3) [OF that(2)]
      by (intro Suc.IH(2)) simp
    from t rec show ?case
      by (fastforce split: sum.splits list.splits if_splits)
  next
    case 3
    show ?case
    proof (cases s)
      case (Cons c cs)
      have ex: "parseExpr n e cs \<noteq> Inl OutOfFuel" for e
        using 3 Cons by (intro Suc.IH(1)) simp
      have br: "parseBracketBody n body opt \<noteq> Inl OutOfFuel"
        if "readDelimitedBody d cs = Inr (body, rest)" for d body rest opt
        using 3 Cons readDelimitedBody_length [OF that] by (intro Suc.IH(5)) simp
      show ?thesis
      proof (cases "c \<in> set ''[(''")
        case True
        note True0 = True
        define d where "d = (if c = CHR ''['' then CHR '']'' else CHR '')'')"
        show ?thesis
        proof (cases "readDelimitedBody d cs")
          case (Inl x)
          with True Cons delimited_not_fuel [of d cs] show ?thesis by (auto simp: d_def)
        next
          case (Inr z)
          obtain body rest where z: "z = (body, rest)" by (cases z)
          have B: "parseBracketBody n body opt \<noteq> Inl OutOfFuel" for opt
            using br [OF Inr [unfolded z]] .
          show ?thesis
          proof (cases "c = CHR ''[''")
            case True
            with Cons Inr z B [of True] options_not_fuel [of body] show ?thesis
              by (auto simp: d_def split: sum.split option.split prod.split)
          next
            case False
            with True0 have "c = CHR ''(''" by simp
            with Cons Inr z B [of False] show ?thesis
              by (auto simp: d_def split: sum.split prod.split)
          qed
        qed
      next
        case False
        consider "c = CHR ''{''" | "c = CHR ''/''" | "c = CHR ''<''" | "c \<notin> set ''[{(/<''"
          using False by auto
        then show ?thesis
        proof cases
          case 1
          with Cons ex [of "Some CHR ''}''"] show ?thesis by (auto split: sum.split)
        next
          case 2
          with Cons ex [of "Some CHR ''/''"] show ?thesis by (auto split: sum.split)
        next
          case 3
          with Cons slot_not_fuel show ?thesis by (auto split: sum.split list.split)
        next
          case 4
          with Cons show ?thesis by (simp add: Let_def)
        qed
      qed
    qed simp
  next
    case 4
    have seq: "parseSequence n None s \<noteq> Inl OutOfFuel" using 4 by (intro Suc.IH(2)) simp
    have rec: "parseInnerExpr n rest' \<noteq> Inl OutOfFuel"
      if "parseSequence n None s = Inr (q, rest)" "skipSpaces rest = c # rest'" for q rest c rest'
      using 4 parse_consumes(2) [OF that(1)] skipSpaces_Cons_length [OF that(2)]
      by (intro Suc.IH(4)) simp
    from seq rec show ?case
      by (fastforce split: sum.splits list.splits if_splits)
  next
    case 5
    define b where "b = trimSpace s"
    have b: "length b \<le> length s" by (simp add: b_def trimSpace_length)
    have I1: "parseInnerExpr n b \<noteq> Inl OutOfFuel"
      using 5 b by (intro Suc.IH(4)) simp
    have I2: "parseInnerExpr n (trimSpace (drop k b)) \<noteq> Inl OutOfFuel" for k
      using 5 b choices_length [of k b] by (intro Suc.IH(4)) simp
    show ?case
    proof (cases "b = [] \<or> containsByte b CHR ''<''")
      case True
      have "parseBracketBody (Suc n) s opt = (if b = [] then Inl ChoiceEmpty else
          (case parseInnerExpr n b of Inl x \<Rightarrow> Inl x
           | Inr expr \<Rightarrow> if \<not> opt then Inl ChoiceHasCapture else Inr (expr, [])))"
        using True by (auto simp: b_def Let_def)
      then show ?thesis using I1 by (cases "parseInnerExpr n b") simp_all
    next
      case False
      then show ?thesis using I2
        by (cases "indexByte b CHR '':''") (auto simp: Let_def b_def [symmetric] split: sum.split)
    qed
  }
qed simp_all


text \<open>What the parser guarantees of its result.\<close>

definition wfSlot :: "simpleMatcherSlot \<Rightarrow> bool" where
  "wfSlot s \<longleftrightarrow> isIdentifier (slotKind s) \<and> (slotName s = [] \<or> isIdentifier (slotName s))"

definition wfOption :: "simpleMatcherOption \<Rightarrow> bool" where
  "wfOption oo \<longleftrightarrow> hasPrefix (optDisplay oo) ''-'' \<and>
     (case optSlot oo of
        None \<Rightarrow> optLiteral oo = optDisplay oo
      | Some s \<Rightarrow> wfSlot s \<and> hasPrefix (optPrefix oo) ''-'' \<and> hasPrefix (optDisplay oo) (optPrefix oo))"

fun wfTerm :: "simpleMatcherTerm \<Rightarrow> bool" where
  "wfTerm (TLiteral v) = (v \<noteq> [])"
| "wfTerm (TSlot s) = wfSlot s"
| "wfTerm (TGroup e label opt cap) =
     (e \<noteq> [] \<and> list_all (\<lambda>alt. list_all wfTerm alt) e \<and> (label = [] \<or> isIdentifier label) \<and>
      (list_ex (\<lambda>alt. list_ex containsSlot alt) e \<longrightarrow> opt \<and> \<not> cap))"
| "wfTerm (TOptions label os) = (os \<noteq> [] \<and> isIdentifier label \<and> list_all wfOption os)"

definition wfExpr :: "simpleMatcherExpr \<Rightarrow> bool" where
  "wfExpr e \<longleftrightarrow> e \<noteq> [] \<and> list_all (\<lambda>alt. list_all wfTerm alt) e"

lemma parseSlot_wf: "parseSimpleMatcherSlot raw = Inr s \<Longrightarrow> wfSlot s"
  by (auto simp: parseSimpleMatcherSlot_def wfSlot_def Let_def split: list.splits if_splits)

lemma hasPrefix_take: "hasPrefix s (take k s)"
  by (simp add: hasPrefix_def min_def)

lemma parseOption_wf: "parseSimpleMatcherOption raw = Inr oo \<Longrightarrow> wfOption oo"
  by (auto simp: parseSimpleMatcherOption_def wfOption_def Let_def hasPrefix_take
      split: option.splits sum.splits if_splits dest: parseSlot_wf)

lemma mapE_wf: "mapE f xs = Inr ys \<Longrightarrow> (\<And>x y. f x = Inr y \<Longrightarrow> P y) \<Longrightarrow> list_all P ys \<and> (xs \<noteq> [] \<longrightarrow> ys \<noteq> [])"
  by (induction xs arbitrary: ys) (auto split: sum.splits)

lemma parseOptions_wf:
  "parseSimpleMatcherOptionsBlock body = Inr (Some (label, os)) \<Longrightarrow> wfTerm (TOptions label os)"
  using mapE_wf [of "\<lambda>part. parseSimpleMatcherOption (trimSpace part)" _ os wfOption] parseOption_wf
  by (auto simp: parseSimpleMatcherOptionsBlock_def Let_def split: option.splits sum.splits if_splits)

lemma parse_wf:
  "parseExpr n e s = Inr (x, r) \<Longrightarrow> wfExpr x"
  "parseSequence n e s = Inr (y, r) \<Longrightarrow> list_all wfTerm y"
  "parseTerm n s = Inr (t, r) \<Longrightarrow> wfTerm t"
  "parseInnerExpr n s = Inr x \<Longrightarrow> wfExpr x"
  "parseBracketBody n s opt = Inr (x, lab) \<Longrightarrow>
     wfExpr x \<and> (lab = [] \<or> isIdentifier lab)"
proof (induction n arbitrary: e s x y t r opt lab)
  case (Suc n)
  {
    case 1
    then show ?case
      by (fastforce split: sum.splits option.splits list.splits if_splits simp: wfExpr_def
          dest: Suc.IH(1) Suc.IH(2))
  next
    case 2
    then show ?case
      by (fastforce split: sum.splits list.splits if_splits dest: Suc.IH(2) Suc.IH(3))
  next
    case 3
    show ?case
    proof (cases s)
      case (Cons c cs)
      consider "c = CHR ''[''" | "c = CHR ''(''" | "c = CHR ''{''" | "c = CHR ''/''" | "c = CHR ''<''"
        | "c \<notin> set ''[({/<''" by auto
      then show ?thesis
      proof cases
        case 1
        with 3 Cons show ?thesis
          by (auto split: sum.splits option.splits simp: exprContainsSlot_def wfExpr_def
              dest!: parseOptions_wf Suc.IH(5))
      next
        case 2
        with 3 Cons show ?thesis
          by (auto split: sum.splits if_splits simp: exprContainsSlot_def wfExpr_def dest!: Suc.IH(5))
      next
        case 3
        with \<open>parseTerm (Suc n) s = Inr (t, r)\<close> Cons show ?thesis
          by (auto split: sum.splits if_splits simp: exprContainsSlot_def wfExpr_def dest!: Suc.IH(1))
      next
        case 4
        with 3 Cons show ?thesis
          by (auto split: sum.splits if_splits simp: exprContainsSlot_def wfExpr_def dest!: Suc.IH(1))
      next
        case 5
        with 3 Cons show ?thesis
          by (auto split: sum.splits list.splits dest: parseSlot_wf)
      next
        case 6
        with 3 Cons show ?thesis by (auto simp: Let_def split: if_splits)
      qed
    qed (use 3 in simp)
  next
    case 4
    then show ?case
      by (fastforce split: sum.splits list.splits if_splits simp: wfExpr_def
          dest: Suc.IH(2) Suc.IH(4))
  next
    case 5
    then show ?case
      by (auto simp: Let_def split: sum.splits option.splits if_splits dest!: Suc.IH(4))
  }
qed simp_all

subsection \<open>The compiled matcher\<close>

lemma compileSimpleMatcherObject_Inr:
  assumes "compileSimpleMatcherObject spec = Inr m"
  shows "wfExpr (smExpr m) \<and> exprCompilable (smExpr m) \<and> smSpec m = trimSpace spec \<and>
    smHasVariableArgs m = exprHasVariableArgs (smExpr m)"
  using assms
  by (auto simp: compileSimpleMatcherObject_def Let_def exprCompileBare_ok [symmetric]
      split: sum.splits list.splits if_splits dest!: parse_wf(1))

lemma parseExpr_None_rest: "parseExpr n None s = Inr (x, r) \<Longrightarrow> r = []"
  by (cases n) (auto split: sum.splits list.splits)

lemma slot_not_trailing: "parseSimpleMatcherSlot raw \<noteq> Inl (TrailingChar c)"
  by (auto simp: parseSimpleMatcherSlot_def Let_def split: list.splits)

lemma option_not_trailing: "parseSimpleMatcherOption raw \<noteq> Inl (TrailingChar c)"
  by (auto simp: parseSimpleMatcherOption_def Let_def slot_not_trailing split: option.splits sum.splits
      dest: slot_not_trailing [THEN notE])

lemma options_not_trailing: "parseSimpleMatcherOptionsBlock body \<noteq> Inl (TrailingChar c)"
  using mapE_not_Inl [of "\<lambda>part. parseSimpleMatcherOption (trimSpace part)" "TrailingChar c"] option_not_trailing
  by (auto simp: parseSimpleMatcherOptionsBlock_def Let_def split: option.splits sum.splits)

lemma delimited_not_trailing: "readDelimitedBody e s \<noteq> Inl (TrailingChar c)"
  by (auto simp: readDelimitedBody_def split: list.splits)

lemma parse_not_trailing:
  "parseExpr n e s \<noteq> Inl (TrailingChar c)"
  "parseSequence n e s \<noteq> Inl (TrailingChar c)"
  "parseTerm n s \<noteq> Inl (TrailingChar c)"
  "parseInnerExpr n s \<noteq> Inl (TrailingChar c)"
  "parseBracketBody n s opt \<noteq> Inl (TrailingChar c)"
proof (induction n arbitrary: e s opt)
  case (Suc n)
  note IH = Suc.IH
  {
    case 1
    show ?case using IH(1) [of e] IH(2) [of e s]
      by (auto split: sum.split option.split list.split)
  next
    case 2
    show ?case using IH(2) [of e] IH(3)
      by (auto split: sum.split list.split)
  next
    case 3
    show ?case
    proof (cases s)
      case (Cons d cs)
      consider "d = CHR ''[''" | "d = CHR ''(''" | "d = CHR ''{''" | "d = CHR ''/''" | "d = CHR ''<''"
        | "d \<notin> set ''[({/<''" by auto
      then show ?thesis
      proof cases
        case 1
        with Cons IH(5) delimited_not_trailing [of _ cs] options_not_trailing show ?thesis
          by (auto split: sum.split option.split)
      next
        case 2
        with Cons IH(5) delimited_not_trailing [of _ cs] show ?thesis by (auto split: sum.split)
      next
        case 3
        with Cons IH(1) [of _ cs] show ?thesis by (auto split: sum.split)
      next
        case 4
        with Cons IH(1) [of _ cs] show ?thesis by (auto split: sum.split)
      next
        case 5
        with Cons slot_not_trailing show ?thesis by (auto split: sum.split list.split)
      next
        case 6
        with Cons show ?thesis by (simp add: Let_def)
      qed
    qed simp
  next
    case 4
    show ?case using IH(4) IH(2) [of None s]
      by (auto split: sum.split list.split)
  next
    case 5
    show ?case using IH(4)
      by (auto simp: Let_def split: sum.split option.split)
  }
qed simp_all

text \<open>
  C11. The pattern compiler always answers with a matcher or with one of the code's own errors:
  the recursive-descent parser terminates on every specification (the model's fuel never runs
  out), and the "unexpected trailing character" branch after the parse is never taken.
\<close>

theorem compile_total:
  "compileSimpleMatcherObject spec \<noteq> Inl OutOfFuel \<and> compileSimpleMatcherObject spec \<noteq> Inl (TrailingChar c)"
proof -
  define s where "s = trimSpace spec"
  have f: "parseExpr (parseFuel s) None s \<noteq> Inl OutOfFuel"
    by (rule parse_fuel) (simp add: parseFuel_def)
  have t: "parseExpr (parseFuel s) None s \<noteq> Inl (TrailingChar c)"
    by (rule parse_not_trailing)
  have b: "exprCompileBare e \<noteq> Inl OutOfFuel" "exprCompileBare e \<noteq> Inl (TrailingChar c)" for e
    by (rule exprCompileBare_not; simp add: literalCompileBare_def Let_def)+
  show ?thesis
    unfolding compileSimpleMatcherObject_def Let_def s_def [symmetric]
    using f t b by (auto split: sum.split list.split dest: parseExpr_None_rest simp: skipSpaces_def)
qed

text \<open>
  C12. A specification that compiles yields a well-formed tree whose typed captures are all of
  known types and whose literals are non-empty: every later operation on the matcher may rely on
  it. In particular a group is capturing only when it holds no typed capture.
\<close>

theorem compile_wf:
  assumes "compileSimpleMatcherObject spec = Inr m"
  shows "wfExpr (smExpr m) \<and> exprCompilable (smExpr m) \<and> smSpec m = trimSpace spec"
  using compileSimpleMatcherObject_Inr [OF assms] by blast

theorem compile_wf_witness:
  "case compileSimpleMatcherObject ''add <n:number> [to <l:ident>]'' of
     Inl e \<Rightarrow> False
   | Inr m \<Rightarrow> wfExpr (smExpr m) \<and> exprCompilable (smExpr m) \<and> smSpec m = trimSpace ''add <n:number> [to <l:ident>]''"
proof -
  have "\<not> isl (compileSimpleMatcherObject ''add <n:number> [to <l:ident>]'')" by code_simp
  then obtain m where m: "compileSimpleMatcherObject ''add <n:number> [to <l:ident>]'' = Inr m" by (cases "compileSimpleMatcherObject ''add <n:number> [to <l:ident>]''") auto
  from compile_wf [OF m] m show ?thesis by simp
qed

end
