(* ===== verification/MatcherRun.thy ===== *)
theory MatcherRun
  imports MatcherParse
begin

text \<open>
  Matching an input against a SimpleMatcher (bot/simple_matcher.go): tokenisation, the
  \<open>matchTokens\<close> functions with their match states, diagnostics, and \<open>matchInput\<close>.

  A match state's \<open>args\<close> is a Go slice. The states of a match share backing arrays: Go's
  \<open>append\<close> writes into the shared array when the capacity allows. The matcher is therefore
  written over an \<open>appender\<close>, and used twice: \<open>appendGo\<close> is Go's \<open>append\<close> on an explicit heap of
  arrays and is what the code does; \<open>appendVal\<close> copies, and is the intended meaning.
\<close>

subsection \<open>Tokens\<close>

datatype tokenSeparator = NoTokenSeparator | WhitespaceTokenSeparator | DashTokenSeparator

record simpleMatcherToken =
  tokValue :: string
  tokField :: string
  tokFieldID :: nat
  tokSepBefore :: tokenSeparator

fun partTokens :: "string \<Rightarrow> nat \<Rightarrow> tokenSeparator \<Rightarrow> string list \<Rightarrow> simpleMatcherToken list" where
  "partTokens field fid sep [] = []"
| "partTokens field fid sep (p # ps) =
     \<lparr>tokValue = p, tokField = field, tokFieldID = fid, tokSepBefore = sep\<rparr>
     # partTokens field fid DashTokenSeparator ps"

definition isDash :: "char \<Rightarrow> bool" where
  "isDash c \<longleftrightarrow> c = CHR ''-''"

fun fieldTokens :: "nat \<Rightarrow> tokenSeparator \<Rightarrow> string list \<Rightarrow> simpleMatcherToken list" where
  "fieldTokens fid nextSep [] = []"
| "fieldTokens fid nextSep (field # rest) =
     (if hasPrefix field ''-''
      then [\<lparr>tokValue = field, tokField = field, tokFieldID = fid, tokSepBefore = nextSep\<rparr>]
      else partTokens field fid nextSep (fieldsBy isDash field))
     @ fieldTokens (fid + 1) WhitespaceTokenSeparator rest"

definition simpleMatcherTokenize :: "string \<Rightarrow> simpleMatcherToken list" where
  "simpleMatcherTokenize input = fieldTokens 0 NoTokenSeparator (goFields (trimSpace input))"

text \<open>The field of the token at \<open>pos\<close> and the position after it: \<open>simpleMatcherTokenFieldAt\<close>.\<close>

definition simpleMatcherTokenFieldAt :: "simpleMatcherToken list \<Rightarrow> nat \<Rightarrow> string \<times> nat" where
  "simpleMatcherTokenFieldAt tokens pos =
     (case drop pos tokens of
        [] \<Rightarrow> ([], pos)
      | t # rest \<Rightarrow> (tokField t, pos + 1 + length (takeWhile (\<lambda>u. tokFieldID u = tokFieldID t) rest)))"

function tokenFields :: "simpleMatcherToken list \<Rightarrow> string list" where
  "tokenFields [] = []"
| "tokenFields (t # rest) = tokField t # tokenFields (dropWhile (\<lambda>u. tokFieldID u = tokFieldID t) rest)"
  by pat_completeness auto
termination
  by (relation "measure length") (auto simp: le_imp_less_Suc length_dropWhile_le)

definition joinSimpleMatcherTokenFields :: "simpleMatcherToken list \<Rightarrow> string" where
  "joinSimpleMatcherTokenFields tokens = joinWith '' '' (tokenFields tokens)"

text \<open>The ends of the fields from \<open>pos\<close> on, before the code reverses them.\<close>

function fieldEnds :: "nat \<Rightarrow> simpleMatcherToken list \<Rightarrow> nat list" where
  "fieldEnds pos [] = []"
| "fieldEnds pos (t # rest) =
     (let k = length (takeWhile (\<lambda>u. tokFieldID u = tokFieldID t) rest)
      in (pos + 1 + k) # fieldEnds (pos + 1 + k) (dropWhile (\<lambda>u. tokFieldID u = tokFieldID t) rest))"
  by pat_completeness auto
termination
  by (relation "measure (\<lambda>(pos, ts). length ts)") (auto simp: le_imp_less_Suc length_dropWhile_le)

definition simpleMatcherRestEndPositions :: "simpleMatcherToken list \<Rightarrow> nat \<Rightarrow> nat list" where
  "simpleMatcherRestEndPositions tokens pos = rev (fieldEnds pos (drop pos tokens))"

definition joinSimpleMatcherTokens :: "simpleMatcherToken list \<Rightarrow> string" where
  "joinSimpleMatcherTokens tokens = joinWith '' '' (map tokValue tokens)"

subsection \<open>Diagnostics\<close>

definition invalidSimpleMatcherTypeDiagnostic :: "string \<Rightarrow> string \<Rightarrow> string \<Rightarrow> string" where
  "invalidSimpleMatcherTypeDiagnostic label kind value =
     (let name = (if trimSpace label = [] then kind else trimSpace label);
          description = (case map_of simpleMatcherTypeDescriptions kind of
             None \<Rightarrow> ''a valid '' @ kind @ '' value.'' | Some d \<Rightarrow> d)
      in ''Invalid value: '' @ goQuote value @ '' for: '' @ goQuote name @ ''; expected: '' @ description)"

definition invalidSimpleMatcherChoiceDiagnostic :: "string \<Rightarrow> string \<Rightarrow> string list \<Rightarrow> string" where
  "invalidSimpleMatcherChoiceDiagnostic label value choices =
     (if trimSpace label = []
      then ''Invalid value: '' @ goQuote value @ ''; valid values: '' @ joinWith '', '' choices @ ''.''
      else ''Invalid value: '' @ goQuote value @ '' for: '' @ goQuote label @ ''; valid values: ''
           @ joinWith '', '' choices @ ''.'')"

definition invalidSimpleMatcherOptionDiagnostic :: "string \<Rightarrow> string \<Rightarrow> string list \<Rightarrow> string" where
  "invalidSimpleMatcherOptionDiagnostic label value options =
     (let name = (if trimSpace label = [] then ''options'' else trimSpace label)
      in ''Invalid option: '' @ goQuote value @ '' for: '' @ goQuote name @ ''; valid options: ''
         @ joinWith '', '' options @ ''.'')"

definition inferSimpleMatcherOptionLabel :: "string \<Rightarrow> string" where
  "inferSimpleMatcherOptionLabel prefix =
     (let trimmed = trimRightBy (\<lambda>c. c \<in> set '':= '') (trimLeftBy isDash prefix)
      in if trimmed = [] then ''option'' else trimmed)"

fun appendUniquePreserveOrder :: "string list \<Rightarrow> string list \<Rightarrow> string list" where
  "appendUniquePreserveOrder dst [] = dst"
| "appendUniquePreserveOrder dst (v # vs) =
     (if v = [] \<or> v \<in> set dst then appendUniquePreserveOrder dst vs
      else appendUniquePreserveOrder (dst @ [v]) vs)"

subsection \<open>Go slices\<close>

record goSlice =
  sAddr :: nat
  sLen :: nat
  sCap :: nat

type_synonym argHeap = "string list list"
type_synonym ('h, 'a) appender = "'h \<Rightarrow> 'a \<Rightarrow> string \<Rightarrow> 'h \<times> 'a"

definition nilSlice :: goSlice where
  "nilSlice = \<lparr>sAddr = 0, sLen = 0, sCap = 0\<rparr>"

text \<open>
  The capacity after growing by one element, as Go's runtime computes it for slices of strings
  (doubling below 256 elements; the results are exact allocation size classes there).
\<close>

definition growCap :: "nat \<Rightarrow> nat" where
  "growCap c = (if c = 0 then 1 else if c < 256 then 2 * c else c + (c + 768) div 4)"

definition sliceVals :: "argHeap \<Rightarrow> goSlice \<Rightarrow> string list" where
  "sliceVals h s = (if sCap s = 0 then [] else take (sLen s) (h ! sAddr s))"

definition appendGo :: "(argHeap, goSlice) appender" where
  "appendGo h s v =
     (if sLen s < sCap s
      then (h[sAddr s := (h ! sAddr s)[sLen s := v]], s\<lparr>sLen := sLen s + 1\<rparr>)
      else (let cap = growCap (sCap s) in
        (h @ [sliceVals h s @ [v] @ replicate (cap - sLen s - 1) []],
         \<lparr>sAddr = length h, sLen = sLen s + 1, sCap = cap\<rparr>)))"

definition appendVal :: "(unit, string list) appender" where
  "appendVal u args v = ((), args @ [v])"

subsection \<open>Match states and separators\<close>

record 'a matchState =
  msPos :: nat
  msArgs :: 'a
  msDiagnostic :: string
  msCommandSep :: tokenSeparator

datatype boundaryMode = CommandBoundary | ValueBoundary | WhitespaceArgumentBoundary

fun matchesTokenSeparator :: "simpleMatcherSeparatorKind \<Rightarrow> tokenSeparator \<Rightarrow> bool" where
  "matchesTokenSeparator WhitespaceSeparator sep = (sep = WhitespaceTokenSeparator)"
| "matchesTokenSeparator FlexibleSeparator sep =
     (sep = WhitespaceTokenSeparator \<or> sep = DashTokenSeparator)"

text \<open>\<open>None\<close> stands for \<open>ok = false\<close>.\<close>

definition matchSeparator ::
    "'a matchState \<Rightarrow> simpleMatcherSeparatorKind \<Rightarrow> tokenSeparator \<Rightarrow> boundaryMode \<Rightarrow> 'a matchState option" where
  "matchSeparator state kind sep mode =
     (if msPos state = 0 then Some state
      else (case mode of
        WhitespaceArgumentBoundary \<Rightarrow>
          (if sep \<noteq> WhitespaceTokenSeparator then None
           else Some (state\<lparr>msCommandSep := NoTokenSeparator\<rparr>))
      | ValueBoundary \<Rightarrow>
          (if \<not> matchesTokenSeparator kind sep then None
           else Some (state\<lparr>msCommandSep := NoTokenSeparator\<rparr>))
      | CommandBoundary \<Rightarrow>
          (if \<not> matchesTokenSeparator kind sep then None
           else if kind = WhitespaceSeparator then Some (state\<lparr>msCommandSep := NoTokenSeparator\<rparr>)
           else if msCommandSep state = NoTokenSeparator then Some (state\<lparr>msCommandSep := sep\<rparr>)
           else if msCommandSep state = sep then Some state else None)))"

fun suffixIsValueTail :: "simpleMatcherSequence \<Rightarrow> bool \<Rightarrow> bool" where
  "suffixIsValueTail [] hasValue = hasValue"
| "suffixIsValueTail (TSlot s # ts) hasValue = suffixIsValueTail ts True"
| "suffixIsValueTail (TOptions l os # ts) hasValue = suffixIsValueTail ts True"
| "suffixIsValueTail (TGroup e l opt cap # ts) hasValue =
     (if cap \<and> \<not> exprContainsSlot e then suffixIsValueTail ts True
      else if opt \<and> \<not> cap then suffixIsValueTail ts (hasValue \<or> exprContainsSlot e)
      else False)"
| "suffixIsValueTail (TLiteral v # ts) hasValue = False"

text \<open>\<open>boundaryModeAt\<close>, on the suffix of the sequence that starts at the index.\<close>

fun boundaryModeAt :: "simpleMatcherSequence \<Rightarrow> boundaryMode" where
  "boundaryModeAt (TSlot s # ts) = WhitespaceArgumentBoundary"
| "boundaryModeAt (TOptions l os # ts) = WhitespaceArgumentBoundary"
| "boundaryModeAt ts = (if suffixIsValueTail ts False then ValueBoundary else CommandBoundary)"

subsection \<open>Literals\<close>

definition simpleMatcherLiteralParts :: "string \<Rightarrow> string list" where
  "simpleMatcherLiteralParts value = fieldsBy (\<lambda>c. isSimpleMatcherSpace c \<or> isDash c) value"

text \<open>\<open>None\<close> is the code's \<open>return nil\<close>: some term is not a literal.\<close>

fun literalPartsOf :: "simpleMatcherSequence \<Rightarrow> string list option" where
  "literalPartsOf [] = Some []"
| "literalPartsOf (TLiteral v # ts) = map_option (\<lambda>ps. simpleMatcherLiteralParts v @ ps) (literalPartsOf ts)"
| "literalPartsOf (_ # ts) = None"

definition simpleMatcherSequenceLiteralParts :: "simpleMatcherSequence \<Rightarrow> string list" where
  "simpleMatcherSequenceLiteralParts s = (case literalPartsOf s of None \<Rightarrow> [] | Some ps \<Rightarrow> ps)"

definition choiceValues :: "simpleMatcherExpr \<Rightarrow> string list" where
  "choiceValues e = map (joinWith '' '')
     (filter (\<lambda>ps. ps \<noteq> []) (map simpleMatcherSequenceLiteralParts e))"

text \<open>The loop over the parts: \<open>i > 0\<close> checks the separator at the position first.\<close>

fun literalPartsLoop ::
    "nat \<Rightarrow> simpleMatcherToken list \<Rightarrow> string list \<Rightarrow> 'a matchState \<Rightarrow> bool \<Rightarrow> 'a matchState option" where
  "literalPartsLoop pos tokens [] matched first = Some matched"
| "literalPartsLoop pos [] (p # ps) matched first = None"
| "literalPartsLoop pos (t # ts) (p # ps) matched first =
     (case (if first then Some matched
            else matchSeparator (matched\<lparr>msPos := pos\<rparr>) FlexibleSeparator (tokSepBefore t) CommandBoundary) of
        None \<Rightarrow> None
      | Some matched' \<Rightarrow>
          if \<not> equalFold (tokValue t) p then None
          else literalPartsLoop (pos + 1) ts ps matched' False)"

definition matchSimpleMatcherLiteralParts ::
    "simpleMatcherToken list \<Rightarrow> 'a matchState \<Rightarrow> string list \<Rightarrow> ('a matchState \<times> string) option" where
  "matchSimpleMatcherLiteralParts tokens state parts =
     (if parts = [] \<or> length tokens < msPos state + length parts then None
      else (case literalPartsLoop (msPos state) (drop (msPos state) tokens) parts state True of
        None \<Rightarrow> None
      | Some matched \<Rightarrow>
          Some (matched\<lparr>msPos := msPos state + length parts\<rparr>,
                joinSimpleMatcherTokens (take (length parts) (drop (msPos state) tokens)))))"

subsection \<open>Matching\<close>

definition optionMatch :: "simpleMatcherOption \<Rightarrow> string \<Rightarrow> bool \<times> string" where
  "optionMatch oo value =
     (case optSlot oo of
        None \<Rightarrow> (equalFold value (optLiteral oo), [])
      | Some slot \<Rightarrow>
          if \<not> hasPrefix (toLower value) (toLower (optPrefix oo)) then (False, [])
          else (let raw = drop (length (optPrefix oo)) value in
            if simpleMatcherTypeMatches (slotKind slot) raw then (True, [])
            else (False, invalidSimpleMatcherTypeDiagnostic
                    (if slotName slot = [] then inferSimpleMatcherOptionLabel (optPrefix oo) else slotName slot)
                    (slotKind slot) raw)))"

fun matchOptionLoop :: "simpleMatcherOption list \<Rightarrow> string \<Rightarrow> string list \<Rightarrow> bool \<times> string list" where
  "matchOptionLoop [] value diags = (False, diags)"
| "matchOptionLoop (oo # os) value diags =
     (case optionMatch oo value of
        (True, _) \<Rightarrow> (True, diags)
      | (False, d) \<Rightarrow> matchOptionLoop os value (if d \<noteq> [] then appendUniquePreserveOrder diags [d] else diags))"

definition matchOption :: "string \<Rightarrow> simpleMatcherOption list \<Rightarrow> string \<Rightarrow> bool \<times> string" where
  "matchOption label os value =
     (case matchOptionLoop os value [] of
        (True, _) \<Rightarrow> (True, [])
      | (False, [d]) \<Rightarrow> (False, d)
      | (False, _) \<Rightarrow> (False, invalidSimpleMatcherOptionDiagnostic label value (map optDisplay os)))"

text \<open>The loop of the options block, over the tokens from \<open>matched.pos\<close> on.\<close>

fun matchOptionsLoop ::
    "('h, 'a) appender \<Rightarrow> string \<Rightarrow> simpleMatcherOption list \<Rightarrow> nat \<Rightarrow> simpleMatcherToken list \<Rightarrow>
     'h \<Rightarrow> 'a matchState \<Rightarrow> 'h \<times> 'a matchState list" where
  "matchOptionsLoop app label os start [] h matched = (h, [matched])"
| "matchOptionsLoop app label os start (t # ts) h matched =
     (if \<not> hasPrefix (tokValue t) ''-''
         \<or> (start < msPos matched \<and> tokSepBefore t \<noteq> WhitespaceTokenSeparator)
      then (h, [matched])
      else (case matchOption label os (tokValue t) of
        (False, diagnostic) \<Rightarrow>
          (if msDiagnostic matched \<noteq> [] then (h, [])
           else (h, [matched\<lparr>msDiagnostic := diagnostic, msPos := msPos matched + 1\<rparr>]))
      | (True, _) \<Rightarrow>
          (case app h (msArgs matched) (tokValue t) of
             (h', args) \<Rightarrow> matchOptionsLoop app label os start ts h'
               (matched\<lparr>msArgs := args, msPos := msPos matched + 1, msCommandSep := NoTokenSeparator\<rparr>))))"

definition optionsMatchTokens ::
    "('h, 'a) appender \<Rightarrow> string \<Rightarrow> simpleMatcherOption list \<Rightarrow> simpleMatcherToken list \<Rightarrow>
     'h \<Rightarrow> 'a matchState \<Rightarrow> 'h \<times> 'a matchState list" where
  "optionsMatchTokens app label os tokens h state =
     (case drop (msPos state) tokens of
        [] \<Rightarrow> (h, [state])
      | t # ts \<Rightarrow>
          if \<not> hasPrefix (tokValue t) ''-'' then (h, [state])
          else matchOptionsLoop app label os (msPos state) (t # ts) h state)"

text \<open>Running a state transformer over a list of states, left to right, collecting the results.\<close>

fun concatThread :: "('h \<Rightarrow> 'x \<Rightarrow> 'h \<times> 'y list) \<Rightarrow> 'h \<Rightarrow> 'x list \<Rightarrow> 'h \<times> 'y list" where
  "concatThread f h [] = (h, [])"
| "concatThread f h (x # xs) =
     (case f h x of (h1, ys) \<Rightarrow> case concatThread f h1 xs of (h2, zs) \<Rightarrow> (h2, ys @ zs))"

definition restMatchTokens ::
    "('h, 'a) appender \<Rightarrow> simpleMatcherToken list \<Rightarrow> 'h \<Rightarrow> 'a matchState \<Rightarrow> 'h \<times> 'a matchState list" where
  "restMatchTokens app tokens h state =
     concatThread (\<lambda>h end.
        case app h (msArgs state) (joinSimpleMatcherTokenFields (take (end - msPos state) (drop (msPos state) tokens))) of
          (h', args) \<Rightarrow> (h', [state\<lparr>msPos := end, msArgs := args, msCommandSep := NoTokenSeparator\<rparr>]))
      h (simpleMatcherRestEndPositions tokens (msPos state))"

definition slotMatchTokens ::
    "('h, 'a) appender \<Rightarrow> simpleMatcherSlot \<Rightarrow> simpleMatcherToken list \<Rightarrow>
     'h \<Rightarrow> 'a matchState \<Rightarrow> 'h \<times> 'a matchState list" where
  "slotMatchTokens app slot tokens h state =
     (if length tokens \<le> msPos state then (h, [])
      else (case simpleMatcherTokenFieldAt tokens (msPos state) of
        (value, nextPos) \<Rightarrow>
          if slotKind slot = ''rest'' then restMatchTokens app tokens h state
          else if simpleMatcherTypeMatches (slotKind slot) value then
            (case app h (msArgs state) value of
               (h', args) \<Rightarrow> (h', [state\<lparr>msPos := nextPos, msArgs := args, msCommandSep := NoTokenSeparator\<rparr>]))
          else if msDiagnostic state \<noteq> [] then (h, [])
          else (h, [state\<lparr>msPos := nextPos,
                 msDiagnostic := invalidSimpleMatcherTypeDiagnostic (slotName slot) (slotKind slot) value,
                 msCommandSep := NoTokenSeparator\<rparr>])))"

definition literalMatchTokens :: "string \<Rightarrow> simpleMatcherToken list \<Rightarrow> 'a matchState \<Rightarrow> 'a matchState list" where
  "literalMatchTokens v tokens state =
     (case matchSimpleMatcherLiteralParts tokens state (simpleMatcherLiteralParts v) of
        None \<Rightarrow> [] | Some (matched, _) \<Rightarrow> [matched])"

definition matchChoiceTokens ::
    "('h, 'a) appender \<Rightarrow> simpleMatcherExpr \<Rightarrow> string \<Rightarrow> simpleMatcherToken list \<Rightarrow>
     'h \<Rightarrow> 'a matchState \<Rightarrow> 'h \<times> 'a matchState list" where
  "matchChoiceTokens app e label tokens h state =
     (case concatThread (\<lambda>h alt.
        (case matchSimpleMatcherLiteralParts tokens state (simpleMatcherSequenceLiteralParts alt) of
           None \<Rightarrow> (h, [])
         | Some (matched, value) \<Rightarrow>
             (case app h (msArgs matched) value of (h', args) \<Rightarrow> (h', [matched\<lparr>msArgs := args\<rparr>])))) h e of
       (h1, out) \<Rightarrow>
         if out \<noteq> [] \<or> length tokens \<le> msPos state \<or> msDiagnostic state \<noteq> [] then (h1, out)
         else (h1, [state\<lparr>msPos := msPos state + 1,
                msDiagnostic := invalidSimpleMatcherChoiceDiagnostic label
                  (tokValue (tokens ! msPos state)) (choiceValues e)\<rparr>]))"

fun appendEmpties :: "('h, 'a) appender \<Rightarrow> nat \<Rightarrow> 'h \<Rightarrow> 'a \<Rightarrow> 'h \<times> 'a" where
  "appendEmpties app 0 h args = (h, args)"
| "appendEmpties app (Suc n) h args = (case app h args [] of (h', args') \<Rightarrow> appendEmpties app n h' args')"

text \<open>The separator check of the loop in \<open>simpleMatcherSequence.matchTokens\<close>.\<close>

definition enterTerm ::
    "simpleMatcherToken list \<Rightarrow> simpleMatcherSequence \<Rightarrow> 'a matchState \<Rightarrow> 'a matchState option" where
  "enterTerm tokens ts state =
     (if msPos state < length tokens
      then matchSeparator state (separatorBefore (hd ts)) (tokSepBefore (tokens ! msPos state)) (boundaryModeAt ts)
      else if 0 < msPos state \<and> \<not> isOptional (hd ts) then None
      else Some state)"

fun matchTerm ::
    "('h, 'a) appender \<Rightarrow> simpleMatcherToken list \<Rightarrow> simpleMatcherTerm \<Rightarrow> 'h \<Rightarrow> 'a matchState \<Rightarrow> 'h \<times> 'a matchState list"
and matchSeq ::
    "('h, 'a) appender \<Rightarrow> simpleMatcherToken list \<Rightarrow> simpleMatcherSequence \<Rightarrow> 'h \<Rightarrow> 'a matchState list \<Rightarrow> 'h \<times> 'a matchState list"
and matchExpr ::
    "('h, 'a) appender \<Rightarrow> simpleMatcherToken list \<Rightarrow> simpleMatcherExpr \<Rightarrow> 'h \<Rightarrow> 'a matchState \<Rightarrow> 'h \<times> 'a matchState list"
where
  "matchTerm app tokens (TLiteral v) h state = (h, literalMatchTokens v tokens state)"
| "matchTerm app tokens (TSlot slot) h state = slotMatchTokens app slot tokens h state"
| "matchTerm app tokens (TGroup e label opt cap) h state =
     (case (if opt
            then (case appendEmpties app (captureCount (TGroup e label opt cap)) h (msArgs state) of
                    (h', args) \<Rightarrow> (h', [state\<lparr>msArgs := args\<rparr>]))
            else (h, [])) of
        (h1, skipped) \<Rightarrow>
          (case (if cap \<and> \<not> exprContainsSlot e then matchChoiceTokens app e label tokens h1 state
                 else matchExpr app tokens e h1 state) of
             (h2, out) \<Rightarrow> (h2, out @ skipped)))"
| "matchTerm app tokens (TOptions label os) h state = optionsMatchTokens app label os tokens h state"
| "matchSeq app tokens [] h states = (h, states)"
| "matchSeq app tokens (t # ts) h states =
     (case concatThread (\<lambda>h state.
        (case enterTerm tokens (t # ts) state of
           None \<Rightarrow> (h, [])
         | Some state' \<Rightarrow> matchTerm app tokens t h state')) h states of
       (h1, next) \<Rightarrow> if next = [] then (h1, []) else matchSeq app tokens ts h1 next)"
| "matchExpr app tokens [] h state = (h, [])"
| "matchExpr app tokens (alt # alts) h state =
     (case matchSeq app tokens alt h [state] of
        (h1, out) \<Rightarrow> (case matchExpr app tokens alts h1 state of (h2, out') \<Rightarrow> (h2, out @ out')))"

subsection \<open>Results\<close>

datatype inputMatchResult =
  NoMatch
| SyntaxMatch string          \<comment> \<open>\<open>inputSyntaxMatch\<close> with its diagnostic\<close>
| ExactMatch "string list"    \<comment> \<open>\<open>inputExactMatch\<close> with its args\<close>

fun collectResult :: "nat \<Rightarrow> ('a \<Rightarrow> string list) \<Rightarrow> 'a matchState list \<Rightarrow> string list \<Rightarrow> inputMatchResult" where
  "collectResult n vals [] diags = (case diags of [d] \<Rightarrow> SyntaxMatch d | _ \<Rightarrow> NoMatch)"
| "collectResult n vals (state # states) diags =
     (if msPos state \<noteq> n then collectResult n vals states diags
      else if msDiagnostic state = [] then ExactMatch (vals (msArgs state))
      else collectResult n vals states (appendUniquePreserveOrder diags [msDiagnostic state]))"

text \<open>
  \<open>syntaxMatch\<close> as the code runs it, with shared arrays, and \<open>syntaxMatchIntended\<close>, the same
  search with copied arguments.
\<close>

definition syntaxMatch :: "simpleMatcher \<Rightarrow> string \<Rightarrow> inputMatchResult" where
  "syntaxMatch m input =
     (let tokens = simpleMatcherTokenize input in
      if tokens = [] then NoMatch
      else (case matchExpr appendGo tokens (smExpr m) []
              \<lparr>msPos = 0, msArgs = nilSlice, msDiagnostic = [], msCommandSep = NoTokenSeparator\<rparr> of
              (h, states) \<Rightarrow> collectResult (length tokens) (sliceVals h) states []))"

definition syntaxMatchIntended :: "simpleMatcher \<Rightarrow> string \<Rightarrow> inputMatchResult" where
  "syntaxMatchIntended m input =
     (let tokens = simpleMatcherTokenize input in
      if tokens = [] then NoMatch
      else (case matchExpr appendVal tokens (smExpr m) ()
              \<lparr>msPos = 0, msArgs = [], msDiagnostic = [], msCommandSep = NoTokenSeparator\<rparr> of
              (u, states) \<Rightarrow> collectResult (length tokens) (\<lambda>args. args) states []))"

end
