(* ===== verification/MatcherAlias.thy ===== *)
theory MatcherAlias
  imports MatcherRun
begin

text \<open>
  Argument slices that share a backing array (bot/simple_matcher.go). Match states are copied by
  value, but the \<open>args\<close> slices of the copies share arrays, and a later \<open>append\<close> can overwrite an
  element that an earlier state still reads. The simulation below shows that the sharing reaches
  only the fourth and later arguments; the last theorem shows that it does reach the fourth.
\<close>

definition heapLe :: "argHeap \<Rightarrow> argHeap \<Rightarrow> bool" where
  "heapLe h h' \<longleftrightarrow> length h \<le> length h' \<and>
     (\<forall>a < length h. length (h' ! a) = length (h ! a) \<and> take 3 (h' ! a) = take 3 (h ! a))"

text \<open>Capacities grow 0, 1, 2, 4: a slice with spare capacity has at least three elements.\<close>

definition sliceOk :: "goSlice \<Rightarrow> bool" where
  "sliceOk s \<longleftrightarrow> sLen s \<le> sCap s \<and> (sLen s < sCap s \<longrightarrow> 3 \<le> sLen s) \<and> (sCap s \<le> 2 \<or> 4 \<le> sCap s)"

definition sliceRel :: "argHeap \<Rightarrow> goSlice \<Rightarrow> string list \<Rightarrow> bool" where
  "sliceRel h s args \<longleftrightarrow> sLen s = length args \<and> sliceOk s \<and>
     (sCap s \<noteq> 0 \<longrightarrow> sAddr s < length h \<and> length (h ! sAddr s) = sCap s \<and>
        take 3 (sliceVals h s) = take 3 args)"

definition stateRel :: "argHeap \<Rightarrow> goSlice matchState \<Rightarrow> string list matchState \<Rightarrow> bool" where
  "stateRel h s v \<longleftrightarrow> msPos s = msPos v \<and> sliceRel h (msArgs s) (msArgs v) \<and>
     msDiagnostic s = msDiagnostic v \<and> msCommandSep s = msCommandSep v"

definition runRel ::
    "argHeap \<Rightarrow> argHeap \<times> goSlice matchState list \<Rightarrow> unit \<times> string list matchState list \<Rightarrow> bool" where
  "runRel h0 r q \<longleftrightarrow> heapLe h0 (fst r) \<and> list_all2 (stateRel (fst r)) (snd r) (snd q)"

lemma heapLe_refl: "heapLe h h" by (simp add: heapLe_def)

lemma heapLe_trans: "heapLe h1 h2 \<Longrightarrow> heapLe h2 h3 \<Longrightarrow> heapLe h1 h3"
  unfolding heapLe_def by fastforce

lemma sliceVals_take3: "heapLe h h' \<Longrightarrow> sAddr s < length h \<Longrightarrow> take 3 (sliceVals h' s) = take 3 (sliceVals h s)"
  by (auto simp: heapLe_def sliceVals_def min.commute) (metis min.commute take_take)

lemma sliceRel_mono: "sliceRel h s a \<Longrightarrow> heapLe h h' \<Longrightarrow> sliceRel h' s a"
  using sliceVals_take3 [of h h' s] by (auto simp: sliceRel_def heapLe_def)

lemma stateRel_mono: "stateRel h s v \<Longrightarrow> heapLe h h' \<Longrightarrow> stateRel h' s v"
  by (auto simp: stateRel_def intro: sliceRel_mono)

lemma stateRels_mono: "list_all2 (stateRel h) ss vs \<Longrightarrow> heapLe h h' \<Longrightarrow> list_all2 (stateRel h') ss vs"
  by (auto elim: list_all2_mono intro: stateRel_mono)

lemma appendGo_rel:
  assumes r: "sliceRel h s args" and g: "appendGo h s x = (h', s')"
  shows "heapLe h h' \<and> sliceRel h' s' (args @ [x])"
proof (cases "sLen s < sCap s")
  case True
  with r have k: "3 \<le> sLen s" "sAddr s < length h" "length (h ! sAddr s) = sCap s" "sLen s = length args"
    "4 \<le> sCap s" "take 3 (sliceVals h s) = take 3 args"
    by (auto simp: sliceRel_def sliceOk_def)
  from g True have e: "h' = h[sAddr s := (h ! sAddr s)[sLen s := x]]" "s' = s\<lparr>sLen := sLen s + 1\<rparr>"
    by (auto simp: appendGo_def)
  have t: "take 3 ((h ! sAddr s)[sLen s := x]) = take 3 (h ! sAddr s)" using k by simp
  then have "heapLe h h'" using k by (auto simp: heapLe_def e nth_list_update)
  moreover have "take 3 (sliceVals h' s') = take 3 (args @ [x])"
  proof -
    have "take 3 (sliceVals h' s') = take 3 (h ! sAddr s)"
      using k t by (simp add: sliceVals_def e min_def)
    also have "\<dots> = take 3 (sliceVals h s)" using k by (simp add: sliceVals_def min_def)
    finally show ?thesis using k by simp
  qed
  ultimately show ?thesis using k True by (auto simp: sliceRel_def sliceOk_def e)
next
  case False
  with r have l: "sLen s = sCap s" "sLen s = length args" "sCap s \<le> 2 \<or> 4 \<le> sCap s"
    by (auto simp: sliceRel_def sliceOk_def)
  from g False have e: "h' = h @ [sliceVals h s @ [x] @ replicate (growCap (sCap s) - sLen s - 1) []]"
    "s' = \<lparr>sAddr = length h, sLen = sLen s + 1, sCap = growCap (sCap s)\<rparr>"
    by (auto simp: appendGo_def Let_def)
  have gc: "sCap s < growCap (sCap s)" by (auto simp: growCap_def div_greater_zero_iff)
  have v: "length (sliceVals h s) = sLen s" "take 3 (sliceVals h s) = take 3 args"
    using r l by (auto simp: sliceVals_def sliceRel_def)
  have "heapLe h h'" by (auto simp: heapLe_def e nth_append)
  moreover have "sliceOk s'"
    using l gc by (auto simp: sliceOk_def e growCap_def le_Suc_eq numeral_2_eq_2)
  moreover have "sliceVals h' s' = sliceVals h s @ [x]" using gc v by (simp add: sliceVals_def e)
  ultimately show ?thesis using gc v l by (auto simp: sliceRel_def e)
qed

lemma runRel_refl: "list_all2 (stateRel h) ss vs \<Longrightarrow> runRel h (h, ss) (u, vs)"
  by (simp add: runRel_def heapLe_refl)

lemma concatThread_rel:
  assumes "\<And>h x y. R h x y \<Longrightarrow> runRel h (f h x) (g () y)"
    and mono: "\<And>h h' x y. R h x y \<Longrightarrow> heapLe h h' \<Longrightarrow> R h' x y"
    and "list_all2 (R h) xs ys"
  shows "runRel h (concatThread f h xs) (concatThread g () ys)"
  using assms(3)
proof (induction xs arbitrary: h ys)
  case Nil
  then show ?case by (simp add: runRel_def heapLe_refl)
next
  case (Cons x xs)
  then obtain y ys' where y: "ys = y # ys'" "R h x y" "list_all2 (R h) xs ys'"
    by (auto simp: list_all2_Cons1)
  obtain h1 ss where f1: "f h x = (h1, ss)" by (cases "f h x")
  obtain vs where g1: "g () y = ((), vs)" by (cases "g () y") simp
  have r1: "heapLe h h1" "list_all2 (stateRel h1) ss vs"
    using assms(1) [OF y(2)] by (simp_all add: f1 g1 runRel_def)
  have "list_all2 (R h1) xs ys'"
    using y(3) by (rule list_all2_mono) (use mono r1(1) in blast)
  note r2 = Cons.IH [OF this]
  obtain h2 ss2 where f2: "concatThread f h1 xs = (h2, ss2)" by (cases "concatThread f h1 xs")
  obtain vs2 where g2: "concatThread g () ys' = ((), vs2)" by (cases "concatThread g () ys'") simp
  from r2 have "heapLe h1 h2" "list_all2 (stateRel h2) ss2 vs2" by (simp_all add: f2 g2 runRel_def)
  with r1 show ?case
    by (auto simp: y f1 f2 g1 g2 runRel_def intro: heapLe_trans list_all2_appendI stateRels_mono)
qed

lemma stateRel_pos: "stateRel h s v \<Longrightarrow> msPos s = msPos v"
  by (simp add: stateRel_def)

lemma stateRel_diag: "stateRel h s v \<Longrightarrow> msDiagnostic s = msDiagnostic v"
  by (simp add: stateRel_def)

lemma appendGo_state:
  fixes s :: "goSlice matchState" and v :: "string list matchState"
  assumes "sliceRel h a b" and "appendGo h a x = (h', a')" and "appendVal u b x = (u', b')"
    and "msPos s = msPos v" and "msDiagnostic s = msDiagnostic v" and "msCommandSep s = msCommandSep v"
  shows "heapLe h h' \<and> stateRel h' (s\<lparr>msArgs := a'\<rparr>) (v\<lparr>msArgs := b'\<rparr>)"
  using appendGo_rel [OF assms(1,2)] assms(3-) by (auto simp: stateRel_def appendVal_def)

lemma matchSeparator_rel:
  "stateRel h s v \<Longrightarrow> rel_option (stateRel h) (matchSeparator s k sep m) (matchSeparator v k sep m)"
  by (auto simp: matchSeparator_def stateRel_def split: boundaryMode.split)

lemma enterTerm_rel:
  "stateRel h s v \<Longrightarrow> rel_option (stateRel h) (enterTerm tokens ts s) (enterTerm tokens ts v)"
  using matchSeparator_rel [of h s v] by (auto simp: enterTerm_def stateRel_pos)

lemma literalPartsLoop_rel:
  "stateRel h s v \<Longrightarrow>
   rel_option (stateRel h) (literalPartsLoop pos toks parts s b) (literalPartsLoop pos toks parts v b)"
proof (induction pos toks parts s b arbitrary: v rule: literalPartsLoop.induct)
  case (3 pos t ts p ps matched first)
  have upd: "stateRel h (matched\<lparr>msPos := pos\<rparr>) (v\<lparr>msPos := pos\<rparr>)"
    using 3(2) by (auto simp: stateRel_def)
  have "rel_option (stateRel h)
      (if first then Some matched
       else matchSeparator (matched\<lparr>msPos := pos\<rparr>) FlexibleSeparator (tokSepBefore t) CommandBoundary)
      (if first then Some v
       else matchSeparator (v\<lparr>msPos := pos\<rparr>) FlexibleSeparator (tokSepBefore t) CommandBoundary)"
    using matchSeparator_rel [OF upd] 3(2) by simp
  then show ?case
  proof (cases rule: option.rel_cases)
    case (Some m w)
    then show ?thesis using 3(1) [OF Some(1)] by simp
  qed simp
qed auto

lemma literalParts_rel:
  "stateRel h s v \<Longrightarrow>
   rel_option (rel_prod (stateRel h) (=)) (matchSimpleMatcherLiteralParts tokens s parts)
     (matchSimpleMatcherLiteralParts tokens v parts)"
  using literalPartsLoop_rel [of h s v "msPos v" "drop (msPos v) tokens" parts True]
  by (auto simp: matchSimpleMatcherLiteralParts_def stateRel_pos elim!: option.rel_cases
      split: option.splits) (auto simp: stateRel_def)

lemma literal_rel: "stateRel h s v \<Longrightarrow> runRel h (h, literalMatchTokens l tokens s) (u, literalMatchTokens l tokens v)"
  using literalParts_rel [of h s v tokens "simpleMatcherLiteralParts l"]
  by (auto simp: literalMatchTokens_def runRel_def heapLe_refl elim!: option.rel_cases)

lemma rest_rel:
  assumes "stateRel h s v"
  shows "runRel h (restMatchTokens appendGo tokens h s) (restMatchTokens appendVal tokens () v)"
  unfolding restMatchTokens_def stateRel_pos [OF assms]
proof (rule concatThread_rel [where R = "\<lambda>h x y. x = y \<and> stateRel h s v"])
  fix h and x y :: nat assume r: "x = y \<and> stateRel h s v"
  let ?j = "joinSimpleMatcherTokenFields (take (y - msPos v) (drop (msPos v) tokens))"
  obtain h' a where g: "appendGo h (msArgs s) ?j = (h', a)" by (cases "appendGo h (msArgs s) ?j")
  obtain u b where vv: "appendVal () (msArgs v) ?j = (u, b)" by (cases "appendVal () (msArgs v) ?j")
  have "sliceRel h (msArgs s) (msArgs v)" using r by (simp add: stateRel_def)
  from appendGo_state [OF this g vv, of "s\<lparr>msPos := y, msCommandSep := NoTokenSeparator\<rparr>"
      "v\<lparr>msPos := y, msCommandSep := NoTokenSeparator\<rparr>"] r
  show "runRel h
     (case appendGo h (msArgs s) (joinSimpleMatcherTokenFields (take (x - msPos v) (drop (msPos v) tokens))) of
        (h', args) \<Rightarrow> (h', [s\<lparr>msPos := x, msArgs := args, msCommandSep := NoTokenSeparator\<rparr>]))
     (case appendVal () (msArgs v) ?j of
        (h', args) \<Rightarrow> (h', [v\<lparr>msPos := y, msArgs := args, msCommandSep := NoTokenSeparator\<rparr>]))"
    by (auto simp: g vv runRel_def stateRel_def)
next
  show "list_all2 (\<lambda>x y. x = y \<and> stateRel h s v)
      (simpleMatcherRestEndPositions tokens (msPos v)) (simpleMatcherRestEndPositions tokens (msPos v))"
    using assms by (simp add: list_all2_same)
qed (auto intro: stateRel_mono)

lemma slot_rel:
  assumes "stateRel h s v"
  shows "runRel h (slotMatchTokens appendGo slot tokens h s) (slotMatchTokens appendVal slot tokens () v)"
proof -
  obtain val nextPos where f: "simpleMatcherTokenFieldAt tokens (msPos v) = (val, nextPos)"
    by (cases "simpleMatcherTokenFieldAt tokens (msPos v)")
  obtain h' a where g: "appendGo h (msArgs s) val = (h', a)" by (cases "appendGo h (msArgs s) val")
  obtain u b where vv: "appendVal () (msArgs v) val = (u, b)" by (cases "appendVal () (msArgs v) val")
  have "sliceRel h (msArgs s) (msArgs v)" using assms by (simp add: stateRel_def)
  from appendGo_state [OF this g vv, of "s\<lparr>msPos := nextPos, msCommandSep := NoTokenSeparator\<rparr>"
      "v\<lparr>msPos := nextPos, msCommandSep := NoTokenSeparator\<rparr>"] assms rest_rel [OF assms]
  show ?thesis
    by (auto simp: slotMatchTokens_def stateRel_pos [OF assms] stateRel_diag [OF assms] f g vv
        runRel_def stateRel_def heapLe_refl)
qed


lemma choice_rel:
  assumes r: "stateRel h s v"
  shows "runRel h (matchChoiceTokens appendGo e label tokens h s) (matchChoiceTokens appendVal e label tokens () v)"
proof -
  let ?f = "\<lambda>h alt. case matchSimpleMatcherLiteralParts tokens s (simpleMatcherSequenceLiteralParts alt) of
      None \<Rightarrow> (h, [])
    | Some (matched, value) \<Rightarrow>
        (case appendGo h (msArgs matched) value of (h', args) \<Rightarrow> (h', [matched\<lparr>msArgs := args\<rparr>]))"
  let ?g = "\<lambda>u alt. case matchSimpleMatcherLiteralParts tokens v (simpleMatcherSequenceLiteralParts alt) of
      None \<Rightarrow> (u, [])
    | Some (matched, value) \<Rightarrow>
        (case appendVal u (msArgs matched) value of (h', args) \<Rightarrow> (h', [matched\<lparr>msArgs := args\<rparr>]))"
  have c: "runRel h (concatThread ?f h e) (concatThread ?g () e)"
  proof (rule concatThread_rel [where R = "\<lambda>h x y. x = y \<and> stateRel h s v"])
    fix h and x y :: simpleMatcherSequence
    assume r: "x = y \<and> stateRel h s v"
    then have "rel_option (rel_prod (stateRel h) (=))
      (matchSimpleMatcherLiteralParts tokens s (simpleMatcherSequenceLiteralParts x))
      (matchSimpleMatcherLiteralParts tokens v (simpleMatcherSequenceLiteralParts y))"
      using literalParts_rel by blast
    then show "runRel h (?f h x) (?g () y)"
    proof (cases rule: option.rel_cases)
      case (Some m w)
      then obtain ms ws val where mw: "m = (ms, val)" "w = (ws, val)" and sr: "stateRel h ms ws"
        by (cases m; cases w) auto
      obtain h' a where g: "appendGo h (msArgs ms) val = (h', a)" by (cases "appendGo h (msArgs ms) val")
      obtain u b where vv: "appendVal () (msArgs ws) val = (u, b)" by (cases "appendVal () (msArgs ws) val")
      from sr have "sliceRel h (msArgs ms) (msArgs ws)" by (simp add: stateRel_def)
      from appendGo_state [OF this g vv] sr show ?thesis
        by (auto simp: Some mw g vv runRel_def stateRel_def)
    qed (simp add: runRel_def heapLe_refl)
  next
    show "list_all2 (\<lambda>x y. x = y \<and> stateRel h s v) e e"
      using assms by (simp add: list_all2_same)
  qed (auto intro: stateRel_mono)
  obtain h1 out where f1: "concatThread ?f h e = (h1, out)" by (cases "concatThread ?f h e")
  obtain out' where g1: "concatThread ?g () e = ((), out')" by (cases "concatThread ?g () e") simp
  from c have c1: "heapLe h h1" "list_all2 (stateRel h1) out out'" by (simp_all add: f1 g1 runRel_def)
  then have emp: "out = [] \<longleftrightarrow> out' = []" by auto
  have "stateRel h1 (s\<lparr>msPos := p, msDiagnostic := d\<rparr>) (v\<lparr>msPos := p, msDiagnostic := d\<rparr>)" for p d
    using stateRel_mono [OF r c1(1)] by (simp add: stateRel_def)
  with c1 emp show ?thesis
    unfolding matchChoiceTokens_def f1 g1 prod.case
    by (auto simp: runRel_def stateRel_pos [OF r] stateRel_diag [OF r])
qed

lemma optionsLoop_rel:
  "stateRel h s v \<Longrightarrow> runRel h (matchOptionsLoop appendGo label os start toks h s)
     (matchOptionsLoop appendVal label os start toks () v)"
proof (induction toks arbitrary: h s v)
  case (Cons t ts)
  note r = Cons.prems
  obtain ok d where m: "matchOption label os (tokValue t) = (ok, d)" by (cases "matchOption label os (tokValue t)")
  obtain h' a where g: "appendGo h (msArgs s) (tokValue t) = (h', a)" by (cases "appendGo h (msArgs s) (tokValue t)")
  obtain u b where vv: "appendVal () (msArgs v) (tokValue t) = (u, b)" by (cases "appendVal () (msArgs v) (tokValue t)")
  let ?s = "s\<lparr>msArgs := a, msPos := msPos s + 1, msCommandSep := NoTokenSeparator\<rparr>"
  let ?v = "v\<lparr>msArgs := b, msPos := msPos v + 1, msCommandSep := NoTokenSeparator\<rparr>"
  have "sliceRel h (msArgs s) (msArgs v)" using r by (simp add: stateRel_def)
  from appendGo_state [OF this g vv, of s v] r
  have le: "heapLe h h'" and st: "stateRel h' ?s ?v" by (auto simp: stateRel_def)
  from Cons.IH [OF st] have rec: "runRel h (matchOptionsLoop appendGo label os start ts h' ?s)
      (matchOptionsLoop appendVal label os start ts () ?v)"
    using le by (auto simp: runRel_def intro: heapLe_trans)
  have "stateRel h (s\<lparr>msDiagnostic := d, msPos := p\<rparr>) (v\<lparr>msDiagnostic := d, msPos := p\<rparr>)" for p
    using r by (simp add: stateRel_def)
  with rec r show ?case
    by (cases ok) (simp_all add: m g vv stateRel_pos [OF r] stateRel_diag [OF r] runRel_def heapLe_refl)
qed (simp add: runRel_def heapLe_refl)

lemma options_rel:
  assumes "stateRel h s v"
  shows "runRel h (optionsMatchTokens appendGo label os tokens h s) (optionsMatchTokens appendVal label os tokens () v)"
  using optionsLoop_rel [OF assms] assms
  unfolding optionsMatchTokens_def stateRel_pos [OF assms]
  by (cases "drop (msPos v) tokens") (simp_all add: runRel_refl del: matchOptionsLoop.simps)

lemma appendEmpties_rel:
  "sliceRel h a b \<Longrightarrow> appendEmpties appendGo n h a = (h', a') \<Longrightarrow> appendEmpties appendVal n u b = (u', b') \<Longrightarrow>
   heapLe h h' \<and> sliceRel h' a' b'"
proof (induction n arbitrary: h a b u)
  case (Suc n)
  obtain h1 a1 where g: "appendGo h a [] = (h1, a1)" by (cases "appendGo h a []")
  from appendGo_rel [OF Suc.prems(1) g] have "heapLe h h1" "sliceRel h1 a1 (b @ [[]])" by auto
  with Suc.IH [OF this(2), of u] Suc.prems(2-) show ?case
    by (auto simp: g appendVal_def intro: heapLe_trans)
qed (simp add: heapLe_refl)



definition termRel :: "simpleMatcherToken list \<Rightarrow> simpleMatcherTerm \<Rightarrow> bool" where
  "termRel tokens t \<longleftrightarrow> (\<forall>h s v. stateRel h s v \<longrightarrow>
     runRel h (matchTerm appendGo tokens t h s) (matchTerm appendVal tokens t () v))"

lemma seq_rel:
  "list_all (termRel tokens) ts \<Longrightarrow> list_all2 (stateRel h) ss vs \<Longrightarrow>
   runRel h (matchSeq appendGo tokens ts h ss) (matchSeq appendVal tokens ts () vs)"
proof (induction ts arbitrary: h ss vs)
  case Nil
  then show ?case by (simp add: runRel_def heapLe_refl)
next
  case (Cons t ts)
  let ?f = "\<lambda>app h state. case enterTerm tokens (t # ts) state of None \<Rightarrow> (h, [])
    | Some state' \<Rightarrow> matchTerm app tokens t h state'"
  have c: "runRel h (concatThread (?f appendGo) h ss) (concatThread (?f appendVal) () vs)"
  proof (rule concatThread_rel [where R = stateRel])
    fix h s v assume "stateRel h s v"
    from enterTerm_rel [OF this, of tokens "t # ts"]
    show "runRel h (?f appendGo h s) (?f appendVal () v)"
      by (cases rule: option.rel_cases) (use Cons.prems(1) in \<open>auto simp: termRel_def runRel_def heapLe_refl\<close>)
  qed (use Cons.prems in \<open>auto intro: stateRel_mono\<close>)
  obtain h1 ss1 where f1: "concatThread (?f appendGo) h ss = (h1, ss1)" by (cases "concatThread (?f appendGo) h ss")
  obtain vs1 where g1: "concatThread (?f appendVal) () vs = ((), vs1)" by (cases "concatThread (?f appendVal) () vs") simp
  from c have c1: "heapLe h h1" "list_all2 (stateRel h1) ss1 vs1" by (simp_all add: f1 g1 runRel_def)
  then have emp: "ss1 = [] \<longleftrightarrow> vs1 = []" by auto
  have "list_all (termRel tokens) ts" using Cons.prems by simp
  from Cons.IH [OF this c1(2)] c1 emp show ?case
    by (auto simp: f1 g1 runRel_def intro: heapLe_trans)
qed

lemma expr_rel:
  "list_all (list_all (termRel tokens)) e \<Longrightarrow> stateRel h s v \<Longrightarrow>
   runRel h (matchExpr appendGo tokens e h s) (matchExpr appendVal tokens e () v)"
proof (induction e arbitrary: h)
  case Nil
  then show ?case by (simp add: runRel_def heapLe_refl)
next
  case (Cons alt alts)
  obtain h1 ss1 where f1: "matchSeq appendGo tokens alt h [s] = (h1, ss1)" by (cases "matchSeq appendGo tokens alt h [s]")
  obtain vs1 where g1: "matchSeq appendVal tokens alt () [v] = ((), vs1)" by (cases "matchSeq appendVal tokens alt () [v]") simp
  have c1: "heapLe h h1" "list_all2 (stateRel h1) ss1 vs1"
    using seq_rel [of tokens alt h "[s]" "[v]"] Cons.prems by (simp_all add: f1 g1 runRel_def)
  obtain h2 ss2 where f2: "matchExpr appendGo tokens alts h1 s = (h2, ss2)" by (cases "matchExpr appendGo tokens alts h1 s")
  obtain vs2 where g2: "matchExpr appendVal tokens alts () v = ((), vs2)" by (cases "matchExpr appendVal tokens alts () v") simp
  have c2: "heapLe h1 h2" "list_all2 (stateRel h2) ss2 vs2"
    using Cons.IH [of h1] Cons.prems stateRel_mono [OF _ c1(1)] by (auto simp: f2 g2 runRel_def)
  from c1 c2 show ?case
    by (auto simp: f1 g1 f2 g2 runRel_def intro: heapLe_trans list_all2_appendI stateRels_mono)
qed

lemma term_rel: "termRel tokens t"
proof (induction t rule: compilable.induct)
  case (1 l)
  show ?case by (simp add: termRel_def literal_rel)
next
  case (2 slot)
  show ?case by (simp add: termRel_def slot_rel)
next
  case (3 e label opt cap)
  define n where "n = captureCount (TGroup e label opt cap)"
  have e: "list_all (list_all (termRel tokens)) e" using 3 by (auto simp: list_all_iff)
  have "runRel h (matchTerm appendGo tokens (TGroup e label opt cap) h s)
      (matchTerm appendVal tokens (TGroup e label opt cap) () v)" if r: "stateRel h s v" for h s v
  proof -
    let ?sk = "\<lambda>app h s. if opt then (case appendEmpties app n h (msArgs s) of
        (h', args) \<Rightarrow> (h', [s\<lparr>msArgs := args\<rparr>])) else (h, [])"
    let ?in = "\<lambda>app h s. if cap \<and> \<not> exprContainsSlot e then matchChoiceTokens app e label tokens h s
        else matchExpr app tokens e h s"
    obtain h1 sk where f1: "?sk appendGo h s = (h1, sk)" by (cases "?sk appendGo h s")
    obtain sk' where g1: "?sk appendVal () v = ((), sk')" by (cases "?sk appendVal () v") simp
    obtain ha a where ga: "appendEmpties appendGo n h (msArgs s) = (ha, a)"
      by (cases "appendEmpties appendGo n h (msArgs s)")
    obtain u b where va: "appendEmpties appendVal n () (msArgs v) = (u, b)"
      by (cases "appendEmpties appendVal n () (msArgs v)")
    have "sliceRel h (msArgs s) (msArgs v)" using r by (simp add: stateRel_def)
    from appendEmpties_rel [OF this ga va] have le: "heapLe h ha" "sliceRel ha a b" by auto
    have k: "heapLe h h1 \<and> list_all2 (stateRel h1) sk sk'"
      using f1 g1 le r by (cases opt) (auto simp: ga va stateRel_def heapLe_refl)
    obtain h2 out where f2: "?in appendGo h1 s = (h2, out)" by (cases "?in appendGo h1 s")
    obtain out' where g2: "?in appendVal () v = ((), out')" by (cases "?in appendVal () v") simp
    from r k have "stateRel h1 s v" by (auto intro: stateRel_mono)
    from choice_rel [OF this] expr_rel [OF e this]
    have "runRel h1 (?in appendGo h1 s) (?in appendVal () v)" by simp
    then have "heapLe h1 h2" "list_all2 (stateRel h2) out out'" by (simp_all add: f2 g2 runRel_def)
    with k show ?thesis
      unfolding matchTerm.simps n_def [symmetric] f1 g1 prod.case f2 g2
      by (auto simp: runRel_def intro: heapLe_trans list_all2_appendI stateRels_mono)
  qed
  then show ?case by (simp add: termRel_def del: matchTerm.simps)
next
  case (4 label os)
  show ?case by (simp add: termRel_def options_rel)
qed

lemma match_rel:
  "stateRel h s v \<Longrightarrow> runRel h (matchExpr appendGo tokens e h s) (matchExpr appendVal tokens e () v)"
  by (rule expr_rel) (simp_all add: list_all_iff term_rel)

text \<open>Two results that differ at most in the fourth and later arguments.\<close>

fun sameUpToThree :: "inputMatchResult \<Rightarrow> inputMatchResult \<Rightarrow> bool" where
  "sameUpToThree (ExactMatch xs) (ExactMatch ys) \<longleftrightarrow> length xs = length ys \<and> take 3 xs = take 3 ys"
| "sameUpToThree r r' \<longleftrightarrow> r = r'"

lemma sliceVals_rel:
  "sliceRel h a b \<Longrightarrow> length (sliceVals h a) = length b \<and> take 3 (sliceVals h a) = take 3 b"
  by (auto simp: sliceRel_def sliceOk_def sliceVals_def)

lemma collect_rel:
  "list_all2 (stateRel h) ss vs \<Longrightarrow>
   sameUpToThree (collectResult n (sliceVals h) ss diags) (collectResult n (\<lambda>args. args) vs diags)"
proof (induction ss vs arbitrary: diags rule: list_all2_induct)
  case Nil
  then show ?case by (auto split: list.split)
next
  case (Cons s ss v vs)
  then show ?case using sliceVals_rel [of h "msArgs s" "msArgs v"] by (auto simp: stateRel_def)
qed

lemma syntaxMatch_sim:
  "sameUpToThree (syntaxMatch m input) (syntaxMatchIntended m input)"
proof -
  define tokens where "tokens = simpleMatcherTokenize input"
  let ?s = "\<lparr>msPos = 0, msArgs = nilSlice, msDiagnostic = [], msCommandSep = NoTokenSeparator\<rparr>"
  let ?v = "\<lparr>msPos = 0, msArgs = [], msDiagnostic = [], msCommandSep = NoTokenSeparator\<rparr>"
  have "stateRel [] ?s ?v" by (simp add: stateRel_def sliceRel_def sliceOk_def nilSlice_def)
  note r = match_rel [OF this, of tokens "smExpr m"]
  obtain h ss where f: "matchExpr appendGo tokens (smExpr m) [] ?s = (h, ss)"
    by (cases "matchExpr appendGo tokens (smExpr m) [] ?s")
  obtain vs where g: "matchExpr appendVal tokens (smExpr m) () ?v = ((), vs)"
    by (cases "matchExpr appendVal tokens (smExpr m) () ?v") simp
  from r have "list_all2 (stateRel h) ss vs" by (simp add: f g runRel_def)
  from collect_rel [OF this, of "length tokens" "[]"] show ?thesis
    by (simp add: syntaxMatch_def syntaxMatchIntended_def tokens_def [symmetric] Let_def f g)
qed

text \<open>
  C13. For every matcher and input, the match over shared argument arrays returns the same kind of
  result and the same diagnostic as the match with copied arguments, with as many arguments and
  the same first three; so a matcher with at most three captures returns exactly the intended
  result.
\<close>

theorem syntaxMatch_aliasing:
  "sameUpToThree (syntaxMatch m input) (syntaxMatchIntended m input)"
  by (rule syntaxMatch_sim)

definition specMatch ::
    "(simpleMatcher \<Rightarrow> string \<Rightarrow> inputMatchResult) \<Rightarrow> string \<Rightarrow> string \<Rightarrow> matcherError + inputMatchResult" where
  "specMatch run spec input =
     (case compileSimpleMatcherObject spec of Inl e \<Rightarrow> Inl e | Inr m \<Rightarrow> Inr (run m input))"

text \<open>
  The bound of three is sharp: with three typed captures before it, a final \<open>rest\<close> capture
  that must take the whole remainder of the line keeps only its first word, because the states of
  the shorter remainders are appended to the same array afterwards.
\<close>

theorem rest_after_three_captures_truncated:
  "specMatch syntaxMatchIntended ''cp <a:token> <b:token> <c:token> <d:rest>'' ''cp 1 2 3 hello big world''
     = Inr (ExactMatch [''1'', ''2'', ''3'', ''hello big world'']) \<and>
   specMatch syntaxMatch ''cp <a:token> <b:token> <c:token> <d:rest>'' ''cp 1 2 3 hello big world''
     = Inr (ExactMatch [''1'', ''2'', ''3'', ''hello''])"
  by (intro conjI; code_simp)

end
