(* ===== verification/MatcherArgs.thy ===== *)
theory MatcherArgs
  imports MatcherAlias
begin

text \<open>
  What the arguments of an exact match are (bot/simple_matcher.go). \<open>termArgs\<close> and \<open>seqArgs\<close> say
  which argument lists a term or a sequence of the tree may produce, without reference to the
  search; the search produces only such lists, never moves backwards or past the input, and never
  replaces a diagnostic. From that follows when the number of arguments is fixed by the tree.
\<close>

text \<open>A choice group gives the matched words; a skipped group one empty argument per capture.\<close>

inductive termArgs :: "simpleMatcherTerm \<Rightarrow> string list \<Rightarrow> bool"
  and seqArgs :: "simpleMatcherSequence \<Rightarrow> string list \<Rightarrow> bool"
where
  lit: "termArgs (TLiteral v) []"
| slot: "slotKind s = ''rest'' \<or> simpleMatcherTypeMatches (slotKind s) x \<Longrightarrow> termArgs (TSlot s) [x]"
| choice: "\<not> exprContainsSlot e \<Longrightarrow> alt \<in> set e \<Longrightarrow> vs \<noteq> [] \<Longrightarrow>
    list_all2 equalFold vs (simpleMatcherSequenceLiteralParts alt) \<Longrightarrow>
    termArgs (TGroup e label opt True) [joinWith '' '' vs]"
| group: "\<not> (cap \<and> \<not> exprContainsSlot e) \<Longrightarrow> alt \<in> set e \<Longrightarrow> seqArgs alt xs \<Longrightarrow>
    termArgs (TGroup e label opt cap) xs"
| skip: "termArgs (TGroup e label True cap) (replicate (captureCount (TGroup e label True cap)) [])"
| options: "list_all (\<lambda>x. hasPrefix x ''-'' \<and> list_ex (\<lambda>oo. fst (optionMatch oo x)) os) xs \<Longrightarrow>
    termArgs (TOptions label os) xs"
| nil: "seqArgs [] []"
| cons: "termArgs t xs \<Longrightarrow> seqArgs ts ys \<Longrightarrow> seqArgs (t # ts) (xs @ ys)"

definition stepOk ::
    "nat \<Rightarrow> (string list \<Rightarrow> bool) \<Rightarrow> string list matchState \<Rightarrow> string list matchState \<Rightarrow> bool" where
  "stepOk n P v w \<longleftrightarrow> msPos v \<le> msPos w \<and> msPos w \<le> n \<and>
     (msDiagnostic v \<noteq> [] \<longrightarrow> msDiagnostic w = msDiagnostic v) \<and>
     (msDiagnostic w = [] \<longrightarrow> (\<exists>xs. msArgs w = msArgs v @ xs \<and> P xs))"

lemma concatThread_val [simp]:
  "snd (concatThread g () xs) = concat (map (\<lambda>x. snd (g () x)) xs)"
  by (induction xs) (simp_all add: case_prod_unfold)

lemma appendVal_case: "(case appendVal u args x of (h', args') \<Rightarrow> f h' args') = f () (args @ [x])"
  by (simp add: appendVal_def)

lemma appendEmpties_val [simp]: "appendEmpties appendVal n u b = ((), b @ replicate n [])"
  by (induction n arbitrary: u b) (simp_all add: appendVal_def replicate_append_same)

lemma matchSeparator_fields:
  "matchSeparator s k sep m = Some s' \<Longrightarrow>
   msPos s' = msPos s \<and> msArgs s' = msArgs s \<and> msDiagnostic s' = msDiagnostic s"
  by (auto simp: matchSeparator_def split: if_splits boundaryMode.splits)

lemma enterTerm_fields:
  "enterTerm tokens ts s = Some s' \<Longrightarrow>
   msPos s' = msPos s \<and> msArgs s' = msArgs s \<and> msDiagnostic s' = msDiagnostic s"
  by (auto simp: enterTerm_def split: if_splits dest: matchSeparator_fields)

lemma literalPartsLoop_fields:
  "literalPartsLoop pos toks parts s b = Some s' \<Longrightarrow>
   msArgs s' = msArgs s \<and> msDiagnostic s' = msDiagnostic s \<and>
   list_all2 equalFold (map tokValue (take (length parts) toks)) parts"
proof (induction pos toks parts s b rule: literalPartsLoop.induct)
  case (3 pos t ts p ps matched first)
  from 3(2) obtain m where m: "(if first then Some matched
      else matchSeparator (matched\<lparr>msPos := pos\<rparr>) FlexibleSeparator (tokSepBefore t) CommandBoundary) = Some m"
    "equalFold (tokValue t) p" "literalPartsLoop (pos + 1) ts ps m False = Some s'"
    by (auto split: option.splits if_splits)
  then have "msArgs m = msArgs matched \<and> msDiagnostic m = msDiagnostic matched"
    by (auto split: if_splits dest: matchSeparator_fields)
  with 3(1) [OF m(1)] m show ?case by auto
qed auto

lemma literalParts_fields:
  assumes "matchSimpleMatcherLiteralParts tokens s parts = Some (s', v)"
  shows "msPos s' = msPos s + length parts \<and> msPos s' \<le> length tokens \<and> msArgs s' = msArgs s \<and>
    msDiagnostic s' = msDiagnostic s \<and> parts \<noteq> [] \<and>
    (\<exists>vs. v = joinWith '' '' vs \<and> list_all2 equalFold vs parts)"
  using assms literalPartsLoop_fields [of "msPos s" "drop (msPos s) tokens" parts s True]
  by (auto simp: matchSimpleMatcherLiteralParts_def joinSimpleMatcherTokens_def
      split: if_splits option.splits)

lemma fieldAt_bound:
  assumes "simpleMatcherTokenFieldAt tokens pos = (v, p)" and "pos < length tokens"
  shows "pos \<le> p \<and> p \<le> length tokens"
proof -
  obtain t rest where d: "drop pos tokens = t # rest" using assms(2) by (cases "drop pos tokens") auto
  then have "length rest = length tokens - pos - 1" proof -
    have "length (drop pos tokens) = Suc (length rest)" by (simp add: d)
    then show ?thesis by simp
  qed
  moreover have "length (takeWhile (\<lambda>u. tokFieldID u = tokFieldID t) rest) \<le> length rest"
    by (rule length_takeWhile_le)
  ultimately show ?thesis using assms d
    by (auto simp: simpleMatcherTokenFieldAt_def)
qed

lemma fieldEnds_bound: "p \<in> set (fieldEnds pos ts) \<Longrightarrow> pos \<le> p \<and> p \<le> pos + length ts"
proof (induction pos ts rule: fieldEnds.induct)
  case (2 pos t rest)
  let ?k = "length (takeWhile (\<lambda>u. tokFieldID u = tokFieldID t) rest)"
  let ?d = "dropWhile (\<lambda>u. tokFieldID u = tokFieldID t) rest"
  have l: "?k + length ?d = length rest" by (metis length_append takeWhile_dropWhile_id)
  from 2(2) have "p = pos + 1 + ?k \<or> p \<in> set (fieldEnds (pos + 1 + ?k) ?d)" by (auto simp: Let_def)
  then show ?case using 2(1) [OF refl] l by auto
qed simp

lemma restEnds_bound:
  "p \<in> set (simpleMatcherRestEndPositions tokens pos) \<Longrightarrow> pos \<le> length tokens \<Longrightarrow> pos \<le> p \<and> p \<le> length tokens"
  using fieldEnds_bound [of p pos "drop pos tokens"] by (auto simp: simpleMatcherRestEndPositions_def)

lemma slot_step:
  "w \<in> set (snd (slotMatchTokens appendVal slot tokens () v)) \<Longrightarrow> stepOk (length tokens) (termArgs (TSlot slot)) v w"
proof -
  assume w: "w \<in> set (snd (slotMatchTokens appendVal slot tokens () v))"
  obtain x p where f: "simpleMatcherTokenFieldAt tokens (msPos v) = (x, p)"
    by (cases "simpleMatcherTokenFieldAt tokens (msPos v)")
  from w have l: "msPos v < length tokens" by (auto simp: slotMatchTokens_def split: if_splits)
  with fieldAt_bound [OF f] have b: "msPos v \<le> p" "p \<le> length tokens" by auto
  from w f l b show ?thesis
    by (auto simp: slotMatchTokens_def restMatchTokens_def appendVal_def stepOk_def invalidSimpleMatcherTypeDiagnostic_def Let_def
        split: if_splits intro: termArgs_seqArgs.slot dest!: restEnds_bound)
qed


lemma choice_step:
  assumes w: "w \<in> set (snd (matchChoiceTokens appendVal e label tokens () v))"
    and "msPos v \<le> length tokens" and "\<not> exprContainsSlot e"
  shows "stepOk (length tokens) (termArgs (TGroup e label opt True)) v w"
proof -
  let ?new = "\<lambda>w. \<exists>alt \<in> set e. \<exists>m val. matchSimpleMatcherLiteralParts tokens v
      (simpleMatcherSequenceLiteralParts alt) = Some (m, val) \<and> w = m\<lparr>msArgs := msArgs m @ [val]\<rparr>"
  let ?g = "\<lambda>h alt. case matchSimpleMatcherLiteralParts tokens v (simpleMatcherSequenceLiteralParts alt) of
      None \<Rightarrow> (h, [])
    | Some (matched, value) \<Rightarrow>
        (case appendVal h (msArgs matched) value of (h', args) \<Rightarrow> (h', [matched\<lparr>msArgs := args\<rparr>]))"
  have "w \<in> set (snd (concatThread ?g () e)) \<or> (msPos v < length tokens \<and> msDiagnostic v = [] \<and>
      (\<exists>d. d \<noteq> [] \<and> w = v\<lparr>msPos := msPos v + 1, msDiagnostic := d\<rparr>))"
    using w by (auto simp: matchChoiceTokens_def case_prod_unfold invalidSimpleMatcherChoiceDiagnostic_def
        simp del: concatThread_val split: if_splits)
  moreover have "?new w" if "w \<in> set (snd (concatThread ?g () e))"
  proof -
    from that obtain alt where a: "alt \<in> set e" "w \<in> set (snd (?g () alt))" by auto
    then show ?thesis
      by (cases "matchSimpleMatcherLiteralParts tokens v (simpleMatcherSequenceLiteralParts alt)")
         (auto simp: appendVal_case intro!: bexI [of _ alt])
  qed
  ultimately have "?new w \<or> (msPos v < length tokens \<and> msDiagnostic v = [] \<and>
      (\<exists>d. d \<noteq> [] \<and> w = v\<lparr>msPos := msPos v + 1, msDiagnostic := d\<rparr>))" by blast
  then show ?thesis
  proof
    assume "?new w"
    then obtain alt m val where a: "alt \<in> set e" "w = m\<lparr>msArgs := msArgs m @ [val]\<rparr>"
      and l: "matchSimpleMatcherLiteralParts tokens v (simpleMatcherSequenceLiteralParts alt) = Some (m, val)" by blast
    from literalParts_fields [OF l] obtain vs where vs:
      "val = joinWith '' '' vs" "list_all2 equalFold vs (simpleMatcherSequenceLiteralParts alt)"
      "simpleMatcherSequenceLiteralParts alt \<noteq> []" by blast
    then have "vs \<noteq> []" by auto
    from termArgs_seqArgs.choice [OF assms(3) a(1) this vs(2), of label opt]
    have "termArgs (TGroup e label opt True) [val]" by (simp only: vs(1))
    with literalParts_fields [OF l] a show ?thesis by (auto simp: stepOk_def)
  qed (auto simp: stepOk_def)
qed

lemma appendUnique_nonempty: "[] \<notin> set ds \<Longrightarrow> [] \<notin> set (appendUniquePreserveOrder ds vs)"
  by (induction ds vs rule: appendUniquePreserveOrder.induct) auto

lemma matchOption_diag: "matchOption label os x = (False, d) \<Longrightarrow> d \<noteq> []"
proof -
  have "[] \<notin> set ds \<Longrightarrow> [] \<notin> set (snd (matchOptionLoop os x ds))" for ds
    by (induction os arbitrary: ds) (auto split: prod.split bool.split simp: appendUnique_nonempty)
  from this [of "[]"] show "matchOption label os x = (False, d) \<Longrightarrow> ?thesis"
    by (auto simp: matchOption_def invalidSimpleMatcherOptionDiagnostic_def Let_def
        split: prod.splits bool.splits list.splits)
qed

lemma matchOption_True: "matchOption label os x = (True, d) \<Longrightarrow> list_ex (\<lambda>oo. fst (optionMatch oo x)) os"
proof -
  have "matchOptionLoop os x ds = (True, r) \<Longrightarrow> list_ex (\<lambda>oo. fst (optionMatch oo x)) os" for ds r
    by (induction os arbitrary: ds) (auto split: prod.splits bool.splits)
  then show "matchOption label os x = (True, d) \<Longrightarrow> ?thesis"
    by (auto simp: matchOption_def split: prod.splits bool.splits list.splits)
qed

lemma optionsLoop_step:
  "w \<in> set (snd (matchOptionsLoop appendVal label os start toks () v)) \<Longrightarrow> msPos v + length toks = n \<Longrightarrow>
   stepOk n (termArgs (TOptions label os)) v w"
proof (induction toks arbitrary: v)
  case Nil
  then show ?case by (auto simp: stepOk_def intro!: exI [of _ "[]"] termArgs_seqArgs.options)
next
  case (Cons t ts)
  let ?v = "v\<lparr>msArgs := msArgs v @ [tokValue t], msPos := msPos v + 1, msCommandSep := NoTokenSeparator\<rparr>"
  obtain ok d where m: "matchOption label os (tokValue t) = (ok, d)" by (cases "matchOption label os (tokValue t)")
  consider (stop) "w = v"
    | (bad) "msDiagnostic v = []" "d \<noteq> []" "w = v\<lparr>msDiagnostic := d, msPos := msPos v + 1\<rparr>"
    | (step) "ok" "hasPrefix (tokValue t) ''-''" "w \<in> set (snd (matchOptionsLoop appendVal label os start ts () ?v))"
    using Cons.prems(1) m matchOption_diag by (cases ok) (auto simp: appendVal_case split: if_splits)
  then show ?case
  proof cases
    case stop
    then show ?thesis using Cons.prems by (auto simp: stepOk_def intro!: exI [of _ "[]"] termArgs_seqArgs.options)
  next
    case bad
    then show ?thesis using Cons.prems by (auto simp: stepOk_def)
  next
    case step
    from Cons.IH [OF step(3)] Cons.prems(2) have s: "stepOk n (termArgs (TOptions label os)) ?v w" by simp
    have "termArgs (TOptions label os) (tokValue t # xs)" if "termArgs (TOptions label os) xs" for xs
      using that step m matchOption_True by (auto elim!: termArgs.cases intro!: termArgs_seqArgs.options)
    with s show ?thesis by (fastforce simp: stepOk_def)
  qed
qed

lemma options_step:
  assumes w: "w \<in> set (snd (optionsMatchTokens appendVal label os tokens () v))" and l: "msPos v \<le> length tokens"
  shows "stepOk (length tokens) (termArgs (TOptions label os)) v w"
proof -
  have "w = v \<or> w \<in> set (snd (matchOptionsLoop appendVal label os (msPos v) (drop (msPos v) tokens) () v))"
    using w unfolding optionsMatchTokens_def
    by (cases "drop (msPos v) tokens") (auto simp del: matchOptionsLoop.simps split: if_splits)
  then show ?thesis
  proof
    assume "w = v"
    then show ?thesis using l by (auto simp: stepOk_def intro!: exI [of _ "[]"] termArgs_seqArgs.options)
  next
    assume "w \<in> set (snd (matchOptionsLoop appendVal label os (msPos v) (drop (msPos v) tokens) () v))"
    then show ?thesis by (rule optionsLoop_step) (simp add: l)
  qed
qed

lemma literal_step:
  "w \<in> set (literalMatchTokens l tokens v) \<Longrightarrow> stepOk (length tokens) (termArgs (TLiteral l)) v w"
  using literalParts_fields [of tokens v "simpleMatcherLiteralParts l" w]
  by (cases "matchSimpleMatcherLiteralParts tokens v (simpleMatcherLiteralParts l)")
     (auto simp: literalMatchTokens_def stepOk_def termArgs_seqArgs.lit)


lemma stepOk_trans:
  assumes "stepOk n P u v" and "stepOk n Q v w" and "\<And>xs ys. P xs \<Longrightarrow> Q ys \<Longrightarrow> R (xs @ ys)"
  shows "stepOk n R u w"
proof -
  have "\<exists>xs. msArgs w = msArgs u @ xs \<and> R xs" if "msDiagnostic w = []"
  proof -
    from that assms obtain ys where "msArgs w = msArgs v @ ys" "Q ys" by (auto simp: stepOk_def)
    moreover from that assms(1,2) obtain xs where "msArgs v = msArgs u @ xs" "P xs"
      by (cases "msDiagnostic v = []") (auto simp: stepOk_def)
    ultimately show ?thesis using assms(3) by auto
  qed
  then show ?thesis using assms(1,2) by (fastforce simp: stepOk_def)
qed

lemma stepOk_mono: "stepOk n P v w \<Longrightarrow> (\<And>xs. P xs \<Longrightarrow> Q xs) \<Longrightarrow> stepOk n Q v w"
  by (auto simp: stepOk_def)

definition termStep :: "simpleMatcherToken list \<Rightarrow> simpleMatcherTerm \<Rightarrow> bool" where
  "termStep tokens t \<longleftrightarrow> (\<forall>v. msPos v \<le> length tokens \<longrightarrow>
     list_all (stepOk (length tokens) (termArgs t) v) (snd (matchTerm appendVal tokens t () v)))"

lemma seq_step:
  "list_all (termStep tokens) ts \<Longrightarrow> w \<in> set (snd (matchSeq appendVal tokens ts () vs)) \<Longrightarrow>
   list_all (\<lambda>v. msPos v \<le> length tokens) vs \<Longrightarrow> \<exists>v \<in> set vs. stepOk (length tokens) (seqArgs ts) v w"
proof (induction ts arbitrary: vs)
  case Nil
  then show ?case by (auto simp: stepOk_def list_all_iff intro!: bexI [of _ w] termArgs_seqArgs.nil)
next
  case (Cons t ts)
  let ?f = "\<lambda>h state. case enterTerm tokens (t # ts) state of None \<Rightarrow> (h, [])
    | Some state' \<Rightarrow> matchTerm appendVal tokens t h state'"
  obtain next' where c: "concatThread ?f () vs = ((), next')" by (cases "concatThread ?f () vs") simp
  have n: "next' = concat (map (\<lambda>x. snd (?f () x)) vs)" using concatThread_val [of ?f vs] by (simp add: c)
  have step: "\<exists>v \<in> set vs. stepOk (length tokens) (termArgs t) v x" if "x \<in> set next'" for x
  proof -
    from that n obtain v where v: "v \<in> set vs" "x \<in> set (snd (?f () v))" by auto
    then obtain v' where v': "enterTerm tokens (t # ts) v = Some v'" "x \<in> set (snd (matchTerm appendVal tokens t () v'))"
      by (auto split: option.splits)
    note e = enterTerm_fields [OF v'(1)]
    have "msPos v' \<le> length tokens" using e v(1) Cons.prems(3) by (simp add: list_all_iff)
    then have "stepOk (length tokens) (termArgs t) v' x"
      using Cons.prems(1) v'(2) by (simp add: termStep_def list_all_iff)
    with e v(1) show ?thesis by (auto simp: stepOk_def)
  qed
  have "next' \<noteq> [] \<and> w \<in> set (snd (matchSeq appendVal tokens ts () next'))"
    using Cons.prems(2) by (auto simp: c split: if_splits)
  moreover have "list_all (\<lambda>v. msPos v \<le> length tokens) next'" using step by (auto simp: list_all_iff stepOk_def)
  ultimately obtain x where x: "x \<in> set next'" "stepOk (length tokens) (seqArgs ts) x w"
    using Cons.IH [of next'] Cons.prems(1) by auto
  with step obtain v where "v \<in> set vs" "stepOk (length tokens) (termArgs t) v x" by blast
  with x(2) show ?case by (auto intro: stepOk_trans termArgs_seqArgs.cons)
qed

lemma expr_step:
  "list_all (list_all (termStep tokens)) e \<Longrightarrow> msPos v \<le> length tokens \<Longrightarrow>
   w \<in> set (snd (matchExpr appendVal tokens e () v)) \<Longrightarrow> \<exists>alt \<in> set e. stepOk (length tokens) (seqArgs alt) v w"
proof (induction e)
  case (Cons alt alts)
  from Cons.prems(3) have "w \<in> set (snd (matchSeq appendVal tokens alt () [v])) \<or>
      w \<in> set (snd (matchExpr appendVal tokens alts () v))"
    by (auto simp: case_prod_unfold)
  then show ?case
    using Cons.IH Cons.prems(1,2) seq_step [of tokens alt w "[v]"] by auto
qed simp

lemma term_step: "termStep tokens t"
proof (induction t rule: compilable.induct)
  case (1 l)
  show ?case by (simp add: termStep_def list_all_iff literal_step)
next
  case (2 slot)
  show ?case by (simp add: termStep_def list_all_iff slot_step)
next
  case (3 e label opt cap)
  define n where "n = captureCount (TGroup e label opt cap)"
  have e: "list_all (list_all (termStep tokens)) e" using 3 by (auto simp: list_all_iff)
  have "stepOk (length tokens) (termArgs (TGroup e label opt cap)) v w"
    if l: "msPos v \<le> length tokens" and w: "w \<in> set (snd (matchTerm appendVal tokens (TGroup e label opt cap) () v))" for v w
  proof -
    consider (skip) "opt" "w = v\<lparr>msArgs := msArgs v @ replicate n []\<rparr>"
      | (choice) "cap \<and> \<not> exprContainsSlot e" "w \<in> set (snd (matchChoiceTokens appendVal e label tokens () v))"
      | (group) "\<not> (cap \<and> \<not> exprContainsSlot e)" "w \<in> set (snd (matchExpr appendVal tokens e () v))"
      using w unfolding matchTerm.simps n_def [symmetric]
      by (auto simp: case_prod_unfold split: if_splits)
    then show ?thesis
    proof cases
      case skip
      then have "termArgs (TGroup e label opt cap) (replicate n [])"
        using termArgs_seqArgs.skip [of e label cap] by (simp add: n_def)
      then show ?thesis using l skip by (auto simp: stepOk_def)
    next
      case choice
      then show ?thesis using choice_step [OF choice(2) l, of opt] by simp
    next
      case group
      from expr_step [OF e l group(2)] obtain alt where
        a: "alt \<in> set e" "stepOk (length tokens) (seqArgs alt) v w" by blast
      show ?thesis by (rule stepOk_mono [OF a(2)]) (rule termArgs_seqArgs.group [OF group(1) a(1)])
    qed
  qed
  then show ?case by (simp add: termStep_def list_all_iff del: matchTerm.simps)
next
  case (4 label os)
  show ?case by (simp add: termStep_def list_all_iff options_step)
qed

lemma collectResult_Exact:
  "collectResult n vals ss diags = ExactMatch args \<Longrightarrow>
   \<exists>s \<in> set ss. msPos s = n \<and> msDiagnostic s = [] \<and> args = vals (msArgs s)"
  by (induction n vals ss diags rule: collectResult.induct) (auto split: if_splits list.splits)

lemma intended_args_sound:
  assumes "syntaxMatchIntended m input = ExactMatch args"
  shows "\<exists>alt \<in> set (smExpr m). seqArgs alt args"
proof -
  define tokens where "tokens = simpleMatcherTokenize input"
  let ?v = "\<lparr>msPos = 0, msArgs = [], msDiagnostic = [], msCommandSep = NoTokenSeparator\<rparr> :: string list matchState"
  from assms obtain w where w: "w \<in> set (snd (matchExpr appendVal tokens (smExpr m) () ?v))"
    "msDiagnostic w = []" "args = msArgs w"
    by (auto simp: syntaxMatchIntended_def tokens_def [symmetric] Let_def case_prod_unfold
        split: if_splits dest!: collectResult_Exact)
  have "list_all (list_all (termStep tokens)) (smExpr m)" by (simp add: list_all_iff term_step)
  from expr_step [OF this _ w(1)] w(2,3) show ?thesis by (auto simp: stepOk_def)
qed


fun balanced :: "simpleMatcherTerm \<Rightarrow> bool" where
  "balanced (TLiteral v) = True"
| "balanced (TSlot s) = True"
| "balanced (TGroup e label opt cap) = ((cap \<and> \<not> exprContainsSlot e) \<or>
     (list_all (list_all balanced) e \<and> list_all (\<lambda>alt. seqCaptureCount alt = exprCaptureCount e) e))"
| "balanced (TOptions label os) = False"

definition exprBalanced :: "simpleMatcherExpr \<Rightarrow> bool" where
  "exprBalanced e \<longleftrightarrow> list_all (list_all balanced) e \<and> list_all (\<lambda>alt. seqCaptureCount alt = exprCaptureCount e) e"

lemma captureCount_group:
  "captureCount (TGroup e label opt cap) = (if cap \<and> \<not> exprContainsSlot e then 1 else exprCaptureCount e)"
  by (simp add: exprContainsSlot_def exprCaptureCount_def seqCaptureCount_def [abs_def])

lemma args_count:
  "termArgs t xs \<Longrightarrow> balanced t \<Longrightarrow> length xs = captureCount t"
  "seqArgs ts xs \<Longrightarrow> list_all balanced ts \<Longrightarrow> length xs = seqCaptureCount ts"
proof (induction rule: termArgs_seqArgs.inducts)
  case (group cap e alt xs label opt)
  then have "list_all balanced alt" "seqCaptureCount alt = exprCaptureCount e"
    by (auto simp: list_all_iff)
  with group show ?case unfolding captureCount_group by auto
next
  case (choice e alt vs label opt)
  then show ?case unfolding captureCount_group by simp
next
  case (skip e label cap)
  show ?case by (rule length_replicate)
qed (auto simp: seqCaptureCount_def)

lemma exact_args_sim:
  assumes "syntaxMatch m input = ExactMatch args"
  obtains alt args' where "alt \<in> set (smExpr m)" and "seqArgs alt args'"
    and "length args = length args'" and "take 3 args = take 3 args'"
proof -
  have "sameUpToThree (syntaxMatch m input) (syntaxMatchIntended m input)" by (rule syntaxMatch_sim)
  then obtain args' where i: "syntaxMatchIntended m input = ExactMatch args'"
    and l: "length args = length args'" "take 3 args = take 3 args'"
    using assms by (cases "syntaxMatchIntended m input") auto
  from intended_args_sound [OF i] l that show ?thesis by blast
qed

text \<open>
  C14. The arguments of an exact match, as the code computes them in shared arrays: as many as some
  argument list of one of the alternatives of the specification has, and agreeing with it in the first
  three; with at most three arguments they are that list. In such a list every typed capture holds a
  value of its type, every choice one of the listed phrases up to case, a skipped group one empty
  string per capture, an option block only options it lists. From the fourth argument on the sharing
  can spoil them.
\<close>

theorem exact_args:
  assumes "syntaxMatch m input = ExactMatch args"
  shows "\<exists>alt \<in> set (smExpr m). \<exists>args'. seqArgs alt args' \<and> length args = length args' \<and>
    take 3 args = take 3 args' \<and> (length args \<le> 3 \<longrightarrow> args = args')"
  using exact_args_sim [OF assms] by (metis take_all)

definition demoMatcher :: simpleMatcher where
  "demoMatcher = (case compileSimpleMatcherObject ''add <n:number> [to <l:ident>]'' of
     Inl e \<Rightarrow> \<lparr>smSpec = [], smExpr = [], smRegex = [], smHasVariableArgs = False\<rparr> | Inr m \<Rightarrow> m)"

theorem exact_args_witness:
  "\<exists>alt \<in> set (smExpr demoMatcher). \<exists>args'. seqArgs alt args' \<and> length [''5'', ''groceries''] = length args' \<and>
    take 3 [''5'', ''groceries''] = take 3 args' \<and> [''5'', ''groceries''] = args'"
proof -
  have "syntaxMatch demoMatcher ''add 5 to groceries'' = ExactMatch [''5'', ''groceries'']" by code_simp
  from exact_args [OF this] show ?thesis by simp
qed

text \<open>
  Behind the third argument even the empty strings of a skipped group can be overwritten by a search
  path that was tried later.
\<close>

lemma skipped_group_overwritten:
  "specMatch syntaxMatch ''cp <a:token> <b:token> <c:token> <d:token> <e:token> [<n:number> <m:number>] <r:rest>''
      ''cp 1 2 3 4 5 6 hello''
     = Inr (ExactMatch [''1'', ''2'', ''3'', ''4'', ''5'', ''6'', [], ''6'']) \<and>
   specMatch syntaxMatchIntended ''cp <a:token> <b:token> <c:token> <d:token> <e:token> [<n:number> <m:number>] <r:rest>''
      ''cp 1 2 3 4 5 6 hello''
     = Inr (ExactMatch [''1'', ''2'', ''3'', ''4'', ''5'', [], [], ''6 hello''])"
  by (intro conjI; code_simp)

text \<open>
  In a specification whose alternatives capture equally often, at every level, and that has no
  option block, every exact match has the same number of arguments, the capture count of the
  specification, whichever optional groups were left out.
\<close>

theorem exact_match_arg_count:
  assumes "exprBalanced (smExpr m)" and "syntaxMatch m input = ExactMatch args"
  shows "length args = exprCaptureCount (smExpr m)"
proof -
  from exact_args_sim [OF assms(2)] obtain alt args' where
    a: "alt \<in> set (smExpr m)" "seqArgs alt args'" and l: "length args = length args'" by metis
  then have "list_all balanced alt" "seqCaptureCount alt = exprCaptureCount (smExpr m)"
    using assms(1) by (auto simp: exprBalanced_def list_all_iff)
  with args_count(2) [OF a(2)] l show ?thesis by simp
qed

theorem exact_match_arg_count_witness:
  "length [''5'', []] = exprCaptureCount (smExpr demoMatcher)"
  by (rule exact_match_arg_count [of demoMatcher "''add 5''"]) (code_simp+)

text \<open>
  Alternatives that capture differently often do shift the arguments: a typed value and a bare
  word in one optional group give one argument for the value, none for the word, and one empty
  argument when the group is left out.
\<close>

theorem unbalanced_group_shifts_args:
  "specMatch syntaxMatch ''set [<a:number> | off] <b:ident>'' ''set 7 lamp'' = Inr (ExactMatch [''7'', ''lamp'']) \<and>
   specMatch syntaxMatch ''set [<a:number> | off] <b:ident>'' ''set off lamp'' = Inr (ExactMatch [''lamp'']) \<and>
   specMatch syntaxMatch ''set [<a:number> | off] <b:ident>'' ''set lamp'' = Inr (ExactMatch [[], ''lamp''])"
  by (intro conjI; code_simp)

end
