(* ===== verification/MatcherInput.thy ===== *)
theory MatcherInput
  imports MatcherArgs
begin

text \<open>
  Input matchers (bot/simple_matcher.go, \<open>InputMatcher\<close> of bot/tasks.go): compiling a matcher
  given as a regular expression or as a SimpleMatcher, the candidate spellings of an input, and
  \<open>matchInput\<close>/\<open>matchCommandInput\<close>. The regular expressions of a robot's configuration are
  arbitrary, so a compiled one is a function from the input to its capture groups
  (\<open>FindStringSubmatch\<close>), and \<open>regexp.Compile\<close> is an argument.
\<close>

subsection \<open>Matchers\<close>

type_synonym regexpFn = "string \<Rightarrow> string list option"

record InputMatcher =
  imRegex :: string
  imSimpleMatcher :: string
  imCommand :: string
  imLabel :: string
  imChannelOnly :: bool
  imContexts :: "string list"
  imRe :: "regexpFn option"
  imSimple :: "simpleMatcher option"

function collapseSpaces :: "string \<Rightarrow> string" where
  "collapseSpaces [] = []"
| "collapseSpaces (c # cs) =
     (if isRegexSpace c then CHR '' '' # collapseSpaces (dropWhile isRegexSpace cs)
      else c # collapseSpaces cs)"
  by pat_completeness auto
termination
  by (relation "measure length") (auto simp: le_imp_less_Suc length_dropWhile_le)

definition compileInputMatcher ::
    "(string \<Rightarrow> regexpFn option) \<Rightarrow> InputMatcher \<Rightarrow> bool \<Rightarrow> matcherError + InputMatcher" where
  "compileInputMatcher regexpCompile matcher allowSimple =
     (let regex = trimSpace (imRegex matcher);
          simple = trimSpace (imSimpleMatcher matcher);
          finish = (\<lambda>m regex.
            let wrapped = ''^(?s:'' @ [CHR 0x5C] @ ''s*'' @ regex @ [CHR 0x5C] @ ''s*)$'' in
            case regexpCompile wrapped of
              None \<Rightarrow> Inl (RegexCompileFailed wrapped)
            | Some re \<Rightarrow> Inr (m\<lparr>imRegex := wrapped, imRe := Some re\<rparr>))
      in if regex \<noteq> [] \<and> simple \<noteq> [] then Inl BothRegexAndSimple
         else if simple \<noteq> [] \<and> \<not> allowSimple then Inl SimpleNotAllowed
         else if regex = [] \<and> simple = [] then
           (if allowSimple then Inl MissingRegexOrSimple else Inl MissingRegex)
         else if simple \<noteq> [] then
           (case compileSimpleMatcherObject simple of
              Inl e \<Rightarrow> Inl e
            | Inr compiled \<Rightarrow> finish (matcher\<lparr>imSimple := Some compiled\<rparr>) (smRegex compiled))
         else finish matcher regex)"

definition addUnique :: "string list \<Rightarrow> string \<Rightarrow> string list" where
  "addUnique xs v = (if v \<in> set xs then xs else xs @ [v])"

definition stripCandidate :: "string \<Rightarrow> string option" where
  "stripCandidate candidate =
     (let trimmed = trimRightBy (\<lambda>c. c \<in> set [CHR '' '', CHR 0x09, CHR 0x0A, CHR 0x0D]) candidate in
      if hasSuffix trimmed ''.'' then Some (trimSuffix trimmed ''.'') else None)"

fun strippedCandidates :: "string list \<Rightarrow> string list \<Rightarrow> string list" where
  "strippedCandidates acc [] = acc"
| "strippedCandidates acc (c # cs) =
     (case stripCandidate c of
        None \<Rightarrow> strippedCandidates acc cs
      | Some s \<Rightarrow> strippedCandidates (addUnique acc s) cs)"

definition matcherInputCandidates :: "string \<Rightarrow> bool \<Rightarrow> string list \<times> string list" where
  "matcherInputCandidates input allowTrailingDot =
     (let base = addUnique [input] (collapseSpaces input);
          stripped = strippedCandidates [] base
      in if \<not> allowTrailingDot \<or> stripped = [] then (base, base)
         else (foldl addUnique base stripped, foldl addUnique stripped base))"

fun firstResult :: "('a \<Rightarrow> inputMatchResult) \<Rightarrow> (inputMatchResult \<Rightarrow> bool) \<Rightarrow> 'a list \<Rightarrow> inputMatchResult option" where
  "firstResult f p [] = None"
| "firstResult f p (c # cs) = (if p (f c) then Some (f c) else firstResult f p cs)"

fun isExact :: "inputMatchResult \<Rightarrow> bool" where
  "isExact (ExactMatch args) = True"
| "isExact r = False"

definition tryExact :: "InputMatcher \<Rightarrow> string \<Rightarrow> inputMatchResult" where
  "tryExact m candidate =
     (case imRe m of None \<Rightarrow> NoMatch
      | Some re \<Rightarrow> (case re candidate of None \<Rightarrow> NoMatch | Some groups \<Rightarrow> ExactMatch groups))"

definition matchInputCandidates :: "InputMatcher \<Rightarrow> string \<Rightarrow> bool \<Rightarrow> inputMatchResult" where
  "matchInputCandidates m input allowTrailingDot =
     (case matcherInputCandidates input allowTrailingDot of (exactCandidates, syntaxCandidates) \<Rightarrow>
        (case imSimple m of
           Some sm \<Rightarrow>
             (case firstResult (syntaxMatch sm) isExact exactCandidates of
                Some r \<Rightarrow> r
              | None \<Rightarrow> (case firstResult (syntaxMatch sm) (\<lambda>r. r \<noteq> NoMatch) syntaxCandidates of
                  Some r \<Rightarrow> r | None \<Rightarrow> NoMatch))
         | None \<Rightarrow>
             (case firstResult (tryExact m) isExact exactCandidates of
                Some r \<Rightarrow> r | None \<Rightarrow> NoMatch)))"

definition matchInput :: "InputMatcher \<Rightarrow> string \<Rightarrow> inputMatchResult" where
  "matchInput m input = matchInputCandidates m input False"

definition matchCommandInput :: "InputMatcher \<Rightarrow> string \<Rightarrow> inputMatchResult" where
  "matchCommandInput m input = matchInputCandidates m input True"

subsection \<open>Spacing does not matter to a SimpleMatcher\<close>

lemma regexSpace_space: "isRegexSpace c \<Longrightarrow> isSpaceByte c"
  by (auto simp: isRegexSpace_def isSpaceByte_def)

lemma collapse_word:
  "takeWhile (\<lambda>x. \<not> isSpaceByte x) (collapseSpaces s) = takeWhile (\<lambda>x. \<not> isSpaceByte x) s \<and>
   dropWhile (\<lambda>x. \<not> isSpaceByte x) (collapseSpaces s) = collapseSpaces (dropWhile (\<lambda>x. \<not> isSpaceByte x) s)"
proof (induction s)
  case (Cons c cs)
  have "isSpaceByte CHR '' ''" by (simp add: isSpaceByte_def)
  then show ?case using Cons regexSpace_space [of c] by auto
qed simp

lemma collapse_fields: "goFields (collapseSpaces s) = goFields s"
  unfolding goFields_def
proof (induction s rule: measure_induct_rule [of length])
  case (less s)
  show ?case
  proof (cases s)
    case (Cons c cs)
    have sp: "isSpaceByte CHR '' ''" by (simp add: isSpaceByte_def)
    have l: "length (dropWhile q cs) < length s" for q
      using length_dropWhile_le [of q cs] by (simp add: Cons)
    have d: "fieldsBy isSpaceByte (dropWhile isRegexSpace cs) = fieldsBy isSpaceByte cs"
      by (rule fieldsBy_dropWhile) (rule regexSpace_space)
    consider (a) "isRegexSpace c" | (b) "\<not> isRegexSpace c" "isSpaceByte c" | (w) "\<not> isRegexSpace c" "\<not> isSpaceByte c" by blast
    then show ?thesis
    proof cases
      case a
      with less [OF l [of isRegexSpace]] d regexSpace_space [of c] sp show ?thesis by (simp add: Cons)
    next
      case b
      with less [of cs] show ?thesis by (simp add: Cons)
    next
      case w
      with less [OF l [of "\<lambda>x. \<not> isSpaceByte x"]] collapse_word [of cs] show ?thesis by (simp add: Cons)
    qed
  qed simp
qed

lemma tokenize_cong: "goFields s = goFields t \<Longrightarrow> simpleMatcherTokenize s = simpleMatcherTokenize t"
  by (simp add: simpleMatcherTokenize_def)

lemma syntaxMatch_cong: "goFields s = goFields t \<Longrightarrow> syntaxMatch m s = syntaxMatch m t"
  unfolding syntaxMatch_def by (drule tokenize_cong) simp

lemma matchInput_simple:
  "imSimple m = Some sm \<Longrightarrow> matchInput m input = syntaxMatch sm input"
  using syntaxMatch_cong [OF collapse_fields, of sm input]
  by (cases "syntaxMatch sm input")
     (auto simp: matchInput_def matchInputCandidates_def matcherInputCandidates_def addUnique_def Let_def)


lemma collapse_block:
  "\<not> isRegexSpace c \<Longrightarrow> collapseSpaces (s @ c # t) = collapseSpaces s @ c # collapseSpaces t"
proof (induction s rule: collapseSpaces.induct)
  case (2 d cs)
  have "dropWhile isRegexSpace (cs @ c # t) = dropWhile isRegexSpace cs @ c # t"
    using 2(3) by (induction cs) auto
  with 2 show ?case by auto
qed simp

lemma collapse_allspace: "list_all isRegexSpace ws \<Longrightarrow> collapseSpaces ws = (if ws = [] then [] else '' '')"
proof -
  assume a: "list_all isRegexSpace ws"
  then have "dropWhile isRegexSpace (tl ws) = []" by (cases ws) (auto simp: list_all_iff)
  with a show ?thesis by (cases ws) (auto simp del: dropWhile_eq_Nil_conv)
qed

definition dotted :: "string \<Rightarrow> string option" where
  "dotted input = stripCandidate (collapseSpaces input)"

lemma stripCandidate_Some:
  assumes "stripCandidate s = Some t"
  shows "\<exists>ws. s = t @ ''.'' @ ws \<and> list_all isRegexSpace ws"
proof -
  let ?p = "\<lambda>c. c \<in> set [CHR '' '', CHR 0x09, CHR 0x0A, CHR 0x0D]"
  obtain ws where w: "s = trimRightBy ?p s @ ws" "list_all ?p ws" by (rule trimRightBy_split)
  from assms have h: "hasSuffix (trimRightBy ?p s) ''.''" "t = trimSuffix (trimRightBy ?p s) ''.''"
    by (auto simp: stripCandidate_def Let_def split: if_splits)
  then obtain u where u: "trimRightBy ?p s = u @ ''.''" by (auto simp: hasSuffix_iff)
  with h(2) have "t = u" by simp
  moreover have "list_all isRegexSpace ws" using w(2) by (auto simp: list_all_iff isRegexSpace_def)
  ultimately show ?thesis using w(1) u by simp
qed

lemma stripCandidate_dot:
  assumes "list_all (\<lambda>c. c \<in> set [CHR '' '', CHR 0x09, CHR 0x0A, CHR 0x0D]) ws"
  shows "stripCandidate (t @ ''.'' @ ws) = Some t"
proof -
  have "trimRightBy (\<lambda>c. c \<in> set [CHR '' '', CHR 0x09, CHR 0x0A, CHR 0x0D]) (t @ CHR ''.'' # ws) = t @ ''.''"
    using trimRightBy_keep [OF assms, of "CHR ''.''" t] by simp
  moreover have "hasSuffix (t @ ''.'') ''.''" by (auto simp: hasSuffix_iff)
  ultimately show ?thesis by (simp add: stripCandidate_def)
qed

lemma strip_collapse: "stripCandidate s = Some t \<Longrightarrow> stripCandidate (collapseSpaces s) = Some (collapseSpaces t)"
proof -
  assume "stripCandidate s = Some t"
  then obtain ws where s: "s = t @ ''.'' @ ws" "list_all isRegexSpace ws" using stripCandidate_Some by blast
  have "\<not> isRegexSpace CHR ''.''" by (simp add: isRegexSpace_def)
  from collapse_block [OF this, of t ws] s have "collapseSpaces s = collapseSpaces t @ ''.'' @ collapseSpaces ws" by simp
  moreover have "list_all (\<lambda>c. c \<in> set [CHR '' '', CHR 0x09, CHR 0x0A, CHR 0x0D]) (collapseSpaces ws)"
    using collapse_allspace [OF s(2)] by simp
  ultimately show ?thesis using stripCandidate_dot by metis
qed

lemma foldl_addUnique:
  "\<exists>zs. foldl addUnique xs ys = xs @ zs \<and> set zs = set ys - set xs"
proof (induction ys arbitrary: xs)
  case (Cons y ys)
  obtain zs where z: "foldl addUnique (addUnique xs y) ys = addUnique xs y @ zs"
    "set zs = set ys - set (addUnique xs y)" using Cons by blast
  moreover have "addUnique xs y = (if y \<in> set xs then xs else xs @ [y])" by (simp add: addUnique_def)
  ultimately show ?case by (cases "y \<in> set xs") auto
qed simp


lemma firstResult_const:
  "\<forall>c \<in> set xs. f c = r \<Longrightarrow>
   firstResult f p (xs @ ys) = (if xs \<noteq> [] \<and> p r then Some r else firstResult f p ys)"
  by (induction xs) auto

lemma firstResult_const1:
  "\<forall>c \<in> set xs. f c = r \<Longrightarrow> firstResult f p xs = (if xs \<noteq> [] \<and> p r then Some r else None)"
  using firstResult_const [of xs f r p "[]"] by simp

lemma matchCommandInput_simple:
  assumes m: "imSimple m = Some sm"
  shows "matchCommandInput m input =
    (let r = syntaxMatch sm input in
     if isExact r then r
     else (case dotted input of
             None \<Rightarrow> r
           | Some d \<Rightarrow> if syntaxMatch sm d \<noteq> NoMatch then syntaxMatch sm d else r))"
proof -
  let ?c = "collapseSpaces input"
  let ?base = "addUnique [input] ?c"
  define st where "st = strippedCandidates [] ?base"
  define r where "r = syntaxMatch sm input"
  have base: "?base \<noteq> []" "\<forall>c \<in> set ?base. syntaxMatch sm c = r"
    using syntaxMatch_cong [OF collapse_fields, of sm input] by (auto simp: addUnique_def r_def)
  show ?thesis
  proof (cases "dotted input")
    case None
    then have "stripCandidate ?c = None" by (simp add: dotted_def)
    then have "stripCandidate input = None" using strip_collapse [of input] by (cases "stripCandidate input") auto
    with \<open>stripCandidate ?c = None\<close> have "st = []" by (simp add: st_def addUnique_def)
    then show ?thesis using base(1)
      unfolding matchCommandInput_def matchInputCandidates_def matcherInputCandidates_def Let_def
        st_def [symmetric] r_def [symmetric] m None
      by (simp add: firstResult_const1 [OF base(2)])
  next
    case (Some d)
    define q where "q = syntaxMatch sm d"
    have c: "stripCandidate ?c = Some d" using Some by (simp add: dotted_def)
    have d: "goFields t = goFields d" if "stripCandidate input = Some t" for t
      using strip_collapse [OF that] c collapse_fields [of t] by simp
    have st: "st \<noteq> []" "\<forall>x \<in> set st. syntaxMatch sm x = q"
    proof -
      have e: "st = (let acc = (case stripCandidate input of None \<Rightarrow> [] | Some s \<Rightarrow> [s]) in
          if ?c = input then acc else addUnique acc d)"
        using c by (auto simp: st_def addUnique_def Let_def split: option.split)
      have ne: "st \<noteq> []" using c unfolding e
        by (cases "?c = input") (auto simp: addUnique_def Let_def split: option.split)
      have "set st \<subseteq> {t. stripCandidate input = Some t} \<union> {d}"
        unfolding e by (cases "stripCandidate input") (auto simp: addUnique_def Let_def)
      then show "\<forall>x \<in> set st. syntaxMatch sm x = q" using syntaxMatch_cong [OF d] by (auto simp: q_def)
      show "st \<noteq> []" by (rule ne)
    qed
    obtain zs where z: "foldl addUnique ?base st = ?base @ zs" "set zs = set st - set ?base"
      using foldl_addUnique by blast
    obtain ys where y: "foldl addUnique st ?base = st @ ys" "set ys = set ?base - set st"
      using foldl_addUnique by blast
    have zq: "\<forall>x \<in> set zs. syntaxMatch sm x = q" using z(2) st(2) by auto
    have yr: "\<forall>x \<in> set ys. syntaxMatch sm x = r" using y(2) base(2) by auto
    have ze: "q = r" if "zs = []"
    proof -
      from st(1) obtain x where "x \<in> set st" by (cases st) auto
      with that z(2) base(2) st(2) show ?thesis by auto
    qed
    have ye: "q = r" if "ys = []"
    proof -
      from base(1) obtain x where "x \<in> set ?base" by (cases ?base) auto
      with that y(2) base(2) st(2) show ?thesis by auto
    qed
    have "firstResult (syntaxMatch sm) isExact (?base @ zs) =
        (if isExact r then Some r else if isExact q then Some q else None)"
      using ze base(1) by (auto simp: firstResult_const [OF base(2)] firstResult_const1 [OF zq])
    moreover have "firstResult (syntaxMatch sm) (\<lambda>r. r \<noteq> NoMatch) (st @ ys) =
        (if q \<noteq> NoMatch then Some q else if r \<noteq> NoMatch then Some r else None)"
      using ye st(1) by (auto simp: firstResult_const [OF st(2)] firstResult_const1 [OF yr])
    ultimately show ?thesis using st(1)
      unfolding matchCommandInput_def matchInputCandidates_def matcherInputCandidates_def Let_def
        st_def [symmetric] r_def [symmetric] m Some
      by (simp add: z(1) y(1) q_def [symmetric])
  qed
qed

text \<open>
  Whether a directed command matches a SimpleMatcher depends on two spellings of it only: the
  input itself, and, when the input ends in a full stop, the input without the stop. An exact match
  of the input wins; otherwise any result of the shortened input wins over a diagnostic for the
  input. The other candidates the code tries never change the result.
\<close>

theorem command_match_candidates:
  assumes "imSimple m = Some sm"
  shows "matchCommandInput m input =
    (let r = syntaxMatch sm input in
     if isExact r then r
     else (case dotted input of
             None \<Rightarrow> r
           | Some d \<Rightarrow> if syntaxMatch sm d \<noteq> NoMatch then syntaxMatch sm d else r))"
  by (rule matchCommandInput_simple [OF assms])

definition demoInput :: InputMatcher where
  "demoInput = \<lparr>imRegex = [], imSimpleMatcher = ''add <n:number> [to <l:ident>]'', imCommand = ''add'', imLabel = [],
     imChannelOnly = False, imContexts = [], imRe = None, imSimple = Some demoMatcher\<rparr>"

theorem command_match_candidates_witness:
  "matchCommandInput demoInput ''add 5 to list.'' = ExactMatch [''5'', ''list'']"
proof -
  have "imSimple demoInput = Some demoMatcher" by (simp add: demoInput_def)
  from command_match_candidates [OF this, of "''add 5 to list.''"]
  have "matchCommandInput demoInput ''add 5 to list.'' =
      (let r = syntaxMatch demoMatcher ''add 5 to list.'' in
       if isExact r then r
       else (case dotted ''add 5 to list.'' of
             None \<Rightarrow> r
           | Some d \<Rightarrow> if syntaxMatch demoMatcher d \<noteq> NoMatch then syntaxMatch demoMatcher d else r))" .
  also have "\<dots> = ExactMatch [''5'', ''list'']" by code_simp
  finally show ?thesis .
qed

text \<open>
  For messages that are not directed at the robot there is one candidate: however the input is
  spaced, a SimpleMatcher sees the same tokens, so matching is matching the input itself, and any
  two inputs with the same words match alike.
\<close>

theorem spacing_irrelevant:
  assumes "imSimple m = Some sm" and "goFields input = goFields input'"
  shows "matchInput m input = syntaxMatch sm input' \<and> matchInput m input' = syntaxMatch sm input'"
  using matchInput_simple [OF assms(1)] syntaxMatch_cong [OF assms(2), of sm] by simp

theorem spacing_irrelevant_witness:
  "matchInput demoInput ''  add   5 '' = syntaxMatch demoMatcher ''add 5'' \<and>
   matchInput demoInput ''add 5'' = syntaxMatch demoMatcher ''add 5''"
  by (rule spacing_irrelevant) (simp add: demoInput_def, code_simp)

subsection \<open>Option groups\<close>

fun termOptionGroups :: "simpleMatcherTerm \<Rightarrow> string list list" where
  "termOptionGroups (TOptions label os) = [map optDisplay os]"
| "termOptionGroups (TGroup e label opt cap) = concat (map (\<lambda>alt. concat (map termOptionGroups alt)) e)"
| "termOptionGroups _ = []"

text \<open>Keeping the first of the groups with equal key; the keys seen so far are \<open>seen\<close>.\<close>

fun uniqueGroups :: "string list \<Rightarrow> string list list \<Rightarrow> string list list" where
  "uniqueGroups seen [] = []"
| "uniqueGroups seen (g # gs) =
     (if joinWith [CHR 0x00] g \<in> set seen then uniqueGroups seen gs
      else g # uniqueGroups (joinWith [CHR 0x00] g # seen) gs)"

definition simpleMatcherOptionGroups :: "string \<Rightarrow> string list list" where
  "simpleMatcherOptionGroups spec =
     (case compileSimpleMatcherObject spec of
        Inl e \<Rightarrow> []
      | Inr m \<Rightarrow> uniqueGroups [] (concat (map (\<lambda>alt. concat (map termOptionGroups alt)) (smExpr m))))"

lemma uniqueGroups_distinct:
  "distinct (map (joinWith [CHR 0x00]) (uniqueGroups seen gs)) \<and>
   set (map (joinWith [CHR 0x00]) (uniqueGroups seen gs)) = set (map (joinWith [CHR 0x00]) gs) - set seen"
  by (induction seen gs rule: uniqueGroups.induct) auto

end
