(* ===== verification/BrainStore.thy ===== *)
theory BrainStore
  imports Prelude
begin

text \<open>
  The contract of a brain (\<open>robot.SimpleBrain\<close>, robot/brain.go) as a locale, the in-memory brain
  of bot/membrain.go as its first provider, and the file names under which the cached brain keeps
  memories (\<open>encodeBrainCacheKey\<close>, bot/brain_cache.go).
\<close>

subsection \<open>File names of memories\<close>

definition b64alphabet :: string where
  "b64alphabet = ''ABCDEFGHIJKLMNOPQRSTUVWXYZabcdefghijklmnopqrstuvwxyz0123456789-_''"

definition b64char :: "nat \<Rightarrow> char" where
  "b64char n = b64alphabet ! n"

fun b64quads :: "nat list \<Rightarrow> nat list" where
  "b64quads [] = []"
| "b64quads [a] = [a div 4, (a mod 4) * 16]"
| "b64quads [a, b] = [a div 4, (a mod 4) * 16 + b div 16, (b mod 16) * 4]"
| "b64quads (a # b # c # r) =
     a div 4 # ((a mod 4) * 16 + b div 16) # ((b mod 16) * 4 + c div 64) # (c mod 64) # b64quads r"

fun b64unquads :: "nat list \<Rightarrow> nat list" where
  "b64unquads (w # x # y # z # r) =
     (w * 4 + x div 16) # ((x mod 16) * 16 + y div 4) # ((y mod 4) * 64 + z) # b64unquads r"
| "b64unquads [w, x, y] = [w * 4 + x div 16, (x mod 16) * 16 + y div 4]"
| "b64unquads [w, x] = [w * 4 + x div 16]"
| "b64unquads _ = []"

definition encodeBrainCacheKey :: "string \<Rightarrow> string" where
  "encodeBrainCacheKey key = map b64char (b64quads (map of_char key))"

definition b64val :: "char \<Rightarrow> nat" where
  "b64val c = length (takeWhile (\<lambda>d. d \<noteq> c) b64alphabet)"

definition decodeBrainCacheKey :: "string \<Rightarrow> string" where
  "decodeBrainCacheKey s = map char_of (b64unquads (map b64val s))"

lemma b64val_all: "list_all (\<lambda>n. b64val (b64char n) = n) [0..<64]"
  by code_simp

lemma b64val_char: "n < 64 \<Longrightarrow> b64val (b64char n) = n"
  using b64val_all by (auto simp: list_all_iff)

lemma quads_bound: "list_all (\<lambda>a. a < 256) as \<Longrightarrow> list_all (\<lambda>n. n < 64) (b64quads as)"
proof (induction as rule: b64quads.induct)
  case (4 a b c r)
  then show ?case by (simp add: less_mult_imp_div_less) linarith
qed (auto simp: less_mult_imp_div_less)

lemma unquads_quads: "list_all (\<lambda>a. a < 256) as \<Longrightarrow> b64unquads (b64quads as) = as"
  by (induction as rule: b64quads.induct) auto

lemma decode_encode_key: "decodeBrainCacheKey (encodeBrainCacheKey key) = key"
proof -
  have b: "list_all (\<lambda>a. a < (256::nat)) (map of_char key)" by (auto simp: list_all_iff)
  then have "list_all (\<lambda>n. n < 64) (b64quads (map of_char key))" by (rule quads_bound)
  then have "map b64val (map b64char (b64quads (map of_char key))) = b64quads (map of_char key)"
    by (simp add: map_idI b64val_char list_all_iff)
  then show ?thesis using unquads_quads [OF b]
    by (simp add: decodeBrainCacheKey_def encodeBrainCacheKey_def map_idI)
qed

lemma encode_inj [simp]: "encodeBrainCacheKey k = encodeBrainCacheKey k' \<longleftrightarrow> k = k'"
  by (metis decode_encode_key)


text \<open>
  The file name of a memory determines its key: decoding the URL-safe base64 text without
  padding gives the key back, for every byte string, so two memories never share a file.
\<close>

theorem key_roundtrip: "decodeBrainCacheKey (encodeBrainCacheKey key) = key"
  by (rule decode_encode_key)

subsection \<open>The contract\<close>

text \<open>
  \<open>good\<close> is the set of states in which the provider promises to answer: well formed, accepting
  writes, and with no failure ahead. \<open>view\<close> is the map of memories it stands for.
\<close>

datatype brainWrite = WStore string string | WDelete string

fun writeMap :: "(string \<rightharpoonup> string) \<Rightarrow> brainWrite \<Rightarrow> (string \<rightharpoonup> string)" where
  "writeMap m (WStore k b) = m(k \<mapsto> b)"
| "writeMap m (WDelete k) = m(k := None)"

fun writeKey :: "brainWrite \<Rightarrow> string" where
  "writeKey (WStore k b) = k"
| "writeKey (WDelete k) = k"

fun runWrites ::
    "(string \<Rightarrow> string \<Rightarrow> ('s, 'e, unit) op) \<Rightarrow> (string \<Rightarrow> ('s, 'e, unit) op) \<Rightarrow> brainWrite list \<Rightarrow> ('s, 'e, unit) op"
where
  "runWrites st del [] = ret ()"
| "runWrites st del (WStore k b # ws) = andThen (st k b) (runWrites st del ws)"
| "runWrites st del (WDelete k # ws) = andThen (del k) (runWrites st del ws)"

locale simple_brain =
  fixes store :: "string \<Rightarrow> string \<Rightarrow> ('s, 'e, unit) op"
    and retrieve :: "string \<Rightarrow> ('s, 'e, string option) op"
    and listKeys :: "('s, 'e, string list) op"
    and delete :: "string \<Rightarrow> ('s, 'e, unit) op"
    and good :: "'s \<Rightarrow> bool"
    and okKey :: "string \<Rightarrow> bool"
    and view :: "'s \<Rightarrow> (string \<rightharpoonup> string)"
  assumes store_law: "good s \<Longrightarrow> okKey k \<Longrightarrow>
      \<exists>t. store k b s = (Inr (), t) \<and> good t \<and> view t = (view s)(k \<mapsto> b)"
    and delete_law: "good s \<Longrightarrow> okKey k \<Longrightarrow>
      \<exists>t. delete k s = (Inr (), t) \<and> good t \<and> view t = (view s)(k := None)"
    and retrieve_law: "good s \<Longrightarrow> okKey k \<Longrightarrow>
      \<exists>t. retrieve k s = (Inr (view s k), t) \<and> good t \<and> view t = view s"
    and list_law: "good s \<Longrightarrow>
      \<exists>t ks. listKeys s = (Inr ks, t) \<and> good t \<and> view t = view s \<and> distinct ks \<and> set ks = dom (view s)"
begin

lemma runWrites_view:
  "good s \<Longrightarrow> list_all (\<lambda>w. okKey (writeKey w)) ws \<Longrightarrow>
   \<exists>t. runWrites store delete ws s = (Inr (), t) \<and> good t \<and> view t = foldl writeMap (view s) ws"
proof (induction ws arbitrary: s)
  case Nil
  then show ?case by (simp add: ret_def)
next
  case (Cons w ws)
  have "\<exists>t. (case w of WStore k b \<Rightarrow> store k b | WDelete k \<Rightarrow> delete k) s = (Inr (), t) \<and>
      good t \<and> view t = writeMap (view s) w"
    using Cons.prems store_law [of s] delete_law [of s] by (cases w) auto
  then obtain t where t: "(case w of WStore k b \<Rightarrow> store k b | WDelete k \<Rightarrow> delete k) s = (Inr (), t)"
    "good t" "view t = writeMap (view s) w" by blast
  from Cons.IH [OF t(2)] Cons.prems(2) t show ?case
    by (cases w) (auto simp: andThen_def bindOp_def simp del: fun_upd_apply)
qed

lemma last_write_wins:
  assumes "good s" and "list_all (\<lambda>w. okKey (writeKey w)) ws" and "okKey k"
  shows "fst (andThen (runWrites store delete ws) (retrieve k) s) = Inr (foldl writeMap (view s) ws k)"
proof -
  obtain t where t: "runWrites store delete ws s = (Inr (), t)" "good t" "view t = foldl writeMap (view s) ws"
    using runWrites_view [OF assms(1,2)] by blast
  from retrieve_law [OF t(2) assms(3)] t show ?thesis by (auto simp: andThen_def bindOp_def)
qed

end

subsection \<open>The in-memory brain\<close>

text \<open>The Go map; its iteration order is the order of the association list here.\<close>

type_synonym memBrain = "(string \<times> string) list"

definition memStore :: "string \<Rightarrow> string \<Rightarrow> (memBrain, unit, unit) op" where
  "memStore k b mb = (Inr (), AList.update k b mb)"

definition memRetrieve :: "string \<Rightarrow> (memBrain, unit, string option) op" where
  "memRetrieve k mb = (Inr (map_of mb k), mb)"

definition memList :: "(memBrain, unit, string list) op" where
  "memList mb = (Inr (map fst mb), mb)"

definition memDelete :: "string \<Rightarrow> (memBrain, unit, unit) op" where
  "memDelete k mb = (Inr (), AList.delete k mb)"

lemma map_of_delete: "map_of (AList.delete k al) = (map_of al)(k := None)"
  by (simp add: delete_conv')

lemma map_of_update: "map_of (AList.update k v al) = (map_of al)(k \<mapsto> v)"
  by (simp add: update_conv')

interpretation mem: simple_brain memStore memRetrieve memList memDelete
  "\<lambda>mb. distinct (map fst mb)" "\<lambda>k. True" map_of
  by unfold_locales
     (auto simp: memStore_def memRetrieve_def memList_def memDelete_def map_of_delete map_of_update
       distinct_update distinct_delete dom_map_of_conv_image_fst)

end
