(* ===== verification/BrainCache.thy ===== *)
theory BrainCache
  imports BrainStore Regex "HOL-Library.Product_Lexorder" "HOL-Library.Word"
begin

text \<open>
  The cached brain (bot/brain_cache.go): memories on the local disk, one data and one metadata file
  each, an outbox of changes that the remote brain has not got yet, and a control file with the
  next version and the checkpoint. The record \<open>cacheState\<close> holds the disk, the in-memory control
  block and the remote brain; every operation of the file is one definition, in the order of the
  code, with its early returns.

  Every disk access may fail: \<open>csFaults\<close> says for the next accesses whether they do, and an empty
  list means no failure. A write goes to a temporary file that is renamed (\<open>writeAtomicFile\<close>), so a
  failed write leaves the file as it was. A failed read stands for any error of reading or
  decoding. The JSON text of a file is represented by the value it encodes. The remote backend is a
  third-party service: its operations are parameters (\<open>remoteOps\<close>), as are the SHA-256 checksum and
  the random identifiers. Versions are 64-bit words, times are seconds, and 0 is the zero time.
\<close>

subsection \<open>Data\<close>

type_synonym cacheVersion = "64 word"

definition brainCacheFormat :: string where
  "brainCacheFormat = ''gopherbot-brain-v3''"

definition brainLockKey :: string where
  "brainLockKey = ''bot:instance-lock''"

record brainMeta =
  mtFormat :: string
  mtKey :: string
  mtVersion :: cacheVersion
  mtChecksum :: string
  mtDeleted :: bool
  mtUpdatedAt :: nat
  mtSyncedAt :: nat

record outboxEntry =
  obKey :: string
  obVersion :: cacheVersion
  obDelete :: bool

record writeBudget =
  wbDate :: nat
  wbWrites :: int

record cloudWrite =
  cwKey :: string
  cwVersion :: cacheVersion
  cwChecksum :: string
  cwDeleted :: bool
  cwUpdatedAt :: nat
  cwSyncedAt :: nat

record brainControl =
  bcFormat :: string
  bcComplete :: bool
  bcNextVersion :: cacheVersion
  bcCheckpointKey :: string
  bcCheckpointVers :: cacheVersion
  bcCheckpointSum :: string
  bcImportedFrom :: string
  bcCacheNonce :: string
  bcActiveLockID :: string
  bcLastCloudWrite :: "cloudWrite option"
  bcUpdatedAt :: nat

record remoteRecord =
  rrKey :: string
  rrPayload :: string
  rrFormat :: string
  rrVersion :: cacheVersion
  rrChecksum :: string
  rrDeleted :: bool
  rrUpdatedAt :: nat

record remotePage =
  rpRecords :: "remoteRecord list"
  rpNextCursor :: string

record 'r remoteOps =
  roGet :: "string \<Rightarrow> 'r \<Rightarrow> (string + remoteRecord option) \<times> 'r"
  roPut :: "remoteRecord \<Rightarrow> 'r \<Rightarrow> (string + unit) \<times> 'r"
  roDelete :: "remoteRecord \<Rightarrow> 'r \<Rightarrow> (string + unit) \<times> 'r"
  roListMetadata :: "string \<Rightarrow> nat \<Rightarrow> 'r \<Rightarrow> (string + remotePage) \<times> 'r"

record brainSyncPolicy =
  spWriteBudgetPerDay :: int
  spMinWriteInterval :: nat
  spCoalesceWindow :: nat
  spFlushMax :: nat
  spVerifyRetries :: int
  spVerifyDelay :: nat

text \<open>What does not change while the brain runs; \<open>None\<close> for the remote is the local-only brain.\<close>

record 'r brainEnv =
  beRemote :: "'r remoteOps option"
  bePolicy :: brainSyncPolicy
  beChecksum :: "string \<Rightarrow> string"

record 'r cacheState =
  csControl :: brainControl
  csControlFile :: "brainControl option"
  csMetas :: "(string \<times> brainMeta) list"
  csData :: "(string \<times> string) list"
  csOutbox :: "(string \<times> outboxEntry) list"
  csBudget :: "writeBudget option"
  csStopped :: bool
  csWake :: bool
  csFaults :: "bool list"
  csNow :: nat
  csNonces :: "string list"
  csRemote :: 'r

datatype brainError =
  IOError | RemoteError string | BrainStopped | UnsupportedFormat string | CacheIncomplete
| NotV3Record string | ChecksumMismatch string | InvalidKey string | BudgetExhausted
| RemoteMissing string | CheckpointMismatch string | NoRemoteBackend | ControlMissing
| CacheOutOfFuel  \<comment> \<open>the bound on the pages of a remote listing\<close>

type_synonym ('r, 'a) brainOp = "('r cacheState, brainError, 'a) op"

subsection \<open>Disk accesses\<close>

definition ioOp :: "('r cacheState \<Rightarrow> 'r cacheState) \<Rightarrow> ('r, unit) brainOp" where
  "ioOp f s =
     (case csFaults s of
        [] \<Rightarrow> (Inr (), f s)
      | b # bs \<Rightarrow> if b then (Inl IOError, s\<lparr>csFaults := bs\<rparr>) else (Inr (), f (s\<lparr>csFaults := bs\<rparr>)))"

definition ioRead :: "('r cacheState \<Rightarrow> 'a) \<Rightarrow> ('r, 'a) brainOp" where
  "ioRead g s =
     (case csFaults s of
        [] \<Rightarrow> (Inr (g s), s)
      | b # bs \<Rightarrow> if b then (Inl IOError, s\<lparr>csFaults := bs\<rparr>) else (Inr (g s), s\<lparr>csFaults := bs\<rparr>))"

text \<open>\<open>_ = f()\<close>: the error is dropped, the effects are kept.\<close>

definition ignoreErr :: "('r, unit) brainOp \<Rightarrow> ('r, unit) brainOp" where
  "ignoreErr m s = (Inr (), snd (m s))"

definition readState :: "('r cacheState \<Rightarrow> 'a) \<Rightarrow> ('r, 'a) brainOp" where
  "readState g s = (Inr (g s), s)"

definition onRemote :: "('r \<Rightarrow> (string + 'a) \<times> 'r) \<Rightarrow> ('r, 'a) brainOp" where
  "onRemote f s =
     (case f (csRemote s) of
        (Inl e, r) \<Rightarrow> (Inl (RemoteError e), s\<lparr>csRemote := r\<rparr>)
      | (Inr x, r) \<Rightarrow> (Inr x, s\<lparr>csRemote := r\<rparr>))"

definition setControl :: "(brainControl \<Rightarrow> brainControl) \<Rightarrow> ('r, unit) brainOp" where
  "setControl f = modifyOp (\<lambda>s. s\<lparr>csControl := f (csControl s)\<rparr>)"

text \<open>The next identifier of \<open>randomBrainCacheID\<close>.\<close>

definition randomBrainCacheID :: "('r, string) brainOp" where
  "randomBrainCacheID s =
     (case csNonces s of [] \<Rightarrow> (Inr [], s) | n # ns \<Rightarrow> (Inr n, s\<lparr>csNonces := ns\<rparr>))"

definition ensureDirs :: "('r, unit) brainOp" where
  "ensureDirs = ioOp (\<lambda>s. s)"

definition writePayload :: "string \<Rightarrow> string \<Rightarrow> ('r, unit) brainOp" where
  "writePayload key payload =
     ioOp (\<lambda>s. s\<lparr>csData := AList.update (encodeBrainCacheKey key) payload (csData s)\<rparr>)"

definition removePayload :: "string \<Rightarrow> ('r, unit) brainOp" where
  "removePayload key = ioOp (\<lambda>s. s\<lparr>csData := AList.delete (encodeBrainCacheKey key) (csData s)\<rparr>)"

definition readPayload :: "string \<Rightarrow> ('r, string option) brainOp" where
  "readPayload key = ioRead (\<lambda>s. map_of (csData s) (encodeBrainCacheKey key))"

definition writeMeta :: "brainMeta \<Rightarrow> ('r, unit) brainOp" where
  "writeMeta meta =
     ioOp (\<lambda>s. s\<lparr>csMetas := AList.update (encodeBrainCacheKey (mtKey meta)) meta (csMetas s)\<rparr>)"

text \<open>\<open>None\<close> is the error \<open>os.ErrNotExist\<close>.\<close>

definition readMetaFile :: "string \<Rightarrow> ('r, brainMeta option) brainOp" where
  "readMetaFile path =
     bindOp (ioRead (\<lambda>s. map_of (csMetas s) path)) (\<lambda>found.
       case found of
         None \<Rightarrow> ret None
       | Some meta \<Rightarrow>
           if mtFormat meta \<noteq> brainCacheFormat then fail (UnsupportedFormat (mtFormat meta))
           else ret (Some meta))"

definition readMeta :: "string \<Rightarrow> ('r, brainMeta option) brainOp" where
  "readMeta key = readMetaFile (encodeBrainCacheKey key)"

definition writeControl :: "('r, unit) brainOp" where
  "writeControl = ioOp (\<lambda>s. s\<lparr>csControlFile := Some (csControl s)\<rparr>)"

definition writeOutbox :: "outboxEntry \<Rightarrow> ('r, unit) brainOp" where
  "writeOutbox entry =
     ioOp (\<lambda>s. s\<lparr>csOutbox := AList.update (encodeBrainCacheKey (obKey entry)) entry (csOutbox s)\<rparr>)"

definition removeOutbox :: "string \<Rightarrow> ('r, unit) brainOp" where
  "removeOutbox key = ioOp (\<lambda>s. s\<lparr>csOutbox := AList.delete (encodeBrainCacheKey key) (csOutbox s)\<rparr>)"

definition readOutboxEntry :: "string \<Rightarrow> ('r, outboxEntry option) brainOp" where
  "readOutboxEntry key = ioRead (\<lambda>s. map_of (csOutbox s) (encodeBrainCacheKey key))"

definition outboxEntries :: "('r, outboxEntry list) brainOp" where
  "outboxEntries =
     ioRead (\<lambda>s. sort_key (\<lambda>entry. (obVersion entry, obKey entry)) (map snd (csOutbox s)))"

definition nextOutboxEntry :: "('r, outboxEntry option) brainOp" where
  "nextOutboxEntry =
     bindOp outboxEntries (\<lambda>entries. ret (case entries of [] \<Rightarrow> None | entry # _ \<Rightarrow> Some entry))"

definition signalSync :: "('r, unit) brainOp" where
  "signalSync = modifyOp (\<lambda>s. s\<lparr>csWake := True\<rparr>)"

subsection \<open>The write budget\<close>

definition today :: "nat \<Rightarrow> nat" where
  "today now = now div 86400"

definition readWriteBudget :: "('r, writeBudget) brainOp" where
  "readWriteBudget =
     bindOp (ioRead csBudget) (\<lambda>found.
       bindOp (readState csNow) (\<lambda>now.
         ret (case found of
                None \<Rightarrow> \<lparr>wbDate = today now, wbWrites = 0\<rparr>
              | Some budget \<Rightarrow>
                  if wbDate budget \<noteq> today now then \<lparr>wbDate = today now, wbWrites = 0\<rparr> else budget)))"

definition writeWriteBudget :: "writeBudget \<Rightarrow> ('r, unit) brainOp" where
  "writeWriteBudget budget = ioOp (\<lambda>s. s\<lparr>csBudget := Some budget\<rparr>)"

definition checkCloudWriteBudgetLocked :: "'r brainEnv \<Rightarrow> ('r, unit) brainOp" where
  "checkCloudWriteBudgetLocked env =
     (if spWriteBudgetPerDay (bePolicy env) \<le> 0 then ret ()
      else bindOp readWriteBudget (\<lambda>budget.
        if spWriteBudgetPerDay (bePolicy env) \<le> wbWrites budget then fail BudgetExhausted
        else ret ()))"

definition recordCloudWriteLocked :: "'r brainEnv \<Rightarrow> ('r, unit) brainOp" where
  "recordCloudWriteLocked env =
     (if spWriteBudgetPerDay (bePolicy env) \<le> 0 then ret ()
      else bindOp readWriteBudget (\<lambda>budget.
        writeWriteBudget (budget\<lparr>wbWrites := wbWrites budget + 1\<rparr>)))"

subsection \<open>Pushing one change to the remote brain\<close>

definition remoteOf :: "brainMeta \<Rightarrow> remoteRecord" where
  "remoteOf meta =
     \<lparr>rrKey = mtKey meta, rrPayload = [], rrFormat = mtFormat meta, rrVersion = mtVersion meta,
      rrChecksum = mtChecksum meta, rrDeleted = mtDeleted meta, rrUpdatedAt = mtUpdatedAt meta\<rparr>"

definition uploadMeta :: "'r brainEnv \<Rightarrow> 'r remoteOps \<Rightarrow> string \<Rightarrow> brainMeta \<Rightarrow> ('r, unit) brainOp" where
  "uploadMeta env remote key meta =
     (if mtDeleted meta then onRemote (roDelete remote (remoteOf meta))
      else bindOp (readPayload key) (\<lambda>found.
        case found of
          None \<Rightarrow> fail IOError
        | Some payload \<Rightarrow>
            onRemote (roPut remote ((remoteOf meta)\<lparr>rrPayload := payload,
              rrChecksum := (if mtChecksum meta = [] then beChecksum env payload else mtChecksum meta)\<rparr>))))"

definition checkpointAt :: "string \<Rightarrow> brainMeta \<Rightarrow> brainControl \<Rightarrow> brainControl" where
  "checkpointAt key meta control =
     (if bcCheckpointVers control \<le> mtVersion meta
      then control\<lparr>bcCheckpointKey := key, bcCheckpointVers := mtVersion meta, bcCheckpointSum := mtChecksum meta\<rparr>
      else control)"

text \<open>The control updates after an upload; the control file is written when one of them applies.\<close>

definition noteSynced :: "string \<Rightarrow> brainMeta \<Rightarrow> ('r, unit) brainOp" where
  "noteSynced key meta =
     bindOp (readState csNow) (\<lambda>now. bindOp (readState csControl) (\<lambda>control.
       (let control1 = (if key \<noteq> brainLockKey
              then control\<lparr>bcLastCloudWrite := Some \<lparr>cwKey = mtKey meta, cwVersion = mtVersion meta,
                     cwChecksum = mtChecksum meta, cwDeleted = mtDeleted meta,
                     cwUpdatedAt = mtUpdatedAt meta, cwSyncedAt = now\<rparr>\<rparr>
              else control);
            dirty = (key \<noteq> brainLockKey \<or> bcCheckpointVers control \<le> mtVersion meta)
        in if dirty
           then andThen (setControl (\<lambda>_. (checkpointAt key meta control1)\<lparr>bcUpdatedAt := now\<rparr>)) writeControl
           else ret ())))"

definition syncOutboxEntryLocked :: "'r brainEnv \<Rightarrow> outboxEntry \<Rightarrow> bool \<Rightarrow> ('r, unit) brainOp" where
  "syncOutboxEntryLocked env entry enforceBudget =
     (case beRemote env of
        None \<Rightarrow> ret ()
      | Some remote \<Rightarrow>
          bindOp (readOutboxEntry (obKey entry)) (\<lambda>found.
            case found of
              None \<Rightarrow> ret ()
            | Some current \<Rightarrow>
                if obVersion current \<noteq> obVersion entry then ret ()
                else bindOp (readMeta (obKey entry)) (\<lambda>foundMeta.
                  case foundMeta of
                    None \<Rightarrow> removeOutbox (obKey entry)
                  | Some meta \<Rightarrow>
                      andThen (if enforceBudget then checkCloudWriteBudgetLocked env else ret ())
                      (andThen (uploadMeta env remote (obKey entry) meta)
                      (andThen (recordCloudWriteLocked env)
                      (bindOp (readState csNow) (\<lambda>now.
                         andThen (writeMeta (meta\<lparr>mtSyncedAt := now\<rparr>))
                         (andThen (noteSynced (obKey entry) meta)
                           (removeOutbox (obKey entry))))))))))"

definition syncKeyLocked :: "'r brainEnv \<Rightarrow> string \<Rightarrow> bool \<Rightarrow> ('r, unit) brainOp" where
  "syncKeyLocked env key enforceBudget =
     bindOp (readOutboxEntry key) (\<lambda>found.
       case found of None \<Rightarrow> ret () | Some entry \<Rightarrow> syncOutboxEntryLocked env entry enforceBudget)"


subsection \<open>The operations of the brain\<close>

text \<open>\<open>keyRe\<close> of bot/brain.go: word characters, colons and dashes.\<close>

definition validKey :: "string \<Rightarrow> bool" where
  "validKey key \<longleftrightarrow> key \<noteq> [] \<and> list_all (\<lambda>c. isWordByte c \<or> c = CHR '':'' \<or> c = CHR ''-'') key"

definition reserveVersionLocked :: "('r, cacheVersion) brainOp" where
  "reserveVersionLocked =
     bindOp (readState csControl) (\<lambda>control. bindOp (readState csNow) (\<lambda>now.
       (let version = (if bcNextVersion control = 0 then 1 else bcNextVersion control) in
        andThen (setControl (\<lambda>c. c\<lparr>bcNextVersion := version + 1, bcUpdatedAt := now\<rparr>))
        (andThen (ignoreErr writeControl) (ret version)))))"

text \<open>After a change is on disk: queue it, and push it at once when it is the instance lock.\<close>

definition queueChange :: "'r brainEnv \<Rightarrow> outboxEntry \<Rightarrow> ('r, unit) brainOp" where
  "queueChange env entry =
     (if beRemote env = None then ret ()
      else andThen (writeOutbox entry)
        (if obKey entry = brainLockKey then syncKeyLocked env (obKey entry) False else signalSync))"

definition cacheStore :: "'r brainEnv \<Rightarrow> string \<Rightarrow> string option \<Rightarrow> ('r, unit) brainOp" where
  "cacheStore env key blob =
     bindOp (readState csStopped) (\<lambda>stopped.
       if stopped then fail BrainStopped
       else bindOp reserveVersionLocked (\<lambda>version. bindOp (readState csNow) (\<lambda>now.
         (let payload = (case blob of None \<Rightarrow> [] | Some b \<Rightarrow> b) in
          andThen (writePayload key payload)
          (andThen (writeMeta \<lparr>mtFormat = brainCacheFormat, mtKey = key, mtVersion = version,
              mtChecksum = beChecksum env payload, mtDeleted = False, mtUpdatedAt = now, mtSyncedAt = 0\<rparr>)
            (queueChange env \<lparr>obKey = key, obVersion = version, obDelete = False\<rparr>))))))"

definition cacheDelete :: "'r brainEnv \<Rightarrow> string \<Rightarrow> ('r, unit) brainOp" where
  "cacheDelete env key =
     bindOp reserveVersionLocked (\<lambda>version. bindOp (readState csNow) (\<lambda>now.
       andThen (ignoreErr (removePayload key))
       (andThen (writeMeta \<lparr>mtFormat = brainCacheFormat, mtKey = key, mtVersion = version,
           mtChecksum = [], mtDeleted = True, mtUpdatedAt = now, mtSyncedAt = 0\<rparr>)
         (queueChange env \<lparr>obKey = key, obVersion = version, obDelete = True\<rparr>))))"

definition cacheRetrieve :: "string \<Rightarrow> ('r, string option) brainOp" where
  "cacheRetrieve key =
     (if \<not> validKey key then fail (InvalidKey key)
      else bindOp (readMeta key) (\<lambda>found.
        case found of
          None \<Rightarrow> ret None
        | Some meta \<Rightarrow> if mtDeleted meta then ret None else readPayload key))"

text \<open>The directory listing of the metadata files, in the order of their names.\<close>

definition readMetaDir :: "('r, string list) brainOp" where
  "readMetaDir = ioRead (\<lambda>s. sort (map fst (csMetas s)))"

fun collectKeys :: "string list \<Rightarrow> string list \<Rightarrow> ('r, string list) brainOp" where
  "collectKeys [] keys = ret keys"
| "collectKeys (path # paths) keys =
     bindOp (readMetaFile path) (\<lambda>found.
       case found of
         None \<Rightarrow> fail IOError
       | Some meta \<Rightarrow> collectKeys paths (if mtDeleted meta then keys else keys @ [mtKey meta]))"

definition cacheList :: "('r, string list) brainOp" where
  "cacheList = bindOp readMetaDir (\<lambda>paths. bindOp (collectKeys paths []) (\<lambda>keys. ret (sort keys)))"

subsection \<open>Importing\<close>

definition importRaw :: "'r brainEnv \<Rightarrow> string \<Rightarrow> string \<Rightarrow> bool \<Rightarrow> ('r, unit) brainOp" where
  "importRaw env key payload deleted =
     bindOp reserveVersionLocked (\<lambda>version. bindOp (readState csNow) (\<lambda>now.
       (let meta = \<lparr>mtFormat = brainCacheFormat, mtKey = key, mtVersion = version,
              mtChecksum = beChecksum env payload, mtDeleted = deleted, mtUpdatedAt = now, mtSyncedAt = 0\<rparr> in
        andThen (if deleted then ignoreErr (removePayload key) else writePayload key payload)
        (andThen (writeMeta meta)
        (andThen (setControl (checkpointAt key meta)) writeControl)))))"

definition raiseNextVersion :: "cacheVersion \<Rightarrow> brainControl \<Rightarrow> brainControl" where
  "raiseNextVersion v control =
     (if bcNextVersion control \<le> v then control\<lparr>bcNextVersion := v + 1\<rparr> else control)"

definition importV3Record :: "'r brainEnv \<Rightarrow> remoteRecord \<Rightarrow> ('r, unit) brainOp" where
  "importV3Record env record =
     (if rrFormat record \<noteq> brainCacheFormat then fail (NotV3Record (rrKey record))
      else bindOp (readState csNow) (\<lambda>now.
        (let updated = (if rrUpdatedAt record = 0 then now else rrUpdatedAt record);
             cksum = (if rrChecksum record = [] \<and> \<not> rrDeleted record then beChecksum env (rrPayload record)
                    else rrChecksum record);
             meta = \<lparr>mtFormat = brainCacheFormat, mtKey = rrKey record, mtVersion = rrVersion record,
               mtChecksum = cksum, mtDeleted = rrDeleted record, mtUpdatedAt = updated, mtSyncedAt = now\<rparr>
         in if \<not> rrDeleted record \<and> beChecksum env (rrPayload record) \<noteq> cksum
            then fail (ChecksumMismatch (rrKey record))
            else andThen (if rrDeleted record then ignoreErr (removePayload (rrKey record))
                          else writePayload (rrKey record) (rrPayload record))
              (andThen (writeMeta meta)
              (andThen (setControl (\<lambda>c. checkpointAt (rrKey record) meta (raiseNextVersion (rrVersion record) c)))
                writeControl)))))"

definition finalizeImport :: "string \<Rightarrow> ('r, unit) brainOp" where
  "finalizeImport importedFrom =
     bindOp (readState csNow) (\<lambda>now.
       andThen (setControl (\<lambda>c. c\<lparr>bcComplete := True, bcImportedFrom := importedFrom, bcUpdatedAt := now\<rparr>))
         writeControl)"

subsection \<open>Syncing\<close>

text \<open>
  One turn of the loop of \<open>syncPending\<close>: \<open>None\<close> when it returns, \<open>Some\<close> state when it goes on. The
  wait of \<open>MinWriteInterval\<close> passes that much time.
\<close>

definition passTime :: "nat \<Rightarrow> 'r cacheState \<Rightarrow> 'r cacheState" where
  "passTime d s = s\<lparr>csNow := csNow s + d\<rparr>"

fun syncPending :: "nat \<Rightarrow> 'r brainEnv \<Rightarrow> 'r cacheState \<Rightarrow> 'r cacheState option" where
  "syncPending 0 env s = None"
| "syncPending (Suc fuel) env s =
     (case nextOutboxEntry s of
        (Inl e, s1) \<Rightarrow> Some s1
      | (Inr None, s1) \<Rightarrow> Some s1
      | (Inr (Some entry), s1) \<Rightarrow>
          (case syncOutboxEntryLocked env entry True s1 of
             (Inl e, s2) \<Rightarrow> Some s2
           | (Inr u, s2) \<Rightarrow> syncPending fuel env (passTime (spMinWriteInterval (bePolicy env)) s2)))"

text \<open>\<open>Flush\<close> never gives up: every error is followed by a second of sleep and another turn.\<close>

fun flush :: "nat \<Rightarrow> 'r brainEnv \<Rightarrow> 'r cacheState \<Rightarrow> 'r cacheState option" where
  "flush 0 env s = None"
| "flush (Suc fuel) env s =
     (if beRemote env = None then Some s
      else (case nextOutboxEntry s of
        (Inl e, s1) \<Rightarrow> flush fuel env (passTime 1 s1)
      | (Inr None, s1) \<Rightarrow> Some s1
      | (Inr (Some entry), s1) \<Rightarrow>
          (case syncKeyLocked env (obKey entry) False s1 of
             (Inl e, s2) \<Rightarrow> flush fuel env (passTime 1 s2)
           | (Inr u, s2) \<Rightarrow> flush fuel env (passTime (spMinWriteInterval (bePolicy env)) s2))))"

definition shutdown :: "nat \<Rightarrow> 'r brainEnv \<Rightarrow> 'r cacheState \<Rightarrow> 'r cacheState option" where
  "shutdown fuel env s = map_option (\<lambda>t. t\<lparr>csStopped := True\<rparr>) (flush fuel env s)"

definition shutdownWithoutFlush :: "'r cacheState \<Rightarrow> 'r cacheState" where
  "shutdownWithoutFlush s = s\<lparr>csStopped := True\<rparr>"

subsection \<open>Opening\<close>

definition loadControl :: "('r, unit) brainOp" where
  "loadControl =
     bindOp (ioRead csControlFile) (\<lambda>found.
       case found of
         None \<Rightarrow> fail ControlMissing
       | Some control \<Rightarrow>
           if bcFormat control \<noteq> brainCacheFormat then fail (UnsupportedFormat (bcFormat control))
           else (let control1 = (if bcNextVersion control = 0 then control\<lparr>bcNextVersion := 1\<rparr> else control) in
             if bcCacheNonce control1 = []
             then bindOp randomBrainCacheID (\<lambda>nonce. bindOp (readState csNow) (\<lambda>now.
               andThen (setControl (\<lambda>_. control1\<lparr>bcCacheNonce := nonce, bcUpdatedAt := now\<rparr>)) writeControl))
             else setControl (\<lambda>_. control1)))"

definition freshControl :: "bool \<Rightarrow> string \<Rightarrow> string \<Rightarrow> nat \<Rightarrow> brainControl" where
  "freshControl complete from nonce now =
     \<lparr>bcFormat = brainCacheFormat, bcComplete = complete, bcNextVersion = 1, bcCheckpointKey = [],
      bcCheckpointVers = 0, bcCheckpointSum = [], bcImportedFrom = from, bcCacheNonce = nonce,
      bcActiveLockID = [], bcLastCloudWrite = None, bcUpdatedAt = now\<rparr>"

definition startControl :: "bool \<Rightarrow> string \<Rightarrow> ('r, unit) brainOp" where
  "startControl complete from =
     bindOp randomBrainCacheID (\<lambda>nonce. bindOp (readState csNow) (\<lambda>now.
       andThen (setControl (\<lambda>_. freshControl complete from nonce now)) writeControl))"

text \<open>\<open>os.Stat\<close> of the control file, taken not to fail.\<close>

definition controlExists :: "('r, bool) brainOp" where
  "controlExists = readState (\<lambda>s. csControlFile s \<noteq> None)"

definition openLocalOnly :: "('r, unit) brainOp" where
  "openLocalOnly =
     andThen ensureDirs (bindOp controlExists (\<lambda>exists.
       if exists then loadControl else startControl True []))"

definition openBrainCacheForImport :: "string \<Rightarrow> bool \<Rightarrow> ('r, unit) brainOp" where
  "openBrainCacheForImport importedFrom force =
     andThen (if force
              then ioOp (\<lambda>s. s\<lparr>csControlFile := None, csMetas := [], csData := [], csOutbox := [], csBudget := None\<rparr>)
              else ret ())
     (andThen ensureDirs (bindOp controlExists (\<lambda>exists.
       if exists then loadControl else startControl False importedFrom)))"

definition openExistingBrainCacheAny :: "('r, unit) brainOp" where
  "openExistingBrainCacheAny =
     bindOp (ioRead csControlFile) (\<lambda>found.
       case found of
         None \<Rightarrow> fail ControlMissing
       | Some control \<Rightarrow>
           if bcFormat control \<noteq> brainCacheFormat then fail (UnsupportedFormat (bcFormat control))
           else if bcCacheNonce control = []
           then bindOp randomBrainCacheID (\<lambda>nonce. bindOp (readState csNow) (\<lambda>now.
             andThen (setControl (\<lambda>_. control\<lparr>bcCacheNonce := nonce, bcUpdatedAt := now\<rparr>))
               (ignoreErr writeControl)))
           else setControl (\<lambda>_. control))"

definition requireComplete :: "('r, unit) brainOp" where
  "requireComplete =
     bindOp (readState csControl) (\<lambda>control. if bcComplete control then ret () else fail CacheIncomplete)"

definition openExistingBrainCacheComplete :: "('r, unit) brainOp" where
  "openExistingBrainCacheComplete = andThen loadControl requireComplete"


text \<open>
  Hydration lists the metadata of every remote memory, page by page; a remote that never ends its
  listing would keep it there, so the pages are bounded by \<open>fuel\<close> in the model.
\<close>

fun listRemoteMetadata ::
    "nat \<Rightarrow> 'r remoteOps \<Rightarrow> string \<Rightarrow> remoteRecord list \<Rightarrow> ('r, remoteRecord list) brainOp" where
  "listRemoteMetadata 0 remote cursor metas = fail CacheOutOfFuel"
| "listRemoteMetadata (Suc fuel) remote cursor metas =
     bindOp (onRemote (roListMetadata remote cursor 1000)) (\<lambda>page.
       case find (\<lambda>record. rrFormat record \<noteq> brainCacheFormat) (rpRecords page) of
         Some record \<Rightarrow> fail (NotV3Record (rrKey record))
       | None \<Rightarrow>
           if rpNextCursor page = [] then ret (metas @ rpRecords page)
           else listRemoteMetadata fuel remote (rpNextCursor page) (metas @ rpRecords page))"

definition hydrateRecord :: "'r brainEnv \<Rightarrow> 'r remoteOps \<Rightarrow> remoteRecord \<Rightarrow> ('r, unit) brainOp" where
  "hydrateRecord env remote meta =
     bindOp (onRemote (roGet remote (rrKey meta))) (\<lambda>found.
       case found of
         None \<Rightarrow> ret ()
       | Some record \<Rightarrow>
           if rrFormat record \<noteq> brainCacheFormat then fail (NotV3Record (rrKey meta))
           else bindOp (readState csNow) (\<lambda>now.
             (let localMeta = \<lparr>mtFormat = brainCacheFormat, mtKey = rrKey record, mtVersion = rrVersion record,
                    mtChecksum = rrChecksum record, mtDeleted = rrDeleted record,
                    mtUpdatedAt = (if rrUpdatedAt record = 0 then now else rrUpdatedAt record),
                    mtSyncedAt = now\<rparr>
              in if \<not> rrDeleted record \<and> beChecksum env (rrPayload record) \<noteq> rrChecksum record
                 then fail (ChecksumMismatch (rrKey record))
                 else andThen (if rrDeleted record then ret ()
                               else writePayload (rrKey record) (rrPayload record))
                   (andThen (writeMeta localMeta)
                     (setControl (\<lambda>c. checkpointAt (rrKey record) localMeta
                        (raiseNextVersion (rrVersion record) c)))))))"

fun hydrateRecords :: "'r brainEnv \<Rightarrow> 'r remoteOps \<Rightarrow> remoteRecord list \<Rightarrow> ('r, unit) brainOp" where
  "hydrateRecords env remote [] = ret ()"
| "hydrateRecords env remote (meta # metas) =
     andThen (hydrateRecord env remote meta) (hydrateRecords env remote metas)"

definition hydrateFromV3Remote :: "nat \<Rightarrow> 'r brainEnv \<Rightarrow> 'r remoteOps \<Rightarrow> ('r, unit) brainOp" where
  "hydrateFromV3Remote fuel env remote =
     andThen (startControl False [])
     (bindOp (listRemoteMetadata fuel remote [] []) (\<lambda>metas.
       andThen (hydrateRecords env remote (sort_key (\<lambda>m. (rrVersion m, rrKey m)) metas))
       (bindOp (readState csNow) (\<lambda>now.
         andThen (setControl (\<lambda>c. c\<lparr>bcNextVersion := (if bcNextVersion c = 0 then 1 else bcNextVersion c),
             bcComplete := True, bcUpdatedAt := now\<rparr>))
           writeControl))))"

text \<open>The attempts left are counted down; the last error is what is reported.\<close>

definition checkRemoteRecord ::
    "string \<Rightarrow> cacheVersion \<Rightarrow> string \<Rightarrow> bool \<Rightarrow> bool \<Rightarrow> remoteRecord option \<Rightarrow> brainError option" where
  "checkRemoteRecord key version cksum deleted checkDeleted found =
     (case found of
        None \<Rightarrow> Some (RemoteMissing key)
      | Some record \<Rightarrow>
          if rrFormat record \<noteq> brainCacheFormat then Some (NotV3Record key)
          else if rrVersion record = version \<and> rrChecksum record = cksum \<and>
                  (\<not> checkDeleted \<or> rrDeleted record = deleted) then None
          else Some (CheckpointMismatch key))"

fun verifyAttempts ::
    "nat \<Rightarrow> nat \<Rightarrow> 'r remoteOps \<Rightarrow> string \<Rightarrow> (remoteRecord option \<Rightarrow> brainError option) \<Rightarrow>
     brainError \<Rightarrow> ('r, unit) brainOp" where
  "verifyAttempts 0 delay remote key check lastErr = fail lastErr"
| "verifyAttempts (Suc n) delay remote key check lastErr =
     (\<lambda>s. case onRemote (roGet remote key) s of
        (Inl e, s1) \<Rightarrow> verifyAttempts n delay remote key check e (if n = 0 then s1 else passTime delay s1)
      | (Inr found, s1) \<Rightarrow>
          (case check found of
             None \<Rightarrow> (Inr (), s1)
           | Some e \<Rightarrow> verifyAttempts n delay remote key check e (if n = 0 then s1 else passTime delay s1)))"

definition verifyRemoteRecord ::
    "'r brainEnv \<Rightarrow> 'r remoteOps \<Rightarrow> string \<Rightarrow> cacheVersion \<Rightarrow> string \<Rightarrow> bool \<Rightarrow> bool \<Rightarrow> ('r, unit) brainOp" where
  "verifyRemoteRecord env remote key version cksum deleted checkDeleted =
     verifyAttempts (nat (max 1 (spVerifyRetries (bePolicy env) + 1))) (spVerifyDelay (bePolicy env))
       remote key (checkRemoteRecord key version cksum deleted checkDeleted) IOError"

definition openRemote :: "nat \<Rightarrow> 'r brainEnv \<Rightarrow> ('r, unit) brainOp" where
  "openRemote fuel env =
     (case beRemote env of
        None \<Rightarrow> fail NoRemoteBackend
      | Some remote \<Rightarrow>
          andThen ensureDirs (bindOp controlExists (\<lambda>exists.
            if \<not> exists then hydrateFromV3Remote fuel env remote
            else andThen loadControl (andThen requireComplete
              (bindOp (readState csControl) (\<lambda>control.
                 if bcCheckpointKey control = [] then ret ()
                 else verifyRemoteRecord env remote (bcCheckpointKey control) (bcCheckpointVers control)
                   (bcCheckpointSum control) False False))))))"

definition verifyLastCloudWrite :: "'r brainEnv \<Rightarrow> ('r, unit) brainOp" where
  "verifyLastCloudWrite env =
     (case beRemote env of
        None \<Rightarrow> ret ()
      | Some remote \<Rightarrow>
          bindOp (readState csControl) (\<lambda>control.
            case bcLastCloudWrite control of
              None \<Rightarrow> ret ()
            | Some cw \<Rightarrow>
                if cwKey cw = [] then ret ()
                else verifyRemoteRecord env remote (cwKey cw) (cwVersion cw) (cwChecksum cw) (cwDeleted cw) True))"

subsection \<open>Queries and policy\<close>

definition defaultBrainSyncPolicy :: "brainSyncPolicy \<Rightarrow> brainSyncPolicy" where
  "defaultBrainSyncPolicy policy =
     policy\<lparr>spCoalesceWindow := (if spCoalesceWindow policy \<le> 0 then 2 else spCoalesceWindow policy),
            spFlushMax := (if spFlushMax policy \<le> 0 then 10 else spFlushMax policy)\<rparr>"

definition latestDatabaseVersion :: "brainControl \<Rightarrow> cacheVersion" where
  "latestDatabaseVersion control =
     (if bcNextVersion control = 0 then 0 else bcNextVersion control - 1)"

definition hashBrainCacheNonce :: "'r brainEnv \<Rightarrow> string \<Rightarrow> string" where
  "hashBrainCacheNonce env nonce = (if nonce = [] then [] else beChecksum env nonce)"

definition setActiveLockID :: "string \<Rightarrow> ('r, unit) brainOp" where
  "setActiveLockID lockID =
     bindOp (readState csNow) (\<lambda>now.
       andThen (setControl (\<lambda>c. c\<lparr>bcActiveLockID := lockID, bcUpdatedAt := now\<rparr>)) writeControl)"

end
