(* ===== verification/BrainCacheView.thy ===== *)
theory BrainCacheView
  imports BrainCache
begin

text \<open>
  The cached brain keeps the contract of a brain (bot/brain_cache.go): with no disk failure ahead
  and before shutdown, storing, retrieving, listing and deleting act on a map of memories, whether
  there is a remote brain or not. The instance lock of a remote brain is left out, since storing it
  pushes it at once and so may fail with the remote.
\<close>

named_theorems cache_run \<open>the primitives of the cached brain, for symbolic execution\<close>

lemmas [cache_run] = bindOp_def andThen_def ret_def fail_def modifyOp_def ioOp_def ioRead_def
  readState_def ignoreErr_def setControl_def ensureDirs_def writePayload_def removePayload_def
  readPayload_def writeMeta_def readMetaFile_def readMeta_def writeControl_def writeOutbox_def
  removeOutbox_def readOutboxEntry_def signalSync_def

definition cacheView :: "'r cacheState \<Rightarrow> string \<rightharpoonup> string" where
  "cacheView s k =
     (case map_of (csMetas s) (encodeBrainCacheKey k) of
        None \<Rightarrow> None
      | Some m \<Rightarrow> if mtDeleted m then None else map_of (csData s) (encodeBrainCacheKey k))"

definition metasOk :: "'r cacheState \<Rightarrow> bool" where
  "metasOk s \<longleftrightarrow> distinct (map fst (csMetas s)) \<and>
     (\<forall>(n, m) \<in> set (csMetas s). n = encodeBrainCacheKey (mtKey m) \<and> mtFormat m = brainCacheFormat \<and>
        (\<not> mtDeleted m \<longrightarrow> map_of (csData s) n \<noteq> None))"

definition cacheGood :: "'r cacheState \<Rightarrow> bool" where
  "cacheGood s \<longleftrightarrow> csFaults s = [] \<and> \<not> csStopped s \<and> metasOk s"

definition plainKey :: "'r brainEnv \<Rightarrow> string \<Rightarrow> bool" where
  "plainKey env k \<longleftrightarrow> validKey k \<and> (beRemote env = None \<or> k \<noteq> brainLockKey)"

lemma reserve_ok:
  "csFaults s = [] \<Longrightarrow> \<exists>v c. reserveVersionLocked s = (Inr v, s\<lparr>csControl := c, csControlFile := Some c\<rparr>)"
  by (auto simp: reserveVersionLocked_def cache_run Let_def)

lemma queue_ok:
  "csFaults s = [] \<Longrightarrow> beRemote env = None \<or> obKey e \<noteq> brainLockKey \<Longrightarrow>
   \<exists>os w. queueChange env e s = (Inr (), s\<lparr>csOutbox := os, csWake := w\<rparr>)"
proof (cases "beRemote env")
  case None
  have "s = s\<lparr>csOutbox := csOutbox s, csWake := csWake s\<rparr>" by simp
  then have "queueChange env e s = (Inr (), s\<lparr>csOutbox := csOutbox s, csWake := csWake s\<rparr>)"
    using None by (simp add: queueChange_def ret_def)
  then show ?thesis by blast
qed (auto simp: queueChange_def cache_run)

lemma metasOk_update:
  assumes "metasOk s" and "csMetas t = AList.update (encodeBrainCacheKey (mtKey m)) m (csMetas s)"
    and "mtFormat m = brainCacheFormat"
    and "\<And>n. n \<noteq> encodeBrainCacheKey (mtKey m) \<Longrightarrow> map_of (csData t) n = map_of (csData s) n"
    and "\<not> mtDeleted m \<Longrightarrow> map_of (csData t) (encodeBrainCacheKey (mtKey m)) \<noteq> None"
  shows "metasOk t"
proof -
  have d: "distinct (map fst (csMetas t))" using assms(1,2) by (simp add: metasOk_def distinct_update)
  have "n = encodeBrainCacheKey (mtKey m') \<and> mtFormat m' = brainCacheFormat \<and>
      (\<not> mtDeleted m' \<longrightarrow> map_of (csData t) n \<noteq> None)" if i: "(n, m') \<in> set (csMetas t)" for n m'
  proof -
    have "map_of (csMetas t) n = Some m'" using i d by simp
    then have "(if n = encodeBrainCacheKey (mtKey m) then Some m else map_of (csMetas s) n) = Some m'"
      by (auto simp: assms(2) map_of_update)
    then show ?thesis
      using assms(1,3-) by (auto simp: metasOk_def dest!: map_of_SomeD split: if_splits)
  qed
  with d show ?thesis by (auto simp: metasOk_def)
qed

lemma store_law:
  assumes "cacheGood s" and "plainKey env k"
  shows "\<exists>t. cacheStore env k (Some b) s = (Inr (), t) \<and> cacheGood t \<and> cacheView t = (cacheView s)(k \<mapsto> b)"
proof -
  from assms(1) have g: "csFaults s = []" "\<not> csStopped s" "metasOk s" by (simp_all add: cacheGood_def)
  obtain v c where r: "reserveVersionLocked s = (Inr v, s\<lparr>csControl := c, csControlFile := Some c\<rparr>)"
    using reserve_ok [OF g(1)] by blast
  define m where "m = \<lparr>mtFormat = brainCacheFormat, mtKey = k, mtVersion = v,
    mtChecksum = beChecksum env b, mtDeleted = False, mtUpdatedAt = csNow s, mtSyncedAt = 0\<rparr>"
  define u where "u = s\<lparr>csControl := c, csControlFile := Some c,
    csData := AList.update (encodeBrainCacheKey k) b (csData s),
    csMetas := AList.update (encodeBrainCacheKey k) m (csMetas s)\<rparr>"
  have "csFaults u = []" using g by (simp add: u_def)
  then obtain os w where q: "queueChange env \<lparr>obKey = k, obVersion = v, obDelete = False\<rparr> u =
      (Inr (), u\<lparr>csOutbox := os, csWake := w\<rparr>)"
    using queue_ok [of u env "\<lparr>obKey = k, obVersion = v, obDelete = False\<rparr>"] assms(2) by (auto simp: plainKey_def)
  have run: "cacheStore env k (Some b) s = (Inr (), u\<lparr>csOutbox := os, csWake := w\<rparr>)"
    using g q r unfolding cacheStore_def by (simp add: cache_run Let_def u_def m_def)
  have "metasOk u"
    by (rule metasOk_update [OF g(3), of u m]) (auto simp: u_def m_def map_of_update)
  then have "cacheGood (u\<lparr>csOutbox := os, csWake := w\<rparr>)"
    using g by (simp add: cacheGood_def metasOk_def u_def)
  moreover have "cacheView (u\<lparr>csOutbox := os, csWake := w\<rparr>) = (cacheView s)(k \<mapsto> b)"
    by (rule ext) (simp add: cacheView_def u_def m_def map_of_update split: option.split)
  ultimately show ?thesis using run by blast
qed

lemma delete_law:
  assumes "cacheGood s" and "plainKey env k"
  shows "\<exists>t. cacheDelete env k s = (Inr (), t) \<and> cacheGood t \<and> cacheView t = (cacheView s)(k := None)"
proof -
  from assms(1) have g: "csFaults s = []" "\<not> csStopped s" "metasOk s" by (simp_all add: cacheGood_def)
  obtain v c where r: "reserveVersionLocked s = (Inr v, s\<lparr>csControl := c, csControlFile := Some c\<rparr>)"
    using reserve_ok [OF g(1)] by blast
  define m where "m = \<lparr>mtFormat = brainCacheFormat, mtKey = k, mtVersion = v,
    mtChecksum = [], mtDeleted = True, mtUpdatedAt = csNow s, mtSyncedAt = 0\<rparr>"
  define u where "u = s\<lparr>csControl := c, csControlFile := Some c,
    csData := AList.delete (encodeBrainCacheKey k) (csData s),
    csMetas := AList.update (encodeBrainCacheKey k) m (csMetas s)\<rparr>"
  have "csFaults u = []" using g by (simp add: u_def)
  then obtain os w where q: "queueChange env \<lparr>obKey = k, obVersion = v, obDelete = True\<rparr> u =
      (Inr (), u\<lparr>csOutbox := os, csWake := w\<rparr>)"
    using queue_ok [of u env "\<lparr>obKey = k, obVersion = v, obDelete = True\<rparr>"] assms(2) by (auto simp: plainKey_def)
  have run: "cacheDelete env k s = (Inr (), u\<lparr>csOutbox := os, csWake := w\<rparr>)"
    using g q r unfolding cacheDelete_def by (simp add: cache_run u_def m_def)
  have "metasOk u"
    by (rule metasOk_update [OF g(3), of u m]) (auto simp: u_def m_def map_of_delete)
  then have "cacheGood (u\<lparr>csOutbox := os, csWake := w\<rparr>)"
    using g by (simp add: cacheGood_def metasOk_def u_def)
  moreover have "cacheView (u\<lparr>csOutbox := os, csWake := w\<rparr>) = (cacheView s)(k := None)"
    by (rule ext) (simp add: cacheView_def u_def m_def map_of_update map_of_delete split: option.split)
  ultimately show ?thesis using run by blast
qed

lemma metasOk_lookup:
  "metasOk s \<Longrightarrow> map_of (csMetas s) n = Some m \<Longrightarrow>
   n = encodeBrainCacheKey (mtKey m) \<and> mtFormat m = brainCacheFormat \<and> (\<not> mtDeleted m \<longrightarrow> map_of (csData s) n \<noteq> None)"
  by (auto simp: metasOk_def dest!: map_of_SomeD)

lemma retrieve_law:
  assumes "cacheGood s" and "validKey k"
  shows "cacheRetrieve k s = (Inr (cacheView s k), s)"
  using assms metasOk_lookup [of s "encodeBrainCacheKey k"]
  by (auto simp: cacheRetrieve_def cacheView_def cacheGood_def cache_run split: option.split)

lemma collectKeys_ok:
  "csFaults s = [] \<Longrightarrow> metasOk s \<Longrightarrow> set paths \<subseteq> set (map fst (csMetas s)) \<Longrightarrow>
   collectKeys paths keys s =
     (Inr (keys @ map (\<lambda>n. mtKey (the (map_of (csMetas s) n))) (filter (\<lambda>n. \<not> mtDeleted (the (map_of (csMetas s) n))) paths)), s)"
proof (induction paths arbitrary: keys)
  case Nil
  then show ?case by (simp add: ret_def)
next
  case (Cons n ns)
  then obtain m where m: "map_of (csMetas s) n = Some m"
    by (metis list.set_intros(1) map_of_eq_None_iff not_None_eq set_map subsetD)
  with Cons metasOk_lookup [OF Cons.prems(2) m] show ?case by (auto simp: cache_run)
qed

lemma list_law:
  assumes "cacheGood s"
  shows "\<exists>ks. cacheList s = (Inr ks, s) \<and> distinct ks \<and> set ks = dom (cacheView s) \<and> sorted ks"
proof -
  from assms have g: "csFaults s = []" "metasOk s" by (simp_all add: cacheGood_def)
  let ?ns = "sort (map fst (csMetas s))"
  let ?m = "\<lambda>n. the (map_of (csMetas s) n)"
  let ?ks = "map (\<lambda>n. mtKey (?m n)) (filter (\<lambda>n. \<not> mtDeleted (?m n)) ?ns)"
  have run: "cacheList s = (Inr (sort ?ks), s)"
    using collectKeys_ok [OF g, of ?ns "[]"] g
    unfolding cacheList_def readMetaDir_def by (simp add: cache_run)
  have mem: "n \<in> set ?ns \<longleftrightarrow> (\<exists>m. map_of (csMetas s) n = Some m)" for n
    by (metis map_of_eq_None_iff not_None_eq set_map set_sort)
  have enc: "encodeBrainCacheKey (mtKey (?m n)) = n" if "n \<in> set ?ns" for n
    using that mem metasOk_lookup [OF g(2), of n] by auto
  have inj: "inj_on (\<lambda>n. mtKey (?m n)) (set ?ns)" by (rule inj_on_inverseI) (rule enc)
  have "distinct ?ns" using g(2) by (simp add: metasOk_def)
  then have "distinct ?ks"
    unfolding distinct_map using inj_on_subset [OF inj, of "set (filter (\<lambda>n. \<not> mtDeleted (?m n)) ?ns)"] by simp
  moreover have "set ?ks = dom (cacheView s)"
  proof (intro set_eqI iffI)
    fix k assume "k \<in> set ?ks"
    then obtain n where n: "n \<in> set ?ns" "\<not> mtDeleted (?m n)" "k = mtKey (?m n)" by auto
    then obtain m where m: "map_of (csMetas s) n = Some m" using mem by blast
    with enc [OF n(1)] n have "encodeBrainCacheKey k = n" by simp
    with m n metasOk_lookup [OF g(2) m] show "k \<in> dom (cacheView s)" by (auto simp: cacheView_def)
  next
    fix k assume "k \<in> dom (cacheView s)"
    then obtain m where m: "map_of (csMetas s) (encodeBrainCacheKey k) = Some m" "\<not> mtDeleted m"
      by (auto simp: cacheView_def split: option.splits if_splits)
    then have "encodeBrainCacheKey k \<in> set ?ns" "mtKey m = k"
      using mem metasOk_lookup [OF g(2) m(1)] by auto
    with m show "k \<in> set ?ks" by (force simp: image_iff)
  qed
  ultimately show ?thesis using run by (intro exI [of _ "sort ?ks"]) auto
qed


interpretation cached: simple_brain "\<lambda>k b. cacheStore env k (Some b)" cacheRetrieve cacheList
  "cacheDelete env" cacheGood "plainKey env" cacheView for env
proof
  fix s :: "'a cacheState" and k b
  assume "cacheGood s" and "plainKey env k"
  then show "\<exists>t. cacheStore env k (Some b) s = (Inr (), t) \<and> cacheGood t \<and> cacheView t = (cacheView s)(k \<mapsto> b)"
    by (rule store_law)
next
  fix s :: "'a cacheState" and k
  assume "cacheGood s" and "plainKey env k"
  then show "\<exists>t. cacheDelete env k s = (Inr (), t) \<and> cacheGood t \<and> cacheView t = (cacheView s)(k := None)"
    by (rule delete_law)
next
  fix s :: "'a cacheState" and k
  assume "cacheGood s" and "plainKey env k"
  then show "\<exists>t. cacheRetrieve k s = (Inr (cacheView s k), t) \<and> cacheGood t \<and> cacheView t = cacheView s"
    using retrieve_law [of s k] by (simp add: plainKey_def)
next
  fix s :: "'a cacheState"
  assume "cacheGood s"
  then show "\<exists>t ks. cacheList s = (Inr ks, t) \<and> cacheGood t \<and> cacheView t = cacheView s \<and> distinct ks \<and>
      set ks = dom (cacheView s)"
    using list_law [of s] by fastforce
qed

text \<open>
  C16. On a cached brain that is in good order (its files are well formed, it is not stopped, and no disk
  access fails), after any sequence of stores and deletes of plain keys, with or without a remote brain
  behind it, a retrieve of a plain key returns the value of the last write to it, or nothing when that
  was a delete, or what the disk held when there was none. With a failing disk this is false: a delete
  whose metadata write fails has removed the payload already.
\<close>

theorem cache_last_write_wins:
  assumes "cacheGood s" and "list_all (\<lambda>w. plainKey env (writeKey w)) ws" and "plainKey env k"
  shows "fst (andThen (runWrites (\<lambda>k b. cacheStore env k (Some b)) (cacheDelete env) ws) (cacheRetrieve k) s)
    = Inr (foldl writeMap (cacheView s) ws k)"
  by (rule cached.last_write_wins [OF assms])

definition emptyCache :: "unit cacheState" where
  "emptyCache = \<lparr>csControl = freshControl True [] ''n'' 0, csControlFile = None, csMetas = [], csData = [],
     csOutbox = [], csBudget = None, csStopped = False, csWake = False, csFaults = [], csNow = 5,
     csNonces = [], csRemote = ()\<rparr>"

definition localEnv :: "unit brainEnv" where
  "localEnv = \<lparr>beRemote = None, bePolicy = \<lparr>spWriteBudgetPerDay = 0, spMinWriteInterval = 0,
     spCoalesceWindow = 0, spFlushMax = 0, spVerifyRetries = 0, spVerifyDelay = 0\<rparr>, beChecksum = (\<lambda>p. p)\<rparr>"

theorem cache_last_write_wins_witness:
  "fst (andThen (runWrites (\<lambda>k b. cacheStore localEnv k (Some b)) (cacheDelete localEnv)
      [WStore ''a'' ''1'', WStore ''b:c'' ''2'', WStore ''a'' ''3'', WDelete ''b:c'']) (cacheRetrieve ''a'') emptyCache)
    = Inr (Some ''3'')"
proof -
  have g: "cacheGood emptyCache" by (simp add: cacheGood_def metasOk_def emptyCache_def)
  have w: "list_all (\<lambda>w. plainKey localEnv (writeKey w))
      [WStore ''a'' ''1'', WStore ''b:c'' ''2'', WStore ''a'' ''3'', WDelete ''b:c'']" by code_simp
  have k: "plainKey localEnv ''a''" by code_simp
  have v: "foldl writeMap (cacheView emptyCache)
      [WStore ''a'' ''1'', WStore ''b:c'' ''2'', WStore ''a'' ''3'', WDelete ''b:c''] ''a'' = Some ''3''" by simp
  show ?thesis by (rule cache_last_write_wins [OF g w k, unfolded v])
qed

text \<open>
  Listing a cached brain returns the keys of the memories it holds, each once and in order.
\<close>

theorem cache_list_exact:
  assumes "cacheGood s"
  shows "\<exists>ks. fst (cacheList s) = Inr ks \<and> distinct ks \<and> sorted ks \<and> set ks = dom (cacheView s)"
  using list_law [OF assms] by fastforce

theorem cache_list_exact_witness:
  "\<exists>ks. fst (cacheList emptyCache) = Inr ks \<and> distinct ks \<and> sorted ks \<and> set ks = dom (cacheView emptyCache)"
  by (rule cache_list_exact) (simp add: cacheGood_def metasOk_def emptyCache_def)

end
