(* ===== verification/BrainCacheInv.thy ===== *)
theory BrainCacheInv
  imports BrainCacheView
begin

text \<open>
  Invariants of the cached brain (bot/brain_cache.go) under any interleaving of its operations. The
  step relation has one rule per operation that takes the brain's lock; the entry a sync works on is
  arbitrary, since \<open>syncPending\<close> and \<open>Flush\<close> read the outbox before they take the lock. The first
  part holds whatever disk accesses fail; the second needs a disk that works, but lets every call
  of the remote brain fail.
\<close>

subsection \<open>Triples of the primitives\<close>

lemma triple_ioOp:
  assumes "\<And>s fs. P s \<Longrightarrow> E (s\<lparr>csFaults := fs\<rparr>)" and "\<And>s fs. P s \<Longrightarrow> Q () (f (s\<lparr>csFaults := fs\<rparr>))"
  shows "triple P (ioOp f) Q E"
proof -
  have "Q () (f s)" if "P s" for s using assms(2) [OF that, of "csFaults s"] by simp
  then show ?thesis using assms by (auto simp: triple_def ioOp_def split: list.split)
qed

lemma triple_ioRead:
  assumes "\<And>s fs. P s \<Longrightarrow> E (s\<lparr>csFaults := fs\<rparr>)" and "\<And>s fs. P s \<Longrightarrow> Q (g s) (s\<lparr>csFaults := fs\<rparr>)"
  shows "triple P (ioRead g) Q E"
proof -
  have "Q (g s) s" if "P s" for s using assms(2) [OF that, of "csFaults s"] by simp
  then show ?thesis using assms by (auto simp: triple_def ioRead_def split: list.split)
qed

lemma triple_readState: "(\<And>s. P s \<Longrightarrow> Q (g s) s) \<Longrightarrow> triple P (readState g) Q E"
  by (simp add: triple_def readState_def)

lemma triple_setControl: "(\<And>s. P s \<Longrightarrow> Q () (s\<lparr>csControl := f (csControl s)\<rparr>)) \<Longrightarrow> triple P (setControl f) Q E"
  by (simp add: setControl_def triple_modifyOp)

lemma triple_ignoreErr: "triple P m Q (Q ()) \<Longrightarrow> triple P (ignoreErr m) Q E"
  unfolding triple_def ignoreErr_def by (fastforce split: prod.splits sum.splits)

lemma triple_onRemote:
  "(\<And>s r. P s \<Longrightarrow> E (s\<lparr>csRemote := r\<rparr>)) \<Longrightarrow> (\<And>s x r. P s \<Longrightarrow> Q x (s\<lparr>csRemote := r\<rparr>)) \<Longrightarrow>
   triple P (onRemote f) Q E"
  by (auto simp: triple_def onRemote_def split: prod.split sum.split)

subsection \<open>Versions\<close>

definition versionsOk ::
    "(string \<rightharpoonup> brainMeta) \<Rightarrow> (string \<rightharpoonup> outboxEntry) \<Rightarrow> cacheVersion \<Rightarrow> bool" where
  "versionsOk M B next \<longleftrightarrow>
     (\<forall>n m. M n = Some m \<longrightarrow> n = encodeBrainCacheKey (mtKey m) \<and> mtVersion m < next) \<and>
     (\<forall>n n' m m'. M n = Some m \<and> M n' = Some m' \<and> mtVersion m = mtVersion m' \<longrightarrow> n = n') \<and>
     (\<forall>n e. B n = Some e \<longrightarrow> n = encodeBrainCacheKey (obKey e) \<and>
        (\<exists>m. M n = Some m \<and> obVersion e \<le> mtVersion m))"

lemma versionsOk_meta:
  "versionsOk M B nx \<Longrightarrow> M n = Some m \<Longrightarrow> n = encodeBrainCacheKey (mtKey m) \<and> mtVersion m < nx"
  unfolding versionsOk_def by blast

lemma versionsOk_inj:
  "versionsOk M B nx \<Longrightarrow> M n = Some m \<Longrightarrow> M n' = Some m' \<Longrightarrow> mtVersion m = mtVersion m' \<Longrightarrow> n = n'"
  unfolding versionsOk_def by blast

lemma versionsOk_outbox:
  "versionsOk M B nx \<Longrightarrow> B n = Some e \<Longrightarrow>
   n = encodeBrainCacheKey (obKey e) \<and> (\<exists>m. M n = Some m \<and> obVersion e \<le> mtVersion m)"
  unfolding versionsOk_def by blast

lemma versionsOkI:
  assumes "\<And>n m. M n = Some m \<Longrightarrow> n = encodeBrainCacheKey (mtKey m) \<and> mtVersion m < nx"
    and "\<And>n n' m m'. M n = Some m \<Longrightarrow> M n' = Some m' \<Longrightarrow> mtVersion m = mtVersion m' \<Longrightarrow> n = n'"
    and "\<And>n e. B n = Some e \<Longrightarrow> n = encodeBrainCacheKey (obKey e) \<and> (\<exists>m. M n = Some m \<and> obVersion e \<le> mtVersion m)"
  shows "versionsOk M B nx"
  unfolding versionsOk_def using assms by blast

definition verInv :: "'r cacheState \<Rightarrow> bool" where
  "verInv s \<longleftrightarrow> versionsOk (map_of (csMetas s)) (map_of (csOutbox s)) (bcNextVersion (csControl s))"

lemma verInv_frame [simp]:
  "verInv (s\<lparr>csFaults := fs\<rparr>) = verInv s" "verInv (s\<lparr>csData := d\<rparr>) = verInv s"
  "verInv (s\<lparr>csControlFile := cf\<rparr>) = verInv s" "verInv (s\<lparr>csRemote := r\<rparr>) = verInv s"
  "verInv (s\<lparr>csWake := w\<rparr>) = verInv s" "verInv (s\<lparr>csBudget := b\<rparr>) = verInv s"
  "verInv (s\<lparr>csNow := now\<rparr>) = verInv s"
  by (simp_all add: verInv_def)

definition freshVersion :: "cacheVersion \<Rightarrow> 'r cacheState \<Rightarrow> bool" where
  "freshVersion v s \<longleftrightarrow> verInv s \<and> v < bcNextVersion (csControl s) \<and>
     (\<forall>n m. map_of (csMetas s) n = Some m \<longrightarrow> mtVersion m < v)"

lemma freshVersion_frame [simp]:
  "freshVersion v (s\<lparr>csFaults := fs\<rparr>) = freshVersion v s" "freshVersion v (s\<lparr>csData := d\<rparr>) = freshVersion v s"
  "freshVersion v (s\<lparr>csControlFile := cf\<rparr>) = freshVersion v s"
  by (simp_all add: freshVersion_def)

definition storedAt :: "string \<Rightarrow> cacheVersion \<Rightarrow> 'r cacheState \<Rightarrow> bool" where
  "storedAt k v s \<longleftrightarrow> verInv s \<and>
     (\<exists>m. map_of (csMetas s) (encodeBrainCacheKey k) = Some m \<and> v \<le> mtVersion m)"

lemma word_lt_add1: "n \<noteq> - 1 \<Longrightarrow> n < n + (1 :: 'a::len word)"
  using inc_less_eq_self_iff_eq [of n] by (simp add: not_le)

definition roomLeft :: "'r cacheState \<Rightarrow> bool" where
  "roomLeft s \<longleftrightarrow> bcNextVersion (csControl s) \<noteq> - 1"

lemma reserve_fresh:
  "triple (\<lambda>s. verInv s \<and> roomLeft s) reserveVersionLocked freshVersion verInv"
proof -
  have "freshVersion v t" if "verInv s" "roomLeft s" "reserveVersionLocked s = (r, t)"
    "v = (if bcNextVersion (csControl s) = 0 then 1 else bcNextVersion (csControl s))" for s t r v
  proof -
    from that(3,4) have t: "csMetas t = csMetas s" "csOutbox t = csOutbox s" "bcNextVersion (csControl t) = v + 1"
      by (auto simp: reserveVersionLocked_def cache_run Let_def split: list.splits if_splits)
    have lt: "v < v + 1" using that(2,4) by (auto simp: roomLeft_def intro!: word_lt_add1)
    have old: "mtVersion m < v" if m: "map_of (csMetas s) n = Some m" for n m
    proof -
      have "mtVersion m < bcNextVersion (csControl s)"
        using m \<open>verInv s\<close> by (auto simp: verInv_def versionsOk_def)
      with \<open>v = _\<close> show ?thesis by (auto split: if_splits)
    qed
    then have "mtVersion m < v + 1" if "map_of (csMetas s) n = Some m" for n m
      using that lt less_trans by blast
    with that(1) t lt old show ?thesis by (auto simp: freshVersion_def verInv_def versionsOk_def)
  qed
  moreover have "\<exists>v t. reserveVersionLocked s = (Inr v, t) \<and>
      v = (if bcNextVersion (csControl s) = 0 then 1 else bcNextVersion (csControl s))" for s :: "'a cacheState"
    by (auto simp: reserveVersionLocked_def cache_run Let_def split: list.splits)
  ultimately show ?thesis unfolding triple_def by (metis (mono_tags, lifting) case_prod_conv sum.simps(6))
qed

lemma writePayload_fresh: "triple (freshVersion v) (writePayload k b) (\<lambda>_. freshVersion v) verInv"
  unfolding writePayload_def by (rule triple_ioOp) (simp_all add: freshVersion_def)

lemma removePayload_fresh: "triple (freshVersion v) (ignoreErr (removePayload k)) (\<lambda>_. freshVersion v) verInv"
  unfolding removePayload_def by (intro triple_ignoreErr triple_ioOp) simp_all

lemma writeMeta_fresh:
  assumes "mtVersion m = v" and "mtKey m = k"
  shows "triple (freshVersion v) (writeMeta m) (\<lambda>_. storedAt k v) verInv"
  unfolding writeMeta_def
proof (rule triple_ioOp)
  fix s :: "'a cacheState" and fs
  assume f: "freshVersion v s"
  then show "verInv (s\<lparr>csFaults := fs\<rparr>)" by (simp add: freshVersion_def)
  let ?n = "encodeBrainCacheKey k"
  have inv: "versionsOk (map_of (csMetas s)) (map_of (csOutbox s)) (bcNextVersion (csControl s))"
    and v: "v < bcNextVersion (csControl s)" and old: "\<And>n m. map_of (csMetas s) n = Some m \<Longrightarrow> mtVersion m < v"
    using f by (auto simp: freshVersion_def verInv_def)
  have "versionsOk ((map_of (csMetas s))(?n \<mapsto> m)) (map_of (csOutbox s)) (bcNextVersion (csControl s))"
  proof (rule versionsOkI)
    fix n m' assume "((map_of (csMetas s))(?n \<mapsto> m)) n = Some m'"
    then show "n = encodeBrainCacheKey (mtKey m') \<and> mtVersion m' < bcNextVersion (csControl s)"
      using versionsOk_meta [OF inv] v assms by (auto split: if_splits)
  next
    fix n n' m1 m2
    assume "((map_of (csMetas s))(?n \<mapsto> m)) n = Some m1" "((map_of (csMetas s))(?n \<mapsto> m)) n' = Some m2"
      "mtVersion m1 = mtVersion m2"
    then show "n = n'" using versionsOk_inj [OF inv] assms(1) old [of n m1] old [of n' m2]
      by (cases "n = ?n"; cases "n' = ?n") auto
  next
    fix n e assume "map_of (csOutbox s) n = Some e"
    from versionsOk_outbox [OF inv this] obtain m' where
      m': "n = encodeBrainCacheKey (obKey e)" "map_of (csMetas s) n = Some m'" "obVersion e \<le> mtVersion m'" by blast
    have "obVersion e \<le> v" using m'(3) old [OF m'(2)] by simp
    with m' assms(1) show "n = encodeBrainCacheKey (obKey e) \<and>
        (\<exists>m'. ((map_of (csMetas s))(?n \<mapsto> m)) n = Some m' \<and> obVersion e \<le> mtVersion m')" by auto
  qed
  then show "storedAt k v (s\<lparr>csFaults := fs, csMetas :=
      AList.update (encodeBrainCacheKey (mtKey m)) m (csMetas (s\<lparr>csFaults := fs\<rparr>))\<rparr>)"
    using assms by (auto simp: storedAt_def verInv_def map_of_update)
qed

lemma writeOutbox_stored:
  "triple (storedAt (obKey e) (obVersion e)) (writeOutbox e) (\<lambda>_. verInv) verInv"
  unfolding writeOutbox_def
proof (rule triple_ioOp)
  fix s :: "'a cacheState" and fs
  assume "storedAt (obKey e) (obVersion e) s"
  then show "verInv (s\<lparr>csFaults := fs\<rparr>)"
    "verInv (s\<lparr>csFaults := fs, csOutbox :=
       AList.update (encodeBrainCacheKey (obKey e)) e (csOutbox (s\<lparr>csFaults := fs\<rparr>))\<rparr>)"
    by (auto simp: storedAt_def verInv_def map_of_update versionsOk_def)
qed

lemma removeOutbox_ver: "triple verInv (removeOutbox k) (\<lambda>_. verInv) verInv"
  unfolding removeOutbox_def
  by (rule triple_ioOp) (auto simp: verInv_def map_of_delete versionsOk_def split: if_splits)

lemma setControl_ver:
  "(\<And>c. bcNextVersion (f c) = bcNextVersion c) \<Longrightarrow> triple verInv (setControl f) (\<lambda>_. verInv) E"
  by (rule triple_setControl) (simp add: verInv_def)

lemma writeControl_ver: "triple verInv writeControl (\<lambda>_. verInv) verInv"
  unfolding writeControl_def by (rule triple_ioOp) simp_all

lemma checkpointAt_next [simp]: "bcNextVersion (checkpointAt k m c) = bcNextVersion c"
  by (simp add: checkpointAt_def)

definition metaIs :: "string \<Rightarrow> brainMeta \<Rightarrow> 'r cacheState \<Rightarrow> bool" where
  "metaIs k m s \<longleftrightarrow> verInv s \<and> map_of (csMetas s) (encodeBrainCacheKey k) = Some m"

lemma metaIs_frame [simp]:
  "metaIs k m (s\<lparr>csFaults := fs\<rparr>) = metaIs k m s" "metaIs k m (s\<lparr>csRemote := r\<rparr>) = metaIs k m s"
  "metaIs k m (s\<lparr>csBudget := b\<rparr>) = metaIs k m s"
  by (simp_all add: metaIs_def)

lemma metaIs_verInv: "metaIs k m s \<Longrightarrow> verInv s"
  by (simp add: metaIs_def)

lemma readMeta_ver:
  "triple verInv (readMeta k) (\<lambda>found s. case found of None \<Rightarrow> verInv s | Some m \<Rightarrow> metaIs k m s) verInv"
  unfolding readMeta_def readMetaFile_def
proof (rule triple_bind)
  show "triple verInv (ioRead (\<lambda>s. map_of (csMetas s) (encodeBrainCacheKey k)))
      (\<lambda>found s. verInv s \<and> map_of (csMetas s) (encodeBrainCacheKey k) = found) verInv"
    by (rule triple_ioRead) simp_all
next
  fix found
  show "triple (\<lambda>s. verInv s \<and> map_of (csMetas s) (encodeBrainCacheKey k) = found)
      (case found of None \<Rightarrow> ret None
       | Some meta \<Rightarrow> if mtFormat meta \<noteq> brainCacheFormat then fail (UnsupportedFormat (mtFormat meta))
           else ret (Some meta))
      (\<lambda>found s. case found of None \<Rightarrow> verInv s | Some m \<Rightarrow> metaIs k m s) verInv"
    by (cases found) (auto intro!: triple_ret triple_fail simp: metaIs_def)
qed

lemma readWriteBudget_metaIs: "triple (metaIs k m) readWriteBudget (\<lambda>_. metaIs k m) verInv"
  unfolding readWriteBudget_def
  by (intro triple_bind [where R = "\<lambda>_. metaIs k m"] triple_ioRead triple_readState triple_ret)
     (simp_all add: metaIs_verInv)

lemma checkBudget_metaIs: "triple (metaIs k m) (checkCloudWriteBudgetLocked env) (\<lambda>_. metaIs k m) verInv"
  unfolding checkCloudWriteBudgetLocked_def
  by (auto intro!: triple_bind [OF readWriteBudget_metaIs] triple_ret triple_fail simp: metaIs_verInv)

lemma recordWrite_metaIs: "triple (metaIs k m) (recordCloudWriteLocked env) (\<lambda>_. metaIs k m) verInv"
  unfolding recordCloudWriteLocked_def writeWriteBudget_def
  by (auto intro!: triple_bind [OF readWriteBudget_metaIs] triple_ret triple_ioOp simp: metaIs_verInv)

lemma upload_metaIs: "triple (metaIs k m) (uploadMeta env ops k m) (\<lambda>_. metaIs k m) verInv"
proof (cases "mtDeleted m")
  case True
  then show ?thesis by (auto simp: uploadMeta_def metaIs_verInv intro!: triple_onRemote)
next
  case False
  have r: "triple (metaIs k m) (readPayload k) (\<lambda>_. metaIs k m) verInv"
    unfolding readPayload_def by (rule triple_ioRead) (simp_all add: metaIs_verInv)
  show ?thesis using False
    by (auto simp: uploadMeta_def metaIs_verInv intro!: triple_bind [OF r] triple_onRemote triple_fail
        split: option.split)
qed

lemma writeSynced_ver: "triple (metaIs k m) (writeMeta (m\<lparr>mtSyncedAt := now\<rparr>)) (\<lambda>_. verInv) verInv"
  unfolding writeMeta_def
proof (rule triple_ioOp)
  fix s :: "'a cacheState" and fs
  assume a: "metaIs k m s"
  then show "verInv (s\<lparr>csFaults := fs\<rparr>)" by (simp add: metaIs_verInv)
  have l: "map_of (csMetas s) (encodeBrainCacheKey k) = Some m"
    and v: "versionsOk (map_of (csMetas s)) (map_of (csOutbox s)) (bcNextVersion (csControl s))"
    using a by (auto simp: metaIs_def verInv_def)
  have n: "k = mtKey m" using versionsOk_meta [OF v l] by simp
  have "versionsOk ((map_of (csMetas s))(encodeBrainCacheKey (mtKey m) \<mapsto> m\<lparr>mtSyncedAt := now\<rparr>))
      (map_of (csOutbox s)) (bcNextVersion (csControl s))"
  proof (rule versionsOkI)
    fix n' m' assume "((map_of (csMetas s))(encodeBrainCacheKey (mtKey m) \<mapsto> m\<lparr>mtSyncedAt := now\<rparr>)) n' = Some m'"
    then show "n' = encodeBrainCacheKey (mtKey m') \<and> mtVersion m' < bcNextVersion (csControl s)"
      using versionsOk_meta [OF v] versionsOk_meta [OF v l] by (auto split: if_splits)
  next
    fix n1 n2 m1 m2
    assume "((map_of (csMetas s))(encodeBrainCacheKey (mtKey m) \<mapsto> m\<lparr>mtSyncedAt := now\<rparr>)) n1 = Some m1"
      "((map_of (csMetas s))(encodeBrainCacheKey (mtKey m) \<mapsto> m\<lparr>mtSyncedAt := now\<rparr>)) n2 = Some m2"
      "mtVersion m1 = mtVersion m2"
    then show "n1 = n2" using versionsOk_inj [OF v] versionsOk_inj [OF v l] versionsOk_inj [OF v _ l] n
      by (auto split: if_splits)
  next
    fix n' e assume "map_of (csOutbox s) n' = Some e"
    with versionsOk_outbox [OF v this] l n show "n' = encodeBrainCacheKey (obKey e) \<and>
        (\<exists>m'. ((map_of (csMetas s))(encodeBrainCacheKey (mtKey m) \<mapsto> m\<lparr>mtSyncedAt := now\<rparr>)) n' = Some m' \<and>
          obVersion e \<le> mtVersion m')" by auto
  qed
  then show "verInv (s\<lparr>csFaults := fs, csMetas := AList.update (encodeBrainCacheKey (mtKey (m\<lparr>mtSyncedAt := now\<rparr>)))
      (m\<lparr>mtSyncedAt := now\<rparr>) (csMetas (s\<lparr>csFaults := fs\<rparr>))\<rparr>)"
    by (simp add: verInv_def map_of_update)
qed

lemma noteSynced_ver: "triple verInv (noteSynced k m) (\<lambda>_. verInv) verInv"
  unfolding noteSynced_def
proof (intro triple_bind)
  show "triple verInv (readState csNow) (\<lambda>_. verInv) verInv" by (rule triple_readState)
  show "triple verInv (readState csControl) (\<lambda>c s. verInv s \<and> csControl s = c) verInv" by (rule triple_readState) simp
  fix now control
  show "triple (\<lambda>s. verInv s \<and> csControl s = control)
      (let control1 = (if k \<noteq> brainLockKey
              then control\<lparr>bcLastCloudWrite := Some \<lparr>cwKey = mtKey m, cwVersion = mtVersion m,
                     cwChecksum = mtChecksum m, cwDeleted = mtDeleted m,
                     cwUpdatedAt = mtUpdatedAt m, cwSyncedAt = now\<rparr>\<rparr>
              else control);
            dirty = (k \<noteq> brainLockKey \<or> bcCheckpointVers control \<le> mtVersion m)
        in if dirty
           then andThen (setControl (\<lambda>_. (checkpointAt k m control1)\<lparr>bcUpdatedAt := now\<rparr>)) writeControl
           else ret ()) (\<lambda>_. verInv) verInv"
    unfolding Let_def
    by (auto intro!: triple_then [OF _ writeControl_ver] triple_setControl triple_ret simp: verInv_def)
qed

lemma syncOutboxEntry_ver: "triple verInv (syncOutboxEntryLocked env e b) (\<lambda>_. verInv) verInv"
proof (cases "beRemote env")
  case None
  then show ?thesis by (simp add: syncOutboxEntryLocked_def triple_ret)
next
  case (Some ops)
  have r: "triple verInv (readOutboxEntry (obKey e)) (\<lambda>_. verInv) verInv"
    unfolding readOutboxEntry_def by (rule triple_ioRead) simp_all
  have tail: "triple (metaIs (obKey e) m) chk (\<lambda>_. metaIs (obKey e) m) verInv \<Longrightarrow>
      triple (metaIs (obKey e) m)
      (andThen chk
        (andThen (uploadMeta env ops (obKey e) m)
        (andThen (recordCloudWriteLocked env)
        (bindOp (readState csNow) (\<lambda>now. andThen (writeMeta (m\<lparr>mtSyncedAt := now\<rparr>))
           (andThen (noteSynced (obKey e) m) (removeOutbox (obKey e)))))))) (\<lambda>_. verInv) verInv" for m chk
    by (erule triple_then)
       (intro triple_then [OF upload_metaIs] triple_then [OF recordWrite_metaIs]
          triple_bind [where R = "\<lambda>_. metaIs (obKey e) m"] triple_readState
          triple_then [OF writeSynced_ver] triple_then [OF noteSynced_ver] removeOutbox_ver)
  show ?thesis unfolding syncOutboxEntryLocked_def Some option.case
  proof (rule triple_bind [OF r])
    fix found
    show "triple verInv (case found of None \<Rightarrow> ret () | Some current \<Rightarrow>
        if obVersion current \<noteq> obVersion e then ret ()
        else bindOp (readMeta (obKey e)) (\<lambda>foundMeta. case foundMeta of None \<Rightarrow> removeOutbox (obKey e)
          | Some meta \<Rightarrow> andThen (if b then checkCloudWriteBudgetLocked env else ret ())
              (andThen (uploadMeta env ops (obKey e) meta)
              (andThen (recordCloudWriteLocked env)
              (bindOp (readState csNow) (\<lambda>now. andThen (writeMeta (meta\<lparr>mtSyncedAt := now\<rparr>))
                 (andThen (noteSynced (obKey e) meta) (removeOutbox (obKey e)))))))))
        (\<lambda>_. verInv) verInv"
      by (auto intro!: triple_ret triple_bind [OF readMeta_ver] removeOutbox_ver tail checkBudget_metaIs split: option.split)
  qed
qed

lemma syncKey_ver: "triple verInv (syncKeyLocked env k b) (\<lambda>_. verInv) verInv"
proof -
  have r: "triple verInv (readOutboxEntry k) (\<lambda>_. verInv) verInv"
    unfolding readOutboxEntry_def by (rule triple_ioRead) simp_all
  show ?thesis unfolding syncKeyLocked_def
    by (auto intro!: triple_bind [OF r] triple_ret syncOutboxEntry_ver split: option.split)
qed

lemma queueChange_ver: "triple (storedAt (obKey e) (obVersion e)) (queueChange env e) (\<lambda>_. verInv) verInv"
proof -
  have tail: "triple verInv (if obKey e = brainLockKey then syncKeyLocked env (obKey e) False else signalSync)
      (\<lambda>_. verInv) verInv"
    by (auto intro: syncKey_ver triple_modifyOp simp: signalSync_def)
  show ?thesis
  proof (cases "beRemote env")
    case None
    then show ?thesis by (auto simp: queueChange_def storedAt_def intro: triple_ret)
  next
    case (Some ops)
    show ?thesis unfolding queueChange_def Some
      using triple_then [OF writeOutbox_stored tail] by simp
  qed
qed

lemma store_ver: "triple (\<lambda>s. verInv s \<and> roomLeft s) (cacheStore env k blob) (\<lambda>_. verInv) verInv"
  unfolding cacheStore_def Let_def
proof (rule triple_bind [where R = "\<lambda>_ s. verInv s \<and> roomLeft s"])
  show "triple (\<lambda>s. verInv s \<and> roomLeft s) (readState csStopped) (\<lambda>_ s. verInv s \<and> roomLeft s) verInv"
    by (rule triple_readState)
  fix stopped
  have body: "triple (\<lambda>s. verInv s \<and> roomLeft s) (bindOp reserveVersionLocked (\<lambda>version.
      bindOp (readState csNow) (\<lambda>now.
        andThen (writePayload k (case blob of None \<Rightarrow> [] | Some b \<Rightarrow> b))
        (andThen (writeMeta \<lparr>mtFormat = brainCacheFormat, mtKey = k, mtVersion = version,
            mtChecksum = beChecksum env (case blob of None \<Rightarrow> [] | Some b \<Rightarrow> b), mtDeleted = False,
            mtUpdatedAt = now, mtSyncedAt = 0\<rparr>)
          (queueChange env \<lparr>obKey = k, obVersion = version, obDelete = False\<rparr>))))) (\<lambda>_. verInv) verInv"
    by (rule triple_bind [OF reserve_fresh], rule triple_bind, rule triple_readState, assumption,
        rule triple_then [OF writePayload_fresh],
        rule triple_then [OF writeMeta_fresh [OF brainMeta.simps(3) brainMeta.simps(2)]])
       (use queueChange_ver [of "\<lparr>obKey = k, obVersion = v, obDelete = False\<rparr>" env for v] in simp)
  then show "triple (\<lambda>s. verInv s \<and> roomLeft s) (if stopped then fail BrainStopped
      else bindOp reserveVersionLocked (\<lambda>version. bindOp (readState csNow) (\<lambda>now.
        andThen (writePayload k (case blob of None \<Rightarrow> [] | Some b \<Rightarrow> b))
        (andThen (writeMeta \<lparr>mtFormat = brainCacheFormat, mtKey = k, mtVersion = version,
            mtChecksum = beChecksum env (case blob of None \<Rightarrow> [] | Some b \<Rightarrow> b), mtDeleted = False,
            mtUpdatedAt = now, mtSyncedAt = 0\<rparr>)
          (queueChange env \<lparr>obKey = k, obVersion = version, obDelete = False\<rparr>))))) (\<lambda>_. verInv) verInv"
    by (auto intro: triple_fail)
qed

lemma delete_ver: "triple (\<lambda>s. verInv s \<and> roomLeft s) (cacheDelete env k) (\<lambda>_. verInv) verInv"
  unfolding cacheDelete_def
  by (rule triple_bind [OF reserve_fresh], rule triple_bind, rule triple_readState, assumption,
      rule triple_then [OF removePayload_fresh],
      rule triple_then [OF writeMeta_fresh [OF brainMeta.simps(3) brainMeta.simps(2)]])
     (use queueChange_ver [of "\<lparr>obKey = k, obVersion = v, obDelete = True\<rparr>" env for v] in simp)


subsection \<open>Steps\<close>

inductive cacheStep :: "'r brainEnv \<Rightarrow> 'r cacheState \<Rightarrow> 'r cacheState \<Rightarrow> bool" for env where
  StepStore: "roomLeft s \<Longrightarrow> cacheStore env k blob s = (r, t) \<Longrightarrow> cacheStep env s t"
| StepDelete: "roomLeft s \<Longrightarrow> cacheDelete env k s = (r, t) \<Longrightarrow> cacheStep env s t"
| StepSyncEntry: "syncOutboxEntryLocked env e b s = (r, t) \<Longrightarrow> cacheStep env s t"
| StepSyncKey: "syncKeyLocked env k b s = (r, t) \<Longrightarrow> cacheStep env s t"
| StepClock: "cacheStep env s (s\<lparr>csNow := csNow s + d\<rparr>)"
| StepStop: "cacheStep env s (shutdownWithoutFlush s)"

text \<open>With \<open>faulty\<close>, the disk may start or stop failing at any point.\<close>

inductive cacheRun :: "'r brainEnv \<Rightarrow> bool \<Rightarrow> 'r cacheState \<Rightarrow> 'r cacheState \<Rightarrow> bool" for env faulty s where
  RunStart: "cacheRun env faulty s s"
| RunStep: "cacheRun env faulty s t \<Longrightarrow> cacheStep env t u \<Longrightarrow> cacheRun env faulty s u"
| RunDisk: "faulty \<Longrightarrow> cacheRun env faulty s t \<Longrightarrow> cacheRun env faulty s (t\<lparr>csFaults := fs\<rparr>)"

lemma triple_state: "triple P m (\<lambda>_. Q) Q \<Longrightarrow> P s \<Longrightarrow> m s = (r, t) \<Longrightarrow> Q t"
  by (drule tripleD, assumption, assumption) (simp split: sum.splits)

lemma step_ver: "cacheStep env s t \<Longrightarrow> verInv s \<Longrightarrow> verInv t"
proof (induction rule: cacheStep.induct)
  case (StepStore s k blob r t)
  then show ?case by (intro triple_state [OF store_ver, of s env k blob r t]) auto
next
  case (StepDelete s k r t)
  then show ?case by (intro triple_state [OF delete_ver, of s env k r t]) auto
next
  case (StepSyncEntry e b s r t)
  then show ?case by (intro triple_state [OF syncOutboxEntry_ver, of s env e b r t])
next
  case (StepSyncKey k b s r t)
  then show ?case by (intro triple_state [OF syncKey_ver, of s env k b r t])
qed (simp_all add: shutdownWithoutFlush_def verInv_def)

lemma run_ver: "cacheRun env faulty s t \<Longrightarrow> verInv s \<Longrightarrow> verInv t"
  by (induction rule: cacheRun.induct) (auto intro: step_ver)

subsection \<open>What the remote brain owes\<close>

text \<open>
  A call may fail, with or without effect; a call that reports success had its effect; a read that
  reports success returns what is stored.
\<close>

definition remoteLaws :: "'r remoteOps \<Rightarrow> ('r \<Rightarrow> string \<rightharpoonup> remoteRecord) \<Rightarrow> bool" where
  "remoteLaws ops rview \<longleftrightarrow>
     (\<forall>rec r. rview (snd (roPut ops rec r)) = (rview r)(rrKey rec \<mapsto> rec) \<or>
        (rview (snd (roPut ops rec r)) = rview r \<and> fst (roPut ops rec r) \<noteq> Inr ())) \<and>
     (\<forall>rec r. rview (snd (roDelete ops rec r)) = (rview r)(rrKey rec \<mapsto> rec\<lparr>rrDeleted := True\<rparr>) \<or>
        (rview (snd (roDelete ops rec r)) = rview r \<and> fst (roDelete ops rec r) \<noteq> Inr ())) \<and>
     (\<forall>k r. rview (snd (roGet ops k r)) = rview r \<and>
        (\<forall>found. fst (roGet ops k r) = Inr found \<longrightarrow> found = rview r k))"

definition recordAgrees :: "brainMeta \<Rightarrow> string option \<Rightarrow> remoteRecord \<Rightarrow> bool" where
  "recordAgrees m payload rec \<longleftrightarrow>
     rrKey rec = mtKey m \<and> rrFormat rec = mtFormat m \<and> rrVersion rec = mtVersion m \<and>
     rrDeleted rec = mtDeleted m \<and>
     (\<not> mtDeleted m \<longrightarrow> payload = Some (rrPayload rec) \<and> rrChecksum rec = mtChecksum m)"

definition dataOk ::
    "'r brainEnv \<Rightarrow> string set \<Rightarrow> (string \<rightharpoonup> brainMeta) \<Rightarrow> (string \<rightharpoonup> string) \<Rightarrow> bool" where
  "dataOk env X M D \<longleftrightarrow> (\<forall>n m. n \<notin> X \<longrightarrow> M n = Some m \<longrightarrow> mtFormat m = brainCacheFormat \<and>
     (\<not> mtDeleted m \<longrightarrow> (\<exists>p. D n = Some p \<and> mtChecksum m = beChecksum env p)))"

text \<open>A memory is queued at its current version, or the remote brain has it.\<close>

definition queueOk ::
    "string set \<Rightarrow> (string \<rightharpoonup> brainMeta) \<Rightarrow> (string \<rightharpoonup> outboxEntry) \<Rightarrow> (string \<rightharpoonup> string) \<Rightarrow>
     (string \<rightharpoonup> remoteRecord) \<Rightarrow> bool" where
  "queueOk Y M B D R \<longleftrightarrow> (\<forall>n m. n \<notin> Y \<longrightarrow> M n = Some m \<longrightarrow>
     (case B n of
        Some e \<Rightarrow> obVersion e = mtVersion m
      | None \<Rightarrow> \<exists>rec. R (mtKey m) = Some rec \<and> recordAgrees m (D n) rec))"

definition mirror ::
    "'r brainEnv \<Rightarrow> ('r \<Rightarrow> string \<rightharpoonup> remoteRecord) \<Rightarrow> string set \<Rightarrow> string set \<Rightarrow> 'r cacheState \<Rightarrow> bool" where
  "mirror env rview X Y s \<longleftrightarrow> csFaults s = [] \<and> verInv s \<and>
     dataOk env X (map_of (csMetas s)) (map_of (csData s)) \<and>
     queueOk Y (map_of (csMetas s)) (map_of (csOutbox s)) (map_of (csData s)) (rview (csRemote s))"

lemma dataOk_data: "dataOk env X M D \<Longrightarrow> dataOk env (insert n X) M (D(n := x))"
  by (auto simp: dataOk_def)

lemma dataOk_meta:
  "dataOk env (insert n X) M D \<Longrightarrow> mtFormat m = brainCacheFormat \<Longrightarrow>
   (\<not> mtDeleted m \<longrightarrow> (\<exists>p. D n = Some p \<and> mtChecksum m = beChecksum env p)) \<Longrightarrow> dataOk env X (M(n \<mapsto> m)) D"
  by (auto simp: dataOk_def)

lemma dataOk_touch: "dataOk env X M D \<Longrightarrow> M n = Some m \<Longrightarrow> dataOk env X (M(n \<mapsto> m\<lparr>mtSyncedAt := now\<rparr>)) D"
  unfolding dataOk_def by (auto split: if_splits)

lemma queueOk_data: "queueOk Y M B D R \<Longrightarrow> queueOk (insert n Y) M B (D(n := x)) R"
  unfolding queueOk_def by (simp cong: option.case_cong)

lemma queueOk_meta: "queueOk (insert n Y) M B D R \<Longrightarrow> queueOk (insert n Y) (M(n \<mapsto> m)) B D R"
  unfolding queueOk_def by simp

lemma queueOk_push:
  "queueOk (insert n Y) M B D R \<Longrightarrow> M n = Some m \<Longrightarrow> obVersion e = mtVersion m \<Longrightarrow> queueOk Y M (B(n \<mapsto> e)) D R"
  unfolding queueOk_def by simp

lemma queueOk_drop:
  "queueOk Y M B D R \<Longrightarrow> M n = Some m \<Longrightarrow> R (mtKey m) = Some rec \<Longrightarrow> recordAgrees m (D n) rec \<Longrightarrow>
   queueOk Y M (B(n := None)) D R"
  unfolding queueOk_def by simp

lemma queueOk_touch:
  "queueOk Y M B D R \<Longrightarrow> M n = Some m \<Longrightarrow> queueOk Y (M(n \<mapsto> m\<lparr>mtSyncedAt := now\<rparr>)) B D R"
  unfolding queueOk_def by (auto simp: recordAgrees_def split: option.split)

lemma queueOk_remote:
  "queueOk Y M B D R \<Longrightarrow> (\<And>n m. M n = Some m \<Longrightarrow> n = encodeBrainCacheKey (mtKey m)) \<Longrightarrow>
   B (encodeBrainCacheKey k) \<noteq> None \<Longrightarrow> queueOk Y M B D (R(k \<mapsto> rec))"
  unfolding queueOk_def by (fastforce split: option.splits)

lemma triple_ioOp0:
  "(\<And>s. P s \<Longrightarrow> csFaults s = []) \<Longrightarrow> (\<And>s. P s \<Longrightarrow> Q () (f s)) \<Longrightarrow> triple P (ioOp f) Q E"
  by (auto simp: triple_def ioOp_def)

lemma triple_ioRead0:
  "(\<And>s. P s \<Longrightarrow> csFaults s = []) \<Longrightarrow> (\<And>s. P s \<Longrightarrow> Q (g s) s) \<Longrightarrow> triple P (ioRead g) Q E"
  by (auto simp: triple_def ioRead_def)

text \<open>Two triples of an operation whose first one cannot end in an error state it names.\<close>

lemma triple_conj:
  "triple P m Q E \<Longrightarrow> triple P' m Q' E' \<Longrightarrow> triple (\<lambda>s. P s \<and> P' s) m (\<lambda>x s. Q x s \<and> Q' x s) (\<lambda>s. E s \<and> E' s)"
  unfolding triple_def by (fastforce split: prod.splits sum.splits)

lemma mirror_frame [simp]:
  "mirror env rview X Y (s\<lparr>csControlFile := cf\<rparr>) = mirror env rview X Y s"
  "mirror env rview X Y (s\<lparr>csWake := w\<rparr>) = mirror env rview X Y s"
  "mirror env rview X Y (s\<lparr>csBudget := b\<rparr>) = mirror env rview X Y s"
  "mirror env rview X Y (s\<lparr>csNow := now\<rparr>) = mirror env rview X Y s"
  "mirror env rview X Y (s\<lparr>csStopped := st\<rparr>) = mirror env rview X Y s"
  by (simp_all add: mirror_def verInv_def)

lemma mirror_faults: "mirror env rview X Y s \<Longrightarrow> csFaults s = []"
  by (simp add: mirror_def)

lemma reserve_mirror:
  "triple (\<lambda>s. mirror env rview {} {} s \<and> roomLeft s) reserveVersionLocked
     (\<lambda>v s. mirror env rview {} {} s \<and> freshVersion v s) (mirror env rview {} {})"
proof -
  have "mirror env rview {} {} t \<and> freshVersion v t" if m: "mirror env rview {} {} s" and r: "roomLeft s"
    and e: "reserveVersionLocked s = (Inr v, t)" for s t v
  proof -
    have "verInv s" using m by (simp add: mirror_def)
    with r e have f: "freshVersion v t" using tripleD [OF reserve_fresh, of s] by fastforce
    obtain v' c where "reserveVersionLocked s = (Inr v', s\<lparr>csControl := c, csControlFile := Some c\<rparr>)"
      using reserve_ok [OF mirror_faults [OF m]] by blast
    with e have "t = s\<lparr>csControl := c, csControlFile := Some c\<rparr>" by simp
    with m f show ?thesis by (simp add: mirror_def freshVersion_def)
  qed
  moreover have "\<exists>v t. reserveVersionLocked s = (Inr v, t)" if "mirror env rview {} {} s" for s
    using reserve_ok [OF mirror_faults [OF that]] by blast
  ultimately show ?thesis unfolding triple_def by (metis (mono_tags, lifting) case_prod_conv sum.simps(6))
qed

lemma writePayload_mirror:
  "triple (\<lambda>s. mirror env rview {} {} s \<and> freshVersion v s) (writePayload k b)
     (\<lambda>_ s. mirror env rview {encodeBrainCacheKey k} {encodeBrainCacheKey k} s \<and> freshVersion v s \<and>
        map_of (csData s) (encodeBrainCacheKey k) = Some b) E"
  unfolding writePayload_def
  by (rule triple_ioOp0) (auto simp: mirror_def verInv_def map_of_update intro: dataOk_data queueOk_data)

lemma removePayload_mirror:
  "triple (\<lambda>s. mirror env rview {} {} s \<and> freshVersion v s) (ignoreErr (removePayload k))
     (\<lambda>_ s. mirror env rview {encodeBrainCacheKey k} {encodeBrainCacheKey k} s \<and> freshVersion v s) E"
  unfolding removePayload_def
  by (intro triple_ignoreErr triple_ioOp0) (auto simp: mirror_def verInv_def map_of_delete intro: dataOk_data queueOk_data)

lemma writeMeta_mirror:
  assumes "mtVersion m = v" and "mtKey m = k" and "mtFormat m = brainCacheFormat"
    and "\<not> mtDeleted m \<longrightarrow> mtChecksum m = beChecksum env b"
  shows "triple (\<lambda>s. mirror env rview {encodeBrainCacheKey k} {encodeBrainCacheKey k} s \<and> freshVersion v s \<and>
        (\<not> mtDeleted m \<longrightarrow> map_of (csData s) (encodeBrainCacheKey k) = Some b)) (writeMeta m)
     (\<lambda>_ s. mirror env rview {} {encodeBrainCacheKey k} s \<and> storedAt k v s \<and>
        (\<exists>m. map_of (csMetas s) (encodeBrainCacheKey k) = Some m \<and> mtVersion m = v)) E"
proof -
  let ?P = "\<lambda>s. mirror env rview {encodeBrainCacheKey k} {encodeBrainCacheKey k} s \<and> freshVersion v s \<and>
        (\<not> mtDeleted m \<longrightarrow> map_of (csData s) (encodeBrainCacheKey k) = Some b)"
  have "mirror env rview {} {encodeBrainCacheKey k} t \<and> storedAt k v t \<and>
      (\<exists>m. map_of (csMetas t) (encodeBrainCacheKey k) = Some m \<and> mtVersion m = v)"
    if p: "?P s" and t: "t = s\<lparr>csMetas := AList.update (encodeBrainCacheKey (mtKey m)) m (csMetas s)\<rparr>" for s t
  proof -
    have f: "csFaults s = []" using p by (simp add: mirror_def)
    then have "writeMeta m s = (Inr (), t)" by (simp add: writeMeta_def ioOp_def t)
    with tripleD [OF writeMeta_fresh [OF assms(1,2)], of s] p have st: "storedAt k v t" by fastforce
    moreover have "mirror env rview {} {encodeBrainCacheKey k} t"
      using p st assms unfolding mirror_def
      by (auto simp: t storedAt_def map_of_update intro: dataOk_meta queueOk_meta)
    ultimately show ?thesis using assms by (auto simp: t map_of_update)
  qed
  then show ?thesis unfolding writeMeta_def by (intro triple_ioOp0) (auto simp: mirror_def)
qed

lemma writeOutbox_mirror:
  "triple (\<lambda>s. mirror env rview {} {encodeBrainCacheKey (obKey e)} s \<and> storedAt (obKey e) (obVersion e) s \<and>
      (\<exists>m. map_of (csMetas s) (encodeBrainCacheKey (obKey e)) = Some m \<and> mtVersion m = obVersion e)) (writeOutbox e)
     (\<lambda>_. mirror env rview {} {}) E"
proof -
  have "mirror env rview {} {} t" if p: "mirror env rview {} {encodeBrainCacheKey (obKey e)} s"
    "storedAt (obKey e) (obVersion e) s" "map_of (csMetas s) (encodeBrainCacheKey (obKey e)) = Some m" "mtVersion m = obVersion e"
    and t: "t = s\<lparr>csOutbox := AList.update (encodeBrainCacheKey (obKey e)) e (csOutbox s)\<rparr>" for s t m
  proof -
    have f: "csFaults s = []" using p by (simp add: mirror_def)
    then have "writeOutbox e s = (Inr (), t)" by (simp add: writeOutbox_def ioOp_def t)
    with tripleD [OF writeOutbox_stored, of e s] p have "verInv t" by fastforce
    with p show ?thesis unfolding mirror_def by (auto simp: t map_of_update intro: queueOk_push)
  qed
  then show ?thesis unfolding writeOutbox_def by (intro triple_ioOp0) (auto simp: mirror_def)
qed

subsection \<open>Syncing keeps the mirror\<close>

definition syncing ::
    "'r brainEnv \<Rightarrow> ('r \<Rightarrow> string \<rightharpoonup> remoteRecord) \<Rightarrow> string \<Rightarrow> brainMeta \<Rightarrow> 'r cacheState \<Rightarrow> bool" where
  "syncing env rview k m s \<longleftrightarrow> mirror env rview {} {} s \<and>
     map_of (csMetas s) (encodeBrainCacheKey k) = Some m \<and> map_of (csOutbox s) (encodeBrainCacheKey k) \<noteq> None"

definition pushed ::
    "'r brainEnv \<Rightarrow> ('r \<Rightarrow> string \<rightharpoonup> remoteRecord) \<Rightarrow> string \<Rightarrow> brainMeta \<Rightarrow> 'r cacheState \<Rightarrow> bool" where
  "pushed env rview k m s \<longleftrightarrow> syncing env rview k m s \<and>
     (\<exists>rec. rview (csRemote s) k = Some rec \<and> recordAgrees m (map_of (csData s) (encodeBrainCacheKey k)) rec)"

lemma syncing_mirror: "syncing env rview k m s \<Longrightarrow> mirror env rview {} {} s"
  by (simp add: syncing_def)

lemma pushed_mirror: "pushed env rview k m s \<Longrightarrow> mirror env rview {} {} s"
  by (simp add: pushed_def syncing_def)

lemma mirror_index:
  "mirror env rview X Y s \<Longrightarrow> map_of (csMetas s) n = Some m \<Longrightarrow> n = encodeBrainCacheKey (mtKey m)"
  using versionsOk_meta [of "map_of (csMetas s)"] by (auto simp: mirror_def verInv_def)

lemma mirror_remote:
  assumes "syncing env rview k m s" and "rview r = (rview (csRemote s))(k \<mapsto> rec) \<or> rview r = rview (csRemote s)"
  shows "syncing env rview k m (s\<lparr>csRemote := r\<rparr>)"
proof -
  have m: "mirror env rview {} {} s" and b: "map_of (csOutbox s) (encodeBrainCacheKey k) \<noteq> None"
    using assms(1) by (simp_all add: syncing_def)
  have "queueOk {} (map_of (csMetas s)) (map_of (csOutbox s)) (map_of (csData s)) (rview (csRemote s))"
    using m by (simp add: mirror_def)
  from queueOk_remote [OF this mirror_index [OF m] b] this assms(2)
  have "queueOk {} (map_of (csMetas s)) (map_of (csOutbox s)) (map_of (csData s)) (rview r)" by auto
  with assms(1) show ?thesis by (simp add: syncing_def mirror_def verInv_def)
qed

lemma uploadPut_law:
  assumes "remoteLaws ops rview" and "roPut ops rec r = (x, r')"
  shows "rview r' = (rview r)(rrKey rec \<mapsto> rec) \<or> (rview r' = rview r \<and> x \<noteq> Inr ())"
  using assms unfolding remoteLaws_def by (metis fst_conv snd_conv)

lemma uploadDelete_law:
  assumes "remoteLaws ops rview" and "roDelete ops rec r = (x, r')"
  shows "rview r' = (rview r)(rrKey rec \<mapsto> rec\<lparr>rrDeleted := True\<rparr>) \<or> (rview r' = rview r \<and> x \<noteq> Inr ())"
  using assms unfolding remoteLaws_def by (metis fst_conv snd_conv)

lemma upload_pushed:
  assumes "remoteLaws ops rview"
  shows "triple (syncing env rview k m) (uploadMeta env ops k m) (\<lambda>_. pushed env rview k m) (mirror env rview {} {})"
proof -
  have "case uploadMeta env ops k m s of (Inl e, t) \<Rightarrow> mirror env rview {} {} t | (Inr u, t) \<Rightarrow> pushed env rview k m t"
    if s: "syncing env rview k m s" for s
  proof -
    have mir: "mirror env rview {} {} s" and meta: "map_of (csMetas s) (encodeBrainCacheKey k) = Some m"
      using s by (simp_all add: syncing_def)
    have key: "mtKey m = k" using mirror_index [OF mir meta] by simp
    show ?thesis
    proof (cases "mtDeleted m")
      case True
      obtain x r where d: "roDelete ops (remoteOf m) (csRemote s) = (x, r)" by fastforce
      from uploadDelete_law [OF assms d] have law: "rview r = (rview (csRemote s))(k \<mapsto> (remoteOf m)\<lparr>rrDeleted := True\<rparr>) \<or>
          (rview r = rview (csRemote s) \<and> x \<noteq> Inr ())" by (simp add: remoteOf_def key)
      then have sy: "syncing env rview k m (s\<lparr>csRemote := r\<rparr>)" using mirror_remote [OF s] by blast
      have "pushed env rview k m (s\<lparr>csRemote := r\<rparr>)" if "x = Inr ()"
        using law sy that True key by (auto simp: pushed_def recordAgrees_def remoteOf_def)
      with sy show ?thesis using True d
        by (cases x) (auto simp: uploadMeta_def onRemote_def dest: syncing_mirror)
    next
      case False
      have f: "csFaults s = []" using mir by (rule mirror_faults)
      have "dataOk env {} (map_of (csMetas s)) (map_of (csData s))" using mir by (simp add: mirror_def)
      with meta False obtain p where p: "map_of (csData s) (encodeBrainCacheKey k) = Some p"
        "mtChecksum m = beChecksum env p" by (auto simp: dataOk_def)
      let ?rec = "(remoteOf m)\<lparr>rrPayload := p, rrChecksum := (if mtChecksum m = [] then beChecksum env p else mtChecksum m)\<rparr>"
      obtain x r where d: "roPut ops ?rec (csRemote s) = (x, r)" by fastforce
      from uploadPut_law [OF assms d] have law: "rview r = (rview (csRemote s))(k \<mapsto> ?rec) \<or>
          (rview r = rview (csRemote s) \<and> x \<noteq> Inr ())" by (simp add: remoteOf_def key)
      then have sy: "syncing env rview k m (s\<lparr>csRemote := r\<rparr>)" using mirror_remote [OF s] by blast
      have pu: "pushed env rview k m (s\<lparr>csRemote := r\<rparr>)" if "x = Inr ()"
        using law sy that False key p by (auto simp: pushed_def recordAgrees_def remoteOf_def)
      have "uploadMeta env ops k m s = onRemote (roPut ops ?rec) s"
        using False f p by (simp add: uploadMeta_def cache_run)
      also have "\<dots> = (case x of Inl e \<Rightarrow> (Inl (RemoteError e), s\<lparr>csRemote := r\<rparr>) | Inr u \<Rightarrow> (Inr u, s\<lparr>csRemote := r\<rparr>))"
        using d by (simp add: onRemote_def split: sum.split)
      finally show ?thesis using pu syncing_mirror [OF sy] by (cases x) auto
    qed
  qed
  then show ?thesis by (simp add: triple_def)
qed

lemma budget_syncing:
  assumes "\<And>s. P s \<Longrightarrow> csFaults s = []"
  shows "triple P readWriteBudget (\<lambda>_. P) E"
  unfolding readWriteBudget_def
  by (intro triple_bind [where R = "\<lambda>_. P"] triple_ioRead0 triple_readState triple_ret) (simp_all add: assms)

lemma checkBudget_mirror:
  "triple (syncing env rview k m) (checkCloudWriteBudgetLocked env) (\<lambda>_. syncing env rview k m) (mirror env rview {} {})"
proof -
  have "\<And>s. syncing env rview k m s \<Longrightarrow> csFaults s = []" by (auto dest: syncing_mirror mirror_faults)
  from budget_syncing [OF this] show ?thesis unfolding checkCloudWriteBudgetLocked_def
    by (auto intro!: triple_bind triple_ret triple_fail syncing_mirror)
qed

lemma recordWrite_mirror:
  "triple (pushed env rview k m) (recordCloudWriteLocked env) (\<lambda>_. pushed env rview k m) E"
proof -
  have f: "\<And>s. pushed env rview k m s \<Longrightarrow> csFaults s = []" by (auto dest: pushed_mirror mirror_faults)
  have w: "triple (pushed env rview k m) (writeWriteBudget b) (\<lambda>_. pushed env rview k m) E" for b
    unfolding writeWriteBudget_def by (rule triple_ioOp0) (auto simp: f pushed_def syncing_def)
  from budget_syncing [OF f] w show ?thesis unfolding recordCloudWriteLocked_def
    by (auto intro!: triple_bind triple_ret)
qed

lemma writeSynced_mirror:
  "triple (pushed env rview k m) (writeMeta (m\<lparr>mtSyncedAt := now\<rparr>))
     (\<lambda>_. pushed env rview k (m\<lparr>mtSyncedAt := now\<rparr>)) E"
proof -
  have "pushed env rview k (m\<lparr>mtSyncedAt := now\<rparr>) t" if p: "pushed env rview k m s"
    and t: "t = s\<lparr>csMetas := AList.update (encodeBrainCacheKey (mtKey m)) (m\<lparr>mtSyncedAt := now\<rparr>) (csMetas s)\<rparr>" for s t
  proof -
    have mir: "mirror env rview {} {} s" and meta: "map_of (csMetas s) (encodeBrainCacheKey k) = Some m"
      using p by (simp_all add: pushed_def syncing_def)
    have f: "csFaults s = []" using mir by (rule mirror_faults)
    have key: "mtKey m = k" using mirror_index [OF mir meta] by simp
    have "writeMeta (m\<lparr>mtSyncedAt := now\<rparr>) s = (Inr (), t)" using f by (simp add: writeMeta_def ioOp_def t)
    moreover have "metaIs k m s" using mir meta by (simp add: metaIs_def mirror_def)
    ultimately have "verInv t" using tripleD [OF writeSynced_ver, of k m s now] by fastforce
    with p meta key show ?thesis unfolding pushed_def syncing_def mirror_def
      by (auto simp: t map_of_update recordAgrees_def intro: queueOk_touch dataOk_touch)
  qed
  moreover have "\<And>s. pushed env rview k m s \<Longrightarrow> csFaults s = []" by (auto dest: pushed_mirror mirror_faults)
  ultimately show ?thesis unfolding writeMeta_def by (intro triple_ioOp0) auto
qed


lemma noteSynced_mirror:
  "triple (pushed env rview k m) (noteSynced k' m') (\<lambda>_. pushed env rview k m) E"
proof -
  have f: "\<And>s. pushed env rview k m s \<Longrightarrow> csFaults s = []" by (auto dest: pushed_mirror mirror_faults)
  have w: "triple (pushed env rview k m) writeControl (\<lambda>_. pushed env rview k m) E"
    unfolding writeControl_def by (rule triple_ioOp0) (auto simp: f pushed_def syncing_def)
  have c: "triple (\<lambda>s. pushed env rview k m s \<and> csControl s = c) (setControl (\<lambda>_. c')) (\<lambda>_. pushed env rview k m) E"
    if "bcNextVersion c' = bcNextVersion c" for c c'
    by (rule triple_setControl) (use that in \<open>auto simp: pushed_def syncing_def mirror_def verInv_def\<close>)
  show ?thesis
    unfolding noteSynced_def Let_def
    by (rule triple_bind [where R = "\<lambda>_. pushed env rview k m"], rule triple_readState, assumption,
        rule triple_bind [where R = "\<lambda>c s. pushed env rview k m s \<and> csControl s = c"], rule triple_readState, simp)
       (auto intro!: triple_then [OF c w] triple_ret)
qed

lemma removeOutbox_mirror: "triple (pushed env rview k m) (removeOutbox k) (\<lambda>_. mirror env rview {} {}) E"
proof -
  have "mirror env rview {} {} t" if p: "pushed env rview k m s"
    and t: "t = s\<lparr>csOutbox := AList.delete (encodeBrainCacheKey k) (csOutbox s)\<rparr>" for s t
  proof -
    have mir: "mirror env rview {} {} s" and meta: "map_of (csMetas s) (encodeBrainCacheKey k) = Some m"
      using p by (simp_all add: pushed_def syncing_def)
    have key: "mtKey m = k" using mirror_index [OF mir meta] by simp
    have "removeOutbox k s = (Inr (), t)" using mirror_faults [OF mir] by (simp add: removeOutbox_def ioOp_def t)
    with tripleD [OF removeOutbox_ver, of s k] mir have v: "verInv t" by (fastforce simp: mirror_def)
    from p obtain rec where "rview (csRemote s) (mtKey m) = Some rec"
      "recordAgrees m (map_of (csData s) (encodeBrainCacheKey k)) rec" by (auto simp: pushed_def key)
    with mir meta v show ?thesis unfolding mirror_def by (auto simp: t map_of_delete intro: queueOk_drop)
  qed
  then show ?thesis unfolding removeOutbox_def
    by (intro triple_ioOp0) (auto dest: pushed_mirror mirror_faults)
qed

lemma syncTail_mirror:
  assumes "remoteLaws ops rview"
  shows "triple (syncing env rview k m)
      (andThen (if b then checkCloudWriteBudgetLocked env else ret ())
        (andThen (uploadMeta env ops k m)
        (andThen (recordCloudWriteLocked env)
        (bindOp (readState csNow) (\<lambda>now. andThen (writeMeta (m\<lparr>mtSyncedAt := now\<rparr>))
           (andThen (noteSynced k m) (removeOutbox k)))))))
      (\<lambda>_. mirror env rview {} {}) (mirror env rview {} {})"
proof (rule triple_then)
  show "triple (syncing env rview k m) (if b then checkCloudWriteBudgetLocked env else ret ())
      (\<lambda>_. syncing env rview k m) (mirror env rview {} {})"
    by (auto intro: checkBudget_mirror triple_ret)
  show "triple (syncing env rview k m) (andThen (uploadMeta env ops k m)
        (andThen (recordCloudWriteLocked env)
        (bindOp (readState csNow) (\<lambda>now. andThen (writeMeta (m\<lparr>mtSyncedAt := now\<rparr>))
           (andThen (noteSynced k m) (removeOutbox k))))))
      (\<lambda>_. mirror env rview {} {}) (mirror env rview {} {})"
    by (rule triple_then [OF upload_pushed [OF assms]], rule triple_then [OF recordWrite_mirror],
        rule triple_bind [where R = "\<lambda>_. pushed env rview k m"], rule triple_readState, assumption,
        rule triple_then [OF writeSynced_mirror], rule triple_then [OF noteSynced_mirror], rule removeOutbox_mirror)
qed

lemma syncEntry_mirror:
  assumes "\<And>ops. beRemote env = Some ops \<Longrightarrow> remoteLaws ops rview"
  shows "triple (mirror env rview {} {}) (syncOutboxEntryLocked env e b) (\<lambda>_. mirror env rview {} {}) (mirror env rview {} {})"
proof (cases "beRemote env")
  case None
  then show ?thesis by (simp add: syncOutboxEntryLocked_def triple_ret)
next
  case (Some ops)
  let ?m = "mirror env rview {} {}"
  let ?k = "encodeBrainCacheKey (obKey e)"
  have r: "triple ?m (readOutboxEntry (obKey e)) (\<lambda>found s. ?m s \<and> map_of (csOutbox s) ?k = found) ?m"
    unfolding readOutboxEntry_def by (rule triple_ioRead0) (auto simp: mirror_def)
  have rm: "triple (\<lambda>s. ?m s \<and> map_of (csOutbox s) ?k = Some c) (readMeta (obKey e))
      (\<lambda>found s. case found of None \<Rightarrow> False | Some m \<Rightarrow> syncing env rview (obKey e) m s) ?m" for c
  proof -
    have "\<exists>m. readMeta (obKey e) s = (Inr (Some m), s) \<and> syncing env rview (obKey e) m s"
      if m: "?m s" and o: "map_of (csOutbox s) ?k = Some c" for s
    proof -
      have "versionsOk (map_of (csMetas s)) (map_of (csOutbox s)) (bcNextVersion (csControl s))"
        using m by (simp add: mirror_def verInv_def)
      from versionsOk_outbox [OF this o] obtain meta where meta: "map_of (csMetas s) ?k = Some meta" by blast
      moreover have "mtFormat meta = brainCacheFormat" using m meta by (auto simp: mirror_def dataOk_def)
      ultimately show ?thesis using mirror_faults [OF m] m o by (auto simp: cache_run syncing_def)
    qed
    then show ?thesis by (fastforce simp: triple_def)
  qed
  show ?thesis unfolding syncOutboxEntryLocked_def Some option.case
  proof (rule triple_bind [OF r])
    fix found
    show "triple (\<lambda>s. ?m s \<and> map_of (csOutbox s) ?k = found) (case found of None \<Rightarrow> ret () | Some current \<Rightarrow>
        if obVersion current \<noteq> obVersion e then ret ()
        else bindOp (readMeta (obKey e)) (\<lambda>foundMeta. case foundMeta of None \<Rightarrow> removeOutbox (obKey e)
          | Some meta \<Rightarrow> andThen (if b then checkCloudWriteBudgetLocked env else ret ())
              (andThen (uploadMeta env ops (obKey e) meta)
              (andThen (recordCloudWriteLocked env)
              (bindOp (readState csNow) (\<lambda>now. andThen (writeMeta (meta\<lparr>mtSyncedAt := now\<rparr>))
                 (andThen (noteSynced (obKey e) meta) (removeOutbox (obKey e)))))))))
        (\<lambda>_. ?m) ?m"
    proof (cases found)
      case None
      then show ?thesis by (auto intro: triple_ret)
    next
      case (Some current)
      have "triple (\<lambda>s. ?m s \<and> map_of (csOutbox s) ?k = Some current) (bindOp (readMeta (obKey e)) (\<lambda>foundMeta.
          case foundMeta of None \<Rightarrow> removeOutbox (obKey e)
          | Some meta \<Rightarrow> andThen (if b then checkCloudWriteBudgetLocked env else ret ())
              (andThen (uploadMeta env ops (obKey e) meta)
              (andThen (recordCloudWriteLocked env)
              (bindOp (readState csNow) (\<lambda>now. andThen (writeMeta (meta\<lparr>mtSyncedAt := now\<rparr>))
                 (andThen (noteSynced (obKey e) meta) (removeOutbox (obKey e))))))))) (\<lambda>_. ?m) ?m"
      proof (rule triple_bind [OF rm])
        fix foundMeta
        show "triple (\<lambda>s. case foundMeta of None \<Rightarrow> False | Some m \<Rightarrow> syncing env rview (obKey e) m s)
            (case foundMeta of None \<Rightarrow> removeOutbox (obKey e)
             | Some meta \<Rightarrow> andThen (if b then checkCloudWriteBudgetLocked env else ret ())
              (andThen (uploadMeta env ops (obKey e) meta)
              (andThen (recordCloudWriteLocked env)
              (bindOp (readState csNow) (\<lambda>now. andThen (writeMeta (meta\<lparr>mtSyncedAt := now\<rparr>))
                 (andThen (noteSynced (obKey e) meta) (removeOutbox (obKey e)))))))) (\<lambda>_. ?m) ?m"
          using syncTail_mirror [OF assms [OF \<open>beRemote env = Some ops\<close>]]
          by (cases foundMeta) (simp_all add: triple_def)
      qed
      then show ?thesis using Some by (auto intro: triple_ret)
    qed
  qed
qed


lemma syncKey_mirror:
  assumes "\<And>ops. beRemote env = Some ops \<Longrightarrow> remoteLaws ops rview"
  shows "triple (mirror env rview {} {}) (syncKeyLocked env k b) (\<lambda>_. mirror env rview {} {}) (mirror env rview {} {})"
proof -
  have r: "triple (mirror env rview {} {}) (readOutboxEntry k) (\<lambda>_. mirror env rview {} {}) (mirror env rview {} {})"
    unfolding readOutboxEntry_def by (rule triple_ioRead0) (auto simp: mirror_def)
  show ?thesis unfolding syncKeyLocked_def
    by (rule triple_bind [OF r]) (auto intro: triple_ret syncEntry_mirror [OF assms] split: option.split)
qed

lemma queueChange_mirror:
  assumes laws: "\<And>ops. beRemote env = Some ops \<Longrightarrow> remoteLaws ops rview" and remote: "beRemote env \<noteq> None"
  shows "triple (\<lambda>s. mirror env rview {} {encodeBrainCacheKey (obKey e)} s \<and> storedAt (obKey e) (obVersion e) s \<and>
      (\<exists>m. map_of (csMetas s) (encodeBrainCacheKey (obKey e)) = Some m \<and> mtVersion m = obVersion e)) (queueChange env e)
     (\<lambda>_. mirror env rview {} {}) (mirror env rview {} {})"
proof -
  have "triple (mirror env rview {} {}) (if obKey e = brainLockKey then syncKeyLocked env (obKey e) False else signalSync)
      (\<lambda>_. mirror env rview {} {}) (mirror env rview {} {})"
    by (auto intro: syncKey_mirror [OF laws] triple_modifyOp simp: signalSync_def)
  from triple_then [OF writeOutbox_mirror this, of e] remote show ?thesis by (auto simp: queueChange_def)
qed

lemma store_mirror:
  assumes "\<And>ops. beRemote env = Some ops \<Longrightarrow> remoteLaws ops rview" and "beRemote env \<noteq> None"
  shows "triple (\<lambda>s. mirror env rview {} {} s \<and> roomLeft s) (cacheStore env k blob)
     (\<lambda>_. mirror env rview {} {}) (mirror env rview {} {})"
proof -
  let ?p = "case blob of None \<Rightarrow> [] | Some b \<Rightarrow> b"
  let ?meta = "\<lambda>v now. \<lparr>mtFormat = brainCacheFormat, mtKey = k, mtVersion = v, mtChecksum = beChecksum env ?p,
      mtDeleted = False, mtUpdatedAt = now, mtSyncedAt = 0\<rparr>"
  have tail: "triple (\<lambda>s. mirror env rview {} {} s \<and> freshVersion v s)
      (andThen (writePayload k ?p) (andThen (writeMeta (?meta v now))
        (queueChange env \<lparr>obKey = k, obVersion = v, obDelete = False\<rparr>)))
      (\<lambda>_. mirror env rview {} {}) (mirror env rview {} {})" for v now
    by (rule triple_then [OF writePayload_mirror], rule triple_then,
        rule triple_conseq [OF writeMeta_mirror [of "?meta v now" v k env ?p rview]])
       (use queueChange_mirror [OF assms, of "\<lparr>obKey = k, obVersion = v, obDelete = False\<rparr>"] in auto)
  have "triple (\<lambda>s. mirror env rview {} {} s \<and> roomLeft s)
      (bindOp reserveVersionLocked (\<lambda>v. bindOp (readState csNow) (\<lambda>now.
        andThen (writePayload k ?p) (andThen (writeMeta (?meta v now))
        (queueChange env \<lparr>obKey = k, obVersion = v, obDelete = False\<rparr>)))))
      (\<lambda>_. mirror env rview {} {}) (mirror env rview {} {})"
    by (rule triple_bind [OF reserve_mirror], rule triple_bind, rule triple_readState, assumption, rule tail)
  then show ?thesis unfolding cacheStore_def Let_def
    by (intro triple_bind [where R = "\<lambda>_ s. mirror env rview {} {} s \<and> roomLeft s"] triple_readState)
       (auto intro: triple_fail)
qed

lemma delete_mirror:
  assumes "\<And>ops. beRemote env = Some ops \<Longrightarrow> remoteLaws ops rview" and "beRemote env \<noteq> None"
  shows "triple (\<lambda>s. mirror env rview {} {} s \<and> roomLeft s) (cacheDelete env k)
     (\<lambda>_. mirror env rview {} {}) (mirror env rview {} {})"
proof -
  let ?meta = "\<lambda>v now. \<lparr>mtFormat = brainCacheFormat, mtKey = k, mtVersion = v, mtChecksum = [],
      mtDeleted = True, mtUpdatedAt = now, mtSyncedAt = 0\<rparr>"
  have tail: "triple (\<lambda>s. mirror env rview {} {} s \<and> freshVersion v s)
      (andThen (ignoreErr (removePayload k)) (andThen (writeMeta (?meta v now))
        (queueChange env \<lparr>obKey = k, obVersion = v, obDelete = True\<rparr>)))
      (\<lambda>_. mirror env rview {} {}) (mirror env rview {} {})" for v now
    by (rule triple_then [OF removePayload_mirror], rule triple_then,
        rule triple_conseq [OF writeMeta_mirror [of "?meta v now" v k env "[]" rview]])
       (use queueChange_mirror [OF assms, of "\<lparr>obKey = k, obVersion = v, obDelete = True\<rparr>"] in auto)
  show ?thesis unfolding cacheDelete_def
    by (rule triple_bind [OF reserve_mirror], rule triple_bind, rule triple_readState, assumption, rule tail)
qed

lemma step_mirror:
  assumes "cacheStep env s t" and "mirror env rview {} {} s"
    and "\<And>ops. beRemote env = Some ops \<Longrightarrow> remoteLaws ops rview" and "beRemote env \<noteq> None"
  shows "mirror env rview {} {} t"
  using assms(1,2)
proof (induction rule: cacheStep.induct)
  case (StepStore s k blob r t)
  then show ?case using triple_state [OF store_mirror [OF assms(3,4)] _ StepStore(2)] by simp
next
  case (StepDelete s k r t)
  then show ?case using triple_state [OF delete_mirror [OF assms(3,4)] _ StepDelete(2)] by simp
next
  case (StepSyncEntry e b s r t)
  then show ?case using triple_state [OF syncEntry_mirror [OF assms(3)] _ StepSyncEntry(1)] by simp
next
  case (StepSyncKey k b s r t)
  then show ?case using triple_state [OF syncKey_mirror [OF assms(3)] _ StepSyncKey(1)] by simp
qed (simp_all add: shutdownWithoutFlush_def)

lemma run_mirror:
  assumes "cacheRun env False s t" and "mirror env rview {} {} s"
    and "\<And>ops. beRemote env = Some ops \<Longrightarrow> remoteLaws ops rview" and "beRemote env \<noteq> None"
  shows "mirror env rview {} {} t"
  using assms(1,2) by (induction rule: cacheRun.induct) (auto intro: step_mirror [OF _ _ assms(3,4)])


subsection \<open>A remote brain to run on\<close>

text \<open>The remote brain of bot/brain_cache_test.go: a map of records.\<close>

type_synonym testRemoteBrain = "(string \<times> remoteRecord) list"

definition testRemoteOps :: "testRemoteBrain remoteOps" where
  "testRemoteOps =
     \<lparr>roGet = (\<lambda>k r. (Inr (map_of r k), r)),
      roPut = (\<lambda>rec r. (Inr (), AList.update (rrKey rec) rec r)),
      roDelete = (\<lambda>rec r. (Inr (), AList.update (rrKey rec) (rec\<lparr>rrDeleted := True\<rparr>) r)),
      roListMetadata = (\<lambda>cursor limit r.
        (Inr \<lparr>rpRecords = map (\<lambda>(k, rec). rec\<lparr>rrPayload := []\<rparr>) (sort_key fst r), rpNextCursor = []\<rparr>, r))\<rparr>"

lemma testRemote_laws: "remoteLaws testRemoteOps map_of"
  by (simp add: remoteLaws_def testRemoteOps_def map_of_update)

definition testEnv :: "testRemoteBrain brainEnv" where
  "testEnv = \<lparr>beRemote = Some testRemoteOps, bePolicy = \<lparr>spWriteBudgetPerDay = 0, spMinWriteInterval = 0,
     spCoalesceWindow = 2, spFlushMax = 10, spVerifyRetries = 0, spVerifyDelay = 0\<rparr>, beChecksum = (\<lambda>p. ''h'' @ p)\<rparr>"

definition testCache :: "testRemoteBrain \<Rightarrow> bool list \<Rightarrow> testRemoteBrain cacheState" where
  "testCache r faults = \<lparr>csControl = freshControl True [] ''n'' 0, csControlFile = Some (freshControl True [] ''n'' 0),
     csMetas = [], csData = [], csOutbox = [], csBudget = None, csStopped = False, csWake = False,
     csFaults = faults, csNow = 5, csNonces = [''m''], csRemote = r\<rparr>"

lemma empty_ver: "csMetas s = [] \<Longrightarrow> csOutbox s = [] \<Longrightarrow> verInv s"
  by (simp add: verInv_def versionsOk_def)

lemma empty_mirror: "csMetas s = [] \<Longrightarrow> csOutbox s = [] \<Longrightarrow> csFaults s = [] \<Longrightarrow> mirror env rview {} {} s"
  by (simp add: mirror_def empty_ver dataOk_def queueOk_def)

text \<open>
  C9. Starting from an empty cache, whatever is stored, deleted and synced in whatever order and
  whichever disk accesses fail, no two memories ever have the same version, every version is below
  the next one, and nothing is queued for the remote brain without metadata at least as new.
\<close>

theorem run_versions:
  assumes "cacheRun env True s t" and "csMetas s = []" and "csOutbox s = []"
  shows "versionsOk (map_of (csMetas t)) (map_of (csOutbox t)) (bcNextVersion (csControl t))"
  using run_ver [OF assms(1) empty_ver [OF assms(2,3)]] by (simp add: verInv_def)

lemma testRun: "cacheRun testEnv faulty (testCache r fs) (snd (cacheStore testEnv ''a'' (Some ''1'') (testCache r fs)))"
proof (rule RunStep [OF RunStart StepStore])
  show "roomLeft (testCache r fs)" by (simp add: roomLeft_def testCache_def freshControl_def)
  show "cacheStore testEnv ''a'' (Some ''1'') (testCache r fs) =
      (fst (cacheStore testEnv ''a'' (Some ''1'') (testCache r fs)), snd (cacheStore testEnv ''a'' (Some ''1'') (testCache r fs)))"
    by simp
qed

theorem run_versions_witness:
  "versionsOk (map_of (csMetas (snd (cacheStore testEnv ''a'' (Some ''1'') (testCache [] [False, True])))))
     (map_of (csOutbox (snd (cacheStore testEnv ''a'' (Some ''1'') (testCache [] [False, True])))))
     (bcNextVersion (csControl (snd (cacheStore testEnv ''a'' (Some ''1'') (testCache [] [False, True])))))"
  by (rule run_versions [OF testRun]) (simp_all add: testCache_def)

text \<open>
  C10. Starting from an empty cache, with a disk that works and a remote brain whose calls may fail
  at any time, every memory is either queued at exactly its current version or held by the remote
  brain with the same version, deletion mark, payload and checksum: no change is ever lost on the
  way, whatever the interleaving.
\<close>

theorem queued_or_synced:
  assumes "cacheRun env False s t" and "csMetas s = []" and "csOutbox s = []" and "csFaults s = []"
    and "beRemote env = Some ops" and "remoteLaws ops rview"
    and "map_of (csMetas t) (encodeBrainCacheKey k) = Some m"
  shows "(\<exists>e. map_of (csOutbox t) (encodeBrainCacheKey k) = Some e \<and> obVersion e = mtVersion m) \<or>
    (\<exists>rec. rview (csRemote t) k = Some rec \<and> recordAgrees m (map_of (csData t) (encodeBrainCacheKey k)) rec)"
proof -
  have mir: "mirror env rview {} {} t"
    by (rule run_mirror [OF assms(1) empty_mirror [OF assms(2-4)]]) (use assms in auto)
  have "mtKey m = k" using mirror_index [OF mir assms(7)] by simp
  then show ?thesis using mir assms(7)
    by (auto simp: mirror_def queueOk_def split: option.splits dest!: spec [of _ "encodeBrainCacheKey k"])
qed

theorem queued_or_synced_witness:
  "(\<exists>e. map_of (csOutbox (snd (cacheStore testEnv ''a'' (Some ''1'') (testCache [] [])))) (encodeBrainCacheKey ''a'') = Some e \<and>
      obVersion e = 1) \<or>
    (\<exists>rec. map_of (csRemote (snd (cacheStore testEnv ''a'' (Some ''1'') (testCache [] [])))) ''a'' = Some rec \<and>
      recordAgrees \<lparr>mtFormat = brainCacheFormat, mtKey = ''a'', mtVersion = 1, mtChecksum = ''h1'',
        mtDeleted = False, mtUpdatedAt = 5, mtSyncedAt = 0\<rparr> 
        (map_of (csData (snd (cacheStore testEnv ''a'' (Some ''1'') (testCache [] [])))) (encodeBrainCacheKey ''a'')) rec)"
proof -
  have "map_of (csMetas (snd (cacheStore testEnv ''a'' (Some ''1'') (testCache [] [])))) (encodeBrainCacheKey ''a'') =
     Some \<lparr>mtFormat = brainCacheFormat, mtKey = ''a'', mtVersion = 1, mtChecksum = ''h1'',
        mtDeleted = False, mtUpdatedAt = 5, mtSyncedAt = 0\<rparr>" by code_simp
  from queued_or_synced [OF testRun _ _ _ _ testRemote_laws this]
  show ?thesis by (simp add: testCache_def testEnv_def)
qed

end
