(* ===== verification/BrainCacheSync.thy ===== *)
theory BrainCacheSync
  imports BrainCacheInv
begin

text \<open>
  Pushing to and pulling from the remote brain (bot/brain_cache.go): \<open>Flush\<close> ends and leaves
  nothing queued, a used-up write budget stops background syncs, hydration rebuilds exactly the
  remote brain. The failures that are not recovered from are shown on concrete runs: a store or a
  delete that fails half way, and a version whose reservation was not persisted.
\<close>

subsection \<open>Directories hold one file per name\<close>

definition filesDistinct :: "'r cacheState \<Rightarrow> bool" where
  "filesDistinct s \<longleftrightarrow> distinct (map fst (csMetas s)) \<and> distinct (map fst (csOutbox s))"

lemma keeps_ioOp [inv_intro]:
  assumes "\<And>s fs. P s \<Longrightarrow> P (s\<lparr>csFaults := fs\<rparr>)" and "\<And>s. P s \<Longrightarrow> P (f s)"
  shows "keeps P (ioOp f)"
  using assms by (auto simp: keeps_def ioOp_def split: list.split)

lemma keeps_ioRead [inv_intro]: "(\<And>s fs. P s \<Longrightarrow> P (s\<lparr>csFaults := fs\<rparr>)) \<Longrightarrow> keeps P (ioRead g)"
  by (auto simp: keeps_def ioRead_def split: list.split)

lemma keeps_readState [inv_intro]: "keeps P (readState g)"
  by (simp add: keeps_def readState_def)

lemma keeps_ignoreErr [inv_intro]: "keeps P m \<Longrightarrow> keeps P (ignoreErr m)"
  by (simp add: keeps_def ignoreErr_def)

lemma keeps_onRemote [inv_intro]: "(\<And>s r. P s \<Longrightarrow> P (s\<lparr>csRemote := r\<rparr>)) \<Longrightarrow> keeps P (onRemote f)"
  by (auto simp: keeps_def onRemote_def split: prod.split sum.split)

lemma keeps_setControl [inv_intro]: "(\<And>s c. P s \<Longrightarrow> P (s\<lparr>csControl := c\<rparr>)) \<Longrightarrow> keeps P (setControl f)"
  by (simp add: setControl_def keeps_modifyOp)

lemma filesDistinct_frame [simp]:
  "filesDistinct (s\<lparr>csFaults := fs\<rparr>) = filesDistinct s" "filesDistinct (s\<lparr>csRemote := r\<rparr>) = filesDistinct s"
  "filesDistinct (s\<lparr>csControl := c\<rparr>) = filesDistinct s" "filesDistinct (s\<lparr>csControlFile := cf\<rparr>) = filesDistinct s"
  "filesDistinct (s\<lparr>csData := d\<rparr>) = filesDistinct s" "filesDistinct (s\<lparr>csBudget := b\<rparr>) = filesDistinct s"
  "filesDistinct (s\<lparr>csNow := n\<rparr>) = filesDistinct s" "filesDistinct (s\<lparr>csWake := w\<rparr>) = filesDistinct s"
  "filesDistinct (s\<lparr>csStopped := st\<rparr>) = filesDistinct s"
  by (simp_all add: filesDistinct_def)

lemma keeps_files_prim [inv_intro]:
  "keeps filesDistinct writeControl" "keeps filesDistinct (writePayload k p)" "keeps filesDistinct (removePayload k)"
  "keeps filesDistinct (readPayload k)" "keeps filesDistinct (writeMeta m)" "keeps filesDistinct (writeOutbox e)"
  "keeps filesDistinct (removeOutbox k)" "keeps filesDistinct (readOutboxEntry k)" "keeps filesDistinct signalSync"
  "keeps filesDistinct (writeWriteBudget b)"
  unfolding writeControl_def writePayload_def removePayload_def readPayload_def writeMeta_def writeOutbox_def
    removeOutbox_def readOutboxEntry_def signalSync_def writeWriteBudget_def
  by (intro inv_intro; simp add: filesDistinct_def distinct_update distinct_delete)+

lemma keeps_files_sync [inv_intro]: "keeps filesDistinct (syncOutboxEntryLocked env e b)"
proof -
  have rm: "keeps filesDistinct (readMeta k)" for k
    unfolding readMeta_def readMetaFile_def
    by (intro inv_intro) (auto intro!: inv_intro split: option.split)
  have bud: "keeps filesDistinct readWriteBudget"
    unfolding readWriteBudget_def by (intro inv_intro) simp
  have chk: "keeps filesDistinct (checkCloudWriteBudgetLocked env)"
    unfolding checkCloudWriteBudgetLocked_def by (auto intro!: inv_intro bud)
  have rec: "keeps filesDistinct (recordCloudWriteLocked env)"
    unfolding recordCloudWriteLocked_def by (auto intro!: inv_intro bud)
  have up: "keeps filesDistinct (uploadMeta env ops k m)" for ops k m
    unfolding uploadMeta_def by (auto intro!: inv_intro split: option.split)
  have nts: "keeps filesDistinct (noteSynced k m)" for k m
    unfolding noteSynced_def Let_def by (auto intro!: inv_intro)
  show ?thesis unfolding syncOutboxEntryLocked_def
    by (auto intro!: inv_intro rm chk rec up nts split: option.split)
qed

lemma keeps_files_syncKey [inv_intro]: "keeps filesDistinct (syncKeyLocked env k b)"
  unfolding syncKeyLocked_def by (auto intro!: inv_intro split: option.split)

lemma keeps_files_reserve [inv_intro]: "keeps filesDistinct reserveVersionLocked"
  unfolding reserveVersionLocked_def Let_def by (auto intro!: inv_intro)

lemma keeps_files_queue [inv_intro]: "keeps filesDistinct (queueChange env e)"
  unfolding queueChange_def by (auto intro!: inv_intro)

lemma keeps_files_store: "keeps filesDistinct (cacheStore env k blob)"
  unfolding cacheStore_def Let_def by (auto intro!: inv_intro)

lemma keeps_files_delete: "keeps filesDistinct (cacheDelete env k)"
  unfolding cacheDelete_def by (auto intro!: inv_intro)

lemma step_files: "cacheStep env s t \<Longrightarrow> filesDistinct s \<Longrightarrow> filesDistinct t"
proof (induction rule: cacheStep.induct)
  case (StepStore s k blob r t)
  then show ?case using keepsD [OF keeps_files_store, of s env k blob] by simp
next
  case (StepDelete s k r t)
  then show ?case using keepsD [OF keeps_files_delete, of s env k] by simp
next
  case (StepSyncEntry e b s r t)
  then show ?case using keepsD [OF keeps_files_sync, of s env e b] by simp
next
  case (StepSyncKey k b s r t)
  then show ?case using keepsD [OF keeps_files_syncKey, of s env k b] by simp
qed (simp_all add: shutdownWithoutFlush_def)

lemma run_files: "cacheRun env faulty s t \<Longrightarrow> filesDistinct s \<Longrightarrow> filesDistinct t"
  by (induction rule: cacheRun.induct) (auto intro: step_files)


subsection \<open>Flush\<close>

definition remoteUp :: "'r remoteOps \<Rightarrow> bool" where
  "remoteUp ops \<longleftrightarrow> (\<forall>rec r. fst (roPut ops rec r) = Inr () \<and> fst (roDelete ops rec r) = Inr ())"

lemma upload_up:
  assumes "remoteUp ops" and "csFaults s = []" and "\<not> mtDeleted m \<longrightarrow> map_of (csData s) (encodeBrainCacheKey k) \<noteq> None"
  shows "\<exists>r. uploadMeta env ops k m s = (Inr (), s\<lparr>csRemote := r\<rparr>)"
proof -
  have p: "\<exists>r'. roPut ops rec r = (Inr (), r')" and d: "\<exists>r'. roDelete ops rec r = (Inr (), r')" for rec r
    using assms(1) unfolding remoteUp_def by (metis surjective_pairing)+
  show ?thesis
  proof (cases "mtDeleted m")
    case True
    then show ?thesis using d [of "remoteOf m" "csRemote s"] by (auto simp: uploadMeta_def onRemote_def)
  next
    case False
    with assms(3) obtain b where b: "map_of (csData s) (encodeBrainCacheKey k) = Some b" by auto
    let ?rec = "(remoteOf m)\<lparr>rrPayload := b, rrChecksum := (if mtChecksum m = [] then beChecksum env b else mtChecksum m)\<rparr>"
    have "uploadMeta env ops k m s = onRemote (roPut ops ?rec) s"
      using False assms(2) b by (simp add: uploadMeta_def cache_run)
    then show ?thesis using p [of ?rec "csRemote s"] by (auto simp: onRemote_def)
  qed
qed

lemma recordWrite_up: "csFaults s = [] \<Longrightarrow> \<exists>b. recordCloudWriteLocked env s = (Inr (), s\<lparr>csBudget := b\<rparr>)"
proof (cases "spWriteBudgetPerDay (bePolicy env) \<le> 0")
  case True
  have "s = s\<lparr>csBudget := csBudget s\<rparr>" by simp
  then have "recordCloudWriteLocked env s = (Inr (), s\<lparr>csBudget := csBudget s\<rparr>)"
    using True by (simp add: recordCloudWriteLocked_def ret_def)
  then show ?thesis by blast
qed (auto simp: recordCloudWriteLocked_def readWriteBudget_def writeWriteBudget_def cache_run)

lemma noteSynced_up:
  "csFaults s = [] \<Longrightarrow> \<exists>c cf. noteSynced k m s = (Inr (), s\<lparr>csControl := c, csControlFile := cf\<rparr>)"
proof -
  assume f: "csFaults s = []"
  show ?thesis
  proof (cases "k \<noteq> brainLockKey \<or> bcCheckpointVers (csControl s) \<le> mtVersion m")
    case True
    let ?c = "(checkpointAt k m (if k \<noteq> brainLockKey
        then (csControl s)\<lparr>bcLastCloudWrite := Some \<lparr>cwKey = mtKey m, cwVersion = mtVersion m, cwChecksum = mtChecksum m,
          cwDeleted = mtDeleted m, cwUpdatedAt = mtUpdatedAt m, cwSyncedAt = csNow s\<rparr>\<rparr>
        else csControl s))\<lparr>bcUpdatedAt := csNow s\<rparr>"
    have "noteSynced k m s = (Inr (), s\<lparr>csControl := ?c, csControlFile := Some ?c\<rparr>)"
      using f True by (simp add: noteSynced_def cache_run Let_def)
    then show ?thesis by blast
  next
    case False
    then have "noteSynced k m s = (Inr (), s\<lparr>csControl := csControl s, csControlFile := csControlFile s\<rparr>)"
      by (simp add: noteSynced_def cache_run Let_def)
    then show ?thesis by blast
  qed
qed

lemma syncKey_done:
  assumes mir: "mirror env rview {} {} s" and ops: "beRemote env = Some ops" "remoteUp ops"
    and e: "map_of (csOutbox s) (encodeBrainCacheKey k) = Some e"
  shows "\<exists>u. syncKeyLocked env k False s = (Inr (), u) \<and>
    csOutbox u = AList.delete (encodeBrainCacheKey k) (csOutbox s) \<and> cacheView u = cacheView s"
proof -
  have f: "csFaults s = []" using mir by (rule mirror_faults)
  have v: "versionsOk (map_of (csMetas s)) (map_of (csOutbox s)) (bcNextVersion (csControl s))"
    using mir by (simp add: mirror_def verInv_def)
  from versionsOk_outbox [OF v e] obtain m where
    k0: "encodeBrainCacheKey k = encodeBrainCacheKey (obKey e)" and
    m: "map_of (csMetas s) (encodeBrainCacheKey k) = Some m" by blast
  from k0 have k: "obKey e = k" by simp
  have key: "mtKey m = k" using versionsOk_meta [OF v m] by simp
  have "dataOk env {} (map_of (csMetas s)) (map_of (csData s))" using mir by (simp add: mirror_def)
  with m have d: "mtFormat m = brainCacheFormat"
    "\<not> mtDeleted m \<longrightarrow> map_of (csData s) (encodeBrainCacheKey k) \<noteq> None" by (auto simp: dataOk_def)
  obtain r where up: "uploadMeta env ops k m s = (Inr (), s\<lparr>csRemote := r\<rparr>)" using upload_up [OF ops(2) f d(2)] by blast
  obtain b where rw: "recordCloudWriteLocked env (s\<lparr>csRemote := r\<rparr>) = (Inr (), s\<lparr>csRemote := r, csBudget := b\<rparr>)"
    using recordWrite_up [of "s\<lparr>csRemote := r\<rparr>" env] f by auto
  let ?m = "m\<lparr>mtSyncedAt := csNow s\<rparr>"
  let ?t = "s\<lparr>csRemote := r, csBudget := b, csMetas := AList.update (encodeBrainCacheKey k) ?m (csMetas s)\<rparr>"
  obtain c cf where nt: "noteSynced k m ?t = (Inr (), ?t\<lparr>csControl := c, csControlFile := cf\<rparr>)"
    using noteSynced_up [of ?t k m] f by auto
  let ?u = "?t\<lparr>csControl := c, csControlFile := cf, csOutbox := AList.delete (encodeBrainCacheKey k) (csOutbox s)\<rparr>"
  have "syncKeyLocked env k False s = (Inr (), ?u)"
    using f e k m d(1) key up rw nt ops(1)
    unfolding syncKeyLocked_def syncOutboxEntryLocked_def by (simp add: cache_run)
  moreover have "cacheView ?u = cacheView s"
    by (rule ext) (use m in \<open>auto simp: cacheView_def map_of_update split: option.split\<close>)
  ultimately show ?thesis by (intro exI [of _ ?u]) simp
qed

lemma passTime_fields [simp]:
  "csOutbox (passTime d s) = csOutbox s" "csFaults (passTime d s) = csFaults s"
  "mirror env rview X Y (passTime d s) = mirror env rview X Y s"
  "cacheView (passTime d s) = cacheView s" "csRemote (passTime d s) = csRemote s"
  "filesDistinct (passTime d s) = filesDistinct s"
  by (simp_all add: passTime_def) (rule ext, simp add: cacheView_def split: option.split)

lemma flush_done:
  "length (csOutbox s) \<le> fuel \<Longrightarrow> mirror env rview {} {} s \<Longrightarrow> filesDistinct s \<Longrightarrow>
   beRemote env = Some ops \<Longrightarrow> remoteUp ops \<Longrightarrow> remoteLaws ops rview \<Longrightarrow>
   \<exists>u. flush (Suc fuel) env s = Some u \<and> csOutbox u = [] \<and> mirror env rview {} {} u \<and> cacheView u = cacheView s"
proof (induction fuel arbitrary: s)
  case 0
  then have "csOutbox s = []" "csFaults s = []" by (auto dest: mirror_faults)
  with 0 show ?case by (simp add: nextOutboxEntry_def outboxEntries_def cache_run)
next
  case (Suc fuel)
  note f = mirror_faults [OF Suc.prems(2)]
  show ?case
  proof (cases "csOutbox s = []")
    case True
    with f Suc.prems show ?thesis by (simp add: nextOutboxEntry_def outboxEntries_def cache_run)
  next
    case False
    let ?es = "sort_key (\<lambda>entry. (obVersion entry, obKey entry)) (map snd (csOutbox s))"
    have "length ?es \<noteq> 0" using False by simp
    then obtain e es where es: "?es = e # es" by (cases ?es) auto
    have "set ?es = set (map snd (csOutbox s))" by simp
    then have "e \<in> set (map snd (csOutbox s))" unfolding es by auto
    then obtain n where n: "(n, e) \<in> set (csOutbox s)" by auto
    then have lk: "map_of (csOutbox s) n = Some e" using Suc.prems(3) by (simp add: filesDistinct_def)
    have "versionsOk (map_of (csMetas s)) (map_of (csOutbox s)) (bcNextVersion (csControl s))"
      using Suc.prems(2) by (simp add: mirror_def verInv_def)
    from versionsOk_outbox [OF this lk] have ne: "n = encodeBrainCacheKey (obKey e)" by blast
    with lk have lk': "map_of (csOutbox s) (encodeBrainCacheKey (obKey e)) = Some e" by simp
    from syncKey_done [OF Suc.prems(2,4,5) lk'] obtain u where
      u: "syncKeyLocked env (obKey e) False s = (Inr (), u)"
      "csOutbox u = AList.delete (encodeBrainCacheKey (obKey e)) (csOutbox s)" "cacheView u = cacheView s" by blast
    have nx: "nextOutboxEntry s = (Inr (Some e), s)"
      using f es by (simp add: nextOutboxEntry_def outboxEntries_def cache_run)
    let ?v = "passTime (spMinWriteInterval (bePolicy env)) u"
    have mu: "mirror env rview {} {} u"
      using triple_state [OF syncKey_mirror Suc.prems(2) u(1)] Suc.prems(4,6) by auto
    have fu: "filesDistinct u" using keepsD [OF keeps_files_syncKey Suc.prems(3), of env "obKey e" False] u(1) by simp
    have "length (csOutbox u) < length (csOutbox s)"
    proof -
      have "length (AList.delete n (csOutbox s)) < length (csOutbox s)"
        using n unfolding AList.delete_eq by (intro length_filter_less) auto
      then show ?thesis by (simp add: u(2) ne)
    qed
    then have "length (csOutbox ?v) \<le> fuel" using Suc.prems(1) by simp
    from Suc.IH [OF this] mu fu Suc.prems(4-6) obtain w where
      "flush (Suc fuel) env ?v = Some w" "csOutbox w = []" "mirror env rview {} {} w" "cacheView w = cacheView s"
      using u(3) by auto
    then show ?thesis using Suc.prems(4) by (simp add: nx u(1))
  qed
qed


text \<open>
  C17. Flush ends, on a disk that does not fail. When a cache was reached from an empty one with no disk
  failure on the way or ahead, by any interleaving with a remote that failed at will, and from now on
  every call of the remote succeeds, flushing its \<open>n\<close> queued changes takes at most \<open>n + 1\<close> turns, empties
  the queue, and leaves the remote brain with the current version of every memory, without changing what
  the robot remembers. One failed disk write is enough to break this (lemma \<open>half_delete_blocks_flush\<close>).
\<close>

theorem flush_converges:
  assumes "cacheRun env False s t" and "csMetas s = []" and "csOutbox s = []" and "csFaults s = []"
    and "beRemote env = Some ops" and "remoteLaws ops rview" and "remoteUp ops"
  shows "\<exists>u. flush (Suc (length (csOutbox t))) env t = Some u \<and> csOutbox u = [] \<and> cacheView u = cacheView t \<and>
    (\<forall>k m. map_of (csMetas u) (encodeBrainCacheKey k) = Some m \<longrightarrow>
       (\<exists>rec. rview (csRemote u) k = Some rec \<and> recordAgrees m (map_of (csData u) (encodeBrainCacheKey k)) rec))"
proof -
  have mir: "mirror env rview {} {} t"
    by (rule run_mirror [OF assms(1) empty_mirror [OF assms(2-4)]]) (use assms in auto)
  have "filesDistinct t" by (rule run_files [OF assms(1)]) (simp add: filesDistinct_def assms)
  from flush_done [OF le_refl mir this assms(5,7,6)] obtain u where
    u: "flush (Suc (length (csOutbox t))) env t = Some u" "csOutbox u = []" "mirror env rview {} {} u" "cacheView u = cacheView t"
    by blast
  have "\<exists>rec. rview (csRemote u) k = Some rec \<and> recordAgrees m (map_of (csData u) (encodeBrainCacheKey k)) rec"
    if m: "map_of (csMetas u) (encodeBrainCacheKey k) = Some m" for k m
  proof -
    have "mtKey m = k" using mirror_index [OF u(3) m] by simp
    with m u(2,3) show ?thesis
      by (auto simp: mirror_def queueOk_def dest!: spec [of _ "encodeBrainCacheKey k"])
  qed
  with u show ?thesis by blast
qed

theorem flush_converges_witness:
  "\<exists>u. flush 2 testEnv (snd (cacheStore testEnv ''a'' (Some ''1'') (testCache [] []))) = Some u \<and> csOutbox u = []"
proof -
  have l: "length (csOutbox (snd (cacheStore testEnv ''a'' (Some ''1'') (testCache [] [])))) = 1" by code_simp
  have up: "remoteUp testRemoteOps" by (simp add: remoteUp_def testRemoteOps_def)
  have c: "csMetas (testCache [] []) = []" "csOutbox (testCache [] []) = []" "csFaults (testCache [] []) = []"
    "beRemote testEnv = Some testRemoteOps" by (simp_all add: testCache_def testEnv_def)
  from flush_converges [OF testRun c testRemote_laws up, unfolded l]
  show ?thesis unfolding numeral_2_eq_2 One_nat_def by blast
qed

subsection \<open>The write budget\<close>

definition exhausted :: "'r brainEnv \<Rightarrow> 'r cacheState \<Rightarrow> bool" where
  "exhausted env s \<longleftrightarrow> 0 < spWriteBudgetPerDay (bePolicy env) \<and>
     (\<exists>b. csBudget s = Some b \<and> wbDate b = today (csNow s) \<and> spWriteBudgetPerDay (bePolicy env) \<le> wbWrites b)"

definition sameQueue :: "'r cacheState \<Rightarrow> 'r cacheState \<Rightarrow> bool" where
  "sameQueue s t \<longleftrightarrow> csRemote t = csRemote s \<and> csOutbox t = csOutbox s"

lemma exhausted_frame [simp]: "exhausted env (s\<lparr>csFaults := fs\<rparr>) = exhausted env s"
  by (simp add: exhausted_def)

lemma ioRead_result:
  "\<exists>fs. ioRead g s = (Inl IOError, s\<lparr>csFaults := fs\<rparr>) \<or> ioRead g s = (Inr (g s), s\<lparr>csFaults := fs\<rparr>)"
proof (cases "csFaults s")
  case Nil
  then have "ioRead g s = (Inr (g s), s\<lparr>csFaults := csFaults s\<rparr>)" by (simp add: ioRead_def)
  then show ?thesis by blast
qed (auto simp: ioRead_def)

lemma check_exhausted:
  assumes "exhausted env s"
  shows "\<exists>e fs. checkCloudWriteBudgetLocked env s = (Inl e, s\<lparr>csFaults := fs\<rparr>)"
proof -
  from assms obtain b where b: "csBudget s = Some b" "wbDate b = today (csNow s)"
    "0 < spWriteBudgetPerDay (bePolicy env)" "spWriteBudgetPerDay (bePolicy env) \<le> wbWrites b"
    by (auto simp: exhausted_def)
  from ioRead_result [of csBudget s] b show ?thesis
    by (auto simp: checkCloudWriteBudgetLocked_def readWriteBudget_def bindOp_def readState_def ret_def fail_def)
qed

lemma syncEntry_exhausted:
  assumes v: "verInv s" and ex: "exhausted env s" and ops: "beRemote env = Some ops"
    and e: "map_of (csOutbox s) (encodeBrainCacheKey (obKey e)) = Some e"
  shows "\<exists>x fs. syncOutboxEntryLocked env e True s = (Inl x, s\<lparr>csFaults := fs\<rparr>)"
proof -
  from v have "versionsOk (map_of (csMetas s)) (map_of (csOutbox s)) (bcNextVersion (csControl s))" by (simp add: verInv_def)
  from versionsOk_outbox [OF this e] obtain m where
    m: "map_of (csMetas s) (encodeBrainCacheKey (obKey e)) = Some m" by blast
  have chk: "\<exists>x fs'. checkCloudWriteBudgetLocked env (s\<lparr>csFaults := fs\<rparr>) = (Inl x, s\<lparr>csFaults := fs'\<rparr>)" for fs
    using check_exhausted [of env "s\<lparr>csFaults := fs\<rparr>"] ex by simp
  have rm: "\<exists>fs'. readMeta (obKey e) (s\<lparr>csFaults := fs\<rparr>) = (Inr (Some m), s\<lparr>csFaults := fs'\<rparr>) \<or>
      (\<exists>x. readMeta (obKey e) (s\<lparr>csFaults := fs\<rparr>) = (Inl x, s\<lparr>csFaults := fs'\<rparr>))" for fs
    using ioRead_result [of "\<lambda>s. map_of (csMetas s) (encodeBrainCacheKey (obKey e))" "s\<lparr>csFaults := fs\<rparr>"] m
    by (cases "mtFormat m = brainCacheFormat")
       (auto simp: readMeta_def readMetaFile_def bindOp_def ret_def fail_def)
  from ioRead_result [of "\<lambda>s. map_of (csOutbox s) (encodeBrainCacheKey (obKey e))" s]
  obtain fs where "readOutboxEntry (obKey e) s = (Inl IOError, s\<lparr>csFaults := fs\<rparr>) \<or>
      readOutboxEntry (obKey e) s = (Inr (Some e), s\<lparr>csFaults := fs\<rparr>)" using e by (auto simp: readOutboxEntry_def)
  then show ?thesis
  proof
    assume "readOutboxEntry (obKey e) s = (Inl IOError, s\<lparr>csFaults := fs\<rparr>)"
    then show ?thesis using ops by (simp add: syncOutboxEntryLocked_def bindOp_def) blast
  next
    assume o: "readOutboxEntry (obKey e) s = (Inr (Some e), s\<lparr>csFaults := fs\<rparr>)"
    from rm [of fs] obtain fs' where "readMeta (obKey e) (s\<lparr>csFaults := fs\<rparr>) = (Inr (Some m), s\<lparr>csFaults := fs'\<rparr>) \<or>
      (\<exists>x. readMeta (obKey e) (s\<lparr>csFaults := fs\<rparr>) = (Inl x, s\<lparr>csFaults := fs'\<rparr>))" by blast
    then show ?thesis
    proof (elim disjE exE)
      assume r: "readMeta (obKey e) (s\<lparr>csFaults := fs\<rparr>) = (Inr (Some m), s\<lparr>csFaults := fs'\<rparr>)"
      from chk [of fs'] obtain x fs2 where "checkCloudWriteBudgetLocked env (s\<lparr>csFaults := fs'\<rparr>) = (Inl x, s\<lparr>csFaults := fs2\<rparr>)"
        by blast
      with o r ops show ?thesis by (simp add: syncOutboxEntryLocked_def bindOp_def andThen_def) blast
    next
      fix x assume "readMeta (obKey e) (s\<lparr>csFaults := fs\<rparr>) = (Inl x, s\<lparr>csFaults := fs'\<rparr>)"
      with o ops show ?thesis by (simp add: syncOutboxEntryLocked_def bindOp_def) blast
    qed
  qed
qed

text \<open>
  When the day's write budget is used up, a background sync touches neither the remote brain
  nor the queue, whatever disk accesses fail: the pending changes stay queued.
\<close>

theorem budget_respected:
  assumes "verInv s" and "filesDistinct s" and "exhausted env s" and "beRemote env = Some ops"
  shows "\<exists>t. syncPending (Suc fuel) env s = Some t \<and> csRemote t = csRemote s \<and> csOutbox t = csOutbox s"
proof -
  let ?es = "sort_key (\<lambda>entry. (obVersion entry, obKey entry)) (map snd (csOutbox s))"
  from ioRead_result [of "\<lambda>s. sort_key (\<lambda>entry. (obVersion entry, obKey entry)) (map snd (csOutbox s))" s]
  obtain fs where "nextOutboxEntry s = (Inl IOError, s\<lparr>csFaults := fs\<rparr>) \<or>
      nextOutboxEntry s = (Inr (case ?es of [] \<Rightarrow> None | e # es \<Rightarrow> Some e), s\<lparr>csFaults := fs\<rparr>)"
    by (auto simp: nextOutboxEntry_def outboxEntries_def bindOp_def ret_def)
  then show ?thesis
  proof
    assume "nextOutboxEntry s = (Inl IOError, s\<lparr>csFaults := fs\<rparr>)"
    then show ?thesis by simp
  next
    assume nx: "nextOutboxEntry s = (Inr (case ?es of [] \<Rightarrow> None | e # es \<Rightarrow> Some e), s\<lparr>csFaults := fs\<rparr>)"
    show ?thesis
    proof (cases ?es)
      case Nil
      then show ?thesis using nx by simp
    next
      case (Cons e es)
      have "set ?es = set (map snd (csOutbox s))" by simp
      then have "e \<in> set (map snd (csOutbox s))" unfolding Cons by auto
      then obtain n where n: "(n, e) \<in> set (csOutbox s)" by auto
      then have lk: "map_of (csOutbox s) n = Some e" using assms(2) by (simp add: filesDistinct_def)
      have "versionsOk (map_of (csMetas s)) (map_of (csOutbox s)) (bcNextVersion (csControl s))"
        using assms(1) by (simp add: verInv_def)
      from versionsOk_outbox [OF this lk] lk have "map_of (csOutbox s) (encodeBrainCacheKey (obKey e)) = Some e" by blast
      with syncEntry_exhausted [of "s\<lparr>csFaults := fs\<rparr>" env ops e] assms obtain x fs' where
        "syncOutboxEntryLocked env e True (s\<lparr>csFaults := fs\<rparr>) = (Inl x, s\<lparr>csFaults := fs'\<rparr>)" by auto
      with nx Cons show ?thesis by simp
    qed
  qed
qed

definition budgetEnv :: "testRemoteBrain brainEnv" where
  "budgetEnv = testEnv\<lparr>bePolicy := (bePolicy testEnv)\<lparr>spWriteBudgetPerDay := 3\<rparr>\<rparr>"

definition spentCache :: "testRemoteBrain cacheState" where
  "spentCache = (snd (cacheStore testEnv ''a'' (Some ''1'') (testCache [] [])))\<lparr>csBudget := Some \<lparr>wbDate = 0, wbWrites = 3\<rparr>\<rparr>"

theorem budget_respected_witness:
  "\<exists>t. syncPending 7 budgetEnv spentCache = Some t \<and> csRemote t = csRemote spentCache \<and> csOutbox t = csOutbox spentCache"
proof -
  have "cacheRun testEnv False (testCache [] []) (snd (cacheStore testEnv ''a'' (Some ''1'') (testCache [] [])))"
    by (rule testRun)
  from run_ver [OF this] run_files [OF this] have "verInv spentCache" "filesDistinct spentCache"
    by (auto simp: spentCache_def empty_ver testCache_def filesDistinct_def)
  moreover have "exhausted budgetEnv spentCache"
  proof -
    have "csNow spentCache = 5" by code_simp
    then show ?thesis by (simp add: exhausted_def budgetEnv_def spentCache_def today_def)
  qed
  moreover have "beRemote budgetEnv = Some testRemoteOps" by (simp add: budgetEnv_def testEnv_def)
  ultimately show ?thesis using budget_respected [of spentCache budgetEnv testRemoteOps 6] by simp
qed

subsection \<open>Partial failures\<close>

definition halfStored :: "testRemoteBrain cacheState" where
  "halfStored = snd (cacheStore testEnv ''a'' (Some ''2'')
     ((snd (cacheStore testEnv ''a'' (Some ''1'') (testCache [] [])))\<lparr>csFaults := [False, False, True]\<rparr>))"

text \<open>
  A store that fails between writing its payload and its metadata can poison the remote brain.
  A change of \<open>a\<close> is still queued when a second store of \<open>a\<close> writes its payload and then fails to
  write the metadata; the store reports the error, but the next sync uploads the new payload under
  the checksum of the old one, and a cache that hydrates from that remote brain refuses it.
\<close>

theorem half_store_poisons_remote:
  "(case syncPending 5 testEnv halfStored of
      None \<Rightarrow> False
    | Some s \<Rightarrow> csOutbox s = [] \<and>
        fst (openRemote 2 testEnv ((testCache (csRemote s) [])\<lparr>csControlFile := None\<rparr>)) = Inl (ChecksumMismatch ''a''))"
  by code_simp

definition halfDeleted :: "testRemoteBrain cacheState" where
  "halfDeleted = snd (cacheDelete testEnv ''a''
     ((snd (cacheStore testEnv ''a'' (Some ''1'') (testCache [] [])))\<lparr>csFaults := [False, False, True]\<rparr>))"

lemma flush_stuck:
  assumes "beRemote env = Some ops" and "mtFormat m = brainCacheFormat" and "\<not> mtDeleted m"
  shows "csFaults s = [] \<Longrightarrow> csOutbox s = [(encodeBrainCacheKey (obKey e), e)] \<Longrightarrow>
    map_of (csMetas s) (encodeBrainCacheKey (obKey e)) = Some m \<Longrightarrow>
    map_of (csData s) (encodeBrainCacheKey (obKey e)) = None \<Longrightarrow> flush fuel env s = None"
proof (induction fuel arbitrary: s)
  case (Suc fuel)
  have "nextOutboxEntry s = (Inr (Some e), s)"
    using Suc.prems by (simp add: nextOutboxEntry_def outboxEntries_def cache_run)
  moreover have "syncKeyLocked env (obKey e) False s = (Inl IOError, s)"
    using Suc.prems assms unfolding syncKeyLocked_def syncOutboxEntryLocked_def uploadMeta_def
    by (simp add: cache_run)
  moreover have "flush fuel env (passTime 1 s) = None"
    by (rule Suc.IH) (use Suc.prems in \<open>simp_all add: passTime_def\<close>)
  ultimately show ?case using assms(1) by simp
qed simp

text \<open>
  A delete that fails after removing the payload makes \<open>Flush\<close>, and with it every shutdown,
  wait for ever: the queued entry needs a payload that no longer exists, so every turn fails, however
  long it runs and although the disk and the remote brain work again.
\<close>

theorem half_delete_blocks_flush: "flush fuel testEnv halfDeleted = None"
proof -
  let ?e = "\<lparr>obKey = ''a'', obVersion = 1, obDelete = False\<rparr>"
  let ?m = "\<lparr>mtFormat = brainCacheFormat, mtKey = ''a'', mtVersion = 1, mtChecksum = ''h1'',
        mtDeleted = False, mtUpdatedAt = 5, mtSyncedAt = 0\<rparr>"
  have f: "csFaults halfDeleted = []" by code_simp
  have o: "csOutbox halfDeleted = [(encodeBrainCacheKey (obKey ?e), ?e)]" by code_simp
  have m: "map_of (csMetas halfDeleted) (encodeBrainCacheKey (obKey ?e)) = Some ?m" by code_simp
  have d: "map_of (csData halfDeleted) (encodeBrainCacheKey (obKey ?e)) = None" by code_simp
  have r: "beRemote testEnv = Some testRemoteOps" by (simp add: testEnv_def)
  show ?thesis by (rule flush_stuck [OF r _ _ f o m d]) simp_all
qed

text \<open>
  The error of persisting a reserved version is dropped. When that write fails and the robot is
  restarted, the version is handed out again: two memories then have the same version, which the
  invariant of uninterrupted runs excludes.
\<close>

definition restarted :: "testRemoteBrain cacheState \<Rightarrow> testRemoteBrain cacheState" where
  "restarted s = snd (openLocalOnly (s\<lparr>csFaults := [], csStopped := False\<rparr>))"

definition reusedVersion :: "testRemoteBrain cacheState" where
  "reusedVersion = snd (cacheStore testEnv ''b'' (Some ''2'')
     (restarted (snd (cacheStore testEnv ''a'' (Some ''1'') (testCache [] [True])))))"

theorem version_reused_after_restart:
  "fst (cacheStore testEnv ''a'' (Some ''1'') (testCache [] [True])) = Inr () \<and>
   map_option mtVersion (map_of (csMetas reusedVersion) (encodeBrainCacheKey ''a'')) = Some 1 \<and>
   map_option mtVersion (map_of (csMetas reusedVersion) (encodeBrainCacheKey ''b'')) = Some 1"
  by (intro conjI; code_simp)

subsection \<open>Hydration\<close>

text \<open>
  A remote brain that answers, and whose listing fits one page: it lists the metadata of every
  record it holds, once. Every record is a v3 record under its own key with a correct checksum.
\<close>

definition remoteLists :: "'r remoteOps \<Rightarrow> ('r \<Rightarrow> string \<rightharpoonup> remoteRecord) \<Rightarrow> 'r \<Rightarrow> bool" where
  "remoteLists ops rview r \<longleftrightarrow>
     (\<exists>recs r'. roListMetadata ops [] 1000 r = (Inr \<lparr>rpRecords = recs, rpNextCursor = []\<rparr>, r') \<and>
        rview r' = rview r \<and> distinct (map rrKey recs) \<and> set (map rrKey recs) = dom (rview r) \<and>
        list_all (\<lambda>rec. rrFormat rec = brainCacheFormat) recs) \<and>
     (\<forall>k r1. rview r1 = rview r \<longrightarrow>
        (\<exists>r2. roGet ops k r1 = (Inr (rview r1 k), r2) \<and> rview r2 = rview r1))"

definition recordsOk :: "('a, 'm) brainEnv_scheme \<Rightarrow> (string \<rightharpoonup> remoteRecord) \<Rightarrow> bool" where
  "recordsOk env R \<longleftrightarrow> (\<forall>k rec. R k = Some rec \<longrightarrow> rrKey rec = k \<and> rrFormat rec = brainCacheFormat \<and>
     (\<not> rrDeleted rec \<longrightarrow> beChecksum env (rrPayload rec) = rrChecksum rec))"

fun recordValue :: "remoteRecord option \<Rightarrow> string option" where
  "recordValue None = None"
| "recordValue (Some rec) = (if rrDeleted rec then None else Some (rrPayload rec))"

lemma hydrateRecord_ok:
  assumes "csFaults s = []" and "rview (csRemote s) = R" and "R (rrKey meta) = Some rec" and "recordsOk env R"
    and get: "\<And>k r1. rview r1 = R \<Longrightarrow> \<exists>r2. roGet ops k r1 = (Inr (R k), r2) \<and> rview r2 = R"
  shows "\<exists>t. hydrateRecord env ops meta s = (Inr (), t) \<and> csFaults t = [] \<and> rview (csRemote t) = R \<and>
    cacheView t = (cacheView s)(rrKey meta := recordValue (Some rec)) \<and> csStopped t = csStopped s"
proof -
  let ?k = "rrKey meta"
  obtain r2 where g: "roGet ops ?k (csRemote s) = (Inr (Some rec), r2)" "rview r2 = R"
    using get [OF assms(2), of ?k] assms(3) by auto
  have rec: "rrKey rec = ?k" "rrFormat rec = brainCacheFormat"
    "\<not> rrDeleted rec \<Longrightarrow> beChecksum env (rrPayload rec) = rrChecksum rec"
    using assms(3,4) by (auto simp: recordsOk_def)
  show ?thesis
    using assms(1) g rec
    by (cases "rrDeleted rec")
       (auto simp: hydrateRecord_def onRemote_def cache_run Let_def cacheView_def map_of_update fun_eq_iff
         split: option.split)
qed

lemma hydrateRecords_ok:
  assumes "recordsOk env R" and "\<And>k r1. rview r1 = R \<Longrightarrow> \<exists>r2. roGet ops k r1 = (Inr (R k), r2) \<and> rview r2 = R"
  shows "csFaults s = [] \<Longrightarrow> rview (csRemote s) = R \<Longrightarrow> rrKey ` set metas \<subseteq> dom R \<Longrightarrow>
    \<exists>t. hydrateRecords env ops metas s = (Inr (), t) \<and> csFaults t = [] \<and> rview (csRemote t) = R \<and>
      cacheView t = (\<lambda>k. if k \<in> rrKey ` set metas then recordValue (R k) else cacheView s k)"
proof (induction metas arbitrary: s)
  case Nil
  then show ?case by (simp add: ret_def)
next
  case (Cons meta metas)
  then obtain rec where rec: "R (rrKey meta) = Some rec" by auto
  from hydrateRecord_ok [OF Cons.prems(1,2) rec assms] obtain u where
    u: "hydrateRecord env ops meta s = (Inr (), u)" "csFaults u = []" "rview (csRemote u) = R"
    "cacheView u = (cacheView s)(rrKey meta := recordValue (Some rec))" by blast
  from Cons.IH [OF u(2,3)] Cons.prems(3) obtain t where
    t: "hydrateRecords env ops metas u = (Inr (), t)" "csFaults t = []" "rview (csRemote t) = R"
    "cacheView t = (\<lambda>k. if k \<in> rrKey ` set metas then recordValue (R k) else cacheView u k)" by auto
  then have "hydrateRecords env ops (meta # metas) s = (Inr (), t)" using u by (simp add: andThen_def bindOp_def)
  with t u(4) rec show ?case by (intro exI [of _ t]) (auto simp: fun_eq_iff)
qed

lemma list_ok:
  "roListMetadata ops [] 1000 (csRemote s) = (Inr \<lparr>rpRecords = recs, rpNextCursor = []\<rparr>, r') \<Longrightarrow>
   list_all (\<lambda>rec. rrFormat rec = brainCacheFormat) recs \<Longrightarrow>
   listRemoteMetadata (Suc n) ops [] [] s = (Inr recs, s\<lparr>csRemote := r'\<rparr>)"
proof -
  assume l: "roListMetadata ops [] 1000 (csRemote s) = (Inr \<lparr>rpRecords = recs, rpNextCursor = []\<rparr>, r')"
    and f: "list_all (\<lambda>rec. rrFormat rec = brainCacheFormat) recs"
  from f have "find (\<lambda>record. rrFormat record \<noteq> brainCacheFormat) recs = None"
    by (auto simp: find_None_iff list_all_iff)
  with l show ?thesis by (simp add: onRemote_def cache_run)
qed

text \<open>
  A robot that starts with an empty cache directory gets exactly the remote brain: after
  hydration it remembers the payload of every remote record that is not a deletion, and nothing
  else, and its cache is complete.
\<close>

theorem hydrate_exact:
  assumes "csControlFile s = None" and "csMetas s = []" and "csFaults s = []"
    and "beRemote env = Some ops" and "remoteLists ops rview (csRemote s)" and "recordsOk env (rview (csRemote s))"
  shows "\<exists>t. openRemote (Suc n) env s = (Inr (), t) \<and> bcComplete (csControl t) \<and>
    cacheView t = (\<lambda>k. recordValue (rview (csRemote s) k))"
proof -
  define R where "R = rview (csRemote s)"
  from assms(5) obtain recs r' where
    l: "roListMetadata ops [] 1000 (csRemote s) = (Inr \<lparr>rpRecords = recs, rpNextCursor = []\<rparr>, r')"
    "rview r' = R" "set (map rrKey recs) = dom R" "list_all (\<lambda>rec. rrFormat rec = brainCacheFormat) recs"
    and get: "\<And>k r1. rview r1 = R \<Longrightarrow> \<exists>r2. roGet ops k r1 = (Inr (R k), r2) \<and> rview r2 = R"
    unfolding remoteLists_def R_def [symmetric] by metis
  obtain nonce nonces where rn: "randomBrainCacheID s = (Inr nonce, s\<lparr>csNonces := nonces\<rparr>)"
  proof (cases "csNonces s")
    case Nil
    have "s = s\<lparr>csNonces := csNonces s\<rparr>" by simp
    with Nil have "randomBrainCacheID s = (Inr [], s\<lparr>csNonces := csNonces s\<rparr>)" by (simp add: randomBrainCacheID_def)
    then show ?thesis using that by blast
  qed (use that in \<open>auto simp: randomBrainCacheID_def\<close>)
  then obtain c where st: "startControl False [] s = (Inr (), s\<lparr>csNonces := nonces, csControl := c, csControlFile := Some c\<rparr>)"
    using assms(3) by (auto simp: startControl_def cache_run)
  let ?s1 = "s\<lparr>csNonces := nonces, csControl := c, csControlFile := Some c\<rparr>"
  let ?s2 = "?s1\<lparr>csRemote := r'\<rparr>"
  have li: "listRemoteMetadata (Suc n) ops [] [] ?s1 = (Inr recs, ?s2)" by (rule list_ok) (use l in simp_all)
  let ?ms = "sort_key (\<lambda>m. (rrVersion m, rrKey m)) recs"
  have s2: "csFaults ?s2 = []" "rview (csRemote ?s2) = R" "rrKey ` set ?ms \<subseteq> dom R" using assms(3) l(2,3) by auto
  from hydrateRecords_ok [OF assms(6) [folded R_def] get s2] obtain t where
    t: "hydrateRecords env ops ?ms ?s2 = (Inr (), t)" "csFaults t = []"
    "cacheView t = (\<lambda>k. if k \<in> rrKey ` set ?ms then recordValue (R k) else cacheView ?s2 k)" by blast
  have "recordValue (R k) = None" if "k \<notin> dom R" for k using that by (cases "R k") auto
  moreover have "cacheView ?s2 k = None" for k using assms(2) by (simp add: cacheView_def)
  ultimately have v: "cacheView t = (\<lambda>k. recordValue (R k))"
    using t(3) l(3) by (auto simp: fun_eq_iff)
  define c2 where "c2 = (csControl t)\<lparr>bcNextVersion := (if bcNextVersion (csControl t) = 0 then 1 else bcNextVersion (csControl t)),
    bcComplete := True, bcUpdatedAt := csNow t\<rparr>"
  have "openRemote (Suc n) env s = (Inr (), t\<lparr>csControl := c2, csControlFile := Some c2\<rparr>)"
    using assms(1,3,4) st li t(1,2)
    by (simp add: openRemote_def hydrateFromV3Remote_def controlExists_def cache_run c2_def)
  moreover have "cacheView (t\<lparr>csControl := c2, csControlFile := Some c2\<rparr>) = cacheView t"
    by (rule ext) (simp add: cacheView_def split: option.split)
  ultimately show ?thesis using v by (auto simp: c2_def R_def)
qed

definition demoRecord :: remoteRecord where
  "demoRecord = \<lparr>rrKey = ''a'', rrPayload = ''1'', rrFormat = brainCacheFormat, rrVersion = 4,
     rrChecksum = ''h1'', rrDeleted = False, rrUpdatedAt = 3\<rparr>"

theorem hydrate_exact_witness:
  "\<exists>t. openRemote 1 testEnv ((testCache [(''a'', demoRecord)] [])\<lparr>csControlFile := None\<rparr>) = (Inr (), t) \<and>
    bcComplete (csControl t) \<and> cacheView t = (\<lambda>k. recordValue (map_of [(''a'', demoRecord)] k))"
proof -
  let ?s = "(testCache [(''a'', demoRecord)] [])\<lparr>csControlFile := None\<rparr>"
  have s: "csControlFile ?s = None" "csMetas ?s = []" "csFaults ?s = []" "csRemote ?s = [(''a'', demoRecord)]"
    by (simp_all add: testCache_def)
  have e: "beRemote testEnv = Some testRemoteOps" by (simp add: testEnv_def)
  have "remoteLists testRemoteOps map_of (csRemote ?s)" unfolding s(4)
    by (auto simp: remoteLists_def testRemoteOps_def demoRecord_def)
  moreover have "recordsOk testEnv (map_of (csRemote ?s))" unfolding s(4)
    by (auto simp: recordsOk_def testEnv_def demoRecord_def)
  ultimately show ?thesis using hydrate_exact [OF s(1-3) e, of map_of 0] unfolding s(4) by simp
qed

end
