(* ===== verification/BrainDatum.thy ===== *)
theory BrainDatum
  imports BrainCacheView
begin

text \<open>
  Encrypted memories (bot/brain.go, bot/aescrypt.go): how a datum is encrypted on its way to the
  brain provider and decrypted on its way back, in each state of the encryption key. The provider
  (\<open>interfaces.brain\<close>, possibly nil) and the AES-GCM primitives of the standard library are
  parameters; the random bytes are the values of a function of the number of draws so far. The
  operations are proved against the contract of a brain, inside the locale of BrainStore, and used
  through its interpretations.
\<close>

subsection \<open>Encryption (bot/aescrypt.go)\<close>

record gcmOps =
  gcSeal :: "string \<Rightarrow> string \<Rightarrow> string \<Rightarrow> string"
  gcOpen :: "string \<Rightarrow> string \<Rightarrow> string \<Rightarrow> string option"

definition gcmNonceSize :: nat where
  "gcmNonceSize = 12"

text \<open>\<open>aes.NewCipher\<close> takes keys of 16, 24 or 32 bytes.\<close>

definition aesKey :: "string \<Rightarrow> bool" where
  "aesKey key \<longleftrightarrow> length key = 16 \<or> length key = 24 \<or> length key = 32"

definition encrypt :: "gcmOps \<Rightarrow> string \<Rightarrow> string \<Rightarrow> string \<Rightarrow> string option" where
  "encrypt gcm nonce plaintext key =
     (if \<not> aesKey key then None else Some (nonce @ gcSeal gcm key nonce plaintext))"

definition decrypt :: "gcmOps \<Rightarrow> string \<Rightarrow> string \<Rightarrow> string option" where
  "decrypt gcm ciphertext key =
     (if \<not> aesKey key then None
      else if length ciphertext < gcmNonceSize then None
      else gcOpen gcm key (take gcmNonceSize ciphertext) (drop gcmNonceSize ciphertext))"

text \<open>The documented behaviour of AES-GCM that the robot relies on.\<close>

definition gcmLaw :: "gcmOps \<Rightarrow> bool" where
  "gcmLaw gcm \<longleftrightarrow> (\<forall>k n p. gcOpen gcm k n (gcSeal gcm k n p) = Some p)"

lemma decrypt_encrypt:
  assumes "gcmLaw gcm" and "length nonce = gcmNonceSize" and "encrypt gcm nonce p key = Some c"
  shows "decrypt gcm c key = Some p"
  using assms by (auto simp: encrypt_def decrypt_def gcmLaw_def split: if_splits)

subsection \<open>State\<close>

record cryptState =
  ckKey :: string
  ckInitializing :: bool
  ckInitialized :: bool

text \<open>The operations of \<open>interfaces.brain\<close> that the datum functions call.\<close>

record ('b, 'e) brainOps =
  boStore :: "string \<Rightarrow> string \<Rightarrow> ('b, 'e, unit) op"
  boRetrieve :: "string \<Rightarrow> ('b, 'e, string option) op"
  boDelete :: "string \<Rightarrow> ('b, 'e, unit) op"

text \<open>
  \<open>deToken\<close> and \<open>deNonce\<close> are the hexadecimal lock token and the nonce that the n-th draw from
  \<open>crypto/rand\<close> gives, \<open>deNewKey\<close> a new 32 byte key.
\<close>

record ('b, 'e) datumEnv =
  deBrain :: "('b, 'e) brainOps option"
  deGcm :: gcmOps
  deToken :: "nat \<Rightarrow> string"
  deNonce :: "nat \<Rightarrow> string"
  deNewKey :: "nat \<Rightarrow> string"
  deIsNotExist :: "'e \<Rightarrow> bool"

record 'b datumState =
  dsBrain :: 'b
  dsCrypt :: cryptState
  dsDraws :: nat

definition botEncryptionKey :: string where
  "botEncryptionKey = ''bot:encryptionKey''"

type_synonym datumReply = "string \<times> string option \<times> bool \<times> RetVal"

text \<open>One call of the brain provider.\<close>

definition onBrain :: "('b, 'e, 'a) op \<Rightarrow> 'b datumState \<Rightarrow> ('e + 'a) \<times> 'b datumState" where
  "onBrain m s = (case m (dsBrain s) of (r, b) \<Rightarrow> (r, s\<lparr>dsBrain := b\<rparr>))"

subsection \<open>Storing and getting a datum\<close>

definition badKeyText :: "string \<Rightarrow> bool" where
  "badKeyText dkey \<longleftrightarrow> containsByte dkey (CHR 0x5C) \<or> containsStr dkey ''..''"

definition storeDatum ::
    "('b, 'e) datumEnv \<Rightarrow> string \<Rightarrow> string \<Rightarrow> 'b datumState \<Rightarrow> RetVal \<times> 'b datumState" where
  "storeDatum env dkey datum s =
     (if badKeyText dkey then (InvalidDatumKey, s)
      else case deBrain env of
        None \<Rightarrow> (BrainFailed, s)
      | Some brain \<Rightarrow>
          (let crypt = dsCrypt s in
           if \<not> ckInitialized crypt \<and> \<not> (ckInitializing crypt \<and> dkey = botEncryptionKey) then (BrainFailed, s)
           else (case encrypt (deGcm env) (deNonce env (dsDraws s)) datum (ckKey crypt) of
               None \<Rightarrow> (BrainFailed, s\<lparr>dsDraws := Suc (dsDraws s)\<rparr>)
             | Some encrypted \<Rightarrow>
                 (case onBrain (boStore brain dkey encrypted) (s\<lparr>dsDraws := Suc (dsDraws s)\<rparr>) of
                    (Inl e, t) \<Rightarrow> (BrainFailed, t)
                  | (Inr u, t) \<Rightarrow> (Ok, t)))))"

text \<open>The lock token is drawn before the brain is asked; a failure returns no token.\<close>

definition drawToken :: "('b, 'e) datumEnv \<Rightarrow> bool \<Rightarrow> 'b datumState \<Rightarrow> string \<times> 'b datumState" where
  "drawToken env rw s = (if rw then (deToken env (dsDraws s), s\<lparr>dsDraws := Suc (dsDraws s)\<rparr>) else ([], s))"

definition openDatum ::
    "('b, 'e) datumEnv \<Rightarrow> string \<Rightarrow> string \<Rightarrow> string \<Rightarrow> 'b datumState \<Rightarrow> datumReply \<times> 'b datumState" where
  "openDatum env dkey token db s =
     (let crypt = dsCrypt s; decrypted = decrypt (deGcm env) db (ckKey crypt) in
      if ckInitializing crypt then
        (if dkey \<noteq> botEncryptionKey then (([], None, False, BrainFailed), s)
         else (case decrypted of
                 None \<Rightarrow> (([], None, False, BrainFailed), s)
               | Some plain \<Rightarrow> ((token, Some plain, True, Ok), s)))
      else if ckInitialized crypt then
        (case decrypted of
           Some plain \<Rightarrow> ((token, Some plain, True, Ok), s)
         | None \<Rightarrow> ((token, Some db, True, Ok),
             (if dkey \<noteq> botEncryptionKey then snd (storeDatum env dkey db s) else s)))
      else (([], None, False, BrainFailed), s))"

definition getDatum ::
    "('b, 'e) datumEnv \<Rightarrow> string \<Rightarrow> bool \<Rightarrow> 'b datumState \<Rightarrow> datumReply \<times> 'b datumState" where
  "getDatum env dkey rw s =
     (if \<not> validKey dkey then (([], None, False, InvalidDatumKey), s)
      else case deBrain env of
        None \<Rightarrow> (([], None, False, BrainFailed), s)
      | Some brain \<Rightarrow>
          (case drawToken env rw s of (token, s1) \<Rightarrow>
             (case onBrain (boRetrieve brain dkey) s1 of
                (Inl e, t) \<Rightarrow> (([], None, False, BrainFailed), t)
              | (Inr None, t) \<Rightarrow> ((token, None, False, Ok), t)
              | (Inr (Some db), t) \<Rightarrow> openDatum env dkey token db t)))"

text \<open>
  Unlocking the brain at start: the configured key only decrypts the real key, which is created the
  first time. \<open>keyFile\<close> is the write of the encrypted key to the configuration directory; its
  failures end the process.
\<close>

definition initializeEncryptionFromBrain ::
    "('b, 'e) datumEnv \<Rightarrow> string \<Rightarrow> 'b datumState \<times> (string option) \<Rightarrow> bool \<times> 'b datumState \<times> (string option)" where
  "initializeEncryptionFromBrain env key st =
     (case st of (s, keyFile) \<Rightarrow>
        if length key < 32 then (False, s, keyFile)
        else if ckInitialized (dsCrypt s) \<or> ckInitializing (dsCrypt s) then
          (ckInitializing (dsCrypt s), s, keyFile)
        else
          (let kbytes = take 32 key;
               s1 = s\<lparr>dsCrypt := (dsCrypt s)\<lparr>ckKey := kbytes, ckInitializing := True\<rparr>\<rparr>
           in case getDatum env botEncryptionKey True s1 of
                ((token, rk, exists, r), s2) \<Rightarrow>
                  if r \<noteq> Ok then (False, s2\<lparr>dsCrypt := (dsCrypt s2)\<lparr>ckInitializing := False\<rparr>\<rparr>, keyFile)
                  else (case (exists, rk) of
                     (True, Some real) \<Rightarrow>
                       (True, s2\<lparr>dsCrypt := \<lparr>ckKey = real, ckInitializing = False, ckInitialized = True\<rparr>\<rparr>, keyFile)
                   | _ \<Rightarrow>
                       (let sb = deNewKey env (dsDraws s2);
                            bek = encrypt (deGcm env) (deNonce env (Suc (dsDraws s2))) sb kbytes
                        in (True, s2\<lparr>dsDraws := Suc (Suc (dsDraws s2)),
                              dsCrypt := \<lparr>ckKey = sb, ckInitializing = False, ckInitialized = True\<rparr>\<rparr>,
                            bek)))))"

subsection \<open>Properties of any brain that keeps the contract\<close>

text \<open>The datum a key stands for: what getting it returns once the key is initialized.\<close>

definition plainOf :: "gcmOps \<Rightarrow> string \<Rightarrow> string option \<Rightarrow> string option" where
  "plainOf gcm key found =
     map_option (\<lambda>db. case decrypt gcm db key of None \<Rightarrow> db | Some plain \<Rightarrow> plain) found"

definition unlocked :: "cryptState \<Rightarrow> bool" where
  "unlocked crypt \<longleftrightarrow> ckInitialized crypt \<and> \<not> ckInitializing crypt \<and> aesKey (ckKey crypt)"

definition noncesOk :: "('b, 'e) datumEnv \<Rightarrow> bool" where
  "noncesOk env \<longleftrightarrow> gcmLaw (deGcm env) \<and> (\<forall>n. length (deNonce env n) = gcmNonceSize)"

lemma containsStr_set: "containsStr s sub \<Longrightarrow> set sub \<subseteq> set s"
proof (induction s)
  case (Cons c cs)
  then show ?case
    by (auto simp: hasPrefix_def) (metis set_take_subset subsetD set_ConsD)
qed simp

lemma validKey_text: "validKey k \<Longrightarrow> \<not> badKeyText k"
proof
  assume v: "validKey k" and "badKeyText k"
  then have "CHR 0x5C \<in> set k \<or> CHR ''.'' \<in> set k"
    by (auto simp: badKeyText_def containsByte_def dest: containsStr_set)
  moreover have "\<not> isWordByte (CHR 0x5C)" "\<not> isWordByte (CHR ''.'')" by code_simp+
  ultimately show False using v by (auto simp: validKey_def list_all_iff)
qed

definition keepsPlain :: "string \<Rightarrow> ('b \<Rightarrow> string \<rightharpoonup> string) \<Rightarrow> gcmOps \<Rightarrow> 'b datumState \<Rightarrow> 'b datumState \<Rightarrow> bool" where
  "keepsPlain key view gcm s t \<longleftrightarrow>
     (\<forall>k. plainOf gcm key (view (dsBrain t) k) = plainOf gcm key (view (dsBrain s) k))"

context simple_brain
begin

abbreviation provider where
  "provider \<equiv> \<lparr>boStore = store, boRetrieve = retrieve, boDelete = delete\<rparr>"

lemma store_datum:
  assumes "deBrain env = Some provider" and "noncesOk env" and "unlocked (dsCrypt s)"
    and "good (dsBrain s)" and "okKey k" and "\<not> badKeyText k"
  shows "\<exists>t c. storeDatum env k d s = (Ok, t) \<and> good (dsBrain t) \<and> dsCrypt t = dsCrypt s \<and>
    dsDraws t = Suc (dsDraws s) \<and> view (dsBrain t) = (view (dsBrain s))(k \<mapsto> c) \<and>
    decrypt (deGcm env) c (ckKey (dsCrypt s)) = Some d"
proof -
  let ?n = "deNonce env (dsDraws s)"
  from assms(3) obtain c where c: "encrypt (deGcm env) ?n d (ckKey (dsCrypt s)) = Some c"
    by (simp add: encrypt_def unlocked_def)
  have "decrypt (deGcm env) c (ckKey (dsCrypt s)) = Some d"
    using assms(2) by (intro decrypt_encrypt [OF _ _ c]) (simp_all add: noncesOk_def)
  moreover from store_law [OF assms(4,5), of c] obtain b where
    "store k c (dsBrain s) = (Inr (), b)" "good b" "view b = (view (dsBrain s))(k \<mapsto> c)" by blast
  moreover from this have "storeDatum env k d s = (Ok, s\<lparr>dsDraws := Suc (dsDraws s), dsBrain := b\<rparr>)"
    using assms(1,3,6) c by (simp add: storeDatum_def onBrain_def unlocked_def Let_def)
  ultimately show ?thesis by (intro exI [of _ "s\<lparr>dsDraws := Suc (dsDraws s), dsBrain := b\<rparr>"] exI [of _ c]) simp
qed

lemma open_datum:
  assumes "deBrain env = Some provider" and "noncesOk env" and "unlocked (dsCrypt s)"
    and "good (dsBrain s)" and "okKey k" and "\<not> badKeyText k" and "view (dsBrain s) k = Some db"
  shows "\<exists>t. openDatum env k token db s =
      ((token, plainOf (deGcm env) (ckKey (dsCrypt s)) (Some db), True, Ok), t) \<and>
    good (dsBrain t) \<and> dsCrypt t = dsCrypt s \<and> dsDraws s \<le> dsDraws t \<and>
    keepsPlain (ckKey (dsCrypt s)) view (deGcm env) s t"
proof (cases "decrypt (deGcm env) db (ckKey (dsCrypt s))")
  case (Some plain)
  then show ?thesis using assms(3,4)
    by (auto simp: openDatum_def unlocked_def plainOf_def keepsPlain_def)
next
  case None
  note d = this
  show ?thesis
  proof (cases "k = botEncryptionKey")
    case True
    then show ?thesis using assms(3,4) None
      by (auto simp: openDatum_def unlocked_def plainOf_def keepsPlain_def)
  next
    case False
    from store_datum [OF assms(1-6), of db] obtain t c where
      t: "storeDatum env k db s = (Ok, t)" "good (dsBrain t)" "dsCrypt t = dsCrypt s" "dsDraws t = Suc (dsDraws s)"
      "view (dsBrain t) = (view (dsBrain s))(k \<mapsto> c)" "decrypt (deGcm env) c (ckKey (dsCrypt s)) = Some db" by blast
    then have "keepsPlain (ckKey (dsCrypt s)) view (deGcm env) s t"
      using d assms(7) by (simp add: keepsPlain_def plainOf_def)
    with t d False assms(3) show ?thesis by (simp add: openDatum_def unlocked_def plainOf_def)
  qed
qed

lemma get_datum:
  assumes "deBrain env = Some provider" and "noncesOk env" and "unlocked (dsCrypt s)"
    and "good (dsBrain s)" and "okKey k" and "validKey k"
  shows "\<exists>t. getDatum env k rw s =
      ((fst (drawToken env rw s), plainOf (deGcm env) (ckKey (dsCrypt s)) (view (dsBrain s) k),
        view (dsBrain s) k \<noteq> None, Ok), t) \<and>
    good (dsBrain t) \<and> dsCrypt t = dsCrypt s \<and> dsDraws (snd (drawToken env rw s)) \<le> dsDraws t \<and>
    keepsPlain (ckKey (dsCrypt s)) view (deGcm env) s t"
proof -
  obtain token s1 where d: "drawToken env rw s = (token, s1)" by (cases "drawToken env rw s")
  then have s1: "dsBrain s1 = dsBrain s" "dsCrypt s1 = dsCrypt s" by (auto simp: drawToken_def split: if_splits)
  from retrieve_law [OF assms(4,5)] obtain b where
    b: "retrieve k (dsBrain s1) = (Inr (view (dsBrain s) k), b)" "good b" "view b = view (dsBrain s)"
    by (auto simp: s1)
  let ?s2 = "s1\<lparr>dsBrain := b\<rparr>"
  show ?thesis
  proof (cases "view (dsBrain s) k")
    case None
    then show ?thesis using assms(1,6) d b s1
      by (simp add: getDatum_def onBrain_def plainOf_def keepsPlain_def)
  next
    case (Some db)
    have "\<not> badKeyText k" using assms(6) by (rule validKey_text)
    from open_datum [OF assms(1,2) _ _ assms(5) this, of ?s2 db token] Some b s1 assms(3) obtain t where
      "openDatum env k token db ?s2 = ((token, plainOf (deGcm env) (ckKey (dsCrypt s)) (Some db), True, Ok), t)"
      "good (dsBrain t)" "dsCrypt t = dsCrypt s" "dsDraws s1 \<le> dsDraws t"
      "keepsPlain (ckKey (dsCrypt s)) view (deGcm env) s t" by (auto simp: keepsPlain_def)
    then show ?thesis using Some assms(1,6) d b
      by (simp add: getDatum_def onBrain_def)
  qed
qed

end

subsection \<open>A small brain for the witnesses\<close>

definition demoGcm :: gcmOps where
  "demoGcm = \<lparr>gcSeal = (\<lambda>k n p. CHR ''#'' # p), gcOpen = (\<lambda>k n c. case c of [] \<Rightarrow> None | _ # p \<Rightarrow> Some p)\<rparr>"

definition demoDatumEnv :: "(unit cacheState, brainError) datumEnv" where
  "demoDatumEnv = \<lparr>deBrain = Some \<lparr>boStore = (\<lambda>k b. cacheStore localEnv k (Some b)), boRetrieve = cacheRetrieve,
       boDelete = cacheDelete localEnv\<rparr>,
     deGcm = demoGcm, deToken = (\<lambda>n. replicate (Suc n) CHR ''t''), deNonce = (\<lambda>n. replicate 12 CHR ''n''),
     deNewKey = (\<lambda>n. replicate 32 CHR ''k''), deIsNotExist = (\<lambda>e. False)\<rparr>"

definition demoDatumState :: "unit cacheState datumState" where
  "demoDatumState = \<lparr>dsBrain = emptyCache,
     dsCrypt = \<lparr>ckKey = replicate 32 CHR ''k'', ckInitializing = False, ckInitialized = True\<rparr>, dsDraws = 0\<rparr>"

lemma demoDatum_ok:
  "deBrain demoDatumEnv = Some \<lparr>boStore = (\<lambda>k b. cacheStore localEnv k (Some b)), boRetrieve = cacheRetrieve,
      boDelete = cacheDelete localEnv\<rparr>"
  "noncesOk demoDatumEnv" "unlocked (dsCrypt demoDatumState)" "cacheGood (dsBrain demoDatumState)"
  by (simp_all add: demoDatumEnv_def demoDatumState_def demoGcm_def noncesOk_def gcmLaw_def gcmNonceSize_def
      unlocked_def aesKey_def emptyCache_def cacheGood_def metasOk_def)

end
