(* ===== verification/BrainCrypt.thy ===== *)
theory BrainCrypt
  imports BrainDatum
begin

text \<open>
  Unlocking the robot's encryption key at startup (\<open>initCrypt\<close>, bot/bot_process.go): which key file
  is used in which environment, the checks on its permissions, and the creation of a new key. The
  file system is a map of paths; \<open>kfFaults\<close> says for the next accesses whether they fail.
\<close>

subsection \<open>Standard base64\<close>

definition stdAlphabet :: string where
  "stdAlphabet = ''ABCDEFGHIJKLMNOPQRSTUVWXYZabcdefghijklmnopqrstuvwxyz0123456789+/''"

definition stdChar :: "nat \<Rightarrow> char" where
  "stdChar n = stdAlphabet ! n"

definition stdVal :: "char \<Rightarrow> nat" where
  "stdVal c = length (takeWhile (\<lambda>d. d \<noteq> c) stdAlphabet)"

definition base64Encode :: "string \<Rightarrow> string" where
  "base64Encode bytes =
     map stdChar (b64quads (map of_char bytes)) @ replicate ((3 - length bytes mod 3) mod 3) CHR ''=''"

definition base64Decode :: "string \<Rightarrow> string option" where
  "base64Decode text =
     (let t = filter (\<lambda>c. c \<noteq> CHR 0x0A \<and> c \<noteq> CHR 0x0D) text;
          body = trimRightBy (\<lambda>c. c = CHR ''='') t
      in if length t mod 4 \<noteq> 0 \<or> length t - length body > 2 \<or> \<not> list_all (\<lambda>c. c \<in> set stdAlphabet) body
         then None else Some (map char_of (b64unquads (map stdVal body))))"

lemma stdVal_char: "n < 64 \<Longrightarrow> stdVal (stdChar n) = n"
proof -
  assume n: "n < 64"
  have "list_all (\<lambda>n. stdVal (stdChar n) = n) [0..<64]" by code_simp
  with n show ?thesis by (auto simp: list_all_iff)
qed

lemma stdChar_set: "n < 64 \<Longrightarrow> stdChar n \<in> set stdAlphabet"
proof -
  have "length stdAlphabet = 64" by code_simp
  then show "n < 64 \<Longrightarrow> ?thesis" unfolding stdChar_def by (intro nth_mem) simp
qed

lemma quads_length: "length (b64quads xs) + (3 - length xs mod 3) mod 3 = 4 * ((length xs + 2) div 3)"
proof (induction xs rule: b64quads.induct)
  case (4 a b c r)
  have "(length r + 5) div 3 = Suc ((length r + 2) div 3)" by presburger
  then show ?case using 4 by (simp add: add.commute)
qed simp_all

lemma base64_roundtrip: "base64Decode (base64Encode bytes) = Some bytes"
proof -
  let ?q = "b64quads (map of_char bytes)" and ?p = "(3 - length bytes mod 3) mod 3"
  have b: "list_all (\<lambda>a. a < (256::nat)) (map of_char bytes)" by (auto simp: list_all_iff)
  from quads_bound [OF b] have q: "\<forall>n \<in> set ?q. n < 64" by (auto simp: list_all_iff)
  have body: "\<forall>c \<in> set (map stdChar ?q). c \<in> set stdAlphabet" using q stdChar_set by auto
  have no: "\<not> list_ex (\<lambda>c. c = CHR ''='' \<or> c = CHR 0x0A \<or> c = CHR 0x0D) stdAlphabet" by code_simp
  have ne: "c \<noteq> CHR ''='' \<and> c \<noteq> CHR 0x0A \<and> c \<noteq> CHR 0x0D" if "c \<in> set (map stdChar ?q)" for c
    using no body that by (auto simp: list_ex_iff)
  have f: "filter (\<lambda>c. c \<noteq> CHR 0x0A \<and> c \<noteq> CHR 0x0D) (base64Encode bytes) = base64Encode bytes"
    using ne by (auto simp: base64Encode_def filter_id_conv)
  have "last (map stdChar ?q) \<noteq> CHR ''=''" if "map stdChar ?q \<noteq> []"
    using ne [OF last_in_set [OF that]] by simp
  then have "dropWhile (\<lambda>c. c = CHR ''='') (rev (map stdChar ?q)) = rev (map stdChar ?q)"
    by (auto simp: dropWhile_eq_self_iff hd_rev)
  moreover have "dropWhile (\<lambda>c. c = CHR ''='') (replicate ?p CHR ''='' @ ys) = dropWhile (\<lambda>c. c = CHR ''='') ys" for ys
    by (rule dropWhile_append2) auto
  ultimately have t: "trimRightBy (\<lambda>c. c = CHR ''='') (base64Encode bytes) = map stdChar ?q"
    by (simp add: trimRightBy_def base64Encode_def)
  have l: "length (base64Encode bytes) mod 4 = 0"
    using quads_length [of "map of_char bytes"] by (simp add: base64Encode_def)
  have d: "\<not> length (base64Encode bytes) - length (map stdChar ?q) > 2" by (simp add: base64Encode_def)
  have v: "map stdVal (map stdChar ?q) = ?q" using q stdVal_char by (simp add: map_idI)
  have "map char_of (map of_char bytes) = bytes" by (simp add: map_idI)
  then show ?thesis using body unquads_quads [OF b] v
    unfolding base64Decode_def f Let_def t using l d by (simp add: list_all_iff)
qed

subsection \<open>Key files\<close>

text \<open>
  What a path leads to. For a symbolic link (\<open>kfSymlink\<close>) the other fields are those of the file it
  points to, and \<open>kfDangling\<close> says that there is no such file. Two paths never lead to the same file.
\<close>

record keyFile =
  kfSymlink :: bool
  kfDangling :: bool
  kfRegular :: bool
  kfPerm :: nat
  kfText :: string

record keyState =
  ksFiles :: "string \<rightharpoonup> keyFile"
  ksCrypt :: cryptState
  ksDraws :: nat
  ksFaults :: "bool list"

record keyEnv =
  keGcm :: gcmOps
  keNonce :: "nat \<Rightarrow> string"
  keNewKey :: "nat \<Rightarrow> string"
  keConfigPath :: string
  keDeployEnvironment :: string
  keGopherEnvironment :: string
  keEncryptionKey :: "string option"   \<comment> \<open>\<open>GOPHER_ENCRYPTION_KEY\<close>\<close>
  keConfigKey :: string                \<comment> \<open>\<open>currentCfg.encryptionKey\<close>\<close>
  keCreateMode :: nat                  \<comment> \<open>the mode a new file gets, after the umask\<close>

datatype keyError = KeyIOError | KeyMissing | KeySymlink string | KeyNotRegular string

type_synonym 'a keyOp = "(keyState, keyError, 'a) op"

definition encryptedKeyFileMode :: nat where
  "encryptedKeyFileMode = 0x180"   \<comment> \<open>octal 600\<close>

definition keyIO :: "(keyState \<Rightarrow> (keyError + 'a) \<times> keyState) \<Rightarrow> 'a keyOp" where
  "keyIO f s =
     (case ksFaults s of
        [] \<Rightarrow> f s
      | b # bs \<Rightarrow> if b then (Inl KeyIOError, s\<lparr>ksFaults := bs\<rparr>) else f (s\<lparr>ksFaults := bs\<rparr>))"

text \<open>
  \<open>os.Lstat\<close> does not follow a symbolic link; \<open>os.Stat\<close>, \<open>os.ReadFile\<close> and \<open>os.Chmod\<close> do, and find
  nothing behind a dangling one, where \<open>os.WriteFile\<close> creates the file the link names.
\<close>

definition followed :: "keyState \<Rightarrow> string \<Rightarrow> keyFile option" where
  "followed s path =
     (case ksFiles s path of None \<Rightarrow> None | Some f \<Rightarrow> if kfSymlink f \<and> kfDangling f then None else Some f)"

definition fileLstat :: "string \<Rightarrow> keyFile keyOp" where
  "fileLstat path = keyIO (\<lambda>s. case ksFiles s path of None \<Rightarrow> (Inl KeyMissing, s) | Some f \<Rightarrow> (Inr f, s))"

definition fileStat :: "string \<Rightarrow> unit keyOp" where
  "fileStat path = keyIO (\<lambda>s. case followed s path of None \<Rightarrow> (Inl KeyMissing, s) | Some f \<Rightarrow> (Inr (), s))"

definition fileRead :: "string \<Rightarrow> string keyOp" where
  "fileRead path = keyIO (\<lambda>s. case followed s path of None \<Rightarrow> (Inl KeyMissing, s) | Some f \<Rightarrow> (Inr (kfText f), s))"

definition fileChmod :: "string \<Rightarrow> nat \<Rightarrow> unit keyOp" where
  "fileChmod path mode = keyIO (\<lambda>s. case followed s path of None \<Rightarrow> (Inl KeyMissing, s)
     | Some f \<Rightarrow> (Inr (), s\<lparr>ksFiles := (ksFiles s)(path \<mapsto> f\<lparr>kfPerm := mode\<rparr>)\<rparr>))"

definition createdFile :: "keyEnv \<Rightarrow> string \<Rightarrow> bool \<Rightarrow> keyFile" where
  "createdFile env text link =
     \<lparr>kfSymlink = link, kfDangling = False, kfRegular = True, kfPerm = keCreateMode env, kfText = text\<rparr>"

definition fileWrite :: "keyEnv \<Rightarrow> string \<Rightarrow> string \<Rightarrow> unit keyOp" where
  "fileWrite env path text = keyIO (\<lambda>s. (Inr (), s\<lparr>ksFiles := (ksFiles s)(path \<mapsto>
     (case followed s path of
        None \<Rightarrow> createdFile env text (ksFiles s path \<noteq> None)
      | Some f \<Rightarrow> f\<lparr>kfText := text\<rparr>))\<rparr>))"

definition enforceEncryptedKeyFilePermissions :: "string \<Rightarrow> unit keyOp" where
  "enforceEncryptedKeyFilePermissions path =
     bindOp (fileLstat path) (\<lambda>info.
       if kfSymlink info then fail (KeySymlink path)
       else if \<not> kfRegular info then fail (KeyNotRegular path)
       else if kfPerm info = encryptedKeyFileMode then ret ()
       else fileChmod path encryptedKeyFileMode)"

definition currentDeployEnvironment :: "keyEnv \<Rightarrow> string" where
  "currentDeployEnvironment env =
     (if keDeployEnvironment env \<noteq> [] then keDeployEnvironment env else keGopherEnvironment env)"

definition encryptedKeyFilePaths :: "keyEnv \<Rightarrow> string \<times> string" where
  "encryptedKeyFilePaths env =
     (let preferred = keConfigPath env @ ''/binary-encrypted-key''; e = currentDeployEnvironment env
      in if e = [] \<or> e = ''production'' then (preferred, [])
         else (preferred @ ''.'' @ e, preferred))"

text \<open>The path to load, the path to create, and whether the fallback is used; \<open>[]\<close> is no path.\<close>

definition resolveEncryptedKeyFile :: "keyEnv \<Rightarrow> (string \<times> string \<times> bool) keyOp" where
  "resolveEncryptedKeyFile env s =
     (case encryptedKeyFilePaths env of (preferred, fallback) \<Rightarrow>
        (case fileStat preferred s of
           (Inr u, s1) \<Rightarrow> (Inr (preferred, preferred, False), s1)
         | (Inl e, s1) \<Rightarrow>
             if e \<noteq> KeyMissing then (Inl e, s1)
             else if fallback \<noteq> [] then
               (case fileStat fallback s1 of
                  (Inr u, s2) \<Rightarrow> (Inr (fallback, fallback, True), s2)
                | (Inl e2, s2) \<Rightarrow>
                    if e2 \<noteq> KeyMissing then (Inl e2, s2) else (Inr ([], fallback, True), s2))
             else (Inr ([], preferred, False), s1)))"

definition useKey :: "string \<Rightarrow> keyState \<Rightarrow> keyState" where
  "useKey key s = s\<lparr>ksCrypt := (ksCrypt s)\<lparr>ckKey := key, ckInitialized := True\<rparr>\<rparr>"

definition loadKeyFile :: "keyEnv \<Rightarrow> string \<Rightarrow> string \<Rightarrow> keyState \<Rightarrow> bool \<times> keyState" where
  "loadKeyFile env path ik s =
     (case enforceEncryptedKeyFilePermissions path s of
        (Inl e, s1) \<Rightarrow> (False, s1)
      | (Inr u, s1) \<Rightarrow>
          (case fileRead path s1 of
             (Inl e, s2) \<Rightarrow> (False, s2)
           | (Inr bkf, s2) \<Rightarrow>
               (case base64Decode bkf of
                  None \<Rightarrow> (False, s2)
                | Some bke \<Rightarrow>
                    (case decrypt (keGcm env) bke ik of
                       None \<Rightarrow> (False, s2)
                     | Some key \<Rightarrow> (True, useKey key s2)))))"

definition createKeyFile :: "keyEnv \<Rightarrow> string \<Rightarrow> string \<Rightarrow> keyState \<Rightarrow> bool \<times> keyState" where
  "createKeyFile env path ik s =
     (let bk = keNewKey env (ksDraws s); s1 = s\<lparr>ksDraws := Suc (Suc (ksDraws s))\<rparr> in
      case encrypt (keGcm env) (keNonce env (Suc (ksDraws s))) bk ik of
        None \<Rightarrow> (False, s1)
      | Some bek \<Rightarrow>
          (case andThen (fileWrite env path (base64Encode bek)) (enforceEncryptedKeyFilePermissions path) s1 of
             (Inl e, s2) \<Rightarrow> (False, s2)
           | (Inr u, s2) \<Rightarrow> (True, useKey bk s2)))"

text \<open>
  The environment key must have at least 32 bytes: the code slices it to 32, which panics for a key
  shorter than the slice's capacity, so the model does not start with one (\<open>None\<close>).
\<close>

definition initCrypt :: "keyEnv \<Rightarrow> keyState \<Rightarrow> (bool \<times> keyState) option" where
  "initCrypt env s =
     (case resolveEncryptedKeyFile env s of
        (Inl e, s1) \<Rightarrow> Some (False, s1)
      | (Inr (keyFile, createFile, usedFallback), s1) \<Rightarrow>
          (case keEncryptionKey env of
             None \<Rightarrow> Some (False, s1)
           | Some ek \<Rightarrow>
               if length ek < 32 then None
               else if keyFile \<noteq> [] then Some (loadKeyFile env keyFile (take 32 ek) s1)
               else if keConfigKey env = [] then Some (createKeyFile env createFile (take 32 ek) s1)
               else Some (False, s1)))"

subsection \<open>Properties\<close>

text \<open>The file at a path is safe, and holds the key in use, encrypted with the environment key.\<close>

definition secureFile :: "keyFile \<Rightarrow> bool" where
  "secureFile f \<longleftrightarrow> \<not> kfSymlink f \<and> kfRegular f \<and> kfPerm f = encryptedKeyFileMode"

definition holdsKey :: "keyEnv \<Rightarrow> string \<Rightarrow> string \<Rightarrow> keyFile \<Rightarrow> bool" where
  "holdsKey env ik key f \<longleftrightarrow>
     (case base64Decode (kfText f) of None \<Rightarrow> False | Some bke \<Rightarrow> decrypt (keGcm env) bke ik = Some key)"

lemmas key_file_defs = followed_def fileLstat_def fileStat_def fileRead_def fileChmod_def fileWrite_def createdFile_def keyIO_def

lemma enforce_secure:
  assumes "enforceEncryptedKeyFilePermissions path s = (Inr (), t)"
  shows "ksCrypt t = ksCrypt s \<and>
    (\<exists>f m. ksFiles s path = Some f \<and> ksFiles t path = Some (f\<lparr>kfPerm := m\<rparr>) \<and> secureFile (f\<lparr>kfPerm := m\<rparr>))"
proof -
  have "f = f\<lparr>kfPerm := kfPerm f\<rparr>" for f by simp
  with assms show ?thesis
    by (auto simp: enforceEncryptedKeyFilePermissions_def key_file_defs bindOp_def ret_def fail_def secureFile_def
        split: prod.splits sum.splits option.splits list.splits if_splits)
qed

lemma read_followed:
  "fileRead path s = (Inr text, t) \<Longrightarrow> ksFiles t = ksFiles s \<and> (\<exists>f. ksFiles s path = Some f \<and> kfText f = text)"
  by (auto simp: key_file_defs split: option.splits list.splits if_splits)

lemma load_secure:
  assumes "loadKeyFile env path ik s = (True, t)"
  shows "\<exists>f. ksFiles t path = Some f \<and> secureFile f \<and> holdsKey env ik (ckKey (ksCrypt t)) f"
  using assms
  by (auto simp: loadKeyFile_def useKey_def holdsKey_def split: prod.splits sum.splits option.splits
      dest!: enforce_secure read_followed)

lemma create_secure:
  assumes "gcmLaw (keGcm env)" and "\<forall>n. length (keNonce env n) = gcmNonceSize"
    and "createKeyFile env path ik s = (True, t)"
  shows "\<exists>f. ksFiles t path = Some f \<and> secureFile f \<and> holdsKey env ik (ckKey (ksCrypt t)) f"
proof -
  let ?bk = "keNewKey env (ksDraws s)" and ?s1 = "s\<lparr>ksDraws := Suc (Suc (ksDraws s))\<rparr>"
  from assms(3) obtain bek s2 s3 where e: "encrypt (keGcm env) (keNonce env (Suc (ksDraws s))) ?bk ik = Some bek"
    "fileWrite env path (base64Encode bek) ?s1 = (Inr (), s2)"
    "enforceEncryptedKeyFilePermissions path s2 = (Inr (), s3)" "t = useKey ?bk s3"
    by (auto simp: createKeyFile_def andThen_def bindOp_def Let_def split: prod.splits sum.splits option.splits)
  have "decrypt (keGcm env) bek ik = Some ?bk"
    using assms(1,2) by (intro decrypt_encrypt [OF _ _ e(1)]) simp_all
  moreover have "\<exists>f. ksFiles s2 path = Some f \<and> kfText f = base64Encode bek"
    using e(2) by (auto simp: key_file_defs split: list.splits if_splits option.splits)
  ultimately show ?thesis using enforce_secure [OF e(3)] e(4) by (auto simp: useKey_def holdsKey_def base64_roundtrip)
qed

lemma resolve_paths:
  "resolveEncryptedKeyFile env s = (Inr (l, c, f), t) \<Longrightarrow>
   (l = [] \<or> l = c) \<and> (c = fst (encryptedKeyFilePaths env) \<or> c = snd (encryptedKeyFilePaths env) \<and> c \<noteq> [])"
  by (auto simp: resolveEncryptedKeyFile_def split: prod.splits sum.splits if_splits)

text \<open>
  C30. Whatever file accesses fail, when the robot's key is unlocked or created at startup, then the
  key in use is in the file that was resolved: the one of the environment, or the shared one. That
  very file holds it, encrypted with the environment key, and is a regular file, no symbolic link, and
  accessible for its owner only. Opening a sealed text is assumed to give it back.
\<close>

theorem key_file_secure:
  assumes "gcmLaw (keGcm env)" and "\<forall>n. length (keNonce env n) = gcmNonceSize"
    and "initCrypt env s = Some (True, t)"
  shows "\<exists>l c fb s1 ek f. resolveEncryptedKeyFile env s = (Inr (l, c, fb), s1) \<and>
    (c = fst (encryptedKeyFilePaths env) \<or> c = snd (encryptedKeyFilePaths env) \<and> c \<noteq> []) \<and>
    keEncryptionKey env = Some ek \<and> ksFiles t (if l \<noteq> [] then l else c) = Some f \<and>
    secureFile f \<and> holdsKey env (take 32 ek) (ckKey (ksCrypt t)) f"
proof -
  from assms(3) obtain l c fb s1 where r: "resolveEncryptedKeyFile env s = (Inr (l, c, fb), s1)"
    by (auto simp: initCrypt_def split: prod.splits sum.splits)
  with assms(3) obtain ek where "keEncryptionKey env = Some ek"
    "if l \<noteq> [] then loadKeyFile env l (take 32 ek) s1 = (True, t) else createKeyFile env c (take 32 ek) s1 = (True, t)"
    by (auto simp: initCrypt_def split: option.splits if_splits)
  then show ?thesis using r resolve_paths [OF r] load_secure [of env l _ s1 t] create_secure [OF assms(1,2), of c _ s1 t]
    by (auto split: if_splits)
qed

definition demoKeyEnv :: keyEnv where
  "demoKeyEnv = \<lparr>keGcm = demoGcm, keNonce = (\<lambda>n. replicate 12 CHR ''n''), keNewKey = (\<lambda>n. replicate 32 CHR ''k''),
     keConfigPath = ''c'', keDeployEnvironment = [], keGopherEnvironment = ''dev'',
     keEncryptionKey = Some (replicate 33 CHR ''e''), keConfigKey = [], keCreateMode = 0x1A4\<rparr>"

definition lockedState :: "bool list \<Rightarrow> keyState" where
  "lockedState fs = \<lparr>ksFiles = (\<lambda>p. None), ksCrypt = \<lparr>ckKey = [], ckInitializing = False, ckInitialized = False\<rparr>,
     ksDraws = 0, ksFaults = fs\<rparr>"

text \<open>
  The key created at the first start is the key of every later start: with the same environment
  key, a robot in any deployment environment that has no key file of its own decrypts exactly the
  key that was created, whatever environment created it.
\<close>

theorem key_survives_restart:
  assumes "gcmLaw (keGcm env)" and "\<forall>n. length (keNonce env n) = gcmNonceSize"
    and "ksFaults s = []" and "keEncryptionKey env = Some ek" and "32 \<le> length ek" and "keConfigKey env = []"
    and "env' = env\<lparr>keDeployEnvironment := d, keGopherEnvironment := g\<rparr>"
    and "ksFiles s (keConfigPath env @ ''/binary-encrypted-key'') = None"
    and "ksFiles s (fst (encryptedKeyFilePaths env)) = None"
    and "ksFiles s (fst (encryptedKeyFilePaths env')) = None"
  shows "\<exists>t. initCrypt env s = Some (True, t) \<and>
    (\<forall>crypt n. \<exists>u. initCrypt env' (t\<lparr>ksCrypt := crypt, ksDraws := n\<rparr>) = Some (True, u) \<and>
       ckKey (ksCrypt u) = ckKey (ksCrypt t) \<and> ckKey (ksCrypt t) = keNewKey env (ksDraws s))"
proof -
  let ?base = "keConfigPath env @ ''/binary-encrypted-key''" and ?bk = "keNewKey env (ksDraws s)"
  let ?ik = "take 32 ek"
  obtain bek where bek: "encrypt (keGcm env) (keNonce env (Suc (ksDraws s))) ?bk ?ik = Some bek"
    using assms(5) by (simp add: encrypt_def aesKey_def)
  have dec: "decrypt (keGcm env) bek ?ik = Some ?bk"
    using assms(1,2) by (intro decrypt_encrypt [OF _ _ bek]) simp_all
  define kf where "kf = \<lparr>kfSymlink = False, kfDangling = False, kfRegular = True, kfPerm = encryptedKeyFileMode, kfText = base64Encode bek\<rparr>"
  define t where "t = s\<lparr>ksDraws := Suc (Suc (ksDraws s)), ksFiles := (ksFiles s)(?base \<mapsto> kf),
    ksCrypt := (ksCrypt s)\<lparr>ckKey := ?bk, ckInitialized := True\<rparr>\<rparr>"
  have res: "\<exists>f. resolveEncryptedKeyFile env s = (Inr ([], ?base, f), s)"
    using assms(3,8,9) by (auto simp: resolveEncryptedKeyFile_def encryptedKeyFilePaths_def key_file_defs Let_def)
  have "createKeyFile env ?base ?ik s = (True, t)"
    using assms(3,8) bek
    by (auto simp: createKeyFile_def Let_def key_file_defs andThen_def bindOp_def
        ret_def fail_def enforceEncryptedKeyFilePermissions_def useKey_def t_def kf_def)
  then have init: "initCrypt env s = Some (True, t)" using res assms(4-6) by (auto simp: initCrypt_def)
  have "\<exists>u. initCrypt env' (t\<lparr>ksCrypt := crypt, ksDraws := n\<rparr>) = Some (True, u) \<and> ckKey (ksCrypt u) = ?bk" for crypt n
  proof -
    let ?t = "t\<lparr>ksCrypt := crypt, ksDraws := n\<rparr>"
    have "\<exists>f. resolveEncryptedKeyFile env' ?t = (Inr (?base, ?base, f), ?t)"
      using assms(3,7,10)
      by (auto simp: resolveEncryptedKeyFile_def encryptedKeyFilePaths_def key_file_defs Let_def t_def kf_def)
    moreover have "loadKeyFile env' ?base ?ik ?t = (True, useKey ?bk ?t)"
      using assms(3,7) dec
      by (auto simp: loadKeyFile_def enforceEncryptedKeyFilePermissions_def key_file_defs bindOp_def ret_def
          t_def kf_def base64_roundtrip)
    ultimately show ?thesis using assms(4,5,7) by (auto simp: initCrypt_def useKey_def)
  qed
  then show ?thesis using init by (auto simp: t_def)
qed

theorem key_file_secure_witness:
  "\<exists>(t::keyState) l c fb s1 ek f. resolveEncryptedKeyFile demoKeyEnv (lockedState []) = (Inr (l, c, fb), s1) \<and>
    (c = fst (encryptedKeyFilePaths demoKeyEnv) \<or> c = snd (encryptedKeyFilePaths demoKeyEnv) \<and> c \<noteq> []) \<and>
    keEncryptionKey demoKeyEnv = Some ek \<and> ksFiles t (if l \<noteq> [] then l else c) = Some f \<and>
    secureFile f \<and> holdsKey demoKeyEnv (take 32 ek) (ckKey (ksCrypt t)) f"
proof -
  let ?t = "snd (the (initCrypt demoKeyEnv (lockedState [])))"
  have "case initCrypt demoKeyEnv (lockedState []) of None \<Rightarrow> False | Some (b, t) \<Rightarrow> b" by code_simp
  then have "initCrypt demoKeyEnv (lockedState []) = Some (True, ?t)"
    by (cases "initCrypt demoKeyEnv (lockedState [])") auto
  note init = this
  have "gcmLaw (keGcm demoKeyEnv)" "\<forall>n. length (keNonce demoKeyEnv n) = gcmNonceSize"
    by (simp_all add: demoKeyEnv_def demoGcm_def gcmLaw_def gcmNonceSize_def)
  from key_file_secure [OF this init] show ?thesis by (rule exI)
qed

theorem key_survives_restart_witness:
  "\<exists>t. initCrypt demoKeyEnv (lockedState []) = Some (True, t) \<and>
    (\<forall>crypt n. \<exists>u. initCrypt (demoKeyEnv\<lparr>keDeployEnvironment := ''production'', keGopherEnvironment := []\<rparr>)
         (t\<lparr>ksCrypt := crypt, ksDraws := n\<rparr>) = Some (True, u) \<and>
       ckKey (ksCrypt u) = ckKey (ksCrypt t) \<and>
       ckKey (ksCrypt t) = keNewKey demoKeyEnv (ksDraws (lockedState [])))"
  by (rule key_survives_restart [OF _ _ _ _ _ _ refl])
     (auto simp: demoKeyEnv_def demoGcm_def gcmLaw_def lockedState_def gcmNonceSize_def)

end
