(* ===== verification/BrainLoop.thy ===== *)
theory BrainLoop
  imports BrainDatum
begin

text \<open>
  The brain loop (\<open>runBrain\<close>, bot/brain.go): the goroutine that hands out memories with lock
  tokens, queues the callers that must wait, lets locks expire with its ticker, and pauses for
  backups. An event of its channel is one step, as is a tick, the resume or the time-out of a
  pause; the order of the steps is arbitrary, and a tick visits the memories in any order, as the
  iteration over a Go map does. Messages sent on reply channels are appended to \<open>lsSent\<close>.
\<close>

subsection \<open>Data\<close>

datatype memState = NewMemory | Seen | Available

record checkOutRequest =
  crKey :: string
  crRw :: bool
  crReply :: nat

record checkOutReply =
  cyToken :: string
  cyBytes :: "string option"
  cyExists :: bool
  cyRet :: RetVal

record memstatus =
  msState :: memState
  msToken :: string
  msWaiters :: "checkOutRequest list"

datatype brainEvent =
  CheckOutEvent checkOutRequest
| CheckInEvent string string
| UpdateEvent string string string nat
| PauseEvent nat
| QuitEvent nat

datatype brainMessage =
  CheckOutMsg checkOutRequest checkOutReply
| UpdateMsg nat RetVal
| QuitMsg nat

record 'b loopState =
  lsDatum :: "'b datumState"
  lsMemories :: "string \<rightharpoonup> memstatus"
  lsSent :: "brainMessage list"
  lsPaused :: "nat option"
  lsLocks :: "nat set"
  lsQuit :: bool

subsection \<open>The handlers\<close>

definition sendMsg :: "brainMessage \<Rightarrow> 'b loopState \<Rightarrow> 'b loopState" where
  "sendMsg msg s = s\<lparr>lsSent := lsSent s @ [msg]\<rparr>"

definition setMemory :: "string \<Rightarrow> memstatus option \<Rightarrow> 'b loopState \<Rightarrow> 'b loopState" where
  "setMemory key m s = s\<lparr>lsMemories := (lsMemories s)(key := m)\<rparr>"

definition fetchReply ::
    "('b, 'e) datumEnv \<Rightarrow> string \<Rightarrow> bool \<Rightarrow> 'b loopState \<Rightarrow> checkOutReply \<times> 'b loopState" where
  "fetchReply env key rw s =
     (case getDatum env key rw (lsDatum s) of
        ((lt, d, e, r), ds) \<Rightarrow> (\<lparr>cyToken = lt, cyBytes = d, cyExists = e, cyRet = r\<rparr>, s\<lparr>lsDatum := ds\<rparr>))"

definition replyToWaiter :: "('b, 'e) datumEnv \<Rightarrow> string \<Rightarrow> memstatus \<Rightarrow> 'b loopState \<Rightarrow> 'b loopState" where
  "replyToWaiter env key m s =
     (case msWaiters m of
        [] \<Rightarrow> s
      | creq # waiters \<Rightarrow>
          (case fetchReply env (crKey creq) True s of
             (rep, t) \<Rightarrow> sendMsg (CheckOutMsg creq rep)
               (setMemory key (Some \<lparr>msState = NewMemory, msToken = cyToken rep, msWaiters = waiters\<rparr>) t)))"

definition handleCheckOut :: "('b, 'e) datumEnv \<Rightarrow> checkOutRequest \<Rightarrow> 'b loopState \<Rightarrow> 'b loopState" where
  "handleCheckOut env creq s =
     (case lsMemories s (crKey creq) of
        None \<Rightarrow>
          (case fetchReply env (crKey creq) (crRw creq) s of
             (rep, t) \<Rightarrow>
               if cyRet rep \<noteq> Ok then sendMsg (CheckOutMsg creq rep) t
               else sendMsg (CheckOutMsg creq rep)
                 (if crRw creq
                  then setMemory (crKey creq) (Some \<lparr>msState = NewMemory, msToken = cyToken rep, msWaiters = []\<rparr>) t
                  else t))
      | Some m \<Rightarrow>
          if \<not> crRw creq then
            (case fetchReply env (crKey creq) (crRw creq) s of (rep, t) \<Rightarrow> sendMsg (CheckOutMsg creq rep) t)
          else if msState m = Available then
            (case fetchReply env (crKey creq) (crRw creq) s of
               (rep, t) \<Rightarrow> sendMsg (CheckOutMsg creq rep)
                 (setMemory (crKey creq) (Some (m\<lparr>msState := NewMemory, msToken := cyToken rep\<rparr>)) t))
          else setMemory (crKey creq) (Some (m\<lparr>msWaiters := msWaiters m @ [creq]\<rparr>)) s)"

text \<open>What ends a check-out: the next waiter gets the memory, or nobody holds it.\<close>

definition releaseMemory :: "('b, 'e) datumEnv \<Rightarrow> string \<Rightarrow> memstatus \<Rightarrow> 'b loopState \<Rightarrow> 'b loopState" where
  "releaseMemory env key m s =
     (if msWaiters m \<noteq> [] then replyToWaiter env key m s else setMemory key None s)"

definition handleCheckIn :: "('b, 'e) datumEnv \<Rightarrow> string \<Rightarrow> string \<Rightarrow> 'b loopState \<Rightarrow> 'b loopState" where
  "handleCheckIn env key token s =
     (case lsMemories s key of
        None \<Rightarrow> s
      | Some m \<Rightarrow> if token \<noteq> msToken m then s else releaseMemory env key m s)"

definition handleUpdate ::
    "('b, 'e) datumEnv \<Rightarrow> string \<Rightarrow> string \<Rightarrow> string \<Rightarrow> nat \<Rightarrow> 'b loopState \<Rightarrow> 'b loopState" where
  "handleUpdate env key token datum reply s =
     (case lsMemories s key of
        None \<Rightarrow> sendMsg (UpdateMsg reply DatumNotFound) s
      | Some m \<Rightarrow>
          if token \<noteq> msToken m then sendMsg (UpdateMsg reply DatumLockExpired) s
          else (case storeDatum env key datum (lsDatum s) of
             (r, ds) \<Rightarrow> releaseMemory env key m (sendMsg (UpdateMsg reply r) (s\<lparr>lsDatum := ds\<rparr>))))"

text \<open>A pause is requested by \<open>pauseBrainTask\<close>, which records the worker before it sends.\<close>

definition handleEvent :: "('b, 'e) datumEnv \<Rightarrow> brainEvent \<Rightarrow> 'b loopState \<Rightarrow> 'b loopState" where
  "handleEvent env evt s =
     (case evt of
        CheckOutEvent creq \<Rightarrow> handleCheckOut env creq s
      | CheckInEvent key token \<Rightarrow> handleCheckIn env key token s
      | UpdateEvent key token datum reply \<Rightarrow> handleUpdate env key token datum reply s
      | PauseEvent wid \<Rightarrow> s\<lparr>lsLocks := insert wid (lsLocks s), lsPaused := Some wid\<rparr>
      | QuitEvent reply \<Rightarrow> sendMsg (QuitMsg reply) (s\<lparr>lsQuit := True\<rparr>))"

definition tickMemory :: "('b, 'e) datumEnv \<Rightarrow> string \<Rightarrow> 'b loopState \<Rightarrow> 'b loopState" where
  "tickMemory env key s =
     (case lsMemories s key of
        None \<Rightarrow> s
      | Some m \<Rightarrow>
          (case msState m of
             NewMemory \<Rightarrow> setMemory key (Some (m\<lparr>msState := Seen\<rparr>)) s
           | Seen \<Rightarrow> if msWaiters m \<noteq> [] then replyToWaiter env key m s
                    else setMemory key (Some (m\<lparr>msState := Available\<rparr>)) s
           | Available \<Rightarrow> s))"

definition tickMemories :: "('b, 'e) datumEnv \<Rightarrow> string list \<Rightarrow> 'b loopState \<Rightarrow> 'b loopState" where
  "tickMemories env order s = foldl (\<lambda>s key. tickMemory env key s) s order"

text \<open>The resume task of a worker closes its channel; a pause that lasts too long gives up.\<close>

definition resumeTask :: "nat \<Rightarrow> 'b loopState \<Rightarrow> 'b loopState" where
  "resumeTask wid s =
     (if wid \<in> lsLocks s
      then s\<lparr>lsLocks := lsLocks s - {wid}, lsPaused := (if lsPaused s = Some wid then None else lsPaused s)\<rparr>
      else s)"

subsection \<open>The client side\<close>

text \<open>A call either answers at once or sends an event to the loop.\<close>

definition checkoutCall :: "string \<Rightarrow> bool \<Rightarrow> nat \<Rightarrow> checkOutReply + brainEvent" where
  "checkoutCall d rw reply =
     (if \<not> validKey d then Inl \<lparr>cyToken = [], cyBytes = None, cyExists = False, cyRet = InvalidDatumKey\<rparr>
      else Inr (CheckOutEvent \<lparr>crKey = d, crRw = rw, crReply = reply\<rparr>))"

definition updateCall :: "string \<Rightarrow> string \<Rightarrow> string \<Rightarrow> nat \<Rightarrow> RetVal + brainEvent" where
  "updateCall d lt datum reply = (if lt = [] then Inl Ok else Inr (UpdateEvent d lt datum reply))"

definition checkinCall :: "string \<Rightarrow> string \<Rightarrow> brainEvent option" where
  "checkinCall key locktoken = (if locktoken = [] then None else Some (CheckInEvent key locktoken))"

text \<open>What \<open>checkoutDatum\<close> makes of a reply; \<open>decode\<close> is \<open>json.Unmarshal\<close>.\<close>

definition checkoutResult ::
    "(string \<Rightarrow> 'a option) \<Rightarrow> checkOutReply \<Rightarrow> string \<times> 'a option \<times> bool \<times> RetVal" where
  "checkoutResult decode rep =
     (case (cyExists rep, cyBytes rep) of
        (True, Some bytes) \<Rightarrow>
          (case decode bytes of
             None \<Rightarrow> (cyToken rep, None, False, DataFormatError)
           | Some datum \<Rightarrow> (cyToken rep, Some datum, True, cyRet rep))
      | _ \<Rightarrow> (cyToken rep, None, cyExists rep, cyRet rep))"

definition updateDatumCall ::
    "('a \<Rightarrow> string option) \<Rightarrow> string \<Rightarrow> string \<Rightarrow> 'a \<Rightarrow> nat \<Rightarrow> RetVal + brainEvent" where
  "updateDatumCall encode key locktoken datum reply =
     (case encode datum of
        None \<Rightarrow> Inl DataFormatError
      | Some dbytes \<Rightarrow> updateCall key locktoken dbytes reply)"

text \<open>\<open>deleteDatum\<close> once its check-out has been answered: the result, and the check-in it sends.\<close>

definition deleteDatum ::
    "('b, 'e) datumEnv \<Rightarrow> string \<Rightarrow> checkOutReply \<Rightarrow> 'b datumState \<Rightarrow> (RetVal \<times> brainEvent option) \<times> 'b datumState" where
  "deleteDatum env key rep s =
     (if cyRet rep \<noteq> Ok then ((cyRet rep, None), s)
      else case deBrain env of
        None \<Rightarrow> ((BrainFailed, checkinCall key (cyToken rep)), s)
      | Some brain \<Rightarrow>
          (case onBrain (boDelete brain key) s of
             (Inl e, t) \<Rightarrow> ((if deIsNotExist env e then Ok else BrainFailed, checkinCall key (cyToken rep)), t)
           | (Inr u, t) \<Rightarrow> ((Ok, checkinCall key (cyToken rep)), t)))"

subsection \<open>Steps and runs\<close>

text \<open>
  The loop and the clients share the brain: \<open>deleteDatum\<close> has the memory checked out, but calls the
  provider's \<open>Delete\<close> itself, outside the loop, at any time after its reply and also while the loop
  is paused. The label of that step names the key, the token the caller was given and the token
  under which the memory is held at that moment. (A reply may be used for more than one such step
  here; the code makes one.)
\<close>

datatype loopLabel = Handle brainEvent | Tick | Resume nat | PauseTimeout | DeleteCall string string "string option"

definition heldToken :: "'b loopState \<Rightarrow> string \<Rightarrow> string option" where
  "heldToken s key = map_option msToken (lsMemories s key)"

inductive brainStep :: "('b, 'e) datumEnv \<Rightarrow> loopLabel \<Rightarrow> 'b loopState \<Rightarrow> 'b loopState \<Rightarrow> bool" for env where
  StepHandle: "lsPaused s = None \<Longrightarrow> \<not> lsQuit s \<Longrightarrow> brainStep env (Handle evt) s (handleEvent env evt s)"
| StepTick: "lsPaused s = None \<Longrightarrow> \<not> lsQuit s \<Longrightarrow> distinct order \<Longrightarrow> set order = dom (lsMemories s) \<Longrightarrow>
    brainStep env Tick s (tickMemories env order s)"
| StepResume: "brainStep env (Resume wid) s (resumeTask wid s)"
| StepTimeout: "lsPaused s = Some wid \<Longrightarrow>
    brainStep env PauseTimeout s (s\<lparr>lsPaused := None, lsLocks := lsLocks s - {wid}\<rparr>)"
| StepDelete: "CheckOutMsg creq rep \<in> set (lsSent s) \<Longrightarrow> crRw creq \<Longrightarrow>
    deleteDatum env (crKey creq) rep (lsDatum s) = (res, ds) \<Longrightarrow>
    brainStep env (DeleteCall (crKey creq) (cyToken rep) (heldToken s (crKey creq))) s (s\<lparr>lsDatum := ds\<rparr>)"

inductive brainRun :: "('b, 'e) datumEnv \<Rightarrow> loopLabel list \<Rightarrow> 'b loopState \<Rightarrow> 'b loopState \<Rightarrow> bool" for env where
  RunDone: "brainRun env [] s s"
| RunMore: "brainStep env l s t \<Longrightarrow> brainRun env ls t u \<Longrightarrow> brainRun env (l # ls) s u"

inductive_cases brainStepE: "brainStep env l s t"
inductive_cases brainRunE: "brainRun env (l # ls) s u"
inductive_simps brainRun_Nil [simp]: "brainRun env [] s t"
inductive_simps brainRun_Cons: "brainRun env (l # ls) s t"

subsection \<open>Name spaces\<close>

record taskNames =
  tnName :: string
  tnNameSpace :: string
  tnIsPlugin :: bool

definition getNameSpace :: "string \<Rightarrow> taskNames \<Rightarrow> string" where
  "getNameSpace pipeNameSpace task =
     (if tnNameSpace task \<noteq> [] then tnNameSpace task
      else if tnIsPlugin task then tnName task
      else if pipeNameSpace \<noteq> [] then pipeNameSpace
      else tnName task)"

definition datumKey :: "string \<Rightarrow> taskNames \<Rightarrow> string \<Rightarrow> string" where
  "datumKey pipeNameSpace task key = getNameSpace pipeNameSpace task @ '':'' @ key"

subsection \<open>Deleting under the contract of a brain\<close>

context simple_brain
begin

lemma delete_datum:
  assumes "deBrain env = Some provider" and "good (dsBrain s)" and "okKey k" and "deleteDatum env k rep s = (res, t)"
  shows "good (dsBrain t) \<and> dsCrypt t = dsCrypt s \<and> dsDraws t = dsDraws s \<and>
    (view (dsBrain t) = view (dsBrain s) \<or> view (dsBrain t) = (view (dsBrain s))(k := None))"
proof -
  from delete_law [OF assms(2,3)] obtain b where
    "delete k (dsBrain s) = (Inr (), b)" "good b" "view b = (view (dsBrain s))(k := None)" by blast
  then show ?thesis using assms by (auto simp: deleteDatum_def onBrain_def split: if_splits)
qed

end

end
