(* ===== verification/BrainLoopInv.thy ===== *)
theory BrainLoopInv
  imports BrainLoop
begin

text \<open>
  Properties of the brain loop (bot/brain.go) under any order of its events: a waiter is served
  within two ticks for each place in its queue, whatever the brain answers; and on a brain that
  keeps its contract, whoever still holds the lock of a memory has its current value, so a
  checked-out value that is accepted back was never overwritten in between.
\<close>

subsection \<open>Waiting\<close>

lemmas loop_defs = sendMsg_def setMemory_def

definition waitsIdle :: "'b loopState \<Rightarrow> bool" where
  "waitsIdle s \<longleftrightarrow> (\<forall>k m. lsMemories s k = Some m \<longrightarrow> msState m = Available \<longrightarrow> msWaiters m = [])"

text \<open>
  The ticks a waiter may still have to sit through: two for every caller before it, and what is
  left of the holder's time.
\<close>

fun holdTicks :: "memState \<Rightarrow> nat" where
  "holdTicks NewMemory = 2"
| "holdTicks Seen = 1"
| "holdTicks Available = 0"

definition waitsFor :: "'b loopState \<Rightarrow> checkOutRequest \<Rightarrow> nat \<Rightarrow> bool" where
  "waitsFor s creq n \<longleftrightarrow>
     (\<exists>k m i. lsMemories s k = Some m \<and> i < length (msWaiters m) \<and> msWaiters m ! i = creq \<and>
        msState m \<noteq> Available \<and> 2 * i + holdTicks (msState m) \<le> n)"

definition servedIn :: "'b loopState \<Rightarrow> 'b loopState \<Rightarrow> checkOutRequest \<Rightarrow> bool" where
  "servedIn s t creq \<longleftrightarrow> (\<exists>rep. CheckOutMsg creq rep \<in> set (drop (length (lsSent s)) (lsSent t)))"

definition sentMore :: "'b loopState \<Rightarrow> 'b loopState \<Rightarrow> bool" where
  "sentMore s t \<longleftrightarrow> (\<exists>ms. lsSent t = lsSent s @ ms)"

lemma sentMore_refl [simp]: "sentMore s s"
  by (simp add: sentMore_def)

lemma sentMore_trans: "sentMore s t \<Longrightarrow> sentMore t u \<Longrightarrow> sentMore s u"
  by (auto simp: sentMore_def)

lemma servedIn_later: "servedIn s t creq \<Longrightarrow> sentMore t u \<Longrightarrow> servedIn s u creq"
  by (auto simp: servedIn_def sentMore_def)

lemma servedIn_earlier: "servedIn t u creq \<Longrightarrow> sentMore s t \<Longrightarrow> servedIn s u creq"
  by (auto simp: servedIn_def sentMore_def dest: in_set_dropD)
     (metis add.commute drop_drop in_set_dropD)

text \<open>What every primitive does to the memories and the messages.\<close>

lemma fetch_frame:
  "fetchReply env key rw s = (rep, t) \<Longrightarrow> lsMemories t = lsMemories s \<and> lsSent t = lsSent s \<and>
     lsPaused t = lsPaused s \<and> lsQuit t = lsQuit s"
  by (auto simp: fetchReply_def split: prod.splits)

lemma replyToWaiter_frame:
  assumes "msWaiters m = creq # ws"
  shows "\<exists>rep tok. lsMemories (replyToWaiter env key m s) =
      (lsMemories s)(key \<mapsto> \<lparr>msState = NewMemory, msToken = tok, msWaiters = ws\<rparr>) \<and>
    lsSent (replyToWaiter env key m s) = lsSent s @ [CheckOutMsg creq rep]"
  using assms
  by (auto simp: replyToWaiter_def loop_defs split: prod.split dest!: fetch_frame)

text \<open>
  One change of a memory that a waiter sees: it stays in the queue with no more ticks to go than
  before, or it is served. \<open>strict\<close> is a tick.
\<close>

definition keyAdvance :: "bool \<Rightarrow> string \<Rightarrow> 'b loopState \<Rightarrow> 'b loopState \<Rightarrow> bool" where
  "keyAdvance strict key s t \<longleftrightarrow> sentMore s t \<and> (\<forall>k. k \<noteq> key \<longrightarrow> lsMemories t k = lsMemories s k) \<and>
     (\<forall>m. lsMemories t key = Some m \<longrightarrow> msState m = Available \<longrightarrow> msWaiters m = [] \<or> lsMemories s key = Some m) \<and>
     (\<forall>m i. lsMemories s key = Some m \<longrightarrow> msState m \<noteq> Available \<longrightarrow> i < length (msWaiters m) \<longrightarrow>
        servedIn s t (msWaiters m ! i) \<or>
        (\<exists>m' i'. lsMemories t key = Some m' \<and> msState m' \<noteq> Available \<and> i' < length (msWaiters m') \<and>
           msWaiters m' ! i' = msWaiters m ! i \<and>
           2 * i' + holdTicks (msState m') + (if strict then 1 else 0) \<le> 2 * i + holdTicks (msState m)))"

lemma keyAdvance_refl: "keyAdvance False key s s"
  unfolding keyAdvance_def by auto

lemma holdTicks_le: "holdTicks st \<le> 2"
  by (cases st) simp_all

lemma holdTicks_pos: "st \<noteq> Available \<Longrightarrow> 0 < holdTicks st"
  by (cases st) simp_all

lemma reply_advance:
  assumes "lsMemories s key = Some m" and "msState m \<noteq> Available" and "msWaiters m \<noteq> []"
    and "lsMemories s' = lsMemories s" and "sentMore s s'"
  shows "keyAdvance True key s (replyToWaiter env key m s')"
proof -
  obtain creq ws where w: "msWaiters m = creq # ws" using assms(3) by (cases "msWaiters m") auto
  from replyToWaiter_frame [OF w, of env key s'] obtain rep tok where
    f: "lsMemories (replyToWaiter env key m s') = (lsMemories s)(key \<mapsto> \<lparr>msState = NewMemory, msToken = tok, msWaiters = ws\<rparr>)"
    "lsSent (replyToWaiter env key m s') = lsSent s' @ [CheckOutMsg creq rep]" using assms(4) by auto
  have sm: "sentMore s (replyToWaiter env key m s')" using f(2) assms(5) by (auto simp: sentMore_def)
  have first: "servedIn s (replyToWaiter env key m s') creq"
    using f(2) assms(5) by (auto simp: servedIn_def sentMore_def)
  have "servedIn s (replyToWaiter env key m s') (msWaiters m ! i) \<or>
      (\<exists>m' i'. lsMemories (replyToWaiter env key m s') key = Some m' \<and> msState m' \<noteq> Available \<and>
         i' < length (msWaiters m') \<and> msWaiters m' ! i' = msWaiters m ! i \<and>
         2 * i' + holdTicks (msState m') + 1 \<le> 2 * i + holdTicks (msState m))"
    if "i < length (msWaiters m)" for i
  proof (cases i)
    case 0
    then show ?thesis using first w by simp
  next
    case (Suc j)
    then show ?thesis using f(1) w that holdTicks_pos [OF assms(2)]
      by (intro disjI2 exI [of _ "\<lparr>msState = NewMemory, msToken = tok, msWaiters = ws\<rparr>"] exI [of _ j]) simp
  qed
  then show ?thesis using sm f(1) assms(1) by (auto simp: keyAdvance_def)
qed

lemma keyAdvance_weaken: "keyAdvance True key s t \<Longrightarrow> keyAdvance False key s t"
  unfolding keyAdvance_def by (fastforce dest: add_lessD1)

lemma keyAdvance_sent: "keyAdvance strict key s t \<Longrightarrow> sentMore s t"
  by (simp add: keyAdvance_def)

lemma keyAdvance_other: "keyAdvance strict key s t \<Longrightarrow> k \<noteq> key \<Longrightarrow> lsMemories t k = lsMemories s k"
  by (simp add: keyAdvance_def)

lemma keyAdvance_idle: "keyAdvance strict key s t \<Longrightarrow> waitsIdle s \<Longrightarrow> waitsIdle t"
  unfolding keyAdvance_def waitsIdle_def by metis

lemma keyAdvance_slot:
  "keyAdvance strict key s t \<Longrightarrow> lsMemories s key = Some m \<Longrightarrow> msState m \<noteq> Available \<Longrightarrow> i < length (msWaiters m) \<Longrightarrow>
   servedIn s t (msWaiters m ! i) \<or>
   (\<exists>m' i'. lsMemories t key = Some m' \<and> msState m' \<noteq> Available \<and> i' < length (msWaiters m') \<and>
      msWaiters m' ! i' = msWaiters m ! i \<and>
      2 * i' + holdTicks (msState m') + (if strict then 1 else 0) \<le> 2 * i + holdTicks (msState m))"
  unfolding keyAdvance_def by blast

text \<open>A memory changes its holder's time or its queue grows at the end.\<close>

lemma extend_advance:
  assumes "lsMemories s key = Some m" and "lsMemories t = (lsMemories s)(key \<mapsto> m')" and "sentMore s t"
    and "msWaiters m' = msWaiters m @ ws" and "msState m' = Available \<longrightarrow> msWaiters m' = []"
    and "msState m \<noteq> Available \<longrightarrow> holdTicks (msState m') + (if strict then 1 else 0) \<le> holdTicks (msState m)"
  shows "keyAdvance strict key s t"
proof -
  have "\<exists>m2 i2. lsMemories t key = Some m2 \<and> msState m2 \<noteq> Available \<and> i2 < length (msWaiters m2) \<and>
      msWaiters m2 ! i2 = msWaiters m ! i \<and>
      2 * i2 + holdTicks (msState m2) + (if strict then 1 else 0) \<le> 2 * i + holdTicks (msState m)"
    if "i < length (msWaiters m)" "msState m \<noteq> Available" for i
    using that assms by (intro exI [of _ m'] exI [of _ i]) (auto simp: nth_append)
  then show ?thesis using assms by (auto simp: keyAdvance_def)
qed

lemma quiet_advance:
  assumes "lsMemories t = lsMemories s" and "sentMore s t"
  shows "keyAdvance False key s t"
  using assms unfolding keyAdvance_def by auto

lemma tick_advance: "keyAdvance True key s (tickMemory env key s)"
proof (cases "lsMemories s key")
  case None
  then show ?thesis by (simp add: tickMemory_def keyAdvance_def)
next
  case (Some m)
  show ?thesis
  proof (cases "msState m")
    case NewMemory
    then have "tickMemory env key s = setMemory key (Some (m\<lparr>msState := Seen\<rparr>)) s"
      using Some by (simp add: tickMemory_def)
    then show ?thesis using NewMemory Some
      by (intro extend_advance [where m = m and m' = "m\<lparr>msState := Seen\<rparr>" and ws = "[]"]) (simp_all add: setMemory_def sentMore_def)
  next
    case Seen
    show ?thesis
    proof (cases "msWaiters m = []")
      case True
      then show ?thesis using Seen Some by (auto simp: tickMemory_def keyAdvance_def setMemory_def sentMore_def)
    next
      case False
      then have "tickMemory env key s = replyToWaiter env key m s" using Seen Some by (simp add: tickMemory_def)
      with False Seen Some show ?thesis by (simp add: reply_advance)
    qed
  next
    case Available
    then show ?thesis using Some by (simp add: tickMemory_def keyAdvance_def)
  qed
qed

lemma release_advance:
  assumes "lsMemories s key = Some m" and "lsMemories s' = lsMemories s" and "sentMore s s'" and "waitsIdle s"
  shows "keyAdvance False key s (releaseMemory env key m s')"
proof (cases "msWaiters m = []")
  case True
  then show ?thesis using assms by (auto simp: releaseMemory_def keyAdvance_def setMemory_def sentMore_def)
next
  case False
  then have "msState m \<noteq> Available" using assms(1,4) by (auto simp: waitsIdle_def)
  then have "keyAdvance True key s (replyToWaiter env key m s')" using assms False by (intro reply_advance)
  then show ?thesis using False by (simp add: releaseMemory_def keyAdvance_weaken)
qed

lemma checkOut_advance:
  assumes "waitsIdle s"
  shows "keyAdvance False (crKey creq) s (handleCheckOut env creq s)"
proof (cases "lsMemories s (crKey creq)")
  case None
  then show ?thesis
    by (auto simp: handleCheckOut_def loop_defs keyAdvance_def sentMore_def split: prod.splits dest!: fetch_frame)
next
  case (Some m)
  consider (quick) "\<not> crRw creq" | (free) "crRw creq" "msState m = Available" | (wait) "crRw creq" "msState m \<noteq> Available"
    by blast
  then show ?thesis
  proof cases
    case quick
    then show ?thesis using Some
      by (intro quiet_advance) (auto simp: handleCheckOut_def loop_defs sentMore_def split: prod.splits dest!: fetch_frame)
  next
    case free
    then have "msWaiters m = []" using Some assms by (auto simp: waitsIdle_def)
    with free show ?thesis using Some
      by (auto simp: handleCheckOut_def loop_defs keyAdvance_def sentMore_def split: prod.splits dest!: fetch_frame)
  next
    case wait
    then show ?thesis using Some
      by (intro extend_advance [where m = m and m' = "m\<lparr>msWaiters := msWaiters m @ [creq]\<rparr>" and ws = "[creq]"])
         (simp_all add: handleCheckOut_def setMemory_def sentMore_def)
  qed
qed

lemma handle_advance:
  assumes "waitsIdle s"
  shows "\<exists>key. keyAdvance False key s (handleEvent env evt s)"
proof (cases evt)
  case (CheckOutEvent creq)
  then show ?thesis using checkOut_advance [OF assms] by (auto simp: handleEvent_def)
next
  case (CheckInEvent key token)
  have "keyAdvance False key s (handleCheckIn env key token s)"
    using release_advance [OF _ refl sentMore_refl assms, of key] keyAdvance_refl
    by (auto simp: handleCheckIn_def split: option.split)
  then show ?thesis using CheckInEvent by (auto simp: handleEvent_def)
next
  case (UpdateEvent key token datum reply)
  have q: "sentMore s (sendMsg (UpdateMsg reply r) (s\<lparr>lsDatum := ds\<rparr>))" for r ds
    by (simp add: sendMsg_def sentMore_def)
  have "keyAdvance False key s (sendMsg (UpdateMsg reply r) s)" for r
    by (rule quiet_advance) (simp_all add: sendMsg_def sentMore_def)
  moreover have "keyAdvance False key s (releaseMemory env key m (sendMsg (UpdateMsg reply r) (s\<lparr>lsDatum := ds\<rparr>)))"
    if "lsMemories s key = Some m" for m r ds
    using that q by (intro release_advance assms) (simp_all add: sendMsg_def)
  ultimately have "keyAdvance False key s (handleUpdate env key token datum reply s)"
    by (auto simp: handleUpdate_def split: option.split prod.split)
  then show ?thesis using UpdateEvent by (auto simp: handleEvent_def)
next
  case (PauseEvent wid)
  then have "keyAdvance False [] s (handleEvent env evt s)"
    by (intro quiet_advance) (simp_all add: handleEvent_def sentMore_def)
  then show ?thesis by blast
next
  case (QuitEvent reply)
  then have "keyAdvance False [] s (handleEvent env evt s)"
    by (intro quiet_advance) (simp_all add: handleEvent_def sentMore_def sendMsg_def)
  then show ?thesis by blast
qed

lemma keyAdvance_waitsFor:
  assumes "keyAdvance False key s t" and "waitsFor s creq n"
  shows "servedIn s t creq \<or> waitsFor t creq n"
proof -
  from assms(2) obtain k m i where w: "lsMemories s k = Some m" "i < length (msWaiters m)" "msWaiters m ! i = creq"
    "msState m \<noteq> Available" "2 * i + holdTicks (msState m) \<le> n" unfolding waitsFor_def by blast
  show ?thesis
  proof (cases "k = key")
    case False
    then have "lsMemories t k = Some m" using keyAdvance_other [OF assms(1)] w(1) by simp
    then show ?thesis using w unfolding waitsFor_def by blast
  next
    case True
    from keyAdvance_slot [OF assms(1), of m i] w True show ?thesis
      unfolding waitsFor_def by (auto intro: le_trans)
  qed
qed

lemma tickMemories_Cons: "tickMemories env (x # xs) s = tickMemories env xs (tickMemory env x s)"
  by (simp add: tickMemories_def)

lemma tick_frame:
  "sentMore s (tickMemories env order s) \<and> (waitsIdle s \<longrightarrow> waitsIdle (tickMemories env order s)) \<and>
   (k \<notin> set order \<longrightarrow> lsMemories (tickMemories env order s) k = lsMemories s k)"
proof (induction order arbitrary: s)
  case (Cons x xs)
  have adv: "keyAdvance True x s (tickMemory env x s)" by (rule tick_advance)
  from Cons [of "tickMemory env x s"] keyAdvance_sent [OF adv] keyAdvance_idle [OF adv] keyAdvance_other [OF adv]
  show ?case unfolding tickMemories_Cons by (auto intro: sentMore_trans)
qed (simp add: tickMemories_def)

lemma tick_slot:
  "distinct order \<Longrightarrow> k \<in> set order \<Longrightarrow> lsMemories s k = Some m \<Longrightarrow> msState m \<noteq> Available \<Longrightarrow>
   i < length (msWaiters m) \<Longrightarrow>
   servedIn s (tickMemories env order s) (msWaiters m ! i) \<or>
   (\<exists>m' i'. lsMemories (tickMemories env order s) k = Some m' \<and> msState m' \<noteq> Available \<and>
      i' < length (msWaiters m') \<and> msWaiters m' ! i' = msWaiters m ! i \<and>
      2 * i' + holdTicks (msState m') + 1 \<le> 2 * i + holdTicks (msState m))"
proof (induction order arbitrary: s)
  case (Cons x xs)
  let ?s1 = "tickMemory env x s"
  have adv: "keyAdvance True x s ?s1" by (rule tick_advance)
  show ?case
  proof (cases "k = x")
    case True
    then have d: "k \<notin> set xs" using Cons.prems(1) by simp
    from keyAdvance_slot [OF adv, of m i] Cons.prems True consider
      (now) "servedIn s ?s1 (msWaiters m ! i)"
    | (rest) m' i' where "lsMemories ?s1 k = Some m'" "msState m' \<noteq> Available" "i' < length (msWaiters m')"
        "msWaiters m' ! i' = msWaiters m ! i" "2 * i' + holdTicks (msState m') + 1 \<le> 2 * i + holdTicks (msState m)"
      by auto
    then show ?thesis
    proof cases
      case now
      then show ?thesis unfolding tickMemories_Cons using servedIn_later tick_frame by blast
    next
      case rest
      moreover have "lsMemories (tickMemories env xs ?s1) k = lsMemories ?s1 k" using tick_frame d by blast
      ultimately show ?thesis unfolding tickMemories_Cons by auto
    qed
  next
    case False
    then have k: "distinct xs" "k \<in> set xs" "lsMemories ?s1 k = Some m"
      using Cons.prems keyAdvance_other [OF adv] by auto
    from Cons.IH [OF k Cons.prems(4,5)] show ?thesis
      unfolding tickMemories_Cons using servedIn_earlier [OF _ keyAdvance_sent [OF adv]] by blast
  qed
qed simp

lemma step_waits:
  assumes "brainStep env l s t" and "waitsIdle s"
  shows "waitsIdle t \<and> sentMore s t \<and>
    (\<forall>creq n. waitsFor s creq n \<longrightarrow>
       servedIn s t creq \<or> waitsFor t creq (if l = Tick then n - 1 else n))"
  using assms
proof (cases rule: brainStep.cases)
  case (StepHandle evt)
  from handle_advance [OF assms(2), of env evt] obtain key where
    k: "keyAdvance False key s (handleEvent env evt s)" by blast
  then show ?thesis using StepHandle keyAdvance_waitsFor [OF k] keyAdvance_idle [OF k assms(2)] keyAdvance_sent [OF k]
    by auto
next
  case (StepTick order)
  have served: "servedIn s t creq \<or> waitsFor t creq (n - 1)" if w: "waitsFor s creq n" for creq n
  proof -
    from w obtain k m i where w: "lsMemories s k = Some m" "i < length (msWaiters m)" "msWaiters m ! i = creq"
      "msState m \<noteq> Available" "2 * i + holdTicks (msState m) \<le> n" unfolding waitsFor_def by blast
    have "k \<in> set order" using w(1) StepTick(6) by auto
    from tick_slot [OF StepTick(5) this w(1,4,2), of env] w(3,5) show ?thesis
      unfolding StepTick(2) waitsFor_def by (elim disjE exE conjE) (auto intro!: exI)
  qed
  have "waitsIdle t \<and> sentMore s t"
    using tick_frame [where s = s and env = env and order = order] assms(2) unfolding StepTick(2) by blast
  then show ?thesis using served StepTick(1) by simp
next
  case (StepResume wid)
  have k: "keyAdvance False [] s t" unfolding StepResume by (rule quiet_advance) (simp_all add: resumeTask_def sentMore_def)
  then show ?thesis using StepResume(1) keyAdvance_waitsFor [OF k] keyAdvance_idle [OF k assms(2)] keyAdvance_sent [OF k]
    by auto
next
  case (StepTimeout wid)
  have k: "keyAdvance False [] s t" unfolding StepTimeout by (rule quiet_advance) (simp_all add: sentMore_def)
  then show ?thesis using StepTimeout(1) keyAdvance_waitsFor [OF k] keyAdvance_idle [OF k assms(2)] keyAdvance_sent [OF k]
    by auto
next
  case (StepDelete creq rep res ds)
  have k: "keyAdvance False [] s t" unfolding StepDelete by (rule quiet_advance) (simp_all add: sentMore_def)
  then show ?thesis using StepDelete(1) keyAdvance_waitsFor [OF k] keyAdvance_idle [OF k assms(2)] keyAdvance_sent [OF k]
    by auto
qed

definition ticksIn :: "loopLabel list \<Rightarrow> nat" where
  "ticksIn ls = length (filter (\<lambda>l. l = Tick) ls)"

lemma waitsFor_pos: "waitsFor s creq n \<Longrightarrow> 0 < n"
  unfolding waitsFor_def using holdTicks_pos by fastforce

lemma run_waits:
  "brainRun env ls s t \<Longrightarrow> waitsIdle s \<Longrightarrow>
   waitsIdle t \<and> sentMore s t \<and> (waitsFor s creq n \<longrightarrow> n \<le> ticksIn ls \<longrightarrow> servedIn s t creq)"
proof (induction arbitrary: n rule: brainRun.induct)
  case (RunDone s)
  then show ?case using waitsFor_pos [of s creq n] by (auto simp: ticksIn_def)
next
  case (RunMore l s t ls u)
  note st = step_waits [OF RunMore.hyps(1) RunMore.prems]
  note ih = RunMore.IH
  have "servedIn s u creq" if w: "waitsFor s creq n" and tk: "n \<le> ticksIn (l # ls)"
  proof (cases "servedIn s t creq")
    case True
    then show ?thesis using servedIn_later ih st by blast
  next
    case False
    then have "waitsFor t creq (if l = Tick then n - 1 else n)" using st w by blast
    moreover have "(if l = Tick then n - 1 else n) \<le> ticksIn ls" using tk by (auto simp: ticksIn_def)
    ultimately have "servedIn t u creq" using ih st by blast
    then show ?thesis using servedIn_earlier st by blast
  qed
  then show ?case using ih st sentMore_trans by blast
qed

text \<open>
  C8. A caller that has to wait for a memory is answered: in a run from a loop with no idle waiters,
  the caller at place \<open>i\<close> of a queue gets its reply at the latest with the tick number \<open>2 * (i + 1)\<close>,
  whoever holds the memory, whatever the brain answers, and in whatever order events arrive.
\<close>

theorem waiter_served:
  assumes "brainRun env ls s t" and "waitsIdle s" and "lsMemories s k = Some m"
    and "i < length (msWaiters m)" and "2 * (i + 1) \<le> ticksIn ls"
  shows "\<exists>rep. CheckOutMsg (msWaiters m ! i) rep \<in> set (drop (length (lsSent s)) (lsSent t))"
proof -
  have a: "msState m \<noteq> Available" using assms(2-4) by (auto simp: waitsIdle_def)
  have "waitsFor s (msWaiters m ! i) (2 * (i + 1))"
    unfolding waitsFor_def using assms(3,4) a holdTicks_le [of "msState m"]
    by (intro exI [of _ k] exI [of _ m] exI [of _ i]) simp
  then show ?thesis using run_waits [OF assms(1,2)] assms(5) unfolding servedIn_def by blast
qed

definition demoRequest :: "nat \<Rightarrow> checkOutRequest" where
  "demoRequest n = \<lparr>crKey = ''a'', crRw = True, crReply = n\<rparr>"

definition demoHeld :: "unit cacheState loopState" where
  "demoHeld = \<lparr>lsDatum = demoDatumState,
     lsMemories = [''a'' \<mapsto> \<lparr>msState = NewMemory, msToken = ''t'', msWaiters = [demoRequest 7]\<rparr>],
     lsSent = [], lsPaused = None, lsLocks = {}, lsQuit = False\<rparr>"

theorem waiter_served_witness:
  "\<exists>rep. CheckOutMsg (demoRequest 7) rep \<in> set (drop (length (lsSent demoHeld))
     (lsSent (tickMemories demoDatumEnv [''a''] (tickMemories demoDatumEnv [''a''] demoHeld))))"
proof -
  let ?t1 = "tickMemories demoDatumEnv [''a''] demoHeld"
  let ?m = "\<lparr>msState = NewMemory, msToken = ''t'', msWaiters = [demoRequest 7]\<rparr>"
  have h: "lsMemories demoHeld = [''a'' \<mapsto> ?m]" "lsPaused demoHeld = None" "\<not> lsQuit demoHeld" "waitsIdle demoHeld"
    by (auto simp: demoHeld_def waitsIdle_def)
  have t1: "dom (lsMemories ?t1) = {''a''}" "lsPaused ?t1 = None" "\<not> lsQuit ?t1"
    using h by (simp_all add: tickMemories_def tickMemory_def setMemory_def)
  have "brainStep demoDatumEnv Tick demoHeld ?t1" using h by (intro StepTick) simp_all
  moreover have "brainStep demoDatumEnv Tick ?t1 (tickMemories demoDatumEnv [''a''] ?t1)"
    using t1 by (intro StepTick) simp_all
  ultimately have "brainRun demoDatumEnv [Tick, Tick] demoHeld (tickMemories demoDatumEnv [''a''] ?t1)"
    by (auto simp: brainRun_Cons)
  from waiter_served [OF this h(4), of "''a''" ?m 0] h(1) show ?thesis by (simp add: ticksIn_def)
qed

subsection \<open>Holding\<close>

text \<open>
  On a brain that keeps its contract: every token handed out is the token of an earlier draw, and the
  reply that carries the current token of a memory carries its current value.
\<close>

definition tokensOk :: "('b, 'e) datumEnv \<Rightarrow> bool" where
  "tokensOk env \<longleftrightarrow> inj (deToken env) \<and> (\<forall>n. deToken env n \<noteq> [])"

definition plainAt :: "('b, 'e) datumEnv \<Rightarrow> ('b \<Rightarrow> string \<rightharpoonup> string) \<Rightarrow> 'b loopState \<Rightarrow> string \<Rightarrow> string option" where
  "plainAt env view s k =
     plainOf (deGcm env) (ckKey (dsCrypt (lsDatum s))) (view (dsBrain (lsDatum s)) k)"

lemma plainAt_frame [simp]:
  "plainAt env view (s\<lparr>lsMemories := M\<rparr>) = plainAt env view s"
  "plainAt env view (s\<lparr>lsSent := ms\<rparr>) = plainAt env view s"
  "plainAt env view (s\<lparr>lsPaused := p\<rparr>) = plainAt env view s"
  "plainAt env view (s\<lparr>lsLocks := L\<rparr>) = plainAt env view s"
  "plainAt env view (s\<lparr>lsQuit := b\<rparr>) = plainAt env view s"
  by (simp_all add: fun_eq_iff plainAt_def)

text \<open>\<open>X\<close> holds the keys with the tokens under which they were held when a client deleted them.\<close>

definition holdersOk :: "('b, 'e) datumEnv \<Rightarrow> ('b \<Rightarrow> string \<rightharpoonup> string) \<Rightarrow> (string \<times> string) set \<Rightarrow> 'b loopState \<Rightarrow> bool" where
  "holdersOk env view X s \<longleftrightarrow>
     (\<forall>creq rep. CheckOutMsg creq rep \<in> set (lsSent s) \<longrightarrow> cyToken rep \<noteq> [] \<longrightarrow>
        (\<exists>n < dsDraws (lsDatum s). cyToken rep = deToken env n) \<and>
        (\<forall>m. lsMemories s (crKey creq) = Some m \<longrightarrow> msToken m = cyToken rep \<longrightarrow> (crKey creq, cyToken rep) \<notin> X \<longrightarrow>
           cyBytes rep = plainAt env view s (crKey creq)))"

definition queuesOk :: "(string \<Rightarrow> bool) \<Rightarrow> 'b loopState \<Rightarrow> bool" where
  "queuesOk ok s \<longleftrightarrow> (\<forall>k m. lsMemories s k = Some m \<longrightarrow> ok k \<and> list_all (\<lambda>c. crKey c = k \<and> crRw c) (msWaiters m))"

definition datumOk :: "('b \<Rightarrow> bool) \<Rightarrow> 'b datumState \<Rightarrow> bool" where
  "datumOk good ds \<longleftrightarrow> unlocked (dsCrypt ds) \<and> good (dsBrain ds)"

fun eventKey :: "(string \<Rightarrow> bool) \<Rightarrow> loopLabel \<Rightarrow> bool" where
  "eventKey ok (Handle (CheckOutEvent creq)) = ok (crKey creq)"
| "eventKey ok (DeleteCall key tok held) = ok key"
| "eventKey ok l = True"

text \<open>A message with a new token, and a memory that takes it.\<close>

lemma holders_issue:
  assumes "holdersOk env view X s" and "tokensOk env"
    and "n = dsDraws (lsDatum s)" and "n < dsDraws (lsDatum t)"
    and "lsSent t = lsSent s @ [CheckOutMsg creq rep]"
    and "cyToken rep = deToken env n \<and> cyBytes rep = plainAt env view t (crKey creq) \<or> cyToken rep = []"
    and "\<forall>k. plainAt env view t k = plainAt env view s k"
    and "\<forall>k m. lsMemories t k = Some m \<longrightarrow>
        lsMemories s k = Some m \<or> msToken m = deToken env n \<and> k = crKey creq"
  shows "holdersOk env view X t"
proof -
  have new: "deToken env i \<noteq> deToken env n" if "i < n" for i
    using that assms(2) by (auto simp: tokensOk_def dest: injD)
  have "(\<exists>i < dsDraws (lsDatum t). cyToken r = deToken env i) \<and>
      (\<forall>m. lsMemories t (crKey c) = Some m \<longrightarrow> msToken m = cyToken r \<longrightarrow> (crKey c, cyToken r) \<notin> X \<longrightarrow>
         cyBytes r = plainAt env view t (crKey c))"
    if i: "CheckOutMsg c r \<in> set (lsSent t)" and ne: "cyToken r \<noteq> []" for c r
  proof (cases "CheckOutMsg c r \<in> set (lsSent s)")
    case True
    then obtain i where i: "i < n" "cyToken r = deToken env i"
      using assms(1,3) ne unfolding holdersOk_def by blast
    have "cyBytes r = plainAt env view t (crKey c)"
      if h: "lsMemories t (crKey c) = Some m" "msToken m = cyToken r" "(crKey c, cyToken r) \<notin> X" for m
    proof -
      have "lsMemories s (crKey c) = Some m" using assms(8) h(1,2) new [OF i(1)] i(2) by metis
      then show ?thesis using assms(1,7) True ne h unfolding holdersOk_def by simp
    qed
    then show ?thesis using i assms(4) by (auto intro: less_trans)
  next
    case False
    then have "c = creq" "r = rep" using i assms(5) by auto
    then show ?thesis using assms(3,4,6) ne by auto
  qed
  then show ?thesis unfolding holdersOk_def by blast
qed

text \<open>No new message with a token; the memories keep their token or lose their lock.\<close>

lemma holders_quiet:
  assumes "holdersOk env view X s" and "dsDraws (lsDatum s) \<le> dsDraws (lsDatum t)"
    and "\<forall>creq rep. CheckOutMsg creq rep \<in> set (lsSent t) \<longrightarrow> cyToken rep \<noteq> [] \<longrightarrow> CheckOutMsg creq rep \<in> set (lsSent s)"
    and "\<forall>k m. lsMemories t k = Some m \<longrightarrow> plainAt env view t k = plainAt env view s k \<and>
        (\<exists>m'. lsMemories s k = Some m' \<and> msToken m = msToken m')"
  shows "holdersOk env view X t"
  unfolding holdersOk_def
proof (intro allI impI conjI)
  fix c r
  assume m: "CheckOutMsg c r \<in> set (lsSent t)" and ne: "cyToken r \<noteq> []"
  then have i: "CheckOutMsg c r \<in> set (lsSent s)" using assms(3) by blast
  show "\<exists>n < dsDraws (lsDatum t). cyToken r = deToken env n"
    using assms(1,2) i ne unfolding holdersOk_def by (meson less_le_trans)
  fix m
  assume h: "lsMemories t (crKey c) = Some m" "msToken m = cyToken r" "(crKey c, cyToken r) \<notin> X"
  then obtain m' where "lsMemories s (crKey c) = Some m'" "msToken m' = cyToken r"
    "plainAt env view t (crKey c) = plainAt env view s (crKey c)" using assms(4) by metis
  then show "cyBytes r = plainAt env view t (crKey c)" using assms(1) i ne h(3) unfolding holdersOk_def by metis
qed

lemma queuesOk_set:
  "queuesOk ok s \<Longrightarrow> lsMemories t = (lsMemories s)(key := m) \<Longrightarrow>
   (\<And>m'. m = Some m' \<Longrightarrow> ok key \<and> list_all (\<lambda>c. crKey c = key \<and> crRw c) (msWaiters m')) \<Longrightarrow> queuesOk ok t"
  by (auto simp: queuesOk_def)

lemma relock_eq:
  "m\<lparr>msState := st, msToken := tok\<rparr> = \<lparr>msState = st, msToken = tok, msWaiters = msWaiters m\<rparr>"
  by (cases m) simp

context simple_brain
begin

abbreviation goodKey where
  "goodKey k \<equiv> okKey k \<and> validKey k"

definition loopOk where
  "loopOk env X s \<longleftrightarrow> datumOk good (lsDatum s) \<and> queuesOk goodKey s \<and> holdersOk env view X s"

lemma fetch_ok:
  assumes "deBrain env = Some provider" and "noncesOk env" and "datumOk good (lsDatum s)" and "goodKey k"
  obtains rep t where "fetchReply env k rw s = (rep, t)" and "cyRet rep = Ok"
    and "cyToken rep = (if rw then deToken env (dsDraws (lsDatum s)) else [])"
    and "cyBytes rep = plainAt env view s k" and "\<forall>k'. plainAt env view t k' = plainAt env view s k'"
    and "datumOk good (lsDatum t)" and "dsDraws (lsDatum s) + (if rw then 1 else 0) \<le> dsDraws (lsDatum t)"
    and "lsMemories t = lsMemories s" and "lsSent t = lsSent s"
proof -
  from get_datum [OF assms(1,2), of "lsDatum s" k rw] assms(3,4) obtain ds where
    g: "getDatum env k rw (lsDatum s) = ((fst (drawToken env rw (lsDatum s)),
      plainOf (deGcm env) (ckKey (dsCrypt (lsDatum s))) (view (dsBrain (lsDatum s)) k),
      view (dsBrain (lsDatum s)) k \<noteq> None, Ok), ds)"
    "good (dsBrain ds)" "dsCrypt ds = dsCrypt (lsDatum s)" "dsDraws (snd (drawToken env rw (lsDatum s))) \<le> dsDraws ds"
    "keepsPlain (ckKey (dsCrypt (lsDatum s))) view (deGcm env) (lsDatum s) ds"
    by (auto simp: datumOk_def)
  show ?thesis
    by (rule that [of _ "s\<lparr>lsDatum := ds\<rparr>"])
       (use g assms(3) in \<open>auto simp: fetchReply_def drawToken_def plainAt_def keepsPlain_def datumOk_def\<close>)
qed

lemma release_ok:
  assumes "deBrain env = Some provider" and "noncesOk env" and "tokensOk env"
    and "datumOk good (lsDatum s)" and "queuesOk goodKey s" and "holdersOk env view X (setMemory key None s)"
    and "lsMemories s key = Some m"
  shows "loopOk env X (releaseMemory env key m s)"
proof (cases "msWaiters m")
  case Nil
  then show ?thesis using assms(4-6)
    by (auto simp: releaseMemory_def loopOk_def setMemory_def intro: queuesOk_set)
next
  case (Cons creq ws)
  have q: "goodKey key" "crKey creq = key" "list_all (\<lambda>c. crKey c = key \<and> crRw c) ws"
    using assms(5,7) Cons unfolding queuesOk_def by fastforce+
  obtain rep t where f: "fetchReply env key True s = (rep, t)"
    "cyToken rep = deToken env (dsDraws (lsDatum s))"
    "cyBytes rep = plainAt env view s key" "\<forall>k'. plainAt env view t k' = plainAt env view s k'"
    "datumOk good (lsDatum t)" "Suc (dsDraws (lsDatum s)) \<le> dsDraws (lsDatum t)"
    "lsMemories t = lsMemories s" "lsSent t = lsSent s"
    by (rule fetch_ok [OF assms(1,2,4) q(1), of True]) simp
  let ?u = "sendMsg (CheckOutMsg creq rep) (setMemory key (Some \<lparr>msState = NewMemory, msToken = cyToken rep, msWaiters = ws\<rparr>) t)"
  have u: "releaseMemory env key m s = ?u" using Cons f(1) q(2) by (simp add: releaseMemory_def replyToWaiter_def)
  have "holdersOk env view X ?u"
    by (rule holders_issue [OF assms(6,3) refl]) (use f q in \<open>auto simp: loop_defs\<close>)
  moreover have "queuesOk goodKey ?u"
    by (rule queuesOk_set [OF assms(5), where key = key]) (use q f in \<open>auto simp: loop_defs\<close>)
  ultimately show ?thesis using f(5) unfolding u loopOk_def by (simp add: loop_defs)
qed

lemma loopOk_drop: "loopOk env X s \<Longrightarrow> holdersOk env view X (setMemory key None s)"
  unfolding loopOk_def by (elim conjE, rule holders_quiet, assumption) (auto simp: setMemory_def)

lemma checkOut_ok:
  assumes "deBrain env = Some provider" and "noncesOk env" and "tokensOk env" and "loopOk env X s" and "goodKey (crKey creq)"
  shows "loopOk env X (handleCheckOut env creq s)"
proof -
  have ok: "datumOk good (lsDatum s)" "queuesOk goodKey s" "holdersOk env view X s" using assms(4) by (auto simp: loopOk_def)
  obtain rep t where f: "fetchReply env (crKey creq) (crRw creq) s = (rep, t)" "cyRet rep = Ok"
    "cyToken rep = (if crRw creq then deToken env (dsDraws (lsDatum s)) else [])"
    "cyBytes rep = plainAt env view s (crKey creq)" "\<forall>k'. plainAt env view t k' = plainAt env view s k'"
    "datumOk good (lsDatum t)" "dsDraws (lsDatum s) + (if crRw creq then 1 else 0) \<le> dsDraws (lsDatum t)"
    "lsMemories t = lsMemories s" "lsSent t = lsSent s"
    using fetch_ok [OF assms(1,2) ok(1) assms(5)] by blast
  have lock: "loopOk env X (sendMsg (CheckOutMsg creq rep)
      (setMemory (crKey creq) (Some \<lparr>msState = NewMemory, msToken = cyToken rep, msWaiters = ws\<rparr>) t))"
    if "crRw creq" "list_all (\<lambda>c. crKey c = crKey creq \<and> crRw c) ws" for ws
  proof -
    let ?u = "sendMsg (CheckOutMsg creq rep)
      (setMemory (crKey creq) (Some \<lparr>msState = NewMemory, msToken = cyToken rep, msWaiters = ws\<rparr>) t)"
    have "holdersOk env view X ?u"
      by (rule holders_issue [OF ok(3) assms(3) refl]) (use f that in \<open>auto simp: loop_defs split: if_splits\<close>)
    moreover have "queuesOk goodKey ?u"
      by (rule queuesOk_set [OF ok(2), where key = "crKey creq"]) (use assms(5) f that in \<open>auto simp: loop_defs\<close>)
    ultimately show ?thesis using f(6) unfolding loopOk_def by (simp add: loop_defs)
  qed
  have quick: "loopOk env X (sendMsg (CheckOutMsg creq rep) t)" if "\<not> crRw creq"
  proof -
    have "holdersOk env view X (sendMsg (CheckOutMsg creq rep) t)"
      by (rule holders_quiet [OF ok(3)]) (use f that in \<open>auto simp: loop_defs\<close>)
    then show ?thesis using f ok(2) by (simp add: loopOk_def sendMsg_def queuesOk_def)
  qed
  show ?thesis
  proof (cases "lsMemories s (crKey creq)")
    case None
    then show ?thesis using f(1,2) lock [of "[]"] quick by (auto simp: handleCheckOut_def)
  next
    case (Some m)
    have w: "list_all (\<lambda>c. crKey c = crKey creq \<and> crRw c) (msWaiters m)" using ok(2) Some by (auto simp: queuesOk_def)
    have queued: "loopOk env X (setMemory (crKey creq) (Some (m\<lparr>msWaiters := msWaiters m @ [creq]\<rparr>)) s)" if "crRw creq"
    proof -
      let ?u = "setMemory (crKey creq) (Some (m\<lparr>msWaiters := msWaiters m @ [creq]\<rparr>)) s"
      have "holdersOk env view X ?u"
        by (rule holders_quiet [OF ok(3)]) (use Some in \<open>auto simp: setMemory_def\<close>)
      moreover have "queuesOk goodKey ?u"
        by (rule queuesOk_set [OF ok(2), where key = "crKey creq"]) (use assms(5) w that in \<open>auto simp: setMemory_def\<close>)
      ultimately show ?thesis using ok(1) unfolding loopOk_def by (simp add: setMemory_def)
    qed
    show ?thesis using Some f(1) lock [OF _ w] quick queued by (auto simp: handleCheckOut_def relock_eq)
  qed
qed

lemma update_ok:
  assumes "deBrain env = Some provider" and "noncesOk env" and "tokensOk env" and "loopOk env X s"
  shows "loopOk env X (handleUpdate env key token datum reply s)"
proof (cases "lsMemories s key")
  case None
  then show ?thesis using assms(4)
    by (auto simp: handleUpdate_def loopOk_def sendMsg_def queuesOk_def holdersOk_def)
next
  case (Some m)
  have ok: "datumOk good (lsDatum s)" "queuesOk goodKey s" "goodKey key"
    using assms(4) Some by (auto simp: loopOk_def queuesOk_def)
  from store_datum [OF assms(1,2), of "lsDatum s" key datum] ok validKey_text [of key] obtain ds c where
    st: "storeDatum env key datum (lsDatum s) = (Ok, ds)" "good (dsBrain ds)" "dsCrypt ds = dsCrypt (lsDatum s)"
    "dsDraws ds = Suc (dsDraws (lsDatum s))" "view (dsBrain ds) = (view (dsBrain (lsDatum s)))(key \<mapsto> c)"
    by (auto simp: datumOk_def)
  let ?t = "sendMsg (UpdateMsg reply Ok) (s\<lparr>lsDatum := ds\<rparr>)"
  have "loopOk env X (releaseMemory env key m ?t)"
  proof (rule release_ok [OF assms(1-3)])
    show "datumOk good (lsDatum ?t)" using st ok by (simp add: datumOk_def sendMsg_def)
    show "queuesOk goodKey ?t" using ok(2) by (simp add: queuesOk_def sendMsg_def)
    show "lsMemories ?t key = Some m" using Some by (simp add: sendMsg_def)
    show "holdersOk env view X (setMemory key None ?t)"
      by (rule holders_quiet [of env view X s]) (use assms(4) st in \<open>auto simp: loopOk_def loop_defs plainAt_def\<close>)
  qed
  moreover have "loopOk env X (sendMsg (UpdateMsg reply r) s)" for r
    using assms(4) by (auto simp: loopOk_def sendMsg_def queuesOk_def holdersOk_def)
  ultimately show ?thesis using Some st(1) by (simp add: handleUpdate_def)
qed

lemma checkIn_ok:
  assumes "deBrain env = Some provider" and "noncesOk env" and "tokensOk env" and "loopOk env X s"
  shows "loopOk env X (handleCheckIn env key token s)"
  using assms(4) release_ok [OF assms(1-3) _ _ loopOk_drop [OF assms(4)], of key]
  by (auto simp: handleCheckIn_def loopOk_def split: option.split)

lemma tick_ok:
  assumes "deBrain env = Some provider" and "noncesOk env" and "tokensOk env" and "loopOk env X s"
  shows "loopOk env X (tickMemory env key s)"
proof (cases "lsMemories s key")
  case (Some m)
  have keep: "loopOk env X (setMemory key (Some (m\<lparr>msState := st\<rparr>)) s)" for st
  proof -
    let ?u = "setMemory key (Some (m\<lparr>msState := st\<rparr>)) s"
    have "holdersOk env view X ?u"
      by (rule holders_quiet [of env view X s]) (use assms(4) Some in \<open>auto simp: loopOk_def setMemory_def\<close>)
    moreover have "queuesOk goodKey ?u"
      by (rule queuesOk_set [of goodKey s _ key]) (use assms(4) Some in \<open>auto simp: loopOk_def queuesOk_def setMemory_def\<close>)
    ultimately show ?thesis using assms(4) unfolding loopOk_def by (simp add: setMemory_def)
  qed
  have "loopOk env X (replyToWaiter env key m s)" if "msWaiters m \<noteq> []"
    using release_ok [OF assms(1-3) _ _ loopOk_drop [OF assms(4)] Some] assms(4) that
    by (simp add: loopOk_def releaseMemory_def)
  then show ?thesis using Some keep assms(4) by (auto simp: tickMemory_def split: memState.split)
qed (simp add: tickMemory_def assms)

lemma ticks_ok:
  assumes "deBrain env = Some provider" and "noncesOk env" and "tokensOk env"
  shows "loopOk env X s \<Longrightarrow> loopOk env X (tickMemories env order s)"
  by (induction order arbitrary: s) (simp_all add: tickMemories_def tick_ok [OF assms])

text \<open>The keys and the tokens under which memories were held when clients deleted them.\<close>

fun deletedUnder :: "loopLabel \<Rightarrow> (string \<times> string) set" where
  "deletedUnder (DeleteCall key tok held) = Pair key ` set_option held"
| "deletedUnder l = {}"

lemma loopOk_mono: "loopOk env X s \<Longrightarrow> X \<subseteq> Y \<Longrightarrow> loopOk env Y s"
  unfolding loopOk_def holdersOk_def by blast

lemma delete_ok:
  assumes "deBrain env = Some provider" and "okKey key" and "loopOk env X s"
    and "deleteDatum env key rep (lsDatum s) = (res, ds)"
  shows "loopOk env (X \<union> Pair key ` set_option (heldToken s key)) (s\<lparr>lsDatum := ds\<rparr>)"
proof -
  note d = delete_datum [OF assms(1) _ assms(2,4)]
  have ok: "datumOk good (lsDatum s)" "queuesOk goodKey s" "holdersOk env view X s" using assms(3) by (simp_all add: loopOk_def)
  have same: "plainAt env view (s\<lparr>lsDatum := ds\<rparr>) k = plainAt env view s k" if "k \<noteq> key" for k
    using d ok(1) that by (auto simp: plainAt_def datumOk_def)
  have "holdersOk env view (X \<union> Pair key ` set_option (heldToken s key)) (s\<lparr>lsDatum := ds\<rparr>)"
    unfolding holdersOk_def
  proof (intro allI impI conjI)
    fix creq r
    assume "CheckOutMsg creq r \<in> set (lsSent (s\<lparr>lsDatum := ds\<rparr>))" and ne: "cyToken r \<noteq> []"
    then have m: "CheckOutMsg creq r \<in> set (lsSent s)" by simp
    show "\<exists>n < dsDraws (lsDatum (s\<lparr>lsDatum := ds\<rparr>)). cyToken r = deToken env n"
      using ok(1,3) m ne d by (auto simp: holdersOk_def datumOk_def)
    fix m'
    assume h: "lsMemories (s\<lparr>lsDatum := ds\<rparr>) (crKey creq) = Some m'" "msToken m' = cyToken r"
      "(crKey creq, cyToken r) \<notin> X \<union> Pair key ` set_option (heldToken s key)"
    then have "crKey creq \<noteq> key" by (auto simp: heldToken_def)
    then show "cyBytes r = plainAt env view (s\<lparr>lsDatum := ds\<rparr>) (crKey creq)"
      using ok(3) m ne h same unfolding holdersOk_def by simp
  qed
  then show ?thesis using ok d by (simp add: loopOk_def datumOk_def queuesOk_def)
qed

lemma step_ok:
  assumes "deBrain env = Some provider" and "noncesOk env" and "tokensOk env"
    and "brainStep env l s t" and "eventKey goodKey l" and "loopOk env X s"
  shows "loopOk env (X \<union> deletedUnder l) t"
  using assms(4)
proof (cases rule: brainStep.cases)
  case (StepHandle evt)
  have "loopOk env X (s\<lparr>lsLocks := L, lsPaused := p\<rparr>)" "loopOk env X (sendMsg (QuitMsg r) (s\<lparr>lsQuit := b\<rparr>))" for L p r b
    using assms(6) by (auto simp: loopOk_def sendMsg_def queuesOk_def holdersOk_def)
  then show ?thesis using StepHandle assms(5,6) checkOut_ok [OF assms(1-3,6)] checkIn_ok [OF assms(1-3,6)] update_ok [OF assms(1-3,6)]
    by (auto simp: handleEvent_def split: brainEvent.split)
next
  case (StepTick order)
  then show ?thesis using ticks_ok [OF assms(1-3,6)] by simp
next
  case (StepDelete creq rep res ds)
  then show ?thesis using assms(5) delete_ok [OF assms(1) _ assms(6)] by simp
qed (use assms(6) in \<open>auto simp: resumeTask_def loopOk_def queuesOk_def holdersOk_def\<close>)

lemma run_ok:
  assumes "deBrain env = Some provider" and "noncesOk env" and "tokensOk env"
  shows "brainRun env ls s t \<Longrightarrow> list_all (eventKey goodKey) ls \<Longrightarrow> loopOk env X s \<Longrightarrow>
    loopOk env (X \<union> \<Union> (set (map deletedUnder ls))) t"
proof (induction arbitrary: X rule: brainRun.induct)
  case (RunMore l s t ls u)
  from RunMore.prems step_ok [OF assms RunMore.hyps(1)] have "loopOk env (X \<union> deletedUnder l) t" by simp
  from RunMore.IH [OF _ this] RunMore.prems(1) show ?case by (simp add: Un_assoc)
qed simp

lemma run_from_start:
  assumes "deBrain env = Some provider" and "noncesOk env" and "tokensOk env"
    and "brainRun env ls s t" and "list_all (eventKey goodKey) ls"
    and "datumOk good (lsDatum s)" and "lsMemories s = Map.empty" and "lsSent s = []"
  shows "loopOk env (\<Union> (set (map deletedUnder ls))) t"
proof -
  have "loopOk env {} s" using assms(6-8) by (auto simp: loopOk_def queuesOk_def holdersOk_def)
  from run_ok [OF assms(1-5) this] show ?thesis by simp
qed

lemma release_frame:
  assumes "deBrain env = Some provider" and "noncesOk env"
    and "datumOk good (lsDatum s)" and "queuesOk goodKey s" and "lsMemories s key = Some m"
  shows "plainAt env view (releaseMemory env key m s) k = plainAt env view s k \<and> sentMore s (releaseMemory env key m s)"
proof (cases "msWaiters m")
  case Nil
  then show ?thesis by (simp add: releaseMemory_def setMemory_def sentMore_def)
next
  case (Cons creq ws)
  have q: "goodKey key" "crKey creq = key" using assms(4,5) Cons unfolding queuesOk_def by fastforce+
  obtain rep t where "fetchReply env key True s = (rep, t)" "\<forall>k'. plainAt env view t k' = plainAt env view s k'"
    "lsSent t = lsSent s"
    by (rule fetch_ok [OF assms(1-3) q(1), of True]) simp
  then show ?thesis using Cons q(2) by (simp add: releaseMemory_def replyToWaiter_def loop_defs sentMore_def)
qed

lemma update_cases:
  assumes "deBrain env = Some provider" and "noncesOk env" and "loopOk env X s"
    and u_def: "u = handleUpdate env key token datum reply s"
  shows "lsDatum u = lsDatum s \<and> lsMemories u = lsMemories s \<and>
      (lsSent u = lsSent s @ [UpdateMsg reply DatumNotFound] \<or> lsSent u = lsSent s @ [UpdateMsg reply DatumLockExpired]) \<or>
    (\<exists>m. lsMemories s key = Some m \<and> msToken m = token) \<and>
      plainAt env view u key = Some datum \<and> UpdateMsg reply Ok \<in> set (drop (length (lsSent s)) (lsSent u))"
proof (cases "\<exists>m. lsMemories s key = Some m \<and> msToken m = token")
  case False
  then show ?thesis by (auto simp: u_def handleUpdate_def sendMsg_def split: option.split)
next
  case True
  then obtain m where m: "lsMemories s key = Some m" "msToken m = token" by blast
  have ok: "datumOk good (lsDatum s)" "queuesOk goodKey s" "goodKey key"
    using assms(3) m by (auto simp: loopOk_def queuesOk_def)
  from store_datum [OF assms(1,2), of "lsDatum s" key datum] ok validKey_text [of key] obtain ds c where
    st: "storeDatum env key datum (lsDatum s) = (Ok, ds)" "good (dsBrain ds)" "dsCrypt ds = dsCrypt (lsDatum s)"
    "view (dsBrain ds) = (view (dsBrain (lsDatum s)))(key \<mapsto> c)"
    "decrypt (deGcm env) c (ckKey (dsCrypt (lsDatum s))) = Some datum"
    by (auto simp: datumOk_def)
  let ?t = "sendMsg (UpdateMsg reply Ok) (s\<lparr>lsDatum := ds\<rparr>)"
  have u: "u = releaseMemory env key m ?t" using m st(1) by (simp add: u_def handleUpdate_def)
  have "plainAt env view ?t key = Some datum" using st by (simp add: plainAt_def plainOf_def sendMsg_def)
  moreover have "plainAt env view u key = plainAt env view ?t key \<and> sentMore ?t u"
    unfolding u using release_frame [OF assms(1,2), of ?t key m key] st ok m by (auto simp: datumOk_def sendMsg_def queuesOk_def)
  ultimately show ?thesis using m by (auto simp: sentMore_def sendMsg_def)
qed

lemma deletedUnder_iff:
  "(k, tok) \<in> \<Union> (set (map deletedUnder ls)) \<longleftrightarrow> (\<exists>own. DeleteCall k own (Some tok) \<in> set ls)"
proof -
  have "(k, tok) \<in> deletedUnder l \<longleftrightarrow> (\<exists>own. l = DeleteCall k own (Some tok))" for l by (cases l) auto
  then show ?thesis by auto
qed

lemma no_lost_update_law:
  assumes "deBrain env = Some provider" and "noncesOk env" and "tokensOk env"
    and "brainRun env ls s t" and "list_all (eventKey goodKey) ls"
    and "datumOk good (lsDatum s)" and "lsMemories s = Map.empty" and "lsSent s = []"
    and "CheckOutMsg creq rep \<in> set (lsSent t)" and "cyToken rep \<noteq> []"
    and "u = handleUpdate env (crKey creq) (cyToken rep) datum reply t"
  shows "lsDatum u = lsDatum t \<and> lsMemories u = lsMemories t \<and>
      (lsSent u = lsSent t @ [UpdateMsg reply DatumNotFound] \<or> lsSent u = lsSent t @ [UpdateMsg reply DatumLockExpired]) \<or>
    (plainAt env view t (crKey creq) = cyBytes rep \<or> (\<exists>tok. DeleteCall (crKey creq) tok (Some (cyToken rep)) \<in> set ls)) \<and>
      plainAt env view u (crKey creq) = Some datum \<and> UpdateMsg reply Ok \<in> set (drop (length (lsSent t)) (lsSent u))"
proof -
  have ok: "loopOk env (\<Union> (set (map deletedUnder ls))) t" by (rule run_from_start [OF assms(1-8)])
  then have "plainAt env view t (crKey creq) = cyBytes rep \<or> (\<exists>tok. DeleteCall (crKey creq) tok (Some (cyToken rep)) \<in> set ls)"
    if "lsMemories t (crKey creq) = Some m" "msToken m = cyToken rep" for m
    using that assms(9,10) ok unfolding loopOk_def holdersOk_def deletedUnder_iff [symmetric] by metis
  then show ?thesis using update_cases [OF assms(1,2) ok assms(11)] by metis
qed

end

text \<open>
  C7. No update is lost. On a cached brain whose disk does not fail, with the encryption key unlocked,
  from the start of the loop, whatever events arrive in whatever order and whenever clients delete
  memories: when a caller that got a value with a lock token updates it with that token, either it is
  told that the lock expired or is gone and nothing changes, or the memory now has the new value, and
  still had exactly the value the caller was given, unless a client's delete ran while the memory was
  held under that token.
\<close>

theorem no_lost_update:
  assumes "deBrain env = Some \<lparr>boStore = (\<lambda>k b. cacheStore benv k (Some b)), boRetrieve = cacheRetrieve,
      boDelete = cacheDelete benv\<rparr>"
    and "noncesOk env" and "tokensOk env"
    and "brainRun env ls s t" and "list_all (eventKey (plainKey benv)) ls"
    and "datumOk cacheGood (lsDatum s)" and "lsMemories s = Map.empty" and "lsSent s = []"
    and "CheckOutMsg creq rep \<in> set (lsSent t)" and "cyToken rep \<noteq> []"
    and "u = handleUpdate env (crKey creq) (cyToken rep) datum reply t"
  shows "lsDatum u = lsDatum t \<and> lsMemories u = lsMemories t \<and>
      (lsSent u = lsSent t @ [UpdateMsg reply DatumNotFound] \<or> lsSent u = lsSent t @ [UpdateMsg reply DatumLockExpired]) \<or>
    (plainAt env cacheView t (crKey creq) = cyBytes rep \<or> (\<exists>tok. DeleteCall (crKey creq) tok (Some (cyToken rep)) \<in> set ls)) \<and>
      plainAt env cacheView u (crKey creq) = Some datum \<and> UpdateMsg reply Ok \<in> set (drop (length (lsSent t)) (lsSent u))"
proof -
  have "(\<lambda>k. plainKey benv k \<and> validKey k) = plainKey benv" by (auto simp: plainKey_def fun_eq_iff)
  then show ?thesis using cached.no_lost_update_law [OF assms(1-4) _ assms(6-11)] assms(5) by simp
qed

definition demoLoop :: "unit cacheState loopState" where
  "demoLoop = \<lparr>lsDatum = demoDatumState, lsMemories = Map.empty, lsSent = [], lsPaused = None, lsLocks = {}, lsQuit = False\<rparr>"

text \<open>The witness checks a memory out and updates it.\<close>

theorem no_lost_update_witness:
  "let t = handleEvent demoDatumEnv (CheckOutEvent (demoRequest 7)) demoLoop;
       u = handleUpdate demoDatumEnv ''a'' ''t'' ''new'' 8 t
   in lsDatum u = lsDatum t \<and> lsMemories u = lsMemories t \<and>
      (lsSent u = lsSent t @ [UpdateMsg 8 DatumNotFound] \<or> lsSent u = lsSent t @ [UpdateMsg 8 DatumLockExpired]) \<or>
      plainAt demoDatumEnv cacheView t ''a'' = None \<and> plainAt demoDatumEnv cacheView u ''a'' = Some ''new'' \<and>
      UpdateMsg 8 Ok \<in> set (drop (length (lsSent t)) (lsSent u))"
proof -
  let ?t = "handleEvent demoDatumEnv (CheckOutEvent (demoRequest 7)) demoLoop"
  let ?rep = "\<lparr>cyToken = ''t'', cyBytes = None, cyExists = False, cyRet = Ok\<rparr>"
  have k: "plainKey localEnv ''a''" "validKey ''a''" by code_simp+
  have i: "inj (\<lambda>n. replicate (Suc n) CHR ''t'')" by (rule injI) (metis length_replicate nat.inject)
  have tok: "tokensOk demoDatumEnv" using i by (simp add: tokensOk_def demoDatumEnv_def)
  have run: "brainRun demoDatumEnv [Handle (CheckOutEvent (demoRequest 7))] demoLoop ?t"
    by (rule RunMore [OF StepHandle]) (simp_all add: demoLoop_def)
  have ev: "list_all (eventKey (plainKey localEnv)) [Handle (CheckOutEvent (demoRequest 7))]"
    using k by (simp add: demoRequest_def)
  have start: "datumOk cacheGood (lsDatum demoLoop)" "lsMemories demoLoop = Map.empty" "lsSent demoLoop = []"
    using demoDatum_ok(3,4) by (simp_all add: demoLoop_def datumOk_def)
  have sent: "CheckOutMsg (demoRequest 7) ?rep \<in> set (lsSent ?t)"
    using k(2) by (simp add: handleEvent_def handleCheckOut_def demoLoop_def demoRequest_def fetchReply_def getDatum_def
      drawToken_def onBrain_def demoDatumEnv_def demoDatumState_def emptyCache_def cacheRetrieve_def cache_run loop_defs)
  have "cyToken ?rep \<noteq> []" by simp
  from no_lost_update [OF demoDatum_ok(1,2) tok run ev start sent this refl, of "''new''" 8] show ?thesis
    by (simp add: demoRequest_def Let_def)
qed

text \<open>
  The exception of the property above is real: a caller of \<open>deleteDatum\<close> that loses its lock before it
  gets to the provider deletes all the same, and an update by the next holder, accepted, brings the
  memory back.
\<close>

definition demoLate :: "unit cacheState loopState list" where
  "demoLate =
     (let s1 = handleEvent demoDatumEnv (CheckOutEvent (demoRequest 1)) demoLoop;
          s2 = handleEvent demoDatumEnv (UpdateEvent ''a'' ''t'' ''v'' 2) s1;
          s3 = handleEvent demoDatumEnv (CheckOutEvent (demoRequest 3)) s2;
          s4 = tickMemories demoDatumEnv [''a''] s3;
          s5 = tickMemories demoDatumEnv [''a''] s4
      in [s1, s2, s3, s4, s5, handleEvent demoDatumEnv (CheckOutEvent (demoRequest 4)) s5])"

lemma demoLate_run:
  "brainRun demoDatumEnv
     [Handle (CheckOutEvent (demoRequest 1)), Handle (UpdateEvent ''a'' ''t'' ''v'' 2),
      Handle (CheckOutEvent (demoRequest 3)), Tick, Tick, Handle (CheckOutEvent (demoRequest 4))] demoLoop (demoLate ! 5)"
proof -
  have other: "lsMemories s k = None \<Longrightarrow> k \<noteq> ''a'' \<Longrightarrow> lsMemories (handleEvent demoDatumEnv e s) k = None"
    if "e = CheckOutEvent (demoRequest n) \<or> e = UpdateEvent ''a'' tok d n" for s k n e tok d
    using that by (auto simp: handleEvent_def handleCheckOut_def handleUpdate_def releaseMemory_def replyToWaiter_def
      demoRequest_def loop_defs split: option.splits prod.splits list.splits dest!: fetch_frame)
  have tick: "lsMemories (tickMemories demoDatumEnv [''a''] s) k = lsMemories s k" if "k \<noteq> ''a''" for s k
    using tick_frame [of s demoDatumEnv "[''a'']" k] that by simp
  have none: "lsMemories (demoLate ! 2) k = None" "lsMemories (demoLate ! 3) k = None" if "k \<noteq> ''a''" for k
  proof -
    have "lsMemories demoLoop k = None" by (simp add: demoLoop_def)
    then show "lsMemories (demoLate ! 2) k = None" unfolding demoLate_def Let_def using that by (simp add: other)
    then show "lsMemories (demoLate ! 3) k = None" unfolding demoLate_def Let_def using that by (simp add: tick)
  qed
  have "lsMemories (demoLate ! 2) ''a'' \<noteq> None" by code_simp
  moreover have "lsMemories (demoLate ! 3) ''a'' \<noteq> None" by code_simp
  ultimately have dom: "{''a''} = dom (lsMemories (demoLate ! 2))" "{''a''} = dom (lsMemories (demoLate ! 3))"
    using none by fastforce+
  have go: "list_all (\<lambda>s. lsPaused s = None \<and> \<not> lsQuit s) (demoLoop # demoLate)" by code_simp
  note seq = demoLate_def Let_def
  have "brainStep demoDatumEnv (Handle (CheckOutEvent (demoRequest 1))) demoLoop (demoLate ! 0)"
    "brainStep demoDatumEnv (Handle (UpdateEvent ''a'' ''t'' ''v'' 2)) (demoLate ! 0) (demoLate ! 1)"
    "brainStep demoDatumEnv (Handle (CheckOutEvent (demoRequest 3))) (demoLate ! 1) (demoLate ! 2)"
    "brainStep demoDatumEnv Tick (demoLate ! 2) (demoLate ! 3)"
    "brainStep demoDatumEnv Tick (demoLate ! 3) (demoLate ! 4)"
    "brainStep demoDatumEnv (Handle (CheckOutEvent (demoRequest 4))) (demoLate ! 4) (demoLate ! 5)"
    using StepHandle [of demoLoop demoDatumEnv "CheckOutEvent (demoRequest 1)"]
      StepHandle [of "demoLate ! 0" demoDatumEnv "UpdateEvent ''a'' ''t'' ''v'' 2"]
      StepHandle [of "demoLate ! 1" demoDatumEnv "CheckOutEvent (demoRequest 3)"]
      StepTick [of "demoLate ! 2" "[''a'']" demoDatumEnv] StepTick [of "demoLate ! 3" "[''a'']" demoDatumEnv]
      StepHandle [of "demoLate ! 4" demoDatumEnv "CheckOutEvent (demoRequest 4)"] go dom
    by (simp_all add: seq)
  then show ?thesis by (blast intro: RunMore RunDone)
qed

lemma brainRun_snoc: "brainRun env ls s t \<Longrightarrow> brainStep env l t u \<Longrightarrow> brainRun env (ls @ [l]) s u"
  by (induction rule: brainRun.induct) (auto intro: RunMore RunDone)

lemma late_delete_lost:
  "\<exists>ls s. brainRun demoDatumEnv ls demoLoop s \<and> DeleteCall ''a'' ''ttt'' (Some ''tttt'') \<in> set ls \<and>
     plainAt demoDatumEnv cacheView s ''a'' = None \<and>
     plainAt demoDatumEnv cacheView (handleUpdate demoDatumEnv ''a'' ''tttt'' ''w'' 5 s) ''a'' = Some ''w''"
proof -
  let ?rep = "\<lparr>cyToken = ''ttt'', cyBytes = Some ''v'', cyExists = True, cyRet = Ok\<rparr>"
  let ?s = "demoLate ! 5"
  let ?u = "?s\<lparr>lsDatum := snd (deleteDatum demoDatumEnv ''a'' ?rep (lsDatum ?s))\<rparr>"
  have "CheckOutMsg (demoRequest 3) ?rep \<in> set (lsSent ?s)" by code_simp
  moreover have "heldToken ?s ''a'' = Some ''tttt''" by code_simp
  ultimately have "brainStep demoDatumEnv (DeleteCall ''a'' ''ttt'' (Some ''tttt'')) ?s ?u"
    using StepDelete [of "demoRequest 3" ?rep ?s demoDatumEnv, OF _ _ surjective_pairing] by (simp add: demoRequest_def)
  note run = brainRun_snoc [OF demoLate_run this]
  have "plainAt demoDatumEnv cacheView ?u ''a'' = None" by code_simp
  moreover have "plainAt demoDatumEnv cacheView (handleUpdate demoDatumEnv ''a'' ''tttt'' ''w'' 5 ?u) ''a'' = Some ''w''" by code_simp
  ultimately show ?thesis by - (rule exI, rule exI, rule conjI, rule run, simp)
qed

end
