(* ===== verification/DatumCalls.thy ===== *)
theory DatumCalls
  imports BrainLoop
begin

text \<open>
  Sequences of datum operations (bot/brain.go) on a brain that keeps its contract: what was stored
  last under a key is what the key gives back, through encryption, the conversion of unencrypted
  memories and the provider.
\<close>

datatype datumCall = StoreCall string string | FetchCall string bool | RemoveCall string checkOutReply

fun callKey :: "datumCall \<Rightarrow> string" where
  "callKey (StoreCall k d) = k"
| "callKey (FetchCall k rw) = k"
| "callKey (RemoveCall k rep) = k"

fun callWrites :: "datumCall \<Rightarrow> bool" where
  "callWrites (FetchCall k rw) = False"
| "callWrites c = True"

fun datumStep :: "('b, 'e) datumEnv \<Rightarrow> datumCall \<Rightarrow> 'b datumState \<Rightarrow> 'b datumState" where
  "datumStep env (StoreCall k d) s = snd (storeDatum env k d s)"
| "datumStep env (FetchCall k rw) s = snd (getDatum env k rw s)"
| "datumStep env (RemoveCall k rep) s = snd (deleteDatum env k rep s)"

definition datumRun :: "('b, 'e) datumEnv \<Rightarrow> datumCall list \<Rightarrow> 'b datumState \<Rightarrow> 'b datumState" where
  "datumRun env cs s = foldl (\<lambda>s c. datumStep env c s) s cs"

context simple_brain
begin

definition datumIs where
  "datumIs env crypt k d s \<longleftrightarrow> good (dsBrain s) \<and> dsCrypt s = crypt \<and>
     plainOf (deGcm env) (ckKey crypt) (view (dsBrain s) k) = Some d"

lemma datumIs_step:
  assumes "deBrain env = Some provider" and "noncesOk env" and "unlocked crypt" and "datumIs env crypt k d s"
    and "okKey (callKey c) \<and> validKey (callKey c)" and "callWrites c \<longrightarrow> callKey c \<noteq> k"
  shows "datumIs env crypt k d (datumStep env c s)"
proof (cases c)
  case (StoreCall k' d')
  then show ?thesis using store_datum [OF assms(1,2), of s k' d'] assms(3-6) validKey_text [of k']
    by (auto simp: datumIs_def)
next
  case (FetchCall k' rw)
  then show ?thesis using get_datum [OF assms(1,2), of s k' rw] assms(3-6) by (auto simp: datumIs_def keepsPlain_def)
next
  case (RemoveCall k' rep)
  obtain res t where "deleteDatum env k' rep s = (res, t)" by (cases "deleteDatum env k' rep s")
  then show ?thesis using delete_datum [OF assms(1) _ _, of s k' rep res t] assms(4-6) RemoveCall
    by (auto simp: datumIs_def)
qed

lemma datumIs_run:
  assumes "deBrain env = Some provider" and "noncesOk env" and "unlocked crypt"
  shows "datumIs env crypt k d s \<Longrightarrow>
    list_all (\<lambda>c. (okKey (callKey c) \<and> validKey (callKey c)) \<and> (callWrites c \<longrightarrow> callKey c \<noteq> k)) cs \<Longrightarrow>
    datumIs env crypt k d (datumRun env cs s)"
  by (induction cs arbitrary: s) (simp_all add: datumRun_def datumIs_step [OF assms])

lemma datum_kept:
  assumes "deBrain env = Some provider" and "noncesOk env" and "unlocked (dsCrypt s)"
    and "good (dsBrain s)" and "okKey k" and "validKey k"
    and "list_all (\<lambda>c. (okKey (callKey c) \<and> validKey (callKey c)) \<and> (callWrites c \<longrightarrow> callKey c \<noteq> k)) cs"
  shows "\<exists>t u tok. storeDatum env k d s = (Ok, t) \<and> getDatum env k rw (datumRun env cs t) = ((tok, Some d, True, Ok), u)"
proof -
  from store_datum [OF assms(1-5) validKey_text [OF assms(6)], of d] obtain t c where
    t: "storeDatum env k d s = (Ok, t)" "good (dsBrain t)" "dsCrypt t = dsCrypt s"
    "view (dsBrain t) = (view (dsBrain s))(k \<mapsto> c)" "decrypt (deGcm env) c (ckKey (dsCrypt s)) = Some d" by blast
  have "datumIs env (dsCrypt s) k d (datumRun env cs t)"
    by (rule datumIs_run [OF assms(1-3) _ assms(7)]) (use t in \<open>simp add: datumIs_def plainOf_def\<close>)
  then have v: "good (dsBrain (datumRun env cs t))" "dsCrypt (datumRun env cs t) = dsCrypt s"
    "plainOf (deGcm env) (ckKey (dsCrypt s)) (view (dsBrain (datumRun env cs t)) k) = Some d" by (auto simp: datumIs_def)
  then have "view (dsBrain (datumRun env cs t)) k \<noteq> None" by (auto simp: plainOf_def)
  with get_datum [OF assms(1,2) _ v(1) assms(5,6), of rw] v(2,3) assms(3) t(1) show ?thesis by auto
qed

end

text \<open>
  C29. On a cached brain whose disk does not fail, with the encryption key unlocked, a datum that is
  stored is what every later checkout returns, read-only or not, whatever stores and deletes of other
  memories and whatever checkouts come in between: encryption, the conversion of unencrypted memories
  and the cache are invisible.
\<close>

theorem cached_datum_roundtrip:
  assumes "deBrain env = Some \<lparr>boStore = (\<lambda>k b. cacheStore benv k (Some b)), boRetrieve = cacheRetrieve,
      boDelete = cacheDelete benv\<rparr>"
    and "noncesOk env" and "unlocked (dsCrypt s)" and "cacheGood (dsBrain s)" and "plainKey benv k"
    and "list_all (\<lambda>c. plainKey benv (callKey c) \<and> (callWrites c \<longrightarrow> callKey c \<noteq> k)) cs"
  shows "\<exists>t u tok. storeDatum env k d s = (Ok, t) \<and> getDatum env k rw (datumRun env cs t) = ((tok, Some d, True, Ok), u)"
proof -
  have v: "plainKey benv k' \<Longrightarrow> validKey k'" for k' by (simp add: plainKey_def)
  then have "list_all (\<lambda>c. (plainKey benv (callKey c) \<and> validKey (callKey c)) \<and> (callWrites c \<longrightarrow> callKey c \<noteq> k)) cs"
    using assms(6) by (auto simp: list_all_iff)
  from cached.datum_kept [OF assms(1-5) v [OF assms(5)] this] show ?thesis .
qed

text \<open>The witness reads the note between a store and a delete of another memory.\<close>

theorem cached_datum_roundtrip_witness:
  "let cs = [FetchCall ''bot:note'' True, StoreCall ''bot:other'' ''x'',
         RemoveCall ''bot:other'' \<lparr>cyToken = ''t'', cyBytes = None, cyExists = False, cyRet = Ok\<rparr>]
   in \<exists>t u tok. storeDatum demoDatumEnv ''bot:note'' ''hi'' demoDatumState = (Ok, t) \<and>
    getDatum demoDatumEnv ''bot:note'' True (datumRun demoDatumEnv cs t) = ((tok, Some ''hi'', True, Ok), u)"
proof -
  let ?cs = "[FetchCall ''bot:note'' True, StoreCall ''bot:other'' ''x'',
    RemoveCall ''bot:other'' \<lparr>cyToken = ''t'', cyBytes = None, cyExists = False, cyRet = Ok\<rparr>]"
  have "plainKey localEnv ''bot:note''" "plainKey localEnv ''bot:other''" by code_simp+
  then have "list_all (\<lambda>c. plainKey localEnv (callKey c) \<and> (callWrites c \<longrightarrow> callKey c \<noteq> ''bot:note'')) ?cs" by simp
  from cached_datum_roundtrip [OF demoDatum_ok \<open>plainKey localEnv ''bot:note''\<close> this, of "''hi''" True]
  show ?thesis by simp
qed

end
