(* ===== verification/BrainLock.thy ===== *)
theory BrainLock
  imports BrainCacheSync BrainDatum
begin

text \<open>
  The instance lock of a robot (bot/brain_lock.go): one memory of the brain that says which robot
  process owns it. At startup a robot reads the lock, straight from the remote brain when there is
  one, refuses to start when another process holds it or when its own cache is older than the
  released lock, verifies its last write to the cloud, and then writes the lock as held. The text of
  the lock (\<open>encoding/json\<close>) is a pair of parameters with the law that decoding an encoded lock gives
  it back; \<open>leCached\<close> says whether the configured brain is the cached brain.
\<close>

subsection \<open>Data\<close>

definition brainLockHeld :: string where
  "brainLockHeld = ''held''"

definition brainLockReleased :: string where
  "brainLockReleased = ''released''"

record instanceLockData =
  ilState :: string
  ilLockID :: string
  ilCacheNonceHash :: string
  ilRobotName :: string
  ilFullName :: string
  ilHostname :: string
  ilPID :: int
  ilStartMode :: string
  ilInstallPath :: string
  ilHomePath :: string
  ilConfigPath :: string
  ilCustomRepository :: string
  ilVersion :: string
  ilCommit :: string
  ilStartTime :: string
  ilAcquiredAt :: string
  ilReleasedAt :: string
  ilDatabaseVersion :: cacheVersion

text \<open>
  \<open>leIdentity\<close> holds the fields that describe this process; \<open>leNow\<close> is the current time as RFC 3339
  text.
\<close>

record 'r lockEnv =
  leDatum :: "('r cacheState, brainError) datumEnv"
  leCache :: "'r brainEnv"
  leCached :: bool
  leEncode :: "instanceLockData \<Rightarrow> string option"
  leDecode :: "string \<Rightarrow> instanceLockData option"
  leIdentity :: instanceLockData
  leNow :: "nat \<Rightarrow> string"

datatype lockError =
  LockBrainError brainError | LockReturned RetVal | LockDecrypt | LockDecode | LockEncode | LockEmptyData
| LockPersistID brainError | LockTooNew cacheVersion cacheVersion

type_synonym ('r, 'a) lockOp = "('r cacheState datumState, lockError, 'a) op"

subsection \<open>What the robot knows of its brain\<close>

definition lockControl :: "'r cacheState datumState \<Rightarrow> brainControl" where
  "lockControl s = csControl (dsBrain s)"

definition currentBrainDatabaseVersion :: "'r lockEnv \<Rightarrow> 'r cacheState datumState \<Rightarrow> cacheVersion" where
  "currentBrainDatabaseVersion env s = (if leCached env then latestDatabaseVersion (lockControl s) else 0)"

definition currentBrainCacheNonceHash :: "'r lockEnv \<Rightarrow> 'r cacheState datumState \<Rightarrow> string" where
  "currentBrainCacheNonceHash env s =
     (if leCached env then hashBrainCacheNonce (leCache env) (bcCacheNonce (lockControl s)) else [])"

definition currentBrainLockID :: "'r lockEnv \<Rightarrow> 'r cacheState datumState \<Rightarrow> string" where
  "currentBrainLockID env s = (if leCached env then bcActiveLockID (lockControl s) else [])"

text \<open>One call on the cached brain, with its error wrapped.\<close>

definition onCache :: "(brainError \<Rightarrow> lockError) \<Rightarrow> ('r, 'a) brainOp \<Rightarrow> ('r, 'a) lockOp" where
  "onCache wrap m s = (case onBrain m s of (Inl e, t) \<Rightarrow> (Inl (wrap e), t) | (Inr x, t) \<Rightarrow> (Inr x, t))"

definition setCurrentBrainLockID :: "'r lockEnv \<Rightarrow> string \<Rightarrow> ('r, unit) lockOp" where
  "setCurrentBrainLockID env lockID =
     (if leCached env then onCache LockPersistID (setActiveLockID lockID) else ret ())"

subsection \<open>Writing and reading the lock\<close>

definition newInstanceLockData ::
    "'r lockEnv \<Rightarrow> string \<Rightarrow> string \<Rightarrow> cacheVersion \<Rightarrow> 'r cacheState datumState \<Rightarrow> instanceLockData" where
  "newInstanceLockData env stateName lockID databaseVersion s =
     (let now = leNow env (csNow (dsBrain s));
          lock = (leIdentity env)\<lparr>ilState := stateName, ilLockID := lockID,
            ilCacheNonceHash := currentBrainCacheNonceHash env s, ilStartTime := [], ilAcquiredAt := [],
            ilReleasedAt := [], ilDatabaseVersion := databaseVersion\<rparr>
      in if stateName = brainLockReleased then lock\<lparr>ilReleasedAt := now\<rparr>
         else lock\<lparr>ilStartTime := now, ilAcquiredAt := now\<rparr>)"

definition storeLock :: "'r lockEnv \<Rightarrow> instanceLockData \<Rightarrow> ('r, unit) lockOp" where
  "storeLock env lock s =
     (case leEncode env lock of
        None \<Rightarrow> (Inl LockEncode, s)
      | Some data \<Rightarrow>
          (case storeDatum (leDatum env) brainLockKey data s of
             (r, t) \<Rightarrow> if r \<noteq> Ok then (Inl (LockReturned r), t) else (Inr (), t)))"

definition writeBrainLock :: "'r lockEnv \<Rightarrow> string \<Rightarrow> ('r, unit) lockOp" where
  "writeBrainLock env stateName =
     bindOp (\<lambda>s. (Inr (currentBrainLockID env s), s)) (\<lambda>current.
       bindOp (if stateName = brainLockHeld
               then bindOp (onCache LockBrainError randomBrainCacheID) (\<lambda>lockID.
                 andThen (setCurrentBrainLockID env lockID) (ret lockID))
               else ret current) (\<lambda>lockID.
         (\<lambda>s. storeLock env (newInstanceLockData env stateName lockID (currentBrainDatabaseVersion env s) s) s)))"

text \<open>\<open>decryptMemoryPayload\<close> (bot/cli_commands.go).\<close>

definition decryptMemoryPayload :: "'r lockEnv \<Rightarrow> string \<Rightarrow> 'r cacheState datumState \<Rightarrow> string option" where
  "decryptMemoryPayload env payload s =
     (if \<not> ckInitialized (dsCrypt s) then None
      else decrypt (deGcm (leDatum env)) payload (ckKey (dsCrypt s)))"

definition readBrainLockForStartup :: "'r lockEnv \<Rightarrow> ('r, instanceLockData option) lockOp" where
  "readBrainLockForStartup env s =
     (case (leCached env, beRemote (leCache env)) of
        (True, Some remote) \<Rightarrow>
          (case onCache LockBrainError (onRemote (roGet remote brainLockKey)) s of
             (Inl e, t) \<Rightarrow> (Inl e, t)
           | (Inr None, t) \<Rightarrow> (Inr None, t)
           | (Inr (Some rec), t) \<Rightarrow>
               if rrDeleted rec then (Inr None, t)
               else (case decryptMemoryPayload env (rrPayload rec) t of
                  None \<Rightarrow> (Inl LockDecrypt, t)
                | Some plain \<Rightarrow>
                    (case leDecode env plain of None \<Rightarrow> (Inl LockDecode, t) | Some lock \<Rightarrow> (Inr (Some lock), t))))
      | _ \<Rightarrow>
          (case getDatum (leDatum env) brainLockKey False s of
             ((tok, existing, exists, r), t) \<Rightarrow>
               if r \<noteq> Ok then (Inl (LockReturned r), t)
               else if \<not> exists then (Inr None, t)
               else (case existing of
                  None \<Rightarrow> (Inl LockEmptyData, t)
                | Some plain \<Rightarrow>
                    (case leDecode env plain of None \<Rightarrow> (Inl LockDecode, t) | Some lock \<Rightarrow> (Inr (Some lock), t)))))"

subsection \<open>Acquiring and releasing\<close>

definition canReclaimHeldBrainLock :: "'r lockEnv \<Rightarrow> instanceLockData \<Rightarrow> 'r cacheState datumState \<Rightarrow> bool" where
  "canReclaimHeldBrainLock env lock s =
     (let active = currentBrainLockID env s; expectedHash = currentBrainCacheNonceHash env s in
      if active = [] \<or> ilLockID lock = [] \<or> ilLockID lock \<noteq> active then False
      else expectedHash \<noteq> [] \<and> ilCacheNonceHash lock = expectedHash)"

definition validateReleasedBrainLock :: "'r lockEnv \<Rightarrow> instanceLockData \<Rightarrow> 'r cacheState datumState \<Rightarrow> lockError option" where
  "validateReleasedBrainLock env lock s =
     (let localVersion = currentBrainDatabaseVersion env s in
      if ilDatabaseVersion lock > localVersion then Some (LockTooNew (ilDatabaseVersion lock) localVersion) else None)"

definition formatHeldBrainLockMessage :: "instanceLockData \<Rightarrow> string" where
  "formatHeldBrainLockMessage lock =
     (let nl = [CHR 0x0A]; started = (if ilStartTime lock = [] then ilAcquiredAt lock else ilStartTime lock) in
      ''Brain instance lock held by another robot instance:'' @ nl @
      ''  Robot:   '' @ ilRobotName lock @ '' ('' @ ilFullName lock @ '')'' @ nl @
      ''  Host:    '' @ ilHostname lock @ ''  PID: '' @ fmtInt (ilPID lock) @ nl @
      ''  Mode:    '' @ ilStartMode lock @ ''  Started: '' @ started @ nl @
      ''  Version: Gopherbot '' @ ilVersion lock @ '' commit '' @ ilCommit lock @ nl @
      ''  Home:    '' @ ilHomePath lock @ nl @
      ''  Config:  '' @ ilConfigPath lock @ nl @
      ''If this lock is stale, inspect it with: gopherbot fetch -cloud '' @ brainLockKey)"

text \<open>\<open>Log(robot.Fatal, ...)\<close> ends the process; the model returns why.\<close>

datatype fatalError =
  LockCheckFailed lockError | LockHeldBy string | LockReleasedTooNew lockError | LockUnknownState string
| LastWriteUnverified lockError | LockNotAcquired lockError | OutboxUnreadable brainError

datatype ('s) startup = Started 's | Died fatalError 's | StillFlushing

definition lockDecision :: "'r lockEnv \<Rightarrow> instanceLockData option \<Rightarrow> 'r cacheState datumState \<Rightarrow> fatalError option" where
  "lockDecision env found s =
     (case found of
        None \<Rightarrow> None
      | Some lock \<Rightarrow>
          (let stateName = (if ilState lock = [] then brainLockHeld else ilState lock) in
           if stateName = brainLockHeld then
             (if canReclaimHeldBrainLock env lock s then None
              else Some (LockHeldBy (formatHeldBrainLockMessage lock)))
           else if stateName = brainLockReleased then
             map_option LockReleasedTooNew (validateReleasedBrainLock env lock s)
           else Some (LockUnknownState stateName)))"

definition verifyBrainCacheLastCloudWrite :: "'r lockEnv \<Rightarrow> ('r, unit) lockOp" where
  "verifyBrainCacheLastCloudWrite env =
     (if leCached env then onCache LockBrainError (verifyLastCloudWrite (leCache env)) else ret ())"

text \<open>The replay of the outbox flushes the cache; \<open>fuel\<close> bounds the turns of that flush.\<close>

definition replayBrainCacheOutboxOnStartup ::
    "nat \<Rightarrow> 'r lockEnv \<Rightarrow> 'r cacheState datumState \<Rightarrow> 'r cacheState datumState startup" where
  "replayBrainCacheOutboxOnStartup fuel env s =
     (if \<not> leCached env \<or> beRemote (leCache env) = None then Started s
      else (case onBrain outboxEntries s of
         (Inl e, t) \<Rightarrow> Died (OutboxUnreadable e) t
       | (Inr pending, t) \<Rightarrow>
           if pending = [] then Started t
           else (case flush fuel (leCache env) (dsBrain t) of
              None \<Rightarrow> StillFlushing
            | Some b \<Rightarrow> Started (t\<lparr>dsBrain := b\<rparr>))))"

definition acquireBrainLock ::
    "nat \<Rightarrow> 'r lockEnv \<Rightarrow> 'r cacheState datumState \<Rightarrow> 'r cacheState datumState startup" where
  "acquireBrainLock fuel env s =
     (case readBrainLockForStartup env s of
        (Inl e, t) \<Rightarrow> Died (LockCheckFailed e) t
      | (Inr found, t) \<Rightarrow>
          (case lockDecision env found t of
             Some why \<Rightarrow> Died why t
           | None \<Rightarrow>
               (case verifyBrainCacheLastCloudWrite env t of
                  (Inl e, u) \<Rightarrow> Died (LastWriteUnverified e) u
                | (Inr _, u) \<Rightarrow>
                    (case writeBrainLock env brainLockHeld u of
                       (Inl e, v) \<Rightarrow> Died (LockNotAcquired e) v
                     | (Inr _, v) \<Rightarrow> replayBrainCacheOutboxOnStartup fuel env v))))"

definition releaseBrainLock :: "'r lockEnv \<Rightarrow> 'r cacheState datumState \<Rightarrow> bool \<times> 'r cacheState datumState" where
  "releaseBrainLock env s =
     (if deBrain (leDatum env) = None then (False, s)
      else (case writeBrainLock env brainLockReleased s of
              (Inl e, t) \<Rightarrow> (False, t)
            | (Inr _, t) \<Rightarrow> (True, t)))"

subsection \<open>Only the owner gets past a held lock\<close>

definition sameDisk :: "'r cacheState \<Rightarrow> 'r cacheState \<Rightarrow> bool" where
  "sameDisk s t \<longleftrightarrow> csMetas t = csMetas s \<and> csData t = csData s \<and> csOutbox t = csOutbox s \<and>
     csControlFile t = csControlFile s \<and> csControl t = csControl s \<and> csBudget t = csBudget s"

definition ownLock :: "'r lockEnv \<Rightarrow> instanceLockData \<Rightarrow> brainControl \<Rightarrow> bool" where
  "ownLock env lock control \<longleftrightarrow> ilLockID lock = bcActiveLockID control \<and>
     ilCacheNonceHash lock = hashBrainCacheNonce (leCache env) (bcCacheNonce control)"

text \<open>The lock that the remote brain holds, as this robot can read it.\<close>

definition remoteLock ::
    "'r lockEnv \<Rightarrow> ('r \<Rightarrow> string \<rightharpoonup> remoteRecord) \<Rightarrow> 'r cacheState datumState \<Rightarrow> instanceLockData option" where
  "remoteLock env rview s =
     (case rview (csRemote (dsBrain s)) brainLockKey of
        None \<Rightarrow> None
      | Some rec \<Rightarrow>
          if rrDeleted rec then None
          else Option.bind (decryptMemoryPayload env (rrPayload rec) s) (leDecode env))"

lemma read_remote_lock:
  assumes "leCached env" and "beRemote (leCache env) = Some remote" and "remoteLaws remote rview"
    and "readBrainLockForStartup env s = (r, t)"
  shows "rview (csRemote (dsBrain t)) = rview (csRemote (dsBrain s)) \<and> sameDisk (dsBrain s) (dsBrain t) \<and>
    dsCrypt t = dsCrypt s \<and> (\<forall>lock. remoteLock env rview s = Some lock \<longrightarrow> (\<exists>e. r = Inl e) \<or> r = Inr (Some lock))"
proof -
  obtain g r1 where g: "roGet remote brainLockKey (csRemote (dsBrain s)) = (g, r1)"
    by (cases "roGet remote brainLockKey (csRemote (dsBrain s))")
  have v: "rview r1 = rview (csRemote (dsBrain s))"
    and f: "\<And>found. g = Inr found \<Longrightarrow> found = rview (csRemote (dsBrain s)) brainLockKey"
    using assms(3) g unfolding remoteLaws_def by (metis snd_conv, metis fst_conv)
  show ?thesis
    using assms(1,2,4) g v f
    by (auto simp: readBrainLockForStartup_def onCache_def onBrain_def onRemote_def sameDisk_def remoteLock_def
        decryptMemoryPayload_def split: sum.splits option.splits if_splits)
qed

text \<open>
  C32. A held lock keeps every other robot out. When the remote brain holds a lock marked as held, or
  not marked at all, that does not carry this cache's active lock id and nonce, startup dies; and it
  has changed nothing: not the remote brain, and no file of the local cache.
\<close>

theorem foreign_lock_refused:
  assumes "leCached env" and "beRemote (leCache env) = Some remote" and "remoteLaws remote rview"
    and "remoteLock env rview s = Some lock" and "ilState lock = [] \<or> ilState lock = brainLockHeld"
    and "\<not> ownLock env lock (csControl (dsBrain s))"
  shows "\<exists>why t. acquireBrainLock fuel env s = Died why t \<and>
    rview (csRemote (dsBrain t)) = rview (csRemote (dsBrain s)) \<and> sameDisk (dsBrain s) (dsBrain t)"
proof -
  obtain r t where rd: "readBrainLockForStartup env s = (r, t)" by (cases "readBrainLockForStartup env s")
  note f = read_remote_lock [OF assms(1-3) rd]
  have d: "\<exists>why. lockDecision env (Some lock) t = Some why"
    using assms(1,5,6) f
    by (auto simp: lockDecision_def brainLockHeld_def canReclaimHeldBrainLock_def ownLock_def sameDisk_def
        currentBrainLockID_def currentBrainCacheNonceHash_def lockControl_def Let_def)
  have "\<exists>why. acquireBrainLock fuel env s = Died why t"
  proof (cases r)
    case (Inl e)
    then show ?thesis using rd by (simp add: acquireBrainLock_def)
  next
    case (Inr found)
    then have "found = Some lock" using f assms(4) by auto
    with Inr rd d show ?thesis by (auto simp: acquireBrainLock_def)
  qed
  then obtain why where "acquireBrainLock fuel env s = Died why t" by blast
  then show ?thesis using f by (intro exI [of _ why] exI [of _ t]) simp
qed

subsection \<open>The owner does\<close>

lemma noteSynced_ids:
  assumes "csFaults s = []"
  shows "\<exists>c cf. noteSynced k m s = (Inr (), s\<lparr>csControl := c, csControlFile := cf\<rparr>) \<and>
    bcActiveLockID c = bcActiveLockID (csControl s) \<and> bcCacheNonce c = bcCacheNonce (csControl s) \<and>
    (cf = csControlFile s \<or> cf = Some c)"
proof -
  from noteSynced_up [OF assms, of k m] obtain c cf where
    n: "noteSynced k m s = (Inr (), s\<lparr>csControl := c, csControlFile := cf\<rparr>)" by blast
  then have "csControl (snd (noteSynced k m s)) = c" "csControlFile (snd (noteSynced k m s)) = cf" by simp_all
  then have "bcActiveLockID c = bcActiveLockID (csControl s) \<and> bcCacheNonce c = bcCacheNonce (csControl s) \<and>
      (cf = csControlFile s \<or> cf = Some c)"
    using assms by (auto simp: noteSynced_def cache_run Let_def checkpointAt_def split: if_splits)
  with n show ?thesis by blast
qed

lemma syncLock_ok:
  assumes "beRemote env = Some remote" and "remoteLaws remote rview" and "csFaults s = []"
    and "map_of (csOutbox s) (encodeBrainCacheKey key) = Some e" and "obKey e = key"
    and "map_of (csMetas s) (encodeBrainCacheKey key) = Some m" and "mtFormat m = brainCacheFormat" and "\<not> mtDeleted m"
    and "mtKey m = key" and "map_of (csData s) (encodeBrainCacheKey key) = Some payload"
    and "csControlFile s = Some c" and "bcActiveLockID c = a" and "bcCacheNonce c = n"
    and "bcActiveLockID (csControl s) = a" and "bcCacheNonce (csControl s) = n"
    and "syncKeyLocked env key False s = (Inr u, t)"
  shows "\<exists>rec c'. rview (csRemote t) key = Some rec \<and> rrPayload rec = payload \<and> \<not> rrDeleted rec \<and>
    csControlFile t = Some c' \<and> bcActiveLockID c' = a \<and> bcCacheNonce c' = n"
proof -
  define rec where "rec = (remoteOf m)\<lparr>rrPayload := payload,
    rrChecksum := (if mtChecksum m = [] then beChecksum env payload else mtChecksum m)\<rparr>"
  have rec: "rrKey rec = key" "rrPayload rec = payload" "\<not> rrDeleted rec"
    using assms(8,9) by (simp_all add: rec_def remoteOf_def)
  obtain g r1 where g: "roPut remote rec (csRemote s) = (g, r1)" by (cases "roPut remote rec (csRemote s)")
  have up: "uploadMeta env remote key m s = (case g of Inl e \<Rightarrow> (Inl (RemoteError e), s\<lparr>csRemote := r1\<rparr>)
      | Inr x \<Rightarrow> (Inr x, s\<lparr>csRemote := r1\<rparr>))"
    using g assms(3,8,10) unfolding uploadMeta_def rec_def [symmetric] by (simp add: cache_run onRemote_def rec_def [symmetric])
  have g1: "g = Inr ()"
  proof (cases g)
    case (Inl e')
    then have "fst (syncKeyLocked env key False s) = Inl (RemoteError e')"
      using up assms(1,3-7,9) by (simp add: syncKeyLocked_def syncOutboxEntryLocked_def cache_run)
    then show ?thesis using assms(16) by simp
  qed simp
  have law: "rview r1 key = Some rec" using uploadPut_law [OF assms(2) g] g1 rec(1) by auto
  obtain b where rw: "recordCloudWriteLocked env (s\<lparr>csRemote := r1\<rparr>) = (Inr (), s\<lparr>csRemote := r1, csBudget := b\<rparr>)"
    using recordWrite_up [of "s\<lparr>csRemote := r1\<rparr>" env] assms(3) by auto
  let ?m = "m\<lparr>mtSyncedAt := csNow s\<rparr>"
  let ?t = "s\<lparr>csRemote := r1, csBudget := b, csMetas := AList.update (encodeBrainCacheKey key) ?m (csMetas s)\<rparr>"
  obtain c2 cf where nt: "noteSynced key m ?t = (Inr (), ?t\<lparr>csControl := c2, csControlFile := cf\<rparr>)"
    "bcActiveLockID c2 = a" "bcCacheNonce c2 = n" "cf = Some c \<or> cf = Some c2"
    using noteSynced_ids [of ?t key m] assms(3,11,14,15) by auto
  have "syncKeyLocked env key False s = (Inr (), ?t\<lparr>csControl := c2, csControlFile := cf,
      csOutbox := AList.delete (encodeBrainCacheKey key) (csOutbox s)\<rparr>)"
    using assms(1,3-7,9) up g1 rw nt(1)
    unfolding syncKeyLocked_def syncOutboxEntryLocked_def by (simp add: cache_run)
  then have "t = ?t\<lparr>csControl := c2, csControlFile := cf, csOutbox := AList.delete (encodeBrainCacheKey key) (csOutbox s)\<rparr>"
    using assms(16) by simp
  then show ?thesis using law rec nt(2-4) assms(12,13) by auto
qed

text \<open>Storing the lock with a working disk: the remote brain has it when the store succeeds.\<close>

lemma storeLockKey_ok:
  assumes "beRemote env = Some remote" and "remoteLaws remote rview" and "csFaults s = []" 
    and "bcActiveLockID (csControl s) = a" and "bcCacheNonce (csControl s) = n"
    and "cacheStore env brainLockKey (Some payload) s = (Inr u, t)"
  shows "\<exists>rec c. rview (csRemote t) brainLockKey = Some rec \<and> rrPayload rec = payload \<and> \<not> rrDeleted rec \<and>
    csControlFile t = Some c \<and> bcActiveLockID c = a \<and> bcCacheNonce c = n"
proof -
  have st: "\<not> csStopped s" using assms(6) by (auto simp: cacheStore_def cache_run split: if_splits)
  define v where "v = (if bcNextVersion (csControl s) = 0 then 1 else bcNextVersion (csControl s))"
  define c where "c = (csControl s)\<lparr>bcNextVersion := v + 1, bcUpdatedAt := csNow s\<rparr>"
  define m where "m = \<lparr>mtFormat = brainCacheFormat, mtKey = brainLockKey, mtVersion = v,
    mtChecksum = beChecksum env payload, mtDeleted = False, mtUpdatedAt = csNow s, mtSyncedAt = 0\<rparr>"
  let ?k = "encodeBrainCacheKey brainLockKey" and ?e = "\<lparr>obKey = brainLockKey, obVersion = v, obDelete = False\<rparr>"
  let ?s = "s\<lparr>csControl := c, csControlFile := Some c, csData := AList.update ?k payload (csData s),
    csMetas := AList.update ?k m (csMetas s), csOutbox := AList.update ?k ?e (csOutbox s)\<rparr>"
  have "cacheStore env brainLockKey (Some payload) s = syncKeyLocked env brainLockKey False ?s"
    using st assms(1,3)
    by (simp add: cacheStore_def reserveVersionLocked_def queueChange_def cache_run Let_def m_def c_def v_def)
  then have sy: "syncKeyLocked env brainLockKey False ?s = (Inr u, t)" using assms(6) by simp
  show ?thesis
    by (rule syncLock_ok [OF assms(1,2) _ _ _ _ _ _ _ _ _ _ _ _ _ sy, where e = ?e and m = m and c = c])
       (use assms(3-5) in \<open>simp_all add: map_of_update m_def c_def\<close>)
qed

text \<open>
  A robot that dies while it holds the lock gets it back. When writing the held lock succeeds,
  with a working disk and a remote brain whose other calls may fail, the control file on disk and the
  lock in the remote brain agree: a process restarted from that control file reads back exactly the
  lock that was written, and its startup decision is to go on.
\<close>

theorem held_lock_reclaimable:
  assumes "leCached env" and "beRemote (leCache env) = Some remote" and "remoteLaws remote rview"
    and "deBrain (leDatum env) = Some \<lparr>boStore = (\<lambda>k b. cacheStore (leCache env) k (Some b)),
      boRetrieve = cacheRetrieve, boDelete = cacheDelete (leCache env)\<rparr>"
    and "noncesOk (leDatum env)" and "\<forall>l d. leEncode env l = Some d \<longrightarrow> leDecode env d = Some l"
    and "\<forall>p. beChecksum (leCache env) p \<noteq> []"
    and "unlocked (dsCrypt s)" and "csFaults (dsBrain s) = []" and "bcCacheNonce (lockControl s) \<noteq> []"
    and "csNonces (dsBrain s) = i # is" and "i \<noteq> []"
    and "writeBrainLock env brainLockHeld s = (Inr (), t)"
    and "csControlFile (dsBrain t) = Some (lockControl u)" and "csRemote (dsBrain u) = csRemote (dsBrain t)"
    and "dsCrypt u = dsCrypt t"
  shows "\<exists>lock. remoteLock env rview u = Some lock \<and> ilLockID lock = i \<and> lockDecision env (Some lock) u = None"
proof -
  let ?b1 = "(dsBrain s)\<lparr>csNonces := is\<rparr>"
  define c1 where "c1 = (lockControl s)\<lparr>bcActiveLockID := i, bcUpdatedAt := csNow (dsBrain s)\<rparr>"
  define s1 where "s1 = s\<lparr>dsBrain := ?b1\<lparr>csControl := c1, csControlFile := Some c1\<rparr>\<rparr>"
  define lock where "lock = newInstanceLockData env brainLockHeld i (currentBrainDatabaseVersion env s1) s1"
  have "writeBrainLock env brainLockHeld s = storeLock env lock s1"
    using assms(1,9,11)
    by (simp add: writeBrainLock_def onCache_def onBrain_def randomBrainCacheID_def setCurrentBrainLockID_def
        setActiveLockID_def cache_run c1_def s1_def lock_def lockControl_def)
  then have st: "storeLock env lock s1 = (Inr (), t)" using assms(13) by simp
  then obtain data where data: "leEncode env lock = Some data" by (auto simp: storeLock_def split: option.splits)
  have c1: "dsCrypt s1 = dsCrypt s" "csFaults (dsBrain s1) = []" "csControl (dsBrain s1) = c1"
    using assms(9) by (simp_all add: s1_def)
  have bad: "\<not> badKeyText brainLockKey" by code_simp
  let ?n = "deNonce (leDatum env) (dsDraws s1)"
  from assms(8) obtain ct where ct: "encrypt (deGcm (leDatum env)) ?n data (ckKey (dsCrypt s)) = Some ct"
    by (simp add: encrypt_def unlocked_def)
  have dec: "decrypt (deGcm (leDatum env)) ct (ckKey (dsCrypt s)) = Some data"
    using assms(5) by (intro decrypt_encrypt [OF _ _ ct]) (simp_all add: noncesOk_def)
  obtain r b where cs: "cacheStore (leCache env) brainLockKey (Some ct) (dsBrain s1) = (r, b)"
    by (cases "cacheStore (leCache env) brainLockKey (Some ct) (dsBrain s1)")
  have run: "storeLock env lock s1 = (case r of Inl e \<Rightarrow> (Inl (LockReturned BrainFailed), s1\<lparr>dsDraws := Suc (dsDraws s1), dsBrain := b\<rparr>)
      | Inr x \<Rightarrow> (Inr (), s1\<lparr>dsDraws := Suc (dsDraws s1), dsBrain := b\<rparr>))"
    using data bad assms(4,8) c1 ct cs
    by (simp add: storeLock_def storeDatum_def onBrain_def unlocked_def Let_def split: sum.split)
  then obtain x where r: "r = Inr x" "t = s1\<lparr>dsDraws := Suc (dsDraws s1), dsBrain := b\<rparr>"
    using st by (cases r) auto
  have "\<exists>rec c. rview (csRemote b) brainLockKey = Some rec \<and> rrPayload rec = ct \<and> \<not> rrDeleted rec \<and>
      csControlFile b = Some c \<and> bcActiveLockID c = i \<and> bcCacheNonce c = bcCacheNonce (lockControl s)"
    by (rule storeLockKey_ok [OF assms(2,3) c1(2) _ _ cs [unfolded r(1)]]) (simp_all add: c1(3) c1_def)
  then obtain rec c where rec: "rview (csRemote b) brainLockKey = Some rec" "rrPayload rec = ct" "\<not> rrDeleted rec"
    "csControlFile b = Some c" "bcActiveLockID c = i" "bcCacheNonce c = bcCacheNonce (lockControl s)" by blast
  have u: "csRemote (dsBrain u) = csRemote b" "lockControl u = c" "dsCrypt u = dsCrypt s"
    using assms(14-16) rec(4) r(2) c1(1) by simp_all
  have rl: "remoteLock env rview u = Some lock"
    using u rec(1-3) assms(6,8) data dec
    by (simp add: remoteLock_def decryptMemoryPayload_def unlocked_def)
  have l: "ilLockID lock = i" "ilState lock = brainLockHeld"
    "ilCacheNonceHash lock = hashBrainCacheNonce (leCache env) (bcCacheNonce (lockControl s))"
    using assms(1) by (simp_all add: lock_def newInstanceLockData_def Let_def brainLockHeld_def brainLockReleased_def
        currentBrainCacheNonceHash_def s1_def c1_def lockControl_def)
  have "canReclaimHeldBrainLock env lock u"
    using l u(2) rec(5,6) assms(1,7,10,12)
    by (simp add: canReclaimHeldBrainLock_def Let_def currentBrainLockID_def currentBrainCacheNonceHash_def
        hashBrainCacheNonce_def)
  then have "lockDecision env (Some lock) u = None" using l(2) by (simp add: lockDecision_def Let_def)
  with rl l(1) show ?thesis by blast
qed

subsection \<open>Two robots and one remote brain\<close>

text \<open>A text for locks of one process identity, to run the model on.\<close>

fun packFields :: "string list \<Rightarrow> string" where
  "packFields [] = []"
| "packFields (f # fs) = replicate (length f) CHR ''1'' @ CHR ''0'' # f @ packFields fs"

fun unpackFields :: "nat \<Rightarrow> string \<Rightarrow> string list" where
  "unpackFields 0 t = []"
| "unpackFields (Suc n) t =
     (let k = length (takeWhile (\<lambda>c. c = CHR ''1'') t); r = drop (Suc k) t
      in take k r # unpackFields n (drop k r))"

lemma unpack_pack: "unpackFields (length fs) (packFields fs) = fs"
proof (induction fs)
  case (Cons f fs)
  have "takeWhile (\<lambda>c. c = CHR ''1'') (replicate (length f) CHR ''1'' @ CHR ''0'' # r) = replicate (length f) CHR ''1''" for r
    by (subst takeWhile_append2) auto
  with Cons show ?case by (simp add: Let_def)
qed simp

definition demoIdentity :: "string \<Rightarrow> instanceLockData" where
  "demoIdentity host = \<lparr>ilState = [], ilLockID = [], ilCacheNonceHash = [], ilRobotName = ''floyd'', ilFullName = [],
     ilHostname = host, ilPID = 7, ilStartMode = ''production'', ilInstallPath = [], ilHomePath = [],
     ilConfigPath = [], ilCustomRepository = [], ilVersion = ''3'', ilCommit = [], ilStartTime = [],
     ilAcquiredAt = [], ilReleasedAt = [], ilDatabaseVersion = 0\<rparr>"

definition packLock :: "instanceLockData \<Rightarrow> string option" where
  "packLock l =
     (if l = (demoIdentity (ilHostname l))\<lparr>ilState := ilState l, ilLockID := ilLockID l,
          ilCacheNonceHash := ilCacheNonceHash l, ilStartTime := ilStartTime l, ilAcquiredAt := ilAcquiredAt l,
          ilReleasedAt := ilReleasedAt l, ilDatabaseVersion := ilDatabaseVersion l\<rparr>
      then Some (packFields [ilHostname l, ilState l, ilLockID l, ilCacheNonceHash l, ilStartTime l, ilAcquiredAt l,
          ilReleasedAt l, replicate (unat (ilDatabaseVersion l)) CHR ''v''])
      else None)"

definition unpackLock :: "string \<Rightarrow> instanceLockData option" where
  "unpackLock t =
     (let f = unpackFields 8 t in
      Some ((demoIdentity (f ! 0))\<lparr>ilState := f ! 1, ilLockID := f ! 2, ilCacheNonceHash := f ! 3, ilStartTime := f ! 4,
        ilAcquiredAt := f ! 5, ilReleasedAt := f ! 6, ilDatabaseVersion := of_nat (length (f ! 7))\<rparr>))"

lemma pack_law: "packLock l = Some d \<Longrightarrow> unpackLock d = Some l"
proof -
  assume p: "packLock l = Some d"
  let ?fs = "[ilHostname l, ilState l, ilLockID l, ilCacheNonceHash l, ilStartTime l, ilAcquiredAt l,
          ilReleasedAt l, replicate (unat (ilDatabaseVersion l)) CHR ''v'']"
  from p have "d = packFields ?fs" by (simp add: packLock_def del: packFields.simps split: if_splits)
  moreover have l: "length ?fs = 8" by simp
  ultimately have "unpackFields 8 d = ?fs" using unpack_pack [of ?fs] unfolding l by blast
  then have "unpackLock d = Some ((demoIdentity (ilHostname l))\<lparr>ilState := ilState l, ilLockID := ilLockID l,
          ilCacheNonceHash := ilCacheNonceHash l, ilStartTime := ilStartTime l, ilAcquiredAt := ilAcquiredAt l,
          ilReleasedAt := ilReleasedAt l, ilDatabaseVersion := ilDatabaseVersion l\<rparr>)"
    by (simp add: unpackLock_def Let_def)
  then show ?thesis using p by (simp add: packLock_def split: if_splits)
qed

definition demoLockEnv :: "string \<Rightarrow> testRemoteBrain lockEnv" where
  "demoLockEnv host = \<lparr>leDatum = \<lparr>deBrain = Some \<lparr>boStore = (\<lambda>k b. cacheStore testEnv k (Some b)),
        boRetrieve = cacheRetrieve, boDelete = cacheDelete testEnv\<rparr>,
      deGcm = demoGcm, deToken = (\<lambda>n. replicate (Suc n) CHR ''t''), deNonce = (\<lambda>n. replicate 12 CHR ''n''),
      deNewKey = (\<lambda>n. replicate 32 CHR ''k''), deIsNotExist = (\<lambda>e. False)\<rparr>,
    leCache = testEnv, leCached = True, leEncode = packLock, leDecode = unpackLock,
    leIdentity = demoIdentity host, leNow = (\<lambda>n. ''now'')\<rparr>"

text \<open>A robot with a complete, empty cache of its own, which sees the given remote brain.\<close>

definition demoRobot :: "string \<Rightarrow> testRemoteBrain \<Rightarrow> testRemoteBrain cacheState datumState" where
  "demoRobot nonce r = \<lparr>dsBrain = (testCache r [])\<lparr>csControl := freshControl True [] nonce 0,
       csControlFile := Some (freshControl True [] nonce 0), csNonces := [nonce @ ''1'', nonce @ ''2'']\<rparr>,
     dsCrypt = \<lparr>ckKey = replicate 32 CHR ''k'', ckInitializing = False, ckInitialized = True\<rparr>, dsDraws = 0\<rparr>"

fun startedState :: "'s startup \<Rightarrow> 's option" where
  "startedState (Started s) = Some s"
| "startedState r = None"

definition remoteAfter :: "testRemoteBrain cacheState datumState startup \<Rightarrow> testRemoteBrain" where
  "remoteAfter r = (case startedState r of None \<Rightarrow> [] | Some s \<Rightarrow> csRemote (dsBrain s))"

definition sees :: "testRemoteBrain \<Rightarrow> testRemoteBrain cacheState datumState \<Rightarrow> testRemoteBrain cacheState datumState" where
  "sees r s = s\<lparr>dsBrain := (dsBrain s)\<lparr>csRemote := r\<rparr>\<rparr>"

definition robotA :: "testRemoteBrain cacheState datumState" where
  "robotA = demoRobot ''a'' []"

definition robotB :: "testRemoteBrain cacheState datumState" where
  "robotB = demoRobot ''b'' []"

text \<open>Starting in two parts: the check, and then the write to the brain as it is by then.\<close>

definition checkThenWrite ::
    "testRemoteBrain lockEnv \<Rightarrow> testRemoteBrain cacheState datumState \<Rightarrow> testRemoteBrain \<Rightarrow> bool" where
  "checkThenWrite env s r =
     (case readBrainLockForStartup env s of
        (Inl e, t) \<Rightarrow> False
      | (Inr found, t) \<Rightarrow> lockDecision env found t = None \<and>
          \<not> isl (fst (andThen (verifyBrainCacheLastCloudWrite env)
            (\<lambda>s. writeBrainLock env brainLockHeld (sees r s)) t)))"

text \<open>
  Checking the lock and writing it are two calls of the remote brain, so the lock does not exclude
  two robots that start at the same time: both read a free lock before either has written, and both
  start. When they start one after the other, the second one is refused.
\<close>

theorem simultaneous_starts_both_succeed:
  "(let a = acquireBrainLock 5 (demoLockEnv ''h1'') robotA in
    startedState a \<noteq> None \<and>
    checkThenWrite (demoLockEnv ''h2'') robotB (remoteAfter a) \<and>
    startedState (acquireBrainLock 5 (demoLockEnv ''h2'') (sees (remoteAfter a) robotB)) = None)"
  by code_simp

definition heldByA :: "testRemoteBrain cacheState datumState" where
  "heldByA = snd (writeBrainLock (demoLockEnv ''h1'') brainLockHeld robotA)"

lemma demoLock_env:
  "leCached (demoLockEnv h)" "beRemote (leCache (demoLockEnv h)) = Some testRemoteOps"
  "deBrain (leDatum (demoLockEnv h)) = Some \<lparr>boStore = (\<lambda>k b. cacheStore (leCache (demoLockEnv h)) k (Some b)),
      boRetrieve = cacheRetrieve, boDelete = cacheDelete (leCache (demoLockEnv h))\<rparr>"
  "noncesOk (leDatum (demoLockEnv h))"
  "\<forall>l d. leEncode (demoLockEnv h) l = Some d \<longrightarrow> leDecode (demoLockEnv h) d = Some l"
  "\<forall>p. beChecksum (leCache (demoLockEnv h)) p \<noteq> []"
  using pack_law by (simp_all add: demoLockEnv_def testEnv_def noncesOk_def demoGcm_def gcmLaw_def gcmNonceSize_def)

theorem foreign_lock_refused_witness:
  "\<exists>why t. acquireBrainLock 5 (demoLockEnv ''h2'') (sees (csRemote (dsBrain heldByA)) robotB) = Died why t \<and>
    map_of (csRemote (dsBrain t)) = map_of (csRemote (dsBrain (sees (csRemote (dsBrain heldByA)) robotB))) \<and>
    sameDisk (dsBrain (sees (csRemote (dsBrain heldByA)) robotB)) (dsBrain t)"
proof -
  let ?s = "sees (csRemote (dsBrain heldByA)) robotB"
  have "case remoteLock (demoLockEnv ''h2'') map_of ?s of None \<Rightarrow> False
      | Some l \<Rightarrow> ilState l = brainLockHeld \<and> \<not> ownLock (demoLockEnv ''h2'') l (csControl (dsBrain ?s))" by code_simp
  then obtain l where l: "remoteLock (demoLockEnv ''h2'') map_of ?s = Some l" "ilState l = brainLockHeld"
    "\<not> ownLock (demoLockEnv ''h2'') l (csControl (dsBrain ?s))"
    by (cases "remoteLock (demoLockEnv ''h2'') map_of ?s") auto
  from foreign_lock_refused [OF demoLock_env(1,2) testRemote_laws l(1) _ l(3)] l(2) show ?thesis by blast
qed

theorem held_lock_reclaimable_witness:
  "\<exists>lock. remoteLock (demoLockEnv ''h1'') map_of heldByA = Some lock \<and> ilLockID lock = ''a1'' \<and>
    lockDecision (demoLockEnv ''h1'') (Some lock) heldByA = None"
proof -
  let ?e = "demoLockEnv ''h1''"
  have a: "unlocked (dsCrypt robotA)" "csFaults (dsBrain robotA) = []" "bcCacheNonce (lockControl robotA) \<noteq> []"
    "csNonces (dsBrain robotA) = ''a1'' # [''a2'']" "''a1'' \<noteq> []" by code_simp+
  have "\<not> isl (fst (writeBrainLock ?e brainLockHeld robotA))" by code_simp
  then have w: "writeBrainLock ?e brainLockHeld robotA = (Inr (), heldByA)"
    unfolding heldByA_def by (metis (full_types) old.unit.exhaust prod.collapse sum.collapse(2))
  have c: "csControlFile (dsBrain heldByA) = Some (lockControl heldByA)" by code_simp
  show ?thesis
    by (rule held_lock_reclaimable [OF demoLock_env(1,2) testRemote_laws demoLock_env(3-6) a w c refl refl])
qed

end
