(* ===== verification/Utf8.thy ===== *)
theory Utf8
  imports Prelude
begin

text \<open>
  What \<^verbatim>\<open>encoding/json\<close> does to a string on its way to the brain and back: a byte that does not begin a
  well-formed UTF-8 sequence (as \<open>utf8.DecodeRune\<close> has it: no overlong forms, no surrogates, nothing
  above U+10FFFF) becomes the replacement character U+FFFD. Strings are byte strings, as Go's are.
\<close>

definition byteIn :: "nat \<Rightarrow> nat \<Rightarrow> char \<Rightarrow> bool" where
  "byteIn lo hi c \<longleftrightarrow> lo \<le> of_char c \<and> of_char c \<le> hi"

text \<open>How many bytes the first rune of a string takes; 0 when the bytes are not well formed.\<close>

fun contBytes :: "(char \<Rightarrow> bool) list \<Rightarrow> string \<Rightarrow> bool" where
  "contBytes [] s = True"
| "contBytes (p # ps) [] = False"
| "contBytes (p # ps) (c # s) = (p c \<and> contBytes ps s)"

definition runeTail :: "char \<Rightarrow> (char \<Rightarrow> bool) list option" where
  "runeTail a =
     (let cont = byteIn 0x80 0xBF in
      if byteIn 0 0x7F a then Some []
      else if byteIn 0xC2 0xDF a then Some [cont]
      else if byteIn 0xE0 0xE0 a then Some [byteIn 0xA0 0xBF, cont]
      else if byteIn 0xED 0xED a then Some [byteIn 0x80 0x9F, cont]
      else if byteIn 0xE1 0xEF a then Some [cont, cont]
      else if byteIn 0xF0 0xF0 a then Some [byteIn 0x90 0xBF, cont, cont]
      else if byteIn 0xF1 0xF3 a then Some [cont, cont, cont]
      else if byteIn 0xF4 0xF4 a then Some [byteIn 0x80 0x8F, cont, cont]
      else None)"

fun runeLen :: "string \<Rightarrow> nat" where
  "runeLen [] = 0"
| "runeLen (a # s) =
     (case runeTail a of None \<Rightarrow> 0 | Some ps \<Rightarrow> if contBytes ps s then Suc (length ps) else 0)"

definition replacementRune :: string where
  "replacementRune = [CHR 0xEF, CHR 0xBF, CHR 0xBD]"

function coerceUtf8 :: "string \<Rightarrow> string" where
  "coerceUtf8 [] = []"
| "coerceUtf8 (a # s) =
     (case runeLen (a # s) of
        0 \<Rightarrow> replacementRune @ coerceUtf8 s
      | Suc n \<Rightarrow> a # take n s @ coerceUtf8 (drop n s))"
  by pat_completeness auto
termination
  by (relation "measure length") auto

function validUtf8 :: "string \<Rightarrow> bool" where
  "validUtf8 [] = True"
| "validUtf8 (a # s) = (case runeLen (a # s) of 0 \<Rightarrow> False | Suc n \<Rightarrow> validUtf8 (drop n s))"
  by pat_completeness auto
termination
  by (relation "measure length") auto

lemma valid_coerce: "validUtf8 s \<Longrightarrow> coerceUtf8 s = s"
  by (induction s rule: validUtf8.induct) (auto simp del: runeLen.simps split: nat.splits)

text \<open>What follows a string does not change its runes unless it continues the last one.\<close>

lemma contBytes_length: "contBytes ps s \<Longrightarrow> length ps \<le> length s"
  by (induction ps s rule: contBytes.induct) auto

lemma contBytes_append: "contBytes ps s \<Longrightarrow> contBytes ps (s @ t)"
  by (induction ps s rule: contBytes.induct) auto

lemma contBytes_stop:
  "list_all (\<lambda>p. \<not> p c) ps \<Longrightarrow> contBytes ps (s @ c # t) = contBytes ps s"
  by (induction ps s rule: contBytes.induct) auto

lemma runeLen_le: "runeLen s \<le> length s"
  by (cases s) (auto split: option.split dest: contBytes_length)

lemma runeLen_append: "runeLen s \<noteq> 0 \<Longrightarrow> runeLen (s @ t) = runeLen s"
  by (cases s) (auto split: option.splits if_splits intro: contBytes_append)

lemma runeTail_cont: "runeTail a = Some ps \<Longrightarrow> byteIn 0 0x7F c \<Longrightarrow> list_all (\<lambda>p. \<not> p c) ps"
  by (auto simp: runeTail_def byteIn_def Let_def split: if_splits)

lemma runeLen_ascii: "byteIn 0 0x7F c \<Longrightarrow> s \<noteq> [] \<Longrightarrow> runeLen (s @ c # t) = runeLen s"
  by (cases s) (auto split: option.split simp: contBytes_stop dest: runeTail_cont)

lemma runeLen_Suc: "runeLen (a # s) = Suc n \<Longrightarrow> n \<le> length s"
  using runeLen_le [of "a # s"] by simp

lemma valid_append: "validUtf8 s \<Longrightarrow> validUtf8 t \<Longrightarrow> validUtf8 (s @ t)"
proof (induction s rule: validUtf8.induct)
  case (2 a s)
  then obtain n where n: "runeLen (a # s) = Suc n" "validUtf8 (drop n s)" by (auto simp del: runeLen.simps split: nat.splits)
  have "runeLen ((a # s) @ t) = Suc n" using runeLen_append [of "a # s" t] n(1) by simp
  moreover have "n \<le> length s" by (rule runeLen_Suc [OF n(1)])
  ultimately show ?case using 2 n by (simp del: runeLen.simps)
qed simp

lemma coerce_ascii:
  assumes "byteIn 0 0x7F c"
  shows "coerceUtf8 (s @ c # t) = coerceUtf8 s @ c # coerceUtf8 t"
proof (induction s rule: coerceUtf8.induct)
  case 1
  have "runeTail c = Some []" using assms by (simp add: runeTail_def)
  then show ?case by simp
next
  case (2 a s)
  have same: "runeLen (a # s @ c # t) = runeLen (a # s)" using runeLen_ascii [OF assms, of "a # s" t] by simp
  show ?case
  proof (cases "runeLen (a # s)")
    case 0
    then show ?thesis using 2(1) same by (simp del: runeLen.simps)
  next
    case (Suc n)
    then have "n \<le> length s" by (rule runeLen_Suc)
    then show ?thesis using 2(2) [OF Suc] same Suc by (simp del: runeLen.simps)
  qed
qed

text \<open>
  A JSON object made of a Go map: its keys in order, and invalid bytes of the keys and of the strings
  in the values (\<open>f\<close>) replaced. Keys that become equal stay separate members, the last of which counts.
\<close>

definition jsonObject :: "('v \<Rightarrow> 'v) \<Rightarrow> (string \<times> 'v) list \<Rightarrow> (string \<times> 'v) list" where
  "jsonObject f obj = map (\<lambda>(k, v). (coerceUtf8 k, f v)) (sort_key fst obj)"

lemma jsonObject_plain:
  assumes "\<forall>(k, v) \<in> set obj. validUtf8 k \<and> f v = v" and "distinct (map fst obj)"
  shows "set (jsonObject f obj) = set obj" and "distinct (map fst (jsonObject f obj))"
    and "map_of (jsonObject f obj) = map_of obj"
proof -
  have j: "jsonObject f obj = sort_key fst obj"
    unfolding jsonObject_def by (rule map_idI) (use assms(1) in \<open>auto simp: valid_coerce\<close>)
  then show s: "set (jsonObject f obj) = set obj" by simp
  show d: "distinct (map fst (jsonObject f obj))"
    using assms(2) unfolding j by (metis distinct_map distinct_sort set_sort)
  show "map_of (jsonObject f obj) = map_of obj"
    using s d assms(2) by (metis map_of_inject_set)
qed

end
