(* ===== verification/SavedKeys.thy ===== *)
theory SavedKeys
  imports Utf8
begin

text \<open>
  Maps the robot saves as JSON objects, under keys that are joined from the parts of the map's keys
  (the \<open>MarshalJSON\<close> and \<open>UnmarshalJSON\<close> of bot/ephemeral.go and bot/subscribe\_thread.go): the two loops,
  and what saving and loading gives on keys whose encoding can be decoded.
\<close>

text \<open>The loops that save and load a map under encoded keys; \<open>Inl\<close> is a key that cannot be decoded.\<close>

fun saveKeys :: "('k \<Rightarrow> string) \<Rightarrow> ('k \<times> 'v) list \<Rightarrow> (string \<times> 'v) list \<Rightarrow> (string \<times> 'v) list" where
  "saveKeys enc [] obj = obj"
| "saveKeys enc ((k, v) # rest) obj = saveKeys enc rest (AList.update (enc k) v obj)"

fun loadKeys :: "(string \<Rightarrow> 'k option) \<Rightarrow> (string \<times> 'v) list \<Rightarrow> ('k \<times> 'v) list \<Rightarrow> string + ('k \<times> 'v) list" where
  "loadKeys dec [] m = Inr m"
| "loadKeys dec ((key, v) # rest) m =
     (case dec key of None \<Rightarrow> Inl key | Some k \<Rightarrow> loadKeys dec rest (AList.update k v m))"

text \<open>What a client of the two loops relies on: on the keys it saves, decoding inverts encoding, and JSON keeps the encoded key.\<close>

locale key_codec =
  fixes enc :: "'k \<Rightarrow> string" and dec :: "string \<Rightarrow> 'k option" and plain :: "'k \<Rightarrow> bool"
  assumes dec_enc: "plain k \<Longrightarrow> dec (enc k) = Some k"
    and enc_valid: "plain k \<Longrightarrow> validUtf8 (enc k)"
begin

definition encoded :: "(string \<times> 'v) list \<Rightarrow> bool" where
  "encoded obj \<longleftrightarrow> (\<forall>(key, v) \<in> set obj. \<exists>k. plain k \<and> key = enc k)"

lemma enc_inj: "plain j \<Longrightarrow> plain k \<Longrightarrow> enc j = enc k \<longleftrightarrow> j = k"
  by (metis dec_enc option.inject)

lemma option_case_same:
  "(case x of None \<Rightarrow> None | Some v \<Rightarrow> Some v) = x" "(case x of None \<Rightarrow> map_of [] y | Some v \<Rightarrow> Some v) = x"
  by (cases x; simp)+

lemma save_lookup:
  "\<forall>(c, v) \<in> set m. plain c \<Longrightarrow> distinct (map fst m) \<Longrightarrow> plain k \<Longrightarrow>
   map_of (saveKeys enc m obj) (enc k) = (case map_of m k of Some v \<Rightarrow> Some v | None \<Rightarrow> map_of obj (enc k))"
proof (induction m arbitrary: obj)
  case (Cons e rest)
  obtain j v where e: "e = (j, v)" by (cases e)
  have "map_of (AList.update (enc j) v obj) (enc k) = (if j = k then Some v else map_of obj (enc k))"
    using Cons.prems enc_inj e by (auto simp: update_conv')
  moreover have "j = k \<Longrightarrow> map_of rest k = None" using Cons.prems(2) e by (auto simp: map_of_eq_None_iff)
  ultimately show ?case using Cons e by (auto split: option.split)
qed simp

lemma update_encoded: "encoded obj \<Longrightarrow> plain k \<Longrightarrow> encoded (AList.update (enc k) v obj)"
proof -
  assume e: "encoded obj" and k: "plain k"
  have "x = (enc k, v) \<or> x \<in> set obj" if "x \<in> set (AList.update (enc k) v obj)" for x
    using that by (induction obj) (auto split: if_splits)
  then show ?thesis using e k unfolding encoded_def by blast
qed

lemma save_encoded:
  "\<forall>(c, v) \<in> set m. plain c \<Longrightarrow> distinct (map fst obj) \<Longrightarrow> encoded obj \<Longrightarrow>
   distinct (map fst (saveKeys enc m obj)) \<and> encoded (saveKeys enc m obj)"
proof (induction m arbitrary: obj)
  case (Cons e rest)
  obtain c v where e: "e = (c, v)" by (cases e)
  have "encoded (AList.update (enc c) v obj)" by (rule update_encoded) (use Cons.prems(1,3) e in simp_all)
  then show ?case using Cons.IH [of "AList.update (enc c) v obj"] Cons.prems e by (simp add: distinct_update)
qed simp

lemma load_lookup:
  "encoded obj \<Longrightarrow> distinct (map fst obj) \<Longrightarrow>
   \<exists>m. loadKeys dec obj m0 = Inr m \<and> (\<forall>k. plain k \<longrightarrow>
      map_of m k = (case map_of obj (enc k) of Some v \<Rightarrow> Some v | None \<Rightarrow> map_of m0 k)) \<and>
      (\<forall>k. \<not> plain k \<longrightarrow> map_of m k = map_of m0 k)"
proof (induction obj arbitrary: m0)
  case (Cons e rest)
  obtain key v where e: "e = (key, v)" by (cases e)
  then obtain c where c: "plain c" "key = enc c" using Cons.prems(1) by (auto simp: encoded_def)
  have r: "encoded rest" "distinct (map fst rest)" using Cons.prems by (auto simp: encoded_def)
  from Cons.IH [OF r, of "AList.update c v m0"] obtain m where m: "loadKeys dec rest (AList.update c v m0) = Inr m"
    "\<forall>k. plain k \<longrightarrow> map_of m k = (case map_of rest (enc k) of Some v \<Rightarrow> Some v | None \<Rightarrow> map_of (AList.update c v m0) k)"
    "\<forall>k. \<not> plain k \<longrightarrow> map_of m k = map_of (AList.update c v m0) k" by auto
  have "map_of rest (enc c) = None" using Cons.prems(2) e c(2) by (auto simp: map_of_eq_None_iff)
  then show ?case using m c e enc_inj [OF _ c(1)]
    by (auto simp: dec_enc update_conv' split: option.split)
qed simp

lemma save_values: "\<forall>(k, v) \<in> set obj. P v \<Longrightarrow> \<forall>(c, v) \<in> set m. P v \<Longrightarrow> \<forall>(k, v) \<in> set (saveKeys enc m obj). P v"
proof (induction m arbitrary: obj)
  case (Cons e rest)
  obtain c v where e: "e = (c, v)" by (cases e)
  have "x = (enc c, v) \<or> x \<in> set obj" if "x \<in> set (AList.update (enc c) v obj)" for x
    using that by (induction obj) (auto split: if_splits)
  then have "\<forall>(k, v) \<in> set (AList.update (enc c) v obj). P v" using Cons.prems e by fastforce
  then show ?case using Cons e by simp
qed simp

theorem save_load:
  assumes "\<forall>(c, v) \<in> set m. plain c" "distinct (map fst m)" "\<forall>(c, v) \<in> set m. f v = v"
  shows "\<exists>m'. loadKeys dec (jsonObject f (saveKeys enc m [])) [] = Inr m' \<and> (\<forall>k. map_of m' k = map_of m k)"
proof -
  let ?obj = "saveKeys enc m []"
  have obj: "distinct (map fst ?obj)" "encoded ?obj"
    using save_encoded [OF assms(1), of "[]"] by (simp_all add: encoded_def)
  have "\<forall>(k, v) \<in> set ?obj. f v = v" by (rule save_values) (use assms(3) in simp_all)
  then have ok: "\<forall>(k, v) \<in> set ?obj. validUtf8 k \<and> f v = v" using obj(2) enc_valid by (fastforce simp: encoded_def)
  note j = jsonObject_plain [OF ok obj(1)]
  have "encoded (jsonObject f ?obj)" using obj(2) unfolding encoded_def j(1) .
  from load_lookup [OF this j(2), of "[]"] obtain m' where m': "loadKeys dec (jsonObject f ?obj) [] = Inr m'"
    "\<forall>k. plain k \<longrightarrow> map_of m' k = map_of ?obj (enc k)" "\<forall>k. \<not> plain k \<longrightarrow> map_of m' k = None"
    by (auto simp: option_case_same j(3))
  have "map_of m' k = map_of m k" for k
  proof (cases "plain k")
    case True
    then show ?thesis using m'(2) save_lookup [OF assms(1,2) True, of "[]"] by (simp add: option_case_same)
  next
    case False
    then have "k \<notin> fst ` set m" using assms(1) by fastforce
    then have "map_of m k = None" by (simp add: map_of_eq_None_iff)
    then show ?thesis using m'(3) False by simp
  qed
  then show ?thesis using m'(1) by blast
qed

end

end
