(* ===== verification/Ephemeral.thy ===== *)
theory Ephemeral
  imports SavedKeys
begin

text \<open>
  Ephemeral memories (bot/ephemeral.go, the Remember family of bot/brain.go, makeMemoryContext of
  bot/robot.go, and the expiry in the ticker of \<open>runBrain\<close>): memories of a conversation, held in a
  map by user, channel and thread, dropped after a time, and saved to the brain as a JSON object
  whose keys join the fields of a context with a separator. The object is modelled as the association
  list of its members; the order of a list is the order in which a Go map happens to be iterated.
  Times are in seconds.
\<close>

subsection \<open>Data\<close>

record memoryContext =
  mcKey :: string
  mcUser :: string
  mcChannel :: string
  mcThread :: string
  mcProtocol :: string

record ephemeralMemory =
  ephMemory :: string
  ephTimestamp :: int

record eMemories =
  emMap :: "(memoryContext \<times> ephemeralMemory) list"
  emDirty :: bool

definition lastMsgKey :: string where
  "lastMsgKey = ''lastMsg''"

definition channelMemoryDuration :: int where
  "channelMemoryDuration = 14 * 60"

definition threadMemoryDuration :: int where
  "threadMemoryDuration = 7 * 24 * 3600"

subsection \<open>Contexts\<close>

datatype protocol = Slack | GoogleChat | Rocket | Terminal | TestProtocol | Null | SSH

definition normalizeProtocolName :: "string \<Rightarrow> string" where
  "normalizeProtocolName p = toLower (trimSpace p)"

fun protocolNameFromEnum :: "protocol \<Rightarrow> string" where
  "protocolNameFromEnum Slack = ''slack''"
| "protocolNameFromEnum GoogleChat = ''googlechat''"
| "protocolNameFromEnum Rocket = ''rocket''"
| "protocolNameFromEnum Terminal = ''terminal''"
| "protocolNameFromEnum TestProtocol = ''test''"
| "protocolNameFromEnum Null = ''nullconn''"
| "protocolNameFromEnum SSH = ''ssh''"

record incomingMessage =
  icProtocol :: string
  icUserName :: string
  icThreadedMessage :: bool
  icThreadID :: string

text \<open>The fields of a robot, or of a worker, that its memories depend on.\<close>

record speaker =
  spUser :: string
  spChannel :: string
  spProtocol :: protocol
  spIncoming :: "incomingMessage option"

definition protocolFromIncoming :: "incomingMessage option \<Rightarrow> protocol \<Rightarrow> string" where
  "protocolFromIncoming inc fallback =
     (case inc of
        None \<Rightarrow> protocolNameFromEnum fallback
      | Some m \<Rightarrow> if normalizeProtocolName (icProtocol m) \<noteq> [] then normalizeProtocolName (icProtocol m)
                 else protocolNameFromEnum fallback)"

definition workerMemoryContext :: "speaker \<Rightarrow> string \<Rightarrow> memoryContext" where
  "workerMemoryContext w key =
     (let threadID = (case spIncoming w of None \<Rightarrow> []
                      | Some m \<Rightarrow> if icThreadedMessage m then icThreadID m else [])
      in \<lparr>mcKey = key, mcUser = toLower (trimSpace (spUser w)), mcChannel = spChannel w, mcThread = threadID,
          mcProtocol = (if threadID \<noteq> [] then protocolFromIncoming (spIncoming w) (spProtocol w) else [])\<rparr>)"

definition robotMemoryContext :: "speaker \<Rightarrow> string \<Rightarrow> bool \<Rightarrow> bool \<Rightarrow> memoryContext" where
  "robotMemoryContext r key forceThread shared =
     (let threadID = (case spIncoming r of None \<Rightarrow> []
                      | Some m \<Rightarrow> if icThreadedMessage m \<or> forceThread then icThreadID m else []);
          own = toLower (trimSpace (spUser r));
          user = (case spIncoming r of
                    Some m \<Rightarrow> if own = [] then toLower (trimSpace (icUserName m)) else own
                  | None \<Rightarrow> own)
      in \<lparr>mcKey = key, mcUser = (if shared \<and> spChannel r \<noteq> [] then [] else user), mcChannel = spChannel r,
          mcThread = threadID,
          mcProtocol = (if threadID \<noteq> [] then protocolFromIncoming (spIncoming r) (spProtocol r) else [])\<rparr>)"

subsection \<open>Remembering and recalling\<close>

definition rememberAt :: "memoryContext \<Rightarrow> string \<Rightarrow> int \<Rightarrow> eMemories \<Rightarrow> eMemories" where
  "rememberAt ctx v now em =
     (if v \<noteq> [] then em\<lparr>emMap := AList.update ctx \<lparr>ephMemory = v, ephTimestamp = now\<rparr> (emMap em)\<rparr>
      else em\<lparr>emMap := AList.delete ctx (emMap em)\<rparr>)"

definition remember :: "speaker \<Rightarrow> string \<Rightarrow> string \<Rightarrow> bool \<Rightarrow> int \<Rightarrow> eMemories \<Rightarrow> eMemories" where
  "remember r key v shared now em =
     (let ctx = robotMemoryContext r key False shared; t = rememberAt ctx v now em
      in if mcThread ctx \<noteq> [] then t\<lparr>emDirty := True\<rparr> else t)"

definition rememberThread :: "speaker \<Rightarrow> string \<Rightarrow> string \<Rightarrow> bool \<Rightarrow> int \<Rightarrow> eMemories \<Rightarrow> eMemories" where
  "rememberThread r key v shared now em =
     (rememberAt (robotMemoryContext r key True shared) v now em)\<lparr>emDirty := True\<rparr>"

definition rememberContext :: "speaker \<Rightarrow> string \<Rightarrow> string \<Rightarrow> int \<Rightarrow> eMemories \<Rightarrow> eMemories" where
  "rememberContext r ctx v now em = remember r (''context:'' @ ctx) v False now em"

definition rememberContextThread :: "speaker \<Rightarrow> string \<Rightarrow> string \<Rightarrow> int \<Rightarrow> eMemories \<Rightarrow> eMemories" where
  "rememberContextThread r ctx v now em = rememberThread r (''context:'' @ ctx) v False now em"

definition recall :: "speaker \<Rightarrow> string \<Rightarrow> bool \<Rightarrow> eMemories \<Rightarrow> string" where
  "recall r key shared em =
     (case map_of (emMap em) (robotMemoryContext r key False shared) of None \<Rightarrow> [] | Some m \<Rightarrow> ephMemory m)"

definition deleteMemory :: "speaker \<Rightarrow> string \<Rightarrow> bool \<Rightarrow> eMemories \<Rightarrow> eMemories" where
  "deleteMemory r key shared em =
     (let ctx = robotMemoryContext r key False shared; t = em\<lparr>emMap := AList.delete ctx (emMap em)\<rparr>
      in if mcThread ctx \<noteq> [] then t\<lparr>emDirty := True\<rparr> else t)"

text \<open>The ticker: direct messages expire like threads.\<close>

definition memoryDuration :: "memoryContext \<Rightarrow> int" where
  "memoryDuration ctx =
     (if mcThread ctx \<noteq> [] \<or> mcChannel ctx = [] then threadMemoryDuration else channelMemoryDuration)"

definition memoryExpired :: "int \<Rightarrow> memoryContext \<times> ephemeralMemory \<Rightarrow> bool" where
  "memoryExpired now cm \<longleftrightarrow> now - ephTimestamp (snd cm) > memoryDuration (fst cm)"

definition expireMemories :: "int \<Rightarrow> eMemories \<Rightarrow> eMemories" where
  "expireMemories now em =
     em\<lparr>emMap := filter (\<lambda>cm. \<not> memoryExpired now cm) (emMap em),
        emDirty := emDirty em \<or> list_ex (memoryExpired now) (emMap em)\<rparr>"

subsection \<open>The saved form\<close>

definition memSep :: string where
  "memSep = ''{|}''"

definition contextString :: "memoryContext \<Rightarrow> string" where
  "contextString ctx = joinWith memSep [mcKey ctx, mcUser ctx, mcChannel ctx, mcThread ctx, mcProtocol ctx]"

text \<open>
  \<open>MarshalJSON\<close>: the loop that fills \<open>tempMap\<close>, and \<open>json.Marshal\<close>, which replaces invalid UTF-8. The
  time stamps come back to the nanosecond.
\<close>

fun tempMemories ::
    "(memoryContext \<times> ephemeralMemory) list \<Rightarrow> (string \<times> ephemeralMemory) list \<Rightarrow> (string \<times> ephemeralMemory) list" where
  "tempMemories [] obj = obj"
| "tempMemories ((k, v) # rest) obj =
     (if mcKey k = lastMsgKey then tempMemories rest obj
      else tempMemories rest (AList.update (contextString k) v obj))"

definition jsonMemory :: "ephemeralMemory \<Rightarrow> ephemeralMemory" where
  "jsonMemory m = m\<lparr>ephMemory := coerceUtf8 (ephMemory m)\<rparr>"

definition marshalMemories :: "(memoryContext \<times> ephemeralMemory) list \<Rightarrow> (string \<times> ephemeralMemory) list" where
  "marshalMemories em = jsonObject jsonMemory (tempMemories em [])"

text \<open>\<open>Inl\<close> is the error for a key with the wrong number of parts; it ends the loop.\<close>

definition contextOfString :: "string \<Rightarrow> memoryContext option" where
  "contextOfString k =
     (case splitStr memSep k of
        [a, b, c, d] \<Rightarrow> Some \<lparr>mcKey = a, mcUser = b, mcChannel = c, mcThread = d, mcProtocol = []\<rparr>
      | [a, b, c, d, e] \<Rightarrow> Some \<lparr>mcKey = a, mcUser = b, mcChannel = c, mcThread = d, mcProtocol = e\<rparr>
      | _ \<Rightarrow> None)"

fun unmarshalMemories ::
    "(string \<times> ephemeralMemory) list \<Rightarrow> (memoryContext \<times> ephemeralMemory) list \<Rightarrow>
     string + (memoryContext \<times> ephemeralMemory) list" where
  "unmarshalMemories [] m = Inr m"
| "unmarshalMemories ((k, v) # rest) m =
     (case contextOfString k of
        None \<Rightarrow> Inl k
      | Some ctx \<Rightarrow> unmarshalMemories rest (AList.update ctx v m))"

text \<open>
  \<open>restoreEphemeralMemories\<close>: \<open>stored\<close> is what checking the datum out gave, the saved object if there
  is one. The result says which lock token is checked in again. The loop that should renew the
  timestamps assigns to a copy, so it changes nothing.
\<close>

datatype restoreOutcome = Restored | CheckedIn | RestoreError RetVal

definition restoreEphemeralMemories ::
    "RetVal \<times> (string \<times> ephemeralMemory) list option \<Rightarrow> eMemories \<Rightarrow> restoreOutcome \<times> eMemories" where
  "restoreEphemeralMemories stored em =
     (case stored of
        (r, obj) \<Rightarrow>
          if r \<noteq> Ok then (RestoreError r, em)
          else (case obj of
             None \<Rightarrow> (CheckedIn, em)
           | Some members \<Rightarrow>
               (case unmarshalMemories members [] of
                  Inl k \<Rightarrow> (RestoreError DataFormatError, em)
                | Inr m \<Rightarrow> if m \<noteq> [] then (Restored, em\<lparr>emMap := m\<rparr>) else (CheckedIn, em))))"

definition saveEphemeralMemories :: "RetVal \<Rightarrow> eMemories \<Rightarrow> (string \<times> ephemeralMemory) list option \<times> eMemories" where
  "saveEphemeralMemories r em =
     (if r = Ok then (Some (marshalMemories (emMap em)), em\<lparr>emDirty := False\<rparr>) else (None, em))"

subsection \<open>Splitting what was joined\<close>

lemma sep_prefix: "hasPrefix (p @ memSep @ s) memSep \<Longrightarrow> p = [] \<or> hasPrefix p memSep"
proof -
  assume h: "hasPrefix (p @ memSep @ s) memSep"
  consider "p = []" | a where "p = [a]" | a b where "p = [a, b]" | a b c q where "p = a # b # c # q"
    by (metis neq_Nil_conv)
  then show ?thesis using h by cases (simp_all add: hasPrefix_def memSep_def)
qed

lemma split_part: "\<not> containsStr p memSep \<Longrightarrow> splitStr memSep (p @ memSep @ s) = p # splitStr memSep s"
proof (induction p)
  case Nil
  then show ?case using splitStr_hit [of memSep s] by (simp add: memSep_def)
next
  case (Cons c cs)
  then have "\<not> hasPrefix ((c # cs) @ memSep @ s) memSep" using sep_prefix [of "c # cs" s] by auto
  then have "splitStr memSep (c # cs @ memSep @ s) =
      (case splitStr memSep (cs @ memSep @ s) of [] \<Rightarrow> [[c]] | q # qs \<Rightarrow> (c # q) # qs)"
    by (intro splitStr_miss) simp
  then show ?case using Cons by simp
qed

lemma split_last: "\<not> containsStr p memSep \<Longrightarrow> splitStr memSep p = [p]"
proof (induction p)
  case (Cons c cs)
  then have "splitStr memSep (c # cs) = (case splitStr memSep cs of [] \<Rightarrow> [[c]] | q # qs \<Rightarrow> (c # q) # qs)"
    by (intro splitStr_miss) auto
  then show ?case using Cons by simp
qed (simp add: splitStr_Nil)

lemma joinWith_ConsCons: "joinWith sep (x # y # ys) = x @ sep @ joinWith sep (y # ys)"
  by simp

definition plainContext :: "memoryContext \<Rightarrow> bool" where
  "plainContext ctx \<longleftrightarrow>
     list_all (\<lambda>f. \<not> containsStr f memSep) [mcKey ctx, mcUser ctx, mcChannel ctx, mcThread ctx, mcProtocol ctx]"

lemma context_roundtrip: "plainContext ctx \<Longrightarrow> contextOfString (contextString ctx) = Some ctx"
  by (simp add: plainContext_def contextOfString_def contextString_def split_part split_last)

definition validContext :: "memoryContext \<Rightarrow> bool" where
  "validContext ctx \<longleftrightarrow> list_all validUtf8 [mcKey ctx, mcUser ctx, mcChannel ctx, mcThread ctx, mcProtocol ctx]"

lemma valid_sep: "validUtf8 memSep"
  by code_simp

lemma valid_join: "list_all validUtf8 xs \<Longrightarrow> validUtf8 (joinWith memSep xs)"
  by (induction memSep xs rule: joinWith.induct) (simp_all add: valid_append valid_sep)

text \<open>The loops are those of the saved keys, on the memories that are saved.\<close>

interpretation memory_keys: key_codec contextString contextOfString "\<lambda>c. plainContext c \<and> validContext c"
  by unfold_locales (simp add: context_roundtrip, simp add: validContext_def contextString_def valid_join del: joinWith.simps)

definition savedMemories :: "(memoryContext \<times> ephemeralMemory) list \<Rightarrow> (memoryContext \<times> ephemeralMemory) list" where
  "savedMemories em = filter (\<lambda>e. mcKey (fst e) \<noteq> lastMsgKey) em"

lemma temp_saveKeys: "tempMemories em obj = saveKeys contextString (savedMemories em) obj"
  by (induction em obj rule: tempMemories.induct) (simp_all add: savedMemories_def)

lemma marshal_saveKeys: "marshalMemories em = jsonObject jsonMemory (saveKeys contextString (savedMemories em) [])"
  by (simp add: marshalMemories_def temp_saveKeys)

lemma unmarshal_loadKeys: "unmarshalMemories obj m = loadKeys contextOfString obj m"
  by (induction obj m rule: unmarshalMemories.induct) (simp_all split: option.split)

lemma savedMemories_lookup: "map_of (savedMemories em) ctx = (if mcKey ctx = lastMsgKey then None else map_of em ctx)"
  by (induction em) (auto simp: savedMemories_def)

text \<open>
  C35. Saving the ephemeral memories and restoring them gives back every memory but the last-message
  ones unchanged, as long as no field of a context contains the separator of the saved keys, and the
  fields and the remembered texts are valid UTF-8: the JSON of the brain replaces what is not.
\<close>

theorem ephemeral_roundtrip:
  assumes "distinct (map fst (emMap em))"
    and "list_all (\<lambda>(c, v). plainContext c \<and> validContext c \<and> validUtf8 (ephMemory v)) (emMap em)"
    and "\<exists>c v. (c, v) \<in> set (emMap em) \<and> mcKey c \<noteq> lastMsgKey"
  shows "\<exists>t. restoreEphemeralMemories (Ok, fst (saveEphemeralMemories Ok em)) fresh = (Restored, t) \<and>
    (\<forall>ctx. map_of (emMap t) ctx = (if mcKey ctx = lastMsgKey then None else map_of (emMap em) ctx))"
proof -
  have "\<forall>(c, v) \<in> set (savedMemories (emMap em)). plainContext c \<and> validContext c"
    "\<forall>(c, v) \<in> set (savedMemories (emMap em)). jsonMemory v = v"
    using assms(2) by (auto simp: savedMemories_def list_all_iff jsonMemory_def valid_coerce)
  moreover have "distinct (map fst (savedMemories (emMap em)))" using assms(1) by (simp add: savedMemories_def distinct_map_filter)
  ultimately obtain m where m: "unmarshalMemories (marshalMemories (emMap em)) [] = Inr m"
    "\<forall>ctx. map_of m ctx = (if mcKey ctx = lastMsgKey then None else map_of (emMap em) ctx)"
    using memory_keys.save_load unfolding marshal_saveKeys unmarshal_loadKeys savedMemories_lookup [symmetric] by blast
  from assms(3) obtain c v where "map_of (emMap em) c = Some v" "mcKey c \<noteq> lastMsgKey"
    using assms(1) by (metis map_of_is_SomeI)
  then have "map_of m c = Some v" using m(2) by simp
  then have "m \<noteq> []" by auto
  then show ?thesis using m by (simp add: restoreEphemeralMemories_def saveEphemeralMemories_def)
qed

definition demoMemories :: eMemories where
  "demoMemories = \<lparr>emMap = [(\<lparr>mcKey = ''context:item'', mcUser = ''alice'', mcChannel = ''general'', mcThread = ''t1'',
     mcProtocol = ''ssh''\<rparr>, \<lparr>ephMemory = ''milk'', ephTimestamp = 5\<rparr>)], emDirty = True\<rparr>"

theorem ephemeral_roundtrip_witness:
  "\<exists>t. restoreEphemeralMemories (Ok, fst (saveEphemeralMemories Ok demoMemories)) \<lparr>emMap = [], emDirty = False\<rparr> =
      (Restored, t) \<and>
    (\<forall>ctx. map_of (emMap t) ctx = (if mcKey ctx = lastMsgKey then None else map_of (emMap demoMemories) ctx))"
proof (rule ephemeral_roundtrip)
  show "list_all (\<lambda>(c, v). plainContext c \<and> validContext c \<and> validUtf8 (ephMemory v)) (emMap demoMemories)" by code_simp
  show "\<exists>c v. (c, v) \<in> set (emMap demoMemories) \<and> mcKey c \<noteq> lastMsgKey"
    by (simp add: demoMemories_def lastMsgKey_def)
qed (simp add: demoMemories_def)

lemma split_append: "splitStr memSep (p @ memSep @ s) = splitStr memSep p @ splitStr memSep s"
proof (induction "length p" arbitrary: p rule: less_induct)
  case less
  show ?case
  proof (cases p)
    case Nil
    then show ?thesis using splitStr_hit [of memSep s] by (simp add: memSep_def splitStr_Nil)
  next
    case (Cons c cs)
    show ?thesis
    proof (cases "hasPrefix p memSep")
      case True
      then obtain q where q: "p = memSep @ q" by (auto simp: hasPrefix_iff)
      then have "length q < length p" by (simp add: memSep_def)
      from less [OF this] show ?thesis
        using splitStr_hit [of memSep "q @ memSep @ s"] splitStr_hit [of memSep q] by (simp add: q memSep_def)
    next
      case False
      then have "\<not> hasPrefix (p @ memSep @ s) memSep" using sep_prefix [of p s] Cons by auto
      then have "splitStr memSep (c # cs @ memSep @ s) =
          (case splitStr memSep (cs @ memSep @ s) of [] \<Rightarrow> [[c]] | q # qs \<Rightarrow> (c # q) # qs)"
        using Cons by (intro splitStr_miss) simp
      moreover have "splitStr memSep p = (case splitStr memSep cs of [] \<Rightarrow> [[c]] | q # qs \<Rightarrow> (c # q) # qs)"
        using False Cons splitStr_miss by simp
      moreover obtain q qs where "splitStr memSep cs = q # qs" using splitStr_ne by (cases "splitStr memSep cs") auto
      ultimately show ?thesis using less [of cs] Cons by simp
    qed
  qed
qed

lemma split_many: "containsStr p memSep \<Longrightarrow> 2 \<le> length (splitStr memSep p)"
proof (induction p)
  case (Cons c cs)
  show ?case
  proof (cases "hasPrefix (c # cs) memSep")
    case True
    then obtain q where "c # cs = memSep @ q" by (auto simp: hasPrefix_iff)
    then have "splitStr memSep (c # cs) = [] # splitStr memSep q"
      using splitStr_hit [of memSep q] by (simp add: memSep_def)
    moreover have "splitStr memSep q \<noteq> []" by simp
    ultimately show ?thesis by (cases "splitStr memSep q") auto
  next
    case False
    then have "containsStr cs memSep" using Cons.prems by auto
    then have "2 \<le> length (splitStr memSep cs)" by (rule Cons.IH)
    then show ?thesis using False by (cases "splitStr memSep cs") (simp_all add: splitStr_miss)
  qed
qed (simp add: memSep_def)

lemma split_pos: "1 \<le> length (splitStr memSep p)"
  using splitStr_ne [of memSep p] by (cases "splitStr memSep p") auto

lemma coerce_sep: "coerceUtf8 (a @ memSep @ b) = coerceUtf8 a @ memSep @ coerceUtf8 b"
proof -
  have "byteIn 0 0x7F CHR ''{''" "byteIn 0 0x7F CHR ''|''" "byteIn 0 0x7F CHR ''}''" by code_simp+
  then show ?thesis using coerce_ascii [of _ "[]"] by (simp add: memSep_def coerce_ascii)
qed

lemma contains_split: "containsStr f memSep \<Longrightarrow> \<exists>a b. f = a @ memSep @ b"
proof (induction f)
  case (Cons c cs)
  then show ?case by (auto simp: hasPrefix_iff) (metis append_Nil, metis append_Cons)
qed (simp add: memSep_def)

lemma coerce_many: "containsStr f memSep \<Longrightarrow> 2 \<le> length (splitStr memSep (coerceUtf8 f))"
proof -
  assume "containsStr f memSep"
  then obtain a b where "f = a @ memSep @ b" using contains_split by blast
  then show ?thesis using split_pos [of "coerceUtf8 a"] split_pos [of "coerceUtf8 b"] by (simp add: coerce_sep split_append)
qed

lemma bad_context: "\<not> plainContext ctx \<Longrightarrow> contextOfString (coerceUtf8 (contextString ctx)) = None"
proof -
  assume "\<not> plainContext ctx"
  then obtain f where f: "f \<in> {mcKey ctx, mcUser ctx, mcChannel ctx, mcThread ctx, mcProtocol ctx}" "containsStr f memSep"
    by (auto simp: plainContext_def)
  let ?n = "\<lambda>f. length (splitStr memSep (coerceUtf8 f))"
  have "length (splitStr memSep (coerceUtf8 (contextString ctx))) =
      ?n (mcKey ctx) + ?n (mcUser ctx) + ?n (mcChannel ctx) + ?n (mcThread ctx) + ?n (mcProtocol ctx)"
    by (simp add: contextString_def coerce_sep split_append)
  then have "6 \<le> length (splitStr memSep (coerceUtf8 (contextString ctx)))"
    using coerce_many [OF f(2)] f(1) split_pos [of "coerceUtf8 (mcKey ctx)"] split_pos [of "coerceUtf8 (mcUser ctx)"]
      split_pos [of "coerceUtf8 (mcChannel ctx)"] split_pos [of "coerceUtf8 (mcThread ctx)"]
      split_pos [of "coerceUtf8 (mcProtocol ctx)"] by auto
  then show ?thesis by (auto simp: contextOfString_def split: list.split)
qed

lemma temp_mem:
  "contextString ctx \<in> set (map fst obj) \<or> (ctx \<in> set (map fst em) \<and> mcKey ctx \<noteq> lastMsgKey) \<Longrightarrow>
   contextString ctx \<in> set (map fst (tempMemories em obj))"
proof (induction em obj rule: tempMemories.induct)
  case (2 k v rest obj)
  then show ?case by (auto simp: dom_update simp del: update_keys)
qed simp

lemma unmarshal_bad:
  "k \<in> set (map fst obj) \<Longrightarrow> contextOfString k = None \<Longrightarrow> \<exists>k'. unmarshalMemories obj m = Inl k'"
  by (induction obj m rule: unmarshalMemories.induct) (auto split: option.split)

text \<open>
  One memory whose key, or any other field, contains the separator makes every saved memory
  unreadable: the next restart restores none of them, whatever else was saved and in whatever order.
\<close>

theorem separator_poisons_restore:
  assumes "ctx \<in> set (map fst (emMap em))" and "mcKey ctx \<noteq> lastMsgKey" and "\<not> plainContext ctx"
  shows "restoreEphemeralMemories (Ok, fst (saveEphemeralMemories Ok em)) fresh = (RestoreError DataFormatError, fresh)"
proof -
  have "contextString ctx \<in> set (map fst (tempMemories (emMap em) []))"
    using assms(1,2) by (intro temp_mem) simp
  then have "coerceUtf8 (contextString ctx) \<in> set (map fst (marshalMemories (emMap em)))"
    by (force simp: marshalMemories_def jsonObject_def)
  from unmarshal_bad [OF this bad_context [OF assms(3)], of "[]"] show ?thesis
    by (auto simp: restoreEphemeralMemories_def saveEphemeralMemories_def)
qed

theorem separator_poisons_restore_witness:
  "restoreEphemeralMemories (Ok, fst (saveEphemeralMemories Ok
      (demoMemories\<lparr>emMap := (\<lparr>mcKey = ''a{|}b'', mcUser = [], mcChannel = ''dev'', mcThread = [], mcProtocol = []\<rparr>,
         \<lparr>ephMemory = ''x'', ephTimestamp = 5\<rparr>) # emMap demoMemories\<rparr>))) \<lparr>emMap = [], emDirty = False\<rparr> =
    (RestoreError DataFormatError, \<lparr>emMap = [], emDirty = False\<rparr>)"
proof (rule separator_poisons_restore)
  let ?c = "\<lparr>mcKey = ''a{|}b'', mcUser = [], mcChannel = ''dev'', mcThread = [], mcProtocol = []\<rparr>"
  show "\<not> plainContext ?c" by code_simp
qed (simp_all add: lastMsgKey_def)

subsection \<open>Forgetting\<close>

lemma expire_lookup:
  "distinct (map fst em) \<Longrightarrow> map_of (filter (\<lambda>cm. \<not> memoryExpired t cm) em) ctx =
     (case map_of em ctx of None \<Rightarrow> None | Some m \<Rightarrow> if memoryExpired t (ctx, m) then None else Some m)"
proof (induction em)
  case (Cons cm em)
  have "map_of em (fst cm) = None" using Cons.prems by (simp add: map_of_eq_None_iff)
  then show ?case using Cons by (cases cm) (auto split: option.split)
qed simp

lemma expire_distinct: "distinct (map fst (emMap em)) \<Longrightarrow> distinct (map fst (emMap (expireMemories t em)))"
  by (simp add: expireMemories_def distinct_map_filter)

lemma expire_gone:
  "distinct (map fst (emMap em)) \<Longrightarrow> map_of (emMap em) ctx = None \<Longrightarrow>
   map_of (emMap (foldl (\<lambda>em t. expireMemories t em) em ts)) ctx = None"
proof (induction ts arbitrary: em)
  case (Cons t ts)
  then have "map_of (emMap (expireMemories t em)) ctx = None" by (simp add: expireMemories_def expire_lookup)
  then show ?case using Cons.IH [OF expire_distinct [OF Cons.prems(1), of t]] by simp
qed simp

lemma expire_keep:
  "distinct (map fst (emMap em)) \<Longrightarrow> map_of (emMap em) ctx = Some m \<Longrightarrow>
   map_of (emMap (foldl (\<lambda>em t. expireMemories t em) em ts)) ctx =
     (if list_all (\<lambda>t. \<not> memoryExpired t (ctx, m)) ts then Some m else None)"
proof (induction ts arbitrary: em)
  case (Cons t ts)
  note d = expire_distinct [OF Cons.prems(1), of t]
  show ?case
  proof (cases "memoryExpired t (ctx, m)")
    case True
    then have "map_of (emMap (expireMemories t em)) ctx = None"
      using Cons.prems by (simp add: expireMemories_def expire_lookup)
    then show ?thesis using expire_gone [OF d] True by simp
  next
    case False
    then have "map_of (emMap (expireMemories t em)) ctx = Some m"
      using Cons.prems by (simp add: expireMemories_def expire_lookup)
    then show ?thesis using Cons.IH [OF d] False by simp
  qed
qed simp

text \<open>
  What the robot is told to remember in a conversation is recalled until a tick comes more than
  the duration of that kind of conversation later, seven days in a thread or a direct message and
  fourteen minutes in a channel, and is forgotten from then on.
\<close>

theorem recall_until_expiry:
  assumes "distinct (map fst (emMap em))" and "v \<noteq> []"
  shows "recall r key shared (foldl (\<lambda>em t. expireMemories t em) (remember r key v shared now em) ts) =
    (if list_all (\<lambda>t. t - now \<le> memoryDuration (robotMemoryContext r key False shared)) ts then v else [])"
proof -
  let ?ctx = "robotMemoryContext r key False shared" and ?m = "\<lparr>ephMemory = v, ephTimestamp = now\<rparr>"
  let ?em = "remember r key v shared now em"
  have em: "emMap ?em = AList.update ?ctx ?m (emMap em)"
    using assms(2) by (simp add: remember_def rememberAt_def Let_def)
  have "distinct (map fst (emMap ?em))" "map_of (emMap ?em) ?ctx = Some ?m"
    unfolding em using assms(1) by (simp_all add: distinct_update update_conv')
  from expire_keep [OF this, of ts] show ?thesis by (simp add: recall_def memoryExpired_def not_less)
qed

definition demoSpeaker :: speaker where
  "demoSpeaker = \<lparr>spUser = ''Alice'', spChannel = ''general'', spProtocol = SSH, spIncoming = None\<rparr>"

theorem recall_until_expiry_witness:
  "recall demoSpeaker ''context:item'' False (foldl (\<lambda>em t. expireMemories t em)
      (remember demoSpeaker ''context:item'' ''milk'' False 100 demoMemories) [101, 940, 941]) = []"
proof -
  have d: "distinct (map fst (emMap demoMemories))" by (simp add: demoMemories_def)
  have n: "\<not> list_all (\<lambda>t. t - 100 \<le> memoryDuration (robotMemoryContext demoSpeaker ''context:item'' False False)) [101, 940, 941]"
    by code_simp
  show ?thesis using recall_until_expiry [OF d, of "''milk''" demoSpeaker "''context:item''" False 100 "[101, 940, 941]"] n by simp
qed

end
