(* ===== verification/Directory.thy ===== *)
theory Directory
  imports Ephemeral
begin

text \<open>
  Who is who: the current maps of users and channels (\<open>userChanMaps\<close> of bot/conf.go), the lookups of
  bot/channel\_maps.go and bot/send\_message.go, and the resolution of the user of an incoming message
  (bot/handler.go). A Go map that is never ranged over here is a HOL map; a lookup in a map of maps
  takes both keys.
\<close>

record ChannelInfo =
  chChannelName :: string
  chChannelID :: string

record UserInfo =
  uiUserName :: string
  uiUserID :: string
  uiBotUser :: bool

record userChanMaps =
  umUserIDProto :: "string \<Rightarrow> string \<Rightarrow> UserInfo option"
  umDirectoryUser :: "string \<Rightarrow> bool option"
  umUserBot :: "string \<Rightarrow> bool option"
  umUserProto :: "string \<Rightarrow> string \<Rightarrow> UserInfo option"
  umChannelID :: "string \<Rightarrow> ChannelInfo option"
  umChannel :: "string \<Rightarrow> ChannelInfo option"
  umChannelIDProto :: "string \<Rightarrow> string \<Rightarrow> ChannelInfo option"
  umChannelProto :: "string \<Rightarrow> string \<Rightarrow> ChannelInfo option"

definition bracket :: "string \<Rightarrow> string" where
  "bracket s = ''<'' @ s @ ''>''"

text \<open>\<open>ExtractID\<close>: the dot of its expression does not match a line break.\<close>

definition extractID :: "string \<Rightarrow> string \<times> bool" where
  "extractID u =
     (if length u \<ge> 2 \<and> hd u = CHR ''<'' \<and> last u = CHR ''>'' \<and> CHR 0x0A \<notin> set u
      then (butlast (tl u), True) else (u, False))"

definition orElse :: "'a option \<Rightarrow> 'a option \<Rightarrow> 'a option" where
  "orElse x y = (case x of None \<Rightarrow> y | Some v \<Rightarrow> Some v)"

definition getProtocolChannelByName :: "userChanMaps \<Rightarrow> string \<Rightarrow> string \<Rightarrow> ChannelInfo option" where
  "getProtocolChannelByName maps protocol channel =
     (let p = normalizeProtocolName protocol
      in orElse (if p = [] then None else umChannelProto maps p channel) (umChannel maps channel))"

definition getProtocolChannelByID :: "userChanMaps \<Rightarrow> string \<Rightarrow> string \<Rightarrow> ChannelInfo option" where
  "getProtocolChannelByID maps protocol channelID =
     (let p = normalizeProtocolName protocol
      in orElse (if p = [] then None else umChannelIDProto maps p channelID) (umChannelID maps channelID))"

text \<open>
  The name and flags of the sender: a name the connector gives is used in lower case, otherwise the
  protocol's map of internal IDs decides, and an unknown ID is its own name in brackets. The result is
  the name, whether it is a bot, whether the protocol knew it, and whether the directory lists it.
\<close>

definition resolveIncomingUser ::
    "userChanMaps \<Rightarrow> string \<Rightarrow> string \<Rightarrow> string \<Rightarrow> string \<times> bool \<times> bool \<times> bool" where
  "resolveIncomingUser maps protocol userID connectorUser =
     (let found = (if connectorUser \<noteq> [] then None else umUserIDProto maps protocol userID);
          given = toLower (trimSpace connectorUser);
          mapped = (case found of None \<Rightarrow> [] | Some ui \<Rightarrow> uiUserName ui);
          userName =
            (if connectorUser \<noteq> [] then (if given = [] then connectorUser else given)
             else if mapped = [] then bracket userID else mapped);
          protocolBot = (case found of None \<Rightarrow> False | Some ui \<Rightarrow> uiBotUser ui)
      in (userName,
          (case umUserBot maps userName of None \<Rightarrow> protocolBot | Some b \<Rightarrow> b),
          connectorUser \<noteq> [] \<or> found \<noteq> None,
          umDirectoryUser maps userName \<noteq> None))"

definition resolveIncomingProtocolUser :: "string \<Rightarrow> string \<Rightarrow> string" where
  "resolveIncomingProtocolUser userID userName = (if userID \<noteq> [] then bracket userID else userName)"

text \<open>The identifiers a new pipeline fills in for a user or a channel that only has a name.\<close>

definition resolveUserFor :: "userChanMaps \<Rightarrow> string \<Rightarrow> string \<Rightarrow> string" where
  "resolveUserFor maps protocol u =
     (case umUserProto maps protocol u of None \<Rightarrow> u | Some ui \<Rightarrow> bracket (uiUserID ui))"

definition resolveChannelFor :: "userChanMaps \<Rightarrow> string \<Rightarrow> string \<Rightarrow> string" where
  "resolveChannelFor maps protocol ch =
     (if snd (extractID ch) then ch
      else (case getProtocolChannelByName maps protocol ch of None \<Rightarrow> ch | Some ci \<Rightarrow> bracket (chChannelID ci)))"

lemma extractID_bracket: "CHR 0x0A \<notin> set s \<Longrightarrow> extractID (bracket s) = (s, True)"
  by (simp add: extractID_def bracket_def butlast_append)

lemma resolve_listed: "resolveIncomingUser maps p uid cu = (u, b, m, l) \<Longrightarrow> l \<longleftrightarrow> umDirectoryUser maps u \<noteq> None"
  by (simp add: resolveIncomingUser_def Let_def) blast

end
