(* ===== verification/Tasks.thy ===== *)
theory Tasks
  imports MatcherInput Directory
begin

text \<open>
  Tasks, plugins and jobs (bot/tasks.go), the messages that reach the robot (robot/connector\_defs.go),
  and the configured policy that decides who may use what where: admin commands, user lists,
  authorized commands and private commands (bot/available.go, bot/allow\_hidden.go, the predicates of
  bot/authorize.go and bot/builtins.go). Go's pointers to a \<open>Plugin\<close>, \<open>Job\<close> or \<open>Task\<close> held in an
  \<open>interface{}\<close> are the datatype \<open>taskObj\<close>. Reply matchers, timeouts and the raw configuration of a
  task play no part here and are left out of the records.
\<close>

subsection \<open>Data model\<close>

datatype taskType = TaskGo | TaskExternal

datatype pipelineType =
  Unset | PlugCommand | PlugMessage | CatchAll | PlugThreadSubscription | JobTrigger | SpawnedTask
| Scheduled | InitJob | JobCommand | QueuedJob

record Parameter =
  parName :: string
  parValue :: string

record ParameterSet =
  psName :: string
  psParameters :: "Parameter list"

record Task =
  tkName :: string
  tkType :: taskType
  tkPath :: string
  tkNameSpace :: string
  tkParameters :: "Parameter list"
  tkParameterSets :: "string list"
  tkDescription :: string
  tkChannel :: string
  tkChannels :: "string list"
  tkAllChannels :: bool
  tkRequireAdmin :: bool
  tkUsers :: "string list"
  tkElevator :: string
  tkAuthorizer :: string
  tkAuthRequire :: string
  tkDisabled :: bool
  tkPrivileged :: bool
  tkHomed :: bool
  tkReason :: string

record Plugin =
  plTask :: Task
  plAdminCommands :: "string list"
  plElevatedCommands :: "string list"
  plElevateImmediateCommands :: "string list"
  plAuthorizedCommands :: "string list"
  plAllowedPrivateCommands :: "string list"
  plRequiredPrivateCommands :: "string list"
  plAuthorizeAllCommands :: bool
  plRequireAllCommandsPrivate :: bool
  plRestrictPrivateChannels :: bool
  plCommands :: "InputMatcher list"
  plMessageMatchers :: "InputMatcher list"
  plAmbientMatchCommand :: bool
  plCatchAll :: bool
  plCatchAllModes :: "string list"
  plMatchUnlisted :: bool

record JobTrigger =
  jtRegex :: string
  jtUser :: string
  jtChannel :: string
  jtRe :: regexpFn

record Job =
  jbTask :: Task
  jbQuiet :: bool
  jbKeepLogs :: int
  jbTriggers :: "JobTrigger list"
  jbArguments :: "InputMatcher list"

datatype taskObj = PluginObj Plugin | JobObj Job | TaskObj Task

text \<open>\<open>getTask\<close> returns the common part and the plugin or the job it belongs to.\<close>

fun getTask :: "taskObj \<Rightarrow> Task \<times> Plugin option \<times> Job option" where
  "getTask (PluginObj p) = (plTask p, Some p, None)"
| "getTask (JobObj j) = (jbTask j, None, Some j)"
| "getTask (TaskObj t) = (t, None, None)"

abbreviation taskOf :: "taskObj \<Rightarrow> Task" where
  "taskOf t \<equiv> fst (getTask t)"

abbreviation pluginOf :: "taskObj \<Rightarrow> Plugin option" where
  "pluginOf t \<equiv> fst (snd (getTask t))"

abbreviation jobOf :: "taskObj \<Rightarrow> Job option" where
  "jobOf t \<equiv> snd (snd (getTask t))"

text \<open>
  The configured tasks. Index 0 of the list is a dummy that stands for every name space; a name
  map from loading the configuration never points past the list (\<open>wfTaskList\<close>), where Go would panic.
\<close>

record taskList =
  tlT :: "taskObj list"
  tlNameMap :: "string \<Rightarrow> nat option"
  tlNameSpaces :: "string \<Rightarrow> ParameterSet option"
  tlParameterSets :: "string \<Rightarrow> ParameterSet option"

definition wfTaskList :: "taskList \<Rightarrow> bool" where
  "wfTaskList lst \<longleftrightarrow> tlT lst \<noteq> [] \<and> (\<forall>name i. tlNameMap lst name = Some i \<longrightarrow> i < length (tlT lst))"

definition getTaskByName :: "taskList \<Rightarrow> string \<Rightarrow> taskObj option" where
  "getTaskByName lst name =
     (case tlNameMap lst name of
        None \<Rightarrow> None
      | Some ti \<Rightarrow> if ti = 0 then None else Some (tlT lst ! ti))"

definition isNamespace :: "taskList \<Rightarrow> string \<Rightarrow> bool" where
  "isNamespace lst name \<longleftrightarrow> tlNameSpaces lst name \<noteq> None"

record TaskSpec =
  tsName :: string
  tsCommand :: string
  tsArguments :: "string list"
  tsTask :: "taskObj option"

subsection \<open>Messages and configuration\<close>

record connectorMessage = incomingMessage +
  cmUserID :: string
  cmValidatedUser :: bool
  cmChannelName :: string
  cmChannelID :: string
  cmMessageID :: string
  cmSelfMessage :: bool
  cmDirectMessage :: bool
  cmBotMessage :: bool
  cmHiddenMessage :: bool
  cmMessageText :: string

record configuration =
  cfAdminUsers :: "string list"
  cfBotName :: string
  cfDefaultElevator :: string
  cfDefaultAuthorizer :: string
  cfDefaultJobChannel :: string
  cfWorkSpace :: string
  cfBrainProvider :: string
  cfSecureParamRetrieve :: bool

datatype pipeStage = PrimaryTasks | FinalTasks | FailTasks

type_synonym stringMap = "string \<Rightarrow> string option"

record pipeContext =
  pcWorkingDirectory :: string
  pcBaseDirectory :: string
  pcActive :: bool
  pcEnvironment :: stringMap
  pcParameters :: stringMap
  pcNextTasks :: "TaskSpec list"
  pcFinalTasks :: "TaskSpec list"
  pcFailTasks :: "TaskSpec list"
  pcFinalFailed :: "string list"
  pcTaskName :: string
  pcTaskDesc :: string
  pcTaskType :: string
  pcPlugCommand :: string
  pcTaskArgs :: "string list"
  pcExclusiveTag :: string
  pcQueueTask :: bool
  pcAbortPipeline :: bool
  pcPrivileged :: bool
  pcExecutedPrimaryTask :: bool
  pcPtype :: pipelineType
  pcElevated :: bool
  pcStage :: pipeStage
  pcJobName :: string
  pcNameSpace :: string
  pcNameSpaceParameters :: "Parameter list"
  pcParameterSets :: "string list"
  pcPipeName :: string
  pcPipeDesc :: string
  pcCurrentTask :: "taskObj option"
  pcExclusive :: bool

record worker =
  wId :: nat
  wUser :: string
  wProtocolUser :: string
  wChannel :: string
  wProtocolChannel :: string
  wProtocol :: protocol
  wIncoming :: connectorMessage
  wBotUser :: bool
  wListedUser :: bool
  wIsCommand :: bool
  wCmdMode :: string
  wMsg :: string
  wFmsg :: string
  wAutomaticTask :: bool
  wQueueProvider :: string
  wQueueMessageID :: string
  wCfg :: configuration
  wTasks :: taskList
  wMaps :: "userChanMaps option"
  wPipe :: pipeContext

subsection \<open>Glob patterns of user lists (path/filepath, Match)\<close>

text \<open>
  \<open>scanChunk\<close> splits a pattern after its leading stars and up to the next star outside brackets;
  \<open>matchChunk\<close> gives the rest of the name after a chunk, \<open>None\<close> when it does not match and an error
  for a malformed pattern, which Go reports as \<open>ErrBadPattern\<close>.
\<close>

datatype globError = ErrBadPattern

fun scanTo :: "bool \<Rightarrow> string \<Rightarrow> string \<times> string" where
  "scanTo inBrackets [] = ([], [])"
| "scanTo inBrackets (c # cs) =
     (if c = CHR 0x5C then
        (case cs of [] \<Rightarrow> ([c], [])
         | d # ds \<Rightarrow> (case scanTo inBrackets ds of (chunk, rest) \<Rightarrow> (c # d # chunk, rest)))
      else if c = CHR ''*'' \<and> \<not> inBrackets then ([], c # cs)
      else (case scanTo (if c = CHR ''['' then True else if c = CHR '']'' then False else inBrackets) cs of
              (chunk, rest) \<Rightarrow> (c # chunk, rest)))"

definition scanChunk :: "string \<Rightarrow> bool \<times> string \<times> string" where
  "scanChunk pattern =
     (let p = dropWhile (\<lambda>c. c = CHR ''*'') pattern in (p \<noteq> pattern, scanTo False p))"

definition getEsc :: "string \<Rightarrow> globError + char \<times> string" where
  "getEsc chunk =
     (case chunk of
        [] \<Rightarrow> Inl ErrBadPattern
      | c # cs \<Rightarrow>
          if c = CHR ''-'' \<or> c = CHR '']'' then Inl ErrBadPattern
          else (case (if c = CHR 0x5C then cs else chunk) of
                  [] \<Rightarrow> Inl ErrBadPattern
                | d # ds \<Rightarrow> if ds = [] then Inl ErrBadPattern else Inr (d, ds)))"

lemma getEsc_length: "getEsc chunk = Inr (c, rest) \<Longrightarrow> length rest < length chunk"
  by (auto simp: getEsc_def split: list.splits if_splits)

text \<open>The ranges of a bracket expression up to its closing bracket: whether the byte is in one, and the rest.\<close>

function classRanges :: "char \<Rightarrow> bool \<Rightarrow> nat \<Rightarrow> string \<Rightarrow> globError + bool \<times> string" where
  "classRanges r found nrange chunk =
     (if chunk \<noteq> [] \<and> hd chunk = CHR '']'' \<and> nrange > 0 then Inr (found, tl chunk)
      else (case getEsc chunk of
              Inl e \<Rightarrow> Inl e
            | Inr (lo, rest) \<Rightarrow>
                if hd rest = CHR ''-'' then
                  (case getEsc (tl rest) of
                     Inl e \<Rightarrow> Inl e
                   | Inr (hi, rest') \<Rightarrow>
                       classRanges r (found \<or> (of_char lo :: nat) \<le> of_char r \<and> (of_char r :: nat) \<le> of_char hi)
                         (Suc nrange) rest')
                else classRanges r (found \<or> lo = r) (Suc nrange) rest))"
  by pat_completeness auto
termination
proof (relation "measure (\<lambda>(r, found, n, chunk). length chunk)", goal_cases)
  case (2 r found nrange chunk v lo rest w hi rest')
  then have "length rest < length chunk" "length rest' < length (tl rest)"
    using getEsc_length by fastforce+
  then show ?case by simp
qed (auto dest: getEsc_length)

declare classRanges.simps [simp del]

fun matchChunk :: "nat \<Rightarrow> bool \<Rightarrow> string \<Rightarrow> string \<Rightarrow> globError + string option" where
  "matchChunk n failed [] s = Inr (if failed then None else Some s)"
| "matchChunk 0 failed (c # cs) s = Inr None"
| "matchChunk (Suc n) failed (c # cs) s =
     (let bad = failed \<or> s = [] in
      if c = CHR ''['' then
        (let negated = (cs \<noteq> [] \<and> hd cs = CHR ''^''); body = (if negated then tl cs else cs) in
         case classRanges (if bad then CHR 0x00 else hd s) False 0 body of
           Inl e \<Rightarrow> Inl e
         | Inr (found, rest) \<Rightarrow> matchChunk n (bad \<or> found = negated) rest (if bad then s else tl s))
      else if c = CHR ''?'' then
        matchChunk n (bad \<or> hd s = CHR ''/'') cs (if bad then s else tl s)
      else if c = CHR 0x5C then
        (case cs of [] \<Rightarrow> Inl ErrBadPattern
         | d # ds \<Rightarrow> matchChunk n (bad \<or> d \<noteq> hd s) ds (if bad then s else tl s))
      else matchChunk n (bad \<or> c \<noteq> hd s) cs (if bad then s else tl s))"

text \<open>After a star, the first place in the name, before any separator, where the chunk matches.\<close>

fun starMatch :: "string \<Rightarrow> bool \<Rightarrow> string \<Rightarrow> globError + string option" where
  "starMatch chunk lastChunk [] = Inr None"
| "starMatch chunk lastChunk (c # cs) =
     (if c = CHR ''/'' then Inr None
      else (case matchChunk (length chunk) False chunk cs of
              Inl e \<Rightarrow> Inl e
            | Inr (Some t) \<Rightarrow> if lastChunk \<and> t \<noteq> [] then starMatch chunk lastChunk cs else Inr (Some t)
            | Inr None \<Rightarrow> starMatch chunk lastChunk cs))"

fun pathMatchAt :: "nat \<Rightarrow> string \<Rightarrow> string \<Rightarrow> globError + bool" where
  "pathMatchAt n [] name = Inr (name = [])"
| "pathMatchAt 0 (c # cs) name = Inr False"
| "pathMatchAt (Suc n) (c # cs) name =
     (case scanChunk (c # cs) of (star, chunk, pattern) \<Rightarrow>
        if star \<and> chunk = [] then Inr (\<not> containsByte name (CHR ''/''))
        else (case matchChunk (length chunk) False chunk name of
                Inl e \<Rightarrow> Inl e
              | Inr r \<Rightarrow>
                  (case (case r of None \<Rightarrow> None | Some t \<Rightarrow> if t = [] \<or> pattern \<noteq> [] then Some t else None) of
                     Some t \<Rightarrow> pathMatchAt n pattern t
                   | None \<Rightarrow>
                       if \<not> star then Inr False
                       else (case starMatch chunk (pattern = []) name of
                               Inl e \<Rightarrow> Inl e
                             | Inr None \<Rightarrow> Inr False
                             | Inr (Some t) \<Rightarrow> pathMatchAt n pattern t))))"

definition pathMatch :: "string \<Rightarrow> string \<Rightarrow> globError + bool" where
  "pathMatch pattern name = pathMatchAt (length pattern) pattern name"

subsection \<open>Who may use a task\<close>

definition isAdminUser :: "worker \<Rightarrow> bool" where
  "isAdminUser w \<longleftrightarrow> wAutomaticTask w \<or> wUser w \<in> set (cfAdminUsers (wCfg w))"

definition userMatchesTask :: "worker \<Rightarrow> Task \<Rightarrow> bool" where
  "userMatchesTask w task \<longleftrightarrow>
     tkUsers task = [] \<or> list_ex (\<lambda>allowed. pathMatch allowed (wUser w) = Inr True) (tkUsers task)"

definition userCanAccessTask :: "worker \<Rightarrow> Task \<Rightarrow> bool" where
  "userCanAccessTask w task \<longleftrightarrow>
     \<not> tkDisabled task \<and> (tkRequireAdmin task \<longrightarrow> isAdminUser w) \<and> userMatchesTask w task"

definition commandRequiresAdmin :: "Plugin \<Rightarrow> string \<Rightarrow> bool" where
  "commandRequiresAdmin plugin command \<longleftrightarrow> command \<in> set (plAdminCommands plugin)"

definition commandRequiresAuthorization :: "Plugin \<Rightarrow> string \<Rightarrow> bool" where
  "commandRequiresAuthorization plugin command \<longleftrightarrow>
     plAuthorizeAllCommands plugin \<or> command \<in> set (plAuthorizedCommands plugin)"

definition effectiveAuthorizerName :: "Task \<Rightarrow> string \<Rightarrow> string" where
  "effectiveAuthorizerName task defaultAuthorizer =
     (if tkAuthorizer task \<noteq> [] then tkAuthorizer task else defaultAuthorizer)"

definition sanitizeParamToken :: "string \<Rightarrow> string" where
  "sanitizeParamToken v =
     (if v = [] then ''authorizer''
      else map (\<lambda>ch. if isLetterByte ch \<or> isDigitByte ch then ch else CHR ''_'') v)"

definition nextUserGroupsParamKey :: "nat \<Rightarrow> string \<Rightarrow> string" where
  "nextUserGroupsParamKey seq authorizer =
     ''GopherbotAuthUsergroups_'' @ sanitizeParamToken authorizer @ ''_'' @ decDigits seq"

definition userHasRequiredGroup :: "string set \<Rightarrow> string \<Rightarrow> bool" where
  "userHasRequiredGroup groups required \<longleftrightarrow>
     required \<noteq> [] \<and> groups \<noteq> {} \<and> (required \<in> groups \<or> toLower required \<in> groups)"

text \<open>The groups an authorizer lists, in both cases, without blank entries.\<close>

definition authorizerGroups :: "string list \<Rightarrow> string set" where
  "authorizerGroups memberships =
     (let named = filter (\<lambda>g. g \<noteq> []) (map trimSpace memberships)
      in set named \<union> set (map toLower named))"

subsection \<open>Private commands\<close>

definition privateCommandContext :: "connectorMessage \<Rightarrow> bool" where
  "privateCommandContext incoming \<longleftrightarrow> cmDirectMessage incoming \<or> cmHiddenMessage incoming"

definition hiddenMessageAddressedToRobot :: "bool \<Rightarrow> string \<Rightarrow> bool" where
  "hiddenMessageAddressedToRobot botMessage cmdMode \<longleftrightarrow> botMessage \<or> cmdMode = ''name''"

definition pluginHasPrivatePolicy :: "Plugin \<Rightarrow> bool" where
  "pluginHasPrivatePolicy plugin \<longleftrightarrow>
     plRequireAllCommandsPrivate plugin \<or> plAllowedPrivateCommands plugin \<noteq> [] \<or> plRequiredPrivateCommands plugin \<noteq> []"

definition commandKey :: "string \<Rightarrow> string" where
  "commandKey command = trimSpace (toLower command)"

definition commandRequiresPrivate :: "Plugin \<Rightarrow> string \<Rightarrow> bool" where
  "commandRequiresPrivate plugin command \<longleftrightarrow>
     plRequireAllCommandsPrivate plugin \<or> commandKey command \<in> set (map commandKey (plRequiredPrivateCommands plugin))"

definition commandAllowsPrivate :: "Plugin \<Rightarrow> string \<Rightarrow> bool" where
  "commandAllowsPrivate plugin command \<longleftrightarrow>
     commandRequiresPrivate plugin command \<or>
     list_ex (\<lambda>allowed. commandKey allowed = ''*'' \<or> commandKey allowed = commandKey command)
       (plAllowedPrivateCommands plugin)"

definition privateChannelRestricted :: "Task \<Rightarrow> Plugin \<Rightarrow> bool" where
  "privateChannelRestricted task plugin \<longleftrightarrow> plRestrictPrivateChannels plugin \<and> tkChannels task \<noteq> []"

definition channelInList :: "string \<Rightarrow> string list \<Rightarrow> bool" where
  "channelInList channel channels \<longleftrightarrow> channel \<in> set channels"

definition privateContextSatisfiesChannels :: "worker \<Rightarrow> Task \<Rightarrow> Plugin \<Rightarrow> bool" where
  "privateContextSatisfiesChannels w task plugin \<longleftrightarrow>
     \<not> privateChannelRestricted task plugin \<or>
     \<not> cmDirectMessage (wIncoming w) \<and> channelInList (wChannel w) (tkChannels task)"

definition pluginAvailableForPrivateCommandMatch :: "worker \<Rightarrow> Task \<Rightarrow> Plugin \<Rightarrow> bool \<Rightarrow> bool" where
  "pluginAvailableForPrivateCommandMatch w task plugin verboseOnly \<longleftrightarrow>
     privateCommandContext (wIncoming w) \<and> \<not> verboseOnly \<and> pluginHasPrivatePolicy plugin \<and> userCanAccessTask w task"

text \<open>Availability for matching and for help, and whether the channel is listed explicitly.\<close>

definition pluginAvailable :: "worker \<Rightarrow> Task \<Rightarrow> bool \<Rightarrow> bool \<times> bool" where
  "pluginAvailable w task helpSystem =
     (if tkDisabled task \<or> \<not> userCanAccessTask w task then (False, False)
      else if cmDirectMessage (wIncoming w) then (True, helpSystem)
      else if tkChannels task \<noteq> [] \<and> wChannel w \<in> set (tkChannels task) then (True, True)
      else if tkChannels task = [] \<and> tkAllChannels task then (True, helpSystem)
      else if helpSystem then (True, True)
      else (False, False))"

text \<open>Names of tasks and parameters: Go's unanchored \<open>MatchString\<close> of \<^verbatim>\<open>[A-Za-z][\w-]*\<close>.\<close>

definition identifierRe :: rx where
  "identifierRe = RSeq (RSet False [CRange (CHR ''A'') (CHR ''Z''), CRange (CHR ''a'') (CHR ''z'')])
                    (RStar (RSet False [CWord, CChar (CHR ''-'')]))"

definition identifierMatches :: "string \<Rightarrow> bool" where
  "identifierMatches s \<longleftrightarrow> list_ex (\<lambda>i. list_ex (\<lambda>j. rmatch False identifierRe (take j (drop i s))) [0..<Suc (length s)]) [0..<Suc (length s)]"

end
