(* ===== verification/Security.thy ===== *)
theory Security
  imports Tasks
begin

text \<open>
  The checks a job or plugin passes before a pipeline runs it (bot/authorize.go, bot/elevate.go,
  bot/allow\_hidden.go, \<open>checkAdmin\<close> of bot/robot.go, and the security block of \<open>runPipeline\<close> in
  bot/run\_pipelines.go). A check may call an authorizer or elevator plugin; how a task is called is
  the argument \<open>call\<close> of the definitions, which theory Calls provides. \<open>Called\<close> entries of the trace
  record the finished calls with their results and exist only in the model; \<open>Emit\<close>, \<open>Say\<close> and
  \<open>Reply\<close> are the program's own events and messages.
\<close>

subsection \<open>The robot's state\<close>

datatype event =
  AuthNoRunMisconfigured | AuthNoRunNotFound | AuthRanSuccess | AuthRanFail | AuthRanMechanismFailed
| AuthRanFailNormal | AuthRanFailOther
| ElevNoRunMisconfigured | ElevNoRunNotFound | ElevRanSuccess | ElevRanFail | ElevRanMechanismFailed
| ElevRanFailNormal | ElevRanFailOther
| AdminCheckPassed | AdminCheckFailed
| CommandTaskRan | AmbientTaskRan | CatchAllTaskRan | TriggeredTaskRan | SpawnedTaskRan
| ScheduledTaskRan | JobTaskRan | GoPluginRan | ExternalTaskBadPath | ExternalTaskBadInterpreter
| ExternalTaskRan | ExternalTaskErrExit | MultipleMatchesNoAction | CatchAllsRan | BotDirectMessage

datatype action =
  Emit event
| Say string
| SayThread string
| MessageHeard
| Reply string
| Called nat taskObj string "string list" TaskRetVal
| Execute worker taskObj string "string list"

record robotState =
  rsWorker :: worker
  rsTrace :: "action list"
  rsRunQueues :: "string \<Rightarrow> nat list option"
  rsNextChan :: nat
  rsWorkerIdx :: nat
  rsActive :: "nat list"
  rsShuttingDown :: bool
  rsCalls :: nat
  rsSpawned :: "(worker \<times> taskObj \<times> string \<times> string list) list"
  rsAuthSeq :: nat
  rsHiddenSupported :: "string \<Rightarrow> bool"
  rsHiddenHint :: "string \<Rightarrow> string"
  rsMaps :: userChanMaps

text \<open>
  Two ways for a modelled operation to stop: a type assertion on a nil task, which panics, and fuel
  that was not enough, which the program does not have.
\<close>

datatype stop = NilTask | OutOfFuel

type_synonym 'a rop = "robotState \<Rightarrow> (stop + 'a) \<times> robotState"

type_synonym callFn = "taskObj \<Rightarrow> string \<Rightarrow> string list \<Rightarrow> (string \<times> TaskRetVal) rop"

definition reads :: "(robotState \<Rightarrow> 'a) \<Rightarrow> 'a rop" where
  "reads f s = (Inr (f s), s)"

definition act :: "action \<Rightarrow> unit rop" where
  "act a = modifyOp (\<lambda>s. s\<lparr>rsTrace := rsTrace s @ [a]\<rparr>)"

definition modifyWorker :: "(worker \<Rightarrow> worker) \<Rightarrow> unit rop" where
  "modifyWorker f = modifyOp (\<lambda>s. s\<lparr>rsWorker := f (rsWorker s)\<rparr>)"

definition modifyPipe :: "(pipeContext \<Rightarrow> pipeContext) \<Rightarrow> unit rop" where
  "modifyPipe f = modifyWorker (\<lambda>w. w\<lparr>wPipe := f (wPipe w)\<rparr>)"

definition setCurrentTask :: "taskObj option \<Rightarrow> unit rop" where
  "setCurrentTask t = modifyPipe (\<lambda>c. c\<lparr>pcCurrentTask := t\<rparr>)"

text \<open>A type assertion on an interface that holds no task panics.\<close>

definition getTaskOf :: "taskObj option \<Rightarrow> taskObj rop" where
  "getTaskOf t = (case t of None \<Rightarrow> fail NilTask | Some x \<Rightarrow> ret x)"

subsection \<open>Administrators and private commands\<close>

definition checkAdmin :: "bool rop" where
  "checkAdmin = bindOp (reads rsWorker) (\<lambda>w.
     if wAutomaticTask w then ret True
     else if wUser w \<in> set (cfAdminUsers (wCfg w)) then
       (if \<not> wListedUser w then andThen (act (Emit AdminCheckFailed)) (ret False)
        else andThen (act (Emit AdminCheckPassed)) (ret True))
     else andThen (act (Emit AdminCheckFailed)) (ret False))"

definition hiddenCommandsSupportedForProtocol :: "(string \<Rightarrow> bool) \<Rightarrow> string \<Rightarrow> bool" where
  "hiddenCommandsSupportedForProtocol caps p \<longleftrightarrow> normalizeProtocolName p \<noteq> [] \<and> caps (normalizeProtocolName p)"

definition unsupportedPrivateCommandMessage :: "string \<Rightarrow> string" where
  "unsupportedPrivateCommandMessage p =
     (if normalizeProtocolName p = [] then
        ''This command isn't supported here because private command transport is unavailable for this connector. Check with the robot administrator.''
      else ''This command isn't supported with '' @ normalizeProtocolName p @
        '' because private command transport is unavailable for this connector. Check with the robot administrator.'')"

definition singleQuoted :: "string \<Rightarrow> string" where
  "singleQuoted s = [CHR 0x27] @ s @ [CHR 0x27]"

definition privateChannelRestrictedMessage :: "string \<Rightarrow> string" where
  "privateChannelRestrictedMessage pluginName =
     (if trimSpace pluginName = [] then ''This private command is restricted to configured channels.''
      else ''Private commands for '' @ singleQuoted (trimSpace pluginName) @ '' are restricted to configured channels.'')"

definition defaultPrivateCommandHint :: "string \<Rightarrow> string" where
  "defaultPrivateCommandHint botName =
     (if trimSpace botName = [] then ''Private commands must be addressed to the robot.''
      else ''Private commands must be addressed to '' @ trimSpace botName @ ''.'')"

definition checkRequiredPrivateCommand :: "taskObj \<Rightarrow> string \<Rightarrow> TaskRetVal rop" where
  "checkRequiredPrivateCommand t command = bindOp (reads rsWorker) (\<lambda>w.
     if privateCommandContext (wIncoming w) then ret Success
     else (case pluginOf t of
             Some p \<Rightarrow> if commandRequiresPrivate p command
                       then andThen (act (Say ''This command is only available in a private context.'')) (ret Fail)
                       else ret Success
           | None \<Rightarrow> ret Success))"

text \<open>
  Hidden messages need a connector that supports them and must be addressed to the robot; the hint for
  a message that is not comes from the connector (\<open>rsHiddenHint\<close>).
\<close>

definition checkPrivateCommands :: "taskObj \<Rightarrow> string \<Rightarrow> TaskRetVal rop" where
  "checkPrivateCommands t command = bindOp (reads (\<lambda>s. s)) (\<lambda>s.
     let w = rsWorker s; inc = wIncoming w;
         p = protocolFromIncoming (Some (incomingMessage.truncate inc)) (wProtocol w);
         addressed = hiddenMessageAddressedToRobot (cmBotMessage inc) (wCmdMode w);
         hint = trimSpace (rsHiddenHint s p)
     in if \<not> privateCommandContext inc then ret Success
        else if cmHiddenMessage inc \<and> \<not> hiddenCommandsSupportedForProtocol (rsHiddenSupported s) p then
          andThen (act (Reply (unsupportedPrivateCommandMessage p))) (ret Fail)
        else if cmHiddenMessage inc \<and> \<not> addressed then
          andThen (act (Reply (if hint = [] then defaultPrivateCommandHint (cfBotName (wCfg w)) else hint))) (ret Fail)
        else (case pluginOf t of
                None \<Rightarrow> ret Success
              | Some plugin \<Rightarrow>
                  if commandAllowsPrivate plugin command then
                    (if \<not> privateContextSatisfiesChannels w (plTask plugin) plugin
                     then andThen (act (Reply (privateChannelRestrictedMessage (tkName (plTask plugin))))) (ret Fail)
                     else ret Success)
                  else if cmDirectMessage inc \<and> \<not> cmHiddenMessage inc \<or> addressed then
                    andThen (act (Reply (''Sorry, '' @ singleQuoted (tkName (plTask plugin) @ ''/'' @ command) @
                      '' cannot be run as a private command''))) (ret Fail)
                  else ret Fail))"

subsection \<open>Authorization\<close>

definition technicalAuthError :: string where
  "technicalAuthError = ''Sorry, authorization failed due to a problem with the authorization plugin''"

definition configAuthError :: string where
  "configAuthError = ''Sorry, authorization failed due to a configuration error''"

definition tellAs :: "string \<Rightarrow> event \<Rightarrow> TaskRetVal \<Rightarrow> TaskRetVal rop" where
  "tellAs msg ev r = andThen (act (Say msg)) (andThen (act (Emit ev)) (ret r))"

text \<open>The answer of an authorizer: only \<open>Success\<close> authorizes, and \<open>Normal\<close> counts as a failure.\<close>

definition authorizerVerdict :: "TaskRetVal \<Rightarrow> TaskRetVal rop" where
  "authorizerVerdict authRet =
     (case authRet of
        Success \<Rightarrow> andThen (act (Emit AuthRanSuccess)) (ret Success)
      | Fail \<Rightarrow> tellAs (''Sorry, you'' @ [CHR 0x27] @ ''re not authorized for that command'') AuthRanFail Fail
      | MechanismFail \<Rightarrow> tellAs technicalAuthError AuthRanMechanismFailed MechanismFail
      | Normal \<Rightarrow> tellAs technicalAuthError AuthRanFailNormal MechanismFail
      | _ \<Rightarrow> tellAs technicalAuthError AuthRanFailOther MechanismFail)"

definition runAuthorizer :: "callFn \<Rightarrow> taskObj \<Rightarrow> Task \<Rightarrow> string \<Rightarrow> string list \<Rightarrow> string \<Rightarrow> TaskRetVal rop" where
  "runAuthorizer call t task command args authorizer =
     bindOp (reads (\<lambda>s. getTaskByName (wTasks (rsWorker s)) authorizer)) (\<lambda>authTask.
       case authTask of
         None \<Rightarrow> ret ConfigurationError
       | Some (PluginObj authPlug) \<Rightarrow>
           bindOp (call (PluginObj authPlug) ''_authorize'' ([tkName task, tkAuthRequire task, command] @ args)) (\<lambda>res.
             andThen (setCurrentTask (Some t)) (authorizerVerdict (snd res)))
       | Some other \<Rightarrow> tellAs technicalAuthError AuthNoRunNotFound ConfigurationError)"

definition checkAuthorization :: "callFn \<Rightarrow> taskObj \<Rightarrow> string \<Rightarrow> string list \<Rightarrow> TaskRetVal rop" where
  "checkAuthorization call t command args =
     bindOp (reads (\<lambda>s. cfDefaultAuthorizer (wCfg (rsWorker s)))) (\<lambda>defaultAuthorizer.
       let task = taskOf t; authorizer = effectiveAuthorizerName task defaultAuthorizer in
       case pluginOf t of
         Some plugin \<Rightarrow>
           if \<not> (plAuthorizeAllCommands plugin \<or> plAuthorizedCommands plugin \<noteq> []) then
             (if tkAuthorizer task \<noteq> [] then andThen (act (Say configAuthError)) (ret ConfigurationError)
              else ret Success)
           else if \<not> commandRequiresAuthorization plugin command then ret Success
           else if tkAuthorizer task = [] \<and> defaultAuthorizer = [] then
             tellAs configAuthError AuthNoRunMisconfigured ConfigurationError
           else runAuthorizer call t task command args authorizer
       | None \<Rightarrow>
           if tkAuthorizer task = [] then ret Success
           else runAuthorizer call t task command args authorizer)"

subsection \<open>Elevation\<close>

definition technicalElevError :: string where
  "technicalElevError = ''Sorry, elevation failed due to a problem with the elevation service''"

definition configElevError :: string where
  "configElevError = ''Sorry, elevation failed due to a configuration error''"

definition elevatorVerdict :: "TaskRetVal \<Rightarrow> TaskRetVal rop" where
  "elevatorVerdict elevRet =
     (case elevRet of
        Success \<Rightarrow> andThen (act (Emit ElevRanSuccess)) (ret Success)
      | Fail \<Rightarrow> tellAs ''Sorry, this command requires elevation'' ElevRanFail Fail
      | MechanismFail \<Rightarrow> tellAs technicalElevError ElevRanMechanismFailed MechanismFail
      | Normal \<Rightarrow> tellAs technicalElevError ElevRanFailNormal MechanismFail
      | _ \<Rightarrow> tellAs technicalElevError ElevRanFailOther MechanismFail)"

text \<open>\<open>current\<close> is the task of the robot that asks; an elevator name with no task behind it panics.\<close>

definition elevate :: "callFn \<Rightarrow> taskObj \<Rightarrow> Task \<Rightarrow> bool \<Rightarrow> TaskRetVal rop" where
  "elevate call current task immediate =
     bindOp (reads (\<lambda>s. cfDefaultElevator (wCfg (rsWorker s)))) (\<lambda>defaultElevator.
       if tkElevator task = [] \<and> defaultElevator = [] then
         tellAs configElevError ElevNoRunMisconfigured ConfigurationError
       else
         bindOp (reads (\<lambda>s. getTaskByName (wTasks (rsWorker s))
                   (if tkElevator task \<noteq> [] then tkElevator task else defaultElevator))) (\<lambda>found.
         bindOp (getTaskOf found) (\<lambda>e.
           case e of
             PluginObj ePlug \<Rightarrow>
               bindOp (call e ''_elevate'' [if immediate then ''true'' else ''false'']) (\<lambda>res.
                 andThen (modifyPipe (\<lambda>c. c\<lparr>pcElevated := (snd res = Success), pcCurrentTask := Some current\<rparr>))
                   (elevatorVerdict (snd res)))
           | _ \<Rightarrow> tellAs technicalElevError ElevNoRunNotFound ConfigurationError)))"

definition elevationRequired :: "taskObj \<Rightarrow> string \<Rightarrow> bool \<times> bool" where
  "elevationRequired t command =
     (case pluginOf t of
        Some plugin \<Rightarrow>
          if command \<in> set (plElevateImmediateCommands plugin) then (True, True)
          else (command \<in> set (plElevatedCommands plugin), False)
      | None \<Rightarrow> (tkElevator (taskOf t) \<noteq> [], False))"

definition checkElevation :: "callFn \<Rightarrow> taskObj \<Rightarrow> string \<Rightarrow> (TaskRetVal \<times> bool) rop" where
  "checkElevation call t command =
     (case elevationRequired t command of (required, immediate) \<Rightarrow>
        if \<not> required then ret (Success, False)
        else bindOp (elevate call t (taskOf t) immediate) (\<lambda>r.
               if r = Success then ret (Success, True) else ret (Fail, True)))"

subsection \<open>The security block of a pipeline\<close>

definition adminRequired :: "taskObj \<Rightarrow> string \<Rightarrow> bool" where
  "adminRequired t command \<longleftrightarrow>
     tkRequireAdmin (taskOf t) \<or> (case pluginOf t of None \<Rightarrow> False | Some p \<Rightarrow> command \<in> set (plAdminCommands p))"

definition whenOk :: "bool rop \<Rightarrow> bool rop \<Rightarrow> bool rop" where
  "whenOk m n = bindOp m (\<lambda>ok. if ok then n else ret False)"

definition adminGate :: "taskObj \<Rightarrow> string \<Rightarrow> bool rop" where
  "adminGate t command =
     (if adminRequired t command then
        bindOp checkAdmin (\<lambda>ok. if ok then ret True
          else andThen (act (Say (''Sorry, '' @ singleQuoted (tkName (taskOf t) @ ''/'' @ command) @
                                 '' is only available to bot administrators''))) (ret False))
      else ret True)"

definition privateGate :: "taskObj \<Rightarrow> string \<Rightarrow> bool rop" where
  "privateGate t command =
     (if pluginOf t = None then ret True
      else whenOk (bindOp (checkRequiredPrivateCommand t command) (\<lambda>r. ret (r = Success)))
             (bindOp (reads rsWorker) (\<lambda>w.
                if privateCommandContext (wIncoming w)
                then bindOp (checkPrivateCommands t command) (\<lambda>r. ret (r = Success)) else ret True)))"

definition elevationGate :: "callFn \<Rightarrow> taskObj \<Rightarrow> string \<Rightarrow> bool rop" where
  "elevationGate call t command = bindOp (reads rsWorker) (\<lambda>w.
     if \<not> pcElevated (wPipe w) then bindOp (checkElevation call t command) (\<lambda>r. ret (fst r = Success)) else ret True)"

definition securityChecks :: "callFn \<Rightarrow> taskObj \<Rightarrow> string \<Rightarrow> string list \<Rightarrow> bool rop" where
  "securityChecks call t command args =
     whenOk (adminGate t command)
       (whenOk (privateGate t command)
         (whenOk (bindOp (checkAuthorization call t command args) (\<lambda>r. ret (r = Success)))
           (elevationGate call t command)))"

subsection \<open>What the checks guarantee\<close>

text \<open>
  Between two points of a check or a call the trace grows by entries other than \<open>Execute\<close> and the
  person behind the worker stays the same; a worker that counts as elevated has a successful call of
  an elevator in the trace.
\<close>

fun isExecute :: "action \<Rightarrow> bool" where
  "isExecute (Execute w t command args) = True"
| "isExecute a = False"

definition samePerson :: "worker \<Rightarrow> worker \<Rightarrow> bool" where
  "samePerson w w' \<longleftrightarrow> w'\<lparr>wPipe := wPipe w\<rparr> = w"

definition elevatedOk :: "robotState \<Rightarrow> bool" where
  "elevatedOk s \<longleftrightarrow> (pcElevated (wPipe (rsWorker s)) \<longrightarrow>
     (\<exists>e imm. Called (wId (rsWorker s)) (PluginObj e) ''_elevate'' [imm] Success \<in> set (rsTrace s)))"

definition goodStep :: "robotState \<Rightarrow> robotState \<Rightarrow> bool" where
  "goodStep s s' \<longleftrightarrow> (\<exists>tr. rsTrace s' = rsTrace s @ tr \<and> \<not> list_ex isExecute tr) \<and> samePerson (rsWorker s) (rsWorker s') \<and>
     (elevatedOk s \<longrightarrow> elevatedOk s')"

text \<open>Whether authorization is asked for, and what a task that passed the checks has behind it.\<close>

definition needsAuthorization :: "taskObj \<Rightarrow> string \<Rightarrow> bool" where
  "needsAuthorization t command \<longleftrightarrow>
     (case pluginOf t of Some p \<Rightarrow> commandRequiresAuthorization p command
      | None \<Rightarrow> tkAuthorizer (taskOf t) \<noteq> [])"

definition adminOk :: "worker \<Rightarrow> bool" where
  "adminOk w \<longleftrightarrow> wAutomaticTask w \<or> wUser w \<in> set (cfAdminUsers (wCfg w)) \<and> wListedUser w"

definition privateOk :: "taskObj \<Rightarrow> string \<Rightarrow> worker \<Rightarrow> bool" where
  "privateOk t command w \<longleftrightarrow>
     (case pluginOf t of None \<Rightarrow> True
      | Some p \<Rightarrow>
         (commandRequiresPrivate p command \<longrightarrow> privateCommandContext (wIncoming w)) \<and>
         (privateCommandContext (wIncoming w) \<longrightarrow>
            commandAllowsPrivate p command \<and> privateContextSatisfiesChannels w (plTask p) p \<and>
            (cmHiddenMessage (wIncoming w) \<longrightarrow>
               hiddenMessageAddressedToRobot (cmBotMessage (wIncoming w)) (wCmdMode w))))"

definition passed :: "taskObj \<Rightarrow> string \<Rightarrow> string list \<Rightarrow> worker \<Rightarrow> action list \<Rightarrow> bool" where
  "passed t command args w tr \<longleftrightarrow>
     (adminRequired t command \<longrightarrow> adminOk w) \<and>
     privateOk t command w \<and>
     (needsAuthorization t command \<longrightarrow>
        (\<exists>auth. Called (wId w) (PluginObj auth) ''_authorize''
                  ([tkName (taskOf t), tkAuthRequire (taskOf t), command] @ args) Success \<in> set tr)) \<and>
     (fst (elevationRequired t command) \<longrightarrow>
        (\<exists>e imm. Called (wId w) (PluginObj e) ''_elevate'' [imm] Success \<in> set tr))"

lemma samePerson_refl [simp]: "samePerson w w"
  by (simp add: samePerson_def)

lemma samePerson_trans: "samePerson a b \<Longrightarrow> samePerson b c \<Longrightarrow> samePerson a c"
  unfolding samePerson_def by (metis worker.surjective worker.update_convs(20))

lemma samePerson_pipe [simp]: "samePerson w (w\<lparr>wPipe := c\<rparr>)"
  by (simp add: samePerson_def)

lemma samePerson_fields:
  assumes "samePerson w w'"
  shows "wId w' = wId w" "wUser w' = wUser w" "wListedUser w' = wListedUser w" "wIncoming w' = wIncoming w"
    "wAutomaticTask w' = wAutomaticTask w" "wCfg w' = wCfg w" "wTasks w' = wTasks w"
    "wChannel w' = wChannel w" "wCmdMode w' = wCmdMode w" "wProtocol w' = wProtocol w"
proof -
  have w: "w = w'\<lparr>wPipe := wPipe w\<rparr>" using assms by (simp add: samePerson_def)
  show "wId w' = wId w" "wUser w' = wUser w" "wListedUser w' = wListedUser w" "wIncoming w' = wIncoming w"
    "wAutomaticTask w' = wAutomaticTask w" "wCfg w' = wCfg w" "wTasks w' = wTasks w"
    "wChannel w' = wChannel w" "wCmdMode w' = wCmdMode w" "wProtocol w' = wProtocol w"
    by (subst w, simp)+
qed

lemma goodStep_trans:
  assumes "goodStep s t" "goodStep t u"
  shows "goodStep s u"
proof -
  from assms obtain a b where "rsTrace t = rsTrace s @ a" "rsTrace u = rsTrace t @ b"
    "\<not> list_ex isExecute a" "\<not> list_ex isExecute b" by (auto simp: goodStep_def)
  then have "rsTrace u = rsTrace s @ (a @ b)" "\<not> list_ex isExecute (a @ b)" by auto
  moreover have "samePerson (rsWorker s) (rsWorker u)"
    using assms samePerson_trans by (auto simp: goodStep_def)
  ultimately show ?thesis using assms unfolding goodStep_def by blast
qed

text \<open>
  Operations whose state before and after are always in a given reflexive and transitive relation,
  and the rules by which the composition of operations stays in it.
\<close>

definition within :: "(robotState \<Rightarrow> robotState \<Rightarrow> bool) \<Rightarrow> 'a rop \<Rightarrow> bool" where
  "within R m \<longleftrightarrow> (\<forall>s. R s (snd (m s)))"

lemma withinD: "within R m \<Longrightarrow> m s = (r, s') \<Longrightarrow> R s s'"
  by (metis within_def snd_conv)

lemma within_if: "(b \<Longrightarrow> within R m) \<Longrightarrow> (\<not> b \<Longrightarrow> within R n) \<Longrightarrow> within R (if b then m else n)"
  by simp

lemma within_option:
  "(x = None \<Longrightarrow> within R m) \<Longrightarrow> (\<And>y. x = Some y \<Longrightarrow> within R (n y)) \<Longrightarrow>
   within R (case x of None \<Rightarrow> m | Some y \<Rightarrow> n y)"
  by (cases x) auto

lemma within_task:
  "(\<And>p. t = PluginObj p \<Longrightarrow> within R (a p)) \<Longrightarrow> (\<And>j. t = JobObj j \<Longrightarrow> within R (b j)) \<Longrightarrow>
   (\<And>k. t = TaskObj k \<Longrightarrow> within R (c k)) \<Longrightarrow>
   within R (case t of PluginObj p \<Rightarrow> a p | JobObj j \<Rightarrow> b j | TaskObj k \<Rightarrow> c k)"
  by (cases t) auto

lemma within_sum:
  "(\<And>a. x = Inl a \<Longrightarrow> within R (f a)) \<Longrightarrow> (\<And>b. x = Inr b \<Longrightarrow> within R (g b)) \<Longrightarrow>
   within R (case x of Inl a \<Rightarrow> f a | Inr b \<Rightarrow> g b)"
  by (cases x) auto

lemma within_prod:
  "(\<And>a b. x = (a, b) \<Longrightarrow> within R (f a b)) \<Longrightarrow> within R (case x of (a, b) \<Rightarrow> f a b)"
  by (cases x) auto

lemmas within_cases = within_if within_option within_task within_sum within_prod

locale step_relation =
  fixes R :: "robotState \<Rightarrow> robotState \<Rightarrow> bool"
  assumes step_refl: "R s s"
    and step_trans: "R s t \<Longrightarrow> R t u \<Longrightarrow> R s u"
begin

lemma step_ret: "within R (ret x)"
  by (simp add: within_def ret_def step_refl)

lemma step_fail: "within R (fail x)"
  by (simp add: within_def fail_def step_refl)

lemma step_reads: "within R (reads f)"
  by (simp add: within_def reads_def step_refl)

lemma step_bind:
  assumes "within R m" "\<And>x. within R (k x)"
  shows "within R (bindOp m k)"
  unfolding within_def
proof
  fix s
  show "R s (snd (bindOp m k s))"
  proof (cases "m s")
    case (Pair r t)
    then have "R s t" using assms(1) by (rule withinD [rotated])
    then show ?thesis using Pair assms(2) step_trans
      by (cases r) (auto simp: bindOp_def within_def)
  qed
qed

lemma step_then: "within R m \<Longrightarrow> within R n \<Longrightarrow> within R (andThen m n)"
  by (simp add: andThen_def step_bind)

lemmas step_rules = step_ret step_fail step_reads step_bind step_then within_cases

end

interpretation good: step_relation goodStep
  by unfold_locales (simp add: goodStep_def, rule goodStep_trans)

abbreviation moves :: "'a rop \<Rightarrow> bool" where
  "moves m \<equiv> within goodStep m"

lemmas goodStep_refl [simp] = good.step_refl
lemmas moves_fail = good.step_fail
lemmas moves_def = within_def [of goodStep]
lemmas movesD = withinD [of goodStep]

named_theorems moves_intro \<open>operations that are good steps\<close>

lemmas good_rules [moves_intro] = good.step_rules

lemma elevatedOk_grow: "elevatedOk s \<Longrightarrow> set (rsTrace s) \<subseteq> set (rsTrace t) \<Longrightarrow> wId (rsWorker t) = wId (rsWorker s) \<Longrightarrow>
    pcElevated (wPipe (rsWorker t)) = pcElevated (wPipe (rsWorker s)) \<Longrightarrow> elevatedOk t"
  by (auto simp: elevatedOk_def)

lemma not_execute [moves_intro]:
  "\<not> isExecute (Emit e)" "\<not> isExecute (Say msg)" "\<not> isExecute (Reply msg)" "\<not> isExecute (Called n t c a r)"
  by simp_all

lemma moves_act [moves_intro]: "\<not> isExecute a \<Longrightarrow> moves (act a)"
  unfolding moves_def act_def modifyOp_def goodStep_def by (auto intro: elevatedOk_grow)

lemma moves_modifyPipe [moves_intro]:
  "(\<And>c. pcElevated (f c) = pcElevated c) \<Longrightarrow> moves (modifyPipe f)"
  unfolding moves_def modifyPipe_def modifyWorker_def modifyOp_def goodStep_def
  by (auto intro: elevatedOk_grow)

lemma moves_whenOk [moves_intro]: "moves m \<Longrightarrow> moves n \<Longrightarrow> moves (whenOk m n)"
  unfolding whenOk_def by (intro moves_intro)

lemma moves_tellAs [moves_intro]: "moves (tellAs msg e r)"
  unfolding tellAs_def by (intro moves_intro)

lemma moves_verdicts [moves_intro]: "moves (authorizerVerdict r)" "moves (elevatorVerdict r)"
  by (cases r; simp add: authorizerVerdict_def elevatorVerdict_def; intro moves_intro)+

lemma moves_small [moves_intro]:
  "moves checkAdmin" "moves (adminGate t command)" "moves (setCurrentTask x)" "moves (getTaskOf y)"
  unfolding checkAdmin_def adminGate_def setCurrentTask_def getTaskOf_def by (intro moves_intro; simp)+

lemma moves_private [moves_intro]:
  "moves (checkRequiredPrivateCommand t command)" "moves (checkPrivateCommands t command)" "moves (privateGate t command)"
  unfolding checkRequiredPrivateCommand_def checkPrivateCommands_def privateGate_def Let_def
  by (intro moves_intro)+

text \<open>Results of the reading and acting primitives.\<close>

lemma reads_result [simp]: "reads f s = (r, t) \<longleftrightarrow> r = Inr (f s) \<and> t = s"
  by (auto simp: reads_def)

lemma bind_reads [simp]: "bindOp (reads f) k s = k (f s) s"
  by (simp add: bindOp_def reads_def)

lemma act_result [simp]: "act a s = (Inr (), s\<lparr>rsTrace := rsTrace s @ [a]\<rparr>)"
  by (simp add: act_def modifyOp_def)

lemma then_act [simp]: "andThen (act a) m s = m (s\<lparr>rsTrace := rsTrace s @ [a]\<rparr>)"
  by (simp add: andThen_def bindOp_def)

lemma whenOk_True: "whenOk m n s = (Inr True, t) \<longleftrightarrow> (\<exists>u. m s = (Inr True, u) \<and> n u = (Inr True, t))"
  unfolding whenOk_def bindOp_result by (auto simp: ret_def split: if_splits)

lemma bind_success: "bindOp m (\<lambda>r. ret (r = x)) s = (Inr True, t) \<longleftrightarrow> m s = (Inr x, t)"
  unfolding bindOp_result by (auto simp: ret_def)

lemma adminGate_ok: "adminGate t command s = (Inr True, s') \<Longrightarrow> adminRequired t command \<longrightarrow> adminOk (rsWorker s)"
  by (auto simp: adminGate_def checkAdmin_def adminOk_def bindOp_result ret_def split: if_splits)

lemma requiredPrivate_ok:
  "checkRequiredPrivateCommand t command s = (Inr Success, s') \<Longrightarrow> pluginOf t = Some p \<Longrightarrow>
   commandRequiresPrivate p command \<Longrightarrow> privateCommandContext (wIncoming (rsWorker s))"
  by (auto simp: checkRequiredPrivateCommand_def ret_def split: if_splits)

lemma checkPrivate_ok:
  assumes "checkPrivateCommands t command s = (Inr Success, s')" "pluginOf t = Some p"
    and "privateCommandContext (wIncoming (rsWorker s))"
  shows "commandAllowsPrivate p command \<and> privateContextSatisfiesChannels (rsWorker s) (plTask p) p \<and>
    (cmHiddenMessage (wIncoming (rsWorker s)) \<longrightarrow>
       hiddenMessageAddressedToRobot (cmBotMessage (wIncoming (rsWorker s))) (wCmdMode (rsWorker s)))"
  using assms by (auto simp: checkPrivateCommands_def Let_def ret_def split: if_splits)

lemma privateGate_ok:
  assumes "privateGate t command s = (Inr True, s')"
  shows "privateOk t command (rsWorker s)"
proof (cases "pluginOf t")
  case (Some p)
  from assms obtain u where u: "checkRequiredPrivateCommand t command s = (Inr Success, u)"
    and v: "privateCommandContext (wIncoming (rsWorker u)) \<longrightarrow> checkPrivateCommands t command u = (Inr Success, s')"
    by (auto simp: privateGate_def Some whenOk_True bind_success split: if_splits)
  have same: "samePerson (rsWorker s) (rsWorker u)"
    using movesD [OF moves_private(1) u] by (simp add: goodStep_def)
  note f = samePerson_fields [OF same]
  have "privateContextSatisfiesChannels (rsWorker u) = privateContextSatisfiesChannels (rsWorker s)"
    by (intro ext) (simp add: privateContextSatisfiesChannels_def f)
  then show ?thesis
    using requiredPrivate_ok [OF u Some] v checkPrivate_ok [OF _ Some, of command u s'] f Some
    by (auto simp: privateOk_def)
qed (simp add: privateOk_def)

lemma authorizerVerdict_ok: "authorizerVerdict r s = (Inr Success, s') \<Longrightarrow> r = Success"
  by (cases r) (auto simp: authorizerVerdict_def tellAs_def ret_def)

lemma elevatorVerdict_ok: "elevatorVerdict r s = (Inr Success, s') \<Longrightarrow> r = Success"
  by (cases r) (auto simp: elevatorVerdict_def tellAs_def ret_def)

subsection \<open>The interface to calling a task\<close>

text \<open>
  What the checks need of \<open>call\<close>: it is a good step, and a call that returns is in the trace with its
  result.
\<close>

locale task_caller =
  fixes call :: callFn
  assumes call_good: "moves (call t command args)"
    and call_logs: "call t command args s = (Inr (e, r), s') \<Longrightarrow>
      Called (wId (rsWorker s)) t command args r \<in> set (rsTrace s')"
begin

lemma call_logged:
  "call t command args s = (Inr res, u) \<Longrightarrow> Called (wId (rsWorker s)) t command args (snd res) \<in> set (rsTrace u)"
  by (cases res) (simp add: call_logs)

lemma moves_runAuthorizer: "moves (runAuthorizer call t task command args authorizer)"
  unfolding runAuthorizer_def by (intro moves_intro call_good)

lemma moves_checkAuthorization: "moves (checkAuthorization call t command args)"
  unfolding checkAuthorization_def Let_def by (intro moves_intro moves_runAuthorizer)

lemma runAuthorizer_ok:
  assumes "runAuthorizer call t task command args authorizer s = (Inr Success, s')"
  shows "\<exists>auth. Called (wId (rsWorker s)) (PluginObj auth) ''_authorize''
           ([tkName task, tkAuthRequire task, command] @ args) Success \<in> set (rsTrace s')"
proof -
  from assms obtain auth res u v where
    c: "call (PluginObj auth) ''_authorize'' ([tkName task, tkAuthRequire task, command] @ args) s = (Inr res, u)"
    and v: "setCurrentTask (Some t) u = (Inr (), v)" and d: "authorizerVerdict (snd res) v = (Inr Success, s')"
    by (auto simp: runAuthorizer_def ret_def tellAs_def andThen_def bindOp_result split: option.splits taskObj.splits)
  have "snd res = Success" using d by (rule authorizerVerdict_ok)
  with c have "Called (wId (rsWorker s)) (PluginObj auth) ''_authorize''
      ([tkName task, tkAuthRequire task, command] @ args) Success \<in> set (rsTrace u)"
    using call_logged by metis
  moreover have "goodStep u v" "goodStep v s'"
    using movesD [OF moves_small(3) v] movesD [OF moves_verdicts(1) d] by simp_all
  ultimately show ?thesis by (auto simp: goodStep_def)
qed

lemma checkAuthorization_ok:
  assumes "checkAuthorization call t command args s = (Inr Success, s')" "needsAuthorization t command"
  shows "\<exists>auth. Called (wId (rsWorker s)) (PluginObj auth) ''_authorize''
           ([tkName (taskOf t), tkAuthRequire (taskOf t), command] @ args) Success \<in> set (rsTrace s')"
proof -
  have "\<exists>a. runAuthorizer call t (taskOf t) command args a s = (Inr Success, s')"
  proof (cases "pluginOf t")
    case None
    then show ?thesis using assms by (auto simp: checkAuthorization_def Let_def needsAuthorization_def)
  next
    case (Some p)
    then have "plAuthorizeAllCommands p \<or> plAuthorizedCommands p \<noteq> []"
      using assms(2) by (auto simp: needsAuthorization_def commandRequiresAuthorization_def)
    then show ?thesis using assms Some
      by (auto simp: checkAuthorization_def Let_def needsAuthorization_def tellAs_def ret_def split: if_splits)
  qed
  then show ?thesis using runAuthorizer_ok by blast
qed

text \<open>Setting the elevated flag from the result of the elevator keeps the flag honest.\<close>

lemma elevator_called:
  assumes "call (PluginObj e) ''_elevate'' [imm] s = (Inr res, u)"
  shows "goodStep s (u\<lparr>rsWorker := (rsWorker u)\<lparr>wPipe := (wPipe (rsWorker u))\<lparr>pcElevated := (snd res = Success),
           pcCurrentTask := x\<rparr>\<rparr>\<rparr>)"
proof -
  let ?v = "u\<lparr>rsWorker := (rsWorker u)\<lparr>wPipe := (wPipe (rsWorker u))\<lparr>pcElevated := (snd res = Success),
           pcCurrentTask := x\<rparr>\<rparr>\<rparr>"
  have g: "goodStep s u" using call_good assms by (rule movesD)
  then have p: "samePerson (rsWorker s) (rsWorker u)" by (simp add: goodStep_def)
  have "Called (wId (rsWorker ?v)) (PluginObj e) ''_elevate'' [imm] (snd res) \<in> set (rsTrace ?v)"
    using call_logged [OF assms] samePerson_fields(1) [OF p] by simp
  then have "elevatedOk ?v" unfolding elevatedOk_def by (cases "snd res = Success") (simp, blast, simp)
  moreover have "samePerson (rsWorker s) (rsWorker ?v)" using p by (simp add: samePerson_def)
  ultimately show ?thesis using g by (simp add: goodStep_def)
qed

lemma moves_elevate: "moves (elevate call current task immediate)"
  unfolding moves_def
proof
  fix s
  show "goodStep s (snd (elevate call current task immediate s))"
  proof (cases "getTaskByName (wTasks (rsWorker s))
      (if tkElevator task \<noteq> [] then tkElevator task else cfDefaultElevator (wCfg (rsWorker s)))")
    case None
    then show ?thesis using moves_tellAs [unfolded moves_def] by (simp add: elevate_def getTaskOf_def)
  next
    case (Some e)
    show ?thesis
    proof (cases e)
      case (PluginObj p)
      show ?thesis
      proof (cases "call e ''_elevate'' [if immediate then ''true'' else ''false''] s")
        case (Pair r u)
        have g: "goodStep s u" using call_good Pair by (rule movesD)
        show ?thesis
        proof (cases r)
          case (Inr res)
          let ?v = "u\<lparr>rsWorker := (rsWorker u)\<lparr>wPipe := (wPipe (rsWorker u))\<lparr>pcElevated := (snd res = Success),
             pcCurrentTask := Some current\<rparr>\<rparr>\<rparr>"
          have "goodStep s ?v" using elevator_called [of p _ s res u] Pair Inr PluginObj by simp
          moreover have "goodStep ?v (snd (elevatorVerdict (snd res) ?v))"
            using moves_verdicts(2) by (simp add: moves_def)
          ultimately have "goodStep s (snd (elevatorVerdict (snd res) ?v))" by (rule goodStep_trans)
          then show ?thesis using Some PluginObj Pair Inr moves_tellAs [unfolded moves_def]
            by (simp add: elevate_def getTaskOf_def bindOp_def andThen_def modifyPipe_def modifyWorker_def
                modifyOp_def reads_def ret_def)
        qed (use Some PluginObj Pair g moves_tellAs [unfolded moves_def] in
            \<open>simp add: elevate_def getTaskOf_def bindOp_def reads_def ret_def\<close>)
      qed
    qed (use Some moves_tellAs [unfolded moves_def] in \<open>simp_all add: elevate_def getTaskOf_def\<close>)
  qed
qed

lemma elevate_ok:
  assumes "elevate call current task immediate s = (Inr Success, s')"
  shows "\<exists>e imm. Called (wId (rsWorker s)) (PluginObj e) ''_elevate'' [imm] Success \<in> set (rsTrace s')"
proof -
  from assms obtain p res u v where
    c: "call (PluginObj p) ''_elevate'' [if immediate then ''true'' else ''false''] s = (Inr res, u)"
    and v: "modifyPipe (\<lambda>c. c\<lparr>pcElevated := (snd res = Success), pcCurrentTask := Some current\<rparr>) u = (Inr (), v)"
    and d: "elevatorVerdict (snd res) v = (Inr Success, s')"
    by (auto simp: elevate_def getTaskOf_def ret_def fail_def tellAs_def andThen_def bindOp_result
        split: option.splits taskObj.splits if_splits)
  have "snd res = Success" using d by (rule elevatorVerdict_ok)
  with c have "Called (wId (rsWorker s)) (PluginObj p) ''_elevate'' [if immediate then ''true'' else ''false''] Success
      \<in> set (rsTrace u)"
    using call_logged by metis
  moreover have "rsTrace v = rsTrace u" using v by (auto simp: modifyPipe_def modifyWorker_def modifyOp_def)
  moreover have "goodStep v s'" using moves_verdicts(2) d by (rule movesD)
  then have "set (rsTrace v) \<subseteq> set (rsTrace s')" by (auto simp: goodStep_def)
  ultimately have "Called (wId (rsWorker s)) (PluginObj p) ''_elevate'' [if immediate then ''true'' else ''false''] Success
      \<in> set (rsTrace s')" by auto
  then show ?thesis by (intro exI)
qed

lemma moves_elevationGate: "moves (elevationGate call t command)"
  unfolding elevationGate_def checkElevation_def
  by (intro moves_intro moves_elevate)

lemma moves_securityChecks: "moves (securityChecks call t command args)"
  unfolding securityChecks_def by (intro moves_intro moves_checkAuthorization moves_elevationGate)

lemma elevationGate_ok:
  assumes "elevationGate call t command s = (Inr True, s')" "elevatedOk s" "fst (elevationRequired t command)"
  shows "\<exists>e imm. Called (wId (rsWorker s)) (PluginObj e) ''_elevate'' [imm] Success \<in> set (rsTrace s')"
proof (cases "pcElevated (wPipe (rsWorker s))")
  case True
  then show ?thesis using assms by (auto simp: elevationGate_def elevatedOk_def ret_def)
next
  case False
  then obtain imm where "elevate call t (taskOf t) imm s = (Inr Success, s')"
    using assms by (auto simp: elevationGate_def checkElevation_def bindOp_result ret_def split: prod.splits if_splits)
  then show ?thesis by (rule elevate_ok)
qed

theorem securityChecks_ok:
  assumes run: "securityChecks call t command args s = (Inr True, s')" and el: "elevatedOk s"
  shows "passed t command args (rsWorker s') (rsTrace s')"
proof -
  from run obtain a b c where
    a: "adminGate t command s = (Inr True, a)" and b: "privateGate t command a = (Inr True, b)"
    and c: "checkAuthorization call t command args b = (Inr Success, c)"
    and d: "elevationGate call t command c = (Inr True, s')"
    by (auto simp: securityChecks_def whenOk_True bind_success)
  have g: "goodStep s a" "goodStep a b" "goodStep b c" "goodStep c s'"
    using movesD [OF moves_small(2) a] movesD [OF moves_private(3) b]
      movesD [OF moves_checkAuthorization c] movesD [OF moves_elevationGate d] by simp_all
  then have gs: "goodStep s s'" "goodStep a s'" "goodStep b s'" "goodStep s c" by (meson goodStep_trans)+
  have same: "samePerson (rsWorker s) (rsWorker s')" "samePerson (rsWorker a) (rsWorker s')"
    "samePerson (rsWorker b) (rsWorker s')" "samePerson (rsWorker c) (rsWorker s')"
    using gs g(4) by (auto simp: goodStep_def)
  have "adminOk (rsWorker s') = adminOk (rsWorker s)"
    by (simp add: adminOk_def samePerson_fields [OF same(1)])
  moreover have "privateOk t command (rsWorker s') = privateOk t command (rsWorker a)"
    by (simp add: privateOk_def privateContextSatisfiesChannels_def samePerson_fields [OF same(2)] split: option.split)
  moreover have "elevatedOk c" using gs(4) el by (simp add: goodStep_def)
  moreover have "set (rsTrace c) \<subseteq> set (rsTrace s')" using g(4) by (auto simp: goodStep_def)
  moreover note f = samePerson_fields(1) [OF same(3)] samePerson_fields(1) [OF same(4)]
  ultimately show ?thesis
    unfolding passed_def f [symmetric]
    using adminGate_ok [OF a] privateGate_ok [OF b] elevationGate_ok [OF d]
  proof (intro conjI)
    assume sub: "set (rsTrace c) \<subseteq> set (rsTrace s')"
    show "needsAuthorization t command \<longrightarrow> (\<exists>auth. Called (wId (rsWorker s')) (PluginObj auth) ''_authorize''
        ([tkName (taskOf t), tkAuthRequire (taskOf t), command] @ args) Success \<in> set (rsTrace s'))"
      using checkAuthorization_ok [OF c] sub f(1) by auto
  qed (use f in auto)
qed

end

end
