(* ===== verification/TaskEnv.thy ===== *)
theory TaskEnv
  imports Tasks
begin

text \<open>
  The environment and the parameters a task is started with (\<open>getEnvironment\<close> of
  bot/run\_pipelines.go, the merging of both in bot/calltask.go, \<open>GetParameter\<close> and
  \<open>SetParameter\<close> of bot/robot.go). What the process inherits from its host, the paths and the
  listening port, is the record \<open>host\<close>; its paths are clean, as the start-up code makes them.
\<close>

record host =
  hoHomePath :: string
  hoConfigFull :: string
  hoInstallPath :: string
  hoListenPort :: string
  hoLookupEnv :: "string \<Rightarrow> string option"
  hoTaskPath :: "Task \<Rightarrow> string \<Rightarrow> string option \<times> string"

definition envPassThrough :: "string list" where
  "envPassThrough = [''HOME'', ''HOSTNAME'', ''LANG'', ''PATH'', ''USER'']"

definition joinPath :: "string \<Rightarrow> string \<Rightarrow> string" where
  "joinPath dir name = (if dir = [] then name else dir @ ''/'' @ name)"

definition addDefault :: "stringMap \<Rightarrow> Parameter \<Rightarrow> stringMap" where
  "addDefault m p = (if m (parName p) = None then m(parName p \<mapsto> parValue p) else m)"

definition addDefaults :: "Parameter list \<Rightarrow> stringMap \<Rightarrow> stringMap" where
  "addDefaults ps m = foldl addDefault m ps"

definition nameSpaceDefaults :: "taskList \<Rightarrow> string \<Rightarrow> stringMap \<Rightarrow> stringMap" where
  "nameSpaceDefaults lst name m =
     (if name = [] then m
      else (case tlNameSpaces lst name of None \<Rightarrow> m | Some ns \<Rightarrow> addDefaults (psParameters ns) m))"

definition parameterSetDefaults :: "taskList \<Rightarrow> string list \<Rightarrow> stringMap \<Rightarrow> stringMap" where
  "parameterSetDefaults lst names m =
     foldl (\<lambda>m name. case tlParameterSets lst name of None \<Rightarrow> m | Some ps \<Rightarrow> addDefaults (psParameters ps) m) m names"

definition optEnv :: "bool \<Rightarrow> string \<Rightarrow> string \<Rightarrow> stringMap \<Rightarrow> stringMap" where
  "optEnv b k v m = (if b then m(k \<mapsto> v) else m)"

lemma optEnv_other: "k \<noteq> key \<Longrightarrow> optEnv b key v m k = m k"
  by (simp add: optEnv_def)

fun pipelineTypeName :: "pipelineType \<Rightarrow> string" where
  "pipelineTypeName Unset = ''unset''"
| "pipelineTypeName PlugCommand = ''plugCommand''"
| "pipelineTypeName PlugMessage = ''plugMessage''"
| "pipelineTypeName CatchAll = ''catchAll''"
| "pipelineTypeName PlugThreadSubscription = ''plugThreadSubscription''"
| "pipelineTypeName JobTrigger = ''jobTrigger''"
| "pipelineTypeName SpawnedTask = ''spawnedTask''"
| "pipelineTypeName Scheduled = ''scheduled''"
| "pipelineTypeName InitJob = ''initJob''"
| "pipelineTypeName JobCommand = ''jobCommand''"
| "pipelineTypeName QueuedJob = ''queuedJob''"

definition fixedEnvironment :: "host \<Rightarrow> worker \<Rightarrow> stringMap" where
  "fixedEnvironment ho w =
     (let inc = wIncoming w; c = wPipe w;
          libPath = hoInstallPath ho @ ''/lib:'' @ hoConfigFull ho @ ''/lib'';
          env0 = optEnv (hoHomePath ho \<noteq> []) ''GOPHER_HOME'' (hoHomePath ho) (\<lambda>_. None);
          env1 = env0(''GOPHER_CONFIGDIR'' \<mapsto> hoConfigFull ho, ''GOPHER_CHANNEL'' \<mapsto> wChannel w,
                   ''GOPHER_CHANNEL_ID'' \<mapsto> wProtocolChannel w, ''GOPHER_MESSAGE_ID'' \<mapsto> cmMessageID inc,
                   ''GOPHER_THREAD_ID'' \<mapsto> icThreadID inc);
          env2 = optEnv (icThreadedMessage inc) ''GOPHER_THREADED_MESSAGE'' ''true'' env1;
          env3 = optEnv (cmHiddenMessage inc) ''GOPHER_HIDDEN_COMMAND'' ''true'' env2;
          env4 = optEnv (privateCommandContext inc) ''GOPHER_PRIVATE_COMMAND'' ''true'' env3
      in env4(''GOPHER_CMDMODE'' \<mapsto> wCmdMode w, ''GOPHER_USER'' \<mapsto> wUser w,
              ''GOPHER_USER_ID'' \<mapsto> wProtocolUser w,
              ''GOPHER_PROTOCOL'' \<mapsto> protocolFromIncoming (Some (incomingMessage.truncate inc)) (wProtocol w),
              ''GOPHER_TASK_NAME'' \<mapsto> pcTaskName c, ''GOPHER_PIPELINE_TYPE'' \<mapsto> pipelineTypeName (pcPtype c),
              ''GOPHER_CALLER_ID'' \<mapsto> ''stdin'', ''GOPHER_HTTP_POST'' \<mapsto> ''http://'' @ hoListenPort ho,
              ''GOPHER_INSTALLDIR'' \<mapsto> hoInstallPath ho, ''RUBYLIB'' \<mapsto> libPath,
              ''JULIA_LOAD_PATH'' \<mapsto> libPath @ '':'', ''GEM_HOME'' \<mapsto> joinPath (hoHomePath ho) ''.bot-gems'',
              ''PYTHONPATH'' \<mapsto> libPath, ''PYTHONUSERBASE'' \<mapsto> joinPath (hoHomePath ho) ''.bot-python'',
              ''GOPHER_ENVIRONMENT'' \<mapsto> (case hoLookupEnv ho ''GOPHER_ENVIRONMENT'' of None \<Rightarrow> [] | Some v \<Rightarrow> v),
              ''GOPHER_BRAIN'' \<mapsto> cfBrainProvider (wCfg w)))"

definition passThrough :: "host \<Rightarrow> stringMap \<Rightarrow> stringMap" where
  "passThrough ho env =
     foldl (\<lambda>m p. if m p = None then (case hoLookupEnv ho p of None \<Rightarrow> m | Some v \<Rightarrow> m(p \<mapsto> v)) else m) env envPassThrough"

text \<open>The parameters, from the highest priority down; a layer never replaces a value of an earlier one.\<close>

definition taskParameters :: "worker \<Rightarrow> taskObj \<Rightarrow> stringMap" where
  "taskParameters w t =
     (let task = taskOf t; lst = wTasks w; c = wPipe w;
          pipeEnv = \<not> (pluginOf t \<noteq> None \<and> \<not> tkPrivileged task);
          p0 = (if pipeEnv then pcParameters c else (\<lambda>_. None));
          p1 = (if tkPrivileged task
                then parameterSetDefaults lst (pcParameterSets c) (addDefaults (pcNameSpaceParameters c) p0) else p0)
      in addDefaults (tkParameters task)
           (parameterSetDefaults lst (tkParameterSets task) (nameSpaceDefaults lst (tkNameSpace task) p1)))"

definition getEnvironment :: "host \<Rightarrow> worker \<Rightarrow> taskObj \<Rightarrow> stringMap \<times> stringMap" where
  "getEnvironment ho w t = (passThrough ho (fixedEnvironment ho w), taskParameters w t)"

text \<open>
  The environment of an external task: privileged, homed and interpreted tasks always get the robot's
  own directories; parameters come first unless they are retrieved securely. Lua and JavaScript get a
  small table of the conversation instead.
\<close>

definition homedEnvironment :: "host \<Rightarrow> worker \<Rightarrow> Task \<Rightarrow> bool \<Rightarrow> stringMap \<Rightarrow> stringMap" where
  "homedEnvironment ho w task interpreted env =
     (if tkPrivileged task \<or> tkHomed task \<or> interpreted
      then (optEnv (tkPrivileged task \<and> hoHomePath ho \<noteq> []) ''GOPHER_HOME'' (hoHomePath ho) env)
             (''GOPHER_WORKSPACE'' \<mapsto> cfWorkSpace (wCfg w), ''GOPHER_CONFIGDIR'' \<mapsto> hoConfigFull ho)
      else env)"

definition processEnvironment :: "worker \<Rightarrow> stringMap \<Rightarrow> stringMap \<Rightarrow> stringMap" where
  "processEnvironment w env params =
     (\<lambda>k. if k = [] then None
          else if \<not> cfSecureParamRetrieve (wCfg w) \<and> params k \<noteq> None then params k
          else env k)"

definition scriptBotKeys :: "string list" where
  "scriptBotKeys = [''user'', ''user_id'', ''channel'', ''channel_id'', ''thread_id'', ''threaded_message'',
     ''message_id'', ''protocol'', ''brain'']"

definition unwrapId :: "string \<Rightarrow> string" where
  "unwrapId v = (if length v \<ge> 2 \<and> hasPrefix v ''<'' \<and> hasSuffix v ''>'' then butlast (drop 1 v) else v)"

definition scriptBot :: "stringMap \<Rightarrow> stringMap" where
  "scriptBot env =
     (\<lambda>key. if key \<notin> set scriptBotKeys then None
            else map_option (if key = ''user_id'' \<or> key = ''channel_id'' then unwrapId else (\<lambda>v. v))
                   (env (''GOPHER_'' @ map upperByte key)))"

definition getParameter :: "stringMap \<Rightarrow> stringMap \<Rightarrow> string \<Rightarrow> string" where
  "getParameter params env key =
     (case params key of Some v \<Rightarrow> v | None \<Rightarrow> (case env key of Some v \<Rightarrow> v | None \<Rightarrow> []))"

definition setParameter :: "string \<Rightarrow> string \<Rightarrow> pipeContext \<Rightarrow> bool \<times> pipeContext" where
  "setParameter name v c =
     (if \<not> identifierMatches name then (False, c)
      else (True, c\<lparr>pcParameters := (pcParameters c)(name \<mapsto> v)\<rparr>))"

subsection \<open>Layers\<close>

text \<open>The reference: the parameters of a task as a list of layers, looked up from the first on.\<close>

fun firstHit :: "stringMap list \<Rightarrow> stringMap" where
  "firstHit [] k = None"
| "firstHit (m # ms) k = (case m k of None \<Rightarrow> firstHit ms k | Some v \<Rightarrow> Some v)"

text \<open>In a list of parameters the first entry of a name counts.\<close>

definition paramMap :: "Parameter list \<Rightarrow> stringMap" where
  "paramMap ps = map_of (map (\<lambda>p. (parName p, parValue p)) ps)"

definition setLayers :: "(string \<Rightarrow> ParameterSet option) \<Rightarrow> string list \<Rightarrow> stringMap list" where
  "setLayers sets names = map (\<lambda>n. case sets n of None \<Rightarrow> (\<lambda>_. None) | Some ps \<Rightarrow> paramMap (psParameters ps)) names"

definition parameterLayers :: "worker \<Rightarrow> taskObj \<Rightarrow> stringMap list" where
  "parameterLayers w t =
     (let task = taskOf t; lst = wTasks w; c = wPipe w in
      (if pluginOf t \<noteq> None \<and> \<not> tkPrivileged task then [] else [pcParameters c]) @
      (if tkPrivileged task then paramMap (pcNameSpaceParameters c) # setLayers (tlParameterSets lst) (pcParameterSets c) else []) @
      (if tkNameSpace task = [] then [] else setLayers (tlNameSpaces lst) [tkNameSpace task]) @
      setLayers (tlParameterSets lst) (tkParameterSets task) @
      [paramMap (tkParameters task)])"

lemma addDefaults_eq: "addDefaults ps m k = firstHit [m, paramMap ps] k"
  by (induction ps arbitrary: m)
     (auto simp: addDefaults_def addDefault_def paramMap_def split: option.splits)

lemma addDefaults_hit: "addDefaults ps m = firstHit [m, paramMap ps]"
  by (rule ext) (rule addDefaults_eq)

lemma firstHit_append: "firstHit (xs @ ys) k = (case firstHit xs k of None \<Rightarrow> firstHit ys k | Some v \<Rightarrow> Some v)"
  by (induction xs) (auto split: option.splits)

lemma firstHit_nest: "firstHit (firstHit xs # ys) = firstHit (xs @ ys)"
  by (rule ext) (simp add: firstHit_append)

lemma firstHit_empty: "firstHit ((\<lambda>_. None) # ms) = firstHit ms"
  by (rule ext) simp

lemma sets_hit: "parameterSetDefaults lst names m = firstHit (m # setLayers (tlParameterSets lst) names)"
proof (induction names arbitrary: m)
  case Nil
  then show ?case by (auto simp: parameterSetDefaults_def setLayers_def split: option.splits)
next
  case (Cons n ns)
  let ?m = "case tlParameterSets lst n of None \<Rightarrow> m | Some ps \<Rightarrow> addDefaults (psParameters ps) m"
  have "parameterSetDefaults lst (n # ns) m = firstHit (?m # setLayers (tlParameterSets lst) ns)"
    unfolding Cons.IH [symmetric] by (simp add: parameterSetDefaults_def)
  also have "\<dots> = firstHit (m # setLayers (tlParameterSets lst) (n # ns))"
    by (rule ext) (auto simp: setLayers_def addDefaults_eq split: option.splits)
  finally show ?case .
qed

lemma nameSpace_hit:
  "nameSpaceDefaults lst name m = firstHit (m # (if name = [] then [] else setLayers (tlNameSpaces lst) [name]))"
  by (rule ext) (auto simp: nameSpaceDefaults_def setLayers_def addDefaults_eq split: option.splits)

lemma taskParameters_layers: "taskParameters w t = firstHit (parameterLayers w t)"
  unfolding taskParameters_def parameterLayers_def Let_def addDefaults_hit sets_hit nameSpace_hit
  by (cases "tkPrivileged (taskOf t)"; cases "pluginOf t = None")
     (simp_all only: firstHit_nest firstHit_empty if_True if_False simp_thms append.simps append_assoc)

text \<open>C19. the parameters of a task are its layers, read in the order of priority the code has: the
  pipeline's parameters (not for a plugin without privilege), the name space and the parameter sets of
  the pipeline for privileged tasks only, then the task's own name space, its parameter sets and last
  its own parameters, which are mere defaults.\<close>

theorem parameters_layered: "snd (getEnvironment ho w t) = firstHit (parameterLayers w t)"
  by (simp add: getEnvironment_def taskParameters_layers)

lemma passThrough_at:
  "passThrough ho env k =
     (case env k of Some v \<Rightarrow> Some v | None \<Rightarrow> if k \<in> set envPassThrough then hoLookupEnv ho k else None)"
proof -
  have "foldl (\<lambda>m p. if m p = None then (case hoLookupEnv ho p of None \<Rightarrow> m | Some v \<Rightarrow> m(p \<mapsto> v)) else m) env ps k =
      (case env k of Some v \<Rightarrow> Some v | None \<Rightarrow> if k \<in> set ps then hoLookupEnv ho k else None)" for ps
    by (induction ps arbitrary: env) (auto split: option.splits)
  then show ?thesis by (simp add: passThrough_def)
qed

text \<open>C20. secrets need privilege: the parameters a task without privilege is given do not depend on the
  name space or the parameter sets of the pipeline it runs in, and for a plugin on nothing of the
  pipeline; and of the environment, for every task, only the names of the task and of the type of the
  pipeline do.\<close>

theorem unprivileged_isolated:
  assumes "\<not> tkPrivileged (taskOf t)" "pluginOf t \<noteq> None \<or> pcParameters c = pcParameters (wPipe w)"
  shows "snd (getEnvironment ho (w\<lparr>wPipe := c\<rparr>) t) = snd (getEnvironment ho w t) \<and>
    (\<forall>k. fst (getEnvironment ho (w\<lparr>wPipe := c\<rparr>) t) k \<noteq> fst (getEnvironment ho w t) k \<longrightarrow>
       k = ''GOPHER_TASK_NAME'' \<or> k = ''GOPHER_PIPELINE_TYPE'')"
proof
  have w: "wTasks (w\<lparr>wPipe := c\<rparr>) = wTasks w" "wPipe (w\<lparr>wPipe := c\<rparr>) = c" by simp_all
  show "snd (getEnvironment ho (w\<lparr>wPipe := c\<rparr>) t) = snd (getEnvironment ho w t)"
    using assms unfolding getEnvironment_def taskParameters_def Let_def snd_conv w
    by (elim disjE) (simp_all only: simp_thms if_True if_False)
  have "fixedEnvironment ho (w\<lparr>wPipe := c\<rparr>) k = fixedEnvironment ho w k"
    if "k \<noteq> ''GOPHER_TASK_NAME''" "k \<noteq> ''GOPHER_PIPELINE_TYPE''" for k
  proof -
    let ?v = "w\<lparr>wPipe := c\<rparr>"
    have "wIncoming ?v = wIncoming w" "wChannel ?v = wChannel w" "wProtocolChannel ?v = wProtocolChannel w"
      "wCmdMode ?v = wCmdMode w" "wUser ?v = wUser w" "wProtocolUser ?v = wProtocolUser w" "wProtocol ?v = wProtocol w"
      "wCfg ?v = wCfg w" by simp_all
    then show ?thesis using that unfolding fixedEnvironment_def Let_def by (simp only: fun_upd_apply if_False)
  qed
  then show "\<forall>k. fst (getEnvironment ho (w\<lparr>wPipe := c\<rparr>) t) k \<noteq> fst (getEnvironment ho w t) k \<longrightarrow>
       k = ''GOPHER_TASK_NAME'' \<or> k = ''GOPHER_PIPELINE_TYPE''"
    unfolding getEnvironment_def fst_conv passThrough_at by metis
qed

lemma identifierMatches_letter: "identifierMatches s \<longleftrightarrow> (\<exists>c \<in> set s. isLetterByte c)"
proof -
  have r: "rmatch False identifierRe x \<longleftrightarrow> (\<exists>c y. x = c # y \<and> isLetterByte c \<and> (\<forall>d \<in> set y. isWordByte d \<or> d = CHR ''-''))" for x
  proof -
    have star: "(\<exists>n. y \<in> lpow n {[d] | d. isWordByte d \<or> d = CHR ''-''}) \<longleftrightarrow> (\<forall>d \<in> set y. isWordByte d \<or> d = CHR ''-'')" for y
    proof (induction y)
      case (Cons d y)
      then show ?case by (subst star_Cons) force
    qed (auto intro: exI [of _ 0])
    have "conc {[d] | d. P d} B = {d # y | d y. P d \<and> y \<in> B}" for P B
      by (auto simp: conc_def intro: exI [of _ "[_]"])
    then show ?thesis using star
      by (simp add: rmatch_lang identifierRe_def inItems_def foldings_def isLetterByte_def)
  qed
  show ?thesis
  proof
    assume "identifierMatches s"
    then obtain i j where "rmatch False identifierRe (take j (drop i s))"
      unfolding identifierMatches_def list_ex_iff by blast
    then obtain c y where "take j (drop i s) = c # y" "isLetterByte c" using r by blast
    then show "\<exists>c \<in> set s. isLetterByte c" by (metis in_set_dropD in_set_takeD list.set_intros(1))
  next
    assume "\<exists>c \<in> set s. isLetterByte c"
    then obtain i where i: "i < length s" "isLetterByte (s ! i)" by (auto simp: in_set_conv_nth)
    then have one: "take 1 (drop i s) = [s ! i]" by (simp add: take_Suc hd_drop_conv_nth)
    have "rmatch False identifierRe (take 1 (drop i s))" unfolding one r using i(2) by auto
    moreover have "1 \<in> set [0..<Suc (length s)]" "i \<in> set [0..<Suc (length s)]" using i(1) by auto
    ultimately show "identifierMatches s" unfolding identifierMatches_def list_ex_iff by blast
  qed
qed

text \<open>A parameter that a task sets for the pipeline replaces the variable of that name in the
  process environment of every later job or plain task, also those the code calls fixed, unless
  parameters are retrieved securely; the name only has to contain a letter.\<close>

lemma set_parameter_overrides_fixed:
  assumes "c \<in> set name" "isLetterByte c" "pluginOf t = None \<or> tkPrivileged (taskOf t)"
    and "\<not> cfSecureParamRetrieve (wCfg w)"
  shows "\<exists>p. setParameter name v (wPipe w) = (True, p) \<and>
    (case getEnvironment ho (w\<lparr>wPipe := p\<rparr>) t of (env, params) \<Rightarrow>
       processEnvironment (w\<lparr>wPipe := p\<rparr>) env params name = Some v)"
proof -
  let ?p = "(wPipe w)\<lparr>pcParameters := (pcParameters (wPipe w))(name \<mapsto> v)\<rparr>"
  have "setParameter name v (wPipe w) = (True, ?p)"
    using assms(1,2) identifierMatches_letter by (auto simp: setParameter_def)
  moreover have "snd (getEnvironment ho (w\<lparr>wPipe := ?p\<rparr>) t) name = Some v"
    unfolding getEnvironment_def taskParameters_layers parameterLayers_def Let_def using assms(3) by auto
  moreover have "name \<noteq> []" using assms(1) by auto
  ultimately have "processEnvironment (w\<lparr>wPipe := ?p\<rparr>) env (snd (getEnvironment ho (w\<lparr>wPipe := ?p\<rparr>) t)) name = Some v" for env
    using assms(4) by (simp add: processEnvironment_def Let_def)
  then show ?thesis using \<open>setParameter name v (wPipe w) = (True, ?p)\<close>
    by (intro exI [of _ ?p]) (simp add: case_prod_beta)
qed

text \<open>no task ever sees the pipeline's own environment, where a pipeline puts the parameters of its
  job, its name, and what its failure was: nothing reads it, and the names documented for tasks are not
  in the environment they get.\<close>

theorem pipeline_environment_unread:
  "getEnvironment ho (w\<lparr>wPipe := (wPipe w)\<lparr>pcEnvironment := e\<rparr>\<rparr>) t = getEnvironment ho w t \<and>
   (k \<in> {''GOPHER_PIPE_NAME'', ''GOPHER_JOB_NAME'', ''GOPHER_FINAL_TASK'', ''GOPHER_FAIL_STRING'', ''GOPHER_FAIL_CODE''} \<longrightarrow>
      fst (getEnvironment ho w t) k = None)"
proof -
  have w: "wTasks (w\<lparr>wPipe := (wPipe w)\<lparr>pcEnvironment := e\<rparr>\<rparr>) = wTasks w"
    "wPipe (w\<lparr>wPipe := (wPipe w)\<lparr>pcEnvironment := e\<rparr>\<rparr>) = (wPipe w)\<lparr>pcEnvironment := e\<rparr>" by simp_all
  have fixed: "fixedEnvironment ho (w\<lparr>wPipe := (wPipe w)\<lparr>pcEnvironment := e\<rparr>\<rparr>) = fixedEnvironment ho w"
    by (simp add: fixedEnvironment_def Let_def)
  have params: "taskParameters (w\<lparr>wPipe := (wPipe w)\<lparr>pcEnvironment := e\<rparr>\<rparr>) t = taskParameters w t"
    unfolding taskParameters_def Let_def w by simp
  have pass: "foldl (\<lambda>m p. if m p = None then (case hoLookupEnv ho p of None \<Rightarrow> m | Some v \<Rightarrow> m(p \<mapsto> v)) else m) env ps k = env k"
    if "k \<notin> set ps" for env ps
    using that
  proof (induction ps arbitrary: env)
    case (Cons p ps)
    then show ?case by (simp split: option.split)
  qed simp
  have none: "fixedEnvironment ho w k = None" "k \<notin> set envPassThrough"
    if "k \<in> {''GOPHER_PIPE_NAME'', ''GOPHER_JOB_NAME'', ''GOPHER_FINAL_TASK'', ''GOPHER_FAIL_STRING'', ''GOPHER_FAIL_CODE''}"
    using that unfolding fixedEnvironment_def Let_def fun_upd_apply envPassThrough_def
    by (elim insertE emptyE; hypsubst; simp add: optEnv_other)+
  have "k \<in> {''GOPHER_PIPE_NAME'', ''GOPHER_JOB_NAME'', ''GOPHER_FINAL_TASK'', ''GOPHER_FAIL_STRING'', ''GOPHER_FAIL_CODE''} \<longrightarrow>
      fst (getEnvironment ho w t) k = None"
  proof
    assume "k \<in> {''GOPHER_PIPE_NAME'', ''GOPHER_JOB_NAME'', ''GOPHER_FINAL_TASK'', ''GOPHER_FAIL_STRING'', ''GOPHER_FAIL_CODE''}"
    then show "fst (getEnvironment ho w t) k = None"
      unfolding getEnvironment_def passThrough_def fst_conv
      by (intro trans [OF pass] none)
  qed
  then show ?thesis using fixed params by (simp add: getEnvironment_def)
qed

definition demoPipe :: pipeContext where
  "demoPipe = \<lparr>pcWorkingDirectory = ''.'', pcBaseDirectory = ''.'', pcActive = True, pcEnvironment = (\<lambda>_. None),
     pcParameters = (\<lambda>_. None), pcNextTasks = [], pcFinalTasks = [], pcFailTasks = [], pcFinalFailed = [],
     pcTaskName = [], pcTaskDesc = [], pcTaskType = [], pcPlugCommand = [], pcTaskArgs = [], pcExclusiveTag = [],
     pcQueueTask = False, pcAbortPipeline = False, pcPrivileged = False, pcExecutedPrimaryTask = False,
     pcPtype = PlugCommand, pcElevated = False, pcStage = PrimaryTasks, pcJobName = [], pcNameSpace = [],
     pcNameSpaceParameters = [\<lparr>parName = ''TOKEN'', parValue = ''secret''\<rparr>], pcParameterSets = [],
     pcPipeName = ''demo'', pcPipeDesc = [], pcCurrentTask = None, pcExclusive = False\<rparr>"

definition demoTask :: Task where
  "demoTask = \<lparr>tkName = ''demo'', tkType = TaskExternal, tkPath = ''demo.sh'', tkNameSpace = [], tkParameters = [],
     tkParameterSets = [], tkDescription = [], tkChannel = [], tkChannels = [], tkAllChannels = True,
     tkRequireAdmin = False, tkUsers = [], tkElevator = [], tkAuthorizer = [], tkAuthRequire = [],
     tkDisabled = False, tkPrivileged = False, tkHomed = False, tkReason = []\<rparr>"

definition demoPlugin :: Plugin where
  "demoPlugin = \<lparr>plTask = demoTask, plAdminCommands = [], plElevatedCommands = [], plElevateImmediateCommands = [],
     plAuthorizedCommands = [], plAllowedPrivateCommands = [], plRequiredPrivateCommands = [],
     plAuthorizeAllCommands = False, plRequireAllCommandsPrivate = False, plRestrictPrivateChannels = False,
     plCommands = [], plMessageMatchers = [], plAmbientMatchCommand = False, plCatchAll = False,
     plCatchAllModes = [], plMatchUnlisted = False\<rparr>"

definition demoWorker :: worker where
  "demoWorker = \<lparr>wId = 1, wUser = ''alice'', wProtocolUser = ''<u1>'', wChannel = ''general'',
     wProtocolChannel = ''<c1>'', wProtocol = SSH,
     wIncoming = \<lparr>icProtocol = ''ssh'', icUserName = ''alice'', icThreadedMessage = False, icThreadID = [],
       cmUserID = ''u1'', cmValidatedUser = True, cmChannelName = ''general'', cmChannelID = ''c1'', cmMessageID = ''m1'', cmSelfMessage = False, cmDirectMessage = False,
       cmBotMessage = False, cmHiddenMessage = False, cmMessageText = []\<rparr>,
     wBotUser = False, wListedUser = True, wIsCommand = True, wCmdMode = ''name'', wMsg = [], wFmsg = [],
     wAutomaticTask = False, wQueueProvider = [], wQueueMessageID = [],
     wCfg = \<lparr>cfAdminUsers = [], cfBotName = ''bot'', cfDefaultElevator = [], cfDefaultAuthorizer = [],
       cfDefaultJobChannel = [], cfWorkSpace = ''workspace'', cfBrainProvider = ''mem'', cfSecureParamRetrieve = False\<rparr>,
     wTasks = \<lparr>tlT = [TaskObj demoTask], tlNameMap = (\<lambda>_. None), tlNameSpaces = (\<lambda>_. None), tlParameterSets = (\<lambda>_. None)\<rparr>,
     wMaps = None, wPipe = demoPipe\<rparr>"

definition demoHost :: host where
  "demoHost = \<lparr>hoHomePath = ''/home'', hoConfigFull = ''/home/custom'', hoInstallPath = ''/opt/gopherbot'',
     hoListenPort = ''127.0.0.1:1'', hoLookupEnv = (\<lambda>_. None), hoTaskPath = (\<lambda>_ _. (None, ''x''))\<rparr>"

theorem unprivileged_isolated_witness:
  "snd (getEnvironment demoHost (demoWorker\<lparr>wPipe := demoPipe\<lparr>pcParameters := [''A'' \<mapsto> ''b'']\<rparr>\<rparr>) (PluginObj demoPlugin)) =
   snd (getEnvironment demoHost demoWorker (PluginObj demoPlugin)) \<and>
   fst (getEnvironment demoHost (demoWorker\<lparr>wPipe := demoPipe\<lparr>pcParameters := [''A'' \<mapsto> ''b'']\<rparr>\<rparr>) (PluginObj demoPlugin)) ''A'' =
   fst (getEnvironment demoHost demoWorker (PluginObj demoPlugin)) ''A''"
proof -
  have "''A'' \<noteq> ''GOPHER_TASK_NAME''" "''A'' \<noteq> ''GOPHER_PIPELINE_TYPE''" by simp_all
  with unprivileged_isolated [of "PluginObj demoPlugin" "demoPipe\<lparr>pcParameters := [''A'' \<mapsto> ''b'']\<rparr>" demoWorker demoHost]
  show ?thesis by (simp add: demoPlugin_def demoTask_def) blast
qed

theorem pipeline_environment_unread_witness:
  "fst (getEnvironment demoHost (demoWorker\<lparr>wPipe := demoPipe\<lparr>pcEnvironment := [''GOPHER_FAIL_STRING'' \<mapsto> ''Fail'']\<rparr>\<rparr>)
     (TaskObj demoTask)) ''GOPHER_FAIL_STRING'' = None"
  using pipeline_environment_unread [where e = "\<lambda>_. None" and ho = demoHost and t = "TaskObj demoTask"
      and k = "''GOPHER_FAIL_STRING''" and w = "demoWorker\<lparr>wPipe := demoPipe\<lparr>pcEnvironment := [''GOPHER_FAIL_STRING'' \<mapsto> ''Fail'']\<rparr>\<rparr>"
      ] by simp

end
