(* ===== verification/Calls.thy ===== *)
theory Calls
  imports Security TaskEnv BrainLoop
begin

text \<open>
  Calling a task (bot/calltask.go, bot/task\_execution.go) and what a running task can do to its
  pipeline through the Robot API (bot/robot\_pipecmd.go, bot/exclusive.go, bot/robot.go). The code of
  a task, compiled in or in a script, is not the robot's: it is an argument, a tree of API calls that
  branches on their replies, chosen anew for every call (\<open>robotCode\<close>). API calls that do not touch the
  pipeline (messages, prompts, memories) only matter through the replies a task sees, so they are part
  of that choice. A task that never returns is not modelled, and only compiled-in code panics.
\<close>

subsection \<open>The code of tasks\<close>

datatype pipeAddFlavor = FlavorSpawn | FlavorAdd | FlavorFinal | FlavorFail

datatype pipeAddType = TypeTask | TypePlugin | TypeJob

datatype apiCall =
  ApiPipe pipeAddFlavor pipeAddType string "string list"
| ApiSetParameter string string
| ApiGetParameter string
| ApiExclusive string bool
| ApiElevate bool
| ApiCheckAdmin
| ApiSay string

datatype apiReply = RUnit | RBool bool | RString string | RRet RetVal | RBroken

datatype extResult = ExtRet TaskRetVal | ExtErr string | ExtPanic string

datatype prog = Finish extResult | Do apiCall "apiReply \<Rightarrow> prog"

datatype extKind = GoHandler | GoRPC | LuaRPC | JSRPC | GSHRPC | Executable

type_synonym robotCode = "nat \<Rightarrow> extKind \<Rightarrow> taskObj \<Rightarrow> string list \<Rightarrow> stringMap \<Rightarrow> prog"

text \<open>The snapshot of the pipeline a task's Robot carries (\<open>makeRobot\<close>).\<close>

record robot =
  rbTask :: taskObj
  rbKind :: extKind
  rbStage :: pipeStage
  rbPrivileged :: bool
  rbNameSpace :: string
  rbEnvironment :: stringMap
  rbParameters :: stringMap

subsection \<open>Worker numbers and clones\<close>

text \<open>\<open>getWorkerID\<close>: the next number after the last one, from 1 to 65535, that no pipeline uses.\<close>

definition maxIndex :: nat where
  "maxIndex = 65536"

fun tryIds :: "nat \<Rightarrow> nat \<Rightarrow> nat list \<Rightarrow> nat option" where
  "tryIds 0 idx active = None"
| "tryIds (Suc n) idx active =
     (let i = (if idx + 1 = maxIndex then 1 else idx + 1) in if i \<in> set active then tryIds n i active else Some i)"

definition getWorkerID :: "robotState \<Rightarrow> nat option" where
  "getWorkerID s = tryIds (Suc (length (rsActive s))) (rsWorkerIdx s) (rsActive s)"

definition emptyPipe :: pipeContext where
  "emptyPipe = \<lparr>pcWorkingDirectory = [], pcBaseDirectory = [], pcActive = False, pcEnvironment = (\<lambda>_. None),
     pcParameters = (\<lambda>_. None), pcNextTasks = [], pcFinalTasks = [], pcFailTasks = [], pcFinalFailed = [],
     pcTaskName = [], pcTaskDesc = [], pcTaskType = [], pcPlugCommand = [], pcTaskArgs = [], pcExclusiveTag = [],
     pcQueueTask = False, pcAbortPipeline = False, pcPrivileged = False, pcExecutedPrimaryTask = False,
     pcPtype = Unset, pcElevated = False, pcStage = PrimaryTasks, pcJobName = [], pcNameSpace = [],
     pcNameSpaceParameters = [], pcParameterSets = [],
     pcPipeName = [], pcPipeDesc = [], pcCurrentTask = None, pcExclusive = False\<rparr>"

definition clone :: "worker rop" where
  "clone = bindOp (reads (\<lambda>s. (getWorkerID s, rsWorker s))) (\<lambda>(i, w).
     case i of
       None \<Rightarrow> fail OutOfFuel
     | Some n \<Rightarrow>
         andThen (modifyOp (\<lambda>s. s\<lparr>rsWorkerIdx := n\<rparr>))
           (ret (w\<lparr>wId := n, wIsCommand := False, wCmdMode := [],
                   wPipe := emptyPipe\<lparr>pcPipeName := pcPipeName (wPipe w), pcPipeDesc := pcPipeDesc (wPipe w),
                              pcPtype := pcPtype (wPipe w), pcElevated := pcElevated (wPipe w)\<rparr>\<rparr>)))"

subsection \<open>Adding tasks to a pipeline\<close>

fun firstCommand :: "InputMatcher list \<Rightarrow> string \<Rightarrow> (string \<times> string list) option" where
  "firstCommand [] cmsg = None"
| "firstCommand (m # ms) cmsg =
     (case matchCommandInput m cmsg of ExactMatch args \<Rightarrow> Some (imCommand m, args) | _ \<Rightarrow> firstCommand ms cmsg)"

definition pipeCommand :: "taskObj \<Rightarrow> string list \<Rightarrow> RetVal + string \<times> string list" where
  "pipeCommand t args =
     (case pluginOf t of
        None \<Rightarrow> Inr (''run'', args)
      | Some p \<Rightarrow>
          if args = [] \<or> hd args = [] then Inl MissingArguments
          else (case firstCommand (plCommands p) (hd args) of None \<Rightarrow> Inl CommandNotMatched | Some c \<Rightarrow> Inr c))"

definition pipeTaskCheck :: "robot \<Rightarrow> taskList \<Rightarrow> pipeAddType \<Rightarrow> string \<Rightarrow> RetVal + taskObj" where
  "pipeTaskCheck r lst ptype name =
     (if rbStage r \<noteq> PrimaryTasks then Inl InvalidStage
      else (case getTaskByName lst name of
              None \<Rightarrow> Inl TaskNotFound
            | Some t \<Rightarrow>
                let isPlugin = (pluginOf t \<noteq> None); isJob = (jobOf t \<noteq> None) in
                if tkDisabled (taskOf t) then Inl TaskDisabled
                else if ptype = TypePlugin \<and> \<not> isPlugin then Inl InvalidTaskType
                else if ptype = TypeJob \<and> \<not> isJob then Inl InvalidTaskType
                else if ptype = TypeTask \<and> (isJob \<or> isPlugin) then Inl InvalidTaskType
                else if \<not> rbPrivileged r \<and> tkPrivileged (taskOf t) then Inl PrivilegeViolation
                else Inr t))"

definition addSpec :: "pipeAddFlavor \<Rightarrow> TaskSpec \<Rightarrow> pipeContext \<Rightarrow> pipeContext" where
  "addSpec flavor ts c =
     (case flavor of
        FlavorAdd \<Rightarrow> c\<lparr>pcNextTasks := pcNextTasks c @ [ts]\<rparr>
      | FlavorFinal \<Rightarrow> c\<lparr>pcFinalTasks := ts # pcFinalTasks c\<rparr>
      | FlavorFail \<Rightarrow> c\<lparr>pcFailTasks := pcFailTasks c @ [ts]\<rparr>
      | FlavorSpawn \<Rightarrow> c)"

definition pipeTask :: "robot \<Rightarrow> pipeAddFlavor \<Rightarrow> pipeAddType \<Rightarrow> string \<Rightarrow> string list \<Rightarrow> RetVal rop" where
  "pipeTask r flavor ptype name args =
     bindOp (reads (\<lambda>s. pipeTaskCheck r (wTasks (rsWorker s)) ptype name)) (\<lambda>checked.
       case checked of
         Inl e \<Rightarrow> ret e
       | Inr t \<Rightarrow>
           (case pipeCommand t args of
              Inl e \<Rightarrow> ret e
            | Inr (command, cmdargs) \<Rightarrow>
                if flavor = FlavorSpawn then
                  bindOp clone (\<lambda>sb. andThen
                    (modifyOp (\<lambda>s. s\<lparr>rsSpawned := rsSpawned s @ [(sb, t, command, args)]\<rparr>)) (ret Ok))
                else andThen (modifyPipe (addSpec flavor
                       \<lparr>tsName = name, tsCommand = command, tsArguments = cmdargs, tsTask = Some t\<rparr>)) (ret Ok)))"

subsection \<open>Exclusive\<close>

definition namesOf :: "taskObj \<Rightarrow> taskNames" where
  "namesOf t = \<lparr>tnName = tkName (taskOf t), tnNameSpace = tkNameSpace (taskOf t), tnIsPlugin = (pluginOf t \<noteq> None)\<rparr>"

text \<open>
  The run queues (\<open>runQueues\<close>): a tag is present while a pipeline holds its lock, with the wake-up
  channels of the pipelines that wait. A pipeline that asked to be queued joins the queue at the end
  of its task, or takes the lock when it has become free; a pipeline that ends wakes the first waiter
  or frees the lock; a wait that is given up is taken out of the queue.
\<close>

type_synonym runQueues = "string \<Rightarrow> nat list option"

definition joinQueue :: "runQueues \<Rightarrow> string \<Rightarrow> nat \<Rightarrow> bool \<times> runQueues" where
  "joinQueue q tag ch =
     (case q tag of None \<Rightarrow> (False, q(tag \<mapsto> [])) | Some queue \<Rightarrow> (True, q(tag \<mapsto> queue @ [ch])))"

definition finishExclusive :: "runQueues \<Rightarrow> string \<Rightarrow> nat option \<times> runQueues" where
  "finishExclusive q tag =
     (case (case q tag of None \<Rightarrow> [] | Some queue \<Rightarrow> queue) of
        [] \<Rightarrow> (None, q(tag := None))
      | ch # rest \<Rightarrow> (Some ch, q(tag \<mapsto> rest)))"

definition removeExclusiveWaiter :: "string \<Rightarrow> nat \<Rightarrow> runQueues \<Rightarrow> runQueues" where
  "removeExclusiveWaiter tag ch q =
     (if tag = [] then q else (case q tag of None \<Rightarrow> q | Some queue \<Rightarrow> q(tag \<mapsto> remove1 ch queue)))"

text \<open>The lock tag, when the caller may ask for one.\<close>

definition exclusiveLockTag :: "string \<Rightarrow> taskObj \<Rightarrow> worker \<Rightarrow> string \<Rightarrow> bool \<Rightarrow> string option" where
  "exclusiveLockTag ns t w tag queueTask =
     (if tag = [] then None
      else if pluginOf t = None \<and> jobOf t = None \<and> queueTask \<and> ns = [] then None
      else Some ((if ns = [] then getNameSpace (pcNameSpace (wPipe w)) (namesOf t) else ns) @ '':'' @ tag))"

text \<open>Asking for the lock \<open>lockTag\<close>; the caller is a plugin or not.\<close>

definition askLock :: "bool \<Rightarrow> string \<Rightarrow> bool \<Rightarrow> runQueues \<Rightarrow> pipeContext \<Rightarrow> bool \<times> runQueues \<times> pipeContext" where
  "askLock isPlugin lockTag queueTask q c =
     (if pcExclusive c then (pcExclusiveTag c = lockTag, q, c)
      else if q lockTag = None then (True, q(lockTag \<mapsto> []), c\<lparr>pcExclusiveTag := lockTag, pcExclusive := True\<rparr>)
      else (False, q,
        if queueTask then c\<lparr>pcExclusiveTag := lockTag, pcQueueTask := True\<rparr>
        else if isPlugin then c\<lparr>pcExclusiveTag := lockTag, pcAbortPipeline := True\<rparr>
        else c\<lparr>pcExclusiveTag := lockTag\<rparr>))"

definition exclusive :: "robot \<Rightarrow> string \<Rightarrow> bool \<Rightarrow> bool rop" where
  "exclusive r tag queueTask = bindOp (reads (\<lambda>s. s)) (\<lambda>s.
     case exclusiveLockTag (rbNameSpace r) (rbTask r) (rsWorker s) tag queueTask of
       None \<Rightarrow> ret False
     | Some lockTag \<Rightarrow>
         (case askLock (pluginOf (rbTask r) \<noteq> None) lockTag queueTask (rsRunQueues s) (wPipe (rsWorker s)) of
            (ok, q, c) \<Rightarrow>
              andThen (modifyOp (\<lambda>s. s\<lparr>rsRunQueues := q\<rparr>))
                (andThen (modifyPipe (\<lambda>_. c)) (ret ok))))"

subsection \<open>The Robot API\<close>

definition catchNil :: "'a rop \<Rightarrow> 'a rop \<Rightarrow> 'a rop" where
  "catchNil m h s = (case m s of (Inl NilTask, t) \<Rightarrow> h t | r \<Rightarrow> r)"

text \<open>
  A panic inside an API call from an external executable is caught by the HTTP server, and the task
  sees its connection break; elsewhere it goes through to the caller of the task.
\<close>

definition apiStep :: "callFn \<Rightarrow> robot \<Rightarrow> apiCall \<Rightarrow> apiReply rop" where
  "apiStep call r c =
     (case c of
        ApiPipe flavor ptype name args \<Rightarrow> bindOp (pipeTask r flavor ptype name args) (\<lambda>x. ret (RRet x))
      | ApiSetParameter name v \<Rightarrow>
          bindOp (reads (\<lambda>s. fst (setParameter name v (wPipe (rsWorker s))))) (\<lambda>ok.
            andThen (modifyPipe (\<lambda>c. snd (setParameter name v c))) (ret (RBool ok)))
      | ApiGetParameter key \<Rightarrow> ret (RString (getParameter (rbParameters r) (rbEnvironment r) key))
      | ApiExclusive tag q \<Rightarrow> bindOp (exclusive r tag q) (\<lambda>b. ret (RBool b))
      | ApiElevate immediate \<Rightarrow>
          (let m = bindOp (elevate call (rbTask r) (taskOf (rbTask r)) immediate) (\<lambda>x. ret (RBool (x = Success)))
           in if rbKind r = Executable then catchNil m (ret RBroken) else m)
      | ApiCheckAdmin \<Rightarrow> bindOp checkAdmin (\<lambda>b. ret (RBool b))
      | ApiSay msg \<Rightarrow> andThen (act (Say msg)) (ret RUnit))"

primrec runProg :: "(apiCall \<Rightarrow> apiReply rop) \<Rightarrow> prog \<Rightarrow> extResult rop" where
  "runProg h (Finish x) = ret x"
| "runProg h (Do c k) = bindOp (h c) (\<lambda>r. runProg h (k r))"

subsection \<open>Calling a task\<close>

definition taskKind :: "Task \<Rightarrow> extKind" where
  "taskKind task =
     (if tkType task = TaskGo then GoHandler
      else if hasSuffix (tkPath task) ''.go'' then GoRPC
      else if hasSuffix (tkPath task) ''.lua'' then LuaRPC
      else if hasSuffix (tkPath task) ''.js'' then JSRPC
      else if hasSuffix (tkPath task) ''.gsh'' then GSHRPC
      else Executable)"

text \<open>Only plugins get the command as an argument.\<close>

definition taskArguments :: "taskObj \<Rightarrow> string \<Rightarrow> string list \<Rightarrow> string list" where
  "taskArguments t command args = (if pluginOf t \<noteq> None then command # args else args)"

definition failText :: "Task \<Rightarrow> string" where
  "failText task = ''Pipeline failed in external task '' @ singleQuoted (tkName task) @ '', writing fail log in GOPHER_HOME''"

fun taskTypeName :: "taskType \<Rightarrow> string" where
  "taskTypeName TaskGo = ''taskGo''"
| "taskTypeName TaskExternal = ''taskExternal''"

definition runLabel :: "extKind \<Rightarrow> taskObj \<Rightarrow> string" where
  "runLabel kind t =
     ''Running '' @
     (case kind of LuaRPC \<Rightarrow> ''Lua '' | JSRPC \<Rightarrow> ''JavaScript '' | GSHRPC \<Rightarrow> ''Gopherbot shell '' | _ \<Rightarrow> []) @
     (if pluginOf t \<noteq> None then ''plugin '' else if jobOf t \<noteq> None then ''job '' else ''task '') @ tkName (taskOf t)"

definition panicText :: "Task \<Rightarrow> string \<Rightarrow> string" where
  "panicText task e = ''recovered from panic in callTask for compiled-in Go '' @ taskTypeName (tkType task) @ '' '' @
     singleQuoted (tkName task) @ '': '' @ e"

definition taskResult :: "extKind \<Rightarrow> taskObj \<Rightarrow> extResult \<Rightarrow> string \<times> TaskRetVal" where
  "taskResult kind t x =
     (case x of
        ExtRet r \<Rightarrow>
          if kind = Executable \<and> r \<noteq> Normal \<and> r \<noteq> Success then (failText (taskOf t), r) else ([], r)
      | ExtErr e \<Rightarrow>
          (if kind = Executable then failText (taskOf t) else runLabel kind t @ '': '' @ e, MechanismFail)
      | ExtPanic e \<Rightarrow> (panicText (taskOf t) e, MechanismFail))"

text \<open>Statistics: what a call counts as when it starts, unless it initializes a plugin, and when it ends badly.\<close>

definition ranEvent :: "extKind \<Rightarrow> taskObj \<Rightarrow> string \<Rightarrow> prog \<Rightarrow> unit rop" where
  "ranEvent kind t command p =
     (if command = ''_init'' then ret ()
      else if kind = Executable then (case p of Finish (ExtErr _) \<Rightarrow> ret () | _ \<Rightarrow> act (Emit ExternalTaskRan))
      else if pluginOf t = None then ret ()
      else act (Emit (if kind = GoHandler \<or> kind = GoRPC then GoPluginRan else ExternalTaskRan)))"

definition endEvent :: "extKind \<Rightarrow> extResult \<Rightarrow> unit rop" where
  "endEvent kind x =
     (case x of
        ExtRet r \<Rightarrow> if kind = Executable \<and> r \<noteq> Normal \<and> r \<noteq> Success then act (Emit ExternalTaskErrExit) else ret ()
      | ExtErr _ \<Rightarrow> if kind = GoHandler \<or> kind = Executable then ret () else act (Emit ExternalTaskBadInterpreter)
      | ExtPanic _ \<Rightarrow> ret ())"

definition countCall :: "nat rop" where
  "countCall = bindOp (reads rsCalls) (\<lambda>n. andThen (modifyOp (\<lambda>s. s\<lparr>rsCalls := Suc n\<rparr>)) (ret n))"

text \<open>What a task is given in its environment, by the way it runs.\<close>

definition taskEnvironment :: "host \<Rightarrow> worker \<Rightarrow> Task \<Rightarrow> extKind \<Rightarrow> stringMap \<Rightarrow> stringMap \<Rightarrow> stringMap" where
  "taskEnvironment ho w task kind env params =
     (if kind = GoHandler then env
      else (let e = homedEnvironment ho w task (kind \<noteq> Executable) env
            in if kind = LuaRPC \<or> kind = JSRPC then scriptBot e else processEnvironment w e params))"

definition makeRobot :: "worker \<Rightarrow> taskObj \<Rightarrow> stringMap \<times> stringMap \<Rightarrow> robot" where
  "makeRobot w t env =
     \<lparr>rbTask = t, rbKind = taskKind (taskOf t), rbStage = pcStage (wPipe w), rbPrivileged = pcPrivileged (wPipe w),
      rbNameSpace = pcNameSpace (wPipe w), rbEnvironment = fst env, rbParameters = snd env\<rparr>"

definition runCode :: "callFn \<Rightarrow> robot \<Rightarrow> string \<Rightarrow> prog \<Rightarrow> (string \<times> TaskRetVal) rop" where
  "runCode call r command p =
     (let run = runProg (apiStep call r) p in
      andThen (ranEvent (rbKind r) (rbTask r) command p)
        (bindOp (if rbKind r = GoHandler then catchNil run (ret (ExtPanic ''nil task'')) else run) (\<lambda>x.
           andThen (endEvent (rbKind r) x) (ret (taskResult (rbKind r) (rbTask r) x)))))"

definition callBody :: "host \<Rightarrow> robotCode \<Rightarrow> callFn \<Rightarrow> callFn" where
  "callBody ho code call t command args =
     (let task = taskOf t; kind = taskKind task in
      andThen (setCurrentTask (Some t))
        (bindOp (reads rsWorker) (\<lambda>w.
           bindOp
             (if tkDisabled task then
                ret (''callTask failed on disabled task '' @ tkName task @ ''; reason: '' @ tkReason task, ConfigurationError)
              else
                (case hoTaskPath ho task (if tkHomed task then ''.'' else pcWorkingDirectory (wPipe w)) of (err, path) \<Rightarrow>
                   if kind = Executable \<and> err \<noteq> None \<and> path \<noteq> [] then
                     andThen (act (Emit ExternalTaskBadPath))
                       (ret (''Getting the path for '' @ tkName task @ '': '' @ the err, MechanismFail))
                   else bindOp countCall (\<lambda>n.
                     let env = getEnvironment ho w t
                     in runCode call (makeRobot w t env) command
                          (code n kind t (taskArguments t command args) (taskEnvironment ho w task kind (fst env) (snd env))))))
             (\<lambda>res. andThen (act (Called (wId w) t command args (snd res))) (ret res)))))"

text \<open>
  A task may ask for elevation, which calls the elevator, which is a task. The depth of such calls is
  bounded by the first argument.
\<close>

primrec callTask :: "host \<Rightarrow> robotCode \<Rightarrow> nat \<Rightarrow> callFn" where
  "callTask ho code 0 = (\<lambda>t command args. fail OutOfFuel)"
| "callTask ho code (Suc n) = callBody ho code (callTask ho code n)"

subsection \<open>Calls are good steps\<close>

lemma moves_modifyOp [moves_intro]:
  "(\<And>s. rsTrace (f s) = rsTrace s) \<Longrightarrow> (\<And>s. rsWorker (f s) = rsWorker s) \<Longrightarrow> moves (modifyOp f)"
  unfolding moves_def modifyOp_def goodStep_def elevatedOk_def by simp

lemma moves_catchNil [moves_intro]:
  assumes "moves m" "moves h"
  shows "moves (catchNil m h)"
  unfolding moves_def
proof
  fix s
  have "goodStep s (snd (m s))" using assms(1) by (simp add: moves_def)
  moreover have "goodStep (snd (m s)) (snd (h (snd (m s))))" using assms(2) by (simp add: moves_def)
  ultimately show "goodStep s (snd (catchNil m h s))"
    by (auto simp: catchNil_def split: prod.split sum.split stop.split intro: goodStep_trans)
qed

lemma moves_clone [moves_intro]: "moves clone"
  unfolding clone_def by (intro moves_intro) simp_all

lemma moves_pipeTask [moves_intro]: "moves (pipeTask r flavor ptype name args)"
  unfolding pipeTask_def addSpec_def by (intro moves_intro) (simp_all split: pipeAddFlavor.split)

lemma askLock_elevated: "askLock b tag queue q c = (ok, q', c') \<Longrightarrow> pcElevated c' = pcElevated c"
  by (auto simp: askLock_def split: if_splits)

lemma moves_exclusive [moves_intro]: "moves (exclusive r tag q)"
  unfolding moves_def
proof
  fix s
  show "goodStep s (snd (exclusive r tag q s))"
  proof (cases "exclusiveLockTag (rbNameSpace r) (rbTask r) (rsWorker s) tag q")
    case (Some lockTag)
    obtain ok q' c where a: "askLock (pluginOf (rbTask r) \<noteq> None) lockTag q (rsRunQueues s) (wPipe (rsWorker s)) = (ok, q', c)"
      using prod_cases3 by blast
    have "snd (exclusive r tag q s) = s\<lparr>rsRunQueues := q', rsWorker := (rsWorker s)\<lparr>wPipe := c\<rparr>\<rparr>"
      using a Some by (simp add: exclusive_def andThen_def bindOp_def reads_def modifyOp_def modifyPipe_def
          modifyWorker_def ret_def)
    then show ?thesis using askLock_elevated [OF a] by (auto simp: goodStep_def elevatedOk_def)
  qed (simp add: exclusive_def reads_def bindOp_def ret_def)
qed

lemma moves_setParameter [moves_intro]: "moves (modifyPipe (\<lambda>c. snd (setParameter name v c)))"
  by (rule moves_modifyPipe) (simp add: setParameter_def)

lemma moves_countCall [moves_intro]: "moves countCall"
  unfolding countCall_def by (intro moves_intro) simp_all

lemma moves_runProg: "(\<And>c. moves (h c)) \<Longrightarrow> moves (runProg h p)"
  by (induction p) (auto intro!: moves_intro)

lemma moves_events [moves_intro]: "moves (ranEvent kind t command p)" "moves (endEvent kind x)"
  unfolding ranEvent_def endEvent_def
  by (cases p; auto intro!: moves_intro split: extResult.split) (cases x; auto intro!: moves_intro)

lemma callBody_logs:
  assumes "callBody ho code call t command args s = (Inr (e, r), s')"
  shows "Called (wId (rsWorker s)) t command args r \<in> set (rsTrace s')"
  using assms
  by (auto simp: callBody_def Let_def andThen_def bindOp_result setCurrentTask_def modifyPipe_def
      modifyWorker_def modifyOp_def ret_def)

context task_caller
begin

lemma moves_apiStep: "moves (apiStep call r c)"
proof (cases c)
  case (ApiElevate immediate)
  then show ?thesis unfolding apiStep_def Let_def
    by simp (intro conjI impI moves_intro moves_elevate)
qed (simp_all add: apiStep_def, (intro moves_intro)+)

lemma callBody_caller: "task_caller (callBody ho code call)"
proof
  fix t command args
  show "moves (callBody ho code call t command args)"
    unfolding callBody_def runCode_def Let_def
    by (intro moves_intro moves_runProg moves_apiStep)
next
  fix t command args s e r s'
  assume "callBody ho code call t command args s = (Inr (e, r), s')"
  then show "Called (wId (rsWorker s)) t command args r \<in> set (rsTrace s')" by (rule callBody_logs)
qed

end

lemma callTask_caller: "task_caller (callTask ho code n)"
proof (induction n)
  case 0
  show ?case by unfold_locales (simp add: moves_fail, simp add: fail_def)
next
  case (Suc n)
  then show ?case by (simp add: task_caller.callBody_caller)
qed

interpretation caller: task_caller "callTask ho code n" for ho code n
  by (rule callTask_caller)

end
