(* ===== verification/Pipeline.thy ===== *)
theory Pipeline
  imports Calls
begin

text \<open>
  Pipelines (bot/run\_pipelines.go): starting one for a plugin or a job, running the tasks of its
  three stages with the security block, jobs that run as child pipelines, tasks added while it runs,
  queueing for an exclusive lock, and the end of the pipeline. Pipelines that run at the same time
  share the run queues: what they did to them until the end of a task is \<open>peOthers\<close>, indexed by the
  number of calls so far, and \<open>peWait\<close> tells whether the wait on a channel ends with the wake-up or is
  given up, and what has become of the queues. Theory Exclusive has all pipelines at once. Logs,
  the job's announcements in the chat and the watchdog of bot/pipeline\_monitoring.go are left out.
\<close>

record pipeEnv =
  peHost :: host
  peCode :: robotCode
  peOthers :: "nat \<Rightarrow> runQueues \<Rightarrow> runQueues"
  peWait :: "nat \<Rightarrow> runQueues \<Rightarrow> bool \<times> runQueues"

subsection \<open>Jobs and their children\<close>

definition getProtocol :: "string \<Rightarrow> protocol" where
  "getProtocol p =
     (let p = toLower p in
      if p = ''slack'' then Slack else if p = ''googlechat'' then GoogleChat
      else if p = ''term'' \<or> p = ''terminal'' then Terminal else if p = ''nullconn'' then Null
      else if p = ''rocket'' then Rocket else if p = ''ssh'' then SSH else TestProtocol)"

definition workerProtocol :: "worker \<Rightarrow> string" where
  "workerProtocol w = protocolFromIncoming (Some (incomingMessage.truncate (wIncoming w))) (wProtocol w)"

definition inheritChildJobProtocol :: "worker \<Rightarrow> worker \<Rightarrow> worker" where
  "inheritChildJobProtocol parent child =
     (let p = normalizeProtocolName (workerProtocol parent) in
      if p = [] then child
      else child\<lparr>wProtocol := getProtocol p, wIncoming := (wIncoming child)\<lparr>icProtocol := p\<rparr>\<rparr>)"

subsection \<open>A new pipeline\<close>

definition addEnv :: "Parameter list \<Rightarrow> stringMap \<Rightarrow> stringMap" where
  "addEnv ps m = foldl addDefault m ps"

definition startValues :: "worker \<Rightarrow> stringMap \<Rightarrow> stringMap" where
  "startValues w m =
     optEnv (icThreadedMessage (wIncoming w)) ''GOPHER_START_THREADED_MESSAGE'' ''true''
       (m(''GOPHER_START_PROTOCOL'' \<mapsto> workerProtocol w, ''GOPHER_START_USER'' \<mapsto> wUser w,
          ''GOPHER_START_USER_ID'' \<mapsto> wProtocolUser w, ''GOPHER_START_CHANNEL'' \<mapsto> wChannel w,
          ''GOPHER_START_CHANNEL_ID'' \<mapsto> wProtocolChannel w, ''GOPHER_START_THREAD_ID'' \<mapsto> icThreadID (wIncoming w),
          ''GOPHER_START_MESSAGE_ID'' \<mapsto> cmMessageID (wIncoming w)))"

definition queueValues :: "worker \<Rightarrow> pipelineType \<Rightarrow> stringMap \<Rightarrow> stringMap" where
  "queueValues w ptype m =
     (if ptype = QueuedJob
      then m(''GOPHER_QUEUE_PROVIDER'' \<mapsto> wQueueProvider w, ''GOPHER_QUEUE_MESSAGE_ID'' \<mapsto> wQueueMessageID w) else m)"

definition basePipe :: "worker \<Rightarrow> Task \<Rightarrow> pipelineType \<Rightarrow> pipeContext" where
  "basePipe w task ptype =
     (let dir = (if tkHomed task then ''.'' else cfWorkSpace (wCfg w)) in
      emptyPipe\<lparr>pcEnvironment := [''GOPHER_WORKSPACE'' \<mapsto> cfWorkSpace (wCfg w)], pcPipeName := tkName task,
        pcPipeDesc := tkDescription task, pcPrivileged := tkPrivileged task, pcBaseDirectory := dir,
        pcWorkingDirectory := dir, pcPtype := ptype, pcStage := PrimaryTasks,
        pcNameSpaceParameters :=
          (if tkNameSpace task = [] then []
           else (case tlNameSpaces (wTasks w) (tkNameSpace task) of None \<Rightarrow> [] | Some ns \<Rightarrow> psParameters ns)),
        pcParameterSets := tkParameterSets task\<rparr>)"

text \<open>A job moves the conversation to its own channel and keeps where it was started from.\<close>

definition jobPipe :: "worker \<Rightarrow> taskObj \<Rightarrow> pipelineType \<Rightarrow> pipeContext" where
  "jobPipe w t ptype =
     (let task = taskOf t; c = basePipe w task ptype;
          env = startValues w ((addEnv (tkParameters task) (pcEnvironment c))(''GOPHER_JOB_NAME'' \<mapsto> tkName task))
      in c\<lparr>pcJobName := tkName task, pcNameSpace := getNameSpace [] (namesOf t),
           pcEnvironment := queueValues w ptype env,
           pcParameters := queueValues w ptype (startValues w (\<lambda>_. None))\<rparr>)"

definition jobWorker :: "worker \<Rightarrow> Task \<Rightarrow> worker" where
  "jobWorker w task =
     w\<lparr>wChannel := tkChannel task, wProtocolChannel := [],
       wIncoming := (wIncoming w)\<lparr>icThreadID := [], cmMessageID := [], icThreadedMessage := False\<rparr>\<rparr>"

definition newPipeline :: "worker \<Rightarrow> taskObj \<Rightarrow> pipelineType \<Rightarrow> string \<Rightarrow> string list \<Rightarrow> worker" where
  "newPipeline w t ptype command args =
     (let task = taskOf t;
          w1 = (if jobOf t \<noteq> None then (jobWorker w task)\<lparr>wPipe := jobPipe w t ptype\<rparr>
                else w\<lparr>wPipe := basePipe w task ptype\<rparr>);
          c = wPipe w1
      in w1\<lparr>wPipe := c\<lparr>pcEnvironment := (pcEnvironment c)(''GOPHER_PIPE_NAME'' \<mapsto> pcPipeName c), pcActive := True,
             pcNextTasks := [\<lparr>tsName = tkName task, tsCommand = command, tsArguments = args, tsTask = Some t\<rparr>]\<rparr>\<rparr>)"

text \<open>A pipeline that was not started by a message looks up the identifiers of its user and channel.\<close>

definition withIdentifiers :: "userChanMaps \<Rightarrow> worker \<Rightarrow> worker" where
  "withIdentifiers current w =
     (let maps = (case wMaps w of None \<Rightarrow> current | Some m \<Rightarrow> m)
      in w\<lparr>wMaps := Some maps,
           wProtocolUser := (if wProtocolUser w = [] \<and> wUser w \<noteq> [] then resolveUserFor maps (workerProtocol w) (wUser w)
                             else wProtocolUser w),
           wProtocolChannel :=
             (if wProtocolChannel w = [] \<and> wChannel w \<noteq> []
              then resolveChannelFor maps (protocolNameFromEnum (wProtocol w)) (wChannel w)
              else wProtocolChannel w)\<rparr>)"

definition registerActive :: "unit rop" where
  "registerActive = modifyOp (\<lambda>s. s\<lparr>rsWorker := withIdentifiers (rsMaps s) (rsWorker s),
     rsActive := wId (rsWorker s) # rsActive s\<rparr>)"

definition deregister :: "unit rop" where
  "deregister = andThen (modifyOp (\<lambda>s. s\<lparr>rsActive := removeAll (wId (rsWorker s)) (rsActive s)\<rparr>))
     (modifyPipe (\<lambda>c. c\<lparr>pcActive := False\<rparr>))"

subsection \<open>One task of a stage\<close>

definition takeTasks :: "pipeStage \<Rightarrow> TaskSpec list rop" where
  "takeTasks stage =
     andThen (modifyPipe (\<lambda>c. c\<lparr>pcStage := stage\<rparr>))
       (bindOp (reads (\<lambda>s. wPipe (rsWorker s))) (\<lambda>c.
          case stage of
            PrimaryTasks \<Rightarrow> andThen (modifyPipe (\<lambda>c. c\<lparr>pcNextTasks := []\<rparr>)) (ret (pcNextTasks c))
          | FinalTasks \<Rightarrow> ret (pcFinalTasks c)
          | FailTasks \<Rightarrow> ret (pcFailTasks c)))"

definition showTask :: "taskObj \<Rightarrow> string \<Rightarrow> string list \<Rightarrow> pipeContext \<Rightarrow> pipeContext" where
  "showTask t command args c =
     c\<lparr>pcTaskName := tkName (taskOf t), pcTaskDesc := tkDescription (taskOf t),
       pcPlugCommand := (if pluginOf t \<noteq> None then command else []), pcTaskArgs := args,
       pcTaskType := (if jobOf t \<noteq> None then ''job'' else if pluginOf t \<noteq> None then ''plugin'' else ''task'')\<rparr>"

definition gated :: "taskObj \<Rightarrow> bool" where
  "gated t \<longleftrightarrow> pluginOf t \<noteq> None \<or> jobOf t \<noteq> None"

text \<open>The security block; \<open>Execute\<close> marks that it let the task through.\<close>

definition clearTask :: "callFn \<Rightarrow> taskObj \<Rightarrow> string \<Rightarrow> string list \<Rightarrow> bool rop" where
  "clearTask call t command args =
     bindOp (reads rsWorker) (\<lambda>w.
       bindOp (if gated t \<and> \<not> wAutomaticTask w then securityChecks call t command args else ret True) (\<lambda>ok.
         if ok then bindOp (reads rsWorker) (\<lambda>w. andThen (act (Execute w t command args)) (ret True))
         else ret False))"

definition startEvent :: "pipelineType \<Rightarrow> string \<Rightarrow> unit rop" where
  "startEvent ptype command =
     (case ptype of
        PlugCommand \<Rightarrow> if command \<noteq> ''_init'' then act (Emit CommandTaskRan) else ret ()
      | PlugMessage \<Rightarrow> act (Emit AmbientTaskRan)
      | CatchAll \<Rightarrow> act (Emit CatchAllTaskRan)
      | JobTrigger \<Rightarrow> act (Emit TriggeredTaskRan)
      | SpawnedTask \<Rightarrow> act (Emit SpawnedTaskRan)
      | Scheduled \<Rightarrow> act (Emit ScheduledTaskRan)
      | InitJob \<Rightarrow> act (Emit ScheduledTaskRan)
      | JobCommand \<Rightarrow> act (Emit JobTaskRan)
      | _ \<Rightarrow> ret ())"

text \<open>Run an operation as another worker and come back.\<close>

definition asWorker :: "worker \<Rightarrow> 'a rop \<Rightarrow> 'a rop" where
  "asWorker w m s = (case m (s\<lparr>rsWorker := w\<rparr>) of (r, u) \<Rightarrow> (r, u\<lparr>rsWorker := rsWorker s\<rparr>))"

type_synonym startFn = "taskObj \<Rightarrow> pipelineType \<Rightarrow> string \<Rightarrow> string list \<Rightarrow> TaskRetVal rop"

text \<open>A job that is not the first task runs as a child pipeline.\<close>

definition runTask ::
    "callFn \<Rightarrow> startFn \<Rightarrow> pipelineType \<Rightarrow> nat \<Rightarrow> string \<Rightarrow> taskObj \<Rightarrow> string \<Rightarrow> string list \<Rightarrow> (TaskRetVal \<times> string) rop" where
  "runTask call start ptype i errString t command args =
     (if jobOf t \<noteq> None \<and> i \<noteq> 0 then
        bindOp (reads rsWorker) (\<lambda>w. bindOp clone (\<lambda>child.
          bindOp (asWorker (inheritChildJobProtocol w child) (start t ptype command args)) (\<lambda>r. ret (r, errString))))
      else bindOp (call t command args) (\<lambda>(e, r). ret (r, e)))"

datatype control = Stop "TaskRetVal \<times> string" | Continue nat "TaskSpec list" "TaskRetVal \<times> string"

definition abortText :: string where
  "abortText = ''Pipeline aborted, exclusive lock failed''"

definition abortResult :: "taskObj \<Rightarrow> string \<Rightarrow> TaskRetVal \<times> string" where
  "abortResult t errString = (PipelineAborted, if pluginOf t = None then abortText else errString)"

text \<open>What the queueing after a task led to.\<close>

datatype queued = NotQueued | Acquired | Woken | GivenUp

definition joinRunQueue :: "pipeEnv \<Rightarrow> queued rop" where
  "joinRunQueue pe =
     andThen (modifyPipe (\<lambda>c. c\<lparr>pcQueueTask := False, pcExclusive := True\<rparr>))
       (andThen (modifyOp (\<lambda>s. s\<lparr>rsRunQueues := peOthers pe (rsCalls s) (rsRunQueues s)\<rparr>))
         (bindOp (reads (\<lambda>s. (pcExclusiveTag (wPipe (rsWorker s)), rsNextChan s))) (\<lambda>(tag, ch).
           bindOp (reads (\<lambda>s. joinQueue (rsRunQueues s) tag ch)) (\<lambda>(waits, q).
             andThen (modifyOp (\<lambda>s. s\<lparr>rsRunQueues := q\<rparr>))
               (if \<not> waits then ret Acquired
                else andThen (modifyOp (\<lambda>s. s\<lparr>rsNextChan := Suc ch\<rparr>))
                  (bindOp (reads (\<lambda>s. peWait pe ch (rsRunQueues s))) (\<lambda>(woken, q'). andThen
                    (modifyOp (\<lambda>s. s\<lparr>rsRunQueues := q'\<rparr>))
                  (if woken then andThen (modifyPipe (\<lambda>c. c\<lparr>pcNextTasks := []\<rparr>)) (ret Woken)
                   else andThen (modifyOp (\<lambda>s. s\<lparr>rsRunQueues := removeExclusiveWaiter tag ch (rsRunQueues s)\<rparr>))
                     (andThen (modifyPipe (\<lambda>c. c\<lparr>pcExclusive := False\<rparr>)) (ret GivenUp))))))))))"

text \<open>Tasks added by the task that just ran are appended, or run at once when others come after it.\<close>

definition addedTasks ::
    "(pipeStage \<Rightarrow> (TaskRetVal \<times> string) rop) \<Rightarrow> pipeStage \<Rightarrow> taskObj \<Rightarrow> nat \<Rightarrow> nat \<Rightarrow> TaskSpec list \<Rightarrow>
     TaskRetVal \<times> string \<Rightarrow> control rop" where
  "addedTasks nested stage t i next p r =
     bindOp (reads (\<lambda>s. pcNextTasks (wPipe (rsWorker s)))) (\<lambda>more.
       if stage \<noteq> PrimaryTasks \<or> more = [] then ret (Continue next p r)
       else bindOp (if i = length p - 1 then ret (p @ more, r)
                    else bindOp (nested stage) (\<lambda>r'. ret (p, r'))) (\<lambda>(q, r').
              andThen (modifyPipe (\<lambda>c. c\<lparr>pcNextTasks := []\<rparr>))
                (bindOp (reads (\<lambda>s. pcAbortPipeline (wPipe (rsWorker s)))) (\<lambda>aborted.
                   if aborted then ret (Stop (abortResult t (snd r')))
                   else if fst r' \<noteq> Normal then ret (Stop r')
                   else ret (Continue next q r')))))"

definition afterTask ::
    "pipeEnv \<Rightarrow> (pipeStage \<Rightarrow> (TaskRetVal \<times> string) rop) \<Rightarrow> pipeStage \<Rightarrow> taskObj \<Rightarrow> nat \<Rightarrow> TaskSpec list \<Rightarrow>
     TaskRetVal \<times> string \<Rightarrow> control rop" where
  "afterTask pe nested stage t i p r =
     andThen (if stage = FinalTasks \<and> fst r \<noteq> Normal
              then modifyPipe (\<lambda>c. c\<lparr>pcFinalFailed := pcFinalFailed c @ [tkName (taskOf t)]\<rparr>) else ret ())
       (if stage = PrimaryTasks \<and> fst r \<noteq> Normal then ret (Stop r)
        else bindOp (reads (\<lambda>s. wPipe (rsWorker s))) (\<lambda>c.
          if \<not> pcExclusive c \<and> pcAbortPipeline c then ret (Stop (abortResult t (snd r)))
          else bindOp (if \<not> pcExclusive c \<and> pcQueueTask c then joinRunQueue pe else ret NotQueued) (\<lambda>q.
            case q of
              GivenUp \<Rightarrow> ret (Stop (PipelineAborted, ''Pipeline aborted, exclusive wait canceled''))
            | Woken \<Rightarrow> addedTasks nested stage t i i p r
            | _ \<Rightarrow> addedTasks nested stage t i (Suc i) p r)))"

definition iteration ::
    "pipeEnv \<Rightarrow> callFn \<Rightarrow> startFn \<Rightarrow> (pipeStage \<Rightarrow> (TaskRetVal \<times> string) rop) \<Rightarrow> pipeStage \<Rightarrow> pipelineType \<Rightarrow>
     bool \<Rightarrow> nat \<Rightarrow> TaskSpec list \<Rightarrow> TaskRetVal \<times> string \<Rightarrow> control rop" where
  "iteration pe call start nested stage ptype first i p r =
     (let ts = p ! i; command = tsCommand ts; args = tsArguments ts in
      bindOp (getTaskOf (tsTask ts)) (\<lambda>t.
        andThen (modifyPipe (showTask t command args))
          (bindOp (clearTask call t command args) (\<lambda>ok.
            if \<not> ok then ret (Stop (Fail, snd r))
            else andThen (if first then startEvent ptype command else ret ())
              (andThen (if stage = PrimaryTasks \<and> i = 0
                        then modifyPipe (\<lambda>c. c\<lparr>pcExecutedPrimaryTask := True\<rparr>) else ret ())
                (bindOp (runTask call start ptype i (snd r) t command args) (\<lambda>r'.
                   afterTask pe nested stage t i p r')))))))"

subsection \<open>The whole pipeline\<close>

fun taskRetName :: "TaskRetVal \<Rightarrow> string" where
  "taskRetName Normal = ''Normal''"
| "taskRetName Fail = ''Fail''"
| "taskRetName MechanismFail = ''MechanismFail''"
| "taskRetName ConfigurationError = ''ConfigurationError''"
| "taskRetName PipelineAborted = ''PipelineAborted''"
| "taskRetName RobotStopping = ''RobotStopping''"
| "taskRetName NotFound = ''NotFound''"
| "taskRetName Success = ''Success''"
| "taskRetName (OtherStatus n) = ''TaskRetVal('' @ fmtInt n @ '')''"

fun taskRetInt :: "TaskRetVal \<Rightarrow> int" where
  "taskRetInt Normal = 0"
| "taskRetInt Fail = 1"
| "taskRetInt MechanismFail = 2"
| "taskRetInt ConfigurationError = 3"
| "taskRetInt PipelineAborted = 4"
| "taskRetInt RobotStopping = 5"
| "taskRetInt NotFound = 6"
| "taskRetInt Success = 7"
| "taskRetInt (OtherStatus n) = n"

definition finalValues :: "pipeContext \<Rightarrow> pipeContext" where
  "finalValues c =
     c\<lparr>pcEnvironment := optEnv (pcTaskType c = ''plugin'') ''GOPHER_FINAL_COMMAND'' (pcPlugCommand c)
        ((pcEnvironment c)(''GOPHER_FINAL_TASK'' \<mapsto> pcTaskName c, ''GOPHER_FINAL_TYPE'' \<mapsto> pcTaskType c,
          ''GOPHER_FINAL_ARGS'' \<mapsto> joinWith '' '' (pcTaskArgs c), ''GOPHER_FINAL_DESC'' \<mapsto> pcTaskDesc c))\<rparr>"

text \<open>A job that fails without fail tasks of its own reports the tail of its log.\<close>

definition defaultFailTasks :: "taskList \<Rightarrow> pipeContext \<Rightarrow> TaskRetVal \<Rightarrow> TaskSpec list" where
  "defaultFailTasks lst c r =
     [\<lparr>tsName = ''send-message'', tsCommand = ''run'',
       tsArguments = [''pipeline failed in task '' @ pcTaskName c @ '' with exit code '' @ fmtInt (taskRetInt r) @
                        '' ('' @ taskRetName r @ ''); log excerpt:''],
       tsTask = getTaskByName lst ''send-message''\<rparr>,
      \<lparr>tsName = ''tail-log'', tsCommand = ''run'', tsArguments = [], tsTask = getTaskByName lst ''tail-log''\<rparr>]"

definition failValues :: "taskObj \<Rightarrow> taskList \<Rightarrow> TaskRetVal \<Rightarrow> pipeContext \<Rightarrow> pipeContext" where
  "failValues t lst r c =
     (if r = Normal then c
      else c\<lparr>pcFailTasks := (case jobOf t of
                 Some job \<Rightarrow> if \<not> jbQuiet job \<and> pcFailTasks c = [] then defaultFailTasks lst c r else pcFailTasks c
               | None \<Rightarrow> pcFailTasks c),
             pcEnvironment := (pcEnvironment c)(''GOPHER_FAIL_CODE'' \<mapsto> fmtInt (taskRetInt r),
                                                ''GOPHER_FAIL_STRING'' \<mapsto> taskRetName r)\<rparr>)"

definition releaseExclusive :: "unit rop" where
  "releaseExclusive = modifyOp (\<lambda>s. let c = wPipe (rsWorker s) in
     if pcExclusive c then s\<lparr>rsRunQueues := snd (finishExclusive (rsRunQueues s) (pcExclusiveTag c))\<rparr> else s)"

text \<open>The stages of a registered pipeline, and its end.\<close>

definition endPipeline :: "taskObj \<Rightarrow> TaskRetVal \<times> string \<Rightarrow> TaskRetVal rop" where
  "endPipeline t res =
     bindOp (reads rsWorker) (\<lambda>w.
       andThen (if pluginOf t \<noteq> None \<and> fst res \<noteq> Normal \<and> \<not> wAutomaticTask w \<and> snd res \<noteq> []
                then act (Reply (snd res)) else ret ())
         (andThen releaseExclusive (andThen deregister (ret (fst res)))))"

definition runStage ::
    "(pipeStage \<Rightarrow> bool \<Rightarrow> pipelineType \<Rightarrow> (TaskRetVal \<times> string) rop) \<Rightarrow> pipeStage \<Rightarrow> pipelineType \<Rightarrow> bool \<Rightarrow> unit rop" where
  "runStage run stage ptype wanted =
     (if wanted then bindOp (run stage False ptype) (\<lambda>_. ret ()) else ret ())"

definition pipelineStages ::
    "(pipeStage \<Rightarrow> bool \<Rightarrow> pipelineType \<Rightarrow> (TaskRetVal \<times> string) rop) \<Rightarrow> taskObj \<Rightarrow> pipelineType \<Rightarrow> TaskRetVal rop" where
  "pipelineStages run t ptype =
     bindOp (run PrimaryTasks True ptype) (\<lambda>res.
       andThen (modifyPipe finalValues)
         (andThen (bindOp (reads (\<lambda>s. wTasks (rsWorker s))) (\<lambda>lst. modifyPipe (failValues t lst (fst res))))
           (bindOp (reads (\<lambda>s. wPipe (rsWorker s))) (\<lambda>c.
             andThen (runStage run FinalTasks ptype (pcFinalTasks c \<noteq> []))
               (andThen (runStage run FailTasks ptype (fst res \<noteq> Normal \<and> pcFailTasks c \<noteq> []))
                 (endPipeline t res))))))"

definition startBody ::
    "(pipeStage \<Rightarrow> bool \<Rightarrow> pipelineType \<Rightarrow> (TaskRetVal \<times> string) rop) \<Rightarrow> startFn" where
  "startBody run t ptype command args =
     bindOp (reads rsShuttingDown) (\<lambda>down.
       if down \<and> tkName (taskOf t) \<noteq> ''builtin-admin'' then ret RobotStopping
       else if \<not> gated t then fail NilTask
       else andThen (modifyWorker (\<lambda>w. newPipeline w t ptype command args))
              (andThen registerActive (pipelineStages run t ptype)))"

text \<open>
  The loop of a stage and the start of a pipeline call each other; the first argument bounds how often,
  and how deep calls for elevation go. \<open>fst\<close> is the loop of \<open>runPipeline\<close>, \<open>snd\<close> is \<open>startPipeline\<close>.
\<close>

type_synonym loopFn =
  "pipeStage \<Rightarrow> pipelineType \<Rightarrow> bool \<Rightarrow> nat \<Rightarrow> TaskSpec list \<Rightarrow> TaskRetVal \<times> string \<Rightarrow> (TaskRetVal \<times> string) rop"

definition stageRun :: "loopFn \<Rightarrow> pipeStage \<Rightarrow> bool \<Rightarrow> pipelineType \<Rightarrow> (TaskRetVal \<times> string) rop" where
  "stageRun loop stage initialRun ptype =
     bindOp (takeTasks stage) (\<lambda>p. loop stage ptype initialRun 0 p (Normal, []))"

definition loopBody :: "pipeEnv \<Rightarrow> callFn \<Rightarrow> loopFn \<Rightarrow> startFn \<Rightarrow> loopFn" where
  "loopBody pe call loop start stage ptype first i p r =
     (if i \<ge> length p then ret r
      else bindOp (iteration pe call start (\<lambda>st. stageRun loop st False ptype) stage ptype first i p r) (\<lambda>c.
        case c of Stop r' \<Rightarrow> ret r' | Continue j q r' \<Rightarrow> loop stage ptype False j q r'))"

primrec engine :: "pipeEnv \<Rightarrow> nat \<Rightarrow> loopFn \<times> startFn" where
  "engine pe 0 = ((\<lambda>stage ptype first i p r. fail OutOfFuel), (\<lambda>t ptype command args. fail OutOfFuel))"
| "engine pe (Suc n) =
     (loopBody pe (callTask (peHost pe) (peCode pe) n) (fst (engine pe n)) (snd (engine pe n)),
      startBody (stageRun (fst (engine pe n))))"

definition runLoop :: "pipeEnv \<Rightarrow> nat \<Rightarrow> loopFn" where
  "runLoop pe n = fst (engine pe n)"

definition startPipeline :: "pipeEnv \<Rightarrow> nat \<Rightarrow> startFn" where
  "startPipeline pe n = snd (engine pe n)"

definition runPipeline :: "pipeEnv \<Rightarrow> nat \<Rightarrow> pipeStage \<Rightarrow> bool \<Rightarrow> pipelineType \<Rightarrow> (TaskRetVal \<times> string) rop" where
  "runPipeline pe n = stageRun (runLoop pe n)"

lemma engine_simps [simp]:
  "runLoop pe 0 stage ptype first i p r = fail OutOfFuel"
  "runLoop pe (Suc n) = loopBody pe (callTask (peHost pe) (peCode pe) n) (runLoop pe n) (startPipeline pe n)"
  "startPipeline pe 0 t ptype command args = fail OutOfFuel"
  "startPipeline pe (Suc n) = startBody (runPipeline pe n)"
  by (simp_all add: runLoop_def startPipeline_def runPipeline_def)

subsection \<open>No task runs without its checks\<close>

definition traceSafe :: "action list \<Rightarrow> bool" where
  "traceSafe tr \<longleftrightarrow> (\<forall>pre w t command args post. tr = pre @ Execute w t command args # post \<longrightarrow>
     gated t \<and> \<not> wAutomaticTask w \<longrightarrow> passed t command args w pre)"

text \<open>The user behind a worker, and what else a pipeline leaves alone.\<close>

definition sameUser :: "worker \<Rightarrow> worker \<Rightarrow> bool" where
  "sameUser w w' \<longleftrightarrow> wUser w' = wUser w \<and> wListedUser w' = wListedUser w \<and> wAutomaticTask w' = wAutomaticTask w \<and>
     wCfg w' = wCfg w \<and> cmValidatedUser (wIncoming w') = cmValidatedUser (wIncoming w)"

definition sameRole :: "worker \<Rightarrow> worker \<Rightarrow> bool" where
  "sameRole w w' \<longleftrightarrow> sameUser w w' \<and> wIsCommand w' = wIsCommand w \<and> wBotUser w' = wBotUser w \<and>
     cmSelfMessage (wIncoming w') = cmSelfMessage (wIncoming w) \<and> wTasks w' = wTasks w"

fun ranBy :: "worker \<Rightarrow> action \<Rightarrow> bool" where
  "ranBy w (Execute w' t command args) = sameUser w w'"
| "ranBy w a = True"

definition addedBy :: "worker \<Rightarrow> robotState \<Rightarrow> robotState \<Rightarrow> bool" where
  "addedBy w s s' \<longleftrightarrow> (\<exists>tr. rsTrace s' = rsTrace s @ tr \<and> list_all (ranBy w) tr)"

definition pipeStep :: "robotState \<Rightarrow> robotState \<Rightarrow> bool" where
  "pipeStep s s' \<longleftrightarrow> addedBy (rsWorker s) s s' \<and> samePerson (rsWorker s) (rsWorker s') \<and>
     (traceSafe (rsTrace s) \<and> elevatedOk s \<longrightarrow> traceSafe (rsTrace s') \<and> elevatedOk s')"

definition growStep :: "robotState \<Rightarrow> robotState \<Rightarrow> bool" where
  "growStep s s' \<longleftrightarrow> addedBy (rsWorker s) s s' \<and> sameRole (rsWorker s) (rsWorker s') \<and>
     (traceSafe (rsTrace s) \<longrightarrow> traceSafe (rsTrace s'))"

lemma sameUser_refl [simp]: "sameUser w w"
  by (simp add: sameUser_def)

lemma sameRole_refl [simp]: "sameRole w w"
  by (simp add: sameRole_def)

lemma sameRole_trans: "sameRole a b \<Longrightarrow> sameRole b c \<Longrightarrow> sameRole a c"
  by (simp add: sameRole_def sameUser_def)

lemma samePerson_sameRole: "samePerson w w' \<Longrightarrow> sameRole w w'"
proof -
  assume "samePerson w w'"
  then have w: "w = w'\<lparr>wPipe := wPipe w\<rparr>" by (simp add: samePerson_def)
  show ?thesis unfolding sameRole_def sameUser_def by (intro conjI) (subst w, simp)+
qed

lemma ranBy_sameUser: "sameUser w w' \<Longrightarrow> ranBy w' a \<Longrightarrow> ranBy w a"
  by (cases a) (simp_all add: sameUser_def)

lemma addedBy_refl: "addedBy w s s"
  by (simp add: addedBy_def)

lemma addedBy_trans:
  assumes "addedBy w s t" "addedBy w' t u" "sameUser w w'"
  shows "addedBy w s u"
proof -
  obtain a b where "rsTrace t = rsTrace s @ a" "list_all (ranBy w) a" "rsTrace u = rsTrace t @ b" "list_all (ranBy w') b"
    using assms(1,2) by (auto simp: addedBy_def)
  moreover from this have "list_all (ranBy w) b" using ranBy_sameUser [OF assms(3)] by (auto simp: list_all_iff)
  ultimately show ?thesis by (simp add: addedBy_def)
qed

lemma addedBy_quiet: "\<not> list_ex isExecute tr \<Longrightarrow> list_all (ranBy w) tr"
proof (induction tr)
  case (Cons a tr)
  then show ?case by (cases a) simp_all
qed simp

lemma addedByI: "rsTrace s' = rsTrace s @ tr \<Longrightarrow> \<not> list_ex isExecute tr \<Longrightarrow> addedBy w s s'"
  using addedBy_quiet unfolding addedBy_def by blast

lemma traceSafe_Nil [simp]: "traceSafe []"
  by (simp add: traceSafe_def)

lemma traceSafe_snoc:
  "traceSafe (xs @ [x]) \<longleftrightarrow> traceSafe xs \<and>
     (\<forall>w t command args. x = Execute w t command args \<and> gated t \<and> \<not> wAutomaticTask w \<longrightarrow> passed t command args w xs)"
  (is "?l \<longleftrightarrow> ?r")
proof
  assume ?l
  then show ?r unfolding traceSafe_def by (metis append.assoc append_Cons append_Nil)
next
  assume r: ?r
  show ?l unfolding traceSafe_def
  proof (intro allI impI)
    fix pre w t command args post
    assume eq: "xs @ [x] = pre @ Execute w t command args # post" and g: "gated t \<and> \<not> wAutomaticTask w"
    show "passed t command args w pre"
    proof (cases post rule: rev_cases)
      case Nil
      then show ?thesis using eq g r by auto
    next
      case (snoc ys y)
      then have "xs = pre @ Execute w t command args # ys" using eq by auto
      then show ?thesis using r g unfolding traceSafe_def by blast
    qed
  qed
qed

lemma traceSafe_quiet: "\<not> list_ex isExecute tr \<Longrightarrow> traceSafe (xs @ tr) \<longleftrightarrow> traceSafe xs"
proof (induction tr rule: rev_induct)
  case (snoc x tr)
  then show ?case using traceSafe_snoc [of "xs @ tr" x] by auto
qed simp

lemma good_pipe: "goodStep s s' \<Longrightarrow> pipeStep s s'"
  unfolding goodStep_def pipeStep_def using traceSafe_quiet addedByI by metis

lemma pipe_grow: "pipeStep s s' \<Longrightarrow> elevatedOk s \<Longrightarrow> growStep s s'"
  unfolding pipeStep_def growStep_def using samePerson_sameRole by blast

interpretation pipe: step_relation pipeStep
proof
  fix s t u assume st: "pipeStep s t" "pipeStep t u"
  then have "samePerson (rsWorker s) (rsWorker u)" unfolding pipeStep_def using samePerson_trans by blast
  moreover have "sameUser (rsWorker s) (rsWorker t)"
    using st samePerson_sameRole unfolding pipeStep_def sameRole_def by blast
  then have "addedBy (rsWorker s) s u" using st addedBy_trans unfolding pipeStep_def by blast
  ultimately show "pipeStep s u" using st unfolding pipeStep_def by blast
qed (simp add: pipeStep_def addedBy_refl)

interpretation grow: step_relation growStep
proof
  fix s t u assume st: "growStep s t" "growStep t u"
  then have "sameUser (rsWorker s) (rsWorker t)" unfolding growStep_def sameRole_def by blast
  then have "addedBy (rsWorker s) s u" using st addedBy_trans unfolding growStep_def by blast
  then show "growStep s u" using st sameRole_trans unfolding growStep_def by blast
qed (simp add: growStep_def addedBy_refl)

lemma pipes: "moves m \<Longrightarrow> within pipeStep m"
  by (auto simp: within_def intro: good_pipe)

context task_caller
begin

lemma pipe_clearTask: "within pipeStep (clearTask call t command args)"
  unfolding within_def
proof
  fix s :: robotState
  let ?m = "if gated t \<and> \<not> wAutomaticTask (rsWorker s) then securityChecks call t command args else ret True"
  have g: "goodStep s (snd (?m s))"
    using moves_securityChecks [of t command args] good.step_ret [of True] by (simp add: within_def)
  show "pipeStep s (snd (clearTask call t command args s))"
  proof (cases "?m s")
    case (Pair r u)
    show ?thesis
    proof (cases "r = Inr True")
      case True
      let ?v = "u\<lparr>rsTrace := rsTrace u @ [Execute (rsWorker u) t command args]\<rparr>"
      have su: "pipeStep s u" using g Pair good_pipe by simp
      have same: "samePerson (rsWorker s) (rsWorker u)" using su by (simp add: pipeStep_def)
      have "passed t command args (rsWorker u) (rsTrace u)"
        if "elevatedOk s" "gated t" "\<not> wAutomaticTask (rsWorker u)"
        using securityChecks_ok [of t command args s u] that Pair True samePerson_fields(5) [OF same] by simp
      then have "traceSafe (rsTrace ?v) \<and> elevatedOk ?v" if "traceSafe (rsTrace s)" "elevatedOk s"
        using that su by (auto simp: pipeStep_def traceSafe_snoc elevatedOk_def)
      moreover have "sameUser (rsWorker s) (rsWorker u)" using samePerson_sameRole [OF same] by (simp add: sameRole_def)
      then have "addedBy (rsWorker s) s ?v" using su by (auto simp: pipeStep_def addedBy_def)
      ultimately have "pipeStep s ?v" using su same by (simp add: pipeStep_def)
      then show ?thesis using Pair True by (simp add: clearTask_def bindOp_def andThen_def ret_def reads_def)
    next
      case False
      have "snd (clearTask call t command args s) = u"
        using Pair False by (cases r) (auto simp: clearTask_def bindOp_def ret_def reads_def)
      then show ?thesis using g Pair good_pipe by simp
    qed
  qed
qed

end

lemma asWorker_step:
  assumes "growStep (s\<lparr>rsWorker := w\<rparr>) (snd (m (s\<lparr>rsWorker := w\<rparr>)))" "sameUser (rsWorker s) w"
  shows "pipeStep s (snd (asWorker w m s))"
proof -
  obtain r u where m: "m (s\<lparr>rsWorker := w\<rparr>) = (r, u)" by fastforce
  then have g: "growStep (s\<lparr>rsWorker := w\<rparr>) u" using assms(1) by simp
  then obtain tr where tr: "rsTrace u = rsTrace s @ tr" "list_all (ranBy w) tr" by (auto simp: growStep_def addedBy_def)
  then have "elevatedOk s \<longrightarrow> elevatedOk (u\<lparr>rsWorker := rsWorker s\<rparr>)" by (auto simp: elevatedOk_def)
  moreover have "list_all (ranBy (rsWorker s)) tr" using tr(2) ranBy_sameUser [OF assms(2)] by (auto simp: list_all_iff)
  ultimately show ?thesis using g m tr by (auto simp: asWorker_def pipeStep_def growStep_def addedBy_def)
qed

lemma clone_user: "clone s = (Inr w, s') \<Longrightarrow> sameUser (rsWorker s) w \<and> rsWorker s' = rsWorker s"
  by (cases "getWorkerID s") (auto simp: clone_def andThen_def ret_def fail_def sameUser_def)

text \<open>A child pipeline is run by the user of its parent.\<close>

lemma pipe_child:
  assumes "\<And>s. growStep s (snd (m s))"
  shows "within pipeStep (bindOp (reads rsWorker) (\<lambda>w. bindOp clone (\<lambda>child.
    bindOp (asWorker (inheritChildJobProtocol w child) m) (\<lambda>r. ret (r, e)))))"
  unfolding within_def
proof
  fix s
  obtain r u where c: "clone s = (r, u)" by fastforce
  then have su: "pipeStep s u" using pipes [OF moves_clone] by (rule withinD [rotated])
  show "pipeStep s (snd (bindOp (reads rsWorker) (\<lambda>w. bindOp clone (\<lambda>child.
    bindOp (asWorker (inheritChildJobProtocol w child) m) (\<lambda>r. ret (r, e)))) s))"
  proof (cases r)
    case (Inl x)
    then show ?thesis using su c by (simp add: bindOp_def [where m = clone])
  next
    case (Inr child)
    let ?w = "inheritChildJobProtocol (rsWorker s) child"
    have "sameUser (rsWorker u) ?w"
      using clone_user [of s child u] c Inr by (simp add: inheritChildJobProtocol_def Let_def sameUser_def)
    then have "pipeStep u (snd (asWorker ?w m u))" using assms by (intro asWorker_step)
    then have "pipeStep s (snd (asWorker ?w m u))" using su pipe.step_trans by blast
    then have "pipeStep s (snd (bindOp (asWorker ?w m) (\<lambda>r. ret (r, e)) u))"
      by (auto simp: bindOp_def ret_def split: prod.splits sum.splits)
    then show ?thesis using c Inr by (simp add: bindOp_def [where m = clone])
  qed
qed

lemma pipe_modifyPipe: "(\<And>c. pcElevated (f c) = pcElevated c) \<Longrightarrow> within pipeStep (modifyPipe f)"
  by (intro pipes moves_modifyPipe)

lemma moves_joinRunQueue [moves_intro]: "moves (joinRunQueue pe)"
  unfolding joinRunQueue_def by (intro moves_intro) simp_all

lemma moves_startEvent [moves_intro]: "moves (startEvent ptype command)"
  unfolding startEvent_def by (cases ptype; simp only: pipelineType.case; intro moves_intro)

lemma moves_takeTasks: "moves (takeTasks stage)"
  unfolding takeTasks_def by (cases stage) (simp_all, (intro moves_intro; simp)+)

lemma pipe_addedTasks:
  "(\<And>st. within pipeStep (nested st)) \<Longrightarrow> within pipeStep (addedTasks nested stage t i j p r)"
  unfolding addedTasks_def
  by (intro pipe.step_rules pipe_modifyPipe) simp_all

lemma pipe_afterTask:
  assumes "\<And>st. within pipeStep (nested st)"
  shows "within pipeStep (afterTask pe nested stage t i p r)"
proof -
  have q: "within pipeStep (case q of NotQueued \<Rightarrow> addedTasks nested stage t i (Suc i) p r
     | Acquired \<Rightarrow> addedTasks nested stage t i (Suc i) p r | Woken \<Rightarrow> addedTasks nested stage t i i p r
     | GivenUp \<Rightarrow> ret (Stop (PipelineAborted, ''Pipeline aborted, exclusive wait canceled'')))" for q
    using assms by (cases q) (simp_all add: pipe_addedTasks pipe.step_ret)
  show ?thesis unfolding afterTask_def
    by (intro pipe.step_rules pipe_modifyPipe q pipes [OF moves_joinRunQueue]) simp
qed

context task_caller
begin

lemma pipe_iteration:
  assumes "\<And>st. within pipeStep (nested st)"
    and "\<And>t ptype command args s. growStep s (snd (start t ptype command args s))"
  shows "within pipeStep (iteration pe call start nested stage ptype first i p r)"
proof -
  have run: "within pipeStep (runTask call start ptype i e t command args)" for i e t command args
    unfolding runTask_def
    by (intro within_if pipe_child assms(2) pipe.step_bind pipes [OF call_good] pipe.step_rules)
  show ?thesis unfolding iteration_def Let_def
    by (intro pipe.step_rules pipe_modifyPipe pipe_clearTask run pipe_afterTask assms(1)
        pipes [OF moves_startEvent] pipes [OF moves_small(4)]) (simp_all add: showTask_def)
qed

end

lemma pipe_stageRun:
  "(\<And>stage ptype first i p r. within pipeStep (loop stage ptype first i p r)) \<Longrightarrow>
   within pipeStep (stageRun loop stage ini ptype)"
  unfolding stageRun_def by (intro pipe.step_bind pipes [OF moves_takeTasks])

lemma pipe_stages:
  assumes "\<And>stage ini ptype. within pipeStep (run stage ini ptype)"
  shows "within pipeStep (pipelineStages run t ptype)"
  unfolding pipelineStages_def endPipeline_def runStage_def deregister_def releaseExclusive_def
  by (intro pipe.step_rules pipe_modifyPipe assms pipes [OF moves_act] pipes [OF moves_modifyOp])
     (simp_all add: finalValues_def failValues_def Let_def)

lemma then_modify [simp]: "andThen (modifyOp f) m s = m (f s)"
  by (simp add: andThen_def)

lemma pipe_startBody:
  assumes "\<And>stage ini ptype. within pipeStep (run stage ini ptype)"
  shows "growStep s (snd (startBody run t ptype command args s))"
proof -
  let ?w = "newPipeline (rsWorker s) t ptype command args"
  let ?s = "s\<lparr>rsWorker := withIdentifiers (rsMaps s) ?w, rsActive := wId ?w # rsActive s\<rparr>"
  have "elevatedOk ?s"
    by (simp add: elevatedOk_def withIdentifiers_def newPipeline_def jobPipe_def basePipe_def emptyPipe_def Let_def)
  then have "growStep ?s (snd (pipelineStages run t ptype ?s))"
    by (intro pipe_grow withinD [of pipeStep, OF pipe_stages [of run, OF assms] surjective_pairing])
  moreover have "sameRole (rsWorker s) (rsWorker ?s)"
    by (simp add: sameRole_def sameUser_def withIdentifiers_def newPipeline_def jobWorker_def Let_def)
  ultimately have "growStep s (snd (pipelineStages run t ptype ?s))"
    using grow.step_trans [of s ?s] by (simp add: growStep_def addedBy_def)
  then show ?thesis
    using grow.step_refl [of s] by (simp add: startBody_def registerActive_def modifyWorker_def ret_def fail_def)
qed

lemma engine_steps:
  "within pipeStep (runLoop pe n stage ptype first i p r) \<and>
   growStep s (snd (startPipeline pe n t ptype' command args s))"
proof (induction n arbitrary: stage ptype first i p r s t ptype' command args)
  case 0
  show ?case by (simp add: pipe.step_fail) (simp add: fail_def grow.step_refl)
next
  case (Suc n)
  have loop: "within pipeStep (runLoop pe n stage ptype first i p r)" for stage ptype first i p r
    using Suc by blast
  have start: "growStep s (snd (startPipeline pe n t ptype command args s))" for s t ptype command args
    using Suc by blast
  have run: "within pipeStep (stageRun (runLoop pe n) stage ini ptype)" for stage ini ptype
    using loop by (rule pipe_stageRun)
  have "within pipeStep (runLoop pe (Suc n) stage ptype first i p r)"
    unfolding engine_simps loopBody_def
  proof (intro within_if pipe.step_ret pipe.step_bind)
    show "within pipeStep (iteration pe (callTask (peHost pe) (peCode pe) n) (startPipeline pe n)
        (\<lambda>st. stageRun (runLoop pe n) st False ptype) stage ptype first i p r)"
      by (rule task_caller.pipe_iteration [OF callTask_caller run start])
  next
    fix c show "within pipeStep (case c of Stop r' \<Rightarrow> ret r' | Continue j q r' \<Rightarrow> runLoop pe n stage ptype False j q r')"
      using loop by (cases c) (simp_all add: pipe.step_ret)
  qed
  moreover have "growStep s (snd (startPipeline pe (Suc n) t ptype' command args s))"
    unfolding engine_simps runPipeline_def using run by (rule pipe_startBody)
  ultimately show ?case by blast
qed

text \<open>C2. whatever the code of the tasks does, a job or plugin runs in a pipeline of a user only after
  its checks: an administrator when it asks for one, a private context when the command needs it and
  only commands that allow it, a call of the authorizer with exactly this task, command and arguments
  that returned Success when authorization is needed, and a successful call of an elevator in the same
  pipeline when elevation is needed. Child pipelines are included.\<close>

theorem pipeline_gate:
  assumes "rsTrace s = []"
    and "rsTrace (snd (startPipeline pe n t ptype command args s)) = pre @ Execute w t' command' args' # post"
    and "gated t'" "\<not> wAutomaticTask w"
  shows "passed t' command' args' w pre"
proof -
  have "growStep s (snd (startPipeline pe n t ptype command args s))" using engine_steps by blast
  then have "traceSafe (rsTrace (snd (startPipeline pe n t ptype command args s)))"
    using assms(1) by (simp add: growStep_def)
  then show ?thesis using assms(2-4) unfolding traceSafe_def by blast
qed

subsection \<open>Clean-up stages\<close>

text \<open>The tasks a trace shows as run, in order.\<close>

fun executed :: "action list \<Rightarrow> (taskObj \<times> string \<times> string list) list" where
  "executed [] = []"
| "executed (Execute w t command args # tr) = (t, command, args) # executed tr"
| "executed (_ # tr) = executed tr"

text \<open>Code that leaves the pipeline alone: it adds no tasks, takes no lock and asks for no elevation.\<close>

fun harmless :: "apiCall \<Rightarrow> bool" where
  "harmless (ApiPipe flavor ptype name args) = False"
| "harmless (ApiExclusive tag q) = False"
| "harmless (ApiElevate imm) = False"
| "harmless c = True"

primrec plainProg :: "prog \<Rightarrow> bool" where
  "plainProg (Finish x) = True"
| "plainProg (Do c k) = (harmless c \<and> (\<forall>r. plainProg (k r)))"

definition pcFlags :: "pipeContext \<Rightarrow> bool \<times> bool \<times> bool \<times> TaskSpec list" where
  "pcFlags c = (pcExclusive c, pcQueueTask c, pcAbortPipeline c, pcNextTasks c)"

definition calmStep :: "robotState \<Rightarrow> robotState \<Rightarrow> bool" where
  "calmStep s s' \<longleftrightarrow> pcFlags (wPipe (rsWorker s')) = pcFlags (wPipe (rsWorker s)) \<and>
     executed (rsTrace s') = executed (rsTrace s) \<and> rsRunQueues s' = rsRunQueues s"

definition returns :: "'a rop \<Rightarrow> bool" where
  "returns m \<longleftrightarrow> (\<forall>s. \<exists>x s'. m s = (Inr x, s'))"

lemma executed_append [simp]: "executed (xs @ ys) = executed xs @ executed ys"
  by (induction xs rule: executed.induct) auto

interpretation calm: step_relation calmStep
  by unfold_locales (auto simp: calmStep_def)

lemma calm_act: "\<not> isExecute a \<Longrightarrow> within calmStep (act a)"
  by (cases a) (simp_all add: within_def calmStep_def)

lemma calm_modifyPipe: "(\<And>c. pcFlags (f c) = pcFlags c) \<Longrightarrow> within calmStep (modifyPipe f)"
  by (simp add: within_def calmStep_def modifyPipe_def modifyWorker_def modifyOp_def)

lemma returns_bind:
  assumes "returns m" "\<And>x. returns (k x)"
  shows "returns (bindOp m k)"
  unfolding returns_def
proof
  fix s
  obtain x t where m: "m s = (Inr x, t)" using assms(1) unfolding returns_def by blast
  obtain y u where "k x t = (Inr y, u)" using assms(2) unfolding returns_def by blast
  then show "\<exists>y u. bindOp m k s = (Inr y, u)" using m by (simp add: bindOp_def)
qed

lemma returns_then: "returns m \<Longrightarrow> returns n \<Longrightarrow> returns (andThen m n)"
  by (simp add: andThen_def returns_bind)

lemma returns_prims:
  "returns (ret x)" "returns (reads f)" "returns (act a)" "returns (modifyPipe g)" "returns (modifyOp h)"
  by (simp_all add: returns_def ret_def modifyPipe_def modifyWorker_def modifyOp_def)

lemma returns_if: "returns m \<Longrightarrow> returns n \<Longrightarrow> returns (if b then m else n)"
  by simp

lemma returns_prod: "(\<And>a b. returns (f a b)) \<Longrightarrow> returns (case x of (a, b) \<Rightarrow> f a b)"
  by (cases x) auto

lemmas returns_rules = returns_prims returns_bind returns_then

lemma calm_api:
  assumes "harmless c"
  shows "within calmStep (apiStep call r c) \<and> returns (apiStep call r c)"
  using assms
proof (cases c)
  case (ApiSetParameter name v)
  have "within calmStep (modifyPipe (\<lambda>c. snd (setParameter name v c)))"
    by (rule calm_modifyPipe) (simp add: setParameter_def pcFlags_def)
  then show ?thesis unfolding ApiSetParameter apiStep_def apiCall.case
    by (intro conjI calm.step_rules returns_rules)
next
  case ApiCheckAdmin
  have "within calmStep checkAdmin"
    unfolding checkAdmin_def by (intro calm.step_rules calm_act) simp_all
  moreover have "returns checkAdmin"
    unfolding checkAdmin_def by (auto simp: returns_def ret_def)
  ultimately show ?thesis unfolding ApiCheckAdmin apiStep_def apiCall.case
    by (intro conjI calm.step_rules returns_rules)
qed (auto simp: apiStep_def intro!: calm.step_rules returns_rules calm_act)

lemma calm_runProg:
  "plainProg p \<Longrightarrow> (\<And>c. harmless c \<Longrightarrow> within calmStep (h c) \<and> returns (h c)) \<Longrightarrow>
   within calmStep (runProg h p) \<and> returns (runProg h p)"
  by (induction p) (auto intro!: calm.step_rules returns_rules)

lemma returns_unit: "returns (m :: unit rop) \<Longrightarrow> \<exists>t. m s = (Inr (), t)"
  by (simp add: returns_def)

lemma returns_pair: "returns m \<Longrightarrow> \<exists>a b t. m s = (Inr (a, b), t)"
  by (simp add: returns_def)

lemma catchNil_returns: "returns m \<Longrightarrow> catchNil m h = m"
proof
  fix s assume "returns m"
  then obtain x t where "m s = (Inr x, t)" unfolding returns_def by blast
  then show "catchNil m h s = m s" by (simp add: catchNil_def)
qed

lemma calm_countCall: "within calmStep countCall" "returns countCall"
  unfolding countCall_def
  by (intro calm.step_rules; simp add: within_def calmStep_def modifyOp_def) (intro returns_rules)

lemma calm_events:
  "within calmStep (ranEvent kind t command p)" "within calmStep (endEvent kind x)"
  "returns (ranEvent kind t command p)" "returns (endEvent kind x)"
  unfolding ranEvent_def endEvent_def
  by (auto intro!: calm.step_rules calm_act returns_rules split: prog.split extResult.split)

lemma calm_callBody:
  assumes "\<And>n kind t args env. plainProg (code n kind t args env)"
  shows "within calmStep (callBody ho code call t command args) \<and> returns (callBody ho code call t command args)"
proof -
  have run: "within calmStep (runProg (apiStep call r) (code n kind t a e)) \<and> returns (runProg (apiStep call r) (code n kind t a e))"
    for r n kind t a e
    using assms calm_api by (intro calm_runProg) auto
  then have c: "within calmStep (runProg (apiStep call r) (code n kind t a e))"
    and ret: "returns (runProg (apiStep call r) (code n kind t a e))" for r n kind t a e
    by blast+
  have "within calmStep (callBody ho code call t command args)"
    unfolding callBody_def runCode_def Let_def catchNil_returns [OF ret] setCurrentTask_def if_cancel
    by (intro calm.step_rules calm_modifyPipe calm_countCall calm_events calm_act c) (simp_all add: pcFlags_def)
  moreover have "returns (callBody ho code call t command args)"
    unfolding callBody_def runCode_def Let_def catchNil_returns [OF ret] setCurrentTask_def if_cancel
    by (intro returns_rules returns_if returns_prod calm_countCall calm_events ret)
  ultimately show ?thesis ..
qed

lemma calm_callTask:
  assumes "\<And>n kind t args env. plainProg (code n kind t args env)"
  shows "within calmStep (callTask ho code (Suc n) t command args)" "returns (callTask ho code (Suc n) t command args)"
  using calm_callBody [OF assms] by simp_all

definition noPending :: "pipeContext \<Rightarrow> bool" where
  "noPending c \<longleftrightarrow> pcExclusive c \<or> \<not> pcAbortPipeline c \<and> \<not> pcQueueTask c"

definition plainSpec :: "TaskSpec \<Rightarrow> bool" where
  "plainSpec ts \<longleftrightarrow> (case tsTask ts of Some (TaskObj k) \<Rightarrow> True | _ \<Rightarrow> False)"

definition specRun :: "TaskSpec \<Rightarrow> taskObj \<times> string \<times> string list" where
  "specRun ts = (the (tsTask ts), tsCommand ts, tsArguments ts)"

lemma noPending_flags: "pcFlags c = pcFlags d \<Longrightarrow> noPending c = noPending d"
  by (simp add: pcFlags_def noPending_def)

lemma returns_startEvent: "returns (startEvent ptype command)"
  by (cases ptype) (simp_all add: startEvent_def returns_prims)

lemma cleanup_iteration:
  assumes calm: "\<And>t command args. within calmStep (call t command args)" "\<And>t command args. returns (call t command args)"
    and stage: "stage \<noteq> PrimaryTasks" and plain: "plainSpec (p ! i)" and ok: "noPending (wPipe (rsWorker s))"
  shows "\<exists>r' s'. iteration pe call start nested stage ptype first i p r s = (Inr (Continue (Suc i) p r'), s') \<and>
     executed (rsTrace s') = executed (rsTrace s) @ [specRun (p ! i)] \<and> noPending (wPipe (rsWorker s'))"
proof -
  obtain k where k: "tsTask (p ! i) = Some (TaskObj k)" using plain
    by (auto simp: plainSpec_def split: option.splits taskObj.splits)
  let ?t = "TaskObj k" and ?c = "tsCommand (p ! i)" and ?a = "tsArguments (p ! i)"
  obtain s1 where s1: "modifyPipe (showTask ?t ?c ?a) s = (Inr (), s1)" and f1: "calmStep s s1"
    using calm_modifyPipe [of "showTask ?t ?c ?a"] by (auto simp: within_def showTask_def pcFlags_def modifyPipe_def modifyWorker_def modifyOp_def)
  let ?s2 = "s1\<lparr>rsTrace := rsTrace s1 @ [Execute (rsWorker s1) ?t ?c ?a]\<rparr>"
  have s2: "clearTask call ?t ?c ?a s1 = (Inr True, ?s2)"
    by (simp add: clearTask_def gated_def ret_def)
  let ?ev = "if first then startEvent ptype ?c else ret ()"
  have ev: "within calmStep ?ev" unfolding startEvent_def
    by (cases ptype; simp only: pipelineType.case; intro calm.step_rules calm_act; simp)
  have ev': "returns ?ev" by (simp add: returns_startEvent returns_prims)
  obtain s3 where s3: "?ev ?s2 = (Inr (), s3)" using returns_unit [OF ev'] by blast
  obtain e v s4 where s4: "call ?t ?c ?a s3 = (Inr (e, v), s4)" using returns_pair [OF calm(2)] by blast
  have f3: "calmStep ?s2 s3" using ev s3 by (rule withinD)
  have f4: "calmStep s3 s4" using calm(1) s4 by (rule withinD)
  let ?s5 = "if stage = FinalTasks \<and> v \<noteq> Normal
     then s4\<lparr>rsWorker := (rsWorker s4)\<lparr>wPipe := (wPipe (rsWorker s4))\<lparr>pcFinalFailed := pcFinalFailed (wPipe (rsWorker s4)) @ [tkName k]\<rparr>\<rparr>\<rparr>
     else s4"
  have flags: "pcFlags (wPipe (rsWorker s4)) = pcFlags (wPipe (rsWorker s))"
    using f1 f3 f4 by (simp add: calmStep_def)
  then have pend: "noPending (wPipe (rsWorker ?s5))"
    using ok noPending_flags [OF flags] by (simp add: noPending_def)
  have "afterTask pe nested stage ?t i p (v, e) s4 = (Inr (Continue (Suc i) p (v, e)), ?s5)"
    using pend stage
    by (auto simp: afterTask_def addedTasks_def andThen_def bindOp_def modifyPipe_def modifyWorker_def modifyOp_def
        ret_def noPending_def reads_def)
  then have "iteration pe call start nested stage ptype first i p r s = (Inr (Continue (Suc i) p (v, e)), ?s5)"
    using k s1 s2 s3 s4 stage
    by (simp add: iteration_def Let_def getTaskOf_def andThen_def bindOp_def runTask_def ret_def)
  moreover have "executed (rsTrace ?s5) = executed (rsTrace s) @ [specRun (p ! i)]"
    using f1 f3 f4 k by (simp add: calmStep_def specRun_def)
  ultimately show ?thesis using pend by blast
qed

lemma cleanup_loop:
  assumes "\<And>n kind t args env. plainProg (peCode pe n kind t args env)" "stage \<noteq> PrimaryTasks"
    "list_all plainSpec p" "noPending (wPipe (rsWorker s))" "i \<le> length p"
  shows "\<exists>r' s'. runLoop pe (Suc (length p - i) + n + 1) stage ptype first i p r s = (Inr r', s') \<and>
     executed (rsTrace s') = executed (rsTrace s) @ map specRun (drop i p)"
  using assms(4,5)
proof (induction "length p - i" arbitrary: i s first r)
  case 0
  then show ?case by (simp add: loopBody_def ret_def)
next
  case (Suc m)
  then have i: "i < length p" by simp
  have calm: "within calmStep (callTask (peHost pe) (peCode pe) (Suc m + n + 1) t command args)"
    "returns (callTask (peHost pe) (peCode pe) (Suc m + n + 1) t command args)" for t command args
    using calm_callTask [where code = "peCode pe" and n = "Suc (m + n)", OF assms(1)] by (simp_all only: add_Suc add_Suc_right One_nat_def add_0_right)
  have spec: "plainSpec (p ! i)" using assms(3) i by (simp add: list_all_length)
  obtain r' s' where it: "iteration pe (callTask (peHost pe) (peCode pe) (Suc m + n + 1)) (startPipeline pe (Suc m + n + 1))
       (\<lambda>st. stageRun (runLoop pe (Suc m + n + 1)) st False ptype) stage ptype first i p r s = (Inr (Continue (Suc i) p r'), s')"
    and ex: "executed (rsTrace s') = executed (rsTrace s) @ [specRun (p ! i)]" and pend: "noPending (wPipe (rsWorker s'))"
    using cleanup_iteration [of "callTask (peHost pe) (peCode pe) (Suc m + n + 1)", OF calm assms(2) spec Suc.prems(1)]
    by blast
  have "m = length p - Suc i" using Suc by simp
  from Suc.hyps(1) [OF this pend] i obtain r'' s'' where
    "runLoop pe (Suc m + n + 1) stage ptype False (Suc i) p r' s' = (Inr r'', s'')"
    "executed (rsTrace s'') = executed (rsTrace s') @ map specRun (drop (Suc i) p)"
    using Suc.hyps(2) by (metis Suc_leI \<open>m = length p - Suc i\<close>)
  moreover have "drop i p = p ! i # drop (Suc i) p" using i by (simp add: Cons_nth_drop_Suc)
  ultimately show ?case using it ex i Suc.hyps(2) [symmetric]
    by (simp add: loopBody_def bindOp_def)
qed

text \<open>
  C37. A clean-up stage runs all its tasks, in order, whatever each returns, and ends, when its tasks are
  simple ones (no plugins or jobs, which are checked and can be refused) whose code leaves the pipeline
  alone, and nothing is pending from the primary stage: a pending abort or a wait for an exclusive lock
  ends the stage after its first task. Fuel for one turn per task and two more is enough.
\<close>

theorem cleanup_runs_all:
  assumes "\<And>n kind t args env. plainProg (peCode pe n kind t args env)"
    and "stage \<noteq> PrimaryTasks" "list_all plainSpec p" "noPending (wPipe (rsWorker s))" "n \<ge> length p + 2"
  shows "\<exists>r' s'. runLoop pe n stage ptype first 0 p r s = (Inr r', s') \<and>
     executed (rsTrace s') = executed (rsTrace s) @ map specRun p"
proof -
  have "Suc (length p - 0) + (n - length p - 2) + 1 = n" using assms(5) by simp
  with cleanup_loop [OF assms(1-4), of 0 "n - length p - 2" ptype first r] show ?thesis
    by (simp only: drop_0 le0 simp_thms)
qed

text \<open>a clean-up stage can be cut short: when a job or plugin in it is refused by its checks, here
  for want of an administrator, the stage ends there and no later task of it runs.\<close>

theorem refusal_ends_stage:
  assumes "i < length p" "tsTask (p ! i) = Some t" "gated t" "adminRequired t (tsCommand (p ! i))"
    and "\<not> adminOk (rsWorker s)"
  shows "\<exists>s'. runLoop pe (Suc n) stage ptype first i p r s = (Inr (Fail, snd r), s') \<and>
    executed (rsTrace s') = executed (rsTrace s)"
proof -
  let ?t = "tsCommand (p ! i)"
  let ?s1 = "s\<lparr>rsWorker := (rsWorker s)\<lparr>wPipe := showTask t ?t (tsArguments (p ! i)) (wPipe (rsWorker s))\<rparr>\<rparr>"
  have auto: "\<not> wAutomaticTask (rsWorker s)" using assms(5) by (simp add: adminOk_def)
  obtain s2 where s2: "adminGate t ?t ?s1 = (Inr False, s2)" and e: "executed (rsTrace s2) = executed (rsTrace s)"
    using assms(4,5)
    by (auto simp: adminGate_def checkAdmin_def adminOk_def bindOp_def reads_def ret_def andThen_def)
  then have "clearTask call t ?t (tsArguments (p ! i)) ?s1 = (Inr False, s2)" for call
    using assms(3) auto by (simp add: clearTask_def securityChecks_def whenOk_def bindOp_def ret_def reads_def)
  then have "iteration pe call start nested stage ptype first i p r s = (Inr (Stop (Fail, snd r)), s2)" for call start nested
    using assms(2)
    by (simp add: iteration_def Let_def getTaskOf_def bindOp_def andThen_def ret_def modifyPipe_def
        modifyWorker_def modifyOp_def)
  then show ?thesis using assms(1) e by (simp add: loopBody_def bindOp_def ret_def)
qed

text \<open>a task that asked to be queued for a lock is run again when it waited for it, but not when the
  lock became free before the task ended: then the pipeline takes the lock and goes on with the next task.\<close>

theorem queued_task_not_rerun:
  assumes "\<not> pcExclusive (wPipe (rsWorker s))" "pcQueueTask (wPipe (rsWorker s))"
    "\<not> pcAbortPipeline (wPipe (rsWorker s))" "pcNextTasks (wPipe (rsWorker s)) = []" "fst r = Normal"
    and q: "q = peOthers pe (rsCalls s) (rsRunQueues s)" and tag: "tag = pcExclusiveTag (wPipe (rsWorker s))"
  shows "\<exists>nxt s'. afterTask pe nested stage t i p r s = (Inr nxt, s') \<and>
    (q tag = None \<longrightarrow> nxt = Continue (Suc i) p r \<and> pcExclusive (wPipe (rsWorker s')) \<and> rsRunQueues s' tag = Some []) \<and>
    (q tag \<noteq> None \<and> fst (peWait pe (rsNextChan s) (snd (joinQueue q tag (rsNextChan s)))) \<longrightarrow>
       nxt = Continue i p r \<and> pcExclusive (wPipe (rsWorker s')))"
proof -
  obtain w q' where wait: "peWait pe (rsNextChan s) (snd (joinQueue q tag (rsNextChan s))) = (w, q')" by fastforce
  show ?thesis
  proof (cases "q tag")
    case None
    then show ?thesis using assms
      by (simp add: afterTask_def joinRunQueue_def addedTasks_def andThen_def bindOp_def modifyPipe_def modifyWorker_def
          modifyOp_def ret_def reads_def joinQueue_def)
  next
    case (Some queue)
    then show ?thesis using assms wait
      by (cases w) (simp_all add: afterTask_def joinRunQueue_def addedTasks_def andThen_def bindOp_def modifyPipe_def
          modifyWorker_def modifyOp_def ret_def reads_def joinQueue_def)
  qed
qed

text \<open>An elevator name that no task has makes the request for elevation panic.\<close>

lemma missing_elevator_panics:
  assumes "tkElevator task \<noteq> []" "getTaskByName (wTasks (rsWorker s)) (tkElevator task) = None"
  shows "elevate call current task immediate s = (Inl NilTask, s)"
  using assms by (simp add: elevate_def getTaskOf_def fail_def)

subsection \<open>Concrete runs\<close>

definition demoAdmin :: Plugin where
  "demoAdmin = demoPlugin\<lparr>plTask := demoTask\<lparr>tkName := ''deploy'', tkType := TaskGo, tkRequireAdmin := True\<rparr>\<rparr>"

definition demoJob :: Job where
  "demoJob = \<lparr>jbTask = demoTask\<lparr>tkName := ''backup'', tkChannel := ''jobs''\<rparr>, jbQuiet = True, jbKeepLogs = 0,
     jbTriggers = [], jbArguments = []\<rparr>"

definition demoEnv :: pipeEnv where
  "demoEnv = \<lparr>peHost = demoHost, peCode = (\<lambda>n kind t args env. Finish (ExtRet Normal)),
     peOthers = (\<lambda>n q. q), peWait = (\<lambda>ch q. (True, q))\<rparr>"

definition demoMaps :: userChanMaps where
  "demoMaps = \<lparr>umUserIDProto = (\<lambda>_ _. None), umDirectoryUser = [''alice'' \<mapsto> True], umUserBot = (\<lambda>_. None),
     umUserProto = (\<lambda>_ _. None), umChannelID = (\<lambda>_. None), umChannel = (\<lambda>_. None),
     umChannelIDProto = (\<lambda>_ _. None), umChannelProto = (\<lambda>_ _. None)\<rparr>"

definition demoState :: robotState where
  "demoState = \<lparr>rsWorker = demoWorker, rsTrace = [], rsRunQueues = (\<lambda>_. None), rsNextChan = 0, rsWorkerIdx = 1,
     rsActive = [], rsShuttingDown = False, rsCalls = 0, rsSpawned = [], rsAuthSeq = 0,
     rsHiddenSupported = (\<lambda>_. False), rsHiddenHint = (\<lambda>_. []),
     rsMaps = demoMaps\<rparr>"

definition demoAdminState :: robotState where
  "demoAdminState = demoState\<lparr>rsWorker := demoWorker\<lparr>wCfg := (wCfg demoWorker)\<lparr>cfAdminUsers := [''alice'']\<rparr>\<rparr>\<rparr>"

definition demoSpec :: "taskObj \<Rightarrow> TaskSpec" where
  "demoSpec t = \<lparr>tsName = tkName (taskOf t), tsCommand = ''run'', tsArguments = [], tsTask = Some t\<rparr>"

definition demoGated :: "action \<Rightarrow> bool" where
  "demoGated a = (case a of Execute w t command args \<Rightarrow> gated t \<and> \<not> wAutomaticTask w \<and> adminRequired t command | _ \<Rightarrow> False)"

theorem pipeline_gate_witness:
  "\<exists>pre w t command args post.
     rsTrace (snd (startPipeline demoEnv 6 (PluginObj demoAdmin) PlugCommand ''run'' [] demoAdminState)) =
       pre @ Execute w t command args # post \<and> adminRequired t command \<and> passed t command args w pre"
proof -
  let ?tr = "rsTrace (snd (startPipeline demoEnv 6 (PluginObj demoAdmin) PlugCommand ''run'' [] demoAdminState))"
  have "list_ex demoGated ?tr" by code_simp
  then obtain a where "a \<in> set ?tr" and a: "demoGated a" by (auto simp: list_ex_iff)
  then obtain pre post where tr: "?tr = pre @ a # post" by (meson split_list)
  obtain w t command args where e: "a = Execute w t command args" "gated t" "\<not> wAutomaticTask w" "adminRequired t command"
    using a by (auto simp: demoGated_def split: action.splits)
  have "passed t command args w pre"
    by (rule pipeline_gate [OF _ tr [unfolded e(1)] e(2,3)]) (simp add: demoAdminState_def demoState_def)
  then show ?thesis using tr e by blast
qed

theorem cleanup_runs_all_witness:
  "\<exists>r' s'. runLoop demoEnv 4 FinalTasks PlugCommand False 0 [demoSpec (TaskObj demoTask), demoSpec (TaskObj demoTask)] (Fail, []) demoState = (Inr r', s') \<and>
     executed (rsTrace s') = executed (rsTrace demoState) @ map specRun [demoSpec (TaskObj demoTask), demoSpec (TaskObj demoTask)]"
  by (rule cleanup_runs_all) (simp_all add: demoEnv_def demoSpec_def plainSpec_def demoState_def demoWorker_def demoPipe_def noPending_def)

theorem refusal_ends_stage_witness:
  "\<exists>s'. runLoop demoEnv 5 FinalTasks PlugCommand False 0 [demoSpec (PluginObj demoAdmin), demoSpec (TaskObj demoTask)] (Normal, []) demoState =
       (Inr (Fail, []), s') \<and> executed (rsTrace s') = executed (rsTrace demoState)"
  using refusal_ends_stage [of 0 "[demoSpec (PluginObj demoAdmin), demoSpec (TaskObj demoTask)]" "PluginObj demoAdmin"
      demoState demoEnv 4 FinalTasks PlugCommand False "(Normal, [])"]
  by (simp add: demoSpec_def gated_def adminRequired_def demoAdmin_def adminOk_def demoState_def demoWorker_def)

definition demoQueued :: robotState where
  "demoQueued = demoState\<lparr>rsWorker := demoWorker\<lparr>wPipe := demoPipe\<lparr>pcQueueTask := True, pcExclusiveTag := ''backup:x''\<rparr>\<rparr>\<rparr>"

theorem queued_task_not_rerun_witness:
  "\<exists>nxt s'. afterTask demoEnv (\<lambda>_. ret (Normal, [])) PrimaryTasks (JobObj demoJob) 0 [demoSpec (JobObj demoJob)] (Normal, []) demoQueued =
       (Inr nxt, s') \<and> nxt = Continue 1 [demoSpec (JobObj demoJob)] (Normal, []) \<and> rsRunQueues s' ''backup:x'' = Some []"
proof -
  have "\<not> pcExclusive (wPipe (rsWorker demoQueued))" "pcQueueTask (wPipe (rsWorker demoQueued))"
    "\<not> pcAbortPipeline (wPipe (rsWorker demoQueued))" "pcNextTasks (wPipe (rsWorker demoQueued)) = []"
    by (simp_all add: demoQueued_def demoWorker_def demoPipe_def)
  moreover have "(\<lambda>_. None) = peOthers demoEnv (rsCalls demoQueued) (rsRunQueues demoQueued)"
    "''backup:x'' = pcExclusiveTag (wPipe (rsWorker demoQueued))"
    by (simp_all add: demoQueued_def demoEnv_def demoState_def demoWorker_def)
  ultimately obtain nxt s' where
    "afterTask demoEnv (\<lambda>_. ret (Normal, [])) PrimaryTasks (JobObj demoJob) 0 [demoSpec (JobObj demoJob)] (Normal, []) demoQueued = (Inr nxt, s')"
    "nxt = Continue (Suc 0) [demoSpec (JobObj demoJob)] (Normal, [])" "rsRunQueues s' ''backup:x'' = Some []"
    using queued_task_not_rerun [of demoQueued "(Normal, [])" "\<lambda>_. None" demoEnv "''backup:x''" "\<lambda>_. ret (Normal, [])" PrimaryTasks
        "JobObj demoJob" 0 "[demoSpec (JobObj demoJob)]"] by fastforce
  then show ?thesis by simp
qed

end
