(* ===== verification/Exclusive.thy ===== *)
theory Exclusive
  imports Calls
begin

text \<open>
  Exclusive locks with many pipelines at once (bot/exclusive.go, the queueing in \<open>runPipeline\<close>, the
  release in \<open>startPipeline\<close> and the interruption of a wait in bot/pipeline\_monitoring.go) as a step
  relation. Each step is one critical section of the code; the operations on the queues and on a
  pipeline are those of theory Calls. A pipeline is named by a number and keeps its pipeline context.
\<close>

subsection \<open>State and steps\<close>

record waiter =
  waTag :: string
  waCh :: nat
  waAbort :: bool

record lockState =
  lkQueues :: runQueues
  lkPipe :: "nat \<Rightarrow> pipeContext"
  lkWait :: "nat \<Rightarrow> waiter option"
  lkSent :: "nat set"
  lkNext :: nat
  lkDone :: "nat set"

definition initLocks :: lockState where
  "initLocks = \<lparr>lkQueues = (\<lambda>_. None), lkPipe = (\<lambda>_. emptyPipe), lkWait = (\<lambda>_. None), lkSent = {}, lkNext = 0, lkDone = {}\<rparr>"

definition running :: "lockState \<Rightarrow> nat \<Rightarrow> bool" where
  "running s i \<longleftrightarrow> lkWait s i = None \<and> i \<notin> lkDone s"

datatype lockLabel = Ask nat string bool bool | EndTask nat | Interrupt nat | Resume nat | Finish nat

inductive lockStep :: "lockState \<Rightarrow> lockLabel \<Rightarrow> lockState \<Rightarrow> bool" where
  ask: "running s i \<Longrightarrow> tag \<noteq> [] \<Longrightarrow> askLock isPlugin tag queue (lkQueues s) (lkPipe s i) = (ok, q, c) \<Longrightarrow>
    lockStep s (Ask i tag queue ok) (s\<lparr>lkQueues := q, lkPipe := (lkPipe s)(i := c)\<rparr>)"
| end_task: "running s i \<Longrightarrow> c = lkPipe s i \<Longrightarrow> \<not> pcExclusive c \<Longrightarrow> \<not> pcAbortPipeline c \<Longrightarrow> pcQueueTask c \<Longrightarrow>
    pcExclusiveTag c \<noteq> [] \<Longrightarrow> joinQueue (lkQueues s) (pcExclusiveTag c) (lkNext s) = (waits, q) \<Longrightarrow>
    lockStep s (EndTask i)
      (s\<lparr>lkQueues := q, lkPipe := (lkPipe s)(i := c\<lparr>pcQueueTask := False, pcExclusive := True\<rparr>),
         lkWait := (if waits then (lkWait s)(i \<mapsto> \<lparr>waTag = pcExclusiveTag c, waCh = lkNext s, waAbort = False\<rparr>) else lkWait s),
         lkNext := (if waits then Suc (lkNext s) else lkNext s)\<rparr>)"
| interrupt: "lkWait s i = Some w \<Longrightarrow>
    lockStep s (Interrupt i)
      (s\<lparr>lkWait := (lkWait s)(i \<mapsto> w\<lparr>waAbort := True\<rparr>), lkQueues := removeExclusiveWaiter (waTag w) (waCh w) (lkQueues s)\<rparr>)"
| resume_held: "lkWait s i = Some w \<Longrightarrow> \<not> waAbort w \<Longrightarrow> waCh w \<in> lkSent s \<Longrightarrow>
    lockStep s (Resume i)
      (s\<lparr>lkWait := (lkWait s)(i := None), lkPipe := (lkPipe s)(i := (lkPipe s i)\<lparr>pcNextTasks := []\<rparr>)\<rparr>)"
| resume_aborted: "lkWait s i = Some w \<Longrightarrow> waAbort w \<Longrightarrow>
    lockStep s (Resume i)
      (s\<lparr>lkWait := (lkWait s)(i := None), lkQueues := removeExclusiveWaiter (waTag w) (waCh w) (lkQueues s),
         lkPipe := (lkPipe s)(i := (lkPipe s i)\<lparr>pcExclusive := False\<rparr>)\<rparr>)"
| finish_held: "running s i \<Longrightarrow> pcExclusive (lkPipe s i) \<Longrightarrow>
    finishExclusive (lkQueues s) (pcExclusiveTag (lkPipe s i)) = (woken, q) \<Longrightarrow>
    lockStep s (Finish i)
      (s\<lparr>lkQueues := q, lkSent := (case woken of None \<Rightarrow> lkSent s | Some ch \<Rightarrow> insert ch (lkSent s)),
         lkDone := insert i (lkDone s)\<rparr>)"
| finish_free: "running s i \<Longrightarrow> \<not> pcExclusive (lkPipe s i) \<Longrightarrow> lockStep s (Finish i) (s\<lparr>lkDone := insert i (lkDone s)\<rparr>)"

inductive_cases lockStep_cases: "lockStep s l s'"
inductive_simps lockStep_interrupt: "lockStep s (Interrupt i) s'"

inductive lockRun :: "lockState \<Rightarrow> lockLabel list \<Rightarrow> lockState \<Rightarrow> bool" where
  run_nil: "lockRun s [] s"
| run_step: "lockRun s ls t \<Longrightarrow> lockStep t l u \<Longrightarrow> lockRun s (ls @ [l]) u"

text \<open>Who holds a lock, and who has been woken to take it.\<close>

definition holds :: "lockState \<Rightarrow> string \<Rightarrow> nat \<Rightarrow> bool" where
  "holds s tag i \<longleftrightarrow> running s i \<and> pcExclusive (lkPipe s i) \<and> pcExclusiveTag (lkPipe s i) = tag"

definition granted :: "lockState \<Rightarrow> string \<Rightarrow> nat \<Rightarrow> bool" where
  "granted s tag i \<longleftrightarrow> (\<exists>w. lkWait s i = Some w \<and> waTag w = tag \<and> waCh w \<in> lkSent s \<and> \<not> waAbort w)"

definition claims :: "lockState \<Rightarrow> string \<Rightarrow> nat \<Rightarrow> bool" where
  "claims s tag i \<longleftrightarrow> holds s tag i \<or> granted s tag i"

definition waitersOk :: "lockState \<Rightarrow> bool" where
  "waitersOk s \<longleftrightarrow>
     (\<forall>i w. lkWait s i = Some w \<longrightarrow> pcExclusive (lkPipe s i) \<and> pcExclusiveTag (lkPipe s i) = waTag w \<and>
        waTag w \<noteq> [] \<and> waCh w < lkNext s \<and> i \<notin> lkDone s) \<and>
     (\<forall>i j w v. lkWait s i = Some w \<and> lkWait s j = Some v \<and> waCh w = waCh v \<longrightarrow> i = j) \<and>
     (\<forall>ch \<in> lkSent s. ch < lkNext s)"

definition runQueuesOk :: "lockState \<Rightarrow> bool" where
  "runQueuesOk s \<longleftrightarrow> (\<forall>tag q. lkQueues s tag = Some q \<longrightarrow> distinct q \<and>
     (\<forall>ch \<in> set q. ch \<notin> lkSent s \<and> (\<exists>i w. lkWait s i = Some w \<and> waTag w = tag \<and> waCh w = ch)))"

definition locksOk :: "lockState \<Rightarrow> bool" where
  "locksOk s \<longleftrightarrow> waitersOk s \<and> runQueuesOk s \<and>
     (\<forall>tag i. claims s tag i \<longrightarrow> lkQueues s tag \<noteq> None) \<and>
     (\<forall>tag i j. claims s tag i \<and> claims s tag j \<longrightarrow> i = j)"

text \<open>A leaked lock: taken, and no pipeline is there to give it back.\<close>

definition leaked :: "lockState \<Rightarrow> string \<Rightarrow> bool" where
  "leaked s tag \<longleftrightarrow> lkQueues s tag \<noteq> None \<and> (\<forall>i. \<not> claims s tag i)"

lemma locks_init: "locksOk initLocks"
  by (simp add: locksOk_def waitersOk_def runQueuesOk_def claims_def holds_def granted_def initLocks_def emptyPipe_def)

subsection \<open>Steps keep the invariant\<close>

lemma remove_dom: "removeExclusiveWaiter tag ch q t = None \<longleftrightarrow> q t = None"
  by (simp add: removeExclusiveWaiter_def split: option.split)

lemma remove_Some:
  "removeExclusiveWaiter tag ch q t = Some qs \<Longrightarrow> \<exists>ps. q t = Some ps \<and> (qs = ps \<or> t = tag \<and> qs = remove1 ch ps)"
  by (auto simp: removeExclusiveWaiter_def split: if_splits option.splits)

lemma remove_removed: "tag \<noteq> [] \<Longrightarrow> removeExclusiveWaiter tag ch q tag = Some qs \<Longrightarrow> \<exists>ps. q tag = Some ps \<and> qs = remove1 ch ps"
  by (auto simp: removeExclusiveWaiter_def split: option.splits)

lemma finish_cases:
  "finishExclusive q tag = (woken, q') \<Longrightarrow>
   (woken = None \<and> q' = q(tag := None) \<and> (q tag = None \<or> q tag = Some [])) \<or>
   (\<exists>ch rest. woken = Some ch \<and> q tag = Some (ch # rest) \<and> q' = q(tag \<mapsto> rest))"
  by (auto simp: finishExclusive_def split: option.splits list.splits)

lemma waiters_step:
  assumes "lockStep s l s'" "waitersOk s" "runQueuesOk s"
  shows "waitersOk s'"
  using assms(1)
proof cases
  case (ask i tag isPlugin queue ok q c)
  then show ?thesis using assms(2) by (auto simp: waitersOk_def running_def)
next
  case (end_task i c waits q)
  then show ?thesis using assms(2) unfolding waitersOk_def running_def
    by (auto split: if_splits simp: less_Suc_eq) (metis less_irrefl)+
next
  case (interrupt i w)
  then show ?thesis using assms(2) unfolding waitersOk_def by (auto split: if_splits)
next
  case (resume_held i w)
  then show ?thesis using assms(2) unfolding waitersOk_def by (auto split: if_splits)
next
  case (resume_aborted i w)
  then show ?thesis using assms(2) unfolding waitersOk_def by (auto split: if_splits)
next
  case (finish_held i woken q)
  have "ch < lkNext s" if "woken = Some ch" for ch
  proof -
    from finish_cases [OF finish_held(5)] that obtain rest where
      "lkQueues s (pcExclusiveTag (lkPipe s i)) = Some (ch # rest)" by auto
    then obtain j w where "lkWait s j = Some w" "waCh w = ch" using assms(3) by (force simp: runQueuesOk_def)
    then show ?thesis using assms(2) by (auto simp: waitersOk_def)
  qed
  then show ?thesis using finish_held assms(2) unfolding waitersOk_def running_def
    by (auto split: option.split)
next
  case (finish_free i)
  then show ?thesis using assms(2) by (auto simp: waitersOk_def running_def)
qed

lemma runQueuesOkD:
  assumes "runQueuesOk s" "lkQueues s tag = Some q"
  shows "distinct q" "ch \<in> set q \<Longrightarrow> ch \<notin> lkSent s"
    "ch \<in> set q \<Longrightarrow> \<exists>i w. lkWait s i = Some w \<and> waTag w = tag \<and> waCh w = ch"
  using assms unfolding runQueuesOk_def by blast+

lemma runQueuesOkI:
  assumes "\<And>tag q. lkQueues s tag = Some q \<Longrightarrow> distinct q"
    and "\<And>tag q ch. lkQueues s tag = Some q \<Longrightarrow> ch \<in> set q \<Longrightarrow> ch \<notin> lkSent s"
    and "\<And>tag q ch. lkQueues s tag = Some q \<Longrightarrow> ch \<in> set q \<Longrightarrow>
           \<exists>i w. lkWait s i = Some w \<and> waTag w = tag \<and> waCh w = ch"
  shows "runQueuesOk s"
  using assms unfolding runQueuesOk_def by blast

lemma waitersOkD:
  assumes "waitersOk s" "lkWait s i = Some w"
  shows "waTag w \<noteq> []" "waCh w < lkNext s" "i \<notin> lkDone s"
    "pcExclusive (lkPipe s i)" "pcExclusiveTag (lkPipe s i) = waTag w"
    "lkWait s j = Some v \<Longrightarrow> waCh w = waCh v \<Longrightarrow> i = j"
  using assms unfolding waitersOk_def by blast+

lemma queues_end_task:
  assumes ok: "waitersOk s" "runQueuesOk s" and run: "lkWait s i = None"
    and join: "joinQueue (lkQueues s) tag (lkNext s) = (waits, q)"
    and s': "lkQueues s' = q" "lkSent s' = lkSent s"
      "lkWait s' = (if waits then (lkWait s)(i \<mapsto> \<lparr>waTag = tag, waCh = lkNext s, waAbort = False\<rparr>) else lkWait s)"
  shows "runQueuesOk s'"
proof -
  have keep: "\<exists>j w. lkWait s' j = Some w \<and> waTag w = t \<and> waCh w = ch"
    if inq: "lkQueues s t = Some ps" "ch \<in> set ps" for t ps ch
  proof -
    obtain j w where "lkWait s j = Some w" "waTag w = t" "waCh w = ch" using runQueuesOkD(3) [OF ok(2) inq] by blast
    then have "lkWait s' j = Some w" using run s'(3) by auto
    then show ?thesis using \<open>waTag w = t\<close> \<open>waCh w = ch\<close> by blast
  qed
  have less: "ch < lkNext s" if "lkQueues s t = Some ps" "ch \<in> set ps" for t ps ch
    using runQueuesOkD(3) [OF ok(2) that] waitersOkD(2) [OF ok(1)] by blast
  have sent: "lkNext s \<notin> lkSent s" using ok(1) by (auto simp: waitersOk_def)
  show ?thesis
  proof (cases "lkQueues s tag")
    case None
    then have q: "q = (lkQueues s)(tag \<mapsto> [])" using join by (simp add: joinQueue_def)
    show ?thesis
    proof (rule runQueuesOkI)
      fix t ps assume "lkQueues s' t = Some ps"
      then have c: "lkQueues s t = Some ps \<or> ps = []" using s'(1) q by (auto split: if_splits)
      then show "distinct ps" using runQueuesOkD(1) [OF ok(2)] by auto
      fix ch assume ch: "ch \<in> set ps"
      then have old: "lkQueues s t = Some ps" using c by auto
      show "ch \<notin> lkSent s'" using runQueuesOkD(2) [OF ok(2) old ch] s'(2) by simp
      show "\<exists>i w. lkWait s' i = Some w \<and> waTag w = t \<and> waCh w = ch" using keep [OF old ch] .
    qed
  next
    case (Some queue)
    then have q: "q = (lkQueues s)(tag \<mapsto> queue @ [lkNext s])" and w: waits using join by (simp_all add: joinQueue_def)
    have new: "lkNext s \<notin> set queue" using less [OF Some] by blast
    have i: "lkWait s' i = Some \<lparr>waTag = tag, waCh = lkNext s, waAbort = False\<rparr>" using s'(3) w by simp
    show ?thesis
    proof (rule runQueuesOkI)
      fix t ps assume ps: "lkQueues s' t = Some ps"
      then have c: "t \<noteq> tag \<and> lkQueues s t = Some ps \<or> t = tag \<and> ps = queue @ [lkNext s]"
        using s'(1) q by (auto split: if_splits)
      then show "distinct ps" using runQueuesOkD(1) [OF ok(2)] Some new by auto
      fix ch assume ch: "ch \<in> set ps"
      show "ch \<notin> lkSent s'" using c ch runQueuesOkD(2) [OF ok(2)] Some sent s'(2) by auto
      show "\<exists>i w. lkWait s' i = Some w \<and> waTag w = t \<and> waCh w = ch"
      proof (cases "ch = lkNext s \<and> t = tag")
        case True
        then show ?thesis using i by force
      next
        case False
        then show ?thesis using c ch keep Some by auto
      qed
    qed
  qed
qed

lemma queues_step:
  assumes "lockStep s l s'" and ok: "waitersOk s" "runQueuesOk s"
  shows "runQueuesOk s'"
  using assms(1)
proof cases
  case (ask i tag isPlugin queue ok q c)
  then show ?thesis using assms(3) by (auto simp: runQueuesOk_def askLock_def split: if_splits)
next
  case (end_task i c waits q)
  show ?thesis
    by (rule queues_end_task [OF ok _ end_task(9)]) (use end_task in \<open>simp_all add: running_def\<close>)
next
  case (interrupt i w)
  show ?thesis
  proof (rule runQueuesOkI)
    fix t ps assume "lkQueues s' t = Some ps"
    then have rm: "removeExclusiveWaiter (waTag w) (waCh w) (lkQueues s) t = Some ps" using interrupt by simp
    then obtain old where old: "lkQueues s t = Some old" "ps = old \<or> ps = remove1 (waCh w) old"
      using remove_Some by blast
    then show "distinct ps" using runQueuesOkD(1) [OF ok(2)] by auto
    fix ch assume "ch \<in> set ps"
    then have ch: "ch \<in> set old" using old(2) set_remove1_subset by fastforce
    show "ch \<notin> lkSent s'" using interrupt runQueuesOkD(2) [OF ok(2) old(1) ch] by simp
    obtain j v where "lkWait s j = Some v" "waTag v = t" "waCh v = ch" using runQueuesOkD(3) [OF ok(2) old(1) ch] by blast
    then have "\<exists>v. lkWait s' j = Some v \<and> waTag v = t \<and> waCh v = ch" using interrupt by (cases "j = i") auto
    then show "\<exists>i w. lkWait s' i = Some w \<and> waTag w = t \<and> waCh w = ch" by blast
  qed
next
  case (resume_held i w)
  show ?thesis
  proof (rule runQueuesOkI)
    fix t ps assume "lkQueues s' t = Some ps"
    then have old: "lkQueues s t = Some ps" using resume_held by simp
    then show "distinct ps" using runQueuesOkD(1) [OF ok(2)] by auto
    fix ch assume ch: "ch \<in> set ps"
    show "ch \<notin> lkSent s'" using resume_held runQueuesOkD(2) [OF ok(2) old(1) ch] by simp
    obtain j v where "lkWait s j = Some v" "waTag v = t" "waCh v = ch" using runQueuesOkD(3) [OF ok(2) old(1) ch] by blast
    moreover have "j \<noteq> i" using resume_held calculation runQueuesOkD(2) [OF ok(2) old(1) ch] by auto
    ultimately have "lkWait s' j = Some v \<and> waTag v = t \<and> waCh v = ch" using resume_held by simp
    then show "\<exists>i w. lkWait s' i = Some w \<and> waTag w = t \<and> waCh w = ch" by blast
  qed
next
  case (resume_aborted i w)
  have tag: "waTag w \<noteq> []" using waitersOkD(1) [OF ok(1) resume_aborted(3)] .
  show ?thesis
  proof (rule runQueuesOkI)
    fix t ps assume "lkQueues s' t = Some ps"
    then have rm: "removeExclusiveWaiter (waTag w) (waCh w) (lkQueues s) t = Some ps" using resume_aborted by simp
    then obtain old where old: "lkQueues s t = Some old" "ps = old \<or> t = waTag w \<and> ps = remove1 (waCh w) old"
      using remove_Some by blast
    then show "distinct ps" using runQueuesOkD(1) [OF ok(2)] by auto
    fix ch assume chp: "ch \<in> set ps"
    then have ch: "ch \<in> set old" using old(2) set_remove1_subset by fastforce
    show "ch \<notin> lkSent s'" using resume_aborted runQueuesOkD(2) [OF ok(2) old(1) ch] by simp
    obtain j v where j: "lkWait s j = Some v" "waTag v = t" "waCh v = ch" using runQueuesOkD(3) [OF ok(2) old(1) ch] by blast
    have "j \<noteq> i"
    proof
      assume "j = i"
      then have v: "v = w" using j resume_aborted by simp
      then have "ps = remove1 ch old" using rm old(1) j tag remove_removed by fastforce
      then show False using chp runQueuesOkD(1) [OF ok(2) old(1)] by simp
    qed
    then have "lkWait s' j = Some v \<and> waTag v = t \<and> waCh v = ch" using resume_aborted j by simp
    then show "\<exists>i w. lkWait s' i = Some w \<and> waTag w = t \<and> waCh w = ch" by blast
  qed
next
  case (finish_held i woken q)
  let ?tag = "pcExclusiveTag (lkPipe s i)"
  have wait: "lkWait s' = lkWait s" using finish_held by simp
  from finish_cases [OF finish_held(5)] show ?thesis
  proof (elim disjE conjE exE)
    assume n: "woken = None" "q = (lkQueues s)(?tag := None)"
    have sent: "lkSent s' = lkSent s" using finish_held(2) n by simp
    have sub: "lkQueues s t = Some ps" if "lkQueues s' t = Some ps" for t ps
      using that finish_held(2) n by (auto split: if_splits)
    show ?thesis unfolding runQueuesOk_def wait sent using sub runQueuesOkD [OF ok(2)] by blast
  next
    assume n: "woken = None" "q = (lkQueues s)(?tag := None)"
    have sent: "lkSent s' = lkSent s" using finish_held(2) n by simp
    have sub: "lkQueues s t = Some ps" if "lkQueues s' t = Some ps" for t ps
      using that finish_held(2) n by (auto split: if_splits)
    show ?thesis unfolding runQueuesOk_def wait sent using sub runQueuesOkD [OF ok(2)] by blast
  next
    fix ch rest assume w: "woken = Some ch" "lkQueues s ?tag = Some (ch # rest)" "q = (lkQueues s)(?tag \<mapsto> rest)"
    have head: "\<exists>j v. lkWait s j = Some v \<and> waTag v = ?tag \<and> waCh v = ch" "ch \<notin> set rest" "distinct rest"
      using runQueuesOkD [OF ok(2) w(2)] by auto
    show ?thesis
    proof (rule runQueuesOkI)
      fix t ps assume "lkQueues s' t = Some ps"
      moreover have "lkQueues s' t = (if t = ?tag then Some rest else lkQueues s t)" using finish_held(2) w(3) by simp
      ultimately obtain old where old: "lkQueues s t = Some old" "set ps \<subseteq> set old" "t = ?tag \<longrightarrow> ps = rest" "distinct old \<longrightarrow> distinct ps"
        using w(2) by (cases "t = ?tag") auto
      then show "distinct ps" using runQueuesOkD(1) [OF ok(2)] by auto
      fix c assume c: "c \<in> set ps"
      obtain j v where j: "lkWait s j = Some v" "waTag v = t" "waCh v = c" using runQueuesOkD(3) [OF ok(2) old(1)] old(2) c by blast
      have "c \<noteq> ch"
      proof
        assume cc: "c = ch"
        obtain j' v' where j': "lkWait s j' = Some v'" "waTag v' = ?tag" "waCh v' = ch" using head(1) by blast
        then have "j' = j" using waitersOkD(6) [OF ok(1) j'(1) j(1)] j(3) cc by simp
        then have "t = ?tag" using j j' by simp
        then show False using old(3) c cc head(2) by simp
      qed
      then show "c \<notin> lkSent s'" using finish_held w runQueuesOkD(2) [OF ok(2) old(1)] old(2) c by auto
      show "\<exists>i w. lkWait s' i = Some w \<and> waTag w = t \<and> waCh w = c" using j wait by auto
    qed
  qed
next
  case (finish_free i)
  then show ?thesis using assms(3) by (auto simp: runQueuesOk_def)
qed

subsection \<open>Claims\<close>

text \<open>
  How a step changes who claims a lock: nobody new claims a lock that was taken, except a waiter woken
  by the holder that ends.
\<close>

lemma claims_ask:
  assumes "askLock isPlugin tag queue (lkQueues s) (lkPipe s i) = (ok, q, c)" "running s i"
    and s': "s' = s\<lparr>lkQueues := q, lkPipe := (lkPipe s)(i := c)\<rparr>" and cl: "claims s' t j"
  shows "claims s t j \<or> t = tag \<and> j = i \<and> lkQueues s tag = None \<and> q tag \<noteq> None"
  using assms(1,2) cl unfolding s'
  by (auto simp: claims_def holds_def granted_def running_def askLock_def split: if_splits)

lemma claims_end_task:
  assumes "joinQueue (lkQueues s) tag (lkNext s) = (waits, q)" "running s i" "waitersOk s"
    and s': "lkPipe s' = (lkPipe s)(i := c')" "pcExclusiveTag c' = tag" "lkDone s' = lkDone s" "lkSent s' = lkSent s"
      "lkWait s' = (if waits then (lkWait s)(i \<mapsto> \<lparr>waTag = tag, waCh = lkNext s, waAbort = False\<rparr>) else lkWait s)"
    and cl: "claims s' t j"
  shows "claims s t j \<or> t = tag \<and> j = i \<and> lkQueues s tag = None \<and> q tag \<noteq> None"
proof (cases "j = i")
  case False
  then show ?thesis using cl s' by (auto simp: claims_def holds_def granted_def running_def split: if_splits)
next
  case True
  have "lkNext s \<notin> lkSent s" using assms(3) by (auto simp: waitersOk_def)
  then have "\<not> waits" "t = tag" using cl s' True assms(2)
    by (auto simp: claims_def holds_def granted_def running_def split: if_splits)
  then show ?thesis using assms(1) True by (auto simp: joinQueue_def split: option.splits)
qed

lemma claims_finish:
  assumes fin: "finishExclusive (lkQueues s) tag = (woken, q)" and i: "holds s tag i" and ok: "waitersOk s" "runQueuesOk s"
    and s': "lkPipe s' = lkPipe s" "lkDone s' = insert i (lkDone s)" "lkWait s' = lkWait s"
      "lkSent s' = (case woken of None \<Rightarrow> lkSent s | Some ch \<Rightarrow> insert ch (lkSent s))"
    and cl: "claims s' t j"
  shows "j \<noteq> i \<and> (claims s t j \<or> t = tag \<and> (\<exists>w. lkWait s j = Some w \<and> woken = Some (waCh w)))"
proof -
  have ij: "j \<noteq> i"
  proof
    assume "j = i"
    then have "granted s' t i" using cl s' by (auto simp: claims_def holds_def running_def)
    then show False using i s' by (auto simp: granted_def holds_def running_def)
  qed
  show ?thesis
  proof (cases "claims s t j")
    case False
    then have "granted s' t j" using cl s' ij by (auto simp: claims_def holds_def running_def)
    then obtain w where w: "lkWait s j = Some w" "waTag w = t" "waCh w \<in> lkSent s'" "\<not> waAbort w"
      using s' by (auto simp: granted_def)
    then have "waCh w \<notin> lkSent s" using False by (auto simp: claims_def granted_def)
    then have wk: "woken = Some (waCh w)" using w(3) s'(4) by (auto split: option.splits)
    then obtain rest where "lkQueues s tag = Some (waCh w # rest)" using finish_cases [OF fin] by auto
    then obtain k v where "lkWait s k = Some v" "waTag v = tag" "waCh v = waCh w"
      using runQueuesOkD(3) [OF ok(2), of tag _ "waCh w"] by fastforce
    then have "t = tag" using waitersOkD(6) [OF ok(1) w(1), of k v] w by auto
    then show ?thesis using ij wk w(1) by blast
  qed (simp add: ij)
qed

fun actor :: "lockLabel \<Rightarrow> nat" where
  "actor (Ask i _ _ _) = i"
| "actor (EndTask i) = i"
| "actor (Interrupt i) = i"
| "actor (Resume i) = i"
| "actor (Finish i) = i"

definition takesOnly :: "lockState \<Rightarrow> nat \<Rightarrow> lockState \<Rightarrow> bool" where
  "takesOnly s i s' \<longleftrightarrow> (\<forall>t. (lkQueues s t \<noteq> None \<longrightarrow> lkQueues s' t \<noteq> None) \<and>
     (\<forall>j. claims s' t j \<longrightarrow> claims s t j \<or> j = i \<and> lkQueues s t = None \<and> lkQueues s' t \<noteq> None))"

definition handsOver :: "lockState \<Rightarrow> nat \<Rightarrow> lockState \<Rightarrow> bool" where
  "handsOver s i s' \<longleftrightarrow> (\<exists>tag woken. holds s tag i \<and> finishExclusive (lkQueues s) tag = (woken, lkQueues s') \<and>
     (\<forall>t j. claims s' t j \<longrightarrow> j \<noteq> i \<and> (claims s t j \<or> t = tag \<and> (\<exists>w. lkWait s j = Some w \<and> woken = Some (waCh w)))))"

lemma claims_change:
  assumes "lockStep s l s'" and ok: "waitersOk s" "runQueuesOk s"
  shows "takesOnly s (actor l) s' \<or> handsOver s (actor l) s'"
proof -
  have sub: ?thesis if "\<And>t j. claims s' t j \<Longrightarrow> claims s t j" "\<And>t. lkQueues s t \<noteq> None \<Longrightarrow> lkQueues s' t \<noteq> None"
    using that by (simp add: takesOnly_def)
  have new: ?thesis
    if c: "\<And>t j. claims s' t j \<Longrightarrow> claims s t j \<or> t = tag \<and> j = actor l \<and> lkQueues s tag = None \<and> lkQueues s' tag \<noteq> None"
      and k: "\<And>t. lkQueues s t \<noteq> None \<Longrightarrow> lkQueues s' t \<noteq> None" for tag
    unfolding takesOnly_def using c k by blast
  from assms(1) show ?thesis
  proof cases
    case (ask i tag isPlugin queue ok q c)
    have q': "lkQueues s' = q" using ask by simp
    show ?thesis
    proof (rule new)
      show "claims s t j \<or> t = tag \<and> j = actor l \<and> lkQueues s tag = None \<and> lkQueues s' tag \<noteq> None" if "claims s' t j" for t j
        using claims_ask [OF ask(5,3,2) that] q' ask(1) by simp
      show "lkQueues s' t \<noteq> None" if "lkQueues s t \<noteq> None" for t
        unfolding q' using that ask(5) by (auto simp: askLock_def split: if_splits)
    qed
  next
    case (end_task i c waits q)
    have q': "lkQueues s' = q" using end_task by simp
    show ?thesis
    proof (rule new)
      have a: "actor l = i" using end_task(1) by simp
      show "claims s t j \<or> t = pcExclusiveTag c \<and> j = actor l \<and> lkQueues s (pcExclusiveTag c) = None \<and>
          lkQueues s' (pcExclusiveTag c) \<noteq> None" if "claims s' t j" for t j
        unfolding q' a
        by (rule claims_end_task [OF end_task(9) end_task(3) ok(1), where s' = s' and c' = "c\<lparr>pcQueueTask := False, pcExclusive := True\<rparr>"])
           (use end_task that in simp_all)
      show "lkQueues s' t \<noteq> None" if "lkQueues s t \<noteq> None" for t
        unfolding q' using that end_task(9) by (auto simp: joinQueue_def split: option.splits if_splits)
    qed
  next
    case (interrupt i w)
    show ?thesis
    proof (rule sub)
      show "claims s t j" if "claims s' t j" for t j
        using that interrupt by (auto simp: claims_def holds_def granted_def running_def split: if_splits)
      show "lkQueues s' t \<noteq> None" if "lkQueues s t \<noteq> None" for t
        using that interrupt by (simp add: remove_dom)
    qed
  next
    case (resume_held i v)
    show ?thesis
    proof (rule sub)
      show "claims s t j" if "claims s' t j" for t j
      proof (cases "j = i")
        case True
        have "granted s (waTag v) i" using resume_held by (auto simp: granted_def)
        moreover have "t = waTag v"
          using that resume_held(2) True waitersOkD(5) [OF ok(1) resume_held(3)]
          by (simp add: claims_def holds_def granted_def)
        ultimately show ?thesis using True by (simp add: claims_def)
      next
        case False
        then show ?thesis using that resume_held(2) by (simp add: claims_def holds_def granted_def running_def)
      qed
    qed (use resume_held in simp)
  next
    case (resume_aborted i v)
    show ?thesis
    proof (rule sub)
      show "claims s t j" if "claims s' t j" for t j
        using that resume_aborted(2) by (cases "j = i") (simp_all add: claims_def holds_def granted_def running_def)
      show "lkQueues s' t \<noteq> None" if "lkQueues s t \<noteq> None" for t
        using that resume_aborted by (simp add: remove_dom)
    qed
  next
    case (finish_held i woken q')
    let ?tag = "pcExclusiveTag (lkPipe s i)"
    have i: "holds s ?tag i" using finish_held by (simp add: holds_def)
    have "j \<noteq> i \<and> (claims s t j \<or> t = ?tag \<and> (\<exists>w. lkWait s j = Some w \<and> woken = Some (waCh w)))" if "claims s' t j" for t j
      by (rule claims_finish [OF finish_held(5) i ok _ _ _ _ that]) (use finish_held in simp_all)
    moreover have "finishExclusive (lkQueues s) ?tag = (woken, lkQueues s')" using finish_held by simp
    ultimately have "handsOver s i s'" using i unfolding handsOver_def by blast
    then show ?thesis using finish_held(1) by simp
  next
    case (finish_free i)
    show ?thesis
    proof (rule sub)
      show "claims s t j" if "claims s' t j" for t j
        using that finish_free by (auto simp: claims_def holds_def granted_def running_def split: if_splits)
    qed (use finish_free in simp)
  qed
qed


lemma claims_step:
  assumes "lockStep s l s'" and ok: "locksOk s"
  shows "(\<forall>t j. claims s' t j \<longrightarrow> lkQueues s' t \<noteq> None) \<and> (\<forall>t i j. claims s' t i \<and> claims s' t j \<longrightarrow> i = j)"
proof -
  have w: "waitersOk s" and q: "runQueuesOk s" and dom: "\<And>t i. claims s t i \<Longrightarrow> lkQueues s t \<noteq> None"
    and uniq: "\<And>t i j. claims s t i \<Longrightarrow> claims s t j \<Longrightarrow> i = j"
    using ok by (auto simp: locksOk_def)
  from claims_change [OF assms(1) w q] show ?thesis
  proof
    assume "takesOnly s (actor l) s'"
    then have c: "claims s t j \<or> j = actor l \<and> lkQueues s t = None \<and> lkQueues s' t \<noteq> None" if "claims s' t j" for t j
      using that by (auto simp: takesOnly_def)
    have k: "lkQueues s t \<noteq> None \<Longrightarrow> lkQueues s' t \<noteq> None" for t
      using \<open>takesOnly s (actor l) s'\<close> by (auto simp: takesOnly_def)
    show ?thesis using c k dom uniq by metis
  next
    assume "handsOver s (actor l) s'"
    then obtain tag woken where i: "holds s tag (actor l)" and fin: "finishExclusive (lkQueues s) tag = (woken, lkQueues s')"
      and c: "\<And>t j. claims s' t j \<Longrightarrow> j \<noteq> actor l \<and> (claims s t j \<or> t = tag \<and> (\<exists>w. lkWait s j = Some w \<and> woken = Some (waCh w)))"
      unfolding handsOver_def by blast
    have other: "\<not> claims s tag j" if "j \<noteq> actor l" for j using uniq [of tag "actor l" j] i that by (auto simp: claims_def)
    have dom': "lkQueues s' t \<noteq> None" if cl: "claims s' t j" for t j
    proof (cases "claims s t j")
      case True
      then have "t \<noteq> tag" using c [OF cl] other by blast
      then show ?thesis using dom [OF True] finish_cases [OF fin] by auto
    next
      case False
      then have "t = tag" "woken \<noteq> None" using c [OF cl] by blast+
      then show ?thesis using finish_cases [OF fin] by auto
    qed
    have uniq': "j = k" if cl: "claims s' t j" "claims s' t k" for t j k
    proof (cases "t = tag")
      case True
      then obtain a b where "lkWait s j = Some a" "lkWait s k = Some b" "waCh a = waCh b"
        using c [OF cl(1)] c [OF cl(2)] other by (metis option.inject)
      then show ?thesis using waitersOkD(6) [OF w] by blast
    next
      case False
      then show ?thesis using c [OF cl(1)] c [OF cl(2)] uniq by blast
    qed
    show ?thesis using dom' uniq' by blast
  qed
qed

lemma locks_step: "lockStep s l s' \<Longrightarrow> locksOk s \<Longrightarrow> locksOk s'"
  unfolding locksOk_def [of s'] using claims_step waiters_step queues_step by (auto simp: locksOk_def)

lemma locks_run: "lockRun s ls s' \<Longrightarrow> locksOk s \<Longrightarrow> locksOk s'"
  by (induction rule: lockRun.induct) (auto intro: locks_step)

subsection \<open>Every taken lock has an owner, unless a wait was interrupted\<close>

definition noAbort :: "lockState \<Rightarrow> bool" where
  "noAbort s \<longleftrightarrow> (\<forall>i w. lkWait s i = Some w \<longrightarrow> \<not> waAbort w)"

definition served :: "lockState \<Rightarrow> bool" where
  "served s \<longleftrightarrow> (\<forall>tag. lkQueues s tag \<noteq> None \<longrightarrow> (\<exists>i. claims s tag i))"

lemma noAbort_step: "lockStep s l s' \<Longrightarrow> noAbort s \<Longrightarrow> l \<noteq> Interrupt (actor l) \<Longrightarrow> noAbort s'"
  by (erule lockStep_cases) (auto simp: noAbort_def split: if_splits)

lemma served_step:
  assumes "lockStep s l s'" and ok: "waitersOk s" "runQueuesOk s" and na: "noAbort s" and sv: "served s"
    and no: "l \<noteq> Interrupt (actor l)"
  shows "served s'"
  using assms(1)
proof cases
  case (ask i tag isPlugin queue ok q c)
  have keep: "claims s t j \<Longrightarrow> claims s' t j" for t j
    using ask by (auto simp: claims_def holds_def granted_def running_def askLock_def split: if_splits)
  have new: "lkQueues s' t = lkQueues s t \<or> claims s' t i" for t
    using ask by (auto simp: claims_def holds_def running_def askLock_def split: if_splits)
  show ?thesis unfolding served_def using keep new sv served_def by metis
next
  case (end_task i c waits q)
  have keep: "claims s t j \<Longrightarrow> claims s' t j" for t j
    using end_task(1-6) by (cases "j = i") (auto simp: claims_def holds_def granted_def running_def)
  have new: "lkQueues s' t = None \<longrightarrow> lkQueues s t = None" "lkQueues s' t = lkQueues s t \<or> lkQueues s t \<noteq> None \<or> claims s' t i" for t
    using end_task by (auto simp: claims_def holds_def running_def joinQueue_def split: if_splits option.splits)
  show ?thesis unfolding served_def using keep new sv served_def by metis
next
  case (interrupt i w)
  then show ?thesis using no by simp
next
  case (resume_held i w)
  have "claims s t j \<Longrightarrow> claims s' t j" for t j
    using resume_held waitersOkD(3-5) [OF ok(1) resume_held(3)]
    by (cases "j = i") (simp_all add: claims_def holds_def granted_def running_def)
  moreover have "lkQueues s' = lkQueues s" using resume_held(2) by simp
  ultimately show ?thesis using sv unfolding served_def by metis
next
  case (resume_aborted i w)
  then show ?thesis using na by (simp add: noAbort_def)
next
  case (finish_held i woken q)
  let ?tag = "pcExclusiveTag (lkPipe s i)"
  have keep: "claims s' t j" if "claims s t j" "t \<noteq> ?tag" for t j
    using that finish_held(2,4) by (cases "j = i") (auto simp: claims_def holds_def granted_def running_def split: option.splits)
  have "\<exists>j. claims s' ?tag j" if "lkQueues s' ?tag \<noteq> None"
  proof -
    from finish_cases [OF finish_held(5)] that finish_held(2) obtain ch rest where
      w: "woken = Some ch" "lkQueues s ?tag = Some (ch # rest)" by auto
    obtain j v where j: "lkWait s j = Some v" "waTag v = ?tag" "waCh v = ch"
      using runQueuesOkD(3) [OF ok(2) w(2), of ch] by auto
    then have "granted s' ?tag j" using finish_held(2) w(1) na by (auto simp: granted_def noAbort_def)
    then show ?thesis by (auto simp: claims_def)
  qed
  moreover have "lkQueues s' t = lkQueues s t" if "t \<noteq> ?tag" for t
    using that finish_cases [OF finish_held(5)] finish_held(2) by auto
  ultimately show ?thesis unfolding served_def using keep sv served_def by metis
next
  case (finish_free i)
  have "claims s t j \<Longrightarrow> claims s' t j" for t j
    using finish_free by (cases "j = i") (auto simp: claims_def holds_def granted_def running_def)
  moreover have "lkQueues s' = lkQueues s" using finish_free(2) by simp
  ultimately show ?thesis using sv unfolding served_def by metis
qed

lemma served_run:
  "lockRun s ls s' \<Longrightarrow> locksOk s \<Longrightarrow> noAbort s \<Longrightarrow> served s \<Longrightarrow> (\<And>i. Interrupt i \<notin> set ls) \<Longrightarrow> noAbort s' \<and> served s'"
proof (induction rule: lockRun.induct)
  case (run_step s ls t l u)
  have "l \<noteq> Interrupt (actor l)" using run_step.prems(4) [of "actor l"] by auto
  moreover have "noAbort t \<and> served t" using run_step by auto
  moreover have "waitersOk t" "runQueuesOk t" using locks_run [OF run_step(1)] run_step.prems(1) by (auto simp: locksOk_def)
  ultimately show ?case using noAbort_step [OF run_step(2)] served_step [OF run_step(2)] by blast
qed simp

subsection \<open>A wait interrupted after its wake-up\<close>

lemma leaked_step:
  assumes "lockStep s l s'" "locksOk s" "leaked s tag"
  shows "leaked s' tag"
proof -
  have no: "\<not> claims s tag j" for j using assms(3) by (simp add: leaked_def)
  have q: "lkQueues s tag \<noteq> None" using assms(3) by (simp add: leaked_def)
  from claims_change [OF assms(1)] assms(2) consider "takesOnly s (actor l) s'" | "handsOver s (actor l) s'"
    by (auto simp: locksOk_def)
  then show ?thesis
  proof cases
    case 1
    then show ?thesis using no q by (auto simp: takesOnly_def leaked_def)
  next
    case 2
    then obtain t woken where i: "holds s t (actor l)" and fin: "finishExclusive (lkQueues s) t = (woken, lkQueues s')"
      and c: "\<And>t' j. claims s' t' j \<Longrightarrow> claims s t' j \<or> t' = t"
      unfolding handsOver_def by blast
    have "t \<noteq> tag" using no i by (auto simp: claims_def)
    then show ?thesis using finish_cases [OF fin] c no q by (auto simp: leaked_def)
  qed
qed

lemma leaked_run: "lockRun s ls s' \<Longrightarrow> locksOk s \<Longrightarrow> leaked s tag \<Longrightarrow> leaked s' tag"
  by (induction rule: lockRun.induct) (auto intro: leaked_step dest: locks_run)

lemma interrupt_leaks:
  assumes "locksOk s" "granted s tag i" "lockStep s (Interrupt i) s'"
  shows "leaked s' tag"
proof -
  obtain w where w: "lkWait s i = Some w" "waTag w = tag" using assms(2) by (auto simp: granted_def)
  have s': "s' = s\<lparr>lkWait := (lkWait s)(i \<mapsto> w\<lparr>waAbort := True\<rparr>), lkQueues := removeExclusiveWaiter (waTag w) (waCh w) (lkQueues s)\<rparr>"
    using assms(3) w by (simp add: lockStep_interrupt)
  have "claims s tag i" using assms(2) by (simp add: claims_def)
  then have only: "claims s tag j \<longleftrightarrow> j = i" for j using assms(1) unfolding locksOk_def by blast
  have "\<not> claims s' tag i" using s' by (simp add: claims_def holds_def granted_def running_def)
  moreover have "claims s' tag j \<Longrightarrow> claims s tag j" if "j \<noteq> i" for j
    using that s' by (simp add: claims_def holds_def granted_def running_def)
  moreover have "lkQueues s' tag \<noteq> None" using only [of i] assms(1) s' by (auto simp: locksOk_def remove_dom)
  ultimately show ?thesis using only unfolding leaked_def by metis
qed

lemma leaked_ask: "leaked s tag \<Longrightarrow> running s i \<Longrightarrow> \<not> fst (askLock isPlugin tag queue (lkQueues s) (lkPipe s i))"
  by (auto simp: leaked_def askLock_def claims_def holds_def)

subsection \<open>A run of two pipelines\<close>

definition lockTag0 :: string where "lockTag0 = ''jobs:deploy''"

definition lockHeld :: pipeContext where
  "lockHeld = emptyPipe\<lparr>pcExclusiveTag := lockTag0, pcExclusive := True\<rparr>"

definition lockQueued :: pipeContext where
  "lockQueued = emptyPipe\<lparr>pcExclusiveTag := lockTag0, pcQueueTask := True\<rparr>"

definition demoLocks :: lockState where
  "demoLocks = \<lparr>lkQueues = [lockTag0 \<mapsto> []], lkPipe = (\<lambda>_. emptyPipe)(0 := lockHeld, 1 := lockHeld),
     lkWait = [1 \<mapsto> \<lparr>waTag = lockTag0, waCh = 0, waAbort = False\<rparr>], lkSent = {0}, lkNext = 1, lkDone = {0}\<rparr>"

definition demoLabels :: "lockLabel list" where
  "demoLabels = [Ask 0 lockTag0 True True, Ask 1 lockTag0 True False, EndTask 1, Finish 0]"

lemma demo_lock_run: "lockRun initLocks demoLabels demoLocks"
proof -
  let ?s0 = "initLocks"
  let ?s1 = "?s0\<lparr>lkQueues := [lockTag0 \<mapsto> []], lkPipe := (\<lambda>_. emptyPipe)(0 := lockHeld)\<rparr>"
  let ?s2 = "?s1\<lparr>lkPipe := (\<lambda>_. emptyPipe)(0 := lockHeld, 1 := lockQueued)\<rparr>"
  let ?s3 = "?s1\<lparr>lkQueues := [lockTag0 \<mapsto> [0]], lkPipe := (\<lambda>_. emptyPipe)(0 := lockHeld, 1 := lockHeld),
     lkWait := [1 \<mapsto> \<lparr>waTag = lockTag0, waCh = 0, waAbort = False\<rparr>], lkNext := 1\<rparr>"
  note defs = running_def initLocks_def askLock_def joinQueue_def finishExclusive_def lockHeld_def lockQueued_def lockTag0_def
    emptyPipe_def demoLocks_def
  have 1: "lockStep ?s0 (Ask 0 lockTag0 True True) ?s1"
    using lockStep.ask [of ?s0 0 lockTag0 False True True "[lockTag0 \<mapsto> []]" lockHeld] by (simp add: defs)
  have 2: "lockStep ?s1 (Ask 1 lockTag0 True False) ?s2"
    using lockStep.ask [of ?s1 1 lockTag0 False True False "[lockTag0 \<mapsto> []]" lockQueued] by (simp add: defs)
  have 3: "lockStep ?s2 (EndTask 1) ?s3"
    using lockStep.end_task [of ?s2 1 lockQueued True "[lockTag0 \<mapsto> [0]]"] by (simp add: defs)
  have 4: "lockStep ?s3 (Finish 0) demoLocks"
    using lockStep.finish_held [of ?s3 0 "Some 0" "[lockTag0 \<mapsto> []]"] by (simp add: defs)
  have "lockRun ?s0 ((([] @ [Ask 0 lockTag0 True True]) @ [Ask 1 lockTag0 True False]) @ [EndTask 1]) ?s3"
    by (rule run_step [OF run_step [OF run_step [OF run_nil 1] 2] 3])
  from run_step [OF this 4] show ?thesis by (simp add: demoLabels_def)
qed

text \<open>
  C18. In any interleaving of pipelines, two pipelines never hold, or have been handed, the same
  exclusive lock; and while no wait is interrupted every lock that is taken has a pipeline that holds
  it or has been woken to take it, so the waiters behind it are reached.
\<close>

theorem exclusive_mutual:
  assumes "lockRun initLocks ls s"
  shows "(claims s tag i \<and> claims s tag j \<longrightarrow> i = j) \<and>
    ((\<forall>k. Interrupt k \<notin> set ls) \<longrightarrow> lkQueues s tag \<noteq> None \<longrightarrow> (\<exists>k. claims s tag k))"
proof -
  have "noAbort initLocks" "served initLocks" by (simp_all add: noAbort_def served_def initLocks_def)
  then have "(\<forall>k. Interrupt k \<notin> set ls) \<longrightarrow> served s" using served_run [OF assms locks_init] by blast
  then show ?thesis using locks_run [OF assms locks_init] unfolding locksOk_def served_def by blast
qed

lemma exclusive_mutual_witness:
  "lockRun initLocks demoLabels demoLocks \<and> lkQueues demoLocks lockTag0 \<noteq> None \<and> (\<exists>k. claims demoLocks lockTag0 k)"
  using exclusive_mutual [OF demo_lock_run, of lockTag0] demo_lock_run by (simp add: demoLocks_def demoLabels_def)

text \<open>
  An interruption that reaches a queued pipeline after the previous holder has woken it, and
  before it runs again, loses the lock: in every later state of every continuation the lock stays
  taken, no pipeline holds it, and asking for it fails.
\<close>

theorem interrupted_wakeup_leaks:
  assumes "lockRun initLocks ls s" "granted s tag i" "lockStep s (Interrupt i) s'" "lockRun s' ks u"
  shows "lkQueues u tag \<noteq> None \<and> \<not> holds u tag j \<and>
    (running u j \<longrightarrow> \<not> fst (askLock isPlugin tag queue (lkQueues u) (lkPipe u j)))"
proof -
  have ok: "locksOk s" using locks_run [OF assms(1) locks_init] .
  have "leaked u tag" using leaked_run [OF assms(4) locks_step [OF assms(3) ok] interrupt_leaks [OF ok assms(2,3)]] .
  then show ?thesis using leaked_ask by (auto simp: leaked_def claims_def)
qed

lemma interrupted_wakeup_leaks_witness:
  "\<exists>s' u. lockStep demoLocks (Interrupt 1) s' \<and> lockStep s' (Resume 1) u \<and> running u 2 \<and>
     \<not> fst (askLock True lockTag0 True (lkQueues u) (lkPipe u 2))"
proof -
  let ?w = "\<lparr>waTag = lockTag0, waCh = 0, waAbort = False\<rparr>"
  let ?s = "demoLocks\<lparr>lkWait := (lkWait demoLocks)(1 \<mapsto> ?w\<lparr>waAbort := True\<rparr>),
    lkQueues := removeExclusiveWaiter lockTag0 0 (lkQueues demoLocks)\<rparr>"
  let ?u = "?s\<lparr>lkWait := (lkWait ?s)(1 := None), lkQueues := removeExclusiveWaiter lockTag0 0 (lkQueues ?s),
     lkPipe := (lkPipe ?s)(1 := (lkPipe ?s 1)\<lparr>pcExclusive := False\<rparr>)\<rparr>"
  have g: "granted demoLocks lockTag0 1" by (simp add: granted_def demoLocks_def)
  have 1: "lockStep demoLocks (Interrupt 1) ?s" using lockStep.interrupt [of demoLocks 1 ?w] by (simp add: demoLocks_def)
  have 2: "lockStep ?s (Resume 1) ?u"
    using lockStep.resume_aborted [of ?s 1 "?w\<lparr>waAbort := True\<rparr>"] by (simp add: demoLocks_def)
  have 3: "lockRun ?s [Resume 1] ?u" using run_step [OF run_nil 2] by simp
  have r: "running ?u 2" by (simp add: running_def demoLocks_def)
  show ?thesis using 1 2 r interrupted_wakeup_leaks [OF demo_lock_run g 1 3, of 2 True True] by blast
qed

end
