(* ===== verification/Incoming.thy ===== *)
theory Incoming
  imports Pipeline
begin

text \<open>
  Messages on their way in: how a message addresses the robot (bot/bot\_regexes.go), the codes a user
  sends to prove an internal identity (bot/user\_validation.go), and \<open>IncomingMessage\<close> of bot/handler.go,
  which resolves the sender, drops what may not be heard and makes the worker that handles the rest.
  The robot's name and mention are taken as literal text, as they are in the shipped configurations;
  the code puts them unquoted into its regular expressions.
\<close>

subsection \<open>Addressing the robot\<close>

record addressing =
  adAlias :: "char option"
  adName :: string
  adMention :: string

definition stripFold :: "string \<Rightarrow> string \<Rightarrow> string option" where
  "stripFold p s =
     (if length p \<le> length s \<and> toLower (take (length p) s) = toLower p then Some (drop (length p) s) else None)"

definition addressMark :: "char \<Rightarrow> bool" where
  "addressMark c \<longleftrightarrow> c = CHR '':'' \<or> c = CHR '','' \<or> c = CHR '' ''"

text \<open>The rest of a text after a name and one of the marks behind it.\<close>

definition stripMarked :: "string \<Rightarrow> string \<Rightarrow> string option" where
  "stripMarked p s =
     (case stripFold p s of Some (c # rest) \<Rightarrow> if addressMark c then Some rest else None | _ \<Rightarrow> None)"

definition optAt :: "(string \<Rightarrow> 'a option) \<Rightarrow> string \<Rightarrow> 'a option" where
  "optAt f s = (case s of c # cs \<Rightarrow> if c = CHR ''@'' then orElse (f cs) (f s) else f s | [] \<Rightarrow> f s)"

definition afterAt :: "(string \<Rightarrow> 'a option) \<Rightarrow> string \<Rightarrow> 'a option" where
  "afterAt f s = (case s of c # cs \<Rightarrow> if c = CHR ''@'' then f cs else None | [] \<Rightarrow> None)"

definition stripAlias :: "char option \<Rightarrow> string \<Rightarrow> string option" where
  "stripAlias alias s = (case alias of None \<Rightarrow> None | Some a \<Rightarrow> stripFold [a] s)"

text \<open>The alternatives of the prefix expression, in order: the alias, the name, the mention.\<close>

definition prefixRest :: "addressing \<Rightarrow> string \<Rightarrow> string option" where
  "prefixRest ad s =
     orElse (stripAlias (adAlias ad) s)
       (orElse (if adName ad = [] then None
                else if adMention ad \<noteq> [] then stripMarked (adName ad) s
                else optAt (stripMarked (adName ad)) s)
               (if adMention ad = [] then None else afterAt (stripMarked (adMention ad)) s))"

definition preMatch :: "addressing \<Rightarrow> string \<Rightarrow> (string \<times> string) option" where
  "preMatch ad s =
     (if adAlias ad = None \<and> adName ad = [] then None
      else map_option (\<lambda>rest. (take (length s - length rest) s, dropWhile isRegexSpace rest)) (prefixRest ad s))"

definition endMark :: "string \<Rightarrow> bool" where
  "endMark r \<longleftrightarrow> r = [] \<or> r = ''.'' \<or> r = ''?'' \<or> r = ''!''"

text \<open>"Do this, robot": the command up to the first comma, and a closing mark.\<close>

definition postMatch :: "addressing \<Rightarrow> string \<Rightarrow> (string \<times> string) option" where
  "postMatch ad s =
     (let m1 = takeWhile (\<lambda>c. c \<noteq> CHR '','' \<and> c \<noteq> CHR ''@'') s in
      case drop (length m1) s of
        c # rest \<Rightarrow>
          if adName ad = [] \<or> m1 = [] \<or> c \<noteq> CHR '','' \<or> rest = [] \<or> \<not> isRegexSpace (hd rest) then None
          else map_option (\<lambda>r. (m1, r))
                 (optAt (\<lambda>t. case stripFold (adName ad) t of Some r \<Rightarrow> if endMark r then Some r else None | None \<Rightarrow> None)
                    (dropWhile isRegexSpace rest))
      | [] \<Rightarrow> None)"

definition bareName :: "string \<Rightarrow> string \<Rightarrow> unit option" where
  "bareName p s = (case stripFold p s of Some r \<Rightarrow> if r = [] \<or> r = ''?'' then Some () else None | None \<Rightarrow> None)"

definition bareMatch :: "addressing \<Rightarrow> string \<Rightarrow> bool" where
  "bareMatch ad s \<longleftrightarrow>
     adName ad \<noteq> [] \<and>
     optAt (\<lambda>t.
       orElse (case stripAlias (adAlias ad) t of Some [] \<Rightarrow> Some () | _ \<Rightarrow> None)
         (orElse (if adMention ad \<noteq> [] then bareName (adName ad) t else optAt (bareName (adName ad)) t)
                 (if adMention ad = [] then None else afterAt (bareName (adMention ad)) t))) s \<noteq> None"

text \<open>Whether a message is a command, how it was addressed, and the command itself.\<close>

definition isAlias :: "addressing \<Rightarrow> string \<Rightarrow> bool" where
  "isAlias ad s \<longleftrightarrow> (case adAlias ad of None \<Rightarrow> s = [CHR 0x00] | Some a \<Rightarrow> s = [a])"

definition addressed :: "addressing \<Rightarrow> string \<Rightarrow> bool \<times> string \<times> string" where
  "addressed ad s =
     (case preMatch ad s of
        Some (name, message) \<Rightarrow> (True, if isAlias ad name then ''alias'' else ''name'', message)
      | None \<Rightarrow>
          (case postMatch ad s of
             Some (m1, m2) \<Rightarrow> (True, ''name'', m1 @ m2)
           | None \<Rightarrow> if bareMatch ad s then (True, if isAlias ad s then ''alias'' else ''name'', [])
                     else (False, [], s)))"

subsection \<open>User validation codes\<close>

definition userValidationCodeTTL :: int where
  "userValidationCodeTTL = 42"

record userValidationRequest =
  uvUserName :: string
  uvAdminUser :: string
  uvAdminProtocol :: string
  uvCreated :: int

type_synonym validationRequests = "string \<Rightarrow> userValidationRequest option"

definition shouldAcceptIncomingUser :: "bool \<Rightarrow> bool \<Rightarrow> bool \<Rightarrow> bool" where
  "shouldAcceptIncomingUser listedUser ignoreUnlisted validatedUser \<longleftrightarrow>
     (if ignoreUnlisted then listedUser \<and> validatedUser else \<not> (listedUser \<and> \<not> validatedUser))"

definition isUserValidationCodeMessage :: "connectorMessage \<Rightarrow> string option" where
  "isUserValidationCodeMessage inc =
     (let code = trimSpace (cmMessageText inc) in
      if \<not> cmDirectMessage inc \<and> \<not> cmHiddenMessage inc then None
      else if length code \<noteq> 7 \<or> \<not> list_all isDigitByte code then None
      else Some code)"

text \<open>Random numbers below ten million are an argument, one for each attempt; a draw may fail.\<close>

definition validationCode :: "nat \<Rightarrow> string" where
  "validationCode n = (let d = decDigits n in replicate (7 - length d) (CHR ''0'') @ d)"

datatype issueError = InvalidRequest | RandomFailed | NoUniqueCode

fun allocateCode :: "nat \<Rightarrow> (nat \<Rightarrow> nat option) \<Rightarrow> validationRequests \<Rightarrow> issueError + string" where
  "allocateCode 0 draw m = Inl NoUniqueCode"
| "allocateCode (Suc n) draw m =
     (case draw n of
        None \<Rightarrow> Inl RandomFailed
      | Some k \<Rightarrow> if m (validationCode k) \<noteq> None then allocateCode n draw m else Inr (validationCode k))"

definition issueUserValidationRequest ::
    "(nat \<Rightarrow> nat option) \<Rightarrow> string \<Rightarrow> string \<Rightarrow> string \<Rightarrow> int \<Rightarrow> validationRequests \<Rightarrow>
     (issueError + string) \<times> validationRequests" where
  "issueUserValidationRequest draw userName adminUser adminProtocol now m =
     (let request = \<lparr>uvUserName = toLower (trimSpace userName), uvAdminUser = toLower (trimSpace adminUser),
                     uvAdminProtocol = normalizeProtocolName adminProtocol, uvCreated = now\<rparr>
      in if uvUserName request = [] \<or> uvAdminUser request = [] \<or> uvAdminProtocol request = [] then (Inl InvalidRequest, m)
         else (case allocateCode 10 draw m of
                 Inl e \<Rightarrow> (Inl e, m)
               | Inr code \<Rightarrow> (Inr code, m(code \<mapsto> request))))"

definition consumeUserValidationRequest ::
    "string \<Rightarrow> int \<Rightarrow> validationRequests \<Rightarrow> userValidationRequest option \<times> validationRequests" where
  "consumeUserValidationRequest code now m =
     (case m code of
        None \<Rightarrow> (None, m)
      | Some request \<Rightarrow>
          (if now - uvCreated request > userValidationCodeTTL then None else Some request, m(code := None)))"

definition expireUserValidationRequests :: "int \<Rightarrow> validationRequests \<Rightarrow> validationRequests" where
  "expireUserValidationRequests now m =
     (\<lambda>code. case m code of None \<Rightarrow> None
             | Some request \<Rightarrow> if now - uvCreated request > userValidationCodeTTL then None else Some request)"

text \<open>Messages the robot sends while taking a code: to a user, or to a user in a channel and thread.\<close>

datatype notice =
  ToUser string string string
| ToChannel string string string string string

definition sendUserValidationAcknowledgement :: "connectorMessage \<Rightarrow> notice" where
  "sendUserValidationAcknowledgement inc =
     (let user = bracket (cmUserID inc) in
      if cmDirectMessage inc \<or> trimSpace (cmChannelID inc) = [] then ToUser (icProtocol inc) user ''Code accepted''
      else ToChannel (icProtocol inc) user (bracket (cmChannelID inc))
             (if icThreadedMessage inc then icThreadID inc else []) ''Code accepted'')"

definition receivedText :: "string \<Rightarrow> string \<Rightarrow> string \<Rightarrow> string" where
  "receivedText protocol userName userID =
     ''User validation received: '' @ protocol @ '' user '' @ singleQuoted userName @ '' has internal ID '' @ singleQuoted userID"

definition consumeIncomingUserValidationCode ::
    "connectorMessage \<Rightarrow> int \<Rightarrow> validationRequests \<Rightarrow> bool \<times> validationRequests \<times> notice list" where
  "consumeIncomingUserValidationCode inc now m =
     (case isUserValidationCodeMessage inc of
        None \<Rightarrow> (False, m, [])
      | Some code \<Rightarrow>
          (case consumeUserValidationRequest code now m of
             (None, m') \<Rightarrow> (False, m', [])
           | (Some request, m') \<Rightarrow>
               let p = normalizeProtocolName (icProtocol inc);
                   protocol = (if p = [] then ''unknown'' else p);
                   given = trimSpace (cmUserID inc);
                   userID = (if given = [] then ''(unknown)'' else given)
               in (True, m',
                   (if given \<noteq> [] then [sendUserValidationAcknowledgement inc] else []) @
                   [ToUser (uvAdminProtocol request) (uvAdminUser request)
                      (receivedText protocol (uvUserName request) userID)])))"

subsection \<open>An incoming message\<close>

text \<open>What is configured when a message arrives, and the number the worker gets.\<close>

record intake =
  inHearSelf :: bool
  inIgnoreUsers :: "string list"
  inIgnoreUnlisted :: bool
  inAddressing :: addressing
  inMaps :: userChanMaps
  inCfg :: configuration
  inTasks :: taskList
  inWorkerID :: nat
  inGateClosed :: bool

datatype intakeResult =
  Dropped
| IgnoredUser
| CodeTaken
| StartupGate worker
| HandleMessage worker

definition incomingProtocol :: "connectorMessage \<Rightarrow> string" where
  "incomingProtocol inc = (let p = normalizeProtocolName (icProtocol inc) in if p = [] then ''unknown'' else p)"

definition incomingChannel :: "userChanMaps \<Rightarrow> connectorMessage \<Rightarrow> string" where
  "incomingChannel maps inc =
     (if cmDirectMessage inc then []
      else (case getProtocolChannelByID maps (incomingProtocol inc) (cmChannelID inc) of
              Some ci \<Rightarrow> chChannelName ci
            | None \<Rightarrow> if cmChannelName inc \<noteq> [] then cmChannelName inc
                      else if cmChannelID inc \<noteq> [] then bracket (cmChannelID inc) else []))"

text \<open>A message marked for the robot is a command as it is; in a direct message everything is one.\<close>

definition incomingCommand :: "addressing \<Rightarrow> connectorMessage \<Rightarrow> bool \<times> string \<times> string" where
  "incomingCommand ad inc =
     (case (if cmBotMessage inc then (True, ''alias'', cmMessageText inc) else addressed ad (cmMessageText inc)) of
        (isCommand, mode, message) \<Rightarrow>
          if cmDirectMessage inc then (True, if mode = [] then ''direct'' else mode, message)
          else (isCommand, mode, message))"

definition newWorker :: "intake \<Rightarrow> connectorMessage \<Rightarrow> string \<Rightarrow> bool \<Rightarrow> bool \<Rightarrow> worker" where
  "newWorker k inc userName botUser listed =
     (case incomingCommand (inAddressing k) inc of (isCommand, mode, message) \<Rightarrow>
        \<lparr>wId = inWorkerID k, wUser = userName, wProtocolUser = resolveIncomingProtocolUser (cmUserID inc) userName,
         wChannel = incomingChannel (inMaps k) inc, wProtocolChannel = bracket (cmChannelID inc),
         wProtocol = getProtocol (icProtocol inc),
         wIncoming = (if cmDirectMessage inc then inc\<lparr>icThreadID := []\<rparr> else inc),
         wBotUser = botUser, wListedUser = listed, wIsCommand = isCommand, wCmdMode = mode,
         wMsg = message, wFmsg = cmMessageText inc, wAutomaticTask = False, wQueueProvider = [],
         wQueueMessageID = [], wCfg = inCfg k, wTasks = inTasks k, wMaps = Some (inMaps k), wPipe = emptyPipe\<rparr>)"

definition handleIncoming ::
    "intake \<Rightarrow> connectorMessage \<Rightarrow> int \<Rightarrow> validationRequests \<Rightarrow> intakeResult \<times> validationRequests \<times> notice list" where
  "handleIncoming k inc now m =
     (if cmSelfMessage inc \<and> \<not> inHearSelf k then (Dropped, m, [])
      else if icUserName inc = [] \<and> cmUserID inc = [] then (Dropped, m, [])
      else (case resolveIncomingUser (inMaps k) (incomingProtocol inc) (cmUserID inc) (icUserName inc) of
              (userName, botUser, mapped, listed) \<Rightarrow>
                (case consumeIncomingUserValidationCode inc now m of
                   (True, m', out) \<Rightarrow> (CodeTaken, m', out)
                 | (False, m', out) \<Rightarrow>
                     if \<not> shouldAcceptIncomingUser listed (inIgnoreUnlisted k) (cmValidatedUser inc) then (IgnoredUser, m', out)
                     else if list_ex (equalFold userName) (inIgnoreUsers k) then (IgnoredUser, m', out)
                     else let w = newWorker k inc userName botUser listed
                          in (if wIsCommand w \<and> inGateClosed k then StartupGate w else HandleMessage w, m', out))))"

subsection \<open>How a robot is addressed\<close>

lemma stripFold_same: "toLower p' = toLower p \<Longrightarrow> stripFold p (p' @ rest) = Some rest"
proof -
  assume "toLower p' = toLower p"
  moreover from this have "length p' = length p" by (metis length_map toLower_def)
  ultimately show ?thesis by (simp add: stripFold_def)
qed

lemma stripMarked_same: "toLower p' = toLower p \<Longrightarrow> addressMark c \<Longrightarrow> stripMarked p (p' @ c # rest) = Some rest"
  using stripFold_same [of p' p "c # rest"] by (simp add: stripMarked_def)

lemma stripAlias_other: "s \<noteq> [] \<Longrightarrow> adAlias ad \<noteq> None \<longrightarrow> lowerByte (hd s) \<noteq> lowerByte (the (adAlias ad)) \<Longrightarrow> stripAlias (adAlias ad) s = None"
  by (cases s) (auto simp: stripAlias_def stripFold_def toLower_def split: option.split)

lemma optAt_plain: "s \<noteq> [] \<Longrightarrow> hd s \<noteq> CHR ''@'' \<Longrightarrow> optAt f s = f s"
  by (cases s) (simp_all add: optAt_def)

lemma prefix_name:
  assumes "toLower p = toLower (adName ad)" "p \<noteq> []" "hd p \<noteq> CHR ''@''" "addressMark c"
    and "adAlias ad \<noteq> None \<longrightarrow> lowerByte (hd p) \<noteq> lowerByte (the (adAlias ad))"
  shows "prefixRest ad (p @ c # rest) = Some rest"
proof -
  have "adName ad \<noteq> []" using assms(1,2) by (auto simp: toLower_def)
  moreover have "stripAlias (adAlias ad) (p @ c # rest) = None" using assms(2,5) by (intro stripAlias_other) auto
  moreover have "optAt (stripMarked (adName ad)) (p @ c # rest) = Some rest"
    using assms(2,3) stripMarked_same [OF assms(1,4)] by (subst optAt_plain) auto
  moreover have "stripMarked (adName ad) (p @ c # rest) = Some rest" using stripMarked_same [OF assms(1,4)] .
  ultimately show ?thesis by (simp add: prefixRest_def orElse_def)
qed

lemma dropWhile_spaces: "list_all isRegexSpace ws \<Longrightarrow> command = [] \<or> \<not> isRegexSpace (hd command) \<Longrightarrow> dropWhile isRegexSpace (ws @ command) = command"
  by (induction ws) (auto simp: dropWhile_eq_self_iff)

lemma addressed_prefix:
  assumes "prefixRest ad s = Some (ws @ command)" "adAlias ad \<noteq> None \<or> adName ad \<noteq> []" "list_all isRegexSpace ws"
    "command = [] \<or> \<not> isRegexSpace (hd command)"
  shows "addressed ad s = (True, if isAlias ad (take (length s - length (ws @ command)) s) then ''alias'' else ''name'', command)"
  using assms dropWhile_spaces [OF assms(3,4)] by (auto simp: addressed_def preMatch_def)

lemma command_addressed_both:
  assumes cmd: "command = [] \<or> \<not> isRegexSpace (hd command)" and ws: "list_all isRegexSpace ws"
  shows "adAlias ad = Some a \<Longrightarrow> addressed ad (a # ws @ command) = (True, ''alias'', command)"
    and "toLower p = toLower (adName ad) \<Longrightarrow> adName ad \<noteq> [] \<Longrightarrow> hd p \<noteq> CHR ''@'' \<Longrightarrow> addressMark c \<Longrightarrow>
      adAlias ad \<noteq> None \<longrightarrow> lowerByte (hd p) \<noteq> lowerByte (the (adAlias ad)) \<Longrightarrow>
      addressed ad (p @ c # ws @ command) = (True, ''name'', command)"
proof -
  assume a: "adAlias ad = Some a"
  then have "prefixRest ad (a # ws @ command) = Some (ws @ command)"
    using stripFold_same [of "[a]" "[a]" "ws @ command"] by (simp add: prefixRest_def stripAlias_def orElse_def)
  from addressed_prefix [OF this _ ws cmd] a show "addressed ad (a # ws @ command) = (True, ''alias'', command)"
    by (simp add: isAlias_def)
next
  assume p: "toLower p = toLower (adName ad)" "adName ad \<noteq> []" "hd p \<noteq> CHR ''@''" "addressMark c"
    "adAlias ad \<noteq> None \<longrightarrow> lowerByte (hd p) \<noteq> lowerByte (the (adAlias ad))"
  have ne: "p \<noteq> []" using p(1,2) by (auto simp: toLower_def)
  have "prefixRest ad (p @ c # ws @ command) = Some (ws @ command)" using prefix_name [OF p(1) ne p(3-5)] .
  from addressed_prefix [OF this _ ws cmd] have
    "addressed ad (p @ c # ws @ command) = (True, if isAlias ad (p @ [c]) then ''alias'' else ''name'', command)"
    using p(2) by simp
  moreover have "\<not> isAlias ad (p @ [c])" using ne by (cases p) (auto simp: isAlias_def split: option.split)
  ultimately show "addressed ad (p @ c # ws @ command) = (True, ''name'', command)" by simp
qed

text \<open>
  A command behind the robot's name, in any mix of cases, and a mark, or behind its alias, is
  recognized, and reaches the plugins without the address and the space behind it.
\<close>

theorem command_addressed:
  assumes "command = [] \<or> \<not> isRegexSpace (hd command)" "list_all isRegexSpace ws"
    and "toLower p = toLower (adName ad)" "adName ad \<noteq> []" "hd p \<noteq> CHR ''@''" "addressMark c"
    and "adAlias ad = Some a" "lowerByte (hd p) \<noteq> lowerByte a"
  shows "addressed ad (p @ c # ws @ command) = (True, ''name'', command) \<and> addressed ad (a # ws @ command) = (True, ''alias'', command)"
  using command_addressed_both [OF assms(1,2)] assms by simp

theorem command_addressed_witness:
  "addressed \<lparr>adAlias = Some (CHR '';''), adName = ''floyd'', adMention = []\<rparr> ''Floyd,  ping'' = (True, ''name'', ''ping'') \<and>
   addressed \<lparr>adAlias = Some (CHR '';''), adName = ''floyd'', adMention = []\<rparr> '';  ping'' = (True, ''alias'', ''ping'')"
proof -
  have "toLower ''Floyd'' = toLower ''floyd''" "lowerByte (hd ''Floyd'') \<noteq> lowerByte (CHR '';'')" by code_simp+
  then show ?thesis
    using command_addressed [of "''ping''" "''  ''" "''Floyd''" "\<lparr>adAlias = Some (CHR '';''), adName = ''floyd'', adMention = []\<rparr>"
        "CHR '',''" "CHR '';''"]
    by (simp add: isRegexSpace_def addressMark_def)
qed

subsection \<open>Identity\<close>

lemma consume_code:
  "consumeUserValidationRequest code now m = (Some r, m') \<Longrightarrow>
   m code = Some r \<and> now - uvCreated r \<le> userValidationCodeTTL \<and> m' = m(code := None)"
  by (auto simp: consumeUserValidationRequest_def split: option.splits if_splits)

lemma incoming_identity:
  assumes "handleIncoming k inc now m = (HandleMessage w, m', out)"
  shows "(wListedUser w \<longrightarrow> cmValidatedUser inc) \<and> (wListedUser w \<longleftrightarrow> umDirectoryUser (inMaps k) (wUser w) \<noteq> None) \<and>
    (adminOk w \<longrightarrow> cmValidatedUser inc \<and> wUser w \<in> set (cfAdminUsers (inCfg k))) \<and>
    (inIgnoreUnlisted k \<longrightarrow> wListedUser w) \<and> \<not> list_ex (equalFold (wUser w)) (inIgnoreUsers k)"
proof -
  obtain u b mp l where r: "resolveIncomingUser (inMaps k) (incomingProtocol inc) (cmUserID inc) (icUserName inc) = (u, b, mp, l)"
    using prod_cases4 by blast
  have w: "w = newWorker k inc u b l" and acc: "shouldAcceptIncomingUser l (inIgnoreUnlisted k) (cmValidatedUser inc)"
    and ign: "\<not> list_ex (equalFold u) (inIgnoreUsers k)"
    using assms by (auto simp: handleIncoming_def r Let_def split: if_splits prod.splits bool.splits)
  have f: "wUser w = u" "wListedUser w = l" "wAutomaticTask w = False" "wCfg w = inCfg k"
    by (simp_all add: w newWorker_def split: prod.split)
  have "l \<longleftrightarrow> umDirectoryUser (inMaps k) u \<noteq> None" using resolve_listed [OF r] .
  then show ?thesis using acc ign unfolding f adminOk_def by (auto simp: shouldAcceptIncomingUser_def split: if_splits)
qed

text \<open>
  C3. No impersonation: a message reaches a worker only when the connector vouches for a sender whose name
  the directory lists, so a worker made from a message that passes as an administrator belongs to a
  configured administrator the connector has vouched for; and none of the ignored names gets through.
\<close>

theorem no_impersonation:
  assumes "handleIncoming k inc now m = (HandleMessage w, m', out)"
  shows "(wListedUser w \<longrightarrow> cmValidatedUser inc) \<and> (wListedUser w \<longleftrightarrow> umDirectoryUser (inMaps k) (wUser w) \<noteq> None) \<and>
    (adminOk w \<longrightarrow> cmValidatedUser inc \<and> wUser w \<in> set (cfAdminUsers (inCfg k))) \<and>
    (inIgnoreUnlisted k \<longrightarrow> wListedUser w) \<and> \<not> list_ex (equalFold (wUser w)) (inIgnoreUsers k)"
  by (rule incoming_identity [OF assms])

text \<open>
  A code is taken at most once and only while it is valid, from a private message: the robot tells the
  administrator who asked for it, and the same message sent again is not a code any more.
\<close>

theorem code_taken_once:
  assumes "consumeIncomingUserValidationCode inc now m = (True, m', out)"
  shows "\<exists>code r. isUserValidationCodeMessage inc = Some code \<and> m code = Some r \<and> now - uvCreated r \<le> userValidationCodeTTL \<and>
    (cmDirectMessage inc \<or> cmHiddenMessage inc) \<and> m' = m(code := None) \<and>
    (\<forall>later. fst (consumeIncomingUserValidationCode inc later m') = False) \<and>
    (\<exists>text. ToUser (uvAdminProtocol r) (uvAdminUser r) text \<in> set out)"
proof -
  obtain code where code: "isUserValidationCodeMessage inc = Some code"
    using assms by (auto simp: consumeIncomingUserValidationCode_def split: option.splits)
  then obtain r acks where r: "consumeUserValidationRequest code now m = (Some r, m')"
    and o: "out = acks @ [ToUser (uvAdminProtocol r) (uvAdminUser r)
        (receivedText (if normalizeProtocolName (icProtocol inc) = [] then ''unknown'' else normalizeProtocolName (icProtocol inc))
           (uvUserName r) (if trimSpace (cmUserID inc) = [] then ''(unknown)'' else trimSpace (cmUserID inc)))]"
    using assms by (auto simp: consumeIncomingUserValidationCode_def Let_def split: option.splits prod.splits if_splits)
  have out: "\<exists>text. ToUser (uvAdminProtocol r) (uvAdminUser r) text \<in> set out"
    unfolding o by (intro exI) (rule in_set_conv_decomp [THEN iffD2], blast)
  note c = consume_code [OF r]
  have "fst (consumeIncomingUserValidationCode inc later m') = False" for later
    using c by (simp add: consumeIncomingUserValidationCode_def code consumeUserValidationRequest_def)
  moreover have "cmDirectMessage inc \<or> cmHiddenMessage inc"
    using code by (auto simp: isUserValidationCodeMessage_def Let_def split: if_splits)
  ultimately show ?thesis using code c out by blast
qed


subsection \<open>Concrete messages\<close>

definition demoMatcherGo :: InputMatcher where
  "demoMatcherGo = \<lparr>imRegex = ''go'', imSimpleMatcher = [], imCommand = ''go'', imLabel = [], imChannelOnly = False,
     imContexts = [], imRe = Some (\<lambda>s. if s = ''go'' then Some [] else None), imSimple = None\<rparr>"

definition demoTasks :: taskList where
  "demoTasks = \<lparr>tlT = [TaskObj demoTask, PluginObj (demoAdmin\<lparr>plCommands := [demoMatcherGo]\<rparr>)], tlNameMap = (\<lambda>_. None),
     tlNameSpaces = (\<lambda>_. None), tlParameterSets = (\<lambda>_. None)\<rparr>"

definition demoIntake :: intake where
  "demoIntake = \<lparr>inHearSelf = False, inIgnoreUsers = [], inIgnoreUnlisted = False,
     inAddressing = \<lparr>adAlias = None, adName = ''bot'', adMention = []\<rparr>, inMaps = demoMaps,
     inCfg = (wCfg demoWorker)\<lparr>cfAdminUsers := [''alice'']\<rparr>, inTasks = demoTasks, inWorkerID = 1, inGateClosed = False\<rparr>"

definition demoMessage :: connectorMessage where
  "demoMessage = (wIncoming demoWorker)\<lparr>cmMessageText := ''bot: go''\<rparr>"

lemma demo_arrives:
  "handleIncoming demoIntake demoMessage 100 (\<lambda>_. None) = (HandleMessage (newWorker demoIntake demoMessage ''alice'' False True), \<lambda>_. None, [])"
proof -
  have "resolveIncomingUser (inMaps demoIntake) (incomingProtocol demoMessage) (cmUserID demoMessage) (icUserName demoMessage) =
      (''alice'', False, True, True)" by code_simp
  moreover have "isUserValidationCodeMessage demoMessage = None" by code_simp
  moreover have "\<not> cmSelfMessage demoMessage" "cmUserID demoMessage \<noteq> []" "cmValidatedUser demoMessage"
    by (simp_all add: demoMessage_def demoWorker_def)
  ultimately show ?thesis
    by (simp add: handleIncoming_def consumeIncomingUserValidationCode_def shouldAcceptIncomingUser_def demoIntake_def Let_def)
qed

theorem no_impersonation_witness:
  "adminOk (newWorker demoIntake demoMessage ''alice'' False True) \<and> cmValidatedUser demoMessage"
proof -
  have "adminOk (newWorker demoIntake demoMessage ''alice'' False True)"
    by (simp add: adminOk_def newWorker_def demoIntake_def split: prod.split)
  then show ?thesis using no_impersonation [OF demo_arrives] by blast
qed

definition demoCode :: connectorMessage where
  "demoCode = demoMessage\<lparr>cmDirectMessage := True, cmMessageText := ''0012345''\<rparr>"

definition demoRequest :: userValidationRequest where
  "demoRequest = \<lparr>uvUserName = ''bob'', uvAdminUser = ''alice'', uvAdminProtocol = ''ssh'', uvCreated = 60\<rparr>"

theorem code_taken_once_witness:
  "\<exists>text. ToUser ''ssh'' ''alice'' text \<in>
     set (snd (snd (consumeIncomingUserValidationCode demoCode 100 [''0012345'' \<mapsto> demoRequest])))"
proof -
  have code: "isUserValidationCodeMessage demoCode = Some ''0012345''" by code_simp
  obtain m' out where c: "consumeIncomingUserValidationCode demoCode 100 [''0012345'' \<mapsto> demoRequest] = (True, m', out)"
    by (simp add: consumeIncomingUserValidationCode_def code consumeUserValidationRequest_def userValidationCodeTTL_def
        demoRequest_def Let_def)
  from code_taken_once [OF c] obtain r msg where "[''0012345'' \<mapsto> demoRequest] ''0012345'' = Some r"
    "ToUser (uvAdminProtocol r) (uvAdminUser r) msg \<in> set out" using code by auto
  then show ?thesis using c by (auto simp: demoRequest_def)
qed

end
