(* ===== verification/Replies.thy ===== *)
theory Replies
  imports TaskEnv
begin

text \<open>
  Prompts and replies (bot/replyprompt.go and the first part of \<open>handleMessage\<close> in bot/dispatch.go).
  A task that prompts a user waits on a channel of its own, in a list of waiters for one combination
  of protocol, user, channel and thread. A reply, a time-out, an interruption or a shutdown takes the
  whole list out of the map and tells the waiters in it. The tasks that wait, the messages and the
  timers may act in any order: a step relation whose steps are the critical sections of the code. The
  map is an association list, since an interruption ranges over it.
\<close>

subsection \<open>Waiters\<close>

datatype replyDisposition = Replied | ReplyInterrupted | RetryWaiter

record replyMatcher =
  rmProtocol :: string
  rmUser :: string
  rmChannel :: string
  rmThread :: string

record replyWaiter =
  rwRe :: "string \<Rightarrow> bool"
  rwChan :: nat
  rwTid :: nat

record reply =
  rpMatched :: bool
  rpDisposition :: replyDisposition
  rpRep :: string

type_synonym replies = "(replyMatcher \<times> replyWaiter list) list"

definition retryReply :: reply where
  "retryReply = \<lparr>rpMatched = False, rpDisposition = RetryWaiter, rpRep = []\<rparr>"

definition interruptReply :: reply where
  "interruptReply = \<lparr>rpMatched = False, rpDisposition = ReplyInterrupted, rpRep = []\<rparr>"

text \<open>The first waiter gets the message, matched as it is or with its white space collapsed.\<close>

definition replyTo :: "(string \<Rightarrow> bool) \<Rightarrow> string \<Rightarrow> reply" where
  "replyTo re fmsg =
     (if re fmsg then \<lparr>rpMatched = True, rpDisposition = Replied, rpRep = fmsg\<rparr>
      else \<lparr>rpMatched = re (collapseSpaces fmsg), rpDisposition = Replied, rpRep = collapseSpaces fmsg\<rparr>)"

definition replySends :: "string \<Rightarrow> replyWaiter list \<Rightarrow> (nat \<times> reply) list" where
  "replySends fmsg ws =
     (case ws of [] \<Rightarrow> []
      | w # rest \<Rightarrow> (rwChan w, replyTo (rwRe w) fmsg) # map (\<lambda>v. (rwChan v, retryReply)) rest)"

definition takeReply :: "replyMatcher \<Rightarrow> string \<Rightarrow> replies \<Rightarrow> bool \<times> (nat \<times> reply) list \<times> replies" where
  "takeReply m fmsg rs =
     (case map_of rs m of
        None \<Rightarrow> (False, [], rs)
      | Some waiters \<Rightarrow> (True, replySends fmsg waiters, AList.delete m rs))"

definition interruptSends :: "nat \<Rightarrow> replyWaiter list \<Rightarrow> (nat \<times> reply) list" where
  "interruptSends tid ws = map (\<lambda>w. (rwChan w, if rwTid w = tid then interruptReply else retryReply)) ws"

definition interruptReplyWaitersForTask :: "nat \<Rightarrow> replies \<Rightarrow> bool \<times> (nat \<times> reply) list \<times> replies" where
  "interruptReplyWaitersForTask tid rs =
     (if tid = 0 then (False, [], rs)
      else let hit = (\<lambda>e. list_ex (\<lambda>w. rwTid w = tid) (snd e))
           in (list_ex hit rs, concat (map (interruptSends tid \<circ> snd) (filter hit rs)), filter (\<lambda>e. \<not> hit e) rs))"

subsection \<open>Prompting\<close>

definition replyTimeout :: int where "replyTimeout = 45"

definition interactivePromptTimeout :: int where "interactivePromptTimeout = 42 * 60"

definition isInteractivePromptProtocol :: "string \<Rightarrow> bool" where
  "isInteractivePromptProtocol p \<longleftrightarrow> normalizeProtocolName p = ''ssh'' \<or> normalizeProtocolName p = ''terminal''"

definition isInterpreterTask :: "Task \<Rightarrow> bool" where
  "isInterpreterTask task \<longleftrightarrow>
     tkType task = TaskGo \<or>
     (let path = toLower (trimSpace (tkPath task))
      in hasSuffix path ''.go'' \<or> hasSuffix path ''.lua'' \<or> hasSuffix path ''.js'' \<or> hasSuffix path ''.gsh'')"

definition promptTimeoutForContext :: "string \<Rightarrow> Task \<Rightarrow> int" where
  "promptTimeoutForContext protocol task =
     (if isInteractivePromptProtocol protocol \<and> isInterpreterTask task then interactivePromptTimeout else replyTimeout)"

text \<open>
  The expression a reply has to match: a stock expression when the name starts with an upper-case
  letter, otherwise the first matcher of the task with that label or command.
\<close>

definition resolveReplyMatcher ::
    "(string \<Rightarrow> (string \<Rightarrow> bool) option) \<Rightarrow> InputMatcher list \<Rightarrow> string \<Rightarrow> (string \<Rightarrow> bool) option" where
  "resolveReplyMatcher stock rm regexID =
     (if regexID \<noteq> [] \<and> CHR ''A'' \<le> hd regexID \<and> hd regexID \<le> CHR ''Z'' then stock regexID
      else (case find (\<lambda>m. imLabel m = regexID \<or> imCommand m = regexID) rm of
              None \<Rightarrow> None | Some m \<Rightarrow> map_option (\<lambda>re text. re text \<noteq> None) (imRe m)))"

text \<open>What a prompt returns for a reply.\<close>

definition promptResult :: "reply \<Rightarrow> string \<times> RetVal" where
  "promptResult r =
     (case rpDisposition r of
        ReplyInterrupted \<Rightarrow> ([], Interrupted)
      | RetryWaiter \<Rightarrow> ([], RetryPrompt)
      | Replied \<Rightarrow>
          if \<not> rpMatched r then
            ([], if rpRep r = ''='' then UseDefaultValue else if rpRep r = ''-'' then Interrupted else ReplyNotMatched)
          else (rpRep r, Ok))"

text \<open>Three attempts; \<open>attempt i\<close> is the result of the prompt number \<open>i\<close>.\<close>

fun promptLoop :: "nat \<Rightarrow> nat \<Rightarrow> (nat \<Rightarrow> string \<times> RetVal) \<Rightarrow> string \<times> RetVal" where
  "promptLoop 0 i attempt = ([], Interrupted)"
| "promptLoop (Suc n) i attempt =
     (case attempt i of (rep, r) \<Rightarrow>
        if r = RetryPrompt then (if n = 0 then (rep, Interrupted) else promptLoop n (Suc i) attempt) else (rep, r))"

definition promptForReply :: "(nat \<Rightarrow> string \<times> RetVal) \<Rightarrow> string \<times> RetVal" where
  "promptForReply attempt = promptLoop 3 0 attempt"

subsection \<open>All prompts at once\<close>

record promptState =
  psReplies :: replies
  psChan :: "nat \<Rightarrow> reply list"
  psWaiting :: "nat \<Rightarrow> (replyMatcher \<times> replyWaiter) option"
  psLate :: "nat set"
  psNext :: nat
  psShutdown :: bool
  psChecked :: nat   \<comment> \<open>calls that have passed their look at the shutdown signal\<close>
  psResult :: "nat \<Rightarrow> (string \<times> RetVal) option"

definition initPrompts :: promptState where
  "initPrompts = \<lparr>psReplies = [], psChan = (\<lambda>_. []), psWaiting = (\<lambda>_. None), psLate = {}, psNext = 0,
     psShutdown = False, psChecked = 0, psResult = (\<lambda>_. None)\<rparr>"

definition sendAll :: "(nat \<times> reply) list \<Rightarrow> (nat \<Rightarrow> reply list) \<Rightarrow> nat \<Rightarrow> reply list" where
  "sendAll sends ch i = ch i @ map snd (filter (\<lambda>e. fst e = i) sends)"

definition answer :: "nat \<Rightarrow> string \<times> RetVal \<Rightarrow> promptState \<Rightarrow> promptState" where
  "answer i r s = s\<lparr>psWaiting := (psWaiting s)(i := None), psResult := (psResult s)(i \<mapsto> r)\<rparr>"

definition addWaiter :: "replyMatcher \<Rightarrow> replyWaiter \<Rightarrow> promptState \<Rightarrow> promptState" where
  "addWaiter m w s =
     s\<lparr>psReplies := AList.update m ((case map_of (psReplies s) m of None \<Rightarrow> [] | Some ws \<Rightarrow> ws) @ [w]) (psReplies s),
       psWaiting := (psWaiting s)(rwChan w \<mapsto> (m, w)), psNext := Suc (psNext s)\<rparr>"

datatype promptLabel =
  Check
| AskRefused RetVal
| AskFirst replyMatcher RetVal
| AskNext replyMatcher
| Message replyMatcher string
| InterruptTask nat
| TimeOut nat
| Receive nat
| Shutdown
| Abort nat

text \<open>
  A call looks at the shutdown signal once, before it registers: a call that has passed may register
  after the signal.
\<close>

definition pastCheck :: "promptState \<Rightarrow> promptState" where
  "pastCheck s = s\<lparr>psChecked := psChecked s - 1\<rparr>"

inductive promptStep :: "promptState \<Rightarrow> promptLabel \<Rightarrow> promptState \<Rightarrow> bool" where
  check: "\<not> psShutdown s \<Longrightarrow> promptStep s Check (s\<lparr>psChecked := Suc (psChecked s)\<rparr>)"
| ask_shutdown: "psShutdown s \<Longrightarrow> i = psNext s \<Longrightarrow>
    promptStep s (AskRefused Interrupted) (s\<lparr>psNext := Suc i, psResult := (psResult s)(i \<mapsto> ([], Interrupted))\<rparr>)"
| ask_unknown: "0 < psChecked s \<Longrightarrow> i = psNext s \<Longrightarrow>
    promptStep s (AskRefused MatcherNotFound)
      ((pastCheck s)\<lparr>psNext := Suc i, psResult := (psResult s)(i \<mapsto> ([], MatcherNotFound))\<rparr>)"
| ask_first: "0 < psChecked s \<Longrightarrow> map_of (psReplies s) m = None \<Longrightarrow> i = psNext s \<Longrightarrow>
    promptStep s (AskFirst m sent)
      (if sent = Ok then addWaiter m \<lparr>rwRe = re, rwChan = i, rwTid = tid\<rparr> (pastCheck s)
       else (pastCheck s)\<lparr>psNext := Suc i, psResult := (psResult s)(i \<mapsto> ([], sent))\<rparr>)"
| ask_next: "0 < psChecked s \<Longrightarrow> map_of (psReplies s) m \<noteq> None \<Longrightarrow> i = psNext s \<Longrightarrow>
    promptStep s (AskNext m) (addWaiter m \<lparr>rwRe = re, rwChan = i, rwTid = tid\<rparr> (pastCheck s))"
| message: "takeReply m fmsg (psReplies s) = (found, sends, rs) \<Longrightarrow>
    promptStep s (Message m fmsg) (s\<lparr>psReplies := rs, psChan := sendAll sends (psChan s)\<rparr>)"
| interrupt: "interruptReplyWaitersForTask tid (psReplies s) = (hit, sends, rs) \<Longrightarrow>
    promptStep s (InterruptTask tid) (s\<lparr>psReplies := rs, psChan := sendAll sends (psChan s)\<rparr>)"
| time_out: "psWaiting s i = Some (m, w) \<Longrightarrow> i \<notin> psLate s \<Longrightarrow> map_of (psReplies s) m = Some ws \<Longrightarrow>
    promptStep s (TimeOut i)
      (answer i ([], TimeoutExpired)
        (s\<lparr>psReplies := AList.delete m (psReplies s),
           psChan := sendAll (map (\<lambda>v. (rwChan v, retryReply)) (drop 1 ws)) (psChan s)\<rparr>))"
| time_out_late: "psWaiting s i = Some (m, w) \<Longrightarrow> i \<notin> psLate s \<Longrightarrow> map_of (psReplies s) m = None \<Longrightarrow>
    promptStep s (TimeOut i) (s\<lparr>psLate := insert i (psLate s)\<rparr>)"
| receive: "psWaiting s i = Some (m, w) \<Longrightarrow> psChan s i = r # rest \<Longrightarrow>
    promptStep s (Receive i) (answer i (promptResult r) (s\<lparr>psChan := (psChan s)(i := rest)\<rparr>))"
| shutdown: "promptStep s Shutdown (s\<lparr>psShutdown := True\<rparr>)"
| abort: "psShutdown s \<Longrightarrow> psWaiting s i = Some (m, w) \<Longrightarrow> i \<notin> psLate s \<Longrightarrow>
    promptStep s (Abort i) (answer i ([], Interrupted) (s\<lparr>psReplies := AList.delete m (psReplies s)\<rparr>))"

inductive_cases promptStep_cases: "promptStep s l s'"
inductive_simps promptStep_message: "promptStep s (Message m fmsg) s'"
inductive_simps promptStep_timeout: "promptStep s (TimeOut i) s'"

inductive promptRun :: "promptState \<Rightarrow> promptLabel list \<Rightarrow> promptState \<Rightarrow> bool" where
  prompt_nil: "promptRun s [] s"
| prompt_step: "promptRun s ls t \<Longrightarrow> promptStep t l u \<Longrightarrow> promptRun s (ls @ [l]) u"

subsection \<open>Every waiter is told at most once\<close>

definition allWaiters :: "replies \<Rightarrow> replyWaiter list" where
  "allWaiters rs = concat (map snd rs)"

definition waitsFor :: "promptState \<Rightarrow> replyMatcher \<Rightarrow> replyWaiter \<Rightarrow> bool" where
  "waitsFor s m w \<longleftrightarrow> psWaiting s (rwChan w) = Some (m, w) \<and> psChan s (rwChan w) = [] \<and> rwChan w \<notin> psLate s"

definition promptOk :: "promptState \<Rightarrow> bool" where
  "promptOk s \<longleftrightarrow>
     distinct (map fst (psReplies s)) \<and> distinct (map rwChan (allWaiters (psReplies s))) \<and>
     (\<forall>(m, ws) \<in> set (psReplies s). ws \<noteq> [] \<and> (\<forall>w \<in> set ws. waitsFor s m w)) \<and>
     (\<forall>i. length (psChan s i) \<le> 1) \<and>
     (\<forall>i \<ge> psNext s. psWaiting s i = None \<and> psChan s i = [] \<and> i \<notin> psLate s \<and> psResult s i = None) \<and>
     (\<forall>i. psWaiting s i = None \<or> psResult s i = None) \<and>
     (\<forall>i m w. psWaiting s i = Some (m, w) \<longrightarrow> rwChan w = i)"

lemma promptOkD:
  assumes "promptOk s"
  shows "distinct (map fst (psReplies s))" "distinct (map rwChan (allWaiters (psReplies s)))"
    "(m, ws) \<in> set (psReplies s) \<Longrightarrow> ws \<noteq> []" "(m, ws) \<in> set (psReplies s) \<Longrightarrow> w \<in> set ws \<Longrightarrow> waitsFor s m w"
    "length (psChan s i) \<le> 1" "psNext s \<le> i \<Longrightarrow> psWaiting s i = None \<and> psChan s i = [] \<and> i \<notin> psLate s \<and> psResult s i = None"
    "psWaiting s i = Some (m, w) \<Longrightarrow> rwChan w = i" "psWaiting s i = None \<or> psResult s i = None"
proof -
  note ok = assms [unfolded promptOk_def]
  show "distinct (map fst (psReplies s))" "distinct (map rwChan (allWaiters (psReplies s)))" "length (psChan s i) \<le> 1"
    "psNext s \<le> i \<Longrightarrow> psWaiting s i = None \<and> psChan s i = [] \<and> i \<notin> psLate s \<and> psResult s i = None"
    "psWaiting s i = Some (m, w) \<Longrightarrow> rwChan w = i" "psWaiting s i = None \<or> psResult s i = None"
    using ok by simp_all
  have lists: "\<forall>(m, ws) \<in> set (psReplies s). ws \<noteq> [] \<and> (\<forall>w \<in> set ws. waitsFor s m w)" using ok by simp
  show "(m, ws) \<in> set (psReplies s) \<Longrightarrow> ws \<noteq> []" "(m, ws) \<in> set (psReplies s) \<Longrightarrow> w \<in> set ws \<Longrightarrow> waitsFor s m w"
    using lists by blast+
qed

lemma set_allWaiters: "w \<in> set (allWaiters rs) \<longleftrightarrow> (\<exists>m ws. (m, ws) \<in> set rs \<and> w \<in> set ws)"
  by (force simp: allWaiters_def)

lemma distinct_waiters_filter:
  "distinct (map rwChan (allWaiters rs)) \<Longrightarrow> distinct (map rwChan (allWaiters (filter P rs)))"
  by (induction rs) (auto simp: allWaiters_def)

lemma allWaiters_Cons [simp]: "allWaiters (e # rs) = snd e @ allWaiters rs"
  and allWaiters_Nil [simp]: "allWaiters [] = []"
  by (simp_all add: allWaiters_def)

lemma in_waitersE:
  assumes "w \<in> set (allWaiters rs)"
  obtains m ws where "(m, ws) \<in> set rs" "w \<in> set ws"
  using assms unfolding set_allWaiters by (elim exE conjE)

lemma in_filterE: "x \<in> set (filter P xs) \<Longrightarrow> x \<in> set xs" by simp

lemma waiter_parts:
  assumes "distinct (map rwChan (allWaiters rs))" "v \<in> set (allWaiters (filter P rs))"
    "w \<in> set (allWaiters (filter (\<lambda>e. \<not> P e) rs))"
  shows "rwChan v \<noteq> rwChan w"
  using assms
proof (induction rs)
  case (Cons e rs)
  have sub: "set (allWaiters (filter Q rs)) \<subseteq> set (allWaiters rs)" for Q by (auto simp: allWaiters_def)
  have d: "distinct (map rwChan (allWaiters rs))" and
    apart: "rwChan ` set (snd e) \<inter> rwChan ` set (allWaiters rs) = {}" using Cons.prems(1) by auto
  have far: "rwChan a \<noteq> rwChan b" if "a \<in> set (snd e)" "b \<in> set (allWaiters rs)" for a b
    using apart that by (metis disjoint_iff imageI)
  show ?case
  proof (cases "P e")
    case True
    then have v: "v \<in> set (snd e) \<or> v \<in> set (allWaiters (filter P rs))" and w: "w \<in> set (allWaiters (filter (\<lambda>e. \<not> P e) rs))"
      using Cons.prems(2,3) by simp_all
    from v show ?thesis using far [OF _ subsetD [OF sub w]] Cons.IH [OF d _ w] by metis
  next
    case False
    then have w: "w \<in> set (snd e) \<or> w \<in> set (allWaiters (filter (\<lambda>e. \<not> P e) rs))" and v: "v \<in> set (allWaiters (filter P rs))"
      using Cons.prems(2,3) by simp_all
    from w show ?thesis using far [OF _ subsetD [OF sub v]] Cons.IH [OF d v] by metis
  qed
qed simp

lemma sends_once: "distinct (map fst sends) \<Longrightarrow> length (filter (\<lambda>e. fst e = i) sends) \<le> 1"
proof (induction sends)
  case (Cons e sends)
  show ?case
  proof (cases "fst e = i")
    case True
    then have "i \<notin> fst ` set sends" using Cons.prems by auto
    then have "filter (\<lambda>e. fst e = i) sends = []" by (auto simp: filter_empty_conv)
    then show ?thesis using True by simp
  next
    case False
    then show ?thesis using Cons by simp
  qed
qed simp

lemma sends_none: "i \<notin> fst ` set sends \<Longrightarrow> sendAll sends ch i = ch i"
  by (force simp: sendAll_def filter_empty_conv)

lemma ok_deliver:
  assumes ok: "promptOk s" and rs: "rs = filter P (psReplies s)" and d: "distinct (map fst sends)"
    and to: "fst ` set sends \<subseteq> rwChan ` set (allWaiters (filter (\<lambda>e. \<not> P e) (psReplies s)))"
  shows "promptOk (s\<lparr>psReplies := rs, psChan := sendAll sends (psChan s)\<rparr>)"
proof -
  have quiet: "psChan s i = [] \<and> psWaiting s i \<noteq> None" if i: "i \<in> fst ` set sends" for i
  proof -
    obtain w where w: "w \<in> set (allWaiters (filter (\<lambda>e. \<not> P e) (psReplies s)))" "rwChan w = i"
      using subsetD [OF to i] by (auto elim: imageE)
    obtain m ws where "(m, ws) \<in> set (psReplies s)" "w \<in> set ws" using w(1) by (rule in_waitersE) (drule in_filterE)
    then have "waitsFor s m w" by (rule promptOkD(4) [OF ok])
    then show ?thesis using w(2) by (simp add: waitsFor_def)
  qed
  have chan: "length (sendAll sends (psChan s) i) \<le> 1" for i
  proof (cases "i \<in> fst ` set sends")
    case True
    then show ?thesis using quiet sends_once [OF d, of i] by (simp add: sendAll_def)
  qed (use promptOkD(5) [OF ok, of i] in \<open>simp add: sends_none\<close>)
  have keep: "sendAll sends (psChan s) (rwChan w) = psChan s (rwChan w)" if "(m, ws) \<in> set rs" "w \<in> set ws" for m ws w
  proof (rule sends_none)
    have "w \<in> set (allWaiters (filter P (psReplies s)))" using that unfolding rs set_allWaiters by blast
    note far = waiter_parts [OF promptOkD(2) [OF ok] this]
    show "rwChan w \<notin> fst ` set sends"
    proof
      assume "rwChan w \<in> fst ` set sends"
      from subsetD [OF to this] obtain v where "v \<in> set (allWaiters (filter (\<lambda>e. \<not> P e) (psReplies s)))" "rwChan v = rwChan w"
        by (auto elim: imageE)
      then show False using far by metis
    qed
  qed
  have fresh: "sendAll sends (psChan s) i = [] \<and> psWaiting s i = None \<and> i \<notin> psLate s \<and> psResult s i = None" if "psNext s \<le> i" for i
    using promptOkD(6) [OF ok that] quiet sends_none by metis
  show ?thesis
    unfolding promptOk_def
  proof (intro conjI)
    show "distinct (map fst (psReplies (s\<lparr>psReplies := rs, psChan := sendAll sends (psChan s)\<rparr>)))"
      using promptOkD(1) [OF ok] rs by (simp add: distinct_map_filter)
    show "distinct (map rwChan (allWaiters (psReplies (s\<lparr>psReplies := rs, psChan := sendAll sends (psChan s)\<rparr>))))"
      using distinct_waiters_filter [OF promptOkD(2) [OF ok]] rs by simp
    show "\<forall>(m, ws) \<in> set (psReplies (s\<lparr>psReplies := rs, psChan := sendAll sends (psChan s)\<rparr>)). ws \<noteq> [] \<and>
        (\<forall>w \<in> set ws. waitsFor (s\<lparr>psReplies := rs, psChan := sendAll sends (psChan s)\<rparr>) m w)"
      using promptOkD(3,4) [OF ok] keep rs by (auto simp: waitsFor_def)
    show "\<forall>i \<ge> psNext (s\<lparr>psReplies := rs, psChan := sendAll sends (psChan s)\<rparr>).
        psWaiting (s\<lparr>psReplies := rs, psChan := sendAll sends (psChan s)\<rparr>) i = None \<and>
        psChan (s\<lparr>psReplies := rs, psChan := sendAll sends (psChan s)\<rparr>) i = [] \<and>
        i \<notin> psLate (s\<lparr>psReplies := rs, psChan := sendAll sends (psChan s)\<rparr>) \<and>
        psResult (s\<lparr>psReplies := rs, psChan := sendAll sends (psChan s)\<rparr>) i = None"
      using fresh by simp
  qed (use chan promptOkD(7,8) [OF ok] in auto)
qed

lemma ok_answer:
  assumes "promptOk s" "i \<notin> rwChan ` set (allWaiters (psReplies s))" "i < psNext s"
  shows "promptOk (answer i r s)"
proof -
  have "rwChan w \<noteq> i" if "(m, ws) \<in> set (psReplies s)" "w \<in> set ws" for m ws w
    using that assms(2) set_allWaiters by blast
  then show ?thesis using assms(1,3) unfolding promptOk_def answer_def waitsFor_def by (auto split: if_splits)
qed

lemma delete_filter: "AList.delete m rs = filter (\<lambda>e. fst e \<noteq> m) rs"
  by (simp add: AList.delete_eq case_prod_beta') metis

text \<open>Adding a waiter to its list.\<close>

definition queued :: "replyMatcher \<Rightarrow> replies \<Rightarrow> replyWaiter list" where
  "queued m rs = (case map_of rs m of None \<Rightarrow> [] | Some ws \<Rightarrow> ws)"

lemma queued_Cons: "queued m ((k, ws) # rs) = (if k = m then ws else queued m rs)"
  by (simp add: queued_def)

lemma update_waiters:
  "rwChan w \<notin> rwChan ` set (allWaiters rs) \<Longrightarrow> distinct (map rwChan (allWaiters rs)) \<Longrightarrow>
   distinct (map rwChan (allWaiters (AList.update m (queued m rs @ [w]) rs))) \<and>
   rwChan ` set (allWaiters (AList.update m (queued m rs @ [w]) rs)) = insert (rwChan w) (rwChan ` set (allWaiters rs))"
proof (induction rs)
  case Nil
  then show ?case by (simp add: queued_def)
next
  case (Cons e rs)
  obtain k ws where e: "e = (k, ws)" by (cases e)
  show ?case
  proof (cases "k = m")
    case True
    then show ?thesis using Cons.prems by (auto simp: e queued_Cons)
  next
    case False
    have p: "rwChan w \<notin> rwChan ` set (allWaiters rs)" "distinct (map rwChan (allWaiters rs))"
      using Cons.prems by (auto simp: e)
    have apart: "rwChan ` set ws \<inter> rwChan ` set (allWaiters rs) = {}" "rwChan w \<notin> rwChan ` set ws"
      "distinct (map rwChan ws)" using Cons.prems by (auto simp: e)
    let ?u = "AList.update m (queued m rs @ [w]) rs"
    have u: "AList.update m (queued m (e # rs) @ [w]) (e # rs) = e # ?u" using False by (simp add: e queued_Cons)
    show ?thesis unfolding u using Cons.IH [OF p] apart by (auto simp: e image_Un)
  qed
qed

lemma ok_addWaiter:
  assumes ok: "promptOk s" and i: "rwChan w = psNext s"
  shows "promptOk (addWaiter m w s)"
proof -
  let ?rs = "AList.update m (queued m (psReplies s) @ [w]) (psReplies s)"
  have f: "psReplies (addWaiter m w s) = ?rs" "psChan (addWaiter m w s) = psChan s" "psLate (addWaiter m w s) = psLate s"
    "psWaiting (addWaiter m w s) = (psWaiting s)(rwChan w \<mapsto> (m, w))" "psNext (addWaiter m w s) = Suc (psNext s)"
    "psResult (addWaiter m w s) = psResult s"
    by (simp_all add: addWaiter_def queued_def)
  have idle: "psWaiting s (rwChan w) = None" "psChan s (rwChan w) = []" "rwChan w \<notin> psLate s" using promptOkD(6) [OF ok, of "rwChan w"] i by simp_all
  have old: "rwChan v \<noteq> rwChan w \<and> waitsFor (addWaiter m w s) k v" if "(k, ws) \<in> set (psReplies s)" "v \<in> set ws" for k ws v
  proof -
    have "waitsFor s k v" using promptOkD(4) [OF ok that] .
    moreover from this have "rwChan v \<noteq> rwChan w" using idle(1) by (auto simp: waitsFor_def)
    ultimately show ?thesis by (simp add: waitsFor_def f)
  qed
  have new: "rwChan w \<notin> rwChan ` set (allWaiters (psReplies s))"
  proof
    assume "rwChan w \<in> rwChan ` set (allWaiters (psReplies s))"
    then obtain v where v: "v \<in> set (allWaiters (psReplies s))" "rwChan v = rwChan w" by (auto elim: imageE)
    from v(1) obtain k ws where "(k, ws) \<in> set (psReplies s)" "v \<in> set ws" by (rule in_waitersE)
    then show False using old v(2) by blast
  qed
  have self: "waitsFor (addWaiter m w s) m w" using idle by (simp add: waitsFor_def f)
  have dk: "distinct (map fst ?rs)" using promptOkD(1) [OF ok] by (rule distinct_update)
  have entry: "ws \<noteq> [] \<and> (\<forall>v \<in> set ws. waitsFor (addWaiter m w s) k v)" if kw: "(k, ws) \<in> set ?rs" for k ws
  proof -
    have k: "((map_of (psReplies s))(m \<mapsto> queued m (psReplies s) @ [w])) k = Some ws"
      using kw dk map_of_eq_Some_iff update_conv' by metis
    show ?thesis
    proof (cases "k = m")
      case True
      then have ws: "ws = queued m (psReplies s) @ [w]" using k by simp
      have "waitsFor (addWaiter m w s) m v" if "v \<in> set (queued m (psReplies s))" for v
      proof (cases "map_of (psReplies s) m")
        case (Some us)
        then show ?thesis using that old [OF map_of_SomeD [OF Some]] by (simp add: queued_def)
      qed (use that in \<open>simp add: queued_def\<close>)
      then show ?thesis using self True ws by auto
    next
      case False
      then have "(k, ws) \<in> set (psReplies s)" using k map_of_SomeD by simp
      then show ?thesis using promptOkD(3) [OF ok] old by blast
    qed
  qed
  show ?thesis
    unfolding promptOk_def f
  proof (intro conjI)
    show "distinct (map rwChan (allWaiters ?rs))" using update_waiters [OF new promptOkD(2) [OF ok]] by blast
    show "\<forall>(k, ws) \<in> set ?rs. ws \<noteq> [] \<and> (\<forall>v \<in> set ws. waitsFor (addWaiter m w s) k v)" using entry by blast
    show "\<forall>i. length (psChan s i) \<le> 1" using promptOkD(5) [OF ok] by blast
    show "\<forall>j \<ge> Suc (psNext s). ((psWaiting s)(rwChan w \<mapsto> (m, w))) j = None \<and> psChan s j = [] \<and> j \<notin> psLate s \<and>
        psResult s j = None"
      using promptOkD(6) [OF ok] i by auto
    show "\<forall>j. ((psWaiting s)(rwChan w \<mapsto> (m, w))) j = None \<or> psResult s j = None"
      using promptOkD(8) [OF ok] promptOkD(6) [OF ok, of "rwChan w"] i by auto
    show "\<forall>j k v. ((psWaiting s)(rwChan w \<mapsto> (m, w))) j = Some (k, v) \<longrightarrow> rwChan v = j"
      using promptOkD(7) [OF ok] by auto
  qed (rule dk)
qed

text \<open>
  Every critical section that takes lists out of the map tells waiters of these lists only, each one
  once, and all of them but those in \<open>skip\<close>.
\<close>

definition chans :: "replies \<Rightarrow> nat set" where
  "chans rs = rwChan ` set (allWaiters rs)"

definition delivers :: "replies \<Rightarrow> nat set \<Rightarrow> (nat \<times> reply) list \<Rightarrow> replies \<Rightarrow> bool" where
  "delivers rs skip sends rs' \<longleftrightarrow>
     (\<exists>P. rs' = filter P rs \<and> distinct (map fst sends) \<and> fst ` set sends \<subseteq> chans (filter (\<lambda>e. \<not> P e) rs) \<and>
          chans (filter (\<lambda>e. \<not> P e) rs) \<subseteq> fst ` set sends \<union> skip)"

lemma deliversD:
  assumes "delivers rs skip sends rs'"
  shows "fst ` set sends \<subseteq> chans rs" "chans rs' \<subseteq> chans rs" "chans rs \<subseteq> chans rs' \<union> fst ` set sends \<union> skip"
proof -
  obtain P where P: "rs' = filter P rs" "fst ` set sends \<subseteq> chans (filter (\<lambda>e. \<not> P e) rs)"
    "chans (filter (\<lambda>e. \<not> P e) rs) \<subseteq> fst ` set sends \<union> skip" using assms unfolding delivers_def by blast
  have "chans rs = chans (filter P rs) \<union> chans (filter (\<lambda>e. \<not> P e) rs)"
    unfolding chans_def by (induction rs) auto
  then show "fst ` set sends \<subseteq> chans rs" "chans rs' \<subseteq> chans rs" "chans rs \<subseteq> chans rs' \<union> fst ` set sends \<union> skip"
    using P by auto
qed

lemma delivers_ok:
  "promptOk s \<Longrightarrow> delivers (psReplies s) skip sends rs \<Longrightarrow>
   promptOk (s\<lparr>psReplies := rs, psChan := sendAll sends (psChan s)\<rparr>)"
  unfolding delivers_def chans_def by (elim exE conjE) (rule ok_deliver)

lemma delivers_nothing: "delivers rs {} [] rs"
proof -
  have "rs = filter (\<lambda>_. True) rs" by simp
  then show ?thesis unfolding delivers_def by (intro exI [of _ "\<lambda>_. True"]) (simp add: chans_def)
qed

lemma same_chans: "map fst sends = map rwChan ws \<Longrightarrow> fst ` set sends = rwChan ` set ws"
  by (metis list.set_map)

lemma list_distinct: "distinct (map rwChan (allWaiters rs)) \<Longrightarrow> (m, ws) \<in> set rs \<Longrightarrow> distinct (map rwChan ws)"
  by (induction rs) auto

lemma key_waiters:
  "distinct (map fst rs) \<Longrightarrow> map_of rs m = Some ws \<Longrightarrow> allWaiters (filter (\<lambda>e. \<not> fst e \<noteq> m) rs) = ws"
proof (induction rs)
  case (Cons e rs)
  show ?case
  proof (cases "fst e = m")
    case True
    then have "m \<notin> fst ` set rs" using Cons.prems(1) by simp
    then have "\<forall>e \<in> set rs. fst e \<noteq> m" by blast
    then have "filter (\<lambda>e. fst e = m) rs = []" by (simp add: filter_empty_conv)
    then show ?thesis using True Cons.prems(2) by (cases e) simp
  next
    case False
    then show ?thesis using Cons by (cases e) simp
  qed
qed simp

lemma delivers_key:
  assumes ok: "promptOk s" and m: "map_of (psReplies s) m = Some ws" and d: "distinct (map fst sends)"
    and to: "fst ` set sends \<subseteq> rwChan ` set ws" and all: "rwChan ` set ws \<subseteq> fst ` set sends \<union> skip"
  shows "delivers (psReplies s) skip sends (AList.delete m (psReplies s))"
  unfolding delivers_def delete_filter
  by (intro exI [of _ "\<lambda>e. fst e \<noteq> m"]) (use d to all key_waiters [OF promptOkD(1) [OF ok] m] in \<open>simp add: chans_def\<close>)

lemma take_delivers:
  assumes ok: "promptOk s" and t: "takeReply m fmsg (psReplies s) = (found, sends, rs)"
  shows "delivers (psReplies s) {} sends rs"
proof (cases "map_of (psReplies s) m")
  case None
  then show ?thesis using t delivers_nothing by (simp add: takeReply_def)
next
  case (Some ws)
  then have s: "sends = replySends fmsg ws" "rs = AList.delete m (psReplies s)" using t by (simp_all add: takeReply_def)
  have c: "map fst sends = map rwChan ws" unfolding s(1) by (cases ws) (simp_all add: replySends_def comp_def)
  have "distinct (map rwChan ws)" using list_distinct [OF promptOkD(2) [OF ok] map_of_SomeD [OF Some]] .
  moreover have "fst ` set sends = rwChan ` set ws" using c by (rule same_chans)
  ultimately show ?thesis unfolding s(2) using c by (intro delivers_key [OF ok Some]) simp_all
qed

lemma interrupt_chans: "map fst (concat (map (interruptSends tid \<circ> snd) es)) = map rwChan (allWaiters es)"
  by (induction es) (simp_all add: interruptSends_def comp_def)

lemma interrupt_delivers:
  assumes ok: "promptOk s" and t: "interruptReplyWaitersForTask tid (psReplies s) = (hit, sends, rs)"
  shows "delivers (psReplies s) {} sends rs"
proof (cases "tid = 0")
  case True
  then show ?thesis using t delivers_nothing by (simp add: interruptReplyWaitersForTask_def)
next
  case False
  let ?hit = "\<lambda>e. list_ex (\<lambda>w. rwTid w = tid) (snd e)"
  have s: "sends = concat (map (interruptSends tid \<circ> snd) (filter ?hit (psReplies s)))" "rs = filter (\<lambda>e. \<not> ?hit e) (psReplies s)"
    using False t by (simp_all add: interruptReplyWaitersForTask_def Let_def)
  have c: "map fst sends = map rwChan (allWaiters (filter ?hit (psReplies s)))" unfolding s(1) by (rule interrupt_chans)
  then have "fst ` set sends = chans (filter ?hit (psReplies s))" using same_chans by (simp add: chans_def)
  moreover have "distinct (map fst sends)" unfolding c by (rule distinct_waiters_filter [OF promptOkD(2) [OF ok]])
  ultimately show ?thesis unfolding delivers_def s(2) by (intro exI [of _ "\<lambda>e. \<not> ?hit e"]) simp
qed

lemma timeout_delivers:
  assumes ok: "promptOk s" and m: "map_of (psReplies s) m = Some ws"
  shows "delivers (psReplies s) {rwChan (hd ws)} (map (\<lambda>v. (rwChan v, retryReply)) (drop 1 ws)) (AList.delete m (psReplies s))"
proof -
  have d: "distinct (map rwChan ws)" using list_distinct [OF promptOkD(2) [OF ok] map_of_SomeD [OF m]] .
  obtain v vs where ws: "ws = v # vs" using promptOkD(3) [OF ok map_of_SomeD [OF m]] by (cases ws) auto
  show ?thesis using d by (intro delivers_key [OF ok m]) (auto simp: ws comp_def image_image)
qed

lemma gone_waiters:
  assumes ok: "promptOk s" and m: "psWaiting s i = Some (m, w)"
  shows "i \<notin> chans (AList.delete m (psReplies s))"
proof
  assume "i \<in> chans (AList.delete m (psReplies s))"
  then obtain v where v: "v \<in> set (allWaiters (filter (\<lambda>e. fst e \<noteq> m) (psReplies s)))" "rwChan v = i"
    unfolding chans_def delete_filter by (auto elim: imageE)
  from v(1) obtain k ws where k: "(k, ws) \<in> set (filter (\<lambda>e. fst e \<noteq> m) (psReplies s))" "v \<in> set ws" by (rule in_waitersE)
  have "waitsFor s k v" using promptOkD(4) [OF ok in_filterE [OF k(1)] k(2)] .
  then show False using k(1) m v(2) by (simp add: waitsFor_def)
qed

lemma waits_in_map: "promptOk s \<Longrightarrow> i \<in> chans (psReplies s) \<Longrightarrow> psWaiting s i = Some (m, w) \<Longrightarrow>
    map_of (psReplies s) m \<noteq> None \<and> psChan s i = [] \<and> i \<notin> psLate s"
proof -
  assume ok: "promptOk s" and i: "i \<in> chans (psReplies s)" and m: "psWaiting s i = Some (m, w)"
  obtain v where v: "v \<in> set (allWaiters (psReplies s))" "rwChan v = i" using i unfolding chans_def by (auto elim: imageE)
  from v(1) obtain k ws where k: "(k, ws) \<in> set (psReplies s)" "v \<in> set ws" by (rule in_waitersE)
  have f: "waitsFor s k v" using promptOkD(4) [OF ok k] .
  then have "k = m" using m v(2) by (simp add: waitsFor_def)
  then have "m \<in> fst ` set (psReplies s)" using k(1) by force
  then show ?thesis using f v(2) by (simp add: waitsFor_def map_of_eq_None_iff)
qed

lemma ok_aside:
  assumes ok: "promptOk s" and i: "i \<notin> chans (psReplies s)" and ch: "length c \<le> 1" and old: "i < psNext s"
    and late: "L \<subseteq> insert i (psLate s)"
  shows "promptOk (s\<lparr>psChan := (psChan s)(i := c), psLate := L\<rparr>)"
proof -
  have away: "rwChan w \<noteq> i" if "(m, ws) \<in> set (psReplies s)" "w \<in> set ws" for m ws w
    using that i set_allWaiters unfolding chans_def by blast
  have L: "rwChan w \<notin> L" if "(m, ws) \<in> set (psReplies s)" "w \<in> set ws" for m ws w
    using away [OF that] promptOkD(4) [OF ok that] subsetD [OF late] by (auto simp: waitsFor_def)
  have fresh: "j \<notin> L" if "psNext s \<le> j" for j
    using promptOkD(6) [OF ok that] old that subsetD [OF late, of j] by auto
  show ?thesis
    using ok old ch away L fresh unfolding promptOk_def waitsFor_def by auto
qed

lemma waiting_old: "promptOk s \<Longrightarrow> psWaiting s i = Some x \<Longrightarrow> i < psNext s"
  using promptOkD(6) [of s i] by (cases "psNext s \<le> i") auto

lemma pastCheck_simps [simp]:
  "promptOk (pastCheck s) = promptOk s" "psReplies (pastCheck s) = psReplies s" "psChan (pastCheck s) = psChan s"
  "psWaiting (pastCheck s) = psWaiting s" "psLate (pastCheck s) = psLate s" "psNext (pastCheck s) = psNext s"
  "psResult (pastCheck s) = psResult s"
  by (simp_all add: pastCheck_def promptOk_def waitsFor_def)

lemma promptStep_ok:
  assumes "promptStep s l s'" "promptOk s"
  shows "promptOk s'"
  using assms
proof (induction rule: promptStep.induct)
  case (check s)
  then show ?case unfolding promptOk_def waitsFor_def by simp
next
  case (ask_shutdown s i)
  then show ?case unfolding promptOk_def waitsFor_def by simp
next
  case (ask_unknown s i)
  then have "promptOk (pastCheck s)" by simp
  then show ?case using ask_unknown.hyps unfolding promptOk_def waitsFor_def by simp
next
  case (ask_first s m i sent re tid)
  show ?case
  proof (cases "sent = Ok")
    case True
    then show ?thesis using ask_first ok_addWaiter [of "pastCheck s"] by simp
  next
    case False
    have "promptOk (pastCheck s)" using ask_first.prems by simp
    then show ?thesis using False unfolding promptOk_def waitsFor_def by (simp add: ask_first.hyps)
  qed
next
  case (ask_next s m i re tid)
  then show ?case using ok_addWaiter [of "pastCheck s"] by simp
next
  case (message m fmsg s found sends rs)
  then show ?case using delivers_ok take_delivers by blast
next
  case (interrupt tid s hit sends rs)
  then show ?case using delivers_ok interrupt_delivers by blast
next
  case (time_out s i m w ws)
  show ?case
    by (rule ok_answer [OF delivers_ok [OF time_out.prems timeout_delivers [OF time_out.prems time_out.hyps(3)]]])
      (use gone_waiters [OF time_out.prems time_out.hyps(1)] waiting_old [OF time_out.prems time_out.hyps(1)] in
        \<open>simp_all add: chans_def\<close>)
next
  case (time_out_late s i m w)
  have "i \<notin> chans (psReplies s)" using waits_in_map time_out_late by blast
  moreover have "length (psChan s i) \<le> 1" by (rule promptOkD(5) [OF time_out_late.prems])
  ultimately show ?case
    using ok_aside [OF time_out_late.prems, of i "psChan s i" "insert i (psLate s)"] waiting_old time_out_late by simp
next
  case (receive s i m w r rest)
  have i: "i \<notin> chans (psReplies s)" using waits_in_map receive by (metis list.distinct(1))
  have "length rest \<le> 1" using promptOkD(5) [OF receive.prems, of i] receive.hyps(2) by simp
  then have "promptOk (s\<lparr>psChan := (psChan s)(i := rest)\<rparr>)"
    using ok_aside [OF receive.prems i, of rest "psLate s"] waiting_old receive by auto
  then show ?case by (rule ok_answer) (use i waiting_old [OF receive.prems receive.hyps(1)] in \<open>simp_all add: chans_def\<close>)
next
  case (shutdown s)
  then show ?case unfolding promptOk_def waitsFor_def by simp
next
  case (abort s i m w)
  have s: "sendAll [] (psChan s) = psChan s" by (rule ext) (simp add: sendAll_def)
  have "promptOk (s\<lparr>psReplies := AList.delete m (psReplies s), psChan := sendAll [] (psChan s)\<rparr>)"
    by (rule ok_deliver [OF abort.prems delete_filter]) simp_all
  then have "promptOk (s\<lparr>psReplies := AList.delete m (psReplies s)\<rparr>)" unfolding s by simp
  then show ?case
    by (rule ok_answer)
      (use gone_waiters [OF abort.prems abort.hyps(2)] waiting_old [OF abort.prems abort.hyps(2)] in \<open>simp_all add: chans_def\<close>)
qed

lemma promptOk_init: "promptOk initPrompts"
  by (simp add: promptOk_def initPrompts_def)

lemma promptRun_ok: "promptRun s ls s' \<Longrightarrow> promptOk s \<Longrightarrow> promptOk s'"
  by (induction rule: promptRun.induct) (auto intro: promptStep_ok)

text \<open>A waiter that is not in the map and has nothing in its channel is not told by anybody else.\<close>

lemma chans_waiting: "promptOk s \<Longrightarrow> i \<in> chans (psReplies s) \<Longrightarrow> psWaiting s i \<noteq> None"
proof -
  assume ok: "promptOk s" and i: "i \<in> chans (psReplies s)"
  obtain v where v: "v \<in> set (allWaiters (psReplies s))" "rwChan v = i" using i unfolding chans_def by (auto elim: imageE)
  from v(1) obtain k ws where k: "(k, ws) \<in> set (psReplies s)" "v \<in> set ws" by (rule in_waitersE)
  show ?thesis using promptOkD(4) [OF ok k] v(2) by (simp add: waitsFor_def)
qed

lemma chans_addWaiter:
  assumes ok: "promptOk s" and i: "rwChan w = psNext s"
  shows "chans (psReplies (addWaiter m w s)) = insert (psNext s) (chans (psReplies s))"
proof -
  have "rwChan w \<notin> rwChan ` set (allWaiters (psReplies s))"
    using chans_waiting [OF ok, of "rwChan w"] promptOkD(6) [OF ok, of "rwChan w"] i by (auto simp: chans_def)
  from update_waiters [OF this promptOkD(2) [OF ok], of m] show ?thesis
    unfolding chans_def addWaiter_def by (simp add: i flip: queued_def)
qed

definition forgotten :: "promptState \<Rightarrow> nat \<Rightarrow> bool" where
  "forgotten s i \<longleftrightarrow> psWaiting s i \<noteq> None \<and> psChan s i = [] \<and> i \<notin> chans (psReplies s)"

definition unanswered :: "promptState \<Rightarrow> nat \<Rightarrow> bool" where
  "unanswered s i \<longleftrightarrow> psWaiting s i = None \<and> i < psNext s \<and>
     (psResult s i = Some ([], TimeoutExpired) \<or> psResult s i = Some ([], Interrupted))"

lemma forgotten_deliver:
  "delivers (psReplies s) skip sends rs \<Longrightarrow> forgotten s i \<Longrightarrow>
   sendAll sends (psChan s) i = [] \<and> i \<notin> chans rs"
proof -
  assume d: "delivers (psReplies s) skip sends rs" and f: "forgotten s i"
  have i: "i \<notin> chans (psReplies s)" "psChan s i = []" using f by (simp_all add: forgotten_def)
  have "i \<notin> fst ` set sends" using contra_subsetD [OF deliversD(1) [OF d] i(1)] .
  then have "sendAll sends (psChan s) i = []" using sends_none i(2) by metis
  then show ?thesis using contra_subsetD [OF deliversD(2) [OF d] i(1)] by simp
qed

lemma forgotten_step:
  assumes "promptStep s l s'" "promptOk s" "forgotten s i"
  shows "forgotten s' i \<and> (i \<in> psLate s \<longrightarrow> i \<in> psLate s') \<or> i \<notin> psLate s \<and> unanswered s' i"
  using assms
proof (induction rule: promptStep.induct)
  case (ask_first s m j sent re tid)
  have "i < psNext s" using waiting_old ask_first.prems by (auto simp: forgotten_def)
  moreover from this have "sent = Ok \<Longrightarrow> i \<notin> chans (psReplies (addWaiter m \<lparr>rwRe = re, rwChan = j, rwTid = tid\<rparr> (pastCheck s)))"
    using ask_first by (subst chans_addWaiter) (auto simp: forgotten_def)
  ultimately show ?case using ask_first.prems(2) ask_first.hyps(3) by (auto simp: forgotten_def addWaiter_def)
next
  case (ask_next s m j re tid)
  have "i < psNext s" using waiting_old ask_next.prems by (auto simp: forgotten_def)
  moreover from this have "i \<notin> chans (psReplies (addWaiter m \<lparr>rwRe = re, rwChan = j, rwTid = tid\<rparr> (pastCheck s)))"
    using ask_next by (subst chans_addWaiter) (auto simp: forgotten_def)
  ultimately show ?case using ask_next.prems(2) ask_next.hyps(3) by (auto simp: forgotten_def addWaiter_def)
next
  case (message m fmsg s found sends rs)
  from forgotten_deliver [OF take_delivers [OF message.prems(1) message.hyps] message.prems(2)]
  show ?case using message.prems(2) by (simp add: forgotten_def)
next
  case (interrupt tid s hit sends rs)
  from forgotten_deliver [OF interrupt_delivers [OF interrupt.prems(1) interrupt.hyps] interrupt.prems(2)]
  show ?case using interrupt.prems(2) by (simp add: forgotten_def)
next
  case (time_out s j m w ws)
  from forgotten_deliver [OF timeout_delivers [OF time_out.prems(1) time_out.hyps(3)] time_out.prems(2)]
  show ?case using time_out waiting_old [OF time_out.prems(1) time_out.hyps(1)]
    by (cases "i = j") (simp_all add: forgotten_def unanswered_def answer_def)
next
  case (receive s j m w r rest)
  then show ?case by (cases "i = j") (simp_all add: forgotten_def answer_def)
next
  case (abort s j m w)
  have "i \<notin> chans (AList.delete m (psReplies s))"
    using abort.prems(2) unfolding forgotten_def chans_def delete_filter by (auto simp: allWaiters_def)
  then show ?case using abort waiting_old [OF abort.prems(1) abort.hyps(2)]
    by (cases "i = j") (simp_all add: forgotten_def unanswered_def answer_def)
qed (simp_all add: forgotten_def)

lemma unanswered_step: "promptStep s l s' \<Longrightarrow> unanswered s i \<Longrightarrow> unanswered s' i"
  by (induction rule: promptStep.induct) (auto simp: unanswered_def answer_def addWaiter_def)

lemma forgotten_run:
  "promptRun s ls s' \<Longrightarrow> promptOk s \<Longrightarrow> forgotten s i \<Longrightarrow> forgotten s' i \<or> unanswered s' i"
proof (induction rule: promptRun.induct)
  case (prompt_step s ls t l u)
  then show ?case using forgotten_step [OF prompt_step.hyps(2) promptRun_ok [OF prompt_step.hyps(1)]] unanswered_step by blast
qed simp

lemma stuck_run:
  "promptRun s ls s' \<Longrightarrow> promptOk s \<Longrightarrow> forgotten s i \<and> i \<in> psLate s \<Longrightarrow> forgotten s' i \<and> i \<in> psLate s'"
proof (induction rule: promptRun.induct)
  case (prompt_step s ls t l u)
  then show ?case using forgotten_step [OF prompt_step.hyps(2) promptRun_ok [OF prompt_step.hyps(1)]] by blast
qed simp

text \<open>
  When every time-out is that of the first waiter of its list, and nothing is aborted, everybody who
  waits is in the map or has been told.
\<close>

definition inOrder :: "promptState \<Rightarrow> promptLabel \<Rightarrow> bool" where
  "inOrder s l \<longleftrightarrow>
     (case l of
        TimeOut i \<Rightarrow> (case psWaiting s i of
                        None \<Rightarrow> True
                      | Some (m, w) \<Rightarrow> (case map_of (psReplies s) m of
                                          None \<Rightarrow> True | Some [] \<Rightarrow> True | Some (v # vs) \<Rightarrow> rwChan v = i))
      | Abort i \<Rightarrow> False
      | _ \<Rightarrow> True)"

inductive orderlyRun :: "promptState \<Rightarrow> promptLabel list \<Rightarrow> promptState \<Rightarrow> bool" where
  orderly_nil: "orderlyRun s [] s"
| orderly_step: "orderlyRun s ls t \<Longrightarrow> promptStep t l u \<Longrightarrow> inOrder t l \<Longrightarrow> orderlyRun s (ls @ [l]) u"

lemma orderlyRun_promptRun: "orderlyRun s ls s' \<Longrightarrow> promptRun s ls s'"
  by (induction rule: orderlyRun.induct) (auto intro: promptRun.intros)

definition nobodyForgotten :: "promptState \<Rightarrow> bool" where
  "nobodyForgotten s \<longleftrightarrow> (\<forall>i. \<not> forgotten s i)"

lemma deliver_told:
  assumes "delivers (psReplies s) skip sends rs" "\<not> forgotten s i" "i \<notin> skip" "psWaiting s i \<noteq> None"
  shows "sendAll sends (psChan s) i \<noteq> [] \<or> i \<in> chans rs"
proof (cases "psChan s i = []")
  case True
  then have "i \<in> chans (psReplies s)" using assms(2,4) by (simp add: forgotten_def)
  then have "i \<in> chans rs \<or> i \<in> fst ` set sends" using subsetD [OF deliversD(3) [OF assms(1)]] assms(3) by auto
  then show ?thesis by (auto simp: sendAll_def filter_empty_conv)
qed (simp add: sendAll_def)

lemma inOrder_step:
  assumes "promptStep s l s'" "promptOk s" "inOrder s l" "nobodyForgotten s"
  shows "nobodyForgotten s'"
  using assms
proof (induction rule: promptStep.induct)
  case (ask_first s m j sent re tid)
  then show ?case
    using chans_addWaiter [of "pastCheck s" "\<lparr>rwRe = re, rwChan = j, rwTid = tid\<rparr>" m] ask_first.prems(1)
    by (auto simp: nobodyForgotten_def forgotten_def addWaiter_def)
next
  case (ask_next s m j re tid)
  then show ?case
    using chans_addWaiter [of "pastCheck s" "\<lparr>rwRe = re, rwChan = j, rwTid = tid\<rparr>" m] ask_next.prems(1)
    by (auto simp: nobodyForgotten_def forgotten_def addWaiter_def)
next
  case (message m fmsg s found sends rs)
  show ?case
    using deliver_told [OF take_delivers [OF message.prems(1) message.hyps]] message.prems(3)
    by (auto simp: nobodyForgotten_def forgotten_def)
next
  case (interrupt tid s hit sends rs)
  show ?case
    using deliver_told [OF interrupt_delivers [OF interrupt.prems(1) interrupt.hyps]] interrupt.prems(3)
    by (auto simp: nobodyForgotten_def forgotten_def)
next
  case (time_out s i m w ws)
  obtain v vs where ws: "ws = v # vs" using promptOkD(3) [OF time_out.prems(1) map_of_SomeD [OF time_out.hyps(3)]] by (cases ws) auto
  have v: "rwChan v = i" using time_out.prems(2) time_out.hyps by (simp add: inOrder_def ws)
  have told: "psWaiting s j \<noteq> None \<Longrightarrow> j \<noteq> i \<Longrightarrow>
      sendAll (map (\<lambda>v. (rwChan v, retryReply)) (drop 1 ws)) (psChan s) j \<noteq> [] \<or> j \<in> chans (AList.delete m (psReplies s))" for j
    using deliver_told [OF timeout_delivers [OF time_out.prems(1) time_out.hyps(3)], of j] time_out.prems(3)
    by (simp add: nobodyForgotten_def ws v)
  then show ?case by (auto simp: nobodyForgotten_def forgotten_def answer_def)
next
  case (receive s j m w r rest)
  then show ?case by (auto simp: nobodyForgotten_def forgotten_def answer_def)
qed (auto simp: nobodyForgotten_def forgotten_def inOrder_def)

lemma orderlyRun_told: "orderlyRun s ls s' \<Longrightarrow> promptOk s \<Longrightarrow> nobodyForgotten s \<Longrightarrow> nobodyForgotten s'"
proof (induction rule: orderlyRun.induct)
  case (orderly_step s ls t l u)
  then show ?case using inOrder_step promptRun_ok orderlyRun_promptRun by blast
qed

subsection \<open>Properties\<close>

text \<open>Two tasks that prompt the same user in the same place, the second behind the first.\<close>

definition demoKey :: replyMatcher where
  "demoKey = \<lparr>rmProtocol = ''ssh'', rmUser = ''alice'', rmChannel = ''general'', rmThread = []\<rparr>"

definition demoWaiter :: "nat \<Rightarrow> replyWaiter" where
  "demoWaiter i = \<lparr>rwRe = (\<lambda>text. text = ''yes''), rwChan = i, rwTid = Suc i\<rparr>"

definition demoPrompts :: promptState where
  "demoPrompts = addWaiter demoKey (demoWaiter 1) (addWaiter demoKey (demoWaiter 0) initPrompts)"

definition demoInterpreted :: Task where
  "demoInterpreted = demoTask\<lparr>tkType := TaskGo\<rparr>"

lemmas demo_prompts = demoPrompts_def demoWaiter_def addWaiter_def initPrompts_def

lemma demoPrompts_run: "orderlyRun initPrompts [Check, AskFirst demoKey Ok, Check, AskNext demoKey] demoPrompts"
proof -
  let ?first = "addWaiter demoKey (demoWaiter 0) initPrompts"
  have c: "promptStep s Check (s\<lparr>psChecked := 1\<rparr>)" if "psChecked s = 0" "\<not> psShutdown s" for s
    using promptStep.check [of s] that by simp
  have 1: "promptStep (initPrompts\<lparr>psChecked := 1\<rparr>) (AskFirst demoKey Ok) ?first"
    using promptStep.ask_first [of "initPrompts\<lparr>psChecked := 1\<rparr>" demoKey 0 Ok "rwRe (demoWaiter 0)" "rwTid (demoWaiter 0)"]
    by (simp add: demo_prompts pastCheck_def)
  have 2: "promptStep (?first\<lparr>psChecked := 1\<rparr>) (AskNext demoKey) demoPrompts"
    using promptStep.ask_next [of "?first\<lparr>psChecked := 1\<rparr>" demoKey 1 "rwRe (demoWaiter 1)" "rwTid (demoWaiter 1)"]
    by (simp add: demo_prompts pastCheck_def)
  have a: "orderlyRun initPrompts [Check] (initPrompts\<lparr>psChecked := 1\<rparr>)"
    using orderly_step [OF orderly_nil c [of initPrompts]] by (simp add: inOrder_def initPrompts_def)
  have b: "orderlyRun initPrompts [Check, AskFirst demoKey Ok] ?first"
    using orderly_step [OF a 1] by (simp add: inOrder_def)
  have "orderlyRun initPrompts [Check, AskFirst demoKey Ok, Check] (?first\<lparr>psChecked := 1\<rparr>)"
    using orderly_step [OF b c [of ?first]] by (simp add: inOrder_def demo_prompts)
  from orderly_step [OF this 2] show ?thesis by (simp add: inOrder_def)
qed

lemma reply_sent:
  assumes d: "distinct (map rwChan (v # vs))"
  shows "sendAll (replySends fmsg (v # vs)) ch (rwChan v) = ch (rwChan v) @ [replyTo (rwRe v) fmsg]"
    "u \<in> set vs \<Longrightarrow> sendAll (replySends fmsg (v # vs)) ch (rwChan u) = ch (rwChan u) @ [retryReply]"
proof -
  have none: "filter (\<lambda>e. fst e = rwChan v) (map (\<lambda>v. (rwChan v, retryReply)) vs) = []"
    using d by (simp add: filter_empty_conv) (metis imageI)
  then show "sendAll (replySends fmsg (v # vs)) ch (rwChan v) = ch (rwChan v) @ [replyTo (rwRe v) fmsg]"
    by (simp add: sendAll_def replySends_def)
  assume u: "u \<in> set vs"
  have "filter (\<lambda>e. fst e = rwChan u) (map (\<lambda>v. (rwChan v, retryReply)) xs) = [(rwChan u, retryReply)]"
    if "u \<in> set xs" "distinct (map rwChan xs)" for xs
    using that
  proof (induction xs)
    case (Cons x xs)
    show ?case
    proof (cases "rwChan x = rwChan u")
      case True
      then have "x = u" using Cons.prems by (auto dest: imageI [of u _ rwChan])
      then have "filter (\<lambda>e. fst e = rwChan u) (map (\<lambda>v. (rwChan v, retryReply)) xs) = []"
        using Cons.prems(2) by (simp add: filter_empty_conv) (metis imageI)
      then show ?thesis using \<open>x = u\<close> by simp
    next
      case False
      then show ?thesis using Cons by auto
    qed
  qed simp
  then show "sendAll (replySends fmsg (v # vs)) ch (rwChan u) = ch (rwChan u) @ [retryReply]"
    using d u by (auto simp: sendAll_def replySends_def)
qed

text \<open>
  C22. The channel of a prompt has room for one reply, and however prompts, replies, time-outs and
  interruptions interleave it never has to hold two, so the sends under the lock of the map do not
  block; a waiter that has been told is not in the map any more, and nobody waits who has his result.
\<close>

theorem sends_never_block:
  assumes "promptRun initPrompts ls s"
  shows "length (psChan s i) \<le> 1 \<and> (psChan s i \<noteq> [] \<longrightarrow> i \<notin> chans (psReplies s)) \<and> (psWaiting s i = None \<or> psResult s i = None)"
proof -
  have ok: "promptOk s" using promptRun_ok [OF assms promptOk_init] .
  have "psChan s i \<noteq> [] \<longrightarrow> i \<notin> chans (psReplies s)"
    using chans_waiting [OF ok, of i] waits_in_map [OF ok, of i] by (cases "psWaiting s i") auto
  then show ?thesis using promptOkD(5,8) [OF ok] by simp
qed

theorem sends_never_block_witness:
  "\<exists>s. promptRun initPrompts [Check, AskFirst demoKey Ok, Check, AskNext demoKey, Message demoKey ''yes''] s \<and>
     psChan s 0 \<noteq> [] \<and> length (psChan s 0) \<le> 1 \<and> 0 \<notin> chans (psReplies s)"
proof -
  have "takeReply demoKey ''yes'' (psReplies demoPrompts) = (True, replySends ''yes'' [demoWaiter 0, demoWaiter 1], [])"
    by (simp add: takeReply_def demo_prompts)
  from prompt_step [OF orderlyRun_promptRun [OF demoPrompts_run] promptStep.message [OF this]]
  obtain s where run: "promptRun initPrompts [Check, AskFirst demoKey Ok, Check, AskNext demoKey, Message demoKey ''yes''] s"
    and s: "psChan s 0 = sendAll (replySends ''yes'' [demoWaiter 0, demoWaiter 1]) (psChan demoPrompts) 0" by auto
  have "psChan s 0 \<noteq> []" using s by (simp add: sendAll_def replySends_def demoWaiter_def)
  then show ?thesis using sends_never_block [OF run, of 0] run by blast
qed

text \<open>
  C23. A reply goes to the waiter that was first: he gets the message, checked against his expression; the
  others are told to ask again, each once, and the place is free for the next prompt.
\<close>

theorem reply_to_first:
  assumes run: "promptRun initPrompts ls s" and m: "map_of (psReplies s) m = Some (v # vs)" and step: "promptStep s (Message m fmsg) s'"
  shows "psChan s' (rwChan v) = [replyTo (rwRe v) fmsg] \<and> (\<forall>u \<in> set vs. psChan s' (rwChan u) = [retryReply]) \<and>
    map_of (psReplies s') m = None \<and> (\<forall>k. k \<noteq> m \<longrightarrow> map_of (psReplies s') k = map_of (psReplies s) k)"
proof -
  have ok: "promptOk s" using promptRun_ok [OF run promptOk_init] .
  note entry = map_of_SomeD [OF m]
  have d: "distinct (map rwChan (v # vs))" using list_distinct [OF promptOkD(2) [OF ok] entry] .
  have quiet: "psChan s (rwChan u) = []" if "u \<in> set (v # vs)" for u
    using promptOkD(4) [OF ok entry that] by (simp add: waitsFor_def)
  have s': "s' = s\<lparr>psReplies := AList.delete m (psReplies s), psChan := sendAll (replySends fmsg (v # vs)) (psChan s)\<rparr>"
    using step m by (simp add: promptStep_message takeReply_def)
  show ?thesis
    using reply_sent [OF d, where fmsg = fmsg and ch = "psChan s"] quiet unfolding s' by (simp add: delete_conv')
qed

theorem reply_to_first_witness:
  "psChan (demoPrompts\<lparr>psReplies := [], psChan := sendAll (replySends ''yes'' [demoWaiter 0, demoWaiter 1]) (psChan demoPrompts)\<rparr>) 0 =
     [\<lparr>rpMatched = True, rpDisposition = Replied, rpRep = ''yes''\<rparr>]"
proof -
  have m: "map_of (psReplies demoPrompts) demoKey = Some [demoWaiter 0, demoWaiter 1]" by (simp add: demo_prompts)
  have "takeReply demoKey ''yes'' (psReplies demoPrompts) = (True, replySends ''yes'' [demoWaiter 0, demoWaiter 1], [])"
    by (simp add: takeReply_def demo_prompts)
  note step = promptStep.message [OF this]
  show ?thesis
    using reply_to_first [OF orderlyRun_promptRun [OF demoPrompts_run] m step] by (simp add: demoWaiter_def replyTo_def)
qed

text \<open>
  C24. In a run in which every time-out is that of the first waiter of its list and nobody gives up at a
  shutdown of the robot, nobody waits in vain: a prompt that has not returned can time out, and then
  returns or has a reply in its channel; and when its time ran out after its list was taken, the reply
  that beat the time-out is there, and it returns. (An aborted waiter takes its whole list along, so
  after a shutdown a waiter whose time runs out then waits for ever.)
\<close>

theorem prompts_return:
  assumes run: "orderlyRun initPrompts ls s" and w: "psWaiting s i = Some (m, w)"
  shows "(i \<notin> psLate s \<longrightarrow> (\<exists>s'. promptStep s (TimeOut i) s' \<and> (psResult s' i \<noteq> None \<or> psChan s' i \<noteq> []))) \<and>
    (i \<in> psLate s \<longrightarrow> (\<exists>s'. promptStep s (Receive i) s' \<and> psResult s' i \<noteq> None))"
proof -
  have ok: "promptOk s" using promptRun_ok [OF orderlyRun_promptRun [OF run] promptOk_init] .
  have told: "nobodyForgotten s" by (rule orderlyRun_told [OF run promptOk_init]) (simp add: nobodyForgotten_def forgotten_def initPrompts_def)
  have here: "psChan s i \<noteq> [] \<or> i \<in> chans (psReplies s)" using told w by (auto simp: nobodyForgotten_def forgotten_def)
  have late: "\<exists>s'. promptStep s (TimeOut i) s' \<and> (psResult s' i \<noteq> None \<or> psChan s' i \<noteq> [])" if "i \<notin> psLate s"
  proof (cases "map_of (psReplies s) m")
    case None
    then have "psChan s i \<noteq> []" using here waits_in_map [OF ok _ w] by blast
    then show ?thesis using promptStep.time_out_late [OF w that None] by (intro exI conjI) (assumption, simp)
  next
    case (Some ws)
    from promptStep.time_out [OF w that Some] show ?thesis by (intro exI conjI) (assumption, simp add: answer_def)
  qed
  have recv: "\<exists>s'. promptStep s (Receive i) s' \<and> psResult s' i \<noteq> None" if "i \<in> psLate s"
  proof -
    have "psChan s i \<noteq> []" using here waits_in_map [OF ok _ w] that by blast
    then obtain r rest where "psChan s i = r # rest" by (cases "psChan s i") auto
    from promptStep.receive [OF w this] show ?thesis by (intro exI conjI) (assumption, simp add: answer_def)
  qed
  show ?thesis using late recv by blast
qed

theorem prompts_return_witness:
  "psWaiting demoPrompts 0 = Some (demoKey, demoWaiter 0) \<and> 0 \<notin> psLate demoPrompts \<and>
   (\<exists>s'. promptStep demoPrompts (TimeOut 0) s')"
proof -
  have "psWaiting demoPrompts 0 = Some (demoKey, demoWaiter 0)" "0 \<notin> psLate demoPrompts" by (simp_all add: demo_prompts)
  then show ?thesis using prompts_return [OF demoPrompts_run] by blast
qed

text \<open>
  C39. A waiter behind the first one has a time-out of his own, which may be the shorter one: 45 seconds
  against 42 minutes for a prompt of an interpreted task at a terminal. When it runs out the code takes
  the whole list out of the map and tells all but the first entry, taking that for the caller. The
  first waiter is forgotten: the user's next message does not reach him, no later event gives him a
  reply, and once his own time has run out he blocks on his channel for ever.
\<close>

theorem prompt_orphaned:
  assumes run: "promptRun initPrompts ls s" and j: "psWaiting s j = Some (m, w)" and m: "map_of (psReplies s) m = Some (v # vs)"
    and behind: "rwChan v \<noteq> j" and step: "promptStep s (TimeOut j) s1"
  shows "fst (takeReply m fmsg (psReplies s1)) = False \<and>
    (\<forall>ls' s2. promptRun s1 ls' s2 \<longrightarrow> psResult s2 (rwChan v) \<in> {None, Some ([], TimeoutExpired), Some ([], Interrupted)}) \<and>
    (\<exists>s2. promptStep s1 (TimeOut (rwChan v)) s2 \<and> (\<forall>ls' s3. promptRun s2 ls' s3 \<longrightarrow> psResult s3 (rwChan v) = None))"
proof -
  let ?i = "rwChan v"
  have ok: "promptOk s" using promptRun_ok [OF run promptOk_init] .
  have ok1: "promptOk s1" using promptStep_ok [OF step ok] .
  have v: "waitsFor s m v" using promptOkD(4) [OF ok map_of_SomeD [OF m]] by simp
  have d: "distinct (map rwChan (v # vs))" using list_distinct [OF promptOkD(2) [OF ok] map_of_SomeD [OF m]] .
  have s1: "s1 = answer j ([], TimeoutExpired) (s\<lparr>psReplies := AList.delete m (psReplies s),
      psChan := sendAll (map (\<lambda>v. (rwChan v, retryReply)) vs) (psChan s)\<rparr>)"
    using step j m by (auto simp: promptStep_timeout)
  have "?i \<notin> fst ` set (map (\<lambda>v. (rwChan v, retryReply)) vs)" using d by (simp add: image_image)
  then have c: "psChan s1 ?i = []" using v sends_none by (simp add: s1 answer_def waitsFor_def)
  have wait: "psWaiting s1 ?i = Some (m, v)" "?i \<notin> psLate s1" using v behind by (simp_all add: s1 answer_def waitsFor_def)
  have gone: "map_of (psReplies s1) m = None" by (simp add: s1 answer_def delete_conv')
  have f: "forgotten s1 ?i" using wait(1) c waits_in_map [OF ok1 _ wait(1)] gone by (auto simp: forgotten_def)
  have never: "psResult s2 ?i \<in> {None, Some ([], TimeoutExpired), Some ([], Interrupted)}" if "promptRun s1 ls' s2" for ls' s2
    using forgotten_run [OF that ok1 f] promptOkD(8) [OF promptRun_ok [OF that ok1], of ?i] by (auto simp: forgotten_def unanswered_def)
  let ?s2 = "s1\<lparr>psLate := insert ?i (psLate s1)\<rparr>"
  have late: "promptStep s1 (TimeOut ?i) ?s2" by (rule promptStep.time_out_late [OF wait gone])
  have stuck: "psResult s3 ?i = None" if "promptRun ?s2 ls' s3" for ls' s3
  proof -
    have ok2: "promptOk ?s2" using promptStep_ok [OF late ok1] .
    have "forgotten s3 ?i" using stuck_run [OF that ok2, of ?i] f by (simp add: forgotten_def)
    then show ?thesis using promptOkD(8) [OF promptRun_ok [OF that ok2], of ?i] by (auto simp: forgotten_def)
  qed
  show ?thesis using gone never late stuck by (auto simp: takeReply_def)
qed

theorem prompt_orphaned_witness:
  "\<exists>s1 s2 s3. promptStep demoPrompts (TimeOut 1) s1 \<and> promptStep s1 (TimeOut 0) s2 \<and>
     promptRun s2 [Message demoKey ''yes''] s3 \<and> psResult s3 0 = None \<and>
     promptTimeoutForContext ''ssh'' demoInterpreted > replyTimeout"
proof -
  have j: "psWaiting demoPrompts 1 = Some (demoKey, demoWaiter 1)" "1 \<notin> psLate demoPrompts" by (simp_all add: demo_prompts)
  have m: "map_of (psReplies demoPrompts) demoKey = Some [demoWaiter 0, demoWaiter 1]" by (simp add: demo_prompts)
  obtain s1 where step: "promptStep demoPrompts (TimeOut 1) s1" using promptStep.time_out [OF j m] by blast
  have v: "rwChan (demoWaiter 0) = 0" by (simp add: demoWaiter_def)
  have timeout: "promptTimeoutForContext ''ssh'' demoInterpreted > replyTimeout" by code_simp
  obtain s2 where late: "promptStep s1 (TimeOut 0) s2" and stuck: "\<forall>ls s3. promptRun s2 ls s3 \<longrightarrow> psResult s3 0 = None"
    using prompt_orphaned [OF orderlyRun_promptRun [OF demoPrompts_run] j(1) m _ step, unfolded v, THEN conjunct2, THEN conjunct2] by auto
  obtain found sends rs where t: "takeReply demoKey ''yes'' (psReplies s2) = (found, sends, rs)" by (metis prod_cases3)
  from prompt_step [OF prompt_nil promptStep.message [OF t]] obtain s3 where "promptRun s2 [Message demoKey ''yes''] s3" by auto
  then show ?thesis using step late stuck timeout by blast
qed

end
