(* ===== verification/Subscriptions.thy ===== *)
theory Subscriptions
  imports Pipeline
begin

text \<open>
  Thread subscriptions (bot/subscribe\_thread.go): a plugin subscribes to the thread it was called in
  and gets every later message there that is no command. The subscriptions are a map with the protocol,
  the channel and the thread as its key; entries saved by older versions have an empty protocol. The
  saved form joins the parts of a key with a separator. The robot's call to \<open>Subscribe\<close> is an operation
  on the worker that runs the plugin, the current task and the time.
\<close>

subsection \<open>Subscribing\<close>

record subscriptionMatcher =
  skProtocol :: string
  skChannel :: string
  skThread :: string

record subscriber =
  sbPlugin :: string
  sbTimestamp :: int

record subscriptions =
  ssMap :: "(subscriptionMatcher \<times> subscriber) list"
  ssDirty :: bool

definition subscriptionSpec :: "worker \<Rightarrow> subscriptionMatcher" where
  "subscriptionSpec w = \<lparr>skProtocol = workerProtocol w, skChannel = wChannel w, skThread = icThreadID (wIncoming w)\<rparr>"

definition legacySpec :: "subscriptionMatcher \<Rightarrow> subscriptionMatcher" where
  "legacySpec k = k\<lparr>skProtocol := []\<rparr>"

text \<open>The entry a key finds: its own, or the one an older version saved without a protocol.\<close>

definition holder :: "subscriptionMatcher \<Rightarrow> subscriptions \<Rightarrow> (subscriptionMatcher \<times> subscriber) option" where
  "holder k s =
     (case map_of (ssMap s) k of
        Some sub \<Rightarrow> Some (k, sub)
      | None \<Rightarrow> if skProtocol k \<noteq> [] then map_option (Pair (legacySpec k)) (map_of (ssMap s) (legacySpec k)) else None)"

definition lookupSubscriptionLocked ::
    "string \<Rightarrow> string \<Rightarrow> string \<Rightarrow> subscriptions \<Rightarrow> (subscriptionMatcher \<times> subscriber) option" where
  "lookupSubscriptionLocked protocol channel thread s =
     holder \<lparr>skProtocol = normalizeProtocolName protocol, skChannel = channel, skThread = thread\<rparr> s"

definition setSubscription :: "subscriptionMatcher \<Rightarrow> subscriber \<Rightarrow> subscriptions \<Rightarrow> subscriptions" where
  "setSubscription k sub s = s\<lparr>ssMap := AList.update k sub (ssMap s)\<rparr>"

definition subscribe :: "worker \<Rightarrow> taskObj \<Rightarrow> int \<Rightarrow> subscriptions \<Rightarrow> bool \<times> subscriptions" where
  "subscribe w t now s =
     (let spec = subscriptionSpec w; name = tkName (taskOf t);
          new = \<lparr>sbPlugin = name, sbTimestamp = now\<rparr>
      in if pluginOf t = None then (False, s)
         else (case holder spec s of
                 Some (k, sub) \<Rightarrow>
                   if name \<noteq> sbPlugin sub then (False, s)
                   else if k = spec then (True, s)
                   else (True, (setSubscription spec new (s\<lparr>ssMap := AList.delete k (ssMap s)\<rparr>))\<lparr>ssDirty := True\<rparr>)
               | None \<Rightarrow> (True, (setSubscription spec new s)\<lparr>ssDirty := True\<rparr>)))"

definition unsubscribe :: "worker \<Rightarrow> taskObj \<Rightarrow> subscriptions \<Rightarrow> bool \<times> subscriptions" where
  "unsubscribe w t s =
     (if pluginOf t = None then (False, s)
      else (case holder (subscriptionSpec w) s of
              Some (k, sub) \<Rightarrow>
                if tkName (taskOf t) \<noteq> sbPlugin sub then (False, s)
                else (True, s\<lparr>ssMap := AList.delete k (ssMap s), ssDirty := True\<rparr>)
            | None \<Rightarrow> (True, s)))"

text \<open>A message for a subscriber renews the subscription.\<close>

definition touchSubscription :: "subscriptionMatcher \<Rightarrow> subscriber \<Rightarrow> int \<Rightarrow> subscriptions \<Rightarrow> subscriptions" where
  "touchSubscription k sub now s = setSubscription k (sub\<lparr>sbTimestamp := now\<rparr>) s"

subsection \<open>Expiry\<close>

record expiredSubscription =
  exProtocol :: string
  exChannel :: string
  exThread :: string
  exPlugin :: string

definition subscriptionExpired :: "int \<Rightarrow> subscriptionMatcher \<times> subscriber \<Rightarrow> bool" where
  "subscriptionExpired now e \<longleftrightarrow> now - sbTimestamp (snd e) > threadMemoryDuration"

definition expiredEntry :: "subscriptionMatcher \<times> subscriber \<Rightarrow> expiredSubscription" where
  "expiredEntry e =
     \<lparr>exProtocol = (if skProtocol (fst e) = [] then ''unknown'' else skProtocol (fst e)),
      exChannel = skChannel (fst e), exThread = skThread (fst e), exPlugin = sbPlugin (snd e)\<rparr>"

definition expireSubscriptions :: "int \<Rightarrow> subscriptions \<Rightarrow> expiredSubscription list \<times> bool \<times> subscriptions" where
  "expireSubscriptions now s =
     (let gone = filter (subscriptionExpired now) (ssMap s);
          dirty = (ssDirty s \<or> gone \<noteq> [])
      in (map expiredEntry gone, dirty,
          s\<lparr>ssMap := filter (\<lambda>e. \<not> subscriptionExpired now e) (ssMap s), ssDirty := dirty\<rparr>))"

text \<open>The plugins that are told that their subscription ended, each by a worker without a user.\<close>

definition expiredWorker :: "configuration \<Rightarrow> taskList \<Rightarrow> expiredSubscription \<Rightarrow> worker" where
  "expiredWorker cfg tasks sub =
     \<lparr>wId = 0, wUser = [], wProtocolUser = [], wChannel = exChannel sub, wProtocolChannel = [],
      wProtocol = getProtocol (exProtocol sub),
      wIncoming = \<lparr>icProtocol = exProtocol sub, icUserName = [], icThreadedMessage = (exThread sub \<noteq> []),
        icThreadID = exThread sub, cmUserID = [], cmValidatedUser = False, cmChannelName = exChannel sub, cmChannelID = [],
        cmMessageID = [], cmSelfMessage = False, cmDirectMessage = False, cmBotMessage = False, cmHiddenMessage = False,
        cmMessageText = []\<rparr>,
      wBotUser = False, wListedUser = False, wIsCommand = False, wCmdMode = [], wMsg = [], wFmsg = [],
      wAutomaticTask = True, wQueueProvider = [], wQueueMessageID = [], wCfg = cfg, wTasks = tasks, wMaps = None,
      wPipe = emptyPipe\<rparr>"

definition startExpiredSubscriptionPipelines ::
    "configuration \<Rightarrow> taskList \<Rightarrow> expiredSubscription list \<Rightarrow> (worker \<times> taskObj \<times> pipelineType \<times> string) list" where
  "startExpiredSubscriptionPipelines cfg tasks expired =
     concat (map (\<lambda>sub.
       case getTaskByName tasks (exPlugin sub) of
         None \<Rightarrow> []
       | Some t \<Rightarrow> if pluginOf t = None \<or> tkDisabled (taskOf t) then []
                   else [(expiredWorker cfg tasks sub, t, PlugThreadSubscription, ''_expiresub'')]) expired)"

subsection \<open>The saved form\<close>

definition splitN :: "nat \<Rightarrow> string \<Rightarrow> string \<Rightarrow> string list" where
  "splitN n sep s =
     (let parts = splitStr sep s in
      if length parts \<le> n then parts else take (n - 1) parts @ [joinWith sep (drop (n - 1) parts)])"

definition subscriptionKey :: "subscriptionMatcher \<Rightarrow> string" where
  "subscriptionKey k = joinWith memSep [skProtocol k, skChannel k, skThread k]"

definition subscriptionOfKey :: "string \<Rightarrow> subscriptionMatcher option" where
  "subscriptionOfKey key =
     (case splitN 3 memSep key of
        [channel, thread] \<Rightarrow> Some \<lparr>skProtocol = [], skChannel = channel, skThread = thread\<rparr>
      | [protocol, channel, thread] \<Rightarrow> Some \<lparr>skProtocol = normalizeProtocolName protocol, skChannel = channel, skThread = thread\<rparr>
      | _ \<Rightarrow> None)"

definition jsonSubscriber :: "subscriber \<Rightarrow> subscriber" where
  "jsonSubscriber sub = sub\<lparr>sbPlugin := coerceUtf8 (sbPlugin sub)\<rparr>"

definition marshalSubscriptions :: "subscriptions \<Rightarrow> (string \<times> subscriber) list" where
  "marshalSubscriptions s = jsonObject jsonSubscriber (saveKeys subscriptionKey (ssMap s) [])"

definition unmarshalSubscriptions :: "(string \<times> subscriber) list \<Rightarrow> string + (subscriptionMatcher \<times> subscriber) list" where
  "unmarshalSubscriptions obj = loadKeys subscriptionOfKey obj []"

definition restoreSubscriptions ::
    "RetVal \<times> (string \<times> subscriber) list option \<Rightarrow> int \<Rightarrow> subscriptions \<Rightarrow> restoreOutcome \<times> subscriptions" where
  "restoreSubscriptions stored now s =
     (case stored of
        (r, obj) \<Rightarrow>
          if r \<noteq> Ok then (RestoreError r, s)
          else (case obj of
             None \<Rightarrow> (CheckedIn, s)
           | Some members \<Rightarrow>
               (case unmarshalSubscriptions members of
                  Inl k \<Rightarrow> (RestoreError DataFormatError, s)
                | Inr m \<Rightarrow> if m \<noteq> [] then (Restored, s\<lparr>ssMap := map (\<lambda>(k, sub). (k, sub\<lparr>sbTimestamp := now\<rparr>)) m\<rparr>)
                           else (CheckedIn, s))))"

definition saveSubscriptions :: "RetVal \<Rightarrow> subscriptions \<Rightarrow> (string \<times> subscriber) list option \<times> subscriptions" where
  "saveSubscriptions r s = (if r = Ok then (Some (marshalSubscriptions s), s\<lparr>ssDirty := False\<rparr>) else (None, s))"

subsection \<open>Saving and restoring\<close>

lemma join_Cons: "ps \<noteq> [] \<Longrightarrow> joinWith sep (p # ps) = p @ sep @ joinWith sep ps"
  by (cases ps) simp_all

lemma join_head: "joinWith sep ((x # p) # ps) = x # joinWith sep (p # ps)"
  by (cases ps) simp_all

lemma join_split: "joinWith sep (splitStr sep s) = s"
proof (induction sep s rule: splitStr.induct)
  case (1 sep s)
  show ?case
  proof (cases "sep \<noteq> [] \<and> hasPrefix s sep")
    case True
    then obtain t where t: "s = sep @ t" by (auto simp: hasPrefix_iff)
    then have "joinWith sep (splitStr sep t) = t" using 1(1) True by simp
    then show ?thesis using True t by (simp add: splitStr_hit join_Cons)
  next
    case False
    show ?thesis
    proof (cases s)
      case (Cons x xs)
      then have ih: "joinWith sep (splitStr sep xs) = xs" using 1(2) False by simp
      obtain p ps where "splitStr sep xs = p # ps" using splitStr_ne by (cases "splitStr sep xs") auto
      then show ?thesis using ih False Cons by (simp add: splitStr_miss join_head)
    qed (simp add: splitStr_Nil)
  qed
qed

definition plainSubscription :: "subscriptionMatcher \<Rightarrow> bool" where
  "plainSubscription k \<longleftrightarrow>
     \<not> containsStr (skProtocol k) memSep \<and> \<not> containsStr (skChannel k) memSep \<and>
     normalizeProtocolName (skProtocol k) = skProtocol k"

lemma subscription_decode: "plainSubscription k \<Longrightarrow> subscriptionOfKey (subscriptionKey k) = Some k"
proof -
  assume k: "plainSubscription k"
  let ?t = "splitStr memSep (skThread k)"
  have s: "splitStr memSep (subscriptionKey k) = skProtocol k # skChannel k # ?t"
    using k by (simp add: subscriptionKey_def plainSubscription_def split_part)
  have "splitN 3 memSep (subscriptionKey k) = [skProtocol k, skChannel k, skThread k]"
  proof (cases "length ?t = 1")
    case True
    then obtain p where p: "?t = [p]" by (cases ?t) auto
    then have "p = skThread k" using join_split [of memSep "skThread k"] by simp
    then show ?thesis unfolding splitN_def s p by simp
  next
    case False
    then have "\<not> length ?t \<le> 1" using split_pos [of "skThread k"] by simp
    then show ?thesis unfolding splitN_def s by (simp add: join_split)
  qed
  then show ?thesis using k by (simp add: subscriptionOfKey_def plainSubscription_def)
qed

definition validSubscription :: "subscriptionMatcher \<Rightarrow> bool" where
  "validSubscription k \<longleftrightarrow> list_all validUtf8 [skProtocol k, skChannel k, skThread k]"

interpretation subscription_keys: key_codec subscriptionKey subscriptionOfKey "\<lambda>k. plainSubscription k \<and> validSubscription k"
  by unfold_locales
    (simp add: subscription_decode, simp add: validSubscription_def subscriptionKey_def valid_join del: joinWith.simps)

text \<open>
  Saving the subscriptions and restoring them at the next start gives back every one of them with its
  time renewed, as long as no protocol or channel has the separator in it (a thread may), and all
  names are valid UTF-8.
\<close>

theorem subscriptions_roundtrip:
  assumes "distinct (map fst (ssMap s))" "ssMap s \<noteq> []"
    and "\<forall>(k, sub) \<in> set (ssMap s). (plainSubscription k \<and> validSubscription k) \<and> validUtf8 (sbPlugin sub)"
  shows "\<exists>t. restoreSubscriptions (Ok, fst (saveSubscriptions Ok s)) now fresh = (Restored, t) \<and>
    (\<forall>k. map_of (ssMap t) k = map_option (\<lambda>sub. sub\<lparr>sbTimestamp := now\<rparr>) (map_of (ssMap s) k))"
proof -
  obtain m where m: "unmarshalSubscriptions (marshalSubscriptions s) = Inr m" "\<forall>k. map_of m k = map_of (ssMap s) k"
    using subscription_keys.save_load [OF _ assms(1), of jsonSubscriber] assms(3)
    unfolding unmarshalSubscriptions_def marshalSubscriptions_def
    by (fastforce simp: jsonSubscriber_def valid_coerce)
  obtain k v rest where "ssMap s = (k, v) # rest" using assms(2) by (cases "ssMap s") auto
  then have "map_of m k = Some v" using m(2) by simp
  then have "m \<noteq> []" by auto
  moreover have "map_of (map (\<lambda>(k, sub). (k, sub\<lparr>sbTimestamp := now\<rparr>)) m) k =
      map_option (\<lambda>sub. sub\<lparr>sbTimestamp := now\<rparr>) (map_of m k)" for k
    by (simp add: map_of_map)
  ultimately show ?thesis using m by (simp add: restoreSubscriptions_def saveSubscriptions_def)
qed

subsection \<open>A thread stays with its subscriber\<close>

datatype subscriptionOp =
  OpSubscribe worker taskObj int
| OpUnsubscribe worker taskObj
| OpMessage string string string int
| OpTick int

fun applySubscription :: "subscriptionOp \<Rightarrow> subscriptions \<Rightarrow> subscriptions" where
  "applySubscription (OpSubscribe w t now) s = snd (subscribe w t now s)"
| "applySubscription (OpUnsubscribe w t) s = snd (unsubscribe w t s)"
| "applySubscription (OpMessage protocol channel thread now) s =
     (case lookupSubscriptionLocked protocol channel thread s of
        None \<Rightarrow> s | Some (k, sub) \<Rightarrow> touchSubscription k sub now s)"
| "applySubscription (OpTick now) s = snd (snd (expireSubscriptions now s))"

definition subscriptionsOk :: "subscriptions \<Rightarrow> bool" where
  "subscriptionsOk s \<longleftrightarrow> distinct (map fst (ssMap s))"

lemma holder_entry: "holder k s = Some (j, sub) \<Longrightarrow> map_of (ssMap s) j = Some sub \<and> (j = k \<or> j = legacySpec k)"
  by (auto simp: holder_def split: option.splits if_splits)

lemma subscriptionsOk_step: "subscriptionsOk s \<Longrightarrow> subscriptionsOk (applySubscription op s)"
proof (cases op)
  case (OpSubscribe w t now)
  assume "subscriptionsOk s"
  then show ?thesis unfolding OpSubscribe
    by (auto simp: subscriptionsOk_def subscribe_def Let_def setSubscription_def distinct_update distinct_delete split: option.splits)
next
  case (OpUnsubscribe w t)
  assume "subscriptionsOk s"
  then show ?thesis unfolding OpUnsubscribe
    by (auto simp: subscriptionsOk_def unsubscribe_def distinct_delete split: option.splits)
next
  case (OpMessage protocol channel thread now)
  assume "subscriptionsOk s"
  then show ?thesis unfolding OpMessage
    by (auto simp: subscriptionsOk_def touchSubscription_def setSubscription_def distinct_update split: option.splits)
next
  case (OpTick now)
  assume "subscriptionsOk s"
  then show ?thesis unfolding OpTick
    by (simp add: subscriptionsOk_def expireSubscriptions_def Let_def distinct_map_filter)
qed

text \<open>Whether an operation may end the subscription an entry records.\<close>

definition endsSubscription :: "subscriptionMatcher \<Rightarrow> subscriber \<Rightarrow> subscriptionOp \<Rightarrow> bool" where
  "endsSubscription k sub op \<longleftrightarrow>
     (case op of
        OpSubscribe w t now \<Rightarrow> tkName (taskOf t) = sbPlugin sub
      | OpUnsubscribe w t \<Rightarrow> tkName (taskOf t) = sbPlugin sub
      | OpMessage protocol channel thread now \<Rightarrow> False
      | OpTick now \<Rightarrow> subscriptionExpired now (k, sub))"

definition sameHolder :: "subscriptionMatcher \<Rightarrow> subscriptions \<Rightarrow> subscriptions \<Rightarrow> bool" where
  "sameHolder k s s' \<longleftrightarrow> (\<forall>j sub. holder k s = Some (j, sub) \<longrightarrow> (\<exists>sub'. holder k s' = Some (j, sub') \<and> sbPlugin sub' = sbPlugin sub))"

lemma holder_agree:
  assumes "holder k s = Some (j, sub)" "map_of (ssMap s') j = Some sub'"
    and "map_of (ssMap s) k = None \<Longrightarrow> map_of (ssMap s') k = None"
  shows "holder k s' = Some (j, sub')"
  using assms by (auto simp: holder_def split: option.splits if_splits)

lemma filter_lookup:
  "distinct (map fst xs) \<Longrightarrow> map_of (filter P xs) k = (case map_of xs k of Some v \<Rightarrow> if P (k, v) then Some v else None | None \<Rightarrow> None)"
proof (induction xs)
  case (Cons e xs)
  obtain j v where e: "e = (j, v)" by (cases e)
  have "j = k \<Longrightarrow> map_of (filter P xs) k = None" using Cons.prems e by (auto simp: map_of_eq_None_iff)
  then show ?case using Cons e by auto
qed simp

lemma subscribe_others:
  assumes h: "holder k s = Some (j, sub)" and other: "tkName (taskOf t) \<noteq> sbPlugin sub"
  shows "holder k (snd (subscribe w t now s)) = Some (j, sub)"
proof -
  let ?spec = "subscriptionSpec w"
  note e = holder_entry [OF h]
  consider (same) "snd (subscribe w t now s) = s"
    | (new) "holder ?spec s = None" "map_of (ssMap (snd (subscribe w t now s))) = (map_of (ssMap s))(?spec \<mapsto> \<lparr>sbPlugin = tkName (taskOf t), sbTimestamp = now\<rparr>)"
    | (move) k2 sub2 where "holder ?spec s = Some (k2, sub2)" "k2 \<noteq> ?spec" "tkName (taskOf t) = sbPlugin sub2"
        "map_of (ssMap (snd (subscribe w t now s))) =
          ((map_of (ssMap s))(k2 := None))(?spec \<mapsto> \<lparr>sbPlugin = tkName (taskOf t), sbTimestamp = now\<rparr>)"
  proof (cases "holder ?spec s")
    case None
    then show ?thesis using same new
      by (cases "pluginOf t = None") (auto simp: subscribe_def Let_def setSubscription_def update_conv')
  next
    case (Some x)
    then show ?thesis using same move
      by (cases "pluginOf t = None"; cases x; cases "tkName (taskOf t) = sbPlugin (snd x)"; cases "fst x = ?spec")
        (auto simp: subscribe_def Let_def setSubscription_def update_conv' delete_conv')
  qed
  then show ?thesis
  proof cases
    case same
    then show ?thesis using h by simp
  next
    case new
    then have "?spec \<noteq> k" "?spec \<noteq> j" using h e by (auto simp: holder_def split: option.splits)
    then show ?thesis using new(2) e by (intro holder_agree [OF h]) auto
  next
    case move
    note e2 = holder_entry [OF move(1)]
    have "k2 \<noteq> j" using e e2 other move(3) by auto
    moreover have "?spec \<noteq> k" using h move(1,3) other by auto
    moreover have "map_of (ssMap s) ?spec = None" using move(1,2) by (auto simp: holder_def split: option.splits)
    then have "?spec \<noteq> j" using e by auto
    ultimately show ?thesis using move(4) e by (intro holder_agree [OF h]) auto
  qed
qed

lemma unsubscribe_others:
  assumes h: "holder k s = Some (j, sub)" and other: "tkName (taskOf t) \<noteq> sbPlugin sub"
  shows "holder k (snd (unsubscribe w t s)) = Some (j, sub)"
proof -
  consider (same) "snd (unsubscribe w t s) = s"
    | (gone) k2 sub2 where "holder (subscriptionSpec w) s = Some (k2, sub2)" "tkName (taskOf t) = sbPlugin sub2"
        "map_of (ssMap (snd (unsubscribe w t s))) = (map_of (ssMap s))(k2 := None)"
  proof (cases "holder (subscriptionSpec w) s")
    case None
    then show ?thesis using same by (cases "pluginOf t = None") (auto simp: unsubscribe_def)
  next
    case (Some x)
    then show ?thesis using same gone
      by (cases "pluginOf t = None"; cases x; cases "tkName (taskOf t) = sbPlugin (snd x)")
        (auto simp: unsubscribe_def delete_conv')
  qed
  then show ?thesis
  proof cases
    case same
    then show ?thesis using h by simp
  next
    case gone
    then have "k2 \<noteq> j" using holder_entry [OF h] holder_entry [OF gone(1)] other by auto
    then show ?thesis using gone(3) holder_entry [OF h] by (intro holder_agree [OF h]) auto
  qed
qed

lemma message_keeps:
  assumes h: "holder k s = Some (j, sub)"
  shows "\<exists>sub'. holder k (applySubscription (OpMessage p c th now) s) = Some (j, sub') \<and> sbPlugin sub' = sbPlugin sub"
proof (cases "lookupSubscriptionLocked p c th s")
  case (Some e)
  obtain k2 sub2 where e: "e = (k2, sub2)" by (cases e)
  have s2: "map_of (ssMap s) k2 = Some sub2" using Some e holder_entry unfolding lookupSubscriptionLocked_def by metis
  have m: "map_of (ssMap (applySubscription (OpMessage p c th now) s)) = (map_of (ssMap s))(k2 \<mapsto> sub2\<lparr>sbTimestamp := now\<rparr>)"
    using Some e by (simp add: touchSubscription_def setSubscription_def update_conv')
  show ?thesis
  proof (cases "k2 = j")
    case True
    then have "sub2 = sub" using s2 holder_entry [OF h] by simp
    then have "holder k (applySubscription (OpMessage p c th now) s) = Some (j, sub\<lparr>sbTimestamp := now\<rparr>)"
      using m s2 True by (intro holder_agree [OF h]) auto
    then show ?thesis by simp
  next
    case False
    then have "holder k (applySubscription (OpMessage p c th now) s) = Some (j, sub)"
      using m s2 holder_entry [OF h] by (intro holder_agree [OF h]) auto
    then show ?thesis by simp
  qed
qed (use h in simp)

lemma tick_keeps:
  assumes h: "holder k s = Some (j, sub)" and ok: "subscriptionsOk s" and fresh: "\<not> subscriptionExpired now (j, sub)"
  shows "holder k (applySubscription (OpTick now) s) = Some (j, sub)"
proof -
  have d: "distinct (map fst (ssMap s))" using ok by (simp add: subscriptionsOk_def)
  show ?thesis
    by (rule holder_agree [OF h])
      (use holder_entry [OF h] fresh in \<open>simp_all add: expireSubscriptions_def Let_def filter_lookup [OF d]\<close>)
qed

text \<open>
  C25. A thread stays with its subscriber: no call to \<open>Subscribe\<close> or \<open>Unsubscribe\<close> by another plugin, from
  whatever thread or protocol, no message and no tick but the one that finds the subscription expired
  takes the thread away from the plugin that messages in it are routed to.
\<close>

theorem thread_keeps_subscriber:
  assumes "subscriptionsOk s" "holder k s = Some (j, sub)" "\<not> endsSubscription j sub op"
  shows "\<exists>sub'. holder k (applySubscription op s) = Some (j, sub') \<and> sbPlugin sub' = sbPlugin sub"
proof (cases op)
  case (OpSubscribe w t now)
  then show ?thesis using assms subscribe_others by (simp add: endsSubscription_def)
next
  case (OpUnsubscribe w t)
  then show ?thesis using assms unsubscribe_others by (simp add: endsSubscription_def)
next
  case (OpMessage p c th now)
  then show ?thesis using message_keeps [OF assms(2)] by simp
next
  case (OpTick now)
  then show ?thesis using assms tick_keeps by (simp add: endsSubscription_def)
qed

text \<open>A call that succeeds leaves the thread with the plugin that made it.\<close>

lemma subscribe_holds:
  assumes "subscribe w t now s = (True, s')"
  shows "\<exists>sub. holder (subscriptionSpec w) s' = Some (subscriptionSpec w, sub) \<and> sbPlugin sub = tkName (taskOf t)"
proof (cases "holder (subscriptionSpec w) s")
  case None
  then show ?thesis using assms
    by (auto simp: subscribe_def Let_def setSubscription_def holder_def update_conv' split: if_splits)
next
  case (Some e)
  obtain k sub where e: "e = (k, sub)" by (cases e)
  show ?thesis
  proof (cases "k = subscriptionSpec w")
    case True
    then show ?thesis using assms Some e by (auto simp: subscribe_def Let_def split: if_splits)
  next
    case False
    then show ?thesis using assms Some e
      by (auto simp: subscribe_def Let_def setSubscription_def holder_def update_conv' split: if_splits)
  qed
qed

definition demoSubscriptions :: subscriptions where
  "demoSubscriptions = \<lparr>ssMap = [(\<lparr>skProtocol = ''ssh'', skChannel = ''general'', skThread = ''t{|}1''\<rparr>,
     \<lparr>sbPlugin = ''chat'', sbTimestamp = 5\<rparr>)], ssDirty = True\<rparr>"

theorem subscriptions_roundtrip_witness:
  "\<exists>t. restoreSubscriptions (Ok, fst (saveSubscriptions Ok demoSubscriptions)) 9 \<lparr>ssMap = [], ssDirty = False\<rparr> = (Restored, t) \<and>
    (\<forall>k. map_of (ssMap t) k = map_option (\<lambda>sub. sub\<lparr>sbTimestamp := 9\<rparr>) (map_of (ssMap demoSubscriptions) k))"
proof (rule subscriptions_roundtrip)
  have "list_all (\<lambda>(k, sub). (plainSubscription k \<and> validSubscription k) \<and> validUtf8 (sbPlugin sub)) (ssMap demoSubscriptions)"
    by code_simp
  then show "\<forall>(k, sub) \<in> set (ssMap demoSubscriptions). (plainSubscription k \<and> validSubscription k) \<and> validUtf8 (sbPlugin sub)"
    by (simp add: list_all_iff)
qed (simp_all add: demoSubscriptions_def)

theorem thread_keeps_subscriber_witness:
  "\<exists>sub'. holder \<lparr>skProtocol = ''ssh'', skChannel = ''general'', skThread = ''t{|}1''\<rparr>
       (applySubscription (OpUnsubscribe demoWorker (PluginObj demoPlugin)) demoSubscriptions) =
         Some (\<lparr>skProtocol = ''ssh'', skChannel = ''general'', skThread = ''t{|}1''\<rparr>, sub') \<and> sbPlugin sub' = ''chat''"
  using thread_keeps_subscriber [of demoSubscriptions "\<lparr>skProtocol = ''ssh'', skChannel = ''general'', skThread = ''t{|}1''\<rparr>"
      "\<lparr>skProtocol = ''ssh'', skChannel = ''general'', skThread = ''t{|}1''\<rparr>" "\<lparr>sbPlugin = ''chat'', sbTimestamp = 5\<rparr>"
      "OpUnsubscribe demoWorker (PluginObj demoPlugin)"]
  by (simp add: subscriptionsOk_def holder_def demoSubscriptions_def endsSubscription_def demoPlugin_def demoTask_def)

end
