(* ===== verification/Jobs.thy ===== *)
theory Jobs
  imports Incoming Replies Subscriptions
begin

text \<open>
  Jobs started by messages (bot/jobrun.go, \<open>jobVisible\<close>, \<open>jobAvailable\<close> and \<open>jobSecurityCheck\<close> of
  bot/jobbuiltins.go): triggers, and the built-in command \<^verbatim>\<open>run job\<close> with its checks, its arguments and
  the prompts for them. The state of a message's handling is the robot of the pipelines together with
  what all messages share: the ephemeral memories, the subscriptions and the waiters for replies.
\<close>

subsection \<open>The state of handling a message\<close>

record sharedState =
  shMemories :: eMemories
  shSubscriptions :: subscriptions
  shReplies :: replies
  shSent :: "(nat \<times> reply) list"

text \<open>\<open>msRuns\<close> lists the pipelines run for the message, \<open>msTriggered\<close> the jobs started beside them.\<close>

record msgState =
  msRobot :: robotState
  msShared :: sharedState
  msRuns :: "(taskObj \<times> pipelineType \<times> string \<times> string list) list"
  msTriggered :: "(worker \<times> taskObj \<times> pipelineType \<times> string \<times> string list) list"

type_synonym 'a mop = "msgState \<Rightarrow> (stop + 'a) \<times> msgState"

text \<open>
  What is outside: the pipelines' environment and fuel, what other goroutines and the code of tasks do
  to the shared state while a pipeline runs, the groups an authorizer knows for a user, the answers
  to prompts for job arguments, and the time.
\<close>

record msgEnv =
  meEnv :: pipeEnv
  meFuel :: nat
  meWorld :: "robotState \<Rightarrow> sharedState \<Rightarrow> sharedState"
  meGroups :: "string \<Rightarrow> string \<Rightarrow> string set option"
  meAnswer :: "nat \<Rightarrow> nat \<Rightarrow> string \<times> RetVal"
  meNow :: int

definition onRobot :: "'a rop \<Rightarrow> 'a mop" where
  "onRobot m s = (case m (msRobot s) of (r, t) \<Rightarrow> (r, s\<lparr>msRobot := t\<rparr>))"

definition readsM :: "(msgState \<Rightarrow> 'a) \<Rightarrow> 'a mop" where
  "readsM f s = (Inr (f s), s)"

definition say :: "string \<Rightarrow> unit mop" where
  "say msg = onRobot (act (Say msg))"

definition modifyShared :: "(sharedState \<Rightarrow> sharedState) \<Rightarrow> unit mop" where
  "modifyShared f = modifyOp (\<lambda>s. s\<lparr>msShared := f (msShared s)\<rparr>)"

definition currentWorker :: "msgState \<Rightarrow> worker" where
  "currentWorker s = rsWorker (msRobot s)"

text \<open>Starting a pipeline for the message and waiting for its end.\<close>

definition runPipelineFor :: "msgEnv \<Rightarrow> taskObj \<Rightarrow> pipelineType \<Rightarrow> string \<Rightarrow> string list \<Rightarrow> unit mop" where
  "runPipelineFor me t ptype command args =
     andThen (modifyOp (\<lambda>s. s\<lparr>msRuns := msRuns s @ [(t, ptype, command, args)]\<rparr>))
       (andThen (onRobot (startPipeline (meEnv me) (meFuel me) t ptype command args))
         (modifyOp (\<lambda>s. s\<lparr>msShared := meWorld me (msRobot s) (msShared s)\<rparr>)))"

definition workerSpeaker :: "worker \<Rightarrow> speaker" where
  "workerSpeaker w =
     \<lparr>spUser = wUser w, spChannel = wChannel w, spProtocol = wProtocol w,
      spIncoming = Some (incomingMessage.truncate (wIncoming w))\<rparr>"

definition makeMemoryContext :: "worker \<Rightarrow> string \<Rightarrow> memoryContext" where
  "makeMemoryContext w key = workerMemoryContext (workerSpeaker w) key"

subsection \<open>Who may run a job\<close>

definition userInList :: "string list \<Rightarrow> string \<Rightarrow> bool" where
  "userInList users user \<longleftrightarrow> list_ex (\<lambda>allowed. pathMatch allowed user = Inr True) users"

text \<open>Whether a user sees a job, and otherwise the channel to try, which may be empty.\<close>

definition jobVisible :: "worker \<Rightarrow> taskObj \<Rightarrow> bool \<Rightarrow> bool \<Rightarrow> bool \<times> string" where
  "jobVisible r t ignoreChannelRestrictions disabledOk =
     (let task = taskOf t in
      if jobOf t = None then (False, [])
      else if tkDisabled task \<and> \<not> disabledOk then (False, [])
      else if tkUsers task \<noteq> [] \<and> \<not> userInList (tkUsers task) (wUser r) then (False, [])
      else if tkRequireAdmin task \<and> wUser r \<notin> set (cfAdminUsers (wCfg r)) then (False, [])
      else if \<not> ignoreChannelRestrictions \<and> wChannel r \<noteq> tkChannel task then (False, tkChannel task)
      else (True, []))"

text \<open>A message's worker has no pipeline yet, so the channel is left to \<open>jobVisible\<close>.\<close>

definition jobAvailable :: "string \<Rightarrow> taskObj option rop" where
  "jobAvailable name =
     bindOp (reads rsWorker) (\<lambda>w.
       let refuse = (\<lambda>msg. andThen (act (Say msg)) (ret None)) in
       case getTaskByName (wTasks w) name of
         None \<Rightarrow> refuse (''Sorry, I couldn't find a job named '' @ singleQuoted name @ '' configured'')
       | Some t \<Rightarrow>
           let task = taskOf t in
           if jobOf t = None then refuse (''Sorry, '' @ singleQuoted name @ '' isn't a job'')
           else if wAutomaticTask w then ret (Some t)
           else if tkRequireAdmin task \<and> wUser w \<notin> set (cfAdminUsers (wCfg w)) then
             refuse (''Sorry, '' @ singleQuoted name @ '' is only available to bot administrators'')
           else if tkUsers task \<noteq> [] \<and> \<not> userInList (tkUsers task) (wUser w) then
             refuse ''Sorry, you're not on the list of allowed users for that job''
           else ret (Some t))"

definition jobSecurityCheck :: "callFn \<Rightarrow> taskObj \<Rightarrow> string \<Rightarrow> bool rop" where
  "jobSecurityCheck call t command =
     bindOp (reads rsWorker) (\<lambda>w.
       if wAutomaticTask w then ret True
       else bindOp (getTaskOf (pcCurrentTask (wPipe w))) (\<lambda>current.
         bindOp (if tkRequireAdmin (taskOf current) then checkAdmin else ret True) (\<lambda>admin.
           if \<not> admin then andThen (act (Say ''Sorry, that command is only available to bot administrators'')) (ret False)
           else bindOp (checkAuthorization call t command []) (\<lambda>r.
             if r \<noteq> Success then ret False
             else bindOp (reads (\<lambda>s. pcElevated (wPipe (rsWorker s)))) (\<lambda>elevated.
               if elevated then ret True
               else bindOp (checkElevation call t command) (\<lambda>e. ret (fst e = Success)))))))"

subsection \<open>Triggers\<close>

text \<open>
  The jobs a message triggers, with the capture groups of its first match. A message may trigger
  several jobs, and one job by several triggers.
\<close>

definition triggerMatch :: "worker \<Rightarrow> JobTrigger \<Rightarrow> string list option" where
  "triggerMatch w trigger =
     (if wUser w = jtUser trigger \<and> wChannel w = jtChannel trigger then jtRe trigger (wMsg w) else None)"

definition jobTriggers :: "worker \<Rightarrow> taskObj \<Rightarrow> (taskObj \<times> string list) list" where
  "jobTriggers w t =
     (case jobOf t of
        None \<Rightarrow> []
      | Some job \<Rightarrow> if tkDisabled (jbTask job) then []
                    else map (Pair t) (List.map_filter (triggerMatch w) (jbTriggers job)))"

definition triggeredJobs :: "worker \<Rightarrow> (taskObj \<times> string list) list" where
  "triggeredJobs w = concat (map (jobTriggers w) (drop 1 (tlT (wTasks w))))"

text \<open>Each one runs in a copy of the worker, as an automatic task, beside the message's goroutine.\<close>

fun triggerRobots ::
    "(taskObj \<times> string list) list \<Rightarrow> (worker \<times> taskObj \<times> pipelineType \<times> string \<times> string list) list mop" where
  "triggerRobots [] = ret []"
| "triggerRobots ((t, args) # rest) =
     bindOp (onRobot clone) (\<lambda>w.
       bindOp (triggerRobots rest) (\<lambda>robots.
         ret ((w\<lparr>wAutomaticTask := True\<rparr>, t, JobTrigger, ''run'', args) # robots)))"

subsection \<open>The command to run a job\<close>

text \<open>The text behind a word of the command, which is matched without regard to case.\<close>

definition afterWord :: "string \<Rightarrow> string \<Rightarrow> string option" where
  "afterWord = stripFold"

definition isNameByte :: "char \<Rightarrow> bool" where
  "isNameByte c \<longleftrightarrow> isWordByte c \<or> c = CHR ''-''"

definition jobNameAndArgs :: "string \<Rightarrow> (string \<times> string) option" where
  "jobNameAndArgs s =
     (let name = takeWhile isNameByte s; rest = drop (length name) s in
      if name = [] \<or> \<not> isLetterByte (hd name) then None
      else (case rest of [] \<Rightarrow> Some (name, []) | c # cs \<Rightarrow> if c = CHR '' '' then Some (name, cs) else None))"

definition runJobMatch :: "string \<Rightarrow> (string \<times> string) option" where
  "runJobMatch cmsg =
     (case afterWord ''run'' (dropWhile isRegexSpace cmsg) of
        Some (c # rest) \<Rightarrow>
          if c = CHR '' '' \<or> c = CHR ''-'' then (case afterWord ''job '' rest of Some s \<Rightarrow> jobNameAndArgs s | None \<Rightarrow> None)
          else None
      | _ \<Rightarrow> None)"

text \<open>
  Arguments given with the command: enough of them, and each matches its expression. Matching with a
  missing expression panics (\<open>None\<close>); the configuration of an enabled job has them all.
\<close>

definition argumentOk :: "InputMatcher \<Rightarrow> string \<Rightarrow> bool option" where
  "argumentOk m arg = map_option (\<lambda>re. re arg \<noteq> None) (imRe m)"

fun badArgument :: "InputMatcher list \<Rightarrow> string list \<Rightarrow> (string \<times> InputMatcher) option option" where
  "badArgument (m # ms) (arg # args) =
     (case argumentOk m arg of
        None \<Rightarrow> None
      | Some ok \<Rightarrow> if ok then badArgument ms args else Some (Some (arg, m)))"
| "badArgument _ _ = Some None"

definition suppliedArguments :: "string \<Rightarrow> Job \<Rightarrow> string list \<Rightarrow> string list option mop" where
  "suppliedArguments name job args =
     (if length args < length (jbArguments job) then
        andThen (say (''Too few arguments to job '' @ singleQuoted name @ '', '' @ decDigits (length (jbArguments job)) @
                 '' required but '' @ decDigits (length args) @ '' given'')) (ret None)
      else (case badArgument (jbArguments job) args of
              None \<Rightarrow> fail NilTask
            | Some (Some (arg, m)) \<Rightarrow>
                andThen (say (singleQuoted arg @ '' doesn't match the pattern for argument '' @ singleQuoted (imLabel m) @
                         '': '' @ imRegex m)) (ret None)
            | Some None \<Rightarrow> ret (Some args)))"

text \<open>A missing argument is asked for at most twice.\<close>

primrec askArgument :: "string \<Rightarrow> string \<Rightarrow> (nat \<Rightarrow> string \<times> RetVal) \<Rightarrow> nat \<Rightarrow> string option mop" where
  "askArgument name label ask 0 = andThen (say ''(giving up)'') (ret None)"
| "askArgument name label ask (Suc n) =
     (case ask (2 - n) of (arg, r) \<Rightarrow>
        if r = ReplyNotMatched then
          andThen (say (''That doesn't match the pattern for argument '' @ singleQuoted label)) (askArgument name label ask n)
        else if r \<noteq> Ok then andThen (say (''(not running job '' @ singleQuoted name @ '')'')) (ret None)
        else ret (Some arg))"

fun askArguments :: "string \<Rightarrow> (nat \<Rightarrow> nat \<Rightarrow> string \<times> RetVal) \<Rightarrow> nat \<Rightarrow> InputMatcher list \<Rightarrow> string list option mop" where
  "askArguments name ask i [] = ret (Some [])"
| "askArguments name ask i (m # ms) =
     bindOp (askArgument name (imLabel m) (ask i) 2) (\<lambda>a.
       case a of None \<Rightarrow> ret None
       | Some arg \<Rightarrow> bindOp (askArguments name ask (Suc i) ms) (\<lambda>rest. ret (map_option ((#) arg) rest)))"

definition jobArguments :: "msgEnv \<Rightarrow> string \<Rightarrow> Job \<Rightarrow> string \<Rightarrow> string list option mop" where
  "jobArguments me name job given =
     (if given \<noteq> [] then suppliedArguments name job (splitByte (CHR '' '') given)
      else askArguments name (meAnswer me) 0 (jbArguments job))"

definition rememberJob :: "msgEnv \<Rightarrow> string \<Rightarrow> unit mop" where
  "rememberJob me name =
     bindOp (readsM currentWorker) (\<lambda>w.
       modifyShared (\<lambda>sh. sh\<lparr>shMemories := (shMemories sh)\<lparr>emMap :=
         AList.update (makeMemoryContext w ''context:task'') \<lparr>ephMemory = name, ephTimestamp = meNow me\<rparr>
           (emMap (shMemories sh))\<rparr>\<rparr>))"

definition callFor :: "msgEnv \<Rightarrow> callFn" where
  "callFor me = callTask (peHost (meEnv me)) (peCode (meEnv me)) (meFuel me)"

text \<open>The checked command: registered as a pipeline of its own until the job's pipeline starts.\<close>

definition runJob :: "msgEnv \<Rightarrow> string \<Rightarrow> string \<Rightarrow> taskObj \<Rightarrow> unit mop" where
  "runJob me name given t =
     andThen (onRobot (andThen (modifyPipe (\<lambda>_. emptyPipe\<lparr>pcCurrentTask := Some t\<rparr>)) registerActive))
       (let done = onRobot deregister in
        case t of
          JobObj job \<Rightarrow>
            if tkDisabled (jbTask job) then
              andThen (say (''Job '' @ singleQuoted name @ '' is disabled: '' @ tkReason (jbTask job))) done
            else bindOp (onRobot (jobSecurityCheck (callFor me) t ''run'')) (\<lambda>ok.
              if \<not> ok then done
              else andThen (rememberJob me name)
                (bindOp (jobArguments me name job given) (\<lambda>args.
                   case args of
                     None \<Rightarrow> done
                   | Some args' \<Rightarrow> andThen done (runPipelineFor me t JobCommand ''run'' args'))))
        | _ \<Rightarrow> done)"

definition runJobCommand :: "msgEnv \<Rightarrow> string \<Rightarrow> string \<Rightarrow> unit mop" where
  "runJobCommand me name given =
     bindOp (onRobot (jobAvailable name)) (\<lambda>found.
       case found of
         None \<Rightarrow> ret ()
       | Some t \<Rightarrow>
           bindOp (readsM currentWorker) (\<lambda>w.
             case jobVisible w t False False of
               (True, _) \<Rightarrow> runJob me name given t
             | (False, channel) \<Rightarrow>
                 say (if channel \<noteq> [] then ''Job not available in this channel; try: '' @ channel
                      else ''Sorry, that job isn't available'')))"

definition checkJobMatchersAndRun :: "msgEnv \<Rightarrow> bool mop" where
  "checkJobMatchersAndRun me =
     bindOp (readsM currentWorker) (\<lambda>w.
       if triggeredJobs w \<noteq> [] then
         bindOp (triggerRobots (triggeredJobs w)) (\<lambda>robots.
           bindOp (readsM (\<lambda>s. rsShuttingDown (msRobot s))) (\<lambda>down.
             andThen (if down then say ''Ignoring triggered job(s): shutting down''
                      else modifyOp (\<lambda>s. s\<lparr>msTriggered := msTriggered s @ robots\<rparr>)) (ret True)))
       else if cmSelfMessage (wIncoming w) \<or> \<not> wIsCommand w then ret False
       else (case runJobMatch (collapseSpaces (wMsg w)) of
               None \<Rightarrow> ret False
             | Some (name, given) \<Rightarrow>
                 andThen (onRobot (act MessageHeard)) (andThen (runJobCommand me name given) (ret True))))"

end
