(* ===== verification/Dispatch.thy ===== *)
theory Dispatch
  imports Jobs
begin

text \<open>
  What the robot does with a message (bot/dispatch.go, the visibility and location hints of
  bot/available.go, the catch-all selection of bot/help\_metadata\_api.go): replies come first, then the
  commands and ambient matchers of the plugins, job triggers and \<^verbatim>\<open>run job\<close>, a hint where a command is
  available, catch-alls, and last the subscriber of the thread.
\<close>

subsection \<open>What a user sees, and where\<close>

definition commandVisibleToUser :: "msgEnv \<Rightarrow> worker \<Rightarrow> Task \<Rightarrow> Plugin \<Rightarrow> string \<Rightarrow> bool" where
  "commandVisibleToUser me w task plugin command \<longleftrightarrow>
     userCanAccessTask w task \<and>
     (commandRequiresAdmin plugin command \<longrightarrow> isAdminUser w) \<and>
     (commandRequiresAuthorization plugin command \<longrightarrow>
        trimSpace (tkAuthRequire task) \<noteq> [] \<and>
        (let authorizer = effectiveAuthorizerName task (cfDefaultAuthorizer (wCfg w)) in
         authorizer \<noteq> [] \<and> trimSpace authorizer \<noteq> [] \<and> trimSpace (wUser w) \<noteq> [] \<and>
         (case meGroups me authorizer (wUser w) of
            None \<Rightarrow> False | Some groups \<Rightarrow> userHasRequiredGroup groups (tkAuthRequire task))))"

record locationHint =
  lhPluginName :: string
  lhCommand :: string
  lhChannels :: "string list"
  lhAnyRegularChannel :: bool
  lhPrivateOnly :: bool

definition formatChannelForDisplay :: "string \<Rightarrow> string" where
  "formatChannelForDisplay channel =
     (let c = trimSpace channel in
      if c = [] then ''this channel'' else if hasPrefix c ''#'' \<or> hasPrefix c ''<'' then c else CHR ''#'' # c)"

definition formatHint :: "locationHint \<Rightarrow> string \<Rightarrow> bool \<Rightarrow> string" where
  "formatHint h currentChannel directMessage =
     (let location = (if directMessage then ''direct messages''
                      else if currentChannel \<noteq> [] then formatChannelForDisplay currentChannel else ''this location'');
          start = lhPluginName h @ ''/'' @ lhCommand h @ '' not available in '' @ location
      in if lhPrivateOnly h then start @ '', try a private context''
         else if lhAnyRegularChannel h then start @ '', try it in any regular channel''
         else (case lhChannels h of
                 [] \<Rightarrow> []
               | [c] \<Rightarrow> start @ '', try '' @ formatChannelForDisplay c
               | cs \<Rightarrow> start @ '', try one of: '' @ joinWith '', '' (map formatChannelForDisplay cs)))"

definition commandLocationHint :: "msgEnv \<Rightarrow> worker \<Rightarrow> Task \<Rightarrow> Plugin \<Rightarrow> string \<Rightarrow> locationHint option" where
  "commandLocationHint me w task plugin command =
     (let h = \<lparr>lhPluginName = tkName task, lhCommand = command, lhChannels = [], lhAnyRegularChannel = False,
               lhPrivateOnly = False\<rparr>
      in if \<not> commandVisibleToUser me w task plugin command then None
         else if cmDirectMessage (wIncoming w) then
           (if commandAllowsPrivate plugin command then None
            else if tkChannels task \<noteq> [] then Some (h\<lparr>lhChannels := tkChannels task\<rparr>)
            else if tkAllChannels task then Some (h\<lparr>lhAnyRegularChannel := True\<rparr>)
            else None)
         else if commandRequiresPrivate plugin command then Some (h\<lparr>lhPrivateOnly := True\<rparr>)
         else if tkChannels task \<noteq> [] \<and> wChannel w \<notin> set (tkChannels task) then Some (h\<lparr>lhChannels := tkChannels task\<rparr>)
         else None)"

definition sayNear :: "string \<Rightarrow> unit mop" where
  "sayNear msg =
     bindOp (readsM currentWorker) (\<lambda>w.
       onRobot (act (if cmDirectMessage (wIncoming w) then Say msg else SayThread msg)))"

subsection \<open>The matchers of a plugin\<close>

text \<open>"It" and other generic words: a capture group with a label stands for what was last talked about.\<close>

fun resolveContexts ::
    "worker \<Rightarrow> int \<Rightarrow> nat \<Rightarrow> string list \<Rightarrow> string list \<Rightarrow> (memoryContext \<times> ephemeralMemory) list \<Rightarrow> bool \<Rightarrow>
     (string + string list) \<times> (memoryContext \<times> ephemeralMemory) list \<times> bool" where
  "resolveContexts w now i [] args m modified = (Inr args, m, modified)"
| "resolveContexts w now i (label # labels) args m modified =
     (if label = [] \<or> length args \<le> i then resolveContexts w now (Suc i) labels args m modified
      else let parts = splitByte (CHR '':'') label;
               ctx = makeMemoryContext w (''context:'' @ hd parts)
           in if args ! i \<in> set ([] # drop 1 parts) then
                (case map_of m ctx of
                   Some mem \<Rightarrow> resolveContexts w now (Suc i) labels (args[i := ephMemory mem])
                                 (AList.update ctx (mem\<lparr>ephTimestamp := now\<rparr>) m) True
                 | None \<Rightarrow> (Inl label, m, modified))
              else resolveContexts w now (Suc i) labels args
                     (AList.update ctx \<lparr>ephMemory = args ! i, ephTimestamp = now\<rparr> m) True)"

datatype scanResult =
  NothingMatched
| MatchedWith InputMatcher "string list"
| NotRemembered string

text \<open>The first matcher that fits; syntax diagnostics are collected for commands the user can see.\<close>

fun scanMatchers ::
    "msgEnv \<Rightarrow> worker \<Rightarrow> bool \<Rightarrow> Task \<Rightarrow> Plugin \<Rightarrow> string \<Rightarrow> InputMatcher list \<Rightarrow> string list \<Rightarrow> eMemories \<Rightarrow>
     scanResult \<times> string list \<times> eMemories" where
  "scanMatchers me w asCommand task plugin msg [] diags em = (NothingMatched, diags, em)"
| "scanMatchers me w asCommand task plugin msg (m # ms) diags em =
     (if imChannelOnly m \<and> \<not> (wChannel w \<noteq> [] \<and> \<not> icThreadedMessage (wIncoming w)) then
        scanMatchers me w asCommand task plugin msg ms diags em
      else case (if asCommand then matchCommandInput m msg else matchInput m msg) of
        ExactMatch args \<Rightarrow>
          (case resolveContexts w (meNow me) 0 (imContexts m) args (emMap em) False of
             (Inl label, mm, modified) \<Rightarrow> (NotRemembered label, diags, em\<lparr>emMap := mm\<rparr>)
           | (Inr args', mm, modified) \<Rightarrow>
               (MatchedWith m args', diags, em\<lparr>emMap := mm, emDirty := emDirty em \<or> modified\<rparr>))
      | SyntaxMatch d \<Rightarrow>
          scanMatchers me w asCommand task plugin msg ms
            (if asCommand \<and> commandVisibleToUser me w task plugin (imCommand m) then appendUniquePreserveOrder diags [d]
             else diags) em
      | NoMatch \<Rightarrow> scanMatchers me w asCommand task plugin msg ms diags em)"

text \<open>The plugins whose matchers are looked at.\<close>

definition pluginMatchers :: "worker \<Rightarrow> bool \<Rightarrow> taskObj \<Rightarrow> (Plugin \<times> InputMatcher list) option" where
  "pluginMatchers w asCommand t =
     (case pluginOf t of
        None \<Rightarrow> None
      | Some plugin \<Rightarrow>
          let task = plTask plugin in
          if tkDisabled task then None
          else if \<not> fst (pluginAvailable w task False) \<and>
                  (\<not> asCommand \<or> \<not> pluginAvailableForPrivateCommandMatch w task plugin (\<not> asCommand)) then None
          else if asCommand then (if plCommands plugin = [] then None else Some (plugin, plCommands plugin))
          else if wIsCommand w \<and> \<not> plAmbientMatchCommand plugin then None
          else if plMessageMatchers plugin = [] then None
          else if \<not> wListedUser w \<and> \<not> plMatchUnlisted plugin \<and> \<not> wIsCommand w then None
          else Some (plugin, plMessageMatchers plugin))"

type_synonym candidate = "taskObj \<times> InputMatcher \<times> string list"

datatype dispatchResult =
  Finished "candidate option" "string list"
| Ambiguous
| Forgot string

fun scanPlugins ::
    "msgEnv \<Rightarrow> worker \<Rightarrow> bool \<Rightarrow> string \<Rightarrow> taskObj list \<Rightarrow> candidate option \<Rightarrow> string list \<Rightarrow> eMemories \<Rightarrow>
     dispatchResult \<times> eMemories" where
  "scanPlugins me w asCommand msg [] found diags em = (Finished found diags, em)"
| "scanPlugins me w asCommand msg (t # ts) found diags em =
     (case pluginMatchers w asCommand t of
        None \<Rightarrow> scanPlugins me w asCommand msg ts found diags em
      | Some (plugin, ms) \<Rightarrow>
          (case scanMatchers me w asCommand (plTask plugin) plugin msg ms diags em of
             (NothingMatched, diags', em') \<Rightarrow> scanPlugins me w asCommand msg ts found diags' em'
           | (NotRemembered label, diags', em') \<Rightarrow> (Forgot label, em')
           | (MatchedWith m args, diags', em') \<Rightarrow>
               if found \<noteq> None then (Ambiguous, em')
               else scanPlugins me w asCommand msg ts (Some (t, m, args)) diags' em'))"

definition allowedInShutdown :: "taskObj \<Rightarrow> string \<Rightarrow> bool" where
  "allowedInShutdown t command \<longleftrightarrow>
     tkName (taskOf t) = ''builtin-admin'' \<and> (command = ''ps'' \<or> command = ''kill'' \<or> command = ''abort'')"

text \<open>\<open>asCommand\<close> tells the matchers of commands from the ambient ones, which see the full message.\<close>

definition checkPluginMatchersAndRun :: "msgEnv \<Rightarrow> bool \<Rightarrow> bool mop" where
  "checkPluginMatchersAndRun me asCommand =
     bindOp (readsM (\<lambda>s. (currentWorker s, shMemories (msShared s)))) (\<lambda>(w, em).
       case scanPlugins me w asCommand (if asCommand then wMsg w else wFmsg w) (drop 1 (tlT (wTasks w))) None [] em of
         (result, em') \<Rightarrow>
           andThen (modifyShared (\<lambda>sh. sh\<lparr>shMemories := em'\<rparr>))
             (case result of
                Forgot label \<Rightarrow>
                  andThen (say (''Sorry, I don't remember which '' @ label @
                    '' we were talking about - please re-enter your command and be more specific'')) (ret True)
              | Ambiguous \<Rightarrow>
                  andThen (say ''Yikes! Your command matched multiple plugins, so I'm not doing ANYTHING'')
                    (andThen (onRobot (act (Emit MultipleMatchesNoAction))) (ret True))
              | Finished None diags \<Rightarrow>
                  (case diags of [d] \<Rightarrow> andThen (sayNear d) (ret True) | _ \<Rightarrow> ret False)
              | Finished (Some (t, m, args)) diags \<Rightarrow>
                  andThen (onRobot (act MessageHeard))
                    (bindOp (readsM (\<lambda>s. rsShuttingDown (msRobot s))) (\<lambda>down.
                       andThen
                         (if down \<and> \<not> allowedInShutdown t (imCommand m) then
                            say ''Sorry, I'm shutting down and can't start any new tasks''
                          else runPipelineFor me t (if asCommand then PlugCommand else PlugMessage) (imCommand m) args)
                         (ret True)))))"

subsection \<open>A command given in the wrong place\<close>

definition mergeHint :: "locationHint \<Rightarrow> (string \<times> locationHint) list \<Rightarrow> (string \<times> locationHint) list" where
  "mergeHint hint candidates =
     (let key = lhPluginName hint @ ''|'' @ lhCommand hint in
      case map_of candidates key of
        None \<Rightarrow> AList.update key hint candidates
      | Some old \<Rightarrow> AList.update key
          (old\<lparr>lhChannels := appendUniquePreserveOrder (lhChannels old) (lhChannels hint),
               lhAnyRegularChannel := lhAnyRegularChannel old \<or> lhAnyRegularChannel hint,
               lhPrivateOnly := lhPrivateOnly old \<or> lhPrivateOnly hint\<rparr>) candidates)"

definition matcherHint :: "msgEnv \<Rightarrow> worker \<Rightarrow> Plugin \<Rightarrow> InputMatcher \<Rightarrow> locationHint option" where
  "matcherHint me w plugin m =
     (if imChannelOnly m \<and> \<not> (wChannel w \<noteq> [] \<and> \<not> icThreadedMessage (wIncoming w)) then None
      else if \<not> isExact (matchCommandInput m (wMsg w)) then None
      else commandLocationHint me w (plTask plugin) plugin (imCommand m))"

definition locationHints :: "msgEnv \<Rightarrow> worker \<Rightarrow> locationHint list" where
  "locationHints me w =
     concat (map (\<lambda>t. case pluginOf t of
         None \<Rightarrow> []
       | Some plugin \<Rightarrow> if tkDisabled (plTask plugin) then [] else List.map_filter (matcherHint me w plugin) (plCommands plugin))
       (drop 1 (tlT (wTasks w))))"

definition checkWrongLocationCommandMatch :: "msgEnv \<Rightarrow> bool mop" where
  "checkWrongLocationCommandMatch me =
     bindOp (readsM currentWorker) (\<lambda>w.
       if \<not> wIsCommand w \<or> cmSelfMessage (wIncoming w) \<or> wBotUser w then ret False
       else (case foldl (\<lambda>c h. mergeHint h c) [] (locationHints me w) of
               [(key, hint)] \<Rightarrow>
                 let msg = formatHint hint (wChannel w) (cmDirectMessage (wIncoming w)) in
                 if msg = [] then ret False else andThen (sayNear msg) (ret True)
             | _ \<Rightarrow> ret False))"

subsection \<open>Catch-alls\<close>

definition catchAllModeMatches :: "Plugin \<Rightarrow> string \<Rightarrow> bool" where
  "catchAllModeMatches plugin mode \<longleftrightarrow>
     plCatchAllModes plugin = [] \<or>
     list_ex (\<lambda>configured. trimSpace (toLower configured) = trimSpace (toLower mode)) (plCatchAllModes plugin)"

record catchAlls =
  caSpecific :: "taskObj option"
  caFallback :: "taskObj option"
  caManySpecific :: bool
  caManyFallback :: bool

fun selectCatchAllTarget :: "(Task \<Rightarrow> bool \<times> bool) \<Rightarrow> string \<Rightarrow> taskObj list \<Rightarrow> catchAlls \<Rightarrow> catchAlls" where
  "selectCatchAllTarget available mode [] c = c"
| "selectCatchAllTarget available mode (t # ts) c =
     (case pluginOf t of
        None \<Rightarrow> selectCatchAllTarget available mode ts c
      | Some plugin \<Rightarrow>
          if \<not> plCatchAll plugin \<or> \<not> catchAllModeMatches plugin mode \<or> \<not> fst (available (plTask plugin)) then
            selectCatchAllTarget available mode ts c
          else if plCatchAllModes plugin \<noteq> [] \<or> snd (available (plTask plugin)) then
            (if caSpecific c = None then selectCatchAllTarget available mode ts (c\<lparr>caSpecific := Some t\<rparr>)
             else c\<lparr>caManySpecific := True\<rparr>)
          else if caFallback c = None then selectCatchAllTarget available mode ts (c\<lparr>caFallback := Some t\<rparr>)
          else selectCatchAllTarget available mode ts (c\<lparr>caManyFallback := True\<rparr>))"

definition noCatchAlls :: catchAlls where
  "noCatchAlls = \<lparr>caSpecific = None, caFallback = None, caManySpecific = False, caManyFallback = False\<rparr>"

definition selectCatchAll :: "worker \<Rightarrow> string \<Rightarrow> catchAlls" where
  "selectCatchAll w mode =
     selectCatchAllTarget (\<lambda>task. pluginAvailable w task False) mode (drop 1 (tlT (wTasks w))) noCatchAlls"

text \<open>The catch-all for a message: one for hidden messages first; the fallback of that round is not used.\<close>

definition catchAllFor :: "worker \<Rightarrow> taskObj option" where
  "catchAllFor w =
     (let hidden = (if cmHiddenMessage (wIncoming w) then selectCatchAll w ''hidden'' else noCatchAlls);
          c = (if caSpecific hidden = None \<and> \<not> caManySpecific hidden then selectCatchAll w (wCmdMode w)
               else hidden\<lparr>caFallback := None, caManyFallback := False\<rparr>)
      in if caManySpecific c then None
         else if caSpecific c \<noteq> None then caSpecific c
         else if caManyFallback c then None else caFallback c)"

definition runCatchAlls :: "msgEnv \<Rightarrow> bool \<Rightarrow> bool mop" where
  "runCatchAlls me matched =
     bindOp (readsM (\<lambda>s. (currentWorker s, rsShuttingDown (msRobot s)))) (\<lambda>(w, down).
       if \<not> wIsCommand w \<or> matched \<or> cmSelfMessage (wIncoming w) \<or> wBotUser w \<or> down then ret False
       else andThen (onRobot (andThen (act MessageHeard) (act (Emit CatchAllsRan))))
              (case catchAllFor w of
                 None \<Rightarrow> ret False
               | Some t \<Rightarrow> andThen (runPipelineFor me t CatchAll ''_catchall'' [wFmsg w]) (ret True)))"

subsection \<open>The handler\<close>

definition shouldCheckThreadSubscription :: "worker \<Rightarrow> bool \<Rightarrow> bool \<Rightarrow> bool" where
  "shouldCheckThreadSubscription w messageMatched catchAllMatched \<longleftrightarrow>
     \<not> messageMatched \<and> \<not> cmSelfMessage (wIncoming w) \<and> \<not> wBotUser w \<and>
     (wIsCommand w \<and> \<not> catchAllMatched \<or> \<not> wIsCommand w)"

definition checkSubscription :: "msgEnv \<Rightarrow> bool \<Rightarrow> bool \<Rightarrow> unit mop" where
  "checkSubscription me matched caught =
     bindOp (readsM (\<lambda>s. (currentWorker s, shSubscriptions (msShared s)))) (\<lambda>(w, subs).
       if \<not> shouldCheckThreadSubscription w matched caught then ret ()
       else (case lookupSubscriptionLocked (workerProtocol w) (wChannel w) (icThreadID (wIncoming w)) subs of
               None \<Rightarrow> ret ()
             | Some (spec, sub) \<Rightarrow>
                 andThen (modifyShared (\<lambda>sh. sh\<lparr>shSubscriptions := touchSubscription spec sub (meNow me) (shSubscriptions sh)\<rparr>))
                   (bindOp (onRobot (getTaskOf (getTaskByName (wTasks w) (sbPlugin sub)))) (\<lambda>t.
                      runPipelineFor me t PlugThreadSubscription ''_subscribed'' [wFmsg w]))))"

definition keepListeningDuration :: int where
  "keepListeningDuration = 77"

definition workerReplyMatcher :: "worker \<Rightarrow> replyMatcher" where
  "workerReplyMatcher w =
     \<lparr>rmProtocol = workerProtocol w, rmUser = wUser w, rmChannel = wChannel w,
      rmThread = (if icThreadedMessage (wIncoming w) then icThreadID (wIncoming w) else [])\<rparr>"

definition checkReplies :: "bool mop" where
  "checkReplies =
     bindOp (readsM (\<lambda>s. (currentWorker s, shReplies (msShared s)))) (\<lambda>(w, rs).
       case takeReply (workerReplyMatcher w) (wFmsg w) rs of
         (found, sends, rs') \<Rightarrow>
           andThen (modifyShared (\<lambda>sh. sh\<lparr>shReplies := rs', shSent := shSent sh @ sends\<rparr>)) (ret found))"

definition setMessage :: "string \<Rightarrow> unit mop" where
  "setMessage msg = onRobot (modifyWorker (\<lambda>w. w\<lparr>wMsg := msg\<rparr>))"

text \<open>The bare name of the robot: the last message was meant for it, or a lone question mark.\<close>

definition bareMessage :: "msgEnv \<Rightarrow> memoryContext \<Rightarrow> bool mop" where
  "bareMessage me lastContext =
     bindOp (readsM (\<lambda>s. (currentWorker s, map_of (emMap (shMemories (msShared s))) lastContext))) (\<lambda>(w, last).
       bindOp (if hasSuffix (wFmsg w) ''?'' then andThen (setMessage ''?'') (checkPluginMatchersAndRun me True) else ret False)
         (\<lambda>matched.
            if matched then ret True
            else (case last of
                    Some mem \<Rightarrow>
                      if meNow me - ephTimestamp mem < keepListeningDuration then
                        andThen (setMessage (ephMemory mem)) (checkPluginMatchersAndRun me True)
                      else andThen (say ''Yes?'') (ret True)
                  | None \<Rightarrow> andThen (say ''Yes?'') (ret True))))"

definition rememberLast :: "msgEnv \<Rightarrow> memoryContext \<Rightarrow> bool \<Rightarrow> unit mop" where
  "rememberLast me lastContext matched =
     bindOp (readsM currentWorker) (\<lambda>w.
       if wBotUser w then ret ()
       else modifyShared (\<lambda>sh. sh\<lparr>shMemories := (shMemories sh)\<lparr>emMap :=
         (if matched \<or> wIsCommand w then AList.delete lastContext (emMap (shMemories sh))
          else AList.update lastContext \<lparr>ephMemory = wMsg w, ephTimestamp = meNow me\<rparr> (emMap (shMemories sh)))\<rparr>\<rparr>))"

definition unless :: "bool \<Rightarrow> bool mop \<Rightarrow> bool mop" where
  "unless done m = (if done then ret True else m)"

definition handleMessage :: "msgEnv \<Rightarrow> unit mop" where
  "handleMessage me =
     bindOp (readsM currentWorker) (\<lambda>w.
       let self = cmSelfMessage (wIncoming w); lastContext = makeMemoryContext w lastMsgKey in
       andThen (if cmDirectMessage (wIncoming w) then onRobot (act (Emit BotDirectMessage)) else ret ())
         (bindOp checkReplies (\<lambda>m1.
          bindOp (unless m1 (if wIsCommand w \<and> \<not> self \<and> wMsg w = [] \<and> \<not> wBotUser w then bareMessage me lastContext
                             else ret False)) (\<lambda>m2.
          bindOp (unless m2 (if wIsCommand w \<and> \<not> self then checkPluginMatchersAndRun me True else ret False)) (\<lambda>m3.
          bindOp (unless m3 (if \<not> self \<and> \<not> wBotUser w then checkPluginMatchersAndRun me False else ret False)) (\<lambda>m4.
          bindOp (unless m4 (checkJobMatchersAndRun me)) (\<lambda>m5.
          bindOp (unless m5 (checkWrongLocationCommandMatch me)) (\<lambda>m6.
          bindOp (runCatchAlls me m6) (\<lambda>caught.
          andThen (checkSubscription me m6 caught) (rememberLast me lastContext m6))))))))))"

end
