(* ===== verification/DispatchProps.thy ===== *)
theory DispatchProps
  imports Dispatch
begin

text \<open>
  Properties of the handling of a message: at most one pipeline is run for it, only a unique match is
  run, the robot does not answer itself, and everything a message sets off passes the security checks.
\<close>

subsection \<open>Operations on the state of a message\<close>

lemma onRobot_parts:
  "msRuns (snd (onRobot m s)) = msRuns s" "msTriggered (snd (onRobot m s)) = msTriggered s"
  "msShared (snd (onRobot m s)) = msShared s" "msRobot (snd (onRobot m s)) = snd (m (msRobot s))"
  "fst (onRobot m s) = fst (m (msRobot s))"
  by (simp_all add: onRobot_def split: prod.split)

lemma readsM_eq [simp]: "readsM f s = (Inr (f s), s)"
  by (simp add: readsM_def)

lemma modifyShared_eq [simp]: "modifyShared f s = (Inr (), s\<lparr>msShared := f (msShared s)\<rparr>)"
  by (simp add: modifyShared_def modifyOp_def)

lemma bind_readsM [simp]: "bindOp (readsM f) k s = k (f s) s"
  by (simp add: bindOp_def)

lemma triple_readsM: "(\<And>x. triple P (k x) Q E) \<Longrightarrow> triple P (bindOp (readsM f) k) Q E"
  unfolding triple_def by simp

lemma triple_onRobot: "(\<And>s. P (snd (onRobot m s)) = P s) \<Longrightarrow> triple P (onRobot m) (\<lambda>_. P) P"
  unfolding triple_def by (metis (no_types, lifting) case_prod_beta' sum.case_eq_if)

subsection \<open>At most one pipeline\<close>

text \<open>Before anything ran, and after a pipeline was run or jobs were triggered, but not both.\<close>

type_synonym runLog = "(taskObj \<times> pipelineType \<times> string \<times> string list) list \<times>
  (worker \<times> taskObj \<times> pipelineType \<times> string \<times> string list) list"

definition logOf :: "msgState \<Rightarrow> runLog" where
  "logOf s = (msRuns s, msTriggered s)"

definition calm :: "runLog \<Rightarrow> msgState \<Rightarrow> bool" where
  "calm l s \<longleftrightarrow> logOf s = l"

definition once :: "runLog \<Rightarrow> msgState \<Rightarrow> bool" where
  "once l s \<longleftrightarrow> msRuns s = fst l \<or> msTriggered s = snd l \<and> (\<exists>run. msRuns s = fst l @ [run])"

definition stage :: "runLog \<Rightarrow> bool mop \<Rightarrow> bool" where
  "stage l m \<longleftrightarrow> triple (calm l) m (\<lambda>b. if b then once l else calm l) (once l)"

lemma calm_once: "calm l s \<Longrightarrow> once l s"
  by (auto simp: calm_def once_def logOf_def)

lemma calm_robot: "triple (calm l) (onRobot m) (\<lambda>_. calm l) (once l)"
proof -
  have "triple (calm l) (onRobot m) (\<lambda>_. calm l) (calm l)"
    by (rule triple_onRobot) (simp add: calm_def logOf_def onRobot_parts)
  then show ?thesis by (rule triple_conseq) (simp_all add: calm_once)
qed

lemma once_robot: "triple (once l) (onRobot m) (\<lambda>_. once l) (once l)"
  by (rule triple_onRobot) (simp add: once_def onRobot_parts)

lemma calm_shared: "triple (calm l) (modifyShared f) (\<lambda>_. calm l) (once l)"
  by (simp add: triple_def calm_def logOf_def)

lemma once_shared: "triple (once l) (modifyShared f) (\<lambda>_. once l) (once l)"
  by (simp add: triple_def once_def)

lemma calm_say: "triple (calm l) (say msg) (\<lambda>_. calm l) (once l)"
  unfolding say_def by (rule calm_robot)

lemma stage_ret: "stage l (ret b)"
  unfolding stage_def by (rule triple_ret) (simp add: calm_once)

lemma stage_then: "triple (calm l) m (\<lambda>_. calm l) (once l) \<Longrightarrow> stage l n \<Longrightarrow> stage l (andThen m n)"
  unfolding stage_def by (rule triple_then)

lemma stage_done: "triple (calm l) m (\<lambda>_. once l) (once l) \<Longrightarrow> stage l (andThen m (ret True))"
  unfolding stage_def by (rule triple_then) (auto intro: triple_ret)

lemma stage_reads: "(\<And>x. stage l (k x)) \<Longrightarrow> stage l (bindOp (readsM f) k)"
  unfolding stage_def triple_def by simp

lemma stage_bind:
  "stage l m \<Longrightarrow> stage l (k False) \<Longrightarrow> triple (once l) (k True) (\<lambda>b. if b then once l else calm l) (once l) \<Longrightarrow>
   stage l (bindOp m k)"
  unfolding stage_def by (rule triple_bind) (auto split: if_splits)

lemma stage_if: "(b \<Longrightarrow> stage l m) \<Longrightarrow> (\<not> b \<Longrightarrow> stage l n) \<Longrightarrow> stage l (if b then m else n)"
  by simp

lemma once_run: "triple (calm l) (runPipelineFor me t ptype command args) (\<lambda>_. once l) (once l)"
proof -
  have a: "triple (calm l) (modifyOp (\<lambda>s. s\<lparr>msRuns := msRuns s @ [(t, ptype, command, args)]\<rparr>)) (\<lambda>_. once l) (once l)"
    by (rule triple_modifyOp) (auto simp: calm_def once_def logOf_def)
  have b: "triple (once l) (modifyOp (\<lambda>s. s\<lparr>msShared := meWorld me (msRobot s) (msShared s)\<rparr>)) (\<lambda>_. once l) (once l)"
    by (rule triple_modifyOp) (simp add: once_def)
  show ?thesis unfolding runPipelineFor_def by (rule triple_then [OF a triple_then [OF once_robot b]])
qed

lemma calm_sayNear: "triple (calm l) (sayNear msg) (\<lambda>_. calm l) (once l)"
  unfolding sayNear_def by (intro triple_readsM calm_robot)

lemma stage_plugins: "stage l (checkPluginMatchersAndRun me asCommand)"
proof -
  have run: "stage l (andThen (onRobot (act MessageHeard))
      (bindOp (readsM (\<lambda>s. rsShuttingDown (msRobot s))) (\<lambda>down.
        andThen (if down \<and> \<not> allowed then say msg else runPipelineFor me t ptype command args) (ret True))))" for allowed msg t ptype command args
    by (intro stage_then calm_robot stage_reads stage_done)
      (use once_run [of l me t ptype command args] triple_conseq [OF calm_say [of l msg]] calm_once in auto)
  show ?thesis
    unfolding checkPluginMatchersAndRun_def
    by (rule stage_reads)
      (auto split!: prod.split dispatchResult.split option.split list.split
        intro!: stage_then calm_shared calm_say calm_robot calm_sayNear stage_ret run)
qed

lemma stage_unless: "stage l m \<Longrightarrow> stage l (unless False m)"
  by (simp add: unless_def)

lemma once_unless: "triple (once l) (unless True m) (\<lambda>b. if b then once l else calm l) (once l)"
  unfolding unless_def by (simp add: triple_def ret_def)

lemma stage_bare: "stage l (bareMessage me c)"
proof -
  have last: "stage l (case last of
      Some mem \<Rightarrow> if meNow me - ephTimestamp mem < keepListeningDuration
                  then andThen (setMessage (ephMemory mem)) (checkPluginMatchersAndRun me True)
                  else andThen (say ''Yes?'') (ret True)
    | None \<Rightarrow> andThen (say ''Yes?'') (ret True))" for last
    unfolding setMessage_def
    by (auto split: option.split intro!: stage_then calm_robot stage_plugins calm_say stage_ret)
  show ?thesis
    unfolding bareMessage_def setMessage_def
    by (rule stage_reads)
      (auto split!: prod.split
        intro!: stage_bind stage_then calm_robot stage_plugins stage_ret last [unfolded setMessage_def]
        intro: triple_ret)
qed

text \<open>Every step of running a job but the last leaves the log alone.\<close>

lemma calm_ret: "triple (calm l) (ret x) (\<lambda>_. calm l) (once l)"
  by (rule triple_ret)

lemma calm_bind:
  "triple (calm l) m (\<lambda>_. calm l) (once l) \<Longrightarrow> (\<And>x. triple (calm l) (k x) Q (once l)) \<Longrightarrow> triple (calm l) (bindOp m k) Q (once l)"
  by (rule triple_bind)

lemma calm_then:
  "triple (calm l) m (\<lambda>_. calm l) (once l) \<Longrightarrow> triple (calm l) n Q (once l) \<Longrightarrow> triple (calm l) (andThen m n) Q (once l)"
  by (rule triple_then)

lemma calm_fail: "triple (calm l) (fail e) Q (once l)"
  by (auto simp: triple_def fail_def calm_def once_def logOf_def)

lemma calm_askArgument: "triple (calm l) (askArgument name label ask n) (\<lambda>_. calm l) (once l)"
  by (induction n) (auto split: prod.split intro!: calm_then calm_say calm_ret)

lemma calm_askArguments: "triple (calm l) (askArguments name ask i specs) (\<lambda>_. calm l) (once l)"
  by (induction name ask i specs rule: askArguments.induct)
    (auto split: option.split intro!: calm_bind calm_askArgument calm_ret)

lemma calm_jobArguments: "triple (calm l) (jobArguments me name job given) (\<lambda>_. calm l) (once l)"
  unfolding jobArguments_def suppliedArguments_def
  by (auto split: option.split intro!: calm_then calm_say calm_ret calm_fail calm_askArguments)

lemma calm_robots: "triple (calm l) (triggerRobots jobs) (\<lambda>_. calm l) (once l)"
  by (induction jobs rule: triggerRobots.induct) (auto intro!: calm_bind calm_robot calm_ret)

lemma calm_to_once: "triple (calm l) m (\<lambda>_. calm l) (once l) \<Longrightarrow> triple (calm l) m (\<lambda>_. once l) (once l)"
proof -
  assume m: "triple (calm l) m (\<lambda>_. calm l) (once l)"
  show ?thesis
    unfolding triple_def
  proof (intro allI impI)
    fix s assume s: "calm l s"
    obtain r t where eq: "m s = (r, t)" by fastforce
    have "once l t" using tripleD [OF m s eq] calm_once by (cases r) auto
    then show "case m s of (Inl e, t) \<Rightarrow> once l t | (Inr x, t) \<Rightarrow> once l t" by (cases r) (simp_all add: eq)
  qed
qed

lemma once_runJob: "triple (calm l) (runJob me name given t) (\<lambda>_. once l) (once l)"
  unfolding runJob_def rememberJob_def Let_def
  by (auto split!: taskObj.split option.split
      intro!: calm_then calm_bind calm_robot triple_readsM calm_shared calm_jobArguments once_run calm_say
        calm_to_once [OF calm_robot])

lemma once_runJobCommand: "triple (calm l) (runJobCommand me name given) (\<lambda>_. once l) (once l)"
  unfolding runJobCommand_def
  by (auto split!: option.split prod.split bool.split
      intro!: calm_bind calm_robot triple_readsM once_runJob calm_to_once [OF calm_ret] calm_to_once [OF calm_say])

lemma stage_jobs: "stage l (checkJobMatchersAndRun me)"
proof -
  have start: "triple (calm l) (modifyOp (\<lambda>s. s\<lparr>msTriggered := msTriggered s @ robots\<rparr>)) (\<lambda>_. once l) (once l)" for robots
    by (rule triple_modifyOp) (auto simp: calm_def once_def logOf_def)
  have trig: "stage l (bindOp (triggerRobots jobs) (\<lambda>robots. bindOp (readsM down) (\<lambda>d.
      andThen (if d then say msg else modifyOp (\<lambda>s. s\<lparr>msTriggered := msTriggered s @ robots\<rparr>)) (ret True))))" for jobs down msg
    unfolding stage_def
    by (intro calm_bind [OF calm_robots] triple_readsM, fold stage_def)
      (auto intro!: stage_done start calm_to_once [OF calm_say])
  show ?thesis
    unfolding checkJobMatchersAndRun_def
    by (rule stage_reads)
      (auto split!: option.split prod.split intro!: trig stage_ret stage_then calm_robot stage_done once_runJobCommand)
qed

lemma stage_wrongLocation: "stage l (checkWrongLocationCommandMatch me)"
  unfolding checkWrongLocationCommandMatch_def Let_def
  by (rule stage_reads) (auto split!: list.split prod.split intro!: stage_ret stage_then calm_sayNear)

lemma stage_catchAlls: "stage l (runCatchAlls me False)"
  unfolding runCatchAlls_def
  by (rule stage_reads) (auto split!: prod.split option.split intro!: stage_ret stage_then calm_robot stage_done once_run)

lemma catchAlls_matched: "triple (once l) (runCatchAlls me True) (\<lambda>b s. \<not> b \<and> once l s) (once l)"
  unfolding runCatchAlls_def by (auto simp: triple_def ret_def split: prod.split)

lemma stage_replies: "stage l checkReplies"
proof -
  have "stage l (andThen (modifyShared f) (ret b))" for f b by (intro stage_then calm_shared stage_ret)
  then show ?thesis unfolding checkReplies_def by (intro stage_reads) (auto split: prod.split)
qed

subsection \<open>The robot behind a message\<close>

text \<open>Every operation of the handler is a step of the robot that adds only checked tasks of this user.\<close>

definition grows :: "'a mop \<Rightarrow> bool" where
  "grows m \<longleftrightarrow> (\<forall>s. growStep (msRobot s) (msRobot (snd (m s))))"

named_theorems grows_intro \<open>operations on a message that are steps of the robot\<close>

lemma grows_robot: "within growStep m \<Longrightarrow> grows (onRobot m)"
  by (simp add: grows_def within_def onRobot_parts)

lemma grows_bind [grows_intro]: "grows m \<Longrightarrow> (\<And>x. grows (k x)) \<Longrightarrow> grows (bindOp m k)"
  unfolding grows_def
proof
  fix s assume m: "\<forall>s. growStep (msRobot s) (msRobot (snd (m s)))"
    and k: "\<And>x. \<forall>s. growStep (msRobot s) (msRobot (snd (k x s)))"
  obtain r t where eq: "m s = (r, t)" by fastforce
  have st: "growStep (msRobot s) (msRobot t)" using m eq by (metis snd_conv)
  show "growStep (msRobot s) (msRobot (snd (bindOp m k s)))"
  proof (cases r)
    case (Inl e)
    then show ?thesis using st eq by (simp add: bindOp_def)
  next
    case (Inr x)
    then show ?thesis using grow.step_trans [OF st] k eq by (simp add: bindOp_def)
  qed
qed

lemma grows_then [grows_intro]: "grows m \<Longrightarrow> grows n \<Longrightarrow> grows (andThen m n)"
  unfolding andThen_def by (rule grows_bind)

lemma grows_basic [grows_intro]: "grows (ret x)" "grows (readsM f)" "grows (modifyShared g)"
  by (simp_all add: grows_def ret_def grow.step_refl)

lemma grows_modify [grows_intro]: "(\<And>s. msRobot (f s) = msRobot s) \<Longrightarrow> grows (modifyOp f)"
  by (simp add: grows_def modifyOp_def grow.step_refl)

lemma good_grow: "goodStep s s' \<Longrightarrow> growStep s s'"
  unfolding goodStep_def growStep_def using traceSafe_quiet addedByI samePerson_sameRole by metis

lemma grow_moves: "moves m \<Longrightarrow> within growStep m"
  by (auto simp: within_def intro: good_grow)

lemma grow_worker: "(\<And>w. sameRole w (f w)) \<Longrightarrow> within growStep (modifyWorker f)"
  by (simp add: within_def modifyWorker_def modifyOp_def growStep_def addedBy_def)

lemma grows_act [grows_intro]: "\<not> isExecute a \<Longrightarrow> grows (onRobot (act a))"
  by (intro grows_robot grow_moves moves_act)

lemma grows_say [grows_intro]: "grows (say msg)" "grows (sayNear msg)" "grows (setMessage msg)"
  unfolding say_def sayNear_def setMessage_def
  by (auto intro!: grows_intro grows_robot [OF grow_worker] simp: sameRole_def sameUser_def split: if_splits)

lemma grow_act: "\<not> isExecute a \<Longrightarrow> within growStep (act a)"
  by (intro grow_moves moves_act)

lemma grows_run [grows_intro]: "grows (runPipelineFor me t ptype command args)"
  unfolding runPipelineFor_def
  by (intro grows_intro grows_robot) (simp_all add: within_def engine_steps)

lemma grows_if [grows_intro]: "(b \<Longrightarrow> grows m) \<Longrightarrow> (\<not> b \<Longrightarrow> grows n) \<Longrightarrow> grows (if b then m else n)"
  by simp

lemma grows_option [grows_intro]:
  "(x = None \<Longrightarrow> grows m) \<Longrightarrow> (\<And>y. x = Some y \<Longrightarrow> grows (n y)) \<Longrightarrow> grows (case x of None \<Rightarrow> m | Some y \<Rightarrow> n y)"
  by (cases x) simp_all

lemma grows_prod [grows_intro]: "(\<And>a b. x = (a, b) \<Longrightarrow> grows (f a b)) \<Longrightarrow> grows (case x of (a, b) \<Rightarrow> f a b)"
  by (cases x) simp

lemma grows_plugins [grows_intro]: "grows (checkPluginMatchersAndRun me asCommand)"
  unfolding checkPluginMatchersAndRun_def
  by (rule grows_bind [OF grows_basic(2)])
    (auto split!: prod.split dispatchResult.split option.split list.split intro!: grows_intro)

lemma grows_bare [grows_intro]: "grows (bareMessage me c)"
  unfolding bareMessage_def
  by (rule grows_bind [OF grows_basic(2)]) (auto split!: prod.split option.split intro!: grows_intro)

lemma moves_jobAvailable: "moves (jobAvailable name)"
  unfolding jobAvailable_def Let_def by (intro moves_intro)

lemma moves_callFor:
  "moves (checkAuthorization (callFor me) t command args)" "moves (checkElevation (callFor me) t command)"
  unfolding callFor_def checkElevation_def
  by (intro caller.moves_checkAuthorization moves_intro caller.moves_elevate)+

lemma moves_jobSecurityCheck: "moves (jobSecurityCheck (callFor me) t command)"
  unfolding jobSecurityCheck_def by (intro moves_intro moves_callFor)

lemma grow_registerActive: "within growStep registerActive"
  by (simp add: within_def registerActive_def modifyOp_def growStep_def addedBy_def sameRole_def sameUser_def
      withIdentifiers_def Let_def)

lemma grow_deregister: "within growStep deregister"
  unfolding deregister_def modifyPipe_def
  by (intro grow.step_then grow_worker) (simp_all add: within_def modifyOp_def growStep_def addedBy_def sameRole_def sameUser_def)

lemma grow_newPipe: "within growStep (modifyPipe f)"
  unfolding modifyPipe_def by (rule grow_worker) (simp add: sameRole_def sameUser_def)

lemma grows_fail [grows_intro]: "grows (fail e)"
  by (simp add: grows_def fail_def grow.step_refl)

lemma grows_askArgument [grows_intro]: "grows (askArgument name label ask n)"
  by (induction n) (auto split: prod.split intro!: grows_intro)

lemma grows_askArguments [grows_intro]: "grows (askArguments name ask i specs)"
  by (induction name ask i specs rule: askArguments.induct) (auto split: option.split intro!: grows_intro)

lemma grows_jobArguments [grows_intro]: "grows (jobArguments me name job given)"
  unfolding jobArguments_def suppliedArguments_def by (auto split: option.split intro!: grows_intro)

lemma grows_triggerRobots [grows_intro]: "grows (triggerRobots jobs)"
  by (induction jobs rule: triggerRobots.induct) (auto intro!: grows_intro grows_robot grow_moves moves_clone)

lemma grows_runJob [grows_intro]: "grows (runJob me name given t)"
  unfolding runJob_def rememberJob_def Let_def
  by (auto split!: taskObj.split option.split
      intro!: grows_intro grows_robot grow.step_then grow_newPipe grow_registerActive grow_deregister
        grow_moves [OF moves_jobSecurityCheck])

lemma grows_runJobCommand [grows_intro]: "grows (runJobCommand me name given)"
  unfolding runJobCommand_def
  by (auto split!: option.split prod.split bool.split intro!: grows_intro grows_robot grow_moves moves_jobAvailable)

lemma grows_jobs [grows_intro]: "grows (checkJobMatchersAndRun me)"
  unfolding checkJobMatchersAndRun_def
  by (rule grows_bind [OF grows_basic(2)]) (auto split!: option.split prod.split intro!: grows_intro)

lemma grows_wrongLocation [grows_intro]: "grows (checkWrongLocationCommandMatch me)"
  unfolding checkWrongLocationCommandMatch_def Let_def
  by (rule grows_bind [OF grows_basic(2)]) (auto split!: list.split prod.split intro!: grows_intro)

lemma grows_catchAlls [grows_intro]: "grows (runCatchAlls me matched)"
  unfolding runCatchAlls_def by (intro grows_intro grows_robot grow.step_then grow_act) simp_all

lemma grows_subscription [grows_intro]: "grows (checkSubscription me matched caught)"
  unfolding checkSubscription_def by (intro grows_intro grows_robot grow_moves moves_small)

lemma grows_replies [grows_intro]: "grows checkReplies"
  unfolding checkReplies_def by (rule grows_bind [OF grows_basic(2)]) (auto split: prod.split intro!: grows_intro)

lemma grows_rememberLast [grows_intro]: "grows (rememberLast me c matched)"
  unfolding rememberLast_def by (auto intro!: grows_intro)

lemma grows_unless [grows_intro]: "grows m \<Longrightarrow> grows (unless b m)"
  unfolding unless_def by (intro grows_intro)

lemma grows_handleMessage: "grows (handleMessage me)"
  unfolding handleMessage_def Let_def by (intro grows_intro) simp_all

subsection \<open>At most one pipeline for a message\<close>

lemma triple_both:
  assumes "triple P m Q E" "keeps R m"
  shows "triple (\<lambda>s. P s \<and> R s) m (\<lambda>x s. Q x s \<and> R s) E"
  unfolding triple_def
proof (intro allI impI)
  fix s assume s: "P s \<and> R s"
  obtain r t where eq: "m s = (r, t)" by fastforce
  have "R t" using keepsD [OF assms(2), of s] s eq by simp
  then show "case m s of (Inl e, t) \<Rightarrow> E t | (Inr x, t) \<Rightarrow> Q x t \<and> R t"
    using tripleD [OF assms(1) _ eq] s eq by (cases r) auto
qed

lemma grows_role: "grows m \<Longrightarrow> keeps (\<lambda>s. sameRole w (currentWorker s)) m"
  unfolding keeps_def grows_def growStep_def currentWorker_def using sameRole_trans by blast

lemma catchAlls_command:
  "triple (calm l) (runCatchAlls me False) (\<lambda>b s. if b then once l s \<and> wIsCommand (currentWorker s) else calm l s) (once l)"
proof -
  have run: "triple (\<lambda>s. calm l s \<and> sameRole w (currentWorker s))
      (andThen (onRobot m) (case target of None \<Rightarrow> ret False
         | Some t \<Rightarrow> andThen (runPipelineFor me t CatchAll ''_catchall'' [wFmsg w]) (ret True)))
      (\<lambda>b s. if b then once l s \<and> sameRole w (currentWorker s) else calm l s) (once l)"
    if m: "within growStep m" for w target m
  proof -
    have r: "triple (\<lambda>s. calm l s \<and> sameRole w (currentWorker s)) (runPipelineFor me t CatchAll c args)
        (\<lambda>_ s. once l s \<and> sameRole w (currentWorker s)) (once l)" for t c args
      by (rule triple_both [OF once_run grows_role [OF grows_run]])
    have a: "triple (\<lambda>s. calm l s \<and> sameRole w (currentWorker s)) (onRobot m)
        (\<lambda>_ s. calm l s \<and> sameRole w (currentWorker s)) (once l)"
      by (rule triple_both [OF calm_robot grows_role [OF grows_robot [OF m]]])
    show ?thesis
      by (rule triple_then [OF a]) (auto split: option.split intro!: triple_then [OF r] triple_ret)
  qed
  have base: "within growStep (andThen (act MessageHeard) (act (Emit CatchAllsRan)))"
    by (intro grow.step_then grow_act) simp_all
  show ?thesis
    unfolding triple_def
  proof (intro allI impI)
    fix s assume s: "calm l s"
    let ?w = "currentWorker s"
    show "case runCatchAlls me False s of (Inl e, t) \<Rightarrow> once l t
        | (Inr b, t) \<Rightarrow> if b then once l t \<and> wIsCommand (currentWorker t) else calm l t"
    proof (cases "\<not> wIsCommand ?w \<or> cmSelfMessage (wIncoming ?w) \<or> wBotUser ?w \<or> rsShuttingDown (msRobot s)")
      case True
      then show ?thesis using s by (simp add: runCatchAlls_def ret_def)
    next
      case False
      obtain r t where eq: "runCatchAlls me False s = (r, t)" by fastforce
      then have eq': "andThen (onRobot (andThen (act MessageHeard) (act (Emit CatchAllsRan))))
          (case catchAllFor ?w of None \<Rightarrow> ret False
           | Some t \<Rightarrow> andThen (runPipelineFor me t CatchAll ''_catchall'' [wFmsg ?w]) (ret True)) s = (r, t)"
        using False by (simp add: runCatchAlls_def)
      show ?thesis
        using tripleD [OF run [OF base] _ eq'] s False eq by (cases r) (auto simp: sameRole_def split: if_splits)
    qed
  qed
qed

lemma tail_calm:
  "triple (calm l) (bindOp (runCatchAlls me False) (\<lambda>caught. andThen (checkSubscription me False caught) (rememberLast me c False)))
     (\<lambda>_. once l) (once l)"
proof (rule triple_bind [OF catchAlls_command])
  fix caught
  have rem: "triple (once l) (rememberLast me c False) (\<lambda>_. once l) (once l)"
    unfolding rememberLast_def by (intro triple_readsM) (auto intro!: triple_ret once_shared)
  have sub: "triple (calm l) (checkSubscription me False False) (\<lambda>_. once l) (once l)"
    unfolding checkSubscription_def
    by (intro triple_readsM)
      (auto split!: prod.split option.split intro!: calm_to_once [OF calm_ret] calm_then calm_shared calm_bind calm_robot once_run)
  have none: "triple (\<lambda>s. once l s \<and> wIsCommand (currentWorker s)) (checkSubscription me False True) (\<lambda>_. once l) (once l)"
    by (auto simp: triple_def checkSubscription_def shouldCheckThreadSubscription_def ret_def)
  show "triple (\<lambda>s. if caught then once l s \<and> wIsCommand (currentWorker s) else calm l s)
      (andThen (checkSubscription me False caught) (rememberLast me c False)) (\<lambda>_. once l) (once l)"
    by (rule triple_then [OF _ rem]) (use sub none in \<open>cases caught; simp\<close>)
qed

lemma tail_done:
  "triple (once l) (bindOp (runCatchAlls me True) (\<lambda>caught. andThen (checkSubscription me True caught) (rememberLast me c True)))
     (\<lambda>_. once l) (once l)"
proof (rule triple_bind [OF catchAlls_matched])
  fix caught
  have rem: "triple (once l) (rememberLast me c True) (\<lambda>_. once l) (once l)"
    unfolding rememberLast_def by (intro triple_readsM) (auto intro!: triple_ret once_shared)
  have "triple (\<lambda>s. \<not> caught \<and> once l s) (checkSubscription me True caught) (\<lambda>_. once l) (once l)"
    by (auto simp: triple_def checkSubscription_def shouldCheckThreadSubscription_def ret_def)
  then show "triple (\<lambda>s. \<not> caught \<and> once l s) (andThen (checkSubscription me True caught) (rememberLast me c True)) (\<lambda>_. once l) (once l)"
    by (rule triple_then [OF _ rem])
qed

lemma chain:
  assumes "stage l m" "triple (calm l) (k False) (\<lambda>_. once l) (once l)" "triple (once l) (k True) (\<lambda>_. once l) (once l)"
  shows "triple (calm l) (bindOp (unless False m) k) (\<lambda>_. once l) (once l)"
  unfolding unless_def if_False
  by (rule triple_bind [OF assms(1) [unfolded stage_def]]) (use assms(2,3) in \<open>simp split: if_splits\<close>)

lemma chain_once:
  "triple (once l) (k True) (\<lambda>_. once l) (once l) \<Longrightarrow> triple (once l) (bindOp (unless True m) k) (\<lambda>_. once l) (once l)"
  by (simp add: unless_def triple_def)

lemma once_handle: "triple (calm l) (handleMessage me) (\<lambda>_. once l) (once l)"
  unfolding handleMessage_def Let_def
proof (rule triple_readsM, rule calm_then)
  fix w :: worker
  show "triple (calm l) (if cmDirectMessage (wIncoming w) then onRobot (act (Emit BotDirectMessage)) else ret ()) (\<lambda>_. calm l) (once l)"
    by (simp add: calm_robot calm_ret)
  let ?c = "makeMemoryContext w lastMsgKey"
  have stages: "stage l (if b then m else ret False)" if "stage l m" for b m using that stage_ret by simp
  show "triple (calm l) (bindOp checkReplies (\<lambda>m1.
      bindOp (unless m1 (if wIsCommand w \<and> \<not> cmSelfMessage (wIncoming w) \<and> wMsg w = [] \<and> \<not> wBotUser w then bareMessage me ?c else ret False)) (\<lambda>m2.
      bindOp (unless m2 (if wIsCommand w \<and> \<not> cmSelfMessage (wIncoming w) then checkPluginMatchersAndRun me True else ret False)) (\<lambda>m3.
      bindOp (unless m3 (if \<not> cmSelfMessage (wIncoming w) \<and> \<not> wBotUser w then checkPluginMatchersAndRun me False else ret False)) (\<lambda>m4.
      bindOp (unless m4 (checkJobMatchersAndRun me)) (\<lambda>m5.
      bindOp (unless m5 (checkWrongLocationCommandMatch me)) (\<lambda>m6.
      bindOp (runCatchAlls me m6) (\<lambda>caught.
      andThen (checkSubscription me m6 caught) (rememberLast me ?c m6)))))))))
    (\<lambda>_. once l) (once l)" (is "triple _ (bindOp _ ?k) _ _")
  proof (rule triple_bind [OF stage_replies [unfolded stage_def]])
    fix b
    show "triple (if b then once l else calm l) (?k b) (\<lambda>_. once l) (once l)"
    proof (cases b)
      case True
      then show ?thesis by (simp only: if_True) (intro chain_once tail_done)
    next
      case False
      then show ?thesis
        by (simp only: if_False)
          (intro chain chain_once stages stage_bare stage_plugins stage_jobs stage_wrongLocation tail_calm tail_done)
    qed
  qed
qed

text \<open>
  C6. There is only one: handling a message runs at most one pipeline, whether a command or an ambient
  matcher, a job, a catch-all or a subscriber is found, or leaves that to the jobs it triggers.
\<close>

theorem dispatch_once:
  "msRuns (snd (handleMessage me s)) = msRuns s \<or>
   msTriggered (snd (handleMessage me s)) = msTriggered s \<and> (\<exists>run. msRuns (snd (handleMessage me s)) = msRuns s @ [run])"
proof -
  obtain r t where eq: "handleMessage me s = (r, t)" by fastforce
  have "calm (logOf s) s" by (simp add: calm_def)
  from tripleD [OF once_handle this eq] have "once (logOf s) t" by (cases r) simp_all
  then show ?thesis by (auto simp: once_def logOf_def eq)
qed

subsection \<open>Only a unique match runs\<close>

text \<open>Whether a matcher applies where the message was sent, and whether a plugin matches it.\<close>

definition eligible :: "worker \<Rightarrow> InputMatcher \<Rightarrow> bool" where
  "eligible w m \<longleftrightarrow> imChannelOnly m \<longrightarrow> wChannel w \<noteq> [] \<and> \<not> icThreadedMessage (wIncoming w)"

definition matcherHits :: "worker \<Rightarrow> bool \<Rightarrow> string \<Rightarrow> InputMatcher \<Rightarrow> bool" where
  "matcherHits w asCommand msg m \<longleftrightarrow>
     eligible w m \<and> isExact (if asCommand then matchCommandInput m msg else matchInput m msg)"

definition pluginHits :: "worker \<Rightarrow> bool \<Rightarrow> string \<Rightarrow> taskObj \<Rightarrow> bool" where
  "pluginHits w asCommand msg t \<longleftrightarrow>
     (case pluginMatchers w asCommand t of None \<Rightarrow> False | Some (plugin, ms) \<Rightarrow> list_ex (matcherHits w asCommand msg) ms)"

lemma isExact_iff: "isExact r \<longleftrightarrow> (\<exists>args. r = ExactMatch args)"
  by (cases r) simp_all

lemma scanMatchers_miss:
  "\<not> matcherHits w asCommand msg m \<Longrightarrow>
   \<exists>diags'. scanMatchers me w asCommand task plugin msg (m # ms) diags em = scanMatchers me w asCommand task plugin msg ms diags' em"
  by (cases "if asCommand then matchCommandInput m msg else matchInput m msg")
    (auto simp: matcherHits_def eligible_def)

lemma scanMatchers_first:
  "matcherHits w asCommand msg m \<Longrightarrow>
   \<exists>r mm d. scanMatchers me w asCommand task plugin msg (m # ms) diags em = (r, mm, d) \<and>
     r \<noteq> NothingMatched \<and> (\<forall>m' args. r = MatchedWith m' args \<longrightarrow> m' = m)"
  by (cases "if asCommand then matchCommandInput m msg else matchInput m msg")
    (auto simp: matcherHits_def eligible_def split: prod.split sum.split)

lemma scanMatchers_hit:
  "(fst (scanMatchers me w asCommand task plugin msg ms diags em) = NothingMatched \<longleftrightarrow> \<not> list_ex (matcherHits w asCommand msg) ms) \<and>
   (\<forall>m args. fst (scanMatchers me w asCommand task plugin msg ms diags em) = MatchedWith m args \<longrightarrow>
     m \<in> set ms \<and> matcherHits w asCommand msg m)"
proof (induction ms arbitrary: diags)
  case (Cons a ms)
  show ?case
  proof (cases "matcherHits w asCommand msg a")
    case True
    then show ?thesis using scanMatchers_first [OF True, of me task plugin ms diags em] by auto
  next
    case False
    then obtain d where "scanMatchers me w asCommand task plugin msg (a # ms) diags em = scanMatchers me w asCommand task plugin msg ms d em"
      using scanMatchers_miss by blast
    then show ?thesis using Cons [of d] False by auto
  qed
qed simp

lemma scanPlugins_found:
  "scanPlugins me w asCommand msg ts (Some found) diags em = (Finished x d, em') \<Longrightarrow>
   x = Some found \<and> \<not> list_ex (pluginHits w asCommand msg) ts"
proof (induction ts arbitrary: diags em)
  case (Cons t ts)
  show ?case
  proof (cases "pluginMatchers w asCommand t")
    case None
    then show ?thesis using Cons by (simp add: pluginHits_def)
  next
    case (Some p)
    obtain plugin ms where p: "p = (plugin, ms)" by (cases p)
    obtain r d' em'' where r: "scanMatchers me w asCommand (plTask plugin) plugin msg ms diags em = (r, d', em'')" by (metis prod_cases3)
    have "r = NothingMatched" using Cons.prems Some p r by (cases r) simp_all
    then show ?thesis using Cons Some p r scanMatchers_hit [of me w asCommand "plTask plugin" plugin msg ms diags em]
      by (simp add: pluginHits_def)
  qed
qed simp

lemma scanPlugins_unique:
  "scanPlugins me w asCommand msg ts None diags em = (Finished (Some (t, m, args)) d, em') \<Longrightarrow>
   \<exists>pre suf plugin ms. ts = pre @ t # suf \<and> pluginMatchers w asCommand t = Some (plugin, ms) \<and> m \<in> set ms \<and>
     matcherHits w asCommand msg m \<and> \<not> list_ex (pluginHits w asCommand msg) (pre @ suf)"
proof (induction ts arbitrary: diags em)
  case (Cons u ts)
  show ?case
  proof (cases "\<exists>plugin ms. pluginMatchers w asCommand u = Some (plugin, ms) \<and> list_ex (matcherHits w asCommand msg) ms")
    case True
    then obtain plugin ms where p: "pluginMatchers w asCommand u = Some (plugin, ms)" "list_ex (matcherHits w asCommand msg) ms" by blast
    obtain r d' em'' where r: "scanMatchers me w asCommand (plTask plugin) plugin msg ms diags em = (r, d', em'')" by (metis prod_cases3)
    have "r \<noteq> NothingMatched" using p r scanMatchers_hit [of me w asCommand "plTask plugin" plugin msg ms diags em] by simp
    then obtain m' args' where m': "r = MatchedWith m' args'" using Cons.prems p r by (cases r) simp_all
    then have rest: "scanPlugins me w asCommand msg ts (Some (u, m', args')) d' em'' = (Finished (Some (t, m, args)) d, em')"
      using Cons.prems p r by simp
    have hit: "m' \<in> set ms \<and> matcherHits w asCommand msg m'"
      using scanMatchers_hit [of me w asCommand "plTask plugin" plugin msg ms diags em] r m' by simp
    have "u = t" "m' = m" "\<not> list_ex (pluginHits w asCommand msg) ts" using scanPlugins_found [OF rest] by simp_all
    then show ?thesis using p(1) hit by (intro exI [of _ "[]"] exI [of _ ts] exI [of _ plugin] exI [of _ ms]) simp
  next
    case False
    have "\<exists>d' em''. scanPlugins me w asCommand msg ts None d' em'' = (Finished (Some (t, m, args)) d, em')"
    proof (cases "pluginMatchers w asCommand u")
      case None
      then show ?thesis using Cons.prems by auto
    next
      case (Some p)
      obtain plugin ms where p: "p = (plugin, ms)" by (cases p)
      obtain r d' em'' where r: "scanMatchers me w asCommand (plTask plugin) plugin msg ms diags em = (r, d', em'')" by (metis prod_cases3)
      have "r = NothingMatched" using False Some p r scanMatchers_hit [of me w asCommand "plTask plugin" plugin msg ms diags em] by simp
      then show ?thesis using Cons.prems Some p r by auto
    qed
    then obtain pre suf plugin ms where ih: "ts = pre @ t # suf" "pluginMatchers w asCommand t = Some (plugin, ms)" "m \<in> set ms"
      "matcherHits w asCommand msg m" "\<not> list_ex (pluginHits w asCommand msg) (pre @ suf)" using Cons.IH by blast
    have "\<not> pluginHits w asCommand msg u" using False by (auto simp: pluginHits_def split: option.splits)
    then show ?thesis using ih
      by (intro exI [of _ "u # pre"] exI [of _ suf] exI [of _ plugin] exI [of _ ms]) simp
  qed
qed simp

lemma runs_runPipeline: "msRuns (snd (runPipelineFor me t ptype command args s)) = msRuns s @ [(t, ptype, command, args)]"
  by (simp add: runPipelineFor_def andThen_def bindOp_def modifyOp_def onRobot_def split: prod.splits sum.splits)

lemma then_simps [simp]:
  "andThen (modifyShared f) n s = n (s\<lparr>msShared := f (msShared s)\<rparr>)"
  "andThen (onRobot (act a)) n s = n (s\<lparr>msRobot := (msRobot s)\<lparr>rsTrace := rsTrace (msRobot s) @ [a]\<rparr>\<rparr>)"
  "andThen (say msg) n s = n (s\<lparr>msRobot := (msRobot s)\<lparr>rsTrace := rsTrace (msRobot s) @ [Say msg]\<rparr>\<rparr>)"
  "snd (andThen (ret ()) (ret b) s) = s"
  by (simp_all add: andThen_def bindOp_def say_def onRobot_def ret_def)

lemma then_sayNear: "msRuns (snd (andThen (sayNear msg) (ret b) s)) = msRuns s"
  by (simp add: sayNear_def andThen_def bindOp_def onRobot_def ret_def)

lemma then_run: "msRuns (snd (andThen (runPipelineFor me t ptype command args) (ret b) s)) = msRuns s @ [(t, ptype, command, args)]"
proof -
  have "snd (andThen (runPipelineFor me t ptype command args) (ret b) s) = snd (runPipelineFor me t ptype command args s)"
    by (auto simp: andThen_def bindOp_def ret_def split: prod.splits sum.splits)
  then show ?thesis by (simp add: runs_runPipeline)
qed

definition runsOf :: "bool \<Rightarrow> bool \<Rightarrow> dispatchResult \<Rightarrow> (taskObj \<times> pipelineType \<times> string \<times> string list) list" where
  "runsOf asCommand down r =
     (case r of
        Finished (Some (t, m, args)) d \<Rightarrow>
          if down \<and> \<not> allowedInShutdown t (imCommand m) then []
          else [(t, if asCommand then PlugCommand else PlugMessage, imCommand m, args)]
      | _ \<Rightarrow> [])"

lemma check_runs:
  "msRuns (snd (checkPluginMatchersAndRun me asCommand s)) = msRuns s @
     runsOf asCommand (rsShuttingDown (msRobot s))
       (fst (scanPlugins me (currentWorker s) asCommand (if asCommand then wMsg (currentWorker s) else wFmsg (currentWorker s))
         (drop 1 (tlT (wTasks (currentWorker s)))) None [] (shMemories (msShared s))))"
  (is "_ = _ @ runsOf _ _ (fst ?scan)")
proof -
  obtain r em where scan: "?scan = (r, em)" by fastforce
  show ?thesis
  proof (cases r)
    case (Finished x d)
    show ?thesis
    proof (cases x)
      case None
      then show ?thesis using scan Finished
        by (auto simp: checkPluginMatchersAndRun_def runsOf_def ret_def then_sayNear split: list.split)
    next
      case (Some c)
      then show ?thesis using scan Finished
        by (cases c) (simp add: checkPluginMatchersAndRun_def runsOf_def ret_def then_run)
    qed
  qed (use scan in \<open>simp_all add: checkPluginMatchersAndRun_def runsOf_def ret_def\<close>)
qed

text \<open>
  C15. A pipeline runs for a command, or for an ambient message, only when one available plugin matches: the
  plugin run is in the list, the command is that of one of its matchers that fits, and no other entry
  of the list matches as well.
\<close>

theorem command_unique:
  assumes "msRuns (snd (checkPluginMatchersAndRun me asCommand s)) = msRuns s @ [(t, ptype, command, args)]"
  shows "\<exists>pre suf plugin ms m. drop 1 (tlT (wTasks (currentWorker s))) = pre @ t # suf \<and>
    pluginMatchers (currentWorker s) asCommand t = Some (plugin, ms) \<and> m \<in> set ms \<and> imCommand m = command \<and>
    matcherHits (currentWorker s) asCommand (if asCommand then wMsg (currentWorker s) else wFmsg (currentWorker s)) m \<and>
    \<not> list_ex (pluginHits (currentWorker s) asCommand (if asCommand then wMsg (currentWorker s) else wFmsg (currentWorker s))) (pre @ suf)"
proof -
  let ?w = "currentWorker s"
  let ?msg = "if asCommand then wMsg ?w else wFmsg ?w"
  obtain r em where scan: "scanPlugins me ?w asCommand ?msg (drop 1 (tlT (wTasks ?w))) None [] (shMemories (msShared s)) = (r, em)"
    by fastforce
  have "runsOf asCommand (rsShuttingDown (msRobot s)) r = [(t, ptype, command, args)]"
    using assms unfolding check_runs scan by simp
  then obtain m d where r: "r = Finished (Some (t, m, args)) d" and m: "imCommand m = command"
    by (auto simp: runsOf_def split: dispatchResult.splits option.splits if_splits)
  from scanPlugins_unique [OF scan [unfolded r]] m show ?thesis by blast
qed

subsection \<open>The robot's own messages\<close>

definition hush :: "msgState \<Rightarrow> msgState \<Rightarrow> bool" where
  "hush s s' \<longleftrightarrow> msRuns s' = msRuns s \<and> filter isExecute (rsTrace (msRobot s')) = filter isExecute (rsTrace (msRobot s)) \<and>
     sameRole (currentWorker s) (currentWorker s')"

lemma hush_good: "goodStep r r' \<Longrightarrow> hush s (s2\<lparr>msRobot := r\<rparr>) \<Longrightarrow> hush s (s2\<lparr>msRobot := r'\<rparr>)"
  unfolding hush_def currentWorker_def
  using sameRole_trans samePerson_sameRole by (auto simp: goodStep_def list_ex_iff filter_empty_conv)

lemma hush_robot: "moves m \<Longrightarrow> keeps (hush s) (onRobot m)"
  unfolding keeps_def
proof (intro allI impI)
  fix u assume m: "moves m" and u: "hush s u"
  have "goodStep (msRobot u) (snd (m (msRobot u)))" using m by (simp add: within_def)
  from hush_good [OF this, of s u] u show "hush s (snd (onRobot m u))" by (cases "m (msRobot u)") (simp add: onRobot_def)
qed

lemma hush_shared: "keeps (hush s) (modifyShared f)"
  by (simp add: keeps_def hush_def currentWorker_def)

lemma hush_reads: "(\<And>x. keeps (hush s) (k x)) \<Longrightarrow> keeps (hush s) (bindOp (readsM f) k)"
  by (simp add: keeps_def)

lemma hush_say: "keeps (hush s) (say msg)"
  unfolding say_def by (rule hush_robot, rule moves_act) simp

lemma hush_replies: "keeps (hush s) checkReplies"
  unfolding checkReplies_def
  by (rule hush_reads) (auto split: prod.split intro!: keeps_andThen hush_shared keeps_ret)

lemma hush_robots: "keeps (hush s) (triggerRobots jobs)"
  by (induction jobs rule: triggerRobots.induct) (auto intro!: keeps_bindOp keeps_ret hush_robot moves_clone)

lemma hush_rememberLast: "keeps (hush s) (rememberLast me c matched)"
  unfolding rememberLast_def by (rule hush_reads) (auto intro!: keeps_ret hush_shared)

lemma hush_self: "cmSelfMessage (wIncoming (currentWorker s)) \<Longrightarrow> hush s u \<Longrightarrow> cmSelfMessage (wIncoming (currentWorker u))"
  by (simp add: hush_def sameRole_def)

lemma hush_jobs:
  assumes "cmSelfMessage (wIncoming (currentWorker s))"
  shows "keeps (hush s) (checkJobMatchersAndRun me)"
proof -
  have trig: "keeps (hush s) (bindOp (triggerRobots jobs) (\<lambda>robots. bindOp (readsM down) (\<lambda>d.
      andThen (if d then say msg else modifyOp (\<lambda>s. s\<lparr>msTriggered := msTriggered s @ robots\<rparr>)) (ret True))))" for jobs down msg
    by (intro keeps_bindOp hush_robots hush_reads keeps_andThen keeps_ret)
      (auto intro!: hush_say keeps_modifyOp simp: hush_def currentWorker_def)
  show ?thesis
    unfolding keeps_def
  proof (intro allI impI)
    fix u assume u: "hush s u"
    show "hush s (snd (checkJobMatchersAndRun me u))"
    proof (cases "triggeredJobs (currentWorker u) = []")
      case True
      then show ?thesis using hush_self [OF assms u] u by (simp add: checkJobMatchersAndRun_def ret_def)
    next
      case False
      then show ?thesis using keepsD [OF trig u] by (simp add: checkJobMatchersAndRun_def)
    qed
  qed
qed

lemma hush_rest:
  assumes "cmSelfMessage (wIncoming (currentWorker s))"
  shows "keeps (hush s) (checkWrongLocationCommandMatch me)" "keeps (hush s) (runCatchAlls me m)"
    "keeps (hush s) (checkSubscription me m c)"
  using hush_self [OF assms]
  by (simp_all add: keeps_def checkWrongLocationCommandMatch_def runCatchAlls_def checkSubscription_def
      shouldCheckThreadSubscription_def ret_def)

lemma keeps_unless: "keeps P m \<Longrightarrow> keeps P (unless b m)"
  by (simp add: unless_def keeps_ret)

text \<open>
  The robot does not answer itself: for a message of its own it runs nothing, whatever the plugins
  match, and hands it to no catch-all and no subscriber; only jobs that list the robot as a trigger's
  user are started beside it.
\<close>

theorem own_messages_run_nothing:
  assumes "cmSelfMessage (wIncoming (currentWorker s))"
  shows "msRuns (snd (handleMessage me s)) = msRuns s \<and>
    filter isExecute (rsTrace (msRobot (snd (handleMessage me s)))) = filter isExecute (rsTrace (msRobot s))"
proof -
  have "keeps (hush s) (onRobot (act (Emit BotDirectMessage)))" by (rule hush_robot, rule moves_act) simp
  then have "keeps (hush s) (handleMessage' w)" if "handleMessage' = (\<lambda>w.
      andThen (if cmDirectMessage (wIncoming w) then onRobot (act (Emit BotDirectMessage)) else ret ())
         (bindOp checkReplies (\<lambda>m1.
          bindOp (unless m1 (ret False)) (\<lambda>m2.
          bindOp (unless m2 (ret False)) (\<lambda>m3.
          bindOp (unless m3 (ret False)) (\<lambda>m4.
          bindOp (unless m4 (checkJobMatchersAndRun me)) (\<lambda>m5.
          bindOp (unless m5 (checkWrongLocationCommandMatch me)) (\<lambda>m6.
          bindOp (runCatchAlls me m6) (\<lambda>caught.
          andThen (checkSubscription me m6 caught) (rememberLast me (makeMemoryContext w lastMsgKey) m6))))))))))" for handleMessage' w
    unfolding that
    by (intro keeps_andThen keeps_bindOp keeps_unless keeps_ret hush_replies hush_jobs hush_rest hush_rememberLast assms)
      (simp add: keeps_ret)
  from keepsD [OF this [OF refl], of s "currentWorker s"] have "hush s (snd (handleMessage me s))"
    using assms by (simp add: handleMessage_def Let_def hush_def)
  then show ?thesis by (simp add: hush_def)
qed

subsection \<open>From the message to the task\<close>

text \<open>
  C1. What a message runs in its own pipeline (the command, ambient matcher, catch-all or subscriber it is
  handed to, or the job of a \<^verbatim>\<open>run job\<close>, with the tasks and child jobs that pipeline itself runs): starting
  with an empty trace, a job or plugin is executed as the sender of the message and only after its checks,
  and what asks for an administrator only when the connector has vouched for the sender and the sender is
  a configured administrator. Not in this trace are jobs that the message merely triggers, which run
  beside it as automatic tasks and for which the code skips the checks, and jobs that a task spawns.
\<close>

theorem message_gate:
  assumes arrive: "handleIncoming k inc now m = (HandleMessage w, m', out)"
    and start: "currentWorker s = w" "rsTrace (msRobot s) = []"
    and trace: "rsTrace (msRobot (snd (handleMessage me s))) = pre @ Execute w' t command args # post" and g: "gated t"
  shows "wUser w' = wUser w \<and> passed t command args w' pre \<and>
    (adminRequired t command \<longrightarrow> cmValidatedUser inc \<and> wUser w \<in> set (cfAdminUsers (inCfg k)))"
proof -
  have grow: "growStep (msRobot s) (msRobot (snd (handleMessage me s)))" using grows_handleMessage by (simp add: grows_def)
  then have "addedBy w (msRobot s) (msRobot (snd (handleMessage me s)))" using start(1) by (simp add: growStep_def currentWorker_def)
  then have "list_all (ranBy w) (pre @ Execute w' t command args # post)" using start(2) trace by (auto simp: addedBy_def)
  then have same: "sameUser w w'" by simp
  note id = incoming_identity [OF arrive]
  have w: "\<not> wAutomaticTask w" "wCfg w = inCfg k"
    using arrive by (auto simp: handleIncoming_def newWorker_def Let_def split: if_splits prod.splits bool.splits)
  have "traceSafe (pre @ Execute w' t command args # post)" using grow start(2) trace by (simp add: growStep_def)
  then have p: "passed t command args w' pre" using g same w(1) unfolding traceSafe_def sameUser_def by blast
  moreover have "adminRequired t command \<Longrightarrow> adminOk w" using p same by (simp add: passed_def adminOk_def sameUser_def)
  ultimately show ?thesis using id same w by (auto simp: sameUser_def adminOk_def)
qed

subsection \<open>A subscriber that is gone\<close>

text \<open>
  Subscriptions survive a restart, and a change of the configuration, but the handler does not look
  whether the plugin is still there: a message nothing else takes, in a thread whose subscriber is not
  configured any more, panics, which stops the robot.
\<close>

theorem lost_subscriber_panics:
  assumes "\<not> cmSelfMessage (wIncoming w)" "\<not> wBotUser w" "\<not> wIsCommand w \<or> \<not> caught" and w: "w = currentWorker s"
    and "lookupSubscriptionLocked (workerProtocol w) (wChannel w) (icThreadID (wIncoming w)) (shSubscriptions (msShared s)) = Some (spec, sub)"
    and "getTaskByName (wTasks w) (sbPlugin sub) = None"
  shows "fst (checkSubscription me False caught s) = Inl NilTask"
  using assms
  by (simp add: checkSubscription_def shouldCheckThreadSubscription_def bindOp_def onRobot_def getTaskOf_def fail_def)

subsection \<open>Concrete messages\<close>

definition demoShared :: sharedState where
  "demoShared = \<lparr>shMemories = \<lparr>emMap = [], emDirty = False\<rparr>, shSubscriptions = demoSubscriptions, shReplies = [], shSent = []\<rparr>"

definition demoMsgState :: msgState where
  "demoMsgState = \<lparr>msRobot = demoState\<lparr>rsWorker := newWorker demoIntake demoMessage ''alice'' False True\<rparr>,
     msShared = demoShared, msRuns = [], msTriggered = []\<rparr>"

definition demoMsgEnv :: msgEnv where
  "demoMsgEnv = \<lparr>meEnv = demoEnv, meFuel = 6, meWorld = (\<lambda>r sh. sh), meGroups = (\<lambda>a u. None),
     meAnswer = (\<lambda>i n. ([], TimeoutExpired)), meNow = 100\<rparr>"

lemma demo_worker: "currentWorker demoMsgState = newWorker demoIntake demoMessage ''alice'' False True"
  by (simp add: demoMsgState_def currentWorker_def)

theorem message_gate_witness:
  "\<exists>pre w t command args post.
     rsTrace (msRobot (snd (handleMessage demoMsgEnv demoMsgState))) = pre @ Execute w t command args # post \<and>
     adminRequired t command \<and> cmValidatedUser demoMessage"
proof -
  let ?tr = "rsTrace (msRobot (snd (handleMessage demoMsgEnv demoMsgState)))"
  have "list_ex demoGated ?tr" by code_simp
  then obtain a where "a \<in> set ?tr" and a: "demoGated a" by (auto simp: list_ex_iff)
  then obtain pre post where tr: "?tr = pre @ a # post" by (meson split_list)
  obtain w t command args where e: "a = Execute w t command args" "gated t" "adminRequired t command"
    using a by (auto simp: demoGated_def split: action.splits)
  have "rsTrace (msRobot demoMsgState) = []" by (simp add: demoMsgState_def demoState_def)
  from message_gate [OF demo_arrives demo_worker this tr [unfolded e(1)] e(2)] show ?thesis using tr e by blast
qed

theorem command_unique_witness:
  "\<exists>pre t suf. drop 1 (tlT demoTasks) = pre @ t # suf \<and> tkName (taskOf t) = ''deploy'' \<and>
     \<not> list_ex (pluginHits (currentWorker demoMsgState) True ''go'') (pre @ suf)"
proof -
  let ?w = "currentWorker demoMsgState"
  have w: "wTasks ?w = demoTasks" "wMsg ?w = ''go''" by (simp add: demo_worker newWorker_def demoIntake_def split: prod.split) code_simp
  let ?r = "fst (scanPlugins demoMsgEnv ?w True ''go'' (drop 1 (tlT demoTasks)) None [] (shMemories (msShared demoMsgState)))"
  have "case ?r of Finished (Some (t, m, args)) d \<Rightarrow> tkName (taskOf t) = ''deploy'' \<and> imCommand m = ''go'' \<and> args = [] | _ \<Rightarrow> False"
    by code_simp
  then obtain t m d where r: "?r = Finished (Some (t, m, [])) d" "tkName (taskOf t) = ''deploy''" "imCommand m = ''go''"
    by (auto split: dispatchResult.splits option.splits)
  have "\<not> rsShuttingDown (msRobot demoMsgState)" by (simp add: demoMsgState_def demoState_def)
  then have "msRuns (snd (checkPluginMatchersAndRun demoMsgEnv True demoMsgState)) = msRuns demoMsgState @ [(t, PlugCommand, ''go'', [])]"
    using check_runs [of demoMsgEnv True demoMsgState] r(1,3) w by (simp add: runsOf_def)
  from command_unique [OF this] show ?thesis using r(2) w by auto
qed

definition demoOwnState :: msgState where
  "demoOwnState = demoMsgState\<lparr>msRobot := demoState\<lparr>rsWorker := (currentWorker demoMsgState)
     \<lparr>wIncoming := demoMessage\<lparr>cmSelfMessage := True\<rparr>\<rparr>\<rparr>\<rparr>"

theorem own_messages_run_nothing_witness:
  "msRuns (snd (handleMessage demoMsgEnv demoOwnState)) = msRuns demoOwnState \<and>
   filter isExecute (rsTrace (msRobot (snd (handleMessage demoMsgEnv demoOwnState)))) = filter isExecute (rsTrace (msRobot demoOwnState))"
  by (rule own_messages_run_nothing) (simp add: demoOwnState_def currentWorker_def)

definition demoThreadState :: msgState where
  "demoThreadState = demoMsgState\<lparr>msRobot := demoState\<lparr>rsWorker := (currentWorker demoMsgState)
     \<lparr>wIsCommand := False, wIncoming := demoMessage\<lparr>icThreadedMessage := True, icThreadID := ''t{|}1''\<rparr>\<rparr>\<rparr>\<rparr>"

theorem lost_subscriber_panics_witness:
  "fst (checkSubscription demoMsgEnv False False demoThreadState) = Inl NilTask"
proof -
  let ?w = "currentWorker demoThreadState"
  have "lookupSubscriptionLocked (workerProtocol ?w) (wChannel ?w) (icThreadID (wIncoming ?w)) (shSubscriptions (msShared demoThreadState)) =
      Some (\<lparr>skProtocol = ''ssh'', skChannel = ''general'', skThread = ''t{|}1''\<rparr>, \<lparr>sbPlugin = ''chat'', sbTimestamp = 5\<rparr>)" by code_simp
  moreover have "wTasks ?w = demoTasks"
    by (simp add: demoThreadState_def currentWorker_def demoMsgState_def newWorker_def demoIntake_def split: prod.split)
  then have "getTaskByName (wTasks ?w) ''chat'' = None" by (simp add: getTaskByName_def demoTasks_def)
  moreover have "\<not> cmSelfMessage (wIncoming ?w)" "\<not> wBotUser ?w" "\<not> wIsCommand ?w" by code_simp+
  ultimately show ?thesis using lost_subscriber_panics [of ?w False demoThreadState] by simp
qed

end
