(* ===== verification/Elevators.thy ===== *)
theory Elevators
  imports Security
begin

text \<open>
  The elevators that come with the robot: one-time codes (bot/builtin\_totp.go) and the approval of
  another user (bot/builtin\_userapproval.go). An elevator is the plugin that \<open>elevate\<close> of
  bot/elevate.go calls with the command \<open>_elevate\<close>; its result Success is what \<open>elevatorVerdict\<close>
  takes for an elevation. The check of a code against a secret is a library call, and prompts are
  answered by users: both are arguments. What the elevator says is a list of channels and texts.
  Times are in seconds.
\<close>

subsection \<open>One-time codes\<close>

datatype timeoutType = IdleTimeout | AbsoluteTimeout

record totp_config =
  tcTimeoutSeconds :: int
  tcTimeoutType :: string
  tcUsers :: "(string \<times> string) list"

text \<open>The variables of the package: the configuration, its timeout type, the secrets and the elevations.\<close>

record totpState =
  tsCfg :: totp_config
  tsTt :: timeoutType
  tsUsers :: "string \<Rightarrow> string option"
  tsLastElevate :: "string \<Rightarrow> int option"
  tsMemories :: eMemories

text \<open>
  The world of one call: the time, the library's check of a code, the full name of the robot, and the
  answers to prompts, which are asked in the conversation or directly (\<open>r.Direct()\<close>).
\<close>

record totpEnv =
  teNow :: int
  teValidate :: "string \<Rightarrow> string \<Rightarrow> bool"
  teBotFull :: string
  tePrompt :: "bool \<Rightarrow> string \<Rightarrow> string \<times> RetVal"

type_synonym sayings = "(string \<times> string) list"

text \<open>\<open>checkOTP\<close> forgets the channel of the message it was called for, so that codes are remembered per user.\<close>

definition checkOTP :: "totpEnv \<Rightarrow> speaker \<Rightarrow> string \<Rightarrow> totpState \<Rightarrow> (bool \<times> TaskRetVal) \<times> speaker \<times> totpState" where
  "checkOTP te r code s =
     (case tsUsers s (spUser r) of
        None \<Rightarrow> ((False, MechanismFail), r, s)
      | Some secret \<Rightarrow>
          let r' = r\<lparr>spChannel := []\<rparr> in
          if recall r' ''lastTOTP'' False (tsMemories s) = code then ((False, Fail), r', s)
          else if teValidate te code secret then
            ((True, Success), r', s\<lparr>tsMemories := remember r' ''lastTOTP'' code False (teNow te) (tsMemories s)\<rparr>)
          else ((False, Success), r', s))"

definition codePrompt :: "bool \<Rightarrow> string \<Rightarrow> string" where
  "codePrompt immediate botFull =
     (if immediate then ''This command requires immediate elevation, please provide a TOTP code for ''
      else ''This command requires elevation, please provide a TOTP code for '') @ singleQuoted botFull @ '':''"

definition promptCode :: "totpEnv \<Rightarrow> bool \<Rightarrow> string \<times> RetVal" where
  "promptCode te immediate =
     (let first = tePrompt te False (codePrompt immediate (teBotFull te)) in
      if snd first \<noteq> Ok then tePrompt te True ''Try again? I need a 6-digit launch code'' else first)"

definition getcode :: "totpEnv \<Rightarrow> speaker \<Rightarrow> bool \<Rightarrow> totpState \<Rightarrow> TaskRetVal \<times> sayings \<times> totpState" where
  "getcode te r immediate s =
     (case promptCode te immediate of (rep, got) \<Rightarrow>
        if got \<noteq> Ok then (Fail, [], s)
        else (case checkOTP te r rep s of ((ok, status), r', s') \<Rightarrow>
          if status \<noteq> Success then
            (MechanismFail, [(spChannel r', ''There were technical issues validating your code, ask an administrator to check the log'')], s')
          else if ok then (Success, [], s')
          else (Fail, [(spChannel r', ''Invalid code'')], s')))"

definition isImmediate :: "string \<Rightarrow> bool" where
  "isImmediate arg \<longleftrightarrow> arg \<in> set [''true'', ''True'', ''t'', ''T'', ''Yes'', ''yes'', ''Y'']"

text \<open>Whether a call asks for a code: always for an immediate elevation, else when the last one has run out.\<close>

definition asksCode :: "totpEnv \<Rightarrow> string \<Rightarrow> bool \<Rightarrow> totpState \<Rightarrow> bool" where
  "asksCode te user immediate s \<longleftrightarrow>
     immediate \<or> (case tsLastElevate s user of None \<Rightarrow> True | Some le \<Rightarrow> teNow te - le > tcTimeoutSeconds (tsCfg s))"

definition noteElevation :: "totpEnv \<Rightarrow> string \<Rightarrow> bool \<Rightarrow> TaskRetVal \<Rightarrow> totpState \<Rightarrow> totpState" where
  "noteElevation te user ask retval s =
     (if retval = Success \<and> (tsTt s = IdleTimeout \<or> ask \<and> tsTt s = AbsoluteTimeout)
      then s\<lparr>tsLastElevate := (tsLastElevate s)(user \<mapsto> teNow te)\<rparr> else s)"

definition totpElevate :: "totpEnv \<Rightarrow> speaker \<Rightarrow> string \<Rightarrow> totpState \<Rightarrow> TaskRetVal \<times> sayings \<times> totpState" where
  "totpElevate te r arg s =
     (let immediate = isImmediate arg;
          s1 = (if tcTimeoutType (tsCfg s) = ''absolute'' then s\<lparr>tsTt := AbsoluteTimeout\<rparr> else s);
          asks = asksCode te (spUser r) immediate s1
      in case (if asks then getcode te r immediate s1 else (Success, [], s1)) of
           (retval, said, s2) \<Rightarrow> (retval, said, noteElevation te (spUser r) (asks \<and> \<not> immediate) retval s2))"

definition totpInit :: "totp_config option \<Rightarrow> totpState \<Rightarrow> totpState" where
  "totpInit loaded s =
     (let cfg = (case loaded of None \<Rightarrow> tsCfg s | Some c \<Rightarrow> c)
      in s\<lparr>tsCfg := cfg, tsUsers := foldl (\<lambda>m (user, secret). m(user \<mapsto> secret)) (tsUsers s) (tcUsers cfg)\<rparr>)"

definition totpCheck :: "totpEnv \<Rightarrow> speaker \<Rightarrow> string \<Rightarrow> totpState \<Rightarrow> TaskRetVal \<times> sayings \<times> totpState" where
  "totpCheck te r code s =
     (case checkOTP te r code s of ((valid, status), r', s') \<Rightarrow>
        (Normal, [(spChannel r',
           if status \<noteq> Success then ''Dang! I had a system problem verifying your code''
           else if valid then ''Looks good - you're ready to wreak havoc!''
           else ''Sorry, that's not a valid code'')], s'))"

text \<open>The handler; a missing argument is an index out of range, the panic None.\<close>

definition totp_elevate ::
    "totp_config option \<Rightarrow> totpEnv \<Rightarrow> speaker \<Rightarrow> string \<Rightarrow> string list \<Rightarrow> totpState \<Rightarrow> (TaskRetVal \<times> sayings \<times> totpState) option" where
  "totp_elevate loaded te r command args s =
     (if command = ''_init'' then Some (Normal, [], totpInit loaded s)
      else if command = ''check'' then (case args of [] \<Rightarrow> None | code # _ \<Rightarrow> Some (totpCheck te r code s))
      else if command = ''_elevate'' then (case args of [] \<Rightarrow> None | arg # _ \<Rightarrow> Some (totpElevate te r arg s))
      else Some (Normal, [], s))"

text \<open>What it takes for a code to be accepted.\<close>

definition codeAccepted :: "totpEnv \<Rightarrow> speaker \<Rightarrow> bool \<Rightarrow> totpState \<Rightarrow> bool" where
  "codeAccepted te r immediate s \<longleftrightarrow>
     (\<exists>code secret. promptCode te immediate = (code, Ok) \<and> tsUsers s (spUser r) = Some secret \<and> teValidate te code secret \<and>
        recall (r\<lparr>spChannel := []\<rparr>) ''lastTOTP'' False (tsMemories s) \<noteq> code)"

definition totpRun :: "(totpEnv \<times> speaker \<times> string) list \<Rightarrow> totpState \<Rightarrow> totpState" where
  "totpRun calls s = foldl (\<lambda>s (te, r, arg). snd (snd (totpElevate te r arg s))) s calls"

lemma checkOTP_frame:
  "checkOTP te r code s = (res, r', s') \<Longrightarrow> tsCfg s' = tsCfg s \<and> tsTt s' = tsTt s \<and> tsUsers s' = tsUsers s \<and> tsLastElevate s' = tsLastElevate s"
  by (auto simp: checkOTP_def Let_def split: option.splits if_splits)

lemma getcode_frame:
  "getcode te r immediate s = (retval, said, s') \<Longrightarrow>
     tsCfg s' = tsCfg s \<and> tsTt s' = tsTt s \<and> tsUsers s' = tsUsers s \<and> tsLastElevate s' = tsLastElevate s"
  by (auto simp: getcode_def dest: checkOTP_frame split: prod.splits if_splits)

lemma getcode_success: "getcode te r immediate s = (Success, said, s') \<Longrightarrow> codeAccepted te r immediate s"
  by (auto simp: getcode_def checkOTP_def codeAccepted_def Let_def split: prod.splits if_splits option.splits)

lemma codeAccepted_tt: "codeAccepted te r immediate (s\<lparr>tsTt := t\<rparr>) = codeAccepted te r immediate s"
  by (simp add: codeAccepted_def)

lemma totpRun_snoc: "totpRun (calls @ [(te, r, arg)]) s = snd (snd (totpElevate te r arg (totpRun calls s)))"
  by (simp add: totpRun_def)

text \<open>One call with an absolute timeout: it keeps the configuration, and an elevation is noted only with a code.\<close>

lemma elevate_absolute:
  assumes "tcTimeoutType (tsCfg s) = ''absolute''" "totpElevate te r arg s = (retval, said, s')"
  shows "tsCfg s' = tsCfg s \<and>
    (tsLastElevate s' = tsLastElevate s \<or>
     codeAccepted te r (isImmediate arg) s \<and> tsLastElevate s' = (tsLastElevate s)(spUser r \<mapsto> teNow te)) \<and>
    (retval = Success \<longrightarrow> codeAccepted te r (isImmediate arg) s \<or>
       (\<exists>le. tsLastElevate s (spUser r) = Some le \<and> teNow te - le \<le> tcTimeoutSeconds (tsCfg s)))"
proof (cases "asksCode te (spUser r) (isImmediate arg) (s\<lparr>tsTt := AbsoluteTimeout\<rparr>)")
  case True
  obtain rv sd s2 where g: "getcode te r (isImmediate arg) (s\<lparr>tsTt := AbsoluteTimeout\<rparr>) = (rv, sd, s2)" by (cases "getcode te r (isImmediate arg) (s\<lparr>tsTt := AbsoluteTimeout\<rparr>)")
  have s': "retval = rv" "s' = noteElevation te (spUser r) (\<not> isImmediate arg) rv s2"
    using assms True g by (auto simp: totpElevate_def Let_def)
  have ok: "rv = Success \<longrightarrow> codeAccepted te r (isImmediate arg) s" using getcode_success [of te r "isImmediate arg"] g codeAccepted_tt by blast
  show ?thesis using getcode_frame [OF g] ok unfolding s' by (auto simp: noteElevation_def)
next
  case False
  then show ?thesis using assms
    by (auto simp: totpElevate_def Let_def asksCode_def noteElevation_def split: option.splits)
qed

lemma totpRun_coded:
  assumes "tcTimeoutType (tsCfg s) = ''absolute''" "tsLastElevate s = (\<lambda>_. None)"
  shows "tsCfg (totpRun calls s) = tsCfg s \<and>
    (\<forall>u le. tsLastElevate (totpRun calls s) u = Some le \<longrightarrow>
      (\<exists>pre te r arg post. calls = pre @ (te, r, arg) # post \<and> spUser r = u \<and> teNow te = le \<and>
         codeAccepted te r (isImmediate arg) (totpRun pre s)))"
proof (induction calls rule: rev_induct)
  case Nil
  then show ?case using assms by (simp add: totpRun_def)
next
  case (snoc c calls)
  obtain te r arg where c: "c = (te, r, arg)" by (cases c)
  obtain rv sd s' where e: "totpElevate te r arg (totpRun calls s) = (rv, sd, s')" by (metis prod_cases3)
  have cfg: "tcTimeoutType (tsCfg (totpRun calls s)) = ''absolute''" using snoc.IH assms by simp
  note step = elevate_absolute [OF cfg e]
  have s': "totpRun (calls @ [c]) s = s'" by (simp add: c totpRun_snoc e)
  have "\<exists>pre te r arg post. calls @ [c] = pre @ (te, r, arg) # post \<and> spUser r = u \<and> teNow te = le \<and>
         codeAccepted te r (isImmediate arg) (totpRun pre s)" if "tsLastElevate s' u = Some le" for u le
  proof (cases "tsLastElevate (totpRun calls s) u = Some le")
    case True
    with snoc.IH obtain pre te r arg post where "calls = pre @ (te, r, arg) # post" "spUser r = u" "teNow te = le"
      "codeAccepted te r (isImmediate arg) (totpRun pre s)" by blast
    then show ?thesis by (intro exI [of _ pre] exI [of _ te] exI [of _ r] exI [of _ arg] exI [of _ "post @ [c]"]) simp
  next
    case False
    with that step have "u = spUser r" "le = teNow te" "codeAccepted te r (isImmediate arg) (totpRun calls s)"
      by (auto split: if_splits)
    then show ?thesis by (intro exI [of _ calls] exI [of _ te] exI [of _ r] exI [of _ arg] exI [of _ "[]"]) (simp add: c)
  qed
  then show ?case using step snoc.IH unfolding s' by simp
qed

text \<open>
  C5. With an absolute timeout and no elevation remembered at the start, an elevation is never older than the
  timeout: whenever the elevator lets a user pass, the user gives a valid code in this very call, or gave
  one in an earlier call that is at most \<open>TimeoutSeconds\<close> ago, whatever calls of whatever users came
  between. A valid code is one that is correct at the time of the call and not the one remembered for the
  user in the thread of the call; the same code is taken again in another thread (lemma
  \<open>code_reused_in_thread\<close>).
\<close>

theorem elevation_needs_code:
  assumes "tcTimeoutType (tsCfg s) = ''absolute''" "tsLastElevate s = (\<lambda>_. None)"
    and "fst (totpElevate te r arg (totpRun calls s)) = Success"
  shows "codeAccepted te r (isImmediate arg) (totpRun calls s) \<or>
    (\<exists>pre te' r' arg' post. calls = pre @ (te', r', arg') # post \<and> spUser r' = spUser r \<and>
       teNow te - teNow te' \<le> tcTimeoutSeconds (tsCfg s) \<and> codeAccepted te' r' (isImmediate arg') (totpRun pre s))"
proof -
  obtain sd s' where e: "totpElevate te r arg (totpRun calls s) = (Success, sd, s')"
    using assms(3) by (cases "totpElevate te r arg (totpRun calls s)") auto
  note run = totpRun_coded [OF assms(1,2), of calls]
  have cfg: "tcTimeoutType (tsCfg (totpRun calls s)) = ''absolute''" using run assms(1) by simp
  from elevate_absolute [OF cfg e] run show ?thesis by metis
qed

text \<open>Two conversations in which the last code is remembered in the same place.\<close>

definition sameMemory :: "speaker \<Rightarrow> speaker \<Rightarrow> bool" where
  "sameMemory r r' \<longleftrightarrow>
     robotMemoryContext (r\<lparr>spChannel := []\<rparr>) ''lastTOTP'' False False = robotMemoryContext (r'\<lparr>spChannel := []\<rparr>) ''lastTOTP'' False False"

text \<open>
  Codes are remembered in the conversation of the user, without its channel: outside threads a code
  that was accepted is refused the next time in every channel, whatever the library says. A thread has
  a memory of its own, so there the same code is accepted once more while it is valid.
\<close>

theorem code_not_reused:
  assumes "checkOTP te r code s = ((True, Success), q, s')" "sameMemory r r'" "spUser r' = spUser r"
  shows "checkOTP te' r' code s' = ((False, Fail), r'\<lparr>spChannel := []\<rparr>, s')"
proof -
  obtain secret where known: "tsUsers s (spUser r) = Some secret"
    and s': "s' = s\<lparr>tsMemories := remember (r\<lparr>spChannel := []\<rparr>) ''lastTOTP'' code False (teNow te) (tsMemories s)\<rparr>"
    using assms(1) by (auto simp: checkOTP_def Let_def split: option.splits if_splits)
  have "recall (r'\<lparr>spChannel := []\<rparr>) ''lastTOTP'' False (tsMemories s') = code"
    using assms(2) unfolding s'
    by (simp add: recall_def remember_def rememberAt_def sameMemory_def Let_def update_conv' delete_conv')
  then show ?thesis using known assms(3) unfolding s' by (simp add: checkOTP_def Let_def)
qed

lemma code_reused_in_thread:
  assumes "checkOTP te r code s = ((True, Success), q, s')" "\<not> sameMemory r r'" "spUser r' = spUser r"
    and "recall (r'\<lparr>spChannel := []\<rparr>) ''lastTOTP'' False (tsMemories s) \<noteq> code" "teValidate te' = teValidate te"
  shows "fst (checkOTP te' r' code s') = (True, Success)"
proof -
  obtain secret where known: "tsUsers s (spUser r) = Some secret" "teValidate te code secret"
    and s': "s' = s\<lparr>tsMemories := remember (r\<lparr>spChannel := []\<rparr>) ''lastTOTP'' code False (teNow te) (tsMemories s)\<rparr>"
    using assms(1) by (auto simp: checkOTP_def Let_def split: option.splits if_splits)
  have "recall (r'\<lparr>spChannel := []\<rparr>) ''lastTOTP'' False (tsMemories s') = recall (r'\<lparr>spChannel := []\<rparr>) ''lastTOTP'' False (tsMemories s)"
    using assms(2) unfolding s'
    by (auto simp: recall_def remember_def rememberAt_def sameMemory_def Let_def update_conv' delete_conv')
  then show ?thesis using known assms(3,4,5) unfolding s' by (simp add: checkOTP_def Let_def)
qed

text \<open>
  The secrets are only ever added to: a user who is taken out of the configuration keeps elevating with
  the old secret until the robot is restarted.
\<close>

lemma removed_user_keeps_secret:
  assumes "tsUsers s user = Some secret" "user \<notin> fst ` set (tcUsers cfg)"
  shows "tsUsers (totpInit (Some cfg) s) user = Some secret"
proof -
  have "foldl (\<lambda>m (user, secret). m(user \<mapsto> secret)) m us user = m user" if "user \<notin> fst ` set us" for us and m :: "string \<Rightarrow> string option"
    using that by (induction us arbitrary: m) (auto split: prod.splits)
  then show ?thesis using assms by (simp add: totpInit_def)
qed

subsection \<open>Approval by another user\<close>

text \<open>The approvers of a plugin, as a list or as an object, in the configuration.\<close>

datatype approvalRuleJson = RuleList "string list" | RuleObject "string list option" "bool option"

record userApprovalPluginApprovers =
  uaApprovers :: "string list"
  uaStrict :: "bool option"
  uaHasApprovers :: bool

definition unmarshalApprovers :: "approvalRuleJson \<Rightarrow> userApprovalPluginApprovers" where
  "unmarshalApprovers j =
     (case j of
        RuleList approvers \<Rightarrow> \<lparr>uaApprovers = approvers, uaStrict = None, uaHasApprovers = True\<rparr>
      | RuleObject approvers strict \<Rightarrow>
          \<lparr>uaApprovers = (case approvers of None \<Rightarrow> [] | Some l \<Rightarrow> l), uaStrict = strict, uaHasApprovers = (approvers \<noteq> None)\<rparr>)"

record userApprovalConfig =
  uaDefaultStrict :: "bool option"
  uaFallbackApprovers :: "string list"
  uaPluginApprovers :: "string \<Rightarrow> userApprovalPluginApprovers option"

record userApprovalPolicy =
  upApprovers :: "string list"
  upStrict :: bool
  upRequesterListed :: bool

definition canonicalApprovalUser :: "string \<Rightarrow> string" where
  "canonicalApprovalUser user = toLower (trimSpace user)"

definition effectiveApprovalSource :: "userApprovalConfig \<Rightarrow> string \<Rightarrow> string list \<times> bool" where
  "effectiveApprovalSource cfg pipeName =
     (let strict = (case uaDefaultStrict cfg of None \<Rightarrow> True | Some b \<Rightarrow> b) in
      case uaPluginApprovers cfg pipeName of
        None \<Rightarrow> (uaFallbackApprovers cfg, strict)
      | Some p \<Rightarrow> (if uaHasApprovers p then uaApprovers p else uaFallbackApprovers cfg,
                   case uaStrict p of None \<Rightarrow> strict | Some b \<Rightarrow> b))"

definition addApprover :: "string \<Rightarrow> userApprovalPolicy \<Rightarrow> string \<Rightarrow> userApprovalPolicy" where
  "addApprover requester p given =
     (let approver = canonicalApprovalUser given in
      if approver = [] then p
      else if approver = requester then p\<lparr>upRequesterListed := True\<rparr>
      else if approver \<in> set (upApprovers p) then p
      else p\<lparr>upApprovers := upApprovers p @ [approver]\<rparr>)"

definition effectiveApprovalPolicy :: "userApprovalConfig \<Rightarrow> string \<Rightarrow> string \<Rightarrow> userApprovalPolicy" where
  "effectiveApprovalPolicy cfg pipeName requester =
     (case effectiveApprovalSource cfg pipeName of (source, strict) \<Rightarrow>
        foldl (addApprover (canonicalApprovalUser requester))
          \<lparr>upApprovers = [], upStrict = strict, upRequesterListed = False\<rparr> source)"

definition userApprovalActionName :: "string \<Rightarrow> string \<Rightarrow> string" where
  "userApprovalActionName pipeName command =
     (let p = trimSpace pipeName; c = trimSpace command
      in if p = [] then c else if c = [] then p else p @ ''/'' @ c)"

definition choiceLetter :: "nat \<Rightarrow> char" where
  "choiceLetter i = char_of (97 + i)"

definition userApprovalChoicePrompt :: "string \<Rightarrow> string list \<Rightarrow> string" where
  "userApprovalChoicePrompt actionName approvers =
     ''Approval required for command '' @ actionName @ ''. Select one approver: '' @
     joinWith '', '' (map (\<lambda>i. choiceLetter i # '') '' @ approvers ! i) [0..<length approvers])"

text \<open>The letter is a byte, so the difference to \<open>a\<close> wraps around below it.\<close>

definition userApprovalApproverForChoice :: "string \<Rightarrow> string list \<Rightarrow> string option" where
  "userApprovalApproverForChoice choice approvers =
     (case trimSpace choice of
        [c] \<Rightarrow> (let idx = (of_char c + 256 - 97) mod 256 in if idx < length approvers then Some (approvers ! idx) else None)
      | _ \<Rightarrow> None)"

definition userApprovalYes :: "string \<Rightarrow> bool" where
  "userApprovalYes given \<longleftrightarrow> toLower (trimSpace given) = ''y'' \<or> toLower (trimSpace given) = ''yes''"

text \<open>The answers of the requester to the choice, and of a user to the request.\<close>

record approvalEnv =
  aeConfig :: "userApprovalConfig option"
  aeUser :: string
  aePipeName :: string
  aeCommand :: string
  aeChoose :: "string \<Rightarrow> string \<times> RetVal"
  aeAsk :: "string \<Rightarrow> string \<Rightarrow> string \<times> RetVal"

definition askApprover :: "approvalEnv \<Rightarrow> string \<Rightarrow> string \<Rightarrow> string \<Rightarrow> TaskRetVal \<times> string list" where
  "askApprover ae requester actionName approver =
     (let hold = ''Ok, hold on while I ask '' @ singleQuoted approver @ '' for approval...'' in
      case aeAsk ae approver (requester @ '' is requesting approval to run command '' @ actionName @ '' - approve? (y/n)'') of
        (reply, got) \<Rightarrow>
          if got \<noteq> Ok then (Fail, [hold, ''Approval request to '' @ approver @ '' did not complete''])
          else if userApprovalYes reply then (Success, [hold, ''Approval granted by '' @ approver])
          else (Fail, [hold, ''Approval denied by '' @ approver]))"

definition chooseApprover :: "approvalEnv \<Rightarrow> string \<Rightarrow> string list \<Rightarrow> string list + string" where
  "chooseApprover ae actionName approvers =
     (if length approvers \<le> 1 then Inr (hd approvers)
      else (case aeChoose ae (userApprovalChoicePrompt actionName approvers) of
              (choice, got) \<Rightarrow>
                if got \<noteq> Ok then Inl []
                else (case userApprovalApproverForChoice choice approvers of
                        None \<Rightarrow> Inl [''Invalid approver selection''] | Some approver \<Rightarrow> Inr approver)))"

definition runUserApproval :: "approvalEnv \<Rightarrow> TaskRetVal \<times> string list" where
  "runUserApproval ae =
     (case aeConfig ae of
        None \<Rightarrow> (MechanismFail, [])
      | Some cfg \<Rightarrow>
          let requester = canonicalApprovalUser (aeUser ae);
              pipeName = trimSpace (aePipeName ae);
              actionName = userApprovalActionName pipeName (aeCommand ae);
              approval = effectiveApprovalPolicy cfg pipeName requester;
              approvers = upApprovers approval
          in if \<not> upStrict approval \<and> upRequesterListed approval then (Success, [''Approval granted by '' @ requester])
             else if approvers = [] then (Fail, [''No eligible approvers are configured for this action''])
             else if length approvers > 26 then (Fail, [''Too many approvers are configured for this action''])
             else (case chooseApprover ae actionName approvers of
                     Inl said \<Rightarrow> (Fail, said)
                   | Inr approver \<Rightarrow> askApprover ae requester actionName approver))"

definition userApprovalElevate :: "approvalEnv \<Rightarrow> string \<Rightarrow> TaskRetVal \<times> string list" where
  "userApprovalElevate ae command = (if command \<noteq> ''_elevate'' then (Normal, []) else runUserApproval ae)"

text \<open>The policy lists the canonical names of the source, without the requester, each once.\<close>

lemma approvers_fold:
  "set (upApprovers (foldl (addApprover q) p source)) =
     set (upApprovers p) \<union> {a. a \<in> canonicalApprovalUser ` set source \<and> a \<noteq> [] \<and> a \<noteq> q} \<and>
   (upRequesterListed (foldl (addApprover q) p source) \<longleftrightarrow>
     upRequesterListed p \<or> q \<noteq> [] \<and> q \<in> canonicalApprovalUser ` set source) \<and>
   upStrict (foldl (addApprover q) p source) = upStrict p \<and>
   (distinct (upApprovers p) \<longrightarrow> distinct (upApprovers (foldl (addApprover q) p source)))"
proof (induction source arbitrary: p)
  case (Cons x xs)
  have "set (upApprovers (addApprover q p x)) =
      set (upApprovers p) \<union> (if canonicalApprovalUser x \<noteq> [] \<and> canonicalApprovalUser x \<noteq> q then {canonicalApprovalUser x} else {})"
    "upRequesterListed (addApprover q p x) \<longleftrightarrow> upRequesterListed p \<or> q \<noteq> [] \<and> canonicalApprovalUser x = q"
    "upStrict (addApprover q p x) = upStrict p" "distinct (upApprovers p) \<longrightarrow> distinct (upApprovers (addApprover q p x))"
    by (auto simp: addApprover_def Let_def)
  then show ?case using Cons.IH [of "addApprover q p x"] by auto
qed simp

lemma canonical_twice [simp]: "canonicalApprovalUser (canonicalApprovalUser user) = canonicalApprovalUser user"
  by (simp add: canonicalApprovalUser_def lower_trim_twice)

lemma policy_approvers:
  "a \<in> set (upApprovers (effectiveApprovalPolicy cfg pipeName requester)) \<Longrightarrow>
     a \<in> canonicalApprovalUser ` set (fst (effectiveApprovalSource cfg pipeName)) \<and> a \<noteq> [] \<and> a \<noteq> canonicalApprovalUser requester"
  "upRequesterListed (effectiveApprovalPolicy cfg pipeName requester) \<Longrightarrow>
     canonicalApprovalUser requester \<in> canonicalApprovalUser ` set (fst (effectiveApprovalSource cfg pipeName))"
  "upStrict (effectiveApprovalPolicy cfg pipeName requester) = snd (effectiveApprovalSource cfg pipeName)"
  by (auto simp: effectiveApprovalPolicy_def approvers_fold split: prod.splits)

lemma choose_approver:
  "chooseApprover ae actionName approvers = Inr a \<Longrightarrow> approvers \<noteq> [] \<Longrightarrow> a \<in> set approvers"
  by (auto simp: chooseApprover_def userApprovalApproverForChoice_def Let_def
      split: if_splits prod.splits option.splits list.splits)

text \<open>Every approver can be chosen by the letter the prompt shows.\<close>

lemma choice_letter:
  assumes "i < length approvers" "length approvers \<le> 26"
  shows "userApprovalApproverForChoice [choiceLetter i] approvers = Some (approvers ! i)"
proof -
  have i: "i < 26" using assms by simp
  have "list_all (\<lambda>i. trimSpace [choiceLetter i] = [choiceLetter i] \<and> (of_char (choiceLetter i) + 256 - 97) mod 256 = i) [0..<26]"
    by code_simp
  then have "trimSpace [choiceLetter i] = [choiceLetter i]" "(of_char (choiceLetter i) + 256 - 97) mod 256 = i"
    using i by (auto simp: list_all_iff)
  then show ?thesis using assms(1) by (simp add: userApprovalApproverForChoice_def Let_def)
qed

text \<open>
  C4. An approval comes from a user who is entitled to give it: a configured approver other than the
  requester, who was asked and answered yes; only where strict mode is switched off does a requester
  who is a configured approver pass without asking.
\<close>

theorem approval_by_other:
  assumes "fst (userApprovalElevate ae ''_elevate'') = Success"
  shows "\<exists>cfg source strict. aeConfig ae = Some cfg \<and> effectiveApprovalSource cfg (trimSpace (aePipeName ae)) = (source, strict) \<and>
    ((\<exists>approver reply request. approver \<in> canonicalApprovalUser ` set source \<and>
        approver \<noteq> canonicalApprovalUser (aeUser ae) \<and>
        aeAsk ae approver request = (reply, Ok) \<and> userApprovalYes reply) \<or>
     \<not> strict \<and> canonicalApprovalUser (aeUser ae) \<in> canonicalApprovalUser ` set source)"
proof -
  obtain cfg where cfg: "aeConfig ae = Some cfg"
    using assms by (cases "aeConfig ae") (auto simp: userApprovalElevate_def runUserApproval_def)
  let ?q = "canonicalApprovalUser (aeUser ae)"
  let ?p = "effectiveApprovalPolicy cfg (trimSpace (aePipeName ae)) ?q"
  obtain source strict where src: "effectiveApprovalSource cfg (trimSpace (aePipeName ae)) = (source, strict)" by fastforce
  show ?thesis
  proof (cases "\<not> upStrict ?p \<and> upRequesterListed ?p")
    case True
    then show ?thesis using cfg src policy_approvers(2,3) [of cfg "trimSpace (aePipeName ae)" ?q] by auto
  next
    case False
    then obtain approver action where a: "chooseApprover ae action (upApprovers ?p) = Inr approver" "upApprovers ?p \<noteq> []"
      and asked: "fst (askApprover ae ?q action approver) = Success"
      using assms cfg
      by (auto simp: userApprovalElevate_def runUserApproval_def Let_def split: if_splits sum.splits)
    then obtain reply request where "aeAsk ae approver request = (reply, Ok)" "userApprovalYes reply"
      by (auto simp: askApprover_def Let_def split: prod.splits if_splits)
    moreover have "approver \<in> canonicalApprovalUser ` set source" "approver \<noteq> ?q"
      using policy_approvers(1) [OF choose_approver [OF a]] src by simp_all
    ultimately show ?thesis using cfg src by blast
  qed
qed

subsection \<open>Concrete elevations\<close>

definition demoTotp :: totpState where
  "demoTotp = \<lparr>tsCfg = \<lparr>tcTimeoutSeconds = 60, tcTimeoutType = ''absolute'', tcUsers = [(''Alice'', ''s3cret'')]\<rparr>, tsTt = IdleTimeout,
     tsUsers = [''Alice'' \<mapsto> ''s3cret''], tsLastElevate = (\<lambda>_. None), tsMemories = \<lparr>emMap = [], emDirty = False\<rparr>\<rparr>"

definition demoTotpEnv :: "int \<Rightarrow> totpEnv" where
  "demoTotpEnv now = \<lparr>teNow = now, teValidate = (\<lambda>code secret. code = ''123456'' \<and> secret = ''s3cret''), teBotFull = ''Floyd'',
     tePrompt = (\<lambda>direct text. (''123456'', Ok))\<rparr>"

definition demoThread :: speaker where
  "demoThread = demoSpeaker\<lparr>spIncoming := Some \<lparr>icProtocol = ''ssh'', icUserName = ''alice'', icThreadedMessage = True, icThreadID = ''t1''\<rparr>\<rparr>"

theorem elevation_needs_code_witness:
  "\<exists>pre te r arg post. [(demoTotpEnv 100, demoSpeaker, ''false'')] = pre @ (te, r, arg) # post \<and> spUser r = ''Alice'' \<and>
     150 - teNow te \<le> 60 \<and> codeAccepted te r (isImmediate arg) (totpRun pre demoTotp)"
proof -
  let ?calls = "[(demoTotpEnv 100, demoSpeaker, ''false'')]"
  have "fst (totpElevate (demoTotpEnv 150) demoSpeaker ''false'' (totpRun ?calls demoTotp)) = Success" by code_simp
  moreover have "recall (demoSpeaker\<lparr>spChannel := []\<rparr>) ''lastTOTP'' False (tsMemories (totpRun ?calls demoTotp)) = ''123456''"
    by code_simp
  then have "\<not> codeAccepted (demoTotpEnv 150) demoSpeaker (isImmediate ''false'') (totpRun ?calls demoTotp)"
    by (simp add: codeAccepted_def promptCode_def demoTotpEnv_def)
  moreover have "tcTimeoutType (tsCfg demoTotp) = ''absolute''" "tsLastElevate demoTotp = (\<lambda>_. None)"
    "tcTimeoutSeconds (tsCfg demoTotp) = 60" by (simp_all add: demoTotp_def)
  ultimately show ?thesis
    using elevation_needs_code [of demoTotp "demoTotpEnv 150" demoSpeaker "''false''" ?calls]
    by (simp add: demoSpeaker_def demoTotpEnv_def)
qed

theorem code_not_reused_witness:
  "checkOTP (demoTotpEnv 100) (demoSpeaker\<lparr>spChannel := ''random''\<rparr>) ''123456'' (snd (snd (checkOTP (demoTotpEnv 90) demoSpeaker ''123456'' demoTotp))) =
     ((False, Fail), demoSpeaker\<lparr>spChannel := []\<rparr>, snd (snd (checkOTP (demoTotpEnv 90) demoSpeaker ''123456'' demoTotp)))"
proof -
  have "fst (checkOTP (demoTotpEnv 90) demoSpeaker ''123456'' demoTotp) = (True, Success)" by code_simp
  then have "checkOTP (demoTotpEnv 90) demoSpeaker ''123456'' demoTotp = ((True, Success),
      fst (snd (checkOTP (demoTotpEnv 90) demoSpeaker ''123456'' demoTotp)), snd (snd (checkOTP (demoTotpEnv 90) demoSpeaker ''123456'' demoTotp)))"
    by (metis prod.collapse)
  moreover have "sameMemory demoSpeaker (demoSpeaker\<lparr>spChannel := ''random''\<rparr>)" by (simp add: sameMemory_def)
  ultimately show ?thesis using code_not_reused [of "demoTotpEnv 90"] by fastforce
qed

lemma demo_code_in_thread:
  "fst (checkOTP (demoTotpEnv 100) demoThread ''123456'' (snd (snd (checkOTP (demoTotpEnv 90) demoSpeaker ''123456'' demoTotp)))) = (True, Success)"
  by code_simp

definition demoApproval :: approvalEnv where
  "demoApproval = \<lparr>aeConfig = Some \<lparr>uaDefaultStrict = None, uaFallbackApprovers = ['' Bob '', ''alice'', ''carol''],
       uaPluginApprovers = (\<lambda>_. None)\<rparr>,
     aeUser = ''Alice'', aePipeName = ''deploy'', aeCommand = ''go'', aeChoose = (\<lambda>text. (''b'', Ok)),
     aeAsk = (\<lambda>user text. (if user = ''carol'' then ''Yes'' else ''no'', Ok))\<rparr>"

theorem approval_by_other_witness:
  "\<exists>approver reply request. approver \<in> canonicalApprovalUser ` set ['' Bob '', ''alice'', ''carol''] \<and> approver \<noteq> ''alice'' \<and>
     aeAsk demoApproval approver request = (reply, Ok) \<and> userApprovalYes reply"
proof -
  have ok: "fst (userApprovalElevate demoApproval ''_elevate'') = Success" by code_simp
  from approval_by_other [OF ok] obtain cfg source strict where cfg: "aeConfig demoApproval = Some cfg"
    and src: "effectiveApprovalSource cfg (trimSpace (aePipeName demoApproval)) = (source, strict)"
    and alt: "(\<exists>approver reply request. approver \<in> canonicalApprovalUser ` set source \<and>
        approver \<noteq> canonicalApprovalUser (aeUser demoApproval) \<and> aeAsk demoApproval approver request = (reply, Ok) \<and> userApprovalYes reply) \<or>
      \<not> strict \<and> canonicalApprovalUser (aeUser demoApproval) \<in> canonicalApprovalUser ` set source" by blast
  have "source = ['' Bob '', ''alice'', ''carol'']" "strict"
    using cfg src by (auto simp: demoApproval_def effectiveApprovalSource_def)
  moreover have "canonicalApprovalUser (aeUser demoApproval) = ''alice''" by code_simp
  ultimately have "\<exists>approver reply request. approver \<in> canonicalApprovalUser ` set source \<and>
      approver \<noteq> ''alice'' \<and> aeAsk demoApproval approver request = (reply, Ok) \<and> userApprovalYes reply" using alt by metis
  then show ?thesis using \<open>source = _\<close> by (simp only:)
qed

end
