(* ===== verification/AutoJobs.thy ===== *)
theory AutoJobs
  imports Jobs
begin

text \<open>
  Jobs that no message starts: those triggered by a queue (bot/queue\_runtime.go), those run on a
  schedule or at the start (bot/scheduled\_jobs.go), and the pausing of schedules (bot/builtins.go). The
  UUID parser and the splitting of shell words are libraries and are arguments, as is cron, to which
  \<open>scheduleTasks\<close> hands the jobs it accepts. Times are in seconds.
\<close>

subsection \<open>The body of a queue message\<close>

definition queueUUIDPrefixLen :: nat where "queueUUIDPrefixLen = 36"

definition queueTimestampMinLen :: nat where "queueTimestampMinLen = 12"

definition queueTimestampMaxLen :: nat where "queueTimestampMaxLen = 15"

definition queueDedupeRetention :: int where "queueDedupeRetention = 140"

record parsedQueueBody =
  pqUUID :: string
  pqTimestamp :: string
  pqArgs :: "string list"

datatype queueError = BodyTooShort | InvalidUUID | NoColon | BadTimestamp | NoSpace | BadArguments

text \<open>The libraries: the canonical form of a UUID, or None when it is none, and the words of a command line.\<close>

record queueLib =
  qlUUID :: "string \<Rightarrow> string option"
  qlSplit :: "string \<Rightarrow> string list option"

definition parseQueueArgs :: "queueLib \<Rightarrow> string \<Rightarrow> queueError + string list" where
  "parseQueueArgs ql rest =
     (case rest of
        [] \<Rightarrow> Inr []
      | c # argText \<Rightarrow>
          if c \<noteq> CHR '' '' then Inl NoSpace
          else if trimSpace argText = [] then Inr []
          else (case qlSplit ql (trimSpace argText) of None \<Rightarrow> Inl BadArguments | Some args \<Rightarrow> Inr args))"

definition parseQueueBody :: "queueLib \<Rightarrow> string \<Rightarrow> queueError + parsedQueueBody" where
  "parseQueueBody ql body =
     (if length body < queueUUIDPrefixLen then Inl BodyTooShort
      else (case qlUUID ql (take queueUUIDPrefixLen body) of
              None \<Rightarrow> Inl InvalidUUID
            | Some jobUUID \<Rightarrow>
                (case drop queueUUIDPrefixLen body of
                   [] \<Rightarrow> Inl NoColon
                 | c # rest \<Rightarrow>
                     if c \<noteq> CHR '':'' then Inl NoColon
                     else let timestamp = takeWhile isDigitByte rest in
                       if length timestamp < queueTimestampMinLen \<or> queueTimestampMaxLen < length timestamp then Inl BadTimestamp
                       else (case parseQueueArgs ql (drop (length timestamp) rest) of
                               Inl e \<Rightarrow> Inl e
                             | Inr args \<Rightarrow> Inr \<lparr>pqUUID = jobUUID, pqTimestamp = timestamp, pqArgs = args\<rparr>))))"

subsection \<open>Duplicates\<close>

type_synonym queueDedupe = "(string \<times> int) list"

definition dedupeKey :: "string \<Rightarrow> string \<Rightarrow> string" where
  "dedupeKey jobUUID timestamp = jobUUID @ '':'' @ timestamp"

definition recordQueueDedupe :: "string \<Rightarrow> string \<Rightarrow> int \<Rightarrow> queueDedupe \<Rightarrow> bool \<times> queueDedupe" where
  "recordQueueDedupe jobUUID timestamp now seen =
     (let key = dedupeKey jobUUID timestamp; live = filter (\<lambda>e. now < snd e) seen in
      case map_of live key of
        Some expiresAt \<Rightarrow> if now < expiresAt then (True, live) else (False, AList.update key (now + queueDedupeRetention) live)
      | None \<Rightarrow> (False, AList.update key (now + queueDedupeRetention) live))"

subsection \<open>Jobs triggered by a queue\<close>

datatype queueDisposition = QueueAck | QueueRetry

record queueMessage =
  qmID :: string
  qmBody :: string

text \<open>The current configuration, with the triggers of the task list (\<open>uuidTriggers\<close>).\<close>

record autoCfg =
  acCfg :: configuration
  acTasks :: taskList
  acTriggers :: "string \<Rightarrow> taskObj option"
  acDefaultProtocol :: string
  acProtocol :: string

definition autoProtocol :: "autoCfg \<Rightarrow> string" where
  "autoProtocol ac = (if acDefaultProtocol ac = [] then acProtocol ac else acDefaultProtocol ac)"

definition emptyIncoming :: connectorMessage where
  "emptyIncoming = \<lparr>icProtocol = [], icUserName = [], icThreadedMessage = False, icThreadID = [],
     cmUserID = [], cmValidatedUser = False, cmChannelName = [], cmChannelID = [], cmMessageID = [], cmSelfMessage = False,
     cmDirectMessage = False, cmBotMessage = False, cmHiddenMessage = False, cmMessageText = []\<rparr>"

definition autoWorker :: "autoCfg \<Rightarrow> nat \<Rightarrow> Task \<Rightarrow> connectorMessage \<Rightarrow> string \<Rightarrow> string \<Rightarrow> worker" where
  "autoWorker ac i task inc provider messageID =
     \<lparr>wId = i, wUser = [], wProtocolUser = [], wChannel = tkChannel task, wProtocolChannel = [],
      wProtocol = getProtocol (autoProtocol ac), wIncoming = inc, wBotUser = False, wListedUser = False,
      wIsCommand = False, wCmdMode = [], wMsg = [], wFmsg = [], wAutomaticTask = True, wQueueProvider = provider,
      wQueueMessageID = messageID, wCfg = acCfg ac, wTasks = acTasks ac, wMaps = None, wPipe = emptyPipe\<rparr>"

type_synonym start = "worker \<times> taskObj \<times> pipelineType \<times> string \<times> string list"

definition queueWorker :: "autoCfg \<Rightarrow> nat \<Rightarrow> Task \<Rightarrow> string \<Rightarrow> string \<Rightarrow> worker" where
  "queueWorker ac i task provider messageID =
     autoWorker ac i task (emptyIncoming\<lparr>icProtocol := autoProtocol ac\<rparr>) provider messageID"

text \<open>
  Whether the arguments suit the job: enough of them, and each matches its expression. A missing
  expression panics (\<open>None\<close>), which ends the process: the goroutine of a queue provider recovers nothing.
\<close>

definition queueArgsOk :: "Job \<Rightarrow> string list \<Rightarrow> bool option" where
  "queueArgsOk job args =
     (if length args < length (jbArguments job) then Some False
      else map_option (\<lambda>bad. bad = None) (badArgument (jbArguments job) args))"

definition triggerJobFromQueue ::
    "queueLib \<Rightarrow> autoCfg \<Rightarrow> bool \<Rightarrow> nat \<Rightarrow> string \<Rightarrow> queueMessage \<Rightarrow> int \<Rightarrow> queueDedupe \<Rightarrow>
     (queueDisposition \<times> start option \<times> queueDedupe) option" where
  "triggerJobFromQueue ql ac shuttingDown i provider msg now seen =
     (if shuttingDown then Some (QueueRetry, None, seen)
      else (case parseQueueBody ql (qmBody msg) of
              Inl e \<Rightarrow> Some (QueueAck, None, seen)
            | Inr parsed \<Rightarrow>
                (case acTriggers ac (pqUUID parsed) of
                   None \<Rightarrow> Some (QueueAck, None, seen)
                 | Some t \<Rightarrow>
                     (case recordQueueDedupe (pqUUID parsed) (pqTimestamp parsed) now seen of
                        (True, seen') \<Rightarrow> Some (QueueAck, None, seen')
                      | (False, seen') \<Rightarrow>
                          (case t of
                             JobObj job \<Rightarrow>
                               if tkDisabled (jbTask job) then Some (QueueAck, None, seen')
                               else map_option (\<lambda>ok. (QueueAck,
                                 if ok then Some (queueWorker ac i (jbTask job) provider (qmID msg), t, QueuedJob, ''run'', pqArgs parsed)
                                 else None, seen')) (queueArgsOk job (pqArgs parsed))
                           | _ \<Rightarrow> Some (QueueAck, None, seen'))))))"

subsection \<open>Scheduled jobs\<close>

record scheduledTask =
  stName :: string
  stSchedule :: string
  stArguments :: "string list"

text \<open>The jobs a schedule is kept for: configured, enabled jobs with a channel.\<close>

definition schedulable :: "taskList \<Rightarrow> scheduledTask \<Rightarrow> taskObj option" where
  "schedulable tasks st =
     (case getTaskByName tasks (stName st) of
        Some (JobObj job) \<Rightarrow>
          if tkDisabled (jbTask job) \<or> tkChannel (jbTask job) = [] then None else Some (JobObj job)
      | _ \<Rightarrow> None)"

definition scheduleTasks :: "taskList \<Rightarrow> scheduledTask list \<Rightarrow> (string \<times> taskObj \<times> string list) list" where
  "scheduleTasks tasks scheduled =
     concat (map (\<lambda>st. case schedulable tasks st of
                         None \<Rightarrow> []
                       | Some t \<Rightarrow> if stSchedule st \<noteq> ''@init'' then [(stSchedule st, t, stArguments st)] else []) scheduled)"

type_synonym pausedJobs = "string \<Rightarrow> string option"

definition runScheduledTask :: "autoCfg \<Rightarrow> pausedJobs \<Rightarrow> nat \<Rightarrow> taskObj \<Rightarrow> string list \<Rightarrow> bool \<Rightarrow> start option" where
  "runScheduledTask ac paused i t args isInitJob =
     (if paused (tkName (taskOf t)) \<noteq> None then None
      else Some (autoWorker ac i (taskOf t) emptyIncoming [] [], t, if isInitJob then InitJob else Scheduled, ''run'', args))"

definition initJobs :: "autoCfg \<Rightarrow> pausedJobs \<Rightarrow> (nat \<Rightarrow> nat) \<Rightarrow> scheduledTask list \<Rightarrow> start list" where
  "initJobs ac paused ids scheduled =
     List.map_filter (\<lambda>(n, st).
       if stSchedule st \<noteq> ''@init'' then None
       else (case getTaskByName (acTasks ac) (stName st) of
               Some (JobObj job) \<Rightarrow>
                 if tkDisabled (jbTask job) then None else runScheduledTask ac paused (ids n) (JobObj job) (stArguments st) True
             | _ \<Rightarrow> None)) (enumerate 0 scheduled)"

text \<open>
  Pausing and resuming (the commands of the administration plugin). Resuming a job that is not
  configured panics on its missing task; a task that is no job is reported and resumed all the same.
\<close>

definition pauseJob :: "taskList \<Rightarrow> string \<Rightarrow> string \<Rightarrow> pausedJobs \<Rightarrow> string \<times> pausedJobs" where
  "pauseJob tasks user name paused =
     (case getTaskByName tasks name of
        Some (JobObj job) \<Rightarrow>
          if paused name \<noteq> None then (''That job has already been paused'', paused)
          else (''Ok, I'll stop running '' @ singleQuoted name @ '' as a scheduled task'', paused(name \<mapsto> user))
      | _ \<Rightarrow> (''I don't have a job configured with that name'', paused))"

definition resumeJob :: "taskList \<Rightarrow> string \<Rightarrow> pausedJobs \<Rightarrow> (string list \<times> pausedJobs) option" where
  "resumeJob tasks name paused =
     (case getTaskByName tasks name of
        None \<Rightarrow> None
      | Some t \<Rightarrow>
          let unknown = (if jobOf t = None then [''I don't have a job configured with that name''] else [])
          in if paused name = None then Some (unknown @ [''That job isn't paused''], paused)
             else Some (unknown @ [''Ok, I'll resume running '' @ singleQuoted name @ '' as a scheduled task''], paused(name := None)))"

subsection \<open>What a queue delivers\<close>

text \<open>A message that arrives: its configuration, whether the robot shuts down, the next worker, the provider and the time.\<close>

record queueEvent =
  qeCfg :: autoCfg
  qeDown :: bool
  qeWorker :: nat
  qeProvider :: string
  qeMessage :: queueMessage
  qeNow :: int

definition queueStep :: "queueLib \<Rightarrow> queueEvent \<Rightarrow> queueDedupe \<Rightarrow> (queueDisposition \<times> start option \<times> queueDedupe) option" where
  "queueStep ql e seen =
     triggerJobFromQueue ql (qeCfg e) (qeDown e) (qeWorker e) (qeProvider e) (qeMessage e) (qeNow e) seen"

fun queueSeen :: "queueLib \<Rightarrow> queueEvent list \<Rightarrow> queueDedupe \<Rightarrow> queueDedupe option" where
  "queueSeen ql [] seen = Some seen"
| "queueSeen ql (e # es) seen =
     (case queueStep ql e seen of None \<Rightarrow> None | Some (disposition, st, seen') \<Rightarrow> queueSeen ql es seen')"

definition bodyKey :: "queueLib \<Rightarrow> queueEvent \<Rightarrow> string option" where
  "bodyKey ql e = (case parseQueueBody ql (qmBody (qeMessage e)) of
                     Inl err \<Rightarrow> None | Inr p \<Rightarrow> Some (dedupeKey (pqUUID p) (pqTimestamp p)))"

lemma filter_first: "map_of m k = Some v \<Longrightarrow> P (k, v) \<Longrightarrow> map_of (filter P m) k = Some v"
  by (induction m) (auto split: if_splits)

text \<open>A key that is known and has not expired stays known, and counts as a duplicate.\<close>

lemma dedupe_known:
  assumes "map_of seen key = Some x" "now < x"
  shows "map_of (snd (recordQueueDedupe u ts now seen)) key = Some x"
    and "dedupeKey u ts = key \<Longrightarrow> fst (recordQueueDedupe u ts now seen)"
proof -
  have live: "map_of (filter (\<lambda>e. now < snd e) seen) key = Some x" by (rule filter_first) (use assms in simp_all)
  show "map_of (snd (recordQueueDedupe u ts now seen)) key = Some x"
    using live assms(2) by (auto simp: recordQueueDedupe_def Let_def update_conv' split: option.split)
  show "dedupeKey u ts = key \<Longrightarrow> fst (recordQueueDedupe u ts now seen)"
    using live assms(2) by (simp add: recordQueueDedupe_def Let_def)
qed

lemmas queue_step_defs = queueStep_def triggerJobFromQueue_def

lemma step_known:
  assumes "map_of seen key = Some x" "qeNow e < x" and step: "queueStep ql e seen = Some (d, st, seen')"
  shows "map_of seen' key = Some x"
proof -
  have "map_of seen'' key = Some x" if "recordQueueDedupe u ts (qeNow e) seen = (dup, seen'')" for u ts dup seen''
    using dedupe_known(1) [OF assms(1,2), of u ts] that by simp
  then show ?thesis using step assms(1)
    by (auto simp: queue_step_defs split: if_splits sum.splits option.splits prod.splits bool.splits taskObj.splits)
qed

lemma seen_known:
  "map_of seen key = Some x \<Longrightarrow> list_all (\<lambda>e. qeNow e < x) evs \<Longrightarrow> queueSeen ql evs seen = Some seen' \<Longrightarrow>
   map_of seen' key = Some x"
  by (induction evs arbitrary: seen) (auto split: option.splits dest: step_known)

text \<open>What starts a job, and what is remembered then.\<close>

lemma badArgument_none:
  "badArgument specs args = Some None \<Longrightarrow> list_all2 (\<lambda>m arg. argumentOk m arg = Some True) specs (take (length specs) args)
     \<or> length args < length specs"
  by (induction specs args rule: badArgument.induct) (auto split: option.splits if_splits)

lemma step_started:
  assumes "queueStep ql e seen = Some (d, Some st, seen')"
  shows "\<exists>p job. parseQueueBody ql (qmBody (qeMessage e)) = Inr p \<and> acTriggers (qeCfg e) (pqUUID p) = Some (JobObj job) \<and>
    \<not> tkDisabled (jbTask job) \<and> length (jbArguments job) \<le> length (pqArgs p) \<and>
    list_all2 (\<lambda>m arg. argumentOk m arg = Some True) (jbArguments job) (take (length (jbArguments job)) (pqArgs p)) \<and>
    st = (queueWorker (qeCfg e) (qeWorker e) (jbTask job) (qeProvider e) (qmID (qeMessage e)), JobObj job, QueuedJob, ''run'', pqArgs p) \<and>
    map_of seen' (dedupeKey (pqUUID p) (pqTimestamp p)) = Some (qeNow e + queueDedupeRetention)"
proof -
  from assms obtain p job where p: "parseQueueBody ql (qmBody (qeMessage e)) = Inr p" "acTriggers (qeCfg e) (pqUUID p) = Some (JobObj job)"
    "\<not> tkDisabled (jbTask job)" "queueArgsOk job (pqArgs p) = Some True"
    "recordQueueDedupe (pqUUID p) (pqTimestamp p) (qeNow e) seen = (False, seen')"
    "st = (queueWorker (qeCfg e) (qeWorker e) (jbTask job) (qeProvider e) (qmID (qeMessage e)), JobObj job, QueuedJob, ''run'', pqArgs p)"
    by (auto simp: queue_step_defs split: if_splits sum.splits option.splits prod.splits bool.splits taskObj.splits)
  have "map_of seen' (dedupeKey (pqUUID p) (pqTimestamp p)) = Some (qeNow e + queueDedupeRetention)"
    using p(5) by (auto simp: recordQueueDedupe_def Let_def update_conv' split: option.splits if_splits)
  moreover have "\<not> length (pqArgs p) < length (jbArguments job)" "badArgument (jbArguments job) (pqArgs p) = Some None"
    using p(4) by (auto simp: queueArgsOk_def split: if_splits)
  ultimately show ?thesis using p(1-3,6) badArgument_none [of "jbArguments job" "pqArgs p"] by auto
qed

lemma step_duplicate:
  assumes "bodyKey ql e = Some key" "map_of seen key = Some x" "qeNow e < x"
  shows "\<exists>seen'. queueStep ql e seen = Some (if qeDown e then QueueRetry else QueueAck, None, seen')"
proof -
  obtain p where p: "parseQueueBody ql (qmBody (qeMessage e)) = Inr p" "dedupeKey (pqUUID p) (pqTimestamp p) = key"
    using assms(1) by (auto simp: bodyKey_def split: sum.splits)
  then show ?thesis using dedupe_known(2) [OF assms(2,3), of "pqUUID p" "pqTimestamp p"]
    by (auto simp: queue_step_defs split: option.split prod.split)
qed

text \<open>
  C33. A queue that delivers a message more than once starts its job once, and only a job that may be
  started: what a message starts is the enabled job its UUID triggers, with the arguments of its body,
  as many as the job asks for at least and each matching its expression; and after that a message with
  the same UUID and timestamp starts nothing within the retention of 140 seconds, from whatever provider
  and whatever comes between without ending the process, and is acknowledged unless the robot is stopping.
\<close>

theorem queue_runs_once:
  assumes started: "queueStep ql e1 seen = Some (d, Some st, seen1)" and between: "queueSeen ql mid seen1 = Some seen2"
    and same: "bodyKey ql e2 = bodyKey ql e1"
    and soon: "list_all (\<lambda>e. qeNow e < qeNow e1 + queueDedupeRetention) (mid @ [e2])"
  shows "(\<exists>p job. parseQueueBody ql (qmBody (qeMessage e1)) = Inr p \<and> acTriggers (qeCfg e1) (pqUUID p) = Some (JobObj job) \<and>
      \<not> tkDisabled (jbTask job) \<and> length (jbArguments job) \<le> length (pqArgs p) \<and>
      list_all2 (\<lambda>m arg. argumentOk m arg = Some True) (jbArguments job) (take (length (jbArguments job)) (pqArgs p)) \<and>
      st = (queueWorker (qeCfg e1) (qeWorker e1) (jbTask job) (qeProvider e1) (qmID (qeMessage e1)), JobObj job, QueuedJob, ''run'', pqArgs p)) \<and>
    (\<exists>seen3. queueStep ql e2 seen2 = Some (if qeDown e2 then QueueRetry else QueueAck, None, seen3))"
proof -
  from step_started [OF started] obtain p where
    p: "parseQueueBody ql (qmBody (qeMessage e1)) = Inr p"
    and known: "map_of seen1 (dedupeKey (pqUUID p) (pqTimestamp p)) = Some (qeNow e1 + queueDedupeRetention)" by blast
  have "map_of seen2 (dedupeKey (pqUUID p) (pqTimestamp p)) = Some (qeNow e1 + queueDedupeRetention)"
    by (rule seen_known [OF known _ between]) (use soon in simp)
  moreover have "bodyKey ql e2 = Some (dedupeKey (pqUUID p) (pqTimestamp p))" using same p by (simp add: bodyKey_def)
  ultimately show ?thesis using step_duplicate soon step_started [OF started] by (simp; blast)
qed

text \<open>
  What a sender writes is what the robot reads: a UUID, a colon, a timestamp of 12 to 15 digits and,
  behind a space, the arguments.
\<close>

theorem queue_body_roundtrip:
  assumes "length jobUUID = 36" "qlUUID ql jobUUID = Some jobUUID"
    and "list_all isDigitByte ts" "12 \<le> length ts" "length ts \<le> 15"
    and "trimSpace argText \<noteq> []" "qlSplit ql (trimSpace argText) = Some args"
  shows "parseQueueBody ql (jobUUID @ '':'' @ ts @ '' '' @ argText) = Inr \<lparr>pqUUID = jobUUID, pqTimestamp = ts, pqArgs = args\<rparr> \<and>
    parseQueueBody ql (jobUUID @ '':'' @ ts) = Inr \<lparr>pqUUID = jobUUID, pqTimestamp = ts, pqArgs = []\<rparr>"
proof -
  have space: "\<not> isDigitByte (CHR '' '')" by code_simp
  have "takeWhile isDigitByte (ts @ CHR '' '' # argText) = ts" using assms(3) space by (simp add: takeWhile_append2 list_all_iff del: takeWhile_eq_all_conv)
  moreover have "takeWhile isDigitByte ts = ts" using assms(3) by (simp add: takeWhile_eq_all_conv list_all_iff)
  ultimately show ?thesis using assms
    by (simp add: parseQueueBody_def parseQueueArgs_def queueUUIDPrefixLen_def queueTimestampMinLen_def queueTimestampMaxLen_def Let_def
        del: takeWhile_eq_all_conv)
qed

subsection \<open>Pauses and schedules\<close>

text \<open>
  A paused job does not run on its schedule, whichever schedule of it fires, until it is resumed, and
  then it does; pausing and resuming change nothing for other jobs.
\<close>

lemma paused_job_waits:
  assumes "getTaskByName tasks name = Some (JobObj job)" "tkName (jbTask job) = name" "paused name = None"
  shows "runScheduledTask ac (snd (pauseJob tasks user name paused)) i (JobObj job) args b = None"
    and "resumeJob tasks name (snd (pauseJob tasks user name paused)) =
      Some ([''Ok, I'll resume running '' @ singleQuoted name @ '' as a scheduled task''], paused)"
  using assms by (auto simp: pauseJob_def resumeJob_def runScheduledTask_def fun_eq_iff)

subsection \<open>Concrete messages\<close>

definition demoQueueLib :: queueLib where
  "demoQueueLib = \<lparr>qlUUID = Some, qlSplit = (\<lambda>s. Some (splitByte (CHR '' '') s))\<rparr>"

definition demoQueueCfg :: autoCfg where
  "demoQueueCfg = \<lparr>acCfg = wCfg demoWorker, acTasks = wTasks demoWorker, acTriggers = (\<lambda>_. Some (JobObj demoJob)),
     acDefaultProtocol = [], acProtocol = ''slack''\<rparr>"

definition demoBody :: string where
  "demoBody = ''12345678-1234-1234-1234-123456789abc:202601010000 now please''"

definition demoQueueEvent :: "int \<Rightarrow> queueEvent" where
  "demoQueueEvent now = \<lparr>qeCfg = demoQueueCfg, qeDown = False, qeWorker = 7, qeProvider = ''sqs'',
     qeMessage = \<lparr>qmID = ''m'', qmBody = demoBody\<rparr>, qeNow = now\<rparr>"

theorem queue_runs_once_witness:
  "\<exists>st seen1 seen2. queueStep demoQueueLib (demoQueueEvent 100) [] = Some (QueueAck, Some st, seen1) \<and>
     queueStep demoQueueLib (demoQueueEvent 110) seen1 = Some (QueueAck, None, seen2)"
proof -
  have "case queueStep demoQueueLib (demoQueueEvent 100) [] of Some (QueueAck, Some st, seen1) \<Rightarrow> True | _ \<Rightarrow> False"
    by code_simp
  then obtain st seen1 where "queueStep demoQueueLib (demoQueueEvent 100) [] = Some (QueueAck, Some st, seen1)"
    by (auto split: option.splits prod.splits queueDisposition.splits)
  from queue_runs_once [OF this, of "[]" seen1 "demoQueueEvent 110"] this show ?thesis
    by (simp add: bodyKey_def demoQueueEvent_def queueDedupeRetention_def) blast
qed

theorem queue_body_roundtrip_witness:
  "parseQueueBody demoQueueLib demoBody =
     Inr \<lparr>pqUUID = ''12345678-1234-1234-1234-123456789abc'', pqTimestamp = ''202601010000'', pqArgs = [''now'', ''please'']\<rparr>"
proof -
  let ?u = "''12345678-1234-1234-1234-123456789abc''" and ?t = "''202601010000''"
  have "list_all isDigitByte ?t" "trimSpace ''now please'' \<noteq> []" "qlSplit demoQueueLib (trimSpace ''now please'') = Some [''now'', ''please'']"
    by code_simp+
  then have "parseQueueBody demoQueueLib (?u @ '':'' @ ?t @ '' '' @ ''now please'') =
      Inr \<lparr>pqUUID = ?u, pqTimestamp = ?t, pqArgs = [''now'', ''please'']\<rparr>"
    using queue_body_roundtrip [of ?u demoQueueLib ?t "''now please''"] by (simp add: demoQueueLib_def)
  then show ?thesis by (simp add: demoBody_def)
qed

end
