(* ===== verification/Runtimes.thy ===== *)
theory Runtimes
  imports Ephemeral
begin

text \<open>
  The connectors and queue providers the robot runs (bot/connector\_runtime.go and the runtime part of
  bot/queue\_runtime.go). Both keep a table of runtimes by name; a goroutine per running one leaves its
  main loop when its stop channel is closed or on its own, takes itself off the table's running ones
  and closes its done channel. What an initializer returns is an argument. The operations are given
  here as a caller sees them that no other one overlaps, where a connector that is told to stop does so. The code
  lets go of its lock several times within an operation: \<^theory_text>\<open>ConnectorSteps\<close> has the critical sections with
  all interleavings, and shows that a start on its own does what the definition here says.
\<close>

subsection \<open>The table of runtimes\<close>

record managedRuntime =
  mrHandle :: "nat option"
  mrRunning :: bool
  mrStopping :: bool
  mrLastError :: string

type_synonym 'a runtimeTable = "string \<Rightarrow> 'a managedRuntime_scheme option"

record managedConnector = managedRuntime +
  mcHiddenCommands :: bool

definition newRuntime :: managedRuntime where
  "newRuntime = \<lparr>mrHandle = None, mrRunning = False, mrStopping = False, mrLastError = []\<rparr>"

definition newConnector :: managedConnector where
  "newConnector = managedRuntime.extend newRuntime \<lparr>mcHiddenCommands = False\<rparr>"

text \<open>The critical section at the start of a runtime, of a stop, and at the end of its goroutine.\<close>

definition markRunning :: "string \<Rightarrow> 'a runtimeTable \<Rightarrow> 'a runtimeTable" where
  "markRunning p t =
     (case t p of None \<Rightarrow> t
      | Some m \<Rightarrow> t(p \<mapsto> m\<lparr>mrRunning := True, mrStopping := False, mrLastError := []\<rparr>))"

definition markStopping :: "string \<Rightarrow> 'a runtimeTable \<Rightarrow> 'a runtimeTable" where
  "markStopping p t = (case t p of None \<Rightarrow> t | Some m \<Rightarrow> t(p \<mapsto> m\<lparr>mrStopping := True\<rparr>))"

definition runtimeExited :: "string \<Rightarrow> bool \<Rightarrow> string \<Rightarrow> 'a runtimeTable \<Rightarrow> 'a runtimeTable" where
  "runtimeExited p shuttingDown err t =
     (case t p of
        None \<Rightarrow> t
      | Some m \<Rightarrow> t(p \<mapsto> m\<lparr>mrRunning := False, mrStopping := False,
                            mrLastError := (if \<not> mrStopping m \<and> \<not> shuttingDown then err else mrLastError m)\<rparr>))"

definition isRunning :: "string \<Rightarrow> 'a runtimeTable \<Rightarrow> bool" where
  "isRunning p t \<longleftrightarrow> (case t p of None \<Rightarrow> False | Some m \<Rightarrow> mrRunning m)"

definition stopRuntime :: "string \<Rightarrow> 'a runtimeTable \<Rightarrow> 'a runtimeTable" where
  "stopRuntime p t = (if isRunning p t then runtimeExited p False [] (markStopping p t) else t)"

subsection \<open>Connectors\<close>

text \<open>What is registered for a protocol, and what its initializer returns.\<close>

datatype initialized = NotRegistered | InitError string | NilHandle | Initialized nat bool

record connectorRuntimes =
  crPrimary :: string
  crDefault :: string
  crBotIDs :: "string \<Rightarrow> string option"
  crRuntimes :: "string \<Rightarrow> managedConnector option"
  crDesired :: "string list"

definition getRuntimeDefaultProtocol :: "connectorRuntimes \<Rightarrow> string option" where
  "getRuntimeDefaultProtocol s =
     (if crDefault s \<noteq> [] then Some (crDefault s) else if crPrimary s \<noteq> [] then Some (crPrimary s) else None)"

definition setRuntimeBotID :: "string \<Rightarrow> string \<Rightarrow> string \<Rightarrow> connectorRuntimes \<Rightarrow> connectorRuntimes" where
  "setRuntimeBotID configured protocol botID s =
     (let i = trimSpace botID; given = normalizeProtocolName protocol;
          p = (if given \<noteq> [] then given else if crPrimary s \<noteq> [] then crPrimary s else normalizeProtocolName configured)
      in if i = [] \<or> p = [] then s else s\<lparr>crBotIDs := (crBotIDs s)(p \<mapsto> i)\<rparr>)"

definition getRuntimeBotID :: "string \<Rightarrow> connectorRuntimes \<Rightarrow> string option" where
  "getRuntimeBotID protocol s =
     (let p = normalizeProtocolName protocol in
      if p = [] then None
      else (case crBotIDs s p of None \<Rightarrow> None | Some i \<Rightarrow> if trimSpace i = [] then None else Some i))"

definition getRuntimeBotIDForContext :: "incomingMessage option \<Rightarrow> protocol \<Rightarrow> connectorRuntimes \<Rightarrow> string option" where
  "getRuntimeBotIDForContext inc fallback s =
     (let p = protocolFromIncoming inc fallback in
      case (if p = [] then None else getRuntimeBotID p s) of
        Some i \<Rightarrow> Some i
      | None \<Rightarrow> (case getRuntimeDefaultProtocol s of None \<Rightarrow> None | Some d \<Rightarrow> getRuntimeBotID d s))"

definition getRuntimeConnector :: "string \<Rightarrow> connectorRuntimes \<Rightarrow> nat option" where
  "getRuntimeConnector protocol s =
     (case crRuntimes s (normalizeProtocolName protocol) of None \<Rightarrow> None | Some m \<Rightarrow> mrHandle m)"

definition getPrimaryConnector :: "connectorRuntimes \<Rightarrow> nat option" where
  "getPrimaryConnector s = (case crRuntimes s (crPrimary s) of None \<Rightarrow> None | Some m \<Rightarrow> mrHandle m)"

definition getConnectorForProtocol :: "string \<Rightarrow> connectorRuntimes \<Rightarrow> nat option" where
  "getConnectorForProtocol protocol s =
     (case getRuntimeConnector (normalizeProtocolName protocol) s of Some c \<Rightarrow> Some c | None \<Rightarrow> getPrimaryConnector s)"

definition getRuntimeConnectorCapabilities :: "string \<Rightarrow> connectorRuntimes \<Rightarrow> bool option" where
  "getRuntimeConnectorCapabilities protocol s = map_option mcHiddenCommands (crRuntimes s (normalizeProtocolName protocol))"

definition protocolForMessage :: "incomingMessage option \<Rightarrow> connectorRuntimes \<Rightarrow> string" where
  "protocolForMessage inc s =
     (case inc of
        Some m \<Rightarrow> if normalizeProtocolName (icProtocol m) \<noteq> [] then normalizeProtocolName (icProtocol m)
                  else (case getRuntimeDefaultProtocol s of None \<Rightarrow> [] | Some d \<Rightarrow> d)
      | None \<Rightarrow> (case getRuntimeDefaultProtocol s of None \<Rightarrow> [] | Some d \<Rightarrow> d))"

text \<open>The router: messages go to the connector of the incoming message, and to the primary one where there is none.\<close>

definition routeMessage :: "incomingMessage option \<Rightarrow> connectorRuntimes \<Rightarrow> (nat \<Rightarrow> RetVal) \<Rightarrow> RetVal" where
  "routeMessage inc s send =
     (case getConnectorForProtocol (protocolForMessage inc s) s of None \<Rightarrow> Failed | Some c \<Rightarrow> send c)"

definition normalizeSecondaryProtocols :: "string \<Rightarrow> string list \<Rightarrow> string list" where
  "normalizeSecondaryProtocols primary secondary =
     (let p = toLower (trimSpace primary) in
      snd (foldl (\<lambda>(seen, out) s.
        let name = trimSpace s; key = toLower name in
        if name = [] \<or> key = p \<or> key = ''terminal'' \<or> key \<in> set seen then (seen, out)
        else (key # seen, out @ [name])) ([], []) secondary))"

definition configuredProtocols :: "string \<Rightarrow> string \<Rightarrow> string list \<Rightarrow> string \<times> string \<times> string list" where
  "configuredProtocols protocol defaultProtocol secondaryProtocols =
     (let primary = normalizeProtocolName protocol; d = normalizeProtocolName defaultProtocol
      in (primary, if d = [] then primary else d,
          map normalizeProtocolName (normalizeSecondaryProtocols primary secondaryProtocols)))"

subsection \<open>Starting and stopping connectors\<close>

text \<open>The error a failed start returns, and the log and table it leaves.\<close>

datatype connectorError = EmptyProtocol | NameRequired | NoConnectorRegistered string | InitFailed string | NilConnector string | NoPrimary
  | PrimaryManaged string | PrimaryNotStoppable string | NotConfigured string

definition errorText :: "connectorError \<Rightarrow> string" where
  "errorText e =
     (case e of
        EmptyProtocol \<Rightarrow> ''invalid empty protocol name''
      | NameRequired \<Rightarrow> ''protocol name is required''
      | NoConnectorRegistered p \<Rightarrow> ''no connector registered with name '' @ [CHR 0x27] @ p @ [CHR 0x27]
      | InitFailed text \<Rightarrow> text
      | NilConnector p \<Rightarrow> ''connector '' @ [CHR 0x27] @ p @ [CHR 0x27] @ '' returned nil from initializer''
      | NoPrimary \<Rightarrow> ''primary protocol not configured''
      | PrimaryManaged p \<Rightarrow> ''protocol '' @ [CHR 0x27] @ p @ [CHR 0x27] @ '' is the primary protocol and is always managed by startup/shutdown''
      | PrimaryNotStoppable p \<Rightarrow> ''cannot stop the primary protocol '' @ [CHR 0x27] @ p @ [CHR 0x27] @ '' while running''
      | NotConfigured p \<Rightarrow> ''protocol '' @ [CHR 0x27] @ p @ [CHR 0x27] @ '' is not configured in SecondaryProtocols'')"

type_synonym initializer = "string \<Rightarrow> initialized"

definition withEntry :: "string \<Rightarrow> connectorRuntimes \<Rightarrow> connectorRuntimes" where
  "withEntry p s = (case crRuntimes s p of Some m \<Rightarrow> s | None \<Rightarrow> s\<lparr>crRuntimes := (crRuntimes s)(p \<mapsto> newConnector)\<rparr>)"

definition setEntry :: "string \<Rightarrow> (managedConnector \<Rightarrow> managedConnector) \<Rightarrow> connectorRuntimes \<Rightarrow> connectorRuntimes" where
  "setEntry p f s = s\<lparr>crRuntimes := (crRuntimes s)(p := map_option f (crRuntimes s p))\<rparr>"

definition ensureConnectorInitialized ::
    "initializer \<Rightarrow> string \<Rightarrow> connectorRuntimes \<Rightarrow> connectorError option \<times> connectorRuntimes" where
  "ensureConnectorInitialized init protocol s =
     (let p = normalizeProtocolName protocol; s1 = withEntry p s in
      if p = [] then (Some EmptyProtocol, s)
      else if getRuntimeConnector p s1 \<noteq> None then (None, s1)
      else (case init p of
              NotRegistered \<Rightarrow> (Some (NoConnectorRegistered p), s1)
            | InitError e \<Rightarrow> (Some (InitFailed e), s1)
            | NilHandle \<Rightarrow> (Some (NilConnector p), s1)
            | Initialized c hidden \<Rightarrow>
                (None, setEntry p (\<lambda>m. m\<lparr>mrHandle := Some c, mrLastError := [], mcHiddenCommands := hidden\<rparr>) s1)))"

definition recordConnectorRuntimeError :: "string \<Rightarrow> connectorError \<Rightarrow> connectorRuntimes \<Rightarrow> connectorRuntimes" where
  "recordConnectorRuntimeError protocol e s =
     (let p = normalizeProtocolName protocol in
      if p = [] then s else setEntry p (\<lambda>m. m\<lparr>mrLastError := errorText e\<rparr>) s)"

definition startConnectorRuntime ::
    "initializer \<Rightarrow> string \<Rightarrow> bool \<Rightarrow> connectorRuntimes \<Rightarrow> connectorError option \<times> connectorRuntimes" where
  "startConnectorRuntime init protocol required s =
     (let p = normalizeProtocolName protocol in
      if p = [] then (Some EmptyProtocol, s)
      else (case ensureConnectorInitialized init p s of
              (Some e, s1) \<Rightarrow> (Some e, if required then s1 else recordConnectorRuntimeError p e s1)
            | (None, s1) \<Rightarrow>
                (None, if isRunning p (crRuntimes s1) then s1 else s1\<lparr>crRuntimes := markRunning p (crRuntimes s1)\<rparr>)))"

definition stopConnectorRuntime :: "string \<Rightarrow> connectorRuntimes \<Rightarrow> connectorError option \<times> connectorRuntimes" where
  "stopConnectorRuntime protocol s =
     (let p = normalizeProtocolName protocol in
      if p = [] then (Some EmptyProtocol, s) else (None, s\<lparr>crRuntimes := stopRuntime p (crRuntimes s)\<rparr>))"

text \<open>Every secondary protocol but the primary one, in order.\<close>

definition realSecondaries :: "string \<Rightarrow> string list \<Rightarrow> string list" where
  "realSecondaries primary secondaries = filter (\<lambda>p. p \<noteq> [] \<and> p \<noteq> primary) secondaries"

definition initializeConnectorRuntime ::
    "initializer \<Rightarrow> string \<times> string \<times> string list \<Rightarrow> connectorRuntimes \<Rightarrow> connectorError option \<times> connectorRuntimes" where
  "initializeConnectorRuntime init cfg s =
     (case cfg of (primary, defaultProtocol, secondaries) \<Rightarrow>
        if primary = [] then (Some NoPrimary, s)
        else (case ensureConnectorInitialized init primary
                \<lparr>crPrimary = primary, crDefault = defaultProtocol, crBotIDs = (\<lambda>_. None), crRuntimes = (\<lambda>_. None),
                 crDesired = remdups (realSecondaries primary secondaries)\<rparr> of
                (Some e, s1) \<Rightarrow> (Some e, s1)
              | (None, s1) \<Rightarrow>
                  (None, foldl (\<lambda>s p. case ensureConnectorInitialized init p s of
                                        (Some e, t) \<Rightarrow> recordConnectorRuntimeError p e t | (None, t) \<Rightarrow> t)
                           s1 (realSecondaries primary secondaries))))"

definition startAll :: "initializer \<Rightarrow> string list \<Rightarrow> connectorRuntimes \<Rightarrow> connectorRuntimes" where
  "startAll init ps s = foldl (\<lambda>s p. snd (startConnectorRuntime init p False s)) s ps"

definition startConnectorRuntimes ::
    "initializer \<Rightarrow> string \<times> string \<times> string list \<Rightarrow> connectorRuntimes \<Rightarrow> connectorError option \<times> connectorRuntimes" where
  "startConnectorRuntimes init cfg s =
     (case cfg of (primary, defaultProtocol, secondaries) \<Rightarrow>
        if primary = [] then (Some NoPrimary, s)
        else (case startConnectorRuntime init primary True s of
                (Some e, s1) \<Rightarrow> (Some e, s1)
              | (None, s1) \<Rightarrow> (None, startAll init (realSecondaries primary secondaries) s1)))"

text \<open>Shutting down stops the running ones, in the order of their names, which \<open>ps\<close> lists.\<close>

definition shutdownConnectorRuntimes :: "string list \<Rightarrow> connectorRuntimes \<Rightarrow> connectorRuntimes" where
  "shutdownConnectorRuntimes ps s =
     foldl (\<lambda>t p. snd (stopConnectorRuntime p t)) s (filter (\<lambda>p. isRunning p (crRuntimes s)) ps)"

definition dropRuntime :: "string \<Rightarrow> connectorRuntimes \<Rightarrow> connectorRuntimes" where
  "dropRuntime p s = (let t = snd (stopConnectorRuntime p s) in t\<lparr>crRuntimes := (crRuntimes t)(p := None)\<rparr>)"

definition reconcileSecondaryConnectorRuntimes :: "initializer \<Rightarrow> string list \<Rightarrow> connectorRuntimes \<Rightarrow> connectorRuntimes" where
  "reconcileSecondaryConnectorRuntimes init secondaries s =
     (if crPrimary s = [] then s
      else let desired = remdups (realSecondaries (crPrimary s) (map normalizeProtocolName secondaries));
               s1 = foldl (\<lambda>t p. if p \<in> set desired then t else dropRuntime p t) s (crDesired s)
           in startAll init desired (s1\<lparr>crDesired := desired\<rparr>))"

definition startSecondaryConnectorRuntime ::
    "initializer \<Rightarrow> string \<Rightarrow> connectorRuntimes \<Rightarrow> connectorError option \<times> connectorRuntimes" where
  "startSecondaryConnectorRuntime init protocol s =
     (let p = normalizeProtocolName protocol in
      if p = [] then (Some NameRequired, s)
      else if p = crPrimary s then (Some (PrimaryManaged p), s)
      else if p \<notin> set (crDesired s) then (Some (NotConfigured p), s)
      else startConnectorRuntime init p False s)"

definition stopSecondaryConnectorRuntime :: "string \<Rightarrow> connectorRuntimes \<Rightarrow> connectorError option \<times> connectorRuntimes" where
  "stopSecondaryConnectorRuntime protocol s =
     (let p = normalizeProtocolName protocol in
      if p = [] then (Some NameRequired, s)
      else if p = crPrimary s then (Some (PrimaryNotStoppable p), s)
      else if p \<notin> set (crDesired s) then (Some (NotConfigured p), s)
      else stopConnectorRuntime p s)"

definition restartSecondaryConnectorRuntime ::
    "initializer \<Rightarrow> string \<Rightarrow> connectorRuntimes \<Rightarrow> connectorError option \<times> connectorRuntimes" where
  "restartSecondaryConnectorRuntime init protocol s =
     (if normalizeProtocolName protocol = [] then (Some NameRequired, s)
      else (case stopSecondaryConnectorRuntime protocol s of
              (Some e, s1) \<Rightarrow> (Some e, s1)
            | (None, s1) \<Rightarrow> startSecondaryConnectorRuntime init protocol s1))"

datatype runtimeStatus = StatusRunning | StatusStopped | StatusFailed string

definition runtimeStatusOf :: "string \<Rightarrow> connectorRuntimes \<Rightarrow> runtimeStatus" where
  "runtimeStatusOf p s =
     (case crRuntimes s p of
        None \<Rightarrow> StatusFailed ''not initialized''
      | Some m \<Rightarrow> if mrRunning m then StatusRunning
                  else if mrLastError m \<noteq> [] then StatusFailed (mrLastError m) else StatusStopped)"

definition listConnectorProtocolStatus :: "connectorRuntimes \<Rightarrow> (string \<times> bool \<times> runtimeStatus) list" where
  "listConnectorProtocolStatus s =
     map (\<lambda>p. (p, p = crPrimary s, runtimeStatusOf p s))
       (sort_key (\<lambda>p. map (of_char :: char \<Rightarrow> nat) p)
         (remdups ((if crPrimary s \<noteq> [] then [crPrimary s] else []) @ crDesired s)))"

subsection \<open>What the operations keep\<close>

text \<open>The desired secondaries are never the primary protocol, and names in the table are normalized.\<close>

definition secondariesOk :: "connectorRuntimes \<Rightarrow> bool" where
  "secondariesOk s \<longleftrightarrow> (\<forall>p \<in> set (crDesired s). p \<noteq> [] \<and> p \<noteq> crPrimary s \<and> normalizeProtocolName p = p)"

lemma table_other:
  "q \<noteq> p \<Longrightarrow> markRunning p t q = t q" "q \<noteq> p \<Longrightarrow> markStopping p t q = t q" "q \<noteq> p \<Longrightarrow> runtimeExited p down err t q = t q"
  "q \<noteq> p \<Longrightarrow> stopRuntime p t q = t q"
  by (simp_all add: markRunning_def markStopping_def runtimeExited_def stopRuntime_def split: option.split)

lemma entry_other:
  "q \<noteq> p \<Longrightarrow> crRuntimes (withEntry p s) q = crRuntimes s q" "q \<noteq> p \<Longrightarrow> crRuntimes (setEntry p f s) q = crRuntimes s q"
  by (simp_all add: withEntry_def setEntry_def split: option.split)

text \<open>Operations on one protocol leave the entries of the others and the rest of the state alone.\<close>

definition onlyEntry :: "string \<Rightarrow> connectorRuntimes \<Rightarrow> connectorRuntimes \<Rightarrow> bool" where
  "onlyEntry p s t \<longleftrightarrow> (\<forall>q. q \<noteq> p \<longrightarrow> crRuntimes t q = crRuntimes s q) \<and> crPrimary t = crPrimary s \<and> crDesired t = crDesired s"

lemma onlyEntry_trans: "onlyEntry p s t \<Longrightarrow> onlyEntry p t u \<Longrightarrow> onlyEntry p s u"
  by (simp add: onlyEntry_def)

lemma onlyEntry_basic:
  "onlyEntry p s s" "onlyEntry p s (withEntry p s)" "onlyEntry p s (setEntry p f s)"
  by (auto simp: onlyEntry_def entry_other) (auto simp: withEntry_def setEntry_def split: option.split)

lemma onlyEntry_record: "normalizeProtocolName p = q \<Longrightarrow> onlyEntry q s (recordConnectorRuntimeError p e s)"
  by (simp add: recordConnectorRuntimeError_def Let_def onlyEntry_basic)

lemma onlyEntry_ensure: "onlyEntry (normalizeProtocolName p) s (snd (ensureConnectorInitialized init p s))"
  by (auto simp: ensureConnectorInitialized_def Let_def onlyEntry_basic onlyEntry_trans [OF onlyEntry_basic(2) onlyEntry_basic(3)]
      split: initialized.split)

lemma canonical_protocol [simp]: "normalizeProtocolName (normalizeProtocolName p) = normalizeProtocolName p"
  by (simp add: normalizeProtocolName_def lower_trim_twice)

lemma onlyEntry_start: "onlyEntry (normalizeProtocolName p) s (snd (startConnectorRuntime init p required s))"
proof -
  obtain e t where t: "ensureConnectorInitialized init (normalizeProtocolName p) s = (e, t)" by fastforce
  have only: "onlyEntry (normalizeProtocolName p) s t" using onlyEntry_ensure [of "normalizeProtocolName p" s init] t by simp
  have "onlyEntry (normalizeProtocolName p) t (t\<lparr>crRuntimes := markRunning (normalizeProtocolName p) (crRuntimes t)\<rparr>)"
    by (simp add: onlyEntry_def table_other)
  then show ?thesis using only onlyEntry_record [of "normalizeProtocolName p"] onlyEntry_basic(1)
    by (cases e) (auto simp: startConnectorRuntime_def Let_def t intro: onlyEntry_trans)
qed

lemma onlyEntry_stop: "onlyEntry (normalizeProtocolName p) s (snd (stopConnectorRuntime p s))"
  by (simp add: stopConnectorRuntime_def Let_def onlyEntry_def table_other)

text \<open>
  What the table keeps: the primary protocol and the desired ones are named by their normalized names, and
  nothing else is in the table, so nothing else runs.
\<close>

definition runtimesOk :: "connectorRuntimes \<Rightarrow> bool" where
  "runtimesOk s \<longleftrightarrow> crPrimary s \<noteq> [] \<and> normalizeProtocolName (crPrimary s) = crPrimary s \<and> secondariesOk s \<and>
     dom (crRuntimes s) \<subseteq> insert (crPrimary s) (set (crDesired s))"

text \<open>A change that may only touch the entries of secondary protocols the robot wants.\<close>

definition primaryKept :: "connectorRuntimes \<Rightarrow> connectorRuntimes \<Rightarrow> bool" where
  "primaryKept s t \<longleftrightarrow> crPrimary t = crPrimary s \<and> crRuntimes t (crPrimary s) = crRuntimes s (crPrimary s)"

lemma primaryKept_trans: "primaryKept s t \<Longrightarrow> primaryKept t u \<Longrightarrow> primaryKept s u"
  by (simp add: primaryKept_def)

lemma onlyEntry_kept:
  assumes "onlyEntry p s t" and "runtimesOk s" and "p \<in> set (crDesired s)"
  shows "runtimesOk t \<and> primaryKept s t"
proof -
  have other: "\<And>q. q \<noteq> p \<Longrightarrow> crRuntimes t q = crRuntimes s q" and same: "crPrimary t = crPrimary s" "crDesired t = crDesired s"
    using assms(1) by (auto simp: onlyEntry_def)
  have "dom (crRuntimes t) \<subseteq> insert (crPrimary s) (set (crDesired s))"
    using assms(2,3) other by (fastforce simp: runtimesOk_def dom_def)
  moreover have "p \<noteq> crPrimary s" using assms(2,3) by (auto simp: runtimesOk_def secondariesOk_def)
  ultimately show ?thesis using assms(2) other same by (simp add: runtimesOk_def secondariesOk_def primaryKept_def)
qed

lemma kept_refl [simp]: "primaryKept s s" by (simp add: primaryKept_def)

text \<open>A reload: the runtimes no longer wanted are stopped and forgotten, then every wanted one is started.\<close>

lemma drop_entry:
  "crRuntimes (dropRuntime p s) q = (if q = p then None else if q = normalizeProtocolName p then crRuntimes (snd (stopConnectorRuntime p s)) q
     else crRuntimes s q)"
  "crPrimary (dropRuntime p s) = crPrimary s" "crDesired (dropRuntime p s) = crDesired s"
  using onlyEntry_stop [of p s] by (auto simp: dropRuntime_def Let_def onlyEntry_def)

lemma drop_all:
  assumes "\<forall>p \<in> set ps. normalizeProtocolName p = p"
  shows "crRuntimes (foldl (\<lambda>t p. if p \<in> D then t else dropRuntime p t) s ps) q =
      (if q \<in> set ps - D then None else crRuntimes s q)"
    and "crPrimary (foldl (\<lambda>t p. if p \<in> D then t else dropRuntime p t) s ps) = crPrimary s"
    and "crDesired (foldl (\<lambda>t p. if p \<in> D then t else dropRuntime p t) s ps) = crDesired s"
  using assms by (induction ps arbitrary: s) (auto simp: drop_entry)

lemma startAll_kept:
  assumes "runtimesOk s" and "set ps \<subseteq> set (crDesired s)"
  shows "runtimesOk (startAll init ps s) \<and> primaryKept s (startAll init ps s) \<and> crDesired (startAll init ps s) = crDesired s"
  using assms
proof (induction ps arbitrary: s)
  case Nil
  then show ?case by (simp add: startAll_def)
next
  case (Cons p ps)
  let ?t = "snd (startConnectorRuntime init p False s)"
  have "normalizeProtocolName p = p" using Cons.prems by (simp add: runtimesOk_def secondariesOk_def)
  then have only: "onlyEntry p s ?t" using onlyEntry_start [of p s init False] by simp
  have kept: "runtimesOk ?t \<and> primaryKept s ?t" using onlyEntry_kept [OF only Cons.prems(1)] Cons.prems(2) by simp
  have desired: "crDesired ?t = crDesired s" using only by (simp add: onlyEntry_def)
  have "startAll init (p # ps) s = startAll init ps ?t" by (simp add: startAll_def)
  then show ?case using Cons.IH [of ?t] kept desired Cons.prems(2) primaryKept_trans [of s ?t] by simp
qed

lemma realSecondaries_set: "p \<in> set (realSecondaries d ps) \<longleftrightarrow> p \<in> set ps \<and> p \<noteq> [] \<and> p \<noteq> d"
  by (auto simp: realSecondaries_def)

definition droppedState :: "string list \<Rightarrow> connectorRuntimes \<Rightarrow> connectorRuntimes" where
  "droppedState desired s =
     (foldl (\<lambda>t p. if p \<in> set desired then t else dropRuntime p t) s (crDesired s))\<lparr>crDesired := desired\<rparr>"

lemma reload_unfold:
  assumes "runtimesOk s"
  shows "reconcileSecondaryConnectorRuntimes init ps s =
    (let desired = remdups (realSecondaries (crPrimary s) (map normalizeProtocolName ps)) in startAll init desired (droppedState desired s))"
  using assms by (simp add: reconcileSecondaryConnectorRuntimes_def droppedState_def runtimesOk_def Let_def)

lemma dropped_table:
  assumes "runtimesOk s"
  shows "crRuntimes (droppedState D s) q = (if q \<in> set (crDesired s) - set D then None else crRuntimes s q)"
    and "crPrimary (droppedState D s) = crPrimary s" and "crDesired (droppedState D s) = D"
proof -
  have "\<forall>p \<in> set (crDesired s). normalizeProtocolName p = p" using assms by (simp add: runtimesOk_def secondariesOk_def)
  from drop_all [OF this, of "set D" s]
  show "crRuntimes (droppedState D s) q = (if q \<in> set (crDesired s) - set D then None else crRuntimes s q)"
    and "crPrimary (droppedState D s) = crPrimary s" and "crDesired (droppedState D s) = D"
    by (simp_all add: droppedState_def)
qed

lemma dropped_kept:
  assumes ok: "runtimesOk s" and D: "\<forall>p \<in> set D. p \<noteq> [] \<and> p \<noteq> crPrimary s \<and> normalizeProtocolName p = p"
  shows "runtimesOk (droppedState D s) \<and> primaryKept s (droppedState D s)"
proof -
  have "crPrimary s \<notin> set (crDesired s)" using ok by (auto simp: runtimesOk_def secondariesOk_def)
  moreover have "dom (crRuntimes (droppedState D s)) \<subseteq> insert (crPrimary s) (set D)"
    using ok by (auto simp: dropped_table [OF ok] runtimesOk_def dom_def split: if_splits)
  ultimately show ?thesis using ok D
    by (simp add: runtimesOk_def secondariesOk_def primaryKept_def dropped_table [OF ok])
qed

text \<open>Starting a protocol, as seen from its own entry.\<close>

lemma start_succeeds:
  assumes "normalizeProtocolName p = p" and "p \<noteq> []"
  shows "fst (startConnectorRuntime init p required s) = None \<longleftrightarrow>
      getRuntimeConnector p s \<noteq> None \<or> (\<exists>c hidden. init p = Initialized c hidden)"
    and "fst (startConnectorRuntime init p required s) = None \<Longrightarrow>
      isRunning p (crRuntimes (snd (startConnectorRuntime init p required s))) \<and>
      getRuntimeConnector p (snd (startConnectorRuntime init p required s)) \<noteq> None"
  using assms
  by (auto simp: startConnectorRuntime_def ensureConnectorInitialized_def withEntry_def setEntry_def getRuntimeConnector_def
      isRunning_def markRunning_def Let_def newConnector_def newRuntime_def managedRuntime.defs
      split: initialized.splits option.splits if_splits)

lemma start_entry:
  assumes "crRuntimes s (normalizeProtocolName p) = crRuntimes t (normalizeProtocolName p)"
  shows "crRuntimes (snd (startConnectorRuntime init p required s)) (normalizeProtocolName p) =
    crRuntimes (snd (startConnectorRuntime init p required t)) (normalizeProtocolName p)"
  using assms
  by (auto simp: startConnectorRuntime_def ensureConnectorInitialized_def withEntry_def setEntry_def getRuntimeConnector_def
      recordConnectorRuntimeError_def isRunning_def markRunning_def Let_def split: initialized.splits option.splits if_splits)

lemma startAll_table:
  assumes "distinct ps" and "\<forall>p \<in> set ps. normalizeProtocolName p = p"
  shows "crRuntimes (startAll init ps s) q =
    (if q \<in> set ps then crRuntimes (snd (startConnectorRuntime init q False s)) q else crRuntimes s q)"
  using assms
proof (induction ps arbitrary: s)
  case Nil
  then show ?case by (simp add: startAll_def)
next
  case (Cons p ps)
  let ?t = "snd (startConnectorRuntime init p False s)"
  have p: "normalizeProtocolName p = p" using Cons.prems by simp
  have same: "q \<noteq> p \<Longrightarrow> crRuntimes ?t q = crRuntimes s q" using onlyEntry_start [of p s init False] p by (simp add: onlyEntry_def)
  have "crRuntimes (startAll init (p # ps) s) q =
      (if q \<in> set ps then crRuntimes (snd (startConnectorRuntime init q False ?t)) q else crRuntimes ?t q)"
    using Cons.IH [of ?t] Cons.prems by (simp add: startAll_def)
  then show ?case using same Cons.prems start_entry [of ?t q s init False] by (cases "q = p") auto
qed

text \<open>From the start of the robot on.\<close>

lemma onlyEntry_ok:
  assumes "onlyEntry p s t" and "runtimesOk s" and "p \<in> insert (crPrimary s) (set (crDesired s))"
  shows "runtimesOk t"
proof -
  have "dom (crRuntimes t) \<subseteq> insert (crPrimary s) (set (crDesired s))"
    using assms by (fastforce simp: runtimesOk_def onlyEntry_def dom_def)
  then show ?thesis using assms by (simp add: runtimesOk_def onlyEntry_def secondariesOk_def)
qed

definition initSecondaries :: "initializer \<Rightarrow> string list \<Rightarrow> connectorRuntimes \<Rightarrow> connectorRuntimes" where
  "initSecondaries init ps s = foldl (\<lambda>s p. case ensureConnectorInitialized init p s of
     (Some e, t) \<Rightarrow> recordConnectorRuntimeError p e t | (None, t) \<Rightarrow> t) s ps"

lemma initSecondaries_ok:
  assumes "runtimesOk s" and "set ps \<subseteq> set (crDesired s)"
  shows "runtimesOk (initSecondaries init ps s) \<and> crPrimary (initSecondaries init ps s) = crPrimary s \<and>
    crDesired (initSecondaries init ps s) = crDesired s"
  using assms
proof (induction ps arbitrary: s)
  case Nil
  then show ?case by (simp add: initSecondaries_def)
next
  case (Cons p ps)
  have p: "normalizeProtocolName p = p" "p \<in> set (crDesired s)" using Cons.prems by (auto simp: runtimesOk_def secondariesOk_def)
  obtain e t where t: "ensureConnectorInitialized init p s = (e, t)" by fastforce
  define u where "u = (case e of Some x \<Rightarrow> recordConnectorRuntimeError p x t | None \<Rightarrow> t)"
  have "onlyEntry p s t" using onlyEntry_ensure [of p s init] t p by simp
  then have only: "onlyEntry p s u"
    using onlyEntry_record [OF p(1)] by (cases e) (auto simp: u_def intro: onlyEntry_trans)
  have "initSecondaries init (p # ps) s = initSecondaries init ps u" by (simp add: initSecondaries_def t u_def)
  then show ?case using Cons.IH [of u] Cons.prems onlyEntry_ok [OF only] only p by (simp add: onlyEntry_def)
qed

lemma configured_names:
  "configuredProtocols protocol dflt secondaries = (primary, d, ps) \<Longrightarrow>
    normalizeProtocolName primary = primary \<and> (\<forall>p \<in> set ps. normalizeProtocolName p = p)"
  by (auto simp: configuredProtocols_def Let_def)

lemma initialized_ok:
  assumes cfg: "configuredProtocols protocol dflt secondaries = (primary, d, ps)"
    and start: "initializeConnectorRuntime init (primary, d, ps) s0 = (None, s)"
  shows "runtimesOk s \<and> crPrimary s = primary \<and> crDesired s = remdups (realSecondaries primary ps)"
proof -
  let ?e = "\<lparr>crPrimary = primary, crDefault = d, crBotIDs = (\<lambda>_. None), crRuntimes = (\<lambda>_. None),
    crDesired = remdups (realSecondaries primary ps)\<rparr>"
  have "primary \<noteq> []" using start by (auto simp: initializeConnectorRuntime_def split: if_splits)
  then have e: "runtimesOk ?e"
    using configured_names [OF cfg] by (auto simp: runtimesOk_def secondariesOk_def realSecondaries_set)
  obtain x t where t: "ensureConnectorInitialized init primary ?e = (x, t)" by fastforce
  then have x: "x = None" "s = initSecondaries init (realSecondaries primary ps) t"
    using start by (auto simp: initializeConnectorRuntime_def initSecondaries_def split: if_splits option.splits)
  have "onlyEntry primary ?e t" using onlyEntry_ensure [of primary ?e init] t configured_names [OF cfg] by simp
  moreover from this have "runtimesOk t" by (rule onlyEntry_ok [OF _ e]) simp
  ultimately show ?thesis using initSecondaries_ok [of t "realSecondaries primary ps" init] x by (simp add: onlyEntry_def)
qed

lemma started_ok:
  assumes cfg: "configuredProtocols protocol dflt secondaries = (primary, d, ps)"
    and init: "initializeConnectorRuntime init (primary, d, ps) s0 = (None, s1)"
    and start: "startConnectorRuntimes init (primary, d, ps) s1 = (None, s)"
  shows "runtimesOk s \<and> crPrimary s = primary \<and> isRunning primary (crRuntimes s) \<and> getPrimaryConnector s \<noteq> None"
proof -
  note ok = initialized_ok [OF cfg init]
  obtain e t where t: "startConnectorRuntime init primary True s1 = (e, t)" by fastforce
  have e: "e = None" "s = startAll init (realSecondaries primary ps) t"
    using start t by (auto simp: startConnectorRuntimes_def split: if_splits option.splits)
  have primary: "normalizeProtocolName primary = primary" "primary \<noteq> []"
    using configured_names [OF cfg] ok by (auto simp: runtimesOk_def)
  have only: "onlyEntry primary s1 t" using onlyEntry_start [of primary s1 init True] t primary by simp
  have run: "isRunning primary (crRuntimes t) \<and> getRuntimeConnector primary t \<noteq> None"
    using start_succeeds(2) [OF primary, of init True s1] t e by simp
  have "runtimesOk t" using onlyEntry_ok [OF only] ok by simp
  then have "runtimesOk s \<and> primaryKept t s"
    using startAll_kept [of t "realSecondaries primary ps" init] ok only e by (simp add: onlyEntry_def)
  then show ?thesis using run ok only primary
    by (simp add: primaryKept_def isRunning_def getRuntimeConnector_def getPrimaryConnector_def onlyEntry_def)
qed

text \<open>
  A reload of the list of secondary protocols that overlaps no other operation is exact: the wanted ones are those of the list, less
  the primary one; the entries of the others are gone; each wanted one is as a start leaves it, so it runs when it has
  a connector or its initializer returns one; and the primary one is as it was.
\<close>

theorem reload_exact:
  assumes "runtimesOk s"
    and "t = reconcileSecondaryConnectorRuntimes init secondaries s"
  shows "set (crDesired t) = normalizeProtocolName ` set secondaries - {[], crPrimary s} \<and>
    (\<forall>q. crRuntimes t q =
       (if q \<in> set (crDesired t) then crRuntimes (snd (startConnectorRuntime init q False s)) q
        else if q = crPrimary s then crRuntimes s q else None)) \<and>
    (\<forall>q \<in> set (crDesired t). (\<exists>c hidden. init q = Initialized c hidden) \<longrightarrow> isRunning q (crRuntimes t))"
proof -
  let ?D = "remdups (realSecondaries (crPrimary s) (map normalizeProtocolName secondaries))"
  let ?u = "droppedState ?D s"
  have names: "\<forall>p \<in> set ?D. p \<noteq> [] \<and> p \<noteq> crPrimary s \<and> normalizeProtocolName p = p" by (auto simp: realSecondaries_set)
  note u = dropped_table [OF assms(1), of ?D]
  have t: "t = startAll init ?D ?u" using assms by (simp add: reload_unfold Let_def)
  have desired: "crDesired t = ?D"
    using startAll_kept [of ?u ?D init] dropped_kept [OF assms(1) names] u by (simp add: t)
  have table: "crRuntimes t q = (if q \<in> set ?D then crRuntimes (snd (startConnectorRuntime init q False s)) q
      else if q = crPrimary s then crRuntimes s q else None)" for q
  proof -
    have "crRuntimes t q = (if q \<in> set ?D then crRuntimes (snd (startConnectorRuntime init q False ?u)) q else crRuntimes ?u q)"
      using startAll_table [of ?D init ?u q] names by (simp add: t)
    moreover have "q \<in> set ?D \<Longrightarrow> crRuntimes (snd (startConnectorRuntime init q False ?u)) q =
        crRuntimes (snd (startConnectorRuntime init q False s)) q"
      using start_entry [of ?u q s init False] names u by simp
    moreover have "q \<notin> set ?D \<Longrightarrow> crRuntimes ?u q = (if q = crPrimary s then crRuntimes s q else None)"
      using assms(1) u by (auto simp: runtimesOk_def secondariesOk_def dom_def)
    ultimately show ?thesis by simp
  qed
  have "isRunning q (crRuntimes t)" if "q \<in> set ?D" "init q = Initialized c hidden" for q c hidden
    using start_succeeds [of q init False s] names that table [of q] by (auto simp: isRunning_def)
  then show ?thesis using desired table by (auto simp: realSecondaries_set)
qed

text \<open>A robot whose ssh connector starts and whose slack connector does not.\<close>

definition sshOnly :: initializer where
  "sshOnly p = (if p = ''ssh'' then Initialized 1 True else if p = ''test'' then Initialized 2 False else InitError ''no token'')"

definition noRuntimes :: connectorRuntimes where
  "noRuntimes = \<lparr>crPrimary = [], crDefault = [], crBotIDs = (\<lambda>_. None), crRuntimes = (\<lambda>_. None), crDesired = []\<rparr>"

definition sshInitialized :: connectorRuntimes where
  "sshInitialized = snd (initializeConnectorRuntime sshOnly (''ssh'', ''ssh'', [''slack'']) noRuntimes)"

definition sshStarted :: connectorRuntimes where
  "sshStarted = snd (startConnectorRuntimes sshOnly (''ssh'', ''ssh'', [''slack'']) sshInitialized)"

lemma ssh_configured: "configuredProtocols ''SSH'' [] [''slack''] = (''ssh'', ''ssh'', [''slack''])"
  by code_simp

lemma ssh_started:
  "initializeConnectorRuntime sshOnly (''ssh'', ''ssh'', [''slack'']) noRuntimes = (None, sshInitialized)"
  "startConnectorRuntimes sshOnly (''ssh'', ''ssh'', [''slack'']) sshInitialized = (None, sshStarted)"
proof -
  have "fst (initializeConnectorRuntime sshOnly (''ssh'', ''ssh'', [''slack'']) noRuntimes) = None" by code_simp
  then show "initializeConnectorRuntime sshOnly (''ssh'', ''ssh'', [''slack'']) noRuntimes = (None, sshInitialized)"
    by (simp add: sshInitialized_def prod_eq_iff)
  have "fst (startConnectorRuntimes sshOnly (''ssh'', ''ssh'', [''slack'']) sshInitialized) = None" by code_simp
  then show "startConnectorRuntimes sshOnly (''ssh'', ''ssh'', [''slack'']) sshInitialized = (None, sshStarted)"
    by (simp add: sshStarted_def prod_eq_iff)
qed

theorem reload_exact_witness:
  "runtimesOk sshStarted \<and> set (crDesired (reconcileSecondaryConnectorRuntimes sshOnly ['' Test'', ''ssh''] sshStarted)) = {''test''} \<and>
   isRunning ''test'' (crRuntimes (reconcileSecondaryConnectorRuntimes sshOnly ['' Test'', ''ssh''] sshStarted)) \<and>
   crRuntimes (reconcileSecondaryConnectorRuntimes sshOnly ['' Test'', ''ssh''] sshStarted) ''slack'' = None"
proof -
  have ok: "runtimesOk sshStarted" and primary: "crPrimary sshStarted = ''ssh''"
    using started_ok [OF ssh_configured ssh_started] by simp_all
  have names: "normalizeProtocolName '' Test'' = ''test''" "normalizeProtocolName ''ssh'' = ''ssh''" by code_simp+
  have "sshOnly ''test'' = Initialized 2 False" by (simp add: sshOnly_def)
  then have test: "\<exists>c hidden. sshOnly ''test'' = Initialized c hidden" by blast
  have wanted: "normalizeProtocolName ` set ['' Test'', ''ssh''] - {[], ''ssh''} = {''test''}" by (simp add: names) blast
  note reload = reload_exact [OF ok refl, of sshOnly "['' Test'', ''ssh'']", unfolded primary wanted]
  have desired: "set (crDesired (reconcileSecondaryConnectorRuntimes sshOnly ['' Test'', ''ssh''] sshStarted)) = {''test''}"
    using reload by blast
  show ?thesis using ok reload [unfolded desired] test desired by simp
qed

end
