(* ===== verification/RuntimeStops.thy ===== *)
theory RuntimeStops
  imports Runtimes
begin

text \<open>
  The queue providers, which are kept like the connectors (bot/queue\_runtime.go), and what callers that stop the
  same runtime at the same time do to each other: the critical sections of startConnectorRuntime and
  stopConnectorRuntime (bot/connector\_runtime.go), their channel operations and the goroutine of the
  connector as the steps of a relation.
\<close>

subsection \<open>Queue providers\<close>

record queueRuntimes =
  qrInitialized :: bool
  qrRuntimes :: "string \<Rightarrow> managedRuntime option"

datatype queueRuntimeError = EmptyQueueProvider | NoProviderRegistered string | ProviderFailed string | NilProvider string

definition queueErrorText :: "queueRuntimeError \<Rightarrow> string" where
  "queueErrorText e =
     (case e of
        EmptyQueueProvider \<Rightarrow> ''invalid empty queue provider name''
      | NoProviderRegistered p \<Rightarrow> ''no queue provider registered with name '' @ [CHR 0x27] @ p @ [CHR 0x27]
      | ProviderFailed reason \<Rightarrow> reason
      | NilProvider p \<Rightarrow> ''queue provider '' @ [CHR 0x27] @ p @ [CHR 0x27] @ '' returned nil from initializer'')"

definition normalizeProviderName :: "string \<Rightarrow> string" where
  "normalizeProviderName p = toLower (trimSpace p)"

definition recordQueueProviderError :: "string \<Rightarrow> queueRuntimeError \<Rightarrow> queueRuntimes \<Rightarrow> queueRuntimes" where
  "recordQueueProviderError provider e s =
     (let p = normalizeProviderName provider; m = (case qrRuntimes s p of None \<Rightarrow> newRuntime | Some m \<Rightarrow> m) in
      if p = [] then s else s\<lparr>qrRuntimes := (qrRuntimes s)(p \<mapsto> m\<lparr>mrLastError := queueErrorText e\<rparr>)\<rparr>)"

definition startQueueProviderRuntime :: "initializer \<Rightarrow> string \<Rightarrow> queueRuntimes \<Rightarrow> queueRuntimeError option \<times> queueRuntimes" where
  "startQueueProviderRuntime init provider s =
     (let p = normalizeProviderName provider;
          m = (case qrRuntimes s p of None \<Rightarrow> newRuntime | Some m \<Rightarrow> m);
          s1 = s\<lparr>qrRuntimes := (qrRuntimes s)(p \<mapsto> m)\<rparr>;
          failed = (\<lambda>e. (Some e, recordQueueProviderError p e s1))
      in if p = [] then (Some EmptyQueueProvider, s)
         else if mrRunning m then (None, s1)
         else (case init p of
                 NotRegistered \<Rightarrow> failed (NoProviderRegistered p)
               | InitError e \<Rightarrow> failed (ProviderFailed e)
               | NilHandle \<Rightarrow> failed (NilProvider p)
               | Initialized c hidden \<Rightarrow>
                   (None, s1\<lparr>qrRuntimes := (qrRuntimes s1)(p \<mapsto>
                      m\<lparr>mrHandle := Some c, mrRunning := True, mrStopping := False, mrLastError := []\<rparr>)\<rparr>)))"

definition stopQueueProviderRuntime :: "string \<Rightarrow> queueRuntimes \<Rightarrow> queueRuntimeError option \<times> queueRuntimes" where
  "stopQueueProviderRuntime provider s =
     (let p = normalizeProviderName provider in
      if p = [] then (Some EmptyQueueProvider, s) else (None, s\<lparr>qrRuntimes := stopRuntime p (qrRuntimes s)\<rparr>))"

definition startProviders :: "initializer \<Rightarrow> string list \<Rightarrow> queueRuntimes \<Rightarrow> queueRuntimes" where
  "startProviders init ps s = foldl (\<lambda>s p. snd (startQueueProviderRuntime init p s)) s ps"

definition startQueueProviderRuntimes :: "initializer \<Rightarrow> string list \<Rightarrow> queueRuntimes \<Rightarrow> queueRuntimes" where
  "startQueueProviderRuntimes init ps s = startProviders init ps (s\<lparr>qrInitialized := True\<rparr>)"

text \<open>The providers are stopped in the order of their names; \<open>ps\<close> lists the names in the table in that order.\<close>

definition shutdownQueueProviderRuntimes :: "string list \<Rightarrow> queueRuntimes \<Rightarrow> queueRuntimes" where
  "shutdownQueueProviderRuntimes ps s =
     foldl (\<lambda>t p. snd (stopQueueProviderRuntime p t)) s (filter (\<lambda>p. isRunning p (qrRuntimes s)) ps)"

definition dropProvider :: "string \<Rightarrow> queueRuntimes \<Rightarrow> queueRuntimes" where
  "dropProvider p s = (let t = snd (stopQueueProviderRuntime p s) in t\<lparr>qrRuntimes := (qrRuntimes t)(p := None)\<rparr>)"

definition reconcileQueueProviderRuntimes :: "initializer \<Rightarrow> string list \<Rightarrow> string list \<Rightarrow> queueRuntimes \<Rightarrow> queueRuntimes" where
  "reconcileQueueProviderRuntimes init ps providers s =
     (if \<not> qrInitialized s then s
      else startProviders init (remdups (filter (\<lambda>p. p \<noteq> []) (map normalizeProviderName providers)))
             (foldl (\<lambda>t p. dropProvider p t) s ps))"

subsection \<open>Callers that stop a connector at the same time\<close>

text \<open>
  A caller of stopConnectorRuntime is outside of it, about to close the stop channel it has read, or waiting
  for the done channel. Channels are numbered by the runs they belong to. Closing a closed channel panics.
\<close>

datatype stopCaller = Outside | ClosesStop nat | AwaitsDone nat

record runChannels =
  rcRuns :: nat
  rcRunning :: bool
  rcStopping :: bool
  rcLive :: "nat list"
  rcLeaving :: "nat list"
  rcClosed :: "nat list"
  rcDone :: "nat list"
  rcCallers :: "nat \<Rightarrow> stopCaller"
  rcPanic :: bool

definition noRun :: runChannels where
  "noRun = \<lparr>rcRuns = 0, rcRunning = False, rcStopping = False, rcLive = [], rcLeaving = [], rcClosed = [], rcDone = [],
     rcCallers = (\<lambda>_. Outside), rcPanic = False\<rparr>"

text \<open>The critical section of a start, which makes the channels of a run and starts its goroutine.\<close>

definition beginRun :: "runChannels \<Rightarrow> runChannels" where
  "beginRun s = (if rcRunning s then s
     else s\<lparr>rcRuns := Suc (rcRuns s), rcRunning := True, rcStopping := False, rcLive := rcRuns s # rcLive s\<rparr>)"

text \<open>The critical section of a stop: the channels it reads are those of the last run.\<close>

definition askStop :: "nat \<Rightarrow> runChannels \<Rightarrow> runChannels" where
  "askStop c s = (if \<not> rcRunning s then s
     else s\<lparr>rcStopping := True, rcCallers := (rcCallers s)(c := ClosesStop (rcRuns s - 1))\<rparr>)"

definition closeStop :: "nat \<Rightarrow> nat \<Rightarrow> runChannels \<Rightarrow> runChannels" where
  "closeStop c i s = (if i \<in> set (rcClosed s) then s\<lparr>rcPanic := True\<rparr>
     else s\<lparr>rcClosed := i # rcClosed s, rcCallers := (rcCallers s)(c := AwaitsDone i)\<rparr>)"

text \<open>The goroutine: its critical section once Run has returned, and the closing of its done channel.\<close>

definition endRun :: "nat \<Rightarrow> runChannels \<Rightarrow> runChannels" where
  "endRun i s = s\<lparr>rcRunning := False, rcStopping := False, rcLive := remove1 i (rcLive s), rcLeaving := i # rcLeaving s\<rparr>"

definition closeDone :: "nat \<Rightarrow> runChannels \<Rightarrow> runChannels" where
  "closeDone i s = s\<lparr>rcLeaving := remove1 i (rcLeaving s), rcDone := i # rcDone s\<rparr>"

definition stopReturns :: "nat \<Rightarrow> runChannels \<Rightarrow> runChannels" where
  "stopReturns c s = s\<lparr>rcCallers := (rcCallers s)(c := Outside)\<rparr>"

text \<open>
  A reload deletes the entry of a runtime it has stopped; the next start makes a new one. The code deletes it whether or not
  it runs: here no start comes between the stop and the deletion. One that does leaves a run without an
  entry (lemma orphaned\_run in \<^theory_text>\<open>ConnectorSteps\<close>), and then a second run can begin beside it.
\<close>

definition deleteEntry :: "runChannels \<Rightarrow> runChannels" where
  "deleteEntry s = s\<lparr>rcRunning := False, rcStopping := False\<rparr>"

text \<open>With \<open>serial\<close>, a stop begins only when no other one is under way.\<close>

inductive runStep :: "bool \<Rightarrow> runChannels \<Rightarrow> runChannels \<Rightarrow> bool" for serial :: bool where
  begins: "\<not> rcPanic s \<Longrightarrow> runStep serial s (beginRun s)"
| asks: "\<not> rcPanic s \<Longrightarrow> rcCallers s c = Outside \<Longrightarrow> serial \<longrightarrow> (\<forall>d. rcCallers s d = Outside) \<Longrightarrow> runStep serial s (askStop c s)"
| closes: "\<not> rcPanic s \<Longrightarrow> rcCallers s c = ClosesStop i \<Longrightarrow> runStep serial s (closeStop c i s)"
| ends: "\<not> rcPanic s \<Longrightarrow> i \<in> set (rcLive s) \<Longrightarrow> runStep serial s (endRun i s)"
| done_closes: "\<not> rcPanic s \<Longrightarrow> i \<in> set (rcLeaving s) \<Longrightarrow> runStep serial s (closeDone i s)"
| returns: "\<not> rcPanic s \<Longrightarrow> rcCallers s c = AwaitsDone i \<Longrightarrow> i \<in> set (rcDone s) \<Longrightarrow> runStep serial s (stopReturns c s)"
| deletes: "\<not> rcPanic s \<Longrightarrow> \<not> rcRunning s \<Longrightarrow> runStep serial s (deleteEntry s)"

inductive_cases runStepE: "runStep serial s t"

inductive runReach :: "bool \<Rightarrow> runChannels \<Rightarrow> bool" for serial :: bool where
  no_run: "runReach serial noRun"
| run_step: "runReach serial s \<Longrightarrow> runStep serial s t \<Longrightarrow> runReach serial t"

text \<open>
  Runs and channels: a run is live exactly while the table says so, at most one is, and what is live, leaving or done
  are runs that have begun.
\<close>

definition runsOk :: "runChannels \<Rightarrow> bool" where
  "runsOk s \<longleftrightarrow> rcLive s = (if rcRunning s then [rcRuns s - 1] else []) \<and> (rcRunning s \<longrightarrow> 0 < rcRuns s) \<and>
     (\<forall>i \<in> set (rcLeaving s) \<union> set (rcDone s). i < rcRuns s) \<and>
     (rcRunning s \<longrightarrow> rcRuns s - 1 \<notin> set (rcLeaving s) \<union> set (rcDone s))"

lemma begin_runsOk: "runsOk s \<Longrightarrow> runsOk (beginRun s)"
  by (auto simp: runsOk_def beginRun_def less_Suc_eq)

lemma end_runsOk: "runsOk s \<Longrightarrow> i \<in> set (rcLive s) \<Longrightarrow> runsOk (endRun i s)"
  by (auto simp: runsOk_def endRun_def split: if_splits)

lemma done_runsOk: "runsOk s \<Longrightarrow> i \<in> set (rcLeaving s) \<Longrightarrow> runsOk (closeDone i s)"
  using set_remove1_subset [of i "rcLeaving s"] by (auto simp: runsOk_def closeDone_def)

lemma delete_runsOk: "runsOk s \<Longrightarrow> \<not> rcRunning s \<Longrightarrow> runsOk (deleteEntry s)"
  by (simp add: runsOk_def deleteEntry_def)

lemma call_runsOk: "runsOk s \<Longrightarrow> runsOk (askStop c s)" "runsOk s \<Longrightarrow> runsOk (closeStop c i s)"
  "runsOk s \<Longrightarrow> runsOk (stopReturns c s)"
  by (simp_all add: runsOk_def askStop_def closeStop_def stopReturns_def)

lemma runStep_runsOk: "runStep serial s t \<Longrightarrow> runsOk s \<Longrightarrow> runsOk t"
  by (erule runStepE) (simp_all add: begin_runsOk end_runsOk done_runsOk delete_runsOk call_runsOk)

text \<open>With one stop at a time, a stop channel that is closed belongs to a run that is done, or that a caller awaits.\<close>

definition stopsOk :: "runChannels \<Rightarrow> bool" where
  "stopsOk s \<longleftrightarrow> \<not> rcPanic s \<and>
     (\<forall>c d. rcCallers s c \<noteq> Outside \<and> rcCallers s d \<noteq> Outside \<longrightarrow> c = d) \<and>
     (\<forall>c i. rcCallers s c = ClosesStop i \<longrightarrow> i < rcRuns s \<and> i \<notin> set (rcClosed s)) \<and>
     (\<forall>i \<in> set (rcClosed s). i < rcRuns s \<and> (i \<in> set (rcDone s) \<or> (\<exists>c. rcCallers s c = AwaitsDone i)))"

lemma runStep_stopsOk:
  assumes "runStep True s t" and "runsOk s" and "stopsOk s"
  shows "stopsOk t"
  using assms(1)
proof (cases rule: runStep.cases)
  case begins
  then show ?thesis using assms(3) unfolding stopsOk_def beginRun_def by (simp add: less_SucI)
next
  case (asks c)
  show ?thesis
  proof (cases "rcRunning s")
    case True
    have "rcRuns s - 1 \<notin> set (rcClosed s)"
      using assms(2,3) True asks by (auto simp: stopsOk_def runsOk_def)
    then show ?thesis using assms(2,3) True asks by (simp add: stopsOk_def askStop_def runsOk_def)
  qed (use asks assms(3) in \<open>simp add: askStop_def\<close>)
next
  case (closes c i)
  have others: "rcCallers s d = Outside" if "d \<noteq> c" for d
  proof -
    have "rcCallers s c \<noteq> Outside" using closes by simp
    then show ?thesis using assms(3) that unfolding stopsOk_def by blast
  qed
  then have "rcCallers s d \<noteq> AwaitsDone j" for d j using closes by (cases "d = c") simp_all
  then show ?thesis using assms(3) closes others by (simp add: stopsOk_def closeStop_def)
next
  case (ends i)
  then show ?thesis using assms(3) by (simp add: stopsOk_def endRun_def)
next
  case (done_closes i)
  then show ?thesis using assms(3) by (auto simp: stopsOk_def closeDone_def)
next
  case (returns c i)
  then show ?thesis using assms(3) by (auto simp: stopsOk_def stopReturns_def) (metis stopCaller.inject(2))
next
  case deletes
  then show ?thesis using assms(3) by (simp add: stopsOk_def deleteEntry_def)
qed

lemma runReach_ok: "runReach serial s \<Longrightarrow> runsOk s"
proof (induction rule: runReach.induct)
  case no_run
  show ?case by (simp add: runsOk_def noRun_def)
qed (rule runStep_runsOk)

lemma runReach_stops: "runReach True s \<Longrightarrow> stopsOk s"
proof (induction rule: runReach.induct)
  case no_run
  then show ?case by (simp add: stopsOk_def noRun_def)
next
  case (run_step s t)
  then show ?case using runStep_stopsOk runReach_ok by blast
qed

text \<open>
  C40. However starts, stops and ends of runs and deletions of the entry of a stopped one interleave, at most one run of a
  connector is live, exactly when the table says it is running. When no two stops of it overlap, no stop channel is
  ever closed twice, and a caller that waits for the end of a run waits for one whose stop channel is closed.
\<close>

theorem one_live_run:
  assumes "runReach serial s"
  shows "length (rcLive s) \<le> 1 \<and> (rcLive s \<noteq> [] \<longleftrightarrow> rcRunning s) \<and>
    (serial \<longrightarrow> \<not> rcPanic s \<and> (\<forall>c i. rcCallers s c = ClosesStop i \<longrightarrow> i \<notin> set (rcClosed s)))"
proof -
  have "length (rcLive s) \<le> 1 \<and> (rcLive s \<noteq> [] \<longleftrightarrow> rcRunning s)"
    using runReach_ok [OF assms] by (simp add: runsOk_def)
  moreover have "stopsOk s" if "serial" using runReach_stops assms that by simp
  ultimately show ?thesis by (simp add: stopsOk_def)
qed

text \<open>
  Without that, two callers that stop a connector at once both read its stop channel while the table still says that
  it is running, and the second to close it panics.
\<close>

lemma overlapping_stops:
  "runReach False (closeStop 1 0 (closeStop 0 0 (askStop 1 (askStop 0 (beginRun noRun)))))"
  "rcPanic (closeStop 1 0 (closeStop 0 0 (askStop 1 (askStop 0 (beginRun noRun)))))"
proof -
  have "runReach False (beginRun noRun)"
    by (rule run_step [OF no_run], rule begins) (simp add: noRun_def)
  then have "runReach False (askStop 0 (beginRun noRun))"
    by (rule run_step, intro asks) (simp_all add: noRun_def beginRun_def)
  then have "runReach False (askStop 1 (askStop 0 (beginRun noRun)))"
    by (rule run_step, intro asks) (simp_all add: noRun_def beginRun_def askStop_def)
  then have "runReach False (closeStop 0 0 (askStop 1 (askStop 0 (beginRun noRun))))"
    by (rule run_step, intro closes) (simp_all add: noRun_def beginRun_def askStop_def)
  then show "runReach False (closeStop 1 0 (closeStop 0 0 (askStop 1 (askStop 0 (beginRun noRun)))))"
    by (rule run_step, intro closes) (simp_all add: noRun_def beginRun_def askStop_def closeStop_def)
  show "rcPanic (closeStop 1 0 (closeStop 0 0 (askStop 1 (askStop 0 (beginRun noRun)))))"
    by (simp add: noRun_def beginRun_def askStop_def closeStop_def)
qed

theorem one_live_run_witness:
  "length (rcLive (askStop 1 (beginRun noRun))) \<le> 1 \<and> \<not> rcPanic (askStop 1 (beginRun noRun))"
proof -
  have "runReach True (beginRun noRun)"
    by (rule run_step [OF no_run], rule begins) (simp add: noRun_def)
  then have "runReach True (askStop 1 (beginRun noRun))"
    by (rule run_step, intro asks) (simp_all add: noRun_def beginRun_def)
  from one_live_run [OF this] show ?thesis by simp
qed

text \<open>A reload of the queue providers: only the wanted ones are left.\<close>

lemma stop_provider_other:
  "q \<noteq> normalizeProviderName p \<Longrightarrow> qrRuntimes (snd (stopQueueProviderRuntime p s)) q = qrRuntimes s q"
  by (simp add: stopQueueProviderRuntime_def Let_def table_other)

lemma start_provider_other:
  "q \<noteq> normalizeProviderName p \<Longrightarrow> qrRuntimes (snd (startQueueProviderRuntime init p s)) q = qrRuntimes s q"
  by (auto simp: startQueueProviderRuntime_def recordQueueProviderError_def normalizeProviderName_def lower_trim_twice Let_def
      split: initialized.split)

lemma provider_twice [simp]: "normalizeProviderName (normalizeProviderName p) = normalizeProviderName p"
  by (simp add: normalizeProviderName_def lower_trim_twice)

lemma drop_providers:
  assumes "\<forall>p \<in> set ps. normalizeProviderName p = p"
  shows "qrRuntimes (foldl (\<lambda>t p. dropProvider p t) s ps) q = (if q \<in> set ps then None else qrRuntimes s q)"
  using assms by (induction ps arbitrary: s) (auto simp: dropProvider_def Let_def stop_provider_other)

lemma start_providers_other:
  assumes "q \<notin> normalizeProviderName ` set ps"
  shows "qrRuntimes (startProviders init ps s) q = qrRuntimes s q"
  using assms by (induction ps arbitrary: s) (auto simp: startProviders_def start_provider_other)

lemma queue_reload_exact:
  assumes "qrInitialized s" and "\<forall>p \<in> set ps. normalizeProviderName p = p" and "dom (qrRuntimes s) = set ps"
    and "q \<notin> normalizeProviderName ` set providers - {[]}"
  shows "qrRuntimes (reconcileQueueProviderRuntimes init ps providers s) q = None"
proof -
  let ?D = "remdups (filter (\<lambda>p. p \<noteq> []) (map normalizeProviderName providers))"
  have "normalizeProviderName ` set ?D = normalizeProviderName ` set providers - {[]}" by (auto simp: image_iff) force
  then have "qrRuntimes (reconcileQueueProviderRuntimes init ps providers s) q = qrRuntimes (foldl (\<lambda>t p. dropProvider p t) s ps) q"
    using start_providers_other [of q ?D init] assms(1,4) by (simp add: reconcileQueueProviderRuntimes_def)
  then show ?thesis using drop_providers [OF assms(2), of s q] assms(3) by (auto simp: dom_def)
qed

end
