(* ===== verification/ConnectorSteps.thy ===== *)
theory ConnectorSteps
  imports Runtimes
begin

text \<open>
  The connector operations as the code runs them (bot/connector\_runtime.go): starting, stopping and restarting a
  secondary protocol and reloading the list of them are sequences of critical sections of one lock, between
  which other callers take theirs. Each section is a value of a datatype, which names the step the caller takes
  next with what it remembers so far; a section acts on the table and says which sections follow. Callers,
  connectors that leave their main loop and their goroutines take steps in any order.
\<close>

subsection \<open>Sections\<close>

text \<open>
  A flag of the sections of a stop says that it belongs to a restart, which goes on to start the protocol.
  Runs are numbered, and a stop remembers the run whose channels it read.
\<close>

datatype connectorSection =
    StartChecksPrimary string
  | StartChecksDesired string
  | EnsuresEntry string
  | Initializes string
  | StoresConnector string nat bool
  | RecordsError string connectorError
  | BeginsRun string
  | StopChecksPrimary string bool
  | StopChecksDesired string bool
  | MarksStopping string bool
  | ClosesStopChannel nat "string option"
  | AwaitsExit nat "string option"
  | ReadsPrimary "string list"
  | ReadsDesired "string list"
  | DeletesEntry string
  | SetsDesired "string list"

text \<open>
  The process: the table, the run whose channels each entry holds, the runs whose goroutine is in the main loop of its
  connector or on its way out of it, the closed stop and done channels, and the sections each caller has before it.
\<close>

record connectorProcess =
  cpTable :: connectorRuntimes
  cpChannels :: "string \<Rightarrow> nat option"
  cpRuns :: nat
  cpLive :: "(nat \<times> string) list"
  cpLeaving :: "nat list"
  cpClosed :: "nat list"
  cpDone :: "nat list"
  cpCallers :: "nat \<Rightarrow> connectorSection list"
  cpPanic :: bool

text \<open>The order in which Go ranges over the keys of a map is open: \<open>order\<close> goes first.\<close>

definition rangeKeys :: "string list \<Rightarrow> string list \<Rightarrow> string list" where
  "rangeKeys order ks = remdups (filter (\<lambda>k. k \<in> set ks) order @ ks)"

lemma rangeKeys_set [simp]: "set (rangeKeys order ks) = set ks"
  by (auto simp: rangeKeys_def)

definition thenStart :: "string option \<Rightarrow> connectorSection list" where
  "thenStart again = (case again of None \<Rightarrow> [] | Some p \<Rightarrow> [StartChecksPrimary p])"

text \<open>
  One section: what an initializer returns (\<open>i\<close>) and the order of keys are chosen by the step. A caller that gets an error
  returns it, so nothing follows.
\<close>

definition connectorStep ::
    "initialized \<Rightarrow> string list \<Rightarrow> connectorSection \<Rightarrow> connectorProcess \<Rightarrow> connectorSection list \<times> connectorProcess" where
  "connectorStep i order sec s =
     (let t = cpTable s in
      case sec of
        StartChecksPrimary protocol \<Rightarrow>
          (let p = normalizeProtocolName protocol in
           (if p = [] \<or> p = crPrimary t then [] else [StartChecksDesired p], s))
      | StartChecksDesired p \<Rightarrow> (if p \<in> set (crDesired t) then [EnsuresEntry p] else [], s)
      | EnsuresEntry p \<Rightarrow>
          (let u = withEntry p t in
           (if getRuntimeConnector p u \<noteq> None then [BeginsRun p] else [Initializes p], s\<lparr>cpTable := u\<rparr>))
      | Initializes p \<Rightarrow>
          (case i of
             NotRegistered \<Rightarrow> ([RecordsError p (NoConnectorRegistered p)], s)
           | InitError e \<Rightarrow> ([RecordsError p (InitFailed e)], s)
           | NilHandle \<Rightarrow> ([RecordsError p (NilConnector p)], s)
           | Initialized c hidden \<Rightarrow> ([StoresConnector p c hidden], s))
      | StoresConnector p c hidden \<Rightarrow>
          ([BeginsRun p], s\<lparr>cpTable :=
             setEntry p (\<lambda>m. m\<lparr>mrHandle := Some c, mrLastError := [], mcHiddenCommands := hidden\<rparr>) (withEntry p t)\<rparr>)
      | RecordsError p e \<Rightarrow> ([], s\<lparr>cpTable := recordConnectorRuntimeError p e t\<rparr>)
      | BeginsRun p \<Rightarrow>
          ([], if getRuntimeConnector p t = None \<or> isRunning p (crRuntimes t) then s
               else s\<lparr>cpTable := t\<lparr>crRuntimes := markRunning p (crRuntimes t)\<rparr>, cpChannels := (cpChannels s)(p \<mapsto> cpRuns s),
                      cpRuns := Suc (cpRuns s), cpLive := (cpRuns s, p) # cpLive s\<rparr>)
      | StopChecksPrimary protocol again \<Rightarrow>
          (let p = normalizeProtocolName protocol in
           (if p = [] \<or> p = crPrimary t then [] else [StopChecksDesired p again], s))
      | StopChecksDesired p again \<Rightarrow> (if p \<in> set (crDesired t) then [MarksStopping p again] else [], s)
      | MarksStopping p again \<Rightarrow>
          (let after = (if again then Some p else None) in
           if \<not> isRunning p (crRuntimes t) then (thenStart after, s)
           else (case cpChannels s p of
                   None \<Rightarrow> ([], s\<lparr>cpPanic := True\<rparr>)
                 | Some n \<Rightarrow> ([ClosesStopChannel n after], s\<lparr>cpTable := t\<lparr>crRuntimes := markStopping p (crRuntimes t)\<rparr>\<rparr>)))
      | ClosesStopChannel n after \<Rightarrow>
          (if n \<in> set (cpClosed s) then ([], s\<lparr>cpPanic := True\<rparr>)
           else ([AwaitsExit n after], s\<lparr>cpClosed := n # cpClosed s\<rparr>))
      | AwaitsExit n after \<Rightarrow> (thenStart after, s)
      | ReadsPrimary names \<Rightarrow>
          (if crPrimary t = [] then []
           else [ReadsDesired (remdups (realSecondaries (crPrimary t) (map normalizeProtocolName names)))], s)
      | ReadsDesired desired \<Rightarrow>
          (concat (map (\<lambda>p. [MarksStopping p False, DeletesEntry p])
             (filter (\<lambda>p. p \<notin> set desired) (rangeKeys order (crDesired t)))) @ [SetsDesired desired], s)
      | DeletesEntry p \<Rightarrow> ([], s\<lparr>cpTable := t\<lparr>crRuntimes := (crRuntimes t)(p := None)\<rparr>\<rparr>)
      | SetsDesired desired \<Rightarrow> (map EnsuresEntry (rangeKeys order desired), s\<lparr>cpTable := t\<lparr>crDesired := desired\<rparr>\<rparr>))"

text \<open>The receive from a done channel waits; every other section can be taken at once.\<close>

definition canRun :: "connectorProcess \<Rightarrow> connectorSection \<Rightarrow> bool" where
  "canRun s sec = (case sec of AwaitsExit n after \<Rightarrow> n \<in> set (cpDone s) | _ \<Rightarrow> True)"

datatype connectorCall = CallStart string | CallStop string | CallRestart string | CallReload "string list"

definition callSections :: "connectorCall \<Rightarrow> connectorSection list" where
  "callSections call =
     (case call of
        CallStart p \<Rightarrow> [StartChecksPrimary p]
      | CallStop p \<Rightarrow> [StopChecksPrimary p False]
      | CallRestart p \<Rightarrow> [StopChecksPrimary p True]
      | CallReload names \<Rightarrow> [ReadsPrimary names])"

text \<open>
  What happens next: a caller begins an operation, a caller takes its next section, a connector's main loop returns, on
  its own or because its stop channel is closed, and its goroutine closes the done channel.
\<close>

datatype connectorEvent =
  Calls nat connectorCall | Takes nat initialized "string list" | Exits nat string bool string | ClosesDone nat

fun connectorNext :: "connectorEvent \<Rightarrow> connectorProcess \<Rightarrow> connectorProcess option" where
  "connectorNext (Calls c call) s =
     (if cpPanic s \<or> cpCallers s c \<noteq> [] then None
      else Some (s\<lparr>cpCallers := (cpCallers s)(c := callSections call)\<rparr>))"
| "connectorNext (Takes c i order) s =
     (case cpCallers s c of
        [] \<Rightarrow> None
      | sec # later \<Rightarrow>
          if cpPanic s \<or> \<not> canRun s sec then None
          else (let (now, t) = connectorStep i order sec s in Some (t\<lparr>cpCallers := (cpCallers t)(c := now @ later)\<rparr>)))"
| "connectorNext (Exits n p down err) s =
     (if cpPanic s \<or> (n, p) \<notin> set (cpLive s) then None
      else Some (s\<lparr>cpTable := (cpTable s)\<lparr>crRuntimes := runtimeExited p down err (crRuntimes (cpTable s))\<rparr>,
                   cpLive := remove1 (n, p) (cpLive s), cpLeaving := n # cpLeaving s\<rparr>))"
| "connectorNext (ClosesDone n) s =
     (if cpPanic s \<or> n \<notin> set (cpLeaving s) then None
      else Some (s\<lparr>cpLeaving := remove1 n (cpLeaving s), cpDone := n # cpDone s\<rparr>))"

fun connectorRun :: "connectorEvent list \<Rightarrow> connectorProcess \<Rightarrow> connectorProcess option" where
  "connectorRun [] s = Some s"
| "connectorRun (e # es) s = (case connectorNext e s of None \<Rightarrow> None | Some t \<Rightarrow> connectorRun es t)"

text \<open>
  The robot once its primary connector is started: run 0 is the primary one's, and the start of the robot, caller 0,
  still has the secondary protocols to start.
\<close>

definition primaryUp :: "string \<Rightarrow> string list \<Rightarrow> connectorRuntimes \<Rightarrow> connectorProcess" where
  "primaryUp primary secondaries t =
     \<lparr>cpTable = t, cpChannels = [primary \<mapsto> 0], cpRuns = 1, cpLive = [(0, primary)], cpLeaving = [], cpClosed = [], cpDone = [],
      cpCallers = (\<lambda>_. [])(0 := map EnsuresEntry (realSecondaries primary secondaries)), cpPanic = False\<rparr>"


subsection \<open>Alone\<close>

text \<open>A caller whose sections nobody interrupts starts a protocol as the definition for callers on their own says.\<close>

lemma start_alone:
  assumes "cpCallers s c = []" and "\<not> cpPanic s"
  shows "\<exists>n t. connectorRun (Calls c (CallStart p) # replicate n (Takes c (init (normalizeProtocolName p)) order)) s = Some t \<and>
    cpCallers t c = [] \<and> cpTable t = snd (startSecondaryConnectorRuntime init p (cpTable s))"
    (is "\<exists>n. ?alone n")
proof -
  let ?p = "normalizeProtocolName p" and ?t = "cpTable s"
  note defs = connectorStep_def callSections_def canRun_def Let_def startSecondaryConnectorRuntime_def startConnectorRuntime_def
    ensureConnectorInitialized_def eval_nat_numeral
  consider "?p = [] \<or> ?p = crPrimary ?t" | "?p \<noteq> []" "?p \<noteq> crPrimary ?t" "?p \<notin> set (crDesired ?t)"
    | "?p \<noteq> []" "?p \<noteq> crPrimary ?t" "?p \<in> set (crDesired ?t)" "getRuntimeConnector ?p (withEntry ?p ?t) \<noteq> None"
    | c hidden where "?p \<noteq> []" "?p \<noteq> crPrimary ?t" "?p \<in> set (crDesired ?t)" "getRuntimeConnector ?p (withEntry ?p ?t) = None"
        "init ?p = Initialized c hidden"
    | "?p \<noteq> []" "?p \<noteq> crPrimary ?t" "?p \<in> set (crDesired ?t)" "getRuntimeConnector ?p (withEntry ?p ?t) = None"
        "\<forall>c hidden. init ?p \<noteq> Initialized c hidden"
    by (cases "init ?p") auto
  then show ?thesis
  proof cases
    case 1
    then have "?alone 1" using assms by (auto simp: defs)
    then show ?thesis ..
  next
    case 2
    then have "?alone 2" using assms by (simp add: defs)
    then show ?thesis ..
  next
    case 3
    then have "?alone 4" using assms by (auto simp: defs)
    then show ?thesis ..
  next
    case (4 d hidden)
    then have "?alone 6" using assms
      by (auto simp: defs withEntry_def setEntry_def getRuntimeConnector_def split: option.split)
    then show ?thesis ..
  next
    case 5
    then have "?alone 5" using assms by (cases "init ?p") (auto simp: defs)
    then show ?thesis ..
  qed
qed

subsection \<open>The primary protocol under every interleaving\<close>

text \<open>A section may only name a secondary protocol, by its normalized name, once it is past the check against the primary one.\<close>

definition otherProtocol :: "string \<Rightarrow> string \<Rightarrow> bool" where
  "otherProtocol primary p \<longleftrightarrow> p \<noteq> primary \<and> normalizeProtocolName p = p"

definition sectionOk :: "string \<Rightarrow> connectorSection \<Rightarrow> bool" where
  "sectionOk primary sec =
     (case sec of
        StartChecksPrimary p \<Rightarrow> True | StopChecksPrimary p again \<Rightarrow> True | ReadsPrimary names \<Rightarrow> True
      | StartChecksDesired p \<Rightarrow> otherProtocol primary p | EnsuresEntry p \<Rightarrow> otherProtocol primary p
      | Initializes p \<Rightarrow> otherProtocol primary p | StoresConnector p c hidden \<Rightarrow> otherProtocol primary p
      | RecordsError p e \<Rightarrow> otherProtocol primary p | BeginsRun p \<Rightarrow> otherProtocol primary p
      | StopChecksDesired p again \<Rightarrow> otherProtocol primary p | MarksStopping p again \<Rightarrow> otherProtocol primary p
      | ClosesStopChannel n after \<Rightarrow> n \<noteq> 0 | AwaitsExit n after \<Rightarrow> True
      | ReadsDesired desired \<Rightarrow> list_all (otherProtocol primary) desired
      | DeletesEntry p \<Rightarrow> otherProtocol primary p
      | SetsDesired desired \<Rightarrow> list_all (otherProtocol primary) desired)"

definition tableSafe :: "string \<Rightarrow> nat \<Rightarrow> connectorRuntimes \<Rightarrow> bool" where
  "tableSafe primary c t \<longleftrightarrow> crPrimary t = primary \<and> list_all (otherProtocol primary) (crDesired t) \<and>
     (case crRuntimes t primary of None \<Rightarrow> False | Some m \<Rightarrow> mrRunning m \<and> mrHandle m = Some c)"

definition processSafe :: "string \<Rightarrow> nat \<Rightarrow> connectorProcess \<Rightarrow> bool" where
  "processSafe primary c s \<longleftrightarrow> tableSafe primary c (cpTable s) \<and> (0, primary) \<in> set (cpLive s) \<and> 0 \<notin> set (cpClosed s) \<and>
     0 < cpRuns s \<and> (\<forall>p. p \<noteq> primary \<longrightarrow> cpChannels s p \<noteq> Some 0) \<and> (\<forall>k. list_all (sectionOk primary) (cpCallers s k))"

lemma tableSafe_only: "onlyEntry p t u \<Longrightarrow> p \<noteq> primary \<Longrightarrow> tableSafe primary c t \<Longrightarrow> tableSafe primary c u"
  by (simp add: tableSafe_def onlyEntry_def)

lemma tableSafe_entry:
  "p \<noteq> primary \<Longrightarrow> tableSafe primary c (t\<lparr>crRuntimes := (crRuntimes t)(p := x)\<rparr>) = tableSafe primary c t"
  "p \<noteq> primary \<Longrightarrow> tableSafe primary c (t\<lparr>crRuntimes := markRunning p (crRuntimes t)\<rparr>) = tableSafe primary c t"
  "p \<noteq> primary \<Longrightarrow> tableSafe primary c (t\<lparr>crRuntimes := markStopping p (crRuntimes t)\<rparr>) = tableSafe primary c t"
  "p \<noteq> primary \<Longrightarrow> tableSafe primary c (t\<lparr>crRuntimes := runtimeExited p down err (crRuntimes t)\<rparr>) = tableSafe primary c t"
  by (simp_all add: tableSafe_def table_other)

lemma thenStart_ok: "list_all (sectionOk primary) (thenStart after)"
  by (simp add: thenStart_def sectionOk_def split: option.split)

lemma connectorStep_callers [simp]: "cpCallers (snd (connectorStep i order sec s)) = cpCallers s"
  by (simp add: connectorStep_def Let_def split: connectorSection.split initialized.split option.split)

lemma desired_ok:
  "list_all (otherProtocol primary) (remdups (realSecondaries primary (map normalizeProtocolName names)))"
  by (auto simp: list_all_iff otherProtocol_def realSecondaries_set)

lemma safe_primary: "processSafe primary c s \<Longrightarrow> crPrimary (cpTable s) = primary"
  by (simp add: processSafe_def tableSafe_def)

text \<open>A section that is allowed leaves the primary protocol alone, and only allowed sections follow it.\<close>

lemma connectorStep_safe:
  assumes "processSafe primary c s" and "sectionOk primary sec"
  shows "processSafe primary c (snd (connectorStep i order sec s)) \<and>
    list_all (sectionOk primary) (fst (connectorStep i order sec s))"
proof (cases sec)
  case (EnsuresEntry p)
  then show ?thesis using assms tableSafe_only [OF onlyEntry_basic(2)]
    by (simp add: connectorStep_def Let_def processSafe_def sectionOk_def otherProtocol_def)
next
  case (StoresConnector p d hidden)
  then show ?thesis using assms tableSafe_only [OF onlyEntry_trans [OF onlyEntry_basic(2) onlyEntry_basic(3)]]
    by (simp add: connectorStep_def Let_def processSafe_def sectionOk_def otherProtocol_def)
next
  case (RecordsError p e)
  then show ?thesis using assms tableSafe_only [OF onlyEntry_record]
    by (simp add: connectorStep_def Let_def processSafe_def sectionOk_def otherProtocol_def)
next
  case (ReadsPrimary names)
  then show ?thesis using assms desired_ok
    by (simp add: connectorStep_def Let_def processSafe_def sectionOk_def tableSafe_def)
next
  case (ReadsDesired desired)
  then show ?thesis using assms
    by (auto simp: connectorStep_def Let_def processSafe_def sectionOk_def tableSafe_def list_all_iff)
next
  case (SetsDesired desired)
  then show ?thesis using assms
    by (auto simp: connectorStep_def Let_def processSafe_def sectionOk_def tableSafe_def list_all_iff)
qed (use assms safe_primary [OF assms(1)] in \<open>auto simp: connectorStep_def Let_def processSafe_def sectionOk_def otherProtocol_def tableSafe_entry
       thenStart_ok split: initialized.split option.split dest: spec\<close>)

definition exitOf :: "connectorEvent \<Rightarrow> string option" where
  "exitOf e = (case e of Exits n p down err \<Rightarrow> Some p | _ \<Rightarrow> None)"

lemma connectorNext_safe:
  assumes "connectorNext e s = Some t" and "exitOf e \<noteq> Some primary" and "processSafe primary c s"
  shows "processSafe primary c t"
proof (cases e)
  case (Calls k call)
  then show ?thesis using assms
    by (auto simp: processSafe_def callSections_def sectionOk_def split: if_splits connectorCall.split)
next
  case (Takes k i order)
  then obtain sec later where queue: "cpCallers s k = sec # later"
    and t: "t = (snd (connectorStep i order sec s))\<lparr>cpCallers := (cpCallers s)(k := fst (connectorStep i order sec s) @ later)\<rparr>"
    using assms(1) connectorStep_callers [of i order sec s for sec]
    by (auto simp: case_prod_unfold Let_def split: list.splits if_splits)
  have "list_all (sectionOk primary) (sec # later)" using assms(3) queue by (metis processSafe_def)
  then show ?thesis using connectorStep_safe [OF assms(3), of sec i order] assms(3) t by (simp add: processSafe_def)
next
  case (Exits n p down err)
  then show ?thesis using assms by (auto simp: processSafe_def exitOf_def tableSafe_entry split: if_splits)
next
  case (ClosesDone n)
  then show ?thesis using assms by (auto simp: processSafe_def split: if_splits)
qed

lemma connectorRun_safe:
  assumes "connectorRun es s = Some t" and "\<forall>e \<in> set es. exitOf e \<noteq> Some primary" and "processSafe primary c s"
  shows "processSafe primary c t"
  using assms
proof (induction es arbitrary: s)
  case (Cons e es)
  then obtain u where "connectorNext e s = Some u" "connectorRun es u = Some t" by (auto split: option.splits)
  then show ?case using Cons.IH [of u] Cons.prems(2,3) connectorNext_safe [of e s u primary c] by simp
qed simp

text \<open>The robot starts its primary connector before the others.\<close>

lemma primaryUp_safe:
  assumes cfg: "configuredProtocols protocol defaultProtocol secondaries = (primary, d, ps)"
    and init: "initializeConnectorRuntime init (primary, d, ps) t0 = (None, t1)"
    and up: "startConnectorRuntime init primary True t1 = (None, t)"
  shows "\<exists>c. getPrimaryConnector t = Some c \<and> processSafe primary c (primaryUp primary ps t)"
proof -
  note ok = initialized_ok [OF cfg init]
  have primary: "normalizeProtocolName primary = primary" "primary \<noteq> []"
    using configured_names [OF cfg] ok by (auto simp: runtimesOk_def)
  have only: "onlyEntry primary t1 t" using onlyEntry_start [of primary t1 init True] up primary by simp
  have run: "isRunning primary (crRuntimes t) \<and> getRuntimeConnector primary t \<noteq> None"
    using start_succeeds(2) [OF primary, of init True t1] up by simp
  then obtain m c where m: "crRuntimes t primary = Some m" "mrRunning m" "mrHandle m = Some c"
    by (auto simp: isRunning_def getRuntimeConnector_def primary split: option.splits)
  moreover have "crPrimary t = primary" "crDesired t = remdups (realSecondaries primary ps)"
    using only ok by (simp_all add: onlyEntry_def)
  moreover have "list_all (otherProtocol primary) (remdups (realSecondaries primary ps))"
    using configured_names [OF cfg] by (auto simp: list_all_iff otherProtocol_def realSecondaries_set)
  ultimately have "processSafe primary c (primaryUp primary ps t)"
    by (auto simp: processSafe_def tableSafe_def primaryUp_def list_all_iff sectionOk_def)
  then show ?thesis using m \<open>crPrimary t = primary\<close> by (auto simp: getPrimaryConnector_def)
qed

text \<open>
  C34. Once the robot has started its primary connector, administrators' starts, stops and restarts of protocols and
  reloads of the list of secondary ones do not take it away, however their critical sections interleave with each other,
  with the start of the secondary protocols, with initializers of any outcome and with connectors of other protocols
  that leave their main loop: its entry says that it is running and holds the connector its initializer returned, its
  run is in its main loop and nobody has closed its stop channel, and every message is routed to some
  connector. The end of the robot (quit and restart), the primary connector leaving its main loop by itself and the panic of two
  overlapping stops of another protocol, after which the process takes no further step, are not part of it.
\<close>

theorem primary_keeps_running:
  assumes "configuredProtocols protocol defaultProtocol secondaries = (primary, d, ps)"
    and "initializeConnectorRuntime init (primary, d, ps) t0 = (None, t1)"
    and "startConnectorRuntime init primary True t1 = (None, t)"
    and "connectorRun es (primaryUp primary ps t) = Some s"
    and "\<forall>e \<in> set es. exitOf e \<noteq> Some primary"
  shows "isRunning primary (crRuntimes (cpTable s)) \<and> getPrimaryConnector (cpTable s) = getPrimaryConnector t \<and>
    (0, primary) \<in> set (cpLive s) \<and> 0 \<notin> set (cpClosed s) \<and>
    (\<exists>c. \<forall>send. routeMessage inc (cpTable s) send = send c)"
proof -
  obtain c where c: "getPrimaryConnector t = Some c" "processSafe primary c (primaryUp primary ps t)"
    using primaryUp_safe [OF assms(1-3)] by blast
  have safe: "processSafe primary c s" using connectorRun_safe [OF assms(4,5) c(2)] .
  then have primary: "isRunning primary (crRuntimes (cpTable s))" "getPrimaryConnector (cpTable s) = Some c"
    by (auto simp: processSafe_def tableSafe_def isRunning_def getPrimaryConnector_def split: option.splits)
  then have "\<exists>c. getConnectorForProtocol p (cpTable s) = Some c" for p
    by (auto simp: getConnectorForProtocol_def split: option.split)
  then have "\<exists>c. \<forall>send. routeMessage inc (cpTable s) send = send c" by (metis routeMessage_def option.case(2))
  then show ?thesis using primary c(1) safe by (simp add: processSafe_def)
qed

subsection \<open>What interleaving does to the secondary ones\<close>

text \<open>A robot on ssh whose slack connector did not start with it.\<close>

definition sshUp :: connectorRuntimes where
  "sshUp = snd (startConnectorRuntime sshOnly ''ssh'' True sshInitialized)"

definition slackFailed :: "connectorEvent list" where
  "slackFailed = replicate 3 (Takes 0 (InitError ''no token'') [])"

text \<open>
  An administrator starts slack; between the check that it is wanted and the start a reload drops it. It is started
  all the same: it runs, is not wanted, and neither a stop, which is refused, nor another reload ends it.
\<close>

definition reloadBetween :: "connectorEvent list" where
  "reloadBetween = slackFailed @ [Calls 1 (CallStart ''slack''), Takes 1 NilHandle [], Takes 1 NilHandle []] @
     Calls 2 (CallReload []) # replicate 5 (Takes 2 NilHandle []) @ replicate 4 (Takes 1 (Initialized 5 False) [])"

definition stopAndReload :: "connectorEvent list" where
  "stopAndReload = Calls 3 (CallStop ''slack'') # replicate 2 (Takes 3 NilHandle []) @
     Calls 2 (CallReload []) # replicate 3 (Takes 2 NilHandle [])"

lemma unwanted_run:
  "case connectorRun (reloadBetween @ stopAndReload) (primaryUp ''ssh'' [''slack''] sshUp) of
     None \<Rightarrow> False
   | Some s \<Rightarrow> isRunning ''slack'' (crRuntimes (cpTable s)) \<and> crDesired (cpTable s) = [] \<and>
       map snd (cpLive s) = [''slack'', ''ssh''] \<and> list_all (\<lambda>c. cpCallers s c = []) [0, 1, 2, 3]"
  by code_simp

text \<open>
  When the start falls between the stop of the reload and the deletion of the entry, the run is left with no entry at all, so that
  not even the end of the robot stops it.
\<close>

definition startBeforeDelete :: "connectorEvent list" where
  "startBeforeDelete = slackFailed @ [Calls 1 (CallStart ''slack''), Takes 1 NilHandle [], Takes 1 NilHandle []] @
     Calls 2 (CallReload []) # replicate 3 (Takes 2 NilHandle []) @ replicate 4 (Takes 1 (Initialized 5 False) []) @
     replicate 2 (Takes 2 NilHandle [])"

lemma orphaned_run:
  "case connectorRun startBeforeDelete (primaryUp ''ssh'' [''slack''] sshUp) of
     None \<Rightarrow> False
   | Some s \<Rightarrow> crRuntimes (cpTable s) ''slack'' = None \<and> map snd (cpLive s) = [''slack'', ''ssh''] \<and>
       list_all (\<lambda>c. cpCallers s c = []) [0, 1, 2]"
  by code_simp

theorem primary_keeps_running_witness:
  "\<exists>s. connectorRun reloadBetween (primaryUp ''ssh'' [''slack''] sshUp) = Some s \<and>
     isRunning ''ssh'' (crRuntimes (cpTable s)) \<and> 0 \<notin> set (cpClosed s)"
proof -
  have "fst (startConnectorRuntime sshOnly ''ssh'' True sshInitialized) = None" by code_simp
  then have up: "startConnectorRuntime sshOnly ''ssh'' True sshInitialized = (None, sshUp)"
    by (simp add: sshUp_def prod_eq_iff)
  have "connectorRun reloadBetween (primaryUp ''ssh'' [''slack''] sshUp) \<noteq> None" by code_simp
  then obtain s where s: "connectorRun reloadBetween (primaryUp ''ssh'' [''slack''] sshUp) = Some s" by blast
  have "\<forall>e \<in> set reloadBetween. exitOf e \<noteq> Some ''ssh''" by (simp add: reloadBetween_def slackFailed_def exitOf_def)
  from primary_keeps_running [OF ssh_configured ssh_started(1) up s this] s show ?thesis by blast
qed

end
