(* ===== verification/HelpDistance.thy ===== *)
theory HelpDistance
  imports Prelude
begin

text \<open>
  The bounded edit distance by which the help finds commands that are spelled almost right
  (boundedLevenshtein in bot/builtins.go): two rows of a table as arrays that are swapped, of which only a
  band around the diagonal is computed, and which is given up once a row is beyond the bound. The
  reference is the edit distance by its usual recursion, and that is the least number of single-character
  insertions, deletions and replacements.
\<close>

subsection \<open>The routine\<close>

definition levCell :: "string \<Rightarrow> string \<Rightarrow> nat list \<Rightarrow> nat list \<Rightarrow> nat \<Rightarrow> nat \<Rightarrow> nat" where
  "levCell left right previous current i j =
     min (current ! (j - 1) + 1)
       (min (previous ! j + 1) (previous ! (j - 1) + (if left ! (i - 1) \<noteq> right ! (j - 1) then 1 else 0)))"

text \<open>The cells of a row within the band from left to right, with the least value so far.\<close>

definition levBand :: "string \<Rightarrow> string \<Rightarrow> nat list \<Rightarrow> nat \<Rightarrow> nat list \<Rightarrow> nat list \<times> nat \<Rightarrow> nat list \<times> nat" where
  "levBand left right previous i js row =
     foldl (\<lambda>(current, rowMin) j.
       let cell = levCell left right previous current i j in (current[j := cell], min rowMin cell)) row js"

definition levRow :: "string \<Rightarrow> string \<Rightarrow> nat \<Rightarrow> nat \<Rightarrow> nat list \<Rightarrow> nat list \<Rightarrow> nat list \<times> nat" where
  "levRow left right maxDistance i previous current =
     (let start = max 1 (i - maxDistance); stop = min (length right) (i + maxDistance);
          current = foldl (\<lambda>c j. c[j := maxDistance + 1]) (current[0 := i]) [1..<start];
          (current, rowMin) = levBand left right previous i [start..<Suc stop] (current, i)
      in (foldl (\<lambda>c j. c[j := maxDistance + 1]) current [Suc stop..<Suc (length right)], rowMin))"

fun levRows :: "string \<Rightarrow> string \<Rightarrow> nat \<Rightarrow> nat list \<Rightarrow> nat list \<Rightarrow> nat list \<Rightarrow> nat list option" where
  "levRows left right maxDistance [] previous current = Some previous"
| "levRows left right maxDistance (i # is) previous current =
     (let (row, rowMin) = levRow left right maxDistance i previous current in
      if rowMin > maxDistance then None else levRows left right maxDistance is row previous)"

definition boundedLevenshtein :: "string \<Rightarrow> string \<Rightarrow> int \<Rightarrow> nat \<times> bool" where
  "boundedLevenshtein left right maxDistance =
     (if left = right then (0, True)
      else if maxDistance < 0 then (0, False)
      else if \<bar>int (length left) - int (length right)\<bar> > maxDistance then (0, False)
      else if left = [] then (if int (length right) \<le> maxDistance then (length right, True) else (0, False))
      else if right = [] then (if int (length left) \<le> maxDistance then (length left, True) else (0, False))
      else (case levRows left right (nat maxDistance) [1..<Suc (length left)]
                   [0..<Suc (length right)] (replicate (Suc (length right)) 0) of
              None \<Rightarrow> (0, False)
            | Some row \<Rightarrow> if row ! length right > nat maxDistance then (0, False) else (row ! length right, True)))"

subsection \<open>The edit distance\<close>

fun lev :: "'a list \<Rightarrow> 'a list \<Rightarrow> nat" where
  "lev [] ys = length ys"
| "lev (x # xs) [] = Suc (length xs)"
| "lev (x # xs) (y # ys) = min (lev (x # xs) ys + 1) (min (lev xs (y # ys) + 1) (lev xs ys + (if x \<noteq> y then 1 else 0)))"

lemma lev_Nil [simp]: "lev xs [] = length xs"
  by (cases xs) simp_all

text \<open>One edit, and the distance as the least number of edits.\<close>

inductive edit1 :: "'a list \<Rightarrow> 'a list \<Rightarrow> bool" where
  inserts: "edit1 (xs @ ys) (xs @ z # ys)"
| deletes: "edit1 (xs @ z # ys) (xs @ ys)"
| replaces: "edit1 (xs @ y # ys) (xs @ z # ys)"

lemma edit1_Cons: "edit1 xs ys \<Longrightarrow> edit1 (x # xs) (x # ys)"
proof (induction rule: edit1.induct)
  case (inserts xs ys z)
  show ?case using edit1.inserts [of "x # xs" ys z] by simp
next
  case (deletes xs z ys)
  show ?case using edit1.deletes [of "x # xs" z ys] by simp
next
  case (replaces xs y ys z)
  show ?case using edit1.replaces [of "x # xs" y ys z] by simp
qed

lemma edits_Cons: "(edit1 ^^ n) xs ys \<Longrightarrow> (edit1 ^^ n) (x # xs) (x # ys)"
  by (induction n arbitrary: ys) (auto intro: edit1_Cons)

lemma edits_drop: "(edit1 ^^ length xs) xs []"
proof (induction xs)
  case (Cons x xs)
  have "edit1 (x # xs) xs" using edit1.deletes [of "[]" x xs] by simp
  then show ?case using relpowp_Suc_I2 [OF _ Cons] by simp
qed simp

lemma edits_add: "(edit1 ^^ length ys) [] ys"
proof (induction ys)
  case (Cons y ys)
  have "edit1 ys (y # ys)" using edit1.inserts [of "[]" ys y] by simp
  then show ?case using Cons by auto
qed simp

lemma lev_edits: "(edit1 ^^ lev xs ys) xs ys"
proof (induction xs ys rule: lev.induct)
  case (1 ys)
  show ?case by (simp add: edits_add)
next
  case (2 x xs)
  show ?case using edits_drop [of "x # xs"] by simp
next
  case (3 x xs y ys)
  have ins: "(edit1 ^^ Suc (lev (x # xs) ys)) (x # xs) (y # ys)"
    using 3(1) edit1.inserts [of "[]" ys y] by (auto intro: relpowp_Suc_I)
  have del: "(edit1 ^^ Suc (lev xs (y # ys))) (x # xs) (y # ys)"
    using relpowp_Suc_I2 [OF _ 3(2)] edit1.deletes [of "[]" x xs] by simp
  have rep: "(edit1 ^^ (lev xs ys + (if x \<noteq> y then 1 else 0))) (x # xs) (y # ys)"
  proof (cases "x = y")
    case False
    have "edit1 (x # xs) (y # xs)" using edit1.replaces [of "[]" x xs y] by simp
    then show ?thesis using relpowp_Suc_I2 [OF _ edits_Cons [OF 3(3), of y]] False by simp
  qed (use edits_Cons [OF 3(3)] in simp)
  show ?case using ins del rep by (simp add: min_def)
qed

text \<open>An edit changes the distance by at most one.\<close>

lemma lev_sym: "lev xs ys = lev ys xs"
  by (induction xs ys rule: lev.induct) (auto simp: min.left_commute)

lemma lev_up: "lev (x # xs) ys \<le> lev xs ys + 1" "lev xs (y # ys) \<le> lev xs ys + 1"
  by (cases ys; simp) (cases xs; simp)

lemma lev_down: "lev xs ys \<le> lev (x # xs) ys + 1"
proof (induction ys arbitrary: xs x)
  case (Cons y ys)
  show ?case using Cons [of xs x] lev_up(2) [of xs y ys] by (simp split: if_split)
qed simp

lemma lev_replace: "lev (y # xs) us \<le> lev (z # xs) us + 1"
proof (induction us)
  case (Cons u us)
  then show ?case by (auto simp: min_def)
qed simp

lemma lev_cong_Cons:
  assumes "\<And>us. lev xs us \<le> lev ys us + 1" shows "lev (x # xs) us \<le> lev (x # ys) us + 1"
proof (induction us)
  case Nil
  show ?case using assms [of "[]"] by simp
next
  case (Cons u us)
  then show ?case using assms [of "u # us"] assms [of us] by (simp split: if_split)
qed

lemma lev_cong_append:
  assumes "\<And>us. lev xs us \<le> lev ys us + 1" shows "lev (zs @ xs) us \<le> lev (zs @ ys) us + 1"
  using assms by (induction zs arbitrary: us) (auto intro: lev_cong_Cons [simplified])

lemma lev_edit1: "edit1 xs ys \<Longrightarrow> lev xs us \<le> lev ys us + 1"
proof (induction arbitrary: us rule: edit1.induct)
  case (inserts xs ys z)
  show ?case by (rule lev_cong_append, rule lev_down)
next
  case (deletes xs z ys)
  show ?case by (rule lev_cong_append, rule lev_up)
next
  case (replaces xs y ys z)
  show ?case by (rule lev_cong_append, rule lev_replace)
qed

lemma lev_refl [simp]: "lev xs xs = 0"
  by (induction xs) simp_all

lemma lev_least: "(edit1 ^^ n) xs ys \<Longrightarrow> lev xs ys \<le> n"
proof -
  assume "(edit1 ^^ n) xs ys"
  then have "lev xs us \<le> lev ys us + n" for us
  proof (induction n arbitrary: ys)
    case (Suc n)
    then obtain zs where "(edit1 ^^ n) xs zs" "edit1 zs ys" by auto
    then show ?case using Suc.IH lev_edit1 [of zs ys us] by fastforce
  qed simp
  from this [of ys] show ?thesis by simp
qed

text \<open>Edits are as many from the ends, so the distance may be computed over prefixes.\<close>

lemma edit1_rev: "edit1 xs ys \<Longrightarrow> edit1 (rev xs) (rev ys)"
proof (induction rule: edit1.induct)
  case (inserts xs ys z)
  show ?case using edit1.inserts [of "rev ys" "rev xs" z] by simp
next
  case (deletes xs z ys)
  show ?case using edit1.deletes [of "rev ys" z "rev xs"] by simp
next
  case (replaces xs y ys z)
  show ?case using edit1.replaces [of "rev ys" y "rev xs" z] by simp
qed

lemma edits_rev: "(edit1 ^^ n) xs ys \<Longrightarrow> (edit1 ^^ n) (rev xs) (rev ys)"
  by (induction n arbitrary: ys) (auto intro: edit1_rev)

lemma lev_rev: "lev (rev xs) (rev ys) = lev xs ys"
proof (rule antisym)
  show "lev (rev xs) (rev ys) \<le> lev xs ys" by (rule lev_least, rule edits_rev, rule lev_edits)
  show "lev xs ys \<le> lev (rev xs) (rev ys)"
    using lev_least [OF edits_rev [OF lev_edits [of "rev xs" "rev ys"]]] by simp
qed

subsection \<open>The rows of the table\<close>

text \<open>The entry of the full table for the first \<open>i\<close> and \<open>j\<close> characters.\<close>

definition levAt :: "'a list \<Rightarrow> 'a list \<Rightarrow> nat \<Rightarrow> nat \<Rightarrow> nat" where
  "levAt left right i j = lev (rev (take i left)) (rev (take j right))"

lemma levAt_edge:
  "i \<le> length left \<Longrightarrow> levAt left right i 0 = i" "j \<le> length right \<Longrightarrow> levAt left right 0 j = j"
  by (simp_all add: levAt_def)

lemma levAt_Suc:
  assumes "i < length left" and "j < length right"
  shows "levAt left right (Suc i) (Suc j) = min (levAt left right (Suc i) j + 1)
    (min (levAt left right i (Suc j) + 1) (levAt left right i j + (if left ! i \<noteq> right ! j then 1 else 0)))"
  using assms by (simp add: levAt_def take_Suc_conv_app_nth)

lemma levAt_end: "levAt left right (length left) (length right) = lev left right"
  by (simp add: levAt_def lev_rev)

lemma lev_length: "length xs \<le> lev xs ys + length ys"
  by (induction xs ys rule: lev.induct) auto

lemma levAt_far:
  assumes "i \<le> length left" and "j \<le> length right"
  shows "i \<le> levAt left right i j + j" and "j \<le> levAt left right i j + i"
  using lev_length [of "rev (take i left)" "rev (take j right)"] lev_length [of "rev (take j right)" "rev (take i left)"]
    lev_sym [of "rev (take i left)"] assms by (simp_all add: levAt_def)

text \<open>Values that are the same up to the bound, beyond which all are alike.\<close>

definition upTo :: "nat \<Rightarrow> nat \<Rightarrow> nat \<Rightarrow> bool" where
  "upTo k a b \<longleftrightarrow> a = b \<or> (k < a \<and> k < b)"

lemma upTo_refl [simp]: "upTo k a a" by (simp add: upTo_def)

lemma upTo_iff: "upTo k a b \<Longrightarrow> k < a \<longleftrightarrow> k < b" by (auto simp: upTo_def)

lemma upTo_min: "upTo k a b \<Longrightarrow> upTo k a' b' \<Longrightarrow> upTo k (min a a') (min b b')"
  by (auto simp: upTo_def min_def)

lemma upTo_add: "upTo k a b \<Longrightarrow> upTo k (a + c) (b + c)" by (auto simp: upTo_def)

definition rowOk :: "string \<Rightarrow> string \<Rightarrow> nat \<Rightarrow> nat \<Rightarrow> nat list \<Rightarrow> bool" where
  "rowOk left right k i row \<longleftrightarrow> length row = Suc (length right) \<and> (\<forall>j \<le> length right. upTo k (row ! j) (levAt left right i j))"

lemma levCell_ok:
  assumes "rowOk left right k i previous" and "i < length left" and "j < length right"
    and "upTo k (current ! j) (levAt left right (Suc i) j)"
  shows "upTo k (levCell left right previous current (Suc i) (Suc j)) (levAt left right (Suc i) (Suc j))"
  using assms unfolding levAt_Suc [OF assms(2,3)] levCell_def diff_Suc_1
  by (intro upTo_min upTo_add) (simp_all add: rowOk_def)

text \<open>The band of a row, cell by cell.\<close>

lemma levBand_ok:
  assumes prev: "rowOk left right k i previous" and i: "i < length left" and a: "0 < a" "a \<le> b" "b \<le> Suc (length right)"
    and cur: "length current = Suc (length right)" "upTo k (current ! (a - 1)) (levAt left right (Suc i) (a - 1))"
    and run: "levBand left right previous (Suc i) [a..<b] (current, m) = (row, rowMin)"
  shows "length row = Suc (length right) \<and> (\<forall>j. j < a \<or> b \<le> j \<longrightarrow> row ! j = current ! j) \<and>
    (\<forall>j. a \<le> j \<and> j < b \<longrightarrow> upTo k (row ! j) (levAt left right (Suc i) j)) \<and>
    (k < rowMin \<longleftrightarrow> k < m \<and> (\<forall>j. a \<le> j \<and> j < b \<longrightarrow> k < levAt left right (Suc i) j))"
  using a(2,3) run
proof (induction b arbitrary: row rowMin rule: dec_induct)
  case base
  then show ?case using cur by (auto simp: levBand_def)
next
  case (step b)
  obtain c n where c: "levBand left right previous (Suc i) [a..<b] (current, m) = (c, n)" by fastforce
  note IH = step.IH [OF _ c]
  let ?v = "levCell left right previous c (Suc i) b"
  have run: "row = c[b := ?v]" "rowMin = min n ?v"
    using step.prems(2) step.hyps c by (simp_all add: levBand_def Let_def)
  have "upTo k (c ! (b - 1)) (levAt left right (Suc i) (b - 1))"
    using IH step.prems(1) step.hyps cur(2) a(1) by (cases "a = b") auto
  then have v: "upTo k ?v (levAt left right (Suc i) b)"
    using levCell_ok [OF prev i, of "b - 1" c] a(1) step.hyps step.prems(1) by simp
  then have "k < ?v \<longleftrightarrow> k < levAt left right (Suc i) b" by (rule upTo_iff)
  moreover have "b < length c" using IH step.prems(1) by simp
  then have "row ! j = (if j = b then ?v else c ! j)" for j by (auto simp: run(1))
  ultimately show ?case using IH step.prems(1) step.hyps v run
    by (auto simp: less_Suc_eq split: if_splits)
qed

lemma fill_nth:
  "length (foldl (\<lambda>c j. c[j := v]) row js) = length row"
  "x < length row \<Longrightarrow> foldl (\<lambda>c j. c[j := v]) row js ! x = (if x \<in> set js then v else row ! x)"
  by (induction js arbitrary: row) (auto simp: nth_list_update)

lemma levRow_ok:
  assumes prev: "rowOk left right k i previous" and i: "i < length left" and cur: "length current = Suc (length right)"
    and run: "levRow left right k (Suc i) previous current = (row, rowMin)"
  shows "rowOk left right k (Suc i) row \<and> (k < rowMin \<longleftrightarrow> (\<forall>j \<le> length right. k < levAt left right (Suc i) j))"
proof -
  define start where "start = max 1 (Suc i - k)"
  define stop where "stop = min (length right) (Suc i + k)"
  define c where "c = foldl (\<lambda>c j. c[j := k + 1]) (current[0 := Suc i]) [1..<start]"
  obtain d m where d: "levBand left right previous (Suc i) [start..<Suc stop] (c, Suc i) = (d, m)" by fastforce
  have row: "row = foldl (\<lambda>c j. c[j := k + 1]) d [Suc stop..<Suc (length right)]" and m: "rowMin = m"
    using run d by (simp_all add: levRow_def Let_def start_def stop_def c_def)
  have len: "length c = Suc (length right)" using cur by (simp add: c_def fill_nth)
  have cell: "x \<le> length right \<Longrightarrow> c ! x = (if 1 \<le> x \<and> x < start then k + 1 else current[0 := Suc i] ! x)" for x
    using cur by (auto simp: c_def fill_nth)
  have low: "k < levAt left right (Suc i) j" if "j < Suc i - k" "j \<le> length right" for j
    using levAt_far(1) [of "Suc i" left j right] i that by simp
  have high: "k < levAt left right (Suc i) j" if "Suc i + k < j" "j \<le> length right" for j
    using levAt_far(2) [of "Suc i" left j right] i that by simp
  have zero: "c ! 0 = Suc i" "levAt left right (Suc i) 0 = Suc i" using cell [of 0] cur i by (simp_all add: levAt_edge)
  have left: "upTo k (c ! j) (levAt left right (Suc i) j)" if "j < start" "j \<le> length right" for j
  proof (cases "j = 0")
    case False
    then have "c ! j = k + 1" using cell [of j] that by simp
    then show ?thesis using low [of j] that False by (simp add: start_def upTo_def)
  qed (use zero in simp)
  show ?thesis
  proof (cases "start \<le> Suc stop")
    case True
    have "start - 1 \<le> length right" using True by (auto simp: stop_def)
    moreover have "0 < start" by (simp add: start_def)
    ultimately have edge: "upTo k (c ! (start - 1)) (levAt left right (Suc i) (start - 1))" using left [of "start - 1"] by simp
    note band = levBand_ok [OF prev i \<open>0 < start\<close> True _ len edge d]
    have stop: "Suc stop \<le> Suc (length right)" by (simp add: stop_def)
    have "upTo k (row ! j) (levAt left right (Suc i) j)" if "j \<le> length right" for j
    proof -
      consider "j < start" "j \<le> stop" | "start \<le> j" "j \<le> stop" | "stop < j" by linarith
      then show ?thesis
      proof cases
        case 1
        then show ?thesis using left [of j] that band [OF stop] by (simp add: row fill_nth del: upt_Suc)
      next
        case 2
        then show ?thesis using that band [OF stop] by (simp add: row fill_nth del: upt_Suc)
      next
        case 3
        then have "Suc i + k < j" "j \<in> set [Suc stop..<Suc (length right)]" using that by (auto simp: stop_def simp del: upt_Suc)
        then show ?thesis using high [of j] that band [OF stop] by (simp add: row fill_nth upTo_def del: upt_Suc)
      qed
    qed
    moreover have "k < rowMin \<longleftrightarrow> (\<forall>j \<le> length right. k < levAt left right (Suc i) j)"
    proof
      assume "k < rowMin"
      then have inner: "k < Suc i" "\<And>j. start \<le> j \<Longrightarrow> j \<le> stop \<Longrightarrow> k < levAt left right (Suc i) j"
        using band [OF stop] m by auto
      show "\<forall>j \<le> length right. k < levAt left right (Suc i) j"
      proof (intro allI impI)
        fix j assume j: "j \<le> length right"
        show "k < levAt left right (Suc i) j"
          using inner(2) [of j] inner(1) zero low [of j] high [of j] j
          by (cases "j = 0") (force simp: start_def stop_def max_def min_def split: if_splits)+
      qed
    next
      assume "\<forall>j \<le> length right. k < levAt left right (Suc i) j"
      then show "k < rowMin" using band [OF stop] m zero(2) stop by (auto simp: stop_def)
    qed
    ultimately show ?thesis using band [OF stop] by (simp add: rowOk_def row fill_nth del: upt_Suc)
  next
    case False
    then have "length right < start" "[start..<Suc stop] = []" "Suc i - k = start" by (auto simp: start_def stop_def min_def max_def split: if_splits)
    then have dm: "d = c" "rowMin = Suc i" using d m by (simp_all add: levBand_def)
    have far: "k < levAt left right (Suc i) j" if "j \<le> length right" for j
      using low [of j] that \<open>length right < start\<close> \<open>Suc i - k = start\<close> by simp
    have "upTo k (row ! j) (levAt left right (Suc i) j)" if "j \<le> length right" for j
      using left [of j] far [OF that] that \<open>length right < start\<close> len by (auto simp: row dm fill_nth upTo_def simp del: upt_Suc)
    then show ?thesis using far far [of 0] zero(2) dm len by (auto simp: rowOk_def row fill_nth simp del: upt_Suc)
  qed
qed

lemma levAt_rows:
  assumes "i \<le> i'" and "i' \<le> length left" and "\<forall>j \<le> length right. k < levAt left right i j" and "j \<le> length right"
  shows "k < levAt left right i' j"
  using assms(1,2,4)
proof (induction i' arbitrary: j rule: dec_induct)
  case base
  then show ?case using assms(3) by simp
next
  case (step i')
  have row: "k < levAt left right (Suc i') x" if "x \<le> length right" for x
    using that
  proof (induction x)
    case 0
    then show ?case using step.IH [of 0] step.prems by (simp add: levAt_edge)
  next
    case (Suc x)
    then show ?case using step.IH [of x] step.IH [of "Suc x"] step.prems levAt_Suc [of i' left x right] by simp
  qed
  show ?case using row step.prems by simp
qed

lemma levRows_ok:
  assumes "rowOk left right k i previous" and "i + d = length left" and "length current = Suc (length right)"
  shows "(case levRows left right k [Suc i..<Suc (i + d)] previous current of
      None \<Rightarrow> k < lev left right
    | Some row \<Rightarrow> upTo k (row ! length right) (lev left right))"
  using assms
proof (induction d arbitrary: i previous current)
  case 0
  then show ?case using levAt_end [of left right] by (auto simp: rowOk_def)
next
  case (Suc d)
  obtain row m where run: "levRow left right k (Suc i) previous current = (row, m)" by fastforce
  have i: "i < length left" using Suc.prems(2) by simp
  note row = levRow_ok [OF Suc.prems(1) i Suc.prems(3) run]
  have rows: "[Suc i..<Suc (i + Suc d)] = Suc i # [Suc (Suc i)..<Suc (Suc i + d)]" by (simp add: upt_conv_Cons)
  show ?case
  proof (cases "k < m")
    case True
    then have "k < levAt left right (length left) (length right)"
      using levAt_rows [of "Suc i" "length left" left right k "length right"] row i by simp
    then show ?thesis using True run unfolding rows by (simp add: levAt_end del: upt_Suc)
  next
    case False
    have "length previous = Suc (length right)" using Suc.prems(1) by (simp add: rowOk_def)
    then have "case levRows left right k [Suc (Suc i)..<Suc (Suc i + d)] row previous of
        None \<Rightarrow> k < lev left right | Some row \<Rightarrow> upTo k (row ! length right) (lev left right)"
      using Suc.IH [of "Suc i" row previous] Suc.prems(2) row by (simp del: upt_Suc)
    then show ?thesis using False run unfolding rows by (simp del: upt_Suc)
  qed
qed

lemma boundedLevenshtein_lev:
  assumes "0 \<le> maxDistance"
  shows "boundedLevenshtein left right maxDistance =
    (if int (lev left right) \<le> maxDistance then (lev left right, True) else (0, False))"
proof -
  let ?k = "nat maxDistance"
  have far: "maxDistance < \<bar>int (length left) - int (length right)\<bar> \<Longrightarrow> maxDistance < int (lev left right)"
    using lev_length [of left right] lev_length [of right left] lev_sym [of left right] by linarith
  have first: "rowOk left right ?k 0 [0..<Suc (length right)]"
    by (auto simp: rowOk_def levAt_edge simp del: upt_Suc)
  have rows: "case levRows left right ?k [1..<Suc (length left)] [0..<Suc (length right)] (replicate (Suc (length right)) 0) of
      None \<Rightarrow> ?k < lev left right | Some row \<Rightarrow> upTo ?k (row ! length right) (lev left right)"
    using levRows_ok [OF first, of "length left" "replicate (Suc (length right)) 0"] by simp
  show ?thesis
  proof (cases "left = right \<or> maxDistance < \<bar>int (length left) - int (length right)\<bar> \<or> left = [] \<or> right = []")
    case True
    then show ?thesis using far assms by (auto simp: boundedLevenshtein_def)
  next
    case False
    then show ?thesis using rows assms unfolding boundedLevenshtein_def
      by (simp split: option.splits del: upt_Suc replicate_Suc) (auto simp: upTo_def nat_less_iff)
  qed
qed

text \<open>
  C26. The bounded routine is exact: for every bound that is not negative it returns the edit distance,
  which is the least number of insertions, deletions and replacements of one character, when that is
  within the bound, and reports that it is not otherwise.
\<close>

theorem boundedLevenshtein_exact:
  assumes "0 \<le> maxDistance"
  shows "boundedLevenshtein left right maxDistance =
      (if int (lev left right) \<le> maxDistance then (lev left right, True) else (0, False)) \<and>
    (edit1 ^^ lev left right) left right \<and> (\<forall>n < lev left right. \<not> (edit1 ^^ n) left right)"
  using boundedLevenshtein_lev [OF assms] lev_edits lev_least [of _ left right] not_le by blast

theorem boundedLevenshtein_exact_witness:
  "boundedLevenshtein ''remimd'' ''remind'' 1 = (1, True)"
proof -
  have "lev ''remimd'' ''remind'' = 1" by code_simp
  then show ?thesis using boundedLevenshtein_exact [of 1 "''remimd''" "''remind''"] by simp
qed

end
