(* ===== verification/HelpSearch.thy ===== *)
theory HelpSearch
  imports HelpDistance MatcherInput "HOL-Library.Product_Lexorder"
begin

text \<open>
  How the help and the fallback find commands (bot/builtins.go, the part of bot/help\_metadata\_api.go
  that judges matches, and the literal sequences of bot/simple\_matcher.go): scoring a command against
  a search term, ranking, and how close a mistyped command is to the literal words of a matcher.
\<close>

subsection \<open>Words and phrases\<close>

definition replaceByte :: "char \<Rightarrow> string \<Rightarrow> string \<Rightarrow> string" where
  "replaceByte old new s = concat (map (\<lambda>c. if c = old then new else [c]) s)"

text \<open>The words of \<^verbatim>\<open>[A-Za-z0-9_-]+\<close>, and the distinct ones among them in order.\<close>

definition isHelpTokenByte :: "char \<Rightarrow> bool" where
  "isHelpTokenByte c \<longleftrightarrow> isLetterByte c \<or> isDigitByte c \<or> c = CHR ''_'' \<or> c = CHR ''-''"

definition helpTokens :: "string \<Rightarrow> string list" where
  "helpTokens s = fieldsBy (\<lambda>c. \<not> isHelpTokenByte c) s"

definition firsts :: "'a list \<Rightarrow> 'a list" where
  "firsts xs = rev (remdups (rev xs))"

definition normalizeHelpPhrase :: "string \<Rightarrow> string" where
  "normalizeHelpPhrase input = joinWith '' '' (goFields (replaceByte CHR ''-'' '' '' (toLower (trimSpace input))))"

definition appendUniqueStrings :: "string list \<Rightarrow> string list \<Rightarrow> string list" where
  "appendUniqueStrings dst src =
     foldl (\<lambda>out line. let t = trimSpace line in if t = [] \<or> t \<in> set out then out else out @ [t]) dst src"

definition singularizeHelpToken :: "string \<Rightarrow> string" where
  "singularizeHelpToken token =
     (if hasSuffix token ''ies'' \<and> length token > 3 then trimSuffix token ''ies'' @ ''y''
      else if hasSuffix token ''es'' \<and> length token > 3 then trimSuffix token ''es''
      else if hasSuffix token ''s'' \<and> length token > 2 then trimSuffix token ''s''
      else token)"

definition helpTokenEquivalent :: "string \<Rightarrow> string \<Rightarrow> bool" where
  "helpTokenEquivalent a b \<longleftrightarrow> a = b \<or> singularizeHelpToken a = singularizeHelpToken b"

definition fuzzyHelpTokenMatch :: "string \<Rightarrow> string \<Rightarrow> int \<Rightarrow> bool" where
  "fuzzyHelpTokenMatch term0 candidate0 maxDistance =
     (let t = trimSpace (toLower term0); c = trimSpace (toLower candidate0) in
      \<not> (t = [] \<or> c = [] \<or> helpTokenEquivalent t c) \<and>
      \<not> (containsStr t '' '' \<or> containsStr c '' '') \<and>
      \<not> (length t < 4 \<or> length c < 4) \<and>
      \<not> \<bar>int (length t) - int (length c)\<bar> > maxDistance \<and>
      snd (boundedLevenshtein t c maxDistance))"

subsection \<open>What the help knows of a command\<close>

record helpCommandMetadata =
  hePluginName :: string
  heCommand :: string
  heSimpleMatcher :: string
  heSimpleMatchers :: "string list"
  heUsage :: string
  heSummary :: string
  heDetails :: string
  heExamples :: "string list"
  hePrivateExamples :: "string list"
  heKeywords :: "string list"
  heScope :: string
  heChannels :: "string list"
  heAllChannels :: bool
  hePrivateOK :: bool
  hePrivateRequired :: bool
  hePrivateSupported :: bool
  hePrivateHint :: string
  hePluginSummary :: string

definition collectHelpSearchTokens :: "'a helpCommandMetadata_scheme \<Rightarrow> string list" where
  "collectHelpSearchTokens entry =
     firsts (helpTokens (normalizeHelpPhrase (joinWith '' ''
       [hePluginName entry, heCommand entry, joinWith '' '' (heKeywords entry), heUsage entry, heSummary entry,
        joinWith '' '' (heExamples entry)])))"

definition fallbackStopWords :: "string list" where
  "fallbackStopWords =
     [''a'', ''an'', ''and'', ''are'', ''be'', ''do'', ''for'', ''get'', ''help'',
      ''i'', ''in'', ''is'', ''it'', ''me'', ''my'', ''of'', ''on'', ''please'',
      ''say'', ''tell'', ''the'', ''to'', ''what'', ''whats'', ''with'', ''you'', ''your'']"

definition fallbackMeaningfulTokens :: "string \<Rightarrow> string list" where
  "fallbackMeaningfulTokens input =
     firsts (filter (\<lambda>token. \<not> length token < 3 \<and> token \<notin> set fallbackStopWords) (helpTokens (normalizeHelpPhrase input)))"

subsection \<open>Scores\<close>

text \<open>The score is raised to a value when a condition holds and it is lower.\<close>

definition raiseTo :: "bool \<Rightarrow> nat \<Rightarrow> nat \<Rightarrow> nat" where
  "raiseTo b v score = (if b \<and> score < v then v else score)"

text \<open>A word of the term is hit when it or its singular is one of the words of the command.\<close>

definition tokenHit :: "string list \<Rightarrow> string \<Rightarrow> bool" where
  "tokenHit searchTokens token \<longleftrightarrow>
     (let tokenSet = set searchTokens \<union> set (map singularizeHelpToken searchTokens)
      in token \<in> tokenSet \<or> singularizeHelpToken token \<in> tokenSet)"

definition keywordScore :: "string \<Rightarrow> string \<Rightarrow> nat \<Rightarrow> nat" where
  "keywordScore termPhrase keyword score =
     (let keyPhrase = normalizeHelpPhrase keyword in
      if keyPhrase = [] then score
      else if helpTokenEquivalent termPhrase keyPhrase \<and> score < 92 then 92
      else raiseTo (containsStr keyPhrase termPhrase) 72 score)"

text \<open>The direct comparisons, in their order: equal words, parts, and words that are spelled almost alike.\<close>

definition phraseScore :: "'a helpCommandMetadata_scheme \<Rightarrow> string \<Rightarrow> nat" where
  "phraseScore entry termPhrase =
     (let commandPhrase = normalizeHelpPhrase (heCommand entry); pluginPhrase = normalizeHelpPhrase (hePluginName entry);
          searchTokens = collectHelpSearchTokens entry;
          fuzzy = (\<lambda>v tokens score. foldl (\<lambda>s token. raiseTo (fuzzyHelpTokenMatch termPhrase token 1) v s) score tokens);
          s1 = raiseTo (helpTokenEquivalent termPhrase pluginPhrase) 95
                 (if helpTokenEquivalent termPhrase commandPhrase then 100 else 0);
          s2 = foldl (\<lambda>s keyword. keywordScore termPhrase keyword s) s1 (heKeywords entry);
          s3 = foldl (\<lambda>s token. raiseTo (helpTokenEquivalent termPhrase token) 70 s) s2 searchTokens;
          s4 = raiseTo (containsStr pluginPhrase termPhrase) 80 (raiseTo (containsStr commandPhrase termPhrase) 84 s3);
          s5 = raiseTo (containsStr (normalizeHelpPhrase (heUsage entry)) termPhrase) 65 s4;
          s6 = raiseTo (containsStr (normalizeHelpPhrase (heSummary entry)) termPhrase) 62 s5;
          s7 = raiseTo (containsStr (normalizeHelpPhrase (joinWith '' '' (heExamples entry))) termPhrase) 74 s6
      in fuzzy 78 searchTokens (fuzzy 82 (map normalizeHelpPhrase (heKeywords entry))
           (fuzzy 84 (helpTokens pluginPhrase) (fuzzy 88 (helpTokens commandPhrase) s7))))"

text \<open>The score of a term of several words by the words that are hit.\<close>

definition meaningfulScore :: "string \<Rightarrow> string list \<Rightarrow> string list \<Rightarrow> nat \<Rightarrow> nat" where
  "meaningfulScore commandPhrase searchTokens meaningful score =
     (case meaningful of
        [] \<Rightarrow> score
      | lead # _ \<Rightarrow>
          let hits = length (filter (tokenHit searchTokens) meaningful);
              firstHit = tokenHit searchTokens lead;
              commandFirstHit = (case helpTokens commandPhrase of [] \<Rightarrow> False
                 | c # _ \<Rightarrow> helpTokenEquivalent lead c \<or> hasPrefix c lead);
              all = (hits = length meaningful);
              candidate = min 89 (60 + hits * 4 + (if firstHit then 8 else 0) + (if commandFirstHit then 8 else 0) + (if all then 4 else 0))
          in if 0 < hits \<and> (firstHit \<or> commandFirstHit \<or> all) then max score candidate else score)"

definition scoreHelpCommandMatch :: "'a helpCommandMetadata_scheme \<Rightarrow> string \<Rightarrow> nat" where
  "scoreHelpCommandMatch entry term0 =
     (let termPhrase = normalizeHelpPhrase term0; score = phraseScore entry termPhrase;
          searchTokens = collectHelpSearchTokens entry; termTokens = helpTokens termPhrase;
          hits = length (filter (tokenHit searchTokens) termTokens)
      in if termPhrase = [] then 0
         else if termTokens = [] \<or> searchTokens = [] then score
         else meaningfulScore (normalizeHelpPhrase (heCommand entry)) searchTokens (fallbackMeaningfulTokens termPhrase)
                (if 0 < hits then max score (40 + hits) else score))"

text \<open>
  Ranking: by score, then by plugin and command. No two entries have the same plugin and command, so the
  order is total and the instability of Go's sort does not show.
\<close>

definition rankHelpMatches :: "'a helpCommandMetadata_scheme list \<Rightarrow> string \<Rightarrow> ('a helpCommandMetadata_scheme \<times> nat) list" where
  "rankHelpMatches entries term0 =
     sort_key (\<lambda>(entry, score). (- int score, hePluginName entry, heCommand entry))
       (filter (\<lambda>(entry, score). 0 < score) (map (\<lambda>entry. (entry, scoreHelpCommandMatch entry term0)) entries))"

subsection \<open>The literal words of a matcher\<close>

text \<open>Placeholders \<^verbatim>\<open><[^>]+>\<close> become a blank.\<close>

function stripPlaceholders :: "string \<Rightarrow> string" where
  "stripPlaceholders [] = []"
| "stripPlaceholders (c # cs) =
     (if c = CHR ''<'' \<and> takeWhile (\<lambda>x. x \<noteq> CHR ''>'') cs \<noteq> [] \<and> dropWhile (\<lambda>x. x \<noteq> CHR ''>'') cs \<noteq> []
      then CHR '' '' # stripPlaceholders (tl (dropWhile (\<lambda>x. x \<noteq> CHR ''>'') cs))
      else c # stripPlaceholders cs)"
  by pat_completeness auto
termination
proof (relation "measure length")
  fix c :: char and cs :: string
  have "length (tl (dropWhile (\<lambda>x. x \<noteq> CHR ''>'') cs)) \<le> length cs"
    using length_dropWhile_le [of "\<lambda>x. x \<noteq> CHR ''>''" cs] by simp
  then show "(tl (dropWhile (\<lambda>x. x \<noteq> CHR ''>'') cs), c # cs) \<in> measure length" by simp
qed auto

text \<open>The address at the start of a usage line: \<^verbatim>\<open>^\s*/?\((?:alias|bot)\)(?:[,:])?\s*\<close>.\<close>

definition cutAddress :: "string \<Rightarrow> string" where
  "cutAddress s =
     (let s1 = dropWhile isRegexSpace s; s2 = (if hasPrefix s1 ''/'' then drop 1 s1 else s1);
          afterName = (if hasPrefix s2 ''(alias)'' then Some (drop 7 s2) else if hasPrefix s2 ''(bot)'' then Some (drop 5 s2) else None)
      in case afterName of
           None \<Rightarrow> s
         | Some rest \<Rightarrow> dropWhile isRegexSpace (if hasPrefix rest '','' \<or> hasPrefix rest '':'' then drop 1 rest else rest))"

definition stripHelpAddressPrefix :: "string \<Rightarrow> string" where
  "stripHelpAddressPrefix input =
     (let trimmed = trimSpace input; stripped = trimSpace (cutAddress trimmed)
      in if trimmed = [] \<or> stripped = [] then trimmed else stripped)"

definition fallbackLiteralTokens :: "string \<Rightarrow> string list" where
  "fallbackLiteralTokens surface = helpTokens (normalizeHelpPhrase (stripPlaceholders (trimSpace surface)))"

definition fallbackLiteralSequencesFromSurface :: "string \<Rightarrow> string list list" where
  "fallbackLiteralSequencesFromSurface surface =
     (let trimmed = trimSpace (stripHelpAddressPrefix surface) in
      if trimmed = [] then [] else filter (\<lambda>tokens. tokens \<noteq> []) (map fallbackLiteralTokens (splitByte CHR ''|'' trimmed)))"

text \<open>The sequences of literal words a matcher accepts: every choice of alternatives.\<close>

definition combineOptions :: "string list list list \<Rightarrow> string list list" where
  "combineOptions optss =
     foldl (\<lambda>sequences options. concat (map (\<lambda>existing. map (\<lambda>option. existing @ option) options) sequences)) [[]] optss"

fun termLiteralSequences :: "simpleMatcherTerm \<Rightarrow> string list list" where
  "termLiteralSequences (TLiteral v) = [fallbackLiteralTokens v]"
| "termLiteralSequences (TSlot s) = [[]]"
| "termLiteralSequences (TGroup e label opt cap) =
     (let options = concat (map (\<lambda>alt. combineOptions (map termLiteralSequences alt)) e)
      in if opt then [] # options else options)"
| "termLiteralSequences (TOptions label os) = [[]]"

definition exprLiteralSequences :: "simpleMatcherExpr \<Rightarrow> string list list" where
  "exprLiteralSequences e = concat (map (\<lambda>alt. combineOptions (map termLiteralSequences alt)) e)"

definition simpleMatcherLiteralSequences :: "string \<Rightarrow> matcherError + string list list" where
  "simpleMatcherLiteralSequences spec0 =
     (let spec = trimSpace spec0 in
      if spec = [] then Inl SpecEmpty
      else (case parseExpr (parseFuel spec) None spec of
              Inl e \<Rightarrow> Inl e
            | Inr (expr, rest) \<Rightarrow> (case skipSpaces rest of c # _ \<Rightarrow> Inl (TrailingChar c) | [] \<Rightarrow> Inr (exprLiteralSequences expr))))"

definition appendSequence :: "string list list \<Rightarrow> string list \<Rightarrow> string list list" where
  "appendSequence sequences tokens =
     (if tokens = [] \<or> joinWith [CHR 0x00] tokens \<in> set (map (joinWith [CHR 0x00]) sequences) then sequences
      else sequences @ [tokens])"

definition fallbackLiteralSequences :: "'a helpCommandMetadata_scheme \<Rightarrow> string list list" where
  "fallbackLiteralSequences entry =
     (let compiled = (if trimSpace (heSimpleMatcher entry) = [] then []
                      else (case simpleMatcherLiteralSequences (trimSpace (heSimpleMatcher entry)) of Inl e \<Rightarrow> [] | Inr seqs \<Rightarrow> seqs));
          surfaces = concat (map fallbackLiteralSequencesFromSurface (heUsage entry # heExamples entry));
          sequences = foldl appendSequence [] (compiled @ surfaces)
      in if sequences = [] then appendSequence [] (fallbackLiteralTokens (heCommand entry)) else sequences)"

subsection \<open>Close matches\<close>

definition fallbackTokenMatches :: "string \<Rightarrow> string \<Rightarrow> bool" where
  "fallbackTokenMatches query candidate \<longleftrightarrow> helpTokenEquivalent query candidate \<or> fuzzyHelpTokenMatch query candidate 1"

text \<open>The literals found in order in the words of the query: how many, and where the first one is.\<close>

fun literalHits :: "string list \<Rightarrow> nat \<Rightarrow> string list \<Rightarrow> nat \<times> nat option" where
  "literalHits queryTokens q [] = (0, None)"
| "literalHits queryTokens q (literal # literals) =
     (case find (\<lambda>i. fallbackTokenMatches (queryTokens ! i) literal) [q..<length queryTokens] of
        None \<Rightarrow> (0, None)
      | Some i \<Rightarrow> (Suc (fst (literalHits queryTokens (Suc i) literals)), Some i))"

definition fallbackLiteralSequenceScore :: "string list \<Rightarrow> string list \<Rightarrow> nat" where
  "fallbackLiteralSequenceScore queryTokens literals =
     (case literalHits queryTokens 0 literals of
        (hits, firstMatch) \<Rightarrow>
          if queryTokens = [] \<or> literals = [] \<or> hits = 0 then 0
          else min 96 (35 + hits * 12 + (if hits = length literals then 22 else 0) +
                 (if firstMatch = Some 0 then 18 else if firstMatch = Some 1 then 8 else 0) +
                 (if length queryTokens = 1 \<and> firstMatch = Some 0 \<and> hits = 1 then 18 else 0)))"

datatype fallbackQueryKind = QueryIdentifier | QueryPhrase | QueryPath

definition classifyFallbackQuery :: "string \<Rightarrow> fallbackQueryKind" where
  "classifyFallbackQuery term0 =
     (let normalized = trimSpace (normalizeHelpPhrase term0) in
      if normalized = [] then QueryIdentifier
      else if containsStr normalized ''/'' \<and> \<not> containsStr normalized '' '' then QueryPath
      else if containsStr normalized '' '' then QueryPhrase
      else QueryIdentifier)"

definition helpCommandLooksPhraseShaped :: "'a helpCommandMetadata_scheme \<Rightarrow> bool" where
  "helpCommandLooksPhraseShaped entry \<longleftrightarrow> list_ex (\<lambda>literals. length literals > 1) (fallbackLiteralSequences entry)"

definition fallbackCloseMatchScore :: "'a helpCommandMetadata_scheme \<Rightarrow> string \<Rightarrow> nat" where
  "fallbackCloseMatchScore entry term0 =
     (let normalized = normalizeHelpPhrase term0; queryTokens = helpTokens normalized;
          best = foldl (\<lambda>b literals. max b (fallbackLiteralSequenceScore queryTokens literals)) 0 (fallbackLiteralSequences entry);
          phraseShaped = helpCommandLooksPhraseShaped entry; base = scoreHelpCommandMatch entry normalized
      in if normalized = [] \<or> queryTokens = [] then 0
         else (case classifyFallbackQuery normalized of
                 QueryPath \<Rightarrow> base
               | QueryIdentifier \<Rightarrow> if phraseShaped then best else max best base
               | QueryPhrase \<Rightarrow> if \<not> phraseShaped \<and> 0 < best then max best base else best))"

subsection \<open>What the fallback makes of the matches\<close>

definition fallbackAdviceMaxHere :: nat where "fallbackAdviceMaxHere = 4"

definition fallbackAdviceMaxElsewhere :: nat where "fallbackAdviceMaxElsewhere = 4"

definition fallbackAdviceStrongScore :: nat where "fallbackAdviceStrongScore = 80"

definition fallbackAdviceLikelyScore :: nat where "fallbackAdviceLikelyScore = 72"

definition fallbackAdviceMinScore :: nat where "fallbackAdviceMinScore = 60"

definition fallbackAdviceScoreMargin :: nat where "fallbackAdviceScoreMargin = 8"

text \<open>How many of the meaningful words of the query the command has, and how many there are.\<close>

definition fallbackMatchSignals :: "'a helpCommandMetadata_scheme \<Rightarrow> string \<Rightarrow> nat \<times> nat" where
  "fallbackMatchSignals entry normalized =
     (let termTokens = fallbackMeaningfulTokens normalized; searchTokens = collectHelpSearchTokens entry
      in (if searchTokens = [] then 0 else length (filter (tokenHit searchTokens) termTokens), length termTokens))"

definition isRelevantFallbackMatch :: "'a helpCommandMetadata_scheme \<Rightarrow> string \<Rightarrow> nat \<Rightarrow> bool" where
  "isRelevantFallbackMatch entry normalized score \<longleftrightarrow>
     fallbackCloseMatchScore entry normalized \<ge> fallbackAdviceLikelyScore \<or>
     score \<ge> fallbackAdviceMinScore \<or>
     (let (hits, terms) = fallbackMatchSignals entry normalized in
      if terms = 0 then False
      else if terms = 1 then hits = 1 \<and> score \<ge> fallbackAdviceMinScore - fallbackAdviceScoreMargin
      else hits = terms \<and> hits \<ge> 2)"

subsection \<open>Bounds of the scores\<close>

lemma raiseTo_bound: "score \<le> b \<Longrightarrow> v \<le> b \<Longrightarrow> raiseTo c v score \<le> b" "score \<le> raiseTo c v score"
  by (auto simp: raiseTo_def)

lemma keywordScore_bound: "score \<le> b \<Longrightarrow> 92 \<le> b \<Longrightarrow> keywordScore t k score \<le> b" "score \<le> keywordScore t k score"
  by (auto simp: keywordScore_def raiseTo_def Let_def)

lemma foldl_bound:
  fixes f :: "nat \<Rightarrow> 'a \<Rightarrow> nat"
  shows "(\<And>s x. s \<le> b \<Longrightarrow> f s x \<le> b) \<Longrightarrow> s \<le> b \<Longrightarrow> foldl f s xs \<le> b"
    and "(\<And>s x. s \<le> f s x) \<Longrightarrow> s \<le> foldl f s xs"
proof -
  show "(\<And>s x. s \<le> b \<Longrightarrow> f s x \<le> b) \<Longrightarrow> s \<le> b \<Longrightarrow> foldl f s xs \<le> b"
    by (induction xs arbitrary: s) simp_all
  assume grows: "\<And>s x. s \<le> f s x"
  show "s \<le> foldl f s xs"
  proof (induction xs arbitrary: s)
    case (Cons x xs)
    show ?case using grows [of s x] Cons [of "f s x"] by simp
  qed simp
qed

lemma phraseScore_bound:
  assumes "95 \<le> b" and "helpTokenEquivalent t (normalizeHelpPhrase (heCommand entry)) \<longrightarrow> 100 \<le> b"
  shows "phraseScore entry t \<le> b"
  unfolding phraseScore_def Let_def
  by (intro foldl_bound(1) raiseTo_bound(1) keywordScore_bound(1)) (use assms in auto)

lemma phraseScore_exact:
  assumes "helpTokenEquivalent t (normalizeHelpPhrase (heCommand entry))"
  shows "phraseScore entry t = 100"
proof (rule antisym)
  show "phraseScore entry t \<le> 100" by (rule phraseScore_bound) simp_all
  have "100 \<le> raiseTo c 95 (100 :: nat)" for c by (simp add: raiseTo_def)
  then show "100 \<le> phraseScore entry t" using assms unfolding phraseScore_def Let_def
    by (intro foldl_bound(2) raiseTo_bound(2) keywordScore_bound(2) order_trans [OF _ foldl_bound(2)]
        order_trans [OF _ raiseTo_bound(2)] order_trans [OF _ keywordScore_bound(2)]) auto
qed

lemma meaningful_bound: "score \<le> b \<Longrightarrow> 89 \<le> b \<Longrightarrow> meaningfulScore c ts ms score \<le> b" "score \<le> meaningfulScore c ts ms score"
  by (auto simp: meaningfulScore_def Let_def split: list.split)

lemma hits_length: "length (filter (tokenHit ts) xs) \<le> length xs" by simp

lemma score_bound:
  assumes "95 \<le> b" and "helpTokenEquivalent (normalizeHelpPhrase term0) (normalizeHelpPhrase (heCommand entry)) \<longrightarrow> 100 \<le> b"
    and "40 + length (helpTokens (normalizeHelpPhrase term0)) \<le> b"
  shows "scoreHelpCommandMatch entry term0 \<le> b"
proof -
  have phrase: "phraseScore entry (normalizeHelpPhrase term0) \<le> b" by (rule phraseScore_bound [OF assms(1,2)])
  have "40 + length (filter (tokenHit ts) (helpTokens (normalizeHelpPhrase term0))) \<le> b" for ts
    using hits_length [of ts "helpTokens (normalizeHelpPhrase term0)"] assms(3) by linarith
  then show ?thesis using phrase assms(1) by (simp add: scoreHelpCommandMatch_def Let_def meaningful_bound)
qed

lemma score_phrase:
  "normalizeHelpPhrase term0 \<noteq> [] \<Longrightarrow> phraseScore entry (normalizeHelpPhrase term0) \<le> scoreHelpCommandMatch entry term0"
  by (auto simp: scoreHelpCommandMatch_def Let_def intro: meaningful_bound(2) order_trans [OF _ meaningful_bound(2)])

lemma score_exact:
  assumes "normalizeHelpPhrase term0 \<noteq> []" and "length (helpTokens (normalizeHelpPhrase term0)) < 60"
  shows "scoreHelpCommandMatch entry term0 \<le> 100"
    and "scoreHelpCommandMatch entry term0 = 100 \<longleftrightarrow>
      helpTokenEquivalent (normalizeHelpPhrase term0) (normalizeHelpPhrase (heCommand entry))"
proof -
  show le: "scoreHelpCommandMatch entry term0 \<le> 100" by (rule score_bound) (use assms in simp_all)
  show "scoreHelpCommandMatch entry term0 = 100 \<longleftrightarrow>
      helpTokenEquivalent (normalizeHelpPhrase term0) (normalizeHelpPhrase (heCommand entry))"
  proof
    assume equiv: "helpTokenEquivalent (normalizeHelpPhrase term0) (normalizeHelpPhrase (heCommand entry))"
    show "scoreHelpCommandMatch entry term0 = 100"
      using score_phrase [OF assms(1), of entry] phraseScore_exact [OF equiv] le by simp
  next
    assume top: "scoreHelpCommandMatch entry term0 = 100"
    show "helpTokenEquivalent (normalizeHelpPhrase term0) (normalizeHelpPhrase (heCommand entry))"
    proof (rule ccontr)
      assume "\<not> helpTokenEquivalent (normalizeHelpPhrase term0) (normalizeHelpPhrase (heCommand entry))"
      then have "scoreHelpCommandMatch entry term0 \<le> 99" by (intro score_bound) (use assms(2) in simp_all)
      then show False using top by simp
    qed
  qed
qed

lemma rank_in: "(e, s) \<in> set (rankHelpMatches entries term0) \<longleftrightarrow> e \<in> set entries \<and> s = scoreHelpCommandMatch e term0 \<and> 0 < s"
  by (auto simp: rankHelpMatches_def)

lemma rank_head:
  assumes "rankHelpMatches entries term0 = (e, s) # rest" and "(e', s') \<in> set (rankHelpMatches entries term0)"
  shows "s' \<le> s"
proof -
  let ?key = "\<lambda>(entry :: 'a helpCommandMetadata_scheme, score). (- int score, hePluginName entry, heCommand entry)"
  have "sorted (map ?key (rankHelpMatches entries term0))" by (simp add: rankHelpMatches_def)
  then have "?key (e, s) \<le> ?key (e', s')" using assms by auto
  then show ?thesis by auto
qed

text \<open>
  The help puts the command that is asked for first: for a term of fewer than sixty words, when a command is
  named like it (up to case, dashes and plural), the ranking begins with a command of that name, with the
  score 100; and the ranking lists exactly the commands with a score, highest first.
\<close>

theorem exact_command_first:
  assumes "entry \<in> set entries"
    and "helpTokenEquivalent (normalizeHelpPhrase term0) (normalizeHelpPhrase (heCommand entry))"
    and "normalizeHelpPhrase term0 \<noteq> []" and "length (helpTokens (normalizeHelpPhrase term0)) < 60"
  shows "(case rankHelpMatches entries term0 of
      [] \<Rightarrow> False
    | (first, score) # _ \<Rightarrow> score = 100 \<and> helpTokenEquivalent (normalizeHelpPhrase term0) (normalizeHelpPhrase (heCommand first))) \<and>
    set (rankHelpMatches entries term0) = {(e, s). e \<in> set entries \<and> s = scoreHelpCommandMatch e term0 \<and> 0 < s} \<and>
    sorted_wrt (\<ge>) (map snd (rankHelpMatches entries term0))"
proof -
  have top: "(entry, 100) \<in> set (rankHelpMatches entries term0)"
    using score_exact(2) [OF assms(3,4), of entry] assms(1,2) by (simp add: rank_in)
  then obtain first score rest where head: "rankHelpMatches entries term0 = (first, score) # rest"
    by (cases "rankHelpMatches entries term0") auto
  have "100 \<le> score" by (rule rank_head [OF head top])
  moreover have "first \<in> set entries \<and> score = scoreHelpCommandMatch first term0"
    using head rank_in [of first score entries term0] by simp
  ultimately have "score = 100 \<and> helpTokenEquivalent (normalizeHelpPhrase term0) (normalizeHelpPhrase (heCommand first))"
    using score_exact [OF assms(3,4), of first] by simp
  moreover have "sorted_wrt (\<ge>) (map snd (rankHelpMatches entries term0))"
  proof -
    have "sorted (map (\<lambda>(entry, score). (- int score, hePluginName entry, heCommand entry)) (rankHelpMatches entries term0))"
      by (simp add: rankHelpMatches_def)
    then show ?thesis by (auto simp: sorted_wrt_map elim!: sorted_wrt_mono_rel [rotated])
  qed
  moreover have "set (rankHelpMatches entries term0) = {(e, s). e \<in> set entries \<and> s = scoreHelpCommandMatch e term0 \<and> 0 < s}"
    using rank_in [of _ _ entries term0] by auto
  ultimately show ?thesis by (simp add: head)
qed

text \<open>Words of a normalized phrase are lower case, and have no blanks.\<close>

lemma normalized_lower: "toLower (normalizeHelpPhrase s) = normalizeHelpPhrase s"
proof -
  have "c \<in> set (normalizeHelpPhrase s) \<Longrightarrow> lowerByte c = c" for c
  proof -
    have joined: "set (joinWith '' '' xs) \<subseteq> insert CHR '' '' (\<Union> (set ` set xs))" for xs :: "string list"
      by (induction "'' ''" xs rule: joinWith.induct) auto
    have fields: "\<Union> (set ` set (goFields u)) \<subseteq> set u" for u
      unfolding goFields_def
      by (induction isSpaceByte u rule: fieldsBy.induct) (auto dest: set_takeWhileD set_dropWhileD)
    assume "c \<in> set (normalizeHelpPhrase s)"
    then have "c = CHR '' '' \<or> c \<in> set (replaceByte CHR ''-'' '' '' (toLower (trimSpace s)))"
      using joined fields unfolding normalizeHelpPhrase_def by blast
    then have "c = CHR '' '' \<or> (\<exists>d. c = lowerByte d)"
      by (auto simp: replaceByte_def toLower_def split: if_splits)
    moreover have "lowerByte CHR '' '' = CHR '' ''" by code_simp
    ultimately show "lowerByte c = c" by (auto simp: lower_chars)
  qed
  then show ?thesis by (simp add: toLower_def map_idI)
qed

lemma contains_blank: "containsStr s '' '' \<longleftrightarrow> CHR '' '' \<in> set s"
  by (induction s) (auto simp: hasPrefix_iff)

lemma normalized_blank: "c \<in> set (normalizeHelpPhrase s) \<Longrightarrow> isSpaceByte c \<Longrightarrow> c = CHR '' ''"
proof -
  have joined: "set (joinWith '' '' xs) \<subseteq> insert CHR '' '' (\<Union> (set ` set xs))" for xs :: "string list"
    by (induction "'' ''" xs rule: joinWith.induct) auto
  have "\<not> isSpaceByte c" if "f \<in> set (goFields u)" "c \<in> set f" for f u
    using fieldsBy_isField [of isSpaceByte u] that by (auto simp: goFields_def isField_def list_all_iff)
  then show "c \<in> set (normalizeHelpPhrase s) \<Longrightarrow> isSpaceByte c \<Longrightarrow> c = CHR '' ''"
    using joined unfolding normalizeHelpPhrase_def by blast
qed

lemma trimSpace_none: "\<forall>c \<in> set s. \<not> isSpaceByte c \<Longrightarrow> trimSpace s = s"
proof -
  assume none: "\<forall>c \<in> set s. \<not> isSpaceByte c"
  then have "dropWhile isSpaceByte s = s" by (cases s) simp_all
  moreover from none have "dropWhile isSpaceByte (rev s) = rev s" by (cases "rev s") auto
  ultimately show ?thesis by (simp add: trimSpace_def trimLeftBy_def trimRightBy_def)
qed

lemma token_chars: "w \<in> set (helpTokens s) \<Longrightarrow> w \<noteq> [] \<and> (\<forall>c \<in> set w. isHelpTokenByte c)"
  using fieldsBy_isField [of "\<lambda>c. \<not> isHelpTokenByte c" s] by (auto simp: helpTokens_def isField_def list_all_iff)

lemma fields_chars: "w \<in> set (fieldsBy p s) \<Longrightarrow> set w \<subseteq> set s"
  by (induction p s rule: fieldsBy.induct) (auto dest: set_takeWhileD set_dropWhileD split: if_splits)

text \<open>Words of the command, for a single word that is looked for.\<close>

lemma token_plain:
  assumes "w \<in> set (helpTokens (normalizeHelpPhrase s))"
  shows "trimSpace (toLower w) = w" and "\<not> containsStr w '' ''"
proof -
  have "c \<in> set w \<Longrightarrow> lowerByte c = c" for c
    using fields_chars assms normalized_lower [of s] by (fastforce simp: helpTokens_def toLower_def map_eq_conv [of _ _ id, simplified])
  then have low: "toLower w = w" by (simp add: toLower_def map_idI)
  have none: "\<forall>c \<in> set w. \<not> isSpaceByte c"
    using token_chars [OF assms] by (auto simp: isHelpTokenByte_def isSpaceByte_def isLetterByte_def isDigitByte_def inRange_def)
  then show "trimSpace (toLower w) = w" by (simp add: low trimSpace_none)
  show "\<not> containsStr w '' ''" using none by (auto simp: contains_blank isSpaceByte_def)
qed

lemma edit1_close: "edit1 xs ys \<Longrightarrow> lev xs ys \<le> 1 \<and> \<bar>int (length xs) - int (length ys)\<bar> \<le> 1"
proof -
  assume e: "edit1 xs ys"
  then have "(edit1 ^^ 1) xs ys" by (simp only: relpowp_1)
  then have "lev xs ys \<le> 1" by (rule lev_least)
  then show ?thesis using lev_length [of xs ys] lev_length [of ys xs] lev_sym [of xs ys] by linarith
qed

lemma fuzzy_edit1:
  assumes "edit1 t w" and "\<not> helpTokenEquivalent t w" and "4 \<le> length t" and "4 \<le> length w"
    and "trimSpace (toLower t) = t" "\<not> containsStr t '' ''" and "trimSpace (toLower w) = w" "\<not> containsStr w '' ''"
  shows "fuzzyHelpTokenMatch t w 1"
proof -
  have "snd (boundedLevenshtein t w 1)" using edit1_close [OF assms(1)] by (simp add: boundedLevenshtein_lev)
  then show ?thesis using edit1_close [OF assms(1)] assms by (auto simp: fuzzyHelpTokenMatch_def)
qed

lemma foldl_raise: "x \<in> set xs \<Longrightarrow> P x \<Longrightarrow> v \<le> foldl (\<lambda>s x. raiseTo (P x) v s) s xs"
proof (induction xs arbitrary: s)
  case (Cons y xs)
  show ?case
  proof (cases "P y")
    case True
    then have "v \<le> raiseTo (P y) v s" by (simp add: raiseTo_def)
    also have "raiseTo (P y) v s \<le> foldl (\<lambda>s x. raiseTo (P x) v s) (raiseTo (P y) v s) xs"
      by (rule foldl_bound(2)) (rule raiseTo_bound(2))
    finally show ?thesis by simp
  next
    case False
    then show ?thesis using Cons by auto
  qed
qed simp

lemma phraseScore_fuzzy:
  assumes "w \<in> set (helpTokens (normalizeHelpPhrase (heCommand entry)))" and "fuzzyHelpTokenMatch t w 1"
  shows "88 \<le> phraseScore entry t"
proof -
  have more: "88 \<le> s \<Longrightarrow> 88 \<le> foldl (\<lambda>s token. raiseTo (fuzzyHelpTokenMatch t token 1) v s) s xs" for s v xs
    by (rule order_trans [OF _ foldl_bound(2)], assumption) (rule raiseTo_bound(2))
  show ?thesis unfolding phraseScore_def Let_def
    by (intro more foldl_raise [OF assms(1), where P = "\<lambda>token. fuzzyHelpTokenMatch t token 1"] assms(2))
qed

lemma phraseScore_word:
  assumes "w \<in> set (collectHelpSearchTokens entry)" and "helpTokenEquivalent t w"
  shows "70 \<le> phraseScore entry t"
proof -
  have more: "70 \<le> s \<Longrightarrow> 70 \<le> foldl (\<lambda>s token. raiseTo (fuzzyHelpTokenMatch t token 1) v s) s xs" for s v xs
    by (rule order_trans [OF _ foldl_bound(2)], assumption) (rule raiseTo_bound(2))
  have raise: "70 \<le> s \<Longrightarrow> 70 \<le> raiseTo c v s" for c v and s :: nat
    using raiseTo_bound(2) [of s c v] by linarith
  show ?thesis unfolding phraseScore_def Let_def
    by (intro more raise foldl_raise [OF assms(1), where P = "helpTokenEquivalent t"] assms(2))
qed

text \<open>The words of a command's name are among the words that are searched.\<close>

lemma fieldsBy_joined:
  assumes "\<And>c. r c \<Longrightarrow> p c" and "p CHR '' ''"
  shows "fieldsBy p (joinWith '' '' (fieldsBy r s)) = fieldsBy p s"
  using assms(1)
proof (induction r s rule: fieldsBy.induct)
  case (2 r c cs)
  show ?case
  proof (cases "r c")
    case False
    let ?f = "c # takeWhile (\<lambda>x. \<not> r x) cs" and ?rest = "dropWhile (\<lambda>x. \<not> r x) cs"
    have IH: "fieldsBy p (joinWith '' '' (fieldsBy r ?rest)) = fieldsBy p ?rest" using 2(2) False 2(3) by simp
    have whole: "c # cs = ?f @ ?rest" by simp
    show ?thesis
    proof (cases ?rest)
      case Nil
      then have "?f = c # cs" using whole by (metis append_Nil2)
      then have "fieldsBy r (c # cs) = [c # cs]" using False Nil by (simp only: fieldsBy.simps if_False)
      then show ?thesis by simp
    next
      case (Cons d rest)
      then have "r d" by (simp add: dropWhile_eq_Cons_conv)
      then have d: "p d" by (rule 2(3))
      have "fieldsBy p (c # cs) = fieldsBy p ?f @ fieldsBy p rest" unfolding whole Cons by (rule fieldsBy_sep, rule d)
      moreover have "fieldsBy p ?rest = fieldsBy p rest" using d Cons by simp
      moreover have "fieldsBy r (c # cs) = ?f # fieldsBy r ?rest" using False by simp
      moreover have "fieldsBy p (joinWith '' '' (?f # fs)) = fieldsBy p ?f @ fieldsBy p (joinWith '' '' fs)" for fs
        using fieldsBy_sep [of p "CHR '' ''" ?f, OF assms(2)] by (cases fs) (simp_all del: fieldsBy.simps(2))
      ultimately show ?thesis using IH by simp
    qed
  qed (use 2 in simp)
qed simp

lemma fieldsBy_trimSpace:
  assumes "\<And>c. isSpaceByte c \<Longrightarrow> p c" shows "fieldsBy p (trimSpace s) = fieldsBy p s"
proof -
  obtain ws where w: "dropWhile isSpaceByte s = trimSpace s @ ws" "list_all isSpaceByte ws"
    using trimRightBy_split [of "dropWhile isSpaceByte s" isSpaceByte] by (auto simp: trimSpace_def trimLeftBy_def)
  have "list_all p ws" using w(2) assms by (auto simp: list_all_iff)
  moreover have "fieldsBy p s = fieldsBy p (dropWhile isSpaceByte s)" using fieldsBy_dropWhile [of isSpaceByte p s] assms by simp
  ultimately show ?thesis using w(1) by (simp add: fieldsBy_spaces_right)
qed

definition notWord :: "char \<Rightarrow> bool" where
  "notWord c \<longleftrightarrow> \<not> (isLetterByte c \<or> isDigitByte c \<or> c = CHR ''_'')"

lemma fieldsBy_replaced: "fieldsBy (\<lambda>c. \<not> isHelpTokenByte c) (replaceByte CHR ''-'' '' '' s) = fieldsBy notWord s"
proof (induction notWord s rule: fieldsBy.induct)
  case 1
  show ?case by (simp add: replaceByte_def)
next
  case (2 c cs)
  let ?f = "\<lambda>c :: char. if c = CHR ''-'' then '' '' else [c]" and ?p = "\<lambda>c. \<not> isHelpTokenByte c"
  have blank: "\<not> isHelpTokenByte CHR '' ''" by code_simp
  have dash: "notWord CHR ''-''" by code_simp
  have word: "c \<noteq> CHR ''-'' \<Longrightarrow> notWord c = ?p c" for c by (auto simp: notWord_def isHelpTokenByte_def)
  have while: "takeWhile (\<lambda>x. \<not> ?p x) (concat (map ?f xs)) = takeWhile (\<lambda>x. \<not> notWord x) xs \<and>
      dropWhile (\<lambda>x. \<not> ?p x) (concat (map ?f xs)) = concat (map ?f (dropWhile (\<lambda>x. \<not> notWord x) xs))" for xs
    by (induction xs) (auto simp: blank dash word)
  show ?case using 2 while [of cs] blank dash word [of c]
    by (cases "c = CHR ''-''") (auto simp: replaceByte_def)
qed

lemma normalized_tokens: "helpTokens (normalizeHelpPhrase s) = fieldsBy notWord (toLower s)"
proof -
  have space: "isSpaceByte c \<Longrightarrow> \<not> isHelpTokenByte c" "isSpaceByte c \<Longrightarrow> notWord c" for c
    by (auto simp: isSpaceByte_def isHelpTokenByte_def notWord_def isLetterByte_def isDigitByte_def inRange_def)
  have "helpTokens (normalizeHelpPhrase s) = fieldsBy notWord (toLower (trimSpace s))"
    using fieldsBy_joined [of isSpaceByte "\<lambda>c. \<not> isHelpTokenByte c"] space(1)
    by (simp add: helpTokens_def normalizeHelpPhrase_def goFields_def fieldsBy_replaced isSpaceByte_def)
  then show ?thesis using fieldsBy_trimSpace [of notWord] space(2) by (simp flip: toLower_trim)
qed

lemma search_tokens_command:
  assumes "w \<in> set (helpTokens (normalizeHelpPhrase (heCommand entry)))"
  shows "w \<in> set (collectHelpSearchTokens entry)"
proof -
  have blank: "notWord CHR '' ''" "lowerByte CHR '' '' = CHR '' ''" by code_simp+
  show ?thesis using assms
    by (simp add: collectHelpSearchTokens_def firsts_def normalized_tokens toLower_def blank fieldsBy_sep)
qed

text \<open>
  A word of a command's name is found with a typo in it: when the term is a single word of at least four letters
  and one insertion, deletion or replacement away from a word of the name, the command is among the
  results, with a score of at least 88, or of at least 70 when the edit only changes a plural.
\<close>

theorem one_typo_found:
  assumes "entry \<in> set entries" and "w \<in> set (helpTokens (normalizeHelpPhrase (heCommand entry)))"
    and "\<not> containsStr (normalizeHelpPhrase term0) '' ''" and "edit1 (normalizeHelpPhrase term0) w"
    and "4 \<le> length (normalizeHelpPhrase term0)" and "4 \<le> length w"
  shows "(if helpTokenEquivalent (normalizeHelpPhrase term0) w then 70 else 88) \<le> scoreHelpCommandMatch entry term0 \<and>
    (entry, scoreHelpCommandMatch entry term0) \<in> set (rankHelpMatches entries term0)"
proof -
  let ?t = "normalizeHelpPhrase term0"
  have "\<forall>c \<in> set ?t. \<not> isSpaceByte c" using assms(3) normalized_blank [of _ term0] by (auto simp: contains_blank)
  then have t: "trimSpace (toLower ?t) = ?t" by (simp add: normalized_lower trimSpace_none)
  have "(if helpTokenEquivalent ?t w then 70 else 88) \<le> phraseScore entry ?t"
    using phraseScore_word [OF search_tokens_command [OF assms(2)]] phraseScore_fuzzy [OF assms(2)]
      fuzzy_edit1 [OF assms(4) _ assms(5,6) t assms(3) token_plain [OF assms(2)]] by simp
  moreover have "?t \<noteq> []" using assms(5) by auto
  ultimately have score: "(if helpTokenEquivalent ?t w then 70 else 88) \<le> scoreHelpCommandMatch entry term0"
    using score_phrase [of term0 entry] by linarith
  then have "0 < scoreHelpCommandMatch entry term0" by (simp split: if_splits)
  then show ?thesis using score assms(1) by (simp add: rank_in)
qed

definition demoEntry :: helpCommandMetadata where
  "demoEntry = \<lparr>hePluginName = ''reminders'', heCommand = ''set-reminder'', heSimpleMatcher = ''remind <who> about <what:rest>'',
     heSimpleMatchers = [], heUsage = ''(alias) remind <who> about <what>'', heSummary = ''Set a reminder'', heDetails = [],
     heExamples = [], hePrivateExamples = [], heKeywords = [''notify''], heScope = [], heChannels = [], heAllChannels = True,
     hePrivateOK = False, hePrivateRequired = False, hePrivateSupported = False, hePrivateHint = [], hePluginSummary = []\<rparr>"

theorem exact_command_first_witness:
  "snd (hd (rankHelpMatches [demoEntry\<lparr>heCommand := ''list''\<rparr>, demoEntry] ''Set reminders'')) = 100"
proof -
  have "helpTokenEquivalent (normalizeHelpPhrase ''Set reminders'') (normalizeHelpPhrase (heCommand demoEntry))" by code_simp
  moreover have "normalizeHelpPhrase ''Set reminders'' \<noteq> []" "length (helpTokens (normalizeHelpPhrase ''Set reminders'')) < 60" by code_simp+
  ultimately show ?thesis
    using exact_command_first [of demoEntry "[demoEntry\<lparr>heCommand := ''list''\<rparr>, demoEntry]" "''Set reminders''"]
    by (auto split: list.splits)
qed

theorem one_typo_found_witness:
  "88 \<le> scoreHelpCommandMatch demoEntry ''Remnder''"
proof -
  have w: "''reminder'' \<in> set (helpTokens (normalizeHelpPhrase (heCommand demoEntry)))" by code_simp
  have t: "normalizeHelpPhrase ''Remnder'' = ''remnder''" by code_simp
  have "\<not> containsStr (normalizeHelpPhrase ''Remnder'') '' ''" by code_simp
  moreover have "edit1 (normalizeHelpPhrase ''Remnder'') ''reminder''" using inserts [of "''rem''" "''nder''" "CHR ''i''"] by (simp add: t)
  moreover have "\<not> helpTokenEquivalent (normalizeHelpPhrase ''Remnder'') ''reminder''" by code_simp
  ultimately show ?thesis using one_typo_found [of demoEntry "[demoEntry]" "''reminder''" "''Remnder''"] w by (simp add: t)
qed

end
