(* ===== verification/HelpRender.thy ===== *)
theory HelpRender
  imports HelpSearch TaskEnv
begin

text \<open>
  What the help shows (bot/builtins.go): the commands of the plugins a user may use with their help
  texts, and the rendering of them as messages that fit a transport. The connector's form of a private
  command and the groups an authorizer knows are arguments.
\<close>

subsection \<open>Names and placeholders\<close>

text \<open>
  The context of the help: the name and alias of the robot, whether the protocol has private commands and how
  they are written (empty when the connector cannot), and the channel.
\<close>

record helpContext =
  hcBotName :: string
  hcAlias :: string
  hcHiddenSupported :: bool
  hcFormatHidden :: "string \<Rightarrow> string"

definition aliasString :: "char option \<Rightarrow> string" where
  "aliasString alias = (case alias of None \<Rightarrow> [] | Some c \<Rightarrow> [c])"

definition formatHiddenCommand :: "helpContext \<Rightarrow> string \<Rightarrow> string" where
  "formatHiddenCommand hc command = (if hcHiddenSupported hc then trimSpace (hcFormatHidden hc command) else [])"

definition hiddenCommandHint :: "helpContext \<Rightarrow> string" where
  "hiddenCommandHint hc =
     (let command = formatHiddenCommand hc ''<command>'' in
      if command = [] then [] else ''Use `'' @ command @ ''` to address a private command.'')"

text \<open>The expressions \<^verbatim>\<open>^([^(]*)\(bot\)(,?) *\<close> and \<^verbatim>\<open>^\(alias\) *\<close>: what they capture, and the rest.\<close>

definition botPlaceholder :: "string \<Rightarrow> (string \<times> string \<times> string) option" where
  "botPlaceholder input =
     (let lead = takeWhile (\<lambda>c. c \<noteq> CHR ''('') input; rest = dropWhile (\<lambda>c. c \<noteq> CHR ''('') input in
      if \<not> hasPrefix rest ''(bot)'' then None
      else let after = drop 5 rest; comma = (if hasPrefix after '','' then '','' else [])
           in Some (lead, comma, dropWhile (\<lambda>c. c = CHR '' '') (drop (length comma) after)))"

definition aliasPlaceholder :: "string \<Rightarrow> string option" where
  "aliasPlaceholder input =
     (if hasPrefix input ''(alias)'' then Some (dropWhile (\<lambda>c. c = CHR '' '') (drop 7 input)) else None)"

definition expandHelpPlaceholders :: "helpContext \<Rightarrow> string \<Rightarrow> string" where
  "expandHelpPlaceholders hc input =
     (if hcBotName hc = [] \<and> hcAlias hc = [] then input
      else (case botPlaceholder input of
              Some (lead, comma, rest) \<Rightarrow>
                if hcBotName hc \<noteq> [] then lead @ hcBotName hc @ comma @ '' '' @ rest else hcAlias hc @ rest
            | None \<Rightarrow>
                (case aliasPlaceholder input of
                   Some rest \<Rightarrow> if hcAlias hc \<noteq> [] then hcAlias hc @ rest else hcBotName hc @ '', '' @ rest
                 | None \<Rightarrow> input)))"

definition formatBasicMarkdownInlineCode :: "string \<Rightarrow> string" where
  "formatBasicMarkdownInlineCode input =
     (let trimmed = trimSpace input in
      if trimmed = [] then [] else ''`'' @ replaceByte CHR ''`'' [CHR 0x5C, CHR ''`''] trimmed @ ''`'')"

definition formatInlineLiteral :: "helpContext \<Rightarrow> string \<Rightarrow> string" where
  "formatInlineLiteral hc input = formatBasicMarkdownInlineCode (expandHelpPlaceholders hc input)"

text \<open>The command of a usage line, without the robot's alias or name in front.\<close>

definition botCandidates :: "string \<Rightarrow> string list" where
  "botCandidates botName0 =
     (let botName = trimSpace botName0 in
      if botName = [] then []
      else botName # (case goFields botName of [] \<Rightarrow> [] | f # _ \<Rightarrow> if equalFold f botName then [] else [f]))"

fun stripBotName :: "string \<Rightarrow> string list \<Rightarrow> string" where
  "stripBotName trimmed [] = trimmed"
| "stripBotName trimmed (candidate # cs) =
     (if \<not> hasPrefix (toLower trimmed) (toLower candidate) then stripBotName trimmed cs
      else if length trimmed = length candidate then []
      else if trimmed ! length candidate \<notin> {CHR '' '', CHR '','', CHR '':''} then stripBotName trimmed cs
      else let rest = dropWhile (\<lambda>c. c \<in> {CHR '','', CHR '':'', CHR '' ''}) (trimSpace (drop (length candidate) trimmed))
           in if rest \<noteq> [] then rest else stripBotName trimmed cs)"

definition helpSurfaceCommandText :: "string \<Rightarrow> string \<Rightarrow> string \<Rightarrow> string" where
  "helpSurfaceCommandText input alias botName =
     (let t0 = trimSpace input; trimmed = stripHelpAddressPrefix (trimSpace (trimPrefix t0 ''/''));
          afterAlias = trimSpace (drop (length alias) trimmed)
      in if t0 = [] \<or> trimmed = [] then []
         else if alias \<noteq> [] \<and> hasPrefix trimmed alias \<and> afterAlias \<noteq> [] then afterAlias
         else stripBotName trimmed (botCandidates botName))"

definition hiddenSlashBotCommand :: "string \<Rightarrow> string \<Rightarrow> string" where
  "hiddenSlashBotCommand botName command0 =
     (let name0 = trimSpace (trimPrefix botName ''/''); command = trimSpace command0;
          name = toLower (case goFields name0 of [] \<Rightarrow> name0 | f # _ \<Rightarrow> f)
      in if name0 = [] then []
         else if command = [] then ''/'' @ name
         else ''/'' @ name @ '' '' @ command)"

definition normalizeFallbackTerm :: "string \<Rightarrow> string \<Rightarrow> string \<Rightarrow> string" where
  "normalizeFallbackTerm input alias botName =
     (let t0 = trimSpace input;
          t1 = (if alias \<noteq> [] \<and> hasPrefix t0 alias then trimSpace (trimPrefix t0 alias) else t0);
          name = toLower (trimSpace botName);
          cut = (\<lambda>t sep. if hasPrefix (toLower t) (name @ sep) then trimSpace (drop (length (name @ sep)) t) else t);
          t2 = cut (cut (cut t1 '','') '':'') '' '';
          t3 = (if hasPrefix (toLower t2) (''@'' @ name @ '' '') then trimSpace (drop (length name + 2) t2) else t2)
      in if t0 = [] then t0 else trimSpace (if botName \<noteq> [] then t3 else t1))"

subsection \<open>The commands of the plugins\<close>

text \<open>The help texts of a matcher.\<close>

record helpMatcher =
  hmCommand :: string
  hmSimpleMatcher :: string
  hmUsage :: string
  hmSummary :: string
  hmDetails :: string
  hmExamples :: "string list"
  hmKeywords :: "string list"

definition tooManyChannels :: nat where "tooManyChannels = 4"

definition helpScopeText :: "Task \<Rightarrow> string" where
  "helpScopeText task =
     (if tkChannels task \<noteq> []
      then (if length (tkChannels task) > tooManyChannels then ''channels: (many)''
            else ''channels: '' @ joinWith '', '' (tkChannels task))
      else if tkAllChannels task then ''all channels''
      else ''channel scoped'')"

definition helpPluginSummary :: "Task \<Rightarrow> string list \<Rightarrow> string" where
  "helpPluginSummary task summaries =
     (if trimSpace (tkDescription task) \<noteq> [] then trimSpace (tkDescription task)
      else (case filter (\<lambda>t. t \<noteq> []) (map trimSpace summaries) of [] \<Rightarrow> [] | t # _ \<Rightarrow> t))"

text \<open>An entry as a command's first matcher finds it, and what each matcher of the command adds.\<close>

definition newHelpEntry :: "Task \<Rightarrow> string \<Rightarrow> helpCommandMetadata" where
  "newHelpEntry task command =
     \<lparr>hePluginName = tkName task, heCommand = command, heSimpleMatcher = [], heSimpleMatchers = [], heUsage = [],
      heSummary = [], heDetails = [], heExamples = [], hePrivateExamples = [], heKeywords = [], heScope = helpScopeText task,
      heChannels = tkChannels task, heAllChannels = tkAllChannels task, hePrivateOK = False, hePrivateRequired = False,
      hePrivateSupported = False, hePrivateHint = [], hePluginSummary = helpPluginSummary task []\<rparr>"

definition orFirst :: "string \<Rightarrow> string \<Rightarrow> string" where
  "orFirst have candidate = (if have = [] then trimSpace candidate else have)"

definition addMatcher :: "helpContext \<Rightarrow> Plugin \<Rightarrow> string \<Rightarrow> helpMatcher \<Rightarrow> 'a helpCommandMetadata_scheme \<Rightarrow> 'a helpCommandMetadata_scheme" where
  "addMatcher hc plugin command m entry =
     (let e1 = entry\<lparr>heUsage := orFirst (heUsage entry) (hmUsage m),
            heSimpleMatcher := orFirst (heSimpleMatcher entry) (hmSimpleMatcher m),
            heSimpleMatchers := appendUniqueStrings (heSimpleMatchers entry) [hmSimpleMatcher m],
            heSummary := orFirst (heSummary entry) (hmSummary m),
            heDetails := orFirst (heDetails entry) (hmDetails m),
            hePluginSummary := (if hePluginSummary entry = [] then helpPluginSummary (plTask plugin) [hmSummary m] else hePluginSummary entry)\<rparr>;
          e2 = (if commandAllowsPrivate plugin command
                then e1\<lparr>hePrivateOK := True, hePrivateRequired := commandRequiresPrivate plugin command,
                        hePrivateSupported := hePrivateSupported e1 \<or> hcHiddenSupported hc,
                        hePrivateHint := orFirst (hePrivateHint e1) (hiddenCommandHint hc)\<rparr>
                else e1);
          e3 = e2\<lparr>heExamples := appendUniqueStrings (heExamples e2) (hmExamples m)\<rparr>;
          e4 = (if hePrivateOK e3 \<and> hcHiddenSupported hc
                then e3\<lparr>hePrivateExamples := appendUniqueStrings (hePrivateExamples e3)
                       (map (\<lambda>example. formatHiddenCommand hc (helpSurfaceCommandText example (hcAlias hc) (hcBotName hc))) (hmExamples m))\<rparr>
                else e3)
      in e4\<lparr>heKeywords := appendUniqueStrings (heKeywords e4) (hmKeywords m)\<rparr>)"

text \<open>Whether a command is left out because the authorizer knows that the user lacks the group it needs.\<close>

definition groupForbids :: "(string \<Rightarrow> string set option) \<Rightarrow> string \<Rightarrow> Plugin \<Rightarrow> string \<Rightarrow> bool" where
  "groupForbids groups defaultAuthorizer plugin command \<longleftrightarrow>
     commandRequiresAuthorization plugin command \<and> trimSpace (tkAuthRequire (plTask plugin)) \<noteq> [] \<and>
     (case groups (effectiveAuthorizerName (plTask plugin) defaultAuthorizer) of
        None \<Rightarrow> False
      | Some gs \<Rightarrow> \<not> userHasRequiredGroup gs (tkAuthRequire (plTask plugin)))"

definition helpKey :: "string \<Rightarrow> string \<Rightarrow> string" where
  "helpKey plugin command = plugin @ ''|'' @ command"

type_synonym 'a helpTable = "(string \<times> 'a helpCommandMetadata_scheme) list"

definition addCommand ::
    "helpContext \<Rightarrow> (string \<Rightarrow> string set option) \<Rightarrow> string \<Rightarrow> Plugin \<Rightarrow> unit helpTable \<Rightarrow> helpMatcher \<Rightarrow> unit helpTable" where
  "addCommand hc groups defaultAuthorizer plugin table m =
     (let command = commandKey (hmCommand m); task = plTask plugin; key = helpKey (tkName task) command;
          entry = (case map_of table key of None \<Rightarrow> newHelpEntry task command | Some e \<Rightarrow> e)
      in if command = [] \<or> groupForbids groups defaultAuthorizer plugin command then table
         else AList.update key (addMatcher hc plugin command m entry) table)"

text \<open>The entries are in the order they were found; Go lists the map in any order, and every use sorts them.\<close>

definition collectHelpCommandMetadata ::
    "helpContext \<Rightarrow> (string \<Rightarrow> string set option) \<Rightarrow> worker \<Rightarrow> (Plugin \<times> helpMatcher list) list \<Rightarrow> bool \<Rightarrow> helpCommandMetadata list" where
  "collectHelpCommandMetadata hc groups w plugins includeGlobal =
     map (\<lambda>(key, e). if heUsage e = [] then e\<lparr>heUsage := ''(alias) '' @ heCommand e\<rparr> else e)
       (foldl (\<lambda>table (plugin, ms).
          let (available, specific) = pluginAvailable w (plTask plugin) True in
          if tkDisabled (plTask plugin) \<or> \<not> available \<or> (\<not> includeGlobal \<and> \<not> specific) then table
          else foldl (addCommand hc groups (cfDefaultAuthorizer (wCfg w)) plugin) table ms) [] plugins)"
subsection \<open>Rendering\<close>

definition nl :: string where "nl = [CHR 0x0A]"

definition joinLines :: "string list \<Rightarrow> string" where "joinLines = joinWith nl"

definition helpOptionGroups :: "helpCommandMetadata \<Rightarrow> string list list" where
  "helpOptionGroups entry =
     (let specs = (if heSimpleMatchers entry = [] \<and> trimSpace (heSimpleMatcher entry) \<noteq> [] then [heSimpleMatcher entry]
                   else heSimpleMatchers entry)
      in uniqueGroups [] (concat (map simpleMatcherOptionGroups specs)))"

definition renderHelpOptionLines :: "helpCommandMetadata \<Rightarrow> string list" where
  "renderHelpOptionLines entry =
     (let groups = helpOptionGroups entry in
      map (\<lambda>(i, g). (if length groups > 1 then ''**Options '' @ decDigits (Suc i) @ '':**'' else ''**Options:**'') @ '' '' @
             joinWith '', '' (map formatBasicMarkdownInlineCode g)) (enumerate 0 groups))"

definition formatHelpExample :: "helpContext \<Rightarrow> string \<Rightarrow> string" where
  "formatHelpExample hc example =
     (let line = trimSpace example in if line = [] then [] else formatInlineLiteral hc line)"

definition formatExactHelpAvailability :: "helpCommandMetadata \<Rightarrow> string" where
  "formatExactHelpAvailability entry =
     (if hePrivateRequired entry then ''private context only''
      else if heChannels entry \<noteq> [] then joinWith '', '' (map (\<lambda>c. ''`#'' @ c @ ''`'') (sort (heChannels entry)))
      else if heAllChannels entry then ''all robot channels''
      else heScope entry)"

text \<open>At most \<open>n\<close> examples, all of them for 0, without those that render as nothing.\<close>

definition limitedExamples :: "nat \<Rightarrow> (string \<Rightarrow> string) \<Rightarrow> string list \<Rightarrow> string list" where
  "limitedExamples n render examples =
     filter (\<lambda>line. trimSpace line \<noteq> []) (map render (if 0 < n then take n examples else examples))"

definition renderHelpEntry :: "helpContext \<Rightarrow> helpCommandMetadata \<Rightarrow> bool \<Rightarrow> bool \<Rightarrow> nat \<Rightarrow> string" where
  "renderHelpEntry hc entry includeExamples includeScope exampleLimit =
     (let bullets = map (\<lambda>e. ''- '' @ e); gap = (\<lambda>lines. if lines \<noteq> [] then lines @ [[]] else lines);
          l1 = (if heSummary entry \<noteq> [] then [''**Summary:** '' @ heSummary entry] else []) @
               (if heUsage entry \<noteq> [] then [''**Usage:** '' @ formatBasicMarkdownInlineCode (stripHelpAddressPrefix (heUsage entry))] else []) @
               renderHelpOptionLines entry;
          details = trimSpace (heDetails entry);
          l2 = (if details \<noteq> [] then gap l1 @ [details] else l1);
          rendered = limitedExamples exampleLimit (formatHelpExample hc) (heExamples entry);
          hidden = limitedExamples exampleLimit (formatInlineLiteral hc) (hePrivateExamples entry);
          l3 = (if rendered \<noteq> [] then gap l2 @ [''**Examples:**''] @ bullets rendered else l2);
          l4 = (if hidden \<noteq> [] then l3 @ [''**Private examples:**''] @ bullets hidden
                else if hePrivateSupported entry \<and> trimSpace (hePrivateHint entry) \<noteq> []
                then l3 @ [''**Private:** '' @ expandHelpPlaceholders hc (hePrivateHint entry)]
                else l3);
          l5 = (if includeExamples \<and> heExamples entry \<noteq> [] then l4 else l2);
          availability = trimSpace (formatExactHelpAvailability entry)
      in joinLines (if includeScope \<and> availability \<noteq> [] then l5 @ [''**Availability:** '' @ availability] else l5))"

definition singleLineHelpText :: "string \<Rightarrow> string" where
  "singleLineHelpText input = joinWith '' '' (goFields (trimSpace input))"

definition helpSummaryInvocation :: "helpContext \<Rightarrow> helpCommandMetadata \<Rightarrow> string \<times> bool" where
  "helpSummaryInvocation hc entry =
     (let command = singleLineHelpText (helpSurfaceCommandText (heUsage entry) (hcAlias hc) (hcBotName hc));
          hidden = trimSpace (formatHiddenCommand hc command)
      in if command = [] then ([], False)
         else if hePrivateOK entry \<and> hePrivateSupported entry \<and> hidden \<noteq> [] then (hidden, False)
         else (singleLineHelpText (expandHelpPlaceholders hc (''(alias) '' @ command)), hePrivateRequired entry))"

definition renderHelpSummaryLine :: "helpContext \<Rightarrow> helpCommandMetadata \<Rightarrow> string" where
  "renderHelpSummaryLine hc entry =
     (let (usage, directOnly) = helpSummaryInvocation hc entry; summary = singleLineHelpText (heSummary entry);
          line = hePluginName entry @ ''/'' @ heCommand entry @ (if usage \<noteq> [] then '': '' @ formatBasicMarkdownInlineCode usage else [])
      in if summary \<noteq> [] then line @ '' - '' @ (if directOnly then ''(direct message only) '' else []) @ summary
         else if directOnly then line @ '' - (direct message only)''
         else line)"

definition renderHelpSummaryLines :: "helpContext \<Rightarrow> helpCommandMetadata list \<Rightarrow> string list" where
  "renderHelpSummaryLines hc entries =
     concat (map (\<lambda>(i, e). (if 0 < i then [[]] else []) @ [renderHelpSummaryLine hc e]) (enumerate 0 entries))"

definition formatSuggestedCommand :: "helpContext \<Rightarrow> string \<Rightarrow> string" where
  "formatSuggestedCommand hc input =
     (let command = helpSurfaceCommandText input (hcAlias hc) (hcBotName hc); hidden = trimSpace (formatHiddenCommand hc command)
      in if command \<noteq> [] \<and> hcHiddenSupported hc \<and> hidden \<noteq> [] then hidden
         else trimSpace (expandHelpPlaceholders hc input))"

definition formatInlineSuggestedCommand :: "helpContext \<Rightarrow> string \<Rightarrow> string" where
  "formatInlineSuggestedCommand hc input = ''`'' @ formatSuggestedCommand hc input @ ''`''"

definition formatSuggestedHelpLine :: "helpContext \<Rightarrow> string \<Rightarrow> string" where
  "formatSuggestedHelpLine hc input =
     (case splitStr '' - '' input of
        x # y # parts \<Rightarrow> ''- '' @ formatBasicMarkdownInlineCode (formatSuggestedCommand hc x) @ '' - '' @ joinWith '' - '' (y # parts)
      | _ \<Rightarrow> ''- '' @ formatBasicMarkdownInlineCode (formatSuggestedCommand hc input))"

definition fullHelpFooter :: "helpContext \<Rightarrow> string \<Rightarrow> string" where
  "fullHelpFooter hc plugin =
     ''For full command help, use '' @ formatInlineSuggestedCommand hc (''(alias) help '' @
       (if trimSpace plugin \<noteq> [] then plugin @ ''/<command>'' else ''<plugin>/<command>'')) @ ''.''"

record parsedHelpQuery =
  pqTerm :: string
  pqPluginName :: string
  pqCommand :: string
  pqHasPath :: bool

definition parseHelpQuery :: "string list \<Rightarrow> parsedHelpQuery" where
  "parseHelpQuery args =
     (let t = trimSpace (joinWith '' '' (concat (map goFields args)));
          plain = \<lparr>pqTerm = t, pqPluginName = [], pqCommand = [], pqHasPath = False\<rparr>
      in case splitByte CHR ''/'' t of
           [p, c] \<Rightarrow>
             let plugin = commandKey p; command = commandKey c in
             if plugin \<noteq> [] \<and> command \<noteq> [] \<and> \<not> containsStr plugin '' '' \<and> \<not> containsStr command '' ''
             then plain\<lparr>pqPluginName := plugin, pqCommand := command, pqHasPath := True\<rparr> else plain
         | _ \<Rightarrow> plain)"

definition pluginOverviewSummary :: "helpCommandMetadata list \<Rightarrow> string" where
  "pluginOverviewSummary entries =
     (case filter (\<lambda>t. t \<noteq> []) (map (trimSpace \<circ> hePluginSummary) entries) of
        t # _ \<Rightarrow> t
      | [] \<Rightarrow> (case filter (\<lambda>t. t \<noteq> []) (map (trimSpace \<circ> heSummary) entries) of t # _ \<Rightarrow> t | [] \<Rightarrow> []))"

definition findHelpEntryByPath :: "helpCommandMetadata list \<Rightarrow> string \<Rightarrow> string \<Rightarrow> helpCommandMetadata option" where
  "findHelpEntryByPath entries plugin command =
     find (\<lambda>e. equalFold (hePluginName e) plugin \<and> equalFold (heCommand e) command) entries"

definition findHelpEntriesByPlugin :: "helpCommandMetadata list \<Rightarrow> string \<Rightarrow> helpCommandMetadata list" where
  "findHelpEntriesByPlugin entries plugin = sort_key heCommand (filter (\<lambda>e. equalFold (hePluginName e) plugin) entries)"

definition renderExactHelpEntry :: "helpContext \<Rightarrow> helpCommandMetadata \<Rightarrow> nat \<Rightarrow> string" where
  "renderExactHelpEntry hc entry siblings =
     (let availability = trimSpace (formatExactHelpAvailability entry);
          body = renderHelpEntry hc entry True False 3 # (if availability \<noteq> [] then [''**Availability:** '' @ availability] else [])
      in joinWith (nl @ nl)
           ([''**Command help:** `'' @ hePluginName entry @ ''/'' @ heCommand entry @ ''`'', joinLines body] @
            (if siblings > 1 then [''**More from this plugin:** '' @ formatInlineSuggestedCommand hc (''(alias) help '' @ hePluginName entry)] else [])))"

definition sortEntries :: "helpCommandMetadata list \<Rightarrow> helpCommandMetadata list" where
  "sortEntries = sort_key (\<lambda>e. (hePluginName e, heCommand e))"

definition renderCommandsOverview :: "helpContext \<Rightarrow> string \<Rightarrow> helpCommandMetadata list \<Rightarrow> string" where
  "renderCommandsOverview hc title entries =
     (case sortEntries entries of
        [e] \<Rightarrow> renderExactHelpEntry hc e 1
      | es \<Rightarrow> joinLines ([title, []] @ renderHelpSummaryLines hc es @ [[], fullHelpFooter hc []]))"

definition helpAddressKey :: "helpCommandMetadata \<Rightarrow> string" where
  "helpAddressKey entry = hePluginName entry @ ''/'' @ heCommand entry"

text \<open>The commands of a plugin, followed by the other matches of its name as a keyword.\<close>

fun addMatches :: "string list \<Rightarrow> helpCommandMetadata list \<Rightarrow> helpCommandMetadata list" where
  "addMatches seen [] = []"
| "addMatches seen (e # es) =
     (if helpAddressKey e \<in> set seen then addMatches seen es else e # addMatches (helpAddressKey e # seen) es)"

definition renderKeywordPluginSection ::
    "helpContext \<Rightarrow> string \<Rightarrow> helpCommandMetadata list \<Rightarrow> (helpCommandMetadata \<times> nat) list \<Rightarrow> string" where
  "renderKeywordPluginSection hc keyword pluginEntries matches =
     (let entries = pluginEntries @ addMatches (map helpAddressKey pluginEntries) (map fst matches);
          summary = pluginOverviewSummary pluginEntries
      in case entries of
           [e] \<Rightarrow> renderExactHelpEntry hc e (length pluginEntries)
         | _ \<Rightarrow> joinLines ([''**Command matches for keyword:** `'' @ toLower keyword @ ''`''] @
                   (if summary \<noteq> [] then [summary] else []) @ [[]] @ renderHelpSummaryLines hc entries @ [[], fullHelpFooter hc []]))"

subsection \<open>Messages that fit\<close>

definition helpOutputChunkBytes :: nat where "helpOutputChunkBytes = 12 * 1024"

definition trimLines :: "string \<Rightarrow> string" where
  "trimLines s = trimRightBy (\<lambda>c. c = CHR 0x0A) (trimLeftBy (\<lambda>c. c = CHR 0x0A) s)"

text \<open>The loop over the lines, with what it has of the current chunk.\<close>

fun splitLoop :: "nat \<Rightarrow> string list \<Rightarrow> string \<Rightarrow> string list" where
  "splitLoop limit [] current = (if current \<noteq> [] then [trimLines current] else [])"
| "splitLoop limit (line # lines) current =
     (let additional = length line + (if current \<noteq> [] then 1 else 0) in
      if current \<noteq> [] \<and> length current + additional > limit
      then trimLines current # splitLoop limit lines line
      else splitLoop limit lines (if current \<noteq> [] then current @ nl @ line else line))"

definition splitHelpOutput :: "string \<Rightarrow> int \<Rightarrow> string list" where
  "splitHelpOutput message0 limit =
     (let message = trimLines message0 in
      if trimSpace message = [] \<or> limit \<le> 0 \<or> int (length message) \<le> limit then [message]
      else splitLoop (nat limit) (splitByte CHR 0x0A message) [])"

subsection \<open>The help commands\<close>

definition defaultHelp :: "string list" where
  "defaultHelp =
     [''(alias) help <keyword> - get help for the provided <keyword>'',
      ''(alias) commands - browse commands available in this channel'',
      ''(alias) help-all - summarize all commands available in this channel, including global commands'']"

definition quickHelp :: "helpContext \<Rightarrow> string list \<Rightarrow> string" where
  "quickHelp hc connectorHelp =
     joinLines ([''**Quick help**''] @ map (formatSuggestedHelpLine hc) (if connectorHelp = [] then defaultHelp else connectorHelp) @
       [[], ''**Plugin help:** '' @ formatInlineSuggestedCommand hc ''(alias) help <plugin>'',
        ''**Exact command help:** '' @ formatInlineSuggestedCommand hc ''(alias) help <plugin>/<command>'',
        ''**Browse this channel:** '' @ formatInlineSuggestedCommand hc ''(alias) commands''])"

definition helpForPath :: "helpContext \<Rightarrow> helpCommandMetadata list \<Rightarrow> parsedHelpQuery \<Rightarrow> string" where
  "helpForPath hc entries query =
     (case findHelpEntryByPath entries (pqPluginName query) (pqCommand query) of
        None \<Rightarrow> ''Sorry, I couldn't find that command. Try '' @ formatInlineSuggestedCommand hc (''(alias) help '' @ pqPluginName query) @
                '' or '' @ formatInlineSuggestedCommand hc ''(alias) commands'' @ ''.''
      | Some entry \<Rightarrow> renderExactHelpEntry hc entry (length (findHelpEntriesByPlugin entries (pqPluginName query))))"

definition helpForKeyword :: "helpContext \<Rightarrow> helpCommandMetadata list \<Rightarrow> string \<Rightarrow> string" where
  "helpForKeyword hc entries keyword =
     (let pluginEntries = findHelpEntriesByPlugin entries keyword; matches = rankHelpMatches entries keyword in
      if pluginEntries \<noteq> [] then renderKeywordPluginSection hc keyword pluginEntries matches
      else (case matches of
              [] \<Rightarrow> ''Sorry, I didn't find any commands matching your keyword. Try '' @
                     formatInlineSuggestedCommand hc ''(alias) commands'' @ '' or '' @
                     formatInlineSuggestedCommand hc ''(alias) help <plugin>/<command>'' @ ''.''
            | [(entry, score)] \<Rightarrow> renderExactHelpEntry hc entry (length (findHelpEntriesByPlugin entries (hePluginName entry)))
            | _ \<Rightarrow> ''**Command matches for keyword:** `'' @ toLower keyword @ ''`'' @ nl @ nl @
                    joinLines (renderHelpSummaryLines hc (map fst matches)) @ nl @ nl @ fullHelpFooter hc []))"

definition helpMessage ::
    "helpContext \<Rightarrow> string list \<Rightarrow> (bool \<Rightarrow> helpCommandMetadata list) \<Rightarrow> string \<Rightarrow> string list \<Rightarrow> string option" where
  "helpMessage hc connectorHelp collect command args =
     (let query = parseHelpQuery args; noCommands = ''Sorry, I couldn't find any commands available in this channel'' in
      if command = ''help'' then
        Some (if pqTerm query = [] then quickHelp hc connectorHelp
              else if pqHasPath query then helpForPath hc (collect True) query
              else helpForKeyword hc (collect True) (pqTerm query))
      else if command = ''commands'' then
        Some (if collect False = [] then noCommands
              else renderCommandsOverview hc ''**Commands available in this channel**'' (collect False))
      else if command = ''help-all'' then
        Some (if collect True = [] then noCommands
              else renderCommandsOverview hc ''**Commands available in this channel (including global)**'' (collect True))
      else None)"

text \<open>The messages the help plugin sends.\<close>

definition helpReplies :: "helpContext \<Rightarrow> string list \<Rightarrow> (bool \<Rightarrow> helpCommandMetadata list) \<Rightarrow> string \<Rightarrow> string list \<Rightarrow> string list" where
  "helpReplies hc connectorHelp collect command args =
     (case helpMessage hc connectorHelp collect command args of
        None \<Rightarrow> []
      | Some message \<Rightarrow> splitHelpOutput message (int helpOutputChunkBytes))"

subsection \<open>Chunks keep the text\<close>

definition textLines :: "string \<Rightarrow> string list" where
  "textLines s = filter (\<lambda>l. l \<noteq> []) (splitByte CHR 0x0A s)"

lemma textLines_Nil [simp]: "textLines [] = []"
  by (simp add: textLines_def)

lemma splitByte_append: "splitByte c (s @ c # t) = splitByte c s @ splitByte c t"
proof (induction s)
  case (Cons x s)
  then show ?case using splitByte_ne [of c s] by (cases "splitByte c s") auto
qed simp

lemma splitByte_single: "c \<notin> set s \<Longrightarrow> splitByte c s = [s]"
  by (induction s) auto

lemma splitByte_parts: "l \<in> set (splitByte c s) \<Longrightarrow> c \<notin> set l"
proof (induction s arbitrary: l)
  case (Cons x s)
  then show ?case using splitByte_ne [of c s] by (cases "splitByte c s") (auto split: if_splits)
qed simp

lemma textLines_append: "textLines (s @ nl @ t) = textLines s @ textLines t"
  by (simp add: textLines_def nl_def splitByte_append)

lemma textLines_single: "CHR 0x0A \<notin> set s \<Longrightarrow> textLines s = (if s = [] then [] else [s])"
  by (simp add: textLines_def splitByte_single)

lemma textLines_newline: "textLines (CHR 0x0A # s) = textLines s" "textLines (s @ [CHR 0x0A]) = textLines s"
proof -
  have "textLines ([] @ nl @ s) = textLines s" by (simp only: textLines_append) (simp add: textLines_def)
  then show "textLines (CHR 0x0A # s) = textLines s" by (simp add: nl_def)
  have "textLines (s @ nl @ []) = textLines s" by (simp only: textLines_append) (simp add: textLines_def)
  then show "textLines (s @ [CHR 0x0A]) = textLines s" by (simp add: nl_def)
qed

lemma textLines_trim: "textLines (trimLines s) = textLines s"
proof -
  have left: "textLines (dropWhile (\<lambda>c. c = CHR 0x0A) s) = textLines s" for s
    by (induction s) (auto simp: textLines_newline)
  have right: "textLines (rev (dropWhile (\<lambda>c. c = CHR 0x0A) s)) = textLines (rev s)" for s
    by (induction s) (auto simp: textLines_newline)
  show ?thesis using right [of "rev (dropWhile (\<lambda>c. c = CHR 0x0A) s)"] left [of s]
    by (simp add: trimLines_def trimLeftBy_def trimRightBy_def)
qed

lemma trimLines_length: "length (trimLines s) \<le> length s"
  using length_dropWhile_le [of "\<lambda>c. c = CHR 0x0A" s]
    length_dropWhile_le [of "\<lambda>c. c = CHR 0x0A" "rev (dropWhile (\<lambda>c. c = CHR 0x0A) s)"]
  by (simp add: trimLines_def trimLeftBy_def trimRightBy_def)

lemma trimLines_set: "set (trimLines s) \<subseteq> set s"
  by (auto simp: trimLines_def trimLeftBy_def trimRightBy_def dest!: set_dropWhileD)

text \<open>Whether a line still goes into the current chunk, and the chunk with it.\<close>

definition lineFits :: "nat \<Rightarrow> string \<Rightarrow> string \<Rightarrow> bool" where
  "lineFits limit current line \<longleftrightarrow> current = [] \<or> length current + 1 + length line \<le> limit"

definition withLine :: "string \<Rightarrow> string \<Rightarrow> string" where
  "withLine current line = (if current \<noteq> [] then current @ nl @ line else line)"

lemma splitLoop_step:
  "splitLoop limit (line # lines) current =
     (if lineFits limit current line then splitLoop limit lines (withLine current line)
      else trimLines current # splitLoop limit lines line)"
  by (auto simp: lineFits_def withLine_def)

lemma withLine_lines: "textLines (withLine current line) = textLines current @ textLines line"
  using textLines_append by (simp add: withLine_def textLines_def)

lemma splitLoop_lines:
  assumes "\<forall>l \<in> set lines. CHR 0x0A \<notin> set l"
  shows "concat (map textLines (splitLoop limit lines current)) = textLines current @ filter (\<lambda>l. l \<noteq> []) lines"
  using assms
proof (induction lines arbitrary: current)
  case Nil
  then show ?case by (simp add: textLines_trim)
next
  case (Cons line rest)
  have "textLines line = (if line = [] then [] else [line])" using Cons(2) by (simp add: textLines_single)
  then show ?case using Cons by (simp add: splitLoop_step textLines_trim withLine_lines del: splitLoop.simps(2))
qed

lemma splitLoop_size:
  assumes "\<forall>l \<in> set lines. CHR 0x0A \<notin> set l" and "length current \<le> limit \<or> CHR 0x0A \<notin> set current"
    and "chunk \<in> set (splitLoop limit lines current)"
  shows "length chunk \<le> limit \<or> CHR 0x0A \<notin> set chunk"
  using assms
proof (induction lines arbitrary: current)
  case Nil
  then show ?case using trimLines_length [of current] trimLines_set [of current] by (auto split: if_splits)
next
  case (Cons line rest)
  have line: "CHR 0x0A \<notin> set line" using Cons(2) by simp
  show ?case
  proof (cases "lineFits limit current line")
    case True
    then have "length (withLine current line) \<le> limit \<or> CHR 0x0A \<notin> set (withLine current line)"
      using line by (auto simp: lineFits_def withLine_def nl_def)
    then show ?thesis using Cons True by (simp add: splitLoop_step del: splitLoop.simps(2))
  next
    case False
    then have "chunk = trimLines current \<or> chunk \<in> set (splitLoop limit rest line)"
      using Cons(4) by (simp add: splitLoop_step del: splitLoop.simps(2))
    then show ?thesis using Cons line trimLines_length [of current] trimLines_set [of current] by auto
  qed
qed

text \<open>
  Help that is longer than a transport takes is cut between lines: every chunk is within the limit, is a
  single line or is blank, and the chunks together have every line of the message with text, in order.
\<close>

theorem help_chunks:
  assumes "0 < limit"
  shows "(\<forall>chunk \<in> set (splitHelpOutput message limit). int (length chunk) \<le> limit \<or> CHR 0x0A \<notin> set chunk \<or> trimSpace chunk = []) \<and>
    concat (map textLines (splitHelpOutput message limit)) = textLines message"
proof (cases "trimSpace (trimLines message) = [] \<or> limit \<le> 0 \<or> int (length (trimLines message)) \<le> limit")
  case True
  then show ?thesis using assms by (auto simp: splitHelpOutput_def textLines_trim)
next
  case False
  let ?lines = "splitByte CHR 0x0A (trimLines message)"
  have lines: "\<forall>l \<in> set ?lines. CHR 0x0A \<notin> set l" by (simp add: splitByte_parts)
  have chunks: "splitHelpOutput message limit = splitLoop (nat limit) ?lines []" using False by (simp add: splitHelpOutput_def)
  have "concat (map textLines (splitHelpOutput message limit)) = textLines message"
    using splitLoop_lines [OF lines, of "nat limit" "[]"] textLines_trim [of message] by (simp add: chunks textLines_def)
  moreover have "int (length chunk) \<le> limit \<or> CHR 0x0A \<notin> set chunk" if "chunk \<in> set (splitHelpOutput message limit)" for chunk
    using splitLoop_size [OF lines, of "[]" "nat limit" chunk] that assms chunks by (auto simp: le_nat_iff)
  ultimately show ?thesis by blast
qed

theorem help_chunks_witness:
  "\<not> splitHelpOutput (''one'' @ nl @ ''two'' @ nl @ ''three'') 8 = [] \<and>
   concat (map textLines (splitHelpOutput (''one'' @ nl @ ''two'' @ nl @ ''three'') 8)) = textLines (''one'' @ nl @ ''two'' @ nl @ ''three'')"
proof -
  have "splitHelpOutput (''one'' @ nl @ ''two'' @ nl @ ''three'') 8 \<noteq> []" by code_simp
  then show ?thesis using help_chunks [of 8 "''one'' @ nl @ ''two'' @ nl @ ''three''"] by simp
qed

subsection \<open>Help does not show what a user may not use\<close>

text \<open>An entry that is allowed: its command belongs to a plugin the user has access to, and no group forbids it.\<close>

definition shownFor :: "(string \<Rightarrow> string set option) \<Rightarrow> worker \<Rightarrow> (Plugin \<times> helpMatcher list) list \<Rightarrow> 'a helpCommandMetadata_scheme \<Rightarrow> bool" where
  "shownFor groups w plugins e \<longleftrightarrow>
     (\<exists>(plugin, ms) \<in> set plugins.
        hePluginName e = tkName (plTask plugin) \<and> heCommand e \<in> (commandKey \<circ> hmCommand) ` set ms \<and> heCommand e \<noteq> [] \<and>
        userCanAccessTask w (plTask plugin) \<and> \<not> groupForbids groups (cfDefaultAuthorizer (wCfg w)) plugin (heCommand e))"

lemma foldl_keeps: "P s \<Longrightarrow> (\<And>s x. P s \<Longrightarrow> x \<in> set xs \<Longrightarrow> P (f s x)) \<Longrightarrow> P (foldl f s xs)"
  by (induction xs arbitrary: s) simp_all

lemma addMatcher_names [simp]:
  "hePluginName (addMatcher hc plugin command m e) = hePluginName e" "heCommand (addMatcher hc plugin command m e) = heCommand e"
  by (simp_all add: addMatcher_def Let_def)

lemma update_all:
  assumes "\<forall>(key, e) \<in> set table. P e" and "P e" shows "\<forall>(key, e) \<in> set (AList.update key e table). P e"
  using assms by (induction table) auto

lemma addCommand_shown:
  assumes "\<forall>(key, e) \<in> set table. shownFor groups w plugins e" and "(plugin, ms) \<in> set plugins" and "m \<in> set ms"
    and "userCanAccessTask w (plTask plugin)"
  shows "\<forall>(key, e) \<in> set (addCommand hc groups (cfDefaultAuthorizer (wCfg w)) plugin table m). shownFor groups w plugins e"
proof (cases "commandKey (hmCommand m) = [] \<or> groupForbids groups (cfDefaultAuthorizer (wCfg w)) plugin (commandKey (hmCommand m))")
  case False
  let ?key = "helpKey (tkName (plTask plugin)) (commandKey (hmCommand m))"
  let ?e = "case map_of table ?key of None \<Rightarrow> newHelpEntry (plTask plugin) (commandKey (hmCommand m)) | Some e \<Rightarrow> e"
  have "shownFor groups w plugins ?e"
  proof (cases "map_of table ?key")
    case None
    then show ?thesis using assms(2,3,4) False by (auto simp: shownFor_def newHelpEntry_def intro!: bexI [of _ "(plugin, ms)"])
  next
    case (Some e)
    then show ?thesis using assms(1) by (auto dest: map_of_SomeD)
  qed
  then have "shownFor groups w plugins (addMatcher hc plugin (commandKey (hmCommand m)) m ?e)" by (simp add: shownFor_def)
  then show ?thesis using update_all [OF assms(1)] False by (simp add: addCommand_def Let_def)
qed (use assms(1) in \<open>auto simp: addCommand_def Let_def\<close>)

lemma addCommands_shown:
  assumes "\<forall>(key, e) \<in> set table. shownFor groups w plugins e" and "(plugin, all) \<in> set plugins" and "set ms \<subseteq> set all"
    and "userCanAccessTask w (plTask plugin)"
  shows "\<forall>(key, e) \<in> set (foldl (addCommand hc groups (cfDefaultAuthorizer (wCfg w)) plugin) table ms). shownFor groups w plugins e"
  using assms(1)
  by (rule foldl_keeps [where P = "\<lambda>table. \<forall>(key, e) \<in> set table. shownFor groups w plugins e"])
     (rule addCommand_shown [OF _ assms(2) _ assms(4)], use assms(3) in auto)

text \<open>
  C38. When the names of the commands are in lower case and trimmed, the help never shows a command to a
  user who may not use it: every entry, for any context and any set of plugins, is a command of an enabled
  plugin the user has access to, and if that command requires authorization, by the rule of the dispatcher,
  and the groups of the user are known to the authorizer, they include the required one. A name with a
  capital escapes the check of the help (lemma \<open>capital_command_shown\<close>).
\<close>

theorem help_hides_forbidden:
  assumes "e \<in> set (collectHelpCommandMetadata hc groups w plugins includeGlobal)"
    and "list_all (\<lambda>(plugin, ms). list_all (\<lambda>m. commandKey (hmCommand m) = hmCommand m) ms) plugins"
  shows "\<exists>(plugin, ms) \<in> set plugins. \<exists>m \<in> set ms.
    hePluginName e = tkName (plTask plugin) \<and> heCommand e = hmCommand m \<and>
    \<not> tkDisabled (plTask plugin) \<and> userCanAccessTask w (plTask plugin) \<and>
    (\<forall>gs. groups (effectiveAuthorizerName (plTask plugin) (cfDefaultAuthorizer (wCfg w))) = Some gs \<longrightarrow>
       commandRequiresAuthorization plugin (hmCommand m) \<longrightarrow> trimSpace (tkAuthRequire (plTask plugin)) \<noteq> [] \<longrightarrow>
       userHasRequiredGroup gs (tkAuthRequire (plTask plugin)))"
proof -
  let ?step = "\<lambda>table (plugin, ms).
    let (available, specific) = pluginAvailable w (plTask plugin) True in
    if tkDisabled (plTask plugin) \<or> \<not> available \<or> (\<not> includeGlobal \<and> \<not> specific) then table
    else foldl (addCommand hc groups (cfDefaultAuthorizer (wCfg w)) plugin) table ms"
  have step: "\<forall>(key, e) \<in> set (?step table p). shownFor groups w plugins e"
    if "\<forall>(key, e) \<in> set table. shownFor groups w plugins e" and "p \<in> set plugins" for table p
  proof (cases p)
    case (Pair plugin ms)
    obtain available specific where av: "pluginAvailable w (plTask plugin) True = (available, specific)" by fastforce
    then have "available \<Longrightarrow> userCanAccessTask w (plTask plugin)" by (auto simp: pluginAvailable_def split: if_splits)
    then show ?thesis
      using addCommands_shown [OF that(1), of plugin ms ms hc] that Pair av by (cases "available") auto
  qed
  have all: "\<forall>(key, e) \<in> set (foldl ?step [] plugins). shownFor groups w plugins e"
    by (rule foldl_keeps [where P = "\<lambda>table. \<forall>(key, e) \<in> set table. shownFor groups w plugins e"]) (simp, rule step)
  obtain key x where x: "(key, x) \<in> set (foldl ?step [] plugins)" "e = (if heUsage x = [] then x\<lparr>heUsage := ''(alias) '' @ heCommand x\<rparr> else x)"
    using assms by (auto simp: collectHelpCommandMetadata_def)
  then have "shownFor groups w plugins x" using all by auto
  then have "shownFor groups w plugins e" using x(2) by (simp add: shownFor_def)
  then obtain plugin ms m where m: "(plugin, ms) \<in> set plugins" "m \<in> set ms" "hePluginName e = tkName (plTask plugin)"
    "heCommand e = commandKey (hmCommand m)" "userCanAccessTask w (plTask plugin)"
    "\<not> groupForbids groups (cfDefaultAuthorizer (wCfg w)) plugin (heCommand e)" by (auto simp: shownFor_def)
  moreover have "commandKey (hmCommand m) = hmCommand m" using assms(2) m(1,2) by (auto simp: list_all_iff)
  moreover from this have "\<forall>gs. groups (effectiveAuthorizerName (plTask plugin) (cfDefaultAuthorizer (wCfg w))) = Some gs \<longrightarrow>
       commandRequiresAuthorization plugin (hmCommand m) \<longrightarrow> trimSpace (tkAuthRequire (plTask plugin)) \<noteq> [] \<longrightarrow>
       userHasRequiredGroup gs (tkAuthRequire (plTask plugin))" using m(4,6) by (auto simp: groupForbids_def)
  moreover have "\<not> tkDisabled (plTask plugin)" using m(5) by (simp add: userCanAccessTask_def)
  ultimately show ?thesis by (intro bexI [of _ "(plugin, ms)"]) auto
qed

definition demoHelpContext :: helpContext where
  "demoHelpContext = \<lparr>hcBotName = ''floyd'', hcAlias = '';'', hcHiddenSupported = False, hcFormatHidden = (\<lambda>_. [])\<rparr>"

definition demoHelpMatcher :: helpMatcher where
  "demoHelpMatcher = \<lparr>hmCommand = ''Hello'', hmSimpleMatcher = ''hello'', hmUsage = ''(alias) hello'', hmSummary = ''Greets'',
     hmDetails = [], hmExamples = [], hmKeywords = []\<rparr>"

definition forbiddenPlugin :: Plugin where
  "forbiddenPlugin = demoPlugin\<lparr>plTask := demoTask\<lparr>tkName := ''secret'', tkUsers := [''bob'']\<rparr>\<rparr>"

lemma demo_collect:
  "map hePluginName (collectHelpCommandMetadata demoHelpContext (\<lambda>_. None) demoWorker
     [(forbiddenPlugin, [demoHelpMatcher]), (demoPlugin, [demoHelpMatcher])] True) = [''demo'']"
  by code_simp

definition demoLowerMatcher :: helpMatcher where
  "demoLowerMatcher = demoHelpMatcher\<lparr>hmCommand := ''hello''\<rparr>"

theorem help_hides_forbidden_witness:
  "\<exists>e. e \<in> set (collectHelpCommandMetadata demoHelpContext (\<lambda>_. None) demoWorker
      [(forbiddenPlugin, [demoLowerMatcher]), (demoPlugin, [demoLowerMatcher])] True) \<and>
    (\<exists>(plugin, ms) \<in> set [(forbiddenPlugin, [demoLowerMatcher]), (demoPlugin, [demoLowerMatcher])].
       hePluginName e = tkName (plTask plugin) \<and> userCanAccessTask demoWorker (plTask plugin))"
proof -
  let ?ps = "[(forbiddenPlugin, [demoLowerMatcher]), (demoPlugin, [demoLowerMatcher])]"
  have "collectHelpCommandMetadata demoHelpContext (\<lambda>_. None) demoWorker ?ps True \<noteq> []" by code_simp
  then obtain e where e: "e \<in> set (collectHelpCommandMetadata demoHelpContext (\<lambda>_. None) demoWorker ?ps True)"
    by (cases "collectHelpCommandMetadata demoHelpContext (\<lambda>_. None) demoWorker ?ps True") auto
  have "list_all (\<lambda>(plugin, ms). list_all (\<lambda>m. commandKey (hmCommand m) = hmCommand m) ms) ?ps" by code_simp
  from help_hides_forbidden [OF e this] e show ?thesis by fast
qed

text \<open>
  The check of the help compares the name of a command in lower case with the configured names. A command
  \<^verbatim>\<open>Hello\<close> that requires a group is listed for a user who is known to be in no group at all.
\<close>

definition capitalPlugin :: Plugin where
  "capitalPlugin = demoPlugin\<lparr>plAuthorizedCommands := [''Hello''],
     plTask := (plTask demoPlugin)\<lparr>tkAuthorizer := ''groups'', tkAuthRequire := ''staff''\<rparr>\<rparr>"

lemma capital_command_shown:
  "map heCommand (collectHelpCommandMetadata demoHelpContext (\<lambda>_. Some {}) demoWorker [(capitalPlugin, [demoHelpMatcher])] True)
     = [''hello''] \<and>
   hmCommand demoHelpMatcher = ''Hello'' \<and> commandRequiresAuthorization capitalPlugin ''Hello'' \<and>
   \<not> userHasRequiredGroup {} (tkAuthRequire (plTask capitalPlugin))"
  by (intro conjI; code_simp)

end
