(* ===== verification/HelpFallback.thy ===== *)
theory HelpFallback
  imports HelpRender
begin

text \<open>
  The reply to a command nobody knows (bot/help\_metadata\_api.go and the fallback plugin of
  bot/builtins.go): the commands a user can browse, which of them can be used here, the ranked
  matches of the mistyped command, the advice made of them and its text.
\<close>

subsection \<open>What can be browsed, and what can be used here\<close>

record helpMetadataContext =
  mxBotName :: string
  mxBotAlias :: string
  mxUser :: string
  mxChannel :: string
  mxCommandMode :: string
  mxDirect :: bool
  mxThreaded :: bool
  mxProtocol :: string
  mxPrivateSupported :: bool
  mxPrivateHint :: string
  mxRawQuery :: string
  mxNormalizedQuery :: string

record helpMetadataEntry = helpCommandMetadata +
  heVisibleHere :: bool

definition toHelpCommandMetadata :: "'a helpMetadataEntry_scheme \<Rightarrow> helpCommandMetadata" where
  "toHelpCommandMetadata e = helpCommandMetadata.truncate e"

text \<open>Whether a command of a plugin can be used where the user is.\<close>

definition commandVisibleHere :: "worker \<Rightarrow> Plugin \<Rightarrow> string \<Rightarrow> bool" where
  "commandVisibleHere w plugin command =
     (if privateCommandContext (wIncoming w)
      then commandAllowsPrivate plugin command \<and> privateContextSatisfiesChannels w (plTask plugin) plugin
      else fst (pluginAvailable w (plTask plugin) False) \<and> \<not> commandRequiresPrivate plugin command)"

definition addMetadata ::
    "helpContext \<Rightarrow> (string \<Rightarrow> string set option) \<Rightarrow> worker \<Rightarrow> Plugin \<Rightarrow>
     (string \<times> helpMetadataEntry) list \<Rightarrow> helpMatcher \<Rightarrow> (string \<times> helpMetadataEntry) list" where
  "addMetadata hc groups w plugin table m =
     (let command = commandKey (hmCommand m); task = plTask plugin; key = helpKey (tkName task) command;
          here = commandVisibleHere w plugin command;
          entry = (case map_of table key of
                     None \<Rightarrow> helpCommandMetadata.extend (newHelpEntry task command) \<lparr>heVisibleHere = here\<rparr>
                   | Some e \<Rightarrow> e\<lparr>heVisibleHere := heVisibleHere e \<or> here\<rparr>)
      in if command = [] \<or> groupForbids groups (cfDefaultAuthorizer (wCfg w)) plugin command then table
         else AList.update key (addMatcher hc plugin command m entry) table)"

record helpMetadataResponse =
  mrContext :: helpMetadataContext
  mrVisibleHere :: "helpMetadataEntry list"
  mrBrowseable :: "helpMetadataEntry list"
  mrRankedHere :: "(helpMetadataEntry \<times> nat) list"
  mrRankedBrowseable :: "(helpMetadataEntry \<times> nat) list"

definition metadataContext :: "helpContext \<Rightarrow> worker \<Rightarrow> string \<Rightarrow> string \<Rightarrow> string \<Rightarrow> helpMetadataContext" where
  "metadataContext hc w protocol cmdMode query =
     \<lparr>mxBotName = hcBotName hc, mxBotAlias = hcAlias hc, mxUser = wUser w, mxChannel = wChannel w,
      mxCommandMode = trimSpace cmdMode, mxDirect = (trimSpace (wChannel w) = []),
      mxThreaded = icThreadedMessage (wIncoming w), mxProtocol = protocol, mxPrivateSupported = hcHiddenSupported hc,
      mxPrivateHint = hiddenCommandHint hc, mxRawQuery = trimSpace query,
      mxNormalizedQuery = normalizeFallbackTerm query (hcAlias hc) (hcBotName hc)\<rparr>"

definition collectEntries ::
    "helpContext \<Rightarrow> (string \<Rightarrow> string set option) \<Rightarrow> worker \<Rightarrow> (Plugin \<times> helpMatcher list) list \<Rightarrow> helpMetadataEntry list" where
  "collectEntries hc groups w plugins =
     sort_key (\<lambda>e. (hePluginName e, heCommand e))
       (map (\<lambda>(key, e). if heUsage e = [] then e\<lparr>heUsage := ''(alias) '' @ heCommand e\<rparr> else e)
         (foldl (\<lambda>table (plugin, ms).
            if tkDisabled (plTask plugin) \<or> \<not> fst (pluginAvailable w (plTask plugin) True) then table
            else foldl (addMetadata hc groups w plugin) table ms) [] plugins))"

definition collectHelpMetadata ::
    "helpContext \<Rightarrow> (string \<Rightarrow> string set option) \<Rightarrow> worker \<Rightarrow> (Plugin \<times> helpMatcher list) list \<Rightarrow>
     string \<Rightarrow> string \<Rightarrow> string \<Rightarrow> helpMetadataResponse" where
  "collectHelpMetadata hc groups w plugins protocol cmdMode query =
     (let cx = metadataContext hc w protocol cmdMode query; entries = collectEntries hc groups w plugins;
          here = filter heVisibleHere entries; normalized = mxNormalizedQuery cx
      in \<lparr>mrContext = cx, mrVisibleHere = here, mrBrowseable = entries,
          mrRankedHere = (if normalized = [] then [] else rankHelpMatches here normalized),
          mrRankedBrowseable = (if normalized = [] then [] else rankHelpMatches entries normalized)\<rparr>)"

subsection \<open>Advice\<close>

datatype adviceKind = NoMatch | CloseHere | CloseElsewhere | WrongChannel

text \<open>An entry of the advice: the fields the struct of the code does not have are empty.\<close>

record fallbackAdviceEntry = helpMetadataEntry +
  heScore :: nat

definition toFallbackAdviceEntry :: "helpMetadataEntry \<Rightarrow> nat \<Rightarrow> fallbackAdviceEntry" where
  "toFallbackAdviceEntry e score =
     helpMetadataEntry.extend
       (e\<lparr>heSimpleMatchers := [], heDetails := [], hePrivateExamples := [], heScope := [], heAllChannels := False, hePrivateHint := []\<rparr>)
       \<lparr>heScore = score\<rparr>"

definition adviceToMetadata :: "fallbackAdviceEntry \<Rightarrow> helpCommandMetadata" where
  "adviceToMetadata e = (helpCommandMetadata.truncate e)\<lparr>heChannels := []\<rparr>"

text \<open>The signals of an entry of the advice leave its examples out.\<close>

definition adviceSignals :: "fallbackAdviceEntry \<Rightarrow> string \<Rightarrow> nat \<times> nat" where
  "adviceSignals e normalized = fallbackMatchSignals ((helpCommandMetadata.truncate e)\<lparr>heSimpleMatcher := [], heExamples := []\<rparr>) normalized"

definition shouldPreferWrongChannel :: "fallbackAdviceEntry list \<Rightarrow> fallbackAdviceEntry \<Rightarrow> string \<Rightarrow> bool" where
  "shouldPreferWrongChannel here elsewhere normalized =
     (let (hits, terms) = adviceSignals elsewhere normalized;
          stronger = (terms \<ge> 2 \<and> hits = terms \<and>
            (case here of [] \<Rightarrow> True | best # _ \<Rightarrow> fst (adviceSignals best normalized) < hits))
      in stronger \<or>
         (here = [] \<and> heScore elsewhere \<ge> fallbackAdviceLikelyScore \<and> hits > 0) \<or>
         (here = [] \<and> terms > 0 \<and> hits = terms \<and> heScore elsewhere \<ge> fallbackAdviceMinScore) \<or>
         (heScore elsewhere \<ge> fallbackAdviceStrongScore \<and>
           (case here of [] \<Rightarrow> True | best # _ \<Rightarrow> heScore elsewhere \<ge> heScore best + fallbackAdviceScoreMargin)))"

definition joinFallbackChannels :: "string list \<Rightarrow> string" where
  "joinFallbackChannels channels =
     (let quoted = map (\<lambda>ch. ''#'' @ ch) (sort channels) in
      if quoted = [] then []
      else if length quoted > 3 then joinWith '', '' (take 3 quoted) @ '', or other configured channels''
      else if length quoted = 1 then hd quoted
      else joinWith '', '' (butlast quoted) @ '' or '' @ last quoted)"

definition fallbackContextFromAdviceEntry :: "fallbackAdviceEntry \<Rightarrow> string" where
  "fallbackContextFromAdviceEntry e =
     (if heChannels e \<noteq> [] then ''This looks more likely to belong in '' @ joinFallbackChannels (heChannels e) @ ''.'' else [])"

record fallbackAdvice =
  adContext :: helpMetadataContext
  adAdvice :: adviceKind
  adWrongChannelHint :: string
  adHere :: "fallbackAdviceEntry list"
  adElsewhere :: "fallbackAdviceEntry list"

definition relevantEntries :: "(helpMetadataEntry \<Rightarrow> bool) \<Rightarrow> string \<Rightarrow> nat \<Rightarrow> (helpMetadataEntry \<times> nat) list \<Rightarrow> fallbackAdviceEntry list" where
  "relevantEntries p normalized n matches =
     map (\<lambda>(e, score). toFallbackAdviceEntry e score)
       (take n (filter (\<lambda>(e, score). p e \<and> isRelevantFallbackMatch e normalized score) matches))"

definition collectFallbackAdvice :: "helpMetadataResponse \<Rightarrow> fallbackAdvice" where
  "collectFallbackAdvice meta =
     (let normalized = mxNormalizedQuery (mrContext meta);
          here = relevantEntries (\<lambda>_. True) normalized fallbackAdviceMaxHere (mrRankedHere meta);
          elsewhere = relevantEntries (\<lambda>e. \<not> heVisibleHere e) normalized fallbackAdviceMaxElsewhere (mrRankedBrowseable meta);
          wrong = (case elsewhere of [] \<Rightarrow> False | best # _ \<Rightarrow> shouldPreferWrongChannel here best normalized)
      in \<lparr>adContext = mrContext meta,
          adAdvice = (if wrong then WrongChannel else if here \<noteq> [] then CloseHere else if elsewhere \<noteq> [] then CloseElsewhere else NoMatch),
          adWrongChannelHint = (if wrong then fallbackContextFromAdviceEntry (hd elsewhere) else []),
          adHere = here, adElsewhere = elsewhere\<rparr>)"

text \<open>Whether the first entry is a suggestion the reply can make with confidence.\<close>

definition fallbackConfidentSuggestion :: "fallbackAdviceEntry list \<Rightarrow> string \<Rightarrow> fallbackAdviceEntry option" where
  "fallbackConfidentSuggestion entries query =
     (case entries of
        [] \<Rightarrow> None
      | best # rest \<Rightarrow>
          let topClose = fallbackCloseMatchScore (adviceToMetadata best) query;
              (hits, terms) = fallbackMatchSignals (adviceToMetadata best) query
          in if topClose < fallbackAdviceLikelyScore then None
             else if terms > 1 \<and> hits < 2 \<and> hits < terms then None
             else (case rest of
                     [] \<Rightarrow> Some best
                   | second # _ \<Rightarrow>
                       if topClose \<ge> fallbackAdviceStrongScore \<and>
                          topClose \<ge> fallbackCloseMatchScore (adviceToMetadata second) query + fallbackAdviceScoreMargin
                       then Some best else None))"

subsection \<open>The reply\<close>

definition formatFallbackExampleForMode :: "helpContext \<Rightarrow> fallbackAdviceEntry \<Rightarrow> string \<Rightarrow> string \<Rightarrow> string" where
  "formatFallbackExampleForMode hc e mode botName =
     (case heExamples e of
        [] \<Rightarrow> []
      | example # _ \<Rightarrow>
          trimSpace (expandHelpPlaceholders hc
            (if trimSpace mode = ''name'' \<and> trimSpace botName \<noteq> []
             then joinWith (botName @ '','') (splitStr ''(alias)'' example) else example)))"

text \<open>The parts of the reply: how the robot is addressed, the attempt as it is shown, and a command of the help.\<close>

definition commandPrefix :: "helpMetadataContext \<Rightarrow> string" where
  "commandPrefix cx =
     (let alias = trimSpace (mxBotAlias cx); botName = trimSpace (mxBotName cx) in
      if mxCommandMode cx = ''name'' \<and> botName \<noteq> [] then botName @ '', ''
      else if alias \<noteq> [] then alias
      else if botName \<noteq> [] then botName @ '', ''
      else [])"

definition attemptedCommand :: "helpMetadataContext \<Rightarrow> string" where
  "attemptedCommand cx = (if mxNormalizedQuery cx = [] then mxRawQuery cx else mxNormalizedQuery cx)"

definition displayedAttempt :: "helpMetadataContext \<Rightarrow> string" where
  "displayedAttempt cx =
     (let display = trimSpace (attemptedCommand cx); prefix = commandPrefix cx in
      if display = [] then ''that command''
      else ''`'' @ (if prefix \<noteq> [] \<and> \<not> hasPrefix display prefix then prefix @ display else display) @ ''`'')"

definition formatHelpCommand :: "helpContext \<Rightarrow> helpMetadataContext \<Rightarrow> string \<Rightarrow> string" where
  "formatHelpCommand hc cx command =
     (let hidden = trimSpace (formatHiddenCommand hc command) in
      if mxPrivateSupported cx \<and> hidden \<noteq> [] then ''`'' @ hidden @ ''`''
      else ''`'' @ trimSpace (expandHelpPlaceholders hc (''(alias) '' @ trimSpace command)) @ ''`'')"

definition shownChannel :: "helpMetadataContext \<Rightarrow> string" where
  "shownChannel cx =
     (let channel = trimSpace (mxChannel cx) in if channel = [] \<or> mxDirect cx then [] else ''`#'' @ channel @ ''`'')"

definition couldNotMatch :: "helpMetadataContext \<Rightarrow> string" where
  "couldNotMatch cx =
     ''I couldn't match '' @ displayedAttempt cx @
       (if shownChannel cx \<noteq> [] then '' in channel '' @ shownChannel cx else []) @ ''.''"

definition generalGuidance :: "helpContext \<Rightarrow> helpMetadataContext \<Rightarrow> string" where
  "generalGuidance hc cx = ''Try '' @ formatHelpCommand hc cx ''commands'' @ '' or '' @ formatHelpCommand hc cx ''help <keyword>'' @ ''.''"

definition exactHelp :: "helpContext \<Rightarrow> helpMetadataContext \<Rightarrow> fallbackAdviceEntry \<Rightarrow> string" where
  "exactHelp hc cx e = ''More help: '' @ formatHelpCommand hc cx (''help '' @ hePluginName e @ ''/'' @ heCommand e)"

definition strongSuggestion :: "helpContext \<Rightarrow> helpMetadataContext \<Rightarrow> fallbackAdviceEntry \<Rightarrow> bool \<Rightarrow> string" where
  "strongSuggestion hc cx e includeAvailability =
     (let example = formatFallbackExampleForMode hc e (mxCommandMode cx) (trimSpace (mxBotName cx)) in
      joinLines ([displayedAttempt cx @ '' looks close to `'' @ hePluginName e @ ''/'' @ heCommand e @ ''`.''] @
        (if example \<noteq> [] then [''Try: `'' @ example @ ''`''] else []) @
        (if includeAvailability \<and> heChannels e \<noteq> []
         then [''That command isn't available in channel '' @ shownChannel cx @ ''; try '' @ joinFallbackChannels (heChannels e) @ ''.''] else []) @
        [exactHelp hc cx e]))"

definition elsewhereReply :: "helpContext \<Rightarrow> helpMetadataContext \<Rightarrow> fallbackAdviceEntry list \<Rightarrow> string" where
  "elsewhereReply hc cx elsewhere =
     (case elsewhere of
        [] \<Rightarrow>
          (if trimSpace (attemptedCommand cx) = []
           then ''I couldn't match that command'' @ (if shownChannel cx \<noteq> [] then '' in channel '' @ shownChannel cx else []) @ ''.''
           else couldNotMatch cx) @ nl @ generalGuidance hc cx
      | best # _ \<Rightarrow>
          if fallbackConfidentSuggestion [best] (mxNormalizedQuery cx) \<noteq> None then strongSuggestion hc cx best True
          else joinLines [couldNotMatch cx, exactHelp hc cx best, generalGuidance hc cx])"

definition hereReply :: "helpContext \<Rightarrow> helpMetadataContext \<Rightarrow> fallbackAdviceEntry list \<Rightarrow> string" where
  "hereReply hc cx here =
     (case fallbackConfidentSuggestion here (mxNormalizedQuery cx) of
        Some best \<Rightarrow> strongSuggestion hc cx best False
      | None \<Rightarrow>
          (case here of
             [best] \<Rightarrow> joinLines [couldNotMatch cx, exactHelp hc cx best, generalGuidance hc cx]
           | _ \<Rightarrow>
               (case helpTokens (normalizeHelpPhrase (attemptedCommand cx)) of
                  [] \<Rightarrow> joinLines [couldNotMatch cx, generalGuidance hc cx]
                | lead # _ \<Rightarrow>
                    joinLines [''`'' @ lead @ ''` matches several commands.'',
                      joinLines (''You may be looking for:'' # renderHelpSummaryLines hc (map adviceToMetadata here)),
                      ''More help: '' @ formatHelpCommand hc cx (''help '' @ lead),
                      ''Exact help: '' @ formatHelpCommand hc cx ''help <plugin>/<command>''])))"

definition buildDeterministicFallbackReply :: "helpContext \<Rightarrow> fallbackAdvice \<Rightarrow> string" where
  "buildDeterministicFallbackReply hc ad =
     (let cx = adContext ad in
      case adAdvice ad of
        WrongChannel \<Rightarrow>
          (case adElsewhere ad of
             [] \<Rightarrow> elsewhereReply hc cx []
           | best # _ \<Rightarrow>
               if fallbackConfidentSuggestion [best] (mxNormalizedQuery cx) \<noteq> None then strongSuggestion hc cx best True
               else joinLines ([couldNotMatch cx] @ (if adWrongChannelHint ad \<noteq> [] then [adWrongChannelHint ad] else []) @ [exactHelp hc cx best]))
      | CloseHere \<Rightarrow> hereReply hc cx (adHere ad)
      | _ \<Rightarrow> elsewhereReply hc cx (adElsewhere ad))"

text \<open>The fallback plugin: the reply to the words that matched nothing.\<close>

definition fallbackReply :: "helpContext \<Rightarrow> (string \<Rightarrow> helpMetadataResponse) \<Rightarrow> string list \<Rightarrow> string" where
  "fallbackReply hc meta args =
     (let words = (case args of [] \<Rightarrow> [] | a # _ \<Rightarrow> trimSpace a);
          reply = trimSpace (buildDeterministicFallbackReply hc (collectFallbackAdvice (meta words)))
      in if reply = [] then ''I couldn't match that command.'' else reply)"
subsection \<open>What the advice may name\<close>

lemma relevantEntries_from:
  assumes "x \<in> set (relevantEntries p normalized n matches)"
  obtains e score where "(e, score) \<in> set matches" and "p e" and "isRelevantFallbackMatch e normalized score"
    and "x = toFallbackAdviceEntry e score"
  using assms by (auto simp: relevantEntries_def dest!: in_set_takeD)

lemma relevantEntries_length: "length (relevantEntries p normalized n matches) \<le> n"
  by (simp add: relevantEntries_def)

lemma advice_names [simp]:
  "hePluginName (toFallbackAdviceEntry e score) = hePluginName e" "heCommand (toFallbackAdviceEntry e score) = heCommand e"
  "heChannels (toFallbackAdviceEntry e score) = heChannels e" "heVisibleHere (toFallbackAdviceEntry e score) = heVisibleHere e"
  by (simp_all add: toFallbackAdviceEntry_def helpMetadataEntry.defs)

text \<open>An entry of the table stands for a command its user may use; it is visible here if some plugin of its name makes it so.\<close>

lemma addMetadata_shown:
  assumes "\<forall>(key, e) \<in> set table. shownFor groups w plugins e" and "(plugin, ms) \<in> set plugins" and "m \<in> set ms"
    and "userCanAccessTask w (plTask plugin)"
  shows "\<forall>(key, e) \<in> set (addMetadata hc groups w plugin table m). shownFor groups w plugins e"
proof (cases "commandKey (hmCommand m) = [] \<or> groupForbids groups (cfDefaultAuthorizer (wCfg w)) plugin (commandKey (hmCommand m))")
  case False
  let ?key = "helpKey (tkName (plTask plugin)) (commandKey (hmCommand m))" and ?here = "commandVisibleHere w plugin (commandKey (hmCommand m))"
  let ?e = "case map_of table ?key of
      None \<Rightarrow> helpCommandMetadata.extend (newHelpEntry (plTask plugin) (commandKey (hmCommand m))) \<lparr>heVisibleHere = ?here\<rparr>
    | Some e \<Rightarrow> e\<lparr>heVisibleHere := heVisibleHere e \<or> ?here\<rparr>"
  have "shownFor groups w plugins ?e"
  proof (cases "map_of table ?key")
    case None
    then show ?thesis using assms(2,3,4) False
      by (auto simp: shownFor_def newHelpEntry_def helpCommandMetadata.defs intro!: bexI [of _ "(plugin, ms)"])
  next
    case (Some e)
    then have "shownFor groups w plugins e" using assms(1) by (auto dest: map_of_SomeD)
    then show ?thesis using Some by (simp add: shownFor_def)
  qed
  then have "shownFor groups w plugins (addMatcher hc plugin (commandKey (hmCommand m)) m ?e)" by (simp add: shownFor_def)
  then show ?thesis using update_all [OF assms(1)] False by (simp add: addMetadata_def Let_def)
qed (use assms(1) in \<open>auto simp: addMetadata_def Let_def\<close>)

lemma collectEntries_shown:
  assumes "e \<in> set (collectEntries hc groups w plugins)" shows "shownFor groups w plugins e"
proof -
  let ?P = "\<lambda>table. \<forall>(key, e) \<in> set table. shownFor groups w plugins (e :: helpMetadataEntry)"
  let ?step = "\<lambda>table (plugin, ms). if tkDisabled (plTask plugin) \<or> \<not> fst (pluginAvailable w (plTask plugin) True) then table
    else foldl (addMetadata hc groups w plugin) table ms"
  have step: "?P (?step table p)" if "?P table" and "p \<in> set plugins" for table p
  proof (cases p)
    case (Pair plugin ms)
    show ?thesis
    proof (cases "fst (pluginAvailable w (plTask plugin) True)")
      case True
      then have access: "userCanAccessTask w (plTask plugin)" by (auto simp: pluginAvailable_def split: if_splits)
      have "(plugin, ms) \<in> set plugins" using that(2) Pair by simp
      then have "?P (foldl (addMetadata hc groups w plugin) table ms)"
        by (intro foldl_keeps [where P = ?P, OF that(1)] addMetadata_shown [OF _ _ _ access])
      then show ?thesis using that(1) Pair by simp
    qed (use that(1) Pair in simp)
  qed
  have "?P (foldl ?step [] plugins)" by (rule foldl_keeps [where P = ?P]) (simp, rule step)
  then show ?thesis using assms by (auto simp: collectEntries_def shownFor_def split: if_splits)
qed

text \<open>
  The advice on a mistyped command names nothing that the user may not use: every command it suggests is a command
  of an enabled plugin the user has access to, for a group the user is not known to lack; the ones suggested for
  here can be used where the user is, those suggested for elsewhere cannot; there are at most four of either; and
  there is advice exactly when there is a suggestion.
\<close>

theorem advice_allowed:
  assumes "ad = collectFallbackAdvice (collectHelpMetadata hc groups w plugins protocol cmdMode query)"
  shows "(\<forall>e \<in> set (adHere ad) \<union> set (adElsewhere ad). shownFor groups w plugins e) \<and>
    (\<forall>e \<in> set (adHere ad). heVisibleHere e) \<and> (\<forall>e \<in> set (adElsewhere ad). \<not> heVisibleHere e) \<and>
    length (adHere ad) \<le> 4 \<and> length (adElsewhere ad) \<le> 4 \<and>
    (adAdvice ad = NoMatch \<longleftrightarrow> adHere ad = [] \<and> adElsewhere ad = [])"
proof -
  let ?m = "collectHelpMetadata hc groups w plugins protocol cmdMode query"
  let ?q = "mxNormalizedQuery (mrContext ?m)"
  have here: "adHere ad = relevantEntries (\<lambda>_. True) ?q fallbackAdviceMaxHere (mrRankedHere ?m)"
    and elsewhere: "adElsewhere ad = relevantEntries (\<lambda>e. \<not> heVisibleHere e) ?q fallbackAdviceMaxElsewhere (mrRankedBrowseable ?m)"
    using assms by (simp_all add: collectFallbackAdvice_def Let_def)
  have rank: "e \<in> set (collectEntries hc groups w plugins) \<and> heVisibleHere e" if "(e, score) \<in> set (mrRankedHere ?m)" for e score
    using that by (auto simp: collectHelpMetadata_def Let_def rank_in split: if_splits)
  have ranked: "e \<in> set (collectEntries hc groups w plugins)" if "(e, score) \<in> set (mrRankedBrowseable ?m)" for e score
    using that by (auto simp: collectHelpMetadata_def Let_def rank_in split: if_splits)
  have h: "shownFor groups w plugins x \<and> heVisibleHere x" if "x \<in> set (adHere ad)" for x
    using that unfolding here
    by (rule relevantEntries_from) (use rank collectEntries_shown in \<open>fastforce simp: shownFor_def\<close>)
  have l: "shownFor groups w plugins x \<and> \<not> heVisibleHere x" if "x \<in> set (adElsewhere ad)" for x
    using that unfolding elsewhere
    by (rule relevantEntries_from) (use ranked collectEntries_shown in \<open>fastforce simp: shownFor_def\<close>)
  have "length (adHere ad) \<le> 4" "length (adElsewhere ad) \<le> 4"
    using relevantEntries_length [of "\<lambda>_. True" ?q fallbackAdviceMaxHere] relevantEntries_length [of "\<lambda>e. \<not> heVisibleHere e" ?q fallbackAdviceMaxElsewhere]
    by (simp_all add: here elsewhere fallbackAdviceMaxHere_def fallbackAdviceMaxElsewhere_def)
  moreover have "adAdvice ad = NoMatch \<longleftrightarrow> adHere ad = [] \<and> adElsewhere ad = []"
    using assms by (auto simp: collectFallbackAdvice_def Let_def split: list.splits if_splits)
  ultimately show ?thesis using h l by blast
qed

definition demoAdvice :: fallbackAdvice where
  "demoAdvice = collectFallbackAdvice (collectHelpMetadata demoHelpContext (\<lambda>_. None) demoWorker
     [(forbiddenPlugin, [demoHelpMatcher]), (demoPlugin, [demoHelpMatcher])] ''ssh'' ''alias'' '';helo'')"

theorem advice_allowed_witness:
  "length (adHere demoAdvice) \<le> 4 \<and> length (adElsewhere demoAdvice) \<le> 4"
  using advice_allowed [OF demoAdvice_def] by simp

end
