(* ===== verification/ConfigMerge.thy ===== *)
theory ConfigMerge
  imports BrainCrypt "HOL-Library.Multiset"
begin

text \<open>
  How configuration files are put together (bot/config\_load.go): installed and custom files are merged
  over defaults, lists may be appended to, and templates take variables and secrets from the files of an
  environment. A parsed file is a value; Go iterates over a map in any order, so a map is the list of its
  entries in the order of the iteration. The parser and the file system are arguments.
\<close>

subsection \<open>Merging\<close>

text \<open>
  A float is the number as JSON writes it. \<open>CUnsupported\<close> is what JSON cannot write: a map with a key that is no
  string, an infinity or a NaN.
\<close>

datatype confValue = CNull | CBool bool | CInt int | CFloat string | CStr string | CUnsupported
  | CList "confValue list" | CMap "(string \<times> confValue) list"

type_synonym confMap = "(string \<times> confValue) list"

definition appendPrefix :: string where "appendPrefix = ''Append''"

definition mergeKey :: "string \<Rightarrow> string" where
  "mergeKey k = trimPrefix k appendPrefix"

text \<open>
  A value is merged into the one that is there: maps entry by entry, lists replaced or appended, null changes
  nothing where there is something, and everything else replaces. A list of the entries of the target
  keeps their order; a new key goes to its end.
\<close>

fun mergeValue :: "bool \<Rightarrow> confValue \<Rightarrow> confValue option \<Rightarrow> confValue"
and mergemap :: "confMap \<Rightarrow> confMap \<Rightarrow> confMap" where
  "mergeValue appendArr v None = v"
| "mergeValue appendArr (CMap mv) (Some tv) = (case tv of CMap mtv \<Rightarrow> CMap (mergemap mv mtv) | _ \<Rightarrow> CMap mv)"
| "mergeValue appendArr (CList sv) (Some tv) = (case tv of CList tva \<Rightarrow> CList (if appendArr then tva @ sv else sv) | _ \<Rightarrow> CList sv)"
| "mergeValue appendArr CNull (Some tv) = tv"
| "mergeValue appendArr (CBool b) (Some tv) = CBool b"
| "mergeValue appendArr (CInt i) (Some tv) = CInt i"
| "mergeValue appendArr (CStr s) (Some tv) = CStr s"
| "mergeValue appendArr (CFloat n) (Some tv) = CFloat n"
| "mergeValue appendArr CUnsupported (Some tv) = CUnsupported"
| "mergemap [] t = t"
| "mergemap ((k, v) # m) t =
     mergemap m (AList.update (mergeKey k) (mergeValue (hasPrefix k appendPrefix) v (map_of t (mergeKey k))) t)"

subsection \<open>Variables and secrets\<close>

record configVariableSet =
  cvSecrets :: "string \<Rightarrow> string option"
  cvVariables :: "string \<Rightarrow> string option"

definition newConfigVariableSet :: configVariableSet where
  "newConfigVariableSet = \<lparr>cvSecrets = (\<lambda>_. None), cvVariables = (\<lambda>_. None)\<rparr>"

text \<open>An entry of a variables file without a value takes the name away.\<close>

definition mergeVariableMap :: "(string \<Rightarrow> string option) \<Rightarrow> (string \<times> string option) list \<Rightarrow> string \<Rightarrow> string option" where
  "mergeVariableMap dst src = foldl (\<lambda>d (k, v). d(k := v)) dst src"

datatype variablesError = InvalidEnvironment | ReadingVariables string | UnmarshallingVariables string

record variablesFile =
  vfSecrets :: "(string \<times> string option) list"
  vfVariables :: "(string \<times> string option) list"

text \<open>What reading a variables file gives: it is missing, cannot be read, is blank, does not parse, or holds entries.\<close>

datatype variablesRead = VarsMissing | VarsUnreadable | VarsBlank | VarsBad | VarsLoaded variablesFile

definition mergeConfigVariablesFile ::
    "(string \<Rightarrow> variablesRead) \<Rightarrow> string \<Rightarrow> configVariableSet \<Rightarrow> variablesError + configVariableSet" where
  "mergeConfigVariablesFile files path vs =
     (case files path of
        VarsMissing \<Rightarrow> Inr vs
      | VarsUnreadable \<Rightarrow> Inl (ReadingVariables path)
      | VarsBlank \<Rightarrow> Inr vs
      | VarsBad \<Rightarrow> Inl (UnmarshallingVariables path)
      | VarsLoaded f \<Rightarrow> Inr \<lparr>cvSecrets = mergeVariableMap (cvSecrets vs) (vfSecrets f),
                              cvVariables = mergeVariableMap (cvVariables vs) (vfVariables f)\<rparr>)"

definition currentConfigTemplateEnvironment :: "string \<Rightarrow> string" where
  "currentConfigTemplateEnvironment deployEnvironment =
     (let env = trimSpace deployEnvironment in if env = [] then ''production'' else env)"

text \<open>
  The environment is a single path segment. For a name without a slash, \<open>filepath.Clean\<close> and
  \<open>filepath.Base\<close> change only the empty one, so the last check of the code never fires.
\<close>

definition validateConfigTemplateEnvironment :: "string \<Rightarrow> bool" where
  "validateConfigTemplateEnvironment env \<longleftrightarrow>
     env \<noteq> [] \<and> env \<noteq> ''.'' \<and> env \<noteq> ''..'' \<and> CHR ''/'' \<notin> set env \<and> CHR 0x5C \<notin> set env"

definition variablesPath :: "string \<Rightarrow> string \<Rightarrow> string" where
  "variablesPath configPath name = configPath @ ''/conf/variables/'' @ name @ ''.yaml''"

definition loadConfigVariables ::
    "(string \<Rightarrow> variablesRead) \<Rightarrow> string \<Rightarrow> string \<Rightarrow> variablesError + configVariableSet" where
  "loadConfigVariables files configPath deployEnvironment =
     (let env = currentConfigTemplateEnvironment deployEnvironment in
      if trimSpace configPath = [] then Inr newConfigVariableSet
      else if \<not> validateConfigTemplateEnvironment env then Inl InvalidEnvironment
      else (case mergeConfigVariablesFile files (variablesPath configPath ''common'') newConfigVariableSet of
              Inl e \<Rightarrow> Inl e
            | Inr vs \<Rightarrow> mergeConfigVariablesFile files (variablesPath configPath env) vs))"

text \<open>
  How secrets are resolved: required, preferred where there is a key, or never. The second component says whether
  a placeholder was used.
\<close>

datatype configSecretResolutionMode = SecretRequire | SecretPrefer | SecretRedact

definition redactedTemplateSecret :: string where "redactedTemplateSecret = ''XXXXXX''"

datatype templateError = SecretUndefined string | NoEncryption string | BadBase64 string | BadSecret string | VariableUndefined string
  | DecryptRemoved

definition secretTpl ::
    "gcmOps \<Rightarrow> configVariableSet \<Rightarrow> configSecretResolutionMode \<Rightarrow> string option \<Rightarrow> string \<Rightarrow> (templateError + string) \<times> bool" where
  "secretTpl gcm vs mode key name =
     (case cvSecrets vs name of
        None \<Rightarrow> (Inl (SecretUndefined name), False)
      | Some encval \<Rightarrow>
          if mode = SecretRedact then (Inr redactedTemplateSecret, True)
          else (case key of
                  None \<Rightarrow> if mode = SecretPrefer then (Inr redactedTemplateSecret, True) else (Inl (NoEncryption name), False)
                | Some k \<Rightarrow>
                    (case base64Decode encval of
                       None \<Rightarrow> (Inl (BadBase64 name), False)
                     | Some bytes \<Rightarrow>
                         (case decrypt gcm bytes k of None \<Rightarrow> (Inl (BadSecret name), False) | Some secret \<Rightarrow> (Inr secret, False)))))"

definition variableTpl :: "configVariableSet \<Rightarrow> string \<Rightarrow> templateError + string" where
  "variableTpl vs name = (case cvVariables vs name of None \<Rightarrow> Inl (VariableUndefined name) | Some v \<Rightarrow> Inr v)"

definition decryptTpl :: "string \<Rightarrow> templateError + string" where
  "decryptTpl encval = Inl DecryptRemoved"

definition defval :: "string \<Rightarrow> string \<Rightarrow> string" where
  "defval d i = (if i = [] then d else i)"

subsection \<open>Configuration files\<close>

text \<open>What a file gives: it cannot be read or expanded, is not valid, does not parse, or is a map.\<close>

datatype confFile = ConfUnreadable | ConfInvalid | ConfUnparsable | ConfParsed confMap

datatype confError = NotLoaded | NotValid string | NotParsed string

text \<open>Paths are clean ones; an empty base adds nothing.\<close>

definition confPath :: "string \<Rightarrow> string \<Rightarrow> string" where
  "confPath base filename = (if base = [] then [] else base @ ''/'') @ ''conf/'' @ filename"

text \<open>The state of a load: the merged configuration, whether something was loaded, and whether a file could not be read.\<close>

record confLoad =
  clCfg :: confMap
  clLoaded :: bool
  clRealErr :: bool

definition loadLayer :: "confFile \<Rightarrow> string \<Rightarrow> confLoad \<Rightarrow> confError + confLoad" where
  "loadLayer f path acc =
     (case f of
        ConfUnreadable \<Rightarrow> Inr (acc\<lparr>clRealErr := True\<rparr>)
      | ConfInvalid \<Rightarrow> Inl (NotValid path)
      | ConfUnparsable \<Rightarrow> Inl (NotParsed path)
      | ConfParsed m \<Rightarrow> if m = [] then Inr acc else Inr (acc\<lparr>clCfg := mergemap m (clCfg acc), clLoaded := True\<rparr>))"

text \<open>
  The result goes through JSON. When it cannot be written, the error is dropped, and nothing is left of the configuration.
\<close>

fun jsonable :: "confValue \<Rightarrow> bool" where
  "jsonable CUnsupported \<longleftrightarrow> False"
| "jsonable (CList vs) \<longleftrightarrow> list_all jsonable vs"
| "jsonable (CMap es) \<longleftrightarrow> list_all (\<lambda>(k, v). jsonable v) es"
| "jsonable _ \<longleftrightarrow> True"

definition toJsonMap :: "confMap \<Rightarrow> confMap" where
  "toJsonMap cfg = (if jsonable (CMap cfg) then cfg else [])"

definition getConfigFile ::
    "(string \<Rightarrow> confFile) \<Rightarrow> string \<Rightarrow> string \<Rightarrow> string \<Rightarrow> bool \<Rightarrow> confMap \<Rightarrow> confError + confMap" where
  "getConfigFile files installPath configPath filename required prev =
     (let installed = confPath installPath (if filename = ''gopherbot.yaml'' then ''robot.yaml'' else filename);
          custom = confPath configPath filename
      in case loadLayer (files installed) installed \<lparr>clCfg = prev, clLoaded = False, clRealErr = False\<rparr> of
           Inl e \<Rightarrow> Inl e
         | Inr l1 \<Rightarrow>
             (case (if configPath = [] then Inr l1 else loadLayer (files custom) custom l1) of
                Inl e \<Rightarrow> Inl e
              | Inr l2 \<Rightarrow> if required \<and> \<not> clLoaded l2 \<and> clRealErr l2 then Inl NotLoaded else Inr (toJsonMap (clCfg l2))))"

subsection \<open>What a merge gives\<close>

text \<open>The entry of the merged-in map that goes to a key, with whether it appends.\<close>

definition entryFor :: "confMap \<Rightarrow> string \<Rightarrow> (bool \<times> confValue) option" where
  "entryFor m k = map_option (\<lambda>(k', v). (hasPrefix k' appendPrefix, v)) (find (\<lambda>e. mergeKey (fst e) = k) m)"

text \<open>No two entries go to one key: a key is not given both plainly and to append.\<close>

definition keysApart :: "confMap \<Rightarrow> bool" where
  "keysApart m \<longleftrightarrow> distinct (map (mergeKey \<circ> fst) m)"

lemma update_lookup: "map_of (AList.update k v t) k' = (if k' = k then Some v else map_of t k')"
  by (simp add: update_conv')

lemma merged_lookup:
  assumes "keysApart m"
  shows "map_of (mergemap m t) k =
    (case entryFor m k of None \<Rightarrow> map_of t k | Some (appendArr, v) \<Rightarrow> Some (mergeValue appendArr v (map_of t k)))"
  using assms
proof (induction m arbitrary: t)
  case Nil
  then show ?case by (simp add: entryFor_def)
next
  case (Cons e m)
  obtain k0 v where e: "e = (k0, v)" by fastforce
  have IH: "map_of (mergemap m t') k = (case entryFor m k of None \<Rightarrow> map_of t' k
      | Some (appendArr, v) \<Rightarrow> Some (mergeValue appendArr v (map_of t' k)))" for t'
    using Cons by (simp add: keysApart_def)
  show ?case
  proof (cases "mergeKey k0 = k")
    case True
    have "k \<notin> set (map (mergeKey \<circ> fst) m)" using Cons.prems e True by (simp add: keysApart_def)
    then have "entryFor m k = None" by (force simp: entryFor_def find_None_iff)
    then show ?thesis using IH True e by (simp add: entryFor_def update_lookup)
  next
    case False
    then have "k \<noteq> mergeKey k0" by simp
    then show ?thesis using IH e False by (simp add: entryFor_def update_lookup split: option.split)
  qed
qed

lemma entryFor_order:
  assumes "keysApart m" and "mset m = mset m'" shows "entryFor m k = entryFor m' k"
proof -
  have same: "set m' = set m" "keysApart m'"
    using assms by (auto simp: keysApart_def dest: mset_eq_setD) (metis mset_map mset_eq_imp_distinct_iff)
  show ?thesis
  proof (cases "find (\<lambda>e. mergeKey (fst e) = k) m")
    case None
    then have "find (\<lambda>e. mergeKey (fst e) = k) m' = None" using same by (simp add: find_None_iff)
    then show ?thesis using None by (simp add: entryFor_def)
  next
    case (Some e)
    then have e: "e \<in> set m" "mergeKey (fst e) = k" by (auto simp: find_Some_iff)
    have "find (\<lambda>e. mergeKey (fst e) = k) m' \<noteq> None" using e same(1) find_None_iff [of "\<lambda>e. mergeKey (fst e) = k" m'] by metis
    then obtain e' where e': "find (\<lambda>e. mergeKey (fst e) = k) m' = Some e'" by blast
    then have "e' \<in> set m" "mergeKey (fst e') = k" using same(1) by (auto simp: find_Some_iff)
    then have "e' = e" using e assms(1) by (auto simp: keysApart_def distinct_map inj_on_def)
    then show ?thesis using Some e' by (simp add: entryFor_def)
  qed
qed

text \<open>
  A merge is what its rules say, in whatever order Go iterates over the map that is merged in: when no key is given
  both plainly and with the prefix to append, every key of the result is the merged value of its entry where
  there is one, and untouched where there is none.
\<close>

theorem merge_order_irrelevant:
  assumes "keysApart m" and "mset m = mset m'"
  shows "map_of (mergemap m t) = map_of (mergemap m' t) \<and>
    map_of (mergemap m t) k =
      (case entryFor m k of None \<Rightarrow> map_of t k | Some (appendArr, v) \<Rightarrow> Some (mergeValue appendArr v (map_of t k)))"
proof -
  have "keysApart m'" using assms by (simp add: keysApart_def) (metis mset_map mset_eq_imp_distinct_iff)
  then show ?thesis using merged_lookup [OF assms(1), of t] merged_lookup [of m' t] entryFor_order [OF assms] by auto
qed

theorem merge_order_irrelevant_witness:
  "map_of (mergemap [(''Alias'', CStr '';''), (''AppendUsers'', CList [CStr ''bob''])] [(''Users'', CList [CStr ''al''])]) =
   map_of (mergemap [(''AppendUsers'', CList [CStr ''bob'']), (''Alias'', CStr '';'')] [(''Users'', CList [CStr ''al''])])"
proof -
  have apart: "keysApart [(''Alias'', CStr '';''), (''AppendUsers'', CList [CStr ''bob''])]" by code_simp
  have same: "mset [(''Alias'', CStr '';''), (''AppendUsers'', CList [CStr ''bob''])] = mset [(''AppendUsers'', CList [CStr ''bob'']), (''Alias'', CStr '';'')]"
    by (simp add: add_mset_commute)
  show ?thesis using merge_order_irrelevant [OF apart same] by blast
qed

text \<open>With both forms of a key the order decides, and the prefix stays on a key of a section that is new.\<close>

lemma both_forms_depend_on_order:
  "mergemap [(''Users'', CList [CStr ''a'']), (''AppendUsers'', CList [CStr ''b''])] [(''Users'', CList [CStr ''c''])] =
     [(''Users'', CList [CStr ''a'', CStr ''b''])]"
  "mergemap [(''AppendUsers'', CList [CStr ''b'']), (''Users'', CList [CStr ''a''])] [(''Users'', CList [CStr ''c''])] =
     [(''Users'', CList [CStr ''a''])]"
  by code_simp+

lemma prefix_kept_in_new_section:
  "mergemap [(''Section'', CMap [(''AppendUsers'', CList [CStr ''b''])])] [] = [(''Section'', CMap [(''AppendUsers'', CList [CStr ''b''])])]"
  by code_simp

subsection \<open>What templates may see of secrets\<close>

text \<open>
  A dump or a check of the configuration does not reveal secrets: with redaction the text of a template does not depend
  on the key or on the stored value, and without a key nothing is ever decrypted; a secret that was encrypted with the
  key of the robot is what a template gets in normal operation.
\<close>

theorem secrets_redacted:
  assumes "gcmLaw gcm" and "length nonce = gcmNonceSize" and "encrypt gcm nonce p k = Some c" and "cvSecrets vs name = Some (base64Encode c)"
  shows "secretTpl gcm vs SecretRedact key name = (Inr redactedTemplateSecret, True) \<and>
    secretTpl gcm vs SecretPrefer None name = (Inr redactedTemplateSecret, True) \<and>
    secretTpl gcm vs SecretRequire None name = (Inl (NoEncryption name), False) \<and>
    secretTpl gcm vs SecretRequire (Some k) name = (Inr p, False)"
  using assms decrypt_encrypt [OF assms(1,2,3)] by (simp add: secretTpl_def base64_roundtrip)

theorem secrets_redacted_witness:
  "gcmLaw demoGcm \<and>
   secretTpl demoGcm (newConfigVariableSet\<lparr>cvSecrets := [''token'' \<mapsto>
       base64Encode (the (encrypt demoGcm (replicate 12 (CHR ''n'')) ''s3cret'' (replicate 16 (CHR ''k''))))]\<rparr>)
     SecretRedact (Some (replicate 16 (CHR ''k''))) ''token'' = (Inr redactedTemplateSecret, True)"
proof -
  let ?c = "the (encrypt demoGcm (replicate 12 (CHR ''n'')) ''s3cret'' (replicate 16 (CHR ''k'')))"
  have law: "gcmLaw demoGcm" by (simp add: demoGcm_def gcmLaw_def)
  have len: "length (replicate 12 (CHR ''n'')) = gcmNonceSize" by code_simp
  have enc: "encrypt demoGcm (replicate 12 (CHR ''n'')) ''s3cret'' (replicate 16 (CHR ''k'')) = Some ?c" by code_simp
  have stored: "cvSecrets (newConfigVariableSet\<lparr>cvSecrets := [''token'' \<mapsto> base64Encode ?c]\<rparr>) ''token'' = Some (base64Encode ?c)"
    by simp
  show ?thesis using law secrets_redacted [OF law len enc stored] by blast
qed

end
