(* ===== verification/TaskConf.thy ===== *)
theory TaskConf
  imports ConfigMerge Tasks
begin

text \<open>
  The configuration of one plugin or job (the loop of \<open>loadTaskConfig\<close> in bot/taskconf.go, with
  bot/command\_validation.go and bot/timeouts.go): its keys are decoded and stored, then checked, and a task that
  fails a check is disabled with a reason. Values come from encoding/json, whose rules for strings, numbers, lists and
  structs are written out. Regular expressions, durations in words, UUIDs and the wording of a reason are arguments.
\<close>

subsection \<open>Decoding values\<close>

fun jsonStr :: "confValue \<Rightarrow> string option" where
  "jsonStr (CStr s) = Some s"
| "jsonStr CNull = Some []"
| "jsonStr _ = None"

fun jsonBool :: "confValue \<Rightarrow> bool option" where
  "jsonBool (CBool b) = Some b"
| "jsonBool CNull = Some False"
| "jsonBool _ = None"

text \<open>A number decodes into an integer when it is written as one, and fits into 64 bits.\<close>

definition digitsVal :: "string \<Rightarrow> int" where
  "digitsVal ds = foldl (\<lambda>n d. 10 * n + (int (of_char d) - 48)) 0 ds"

definition isDecimal :: "string \<Rightarrow> bool" where
  "isDecimal ds \<longleftrightarrow> ds \<noteq> [] \<and> list_all (\<lambda>d. CHR ''0'' \<le> d \<and> d \<le> CHR ''9'') ds"

definition integerText :: "string \<Rightarrow> int option" where
  "integerText s =
     (case s of
        [] \<Rightarrow> None
      | c # ds \<Rightarrow>
          if c = CHR ''-'' then (if isDecimal ds then Some (- digitsVal ds) else None)
          else (if isDecimal s then Some (digitsVal s) else None))"

definition int64Ok :: "int \<Rightarrow> int option" where
  "int64Ok i = (if - (2 ^ 63) \<le> i \<and> i < 2 ^ 63 then Some i else None)"

fun jsonInt :: "confValue \<Rightarrow> int option" where
  "jsonInt (CInt i) = int64Ok i"
| "jsonInt (CFloat t) = Option.bind (integerText t) int64Ok"
| "jsonInt CNull = Some 0"
| "jsonInt _ = None"

definition jsonList :: "(confValue \<Rightarrow> 'a option) \<Rightarrow> confValue \<Rightarrow> 'a list option" where
  "jsonList dec v = (case v of CNull \<Rightarrow> Some [] | CList vs \<Rightarrow> those (map dec vs) | _ \<Rightarrow> None)"

abbreviation jsonStrs :: "confValue \<Rightarrow> string list option" where
  "jsonStrs \<equiv> jsonList jsonStr"

text \<open>A struct: every entry goes to the field of its name, in any case; unknown names are passed over. Null leaves a field as it is.\<close>

definition jsonStruct :: "(string \<Rightarrow> confValue \<Rightarrow> 'a \<Rightarrow> 'a option) \<Rightarrow> 'a \<Rightarrow> confValue \<Rightarrow> 'a option" where
  "jsonStruct field z v =
     (case v of
        CNull \<Rightarrow> Some z
      | CMap es \<Rightarrow> foldl (\<lambda>acc (k, x). Option.bind acc (field (toLower k) x)) (Some z) es
      | _ \<Rightarrow> None)"

definition setField :: "(confValue \<Rightarrow> 'b option) \<Rightarrow> ('b \<Rightarrow> 'a \<Rightarrow> 'a) \<Rightarrow> confValue \<Rightarrow> 'a \<Rightarrow> 'a option" where
  "setField dec upd v x = (if v = CNull then Some x else map_option (\<lambda>y. upd y x) (dec v))"

definition emptyMatcher :: InputMatcher where
  "emptyMatcher = \<lparr>imRegex = [], imSimpleMatcher = [], imCommand = [], imLabel = [], imChannelOnly = False,
     imContexts = [], imRe = None, imSimple = None\<rparr>"

text \<open>The help texts of a matcher are not part of the record; their values have to decode all the same.\<close>

definition matcherField :: "string \<Rightarrow> confValue \<Rightarrow> InputMatcher \<Rightarrow> InputMatcher option" where
  "matcherField k v =
     (if k = ''regex'' then setField jsonStr (\<lambda>s m. m\<lparr>imRegex := s\<rparr>) v
      else if k = ''simplematcher'' then setField jsonStr (\<lambda>s m. m\<lparr>imSimpleMatcher := s\<rparr>) v
      else if k = ''command'' then setField jsonStr (\<lambda>s m. m\<lparr>imCommand := s\<rparr>) v
      else if k = ''label'' then setField jsonStr (\<lambda>s m. m\<lparr>imLabel := s\<rparr>) v
      else if k = ''channelonly'' then setField jsonBool (\<lambda>b m. m\<lparr>imChannelOnly := b\<rparr>) v
      else if k = ''contexts'' then setField jsonStrs (\<lambda>cs m. m\<lparr>imContexts := cs\<rparr>) v
      else if k \<in> {''usage'', ''summary'', ''details''} then setField jsonStr (\<lambda>s m. m) v
      else if k \<in> {''examples'', ''keywords''} then setField jsonStrs (\<lambda>s m. m) v
      else Some)"

abbreviation jsonMatchers :: "confValue \<Rightarrow> InputMatcher list option" where
  "jsonMatchers \<equiv> jsonList (jsonStruct matcherField emptyMatcher)"

definition emptyTrigger :: JobTrigger where
  "emptyTrigger = \<lparr>jtRegex = [], jtUser = [], jtChannel = [], jtRe = (\<lambda>_. None)\<rparr>"

definition triggerField :: "string \<Rightarrow> confValue \<Rightarrow> JobTrigger \<Rightarrow> JobTrigger option" where
  "triggerField k v =
     (if k = ''regex'' then setField jsonStr (\<lambda>s t. t\<lparr>jtRegex := s\<rparr>) v
      else if k = ''user'' then setField jsonStr (\<lambda>s t. t\<lparr>jtUser := s\<rparr>) v
      else if k = ''channel'' then setField jsonStr (\<lambda>s t. t\<lparr>jtChannel := s\<rparr>) v
      else Some)"

abbreviation jsonTriggers :: "confValue \<Rightarrow> JobTrigger list option" where
  "jsonTriggers \<equiv> jsonList (jsonStruct triggerField emptyTrigger)"

subsection \<open>Timeouts\<close>

record ConfigDuration =
  cdDuration :: int
  cdSet :: bool

record TimeOutThresholds =
  toWarn :: ConfigDuration
  toKill :: ConfigDuration

record runtimeTimeOutThresholds =
  rtWarn :: int
  rtKill :: int

definition noDuration :: ConfigDuration where "noDuration = \<lparr>cdDuration = 0, cdSet = False\<rparr>"

definition noTimeOuts :: TimeOutThresholds where "noTimeOuts = \<lparr>toWarn = noDuration, toKill = noDuration\<rparr>"

text \<open>A duration is a text \<open>time.ParseDuration\<close> reads, blank for none, or nanoseconds. It is not negative.\<close>

definition decodeDuration :: "(string \<Rightarrow> int option) \<Rightarrow> confValue \<Rightarrow> ConfigDuration option" where
  "decodeDuration parseDuration v =
     (case jsonStr v of
        Some raw \<Rightarrow>
          if trimSpace raw = [] then Some \<lparr>cdDuration = 0, cdSet = True\<rparr>
          else (case parseDuration (trimSpace raw) of
                  None \<Rightarrow> None
                | Some d \<Rightarrow> if d < 0 then None else Some \<lparr>cdDuration = d, cdSet = True\<rparr>)
      | None \<Rightarrow>
          (case jsonInt v of
             None \<Rightarrow> None
           | Some nanos \<Rightarrow> if nanos < 0 then None else Some \<lparr>cdDuration = nanos, cdSet = True\<rparr>))"

definition thresholdField :: "(string \<Rightarrow> int option) \<Rightarrow> string \<Rightarrow> confValue \<Rightarrow> TimeOutThresholds \<Rightarrow> TimeOutThresholds option" where
  "thresholdField pd k v t =
     (if k = ''warn'' then map_option (\<lambda>d. t\<lparr>toWarn := d\<rparr>) (decodeDuration pd v)
      else if k = ''kill'' then map_option (\<lambda>d. t\<lparr>toKill := d\<rparr>) (decodeDuration pd v)
      else Some t)"

definition runtimeThresholds :: "TimeOutThresholds \<Rightarrow> runtimeTimeOutThresholds" where
  "runtimeThresholds t = \<lparr>rtWarn = cdDuration (toWarn t), rtKill = cdDuration (toKill t)\<rparr>"

definition validateRuntimeTimeOutThresholds :: "runtimeTimeOutThresholds \<Rightarrow> bool" where
  "validateRuntimeTimeOutThresholds cfg \<longleftrightarrow>
     \<not> rtWarn cfg < 0 \<and> \<not> rtKill cfg < 0 \<and> \<not> (rtWarn cfg > 0 \<and> rtKill cfg > 0 \<and> rtKill cfg \<le> rtWarn cfg)"

definition validateTimeOutThresholds :: "TimeOutThresholds \<Rightarrow> bool" where
  "validateTimeOutThresholds t \<longleftrightarrow> validateRuntimeTimeOutThresholds (runtimeThresholds t)"

definition resolveTimeOutThresholds :: "runtimeTimeOutThresholds \<Rightarrow> TimeOutThresholds \<Rightarrow> runtimeTimeOutThresholds" where
  "resolveTimeOutThresholds defaults overrides =
     (let r1 = (if cdSet (toWarn overrides) then defaults\<lparr>rtWarn := cdDuration (toWarn overrides)\<rparr> else defaults)
      in if cdSet (toKill overrides) then r1\<lparr>rtKill := cdDuration (toKill overrides)\<rparr> else r1)"

definition anyThreshold :: "runtimeTimeOutThresholds \<Rightarrow> bool" where
  "anyThreshold t \<longleftrightarrow> rtWarn t > 0 \<or> rtKill t > 0"

subsection \<open>Reserved command names\<close>

definition isEngineReservedCommandName :: "string \<Rightarrow> bool" where
  "isEngineReservedCommandName command \<longleftrightarrow> hasPrefix (trimSpace command) ''_''"

definition validatePluginCommandNames :: "InputMatcher list \<Rightarrow> InputMatcher list \<Rightarrow> bool" where
  "validatePluginCommandNames commands messageMatchers \<longleftrightarrow>
     list_all (\<lambda>m. \<not> isEngineReservedCommandName (imCommand m)) (commands @ messageMatchers)"

subsection \<open>A task that is being configured\<close>

text \<open>The task object with the parts of it that its record leaves out: a job's UUID trigger, reply matchers, free configuration and timeouts.\<close>

record loadedTask =
  ldObj :: taskObj
  ldReplyMatchers :: "InputMatcher list"
  ldConfig :: "confValue option"
  ldTimeOuts :: TimeOutThresholds
  ldUUIDTrigger :: string

fun mapTask :: "(Task \<Rightarrow> Task) \<Rightarrow> taskObj \<Rightarrow> taskObj" where
  "mapTask f (PluginObj p) = PluginObj (p\<lparr>plTask := f (plTask p)\<rparr>)"
| "mapTask f (JobObj j) = JobObj (j\<lparr>jbTask := f (jbTask j)\<rparr>)"
| "mapTask f (TaskObj t) = TaskObj (f t)"

definition onTask :: "(Task \<Rightarrow> Task) \<Rightarrow> loadedTask \<Rightarrow> loadedTask" where
  "onTask f ld = ld\<lparr>ldObj := mapTask f (ldObj ld)\<rparr>"

text \<open>Keys for plugins only or for jobs only are a mismatch on the other.\<close>

definition onPlugin :: "(Plugin \<Rightarrow> Plugin) \<Rightarrow> loadedTask \<Rightarrow> loadedTask option" where
  "onPlugin f ld = (case ldObj ld of PluginObj p \<Rightarrow> Some (ld\<lparr>ldObj := PluginObj (f p)\<rparr>) | _ \<Rightarrow> None)"

definition onJob :: "(Job \<Rightarrow> Job) \<Rightarrow> loadedTask \<Rightarrow> loadedTask option" where
  "onJob f ld = (case ldObj ld of JobObj j \<Rightarrow> Some (ld\<lparr>ldObj := JobObj (f j)\<rparr>) | _ \<Rightarrow> None)"

fun isPluginObj :: "taskObj \<Rightarrow> bool" where
  "isPluginObj (PluginObj p) = True"
| "isPluginObj _ = False"

datatype disableReason =
  DisabledInRobotConfig | NoDefaultConfig | BadConfigFile confError | BadDisabledValue | DisabledByConfiguration
| InvalidKey string | BadValue string | WrongKey string | BadTimeOuts | BadEffectiveTimeOuts
| NotVisible | NoJobChannel | ReservedCommand | BadCommandMatcher string | SimpleMessageMatcher | BadMessageRegex string
| EmptyTrigger | BadTriggerRegex string | CapitalLabel string | BadArgument string | BadReplyMatcher string
| BadCatchAllMode string | UnknownCommand string string | NoAuthorizer | AuthorizerMissing string | AuthorizerNotPlugin string
| AuthorizerUnused | BadUUIDTrigger | DuplicateUUIDTrigger string

definition disableTask :: "(disableReason \<Rightarrow> string) \<Rightarrow> disableReason \<Rightarrow> loadedTask \<Rightarrow> loadedTask" where
  "disableTask wording why = onTask (\<lambda>t. t\<lparr>tkDisabled := True, tkReason := wording why\<rparr>)"

subsection \<open>The keys of a configuration\<close>

definition setStrKey :: "string \<Rightarrow> string \<Rightarrow> loadedTask \<Rightarrow> loadedTask option" where
  "setStrKey key s ld =
     (if key = ''Channel'' then Some (onTask (\<lambda>t. t\<lparr>tkChannel := s\<rparr>) ld)
      else if key = ''Elevator'' then Some (onTask (\<lambda>t. t\<lparr>tkElevator := s\<rparr>) ld)
      else if key = ''Authorizer'' then Some (onTask (\<lambda>t. t\<lparr>tkAuthorizer := s\<rparr>) ld)
      else if key = ''AuthRequire'' then Some (onTask (\<lambda>t. t\<lparr>tkAuthRequire := s\<rparr>) ld)
      else if key = ''UUIDTrigger'' then map_option (\<lambda>l. l\<lparr>ldUUIDTrigger := trimSpace s\<rparr>) (onJob (\<lambda>j. j) ld)
      else Some ld)"

definition setBoolKey :: "string \<Rightarrow> bool \<Rightarrow> loadedTask \<Rightarrow> loadedTask option" where
  "setBoolKey key b ld =
     (if key = ''AllChannels'' then Some (onTask (\<lambda>t. t\<lparr>tkAllChannels := b\<rparr>) ld)
      else if key = ''RequireAdmin'' then Some (onTask (\<lambda>t. t\<lparr>tkRequireAdmin := b\<rparr>) ld)
      else if key = ''AuthorizeAllCommands'' then onPlugin (\<lambda>p. p\<lparr>plAuthorizeAllCommands := b\<rparr>) ld
      else if key = ''RequireAllCommandsPrivate'' then onPlugin (\<lambda>p. p\<lparr>plRequireAllCommandsPrivate := b\<rparr>) ld
      else if key = ''RestrictPrivateChannels'' then onPlugin (\<lambda>p. p\<lparr>plRestrictPrivateChannels := b\<rparr>) ld
      else if key = ''AmbientMatchCommand'' then onPlugin (\<lambda>p. p\<lparr>plAmbientMatchCommand := b\<rparr>) ld
      else if key = ''CatchAll'' then onPlugin (\<lambda>p. p\<lparr>plCatchAll := b\<rparr>) ld
      else if key = ''MatchUnlisted'' then onPlugin (\<lambda>p. p\<lparr>plMatchUnlisted := b\<rparr>) ld
      else onJob (\<lambda>j. j\<lparr>jbQuiet := b\<rparr>) ld)"

definition setStrsKey :: "string \<Rightarrow> string list \<Rightarrow> loadedTask \<Rightarrow> loadedTask option" where
  "setStrsKey key ss ld =
     (if key = ''Channels'' then (if isPluginObj (ldObj ld) then Some (onTask (\<lambda>t. t\<lparr>tkChannels := ss\<rparr>) ld) else None)
      else if key = ''Users'' then Some (onTask (\<lambda>t. t\<lparr>tkUsers := ss\<rparr>) ld)
      else if key = ''ParameterSets'' then Some ld
      else if key = ''AdminCommands'' then onPlugin (\<lambda>p. p\<lparr>plAdminCommands := ss\<rparr>) ld
      else if key = ''ElevatedCommands'' then onPlugin (\<lambda>p. p\<lparr>plElevatedCommands := ss\<rparr>) ld
      else if key = ''ElevateImmediateCommands'' then onPlugin (\<lambda>p. p\<lparr>plElevateImmediateCommands := ss\<rparr>) ld
      else if key = ''AllowedPrivateCommands'' then onPlugin (\<lambda>p. p\<lparr>plAllowedPrivateCommands := ss\<rparr>) ld
      else if key = ''RequiredPrivateCommands'' then onPlugin (\<lambda>p. p\<lparr>plRequiredPrivateCommands := ss\<rparr>) ld
      else if key = ''AuthorizedCommands'' then onPlugin (\<lambda>p. p\<lparr>plAuthorizedCommands := ss\<rparr>) ld
      else onPlugin (\<lambda>p. p\<lparr>plCatchAllModes := ss\<rparr>) ld)"

definition setMatchersKey :: "string \<Rightarrow> InputMatcher list \<Rightarrow> loadedTask \<Rightarrow> loadedTask option" where
  "setMatchersKey key ms ld =
     (if key = ''Commands'' then onPlugin (\<lambda>p. p\<lparr>plCommands := ms\<rparr>) ld
      else if key = ''MessageMatchers'' then onPlugin (\<lambda>p. p\<lparr>plMessageMatchers := ms\<rparr>) ld
      else if key = ''Arguments'' then onJob (\<lambda>j. j\<lparr>jbArguments := ms\<rparr>) ld
      else Some (ld\<lparr>ldReplyMatchers := ms\<rparr>))"

text \<open>What becomes of a key: its value is stored, the task is disabled, or the whole load ends.\<close>

datatype keyResult = KeyStored loadedTask | KeyDisables disableReason | KeyFatal

definition storeKey :: "string \<Rightarrow> 'a option \<Rightarrow> ('a \<Rightarrow> loadedTask option) \<Rightarrow> keyResult" where
  "storeKey key decoded store =
     (case decoded of
        None \<Rightarrow> KeyDisables (BadValue key)
      | Some x \<Rightarrow> (case store x of None \<Rightarrow> KeyDisables (WrongKey key) | Some ld \<Rightarrow> KeyStored ld))"

definition strKeys :: "string list" where
  "strKeys = [''Elevator'', ''Authorizer'', ''AuthRequire'', ''NameSpace'', ''Channel'', ''UUIDTrigger'']"

definition boolKeys :: "string list" where
  "boolKeys = [''AmbientMatchCommand'', ''AllChannels'', ''RequireAdmin'', ''AuthorizeAllCommands'',
     ''RequireAllCommandsPrivate'', ''RestrictPrivateChannels'', ''CatchAll'', ''MatchUnlisted'', ''Quiet'']"

definition strsKeys :: "string list" where
  "strsKeys = [''Channels'', ''ElevatedCommands'', ''ElevateImmediateCommands'', ''Users'', ''AuthorizedCommands'',
     ''AllowedPrivateCommands'', ''RequiredPrivateCommands'', ''AdminCommands'', ''ParameterSets'', ''CatchAllModes'']"

definition matchersKeys :: "string list" where
  "matchersKeys = [''Commands'', ''ReplyMatchers'', ''MessageMatchers'', ''Arguments'']"

definition applyKey :: "(string \<Rightarrow> int option) \<Rightarrow> string \<Rightarrow> confValue \<Rightarrow> loadedTask \<Rightarrow> keyResult" where
  "applyKey parseDuration key v ld =
     (if key \<in> set strKeys then storeKey key (jsonStr v) (\<lambda>s. setStrKey key s ld)
      else if key = ''KeepLogs'' then storeKey key (jsonInt v) (\<lambda>i. onJob (\<lambda>j. j\<lparr>jbKeepLogs := i\<rparr>) ld)
      else if key = ''TimeOuts'' then
        storeKey key (jsonStruct (thresholdField parseDuration) noTimeOuts v) (\<lambda>t. Some (ld\<lparr>ldTimeOuts := t\<rparr>))
      else if key = ''Disabled'' then KeyStored ld
      else if key \<in> set boolKeys then storeKey key (jsonBool v) (\<lambda>b. setBoolKey key b ld)
      else if key \<in> set strsKeys then storeKey key (jsonStrs v) (\<lambda>ss. setStrsKey key ss ld)
      else if key \<in> set matchersKeys then storeKey key (jsonMatchers v) (\<lambda>ms. setMatchersKey key ms ld)
      else if key = ''Triggers'' then storeKey key (jsonTriggers v) (\<lambda>ts. onJob (\<lambda>j. j\<lparr>jbTriggers := ts\<rparr>) ld)
      else if key = ''Config'' then KeyStored (ld\<lparr>ldConfig := Some v\<rparr>)
      else if key = ''Privileged'' then KeyFatal
      else KeyDisables (InvalidKey key))"

text \<open>The keys in the order of the iteration; the task keeps what was stored before a key that stops.\<close>

datatype keysResult = KeysDone loadedTask | KeysDisable disableReason loadedTask | KeysFatal loadedTask

fun applyKeys :: "(string \<Rightarrow> int option) \<Rightarrow> confMap \<Rightarrow> loadedTask \<Rightarrow> keysResult" where
  "applyKeys pd [] ld = KeysDone ld"
| "applyKeys pd ((key, v) # es) ld =
     (case applyKey pd key v ld of
        KeyStored ld' \<Rightarrow> applyKeys pd es ld'
      | KeyDisables why \<Rightarrow> KeysDisable why ld
      | KeyFatal \<Rightarrow> KeysFatal ld)"

subsection \<open>The checks after the keys\<close>

text \<open>
  The surroundings of a load: the libraries, the default configuration a plugin gives, the configuration files, the order in which
  Go iterates over the keys, and the settings of the robot.
\<close>

record loadEnv =
  leRegexp :: "string \<Rightarrow> regexpFn option"
  leParseDuration :: "string \<Rightarrow> int option"
  leUuid :: "string \<Rightarrow> string option"
  leWording :: "disableReason \<Rightarrow> string"
  leDefCfg :: "taskObj \<Rightarrow> confMap option"
  leFiles :: "string \<Rightarrow> confFile"
  leInstallPath :: string
  leConfigPath :: string
  leOrder :: "confMap \<Rightarrow> confMap"
  leObjectPath :: "string \<Rightarrow> (string \<times> bool) option"
  leDefaultJobChannel :: string
  lePlugChannels :: "string list"
  leDefaultAuthorizer :: string
  lePluginTimeOuts :: runtimeTimeOutThresholds
  leJobTimeOuts :: runtimeTimeOutThresholds

type_synonym loadStep = "loadedTask \<Rightarrow> (disableReason \<times> loadedTask) + loadedTask"

fun runSteps :: "loadStep list \<Rightarrow> loadStep" where
  "runSteps [] ld = Inr ld"
| "runSteps (s # ss) ld = (case s ld of Inl e \<Rightarrow> Inl e | Inr ld' \<Rightarrow> runSteps ss ld')"

definition timeOutsStep :: "loadEnv \<Rightarrow> loadStep" where
  "timeOutsStep E ld =
     (if \<not> validateTimeOutThresholds (ldTimeOuts ld) then Inl (BadTimeOuts, ld)
      else if \<not> validateRuntimeTimeOutThresholds
                 (resolveTimeOutThresholds (if isPluginObj (ldObj ld) then lePluginTimeOuts E else leJobTimeOuts E) (ldTimeOuts ld))
      then Inl (BadEffectiveTimeOuts, ld)
      else Inr ld)"

definition defaultChannels :: "loadEnv \<Rightarrow> bool \<Rightarrow> Task \<Rightarrow> Task" where
  "defaultChannels E explicitAll t =
     (if tkChannels t \<noteq> [] then t
      else if lePlugChannels E \<noteq> [] then (if tkAllChannels t then t else t\<lparr>tkChannels := lePlugChannels E\<rparr>)
      else if explicitAll then t else t\<lparr>tkAllChannels := True\<rparr>)"

definition channelsStep :: "loadEnv \<Rightarrow> bool \<Rightarrow> loadStep" where
  "channelsStep E explicitAll ld =
     Inr (if isPluginObj (ldObj ld) then onTask (defaultChannels E explicitAll) ld
          else onTask (\<lambda>t. if tkChannel t = [] then t\<lparr>tkChannel := leDefaultJobChannel E\<rparr> else t) ld)"

definition visibleStep :: loadStep where
  "visibleStep ld =
     (case ldObj ld of
        PluginObj p \<Rightarrow>
          if tkChannels (plTask p) = [] \<and> \<not> (pluginHasPrivatePolicy p \<or> tkAllChannels (plTask p)) then Inl (NotVisible, ld) else Inr ld
      | other \<Rightarrow> if tkChannel (taskOf other) = [] then Inl (NoJobChannel, ld) else Inr ld)"

text \<open>Compiling a list in place: it stops at the first element that fails, and keeps that one and the rest.\<close>

fun compileEach :: "('a \<Rightarrow> disableReason + 'a) \<Rightarrow> 'a list \<Rightarrow> 'a list \<times> disableReason option" where
  "compileEach f [] = ([], None)"
| "compileEach f (m # ms) =
     (case f m of
        Inl why \<Rightarrow> (m # ms, Some why)
      | Inr m' \<Rightarrow> (case compileEach f ms of (ds, e) \<Rightarrow> (m' # ds, e)))"

definition compileCommand :: "loadEnv \<Rightarrow> InputMatcher \<Rightarrow> disableReason + InputMatcher" where
  "compileCommand E m = (case compileInputMatcher (leRegexp E) m True of Inl e \<Rightarrow> Inl (BadCommandMatcher (imCommand m)) | Inr m' \<Rightarrow> Inr m')"

definition compileMessage :: "loadEnv \<Rightarrow> InputMatcher \<Rightarrow> disableReason + InputMatcher" where
  "compileMessage E m =
     (if trimSpace (imSimpleMatcher m) \<noteq> [] then Inl SimpleMessageMatcher
      else (case leRegexp E (imRegex m) of None \<Rightarrow> Inl (BadMessageRegex (imRegex m)) | Some re \<Rightarrow> Inr (m\<lparr>imRe := Some re\<rparr>)))"

definition compileTrigger :: "loadEnv \<Rightarrow> JobTrigger \<Rightarrow> disableReason + JobTrigger" where
  "compileTrigger E t =
     (if jtUser t = [] \<or> jtChannel t = [] then Inl EmptyTrigger
      else (case leRegexp E (jtRegex t) of None \<Rightarrow> Inl (BadTriggerRegex (jtRegex t)) | Some re \<Rightarrow> Inr (t\<lparr>jtRe := re\<rparr>)))"

definition stockLabel :: "string \<Rightarrow> bool" where
  "stockLabel label \<longleftrightarrow> (case label of [] \<Rightarrow> False | c # cs \<Rightarrow> CHR ''A'' \<le> c \<and> c \<le> CHR ''Z'')"

definition compileLabelled :: "(string \<Rightarrow> disableReason) \<Rightarrow> loadEnv \<Rightarrow> InputMatcher \<Rightarrow> disableReason + InputMatcher" where
  "compileLabelled why E m =
     (if stockLabel (imLabel m) then Inl (CapitalLabel (imLabel m))
      else (case compileInputMatcher (leRegexp E) m False of Inl e \<Rightarrow> Inl (why (imLabel m)) | Inr m' \<Rightarrow> Inr m'))"

definition compiled :: "'a list \<times> disableReason option \<Rightarrow> ('a list \<Rightarrow> loadedTask) \<Rightarrow> (disableReason \<times> loadedTask) + loadedTask" where
  "compiled r store = (case snd r of None \<Rightarrow> Inr (store (fst r)) | Some why \<Rightarrow> Inl (why, store (fst r)))"

definition reservedStep :: loadStep where
  "reservedStep ld =
     (case ldObj ld of
        PluginObj p \<Rightarrow> if validatePluginCommandNames (plCommands p) (plMessageMatchers p) then Inr ld else Inl (ReservedCommand, ld)
      | _ \<Rightarrow> Inr ld)"

definition commandsStep :: "loadEnv \<Rightarrow> loadStep" where
  "commandsStep E ld =
     (case ldObj ld of
        PluginObj p \<Rightarrow> compiled (compileEach (compileCommand E) (plCommands p)) (\<lambda>ms. ld\<lparr>ldObj := PluginObj (p\<lparr>plCommands := ms\<rparr>)\<rparr>)
      | _ \<Rightarrow> Inr ld)"

definition messagesStep :: "loadEnv \<Rightarrow> loadStep" where
  "messagesStep E ld =
     (case ldObj ld of
        PluginObj p \<Rightarrow>
          compiled (compileEach (compileMessage E) (plMessageMatchers p)) (\<lambda>ms. ld\<lparr>ldObj := PluginObj (p\<lparr>plMessageMatchers := ms\<rparr>)\<rparr>)
      | _ \<Rightarrow> Inr ld)"

definition triggersStep :: "loadEnv \<Rightarrow> loadStep" where
  "triggersStep E ld =
     (case ldObj ld of
        JobObj j \<Rightarrow> compiled (compileEach (compileTrigger E) (jbTriggers j)) (\<lambda>ts. ld\<lparr>ldObj := JobObj (j\<lparr>jbTriggers := ts\<rparr>)\<rparr>)
      | _ \<Rightarrow> Inr ld)"

definition argumentsStep :: "loadEnv \<Rightarrow> loadStep" where
  "argumentsStep E ld =
     (case ldObj ld of
        JobObj j \<Rightarrow> compiled (compileEach (compileLabelled BadArgument E) (jbArguments j)) (\<lambda>ms. ld\<lparr>ldObj := JobObj (j\<lparr>jbArguments := ms\<rparr>)\<rparr>)
      | _ \<Rightarrow> Inr ld)"

definition repliesStep :: "loadEnv \<Rightarrow> loadStep" where
  "repliesStep E ld =
     compiled (compileEach (compileLabelled BadReplyMatcher E) (ldReplyMatchers ld)) (\<lambda>ms. ld\<lparr>ldReplyMatchers := ms\<rparr>)"

definition validCatchAllMode :: "string \<Rightarrow> bool" where
  "validCatchAllMode mode \<longleftrightarrow> trimSpace (toLower mode) \<in> {''alias'', ''name'', ''direct'', ''hidden''}"

definition catchAllStep :: loadStep where
  "catchAllStep ld =
     (case ldObj ld of
        PluginObj p \<Rightarrow> (case find (\<lambda>m. \<not> validCatchAllMode m) (plCatchAllModes p) of None \<Rightarrow> Inr ld | Some m \<Rightarrow> Inl (BadCatchAllMode m, ld))
      | _ \<Rightarrow> Inr ld)"

definition checkedCommands :: "Plugin \<Rightarrow> (string \<times> string) list" where
  "checkedCommands p =
     map (Pair ''elevated'') (plElevatedCommands p) @ map (Pair ''elevate immediate'') (plElevateImmediateCommands p) @
     map (Pair ''authorized'') (plAuthorizedCommands p) @ map (Pair ''admin'') (plAdminCommands p) @
     map (Pair ''required private'') (plRequiredPrivateCommands p)"

definition definesCommand :: "Plugin \<Rightarrow> string \<Rightarrow> bool" where
  "definesCommand p c \<longleftrightarrow> list_ex (\<lambda>m. imCommand m = c) (plCommands p) \<or> list_ex (\<lambda>m. imCommand m = c) (plMessageMatchers p)"

definition commandListsStep :: loadStep where
  "commandListsStep ld =
     (case ldObj ld of
        PluginObj p \<Rightarrow>
          (case find (\<lambda>e. \<not> definesCommand p (snd e)) (checkedCommands p) of
             None \<Rightarrow> Inr ld
           | Some (ctype, c) \<Rightarrow> Inl (UnknownCommand ctype c, ld))
      | _ \<Rightarrow> Inr ld)"

definition effectiveAuthorizer :: "loadEnv \<Rightarrow> Plugin \<Rightarrow> string" where
  "effectiveAuthorizer E p =
     (let own = trimSpace (tkAuthorizer (plTask p)) in if own = [] then trimSpace (leDefaultAuthorizer E) else own)"

definition authRequired :: "Plugin \<Rightarrow> bool" where
  "authRequired p \<longleftrightarrow> plAuthorizeAllCommands p \<or> plAuthorizedCommands p \<noteq> []"

definition authorizerStep :: "loadEnv \<Rightarrow> (string \<Rightarrow> taskObj option) \<Rightarrow> loadStep" where
  "authorizerStep E lookup ld =
     (case ldObj ld of
        PluginObj p \<Rightarrow>
          (let auth = effectiveAuthorizer E p in
           if authRequired p then
             (if auth = [] then Inl (NoAuthorizer, ld)
              else (case lookup auth of
                      None \<Rightarrow> Inl (AuthorizerMissing auth, ld)
                    | Some t \<Rightarrow> if isPluginObj t then Inr ld else Inl (AuthorizerNotPlugin auth, ld)))
           else if trimSpace (tkAuthorizer (plTask p)) \<noteq> [] then Inl (AuthorizerUnused, ld)
           else Inr ld)
      | _ \<Rightarrow> Inr ld)"

end
