(* ===== verification/TaskLoad.thy ===== *)
theory TaskLoad
  imports TaskConf
begin

text \<open>
  Loading the tasks of the robot (\<open>loadTaskConfig\<close> of bot/taskconf.go, \<open>addTask\<close> of bot/registrations.go): the list
  of all tasks with its names, the settings of robot.yaml, the loop that configures the plugins and jobs, and what is
  true of the tasks that come out enabled. Go tasks are pointers that the old and the new list share; here a load takes the
  old task and returns the new one.
\<close>

subsection \<open>One task\<close>

definition configSteps :: "loadEnv \<Rightarrow> (string \<Rightarrow> taskObj option) \<Rightarrow> bool \<Rightarrow> loadStep list" where
  "configSteps E lookup explicitAll =
     [timeOutsStep E, channelsStep E explicitAll, visibleStep, reservedStep, commandsStep E, messagesStep E, triggersStep E,
      argumentsStep E, repliesStep E, catchAllStep, commandListsStep, authorizerStep E lookup]"

text \<open>The UUIDs that trigger jobs, each with the job it belongs to.\<close>

type_synonym uuidTriggers = "string \<Rightarrow> string option"

definition uuidStep :: "loadEnv \<Rightarrow> uuidTriggers \<Rightarrow> loadedTask \<Rightarrow> (disableReason \<times> loadedTask) + loadedTask \<times> uuidTriggers" where
  "uuidStep E uuids ld =
     (case ldObj ld of
        JobObj j \<Rightarrow>
          if ldUUIDTrigger ld = [] then Inr (ld, uuids)
          else (case leUuid E (ldUUIDTrigger ld) of
                  None \<Rightarrow> Inl (BadUUIDTrigger, ld)
                | Some normalized \<Rightarrow>
                    (case uuids normalized of
                       Some existing \<Rightarrow> Inl (DuplicateUUIDTrigger existing, ld)
                     | None \<Rightarrow> Inr (ld\<lparr>ldUUIDTrigger := normalized\<rparr>, uuids(normalized \<mapsto> tkName (jbTask j)))))
      | _ \<Rightarrow> Inr (ld, uuids))"

datatype loadError =
  LoadPanic | NameConflict string | MissingNameSpace string | MissingParameterSet string | NoSuchTask string
| WrongType string | BadName string | DuplicateName string | EmptyPath string | BadPath string | IllegalPrivileged string

definition taskFile :: "taskObj \<Rightarrow> string" where
  "taskFile t = (if isPluginObj t then ''plugins/'' else ''jobs/'') @ tkName (taskOf t) @ ''.yaml''"

text \<open>Reading the configuration of a task: the reason it is disabled, or its keys.\<close>

definition readTaskConfig :: "loadEnv \<Rightarrow> bool \<Rightarrow> taskObj \<Rightarrow> disableReason + confMap" where
  "readTaskConfig E preConnect t =
     (case (if isPluginObj t \<and> \<not> preConnect then leDefCfg E t else Some []) of
        None \<Rightarrow> Inl NoDefaultConfig
      | Some defaults \<Rightarrow>
          (case getConfigFile (leFiles E) (leInstallPath E) (leConfigPath E) (taskFile t) False defaults of
             Inl e \<Rightarrow> Inl (BadConfigFile e)
           | Inr keys \<Rightarrow>
               (case map_of keys ''Disabled'' of
                  None \<Rightarrow> Inr keys
                | Some v \<Rightarrow>
                    (case jsonBool v of
                       None \<Rightarrow> Inl BadDisabledValue
                     | Some disabled \<Rightarrow> if disabled then Inl DisabledByConfiguration else Inr keys))))"

definition resetChannels :: "loadedTask \<Rightarrow> loadedTask" where
  "resetChannels ld = (if isPluginObj (ldObj ld) then onTask (\<lambda>t. t\<lparr>tkChannels := []\<rparr>) ld else ld)"

definition configureTask ::
    "loadEnv \<Rightarrow> (string \<Rightarrow> taskObj option) \<Rightarrow> bool \<Rightarrow> loadedTask \<Rightarrow> uuidTriggers \<Rightarrow> loadError + loadedTask \<times> uuidTriggers" where
  "configureTask E lookup preConnect ld0 uuids =
     (case ldObj ld0 of
        TaskObj t \<Rightarrow> Inr (ld0, uuids)
      | _ \<Rightarrow>
          (let ld = resetChannels ld0;
               disable = (\<lambda>why l. Inr (disableTask (leWording E) why l, uuids))
           in if tkDisabled (taskOf (ldObj ld)) then Inr (ld, uuids)
              else (case readTaskConfig E preConnect (ldObj ld) of
                      Inl why \<Rightarrow> disable why ld
                    | Inr keys \<Rightarrow>
                        (case applyKeys (leParseDuration E) (leOrder E keys) ld of
                           KeysFatal l \<Rightarrow> Inl (IllegalPrivileged (tkName (taskOf (ldObj l))))
                         | KeysDisable why l \<Rightarrow> disable why l
                         | KeysDone l \<Rightarrow>
                             (case runSteps (configSteps E lookup (''AllChannels'' \<in> set (map fst (leOrder E keys)))) l of
                                Inl (why, l') \<Rightarrow> disable why l'
                              | Inr l' \<Rightarrow>
                                  (case uuidStep E uuids l' of
                                     Inl (why, l'') \<Rightarrow> disable why l''
                                   | Inr r \<Rightarrow> Inr r))))))"

fun configureAll ::
    "loadEnv \<Rightarrow> (string \<Rightarrow> taskObj option) \<Rightarrow> bool \<Rightarrow> loadedTask list \<Rightarrow> uuidTriggers \<Rightarrow> loadError + loadedTask list \<times> uuidTriggers" where
  "configureAll E lookup pre [] uuids = Inr ([], uuids)"
| "configureAll E lookup pre (ld # lds) uuids =
     (case configureTask E lookup pre ld uuids of
        Inl e \<Rightarrow> Inl e
      | Inr (ld', uuids') \<Rightarrow>
          (case configureAll E lookup pre lds uuids' of Inl e \<Rightarrow> Inl e | Inr (lds', u) \<Rightarrow> Inr (ld' # lds', u)))"

subsection \<open>The list of tasks\<close>

record loadList =
  llT :: "loadedTask list"
  llNameMap :: "string \<Rightarrow> nat option"
  llNameSpaces :: "string \<Rightarrow> ParameterSet option"
  llParameterSets :: "string \<Rightarrow> ParameterSet option"
  llUUIDTriggers :: uuidTriggers

definition emptyLoadList :: loadList where
  "emptyLoadList = \<lparr>llT = [], llNameMap = (\<lambda>_. None), llNameSpaces = (\<lambda>_. None), llParameterSets = (\<lambda>_. None),
     llUUIDTriggers = (\<lambda>_. None)\<rparr>"

text \<open>Index 0 is taken by nothing, so the first task has index 1.\<close>

definition addTask :: "loadedTask \<Rightarrow> loadList \<Rightarrow> loadList" where
  "addTask ld lst =
     lst\<lparr>llT := llT lst @ [ld], llNameMap := (llNameMap lst)(tkName (taskOf (ldObj ld)) \<mapsto> Suc (length (llT lst)))\<rparr>"

definition getLoaded :: "loadList \<Rightarrow> string \<Rightarrow> loadedTask option" where
  "getLoaded lst name = (case llNameMap lst name of None \<Rightarrow> None | Some ti \<Rightarrow> if ti = 0 then None else Some (llT lst ! (ti - 1)))"

text \<open>What the rest of the program sees of the list.\<close>

definition toTaskList :: "taskObj \<Rightarrow> loadList \<Rightarrow> taskList" where
  "toTaskList nothing lst =
     \<lparr>tlT = nothing # map ldObj (llT lst), tlNameMap = llNameMap lst, tlNameSpaces = llNameSpaces lst,
      tlParameterSets = llParameterSets lst\<rparr>"

record TaskSettings =
  tgName :: string
  tgPath :: string
  tgDescription :: string
  tgNameSpace :: string
  tgParameterSets :: "string list"
  tgDisabled :: bool
  tgHomed :: bool
  tgPrivileged :: "bool option"
  tgParameters :: "Parameter list"

fun addGoTasks :: "(string \<Rightarrow> loadedTask option) \<Rightarrow> string list \<Rightarrow> loadList \<Rightarrow> loadError + loadList" where
  "addGoTasks current [] lst = Inr lst"
| "addGoTasks current (n # ns) lst =
     (case current n of None \<Rightarrow> Inl LoadPanic | Some ld \<Rightarrow> addGoTasks current ns (addTask ld lst))"

definition settingsSet :: "TaskSettings \<Rightarrow> ParameterSet" where
  "settingsSet ts = \<lparr>psName = tgName ts, psParameters = tgParameters ts\<rparr>"

definition addNameSpace :: "TaskSettings \<Rightarrow> loadList \<Rightarrow> loadError + loadList" where
  "addNameSpace ns lst =
     (if llNameMap lst (tgName ns) \<noteq> None then Inl (NameConflict (tgName ns))
      else Inr (lst\<lparr>llNameSpaces := (llNameSpaces lst)(tgName ns \<mapsto> settingsSet ns), llNameMap := (llNameMap lst)(tgName ns \<mapsto> 0)\<rparr>))"

definition addParameterSet :: "TaskSettings \<Rightarrow> loadList \<Rightarrow> loadError + loadList" where
  "addParameterSet ps lst =
     (if llNameMap lst (tgName ps) \<noteq> None then Inl (NameConflict (tgName ps))
      else Inr (lst\<lparr>llParameterSets := (llParameterSets lst)(tgName ps \<mapsto> settingsSet ps), llNameMap := (llNameMap lst)(tgName ps \<mapsto> 0)\<rparr>))"

fun foldLoad :: "('a \<Rightarrow> loadList \<Rightarrow> loadError + loadList) \<Rightarrow> 'a list \<Rightarrow> loadList \<Rightarrow> loadError + loadList" where
  "foldLoad f [] lst = Inr lst"
| "foldLoad f (x # xs) lst = (case f x lst of Inl e \<Rightarrow> Inl e | Inr lst' \<Rightarrow> foldLoad f xs lst')"

definition checkTaskSettings :: "loadEnv \<Rightarrow> loadList \<Rightarrow> TaskSettings \<Rightarrow> loadedTask \<Rightarrow> loadError + loadedTask" where
  "checkTaskSettings E lst ts ld =
     (if tgDisabled ts then Inr (disableTask (leWording E) DisabledInRobotConfig ld)
      else if tgNameSpace ts \<noteq> [] \<and> llNameSpaces lst (tgNameSpace ts) = None then Inl (MissingNameSpace (tgNameSpace ts))
      else (case find (\<lambda>s. llParameterSets lst s = None) (tgParameterSets ts) of
              Some s \<Rightarrow> Inl (MissingParameterSet s)
            | None \<Rightarrow> Inr (onTask (\<lambda>t. t\<lparr>
                tkNameSpace := (if tgNameSpace ts = [] then tkNameSpace t else tgNameSpace ts),
                tkParameterSets := (if tgParameterSets ts = [] then tkParameterSets t else tgParameterSets ts),
                tkDescription := tgDescription ts, tkParameters := tgParameters ts\<rparr>) ld)))"

datatype settingsKind = KindTask | KindPlugin | KindJob

fun isKind :: "settingsKind \<Rightarrow> taskObj \<Rightarrow> bool" where
  "isKind KindPlugin (PluginObj p) = True"
| "isKind KindJob (JobObj j) = True"
| "isKind KindTask t = True"
| "isKind k t = False"

definition setupGoTask :: "loadEnv \<Rightarrow> settingsKind \<Rightarrow> TaskSettings \<Rightarrow> loadList \<Rightarrow> loadError + loadList" where
  "setupGoTask E kind ts lst =
     (case llNameMap lst (tgName ts) of
        None \<Rightarrow> Inl (NoSuchTask (tgName ts))
      | Some ti \<Rightarrow>
          if ti = 0 then Inl (NoSuchTask (tgName ts))
          else (let ld = llT lst ! (ti - 1) in
                if \<not> isKind kind (ldObj ld) then Inl (WrongType (tgName ts))
                else (case (if kind = KindTask then Some ld
                            else map_option (\<lambda>priv. onTask (\<lambda>t. t\<lparr>tkPrivileged := priv\<rparr>) ld) (tgPrivileged ts)) of
                        None \<Rightarrow> Inl LoadPanic
                      | Some ld' \<Rightarrow>
                          (case checkTaskSettings E lst ts ld' of
                             Inl e \<Rightarrow> Inl e
                           | Inr ld'' \<Rightarrow> Inr (lst\<lparr>llT := (llT lst)[ti - 1 := ld'']\<rparr>)))))"

definition externalTask :: "TaskSettings \<Rightarrow> bool \<Rightarrow> Task" where
  "externalTask ts priv =
     \<lparr>tkName = tgName ts, tkType = TaskExternal, tkPath = [], tkNameSpace = [], tkParameters = tgParameters ts,
      tkParameterSets = [], tkDescription = tgDescription ts, tkChannel = [], tkChannels = [], tkAllChannels = False,
      tkRequireAdmin = False, tkUsers = [], tkElevator = [], tkAuthorizer = [], tkAuthRequire = [], tkDisabled = False,
      tkPrivileged = priv, tkHomed = tgHomed ts, tkReason = []\<rparr>"

definition newPlugin :: "Task \<Rightarrow> Plugin" where
  "newPlugin t =
     \<lparr>plTask = t, plAdminCommands = [], plElevatedCommands = [], plElevateImmediateCommands = [], plAuthorizedCommands = [],
      plAllowedPrivateCommands = [], plRequiredPrivateCommands = [], plAuthorizeAllCommands = False,
      plRequireAllCommandsPrivate = False, plRestrictPrivateChannels = False, plCommands = [], plMessageMatchers = [],
      plAmbientMatchCommand = False, plCatchAll = False, plCatchAllModes = [], plMatchUnlisted = False\<rparr>"

definition newJob :: "Task \<Rightarrow> Job" where
  "newJob t = \<lparr>jbTask = t, jbQuiet = False, jbKeepLogs = 0, jbTriggers = [], jbArguments = []\<rparr>"

fun newObj :: "settingsKind \<Rightarrow> Task \<Rightarrow> taskObj" where
  "newObj KindPlugin t = PluginObj (newPlugin t)"
| "newObj KindJob t = JobObj (newJob t)"
| "newObj KindTask t = TaskObj t"

definition addExternalTask :: "loadEnv \<Rightarrow> settingsKind \<Rightarrow> TaskSettings \<Rightarrow> loadList \<Rightarrow> loadError + loadList" where
  "addExternalTask E kind ts lst =
     (if \<not> identifierMatches (tgName ts) then Inl (BadName (tgName ts))
      else if tgName ts = ''bot'' then Inl (BadName (tgName ts))
      else if llNameSpaces lst (tgName ts) \<noteq> None \<or> llParameterSets lst (tgName ts) \<noteq> None \<or> llNameMap lst (tgName ts) \<noteq> None
      then Inl (DuplicateName (tgName ts))
      else (case tgPrivileged ts of
              None \<Rightarrow> Inl LoadPanic
            | Some priv \<Rightarrow>
                (case checkTaskSettings E lst ts \<lparr>ldObj = newObj kind (externalTask ts priv), ldReplyMatchers = [], ldConfig = None,
                        ldTimeOuts = noTimeOuts, ldUUIDTrigger = []\<rparr> of
                   Inl e \<Rightarrow> Inl e
                 | Inr ld \<Rightarrow>
                     if tgPath ts = [] then Inl (EmptyPath (tgName ts))
                     else (case leObjectPath E (tgPath ts) of
                             None \<Rightarrow> Inl (BadPath (tgName ts))
                           | Some (opath, executable) \<Rightarrow>
                               Inr (addTask (onTask (\<lambda>t. t\<lparr>tkHomed := tkHomed t \<or> hasSuffix opath ''.go'' \<and> \<not> executable,
                                      tkPath := tgPath ts\<rparr>) ld) lst)))))"

record processedTasks =
  ptNameSpaces :: "TaskSettings list"
  ptParameterSets :: "TaskSettings list"
  ptGoTasks :: "TaskSettings list"
  ptGoPlugins :: "TaskSettings list"
  ptGoJobs :: "TaskSettings list"
  ptExternalPlugins :: "TaskSettings list"
  ptExternalJobs :: "TaskSettings list"
  ptExternalTasks :: "TaskSettings list"

text \<open>
  The settings in robot.yaml (bot/conf.go): maps from names. Disabled external tasks are left out, disabled Go tasks have to be
  passed on; plugins run without privilege and jobs with it, unless the settings say otherwise.
\<close>

type_synonym settingsMap = "(string \<times> TaskSettings) list"

record taskMaps =
  tmNameSpaces :: settingsMap
  tmParameterSets :: settingsMap
  tmGoTasks :: settingsMap
  tmGoPlugins :: settingsMap
  tmGoJobs :: settingsMap
  tmExternalPlugins :: settingsMap
  tmExternalJobs :: settingsMap
  tmExternalTasks :: settingsMap

definition namedSettings :: "settingsMap \<Rightarrow> TaskSettings list" where
  "namedSettings m = map (\<lambda>(name, ts). ts\<lparr>tgName := name\<rparr>) m"

definition privilegedSettings :: "bool \<Rightarrow> settingsMap \<Rightarrow> TaskSettings list" where
  "privilegedSettings dflt m =
     map (\<lambda>ts. ts\<lparr>tgPrivileged := Some (case tgPrivileged ts of None \<Rightarrow> dflt | Some p \<Rightarrow> p)\<rparr>) (namedSettings m)"

definition externalSettings :: "bool \<Rightarrow> settingsMap \<Rightarrow> TaskSettings list" where
  "externalSettings dflt m = privilegedSettings dflt (filter (\<lambda>(name, ts). \<not> tgDisabled ts) m)"

definition processTasks :: "taskMaps \<Rightarrow> processedTasks" where
  "processTasks m =
     \<lparr>ptNameSpaces = namedSettings (tmNameSpaces m), ptParameterSets = namedSettings (tmParameterSets m),
      ptGoTasks = namedSettings (tmGoTasks m), ptGoPlugins = privilegedSettings False (tmGoPlugins m),
      ptGoJobs = privilegedSettings True (tmGoJobs m), ptExternalPlugins = externalSettings False (tmExternalPlugins m),
      ptExternalJobs = externalSettings True (tmExternalJobs m), ptExternalTasks = externalSettings False (tmExternalTasks m)\<rparr>"

text \<open>Everything before the loop: the list with its names. The Go tasks come in the order of Go's iteration over the handlers.\<close>

definition listTasks :: "loadEnv \<Rightarrow> processedTasks \<Rightarrow> (string \<Rightarrow> loadedTask option) \<Rightarrow> string list \<Rightarrow> loadError + loadList" where
  "listTasks E pt current goNames =
     (case addGoTasks current goNames emptyLoadList of
        Inl e \<Rightarrow> Inl e
      | Inr l0 \<Rightarrow>
          foldLoad (\<lambda>f l. f l)
            (map addNameSpace (ptNameSpaces pt) @ map addParameterSet (ptParameterSets pt) @
             map (setupGoTask E KindTask) (ptGoTasks pt) @ map (setupGoTask E KindPlugin) (ptGoPlugins pt) @
             map (setupGoTask E KindJob) (ptGoJobs pt) @ map (addExternalTask E KindPlugin) (ptExternalPlugins pt) @
             map (addExternalTask E KindJob) (ptExternalJobs pt) @ map (addExternalTask E KindTask) (ptExternalTasks pt)) l0)"

definition loadTaskConfig ::
    "loadEnv \<Rightarrow> processedTasks \<Rightarrow> (string \<Rightarrow> loadedTask option) \<Rightarrow> string list \<Rightarrow> bool \<Rightarrow> loadError + loadList" where
  "loadTaskConfig E pt current goNames preConnect =
     (case listTasks E pt current goNames of
        Inl e \<Rightarrow> Inl e
      | Inr lst \<Rightarrow>
          (case configureAll E (\<lambda>n. map_option ldObj (getLoaded lst n)) preConnect (llT lst) (llUUIDTriggers lst) of
             Inl e \<Rightarrow> Inl e
           | Inr (lds, uuids) \<Rightarrow> Inr (lst\<lparr>llT := lds, llUUIDTriggers := uuids\<rparr>)))"

subsection \<open>What a task keeps\<close>

text \<open>The kind of a task and its name: no step changes them.\<close>

fun shapeOf :: "taskObj \<Rightarrow> settingsKind \<times> string" where
  "shapeOf (PluginObj p) = (KindPlugin, tkName (plTask p))"
| "shapeOf (JobObj j) = (KindJob, tkName (jbTask j))"
| "shapeOf (TaskObj t) = (KindTask, tkName t)"

abbreviation shape :: "loadedTask \<Rightarrow> settingsKind \<times> string" where
  "shape ld \<equiv> shapeOf (ldObj ld)"

abbreviation ldName :: "loadedTask \<Rightarrow> string" where
  "ldName ld \<equiv> tkName (taskOf (ldObj ld))"

abbreviation ldEnabled :: "loadedTask \<Rightarrow> bool" where
  "ldEnabled ld \<equiv> \<not> tkDisabled (taskOf (ldObj ld))"

lemma shape_name: "shapeOf t = shapeOf t' \<Longrightarrow> tkName (taskOf t) = tkName (taskOf t')"
  by (cases t; cases t') auto

lemma shape_plugin: "shapeOf t = shapeOf t' \<Longrightarrow> isPluginObj t = isPluginObj t'"
  by (cases t; cases t') auto

lemma shape_onTask: "(\<And>t. tkName (f t) = tkName t) \<Longrightarrow> shape (onTask f ld) = shape ld"
  by (cases "ldObj ld") (auto simp: onTask_def)

lemma shape_onPlugin: "onPlugin f ld = Some ld' \<Longrightarrow> (\<And>p. plTask (f p) = plTask p) \<Longrightarrow> shape ld' = shape ld"
  by (cases "ldObj ld") (auto simp: onPlugin_def)

lemma shape_onJob: "onJob f ld = Some ld' \<Longrightarrow> (\<And>j. jbTask (f j) = jbTask j) \<Longrightarrow> shape ld' = shape ld"
  by (cases "ldObj ld") (auto simp: onJob_def)

lemma shape_disable [simp]: "shape (disableTask w why ld) = shape ld"
  by (simp add: disableTask_def shape_onTask)

lemma disabled_disable [simp]: "tkDisabled (taskOf (ldObj (disableTask w why ld)))"
  by (cases "ldObj ld") (auto simp: disableTask_def onTask_def)

lemma shape_reset [simp]: "shape (resetChannels ld) = shape ld"
  by (simp add: resetChannels_def shape_onTask)

lemma shape_setStr: "setStrKey key s ld = Some ld' \<Longrightarrow> shape ld' = shape ld"
  by (auto simp: setStrKey_def shape_onTask dest: shape_onJob split: if_splits)

lemma shape_setBool: "setBoolKey key b ld = Some ld' \<Longrightarrow> shape ld' = shape ld"
  unfolding setBoolKey_def by (auto simp: shape_onTask dest!: shape_onPlugin shape_onJob split: if_splits)

lemma shape_setStrs: "setStrsKey key ss ld = Some ld' \<Longrightarrow> shape ld' = shape ld"
  unfolding setStrsKey_def by (auto simp: shape_onTask dest!: shape_onPlugin split: if_splits)

lemma shape_setMatchers: "setMatchersKey key ms ld = Some ld' \<Longrightarrow> shape ld' = shape ld"
  unfolding setMatchersKey_def by (auto dest!: shape_onPlugin shape_onJob split: if_splits)

lemma storeKey_stored: "storeKey key d f = KeyStored ld' \<longleftrightarrow> (\<exists>x. d = Some x \<and> f x = Some ld')"
  by (auto simp: storeKey_def split: option.splits)

lemma shape_applyKey: "applyKey pd key v ld = KeyStored ld' \<Longrightarrow> shape ld' = shape ld"
  unfolding applyKey_def
  by (auto simp: storeKey_stored dest: shape_setStr shape_setBool shape_setStrs shape_setMatchers dest!: shape_onJob split: if_splits)

lemma shape_applyKeys:
  "(applyKeys pd es ld = KeysDone ld' \<longrightarrow> shape ld' = shape ld) \<and>
   (applyKeys pd es ld = KeysDisable why ld' \<longrightarrow> shape ld' = shape ld)"
  by (induction pd es ld rule: applyKeys.induct) (auto split: keyResult.splits dest: shape_applyKey)

subsection \<open>What the checks establish\<close>

lemma runSteps_Cons: "runSteps (s # ss) ld = Inr r \<longleftrightarrow> (\<exists>ld'. s ld = Inr ld' \<and> runSteps ss ld' = Inr r)"
  by (cases "s ld") auto

definition keepsShape :: "loadStep \<Rightarrow> bool" where
  "keepsShape s \<longleftrightarrow> (\<forall>l. case s l of Inl (why, l') \<Rightarrow> shape l' = shape l | Inr l' \<Rightarrow> shape l' = shape l)"

lemma runSteps_keepsShape: "list_all keepsShape ss \<Longrightarrow> keepsShape (runSteps ss)"
proof (induction ss)
  case Nil
  show ?case by (simp add: keepsShape_def)
next
  case (Cons s ss)
  have "case runSteps (s # ss) l of Inl (why, l') \<Rightarrow> shape l' = shape l | Inr l' \<Rightarrow> shape l' = shape l" for l
  proof (cases "s l")
    case (Inl e)
    then show ?thesis using Cons.prems by (cases e) (auto simp: keepsShape_def dest!: spec [of _ l])
  next
    case (Inr l1)
    then have "shape l1 = shape l" using Cons.prems by (auto simp: keepsShape_def dest!: spec [of _ l])
    moreover have "case runSteps ss l1 of Inl (why, l') \<Rightarrow> shape l' = shape l1 | Inr l' \<Rightarrow> shape l' = shape l1"
      using Cons by (simp add: keepsShape_def)
    ultimately show ?thesis using Inr by (auto split: sum.splits)
  qed
  then show ?case by (simp add: keepsShape_def)
qed

lemma compiled_Inr: "compiled r store = Inr ld \<longleftrightarrow> snd r = None \<and> ld = store (fst r)"
  by (auto simp: compiled_def split: option.splits)

lemma compiled_Inl: "compiled r store = Inl (why, ld) \<longleftrightarrow> snd r = Some why \<and> ld = store (fst r)"
  by (auto simp: compiled_def split: option.splits)

lemma compileEach_done: "snd (compileEach f ms) = None \<Longrightarrow> list_all2 (\<lambda>m d. f m = Inr d) ms (fst (compileEach f ms))"
  by (induction f ms rule: compileEach.induct) (auto split: sum.splits prod.splits)

lemmas plugin_steps = timeOutsStep_def channelsStep_def visibleStep_def reservedStep_def commandsStep_def messagesStep_def
  triggersStep_def argumentsStep_def repliesStep_def catchAllStep_def commandListsStep_def authorizerStep_def

lemma steps_keepShape [simp]:
  "keepsShape (timeOutsStep E)" "keepsShape (channelsStep E ex)" "keepsShape visibleStep" "keepsShape reservedStep"
  "keepsShape catchAllStep" "keepsShape commandListsStep" "keepsShape (authorizerStep E lookup)"
  by (auto simp: keepsShape_def timeOutsStep_def channelsStep_def visibleStep_def reservedStep_def catchAllStep_def
      commandListsStep_def authorizerStep_def shape_onTask defaultChannels_def Let_def split: taskObj.split option.split)

lemma compile_keepShape [simp]:
  "keepsShape (commandsStep E)" "keepsShape (messagesStep E)" "keepsShape (triggersStep E)" "keepsShape (argumentsStep E)"
  "keepsShape (repliesStep E)"
  by (auto simp: keepsShape_def commandsStep_def messagesStep_def triggersStep_def argumentsStep_def repliesStep_def compiled_def
      split: taskObj.split option.split)

lemma configSteps_shape:
  "runSteps (configSteps E lookup ex) ld = Inr r \<Longrightarrow> shape r = shape ld"
  "runSteps (configSteps E lookup ex) ld = Inl (why, r) \<Longrightarrow> shape r = shape ld"
proof -
  have "keepsShape (runSteps (configSteps E lookup ex))" by (rule runSteps_keepsShape) (simp add: configSteps_def)
  then have *: "case runSteps (configSteps E lookup ex) ld of Inl (why, l') \<Rightarrow> shape l' = shape ld | Inr l' \<Rightarrow> shape l' = shape ld"
    by (simp only: keepsShape_def)
  show "runSteps (configSteps E lookup ex) ld = Inr r \<Longrightarrow> shape r = shape ld" using * by simp
  show "runSteps (configSteps E lookup ex) ld = Inl (why, r) \<Longrightarrow> shape r = shape ld" using * by simp
qed

lemma compileInput_Inr:
  "compileInputMatcher re m simple = Inr m' \<Longrightarrow> imCommand m' = imCommand m \<and> imLabel m' = imLabel m \<and> imRe m' \<noteq> None"
  unfolding compileInputMatcher_def Let_def by (auto split: if_splits option.splits sum.splits)

text \<open>The matchers of a list that is compiled: the same commands, each with its regular expression.\<close>

definition matchersCompiled :: "InputMatcher list \<Rightarrow> InputMatcher list \<Rightarrow> bool" where
  "matchersCompiled ms ds \<longleftrightarrow> map imCommand ds = map imCommand ms \<and> (\<forall>d \<in> set ds. imRe d \<noteq> None)"

lemma compiled_matchers:
  assumes "list_all2 (\<lambda>m d. f m = Inr d) ms ds"
    and "\<And>m d. f m = Inr d \<Longrightarrow> imCommand d = imCommand m \<and> imRe d \<noteq> None"
  shows "matchersCompiled ms ds"
  using assms(1) by (induction rule: list_all2_induct) (auto simp: matchersCompiled_def dest: assms(2))

lemma commands_compiled: "snd (compileEach (compileCommand E) ms) = None \<Longrightarrow> matchersCompiled ms (fst (compileEach (compileCommand E) ms))"
  by (rule compiled_matchers, erule compileEach_done) (auto simp: compileCommand_def split: sum.splits dest: compileInput_Inr)

lemma messages_compiled: "snd (compileEach (compileMessage E) ms) = None \<Longrightarrow> matchersCompiled ms (fst (compileEach (compileMessage E) ms))"
  by (rule compiled_matchers, erule compileEach_done) (auto simp: compileMessage_def split: if_splits option.splits)

lemma compileLabelled_Inr:
  assumes "compileLabelled why E m = Inr d" shows "imRe d \<noteq> None \<and> \<not> stockLabel (imLabel d)"
  using assms by (auto simp: compileLabelled_def split: if_splits sum.splits dest: compileInput_Inr)

lemma labelled_compiled:
  assumes "snd (compileEach (compileLabelled why E) ms) = None" and "d \<in> set (fst (compileEach (compileLabelled why E) ms))"
  shows "imRe d \<noteq> None \<and> \<not> stockLabel (imLabel d)"
proof -
  have "list_all2 (\<lambda>m d. compileLabelled why E m = Inr d) ms (fst (compileEach (compileLabelled why E) ms))"
    by (rule compileEach_done [OF assms(1)])
  then have "\<exists>m. compileLabelled why E m = Inr d"
    using assms(2) unfolding list_all2_conv_all_nth in_set_conv_nth by metis
  then show ?thesis by (metis compileLabelled_Inr)
qed

lemma triggers_compiled:
  assumes "snd (compileEach (compileTrigger E) ts) = None" and "d \<in> set (fst (compileEach (compileTrigger E) ts))"
  shows "jtUser d \<noteq> [] \<and> jtChannel d \<noteq> [] \<and> leRegexp E (jtRegex d) = Some (jtRe d)"
proof -
  have "list_all2 (\<lambda>m d. compileTrigger E m = Inr d) ts (fst (compileEach (compileTrigger E) ts))"
    by (rule compileEach_done [OF assms(1)])
  then obtain m where "compileTrigger E m = Inr d"
    using assms(2) unfolding list_all2_conv_all_nth in_set_conv_nth by metis
  then show ?thesis by (auto simp: compileTrigger_def split: if_splits option.splits)
qed

text \<open>An enabled plugin: what the checks promise.\<close>

definition pluginSound :: "loadEnv \<Rightarrow> (string \<Rightarrow> taskObj option) \<Rightarrow> Plugin \<Rightarrow> bool" where
  "pluginSound E lookup p \<longleftrightarrow>
     (\<forall>c \<in> set (plElevatedCommands p) \<union> set (plElevateImmediateCommands p) \<union> set (plAuthorizedCommands p) \<union>
            set (plAdminCommands p) \<union> set (plRequiredPrivateCommands p).
        c \<in> set (map imCommand (plCommands p @ plMessageMatchers p))) \<and>
     (if authRequired p then \<exists>q. lookup (effectiveAuthorizer E p) = Some (PluginObj q) else trimSpace (tkAuthorizer (plTask p)) = []) \<and>
     (tkChannels (plTask p) \<noteq> [] \<or> tkAllChannels (plTask p) \<or> pluginHasPrivatePolicy p) \<and>
     (\<forall>m \<in> set (plCommands p @ plMessageMatchers p). \<not> isEngineReservedCommandName (imCommand m) \<and> imRe m \<noteq> None) \<and>
     (\<forall>mode \<in> set (plCatchAllModes p). validCatchAllMode mode)"

lemma isPluginObj_iff: "isPluginObj t \<longleftrightarrow> (\<exists>q. t = PluginObj q)"
  by (cases t) auto

lemma definesCommand_iff: "definesCommand p c \<longleftrightarrow> c \<in> set (map imCommand (plCommands p @ plMessageMatchers p))"
  by (auto simp: definesCommand_def list_ex_iff)

lemma reserved_commands:
  "validatePluginCommandNames cs ms \<longleftrightarrow> (\<forall>c \<in> set (map imCommand (cs @ ms)). \<not> isEngineReservedCommandName c)"
  by (auto simp: validatePluginCommandNames_def list_all_iff)

lemma steps_plugin:
  assumes "runSteps (configSteps E lookup ex) (ld\<lparr>ldObj := PluginObj p0\<rparr>) = Inr r"
  shows "\<exists>p. ldObj r = PluginObj p \<and> pluginSound E lookup p"
proof -
  let ?p1 = "p0\<lparr>plTask := defaultChannels E ex (plTask p0)\<rparr>"
  let ?cs = "fst (compileEach (compileCommand E) (plCommands p0))"
  let ?ms = "fst (compileEach (compileMessage E) (plMessageMatchers p0))"
  let ?p = "?p1\<lparr>plCommands := ?cs, plMessageMatchers := ?ms\<rparr>"
  have *: "ldObj r = PluginObj ?p" "snd (compileEach (compileCommand E) (plCommands p0)) = None"
    "snd (compileEach (compileMessage E) (plMessageMatchers p0)) = None"
    "validatePluginCommandNames (plCommands p0) (plMessageMatchers p0)"
    "tkChannels (plTask ?p1) \<noteq> [] \<or> tkAllChannels (plTask ?p1) \<or> pluginHasPrivatePolicy ?p1"
    "find (\<lambda>m. \<not> validCatchAllMode m) (plCatchAllModes p0) = None"
    "find (\<lambda>e. \<not> definesCommand ?p (snd e)) (checkedCommands ?p) = None"
    "if authRequired ?p then \<exists>q. lookup (effectiveAuthorizer E ?p) = Some (PluginObj q) else trimSpace (tkAuthorizer (plTask ?p)) = []"
    using assms
    by (auto simp: configSteps_def runSteps_Cons plugin_steps compiled_Inr onTask_def Let_def isPluginObj_iff
        simp del: runSteps.simps(2) split: if_splits option.splits)
  have c: "matchersCompiled (plCommands p0) ?cs" "matchersCompiled (plMessageMatchers p0) ?ms"
    using *(2,3) by (auto intro: commands_compiled messages_compiled)
  then have names: "map imCommand (?cs @ ?ms) = map imCommand (plCommands p0 @ plMessageMatchers p0)"
    by (simp add: matchersCompiled_def)
  have lists: "\<forall>e \<in> set (checkedCommands ?p). snd e \<in> set (map imCommand (?cs @ ?ms))"
    using *(7) by (simp add: find_None_iff definesCommand_iff Ball_def del: split_paired_All split_paired_Ex)
  have "pluginSound E lookup ?p"
    unfolding pluginSound_def
  proof (intro conjI)
    show "\<forall>c \<in> set (plElevatedCommands ?p) \<union> set (plElevateImmediateCommands ?p) \<union> set (plAuthorizedCommands ?p) \<union>
            set (plAdminCommands ?p) \<union> set (plRequiredPrivateCommands ?p). c \<in> set (map imCommand (plCommands ?p @ plMessageMatchers ?p))"
      using lists by (simp add: checkedCommands_def ball_Un)
    show "tkChannels (plTask ?p) \<noteq> [] \<or> tkAllChannels (plTask ?p) \<or> pluginHasPrivatePolicy ?p"
      using *(5) by (simp add: pluginHasPrivatePolicy_def)
    show "\<forall>m \<in> set (plCommands ?p @ plMessageMatchers ?p). \<not> isEngineReservedCommandName (imCommand m) \<and> imRe m \<noteq> None"
    proof -
      have "\<forall>x \<in> set (map imCommand (?cs @ ?ms)). \<not> isEngineReservedCommandName x" using *(4) names by (simp only: reserved_commands)
      then show ?thesis using c by (simp add: matchersCompiled_def ball_Un)
    qed
  qed (use *(6,8) in \<open>auto simp: find_None_iff\<close>)
  then show ?thesis using *(1) by blast
qed

text \<open>An enabled job.\<close>

definition jobSound :: "loadEnv \<Rightarrow> Job \<Rightarrow> bool" where
  "jobSound E j \<longleftrightarrow>
     tkChannel (jbTask j) \<noteq> [] \<and>
     (\<forall>t \<in> set (jbTriggers j). jtUser t \<noteq> [] \<and> jtChannel t \<noteq> [] \<and> leRegexp E (jtRegex t) = Some (jtRe t)) \<and>
     (\<forall>m \<in> set (jbArguments j). imRe m \<noteq> None \<and> \<not> stockLabel (imLabel m))"

lemma steps_job:
  assumes "runSteps (configSteps E lookup ex) (ld\<lparr>ldObj := JobObj j0\<rparr>) = Inr r"
  shows "\<exists>j. ldObj r = JobObj j \<and> jobSound E j"
proof -
  let ?j1 = "j0\<lparr>jbTask := (if tkChannel (jbTask j0) = [] then (jbTask j0)\<lparr>tkChannel := leDefaultJobChannel E\<rparr> else jbTask j0)\<rparr>"
  let ?ts = "fst (compileEach (compileTrigger E) (jbTriggers j0))"
  let ?ms = "fst (compileEach (compileLabelled BadArgument E) (jbArguments j0))"
  have "ldObj r = JobObj (?j1\<lparr>jbTriggers := ?ts, jbArguments := ?ms\<rparr>)" "tkChannel (jbTask ?j1) \<noteq> []"
    "snd (compileEach (compileTrigger E) (jbTriggers j0)) = None"
    "snd (compileEach (compileLabelled BadArgument E) (jbArguments j0)) = None"
    using assms
    by (auto simp: configSteps_def runSteps_Cons plugin_steps compiled_Inr onTask_def Let_def
        simp del: runSteps.simps(2) split: if_splits)
  moreover from this have "jobSound E (?j1\<lparr>jbTriggers := ?ts, jbArguments := ?ms\<rparr>)"
    unfolding jobSound_def by (auto dest: triggers_compiled labelled_compiled)
  ultimately show ?thesis by blast
qed

text \<open>The timeouts that apply, and the reply matchers.\<close>

definition extrasSound :: "loadEnv \<Rightarrow> loadedTask \<Rightarrow> bool" where
  "extrasSound E ld \<longleftrightarrow>
     validateRuntimeTimeOutThresholds
       (resolveTimeOutThresholds (if isPluginObj (ldObj ld) then lePluginTimeOuts E else leJobTimeOuts E) (ldTimeOuts ld)) \<and>
     (\<forall>m \<in> set (ldReplyMatchers ld). imRe m \<noteq> None \<and> \<not> stockLabel (imLabel m))"

lemma steps_extras:
  assumes "runSteps (configSteps E lookup ex) ld = Inr r" shows "extrasSound E r"
proof -
  have "ldTimeOuts r = ldTimeOuts ld" "ldReplyMatchers r = fst (compileEach (compileLabelled BadReplyMatcher E) (ldReplyMatchers ld))"
    "snd (compileEach (compileLabelled BadReplyMatcher E) (ldReplyMatchers ld)) = None"
    "validateRuntimeTimeOutThresholds
       (resolveTimeOutThresholds (if isPluginObj (ldObj ld) then lePluginTimeOuts E else leJobTimeOuts E) (ldTimeOuts ld))"
    using assms
    by (cases "ldObj ld"; auto simp: configSteps_def runSteps_Cons plugin_steps compiled_Inr onTask_def Let_def
        simp del: runSteps.simps(2) split: if_splits option.splits)+
  moreover have "isPluginObj (ldObj r) = isPluginObj (ldObj ld)" using configSteps_shape(1) [OF assms] by (rule shape_plugin)
  ultimately show ?thesis unfolding extrasSound_def using labelled_compiled by auto
qed

subsection \<open>The whole load\<close>

text \<open>A task that comes out enabled passed every check.\<close>

definition taskSound :: "loadEnv \<Rightarrow> (string \<Rightarrow> taskObj option) \<Rightarrow> loadedTask \<Rightarrow> bool" where
  "taskSound E lookup ld =
     (case ldObj ld of
        PluginObj p \<Rightarrow> pluginSound E lookup p \<and> extrasSound E ld
      | JobObj j \<Rightarrow> jobSound E j \<and> extrasSound E ld
      | TaskObj t \<Rightarrow> True)"

lemma steps_sound:
  assumes "runSteps (configSteps E lookup ex) ld = Inr r" shows "taskSound E lookup r"
proof (cases "ldObj ld")
  case (PluginObj p0)
  then have "ld = ld\<lparr>ldObj := PluginObj p0\<rparr>" by simp
  then show ?thesis using steps_plugin [where ld = ld and ?p0.0 = p0 and E = E and lookup = lookup and ex = ex and r = r] steps_extras [OF assms] assms by (auto simp: taskSound_def)
next
  case (JobObj j0)
  then have "ld = ld\<lparr>ldObj := JobObj j0\<rparr>" by simp
  then show ?thesis using steps_job [where ld = ld and ?j0.0 = j0 and E = E and lookup = lookup and ex = ex and r = r] steps_extras [OF assms] assms by (auto simp: taskSound_def)
next
  case (TaskObj t)
  then have "shape r = (KindTask, tkName t)" using configSteps_shape(1) [OF assms] by simp
  then show ?thesis by (cases "ldObj r") (auto simp: taskSound_def)
qed

lemma uuidStep_Inr:
  assumes "uuidStep E u ld = Inr (r, u')"
  shows "ldObj r = ldObj ld \<and> ldReplyMatchers r = ldReplyMatchers ld \<and> ldTimeOuts r = ldTimeOuts ld \<and>
    (case ldObj ld of
       JobObj j \<Rightarrow> if ldUUIDTrigger r = [] then u' = u \<or> u [] = None \<and> u' = u([] \<mapsto> tkName (jbTask j))
          else u (ldUUIDTrigger r) = None \<and> u' = u(ldUUIDTrigger r \<mapsto> tkName (jbTask j))
     | _ \<Rightarrow> u' = u)"
  using assms by (auto simp: uuidStep_def split: taskObj.splits if_splits option.splits)

lemma uuidStep_Inl: "uuidStep E u ld = Inl (why, r) \<Longrightarrow> r = ld"
  by (auto simp: uuidStep_def split: taskObj.splits if_splits option.splits)

lemma uuidStep_sound: "uuidStep E u ld = Inr (r, u') \<Longrightarrow> taskSound E lookup ld \<Longrightarrow> taskSound E lookup r"
  using uuidStep_Inr [of E u ld r u'] by (auto simp: taskSound_def extrasSound_def split: taskObj.splits)

text \<open>Whether a job of a list can be triggered by its UUID.\<close>

definition triggered :: "loadedTask \<Rightarrow> bool" where
  "triggered ld \<longleftrightarrow> (\<exists>j. ldObj ld = JobObj j) \<and> ldEnabled ld \<and> ldUUIDTrigger ld \<noteq> []"

text \<open>The outcome of one task: it keeps its kind and name, is sound or disabled, and takes a UUID nobody had.\<close>

definition outcomeOk :: "loadEnv \<Rightarrow> (string \<Rightarrow> taskObj option) \<Rightarrow> loadedTask \<Rightarrow> uuidTriggers \<Rightarrow> loadedTask \<Rightarrow> uuidTriggers \<Rightarrow> bool" where
  "outcomeOk E lookup ld u r u' \<longleftrightarrow>
     shape r = shape ld \<and> (ldEnabled r \<longrightarrow> taskSound E lookup r) \<and> u \<subseteq>\<^sub>m u' \<and>
     (triggered r \<longrightarrow> u (ldUUIDTrigger r) = None \<and> u' (ldUUIDTrigger r) = Some (ldName r))"

lemma outcome_disabled: "outcomeOk E lookup ld u (disableTask w why l) u" if "shape l = shape ld"
  using that by (simp add: outcomeOk_def triggered_def)

lemma outcome_checked:
  assumes "runSteps (configSteps E lookup ex) l = Inr l1" "uuidStep E u l1 = Inr (r, u')" "shape l = shape ld"
  shows "outcomeOk E lookup ld u r u'"
proof -
  have "shape l1 = shape ld" using configSteps_shape(1) [OF assms(1)] assms(3) by simp
  moreover have "taskSound E lookup r" by (rule uuidStep_sound [OF assms(2) steps_sound [OF assms(1)]])
  ultimately show ?thesis
    using uuidStep_Inr [OF assms(2)]
    by (auto simp: outcomeOk_def triggered_def map_le_def dom_def split: taskObj.splits if_splits)
qed

text \<open>The part of an iteration after the keys.\<close>

definition checkTask ::
    "loadEnv \<Rightarrow> (string \<Rightarrow> taskObj option) \<Rightarrow> bool \<Rightarrow> uuidTriggers \<Rightarrow> loadedTask \<Rightarrow> loadError + loadedTask \<times> uuidTriggers" where
  "checkTask E lookup ex u l =
     (case runSteps (configSteps E lookup ex) l of
        Inl (why, l') \<Rightarrow> Inr (disableTask (leWording E) why l', u)
      | Inr l' \<Rightarrow> (case uuidStep E u l' of Inl (why, l'') \<Rightarrow> Inr (disableTask (leWording E) why l'', u) | Inr r \<Rightarrow> Inr r))"

lemma checkTask_ok:
  assumes "checkTask E lookup ex u l = Inr (r, u')" and "shape l = shape ld" shows "outcomeOk E lookup ld u r u'"
proof (cases "runSteps (configSteps E lookup ex) l")
  case (Inl e)
  obtain why l' where "e = (why, l')" by fastforce
  then show ?thesis using Inl assms configSteps_shape(2) [of E lookup ex l why l'] by (auto simp: checkTask_def intro: outcome_disabled)
next
  case (Inr l')
  show ?thesis
  proof (cases "uuidStep E u l'")
    case (Inl e)
    obtain why l'' where "e = (why, l'')" by fastforce
    then show ?thesis using Inl Inr assms uuidStep_Inl [of E u l' why l''] configSteps_shape(1) [OF Inr]
      by (auto simp: checkTask_def intro: outcome_disabled)
  next
    case (Inr v)
    then show ?thesis using assms outcome_checked [OF \<open>runSteps (configSteps E lookup ex) l = Inr l'\<close>]
      \<open>runSteps (configSteps E lookup ex) l = Inr l'\<close> by (simp add: checkTask_def)
  qed
qed

lemma configureTask_body:
  assumes "\<nexists>t. ldObj ld = TaskObj t"
  shows "configureTask E lookup pre ld u =
    (let l = resetChannels ld in
     if tkDisabled (taskOf (ldObj l)) then Inr (l, u)
     else (case readTaskConfig E pre (ldObj l) of
             Inl why \<Rightarrow> Inr (disableTask (leWording E) why l, u)
           | Inr keys \<Rightarrow>
               (case applyKeys (leParseDuration E) (leOrder E keys) l of
                  KeysFatal l \<Rightarrow> Inl (IllegalPrivileged (ldName l))
                | KeysDisable why l \<Rightarrow> Inr (disableTask (leWording E) why l, u)
                | KeysDone l \<Rightarrow> checkTask E lookup (''AllChannels'' \<in> set (map fst (leOrder E keys))) u l)))"
  using assms unfolding configureTask_def checkTask_def Let_def by (cases "ldObj ld") (simp_all only: taskObj.case, auto)

lemma configureTask_ok:
  assumes "configureTask E lookup pre ld u = Inr (r, u')" shows "outcomeOk E lookup ld u r u'"
proof (cases "\<exists>t. ldObj ld = TaskObj t")
  case True
  then show ?thesis using assms by (auto simp: configureTask_def outcomeOk_def taskSound_def triggered_def)
next
  case False
  let ?l = "resetChannels ld"
  note body = assms [unfolded configureTask_body [OF False] Let_def]
  show ?thesis
  proof (cases "tkDisabled (taskOf (ldObj ?l))")
    case True
    then show ?thesis using body by (auto simp: outcomeOk_def triggered_def)
  next
    case enabled: False
    show ?thesis
    proof (cases "readTaskConfig E pre (ldObj ?l)")
      case (Inl why)
      then show ?thesis using body enabled by (auto intro: outcome_disabled)
    next
      case (Inr keys)
      show ?thesis
      proof (cases "applyKeys (leParseDuration E) (leOrder E keys) ?l")
        case (KeysDone l)
        then have "shape l = shape ld" using shape_applyKeys [of "leParseDuration E" "leOrder E keys" ?l l] by simp
        then show ?thesis using body enabled Inr KeysDone by (auto intro: checkTask_ok)
      next
        case (KeysDisable why l)
        then have "shape l = shape ld" using shape_applyKeys [of "leParseDuration E" "leOrder E keys" ?l l why] by simp
        then show ?thesis using body enabled Inr KeysDisable by (auto intro: outcome_disabled)
      next
        case (KeysFatal l)
        then show ?thesis using body enabled Inr by simp
      qed
    qed
  qed
qed

lemma configureAll_ok:
  assumes "configureAll E lookup pre lds u = Inr (rs, u')"
  shows "map shape rs = map shape lds \<and> (\<forall>r \<in> set rs. ldEnabled r \<longrightarrow> taskSound E lookup r) \<and> u \<subseteq>\<^sub>m u' \<and>
    (\<forall>r \<in> set rs. triggered r \<longrightarrow> u (ldUUIDTrigger r) = None \<and> u' (ldUUIDTrigger r) = Some (ldName r)) \<and>
    distinct (map ldUUIDTrigger (filter triggered rs))"
  using assms
proof (induction lds arbitrary: u rs)
  case Nil
  then show ?case by simp
next
  case (Cons ld lds)
  obtain r u1 rs' where step: "configureTask E lookup pre ld u = Inr (r, u1)" "configureAll E lookup pre lds u1 = Inr (rs', u')" "rs = r # rs'"
    using Cons.prems by (auto split: sum.splits)
  have one: "outcomeOk E lookup ld u r u1" by (rule configureTask_ok [OF step(1)])
  note IH = Cons.IH [OF step(2)]
  have fresh: "u x = None" if "u1 x = None" for x
    using that one by (auto simp: outcomeOk_def map_le_def dom_def)
  have kept: "u' x = Some y" if "u1 x = Some y" for x y
    using that IH by (auto simp: map_le_def dom_def)
  have "u \<subseteq>\<^sub>m u'" using one IH map_le_trans unfolding outcomeOk_def by blast
  then show ?case
    using IH one fresh kept unfolding step(3) outcomeOk_def by (auto simp: image_iff)
qed

subsection \<open>Names\<close>

text \<open>Every name of a task points to it, every task is under its name, and other names are name spaces or parameter sets.\<close>

definition namesOk :: "(settingsKind \<times> string) list \<Rightarrow> (string \<Rightarrow> nat option) \<Rightarrow> bool" where
  "namesOk shapes nm \<longleftrightarrow>
     (\<forall>n i. nm n = Some (Suc i) \<longrightarrow> i < length shapes \<and> snd (shapes ! i) = n) \<and>
     (\<forall>i < length shapes. nm (snd (shapes ! i)) = Some (Suc i))"

abbreviation listOk :: "loadList \<Rightarrow> bool" where
  "listOk lst \<equiv> namesOk (map shape (llT lst)) (llNameMap lst)"

lemma shape_snd: "snd (shapeOf t) = tkName (taskOf t)"
  by (cases t) auto

lemma namesOk_add:
  assumes "namesOk shapes nm" "nm (snd s) = None" shows "namesOk (shapes @ [s]) (nm(snd s \<mapsto> Suc (length shapes)))"
  unfolding namesOk_def
proof (intro conjI allI impI)
  fix n i assume n: "(nm(snd s \<mapsto> Suc (length shapes))) n = Some (Suc i)"
  show "i < length (shapes @ [s])" using assms(1) n by (cases "n = snd s") (auto simp: namesOk_def less_Suc_eq)
  show "snd ((shapes @ [s]) ! i) = n" using assms(1) n by (cases "n = snd s") (auto simp: namesOk_def nth_append)
next
  fix i assume i: "i < length (shapes @ [s])"
  show "(nm(snd s \<mapsto> Suc (length shapes))) (snd ((shapes @ [s]) ! i)) = Some (Suc i)"
  proof (cases "i < length shapes")
    case True
    then have "nm (snd (shapes ! i)) = Some (Suc i)" using assms(1) by (simp add: namesOk_def)
    then show ?thesis using True assms(2) by (auto simp: nth_append)
  next
    case False
    then show ?thesis using i by (simp add: nth_append less_Suc_eq)
  qed
qed

lemma namesOk_other: "namesOk shapes nm \<Longrightarrow> nm n = None \<Longrightarrow> namesOk shapes (nm(n \<mapsto> 0))"
  by (auto simp: namesOk_def)

lemma listOk_addTask: "listOk lst \<Longrightarrow> llNameMap lst (ldName ld) = None \<Longrightarrow> listOk (addTask ld lst)"
  using namesOk_add [of "map shape (llT lst)" "llNameMap lst" "shape ld"] by (simp add: addTask_def shape_snd)

lemma shape_settings: "checkTaskSettings E lst ts ld = Inr ld' \<Longrightarrow> shape ld' = shape ld"
  by (auto simp: checkTaskSettings_def shape_onTask split: if_splits option.splits)

lemma setupGoTask_Inr:
  assumes "setupGoTask E kind ts lst = Inr lst'"
  obtains i ld where "llNameMap lst (tgName ts) = Some (Suc i)" "shape ld = shape (llT lst ! i)" "lst' = lst\<lparr>llT := (llT lst)[i := ld]\<rparr>"
proof -
  obtain ti where ti: "llNameMap lst (tgName ts) = Some ti" "ti \<noteq> 0" using assms by (auto simp: setupGoTask_def split: option.splits if_splits)
  then obtain i where i: "ti = Suc i" using not0_implies_Suc by blast
  obtain ld' where ld': "(if kind = KindTask then Some (llT lst ! i)
      else map_option (\<lambda>priv. onTask (\<lambda>t. t\<lparr>tkPrivileged := priv\<rparr>) (llT lst ! i)) (tgPrivileged ts)) = Some ld'"
    using assms ti i by (auto simp: setupGoTask_def Let_def split: option.splits if_splits)
  then have "shape ld' = shape (llT lst ! i)" by (auto simp: shape_onTask split: if_splits)
  moreover obtain ld where "checkTaskSettings E lst ts ld' = Inr ld" "lst' = lst\<lparr>llT := (llT lst)[i := ld]\<rparr>"
    using assms ti i ld' by (auto simp: setupGoTask_def Let_def split: option.splits if_splits sum.splits)
  ultimately show ?thesis using that [of i ld] ti i shape_settings by simp
qed

lemma listOk_setupGo: "setupGoTask E kind ts lst = Inr lst' \<Longrightarrow> listOk lst \<Longrightarrow> listOk lst'"
proof (erule setupGoTask_Inr)
  fix i ld
  assume a: "listOk lst" "llNameMap lst (tgName ts) = Some (Suc i)" "shape ld = shape (llT lst ! i)" "lst' = lst\<lparr>llT := (llT lst)[i := ld]\<rparr>"
  have "i < length (llT lst)" using a(1,2) by (simp add: namesOk_def)
  then have "map shape (llT lst') = map shape (llT lst)" using a(3,4) by (simp add: map_update list_update_same_conv)
  then show "listOk lst'" using a(1,4) by simp
qed

lemma listOk_names:
  "addNameSpace ns lst = Inr lst' \<Longrightarrow> listOk lst \<Longrightarrow> listOk lst'"
  "addParameterSet ns lst = Inr lst' \<Longrightarrow> listOk lst \<Longrightarrow> listOk lst'"
  using namesOk_other [of "map shape (llT lst)" "llNameMap lst" "tgName ns"]
  by (auto simp: addNameSpace_def addParameterSet_def split: if_splits)

lemma listOk_external: "addExternalTask E kind ts lst = Inr lst' \<Longrightarrow> listOk lst \<Longrightarrow> listOk lst'"
proof -
  assume a: "addExternalTask E kind ts lst = Inr lst'" "listOk lst"
  then obtain priv where priv: "tgPrivileged ts = Some priv" "llNameMap lst (tgName ts) = None"
    by (auto simp: addExternalTask_def split: option.splits if_splits)
  then obtain ld where ld: "checkTaskSettings E lst ts \<lparr>ldObj = newObj kind (externalTask ts priv), ldReplyMatchers = [], ldConfig = None,
        ldTimeOuts = noTimeOuts, ldUUIDTrigger = []\<rparr> = Inr ld"
    using a by (auto simp: addExternalTask_def split: if_splits sum.splits)
  obtain opath ex where path: "leObjectPath E (tgPath ts) = Some (opath, ex)"
    using a priv ld by (auto simp: addExternalTask_def split: if_splits option.splits)
  let ?f = "\<lambda>t. t\<lparr>tkHomed := tkHomed t \<or> hasSuffix opath ''.go'' \<and> \<not> ex, tkPath := tgPath ts\<rparr>"
  have lst': "lst' = addTask (onTask ?f ld) lst"
    using a priv ld path by (simp add: addExternalTask_def split: if_splits)
  have "shape (onTask ?f ld) = (kind, tgName ts)"
    using shape_settings [OF ld] by (cases kind) (simp_all add: shape_onTask externalTask_def newPlugin_def newJob_def)
  then have "ldName (onTask ?f ld) = tgName ts" using shape_snd [of "ldObj (onTask ?f ld)"] by simp
  then show "listOk lst'" using a(2) priv(2) lst' listOk_addTask [of lst "onTask ?f ld"] by simp
qed

lemma foldLoad_keeps:
  assumes "foldLoad (\<lambda>f l. f l) fs lst = Inr lst'" "P lst" "\<forall>f \<in> set fs. \<forall>l l'. P l \<longrightarrow> f l = Inr l' \<longrightarrow> P l'"
  shows "P lst'"
  using assms
proof (induction fs arbitrary: lst)
  case Nil
  then show ?case by simp
next
  case (Cons f fs)
  obtain l1 where l1: "f lst = Inr l1" "foldLoad (\<lambda>f l. f l) fs l1 = Inr lst'" using Cons.prems(1) by (auto split: sum.splits)
  have "P l1" using Cons.prems(2,3) l1(1) by (meson list.set_intros(1))
  moreover have "\<forall>f \<in> set fs. \<forall>l l'. P l \<longrightarrow> f l = Inr l' \<longrightarrow> P l'" using Cons.prems(3) by (meson list.set_intros(2))
  ultimately show ?case by (rule Cons.IH [OF l1(2)])
qed

lemma addGoTasks_ok:
  assumes "addGoTasks current ns lst = Inr lst'" "distinct ns" "\<forall>n ld. current n = Some ld \<longrightarrow> ldName ld = n"
    "\<forall>n \<in> set ns. llNameMap lst n = None" "listOk lst"
  shows "listOk lst'"
  using assms
proof (induction ns arbitrary: lst)
  case Nil
  then show ?case by simp
next
  case (Cons n ns)
  obtain ld where ld: "current n = Some ld" "addGoTasks current ns (addTask ld lst) = Inr lst'"
    using Cons.prems(1) by (auto split: option.splits)
  have name: "ldName ld = n" using Cons.prems(3) ld(1) by blast
  have "\<forall>m \<in> set ns. llNameMap (addTask ld lst) m = None" using Cons.prems(2,4) name by (auto simp: addTask_def)
  moreover have "listOk (addTask ld lst)" using Cons.prems(4,5) name listOk_addTask by simp
  ultimately show ?case using Cons.IH [OF ld(2)] Cons.prems(2,3) by simp
qed

lemma listTasks_ok:
  assumes "listTasks E pt current goNames = Inr lst" "distinct goNames" "\<forall>n ld. current n = Some ld \<longrightarrow> ldName ld = n"
  shows "listOk lst"
proof -
  obtain l0 where l0: "addGoTasks current goNames emptyLoadList = Inr l0" using assms(1) by (auto simp: listTasks_def split: sum.splits)
  have "listOk l0" by (rule addGoTasks_ok [OF l0 assms(2,3)]) (simp_all add: emptyLoadList_def namesOk_def)
  moreover have "foldLoad (\<lambda>f l. f l) (map addNameSpace (ptNameSpaces pt) @ map addParameterSet (ptParameterSets pt) @
             map (setupGoTask E KindTask) (ptGoTasks pt) @ map (setupGoTask E KindPlugin) (ptGoPlugins pt) @
             map (setupGoTask E KindJob) (ptGoJobs pt) @ map (addExternalTask E KindPlugin) (ptExternalPlugins pt) @
             map (addExternalTask E KindJob) (ptExternalJobs pt) @ map (addExternalTask E KindTask) (ptExternalTasks pt)) l0 = Inr lst"
    (is "foldLoad _ ?fs l0 = _") using assms(1) l0 by (simp add: listTasks_def)
  moreover have "\<forall>f \<in> set ?fs. \<forall>l l'. listOk l \<longrightarrow> f l = Inr l' \<longrightarrow> listOk l'"
    unfolding set_append set_map ball_Un using listOk_names listOk_setupGo listOk_external by blast
  ultimately show ?thesis using foldLoad_keeps [where P = listOk] by blast
qed

lemma load_parts:
  assumes "loadTaskConfig E pt current goNames pre = Inr L"
  obtains lst where "listTasks E pt current goNames = Inr lst"
    "configureAll E (\<lambda>n. map_option ldObj (getLoaded lst n)) pre (llT lst) (llUUIDTriggers lst) = Inr (llT L, llUUIDTriggers L)"
    "llNameMap L = llNameMap lst"
  using assms by (auto simp: loadTaskConfig_def split: sum.splits)

lemma load_listOk:
  assumes "loadTaskConfig E pt current goNames pre = Inr L" "distinct goNames" "\<forall>n ld. current n = Some ld \<longrightarrow> ldName ld = n"
  shows "listOk L"
proof -
  obtain lst where lst: "listTasks E pt current goNames = Inr lst" "llNameMap L = llNameMap lst"
    "configureAll E (\<lambda>n. map_option ldObj (getLoaded lst n)) pre (llT lst) (llUUIDTriggers lst) = Inr (llT L, llUUIDTriggers L)"
    using load_parts [OF assms(1)] by metis
  show ?thesis using listTasks_ok [OF lst(1) assms(2,3)] configureAll_ok [OF lst(3)] lst(2) by simp
qed

lemma nth_shape: "map shape rs = map shape ls \<Longrightarrow> i < length ls \<Longrightarrow> shape (rs ! i) = shape (ls ! i)"
  by (metis length_map nth_map)

text \<open>The authorizer that was looked up in the list while it was configured is there afterwards.\<close>

lemma plugin_lookup:
  assumes "listOk lst" "map shape (llT L) = map shape (llT lst)" "llNameMap L = llNameMap lst"
    and "map_option ldObj (getLoaded lst n) = Some (PluginObj q)"
  shows "\<exists>q'. getTaskByName (toTaskList nothing L) n = Some (PluginObj q')"
proof -
  obtain i where i: "llNameMap lst n = Some (Suc i)" "ldObj (llT lst ! i) = PluginObj q"
    using assms(4) by (auto simp: getLoaded_def split: option.splits if_splits) (metis Suc_pred)
  have len: "i < length (llT lst)" "length (llT L) = length (llT lst)"
    using assms(1,2) i by (auto simp: namesOk_def dest: map_eq_imp_length_eq)
  have "shape (llT L ! i) = (KindPlugin, tkName (plTask q))" using nth_shape [OF assms(2) len(1)] i(2) by simp
  then have "\<exists>q'. ldObj (llT L ! i) = PluginObj q'" by (cases "ldObj (llT L ! i)") auto
  then show ?thesis using i len assms(3) by (simp add: getTaskByName_def toTaskList_def)
qed

lemma load_tasks:
  assumes "loadTaskConfig E pt current goNames pre = Inr L" "distinct goNames" "\<forall>n ld. current n = Some ld \<longrightarrow> ldName ld = n"
  shows "(\<forall>ld \<in> set (llT L). ldEnabled ld \<longrightarrow> taskSound E (getTaskByName (toTaskList nothing L)) ld) \<and>
    (\<forall>ld \<in> set (llT L). triggered ld \<longrightarrow> llUUIDTriggers L (ldUUIDTrigger ld) = Some (ldName ld)) \<and>
    distinct (map ldUUIDTrigger (filter triggered (llT L)))"
proof -
  obtain lst where lst: "listTasks E pt current goNames = Inr lst" "llNameMap L = llNameMap lst"
    "configureAll E (\<lambda>n. map_option ldObj (getLoaded lst n)) pre (llT lst) (llUUIDTriggers lst) = Inr (llT L, llUUIDTriggers L)"
    using load_parts [OF assms(1)] by metis
  note all = configureAll_ok [OF lst(3)]
  have shapes: "map shape (llT L) = map shape (llT lst)" using all by blast
  have auth: "\<exists>q'. getTaskByName (toTaskList nothing L) n = Some (PluginObj q')"
    if "\<exists>q. map_option ldObj (getLoaded lst n) = Some (PluginObj q)" for n
    using that plugin_lookup [OF listTasks_ok [OF lst(1) assms(2,3)] shapes lst(2)] by blast
  have found: "pluginSound E (getTaskByName (toTaskList nothing L)) p"
    if "pluginSound E (\<lambda>n. map_option ldObj (getLoaded lst n)) p" for p
    using that auth [of "effectiveAuthorizer E p"] unfolding pluginSound_def by (cases "authRequired p") (simp_all only: if_True if_False simp_thms, blast+)
  have "taskSound E (getTaskByName (toTaskList nothing L)) ld" if "ld \<in> set (llT L)" "ldEnabled ld" for ld
  proof -
    have "taskSound E (\<lambda>n. map_option ldObj (getLoaded lst n)) ld" using that all by blast
    then show ?thesis using found by (cases "ldObj ld") (simp_all add: taskSound_def)
  qed
  then show ?thesis using all by blast
qed

text \<open>
  C36. A plugin that is enabled after a load cannot be misconfigured in the ways that matter: every command in a
  list that restricts commands (elevated, authorized, admin, private) is a command it defines, what it needs an authorizer for has one
  that is a plugin of the list, it can be reached somewhere, none of its commands has a reserved name, and all its
  matchers are compiled and its timeouts consistent.
\<close>

theorem enabled_plugins_checked:
  assumes "loadTaskConfig E pt current goNames pre = Inr L" and "distinct goNames" and "\<forall>n ld. current n = Some ld \<longrightarrow> ldName ld = n"
    and "ld \<in> set (llT L)" and "ldObj ld = PluginObj p" and "\<not> tkDisabled (plTask p)"
  shows "(\<forall>c \<in> set (plElevatedCommands p) \<union> set (plElevateImmediateCommands p) \<union> set (plAuthorizedCommands p) \<union>
            set (plAdminCommands p) \<union> set (plRequiredPrivateCommands p).
          c \<in> set (map imCommand (plCommands p @ plMessageMatchers p))) \<and>
    (authRequired p \<longrightarrow> (\<exists>q. getTaskByName (toTaskList nothing L) (effectiveAuthorizer E p) = Some (PluginObj q))) \<and>
    (tkChannels (plTask p) \<noteq> [] \<or> tkAllChannels (plTask p) \<or> pluginHasPrivatePolicy p) \<and>
    (\<forall>m \<in> set (plCommands p @ plMessageMatchers p). \<not> isEngineReservedCommandName (imCommand m) \<and> imRe m \<noteq> None) \<and>
    validateRuntimeTimeOutThresholds (resolveTimeOutThresholds (lePluginTimeOuts E) (ldTimeOuts ld))"
proof -
  have "taskSound E (getTaskByName (toTaskList nothing L)) ld" using load_tasks [OF assms(1-3)] assms(4-6) by simp
  then have "pluginSound E (getTaskByName (toTaskList nothing L)) p" "extrasSound E ld" using assms(5) by (simp_all add: taskSound_def)
  then show ?thesis using assms(5) unfolding pluginSound_def extrasSound_def by (simp split: if_splits)
qed

text \<open>
  C27. A job that is enabled after a load has a channel to run in, only triggers with a user, a channel and a compiled expression, compiled
  arguments, and consistent timeouts; a UUID that triggers an enabled job belongs to that job and to no other one.
\<close>

theorem enabled_jobs_checked:
  assumes "loadTaskConfig E pt current goNames pre = Inr L" and "distinct goNames" and "\<forall>n ld. current n = Some ld \<longrightarrow> ldName ld = n"
    and "ld \<in> set (llT L)" and "ldObj ld = JobObj j" and "\<not> tkDisabled (jbTask j)"
  shows "tkChannel (jbTask j) \<noteq> [] \<and>
    (\<forall>t \<in> set (jbTriggers j). jtUser t \<noteq> [] \<and> jtChannel t \<noteq> [] \<and> leRegexp E (jtRegex t) = Some (jtRe t)) \<and>
    (\<forall>m \<in> set (jbArguments j). imRe m \<noteq> None) \<and>
    validateRuntimeTimeOutThresholds (resolveTimeOutThresholds (leJobTimeOuts E) (ldTimeOuts ld)) \<and>
    (ldUUIDTrigger ld \<noteq> [] \<longrightarrow> llUUIDTriggers L (ldUUIDTrigger ld) = Some (tkName (jbTask j))) \<and>
    distinct (map ldUUIDTrigger (filter triggered (llT L)))"
proof -
  note all = load_tasks [OF assms(1-3), of "TaskObj (jbTask j)"]
  have "taskSound E (getTaskByName (toTaskList (TaskObj (jbTask j)) L)) ld" using all assms(4-6) by simp
  then have "jobSound E j" "extrasSound E ld" using assms(5) by (simp_all add: taskSound_def)
  moreover have "triggered ld" if "ldUUIDTrigger ld \<noteq> []" using that assms(5,6) by (simp add: triggered_def)
  ultimately show ?thesis using all assms(4,5) unfolding jobSound_def extrasSound_def by simp
qed

text \<open>
  The names of a loaded list are right: the list is well formed, a name that resolves gives the task of that name,
  and every task, of whatever kind, is found under its own name, so no two have the same.
\<close>

theorem names_resolve:
  assumes "loadTaskConfig E pt current goNames pre = Inr L" and "distinct goNames" and "\<forall>n ld. current n = Some ld \<longrightarrow> ldName ld = n"
  shows "(\<forall>name i. tlNameMap (toTaskList nothing L) name = Some i \<longrightarrow> i < length (tlT (toTaskList nothing L))) \<and>
    (\<forall>name t. getTaskByName (toTaskList nothing L) name = Some t \<longrightarrow> tkName (taskOf t) = name) \<and>
    (\<forall>ld \<in> set (llT L). getTaskByName (toTaskList nothing L) (ldName ld) = Some (ldObj ld))"
proof -
  have ok: "listOk L" by (rule load_listOk [OF assms])
  have in_range: "i \<le> length (llT L)" if "llNameMap L name = Some i" for name i
    using ok that by (cases i) (auto simp: namesOk_def Suc_le_eq)
  have named: "tkName (taskOf (ldObj (llT L ! i))) = name" if "llNameMap L name = Some (Suc i)" for name i
  proof -
    have "i < length (llT L) \<and> snd (map shape (llT L) ! i) = name" using ok that unfolding namesOk_def by fastforce
    then have "snd (shape (llT L ! i)) = name" by auto
    then show ?thesis by (simp only: shape_snd)
  qed
  have own: "llNameMap L (ldName (llT L ! i)) = Some (Suc i)" if "i < length (llT L)" for i
    using ok that by (simp add: namesOk_def shape_snd)
  show ?thesis
  proof (intro conjI allI impI ballI)
    fix name i assume "tlNameMap (toTaskList nothing L) name = Some i"
    then show "i < length (tlT (toTaskList nothing L))" using in_range by (simp add: toTaskList_def less_Suc_eq_le)
  next
    fix name t assume "getTaskByName (toTaskList nothing L) name = Some t"
    then obtain i where "llNameMap L name = Some (Suc i)" "t = (nothing # map ldObj (llT L)) ! Suc i"
      by (auto simp: getTaskByName_def toTaskList_def split: option.splits if_splits) (metis Suc_pred)
    then show "tkName (taskOf t) = name" using named in_range by (force simp: Suc_le_eq)
  next
    fix ld assume "ld \<in> set (llT L)"
    then obtain i where "i < length (llT L)" "ld = llT L ! i" by (auto simp: in_set_conv_nth)
    then show "getTaskByName (toTaskList nothing L) (ldName ld) = Some (ldObj ld)" using own by (simp add: getTaskByName_def toTaskList_def)
  qed
qed

subsection \<open>A load of a plugin and a job\<close>

definition demoFiles :: "string \<Rightarrow> confFile" where
  "demoFiles path =
     (if path = ''i/conf/plugins/ping.yaml'' then
        ConfParsed [(''Commands'', CList [CMap [(''Command'', CStr ''ping''), (''Regex'', CStr ''ping'')]]),
                    (''AdminCommands'', CList [CStr ''ping'']), (''AuthorizeAllCommands'', CBool True), (''Authorizer'', CStr ''ping'')]
      else if path = ''i/conf/jobs/back.yaml'' then ConfParsed [(''UUIDTrigger'', CStr '' u1''), (''RequireAdmin'', CBool True)]
      else if path = ''i/conf/jobs/lost.yaml'' then
        ConfParsed [(''RequireAdmin'', CBool True), (''Users'', CList [CStr ''ann'']), (''Config'', CUnsupported)]
      else if path = ''i/conf/plugins/chat.yaml'' then ConfParsed [(''AdminCommands'', CList [CStr ''talk''])]
      else ConfUnreadable)"

definition demoLoadEnv :: loadEnv where
  "demoLoadEnv = \<lparr>leRegexp = (\<lambda>s. Some (\<lambda>x. None)), leParseDuration = (\<lambda>s. Some 60), leUuid = Some, leWording = (\<lambda>why. ''disabled''),
     leDefCfg = (\<lambda>t. Some (if tkName (taskOf t) = ''chat''
        then [(''Commands'', CList [CMap [(''Command'', CStr ''talk''), (''Regex'', CStr ''talk'')]])] else [])),
     leFiles = demoFiles, leInstallPath = ''i'', leConfigPath = [], leOrder = (\<lambda>m. m), leObjectPath = (\<lambda>p. Some (p, True)),
     leDefaultJobChannel = ''jobs'', lePlugChannels = [], leDefaultAuthorizer = [],
     lePluginTimeOuts = \<lparr>rtWarn = 0, rtKill = 0\<rparr>, leJobTimeOuts = \<lparr>rtWarn = 0, rtKill = 0\<rparr>\<rparr>"

definition demoSettings :: "string \<Rightarrow> TaskSettings" where
  "demoSettings name = \<lparr>tgName = name, tgPath = ''x'', tgDescription = [], tgNameSpace = [], tgParameterSets = [], tgDisabled = False,
     tgHomed = False, tgPrivileged = Some False, tgParameters = []\<rparr>"

definition demoTaskSettings :: processedTasks where
  "demoTaskSettings = \<lparr>ptNameSpaces = [], ptParameterSets = [], ptGoTasks = [], ptGoPlugins = [], ptGoJobs = [],
     ptExternalPlugins = [demoSettings ''ping''], ptExternalJobs = [demoSettings ''back'', demoSettings ''lost''], ptExternalTasks = []\<rparr>"

definition demoLoad :: "loadError + loadList" where
  "demoLoad = loadTaskConfig demoLoadEnv demoTaskSettings (\<lambda>_. None) [] False"

lemma demo_loaded:
  "case demoLoad of Inl e \<Rightarrow> False
   | Inr L \<Rightarrow> map (\<lambda>ld. (shape ld, ldEnabled ld, ldUUIDTrigger ld)) (llT L) =
       [((KindPlugin, ''ping''), True, ''''), ((KindJob, ''back''), True, ''u1''), ((KindJob, ''lost''), True, '''')]"
  by code_simp

lemma demo_plugin:
  "case demoLoad of Inl e \<Rightarrow> False
   | Inr L \<Rightarrow> (case llT L of [] \<Rightarrow> False
       | ld # lds \<Rightarrow> (case ldObj ld of
           PluginObj p \<Rightarrow> authRequired p \<and> effectiveAuthorizer demoLoadEnv p = ''ping'' \<and> \<not> tkDisabled (plTask p) | _ \<Rightarrow> False))"
  by code_simp

lemma demo_job:
  "case demoLoad of Inl e \<Rightarrow> False
   | Inr L \<Rightarrow> (case llT L of ld0 # ld # lds \<Rightarrow>
       (case ldObj ld of JobObj j \<Rightarrow> ldUUIDTrigger ld = ''u1'' \<and> tkName (jbTask j) = ''back'' \<and> \<not> tkDisabled (jbTask j) | _ \<Rightarrow> False) | _ \<Rightarrow> False)"
  by code_simp

abbreviation nothingTask :: taskObj where "nothingTask \<equiv> TaskObj (externalTask (demoSettings []) False)"

theorem enabled_plugins_checked_witness:
  "\<exists>L q. demoLoad = Inr L \<and> getTaskByName (toTaskList nothingTask L) ''ping'' = Some (PluginObj q)"
proof -
  obtain L ld lds p where L: "demoLoad = Inr L" "llT L = ld # lds" "ldObj ld = PluginObj p" "authRequired p"
      "effectiveAuthorizer demoLoadEnv p = ''ping''" "\<not> tkDisabled (plTask p)"
    using demo_plugin by (auto split: sum.splits list.splits taskObj.splits)
  have "ld \<in> set (llT L)" using L(2) by simp
  then have "authRequired p \<longrightarrow> (\<exists>q. getTaskByName (toTaskList nothingTask L) (effectiveAuthorizer demoLoadEnv p) = Some (PluginObj q))"
    using enabled_plugins_checked [OF L(1) [unfolded demoLoad_def] distinct.simps(1) [THEN iffD2] _ _ L(3,6), of nothingTask] by simp
  then show ?thesis using L(1,4,5) by auto
qed

theorem enabled_jobs_checked_witness:
  "\<exists>L. demoLoad = Inr L \<and> llUUIDTriggers L ''u1'' = Some ''back''"
proof -
  obtain L ld0 ld lds j where L: "demoLoad = Inr L" "llT L = ld0 # ld # lds" "ldObj ld = JobObj j" "ldUUIDTrigger ld = ''u1''"
      "tkName (jbTask j) = ''back''" "\<not> tkDisabled (jbTask j)"
    using demo_job by (auto split: sum.splits list.splits taskObj.splits)
  have "ld \<in> set (llT L)" using L(2) by simp
  then show ?thesis
    using enabled_jobs_checked [OF L(1) [unfolded demoLoad_def] distinct.simps(1) [THEN iffD2] _ _ L(3,6)] L(1,4,5) by auto
qed

theorem names_resolve_witness:
  "\<exists>L ld. demoLoad = Inr L \<and> ldName ld = ''back'' \<and> getTaskByName (toTaskList nothingTask L) ''back'' = Some (ldObj ld)"
proof -
  obtain L ld0 ld lds j where L: "demoLoad = Inr L" "llT L = ld0 # ld # lds" "ldObj ld = JobObj j" "tkName (jbTask j) = ''back''"
    using demo_job by (auto split: sum.splits list.splits taskObj.splits)
  have "getTaskByName (toTaskList nothingTask L) (ldName ld) = Some (ldObj ld)"
    using names_resolve [OF L(1) [unfolded demoLoad_def] distinct.simps(1) [THEN iffD2], of nothingTask] L(2) by simp
  then have "demoLoad = Inr L \<and> ldName ld = ''back'' \<and> getTaskByName (toTaskList nothingTask L) ''back'' = Some (ldObj ld)"
    using L by simp
  then show ?thesis by blast
qed

subsection \<open>What a reload does\<close>

text \<open>
  Nothing enables a task again: one that is disabled is passed over whatever its files say. External tasks are
  new on every load, but Go tasks stay disabled until the robot restarts.
\<close>

lemma disabled_stays: "ldEnabled ld \<or> configureTask E lookup pre ld u = Inr (resetChannels ld, u)" if "\<nexists>t. ldObj ld = TaskObj t"
proof -
  have "tkDisabled (taskOf (ldObj (resetChannels ld))) = tkDisabled (taskOf (ldObj ld))"
    by (cases "ldObj ld") (auto simp: resetChannels_def onTask_def)
  then show ?thesis using configureTask_body [OF that] by (simp add: Let_def)
qed

text \<open>
  The load before the connection leaves out the default configuration of plugins, so a plugin whose custom file
  names a command of its defaults is disabled then; for a Go plugin the full load after it does not change that.
\<close>

definition chatPlugin :: loadedTask where
  "chatPlugin = \<lparr>ldObj = PluginObj (newPlugin ((externalTask (demoSettings ''chat'') False)\<lparr>tkType := TaskGo\<rparr>)), ldReplyMatchers = [],
     ldConfig = None, ldTimeOuts = noTimeOuts, ldUUIDTrigger = []\<rparr>"

lemma preconnect_disables:
  "case configureTask demoLoadEnv (\<lambda>_. None) False chatPlugin (\<lambda>_. None) of Inl e \<Rightarrow> False | Inr (ld, u) \<Rightarrow> ldEnabled ld"
  "case configureTask demoLoadEnv (\<lambda>_. None) True chatPlugin (\<lambda>_. None) of Inl e \<Rightarrow> False
   | Inr (ld, u) \<Rightarrow> (case configureTask demoLoadEnv (\<lambda>_. None) False ld u of Inl e \<Rightarrow> False | Inr (ld', u') \<Rightarrow> \<not> ldEnabled ld')"
  by code_simp+

text \<open>
  A value that JSON cannot write, anywhere in the free configuration, drops the whole file without an error: the job
  below is for administrators and one user, and comes out enabled for everybody.
\<close>

lemma unwritable_config_dropped:
  "case demoLoad of Inl e \<Rightarrow> False
   | Inr L \<Rightarrow> map (\<lambda>ld. (ldName ld, ldEnabled ld, tkRequireAdmin (taskOf (ldObj ld)), tkUsers (taskOf (ldObj ld)))) (drop 1 (llT L)) =
       [(''back'', True, True, []), (''lost'', True, False, [])]"
  by code_simp

text \<open>With an unknown key and the illegal \<open>Privileged\<close>, the order of Go's iteration decides between a disabled task and a failed load.\<close>

lemma privileged_depends_on_order:
  "applyKeys pd [(''Privileged'', v), (''Typo'', w)] ld = KeysFatal ld"
  "applyKeys pd [(''Typo'', w), (''Privileged'', v)] ld = KeysDisable (InvalidKey ''Typo'') ld"
  by (simp_all add: applyKey_def strKeys_def boolKeys_def strsKeys_def matchersKeys_def)

subsection \<open>No load panics\<close>

lemma foldLoad_no_panic:
  assumes "\<forall>f \<in> set fs. \<forall>l. f l \<noteq> Inl LoadPanic" shows "foldLoad (\<lambda>f l. f l) fs lst \<noteq> Inl LoadPanic"
  using assms by (induction fs arbitrary: lst) (auto split: sum.splits)

lemma names_no_panic: "addNameSpace ns l \<noteq> Inl LoadPanic" "addParameterSet ns l \<noteq> Inl LoadPanic"
  by (auto simp: addNameSpace_def addParameterSet_def)

lemma settings_no_panic: "checkTaskSettings E lst ts ld \<noteq> Inl LoadPanic"
  by (auto simp: checkTaskSettings_def split: option.splits)

lemma setupGo_no_panic: "kind = KindTask \<or> tgPrivileged ts \<noteq> None \<Longrightarrow> setupGoTask E kind ts l \<noteq> Inl LoadPanic"
  using settings_no_panic by (auto simp: setupGoTask_def Let_def split: option.splits sum.splits)

lemma external_no_panic: "tgPrivileged ts \<noteq> None \<Longrightarrow> addExternalTask E kind ts l \<noteq> Inl LoadPanic"
  using settings_no_panic by (auto simp: addExternalTask_def split: option.splits sum.splits)

lemma settings_privileged:
  "ts \<in> set (privilegedSettings d m) \<Longrightarrow> tgPrivileged ts \<noteq> None" "ts \<in> set (externalSettings d m) \<Longrightarrow> tgPrivileged ts \<noteq> None"
  by (auto simp: privilegedSettings_def externalSettings_def)

lemma addGoTasks_no_panic: "\<forall>n \<in> set ns. current n \<noteq> None \<Longrightarrow> addGoTasks current ns l \<noteq> Inl LoadPanic"
  by (induction ns arbitrary: l) auto

lemma listTasks_no_panic:
  assumes "\<forall>n \<in> set goNames. current n \<noteq> None" shows "listTasks E (processTasks m) current goNames \<noteq> Inl LoadPanic"
proof (cases "addGoTasks current goNames emptyLoadList")
  case (Inl e)
  then show ?thesis using addGoTasks_no_panic [OF assms, of emptyLoadList] by (auto simp: listTasks_def)
next
  case (Inr l0)
  show ?thesis
    unfolding listTasks_def Inr sum.case
    by (rule foldLoad_no_panic)
      (auto simp: processTasks_def names_no_panic setupGo_no_panic external_no_panic settings_privileged)
qed

lemma configureAll_no_panic: "configureAll E lookup pre lds u \<noteq> Inl LoadPanic"
proof (induction lds arbitrary: u)
  case Nil
  show ?case by simp
next
  case (Cons ld lds)
  have "configureTask E lookup pre ld u \<noteq> Inl LoadPanic"
  proof (cases "\<exists>t. ldObj ld = TaskObj t")
    case True
    then show ?thesis by (auto simp: configureTask_def)
  next
    case False
    then show ?thesis
      by (auto simp: configureTask_body Let_def checkTask_def split: sum.splits keysResult.splits)
  qed
  then show ?case using Cons by (auto split: sum.splits)
qed

text \<open>
  C31. Loading never panics on the settings: whatever robot.yaml and the files say, a load of the settings as conf.go passes them
  gives a list or an error that names what is wrong, as long as every registered Go task is in the present list.
\<close>

theorem load_never_panics:
  assumes "\<forall>n \<in> set goNames. current n \<noteq> None"
  shows "loadTaskConfig E (processTasks m) current goNames pre \<noteq> Inl LoadPanic"
  using listTasks_no_panic [OF assms, of E m] configureAll_no_panic by (auto simp: loadTaskConfig_def split: sum.splits)

definition demoMaps :: taskMaps where
  "demoMaps = \<lparr>tmNameSpaces = [], tmParameterSets = [], tmGoTasks = [], tmGoPlugins = [(''chat'', (demoSettings [])\<lparr>tgPrivileged := None\<rparr>)],
     tmGoJobs = [], tmExternalPlugins = [], tmExternalJobs = [], tmExternalTasks = [(''x'', (demoSettings [])\<lparr>tgPrivileged := None\<rparr>)]\<rparr>"

theorem load_never_panics_witness:
  "loadTaskConfig demoLoadEnv (processTasks demoMaps) [''chat'' \<mapsto> chatPlugin] [''chat''] False \<noteq> Inl LoadPanic"
  by (rule load_never_panics) simp

end
