(* ===== verification/LineBuffer.thy ===== *)
theory LineBuffer
  imports Prelude
begin

text \<open>
  The circular buffer of log lines (modules/linebuffer/linebuffer.go): lines are cut to a maximal length and the oldest
  ones make room for new ones. The buffer is an array with a start and a length, so the content may wrap around its end.
  The code panics where the result here is \<open>None\<close>.
\<close>

subsection \<open>The buffer\<close>

record lineBuffer =
  lbBuf :: string
  lbSize :: nat
  lbLinesize :: nat
  lbTrunc :: string
  lbStart :: nat
  lbLength :: nat
  lbClosed :: bool

definition newLine :: char where "newLine = CHR 0x0A"

definition normalizeLine :: "string \<Rightarrow> string" where
  "normalizeLine line = (if hasSuffix line [newLine] then line else line @ [newLine])"

definition newLineBuffer :: "nat \<Rightarrow> nat \<Rightarrow> string \<Rightarrow> lineBuffer option" where
  "newLineBuffer buffsize linesize trunc =
     (if linesize > buffsize then None
      else Some \<lparr>lbBuf = replicate buffsize (CHR 0x00), lbSize = buffsize, lbLinesize = linesize,
             lbTrunc = normalizeLine trunc, lbStart = 0, lbLength = 0, lbClosed = False\<rparr>)"

definition closeBuffer :: "lineBuffer \<Rightarrow> lineBuffer" where
  "closeBuffer b = b\<lparr>lbClosed := True\<rparr>"

definition truncateLine :: "lineBuffer \<Rightarrow> string \<Rightarrow> string option" where
  "truncateLine b line =
     (if length line > lbLinesize b then
        (if lbLinesize b < length (lbTrunc b) then None
         else Some (take (lbLinesize b - length (lbTrunc b)) line @ lbTrunc b))
      else Some line)"

definition bufEnd :: "lineBuffer \<Rightarrow> nat" where
  "bufEnd b = (lbStart b + lbLength b) mod lbSize b"

definition indexOfNewline :: "lineBuffer \<Rightarrow> nat option" where
  "indexOfNewline b =
     (if lbLength b = 0 then None
      else if lbStart b < bufEnd b then indexByte (take (bufEnd b - lbStart b) (drop (lbStart b) (lbBuf b))) newLine
      else (case indexByte (drop (lbStart b) (lbBuf b)) newLine of
              Some i \<Rightarrow> Some i
            | None \<Rightarrow> map_option (\<lambda>i. lbSize b - lbStart b + i) (indexByte (take (bufEnd b) (lbBuf b)) newLine)))"

text \<open>Dropping whole lines from the start until enough bytes are free. Once the need is met it does not go below 0.\<close>

function discardLines :: "nat \<Rightarrow> lineBuffer \<Rightarrow> lineBuffer" where
  "discardLines spaceNeeded b =
     (if spaceNeeded = 0 \<or> lbLength b = 0 then b
      else (case indexOfNewline b of
              None \<Rightarrow> b\<lparr>lbStart := 0, lbLength := 0\<rparr>
            | Some i \<Rightarrow> discardLines (spaceNeeded - Suc i)
                (b\<lparr>lbStart := (lbStart b + Suc i) mod lbSize b, lbLength := lbLength b - Suc i\<rparr>)))"
  by pat_completeness auto
termination
  by (relation "measure (\<lambda>(n, b). lbLength b)") auto

declare discardLines.simps [simp del]

definition ensureSpace :: "nat \<Rightarrow> lineBuffer \<Rightarrow> lineBuffer" where
  "ensureSpace lsize b =
     (if lbLength b + lsize \<le> lbSize b then b else discardLines (lbLength b + lsize - lbSize b) b)"

text \<open>Go's \<open>copy\<close> into a part of the array, with the number of bytes copied.\<close>

definition copyAt :: "string \<Rightarrow> nat \<Rightarrow> string \<Rightarrow> string \<times> nat" where
  "copyAt buf at src =
     (let n = min (length buf - at) (length src) in (take at buf @ take n src @ drop (at + n) buf, n))"

definition writeBytes :: "string \<Rightarrow> lineBuffer \<Rightarrow> lineBuffer" where
  "writeBytes line b =
     (case copyAt (lbBuf b) (bufEnd b) line of
        (buf1, n) \<Rightarrow>
          b\<lparr>lbBuf := (if n < length line then fst (copyAt buf1 0 (drop n line)) else buf1),
            lbLength := lbLength b + length line\<rparr>)"

definition writeLine :: "string \<Rightarrow> lineBuffer \<Rightarrow> lineBuffer option" where
  "writeLine line b =
     (if lbClosed b then Some b
      else (case truncateLine b (normalizeLine line) of
              None \<Rightarrow> None
            | Some l \<Rightarrow> Some (writeBytes l (ensureSpace (length l) b))))"

definition bufSnapshot :: "lineBuffer \<Rightarrow> string" where
  "bufSnapshot b =
     (if lbLength b = 0 then []
      else if lbStart b < bufEnd b then take (bufEnd b - lbStart b) (drop (lbStart b) (lbBuf b))
      else drop (lbStart b) (lbBuf b) @ take (bufEnd b) (lbBuf b))"

definition bufReader :: "lineBuffer \<Rightarrow> string option" where
  "bufReader b = (if lbClosed b then Some (bufSnapshot b) else None)"

subsection \<open>The content\<close>

text \<open>The bytes of the array from the start on, around its end.\<close>

definition bufInv :: "lineBuffer \<Rightarrow> bool" where
  "bufInv b \<longleftrightarrow> length (lbBuf b) = lbSize b \<and> lbStart b < lbSize b \<and> lbLength b \<le> lbSize b"

definition contentOf :: "lineBuffer \<Rightarrow> string" where
  "contentOf b = take (lbLength b) (drop (lbStart b) (lbBuf b) @ lbBuf b)"

lemma length_content: "bufInv b \<Longrightarrow> length (contentOf b) = lbLength b"
  by (auto simp: contentOf_def bufInv_def min_def)

lemma bufEnd_cases:
  assumes "bufInv b"
  shows "bufEnd b = (if lbStart b + lbLength b < lbSize b then lbStart b + lbLength b else lbStart b + lbLength b - lbSize b)"
  using assms unfolding bufEnd_def bufInv_def by (auto simp: mod_if)

lemma snapshot_content:
  assumes "bufInv b" shows "bufSnapshot b = contentOf b"
proof -
  have inv: "length (lbBuf b) = lbSize b" "lbStart b < lbSize b" "lbLength b \<le> lbSize b" using assms by (simp_all add: bufInv_def)
  show ?thesis
  proof (cases "lbStart b + lbLength b < lbSize b")
    case True
    then show ?thesis using inv by (simp add: bufSnapshot_def contentOf_def bufEnd_cases [OF assms])
  next
    case False
    then have "lbLength b - (lbSize b - lbStart b) = lbStart b + lbLength b - lbSize b" using inv by simp
    then show ?thesis using False inv by (simp add: bufSnapshot_def contentOf_def bufEnd_cases [OF assms])
  qed
qed

lemma index_append: "indexByte (xs @ ys) c = (case indexByte xs c of Some i \<Rightarrow> Some i | None \<Rightarrow> map_option (\<lambda>i. length xs + i) (indexByte ys c))"
  by (cases "indexByte ys c"; induction xs) (auto split: option.splits)

lemma index_content:
  assumes "bufInv b" shows "indexOfNewline b = indexByte (contentOf b) newLine"
proof -
  have inv: "length (lbBuf b) = lbSize b" "lbStart b < lbSize b" "lbLength b \<le> lbSize b" using assms by (simp_all add: bufInv_def)
  have snap: "contentOf b = bufSnapshot b" using snapshot_content [OF assms] by simp
  show ?thesis using inv unfolding snap by (simp add: indexOfNewline_def bufSnapshot_def index_append split: option.split)
qed

text \<open>The three ways in which a write lies in the array: behind the content, around the end, and before the start.\<close>

lemma write_behind:
  assumes "s + n + length l \<le> length B"
  shows "take (n + length l) (drop s (take (s + n) B @ l @ drop (s + n + length l) B) @ X) = take n (drop s B @ Y) @ l"
  using assms by (simp add: drop_take)

lemma write_around:
  assumes "s + n < length B" "length B < s + n + length l" "n + length l \<le> length B"
  shows "take (n + length l) (drop s (drop (length B - (s + n)) l @ drop (length l - (length B - (s + n))) (take (s + n) B @ take (length B - (s + n)) l)) @
           drop (length B - (s + n)) l @ X) = take n (drop s B @ Y) @ l"
proof -
  have len: "length l - (length B - (s + n)) \<le> s" using assms by arith
  have "drop s (drop (length B - (s + n)) l @ drop (length l - (length B - (s + n))) (take (s + n) B @ take (length B - (s + n)) l)) =
      drop s (take (s + n) B) @ take (length B - (s + n)) l"
    using assms len by simp
  then show ?thesis using assms by (simp add: drop_take)
qed

lemma write_before:
  assumes "length B \<le> s + n" "s < length B" "n + length l \<le> length B"
  shows "take (n + length l) (drop s (take (s + n - length B) B @ l @ drop (s + n - length B + length l) B) @
           take (s + n - length B) B @ l @ X) = take n (drop s B @ B) @ l"
proof -
  have "s + n - length B + length l \<le> s" using assms by arith
  then have "drop s (take (s + n - length B) B @ l @ drop (s + n - length B + length l) B) = drop s B" using assms by simp
  then show ?thesis using assms by (simp add: add.commute)
qed

lemma write_content:
  assumes inv: "bufInv b" and fits: "lbLength b + length l \<le> lbSize b"
  shows "bufInv (writeBytes l b) \<and> contentOf (writeBytes l b) = contentOf b @ l"
proof -
  let ?B = "lbBuf b" and ?s = "lbStart b" and ?n = "lbLength b"
  have i: "lbSize b = length ?B" "?s < length ?B" "?n \<le> length ?B" "?n + length l \<le> length ?B" using inv fits by (simp_all add: bufInv_def)
  consider (behind) "?s + ?n < length ?B" "?s + ?n + length l \<le> length ?B"
    | (around) "?s + ?n < length ?B" "length ?B < ?s + ?n + length l" | (before) "length ?B \<le> ?s + ?n" by linarith
  then show ?thesis
  proof cases
    case behind
    then have "lbBuf (writeBytes l b) = take (?s + ?n) ?B @ l @ drop (?s + ?n + length l) ?B"
      using i by (simp add: writeBytes_def copyAt_def Let_def bufEnd_cases [OF inv])
    then show ?thesis using behind i write_behind [OF behind(2)]
      by (auto simp: bufInv_def contentOf_def writeBytes_def split: prod.split)
  next
    case around
    have "length ?B - (?s + ?n) < length l" using around by arith
    then have "lbBuf (writeBytes l b) =
        drop (length ?B - (?s + ?n)) l @ drop (length l - (length ?B - (?s + ?n))) (take (?s + ?n) ?B @ take (length ?B - (?s + ?n)) l)"
      using i around by (simp add: writeBytes_def copyAt_def Let_def bufEnd_cases [OF inv])
    then show ?thesis using around i write_around [OF around i(4)]
      by (auto simp: bufInv_def contentOf_def writeBytes_def split: prod.split)
  next
    case before
    then have "lbBuf (writeBytes l b) = take (?s + ?n - length ?B) ?B @ l @ drop (?s + ?n - length ?B + length l) ?B"
      using i by (simp add: writeBytes_def copyAt_def Let_def bufEnd_cases [OF inv])
    then show ?thesis using before i write_before [OF before i(2,4)]
      by (auto simp: bufInv_def contentOf_def writeBytes_def split: prod.split)
  qed
qed

text \<open>Lines dropped from the content.\<close>

function dropLines :: "nat \<Rightarrow> string \<Rightarrow> string" where
  "dropLines n s = (if n = 0 \<or> s = [] then s else (case indexByte s newLine of None \<Rightarrow> [] | Some i \<Rightarrow> dropLines (n - Suc i) (drop (Suc i) s)))"
  by pat_completeness auto
termination
  by (relation "measure (\<lambda>(n, s). length s)") auto

declare dropLines.simps [simp del]

lemma indexByte_less: "indexByte s c = Some i \<Longrightarrow> i < length s"
  by (induction s arbitrary: i) (auto split: if_splits)

lemma drop_content:
  assumes "bufInv b" "Suc i \<le> lbLength b"
  defines "b' \<equiv> b\<lparr>lbStart := (lbStart b + Suc i) mod lbSize b, lbLength := lbLength b - Suc i\<rparr>"
  shows "bufInv b' \<and> contentOf b' = drop (Suc i) (contentOf b)"
proof -
  have inv: "lbSize b = length (lbBuf b)" "lbStart b < length (lbBuf b)" "lbLength b \<le> length (lbBuf b)"
    using assms(1) by (simp_all add: bufInv_def)
  show ?thesis
  proof (cases "lbStart b + Suc i < length (lbBuf b)")
    case True
    then show ?thesis using inv assms(2)
      by (auto simp: b'_def bufInv_def contentOf_def drop_take add.commute)
  next
    case False
    then have m: "(lbStart b + Suc i) mod lbSize b = lbStart b + Suc i - length (lbBuf b)" using inv assms(2) by (simp add: mod_if)
    then show ?thesis using False inv assms(2)
      by (auto simp: b'_def bufInv_def contentOf_def drop_take min_def add.commute)
  qed
qed

lemma discard_content:
  assumes "bufInv b"
  shows "bufInv (discardLines n b) \<and> contentOf (discardLines n b) = dropLines n (contentOf b)"
  using assms
proof (induction n b rule: discardLines.induct)
  case (1 n b)
  have len: "length (contentOf b) = lbLength b" using 1(2) by (rule length_content)
  show ?case
  proof (cases "n = 0 \<or> lbLength b = 0")
    case True
    then show ?thesis using 1(2) len by (auto simp: discardLines.simps dropLines.simps)
  next
    case False
    then have ne: "contentOf b \<noteq> []" using len by auto
    show ?thesis
    proof (cases "indexOfNewline b")
      case None
      have "dropLines n (contentOf b) = []" using False None index_content [OF 1(2)] by (simp add: dropLines.simps [of n])
      moreover have "discardLines n b = b\<lparr>lbStart := 0, lbLength := 0\<rparr>" using False None by (simp add: discardLines.simps [of n b])
      ultimately show ?thesis using 1(2) by (simp add: bufInv_def contentOf_def)
    next
      case (Some i)
      then have ix: "indexByte (contentOf b) newLine = Some i" using index_content [OF 1(2)] by simp
      then have "Suc i \<le> lbLength b" using indexByte_less [OF ix] len by simp
      note d = drop_content [OF 1(2) this]
      show ?thesis using 1(1) [OF False Some] d False ne Some ix
        by (simp add: discardLines.simps [of n b] dropLines.simps [of n "contentOf b"])
    qed
  qed
qed

subsection \<open>The newest lines\<close>

text \<open>A line with its only line feed at the end.\<close>

definition wholeLine :: "string \<Rightarrow> bool" where
  "wholeLine l \<longleftrightarrow> (\<exists>x. l = x @ [newLine] \<and> newLine \<notin> set x)"

definition totalLength :: "string list \<Rightarrow> nat" where
  "totalLength ls = sum_list (map length ls)"

lemma totalLength_rev [simp]: "totalLength (rev ls) = totalLength ls"
  by (simp only: totalLength_def rev_map [symmetric] sum_list_rev)

lemma totalLength_simps [simp]:
  "totalLength [] = 0" "totalLength (l # ls) = length l + totalLength ls" "totalLength (ls @ ks) = totalLength ls + totalLength ks"
  "length (concat ls) = totalLength ls"
  by (simp_all add: totalLength_def length_concat)

text \<open>The longest end of a list of lines that fits into so many bytes.\<close>

fun takeFit :: "nat \<Rightarrow> string list \<Rightarrow> string list" where
  "takeFit n [] = []"
| "takeFit n (l # ls) = (if length l \<le> n then l # takeFit (n - length l) ls else [])"

definition newestLines :: "nat \<Rightarrow> string list \<Rightarrow> string list" where
  "newestLines n ls = rev (takeFit n (rev ls))"

lemma takeFit_total: "totalLength (takeFit n ls) \<le> n"
  by (induction n ls rule: takeFit.induct) auto

lemma takeFit_all: "totalLength ls \<le> n \<Longrightarrow> takeFit n ls = ls"
  by (induction n ls rule: takeFit.induct) auto

lemma takeFit_snoc: "takeFit n (ls @ [a]) = takeFit n ls @ (if totalLength ls + length a \<le> n then [a] else [])"
  by (induction n ls rule: takeFit.induct) auto

lemma takeFit_twice: "m \<le> n \<Longrightarrow> takeFit m (takeFit n ls) = takeFit m ls"
proof (induction ls arbitrary: m n)
  case Nil
  then show ?case by simp
next
  case (Cons l ls)
  then show ?case by (cases "length l \<le> m") (auto intro: Cons.IH diff_le_mono)
qed

fun dropFit :: "nat \<Rightarrow> string list \<Rightarrow> string list" where
  "dropFit n [] = []"
| "dropFit n (l # ls) = (if n = 0 then l # ls else dropFit (n - length l) ls)"

lemma dropFit_takeFit: "dropFit (totalLength ls - m) ls = rev (takeFit m (rev ls))"
proof (induction ls)
  case Nil
  then show ?case by simp
next
  case (Cons a ls)
  show ?case
  proof (cases "totalLength (a # ls) \<le> m")
    case True
    then show ?thesis by (simp add: takeFit_snoc takeFit_all)
  next
    case False
    then have "length a + totalLength ls - m - length a = totalLength ls - m" by arith
    then show ?thesis using False Cons by (simp add: takeFit_snoc)
  qed
qed

lemma index_whole: "newLine \<notin> set x \<Longrightarrow> indexByte (x @ newLine # ys) newLine = Some (length x)"
  by (induction x) auto

lemma dropLines_concat: "\<forall>l \<in> set ls. wholeLine l \<Longrightarrow> dropLines n (concat ls) = concat (dropFit n ls)"
proof (induction ls arbitrary: n)
  case Nil
  then show ?case by (simp add: dropLines.simps)
next
  case (Cons l ls)
  obtain x where x: "l = x @ [newLine]" "newLine \<notin> set x" using Cons.prems by (auto simp: wholeLine_def)
  show ?case
  proof (cases "n = 0")
    case True
    then show ?thesis by (simp add: dropLines.simps)
  next
    case False
    then have "dropLines n (concat (l # ls)) = dropLines (n - Suc (length x)) (concat ls)"
      using x by (simp add: dropLines.simps [of n] index_whole)
    then show ?thesis using Cons False x by simp
  qed
qed

text \<open>What a line becomes when it is written.\<close>

definition storedLine :: "nat \<Rightarrow> string \<Rightarrow> string \<Rightarrow> string" where
  "storedLine linesize trunc line =
     (let l = normalizeLine line in
      if length l > linesize then take (linesize - length (normalizeLine trunc)) l @ normalizeLine trunc else l)"

lemma normalize_whole: "newLine \<notin> set (butlast x) \<Longrightarrow> wholeLine (normalizeLine x)"
proof -
  assume a: "newLine \<notin> set (butlast x)"
  show ?thesis
  proof (cases "hasSuffix x [newLine]")
    case True
    then have "x \<noteq> [] \<and> last x = newLine" by (cases x rule: rev_cases) (auto simp: hasSuffix_def hasPrefix_def)
    then have "x = butlast x @ [newLine]" by (metis append_butlast_last_id)
    then show ?thesis using True a unfolding wholeLine_def normalizeLine_def by auto
  next
    case False
    have "newLine \<notin> set x"
    proof (cases x rule: rev_cases)
      case (snoc y c)
      then show ?thesis using False a by (auto simp: hasSuffix_def hasPrefix_def)
    qed simp
    then show ?thesis using False unfolding wholeLine_def normalizeLine_def by auto
  qed
qed

lemma whole_take: "wholeLine l \<Longrightarrow> n < length l \<Longrightarrow> newLine \<notin> set (take n l)"
  by (auto simp: wholeLine_def dest: in_set_takeD)

lemma stored_whole:
  assumes "newLine \<notin> set (butlast line)" "newLine \<notin> set (butlast trunc)" "length (normalizeLine trunc) \<le> linesize"
  shows "wholeLine (storedLine linesize trunc line) \<and> length (storedLine linesize trunc line) \<le> linesize"
proof -
  have w: "wholeLine (normalizeLine line)" "wholeLine (normalizeLine trunc)" using assms(1,2) by (simp_all add: normalize_whole)
  obtain t where t: "normalizeLine trunc = t @ [newLine]" "newLine \<notin> set t" using w(2) by (auto simp: wholeLine_def)
  show ?thesis
  proof (cases "length (normalizeLine line) > linesize")
    case True
    have cut: "newLine \<notin> set (take (linesize - length (normalizeLine trunc)) (normalizeLine line))"
      using True by (intro whole_take [OF w(1)]) simp
    have "storedLine linesize trunc line = (take (linesize - length (normalizeLine trunc)) (normalizeLine line) @ t) @ [newLine]"
      using True t(1) by (simp add: storedLine_def Let_def)
    then show ?thesis using cut t assms(3) True unfolding wholeLine_def by auto
  next
    case False
    then show ?thesis using w(1) by (simp add: storedLine_def Let_def)
  qed
qed

fun writeLines :: "string list \<Rightarrow> lineBuffer \<Rightarrow> lineBuffer option" where
  "writeLines [] b = Some b"
| "writeLines (l # ls) b = Option.bind (writeLine l b) (writeLines ls)"

text \<open>What a buffer of these sizes has to hold after some lines.\<close>

definition holdsLines :: "nat \<Rightarrow> nat \<Rightarrow> string \<Rightarrow> string list \<Rightarrow> lineBuffer \<Rightarrow> bool" where
  "holdsLines cap linesize trunc ls b \<longleftrightarrow>
     bufInv b \<and> lbSize b = cap \<and> lbLinesize b = linesize \<and> lbTrunc b = normalizeLine trunc \<and> \<not> lbClosed b \<and>
     contentOf b = concat (newestLines cap (map (storedLine linesize trunc) ls))"

lemma discard_keeps [simp]:
  "lbSize (discardLines n b) = lbSize b" "lbLinesize (discardLines n b) = lbLinesize b" "lbTrunc (discardLines n b) = lbTrunc b"
  "lbClosed (discardLines n b) = lbClosed b"
proof -
  have "lbSize (discardLines n b) = lbSize b \<and> lbLinesize (discardLines n b) = lbLinesize b \<and> lbTrunc (discardLines n b) = lbTrunc b \<and>
      lbClosed (discardLines n b) = lbClosed b"
  proof (induction n b rule: discardLines.induct)
    case (1 n b)
    show ?case
    proof (cases "n = 0 \<or> lbLength b = 0")
      case True
      then show ?thesis by (auto simp: discardLines.simps [of n b])
    next
      case False
      show ?thesis
      proof (cases "indexOfNewline b")
        case None
        then show ?thesis using False by (simp add: discardLines.simps [of n b])
      next
        case (Some i)
        then show ?thesis using 1 [OF False Some] False by (simp add: discardLines.simps [of n b])
      qed
    qed
  qed
  then show "lbSize (discardLines n b) = lbSize b" "lbLinesize (discardLines n b) = lbLinesize b" "lbTrunc (discardLines n b) = lbTrunc b"
    "lbClosed (discardLines n b) = lbClosed b" by blast+
qed

lemma newestLines_snoc:
  assumes "length l \<le> n"
  shows "newestLines n (ls @ [l]) = dropFit (totalLength (newestLines n ls) + length l - n) (newestLines n ls) @ [l]"
proof -
  let ?X = "newestLines n ls"
  have "totalLength ?X + length l - n = totalLength ?X - (n - length l)" using assms by arith
  moreover have "dropFit (totalLength ?X - (n - length l)) ?X = rev (takeFit (n - length l) (rev ?X))" by (rule dropFit_takeFit)
  moreover have "takeFit (n - length l) (rev ?X) = takeFit (n - length l) (rev ls)" by (simp add: newestLines_def takeFit_twice)
  moreover have "newestLines n (ls @ [l]) = rev (takeFit (n - length l) (rev ls)) @ [l]" using assms by (simp add: newestLines_def)
  ultimately show ?thesis by (simp only:)
qed

lemma newest_set: "set (newestLines n ls) \<subseteq> set ls"
proof -
  have "set (takeFit n ks) \<subseteq> set ks" for n ks by (induction n ks rule: takeFit.induct) auto
  from this [of n "rev ls"] show ?thesis by (simp add: newestLines_def)
qed

lemma writeLine_holds:
  assumes h: "holdsLines cap linesize trunc ls b" and sizes: "linesize \<le> cap" "length (normalizeLine trunc) \<le> linesize"
    and lines: "\<forall>l \<in> set (line # ls). newLine \<notin> set (butlast l)" "newLine \<notin> set (butlast trunc)"
  shows "\<exists>b'. writeLine line b = Some b' \<and> holdsLines cap linesize trunc (ls @ [line]) b'"
proof -
  let ?st = "storedLine linesize trunc" and ?old = "newestLines cap (map (storedLine linesize trunc) ls)"
  let ?l = "?st line"
  have stored: "truncateLine b (normalizeLine line) = Some ?l"
    using h sizes by (simp add: truncateLine_def storedLine_def holdsLines_def Let_def)
  have len: "length ?l \<le> cap" using stored_whole [of line trunc linesize] lines sizes by simp
  have inv: "bufInv b" "lbSize b = cap" "contentOf b = concat ?old" using h by (simp_all add: holdsLines_def)
  have whole: "\<forall>k \<in> set ?old. wholeLine k"
    using newest_set [of cap "map ?st ls"] stored_whole lines sizes by fastforce
  have total: "lbLength b = totalLength ?old" using length_content [OF inv(1)] inv(3) by simp
  let ?b1 = "ensureSpace (length ?l) b"
  have drop0: "dropFit 0 ks = ks" for ks by (cases ks) auto
  have b1: "bufInv ?b1 \<and> contentOf ?b1 = concat (dropFit (totalLength ?old + length ?l - cap) ?old)"
    using discard_content [OF inv(1), of "lbLength b + length ?l - lbSize b"] inv total dropLines_concat [OF whole]
    by (auto simp: ensureSpace_def drop0)
  have new: "newestLines cap (map ?st (ls @ [line])) = dropFit (totalLength ?old + length ?l - cap) ?old @ [?l]"
    using newestLines_snoc [OF len] by simp
  have bounded: "totalLength (newestLines cap (map ?st (ls @ [line]))) \<le> cap"
    unfolding newestLines_def totalLength_rev by (rule takeFit_total)
  have fits: "lbLength ?b1 + length ?l \<le> lbSize ?b1"
  proof -
    have "lbSize ?b1 = cap" using inv(2) by (simp add: ensureSpace_def)
    moreover have "lbLength ?b1 = totalLength (dropFit (totalLength ?old + length ?l - cap) ?old)"
      using length_content [OF conjunct1 [OF b1]] conjunct2 [OF b1] by (metis totalLength_simps(4))
    moreover have "totalLength (dropFit (totalLength ?old + length ?l - cap) ?old) + length ?l \<le> cap"
      using bounded unfolding new by simp
    ultimately show ?thesis by simp
  qed
  have w: "bufInv (writeBytes ?l ?b1) \<and> contentOf (writeBytes ?l ?b1) = contentOf ?b1 @ ?l"
    using write_content [OF conjunct1 [OF b1] fits] .
  have "holdsLines cap linesize trunc (ls @ [line]) (writeBytes ?l ?b1)"
    using w b1 h new unfolding holdsLines_def by (auto simp: writeBytes_def ensureSpace_def split: prod.split)
  then show ?thesis using stored h by (simp add: writeLine_def holdsLines_def)
qed

lemma writeLines_holds:
  assumes "holdsLines cap linesize trunc ks b" "linesize \<le> cap" "length (normalizeLine trunc) \<le> linesize"
    and "\<forall>l \<in> set (ks @ ls). newLine \<notin> set (butlast l)" "newLine \<notin> set (butlast trunc)"
  shows "\<exists>b'. writeLines ls b = Some b' \<and> holdsLines cap linesize trunc (ks @ ls) b'"
  using assms
proof (induction ls arbitrary: ks b)
  case Nil
  then show ?case by simp
next
  case (Cons l ls)
  obtain b1 where b1: "writeLine l b = Some b1" "holdsLines cap linesize trunc (ks @ [l]) b1"
    using writeLine_holds [OF Cons.prems(1,2,3), of l] Cons.prems(4,5) by auto
  show ?case using Cons.IH [OF b1(2)] Cons.prems b1(1) by simp
qed

text \<open>
  C28. The buffer keeps the newest lines: after any sequence of lines it holds exactly the longest end of that sequence, each line
  with its line feed and cut to the maximal length, that fits into its size. It never panics when the truncation mark
  fits into a line and a line into the buffer.
\<close>

theorem newest_lines_kept:
  assumes "linesize \<le> cap" and "length (normalizeLine trunc) \<le> linesize"
    and "\<forall>l \<in> set ls. newLine \<notin> set (butlast l)" and "newLine \<notin> set (butlast trunc)"
  shows "\<exists>b b'. newLineBuffer cap linesize trunc = Some b \<and> writeLines ls b = Some b' \<and>
    bufSnapshot b' = concat (newestLines cap (map (storedLine linesize trunc) ls)) \<and>
    bufReader (closeBuffer b') = Some (bufSnapshot b') \<and> writeLine line (closeBuffer b') = Some (closeBuffer b')"
proof -
  have "normalizeLine trunc \<noteq> []" by (auto simp: normalizeLine_def hasSuffix_def hasPrefix_def)
  then have pos: "0 < cap" using assms(1,2) by (cases cap) auto
  obtain b where b: "newLineBuffer cap linesize trunc = Some b" "holdsLines cap linesize trunc [] b"
    using assms(1) pos by (auto simp: newLineBuffer_def holdsLines_def bufInv_def contentOf_def newestLines_def)
  obtain b' where b': "writeLines ls b = Some b'" "holdsLines cap linesize trunc ls b'"
    using writeLines_holds [OF b(2) assms(1,2)] assms(3,4) by auto
  then have "bufSnapshot b' = concat (newestLines cap (map (storedLine linesize trunc) ls))"
    using snapshot_content [of b'] by (simp add: holdsLines_def)
  moreover have "bufReader (closeBuffer b') = Some (bufSnapshot b')"
    by (simp add: bufReader_def closeBuffer_def bufSnapshot_def indexOfNewline_def bufEnd_def)
  moreover have "writeLine line (closeBuffer b') = Some (closeBuffer b')" by (simp add: writeLine_def closeBuffer_def)
  ultimately show ?thesis using b b' by blast
qed

theorem newest_lines_kept_witness:
  "\<exists>b b'. newLineBuffer 8 4 ''.'' = Some b \<and> writeLines [''ab'', ''cdefg'', ''h''] b = Some b' \<and>
     bufSnapshot b' = ''cd.'' @ [newLine, CHR ''h'', newLine]"
proof -
  have e: "concat (newestLines 8 (map (storedLine 4 ''.'') [''ab'', ''cdefg'', ''h''])) = ''cd.'' @ [newLine, CHR ''h'', newLine]" by code_simp
  have s: "(4::nat) \<le> 8" "length (normalizeLine ''.'') \<le> 4" "newLine \<notin> set (butlast ''.'')" by code_simp+
  have l: "\<forall>l \<in> set [''ab'', ''cdefg'', ''h'']. newLine \<notin> set (butlast l)" by code_simp
  show ?thesis using newest_lines_kept [OF s(1,2) l s(3), of "''x''"] unfolding e by blast
qed

end
