(* ===== verification/GroupMembers.thy ===== *)
theory GroupMembers
  imports TaskLoad
begin

text \<open>
  The groups plugin (goplugins/groups/groups.go), the authorizer that comes with the robot: groups of users in the configuration
  of the plugin, with members that administrators add and that are kept in the brain. What the robot does for the plugin is an argument: the
  configuration, whether the user is an administrator of the robot, and the return values of the calls on
  the brain. Messages and audit lines are recorded; other log lines are not. An index out of range, where Go
  panics, is \<open>None\<close>.
\<close>

subsection \<open>Members\<close>

record groupSpec =
  gsAdministrators :: "string list"
  gsUsers :: "string list"

definition emptyGroup :: groupSpec where "emptyGroup = \<lparr>gsAdministrators = [], gsUsers = []\<rparr>"

definition addnew :: "string list \<Rightarrow> string \<Rightarrow> string list \<times> bool" where
  "addnew xs item = (if item \<in> set xs then (xs, False) else (xs @ [item], True))"

definition userInGroup :: "string \<Rightarrow> groupSpec \<Rightarrow> groupSpec \<Rightarrow> bool" where
  "userInGroup user cfgspec memspec \<longleftrightarrow>
     user \<in> set (gsAdministrators cfgspec) \<or> user \<in> set (gsUsers cfgspec) \<or> user \<in> set (gsUsers memspec)"

text \<open>The last user takes the place of the one that is removed.\<close>

definition removeUser :: "string \<Rightarrow> string list \<Rightarrow> string list" where
  "removeUser user xs = (if user \<in> set xs then butlast (xs[length (takeWhile (\<lambda>x. x \<noteq> user) xs) := last xs]) else xs)"

subsection \<open>The robot and its brain\<close>

datatype groupOutput = GSay string | GReply string | GAudit string

record groupState =
  gmMem :: "string \<Rightarrow> groupSpec option"
  gmLocks :: "string list"
  gmOut :: "groupOutput list"
  gmParams :: "(string \<times> string list) list"

record groupEnv =
  geUser :: string
  geBotAdmin :: bool
  geConfig :: "(string \<times> groupSpec) list option"
  geCheckout :: "string \<Rightarrow> RetVal"
  geUpdate :: RetVal
  geSetParameter :: "string \<Rightarrow> bool"

definition sayOut :: "groupOutput \<Rightarrow> groupState \<Rightarrow> groupState" where
  "sayOut m s = s\<lparr>gmOut := gmOut s @ [m]\<rparr>"

definition checkoutGroup :: "groupEnv \<Rightarrow> string \<Rightarrow> bool \<Rightarrow> groupState \<Rightarrow> (RetVal \<times> groupSpec) \<times> groupState" where
  "checkoutGroup env key rw s =
     (if geCheckout env key = Ok
      then ((Ok, case gmMem s key of None \<Rightarrow> emptyGroup | Some g \<Rightarrow> g), if rw then s\<lparr>gmLocks := key # gmLocks s\<rparr> else s)
      else ((geCheckout env key, emptyGroup), s))"

definition checkinGroup :: "string \<Rightarrow> groupState \<Rightarrow> groupState" where
  "checkinGroup key s = s\<lparr>gmLocks := removeAll key (gmLocks s)\<rparr>"

definition updateGroup :: "groupEnv \<Rightarrow> string \<Rightarrow> groupSpec \<Rightarrow> groupState \<Rightarrow> bool \<times> groupState" where
  "updateGroup env key g s =
     (if geUpdate env = Ok then (True, checkinGroup key (s\<lparr>gmMem := (gmMem s)(key \<mapsto> g)\<rparr>)) else (False, s))"

subsection \<open>The commands\<close>

definition doRemove :: "groupEnv \<Rightarrow> string \<Rightarrow> string \<Rightarrow> groupSpec \<Rightarrow> groupState \<Rightarrow> groupState" where
  "doRemove env grp user g s =
     (if gsUsers g = [] then sayOut (GSay (''There are no dynamic users in the \"'' @ grp @ ''\" group'')) s
      else if user \<in> set (gsUsers g) then
        (case updateGroup env grp (g\<lparr>gsUsers := removeUser user (gsUsers g)\<rparr>) s of
           (False, s1) \<Rightarrow> sayOut (GReply ''Crud. I had a problem saving my groups - somebody better check the log'') s1
         | (True, s1) \<Rightarrow>
             sayOut (GSay (''Ok, I removed '' @ user @ '' from the '' @ grp @ '' group''))
               (sayOut (GAudit (''User '' @ geUser env @ '' removed user '' @ user @ '' from group '' @ grp)) s1))
      else sayOut (GSay (user @ '' isn'' @ [CHR 0x27] @ ''t a dynamic member of the '' @ grp @ '' group (but may be a configured user)'')) s)"

definition doEmpty :: "groupEnv \<Rightarrow> string \<Rightarrow> groupSpec \<Rightarrow> groupState \<Rightarrow> groupState" where
  "doEmpty env grp g s =
     (case updateGroup env grp (g\<lparr>gsUsers := []\<rparr>) s of
        (False, s1) \<Rightarrow> sayOut (GReply ''Crud. I had a problem saving the group - somebody better check the log'') s1
      | (True, s1) \<Rightarrow>
          sayOut (GSay ''Emptied'') (sayOut (GAudit (''User '' @ geUser env @ '' removed all users from group '' @ grp)) s1))"

text \<open>A failed update is reported, and then reported as done.\<close>

definition doAdd :: "groupEnv \<Rightarrow> string \<Rightarrow> string \<Rightarrow> groupSpec \<Rightarrow> groupState \<Rightarrow> groupState" where
  "doAdd env grp user g s =
     (case addnew (gsUsers g) user of
        (users, False) \<Rightarrow> sayOut (GSay (''User '' @ user @ '' is already in the '' @ grp @ '' group'')) s
      | (users, True) \<Rightarrow>
          (let s1 = (case updateGroup env grp (g\<lparr>gsUsers := users\<rparr>) s of
                 (False, s1) \<Rightarrow> sayOut (GReply ''Crud. I had a problem saving my groups - somebody better check the log'') s1
               | (True, s1) \<Rightarrow> s1)
           in sayOut (GSay (''Ok, I added '' @ user @ '' to the '' @ grp @ '' group''))
                (sayOut (GAudit (''User '' @ geUser env @ '' added user '' @ user @ '' to group '' @ grp)) s1)))"

definition doShow :: "string \<Rightarrow> groupSpec \<Rightarrow> groupSpec \<Rightarrow> groupState \<Rightarrow> groupState" where
  "doShow grp cfgspec g s =
     (let members = foldl (\<lambda>ms u. fst (addnew ms u)) [] (gsAdministrators cfgspec @ gsUsers cfgspec @ gsUsers g) in
      sayOut (GSay (if members = [] then ''The '' @ grp @ '' group has no members''
        else ''The '' @ grp @ '' group has the following members:'' @ [CHR 0x0A] @ joinWith [CHR 0x0A] members)) s)"

definition doList :: "groupEnv \<Rightarrow> (string \<times> groupSpec) list \<Rightarrow> groupState \<Rightarrow> groupState" where
  "doList env cfg s =
     (let names = map fst (filter (\<lambda>(name, g). geBotAdmin env \<or> geUser env \<in> set (gsAdministrators g)) cfg) in
      sayOut (GSay (if names = [] then ''You'' @ [CHR 0x27] @ ''re not the administrator of any groups''
        else ''Here are the groups you'' @ [CHR 0x27] @ ''re an administrator for:'' @ [CHR 0x0A] @ joinWith [CHR 0x0A] names)) s)"

text \<open>The groups of a user, in Go's order of iteration; a group that cannot be read ends the lookup.\<close>

fun userGroups :: "groupEnv \<Rightarrow> string \<Rightarrow> (string \<times> groupSpec) list \<Rightarrow> groupState \<Rightarrow> string list option" where
  "userGroups env user [] s = Some []"
| "userGroups env user ((name, g) # gs) s =
     (case checkoutGroup env name False s of
        ((r, dynamic), s1) \<Rightarrow>
          if r \<noteq> Ok then None
          else map_option (\<lambda>ns. if userInGroup user g dynamic then name # ns else ns) (userGroups env user gs s1))"

definition doUserGroups :: "groupEnv \<Rightarrow> (string \<times> groupSpec) list \<Rightarrow> string list \<Rightarrow> groupState \<Rightarrow> TaskRetVal \<times> groupState" where
  "doUserGroups env cfg args s =
     (case args of
        a # b # rest \<Rightarrow>
          if trimSpace a = [] \<or> trimSpace b = [] then (ConfigurationError, s)
          else (case userGroups env (trimSpace a) cfg s of
                  None \<Rightarrow> (NotFound, s)
                | Some ns \<Rightarrow>
                    if geSetParameter env (trimSpace b) then (Success, s\<lparr>gmParams := gmParams s @ [(trimSpace b, sort ns)]\<rparr>)
                    else (ConfigurationError, s))
      | _ \<Rightarrow> (ConfigurationError, s))"

definition groupHelp :: string where
  "groupHelp =
     ''The groups plugin allows you to configure groups, members, and'' @
     '' group administrators who are able to add and remove members that are'' @
     '' stored in the robot'' @ [CHR 0x27] @ ''s memory. For authorization purposes, any user configured'' @
     '' as a member or administrator, or stored as a member in the robot'' @ [CHR 0x27] @ ''s long-term'' @
     '' memory, is considered a member. Note that bot administrators can also add'' @
     '' and remove users from groups, but are not considered members unless explicitly'' @
     '' added. '' @ [CHR 0x27] @ ''help groups'' @ [CHR 0x27] @ '' will give help for all group related commands.''"

definition argAt :: "string list \<Rightarrow> nat \<Rightarrow> string option" where
  "argAt args i = (if i < length args then Some (args ! i) else None)"

definition groupArg :: "string \<Rightarrow> string list \<Rightarrow> string option" where
  "groupArg command args =
     (if command \<in> {''add'', ''remove'', ''_authorize''} then argAt args 1
      else if command \<in> {''empty'', ''show''} then argAt args 0
      else Some [])"

definition changesGroup :: "string \<Rightarrow> bool" where
  "changesGroup command \<longleftrightarrow> command \<in> {''add'', ''remove'', ''empty''}"

definition mayChange :: "groupEnv \<Rightarrow> groupSpec \<Rightarrow> bool" where
  "mayChange env cfgspec \<longleftrightarrow> geBotAdmin env \<or> geUser env \<in> set (gsAdministrators cfgspec)"

text \<open>The group is checked in after a change, unless the update has done so.\<close>

definition changeGroup :: "groupEnv \<Rightarrow> string \<Rightarrow> string list \<Rightarrow> string \<Rightarrow> groupState \<Rightarrow> groupState option" where
  "changeGroup env command args grp s =
     (case checkoutGroup env grp True s of
        ((r, g), s1) \<Rightarrow>
          if r \<noteq> Ok then Some (checkinGroup grp (sayOut (GReply ''I had a problem loading the group, somebody should check my log file'') s1))
          else if command = ''empty'' then Some (checkinGroup grp (doEmpty env grp g s1))
          else (case argAt args 0 of
                  None \<Rightarrow> None
                | Some user \<Rightarrow>
                    Some (checkinGroup grp (if command = ''remove'' then doRemove env grp user g s1 else doAdd env grp user g s1))))"

definition readGroup :: "groupEnv \<Rightarrow> string \<Rightarrow> string \<Rightarrow> groupSpec \<Rightarrow> groupState \<Rightarrow> TaskRetVal \<times> groupState" where
  "readGroup env command grp cfgspec s =
     (case checkoutGroup env grp False s of
        ((r, g), s1) \<Rightarrow>
          if r \<noteq> Ok then (Normal, checkinGroup [] (sayOut (GReply ''I had a problem loading the group, somebody should check my log file'') s1))
          else if command = ''show'' then (Normal, doShow grp cfgspec g s1)
          else (if userInGroup (geUser env) cfgspec g then Success else Fail, s1))"

definition groupCommand ::
    "groupEnv \<Rightarrow> (string \<times> groupSpec) list \<Rightarrow> string \<Rightarrow> string list \<Rightarrow> string \<Rightarrow> groupSpec \<Rightarrow> groupState \<Rightarrow> (TaskRetVal \<times> groupState) option" where
  "groupCommand env cfg command args grp cfgspec s =
     (if command = ''help'' then Some (Normal, sayOut (GSay groupHelp) s)
      else if command \<in> {''show'', ''_authorize''} then Some (readGroup env command grp cfgspec s)
      else if changesGroup command then
        (if mayChange env cfgspec then map_option (Pair Normal) (changeGroup env command args grp s)
         else Some (Normal, sayOut (GSay ''Sorry, only a group administrator can do that'') s))
      else if command = ''list'' then Some (Normal, doList env cfg s)
      else Some (Normal, s))"

definition groupsHandler :: "groupEnv \<Rightarrow> string \<Rightarrow> string list \<Rightarrow> groupState \<Rightarrow> (TaskRetVal \<times> groupState) option" where
  "groupsHandler env command args s =
     (if command = ''_init'' then Some (Normal, s)
      else (case geConfig env of
              None \<Rightarrow> Some (Fail, s)
            | Some cfg \<Rightarrow>
                if command = ''_usergroups'' then Some (doUserGroups env cfg args s)
                else (case groupArg command args of
                        None \<Rightarrow> None
                      | Some grp \<Rightarrow>
                          if grp \<noteq> [] \<and> map_of cfg grp = None then
                            (if command = ''_authorize'' then Some (ConfigurationError, s)
                             else Some (Normal, sayOut (GSay (''I don'' @ [CHR 0x27] @ ''t have a \"'' @ grp @ ''\" group configured'')) s))
                          else if command = ''_authorize'' \<and> grp = [] then Some (ConfigurationError, s)
                          else groupCommand env cfg command args grp (if grp = [] then emptyGroup else the (map_of cfg grp)) s)))"

subsection \<open>Who may change a group, and who is in it\<close>

lemma sayOut_keeps [simp]: "gmMem (sayOut m s) = gmMem s" "gmLocks (sayOut m s) = gmLocks s"
  by (simp_all add: sayOut_def)

lemma checkin_keeps [simp]: "gmMem (checkinGroup k s) = gmMem s" "gmLocks (checkinGroup k s) = removeAll k (gmLocks s)"
  by (simp_all add: checkinGroup_def)

lemma checkout_keeps:
  "checkoutGroup env key rw s = ((r, g), s1) \<Longrightarrow>
     gmMem s1 = gmMem s \<and> gmLocks s1 = (if r = Ok \<and> rw then key # gmLocks s else gmLocks s) \<and> r = geCheckout env key \<and>
     g = (if r = Ok then (case gmMem s key of None \<Rightarrow> emptyGroup | Some g \<Rightarrow> g) else emptyGroup)"
  by (auto simp: checkoutGroup_def split: if_splits)

text \<open>A change to a group: only its own entry, and its lock is the only one touched.\<close>

definition onlyGroup :: "string \<Rightarrow> groupState \<Rightarrow> groupState \<Rightarrow> bool" where
  "onlyGroup grp s t \<longleftrightarrow> (\<forall>k. k \<noteq> grp \<longrightarrow> gmMem t k = gmMem s k) \<and> removeAll grp (gmLocks t) = removeAll grp (gmLocks s)"

lemma update_only: "updateGroup env grp g s = (ok, t) \<Longrightarrow> onlyGroup grp s t"
  by (auto simp: updateGroup_def onlyGroup_def split: if_splits)

lemma changes_only:
  "onlyGroup grp s (doRemove env grp user g s)" "onlyGroup grp s (doEmpty env grp g s)" "onlyGroup grp s (doAdd env grp user g s)"
  using update_only [of env grp _ s]
  by (auto simp: doRemove_def doEmpty_def doAdd_def Let_def onlyGroup_def split: prod.split bool.split)

lemma changeGroup_only:
  assumes "changeGroup env command args grp s = Some t"
  shows "(\<forall>k. k \<noteq> grp \<longrightarrow> gmMem t k = gmMem s k) \<and> gmLocks t = removeAll grp (gmLocks s)"
proof -
  obtain r g s1 where c: "checkoutGroup env grp True s = ((r, g), s1)" by (metis prod.collapse)
  note k = checkout_keeps [OF c]
  show ?thesis
  proof (cases "r = Ok")
    case False
    then show ?thesis using assms c k by (auto simp: changeGroup_def)
  next
    case True
    have "\<exists>u. t = checkinGroup grp u \<and> onlyGroup grp s1 u"
      using assms c True changes_only by (auto simp: changeGroup_def split: if_splits option.splits)
    then show ?thesis using k True by (auto simp: onlyGroup_def)
  qed
qed

lemma doUserGroups_keeps: "doUserGroups env cfg args s = (r, t) \<Longrightarrow> gmMem t = gmMem s \<and> gmLocks t = gmLocks s"
  by (auto simp: doUserGroups_def split: list.splits if_splits option.splits)

lemma readGroup_keeps:
  assumes "readGroup env command grp cfgspec s = (r, t)" shows "gmMem t = gmMem s \<and> gmLocks t = removeAll [] (gmLocks s) \<or> gmMem t = gmMem s \<and> gmLocks t = gmLocks s"
proof -
  obtain r1 g s1 where c: "checkoutGroup env grp False s = ((r1, g), s1)" by (metis prod.collapse)
  show ?thesis using assms c checkout_keeps [OF c] by (auto simp: readGroup_def doShow_def Let_def split: if_splits)
qed

lemma doList_keeps [simp]: "gmMem (doList env cfg s) = gmMem s" "gmLocks (doList env cfg s) = gmLocks s"
  by (simp_all add: doList_def Let_def)

text \<open>What a call of the plugin does to the memory and the locks.\<close>

definition membersKept :: "groupState \<Rightarrow> groupState \<Rightarrow> bool" where
  "membersKept s t \<longleftrightarrow> gmMem t = gmMem s \<and> set (gmLocks t) \<subseteq> set (gmLocks s)"

lemma membersKept_simps [simp]: "membersKept s s" "membersKept s (sayOut m s)" "membersKept s (doList env cfg s)"
  by (simp_all add: membersKept_def)

lemma groupCommand_effect:
  assumes "groupCommand env cfg command args grp cfgspec s = Some (r, t)"
  shows "membersKept s t \<or> changesGroup command \<and> mayChange env cfgspec \<and> changeGroup env command args grp s = Some t"
proof (cases "command \<in> {''show'', ''_authorize''}")
  case True
  then have "readGroup env command grp cfgspec s = (r, t)" using assms by (auto simp: groupCommand_def)
  then show ?thesis using readGroup_keeps by (fastforce simp: membersKept_def)
next
  case False
  then show ?thesis using assms by (auto simp: groupCommand_def split: if_splits)
qed

lemma handler_effect:
  assumes "groupsHandler env command args s = Some (r, t)"
  shows "membersKept s t \<or>
    (\<exists>cfg grp. geConfig env = Some cfg \<and> groupArg command args = Some grp \<and> (grp = [] \<or> map_of cfg grp \<noteq> None) \<and>
       changesGroup command \<and> mayChange env (if grp = [] then emptyGroup else the (map_of cfg grp)) \<and>
       changeGroup env command args grp s = Some t)"
proof (cases "geConfig env")
  case None
  then show ?thesis using assms by (auto simp: groupsHandler_def split: if_splits)
next
  case (Some cfg)
  show ?thesis
  proof (cases "command = ''_init'' \<or> command = ''_usergroups'' \<or> groupArg command args = None")
    case True
    then show ?thesis using assms Some doUserGroups_keeps [of env cfg args s r t]
      by (auto simp: groupsHandler_def membersKept_def split: if_splits)
  next
    case False
    then obtain grp where grp: "groupArg command args = Some grp" by blast
    show ?thesis
    proof (cases "grp \<noteq> [] \<and> map_of cfg grp = None \<or> command = ''_authorize'' \<and> grp = []")
      case True
      then have "membersKept s t" using assms Some grp False by (auto simp: groupsHandler_def split: if_splits)
      then show ?thesis by blast
    next
      case found: False
      then have "groupCommand env cfg command args grp (if grp = [] then emptyGroup else the (map_of cfg grp)) s = Some (r, t)"
        using assms Some grp False unfolding groupsHandler_def by (simp split: if_splits)
      then show ?thesis using groupCommand_effect Some grp found by blast
    qed
  qed
qed

text \<open>
  C21. Members are only changed by those who may: when a call of the plugin changes what is remembered of a group, the command adds, removes or
  empties that group, the group is the one that is named, and the user is an administrator of the robot or, by the
  configuration, of this group. No call keeps a lock on a group that was not held before.
\<close>

theorem members_guarded:
  assumes "groupsHandler env command args s = Some (r, t)"
  shows "set (gmLocks t) \<subseteq> set (gmLocks s) \<and>
    (gmMem t k \<noteq> gmMem s k \<longrightarrow>
       changesGroup command \<and> groupArg command args = Some k \<and>
       (geBotAdmin env \<or> (\<exists>cfg g. geConfig env = Some cfg \<and> map_of cfg k = Some g \<and> geUser env \<in> set (gsAdministrators g))))"
proof (cases "membersKept s t")
  case True
  then show ?thesis by (simp add: membersKept_def)
next
  case False
  then obtain cfg grp where c: "geConfig env = Some cfg" "groupArg command args = Some grp" "changesGroup command"
    and spec: "grp = [] \<or> map_of cfg grp \<noteq> None" "mayChange env (if grp = [] then emptyGroup else the (map_of cfg grp))"
    and change: "changeGroup env command args grp s = Some t"
    using handler_effect [OF assms] by blast
  have only: "\<forall>j. j \<noteq> grp \<longrightarrow> gmMem t j = gmMem s j" "gmLocks t = removeAll grp (gmLocks s)"
    using changeGroup_only [OF change] by simp_all
  have admin: "geBotAdmin env \<or> (\<exists>g. map_of cfg grp = Some g \<and> geUser env \<in> set (gsAdministrators g))"
    using spec by (auto simp: mayChange_def emptyGroup_def split: if_splits)
  show ?thesis
  proof (intro conjI impI)
    show "set (gmLocks t) \<subseteq> set (gmLocks s)" using only(2) by auto
  next
    assume "gmMem t k \<noteq> gmMem s k"
    then have "k = grp" using only(1) by blast
    then show "changesGroup command" "groupArg command args = Some k"
      "geBotAdmin env \<or> (\<exists>cfg g. geConfig env = Some cfg \<and> map_of cfg k = Some g \<and> geUser env \<in> set (gsAdministrators g))"
      using c admin by blast+
  qed
qed

text \<open>
  The plugin authorizes exactly the members: asked for a group, it answers with success if and only if the group is configured and can be read,
  and the user is a configured administrator or member of it or was added to it. It changes no memory.
\<close>

theorem authorizes_members:
  assumes "groupsHandler env ''_authorize'' (plugin # grp # rest) s = Some (r, t)"
  shows "(r = Success \<longleftrightarrow>
      grp \<noteq> [] \<and> geCheckout env grp = Ok \<and>
      (\<exists>cfg g. geConfig env = Some cfg \<and> map_of cfg grp = Some g \<and>
         userInGroup (geUser env) g (case gmMem s grp of None \<Rightarrow> emptyGroup | Some d \<Rightarrow> d))) \<and>
    gmMem t = gmMem s"
proof (cases "geConfig env")
  case None
  then show ?thesis using assms by (simp add: groupsHandler_def)
next
  case (Some cfg)
  show ?thesis
  proof (cases "grp = [] \<or> map_of cfg grp = None")
    case True
    then show ?thesis using assms Some by (cases "grp = []") (simp_all add: groupsHandler_def groupArg_def argAt_def)
  next
    case False
    then obtain g where g: "map_of cfg grp = Some g" by blast
    have "readGroup env ''_authorize'' grp g s = (r, t)"
      using assms Some False g by (simp add: groupsHandler_def groupCommand_def groupArg_def argAt_def)
    then show ?thesis using Some False g by (auto simp: readGroup_def checkoutGroup_def split: if_splits)
  qed
qed

lemma mset_removeUser: "user \<in> set xs \<Longrightarrow> mset (removeUser user xs) = mset xs - {#user#}"
proof -
  assume u: "user \<in> set xs"
  obtain ys zs where x: "xs = ys @ user # zs" "user \<notin> set ys" using split_list_first [OF u] by blast
  have "takeWhile (\<lambda>x. x \<noteq> user) xs = ys" using x by (simp add: takeWhile_append)
  then have "removeUser user xs = butlast ((ys @ user # zs)[length ys := last (ys @ user # zs)])"
    using u x(1) by (simp add: removeUser_def)
  then have "removeUser user xs = (if zs = [] then ys else ys @ last zs # butlast zs)" by (simp add: butlast_append)
  moreover have "mset zs = add_mset (last zs) (mset (butlast zs))" if "zs \<noteq> []"
    using that by (metis append_butlast_last_id mset.simps mset_append union_mset_add_mset_right add.right_neutral)
  ultimately show ?thesis using x by auto
qed

lemma set_removeUser: "distinct xs \<Longrightarrow> distinct (removeUser user xs) \<and> set (removeUser user xs) = set xs - {user}"
proof (cases "user \<in> set xs")
  case True
  assume d: "distinct xs"
  have m: "mset (removeUser user xs) = mset (remove1 user xs)" using mset_removeUser [OF True] by simp
  then have "set (removeUser user xs) = set (remove1 user xs)" by (rule mset_eq_setD)
  moreover have "distinct (removeUser user xs)" using mset_eq_imp_distinct_iff [OF m] d by simp
  ultimately show ?thesis using d by simp
qed (simp add: removeUser_def)

text \<open>The users a group remembers.\<close>

definition remembered :: "groupState \<Rightarrow> string \<Rightarrow> string list" where
  "remembered s grp = (case gmMem s grp of None \<Rightarrow> [] | Some g \<Rightarrow> gsUsers g)"

lemma changeGroup_ok:
  assumes "geCheckout env grp = Ok" "geUpdate env = Ok"
  shows "\<exists>t. changeGroup env ''add'' (user # rest) grp s = Some t \<and> remembered t grp = fst (addnew (remembered s grp) user)"
    and "\<exists>t. changeGroup env ''remove'' (user # rest) grp s = Some t \<and> remembered t grp = removeUser user (remembered s grp)"
  using assms
  by (auto simp: changeGroup_def checkoutGroup_def argAt_def doAdd_def doRemove_def updateGroup_def addnew_def Let_def remembered_def
      emptyGroup_def removeUser_def split: option.split)

text \<open>
  Adding and removing work: when the brain does, an administrator who adds a user makes the user a remembered member, once, and one who removes
  a user leaves the others, as long as nobody is remembered twice, which both keep.
\<close>

theorem add_remove_members:
  assumes "geCheckout env grp = Ok" and "geUpdate env = Ok" and "geConfig env = Some cfg" and "map_of cfg grp = Some g" and "grp \<noteq> []"
    and "mayChange env g" and "distinct (remembered s grp)"
  shows "(\<exists>t. groupsHandler env ''add'' [user, grp] s = Some (Normal, t) \<and> distinct (remembered t grp) \<and>
      set (remembered t grp) = insert user (set (remembered s grp))) \<and>
    (\<exists>t. groupsHandler env ''remove'' [user, grp] s = Some (Normal, t) \<and> distinct (remembered t grp) \<and>
      set (remembered t grp) = set (remembered s grp) - {user})"
proof -
  obtain t1 where t1: "changeGroup env ''add'' [user, grp] grp s = Some t1" "remembered t1 grp = fst (addnew (remembered s grp) user)"
    using changeGroup_ok(1) [OF assms(1,2)] by blast
  obtain t2 where t2: "changeGroup env ''remove'' [user, grp] grp s = Some t2" "remembered t2 grp = removeUser user (remembered s grp)"
    using changeGroup_ok(2) [OF assms(1,2)] by blast
  have "groupsHandler env ''add'' [user, grp] s = Some (Normal, t1)" "groupsHandler env ''remove'' [user, grp] s = Some (Normal, t2)"
    using assms(3-6) t1(1) t2(1) by (simp_all add: groupsHandler_def groupCommand_def groupArg_def argAt_def changesGroup_def)
  moreover have "distinct (remembered t1 grp) \<and> set (remembered t1 grp) = insert user (set (remembered s grp))"
    using t1(2) assms(7) by (auto simp: addnew_def)
  ultimately show ?thesis using t2(2) set_removeUser [OF assms(7)] by auto
qed

definition demoGroups :: groupEnv where
  "demoGroups = \<lparr>geUser = ''ann'', geBotAdmin = False, geConfig = Some [(''ops'', \<lparr>gsAdministrators = [''ann''], gsUsers = [''bob'']\<rparr>)],
     geCheckout = (\<lambda>k. Ok), geUpdate = Ok, geSetParameter = (\<lambda>k. True)\<rparr>"

definition demoMembers :: groupState where
  "demoMembers = \<lparr>gmMem = [''ops'' \<mapsto> \<lparr>gsAdministrators = [], gsUsers = [''cid'', ''dan'', ''eve'']\<rparr>], gmLocks = [], gmOut = [], gmParams = []\<rparr>"

theorem add_remove_members_witness:
  "\<exists>t. groupsHandler demoGroups ''remove'' [''cid'', ''ops''] demoMembers = Some (Normal, t) \<and> set (remembered t ''ops'') = {''dan'', ''eve''}"
proof -
  have "geCheckout demoGroups ''ops'' = Ok" "geUpdate demoGroups = Ok" "distinct (remembered demoMembers ''ops'')"
    "geConfig demoGroups = Some [(''ops'', \<lparr>gsAdministrators = [''ann''], gsUsers = [''bob'']\<rparr>)]"
    "map_of [(''ops'', \<lparr>gsAdministrators = [''ann''], gsUsers = [''bob'']\<rparr>)] ''ops'' = Some \<lparr>gsAdministrators = [''ann''], gsUsers = [''bob'']\<rparr>"
    "mayChange demoGroups \<lparr>gsAdministrators = [''ann''], gsUsers = [''bob'']\<rparr>" "''ops'' \<noteq> []"
    by (simp_all add: demoGroups_def demoMembers_def remembered_def mayChange_def)
  from add_remove_members [OF this(1,2,4,5,7,6,3), of "''cid''"]
  show ?thesis by (auto simp: demoMembers_def remembered_def)
qed

theorem members_guarded_witness:
  "\<exists>r t. groupsHandler (demoGroups\<lparr>geUser := ''bob''\<rparr>) ''add'' [''bob'', ''ops''] demoMembers = Some (r, t) \<and> gmMem t ''ops'' = gmMem demoMembers ''ops''"
proof -
  let ?env = "demoGroups\<lparr>geUser := ''bob''\<rparr>"
  have "groupsHandler ?env ''add'' [''bob'', ''ops''] demoMembers \<noteq> None" by code_simp
  then obtain r t where t: "groupsHandler ?env ''add'' [''bob'', ''ops''] demoMembers = Some (r, t)" by fastforce
  have "gmMem t ''ops'' = gmMem demoMembers ''ops''"
  proof (rule ccontr)
    assume "gmMem t ''ops'' \<noteq> gmMem demoMembers ''ops''"
    then have "geBotAdmin ?env \<or> (\<exists>cfg g. geConfig ?env = Some cfg \<and> map_of cfg ''ops'' = Some g \<and> geUser ?env \<in> set (gsAdministrators g))"
      using members_guarded [OF t, of "''ops''"] by blast
    then show False by (auto simp: demoGroups_def)
  qed
  then show ?thesis using t by blast
qed

theorem authorizes_members_witness:
  "\<exists>t. groupsHandler (demoGroups\<lparr>geUser := ''eve''\<rparr>) ''_authorize'' [''plug'', ''ops'', ''cmd''] demoMembers = Some (Success, t)"
proof -
  let ?env = "demoGroups\<lparr>geUser := ''eve''\<rparr>"
  have "groupsHandler ?env ''_authorize'' [''plug'', ''ops'', ''cmd''] demoMembers \<noteq> None" by code_simp
  then obtain r t where t: "groupsHandler ?env ''_authorize'' [''plug'', ''ops'', ''cmd''] demoMembers = Some (r, t)" by fastforce
  have "r = Success" using authorizes_members [OF t] by (simp add: demoGroups_def demoMembers_def userInGroup_def)
  then show ?thesis using t by blast
qed

text \<open>A failed update of an addition is reported to the user as done, and audited as done.\<close>

lemma failed_add_reported_done:
  assumes "geUpdate env \<noteq> Ok" "user \<notin> set (gsUsers g)"
  shows "gmMem (doAdd env grp user g s) = gmMem s \<and>
    GSay (''Ok, I added '' @ user @ '' to the '' @ grp @ '' group'') \<in> set (gmOut (doAdd env grp user g s))"
  using assms by (simp add: doAdd_def addnew_def updateGroup_def sayOut_def Let_def)

end
