(* ===== verification/Spec2Isabelle.thy ===== *)
theory Spec2Isabelle
  imports MatcherInput BrainCacheSync BrainCrypt BrainLoopInv DatumCalls BrainLock Pipeline Exclusive DispatchProps Elevators AutoJobs RuntimeStops ConnectorSteps HelpFallback TaskLoad LineBuffer GroupMembers
begin

text \<open>
  A verification library for the core of Gopherbot, a chat robot in Go (package \<open>bot\<close> and the API
  package \<open>robot\<close>). A connector hands the robot the messages of a chat; the robot decides who sent each
  and whether it is addressed, matches it against the commands of its plugins, runs what matched as a
  pipeline of tasks under an access policy, and keeps memories for those tasks in a brain. The theories
  follow these four parts; definitions keep the names of the code, and PROJECT.json maps each to its
  lines.

  Common ground. \<^theory_text>\<open>Prelude\<close> has Go's string functions on byte strings, the state-and-error monad
  that stands for Go's error returns, the return codes of robot/robot\_constants.go and the collections of
  facts. \<^theory_text>\<open>Regex\<close> is an executable matcher for regular expressions with its language semantics. \<^theory_text>\<open>Utf8\<close> is
  what encoding/json does to the strings of a value it writes: bytes that are not UTF-8 become U+FFFD.

  Matching (bot/simple\_matcher.go, dispatch.go, tasks.go). \<^theory_text>\<open>MatcherSyntax\<close> holds the tree of a
  SimpleMatcher specification and the queries on it; \<^theory_text>\<open>MatcherParse\<close> the recursive-descent parser with
  every error, whose fuel is proved enough for every input (compilation is total, and its result is well
  formed); \<^theory_text>\<open>MatcherRun\<close> matching with Go's shared argument arrays as an explicit heap; \<^theory_text>\<open>MatcherAlias\<close>
  relates it to matching with copied lists, exactly for up to three captures, and shows what aliasing does
  beyond; \<^theory_text>\<open>MatcherArgs\<close> shows what the arguments of a match are; \<^theory_text>\<open>MatcherInput\<close> is the entry point of
  the dispatcher with its candidate spellings.

  Memories (bot/brain.go, membrain.go, brain\_cache.go, brain\_lock.go, aescrypt.go, bot\_process.go,
  ephemeral.go). \<^theory_text>\<open>BrainStore\<close> states the contract of a brain provider as a locale, with the in-memory
  brain as an instance. \<^theory_text>\<open>BrainCache\<close> is the disk cache with its outbox in front of a remote provider,
  where any file or remote operation may fail; \<^theory_text>\<open>BrainCacheView\<close> shows that without failures it meets the
  contract of a provider, \<^theory_text>\<open>BrainCacheInv\<close> the invariants that hold with failures, \<^theory_text>\<open>BrainCacheSync\<close>
  synchronisation, its budget, restart and the ways it gets stuck. \<^theory_text>\<open>BrainDatum\<close> and \<^theory_text>\<open>BrainCrypt\<close>
  have encryption and the choice of the key at startup, with a key file that may be a link that leads nowhere;
  the cipher is a parameter whose only law is that opening a sealed text gives it back. \<^theory_text>\<open>BrainLoop\<close> is the
  loop of \<open>runBrain\<close> that hands out locks on memories, with the clients' deletes, which go to the provider past the
  loop; \<^theory_text>\<open>BrainLoopInv\<close> its invariants over all interleavings of clients (no update is lost but to
  such a delete, waiters are served), \<^theory_text>\<open>DatumCalls\<close> what a stored memory survives. \<^theory_text>\<open>BrainLock\<close> is the lock between robots on one brain, \<^theory_text>\<open>Ephemeral\<close> the memories of a
  conversation and their saved form; \<^theory_text>\<open>SavedKeys\<close> states as a locale what makes such a saved form, a JSON
  object with keys put together from several fields, readable again.

  Pipelines (bot/tasks.go, available.go, allow\_hidden.go, authorize.go, elevate.go, calltask.go,
  run\_pipelines.go, exclusive.go). \<^theory_text>\<open>Tasks\<close> has the data model and the access policy; \<^theory_text>\<open>Security\<close> the
  checks before a task runs, with the call of an authorizer or elevator as a locale; \<^theory_text>\<open>TaskEnv\<close> the
  environment and parameters of a task; \<^theory_text>\<open>Calls\<close> the call of a task and the Robot API, where the code of
  a task is an arbitrary tree of API calls, and the interpretation of that locale; \<^theory_text>\<open>Pipeline\<close> the
  stages of a pipeline and the theorem that nothing gated runs unchecked; \<^theory_text>\<open>Exclusive\<close> the exclusive
  locks of many pipelines as a step relation.

  Messages (bot/handler.go, bot\_regexes.go, user\_validation.go, channel\_maps.go, replyprompt.go,
  subscribe\_thread.go, jobrun.go, jobbuiltins.go, dispatch.go). \<^theory_text>\<open>Directory\<close> looks up users and channels;
  \<^theory_text>\<open>Incoming\<close> is \<open>IncomingMessage\<close>: the sender, the address, the validation codes and the worker it
  makes. \<^theory_text>\<open>Replies\<close> has the prompts that wait for a reply, as operations on the shared map and as a step
  relation of all prompts with their channels, in which a prompt that looked before a shutdown registers after it; \<^theory_text>\<open>Subscriptions\<close> the plugins that own a thread; \<^theory_text>\<open>Jobs\<close> the
  triggers and the run-job command; \<^theory_text>\<open>Dispatch\<close> is \<open>handleMessage\<close>, stage by stage in the order of the
  code. Its state is that of the robot (\<open>robotState\<close>) with the shared maps (\<open>sharedState\<close>: conversation
  memories, subscriptions, prompts) and a log of what was started. \<^theory_text>\<open>DispatchProps\<close> composes the parts:
  every stage is a step of the robot and starts at most one pipeline, so that what \<^theory_text>\<open>Incoming\<close> shows of
  the sender and \<^theory_text>\<open>Pipeline\<close> of the checks gives one theorem from the connector to the task.
  \<^theory_text>\<open>AutoJobs\<close> has the jobs no message starts: those of queues, schedules and the start of the robot; an argument
  without an expression panics there as it does in the code.

  Around them. \<^theory_text>\<open>Elevators\<close> models the built-in elevators, one-time codes and the approval of another
  user (bot/builtin\_totp.go, builtin\_userapproval.go): the answers a locale of \<^theory_text>\<open>Security\<close> leaves open.
  \<^theory_text>\<open>Runtimes\<close> is the table of connectors with its operations as a caller on its own sees them
  (bot/connector\_runtime.go), with the theorem that a reload is exact; \<^theory_text>\<open>ConnectorSteps\<close> the critical sections
  these operations consist of, in any interleaving, with the theorem that the primary connector keeps running and
  the runs that a reload and a start leave behind when they overlap; \<^theory_text>\<open>RuntimeStops\<close> the queue
  providers (bot/queue\_runtime.go) and the step relation of callers that stop one runtime at once.

  Help (bot/builtins.go, help\_metadata\_api.go). \<^theory_text>\<open>HelpDistance\<close> is the banded edit distance over two rows,
  proved equal to the least number of edits; \<^theory_text>\<open>HelpSearch\<close> scores and ranks commands; \<^theory_text>\<open>HelpRender\<close> collects
  the commands a user may see and renders the help in chunks; \<^theory_text>\<open>HelpFallback\<close> is the advice on a mistyped
  command. The theorems say that a command named exactly and one with a typo are found, that no line of help is
  lost, and that neither help nor advice names a command the user has no access to, as long as the commands have
  lower-case names (the help compares the lower-cased name with the list of commands to authorize). Distances and scores
  are natural numbers: no line of a chat is long enough to overflow Go's int.

  Configuration (bot/config\_load.go, taskconf.go, timeouts.go, the task settings of conf.go). A parsed YAML file is a tree of
  values. \<^theory_text>\<open>ConfigMerge\<close> merges files over defaults and gives templates their variables and secrets;
  \<^theory_text>\<open>TaskConf\<close> decodes the keys of one plugin or job and checks the result; \<^theory_text>\<open>TaskLoad\<close> puts together the list of
  all tasks. Its theorems are what the rest takes for granted: the names of the list resolve (\<open>wfTaskList\<close> of \<^theory_text>\<open>Tasks\<close>),
  and a plugin or job that is enabled passed all checks. Its last lemmas show what a reload gets wrong.

  Beside the engine. \<^theory_text>\<open>GroupMembers\<close> is the groups plugin (goplugins/groups/groups.go), the authorizer that comes with the
  robot; its theorems say who may change the members of a group and who is authorized. \<^theory_text>\<open>LineBuffer\<close> is the circular
  buffer of log lines (modules/linebuffer): an array that wraps around, proved to hold the newest lines that fit.

  Bounds. Parsing and matching carry fuel that is proved to be enough for the input at hand. The number
  of passes of a brain flush and the turns of a pipeline are arguments; the liveness theorems state how
  many are enough. The code of a task may call for elevation, which calls a task again, so pipelines in
  general need not end, and their safety theorems hold for every amount of fuel (\<open>meFuel\<close> for a message).
  What the code of a task does to the shared maps (\<open>meWorld\<close>), the groups an authorizer knows (\<open>meGroups\<close>)
  and what users answer to a prompt for a job's argument (\<open>meAnswer\<close>) are arguments of the handler, and
  the theorems hold for all of them.

  Not modelled. Connectors, the HTTP and RPC transports to external tasks, process and privilege
  separation, command-line tools, the setup wizard and the MCP server talk to the outside world and keep
  little state of their own; the YAML parser, the template engine and the validation of files against Go structs are
  libraries, and the settings of robot.yaml other than those of tasks are copied from one record to another. Logs, job
  histories and the pipeline watchdog only observe. Byte strings stand for Go strings, with ASCII case and white
  space. Weak memory and data races are out of scope: a critical section of the code is one step.
\<close>

end
